(* ===== verification/Prelude.thy ===== *)
theory Prelude
  imports Main "HOL-Library.Sublist"
begin

text \<open>
  Shared vocabulary of the development: the JavaScript string, array and \<open>Set\<close> operations the
  modelled TypeScript uses, the helpers of \<open>packages/normalization-core\<close> built on them, and the
  list lemmas several components need.

  A JavaScript string is a list of characters (\<open>string\<close>); its code units are restricted to
  U+0000 .. U+00FF, which is what \<open>char\<close> holds.  \<open>undefined\<close> and \<open>null\<close> are \<open>None\<close>.
\<close>

named_theorems js_simps \<open>evaluation rules of the JavaScript vocabulary\<close>
named_theorems set_simps \<open>the set of elements computed by an array operation\<close>

type_synonym ms = int

section \<open>Optional values\<close>

text \<open>The nullish operator \<open>a ?? b\<close>.\<close>

definition nullish :: "'a option \<Rightarrow> 'a \<Rightarrow> 'a" where
  "nullish a b = (case a of None \<Rightarrow> b | Some x \<Rightarrow> x)"

lemma nullish_simps [simp, js_simps]:
  "nullish None b = b"
  "nullish (Some x) b = x"
  by (simp_all add: nullish_def)

text \<open>The nullish operator with an optional right operand.\<close>

definition orElse :: "'a option \<Rightarrow> 'a option \<Rightarrow> 'a option" where
  "orElse a b = (case a of None \<Rightarrow> b | Some x \<Rightarrow> Some x)"

lemma orElse_simps [simp, js_simps]:
  "orElse None b = b"
  "orElse (Some x) b = Some x"
  by (simp_all add: orElse_def)

section \<open>Strings\<close>

text \<open>
  The white space \<open>String.prototype.trim\<close> removes, among the code units of \<open>char\<close>: tab, line
  feed, vertical tab, form feed, carriage return, space and no-break space.
\<close>

definition js_space :: "char \<Rightarrow> bool" where
  "js_space c \<longleftrightarrow> of_char c \<in> {9, 10, 11, 12, 13, 32, 160 :: nat}"

definition js_trim :: "string \<Rightarrow> string" where
  "js_trim s = rev (dropWhile js_space (rev (dropWhile js_space s)))"

definition js_starts_with :: "string \<Rightarrow> string \<Rightarrow> bool" where
  "js_starts_with s p \<longleftrightarrow> prefix p s"

lemma js_starts_with_append [simp]: "js_starts_with (p @ s) p"
  by (simp add: js_starts_with_def)

lemma js_starts_with_iff: "js_starts_with s p \<longleftrightarrow> (\<exists>t. s = p @ t)"
  by (auto simp: js_starts_with_def prefix_def)

lemma js_trim_Nil [simp]: "js_trim [] = []"
  by (simp add: js_trim_def)

lemma dropWhile_hd: "dropWhile P xs \<noteq> [] \<Longrightarrow> \<not> P (hd (dropWhile P xs))"
  by (rule hd_dropWhile)

lemma js_trim_hd: "js_trim s \<noteq> [] \<Longrightarrow> \<not> js_space (hd (js_trim s))"
proof -
  assume ne: "js_trim s \<noteq> []"
  define t where "t = dropWhile js_space s"
  have t: "js_trim s = rev (dropWhile js_space (rev t))"
    by (simp add: js_trim_def t_def)
  obtain pre where pre: "rev t = pre @ dropWhile js_space (rev t)"
    by (metis takeWhile_dropWhile_id)
  then have "t = js_trim s @ rev pre"
    by (metis t rev_append rev_rev_ident)
  with ne have "t \<noteq> []" and "hd t = hd (js_trim s)"
    by (auto simp: hd_append)
  then show ?thesis
    using dropWhile_hd [of js_space s] by (simp add: t_def)
qed

lemma js_trim_last: "js_trim s \<noteq> [] \<Longrightarrow> \<not> js_space (last (js_trim s))"
  using dropWhile_hd [of js_space "rev (dropWhile js_space s)"]
  by (simp add: js_trim_def last_rev)

lemma js_trim_id:
  "s = [] \<or> (\<not> js_space (hd s) \<and> \<not> js_space (last s)) \<Longrightarrow> js_trim s = s"
proof -
  assume a: "s = [] \<or> (\<not> js_space (hd s) \<and> \<not> js_space (last s))"
  then have "dropWhile js_space s = s" and "dropWhile js_space (rev s) = rev s"
    by (auto simp: dropWhile_eq_self_iff hd_rev)
  then show ?thesis by (simp add: js_trim_def)
qed

lemma js_trim_idem [simp]: "js_trim (js_trim s) = js_trim s"
  by (rule js_trim_id) (use js_trim_hd js_trim_last in blast)

text \<open>
  \<open>toLowerCase\<close>: a character stands for one code unit up to U+00FF, and in that range the capitals are
  those of ASCII and U+00C0 to U+00DE without the multiplication sign U+00D7.
\<close>

definition capitalCode :: "nat \<Rightarrow> bool" where
  "capitalCode n \<longleftrightarrow> 65 \<le> n \<and> n \<le> 90 \<or> 192 \<le> n \<and> n \<le> 222 \<and> n \<noteq> 215"

definition js_lower_char :: "char \<Rightarrow> char" where
  "js_lower_char c = (let n = of_char c :: nat in if capitalCode n then char_of (n + 32) else c)"

lemma of_char_js_lower:
  "of_char (js_lower_char c) = (if capitalCode (of_char c) then of_char c + 32 else of_char c :: nat)"
  by (simp add: js_lower_char_def capitalCode_def Let_def)

lemma js_lower_char_id: "\<not> capitalCode (of_char c) \<Longrightarrow> js_lower_char c = c"
  by (simp add: js_lower_char_def)

definition js_lower :: "string \<Rightarrow> string" where
  "js_lower s = map js_lower_char s"

text \<open>\<open>normalizeNullableString\<close> / \<open>normalizeOptionalString\<close> on an optional string.\<close>

definition normalizeOptionalString :: "string option \<Rightarrow> string option" where
  "normalizeOptionalString v =
     (case v of None \<Rightarrow> None
      | Some s \<Rightarrow> (let trimmed = js_trim s in if trimmed = [] then None else Some trimmed))"

definition normalizeLowercaseStringOrEmpty :: "string option \<Rightarrow> string" where
  "normalizeLowercaseStringOrEmpty v =
     nullish (map_option js_lower (normalizeOptionalString v)) []"

lemma normalizeOptionalString_Some:
  "normalizeOptionalString v = Some t \<Longrightarrow> t \<noteq> [] \<and> js_trim t = t"
  by (auto simp: normalizeOptionalString_def Let_def split: option.splits if_splits)

section \<open>Allowlist values\<close>

text \<open>
  Configuration lists hold strings and numbers; \<open>String(entry)\<close> turns a number into its decimal
  digits (identifiers are integers in the safe range, where the digits are exact).
\<close>

datatype js_entry = JsString string | JsInt int

fun nat_digits :: "nat \<Rightarrow> string" where
  "nat_digits n =
     (if n < 10 then [char_of (48 + n)] else nat_digits (n div 10) @ [char_of (48 + n mod 10)])"

declare nat_digits.simps [simp del]

text \<open>The number a string of digits stands for.\<close>

definition digitsValue :: "string \<Rightarrow> nat" where
  "digitsValue s = foldl (\<lambda>a c. 10 * a + (of_char c - 48)) 0 s"

lemma digitsValue_digits: "digitsValue (nat_digits n) = n"
proof (induction n rule: nat_digits.induct)
  case (1 n)
  have d: "(of_char (char_of (48 + k) :: char) :: nat) - 48 = k" if "k < 10" for k :: nat
    using that by (simp only: of_char_of) simp
  show ?case
  proof (cases "n < 10")
    case True
    then show ?thesis using d [of n] by (subst nat_digits.simps) (simp add: digitsValue_def)
  next
    case False
    then have "digitsValue (nat_digits (n div 10)) = n div 10" by (rule 1)
    with False show ?thesis
      using d [of "n mod 10"] by (subst nat_digits.simps) (simp add: digitsValue_def)
  qed
qed

lemma nat_digits_inj: "nat_digits m = nat_digits n \<longleftrightarrow> m = n"
  by (metis digitsValue_digits)

lemma nat_digits_digit: "c \<in> set (nat_digits n) \<Longrightarrow> 48 \<le> (of_char c :: nat) \<and> (of_char c :: nat) \<le> 57"
  by (induction n rule: nat_digits.induct)
    (subst (asm) (2) nat_digits.simps, auto split: if_splits simp: of_char_of)

lemma nat_digits_ne [simp]: "nat_digits n \<noteq> []"
  by (subst nat_digits.simps) simp

fun js_String :: "js_entry \<Rightarrow> string" where
  "js_String (JsString s) = s"
| "js_String (JsInt i) = (if i < 0 then CHR ''-'' # nat_digits (nat (- i)) else nat_digits (nat i))"

definition normalizeStringEntries :: "js_entry list \<Rightarrow> string list" where
  "normalizeStringEntries xs =
     filter (\<lambda>s. s \<noteq> [])
       (map (\<lambda>e. nullish (normalizeOptionalString (Some (js_String e))) []) xs)"

lemma normalizeStringEntries_trimmed:
  "s \<in> set (normalizeStringEntries xs) \<Longrightarrow> s \<noteq> [] \<and> js_trim s = s"
  by (auto simp: normalizeStringEntries_def normalizeOptionalString_def Let_def)

lemma normalizeStringEntries_simps [simp, js_simps]:
  "normalizeStringEntries [] = []"
  "normalizeStringEntries (xs @ ys) = normalizeStringEntries xs @ normalizeStringEntries ys"
  by (simp_all add: normalizeStringEntries_def)

lemma normalizeStringEntries_id:
  "\<forall>s \<in> set ss. s \<noteq> [] \<and> js_trim s = s \<Longrightarrow>
   normalizeStringEntries (map JsString ss) = ss"
  by (induction ss) (auto simp: normalizeStringEntries_def normalizeOptionalString_def Let_def)

lemma normalizeStringEntries_idem:
  "normalizeStringEntries (map JsString (normalizeStringEntries xs)) = normalizeStringEntries xs"
  by (rule normalizeStringEntries_id) (auto dest: normalizeStringEntries_trimmed)

section \<open>Sets in insertion order\<close>

text \<open>A JavaScript \<open>Set\<close> is the list of its members in insertion order.\<close>

definition set_add :: "'a \<Rightarrow> 'a list \<Rightarrow> 'a list" where
  "set_add x s = (if x \<in> set s then s else s @ [x])"

definition uniqueValues :: "'a list \<Rightarrow> 'a list" where
  "uniqueValues xs = foldl (\<lambda>s x. set_add x s) [] xs"

lemma set_set_add [simp, set_simps]: "set (set_add x s) = insert x (set s)"
  by (auto simp: set_add_def)

lemma distinct_set_add [simp]: "distinct (set_add x s) \<longleftrightarrow> distinct s"
  by (auto simp: set_add_def)

lemma set_foldl_set_add: "set (foldl (\<lambda>s x. set_add x s) s xs) = set s \<union> set xs"
  by (induction xs arbitrary: s) auto

lemma distinct_foldl_set_add:
  "distinct s \<Longrightarrow> distinct (foldl (\<lambda>s x. set_add x s) s xs)"
  by (induction xs arbitrary: s) auto

lemma foldl_set_add_id:
  "distinct xs \<Longrightarrow> set s \<inter> set xs = {} \<Longrightarrow> foldl (\<lambda>s x. set_add x s) s xs = s @ xs"
  by (induction xs arbitrary: s) (auto simp: set_add_def)

lemma set_uniqueValues [simp, set_simps]: "set (uniqueValues xs) = set xs"
  by (simp add: uniqueValues_def set_foldl_set_add)

lemma distinct_uniqueValues [simp]: "distinct (uniqueValues xs)"
  by (simp add: uniqueValues_def distinct_foldl_set_add)

lemma uniqueValues_id [simp]: "distinct xs \<Longrightarrow> uniqueValues xs = xs"
  by (simp add: uniqueValues_def foldl_set_add_id)

lemma uniqueValues_Nil_iff [simp]: "uniqueValues xs = [] \<longleftrightarrow> xs = []"
  by (metis set_empty set_uniqueValues)

text \<open>\<open>Set.prototype.delete\<close> on the insertion-ordered list.\<close>

lemma set_removeAll_distinct [set_simps]: "set (removeAll x xs) = set xs - {x}"
  by simp

section \<open>List lemmas\<close>

lemma find_SomeD: "find P xs = Some x \<Longrightarrow> x \<in> set xs \<and> P x"
  by (induction xs) (auto split: if_splits)

lemma find_None_all: "find P xs = None \<longleftrightarrow> (\<forall>x \<in> set xs. \<not> P x)"
  by (induction xs) auto

lemma sorted_wrt_filter_mono: "sorted_wrt R xs \<Longrightarrow> sorted_wrt R (filter P xs)"
  by (rule sorted_wrt_filter)

text \<open>\<open>Array.prototype.findIndex\<close>: the first index that satisfies the predicate, if any.\<close>

fun find_index :: "('a \<Rightarrow> bool) \<Rightarrow> 'a list \<Rightarrow> nat option" where
  "find_index P [] = None"
| "find_index P (x # xs) = (if P x then Some 0 else map_option Suc (find_index P xs))"

lemma find_index_None: "find_index P xs = None \<longleftrightarrow> (\<forall>x \<in> set xs. \<not> P x)"
  by (induction xs) auto

lemma find_index_Some:
  "find_index P xs = Some i \<Longrightarrow> i < length xs \<and> P (xs ! i) \<and> (\<forall>x \<in> set (take i xs). \<not> P x)"
  by (induction xs arbitrary: i) (auto split: if_splits)

text \<open>
  Inserting before the first element that must come later keeps a list sorted, for a transitive
  order in which the other elements come earlier.
\<close>

lemma sorted_wrt_splice:
  assumes "sorted_wrt R xs" and "transp R"
    and "i < length xs" "R x (xs ! i)" "\<forall>y \<in> set (take i xs). R y x"
  shows "sorted_wrt R (take i xs @ x # drop i xs)"
proof -
  have drop: "drop i xs = xs ! i # drop (Suc i) xs"
    using assms(3) by (simp add: Cons_nth_drop_Suc)
  have split: "sorted_wrt R (take i xs)" "sorted_wrt R (drop i xs)"
    using assms(1) by simp_all
  have later: "\<forall>y \<in> set (drop i xs). R x y"
    using split(2) assms(2,4) unfolding drop by (auto dest: transpD)
  have "\<forall>y \<in> set (take i xs). \<forall>z \<in> set (drop i xs). R y z"
    using assms(1) append_take_drop_id [of i xs] sorted_wrt_append by metis
  with split later assms(5) show ?thesis by (auto simp: sorted_wrt_append)
qed

section \<open>Searching and splitting strings\<close>

text \<open>\<open>indexOf\<close> and \<open>lastIndexOf\<close> of a character, and \<open>split\<close> at a character.\<close>

definition js_indexOf :: "char \<Rightarrow> string \<Rightarrow> nat option" where
  "js_indexOf c s = find_index (\<lambda>d. d = c) s"

definition js_lastIndexOf :: "char \<Rightarrow> string \<Rightarrow> nat option" where
  "js_lastIndexOf c s =
     map_option (\<lambda>i. length s - Suc i) (find_index (\<lambda>d. d = c) (rev s))"

fun js_split :: "char \<Rightarrow> string \<Rightarrow> string list" where
  "js_split c [] = [[]]"
| "js_split c (d # s) =
     (if d = c then [] # js_split c s
      else (case js_split c s of [] \<Rightarrow> [[d]] | w # ws \<Rightarrow> (d # w) # ws))"

text \<open>\<open>includes\<close> and \<open>lastIndexOf\<close> of a string.\<close>

definition js_includes :: "string \<Rightarrow> string \<Rightarrow> bool" where
  "js_includes s m \<longleftrightarrow> list_ex (\<lambda>i. prefix m (drop i s)) [0..<Suc (length s)]"

definition js_lastIndexOfString :: "string \<Rightarrow> string \<Rightarrow> nat option" where
  "js_lastIndexOfString m s = find (\<lambda>i. prefix m (drop i s)) (rev [0..<Suc (length s)])"

text \<open>\<open>join\<close>\<close>

definition js_join :: "string \<Rightarrow> string list \<Rightarrow> string" where
  "js_join sep parts = (case parts of [] \<Rightarrow> [] | p # ps \<Rightarrow> p @ concat (map (\<lambda>q. sep @ q) ps))"

lemma js_split_Nil [simp]: "js_split c s \<noteq> []"
  by (induction s) (auto split: list.splits)

lemma js_split_concat: "js_split c (s @ c # t) = js_split c s @ js_split c t"
proof (induction s)
  case Nil
  then show ?case by simp
next
  case (Cons d s)
  then show ?case by (cases "js_split c s") simp_all
qed

lemma js_join_Cons: "js_join sep (p # ps) = (if ps = [] then p else p @ sep @ js_join sep ps)"
  by (cases ps) (simp_all add: js_join_def)

lemma js_split_plain: "c \<notin> set s \<Longrightarrow> js_split c s = [s]"
  by (induction s) auto

lemma js_split_append: "c \<notin> set p \<Longrightarrow> js_split c (p @ c # s) = p # js_split c s"
  by (induction p) auto

lemma js_split_join:
  "parts \<noteq> [] \<Longrightarrow> \<forall>p\<in>set parts. c \<notin> set p \<Longrightarrow> js_split c (js_join [c] parts) = parts"
  by (induction parts) (auto simp: js_join_Cons js_split_plain js_split_append)

lemma js_join_split: "js_join [c] (js_split c s) = s"
proof (induction s)
  case (Cons d s)
  then show ?case
    by (cases "js_split c s") (auto simp: js_join_Cons split: if_splits)
qed (simp add: js_join_def)

end
