(* ===== verification/JsMap.thy ===== *)
theory JsMap
  imports Prelude "HOL-Library.AList"
begin

text \<open>
  A JavaScript \<open>Map\<close>: the list of its entries in insertion order, with distinct keys.
  \<open>set\<close> overwrites the value of a key in place and appends a new key, \<open>delete\<close> drops the entry;
  \<open>AList.update\<close> and \<open>AList.delete\<close> do exactly that.  The locale \<open>keyed_store\<close> is the contract
  the clients (command lanes, rate limiter, dedupe cache) use, and the interpretation \<open>jm\<close>
  discharges it for this representation.
\<close>

type_synonym ('k, 'v) jsmap = "('k \<times> 'v) list"

definition jm_get :: "('k, 'v) jsmap \<Rightarrow> 'k \<Rightarrow> 'v option" where
  "jm_get m k = map_of m k"

definition jm_set :: "'k \<Rightarrow> 'v \<Rightarrow> ('k, 'v) jsmap \<Rightarrow> ('k, 'v) jsmap" where
  "jm_set k v m = AList.update k v m"

definition jm_delete :: "'k \<Rightarrow> ('k, 'v) jsmap \<Rightarrow> ('k, 'v) jsmap" where
  "jm_delete k m = AList.delete k m"

definition jm_keys :: "('k, 'v) jsmap \<Rightarrow> 'k list" where
  "jm_keys m = map fst m"

definition jm_ok :: "('k, 'v) jsmap \<Rightarrow> bool" where
  "jm_ok m \<longleftrightarrow> distinct (jm_keys m)"

section \<open>The contract of a keyed store\<close>

locale keyed_store =
  fixes get :: "'s \<Rightarrow> 'k \<Rightarrow> 'v option"
    and put :: "'k \<Rightarrow> 'v \<Rightarrow> 's \<Rightarrow> 's"
    and del :: "'k \<Rightarrow> 's \<Rightarrow> 's"
    and entry_count :: "'s \<Rightarrow> nat"
    and ok :: "'s \<Rightarrow> bool"
  assumes get_put: "get (put k v s) = (get s)(k := Some v)"
    and get_del: "get (del k s) = (get s)(k := None)"
    and ok_put: "ok s \<Longrightarrow> ok (put k v s)"
    and ok_del: "ok s \<Longrightarrow> ok (del k s)"
    and count_put: "ok s \<Longrightarrow>
      entry_count (put k v s) = (if get s k = None then Suc (entry_count s) else entry_count s)"
    and count_del: "ok s \<Longrightarrow>
      entry_count (del k s) = (if get s k = None then entry_count s else entry_count s - 1)"
begin

lemmas store_simps = get_put get_del

lemma get_put_same: "get (put k v s) k = Some v"
  by (simp add: get_put)

lemma get_put_other: "k' \<noteq> k \<Longrightarrow> get (put k v s) k' = get s k'"
  by (simp add: get_put)

lemma get_del_same: "get (del k s) k = None"
  by (simp add: get_del)

lemma get_del_other: "k' \<noteq> k \<Longrightarrow> get (del k s) k' = get s k'"
  by (simp add: get_del)

lemma get_del_mono: "get (del k s) k' = Some v \<Longrightarrow> get s k' = Some v"
  by (simp add: get_del split: if_splits)

lemma count_put_le: "ok s \<Longrightarrow> entry_count (put k v s) \<le> Suc (entry_count s)"
  by (simp add: count_put)

lemma count_del_le: "ok s \<Longrightarrow> entry_count (del k s) \<le> entry_count s"
  by (simp add: count_del)

lemma ok_touch: "ok s \<Longrightarrow> ok (put k v (del k s))"
  by (simp add: ok_put ok_del)

end

lemma length_delete_distinct:
  "distinct (map fst m) \<Longrightarrow>
   length (AList.delete k m) = (if map_of m k = None then length m else length m - 1)"
proof (induction m)
  case Nil
  then show ?case by simp
next
  case (Cons p m)
  obtain a b where p: "p = (a, b)" by (cases p)
  show ?case
  proof (cases "a = k")
    case True
    with Cons.prems p have "k \<notin> fst ` set m" by auto
    then have "AList.delete k m = m" by (rule delete_id)
    with True p show ?thesis by simp
  next
    case False
    have "map_of m k \<noteq> None \<Longrightarrow> length m \<noteq> 0" by (cases m) auto
    with False p Cons show ?thesis by (auto simp: Suc_diff_Suc)
  qed
qed

lemma length_update:
  "length (AList.update k v m) = (if map_of m k = None then Suc (length m) else length m)"
  by (induction m) auto

interpretation jm: keyed_store jm_get jm_set jm_delete length jm_ok
proof unfold_locales
  show "jm_get (jm_set k v s) = (jm_get s)(k := Some v)" for k v and s :: "('k, 'v) jsmap"
    by (rule ext) (simp add: jm_get_def jm_set_def update_conv')
  show "jm_get (jm_delete k s) = (jm_get s)(k := None)" for k and s :: "('k, 'v) jsmap"
    by (rule ext) (simp add: jm_get_def jm_delete_def delete_conv')
  show "jm_ok s \<Longrightarrow> jm_ok (jm_set k v s)" for k v and s :: "('k, 'v) jsmap"
    by (simp add: jm_ok_def jm_keys_def jm_set_def distinct_update)
  show "jm_ok s \<Longrightarrow> jm_ok (jm_delete k s)" for k and s :: "('k, 'v) jsmap"
    by (simp add: jm_ok_def jm_keys_def jm_delete_def distinct_delete)
  show "jm_ok s \<Longrightarrow> length (jm_set k v s) =
      (if jm_get s k = None then Suc (length s) else length s)" for k v and s :: "('k, 'v) jsmap"
    by (simp add: jm_set_def jm_get_def length_update)
  show "jm_ok s \<Longrightarrow> length (jm_delete k s) =
      (if jm_get s k = None then length s else length s - 1)" for k and s :: "('k, 'v) jsmap"
    by (simp add: jm_ok_def jm_keys_def jm_delete_def jm_get_def length_delete_distinct)
qed

lemma jm_ok_Nil [simp]: "jm_ok []"
  by (simp add: jm_ok_def jm_keys_def)

lemma jm_get_Nil [simp]: "jm_get [] k = None"
  by (simp add: jm_get_def)

lemma jm_get_Cons [simp]: "jm_get ((k', v) # m) k = (if k = k' then Some v else jm_get m k)"
  by (simp add: jm_get_def)

lemma jm_ok_Cons [simp]: "jm_ok ((k, v) # m) \<longleftrightarrow> jm_get m k = None \<and> jm_ok m"
  by (auto simp: jm_ok_def jm_keys_def jm_get_def map_of_eq_None_iff)

lemma jm_get_in_set: "jm_ok m \<Longrightarrow> jm_get m k = Some v \<longleftrightarrow> (k, v) \<in> set m"
  by (simp add: jm_ok_def jm_keys_def jm_get_def)

lemma jm_get_Some_in_set: "jm_get m k = Some v \<Longrightarrow> (k, v) \<in> set m"
  by (simp add: jm_get_def map_of_SomeD)

lemma jm_ok_filter: "jm_ok m \<Longrightarrow> jm_ok (filter P m)"
  by (auto simp: jm_ok_def jm_keys_def distinct_map_filter)

lemma jm_get_filter:
  "jm_ok m \<Longrightarrow> jm_get (filter P m) k =
     (case jm_get m k of None \<Rightarrow> None | Some v \<Rightarrow> if P (k, v) then Some v else None)"
proof (induction m)
  case Nil
  then show ?case by simp
next
  case (Cons p m)
  obtain a b where p: "p = (a, b)" by (cases p)
  with Cons show ?case by (auto split: option.splits)
qed

section \<open>Values updated through the entries\<close>

text \<open>An in-place update of every entry value, as a loop over \<open>map.values()\<close> does.\<close>

definition jm_map_values :: "('v \<Rightarrow> 'v) \<Rightarrow> ('k, 'v) jsmap \<Rightarrow> ('k, 'v) jsmap" where
  "jm_map_values f m = map (\<lambda>(k, v). (k, f v)) m"

lemma jm_get_map_values [simp]: "jm_get (jm_map_values f m) k = map_option f (jm_get m k)"
  by (induction m) (auto simp: jm_map_values_def)

lemma jm_keys_map_values [simp]: "jm_keys (jm_map_values f m) = jm_keys m"
  by (simp add: jm_keys_def jm_map_values_def comp_def split_def)

lemma jm_ok_map_values [simp]: "jm_ok (jm_map_values f m) \<longleftrightarrow> jm_ok m"
  by (simp add: jm_ok_def)

lemma length_jm_map_values [simp]: "length (jm_map_values f m) = length m"
  by (simp add: jm_map_values_def)

section \<open>Bounded maps\<close>

text \<open>
  \<open>pruneMapToMaxSize\<close> deletes the oldest key until the map fits; a \<open>None\<close> limit stands for the
  unlimited sizes \<open>NaN\<close> and \<open>Infinity\<close>.
\<close>

fun drop_oldest_until :: "nat \<Rightarrow> ('k, 'v) jsmap \<Rightarrow> ('k, 'v) jsmap" where
  "drop_oldest_until limit [] = []"
| "drop_oldest_until limit (p # m) =
     (if limit < length (p # m) then drop_oldest_until limit m else p # m)"

definition pruneMapToMaxSize :: "int option \<Rightarrow> ('k, 'v) jsmap \<Rightarrow> ('k, 'v) jsmap" where
  "pruneMapToMaxSize maxSize m =
     (case maxSize of
        None \<Rightarrow> m
      | Some n \<Rightarrow> let limit = max 0 n
                  in if limit \<le> 0 then [] else drop_oldest_until (nat limit) m)"

lemma drop_oldest_until_drop:
  "drop_oldest_until n m = drop (length m - n) m"
  by (induction n m rule: drop_oldest_until.induct) (auto simp: Suc_diff_le)

lemma pruneMapToMaxSize_drop:
  "pruneMapToMaxSize (Some n) m = drop (length m - nat n) m"
  by (auto simp: pruneMapToMaxSize_def drop_oldest_until_drop Let_def)

lemma pruneMapToMaxSize_length: "length (pruneMapToMaxSize (Some n) m) \<le> nat n"
  by (simp add: pruneMapToMaxSize_drop)

lemma jm_ok_drop: "jm_ok m \<Longrightarrow> jm_ok (drop n m)"
  by (simp add: jm_ok_def jm_keys_def drop_map [symmetric])

lemma jm_ok_pruneMapToMaxSize: "jm_ok m \<Longrightarrow> jm_ok (pruneMapToMaxSize (Some n) m)"
  by (simp add: pruneMapToMaxSize_drop jm_ok_drop)

end
