(* ===== verification/JsNumber.thy ===== *)
theory JsNumber
  imports Complex_Main Prelude
begin

text \<open>
  The numeric coercions of \<open>packages/normalization-core/src/number-coercion.ts\<close> that the
  components use on configuration values.  A JavaScript number is a rational, or one of the
  three non-finite values; rounding of doubles beyond \<open>2 ^ 53\<close> is not modelled.
\<close>

datatype js_number = NotANumber | PosInfinity | NegInfinity | Finite rat

definition asFiniteNumber :: "js_number option \<Rightarrow> rat option" where
  "asFiniteNumber v = (case v of Some (Finite q) \<Rightarrow> Some q | _ \<Rightarrow> None)"

text \<open>\<open>Math.floor\<close> of a finite number is an integer, so the timer bounds are integers.\<close>

definition MAX_TIMER_TIMEOUT_MS :: int where
  "MAX_TIMER_TIMEOUT_MS = 2147000000"

definition clampTimerTimeoutMs :: "js_number option \<Rightarrow> rat \<Rightarrow> int option" where
  "clampTimerTimeoutMs valueMs minMs =
     (case asFiniteNumber valueMs of
        None \<Rightarrow> None
      | Some value \<Rightarrow>
          let lo = max 1 \<lfloor>minMs\<rfloor>
          in Some (min (max \<lfloor>value\<rfloor> lo) MAX_TIMER_TIMEOUT_MS))"

definition clampPositiveTimerTimeoutMs :: "js_number option \<Rightarrow> int option" where
  "clampPositiveTimerTimeoutMs valueMs =
     (case asFiniteNumber valueMs of
        None \<Rightarrow> None
      | Some value \<Rightarrow> if value \<le> 0 then None else clampTimerTimeoutMs (Some (Finite value)) 1)"

definition resolveTimerTimeoutMs :: "js_number option \<Rightarrow> js_number \<Rightarrow> rat \<Rightarrow> int" where
  "resolveTimerTimeoutMs valueMs fallbackMs minMs =
     (let lo = max 0 \<lfloor>minMs\<rfloor>
      in case orElse (asFiniteNumber valueMs) (asFiniteNumber (Some fallbackMs)) of
           None \<Rightarrow> lo
         | Some value \<Rightarrow> min (max \<lfloor>value\<rfloor> lo) MAX_TIMER_TIMEOUT_MS)"

text \<open>
  The integer options; the fallback and the bounds are finite whole numbers at every call.
\<close>

definition resolveIntegerOption ::
    "js_number option \<Rightarrow> int \<Rightarrow> int option \<Rightarrow> int option \<Rightarrow> int" where
  "resolveIntegerOption v fallback lo hi =
     (let floored = (case asFiniteNumber v of Some q \<Rightarrow> \<lfloor>q\<rfloor> | None \<Rightarrow> fallback);
          minBounded = (case lo of None \<Rightarrow> floored | Some m \<Rightarrow> max m floored)
      in case hi of None \<Rightarrow> minBounded | Some m \<Rightarrow> min m minBounded)"

definition resolveNonNegativeIntegerOption :: "js_number option \<Rightarrow> int \<Rightarrow> int" where
  "resolveNonNegativeIntegerOption v fallback = resolveIntegerOption v fallback (Some 0) None"

section \<open>Bounds\<close>

lemma clampPositiveTimerTimeoutMs_range:
  "clampPositiveTimerTimeoutMs v = Some t \<Longrightarrow> 1 \<le> t \<and> t \<le> MAX_TIMER_TIMEOUT_MS"
  by (auto simp: clampPositiveTimerTimeoutMs_def clampTimerTimeoutMs_def asFiniteNumber_def
      MAX_TIMER_TIMEOUT_MS_def Let_def split: option.splits js_number.splits if_splits)

lemma resolveTimerTimeoutMs_nonneg: "0 \<le> resolveTimerTimeoutMs v f m"
  by (auto simp: resolveTimerTimeoutMs_def MAX_TIMER_TIMEOUT_MS_def Let_def split: option.splits)

lemma resolveIntegerOption_min: "lo \<le> resolveIntegerOption v f (Some lo) None"
  by (simp add: resolveIntegerOption_def Let_def)

lemma resolveNonNegativeIntegerOption_nonneg: "0 \<le> resolveNonNegativeIntegerOption v f"
  by (simp add: resolveNonNegativeIntegerOption_def resolveIntegerOption_min)

lemma clampPositiveTimerTimeoutMs_idem:
  "clampPositiveTimerTimeoutMs v = Some t \<Longrightarrow>
   clampPositiveTimerTimeoutMs (Some (Finite (of_int t))) = Some t"
  using clampPositiveTimerTimeoutMs_range [of v t]
  by (simp add: clampPositiveTimerTimeoutMs_def clampTimerTimeoutMs_def asFiniteNumber_def
      Let_def)

section \<open>Comparison with a count\<close>

text \<open>\<open>n < limit\<close> for a count \<open>n\<close>: false for \<open>NaN\<close>, true for \<open>Infinity\<close>.\<close>

fun js_count_less :: "nat \<Rightarrow> js_number \<Rightarrow> bool" where
  "js_count_less n NotANumber = False"
| "js_count_less n PosInfinity = True"
| "js_count_less n NegInfinity = False"
| "js_count_less n (Finite q) = (of_nat n < q)"

fun js_positive :: "js_number \<Rightarrow> bool" where
  "js_positive NotANumber = False"
| "js_positive PosInfinity = True"
| "js_positive NegInfinity = False"
| "js_positive (Finite q) = (0 < q)"

fun js_nonpositive :: "js_number \<Rightarrow> bool" where
  "js_nonpositive NotANumber = False"
| "js_nonpositive PosInfinity = False"
| "js_nonpositive NegInfinity = True"
| "js_nonpositive (Finite q) = (q \<le> 0)"

fun js_floor :: "js_number \<Rightarrow> js_number" where
  "js_floor (Finite q) = Finite (of_int \<lfloor>q\<rfloor>)"
| "js_floor v = v"

text \<open>\<open>Math.max(n, v)\<close>, which is \<open>NaN\<close> when an argument is.\<close>

fun js_max :: "rat \<Rightarrow> js_number \<Rightarrow> js_number" where
  "js_max n NotANumber = NotANumber"
| "js_max n PosInfinity = PosInfinity"
| "js_max n NegInfinity = Finite n"
| "js_max n (Finite q) = Finite (max n q)"

lemma js_count_less_mono: "js_count_less n v \<Longrightarrow> m \<le> n \<Longrightarrow> js_count_less m v"
  by (cases v) (auto simp: le_less_trans)

lemma js_count_less_0_positive: "js_count_less n v \<Longrightarrow> js_positive v"
proof (cases v)
  case (Finite q)
  assume "js_count_less n v"
  with Finite have "of_nat n < q" by simp
  moreover have "(0::rat) \<le> of_nat n" by simp
  ultimately show ?thesis using Finite by simp
qed auto

end
