(* ===== verification/Interfaces.thy ===== *)
theory Interfaces
  imports Prelude
begin

text \<open>
  Contracts several components share, as locales.  Each is interpreted on the model's own
  definitions in the theory of the component that provides it.
\<close>

section \<open>Actions guarded by a generation\<close>

text \<open>
  A lease, a closure or an in-flight task remembers the generation of the state it belongs to;
  when the owner bumps the generation, what still carries the old one must do nothing.
\<close>

locale generation_guard =
  fixes generation :: "'s \<Rightarrow> nat"
    and evolve :: "'e \<Rightarrow> 's \<Rightarrow> 's"
    and act :: "nat \<Rightarrow> 's \<Rightarrow> 's \<times> bool"
  assumes generation_mono: "generation s \<le> generation (evolve e s)"
    and stale_noop: "g \<noteq> generation s \<Longrightarrow> act g s = (s, False)"
begin

lemma generation_mono_run: "generation s \<le> generation (fold evolve es s)"
proof (induction es arbitrary: s)
  case Nil
  then show ?case by simp
next
  case (Cons e es)
  show ?case using generation_mono [of s e] Cons [of "evolve e s"] by simp
qed

lemma stale_forever:
  assumes "g < generation s"
  shows "act g (fold evolve es s) = (fold evolve es s, False)"
proof (rule stale_noop)
  show "g \<noteq> generation (fold evolve es s)"
    using assms generation_mono_run [of s es] by simp
qed

end

text \<open>The same with the operation that issues the guarded leases.\<close>

locale generation_lease = generation_guard +
  fixes issue :: "'a \<Rightarrow> 's \<Rightarrow> nat option \<times> 's"
  assumes issue_fresh:
    "issue a s = (Some g, t) \<Longrightarrow> g = generation t \<and> generation s < generation t"
begin

text \<open>Once a second lease has been issued, the first can never act again.\<close>

lemma superseded:
  assumes first: "issue a s = (Some g, t)"
    and second: "issue b (fold evolve es t) = (Some h, u)"
  shows "act g (fold evolve fs u) = (fold evolve fs u, False)"
proof (rule stale_forever)
  have "g = generation t" using issue_fresh [OF first] by simp
  moreover have "generation t \<le> generation (fold evolve es t)" by (rule generation_mono_run)
  moreover have "generation (fold evolve es t) < generation u" using issue_fresh [OF second] by simp
  ultimately show "g < generation u" by simp
qed

end

section \<open>A gate in front of work\<close>

text \<open>
  What a work queue needs of the process-wide admission gate: whether it is closed for the
  calling chain, and that a reset opens it again for chains outside any root.
\<close>

locale work_gate =
  fixes closed :: "nat option \<Rightarrow> 'g \<Rightarrow> bool"
    and drain :: "'g \<Rightarrow> 'g"
    and reset :: "'g \<Rightarrow> 'g"
  assumes drain_closes: "closed c (drain g)"
    and reset_opens: "\<not> closed None (reset g)"
begin

lemma drain_rejects: "(if closed c (drain g) then r else q) = r"
  by (simp add: drain_closes)

lemma reset_accepts: "(if closed None (reset g) then r else q) = q"
  by (simp add: reset_opens)

end

end
