(* ===== verification/GatewayAdmission.thy ===== *)
theory GatewayAdmission
  imports JsNumber Interfaces
begin

text \<open>
  \<open>src/process/gateway-work-admission.ts\<close>: process-wide admission of root work, the one-way
  restart drain, the reversible restart-signal fence and the host suspension.

  The module's singleton is the record \<open>admission_state\<close>.  Objects the TypeScript shares by
  reference are numbered: a root-work admission by \<open>rootWork\<close>, the release closure a lease hands
  out by \<open>releaseClosures\<close> (the root it releases and its \<open>leaseReleased\<close> flag), a parked promise
  by the number its caller picks.  \<open>resumed\<close> and \<open>invalidations\<close> record the promises resolved and
  the suspension callbacks called so far.  The root of the running asynchronous chain
  (\<open>AsyncLocalStorage.getStore()\<close>) is the argument \<open>current\<close> of the operations that read it.
\<close>

section \<open>State\<close>

datatype suspend_phase = Accepting | Preparing | Prepared

record root_work =
  references :: int
  released :: bool

record admission_state =
  restartDraining :: bool
  restartSignalPending :: bool
  restartSignalGeneration :: nat
  suspendPhase :: suspend_phase
  suspendGeneration :: nat
  suspendInvalidated :: "nat option"
  activeRootWork :: "nat list"
  rootDrainWaiters :: "nat list"
  suspendOpenWaiters :: "nat list"
  rootWork :: "nat \<Rightarrow> root_work option"
  releaseClosures :: "nat \<Rightarrow> (nat \<times> bool) option"
  nextRoot :: nat
  nextRelease :: nat
  resumed :: "nat list"
  invalidations :: "nat list"

definition initialAdmissionState :: admission_state where
  "initialAdmissionState =
     \<lparr>restartDraining = False, restartSignalPending = False, restartSignalGeneration = 0,
      suspendPhase = Accepting, suspendGeneration = 0, suspendInvalidated = None,
      activeRootWork = [], rootDrainWaiters = [], suspendOpenWaiters = [],
      rootWork = (\<lambda>_. None), releaseClosures = (\<lambda>_. None), nextRoot = 0, nextRelease = 0,
      resumed = [], invalidations = []\<rparr>"

section \<open>Leases on root work\<close>

text \<open>A lease either owns a root (with its release closure) or is nested in the caller's root.\<close>

datatype root_lease = NestedLease | OwnedLease nat nat

definition createGatewayRootWorkRelease :: "nat \<Rightarrow> admission_state \<Rightarrow> nat \<times> admission_state" where
  "createGatewayRootWorkRelease admission s =
     (nextRelease s,
      s\<lparr>releaseClosures := (releaseClosures s)(nextRelease s \<mapsto> (admission, False)),
        nextRelease := Suc (nextRelease s)\<rparr>)"

definition createGatewayRootWorkAdmission :: "admission_state \<Rightarrow> root_lease \<times> admission_state" where
  "createGatewayRootWorkAdmission s =
     (let admission = nextRoot s;
          s1 = s\<lparr>rootWork := (rootWork s)(admission \<mapsto> \<lparr>references = 1, released = False\<rparr>),
                 nextRoot := Suc admission,
                 activeRootWork := set_add admission (activeRootWork s)\<rparr>;
          (release, s2) = createGatewayRootWorkRelease admission s1
      in (OwnedLease admission release, s2))"

definition resolveRootDrainWaiters :: "admission_state \<Rightarrow> admission_state" where
  "resolveRootDrainWaiters s =
     s\<lparr>rootDrainWaiters := [], resumed := resumed s @ rootDrainWaiters s\<rparr>"

definition resolveSuspendOpenWaiters :: "admission_state \<Rightarrow> admission_state" where
  "resolveSuspendOpenWaiters s =
     s\<lparr>suspendOpenWaiters := [], resumed := resumed s @ suspendOpenWaiters s\<rparr>"

text \<open>Calling a release closure.\<close>

definition releaseRootWork :: "nat \<Rightarrow> admission_state \<Rightarrow> admission_state" where
  "releaseRootWork release s =
     (case releaseClosures s release of
        None \<Rightarrow> s
      | Some (admission, leaseReleased) \<Rightarrow>
          (case rootWork s admission of
             None \<Rightarrow> s
           | Some w \<Rightarrow>
               if leaseReleased \<or> released w then s
               else
                 let s1 = s\<lparr>releaseClosures := (releaseClosures s)(release \<mapsto> (admission, True)),
                            rootWork := (rootWork s)(admission \<mapsto> w\<lparr>references := references w - 1\<rparr>)\<rparr>
                 in if references w - 1 > 0 then s1
                    else
                      let s2 = s1\<lparr>rootWork := (rootWork s)(admission \<mapsto>
                                    w\<lparr>references := references w - 1, released := True\<rparr>),
                                  activeRootWork := removeAll admission (activeRootWork s)\<rparr>
                      in if activeRootWork s2 = [] then resolveRootDrainWaiters s2 else s2))"

section \<open>The gates\<close>

definition isGatewayWorkAdmissionClosed :: "admission_state \<Rightarrow> bool" where
  "isGatewayWorkAdmissionClosed s \<longleftrightarrow>
     restartDraining s \<or> restartSignalPending s \<or> suspendPhase s \<noteq> Accepting"

definition rootReleased :: "admission_state \<Rightarrow> nat \<Rightarrow> bool" where
  "rootReleased s r \<longleftrightarrow> (case rootWork s r of None \<Rightarrow> True | Some w \<Rightarrow> released w)"

definition isGatewaySubordinateWorkAdmissionClosed :: "nat option \<Rightarrow> admission_state \<Rightarrow> bool" where
  "isGatewaySubordinateWorkAdmissionClosed current s \<longleftrightarrow>
     (if restartDraining s \<or> restartSignalPending s then True
      else case current of
             Some r \<Rightarrow> rootReleased s r
           | None \<Rightarrow> suspendPhase s \<noteq> Accepting)"

definition isGatewayRestartDraining :: "admission_state \<Rightarrow> bool" where
  "isGatewayRestartDraining s \<longleftrightarrow> restartDraining s \<or> restartSignalPending s"

definition invalidateSuspendAdmission :: "admission_state \<Rightarrow> admission_state" where
  "invalidateSuspendAdmission s =
     (let callback = suspendInvalidated s;
          s1 = resolveSuspendOpenWaiters
                 (s\<lparr>suspendInvalidated := None, suspendPhase := Accepting,
                    suspendGeneration := Suc (suspendGeneration s)\<rparr>)
      in case callback of
           None \<Rightarrow> s1
         | Some c \<Rightarrow> s1\<lparr>invalidations := invalidations s1 @ [c]\<rparr>)"

definition clearRestartSignalFence :: "admission_state \<Rightarrow> admission_state \<times> bool" where
  "clearRestartSignalFence s =
     (if restartDraining s \<or> \<not> restartSignalPending s then (s, False)
      else (resolveSuspendOpenWaiters
              (s\<lparr>restartSignalPending := False,
                 restartSignalGeneration := Suc (restartSignalGeneration s)\<rparr>), True))"

definition markGatewayRestartDraining :: "admission_state \<Rightarrow> admission_state" where
  "markGatewayRestartDraining s =
     (if restartDraining s then s
      else
        let s1 = resolveSuspendOpenWaiters
                   (s\<lparr>restartSignalPending := False,
                      restartSignalGeneration := Suc (restartSignalGeneration s),
                      restartDraining := True\<rparr>)
        in if suspendPhase s1 \<noteq> Accepting then invalidateSuspendAdmission s1 else s1)"

text \<open>
  The restart-signal lease is the generation its \<open>rollback\<close> closure captured.
\<close>

definition beginGatewayRestartSignalAdmission ::
    "admission_state \<Rightarrow> nat option \<times> admission_state" where
  "beginGatewayRestartSignalAdmission s =
     (if restartDraining s \<or> restartSignalPending s then (None, s)
      else
        let generation = Suc (restartSignalGeneration s)
        in (Some generation,
            s\<lparr>restartSignalPending := True, restartSignalGeneration := generation\<rparr>))"

definition restartSignalRollback :: "nat \<Rightarrow> admission_state \<Rightarrow> admission_state \<times> bool" where
  "restartSignalRollback generation s =
     (if \<not> restartSignalPending s \<or> restartSignalGeneration s \<noteq> generation then (s, False)
      else clearRestartSignalFence s)"

definition rollbackGatewayRestartSignalFence :: "admission_state \<Rightarrow> admission_state \<times> bool" where
  "rollbackGatewayRestartSignalFence s = clearRestartSignalFence s"

section \<open>Admission of root work\<close>

definition tryBeginGatewayRootWorkAdmission ::
    "nat option \<Rightarrow> admission_state \<Rightarrow> root_lease option \<times> admission_state" where
  "tryBeginGatewayRootWorkAdmission current s =
     (if (\<exists>r \<in> set_option current. \<not> rootReleased s r) then (Some NestedLease, s)
      else if restartDraining s \<or> restartSignalPending s \<or> suspendPhase s \<noteq> Accepting
      then (None, s)
      else let (lease, s1) = createGatewayRootWorkAdmission s in (Some lease, s1))"

definition tryBeginGatewayIndependentRootWorkAdmission ::
    "admission_state \<Rightarrow> root_lease option \<times> admission_state" where
  "tryBeginGatewayIndependentRootWorkAdmission s =
     (if restartDraining s \<or> restartSignalPending s \<or> suspendPhase s \<noteq> Accepting
      then (None, s)
      else let (lease, s1) = createGatewayRootWorkAdmission s in (Some lease, s1))"

text \<open>
  One turn of the waiting loops: throw, return a lease, or park the promise \<open>waiter\<close> (the loop
  runs again when it is resolved).
\<close>

datatype wait_turn = ThrowDraining | Admitted root_lease | Parked

definition beginGatewayRootWorkAdmissionWhenOpen ::
    "nat option \<Rightarrow> nat \<Rightarrow> admission_state \<Rightarrow> wait_turn \<times> admission_state" where
  "beginGatewayRootWorkAdmissionWhenOpen current waiter s =
     (if restartDraining s then (ThrowDraining, s)
      else case tryBeginGatewayRootWorkAdmission current s of
             (Some lease, s1) \<Rightarrow> (Admitted lease, s1)
           | (None, s1) \<Rightarrow> (Parked, s1\<lparr>suspendOpenWaiters := set_add waiter (suspendOpenWaiters s1)\<rparr>))"

definition runWithGatewayIndependentRootWorkAdmission ::
    "nat \<Rightarrow> admission_state \<Rightarrow> wait_turn \<times> admission_state" where
  "runWithGatewayIndependentRootWorkAdmission waiter s =
     (if restartDraining s then (ThrowDraining, s)
      else case tryBeginGatewayIndependentRootWorkAdmission s of
             (Some lease, s1) \<Rightarrow> (Admitted lease, s1)
           | (None, s1) \<Rightarrow> (Parked, s1\<lparr>suspendOpenWaiters := set_add waiter (suspendOpenWaiters s1)\<rparr>))"

definition runWithGatewayIndependentRootWorkContinuation ::
    "nat option \<Rightarrow> nat \<Rightarrow> admission_state \<Rightarrow> wait_turn \<times> admission_state" where
  "runWithGatewayIndependentRootWorkContinuation parent waiter s =
     (if (\<forall>r \<in> set_option parent. rootReleased s r)
      then runWithGatewayIndependentRootWorkAdmission waiter s
      else let (lease, s1) = createGatewayRootWorkAdmission s in (Admitted lease, s1))"

definition retainGatewayRootWorkAdmissionContinuation ::
    "nat option \<Rightarrow> admission_state \<Rightarrow> nat option \<times> admission_state" where
  "retainGatewayRootWorkAdmissionContinuation current s =
     (case current of
        None \<Rightarrow> (None, s)
      | Some r \<Rightarrow>
          (case rootWork s r of
             None \<Rightarrow> (None, s)
           | Some w \<Rightarrow>
               if released w then (None, s)
               else
                 let (release, s1) = createGatewayRootWorkRelease r
                       (s\<lparr>rootWork := (rootWork s)(r \<mapsto> w\<lparr>references := references w + 1\<rparr>)\<rparr>)
                 in (Some release, s1)))"

definition getActiveGatewayRootWorkCount :: "nat option \<Rightarrow> bool \<Rightarrow> admission_state \<Rightarrow> int" where
  "getActiveGatewayRootWorkCount current excludeCurrent s =
     (let count = int (length (activeRootWork s));
          count = (if excludeCurrent \<and>
                      (\<exists>r \<in> set_option current. \<not> rootReleased s r \<and> r \<in> set (activeRootWork s))
                   then count - 1 else count)
      in max 0 count)"

text \<open>Waiting for the admitted roots: the synchronous part, and the part after the wake-up.\<close>

datatype drain_wait = DrainDone bool nat | DrainParked

definition waitForActiveGatewayRootWork ::
    "js_number option \<Rightarrow> nat \<Rightarrow> admission_state \<Rightarrow> drain_wait \<times> admission_state" where
  "waitForActiveGatewayRootWork timeoutMs waiter s =
     (if activeRootWork s = [] then (DrainDone True 0, s)
      else
        let timeout = map_option (\<lambda>q. max 0 \<lfloor>q\<rfloor>) (asFiniteNumber timeoutMs)
        in if timeout = Some 0 then (DrainDone False (length (activeRootWork s)), s)
           else (DrainParked, s\<lparr>rootDrainWaiters := set_add waiter (rootDrainWaiters s)\<rparr>))"

definition finishWaitForActiveGatewayRootWork ::
    "nat \<Rightarrow> admission_state \<Rightarrow> drain_wait \<times> admission_state" where
  "finishWaitForActiveGatewayRootWork waiter s =
     (DrainDone (activeRootWork s = []) (length (activeRootWork s)),
      s\<lparr>rootDrainWaiters := removeAll waiter (rootDrainWaiters s)\<rparr>)"

section \<open>Suspension\<close>

text \<open>A suspension lease is the generation its three closures captured.\<close>

definition tryBeginGatewaySuspendAdmission ::
    "nat \<Rightarrow> admission_state \<Rightarrow> nat option \<times> admission_state" where
  "tryBeginGatewaySuspendAdmission onInvalidated s =
     (if restartDraining s \<or> restartSignalPending s \<or> suspendPhase s \<noteq> Accepting then (None, s)
      else
        let generation = Suc (suspendGeneration s)
        in (Some generation,
            s\<lparr>suspendPhase := Preparing, suspendGeneration := generation,
              suspendInvalidated := Some onInvalidated\<rparr>))"

definition suspendTransition ::
    "suspend_phase \<Rightarrow> suspend_phase \<Rightarrow> nat \<Rightarrow> admission_state \<Rightarrow> admission_state \<times> bool" where
  "suspendTransition expected nxt generation s =
     (if suspendGeneration s \<noteq> generation \<or> suspendPhase s \<noteq> expected then (s, False)
      else
        let s1 = s\<lparr>suspendPhase := nxt\<rparr>
        in (if nxt = Accepting
            then resolveSuspendOpenWaiters (s1\<lparr>suspendInvalidated := None\<rparr>)
            else s1, True))"

definition suspendCommit :: "nat \<Rightarrow> admission_state \<Rightarrow> admission_state \<times> bool" where
  "suspendCommit = suspendTransition Preparing Prepared"

definition suspendRollback :: "nat \<Rightarrow> admission_state \<Rightarrow> admission_state \<times> bool" where
  "suspendRollback = suspendTransition Preparing Accepting"

definition suspendRelease :: "nat \<Rightarrow> admission_state \<Rightarrow> admission_state \<times> bool" where
  "suspendRelease = suspendTransition Prepared Accepting"

definition retireRoot :: "root_work \<Rightarrow> root_work" where
  "retireRoot w = w\<lparr>references := 0, released := True\<rparr>"

definition resetGatewayWorkAdmission :: "admission_state \<Rightarrow> admission_state" where
  "resetGatewayWorkAdmission s =
     (let s1 = s\<lparr>rootWork := (\<lambda>r. if r \<in> set (activeRootWork s)
                                  then map_option retireRoot (rootWork s r) else rootWork s r),
                 activeRootWork := []\<rparr>;
          s2 = (resolveRootDrainWaiters s1)
                 \<lparr>restartDraining := False, restartSignalPending := False,
                  restartSignalGeneration := Suc (restartSignalGeneration s)\<rparr>;
          s3 = (if suspendPhase s2 \<noteq> Accepting then invalidateSuspendAdmission s2
                else s2\<lparr>suspendGeneration := Suc (suspendGeneration s2),
                        suspendInvalidated := None\<rparr>)
      in resolveSuspendOpenWaiters s3)"

section \<open>The module as a state machine\<close>

text \<open>
  Every exported operation and every closure it returns, as one event.  Callers choose the
  arguments freely; a chain's \<open>current\<close> root is arbitrary.
\<close>

datatype admission_event =
    MarkRestartDraining
  | BeginRestartSignal
  | RollbackRestartSignal nat
  | RollbackRestartSignalFence
  | TryBeginRoot "nat option"
  | TryBeginIndependentRoot
  | BeginRootWhenOpen "nat option" nat
  | RunIndependent nat
  | RunContinuation "nat option" nat
  | RetainContinuation "nat option"
  | ReleaseLease nat
  | WaitForRoots "js_number option" nat
  | FinishWaitForRoots nat
  | TryBeginSuspend nat
  | CommitSuspend nat
  | RollbackSuspend nat
  | ReleaseSuspend nat
  | ResetAdmission

fun admissionStep :: "admission_event \<Rightarrow> admission_state \<Rightarrow> admission_state" where
  "admissionStep MarkRestartDraining s = markGatewayRestartDraining s"
| "admissionStep BeginRestartSignal s = snd (beginGatewayRestartSignalAdmission s)"
| "admissionStep (RollbackRestartSignal g) s = fst (restartSignalRollback g s)"
| "admissionStep RollbackRestartSignalFence s = fst (rollbackGatewayRestartSignalFence s)"
| "admissionStep (TryBeginRoot c) s = snd (tryBeginGatewayRootWorkAdmission c s)"
| "admissionStep TryBeginIndependentRoot s = snd (tryBeginGatewayIndependentRootWorkAdmission s)"
| "admissionStep (BeginRootWhenOpen c w) s = snd (beginGatewayRootWorkAdmissionWhenOpen c w s)"
| "admissionStep (RunIndependent w) s = snd (runWithGatewayIndependentRootWorkAdmission w s)"
| "admissionStep (RunContinuation c w) s = snd (runWithGatewayIndependentRootWorkContinuation c w s)"
| "admissionStep (RetainContinuation c) s = snd (retainGatewayRootWorkAdmissionContinuation c s)"
| "admissionStep (ReleaseLease l) s = releaseRootWork l s"
| "admissionStep (WaitForRoots t w) s = snd (waitForActiveGatewayRootWork t w s)"
| "admissionStep (FinishWaitForRoots w) s = snd (finishWaitForActiveGatewayRootWork w s)"
| "admissionStep (TryBeginSuspend c) s = snd (tryBeginGatewaySuspendAdmission c s)"
| "admissionStep (CommitSuspend g) s = fst (suspendCommit g s)"
| "admissionStep (RollbackSuspend g) s = fst (suspendRollback g s)"
| "admissionStep (ReleaseSuspend g) s = fst (suspendRelease g s)"
| "admissionStep ResetAdmission s = resetGatewayWorkAdmission s"

inductive admissionReachable :: "admission_state \<Rightarrow> bool" where
  start: "admissionReachable initialAdmissionState"
| step: "admissionReachable s \<Longrightarrow> admissionReachable (admissionStep e s)"

definition admissionRun :: "admission_event list \<Rightarrow> admission_state \<Rightarrow> admission_state" where
  "admissionRun es s = fold admissionStep es s"

lemma admissionRun_simps [simp]:
  "admissionRun [] s = s"
  "admissionRun (e # es) s = admissionRun es (admissionStep e s)"
  by (simp_all add: admissionRun_def)

lemma admissionReachable_run:
  "admissionReachable s \<Longrightarrow> admissionReachable (admissionRun es s)"
  by (induction es arbitrary: s) (auto intro: admissionReachable.step)

lemmas gate_op_defs =
  markGatewayRestartDraining_def beginGatewayRestartSignalAdmission_def
  restartSignalRollback_def rollbackGatewayRestartSignalFence_def clearRestartSignalFence_def
  tryBeginGatewaySuspendAdmission_def suspendCommit_def suspendRollback_def suspendRelease_def
  suspendTransition_def invalidateSuspendAdmission_def resolveSuspendOpenWaiters_def

lemmas root_op_defs =
  tryBeginGatewayRootWorkAdmission_def tryBeginGatewayIndependentRootWorkAdmission_def
  beginGatewayRootWorkAdmissionWhenOpen_def runWithGatewayIndependentRootWorkAdmission_def
  runWithGatewayIndependentRootWorkContinuation_def retainGatewayRootWorkAdmissionContinuation_def
  createGatewayRootWorkAdmission_def createGatewayRootWorkRelease_def

lemmas drain_op_defs =
  waitForActiveGatewayRootWork_def finishWaitForActiveGatewayRootWork_def
  resolveRootDrainWaiters_def

section \<open>The gate invariant\<close>

text \<open>
  A restart drain supersedes both reversible closures; a suspension has an invalidation
  callback exactly while it is in progress; and a promise is parked only while a reversible
  closure is in force, so that its end can wake it.
\<close>

definition gateInv :: "admission_state \<Rightarrow> bool" where
  "gateInv s \<longleftrightarrow>
     (restartDraining s \<longrightarrow> \<not> restartSignalPending s \<and> suspendPhase s = Accepting) \<and>
     (suspendInvalidated s = None \<longleftrightarrow> suspendPhase s = Accepting) \<and>
     (suspendOpenWaiters s \<noteq> [] \<longrightarrow>
        \<not> restartDraining s \<and> (restartSignalPending s \<or> suspendPhase s \<noteq> Accepting))"

lemma gateInv_initial: "gateInv initialAdmissionState"
  by (simp add: gateInv_def initialAdmissionState_def)

text \<open>The operations on roots leave the gates alone.\<close>

definition gateView where
  "gateView s = (restartDraining s, restartSignalPending s, restartSignalGeneration s,
     suspendPhase s, suspendGeneration s, suspendInvalidated s)"

lemma gateInv_cong:
  "gateView t = gateView s \<Longrightarrow> suspendOpenWaiters t = suspendOpenWaiters s \<Longrightarrow>
   gateInv t \<longleftrightarrow> gateInv s"
  by (auto simp: gateInv_def gateView_def)

lemma releaseRootWork_gates [simp]:
  "gateView (releaseRootWork l s) = gateView s"
  "suspendOpenWaiters (releaseRootWork l s) = suspendOpenWaiters s"
  by (auto simp: releaseRootWork_def gateView_def resolveRootDrainWaiters_def Let_def
      split: option.splits)

lemma createGatewayRootWorkAdmission_gates [simp]:
  "gateView (snd (createGatewayRootWorkAdmission s)) = gateView s"
  "suspendOpenWaiters (snd (createGatewayRootWorkAdmission s)) = suspendOpenWaiters s"
  by (auto simp: gateView_def createGatewayRootWorkAdmission_def createGatewayRootWorkRelease_def
      Let_def)

lemma retain_gates [simp]:
  "gateView (snd (retainGatewayRootWorkAdmissionContinuation c s)) = gateView s"
  "suspendOpenWaiters (snd (retainGatewayRootWorkAdmissionContinuation c s)) = suspendOpenWaiters s"
  by (auto simp: gateView_def retainGatewayRootWorkAdmissionContinuation_def
      createGatewayRootWorkRelease_def Let_def split: option.splits)

lemma drain_wait_gates [simp]:
  "gateView (snd (waitForActiveGatewayRootWork t w s)) = gateView s"
  "suspendOpenWaiters (snd (waitForActiveGatewayRootWork t w s)) = suspendOpenWaiters s"
  "gateView (snd (finishWaitForActiveGatewayRootWork w s)) = gateView s"
  "suspendOpenWaiters (snd (finishWaitForActiveGatewayRootWork w s)) = suspendOpenWaiters s"
  by (auto simp: gateView_def drain_op_defs Let_def)

lemma gateInv_reset: "gateInv (resetGatewayWorkAdmission s)"
  by (auto simp: gateInv_def resetGatewayWorkAdmission_def resolveRootDrainWaiters_def
      invalidateSuspendAdmission_def resolveSuspendOpenWaiters_def Let_def split: option.splits)

lemma gateInv_gate_ops:
  assumes "gateInv s"
  shows "gateInv (markGatewayRestartDraining s)"
    and "gateInv (snd (beginGatewayRestartSignalAdmission s))"
    and "gateInv (fst (restartSignalRollback g s))"
    and "gateInv (fst (rollbackGatewayRestartSignalFence s))"
    and "gateInv (snd (tryBeginGatewaySuspendAdmission c s))"
    and "gateInv (fst (suspendCommit g s))"
    and "gateInv (fst (suspendRollback g s))"
    and "gateInv (fst (suspendRelease g s))"
  using assms by (auto simp: gate_op_defs gateInv_def Let_def split: option.splits)

lemma gateInv_root_ops:
  assumes "gateInv s"
  shows "gateInv (snd (tryBeginGatewayRootWorkAdmission c s))"
    and "gateInv (snd (tryBeginGatewayIndependentRootWorkAdmission s))"
    and "gateInv (snd (beginGatewayRootWorkAdmissionWhenOpen c w s))"
    and "gateInv (snd (runWithGatewayIndependentRootWorkAdmission w s))"
    and "gateInv (snd (runWithGatewayIndependentRootWorkContinuation c w s))"
  using assms by (auto simp: root_op_defs gateInv_def Let_def)

lemma gateInv_neutral_ops:
  assumes "gateInv s"
  shows "gateInv (releaseRootWork l s)"
    and "gateInv (snd (retainGatewayRootWorkAdmissionContinuation c s))"
    and "gateInv (snd (waitForActiveGatewayRootWork t w s))"
    and "gateInv (snd (finishWaitForActiveGatewayRootWork w s))"
  using assms by (simp_all cong: gateInv_cong add: gateInv_cong [of "releaseRootWork l s" s]
      gateInv_cong [of "snd (retainGatewayRootWorkAdmissionContinuation c s)" s]
      gateInv_cong [of "snd (waitForActiveGatewayRootWork t w s)" s]
      gateInv_cong [of "snd (finishWaitForActiveGatewayRootWork w s)" s])

lemma gateInv_step: "gateInv s \<Longrightarrow> gateInv (admissionStep e s)"
  by (cases e) (simp_all add: gateInv_gate_ops gateInv_root_ops gateInv_neutral_ops gateInv_reset)

lemma reachable_gateInv: "admissionReachable s \<Longrightarrow> gateInv s"
  by (induction rule: admissionReachable.induct) (simp_all add: gateInv_initial gateInv_step)

section \<open>The root invariant\<close>

text \<open>
  The leases on a root not yet released; a root is active exactly while it is not released, and
  its reference count is the number of those leases.
\<close>

definition liveLeases :: "admission_state \<Rightarrow> nat \<Rightarrow> nat set" where
  "liveLeases s r = {l. releaseClosures s l = Some (r, False)}"

definition rootInv :: "admission_state \<Rightarrow> bool" where
  "rootInv s \<longleftrightarrow>
     distinct (activeRootWork s) \<and>
     (\<forall>r. r \<in> set (activeRootWork s) \<longleftrightarrow> \<not> rootReleased s r) \<and>
     (\<forall>r w. rootWork s r = Some w \<longrightarrow> r < nextRoot s) \<and>
     (\<forall>l x. releaseClosures s l = Some x \<longrightarrow> l < nextRelease s \<and> fst x < nextRoot s) \<and>
     (\<forall>r w. rootWork s r = Some w \<longrightarrow> \<not> released w \<longrightarrow>
        references w = int (card (liveLeases s r)) \<and> 0 < card (liveLeases s r)) \<and>
     (rootDrainWaiters s \<noteq> [] \<longrightarrow> activeRootWork s \<noteq> [])"

lemma rootInv_initial: "rootInv initialAdmissionState"
  by (simp add: rootInv_def initialAdmissionState_def rootReleased_def)

lemma rootInv_D:
  assumes "rootInv s"
  shows rootInv_distinct: "distinct (activeRootWork s)"
    and rootInv_active: "r \<in> set (activeRootWork s) \<longleftrightarrow> \<not> rootReleased s r"
    and rootInv_root: "rootWork s r = Some w \<Longrightarrow> r < nextRoot s"
    and rootInv_closure: "releaseClosures s l = Some x \<Longrightarrow> l < nextRelease s"
    and rootInv_closure_root: "releaseClosures s l = Some x \<Longrightarrow> fst x < nextRoot s"
    and rootInv_refs: "rootWork s r = Some w \<Longrightarrow> \<not> released w \<Longrightarrow>
      references w = int (card (liveLeases s r))"
    and rootInv_pos: "rootWork s r = Some w \<Longrightarrow> \<not> released w \<Longrightarrow> 0 < card (liveLeases s r)"
    and rootInv_waiters: "rootDrainWaiters s \<noteq> [] \<Longrightarrow> activeRootWork s \<noteq> []"
  using assms unfolding rootInv_def by blast+

lemma liveLeases_iff: "l \<in> liveLeases s r \<longleftrightarrow> releaseClosures s l = Some (r, False)"
  by (simp add: liveLeases_def)

lemma finite_liveLeases: "rootInv s \<Longrightarrow> finite (liveLeases s r)"
  by (rule finite_subset [of _ "{..<nextRelease s}"])
    (auto simp: liveLeases_iff dest: rootInv_closure)

lemma liveLeases_fresh: "rootInv s \<Longrightarrow> nextRelease s \<notin> liveLeases s r"
  by (auto simp: liveLeases_iff dest: rootInv_closure)

lemma liveLeases_new_root: "rootInv s \<Longrightarrow> liveLeases s (nextRoot s) = {}"
  by (force simp: liveLeases_iff dest: rootInv_closure_root)

lemma rootWork_new_root: "rootInv s \<Longrightarrow> rootWork s (nextRoot s) = None"
  by (cases "rootWork s (nextRoot s)") (auto dest: rootInv_root)

text \<open>The root operations see only these fields.\<close>

definition rootView where
  "rootView s = (activeRootWork s, rootDrainWaiters s, rootWork s, releaseClosures s,
     nextRoot s, nextRelease s)"

lemma rootInv_cong: "rootView t = rootView s \<Longrightarrow> rootInv t \<longleftrightarrow> rootInv s"
  by (simp add: rootView_def rootInv_def rootReleased_def liveLeases_def)

lemma gate_ops_rootView [simp]:
  "rootView (markGatewayRestartDraining s) = rootView s"
  "rootView (snd (beginGatewayRestartSignalAdmission s)) = rootView s"
  "rootView (fst (restartSignalRollback g s)) = rootView s"
  "rootView (fst (rollbackGatewayRestartSignalFence s)) = rootView s"
  "rootView (snd (tryBeginGatewaySuspendAdmission c s)) = rootView s"
  "rootView (fst (suspendCommit g s)) = rootView s"
  "rootView (fst (suspendRollback g s)) = rootView s"
  "rootView (fst (suspendRelease g s)) = rootView s"
  "rootView (invalidateSuspendAdmission s) = rootView s"
  "rootView (resolveSuspendOpenWaiters s) = rootView s"
  by (auto simp: gate_op_defs rootView_def Let_def split: option.splits)

lemma create_leases:
  assumes inv: "rootInv s"
  defines "t \<equiv> snd (createGatewayRootWorkAdmission s)"
  shows "liveLeases t r = (if r = nextRoot s then {nextRelease s} else liveLeases s r)"
    and "rootReleased t r \<longleftrightarrow> r \<noteq> nextRoot s \<and> rootReleased s r"
  using liveLeases_new_root [OF inv] liveLeases_fresh [OF inv, of r]
  by (auto simp: t_def root_op_defs Let_def liveLeases_def rootReleased_def)

lemma rootInv_create:
  assumes inv: "rootInv s"
  shows "rootInv (snd (createGatewayRootWorkAdmission s))"
proof -
  let ?n = "nextRoot s" and ?t = "snd (createGatewayRootWorkAdmission s)"
  have new: "?n \<notin> set (activeRootWork s)"
    by (simp add: rootInv_active [OF inv] rootReleased_def rootWork_new_root [OF inv])
  then have active: "activeRootWork ?t = activeRootWork s @ [?n]"
    by (simp add: root_op_defs Let_def set_add_def)
  have work: "rootWork ?t = (rootWork s)(?n \<mapsto> \<lparr>references = 1, released = False\<rparr>)"
    by (simp add: root_op_defs Let_def)
  note live = create_leases(1) [OF inv] and released = create_leases(2) [OF inv]
  have rest: "nextRoot ?t = Suc ?n" "nextRelease ?t = Suc (nextRelease s)"
      "rootDrainWaiters ?t = rootDrainWaiters s"
      "releaseClosures ?t = (releaseClosures s)(nextRelease s \<mapsto> (?n, False))"
    by (simp_all add: root_op_defs Let_def)
  show ?thesis
    unfolding rootInv_def live released active rest
    using inv new
    by (auto simp: work rootInv_active [OF inv] rootInv_distinct [OF inv]
        dest: rootInv_root rootInv_closure rootInv_closure_root rootInv_refs rootInv_pos
        intro: less_SucI split: if_splits)
qed

lemma retain_noop:
  "\<not> (\<exists>r w. c = Some r \<and> rootWork s r = Some w \<and> \<not> released w) \<Longrightarrow>
   snd (retainGatewayRootWorkAdmissionContinuation c s) = s"
  by (auto simp: retainGatewayRootWorkAdmissionContinuation_def split: option.splits)

lemma retain_leases:
  assumes inv: "rootInv s" and w: "rootWork s r = Some w" "\<not> released w"
  defines "t \<equiv> snd (retainGatewayRootWorkAdmissionContinuation (Some r) s)"
  shows "liveLeases t q = (if q = r then insert (nextRelease s) (liveLeases s q) else liveLeases s q)"
    and "rootReleased t q \<longleftrightarrow> rootReleased s q"
  using liveLeases_fresh [OF inv, of q] w
  by (auto simp: t_def retainGatewayRootWorkAdmissionContinuation_def createGatewayRootWorkRelease_def
      Let_def liveLeases_def rootReleased_def)

lemma rootInv_retain:
  assumes inv: "rootInv s"
  shows "rootInv (snd (retainGatewayRootWorkAdmissionContinuation c s))"
proof (cases "\<exists>r w. c = Some r \<and> rootWork s r = Some w \<and> \<not> released w")
  case False
  with inv show ?thesis by (simp add: retain_noop)
next
  case True
  then obtain r w where c: "c = Some r" and w: "rootWork s r = Some w" "\<not> released w"
    by blast
  let ?t = "snd (retainGatewayRootWorkAdmissionContinuation c s)"
  have work: "rootWork ?t = (rootWork s)(r \<mapsto> w\<lparr>references := references w + 1\<rparr>)"
    by (simp add: retainGatewayRootWorkAdmissionContinuation_def
        createGatewayRootWorkRelease_def c w Let_def)
  note live = retain_leases(1) [OF inv w, folded c] and released = retain_leases(2) [OF inv w, folded c]
  have card: "card (insert (nextRelease s) (liveLeases s r)) = Suc (card (liveLeases s r))"
    by (simp add: finite_liveLeases [OF inv] liveLeases_fresh [OF inv])
  have rest: "nextRoot ?t = nextRoot s" "nextRelease ?t = Suc (nextRelease s)"
      "rootDrainWaiters ?t = rootDrainWaiters s" "activeRootWork ?t = activeRootWork s"
      "releaseClosures ?t = (releaseClosures s)(nextRelease s \<mapsto> (r, False))"
    by (simp_all add: retainGatewayRootWorkAdmissionContinuation_def
        createGatewayRootWorkRelease_def c w Let_def)
  show ?thesis
    unfolding rootInv_def live released rest
    using inv w
    by (auto simp: work card rootInv_active [OF inv] rootInv_distinct [OF inv]
        dest: rootInv_root rootInv_closure rootInv_closure_root rootInv_refs rootInv_pos
          rootInv_waiters
        intro: less_SucI split: if_splits)
qed

text \<open>A release closure has an effect once, and only while its root is active.\<close>

lemma releaseRootWork_noop:
  "\<not> (\<exists>r w. releaseClosures s l = Some (r, False) \<and> rootWork s r = Some w \<and> \<not> released w) \<Longrightarrow>
   releaseRootWork l s = s"
  by (auto simp: releaseRootWork_def split: option.splits)

lemma releaseRootWork_fields:
  assumes l: "releaseClosures s l = Some (r, False)" and w: "rootWork s r = Some w"
    and live: "\<not> released w"
  shows "releaseClosures (releaseRootWork l s) = (releaseClosures s)(l \<mapsto> (r, True))"
    and "rootWork (releaseRootWork l s) = (rootWork s)(r \<mapsto>
          w\<lparr>references := references w - 1, released := references w \<le> 1\<rparr>)"
    and "activeRootWork (releaseRootWork l s) =
          (if references w \<le> 1 then removeAll r (activeRootWork s) else activeRootWork s)"
    and "rootDrainWaiters (releaseRootWork l s) =
          (if references w \<le> 1 \<and> removeAll r (activeRootWork s) = [] then []
           else rootDrainWaiters s)"
    and "nextRoot (releaseRootWork l s) = nextRoot s"
    and "nextRelease (releaseRootWork l s) = nextRelease s"
  using l w live by (auto simp: releaseRootWork_def resolveRootDrainWaiters_def Let_def)

lemma liveLeases_release:
  assumes "releaseClosures s l = Some (r, False)" and "rootWork s r = Some w" "\<not> released w"
  shows "liveLeases (releaseRootWork l s) q =
     (if q = r then liveLeases s q - {l} else liveLeases s q)"
  using releaseRootWork_fields(1) [OF assms] assms(1) by (auto simp: liveLeases_def)

lemma rootInv_release:
  assumes inv: "rootInv s"
  shows "rootInv (releaseRootWork l s)"
proof (cases "\<exists>r w. releaseClosures s l = Some (r, False) \<and> rootWork s r = Some w \<and> \<not> released w")
  case False
  with inv show ?thesis by (simp add: releaseRootWork_noop)
next
  case True
  then obtain r w where l: "releaseClosures s l = Some (r, False)"
    and w: "rootWork s r = Some w" and live: "\<not> released w"
    by blast
  note fields = releaseRootWork_fields [OF l w live]
  have "card (liveLeases s r - {l}) = card (liveLeases s r) - 1"
    using l by (simp add: liveLeases_iff finite_liveLeases [OF inv] card_Diff_singleton)
  moreover have "references w = int (card (liveLeases s r))" "0 < card (liveLeases s r)"
    using rootInv_refs [OF inv w live] rootInv_pos [OF inv w live] by simp_all
  ultimately have card: "references w - 1 = int (card (liveLeases s r - {l}))"
    by linarith
  have released: "rootReleased (releaseRootWork l s) q \<longleftrightarrow>
      (if q = r then references w \<le> 1 else rootReleased s q)" for q
    by (simp add: rootReleased_def fields(2))
  have not_released: "\<not> rootReleased s r"
    by (simp add: rootReleased_def w live)
  show ?thesis
    unfolding rootInv_def liveLeases_release [OF l w live] released fields
    using inv not_released card rootInv_closure [OF inv l] rootInv_root [OF inv w]
    by (auto simp: rootInv_active [OF inv] rootInv_distinct [OF inv] distinct_removeAll
        dest: rootInv_root rootInv_closure rootInv_closure_root rootInv_refs rootInv_pos
          rootInv_waiters
        split: if_splits)
qed

lemma rootInv_reset:
  assumes inv: "rootInv s"
  shows "rootInv (resetGatewayWorkAdmission s)"
proof -
  let ?t = "resetGatewayWorkAdmission s"
  have fields: "activeRootWork ?t = []" "rootDrainWaiters ?t = []"
      "releaseClosures ?t = releaseClosures s" "nextRoot ?t = nextRoot s"
      "nextRelease ?t = nextRelease s"
      "rootWork ?t = (\<lambda>r. if r \<in> set (activeRootWork s)
                           then map_option retireRoot (rootWork s r) else rootWork s r)"
    by (auto simp: resetGatewayWorkAdmission_def resolveRootDrainWaiters_def
        invalidateSuspendAdmission_def resolveSuspendOpenWaiters_def Let_def split: option.splits)
  have retired: "released w" if "rootWork ?t r = Some w" for r w
    using that rootInv_active [OF inv, of r]
    by (auto simp: fields rootReleased_def retireRoot_def split: if_splits)
  then have "rootReleased ?t r" for r
    by (auto simp: rootReleased_def split: option.splits)
  moreover have "r < nextRoot s" if "rootWork ?t r = Some w" for r w
    using that rootInv_root [OF inv] by (auto simp: fields split: if_splits)
  ultimately show ?thesis
    using inv retired unfolding rootInv_def fields(1-5) by simp
qed

lemma rootInv_drain_waiters:
  "rootInv s \<Longrightarrow> (ws \<noteq> [] \<Longrightarrow> activeRootWork s \<noteq> []) \<Longrightarrow> rootInv (s\<lparr>rootDrainWaiters := ws\<rparr>)"
  by (simp add: rootInv_def rootReleased_def liveLeases_def)

lemma rootInv_waits:
  assumes inv: "rootInv s"
  shows "rootInv (snd (waitForActiveGatewayRootWork t w s))"
    and "rootInv (snd (finishWaitForActiveGatewayRootWork w s))"
proof -
  have "removeAll w (rootDrainWaiters s) \<noteq> [] \<Longrightarrow> activeRootWork s \<noteq> []"
    by (rule rootInv_waiters [OF inv]) auto
  then show "rootInv (snd (finishWaitForActiveGatewayRootWork w s))"
    by (simp add: finishWaitForActiveGatewayRootWork_def rootInv_drain_waiters inv)
  show "rootInv (snd (waitForActiveGatewayRootWork t w s))"
    by (simp add: waitForActiveGatewayRootWork_def Let_def rootInv_drain_waiters inv)
qed

lemma rootInv_parked:
  "rootInv (s\<lparr>suspendOpenWaiters := ws\<rparr>) \<longleftrightarrow> rootInv s"
  by (rule rootInv_cong) (simp add: rootView_def)

lemma rootInv_begin_ops:
  assumes "rootInv s"
  shows "rootInv (snd (tryBeginGatewayRootWorkAdmission c s))"
    and "rootInv (snd (tryBeginGatewayIndependentRootWorkAdmission s))"
    and "rootInv (snd (beginGatewayRootWorkAdmissionWhenOpen c w s))"
    and "rootInv (snd (runWithGatewayIndependentRootWorkAdmission w s))"
    and "rootInv (snd (runWithGatewayIndependentRootWorkContinuation c w s))"
  using assms rootInv_create [OF assms]
  by (auto simp: tryBeginGatewayRootWorkAdmission_def tryBeginGatewayIndependentRootWorkAdmission_def
      beginGatewayRootWorkAdmissionWhenOpen_def runWithGatewayIndependentRootWorkAdmission_def
      runWithGatewayIndependentRootWorkContinuation_def rootInv_parked split: prod.splits)

lemmas rootInv_gate_ops = gate_ops_rootView [THEN rootInv_cong]

lemma rootInv_step: "rootInv s \<Longrightarrow> rootInv (admissionStep e s)"
  by (cases e) (simp_all add: rootInv_begin_ops rootInv_waits rootInv_reset rootInv_release
      rootInv_retain rootInv_gate_ops)

lemma reachable_rootInv: "admissionReachable s \<Longrightarrow> rootInv s"
  by (induction rule: admissionReachable.induct) (simp_all add: rootInv_initial rootInv_step)

section \<open>Leases of released roots\<close>

text \<open>
  Releasing the last lease releases the root, so that a released root has no lease left; only a reset
  retires roots that have some.
\<close>

definition noStrayLease :: "nat \<Rightarrow> admission_state \<Rightarrow> bool" where
  "noStrayLease r s \<longleftrightarrow> (rootReleased s r \<longrightarrow> liveLeases s r = {})"

lemma noStrayLease_cong: "rootView t = rootView s \<Longrightarrow> noStrayLease r t \<longleftrightarrow> noStrayLease r s"
  by (simp add: rootView_def noStrayLease_def rootReleased_def liveLeases_def)

lemma noStrayLease_active: "rootInv s \<Longrightarrow> noStrayLease r s \<Longrightarrow> r \<in> set (activeRootWork s) \<longleftrightarrow> liveLeases s r \<noteq> {}"
  using rootInv_active [of s r] rootInv_pos [of s r]
  by (auto simp: noStrayLease_def rootReleased_def split: option.splits)

lemma noStrayLease_create:
  "rootInv s \<Longrightarrow> noStrayLease r s \<Longrightarrow> noStrayLease r (snd (createGatewayRootWorkAdmission s))"
  by (simp add: noStrayLease_def create_leases)

lemma noStrayLease_retain:
  assumes "rootInv s" and "noStrayLease q s"
  shows "noStrayLease q (snd (retainGatewayRootWorkAdmissionContinuation c s))"
proof (cases "\<exists>r w. c = Some r \<and> rootWork s r = Some w \<and> \<not> released w")
  case True
  then obtain r w where "c = Some r" "rootWork s r = Some w" "\<not> released w" by blast
  then show ?thesis using assms
    by (auto simp: noStrayLease_def retain_leases [OF assms(1)]) (simp add: rootReleased_def)
qed (use assms in \<open>simp add: retain_noop\<close>)

lemma noStrayLease_release:
  assumes inv: "rootInv s" and q: "noStrayLease q s"
  shows "noStrayLease q (releaseRootWork l s)"
proof (cases "\<exists>r w. releaseClosures s l = Some (r, False) \<and> rootWork s r = Some w \<and> \<not> released w")
  case True
  then obtain r w where l: "releaseClosures s l = Some (r, False)"
    and w: "rootWork s r = Some w" "\<not> released w" by blast
  have "liveLeases s r = {l}" if "references w \<le> 1"
  proof -
    have "card (liveLeases s r) \<le> 1" using rootInv_refs [OF inv w] that by simp
    moreover have "l \<in> liveLeases s r" using l by (simp add: liveLeases_iff)
    ultimately show ?thesis
      using card_le_Suc0_iff_eq [OF finite_liveLeases [OF inv]] by auto
  qed
  then show ?thesis
    using q by (auto simp: noStrayLease_def liveLeases_release [OF l w] rootReleased_def
        releaseRootWork_fields [OF l w] split: if_splits)
qed (use q in \<open>simp add: releaseRootWork_noop\<close>)

lemma noStrayLease_views [simp]:
  "noStrayLease r (s\<lparr>suspendOpenWaiters := ws\<rparr>) \<longleftrightarrow> noStrayLease r s"
  "noStrayLease r (s\<lparr>rootDrainWaiters := ds\<rparr>) \<longleftrightarrow> noStrayLease r s"
  by (simp_all add: noStrayLease_def rootReleased_def liveLeases_def)

lemmas noStrayLease_gate_ops = gate_ops_rootView [THEN noStrayLease_cong]

lemma noStrayLease_step:
  assumes "rootInv s" and "noStrayLease r s" and "e \<noteq> ResetAdmission"
  shows "noStrayLease r (admissionStep e s)"
  using assms noStrayLease_create [OF assms(1,2)] noStrayLease_retain [OF assms(1,2)]
    noStrayLease_release [OF assms(1,2)]
  by (cases e) (auto simp: noStrayLease_gate_ops tryBeginGatewayRootWorkAdmission_def
      tryBeginGatewayIndependentRootWorkAdmission_def beginGatewayRootWorkAdmissionWhenOpen_def
      runWithGatewayIndependentRootWorkAdmission_def runWithGatewayIndependentRootWorkContinuation_def
      finishWaitForActiveGatewayRootWork_def waitForActiveGatewayRootWork_def Let_def split: prod.splits)

lemma noStrayLease_run:
  "rootInv s \<Longrightarrow> noStrayLease r s \<Longrightarrow> ResetAdmission \<notin> set es \<Longrightarrow>
   rootInv (admissionRun es s) \<and> noStrayLease r (admissionRun es s)"
  by (induction es arbitrary: s) (auto simp: noStrayLease_step rootInv_step)

lemma noStrayLease_start:
  assumes inv: "rootInv s" and r: "r \<in> set (activeRootWork s) \<or> nextRoot s \<le> r"
  shows "noStrayLease r s"
proof -
  have "liveLeases s r = {}" if "nextRoot s \<le> r"
    using that by (force simp: liveLeases_iff dest: rootInv_closure_root [OF inv])
  then show ?thesis using r rootInv_active [OF inv] by (auto simp: noStrayLease_def)
qed

section \<open>Generations\<close>

lemma releaseRootWork_generations [simp]:
  "suspendGeneration (releaseRootWork l s) = suspendGeneration s"
  "restartSignalGeneration (releaseRootWork l s) = restartSignalGeneration s"
  "restartDraining (releaseRootWork l s) = restartDraining s"
  "restartSignalPending (releaseRootWork l s) = restartSignalPending s"
  "suspendPhase (releaseRootWork l s) = suspendPhase s"
  using releaseRootWork_gates(1) [of l s] by (simp_all add: gateView_def)

lemma suspendGeneration_mono: "suspendGeneration s \<le> suspendGeneration (admissionStep e s)"
  by (cases e) (auto simp: gate_op_defs root_op_defs drain_op_defs resetGatewayWorkAdmission_def
      Let_def split: option.splits)

lemma restartSignalGeneration_mono:
  "restartSignalGeneration s \<le> restartSignalGeneration (admissionStep e s)"
  by (cases e) (auto simp: gate_op_defs root_op_defs drain_op_defs resetGatewayWorkAdmission_def
      Let_def split: option.splits)

interpretation suspend_commit: generation_lease suspendGeneration admissionStep suspendCommit
  tryBeginGatewaySuspendAdmission
  by unfold_locales (auto simp: suspendGeneration_mono suspendCommit_def suspendTransition_def
      tryBeginGatewaySuspendAdmission_def Let_def split: if_splits)

interpretation suspend_rollback: generation_lease suspendGeneration admissionStep suspendRollback
  tryBeginGatewaySuspendAdmission
  by unfold_locales (auto simp: suspendGeneration_mono suspendRollback_def suspendTransition_def
      tryBeginGatewaySuspendAdmission_def Let_def split: if_splits)

interpretation suspend_release: generation_lease suspendGeneration admissionStep suspendRelease
  tryBeginGatewaySuspendAdmission
  by unfold_locales (auto simp: suspendGeneration_mono suspendRelease_def suspendTransition_def
      tryBeginGatewaySuspendAdmission_def Let_def split: if_splits)

interpretation restart_signal: generation_lease restartSignalGeneration admissionStep
  restartSignalRollback "\<lambda>_::unit. beginGatewayRestartSignalAdmission"
  by unfold_locales (auto simp: restartSignalGeneration_mono restartSignalRollback_def
      beginGatewayRestartSignalAdmission_def Let_def split: if_splits)

interpretation gateway_gate: work_gate isGatewaySubordinateWorkAdmissionClosed
  markGatewayRestartDraining resetGatewayWorkAdmission
  by unfold_locales (auto simp: isGatewaySubordinateWorkAdmissionClosed_def
      resetGatewayWorkAdmission_def gate_op_defs resolveRootDrainWaiters_def Let_def
      split: option.splits)

section \<open>Spent leases\<close>

text \<open>A release closure is spent once it was called or its root is released; it stays so.\<close>

definition spentRelease :: "nat \<Rightarrow> admission_state \<Rightarrow> bool" where
  "spentRelease l s \<longleftrightarrow>
     (case releaseClosures s l of None \<Rightarrow> False
      | Some (r, b) \<Rightarrow> (b \<or> rootReleased s r) \<and> rootWork s r \<noteq> None)"

lemma spentRelease_noop: "spentRelease l s \<Longrightarrow> releaseRootWork l s = s"
  by (rule releaseRootWork_noop) (auto simp: spentRelease_def rootReleased_def)

lemma spentRelease_cong: "rootView t = rootView s \<Longrightarrow> spentRelease l t \<longleftrightarrow> spentRelease l s"
  by (auto simp: rootView_def spentRelease_def rootReleased_def split: option.splits)

lemmas spentRelease_gate_ops = gate_ops_rootView [THEN spentRelease_cong]

lemma spentRelease_create:
  assumes inv: "rootInv s" and spent: "spentRelease l s"
  shows "spentRelease l (snd (createGatewayRootWorkAdmission s))"
proof -
  obtain r b where l: "releaseClosures s l = Some (r, b)" and w: "b \<or> rootReleased s r"
      "rootWork s r \<noteq> None"
    using spent by (auto simp: spentRelease_def split: option.splits)
  have "l < nextRelease s" "r < nextRoot s"
    using rootInv_closure [OF inv l] rootInv_closure_root [OF inv l] by simp_all
  with l w show ?thesis
    by (auto simp: spentRelease_def root_op_defs Let_def rootReleased_def)
qed

lemma spentRelease_retain:
  assumes inv: "rootInv s" and spent: "spentRelease l s"
  shows "spentRelease l (snd (retainGatewayRootWorkAdmissionContinuation c s))"
proof -
  obtain r b where l: "releaseClosures s l = Some (r, b)" and w: "b \<or> rootReleased s r"
      "rootWork s r \<noteq> None"
    using spent by (auto simp: spentRelease_def split: option.splits)
  have "l < nextRelease s"
    using rootInv_closure [OF inv l] by simp
  with l w show ?thesis
    by (auto simp: spentRelease_def root_op_defs Let_def rootReleased_def split: option.splits)
qed

lemma spentRelease_release:
  assumes "spentRelease l s"
  shows "spentRelease l (releaseRootWork k s)"
proof (cases "\<exists>r w. releaseClosures s k = Some (r, False) \<and> rootWork s r = Some w \<and> \<not> released w")
  case False
  with assms show ?thesis by (simp add: releaseRootWork_noop)
next
  case True
  then obtain r w where k: "releaseClosures s k = Some (r, False)" "rootWork s r = Some w"
    "\<not> released w" by blast
  show ?thesis
    using assms k by (auto simp: spentRelease_def rootReleased_def releaseRootWork_fields [OF k]
        split: option.splits)
qed

lemma spentRelease_after_release:
  assumes inv: "rootInv s" and l: "releaseClosures s l = Some (r, b)" and w: "rootWork s r \<noteq> None"
  shows "spentRelease l (releaseRootWork l s)"
proof (cases "\<exists>w. b = False \<and> rootWork s r = Some w \<and> \<not> released w")
  case False
  then have "spentRelease l s" using l w by (auto simp: spentRelease_def rootReleased_def)
  then show ?thesis by (simp add: spentRelease_noop)
next
  case True
  then obtain w where "rootWork s r = Some w" "\<not> released w" and "b = False" by blast
  with l show ?thesis
    by (simp add: spentRelease_def releaseRootWork_fields)
qed

lemma spentRelease_reset:
  "spentRelease l s \<Longrightarrow> spentRelease l (resetGatewayWorkAdmission s)"
  by (auto simp: spentRelease_def resetGatewayWorkAdmission_def resolveRootDrainWaiters_def
      invalidateSuspendAdmission_def resolveSuspendOpenWaiters_def Let_def rootReleased_def
      retireRoot_def split: option.splits)

lemma spentRelease_parked:
  "spentRelease l (s\<lparr>suspendOpenWaiters := ws\<rparr>) \<longleftrightarrow> spentRelease l s"
  "spentRelease l (s\<lparr>rootDrainWaiters := ws\<rparr>) \<longleftrightarrow> spentRelease l s"
  by (auto simp: spentRelease_def rootReleased_def split: option.splits)

lemma spentRelease_step:
  assumes "rootInv s" and "spentRelease l s"
  shows "spentRelease l (admissionStep e s)"
  using assms spentRelease_create [OF assms]
  by (cases e) (auto simp: spentRelease_gate_ops spentRelease_release spentRelease_reset
      spentRelease_retain spentRelease_parked drain_op_defs Let_def
      tryBeginGatewayRootWorkAdmission_def tryBeginGatewayIndependentRootWorkAdmission_def
      beginGatewayRootWorkAdmissionWhenOpen_def runWithGatewayIndependentRootWorkAdmission_def
      runWithGatewayIndependentRootWorkContinuation_def split: prod.splits)

lemma spentRelease_run:
  "rootInv s \<Longrightarrow> spentRelease l s \<Longrightarrow> spentRelease l (admissionRun es s)"
  by (induction es arbitrary: s) (simp_all add: spentRelease_step rootInv_step)

section \<open>Quiescence and the one-way drain\<close>

lemma no_active_released:
  "rootInv s \<Longrightarrow> activeRootWork s = [] \<Longrightarrow> rootReleased s r"
  using rootInv_active by fastforce

lemma closed_quiescent_step:
  assumes inv: "rootInv s" and closed: "isGatewayWorkAdmissionClosed s"
    and quiet: "activeRootWork s = []"
  shows "activeRootWork (admissionStep e s) = []"
proof -
  have released: "rootReleased s r" for r by (rule no_active_released [OF inv quiet])
  have rel: "activeRootWork (releaseRootWork l s) = []" for l
    using quiet by (auto simp: releaseRootWork_def resolveRootDrainWaiters_def Let_def
        split: option.splits)
  show ?thesis
    using closed quiet released rel
    by (cases e) (auto simp: isGatewayWorkAdmissionClosed_def gate_op_defs drain_op_defs Let_def
        tryBeginGatewayRootWorkAdmission_def tryBeginGatewayIndependentRootWorkAdmission_def
        beginGatewayRootWorkAdmissionWhenOpen_def runWithGatewayIndependentRootWorkAdmission_def
        runWithGatewayIndependentRootWorkContinuation_def createGatewayRootWorkRelease_def
        retainGatewayRootWorkAdmissionContinuation_def resetGatewayWorkAdmission_def
        split: option.splits prod.splits)
qed

lemma restartDraining_step:
  "restartDraining s \<Longrightarrow> e \<noteq> ResetAdmission \<Longrightarrow> restartDraining (admissionStep e s)"
  by (cases e) (auto simp: gate_op_defs root_op_defs drain_op_defs Let_def split: option.splits)

lemma restartDraining_run:
  "restartDraining s \<Longrightarrow> ResetAdmission \<notin> set es \<Longrightarrow> restartDraining (admissionRun es s)"
  by (induction es arbitrary: s) (auto simp: restartDraining_step)

section \<open>Properties\<close>

text \<open>
  C33. In every reachable state a root is counted as active exactly while it is not released and has
  a lease that is not, and its reference count is then the number of these leases.  From any such
  state on, an active root, or one that is begun later, stays active exactly while it has an
  unreleased lease, until the admission is reset; only a reset retires roots that still have one.
\<close>

theorem root_active_iff_live_lease:
  assumes "admissionReachable s"
  shows "distinct (activeRootWork s) \<and>
    (r \<in> set (activeRootWork s) \<longleftrightarrow>
      (\<exists>w. rootWork s r = Some w \<and> \<not> released w \<and>
           references w = int (card (liveLeases s r)) \<and> liveLeases s r \<noteq> {})) \<and>
    ((r \<in> set (activeRootWork s) \<or> nextRoot s \<le> r) \<and> ResetAdmission \<notin> set es \<longrightarrow>
      (r \<in> set (activeRootWork (admissionRun es s)) \<longleftrightarrow> liveLeases (admissionRun es s) r \<noteq> {}))"
proof -
  have inv: "rootInv s" by (rule reachable_rootInv [OF assms])
  have "liveLeases s r \<noteq> {}" if "rootWork s r = Some w" "\<not> released w" for w
    using rootInv_pos [OF inv that] by auto
  moreover have "r \<in> set (activeRootWork (admissionRun es s)) \<longleftrightarrow> liveLeases (admissionRun es s) r \<noteq> {}"
    if "r \<in> set (activeRootWork s) \<or> nextRoot s \<le> r" "ResetAdmission \<notin> set es"
    using noStrayLease_run [OF inv noStrayLease_start [OF inv that(1)] that(2)] noStrayLease_active by blast
  ultimately show ?thesis
    using rootInv_distinct [OF inv] rootInv_active [OF inv, of r] rootInv_refs [OF inv, of r]
    by (auto simp: rootReleased_def split: option.splits)
qed

lemma root_active_iff_live_lease_witness:
  "let s = admissionRun [TryBeginRoot None, RetainContinuation (Some 0), ReleaseLease 0] initialAdmissionState
   in 0 \<in> set (activeRootWork s) \<and> liveLeases s 0 \<noteq> {}"
proof -
  let ?es = "[TryBeginRoot None, RetainContinuation (Some 0), ReleaseLease 0]"
  have "nextRoot initialAdmissionState \<le> 0" by (simp add: initialAdmissionState_def)
  moreover have "ResetAdmission \<notin> set ?es" by simp
  ultimately have "0 \<in> set (activeRootWork (admissionRun ?es initialAdmissionState)) \<longleftrightarrow>
      liveLeases (admissionRun ?es initialAdmissionState) 0 \<noteq> {}"
    using root_active_iff_live_lease [OF admissionReachable.start] by blast
  moreover have "list_ex (\<lambda>r. r = 0) (activeRootWork (admissionRun ?es initialAdmissionState))" by code_simp
  ultimately show ?thesis unfolding Let_def by (auto simp: list_ex_iff)
qed

text \<open>
  C19. Quiescence holds while admission is closed.  If a reachable gateway has no active root and
  admission stays closed before each of the following events, whatever they are (nested,
  independent or continuation roots, retained continuations, late releases), no root is active
  afterwards: what a suspension's synchronous inspection saw remains true until it is released.
\<close>

theorem closed_gateway_stays_quiescent:
  assumes "admissionReachable s" and "activeRootWork s = []"
    and "\<And>n. n < length es \<Longrightarrow> isGatewayWorkAdmissionClosed (admissionRun (take n es) s)"
  shows "activeRootWork (admissionRun es s) = []"
  using assms
proof (induction es arbitrary: s)
  case Nil
  then show ?case by simp
next
  case (Cons e es)
  have "isGatewayWorkAdmissionClosed s" using Cons.prems(3) [of 0] by simp
  then have quiet: "activeRootWork (admissionStep e s) = []"
    using closed_quiescent_step [OF reachable_rootInv [OF Cons.prems(1)]] Cons.prems(2) by blast
  have "isGatewayWorkAdmissionClosed (admissionRun (take n es) (admissionStep e s))"
    if "n < length es" for n
    using Cons.prems(3) [of "Suc n"] that by simp
  with Cons.IH [OF admissionReachable.step [OF Cons.prems(1)] quiet] show ?case by simp
qed

lemma closed_gateway_stays_quiescent_witness:
  "let s = admissionRun [TryBeginRoot None, ReleaseLease 0, TryBeginSuspend 7]
             initialAdmissionState;
       es = [TryBeginRoot (Some 0), RunContinuation (Some 0) 3, CommitSuspend 1]
   in activeRootWork (admissionRun es s) = []"
  unfolding Let_def
proof (rule closed_gateway_stays_quiescent)
  let ?s = "admissionRun [TryBeginRoot None, ReleaseLease 0, TryBeginSuspend 7]
             initialAdmissionState"
  show "admissionReachable ?s"
    by (rule admissionReachable_run) (rule admissionReachable.start)
  show "activeRootWork ?s = []" by code_simp
  fix n assume "n < length [TryBeginRoot (Some 0), RunContinuation (Some 0) 3, CommitSuspend 1]"
  then have "n = 0 \<or> n = 1 \<or> n = 2" by auto
  then show "isGatewayWorkAdmissionClosed (admissionRun
      (take n [TryBeginRoot (Some 0), RunContinuation (Some 0) 3, CommitSuspend 1]) ?s)"
    by (elim disjE; simp only:; code_simp)
qed

text \<open>
  No wake-up is lost.  In a reachable state a promise parked for admission to open implies
  that a reversible closure is still in force (whose end resolves it) and that the one-way drain
  has not started; a promise parked for the roots to drain implies that a root is still active.
\<close>

theorem parked_promises_can_be_woken:
  assumes "admissionReachable s"
  shows "(suspendOpenWaiters s = [] \<or>
      \<not> restartDraining s \<and> (restartSignalPending s \<or> suspendPhase s \<noteq> Accepting)) \<and>
    (rootDrainWaiters s = [] \<or> activeRootWork s \<noteq> [])"
  using reachable_gateInv [OF assms] reachable_rootInv [OF assms]
  by (auto simp: gateInv_def dest: rootInv_waiters)

lemma parked_promises_can_be_woken_witness:
  "let s = admissionRun [TryBeginSuspend 0, BeginRootWhenOpen None 4] initialAdmissionState
   in suspendOpenWaiters s = [4] \<and>
      (suspendOpenWaiters s = [] \<or>
       \<not> restartDraining s \<and> (restartSignalPending s \<or> suspendPhase s \<noteq> Accepting))"
proof -
  have "suspendOpenWaiters (admissionRun [TryBeginSuspend 0, BeginRootWhenOpen None 4]
          initialAdmissionState) = [4]"
    by code_simp
  then show ?thesis
    using parked_promises_can_be_woken [OF admissionReachable_run [OF admissionReachable.start]]
    by (metis (no_types, lifting))
qed

text \<open>
  A lease is released at most once.  After its release closure has been called, a further
  call has no effect at any later time, whatever happened in between: further leases on the same
  root, resets and abandoned chains included.
\<close>

theorem release_is_idempotent_forever:
  assumes "admissionReachable s" and "releaseClosures s l = Some (r, b)" and "rootWork s r \<noteq> None"
  shows "releaseRootWork l (admissionRun es (releaseRootWork l s)) =
         admissionRun es (releaseRootWork l s)"
  by (rule spentRelease_noop, rule spentRelease_run)
    (simp_all add: rootInv_release spentRelease_after_release [OF _ assms(2,3)]
      reachable_rootInv [OF assms(1)])

lemma release_is_idempotent_forever_witness:
  "let s = admissionRun [TryBeginRoot None, RetainContinuation (Some 0)] initialAdmissionState;
       t = admissionRun [TryBeginRoot None, ResetAdmission] (releaseRootWork 0 s)
   in releaseRootWork 0 t = t"
  unfolding Let_def
proof (rule release_is_idempotent_forever)
  let ?s = "admissionRun [TryBeginRoot None, RetainContinuation (Some 0)] initialAdmissionState"
  show "admissionReachable ?s"
    by (rule admissionReachable_run) (rule admissionReachable.start)
  show "releaseClosures ?s 0 = Some (0, False)" by code_simp
  show "rootWork ?s 0 \<noteq> None" by code_simp
qed

text \<open>
  The restart drain is one-way.  Once it has been marked, then until the module is reset no
  event reopens it: independent roots are refused, waiting callers are rejected rather than
  parked, the subordinate gate is closed to every chain, and neither a suspension nor a restart
  signal can begin.
\<close>

theorem restart_drain_is_one_way:
  fixes s :: admission_state
  assumes "ResetAdmission \<notin> set es"
  defines "t \<equiv> admissionRun es (markGatewayRestartDraining s)"
  shows "tryBeginGatewayIndependentRootWorkAdmission t = (None, t) \<and>
    beginGatewayRootWorkAdmissionWhenOpen c w t = (ThrowDraining, t) \<and>
    isGatewaySubordinateWorkAdmissionClosed c t \<and>
    fst (tryBeginGatewaySuspendAdmission k t) = None \<and>
    fst (beginGatewayRestartSignalAdmission t) = None \<and>
    rollbackGatewayRestartSignalFence t = (t, False)"
proof -
  have "restartDraining (markGatewayRestartDraining s)"
    by (auto simp: gate_op_defs Let_def split: option.splits)
  then have "restartDraining t"
    unfolding t_def by (rule restartDraining_run) (rule assms(1))
  then show ?thesis
    by (simp add: tryBeginGatewayIndependentRootWorkAdmission_def
        beginGatewayRootWorkAdmissionWhenOpen_def isGatewaySubordinateWorkAdmissionClosed_def
        tryBeginGatewaySuspendAdmission_def beginGatewayRestartSignalAdmission_def
        rollbackGatewayRestartSignalFence_def clearRestartSignalFence_def)
qed

lemma restart_drain_is_one_way_witness:
  "fst (tryBeginGatewaySuspendAdmission 0 (admissionRun [ReleaseLease 0, RollbackRestartSignal 1]
     (markGatewayRestartDraining
       (admissionRun [TryBeginRoot None, BeginRestartSignal] initialAdmissionState)))) = None"
  using restart_drain_is_one_way [of "[ReleaseLease 0, RollbackRestartSignal 1]"
      "admissionRun [TryBeginRoot None, BeginRestartSignal] initialAdmissionState" None 0 0]
  by simp

text \<open>
  A superseded suspension lease is dead.  When a second suspension has been granted, no
  closure of the first lease ever acts again: it cannot commit, roll back or release the second
  one's suspension, and reports so.
\<close>

theorem superseded_suspension_is_inert:
  assumes "tryBeginGatewaySuspendAdmission a s = (Some g, t)"
    and "tryBeginGatewaySuspendAdmission b (admissionRun es t) = (Some h, u)"
  shows "suspendCommit g (admissionRun fs u) = (admissionRun fs u, False) \<and>
    suspendRollback g (admissionRun fs u) = (admissionRun fs u, False) \<and>
    suspendRelease g (admissionRun fs u) = (admissionRun fs u, False)"
  using suspend_commit.superseded [OF assms [unfolded admissionRun_def]]
    suspend_rollback.superseded [OF assms [unfolded admissionRun_def]]
    suspend_release.superseded [OF assms [unfolded admissionRun_def]]
  by (simp_all add: admissionRun_def)

lemma superseded_suspension_is_inert_witness:
  "let t = snd (tryBeginGatewaySuspendAdmission 0 initialAdmissionState);
       u = snd (tryBeginGatewaySuspendAdmission 1 (admissionRun [RollbackSuspend 1] t));
       v = admissionRun [CommitSuspend 2] u
   in suspendPhase v = Prepared \<and> suspendRelease 1 v = (v, False)"
proof -
  let ?t = "snd (tryBeginGatewaySuspendAdmission 0 initialAdmissionState)"
  let ?u = "snd (tryBeginGatewaySuspendAdmission 1 (admissionRun [RollbackSuspend 1] ?t))"
  have first: "tryBeginGatewaySuspendAdmission 0 initialAdmissionState = (Some 1, ?t)"
    by (simp add: tryBeginGatewaySuspendAdmission_def initialAdmissionState_def)
  have second: "tryBeginGatewaySuspendAdmission 1 (admissionRun [RollbackSuspend 1] ?t) = (Some 2, ?u)"
    by (simp add: gate_op_defs initialAdmissionState_def)
  have "suspendPhase (admissionRun [CommitSuspend 2] ?u) = Prepared"
    by (simp add: gate_op_defs initialAdmissionState_def)
  with superseded_suspension_is_inert [OF first second, of "[CommitSuspend 2]"] show ?thesis
    by (simp only: Let_def)
qed

end
