(* ===== verification/CommandQueue.thy ===== *)
theory CommandQueue
  imports JsMap GatewayAdmission "HOL-Library.Multiset"
begin

text \<open>
  \<open>src/process/command-queue.ts\<close>: the in-process queue that serializes commands per lane, and
  \<open>src/process/lanes.ts\<close> / \<open>command-queue.types.ts\<close>.

  The global singleton is the record \<open>queue_state\<close>, which also holds the gateway admission
  singleton the queue consults.  A queued command is named by the number of its promise
  (\<open>entryId\<close>); the asynchronous closures that run started tasks are the list \<open>running\<close>, each with
  the lane object and generation it captured; \<open>settled\<close> records the promises resolved or rejected.
  \<open>Date.now()\<close> is an argument, read once per synchronous run.  The caller's own callbacks
  (\<open>onWait\<close>) are recorded in \<open>waitNotices\<close>; they are assumed not to call back into the queue.
\<close>

section \<open>Data\<close>

datatype queue_priority = Foreground | NormalPriority | Background

record enqueue_options =
  optWarnAfterMs :: "int option"
  optOnWait :: bool
  optTaskTimeoutMs :: "js_number option"
  optTaskTimeoutAbortGraceMs :: "js_number option"
  optProgress :: bool
  optAbortSignal :: "nat option"
  optReleaseSignal :: "nat option"
  optPriority :: "queue_priority option"

record queue_entry =
  entryId :: nat
  enqueuedAt :: ms
  sequence :: nat
  priority :: int
  warnAfterMs :: int
  queuedAheadAtEnqueue :: nat
  activeAheadAtEnqueue :: nat
  taskTimeoutMs :: "int option"
  hasProgressCallback :: bool
  taskTimeoutAbortSignal :: "nat option"
  taskTimeoutAbortGraceMs :: "int option"
  taskTimeoutReleaseSignal :: "nat option"
  onWait :: bool

record lane_state =
  laneName :: string
  queue :: "queue_entry list"
  activeTaskIds :: "nat list"
  maxConcurrent :: js_number
  draining :: bool
  generation :: nat

record lane_snapshot =
  snapLane :: string
  snapQueuedCount :: nat
  snapActiveCount :: nat
  snapMaxConcurrent :: js_number
  snapDraining :: bool
  snapGeneration :: nat

text \<open>A started task: the closure \<open>pump\<close> leaves running.\<close>

record running_task =
  taskId :: nat
  taskLane :: string
  taskGeneration :: nat
  taskEntry :: queue_entry

datatype settlement =
    Fulfilled nat
  | TaskRejected nat
  | CommandLaneCleared string
  | GatewayDraining

record active_task_waiter =
  waiterId :: nat
  waiterTaskIds :: "nat list"

record queue_state =
  lanes :: "(string, lane_state) jsmap"
  activeTaskWaiters :: "active_task_waiter list"
  nextTaskId :: nat
  nextQueueSequence :: nat
  running :: "running_task list"
  settled :: "(nat \<times> settlement) list"
  drainedWaiters :: "(nat \<times> bool) list"
  waitNotices :: "(nat \<times> int \<times> nat) list"
  nextEntry :: nat
  nextWaiter :: nat
  admission :: admission_state

definition initialQueueState :: queue_state where
  "initialQueueState =
     \<lparr>lanes = [], activeTaskWaiters = [], nextTaskId = 1, nextQueueSequence = 1,
      running = [], settled = [], drainedWaiters = [], waitNotices = [], nextEntry = 0,
      nextWaiter = 0, admission = initialAdmissionState\<rparr>"

text \<open>\<open>CommandLane.Main\<close>.\<close>

definition CommandLane_Main :: string where
  "CommandLane_Main = ''main''"

definition isQuietProbeLane :: "string \<Rightarrow> bool" where
  "isQuietProbeLane lane \<longleftrightarrow>
     js_starts_with lane ''auth-probe:'' \<or>
     js_starts_with lane ''session:probe-'' \<or>
     js_starts_with lane ''session:temp:setup-inference:probe-setup-inference-''"

definition normalizeLane :: "string \<Rightarrow> string" where
  "normalizeLane lane = (let trimmed = js_trim lane in if trimmed = [] then CommandLane_Main else trimmed)"

definition normalizeTaskTimeoutMs :: "js_number option \<Rightarrow> int option" where
  "normalizeTaskTimeoutMs v =
     (case v of
        Some (Finite q) \<Rightarrow> if q \<le> 0 then None else clampPositiveTimerTimeoutMs (Some (Finite q))
      | _ \<Rightarrow> None)"

definition resolveQueuePriority :: "queue_priority option \<Rightarrow> int" where
  "resolveQueuePriority p =
     (case p of Some Foreground \<Rightarrow> 1 | Some Background \<Rightarrow> -1 | _ \<Rightarrow> 0)"

definition getLaneDepth :: "lane_state \<Rightarrow> nat" where
  "getLaneDepth st = length (queue st) + length (activeTaskIds st)"

definition createCommandLaneSnapshot :: "lane_state \<Rightarrow> lane_snapshot" where
  "createCommandLaneSnapshot st =
     \<lparr>snapLane = laneName st, snapQueuedCount = length (queue st),
      snapActiveCount = length (activeTaskIds st), snapMaxConcurrent = maxConcurrent st,
      snapDraining = draining st, snapGeneration = generation st\<rparr>"

section \<open>Lanes\<close>

definition newLane :: "string \<Rightarrow> lane_state" where
  "newLane lane =
     \<lparr>laneName = lane, queue = [], activeTaskIds = [], maxConcurrent = Finite 1,
      draining = False, generation = 0\<rparr>"

definition laneAt :: "queue_state \<Rightarrow> string \<Rightarrow> lane_state option" where
  "laneAt s l = jm_get (lanes s) l"

text \<open>Writing through the lane object's reference.\<close>

definition putLane :: "string \<Rightarrow> lane_state \<Rightarrow> queue_state \<Rightarrow> queue_state" where
  "putLane l st s = s\<lparr>lanes := jm_set l st (lanes s)\<rparr>"

definition getLaneState :: "string \<Rightarrow> queue_state \<Rightarrow> lane_state \<times> queue_state" where
  "getLaneState l s =
     (case laneAt s l of
        Some st \<Rightarrow> (st, s)
      | None \<Rightarrow> (newLane l, putLane l (newLane l) s))"

definition enqueueLaneEntry :: "lane_state \<Rightarrow> queue_entry \<Rightarrow> lane_state" where
  "enqueueLaneEntry st entry =
     (let insertAt = find_index (\<lambda>queued. priority queued < priority entry \<or>
                       (priority queued = priority entry \<and> sequence queued > sequence entry))
                       (queue st);
          entry1 = entry\<lparr>queuedAheadAtEnqueue := nullish insertAt (length (queue st)),
                         activeAheadAtEnqueue := length (activeTaskIds st)\<rparr>
      in case insertAt of
           None \<Rightarrow> st\<lparr>queue := queue st @ [entry1]\<rparr>
         | Some i \<Rightarrow> st\<lparr>queue := take i (queue st) @ entry1 # drop i (queue st)\<rparr>)"

section \<open>Waiting for active tasks\<close>

definition hasPendingActiveTasks :: "nat list \<Rightarrow> queue_state \<Rightarrow> bool" where
  "hasPendingActiveTasks ids s \<longleftrightarrow>
     list_ex (\<lambda>(_, st). list_ex (\<lambda>t. t \<in> set ids) (activeTaskIds st)) (lanes s)"

definition resolveActiveTaskWaiter :: "nat \<Rightarrow> bool \<Rightarrow> queue_state \<Rightarrow> queue_state" where
  "resolveActiveTaskWaiter w drained s =
     (if list_ex (\<lambda>x. waiterId x = w) (activeTaskWaiters s)
      then s\<lparr>activeTaskWaiters := filter (\<lambda>x. waiterId x \<noteq> w) (activeTaskWaiters s),
             drainedWaiters := drainedWaiters s @ [(w, drained)]\<rparr>
      else s)"

text \<open>One waiter of the loop over a copy of the set.\<close>

definition notifyWaiter :: "active_task_waiter \<Rightarrow> queue_state \<Rightarrow> queue_state" where
  "notifyWaiter x s =
     (if waiterTaskIds x = [] \<or> \<not> hasPendingActiveTasks (waiterTaskIds x) s
      then resolveActiveTaskWaiter (waiterId x) True s else s)"

definition notifyActiveTaskWaiters :: "queue_state \<Rightarrow> queue_state" where
  "notifyActiveTaskWaiters s = fold notifyWaiter (activeTaskWaiters s) s"

section \<open>Pumping a lane\<close>

text \<open>
  The loop of \<open>pump\<close>: while the lane is below its limit and its queue is not empty, shift an
  entry and start it under a fresh task number.
\<close>

fun pumpLoop :: "js_number \<Rightarrow> queue_entry list \<Rightarrow> nat list \<Rightarrow> nat \<Rightarrow>
    queue_entry list \<times> nat list \<times> nat \<times> (nat \<times> queue_entry) list" where
  "pumpLoop limit [] active next = ([], active, next, [])"
| "pumpLoop limit (entry # q) active next =
     (if js_count_less (length active) limit
      then let (q1, active1, next1, started) = pumpLoop limit q (set_add next active) (Suc next)
           in (q1, active1, next1, (next, entry) # started)
      else (entry # q, active, next, []))"

text \<open>The \<open>onWait\<close> calls of the entries the loop started.\<close>

definition waitNotice :: "ms \<Rightarrow> queue_entry \<Rightarrow> (nat \<times> int \<times> nat) list" where
  "waitNotice now entry =
     (let waitedMs = now - enqueuedAt entry
      in if waitedMs \<ge> warnAfterMs entry \<and> onWait entry
         then [(entryId entry, waitedMs, queuedAheadAtEnqueue entry)] else [])"

definition startTask :: "string \<Rightarrow> nat \<Rightarrow> nat \<times> queue_entry \<Rightarrow> running_task" where
  "startTask l g p = \<lparr>taskId = fst p, taskLane = l, taskGeneration = g, taskEntry = snd p\<rparr>"

definition pump :: "ms \<Rightarrow> string \<Rightarrow> queue_state \<Rightarrow> queue_state" where
  "pump now l s =
     (case laneAt s l of
        None \<Rightarrow> s
      | Some st \<Rightarrow>
          let (q, active, next, started) =
                pumpLoop (maxConcurrent st) (queue st) (activeTaskIds st) (nextTaskId s)
          in putLane l (st\<lparr>queue := q, activeTaskIds := active, draining := False\<rparr>)
               (s\<lparr>nextTaskId := next,
                  running := running s @ map (startTask l (generation st)) started,
                  waitNotices := waitNotices s @ concat (map (\<lambda>p. waitNotice now (snd p)) started)\<rparr>))"

definition drainLane :: "ms \<Rightarrow> string \<Rightarrow> queue_state \<Rightarrow> queue_state" where
  "drainLane now l s =
     (let (st, s1) = getLaneState l s
      in if draining st then s1
         else pump now l (putLane l (st\<lparr>draining := True\<rparr>) s1))"

text \<open>
  The rest of a started task's closure, when its promise settles: \<open>completeTask\<close> on the lane
  object it captured, the waiters and the next pump if that generation is still current, and the
  command's own promise.
\<close>

definition completeTask :: "string \<Rightarrow> nat \<Rightarrow> nat \<Rightarrow> queue_state \<Rightarrow> queue_state \<times> bool" where
  "completeTask l i g s =
     (case laneAt s l of
        None \<Rightarrow> (s, False)
      | Some st \<Rightarrow>
          if g \<noteq> generation st then (s, False)
          else (putLane l (st\<lparr>activeTaskIds := removeAll i (activeTaskIds st)\<rparr>) s, True))"

definition finishTask :: "ms \<Rightarrow> nat \<Rightarrow> settlement \<Rightarrow> queue_state \<Rightarrow> queue_state" where
  "finishTask now i result s =
     (case find (\<lambda>t. taskId t = i) (running s) of
        None \<Rightarrow> s
      | Some t \<Rightarrow>
          let (s1, current) = completeTask (taskLane t) i (taskGeneration t)
                (s\<lparr>running := filter (\<lambda>u. taskId u \<noteq> i) (running s)\<rparr>);
              s2 = (if current then pump now (taskLane t) (notifyActiveTaskWaiters s1) else s1)
          in s2\<lparr>settled := settled s2 @ [(entryId (taskEntry t), result)]\<rparr>)"

section \<open>Exported operations\<close>

definition markGatewayDraining :: "queue_state \<Rightarrow> queue_state" where
  "markGatewayDraining s = s\<lparr>admission := markGatewayRestartDraining (admission s)\<rparr>"

definition isGatewayDraining :: "queue_state \<Rightarrow> bool" where
  "isGatewayDraining s \<longleftrightarrow> isGatewayWorkAdmissionClosed (admission s)"

definition setCommandLaneConcurrency :: "ms \<Rightarrow> string \<Rightarrow> js_number \<Rightarrow> queue_state \<Rightarrow> queue_state" where
  "setCommandLaneConcurrency now lane limit s =
     (let cleaned = normalizeLane lane;
          (st, s1) = getLaneState cleaned s;
          minConcurrent = (if isQuietProbeLane cleaned then 1 else 0);
          st1 = st\<lparr>maxConcurrent := js_max minConcurrent (js_floor limit)\<rparr>;
          s2 = putLane cleaned st1 s1
      in if js_positive (maxConcurrent st1) then drainLane now cleaned s2 else s2)"

definition newEntry :: "ms \<Rightarrow> nat \<Rightarrow> nat \<Rightarrow> enqueue_options \<Rightarrow> queue_entry" where
  "newEntry now i seq opts =
     \<lparr>entryId = i, enqueuedAt = now, sequence = seq,
      priority = resolveQueuePriority (optPriority opts),
      warnAfterMs = nullish (optWarnAfterMs opts) 2000,
      queuedAheadAtEnqueue = 0, activeAheadAtEnqueue = 0,
      taskTimeoutMs = normalizeTaskTimeoutMs (optTaskTimeoutMs opts),
      hasProgressCallback = optProgress opts,
      taskTimeoutAbortSignal = optAbortSignal opts,
      taskTimeoutAbortGraceMs = normalizeTaskTimeoutMs (optTaskTimeoutAbortGraceMs opts),
      taskTimeoutReleaseSignal = optReleaseSignal opts,
      onWait = optOnWait opts\<rparr>"

text \<open>
  The new promise is \<open>nextEntry\<close>; \<open>current\<close> is the caller's admitted root.
\<close>

definition enqueueCommandInLane ::
    "nat option \<Rightarrow> ms \<Rightarrow> string \<Rightarrow> enqueue_options \<Rightarrow> queue_state \<Rightarrow> queue_state" where
  "enqueueCommandInLane current now lane opts s =
     (let i = nextEntry s; s0 = s\<lparr>nextEntry := Suc i\<rparr>
      in if isGatewaySubordinateWorkAdmissionClosed current (admission s)
         then s0\<lparr>settled := settled s0 @ [(i, GatewayDraining)]\<rparr>
         else
           let cleaned = normalizeLane lane;
               (st, s1) = getLaneState cleaned s0;
               entry = newEntry now i (nextQueueSequence s1) opts;
               s2 = putLane cleaned (enqueueLaneEntry st entry)
                      (s1\<lparr>nextQueueSequence := Suc (nextQueueSequence s1)\<rparr>)
           in drainLane now cleaned s2)"

definition getQueueSize :: "string \<Rightarrow> queue_state \<Rightarrow> nat" where
  "getQueueSize lane s =
     (case laneAt s (normalizeLane lane) of None \<Rightarrow> 0 | Some st \<Rightarrow> getLaneDepth st)"

definition getCommandLaneSnapshot :: "string \<Rightarrow> queue_state \<Rightarrow> lane_snapshot" where
  "getCommandLaneSnapshot lane s =
     (let resolved = normalizeLane lane
      in case laneAt s resolved of
           None \<Rightarrow> \<lparr>snapLane = resolved, snapQueuedCount = 0, snapActiveCount = 0,
                    snapMaxConcurrent = Finite 1, snapDraining = False, snapGeneration = 0\<rparr>
         | Some st \<Rightarrow> createCommandLaneSnapshot st)"

definition getCommandLaneActiveTaskIds :: "string \<Rightarrow> queue_state \<Rightarrow> nat list" where
  "getCommandLaneActiveTaskIds lane s =
     (case laneAt s (normalizeLane lane) of None \<Rightarrow> [] | Some st \<Rightarrow> activeTaskIds st)"

definition getTotalQueueSize :: "queue_state \<Rightarrow> nat" where
  "getTotalQueueSize s = sum_list (map (\<lambda>(_, st). getLaneDepth st) (lanes s))"

definition clearCommandLane :: "string \<Rightarrow> queue_state \<Rightarrow> nat \<times> queue_state" where
  "clearCommandLane lane s =
     (let cleaned = normalizeLane lane
      in case laneAt s cleaned of
           None \<Rightarrow> (0, s)
         | Some st \<Rightarrow>
             (length (queue st),
              putLane cleaned (st\<lparr>queue := []\<rparr>)
                (s\<lparr>settled := settled s @
                     map (\<lambda>e. (entryId e, CommandLaneCleared cleaned)) (queue st)\<rparr>)))"

text \<open>A lane whose generation is bumped and whose execution counters are cleared.\<close>

definition idleLane :: "lane_state \<Rightarrow> lane_state" where
  "idleLane st = st\<lparr>generation := Suc (generation st), activeTaskIds := [], draining := False\<rparr>"

definition resetCommandLane :: "ms \<Rightarrow> string \<Rightarrow> queue_state \<Rightarrow> nat \<times> queue_state" where
  "resetCommandLane now lane s =
     (let cleaned = normalizeLane lane
      in case laneAt s cleaned of
           None \<Rightarrow> (0, s)
         | Some st \<Rightarrow>
             let s1 = putLane cleaned (idleLane st) s;
                 s2 = (if queue st \<noteq> [] then drainLane now cleaned s1 else s1)
             in (length (activeTaskIds st), notifyActiveTaskWaiters s2))"

definition resetAllLanes :: "ms \<Rightarrow> queue_state \<Rightarrow> queue_state" where
  "resetAllLanes now s =
     (let s1 = s\<lparr>admission := resetGatewayWorkAdmission (admission s)\<rparr>;
          s2 = s1\<lparr>lanes := jm_map_values idleLane (lanes s1)\<rparr>;
          lanesToDrain = map (\<lambda>(_, st). laneName st) (filter (\<lambda>(_, st). queue st \<noteq> []) (lanes s1))
      in notifyActiveTaskWaiters (fold (drainLane now) lanesToDrain s2))"

definition getActiveTaskCount :: "queue_state \<Rightarrow> nat" where
  "getActiveTaskCount s = sum_list (map (\<lambda>(_, st). length (activeTaskIds st)) (lanes s))"

text \<open>The returned promise is \<open>nextWaiter\<close>.\<close>

definition waitForActiveTasks :: "js_number option \<Rightarrow> queue_state \<Rightarrow> queue_state" where
  "waitForActiveTasks timeoutMs s =
     (let w = nextWaiter s; s0 = s\<lparr>nextWaiter := Suc w\<rparr>;
          activeAtStart = uniqueValues (concat (map (\<lambda>(_, st). activeTaskIds st) (lanes s0)))
      in if activeAtStart = [] then s0\<lparr>drainedWaiters := drainedWaiters s0 @ [(w, True)]\<rparr>
         else if (\<exists>t \<in> set_option timeoutMs. js_nonpositive t)
         then s0\<lparr>drainedWaiters := drainedWaiters s0 @ [(w, False)]\<rparr>
         else notifyActiveTaskWaiters
                (s0\<lparr>activeTaskWaiters := activeTaskWaiters s0 @
                      [\<lparr>waiterId = w, waiterTaskIds = activeAtStart\<rparr>]\<rparr>))"

section \<open>The queue as a state machine\<close>

datatype queue_event =
    Enqueue "nat option" ms string enqueue_options
  | FinishTask ms nat settlement
  | SetConcurrency ms string js_number
  | ClearLane string
  | ResetLane ms string
  | ResetAllLanes ms
  | WaitForTasks "js_number option"
  | WaiterTimeout nat
  | AdmissionEvent admission_event

fun queueStep :: "queue_event \<Rightarrow> queue_state \<Rightarrow> queue_state" where
  "queueStep (Enqueue current now lane opts) s = enqueueCommandInLane current now lane opts s"
| "queueStep (FinishTask now i result) s = finishTask now i result s"
| "queueStep (SetConcurrency now lane limit) s = setCommandLaneConcurrency now lane limit s"
| "queueStep (ClearLane lane) s = snd (clearCommandLane lane s)"
| "queueStep (ResetLane now lane) s = snd (resetCommandLane now lane s)"
| "queueStep (ResetAllLanes now) s = resetAllLanes now s"
| "queueStep (WaitForTasks timeoutMs) s = waitForActiveTasks timeoutMs s"
| "queueStep (WaiterTimeout w) s = resolveActiveTaskWaiter w False s"
| "queueStep (AdmissionEvent e) s = s\<lparr>admission := admissionStep e (admission s)\<rparr>"

definition queueRun :: "queue_event list \<Rightarrow> queue_state \<Rightarrow> queue_state" where
  "queueRun es s = fold queueStep es s"

inductive queueReachable :: "queue_state \<Rightarrow> bool" where
  start: "queueReachable initialQueueState"
| step: "queueReachable s \<Longrightarrow> queueReachable (queueStep e s)"

lemma queueRun_simps [simp]:
  "queueRun [] s = s"
  "queueRun (e # es) s = queueRun es (queueStep e s)"
  by (simp_all add: queueRun_def)

lemma queueReachable_run: "queueReachable s \<Longrightarrow> queueReachable (queueRun es s)"
  by (induction es arbitrary: s) (auto intro: queueReachable.step)

end
