(* ===== verification/CommandQueueProofs.thy ===== *)
theory CommandQueueProofs
  imports CommandQueue
begin

text \<open>
  What makes the command queue of \<open>CommandQueue\<close> correct: lanes keep their order and are
  saturated, active numbers are the started tasks of the current generation, every promise is
  queued, started or settled exactly once, no waiter is forgotten; and the contract
  \<open>lane_property\<close> by which a predicate on one lane is carried through every event.
\<close>

section \<open>Reading and writing lanes\<close>

lemma laneAt_putLane [simp]: "laneAt (putLane l st s) = (laneAt s)(l := Some st)"
  by (rule ext) (simp add: laneAt_def putLane_def jm.get_put)

lemma putLane_fields [simp]:
  "activeTaskWaiters (putLane l st s) = activeTaskWaiters s"
  "nextTaskId (putLane l st s) = nextTaskId s"
  "nextQueueSequence (putLane l st s) = nextQueueSequence s"
  "running (putLane l st s) = running s"
  "settled (putLane l st s) = settled s"
  "drainedWaiters (putLane l st s) = drainedWaiters s"
  "waitNotices (putLane l st s) = waitNotices s"
  "nextEntry (putLane l st s) = nextEntry s"
  "nextWaiter (putLane l st s) = nextWaiter s"
  "admission (putLane l st s) = admission s"
  by (simp_all add: putLane_def)

lemma laneAt_cong: "lanes t = lanes s \<Longrightarrow> laneAt t = laneAt s"
  by (rule ext) (simp add: laneAt_def)

lemma laneAt_fields [simp]:
  "laneAt (s\<lparr>activeTaskWaiters := a\<rparr>) = laneAt s"
  "laneAt (s\<lparr>nextTaskId := n\<rparr>) = laneAt s"
  "laneAt (s\<lparr>nextQueueSequence := n\<rparr>) = laneAt s"
  "laneAt (s\<lparr>running := r\<rparr>) = laneAt s"
  "laneAt (s\<lparr>settled := x\<rparr>) = laneAt s"
  "laneAt (s\<lparr>drainedWaiters := d\<rparr>) = laneAt s"
  "laneAt (s\<lparr>waitNotices := w\<rparr>) = laneAt s"
  "laneAt (s\<lparr>nextEntry := n\<rparr>) = laneAt s"
  "laneAt (s\<lparr>nextWaiter := n\<rparr>) = laneAt s"
  "laneAt (s\<lparr>admission := m\<rparr>) = laneAt s"
  by (simp_all add: laneAt_def fun_eq_iff)

lemma jm_set_jm_set [simp]: "jm_set k v (jm_set k u m) = jm_set k v m"
  unfolding jm_set_def by (induction m) auto

lemma putLane_putLane [simp]: "putLane l b (putLane l a s) = putLane l b s"
  by (simp add: putLane_def)

lemma getLaneState_simps [simp]:
  "laneAt s l = Some st \<Longrightarrow> getLaneState l s = (st, s)"
  "laneAt s l = None \<Longrightarrow> getLaneState l s = (newLane l, putLane l (newLane l) s)"
  by (simp_all add: getLaneState_def)

lemma getLaneState_laneAt: "getLaneState l s = (st, t) \<Longrightarrow> laneAt t l = Some st"
  by (auto simp: getLaneState_def split: option.splits)

section \<open>The pump\<close>

lemma pumpLoop_split:
  "pumpLoop limit q active next = (q1, active1, next1, started) \<Longrightarrow>
   q = map snd started @ q1 \<and> map fst started = [next..<next1] \<and>
   next1 = next + length started"
proof (induction limit q active "next" arbitrary: q1 active1 next1 started rule: pumpLoop.induct)
  case (1 limit active "next")
  then show ?case by simp
next
  case (2 limit e q active "next")
  then show ?case
    by (force simp: upt_conv_Cons split: if_splits prod.splits)
qed

lemma pumpLoop_active:
  "pumpLoop limit q active next = (q1, active1, next1, started) \<Longrightarrow>
   \<forall>i \<in> set active. i < next \<Longrightarrow> active1 = active @ map fst started"
proof (induction limit q active "next" arbitrary: q1 active1 next1 started rule: pumpLoop.induct)
  case (1 limit active "next")
  then show ?case by simp
next
  case (2 limit e q active "next")
  have fresh: "set_add next active = active @ [next]"
    using 2(3) by (auto simp: set_add_def)
  then have "\<forall>i \<in> set (set_add next active). i < Suc next" using 2(3) by auto
  with 2 fresh show ?case by (force split: if_splits prod.splits)
qed

text \<open>The loop stops only at the limit or at an empty queue.\<close>

lemma pumpLoop_exhausts:
  "pumpLoop limit q active next = (q1, active1, next1, started) \<Longrightarrow>
   q1 = [] \<or> \<not> js_count_less (length active1) limit"
proof (induction limit q active "next" arbitrary: q1 active1 next1 started rule: pumpLoop.induct)
  case (2 limit e q active "next")
  then show ?case by (force split: if_splits prod.splits)
qed simp

text \<open>Every task it starts found the lane below its limit.\<close>

lemma pumpLoop_below_limit:
  "pumpLoop limit q active next = (q1, active1, next1, started) \<Longrightarrow>
   \<forall>i \<in> set active. i < next \<Longrightarrow> started \<noteq> [] \<Longrightarrow>
   js_count_less (length active1 - 1) limit"
proof (induction limit q active "next" arbitrary: q1 active1 next1 started rule: pumpLoop.induct)
  case (1 limit active "next")
  then show ?case by simp
next
  case (2 limit e q active "next")
  have fresh: "set_add next active = active @ [next]"
    using 2(3) by (auto simp: set_add_def)
  show ?case
  proof (cases "js_count_less (length active) limit")
    case False
    with 2 show ?thesis by simp
  next
    case True
    obtain q2 a2 n2 st2 where rec: "pumpLoop limit q (active @ [next]) (Suc next) = (q2, a2, n2, st2)"
      by (cases "pumpLoop limit q (active @ [next]) (Suc next)") auto
    have bound: "\<forall>i \<in> set (active @ [next]). i < Suc next" using 2(3) by auto
    have a2: "a2 = active @ [next] @ map fst st2" using pumpLoop_active [OF rec bound] by simp
    have res: "active1 = a2" using 2(2) True rec fresh by simp
    show ?thesis
    proof (cases st2)
      case Nil
      with True res a2 show ?thesis by simp
    next
      case (Cons p ps)
      then show ?thesis using 2(1) [OF True] rec bound res fresh by simp
    qed
  qed
qed

lemma putLane_overwrite:
  "putLane l a ((putLane l b s)\<lparr>nextTaskId := n, running := r, waitNotices := w\<rparr>) =
   putLane l a (s\<lparr>nextTaskId := n, running := r, waitNotices := w\<rparr>)"
  by (simp add: putLane_def)

lemma pump_eq:
  assumes "laneAt s l = Some st"
    and "pumpLoop (maxConcurrent st) (queue st) (activeTaskIds st) (nextTaskId s) =
      (q, active, next, started)"
  shows "pump now l s =
    putLane l (st\<lparr>queue := q, activeTaskIds := active, draining := False\<rparr>)
      (s\<lparr>nextTaskId := next,
         running := running s @ map (startTask l (generation st)) started,
         waitNotices := waitNotices s @ concat (map (\<lambda>p. waitNotice now (snd p)) started)\<rparr>)"
  using assms by (simp add: pump_def)

lemma drainLane_pump:
  assumes l: "laneAt s l = Some st" and idle: "\<not> draining st"
  shows "drainLane now l s = pump now l s"
proof -
  obtain q active "next" started where
    loop: "pumpLoop (maxConcurrent st) (queue st) (activeTaskIds st) (nextTaskId s) =
      (q, active, next, started)"
    by (metis prod_cases4)
  let ?s = "putLane l (st\<lparr>draining := True\<rparr>) s"
  have "drainLane now l s = pump now l ?s"
    using l idle by (simp add: drainLane_def)
  also have "\<dots> = pump now l s"
    using pump_eq [OF l loop, of now] pump_eq [of ?s l "st\<lparr>draining := True\<rparr>" q active "next" started now]
      loop
    by (simp add: putLane_overwrite)
  finally show ?thesis .
qed

section \<open>Order, saturation and shape of the lanes\<close>

text \<open>The order in which a lane serves its entries: priority first, then sequence.\<close>

definition entryBefore :: "queue_entry \<Rightarrow> queue_entry \<Rightarrow> bool" where
  "entryBefore a b \<longleftrightarrow>
     priority a > priority b \<or> (priority a = priority b \<and> sequence a < sequence b)"

lemma transp_entryBefore: "transp entryBefore"
  by (rule transpI) (auto simp: entryBefore_def)

definition orderedQueue :: "nat \<Rightarrow> queue_entry list \<Rightarrow> bool" where
  "orderedQueue n q \<longleftrightarrow> sorted_wrt entryBefore q \<and> (\<forall>e \<in> set q. sequence e < n)"

text \<open>Work conservation: a lane holds entries back only at its limit.\<close>

definition saturated :: "lane_state \<Rightarrow> bool" where
  "saturated st \<longleftrightarrow>
     queue st = [] \<or> \<not> js_count_less (length (activeTaskIds st)) (maxConcurrent st)"

text \<open>The invariant of the lanes, where those of \<open>L\<close> have still to be pumped.\<close>

definition laneInv :: "string set \<Rightarrow> queue_state \<Rightarrow> bool" where
  "laneInv L s \<longleftrightarrow> jm_ok (lanes s) \<and>
     (\<forall>l st. laneAt s l = Some st \<longrightarrow>
        laneName st = l \<and> \<not> draining st \<and> orderedQueue (nextQueueSequence s) (queue st) \<and>
        (l \<notin> L \<longrightarrow> saturated st))"

lemma laneInv_D:
  assumes "laneInv L s" and "laneAt s l = Some st"
  shows "laneName st = l" and "\<not> draining st" and "orderedQueue (nextQueueSequence s) (queue st)"
    and "l \<notin> L \<Longrightarrow> saturated st"
  using assms unfolding laneInv_def by blast+

lemma laneInv_jm_ok: "laneInv L s \<Longrightarrow> jm_ok (lanes s)"
  by (simp add: laneInv_def)

lemma laneInv_fields [simp]:
  "laneInv L (s\<lparr>activeTaskWaiters := a\<rparr>) \<longleftrightarrow> laneInv L s"
  "laneInv L (s\<lparr>nextTaskId := n\<rparr>) \<longleftrightarrow> laneInv L s"
  "laneInv L (s\<lparr>running := r\<rparr>) \<longleftrightarrow> laneInv L s"
  "laneInv L (s\<lparr>settled := x\<rparr>) \<longleftrightarrow> laneInv L s"
  "laneInv L (s\<lparr>drainedWaiters := d\<rparr>) \<longleftrightarrow> laneInv L s"
  "laneInv L (s\<lparr>waitNotices := w\<rparr>) \<longleftrightarrow> laneInv L s"
  "laneInv L (s\<lparr>nextEntry := n\<rparr>) \<longleftrightarrow> laneInv L s"
  "laneInv L (s\<lparr>nextWaiter := n\<rparr>) \<longleftrightarrow> laneInv L s"
  "laneInv L (s\<lparr>admission := m\<rparr>) \<longleftrightarrow> laneInv L s"
  by (simp_all add: laneInv_def)

lemma laneInv_mono: "laneInv L s \<Longrightarrow> L \<subseteq> M \<Longrightarrow> laneInv M s"
  unfolding laneInv_def by blast

lemma laneInv_absent: "laneInv (insert l L) s \<Longrightarrow> laneAt s l = None \<Longrightarrow> laneInv L s"
  unfolding laneInv_def by (metis insert_iff option.distinct(1))

lemma laneInv_putLane:
  assumes "laneInv (insert l L) s" and "laneName st = l" "\<not> draining st"
    and "orderedQueue (nextQueueSequence s) (queue st)" "l \<notin> L \<Longrightarrow> saturated st"
  shows "laneInv L (putLane l st s)"
  using assms jm.ok_put [OF laneInv_jm_ok [OF assms(1)]]
  by (auto simp: laneInv_def putLane_def [of l st s] laneAt_def jm.get_put split: if_splits)

lemma orderedQueue_suffix: "orderedQueue n (xs @ ys) \<Longrightarrow> orderedQueue n ys"
  by (auto simp: orderedQueue_def sorted_wrt_append)

lemma orderedQueue_Nil [simp]: "orderedQueue n []"
  by (simp add: orderedQueue_def)

lemma orderedQueue_mono: "orderedQueue n q \<Longrightarrow> n \<le> m \<Longrightarrow> orderedQueue m q"
  by (auto simp: orderedQueue_def)

lemma orderedQueue_enqueue:
  assumes q: "orderedQueue n (queue st)" and e: "sequence e = n"
  shows "orderedQueue (Suc n) (queue (enqueueLaneEntry st e))"
proof -
  define P where "P queued \<longleftrightarrow> priority queued < priority e \<or>
      (priority queued = priority e \<and> sequence queued > sequence e)"
    for queued :: queue_entry
  define e1 where "e1 = e\<lparr>queuedAheadAtEnqueue := nullish (find_index P (queue st)) (length (queue st)),
      activeAheadAtEnqueue := length (activeTaskIds st)\<rparr>"
  have earlier: "entryBefore y e1" if "y \<in> set (queue st)" "\<not> P y" for y
    using that q e by (auto simp: e1_def P_def entryBefore_def orderedQueue_def)
  have later: "entryBefore e1 y" if "y \<in> set (queue st)" "P y" for y
    using that q e by (auto simp: e1_def P_def entryBefore_def orderedQueue_def)
  have bounds: "\<forall>y \<in> set (queue st). sequence y < Suc n" "sequence e1 < Suc n"
    using q e by (auto simp: orderedQueue_def e1_def less_SucI)
  show ?thesis
  proof (cases "find_index P (queue st)")
    case None
    then have "queue (enqueueLaneEntry st e) = queue st @ [e1]"
      by (simp add: enqueueLaneEntry_def Let_def P_def [abs_def] e1_def)
    then show ?thesis
      using q bounds earlier None
      by (auto simp: orderedQueue_def sorted_wrt_append find_index_None)
  next
    case (Some i)
    then have eq: "queue (enqueueLaneEntry st e) = take i (queue st) @ e1 # drop i (queue st)"
      by (simp add: enqueueLaneEntry_def Let_def P_def [abs_def] e1_def)
    note i = find_index_Some [OF Some]
    have before: "\<forall>y \<in> set (take i (queue st)). entryBefore y e1"
      using i earlier in_set_takeD by metis
    have after: "i < length (queue st)" "entryBefore e1 (queue st ! i)"
      using i later nth_mem by simp_all
    have "sorted_wrt entryBefore (queue st)" using q by (simp add: orderedQueue_def)
    from sorted_wrt_splice [OF this transp_entryBefore after before]
    have "sorted_wrt entryBefore (take i (queue st) @ e1 # drop i (queue st))" .
    then show ?thesis
      using bounds unfolding orderedQueue_def eq
      by (auto dest: in_set_takeD in_set_dropD)
  qed
qed

lemma laneInv_pump:
  assumes inv: "laneInv (insert l L) s"
  shows "laneInv L (pump now l s)"
proof (cases "laneAt s l")
  case None
  then show ?thesis using laneInv_absent [OF inv] by (simp add: pump_def)
next
  case (Some st)
  obtain q active "next" started where
    loop: "pumpLoop (maxConcurrent st) (queue st) (activeTaskIds st) (nextTaskId s) =
      (q, active, next, started)"
    by (metis prod_cases4)
  note D = laneInv_D [OF inv Some]
  have "orderedQueue (nextQueueSequence s) q"
    using D(3) pumpLoop_split [OF loop] orderedQueue_suffix by metis
  then show ?thesis
    unfolding pump_eq [OF Some loop]
    by (intro laneInv_putLane) (use inv D pumpLoop_exhausts [OF loop] in \<open>auto simp: saturated_def\<close>)
qed

lemma laneInv_drainLane:
  assumes inv: "laneInv (insert l L) s" and "laneAt s l \<noteq> None"
  shows "laneInv L (drainLane now l s)"
  using assms laneInv_D(2) [OF inv] laneInv_pump [OF inv]
  by (auto simp: drainLane_pump)

lemma notifyWaiter_lanes [simp]:
  "lanes (notifyWaiter x s) = lanes s" "nextTaskId (notifyWaiter x s) = nextTaskId s"
  "nextQueueSequence (notifyWaiter x s) = nextQueueSequence s"
  "running (notifyWaiter x s) = running s" "settled (notifyWaiter x s) = settled s"
  "nextEntry (notifyWaiter x s) = nextEntry s" "nextWaiter (notifyWaiter x s) = nextWaiter s"
  "admission (notifyWaiter x s) = admission s"
  by (simp_all add: notifyWaiter_def resolveActiveTaskWaiter_def)

lemma fold_notifyWaiter_lanes:
  "lanes (fold notifyWaiter xs s) = lanes s \<and> nextTaskId (fold notifyWaiter xs s) = nextTaskId s \<and>
   nextQueueSequence (fold notifyWaiter xs s) = nextQueueSequence s \<and>
   running (fold notifyWaiter xs s) = running s \<and> settled (fold notifyWaiter xs s) = settled s \<and>
   nextEntry (fold notifyWaiter xs s) = nextEntry s \<and>
   nextWaiter (fold notifyWaiter xs s) = nextWaiter s \<and>
   admission (fold notifyWaiter xs s) = admission s"
  by (induction xs arbitrary: s) simp_all

lemma notifyActiveTaskWaiters_lanes [simp]:
  "lanes (notifyActiveTaskWaiters s) = lanes s"
  "nextTaskId (notifyActiveTaskWaiters s) = nextTaskId s"
  "nextQueueSequence (notifyActiveTaskWaiters s) = nextQueueSequence s"
  "running (notifyActiveTaskWaiters s) = running s"
  "settled (notifyActiveTaskWaiters s) = settled s"
  "nextEntry (notifyActiveTaskWaiters s) = nextEntry s"
  "nextWaiter (notifyActiveTaskWaiters s) = nextWaiter s"
  "admission (notifyActiveTaskWaiters s) = admission s"
  by (simp_all add: notifyActiveTaskWaiters_def fold_notifyWaiter_lanes)

lemma laneInv_notify [simp]: "laneInv L (notifyActiveTaskWaiters s) \<longleftrightarrow> laneInv L s"
  by (simp add: laneInv_def laneAt_def)

lemma laneInv_getLaneState:
  "laneInv L s \<Longrightarrow> getLaneState l s = (st, t) \<Longrightarrow> laneInv L t"
  by (cases "laneAt s l")
    (auto intro!: laneInv_putLane intro: laneInv_mono simp: newLane_def saturated_def)

lemma laneInv_next_sequence:
  "laneInv L s \<Longrightarrow> laneInv L (s\<lparr>nextQueueSequence := Suc (nextQueueSequence s)\<rparr>)"
  unfolding laneInv_def by (auto intro: orderedQueue_mono [of "nextQueueSequence s"])

lemma enqueueLaneEntry_fields [simp]:
  "laneName (enqueueLaneEntry st e) = laneName st"
  "activeTaskIds (enqueueLaneEntry st e) = activeTaskIds st"
  "maxConcurrent (enqueueLaneEntry st e) = maxConcurrent st"
  "draining (enqueueLaneEntry st e) = draining st"
  "generation (enqueueLaneEntry st e) = generation st"
  by (auto simp: enqueueLaneEntry_def Let_def split: option.splits)

lemma newEntry_fields [simp]:
  "sequence (newEntry now i n opts) = n" "entryId (newEntry now i n opts) = i"
  "enqueuedAt (newEntry now i n opts) = now"
  by (simp_all add: newEntry_def)

lemma getLaneState_fields:
  assumes "getLaneState l s = (st, t)"
  shows "laneAt t = (laneAt s)(l := Some st)" "nextQueueSequence t = nextQueueSequence s"
    "running t = running s" "nextTaskId t = nextTaskId s" "settled t = settled s"
    "nextEntry t = nextEntry s" "nextWaiter t = nextWaiter s" "admission t = admission s"
    "activeTaskWaiters t = activeTaskWaiters s"
    "(laneAt s l = None \<and> st = newLane l) \<or> laneAt s l = Some st"
  using assms by (auto simp: getLaneState_def split: option.splits)

lemma laneInv_enqueue:
  assumes inv: "laneInv {} s"
  shows "laneInv {} (enqueueCommandInLane c now lane opts s)"
proof (cases "isGatewaySubordinateWorkAdmissionClosed c (admission s)")
  case True
  with inv show ?thesis by (simp add: enqueueCommandInLane_def Let_def)
next
  case False
  let ?l = "normalizeLane lane" and ?s0 = "s\<lparr>nextEntry := Suc (nextEntry s)\<rparr>"
  obtain st s1 where get: "getLaneState ?l ?s0 = (st, s1)" by force
  note F = getLaneState_fields [OF get]
  let ?n = "nextQueueSequence s1"
  let ?e = "newEntry now (nextEntry s) ?n opts"
  have s1: "laneInv {} s1" using laneInv_getLaneState [OF _ get] inv by simp
  have st: "laneAt s1 ?l = Some st" by (simp add: F)
  let ?s2 = "s1\<lparr>nextQueueSequence := Suc ?n\<rparr>"
  have s2: "laneInv {?l} ?s2"
    using laneInv_mono [OF laneInv_next_sequence [OF s1]] by blast
  have "laneInv {?l} (putLane ?l (enqueueLaneEntry st ?e) ?s2)"
    by (rule laneInv_putLane) (use s2 laneInv_D [OF s1 st] orderedQueue_enqueue in auto)
  then show ?thesis
    using False get laneInv_drainLane
    by (simp add: enqueueCommandInLane_def Let_def)
qed

lemma laneInv_completeTask:
  assumes "laneInv {} s"
  shows "laneInv (if snd (completeTask l i g s) then {l} else {}) (fst (completeTask l i g s))"
  using assms laneInv_D [OF assms]
  by (auto simp: completeTask_def split: option.splits
      intro!: laneInv_putLane intro: laneInv_mono)

lemma laneInv_finish:
  assumes inv: "laneInv {} s"
  shows "laneInv {} (finishTask now i r s)"
proof (cases "find (\<lambda>t. taskId t = i) (running s)")
  case None
  with inv show ?thesis by (simp add: finishTask_def)
next
  case (Some t)
  let ?s = "s\<lparr>running := filter (\<lambda>u. taskId u \<noteq> i) (running s)\<rparr>"
  obtain s1 b where c: "completeTask (taskLane t) i (taskGeneration t) ?s = (s1, b)" by force
  have "laneInv (if b then {taskLane t} else {}) s1"
    using laneInv_completeTask [of ?s "taskLane t" i "taskGeneration t"] inv c by simp
  then show ?thesis
    using Some c laneInv_pump [of "taskLane t" "{}"]
    by (auto simp: finishTask_def Let_def split: if_splits)
qed

lemma laneInv_setConcurrency:
  assumes inv: "laneInv {} s"
  shows "laneInv {} (setCommandLaneConcurrency now lane limit s)"
proof -
  let ?l = "normalizeLane lane"
  obtain st s1 where get: "getLaneState ?l s = (st, s1)" by force
  have s1: "laneInv {} s1" using laneInv_getLaneState [OF inv get] .
  have st: "laneAt s1 ?l = Some st" using getLaneState_fields [OF get] by simp
  note D = laneInv_D [OF s1 st]
  define m where "m = js_max (if isQuietProbeLane ?l then 1 else 0) (js_floor limit)"
  have s2: "laneInv L (putLane ?l (st\<lparr>maxConcurrent := m\<rparr>) s1)"
    if "?l \<notin> L \<Longrightarrow> \<not> js_positive m" for L
    by (rule laneInv_putLane)
      (use laneInv_mono [OF s1] D that js_count_less_0_positive in \<open>auto simp: saturated_def\<close>)
  show ?thesis
  proof (cases "js_positive m")
    case True
    have "laneInv {} (drainLane now ?l (putLane ?l (st\<lparr>maxConcurrent := m\<rparr>) s1))"
      by (rule laneInv_drainLane) (use s2 in auto)
    with True show ?thesis
      by (simp add: setCommandLaneConcurrency_def Let_def get m_def)
  next
    case False
    with s2 [of "{}"] show ?thesis
      by (simp add: setCommandLaneConcurrency_def Let_def get m_def)
  qed
qed

lemma laneInv_clear:
  assumes inv: "laneInv {} s"
  shows "laneInv {} (snd (clearCommandLane lane s))"
  using inv laneInv_D [OF inv]
  by (auto simp: clearCommandLane_def Let_def saturated_def split: option.splits
      intro!: laneInv_putLane intro: laneInv_mono)

lemma idleLane_fields [simp]:
  "laneName (idleLane st) = laneName st" "queue (idleLane st) = queue st"
  "maxConcurrent (idleLane st) = maxConcurrent st" "draining (idleLane st) = False"
  "generation (idleLane st) = Suc (generation st)" "activeTaskIds (idleLane st) = []"
  by (simp_all add: idleLane_def)

lemma laneInv_reset:
  assumes inv: "laneInv {} s"
  shows "laneInv {} (snd (resetCommandLane now lane s))"
proof (cases "laneAt s (normalizeLane lane)")
  case None
  with inv show ?thesis by (simp add: resetCommandLane_def Let_def)
next
  case (Some st)
  let ?l = "normalizeLane lane"
  note D = laneInv_D [OF inv Some]
  have "laneInv L (putLane ?l (idleLane st) s)" if "?l \<notin> L \<Longrightarrow> queue st = []" for L
    by (rule laneInv_putLane)
      (use laneInv_mono [OF inv] D that in \<open>auto simp: saturated_def\<close>)
  then show ?thesis
    using Some laneInv_drainLane [of ?l "{}" "putLane ?l (idleLane st) s"]
    by (auto simp: resetCommandLane_def Let_def)
qed

lemma laneAt_pump_other: "k \<noteq> l \<Longrightarrow> laneAt (pump now l s) k = laneAt s k"
  by (simp add: pump_def split: option.splits prod.splits)

lemma laneAt_drainLane_None:
  "laneAt s k \<noteq> None \<Longrightarrow> laneAt (drainLane now l s) k \<noteq> None"
  by (auto simp: drainLane_def getLaneState_def pump_def Let_def split: option.splits prod.splits)

lemma laneInv_fold_drainLane:
  "laneInv (set ls) s \<Longrightarrow> \<forall>l \<in> set ls. laneAt s l \<noteq> None \<Longrightarrow> laneInv {} (fold (drainLane now) ls s)"
proof (induction ls arbitrary: s)
  case Nil
  then show ?case by simp
next
  case (Cons l ls)
  have "laneInv (set ls) (drainLane now l s)"
    by (rule laneInv_drainLane) (use Cons.prems in auto)
  moreover have "\<forall>k \<in> set ls. laneAt (drainLane now l s) k \<noteq> None"
    using Cons.prems(2) laneAt_drainLane_None by simp
  ultimately show ?case using Cons.IH by simp
qed

definition queuedLanes :: "queue_state \<Rightarrow> string list" where
  "queuedLanes s = map (\<lambda>(_, st). laneName st) (filter (\<lambda>(_, st). queue st \<noteq> []) (lanes s))"

lemma set_queuedLanes:
  assumes "laneInv L s"
  shows "set (queuedLanes s) = {l. \<exists>st. laneAt s l = Some st \<and> queue st \<noteq> []}"
proof -
  have "laneAt s l = Some st \<longleftrightarrow> (l, st) \<in> set (lanes s)" for l st
    unfolding laneAt_def by (rule jm_get_in_set [OF laneInv_jm_ok [OF assms]])
  then show ?thesis
    using laneInv_D(1) [OF assms] by (force simp: queuedLanes_def)
qed

definition idleAll :: "queue_state \<Rightarrow> queue_state" where
  "idleAll s = s\<lparr>lanes := jm_map_values idleLane (lanes s)\<rparr>"

lemma idleAll_fields [simp]:
  "laneAt (idleAll s) l = map_option idleLane (laneAt s l)"
  "nextQueueSequence (idleAll s) = nextQueueSequence s" "running (idleAll s) = running s"
  "nextTaskId (idleAll s) = nextTaskId s" "settled (idleAll s) = settled s"
  "nextEntry (idleAll s) = nextEntry s" "nextWaiter (idleAll s) = nextWaiter s"
  "activeTaskWaiters (idleAll s) = activeTaskWaiters s" "admission (idleAll s) = admission s"
  "jm_ok (lanes (idleAll s)) \<longleftrightarrow> jm_ok (lanes s)"
  by (simp_all add: idleAll_def laneAt_def)

lemma resetAllLanes_eq:
  "resetAllLanes now s = notifyActiveTaskWaiters (fold (drainLane now) (queuedLanes s)
     (idleAll (s\<lparr>admission := resetGatewayWorkAdmission (admission s)\<rparr>)))"
  by (simp add: resetAllLanes_def idleAll_def queuedLanes_def Let_def)

lemma laneInv_idleAll:
  assumes inv: "laneInv {} s"
  shows "laneInv (set (queuedLanes s)) (idleAll s)"
  using inv unfolding laneInv_def set_queuedLanes [OF inv]
  by (auto simp: saturated_def)

lemma laneInv_resetAll:
  assumes inv: "laneInv {} s"
  shows "laneInv {} (resetAllLanes now s)"
  unfolding resetAllLanes_eq laneInv_notify
proof (rule laneInv_fold_drainLane)
  let ?t = "s\<lparr>admission := resetGatewayWorkAdmission (admission s)\<rparr>"
  have same: "queuedLanes ?t = queuedLanes s" by (simp add: queuedLanes_def)
  show "laneInv (set (queuedLanes s)) (idleAll ?t)"
    using laneInv_idleAll [of ?t] inv same by simp
  show "\<forall>l \<in> set (queuedLanes s). laneAt (idleAll ?t) l \<noteq> None"
    by (auto simp: set_queuedLanes [OF inv])
qed

lemma laneInv_initial: "laneInv {} initialQueueState"
  by (simp add: laneInv_def initialQueueState_def laneAt_def)

lemma laneInv_wait: "laneInv {} s \<Longrightarrow> laneInv {} (waitForActiveTasks t s)"
  by (simp add: waitForActiveTasks_def Let_def)

lemma laneInv_resolve: "laneInv {} s \<Longrightarrow> laneInv {} (resolveActiveTaskWaiter w d s)"
  by (simp add: resolveActiveTaskWaiter_def)

lemma laneInv_step: "laneInv {} s \<Longrightarrow> laneInv {} (queueStep e s)"
  by (cases e) (simp_all add: laneInv_enqueue laneInv_finish laneInv_setConcurrency laneInv_clear
      laneInv_reset laneInv_resetAll laneInv_wait laneInv_resolve)

lemma reachable_laneInv: "queueReachable s \<Longrightarrow> laneInv {} s"
  by (induction rule: queueReachable.induct) (simp_all add: laneInv_initial laneInv_step)

section \<open>Started tasks and active task numbers\<close>

text \<open>
  The active numbers of a lane are those of its started, unsettled tasks of the current
  generation; tasks of earlier generations still run but are no longer counted.
\<close>

definition laneTasks :: "running_task list \<Rightarrow> string \<Rightarrow> lane_state \<Rightarrow> bool" where
  "laneTasks ts l st \<longleftrightarrow>
     distinct (activeTaskIds st) \<and>
     set (activeTaskIds st) =
       taskId ` {t \<in> set ts. taskLane t = l \<and> taskGeneration t = generation st} \<and>
     (\<forall>t \<in> set ts. taskLane t = l \<longrightarrow> taskGeneration t \<le> generation st)"

definition taskInv :: "queue_state \<Rightarrow> bool" where
  "taskInv s \<longleftrightarrow>
     distinct (map taskId (running s)) \<and>
     (\<forall>t \<in> set (running s). taskId t < nextTaskId s \<and> laneAt s (taskLane t) \<noteq> None) \<and>
     (\<forall>l st. laneAt s l = Some st \<longrightarrow> laneTasks (running s) l st)"

lemma taskInv_D:
  assumes "taskInv s"
  shows taskInv_distinct: "distinct (map taskId (running s))"
    and taskInv_bound: "t \<in> set (running s) \<Longrightarrow> taskId t < nextTaskId s"
    and taskInv_lane: "t \<in> set (running s) \<Longrightarrow> laneAt s (taskLane t) \<noteq> None"
    and taskInv_tasks: "laneAt s l = Some st \<Longrightarrow> laneTasks (running s) l st"
  using assms unfolding taskInv_def by blast+

lemma taskInv_fields [simp]:
  "taskInv (s\<lparr>activeTaskWaiters := a\<rparr>) \<longleftrightarrow> taskInv s"
  "taskInv (s\<lparr>nextQueueSequence := n\<rparr>) \<longleftrightarrow> taskInv s"
  "taskInv (s\<lparr>settled := x\<rparr>) \<longleftrightarrow> taskInv s"
  "taskInv (s\<lparr>drainedWaiters := d\<rparr>) \<longleftrightarrow> taskInv s"
  "taskInv (s\<lparr>waitNotices := w\<rparr>) \<longleftrightarrow> taskInv s"
  "taskInv (s\<lparr>nextEntry := n\<rparr>) \<longleftrightarrow> taskInv s"
  "taskInv (s\<lparr>nextWaiter := n\<rparr>) \<longleftrightarrow> taskInv s"
  "taskInv (s\<lparr>admission := m\<rparr>) \<longleftrightarrow> taskInv s"
  by (simp_all add: taskInv_def)

lemma taskInv_notify [simp]: "taskInv (notifyActiveTaskWaiters s) \<longleftrightarrow> taskInv s"
  by (simp add: taskInv_def laneAt_def)

lemma taskInv_putLane:
  "taskInv s \<Longrightarrow> laneTasks (running s) l st \<Longrightarrow> taskInv (putLane l st s)"
  by (auto simp: taskInv_def)

lemma laneTasks_cong:
  "laneTasks ts l st \<Longrightarrow> activeTaskIds st' = activeTaskIds st \<Longrightarrow> generation st' = generation st \<Longrightarrow>
   laneTasks ts l st'"
  by (simp add: laneTasks_def)

lemma taskInv_rewrite:
  "taskInv s \<Longrightarrow> laneAt s l = Some st \<Longrightarrow> activeTaskIds st' = activeTaskIds st \<Longrightarrow>
   generation st' = generation st \<Longrightarrow> taskInv (putLane l st' s)"
  by (rule taskInv_putLane) (auto intro: laneTasks_cong [OF taskInv_tasks])

lemma taskInv_getLaneState:
  assumes "taskInv s" and "getLaneState l s = (st, t)"
  shows "taskInv t"
proof (cases "laneAt s l")
  case None
  then have "\<forall>t \<in> set (running s). taskLane t \<noteq> l"
    using taskInv_lane [OF assms(1)] by fastforce
  then have "laneTasks (running s) l (newLane l)"
    by (auto simp: laneTasks_def newLane_def)
  with assms None show ?thesis by (auto intro: taskInv_putLane)
next
  case (Some x)
  with assms show ?thesis by simp
qed

lemma startTask_fields [simp]:
  "taskId (startTask l g p) = fst p" "taskLane (startTask l g p) = l"
  "taskGeneration (startTask l g p) = g" "taskEntry (startTask l g p) = snd p"
  by (simp_all add: startTask_def)

lemma taskInv_active_bound:
  "taskInv s \<Longrightarrow> laneAt s l = Some st \<Longrightarrow> i \<in> set (activeTaskIds st) \<Longrightarrow> i < nextTaskId s"
  using taskInv_tasks [of s l st] taskInv_bound [of s] by (auto simp: laneTasks_def)

lemma taskInv_pump:
  assumes inv: "taskInv s"
  shows "taskInv (pump now l s)"
proof (cases "laneAt s l")
  case None
  then show ?thesis using inv by (simp add: pump_def)
next
  case (Some st)
  obtain q active "next" started where
    loop: "pumpLoop (maxConcurrent st) (queue st) (activeTaskIds st) (nextTaskId s) =
      (q, active, next, started)"
    by (metis prod_cases4)
  have bound: "\<forall>i \<in> set (activeTaskIds st). i < nextTaskId s"
    using taskInv_active_bound [OF inv Some] by blast
  have ids: "map fst started = [nextTaskId s..<next]" and "next": "nextTaskId s \<le> next"
    using pumpLoop_split [OF loop] by simp_all
  have active: "active = activeTaskIds st @ [nextTaskId s..<next]"
    using pumpLoop_active [OF loop bound] ids by simp
  define new where "new = map (startTask l (generation st)) started"
  have new_ids: "map taskId new = [nextTaskId s..<next]"
    using ids by (simp add: new_def comp_def)
  have new_lane: "\<forall>t \<in> set new. taskLane t = l \<and> taskGeneration t = generation st"
    by (auto simp: new_def)
  have img: "taskId ` set new = {nextTaskId s..<next}"
    using new_ids by (metis list.set_map set_upt)
  have "{t \<in> set (running s @ new). taskLane t = l \<and> taskGeneration t = generation st} =
      {t \<in> set (running s). taskLane t = l \<and> taskGeneration t = generation st} \<union> set new"
    using new_lane by auto
  then have lane_l:
    "laneTasks (running s @ new) l (st\<lparr>queue := q, activeTaskIds := active, draining := False\<rparr>)"
    using taskInv_tasks [OF inv Some] bound new_lane
    by (auto simp: laneTasks_def active image_Un img)
  have lane_other: "laneTasks (running s @ new) k st'" if "laneAt s k = Some st'" "k \<noteq> l" for k st'
  proof -
    have "{t \<in> set (running s @ new). taskLane t = k \<and> taskGeneration t = generation st'} =
        {t \<in> set (running s). taskLane t = k \<and> taskGeneration t = generation st'}"
      using new_lane that(2) by auto
    then show ?thesis
      using taskInv_tasks [OF inv that(1)] new_lane that(2) by (auto simp: laneTasks_def)
  qed
  have "\<forall>i \<in> taskId ` set (running s). i < nextTaskId s" using taskInv_bound [OF inv] by blast
  then have "distinct (map taskId (running s) @ [nextTaskId s..<next])"
    using taskInv_distinct [OF inv] by fastforce
  then have ids_ok: "distinct (map taskId (running s @ new))"
    by (simp only: map_append new_ids)
  have "\<forall>t \<in> set new. taskId t < next" using img by auto
  moreover have "\<forall>t \<in> set (running s). taskId t < next"
    using taskInv_bound [OF inv] "next" by (meson order.strict_trans2)
  ultimately have bounds: "\<forall>t \<in> set (running s @ new). taskId t < next" by auto
  have present: "\<forall>t \<in> set (running s @ new). taskLane t = l \<or> laneAt s (taskLane t) \<noteq> None"
    using taskInv_lane [OF inv] new_lane by auto
  let ?t = "pump now l s"
  have t: "running ?t = running s @ new" "nextTaskId ?t = next"
      "laneAt ?t = (laneAt s)(l \<mapsto> st\<lparr>queue := q, activeTaskIds := active, draining := False\<rparr>)"
    by (simp_all add: pump_eq [OF Some loop] new_def)
  show ?thesis
    unfolding taskInv_def t
  proof (intro conjI ballI allI impI)
    show "distinct (map taskId (running s @ new))" by (rule ids_ok)
    show "taskId t < next" if "t \<in> set (running s @ new)" for t using bounds that by blast
    show "((laneAt s)(l \<mapsto> st\<lparr>queue := q, activeTaskIds := active, draining := False\<rparr>))
        (taskLane t) \<noteq> None" if "t \<in> set (running s @ new)" for t
      using present that by auto
    show "laneTasks (running s @ new) k x"
      if "((laneAt s)(l \<mapsto> st\<lparr>queue := q, activeTaskIds := active, draining := False\<rparr>)) k = Some x"
      for k x
      using that lane_l lane_other by (auto split: if_splits)
  qed
qed

lemma taskInv_drainLane:
  assumes inv: "taskInv s"
  shows "taskInv (drainLane now l s)"
proof -
  obtain st t where get: "getLaneState l s = (st, t)" by force
  have t: "taskInv t" by (rule taskInv_getLaneState [OF inv get])
  then have "taskInv (putLane l (st\<lparr>draining := True\<rparr>) t)"
    by (rule taskInv_rewrite [OF _ getLaneState_laneAt [OF get]]) simp_all
  then show ?thesis
    using t by (simp add: drainLane_def get taskInv_pump)
qed

lemma taskInv_fold_drainLane: "taskInv s \<Longrightarrow> taskInv (fold (drainLane now) ls s)"
  by (induction ls arbitrary: s) (simp_all add: taskInv_drainLane)

lemma laneTasks_finish:
  assumes "distinct (map taskId ts)" and "t \<in> set ts" and "laneTasks ts l st"
  shows "laneTasks (filter (\<lambda>u. taskId u \<noteq> taskId t) ts) l
    (if taskLane t = l \<and> taskGeneration t = generation st
     then st\<lparr>activeTaskIds := removeAll (taskId t) (activeTaskIds st)\<rparr> else st)"
proof -
  have unique: "u = t" if "u \<in> set ts" "taskId u = taskId t" for u
    using assms(1,2) that by (metis distinct_map inj_on_def)
  let ?A = "{u \<in> set ts. taskLane u = l \<and> taskGeneration u = generation st}"
  have "{u \<in> set (filter (\<lambda>u. taskId u \<noteq> taskId t) ts). taskLane u = l \<and>
        taskGeneration u = generation st} = {u \<in> ?A. taskId u \<noteq> taskId t}"
    by auto
  moreover have "taskId ` {u \<in> ?A. taskId u \<noteq> taskId t} = taskId ` ?A - {taskId t}"
    by auto
  moreover have "taskId t \<notin> taskId ` ?A" if "\<not> (taskLane t = l \<and> taskGeneration t = generation st)"
    using that unique by auto
  ultimately show ?thesis
    using assms(3) by (auto simp: laneTasks_def distinct_removeAll)
qed

lemma taskInv_completeTask:
  assumes inv: "taskInv s" and t: "t \<in> set (running s)"
  shows "taskInv (fst (completeTask (taskLane t) (taskId t) (taskGeneration t)
    (s\<lparr>running := filter (\<lambda>u. taskId u \<noteq> taskId t) (running s)\<rparr>)))"
proof -
  let ?ts = "filter (\<lambda>u. taskId u \<noteq> taskId t) (running s)"
  let ?s = "s\<lparr>running := ?ts\<rparr>"
  obtain st where st: "laneAt s (taskLane t) = Some st" using taskInv_lane [OF inv t] by auto
  let ?st = "if taskGeneration t = generation st
     then st\<lparr>activeTaskIds := removeAll (taskId t) (activeTaskIds st)\<rparr> else st"
  have tasks: "laneTasks ?ts l (if taskLane t = l \<and> taskGeneration t = generation x
     then x\<lparr>activeTaskIds := removeAll (taskId t) (activeTaskIds x)\<rparr> else x)"
    if "laneAt s l = Some x" for l x
    by (rule laneTasks_finish [OF taskInv_distinct [OF inv] t taskInv_tasks [OF inv that]])
  have "distinct (map taskId ?ts)"
    using taskInv_distinct [OF inv] by (simp add: distinct_map_filter)
  moreover have "laneAt (fst (completeTask (taskLane t) (taskId t) (taskGeneration t) ?s)) =
      (laneAt s)(taskLane t \<mapsto> ?st)"
    using st by (auto simp: completeTask_def fun_eq_iff)
  moreover have "running (fst (completeTask (taskLane t) (taskId t) (taskGeneration t) ?s)) = ?ts"
      "nextTaskId (fst (completeTask (taskLane t) (taskId t) (taskGeneration t) ?s)) = nextTaskId s"
    using st by (simp_all add: completeTask_def)
  moreover have "laneTasks ?ts k x" if "((laneAt s)(taskLane t \<mapsto> ?st)) k = Some x" for k x
  proof (cases "k = taskLane t")
    case True
    with that have "x = ?st" by simp
    with True show ?thesis using tasks [OF st] by simp
  next
    case False
    with that have "laneAt s k = Some x" by simp
    from tasks [OF this] False show ?thesis by simp
  qed
  ultimately show ?thesis
    unfolding taskInv_def using taskInv_bound [OF inv] taskInv_lane [OF inv] by auto
qed

lemma taskInv_finish:
  assumes inv: "taskInv s"
  shows "taskInv (finishTask now i r s)"
proof (cases "find (\<lambda>t. taskId t = i) (running s)")
  case None
  with inv show ?thesis by (simp add: finishTask_def)
next
  case (Some t)
  have t: "t \<in> set (running s)" "taskId t = i" using find_SomeD [OF Some] by simp_all
  obtain s1 b where c: "completeTask (taskLane t) i (taskGeneration t)
      (s\<lparr>running := filter (\<lambda>u. taskId u \<noteq> i) (running s)\<rparr>) = (s1, b)" by force
  then have "taskInv s1" using taskInv_completeTask [OF inv t(1)] t(2) by simp
  with Some c show ?thesis by (simp add: finishTask_def Let_def taskInv_pump)
qed

lemma taskInv_enqueue:
  assumes inv: "taskInv s"
  shows "taskInv (enqueueCommandInLane c now lane opts s)"
proof -
  let ?l = "normalizeLane lane" and ?s0 = "s\<lparr>nextEntry := Suc (nextEntry s)\<rparr>"
  obtain st s1 where get: "getLaneState ?l ?s0 = (st, s1)" by force
  have s1: "taskInv s1" using taskInv_getLaneState [OF _ get] inv by simp
  let ?s2 = "s1\<lparr>nextQueueSequence := Suc (nextQueueSequence s1)\<rparr>"
  have "taskInv (putLane ?l (enqueueLaneEntry st e) ?s2)" for e
    by (rule taskInv_rewrite [where st = st])
      (use s1 getLaneState_laneAt [OF get] in simp_all)
  then show ?thesis
    using inv get by (simp add: enqueueCommandInLane_def Let_def taskInv_drainLane)
qed

lemma taskInv_setConcurrency:
  assumes inv: "taskInv s"
  shows "taskInv (setCommandLaneConcurrency now lane limit s)"
proof -
  let ?l = "normalizeLane lane"
  obtain st s1 where get: "getLaneState ?l s = (st, s1)" by force
  have s1: "taskInv s1" by (rule taskInv_getLaneState [OF inv get])
  have "taskInv (putLane ?l (st\<lparr>maxConcurrent := m\<rparr>) s1)" for m
    by (rule taskInv_rewrite [OF s1 getLaneState_laneAt [OF get]]) simp_all
  then show ?thesis
    using get by (simp add: setCommandLaneConcurrency_def Let_def taskInv_drainLane)
qed

lemma laneTasks_idle: "laneTasks ts l st \<Longrightarrow> laneTasks ts l (idleLane st)"
  by (fastforce simp: laneTasks_def)

lemma taskInv_clear: "taskInv s \<Longrightarrow> taskInv (snd (clearCommandLane lane s))"
  by (auto simp: clearCommandLane_def Let_def split: option.splits intro!: taskInv_rewrite)

lemma taskInv_reset:
  assumes inv: "taskInv s"
  shows "taskInv (snd (resetCommandLane now lane s))"
  using inv taskInv_putLane [OF inv laneTasks_idle [OF taskInv_tasks [OF inv]]]
  by (auto simp: resetCommandLane_def Let_def taskInv_drainLane split: option.splits)

lemma taskInv_idleAll: "taskInv s \<Longrightarrow> taskInv (idleAll s)"
  by (auto simp: taskInv_def laneTasks_idle)

lemma taskInv_resetAll: "taskInv s \<Longrightarrow> taskInv (resetAllLanes now s)"
  by (simp add: resetAllLanes_eq taskInv_fold_drainLane taskInv_idleAll)

lemma taskInv_initial: "taskInv initialQueueState"
  by (simp add: taskInv_def initialQueueState_def laneAt_def)

lemma taskInv_step: "taskInv s \<Longrightarrow> taskInv (queueStep e s)"
  by (cases e) (simp_all add: taskInv_enqueue taskInv_finish taskInv_setConcurrency taskInv_clear
      taskInv_reset taskInv_resetAll waitForActiveTasks_def resolveActiveTaskWaiter_def Let_def)

lemma reachable_taskInv: "queueReachable s \<Longrightarrow> taskInv s"
  by (induction rule: queueReachable.induct) (simp_all add: taskInv_initial taskInv_step)

section \<open>Conservation of the promises\<close>

text \<open>The promises of queued, started and settled commands, with multiplicity.\<close>

definition queueIds :: "lane_state \<Rightarrow> nat multiset" where
  "queueIds st = mset (map entryId (queue st))"

definition laneIds :: "(string, lane_state) jsmap \<Rightarrow> nat multiset" where
  "laneIds m = sum_list (map (\<lambda>p. queueIds (snd p)) m)"

definition promiseIds :: "queue_state \<Rightarrow> nat multiset" where
  "promiseIds s = laneIds (lanes s) + mset (map (\<lambda>t. entryId (taskEntry t)) (running s)) +
     mset (map fst (settled s))"

lemma laneIds_set:
  "laneIds (jm_set l st m) + (case jm_get m l of None \<Rightarrow> {#} | Some old \<Rightarrow> queueIds old) =
   laneIds m + queueIds st"
  unfolding jm_set_def jm_get_def laneIds_def
  by (induction m) (auto split: option.splits simp: ac_simps)

lemma laneIds_putLane_Some:
  "laneAt s l = Some old \<Longrightarrow>
   laneIds (lanes (putLane l st s)) + queueIds old = laneIds (lanes s) + queueIds st"
  using laneIds_set [of l st "lanes s"] by (simp add: laneAt_def putLane_def)

lemma laneIds_putLane_same:
  "laneAt s l = Some old \<Longrightarrow> queueIds st = queueIds old \<Longrightarrow>
   laneIds (lanes (putLane l st s)) = laneIds (lanes s)"
  using laneIds_putLane_Some [of s l old st] by simp

lemma laneIds_getLaneState:
  "getLaneState l s = (st, t) \<Longrightarrow> laneIds (lanes t) = laneIds (lanes s)"
  using laneIds_set [of l "newLane l" "lanes s"]
  by (auto simp: getLaneState_def putLane_def laneAt_def newLane_def queueIds_def
      split: option.splits)

lemma promiseIds_getLaneState:
  "getLaneState l s = (st, t) \<Longrightarrow> promiseIds t = promiseIds s"
  using laneIds_getLaneState [of l s st t] getLaneState_fields [of l s st t]
  by (simp add: promiseIds_def)

lemma promiseIds_pump [simp]: "promiseIds (pump now l s) = promiseIds s"
proof (cases "laneAt s l")
  case None
  then show ?thesis by (simp add: pump_def)
next
  case (Some st)
  obtain q active "next" started where
    loop: "pumpLoop (maxConcurrent st) (queue st) (activeTaskIds st) (nextTaskId s) =
      (q, active, next, started)"
    by (metis prod_cases4)
  have "queue st = map snd started @ q" using pumpLoop_split [OF loop] by simp
  then have ids: "queueIds st = mset (map (\<lambda>p. entryId (snd p)) started) + mset (map entryId q)"
    by (simp add: queueIds_def comp_def)
  have "laneIds (lanes (pump now l s)) + queueIds st = laneIds (lanes s) + mset (map entryId q)"
    using laneIds_set [of l "st\<lparr>queue := q, activeTaskIds := active, draining := False\<rparr>" "lanes s"] Some
    by (simp add: pump_eq [OF Some loop] putLane_def laneAt_def queueIds_def)
  with ids have "laneIds (lanes (pump now l s)) + mset (map (\<lambda>p. entryId (snd p)) started) =
      laneIds (lanes s)"
    by (simp add: ac_simps)
  moreover have "running (pump now l s) = running s @ map (startTask l (generation st)) started"
      "settled (pump now l s) = settled s"
    by (simp_all add: pump_eq [OF Some loop])
  ultimately show ?thesis
    by (simp add: promiseIds_def comp_def ac_simps)
qed

lemma promiseIds_drainLane [simp]: "promiseIds (drainLane now l s) = promiseIds s"
proof -
  obtain st t where get: "getLaneState l s = (st, t)" by force
  have "promiseIds (putLane l (st\<lparr>draining := True\<rparr>) t) = promiseIds t"
    using laneIds_putLane_same [OF getLaneState_laneAt [OF get]]
    by (simp add: promiseIds_def queueIds_def)
  then show ?thesis
    using promiseIds_getLaneState [OF get] by (simp add: drainLane_def get)
qed

lemma promiseIds_fold_drainLane [simp]: "promiseIds (fold (drainLane now) ls s) = promiseIds s"
  by (induction ls arbitrary: s) simp_all

lemma promiseIds_notify [simp]: "promiseIds (notifyActiveTaskWaiters s) = promiseIds s"
  by (simp add: promiseIds_def)

lemma queueIds_enqueueLaneEntry:
  "queueIds (enqueueLaneEntry st e) = add_mset (entryId e) (queueIds st)"
proof -
  have "mset (map entryId (queue st)) =
      mset (map entryId (take i (queue st))) + mset (map entryId (drop i (queue st)))" for i
    by (metis append_take_drop_id map_append mset_append)
  then show ?thesis
    by (auto simp: queueIds_def enqueueLaneEntry_def Let_def split: option.splits)
qed

lemma promiseIds_enqueue:
  "promiseIds (enqueueCommandInLane c now lane opts s) = add_mset (nextEntry s) (promiseIds s)"
proof -
  let ?l = "normalizeLane lane" and ?s0 = "s\<lparr>nextEntry := Suc (nextEntry s)\<rparr>"
  obtain st s1 where get: "getLaneState ?l ?s0 = (st, s1)" by force
  have same: "promiseIds s1 = promiseIds s"
    using promiseIds_getLaneState [OF get] by (simp add: promiseIds_def)
  let ?e = "newEntry now (nextEntry s) (nextQueueSequence s1) opts"
  let ?s2 = "s1\<lparr>nextQueueSequence := Suc (nextQueueSequence s1)\<rparr>"
  have "laneIds (lanes (putLane ?l (enqueueLaneEntry st ?e) ?s2)) + queueIds st =
      laneIds (lanes s1) + queueIds (enqueueLaneEntry st ?e)"
    using laneIds_putLane_Some [of ?s2 ?l st] getLaneState_laneAt [OF get] by simp
  then have "promiseIds (putLane ?l (enqueueLaneEntry st ?e) ?s2) = add_mset (nextEntry s) (promiseIds s1)"
    by (simp add: promiseIds_def queueIds_enqueueLaneEntry)
  then have queued: "promiseIds (putLane ?l (enqueueLaneEntry st ?e) ?s2) =
      add_mset (nextEntry s) (promiseIds s)"
    by (simp only: same)
  show ?thesis
  proof (cases "isGatewaySubordinateWorkAdmissionClosed c (admission s)")
    case False
    with get queued show ?thesis by (simp add: enqueueCommandInLane_def Let_def)
  next
    case True
    then show ?thesis by (simp add: enqueueCommandInLane_def Let_def promiseIds_def)
  qed
qed

lemma nextEntry_simps [simp]:
  "nextEntry (pump now l s) = nextEntry s"
  "nextEntry (drainLane now l s) = nextEntry s"
  "nextEntry (fold (drainLane now) ls s) = nextEntry s"
  "nextEntry (fst (completeTask l i g s)) = nextEntry s"
proof -
  show pump: "nextEntry (pump now l s) = nextEntry s" for l s
    by (simp add: pump_def split: option.splits prod.splits)
  show drain: "nextEntry (drainLane now l s) = nextEntry s" for l s
    by (auto simp: drainLane_def getLaneState_def pump split: option.splits)
  show "nextEntry (fold (drainLane now) ls s) = nextEntry s"
    by (induction ls arbitrary: s) (simp_all add: drain)
  show "nextEntry (fst (completeTask l i g s)) = nextEntry s"
    by (simp add: completeTask_def split: option.splits)
qed

lemma mset_map_filter_unique:
  assumes "distinct (map f ts)" and "t \<in> set ts"
  shows "mset (map g ts) = add_mset (g t) (mset (map g (filter (\<lambda>u. f u \<noteq> f t) ts)))"
  using assms
proof (induction ts)
  case Nil
  then show ?case by simp
next
  case (Cons u ts)
  show ?case
  proof (cases "u = t")
    case True
    then have "f t \<notin> f ` set ts" using Cons.prems(1) by simp
    then have "\<forall>v \<in> set ts. f v \<noteq> f t" by (metis imageI)
    then show ?thesis using True by simp
  next
    case False
    then have "t \<in> set ts" "f u \<noteq> f t" using Cons.prems by auto
    then show ?thesis using Cons by simp
  qed
qed

lemma promiseIds_finish:
  assumes inv: "taskInv s"
  shows "promiseIds (finishTask now i r s) = promiseIds s"
proof (cases "find (\<lambda>t. taskId t = i) (running s)")
  case None
  then show ?thesis by (simp add: finishTask_def)
next
  case (Some t)
  have t: "t \<in> set (running s)" "taskId t = i" using find_SomeD [OF Some] by simp_all
  let ?s = "s\<lparr>running := filter (\<lambda>u. taskId u \<noteq> i) (running s)\<rparr>"
  obtain s1 b where c: "completeTask (taskLane t) i (taskGeneration t) ?s = (s1, b)" by force
  have "promiseIds s1 = promiseIds ?s"
    using c laneIds_putLane_same
    by (auto simp: completeTask_def promiseIds_def queueIds_def split: option.splits if_splits)
  then have "add_mset (entryId (taskEntry t)) (promiseIds s1) = promiseIds s"
    using mset_map_filter_unique [OF taskInv_distinct [OF inv] t(1), of "\<lambda>t. entryId (taskEntry t)"] t(2)
    by (simp add: promiseIds_def)
  moreover have settle: "promiseIds (u\<lparr>settled := settled u @ [(k, r)]\<rparr>) = add_mset k (promiseIds u)"
    for u k by (simp add: promiseIds_def)
  ultimately show ?thesis
    using Some c by (simp add: finishTask_def Let_def)
qed

lemma promiseIds_setConcurrency:
  "promiseIds (setCommandLaneConcurrency now lane limit s) = promiseIds s"
proof -
  let ?l = "normalizeLane lane"
  obtain st s1 where get: "getLaneState ?l s = (st, s1)" by force
  have "promiseIds (putLane ?l (st\<lparr>maxConcurrent := m\<rparr>) s1) = promiseIds s" for m
    using laneIds_putLane_same [OF getLaneState_laneAt [OF get]] promiseIds_getLaneState [OF get]
    by (simp add: promiseIds_def queueIds_def)
  then show ?thesis by (simp add: setCommandLaneConcurrency_def get Let_def)
qed

lemma promiseIds_clear: "promiseIds (snd (clearCommandLane lane s)) = promiseIds s"
proof (cases "laneAt s (normalizeLane lane)")
  case None
  then show ?thesis by (simp add: clearCommandLane_def Let_def)
next
  case (Some st)
  let ?l = "normalizeLane lane"
  let ?t = "s\<lparr>settled := settled s @ map (\<lambda>e. (entryId e, CommandLaneCleared ?l)) (queue st)\<rparr>"
  let ?r = "putLane ?l (st\<lparr>queue := []\<rparr>) ?t"
  have lost: "laneIds (lanes s) = laneIds (lanes ?r) + queueIds st"
    using laneIds_putLane_Some [of ?t ?l st "st\<lparr>queue := []\<rparr>"] Some by (simp add: queueIds_def)
  have "mset (map fst (settled ?r)) = mset (map fst (settled s)) + queueIds st"
    by (simp add: queueIds_def comp_def)
  then have "promiseIds ?r = promiseIds s"
    unfolding promiseIds_def lost by (simp only: putLane_fields ac_simps) simp
  then show ?thesis
    using Some by (simp add: clearCommandLane_def Let_def)
qed

lemma promiseIds_reset:
  "promiseIds (snd (resetCommandLane now lane s)) = promiseIds s"
proof -
  have "laneAt s l = Some st \<Longrightarrow> promiseIds (putLane l (idleLane st) s) = promiseIds s" for l st
    using laneIds_putLane_same [of s l st "idleLane st"] by (simp add: promiseIds_def queueIds_def)
  then show ?thesis by (simp add: resetCommandLane_def Let_def split: option.splits)
qed

lemma promiseIds_idleAll: "promiseIds (idleAll s) = promiseIds s"
  by (simp add: promiseIds_def idleAll_def laneIds_def jm_map_values_def comp_def split_def
      queueIds_def)

lemma promiseIds_resetAll: "promiseIds (resetAllLanes now s) = promiseIds s"
  by (simp add: resetAllLanes_eq promiseIds_idleAll) (simp add: promiseIds_def)

definition promiseInv :: "queue_state \<Rightarrow> bool" where
  "promiseInv s \<longleftrightarrow> promiseIds s = mset [0..<nextEntry s]"

lemma nextEntry_step:
  "nextEntry (queueStep e s) = (case e of Enqueue _ _ _ _ \<Rightarrow> Suc (nextEntry s) | _ \<Rightarrow> nextEntry s)"
  by (cases e) (auto simp: enqueueCommandInLane_def finishTask_def setCommandLaneConcurrency_def
      clearCommandLane_def resetCommandLane_def resetAllLanes_eq waitForActiveTasks_def
      resolveActiveTaskWaiter_def getLaneState_def completeTask_def Let_def
      split: option.splits prod.splits)

lemma promiseIds_step:
  assumes "taskInv s"
  shows "promiseIds (queueStep e s) =
    (case e of Enqueue _ _ _ _ \<Rightarrow> add_mset (nextEntry s) (promiseIds s) | _ \<Rightarrow> promiseIds s)"
proof -
  have "promiseIds (waitForActiveTasks t s) = promiseIds s" for t
    by (simp add: waitForActiveTasks_def Let_def promiseIds_def)
  moreover have "promiseIds (resolveActiveTaskWaiter w d s) = promiseIds s" for w d
    by (simp add: resolveActiveTaskWaiter_def promiseIds_def)
  moreover have "promiseIds (s\<lparr>admission := a\<rparr>) = promiseIds s" for a
    by (simp add: promiseIds_def)
  ultimately show ?thesis
    by (cases e) (simp_all add: promiseIds_enqueue promiseIds_finish [OF assms] promiseIds_clear
        promiseIds_setConcurrency promiseIds_reset promiseIds_resetAll)
qed

lemma promiseInv_step: "taskInv s \<Longrightarrow> promiseInv s \<Longrightarrow> promiseInv (queueStep e s)"
  by (auto simp: promiseInv_def promiseIds_step nextEntry_step atLeast0_lessThan_Suc
      split: queue_event.splits)

lemma reachable_promiseInv: "queueReachable s \<Longrightarrow> promiseInv s"
proof (induction rule: queueReachable.induct)
  case start
  show ?case by (simp add: promiseInv_def initialQueueState_def promiseIds_def laneIds_def)
next
  case (step s e)
  then show ?case using promiseInv_step reachable_taskInv by blast
qed

section \<open>Waiters\<close>

definition pending :: "queue_state \<Rightarrow> nat list \<Rightarrow> bool" where
  "pending s ids \<longleftrightarrow> (\<exists>l st. laneAt s l = Some st \<and> set (activeTaskIds st) \<inter> set ids \<noteq> {})"

lemma hasPendingActiveTasks_iff:
  assumes "jm_ok (lanes s)"
  shows "hasPendingActiveTasks ids s \<longleftrightarrow> pending s ids"
proof -
  have "laneAt s l = Some st \<longleftrightarrow> (l, st) \<in> set (lanes s)" for l st
    unfolding laneAt_def by (rule jm_get_in_set [OF assms])
  then show ?thesis
    by (force simp: hasPendingActiveTasks_def pending_def list_ex_iff)
qed

lemma pending_cong: "lanes t = lanes s \<Longrightarrow> pending t ids \<longleftrightarrow> pending s ids"
  by (simp add: pending_def laneAt_def)

text \<open>
  No promise of \<open>waitForActiveTasks\<close> is forgotten: each waits for a task that is still active, and
  the numbers handed out are those waiting and those answered.
\<close>

definition waitersLive :: "queue_state \<Rightarrow> bool" where
  "waitersLive s \<longleftrightarrow> (\<forall>x \<in> set (activeTaskWaiters s). pending s (waiterTaskIds x))"

definition waitersCounted :: "queue_state \<Rightarrow> bool" where
  "waitersCounted s \<longleftrightarrow>
     mset (map waiterId (activeTaskWaiters s)) + mset (map fst (drainedWaiters s)) =
       mset [0..<nextWaiter s]"

lemma waitersCounted_distinct: "waitersCounted s \<Longrightarrow> distinct (map waiterId (activeTaskWaiters s))"
proof -
  assume "waitersCounted s"
  then have "mset (map waiterId (activeTaskWaiters s) @ map fst (drainedWaiters s)) =
      mset [0..<nextWaiter s]"
    by (simp add: waitersCounted_def)
  then have "distinct (map waiterId (activeTaskWaiters s) @ map fst (drainedWaiters s))"
    by (metis distinct_upt mset_eq_imp_distinct_iff)
  then show ?thesis by simp
qed

lemma waitersCounted_resolve:
  assumes "waitersCounted s"
  shows "waitersCounted (resolveActiveTaskWaiter w d s)"
proof (cases "list_ex (\<lambda>x. waiterId x = w) (activeTaskWaiters s)")
  case False
  with assms show ?thesis by (simp add: resolveActiveTaskWaiter_def)
next
  case True
  then obtain x where x: "x \<in> set (activeTaskWaiters s)" "waiterId x = w"
    by (auto simp: list_ex_iff)
  from mset_map_filter_unique [OF waitersCounted_distinct [OF assms] x(1), of waiterId] x(2) assms True
  show ?thesis by (simp add: resolveActiveTaskWaiter_def waitersCounted_def)
qed

lemma waitersCounted_notifyWaiter: "waitersCounted s \<Longrightarrow> waitersCounted (notifyWaiter x s)"
  by (simp add: notifyWaiter_def waitersCounted_resolve)

lemma waitersCounted_notify: "waitersCounted s \<Longrightarrow> waitersCounted (notifyActiveTaskWaiters s)"
proof -
  have "waitersCounted s \<Longrightarrow> waitersCounted (fold notifyWaiter xs s)" for xs
    by (induction xs arbitrary: s) (simp_all add: waitersCounted_notifyWaiter)
  then show "waitersCounted s \<Longrightarrow> waitersCounted (notifyActiveTaskWaiters s)"
    by (simp add: notifyActiveTaskWaiters_def)
qed

lemma activeTaskWaiters_notifyWaiter_subset:
  "set (activeTaskWaiters (notifyWaiter x s)) \<subseteq> set (activeTaskWaiters s)"
  by (auto simp: notifyWaiter_def resolveActiveTaskWaiter_def)

lemma activeTaskWaiters_fold_subset:
  "set (activeTaskWaiters (fold notifyWaiter xs s)) \<subseteq> set (activeTaskWaiters s)"
proof (induction xs arbitrary: s)
  case (Cons x xs)
  show ?case using Cons [of "notifyWaiter x s"] activeTaskWaiters_notifyWaiter_subset [of x s] by simp
qed simp

lemma fold_notifyWaiter_live:
  assumes "jm_ok (lanes s)"
    and "x \<in> set xs" and "x \<in> set (activeTaskWaiters (fold notifyWaiter xs s))"
  shows "pending s (waiterTaskIds x)"
  using assms
proof (induction xs arbitrary: s)
  case Nil
  then show ?case by simp
next
  case (Cons y ys)
  show ?case
  proof (cases "x \<in> set ys")
    case True
    then show ?thesis
      using Cons.IH [of "notifyWaiter y s"] Cons.prems pending_cong [of "notifyWaiter y s" s] by simp
  next
    case False
    then have "x = y" using Cons.prems(2) by simp
    moreover have "x \<in> set (activeTaskWaiters (notifyWaiter y s))"
      using Cons.prems(3) activeTaskWaiters_fold_subset by fastforce
    ultimately show ?thesis
      using hasPendingActiveTasks_iff [OF Cons.prems(1)]
      by (auto simp: notifyWaiter_def resolveActiveTaskWaiter_def list_ex_iff split: if_splits)
  qed
qed

lemma waitersLive_notify:
  assumes "jm_ok (lanes s)"
  shows "waitersLive (notifyActiveTaskWaiters s)"
  unfolding waitersLive_def
proof
  fix x assume x: "x \<in> set (activeTaskWaiters (notifyActiveTaskWaiters s))"
  then have "x \<in> set (activeTaskWaiters s)"
    using activeTaskWaiters_fold_subset by (auto simp: notifyActiveTaskWaiters_def)
  then have "pending s (waiterTaskIds x)"
    using fold_notifyWaiter_live [OF assms] x by (simp add: notifyActiveTaskWaiters_def)
  then show "pending (notifyActiveTaskWaiters s) (waiterTaskIds x)"
    by (simp add: pending_cong [of "notifyActiveTaskWaiters s" s])
qed

text \<open>Operations that do not take a number out of a lane's active set keep the waiters alive.\<close>

definition activeGrows :: "queue_state \<Rightarrow> queue_state \<Rightarrow> bool" where
  "activeGrows s t \<longleftrightarrow>
     activeTaskWaiters t = activeTaskWaiters s \<and> drainedWaiters t = drainedWaiters s \<and>
     nextWaiter t = nextWaiter s \<and>
     (\<forall>l st. laneAt s l = Some st \<longrightarrow>
        (\<exists>st'. laneAt t l = Some st' \<and> set (activeTaskIds st) \<subseteq> set (activeTaskIds st')))"

lemma activeGrows_refl: "activeGrows s s"
  by (simp add: activeGrows_def)

lemma activeGrows_trans: "activeGrows s t \<Longrightarrow> activeGrows t u \<Longrightarrow> activeGrows s u"
  unfolding activeGrows_def by (metis order.trans)

lemma activeGrows_live: "activeGrows s t \<Longrightarrow> waitersLive s \<Longrightarrow> waitersLive t"
  unfolding activeGrows_def waitersLive_def pending_def by (metis disjoint_iff subsetD)

lemma activeGrows_counted: "activeGrows s t \<Longrightarrow> waitersCounted s \<Longrightarrow> waitersCounted t"
  by (simp add: activeGrows_def waitersCounted_def)

lemma pumpLoop_active_subset:
  "pumpLoop limit q active next = (q1, active1, next1, started) \<Longrightarrow> set active \<subseteq> set active1"
proof (induction limit q active "next" arbitrary: q1 active1 next1 started rule: pumpLoop.induct)
  case (2 limit e q active "next")
  then show ?case by (force split: if_splits prod.splits)
qed simp

lemma activeGrows_pump: "activeGrows s (pump now l s)"
  using pumpLoop_active_subset
  by (fastforce simp: activeGrows_def pump_def split: option.splits prod.splits)

lemma activeGrows_getLaneState: "getLaneState l s = (st, t) \<Longrightarrow> activeGrows s t"
  by (auto simp: activeGrows_def getLaneState_def split: option.splits)

lemma activeGrows_putLane:
  "laneAt s l = Some old \<Longrightarrow> set (activeTaskIds old) \<subseteq> set (activeTaskIds st) \<Longrightarrow>
   activeGrows s (putLane l st s)"
  by (auto simp: activeGrows_def)

lemma activeGrows_drainLane: "activeGrows s (drainLane now l s)"
proof -
  obtain st t where get: "getLaneState l s = (st, t)" by force
  have "activeGrows t (putLane l (st\<lparr>draining := True\<rparr>) t)"
    by (rule activeGrows_putLane [OF getLaneState_laneAt [OF get]]) simp
  then show ?thesis
    using activeGrows_getLaneState [OF get] activeGrows_pump activeGrows_trans
    by (auto simp: drainLane_def get intro: activeGrows_trans)
qed

lemma activeGrows_fields [simp]:
  "activeGrows s (t\<lparr>nextTaskId := n\<rparr>) \<longleftrightarrow> activeGrows s t"
  "activeGrows s (t\<lparr>nextQueueSequence := n\<rparr>) \<longleftrightarrow> activeGrows s t"
  "activeGrows s (t\<lparr>running := r\<rparr>) \<longleftrightarrow> activeGrows s t"
  "activeGrows s (t\<lparr>settled := x\<rparr>) \<longleftrightarrow> activeGrows s t"
  "activeGrows s (t\<lparr>nextEntry := n\<rparr>) \<longleftrightarrow> activeGrows s t"
  "activeGrows s (t\<lparr>admission := m\<rparr>) \<longleftrightarrow> activeGrows s t"
  by (simp_all add: activeGrows_def)

lemma activeGrows_then_drain: "activeGrows s t \<Longrightarrow> activeGrows s (drainLane now l t)"
  using activeGrows_trans [OF _ activeGrows_drainLane] .

lemma activeGrows_enqueue: "activeGrows s (enqueueCommandInLane c now lane opts s)"
proof -
  let ?l = "normalizeLane lane" and ?s0 = "s\<lparr>nextEntry := Suc (nextEntry s)\<rparr>"
  obtain st s1 where get: "getLaneState ?l ?s0 = (st, s1)" by force
  have "activeGrows s ?s0" by (simp add: activeGrows_refl)
  then have s1: "activeGrows s s1"
    using activeGrows_getLaneState [OF get] activeGrows_trans by blast
  let ?s2 = "s1\<lparr>nextQueueSequence := Suc (nextQueueSequence s1)\<rparr>"
  have "activeGrows ?s2 (putLane ?l (enqueueLaneEntry st e) ?s2)" for e
    by (rule activeGrows_putLane [of _ _ st]) (use getLaneState_laneAt [OF get] in simp_all)
  then have "activeGrows s (putLane ?l (enqueueLaneEntry st e) ?s2)" for e
    using s1 activeGrows_trans activeGrows_fields(2) by blast
  then show ?thesis
    using get
    by (auto simp: enqueueCommandInLane_def Let_def activeGrows_refl intro: activeGrows_then_drain)
qed

lemma activeGrows_setConcurrency: "activeGrows s (setCommandLaneConcurrency now lane limit s)"
proof -
  let ?l = "normalizeLane lane"
  obtain st s1 where get: "getLaneState ?l s = (st, s1)" by force
  have "activeGrows s (putLane ?l (st\<lparr>maxConcurrent := m\<rparr>) s1)" for m
    using activeGrows_getLaneState [OF get] activeGrows_trans
      activeGrows_putLane [OF getLaneState_laneAt [OF get], of "st\<lparr>maxConcurrent := m\<rparr>"]
    by simp
  then show ?thesis
    using get
    by (auto simp: setCommandLaneConcurrency_def Let_def intro: activeGrows_then_drain)
qed

lemma activeGrows_clear: "activeGrows s (snd (clearCommandLane lane s))"
  by (auto simp: clearCommandLane_def Let_def activeGrows_def split: option.splits)

text \<open>Taking a number out of an active set is followed by a pass over the waiters.\<close>

lemma completeTask_fields:
  assumes "completeTask l i g s = (t, b)"
  shows "activeTaskWaiters t = activeTaskWaiters s" "drainedWaiters t = drainedWaiters s"
    "nextWaiter t = nextWaiter s" "jm_ok (lanes s) \<Longrightarrow> jm_ok (lanes t)" "\<not> b \<Longrightarrow> t = s"
  using assms by (auto simp: completeTask_def putLane_def jm.ok_put split: option.splits if_splits)

lemma finish_waiters:
  assumes ok: "jm_ok (lanes s)" and live: "waitersLive s" and counted: "waitersCounted s"
  shows "waitersLive (finishTask now i r s) \<and> waitersCounted (finishTask now i r s)"
proof (cases "find (\<lambda>t. taskId t = i) (running s)")
  case None
  with live counted show ?thesis by (simp add: finishTask_def)
next
  case (Some t)
  let ?s = "s\<lparr>running := filter (\<lambda>u. taskId u \<noteq> i) (running s)\<rparr>"
  obtain s1 b where c: "completeTask (taskLane t) i (taskGeneration t) ?s = (s1, b)" by force
  note F = completeTask_fields [OF c]
  have s: "waitersLive ?s" "waitersCounted ?s"
    using live counted by (simp_all add: waitersLive_def waitersCounted_def pending_def)
  have s1: "jm_ok (lanes s1)" "waitersCounted s1"
    using F ok counted by (simp_all add: waitersCounted_def)
  have "waitersLive (pump now l (notifyActiveTaskWaiters s1))"
    "waitersCounted (pump now l (notifyActiveTaskWaiters s1))" for l
    using waitersLive_notify [OF s1(1)] waitersCounted_notify [OF s1(2)] activeGrows_pump
      activeGrows_live activeGrows_counted by blast+
  then show ?thesis
    using Some c F(5) s
    by (auto simp: finishTask_def Let_def waitersLive_def waitersCounted_def pending_def)
qed

lemma jm_ok_ops:
  "jm_ok (lanes s) \<Longrightarrow> jm_ok (lanes (putLane l st s))"
  "jm_ok (lanes s) \<Longrightarrow> jm_ok (lanes (drainLane now l s))"
proof -
  show put: "jm_ok (lanes s) \<Longrightarrow> jm_ok (lanes (putLane l st s))" for l st s
    by (simp add: putLane_def jm.ok_put)
  show "jm_ok (lanes s) \<Longrightarrow> jm_ok (lanes (drainLane now l s))"
    by (auto simp: drainLane_def getLaneState_def pump_def Let_def put
        split: option.splits prod.splits)
qed

lemma drainLane_counted: "waitersCounted s \<Longrightarrow> waitersCounted (drainLane now l s)"
  using activeGrows_counted [OF activeGrows_drainLane] .

lemma reset_waiters:
  assumes "jm_ok (lanes s)" and "waitersLive s" "waitersCounted s"
  shows "waitersLive (snd (resetCommandLane now lane s)) \<and>
    waitersCounted (snd (resetCommandLane now lane s))"
proof (cases "laneAt s (normalizeLane lane)")
  case None
  with assms show ?thesis by (simp add: resetCommandLane_def Let_def)
next
  case (Some st)
  let ?t = "putLane (normalizeLane lane) (idleLane st) s"
  have "jm_ok (lanes ?t)" "waitersCounted ?t"
    using assms by (simp_all add: jm_ok_ops waitersCounted_def)
  then show ?thesis
    using Some by (auto simp: resetCommandLane_def Let_def waitersLive_notify waitersCounted_notify
        jm_ok_ops drainLane_counted)
qed

lemma resetAll_waiters:
  assumes "jm_ok (lanes s)" and "waitersCounted s"
  shows "waitersLive (resetAllLanes now s) \<and> waitersCounted (resetAllLanes now s)"
proof -
  have "jm_ok (lanes t) \<and> waitersCounted t \<Longrightarrow>
      jm_ok (lanes (fold (drainLane now) ls t)) \<and> waitersCounted (fold (drainLane now) ls t)" for ls t
    by (induction ls arbitrary: t) (simp_all add: jm_ok_ops drainLane_counted)
  moreover have "jm_ok (lanes (idleAll (s\<lparr>admission := a\<rparr>)))"
    "waitersCounted (idleAll (s\<lparr>admission := a\<rparr>))" for a
    using assms by (simp_all add: waitersCounted_def idleAll_def)
  ultimately show ?thesis
    by (simp add: resetAllLanes_eq waitersLive_notify waitersCounted_notify)
qed

lemma wait_waiters:
  assumes "jm_ok (lanes s)" and "waitersLive s" "waitersCounted s"
  shows "waitersLive (waitForActiveTasks t s) \<and> waitersCounted (waitForActiveTasks t s)"
  using assms(2,3) waitersLive_notify waitersCounted_notify assms(1)
  by (auto simp: waitForActiveTasks_def Let_def waitersLive_notify
      waitersLive_def [of "_ \<lparr>drainedWaiters := _\<rparr>"] waitersLive_def [of s]
      pending_def atLeast0_lessThan_Suc intro!: waitersCounted_notify)
    (simp_all add: waitersCounted_def atLeast0_lessThan_Suc)

lemma resolve_waiters:
  assumes "waitersLive s" "waitersCounted s"
  shows "waitersLive (resolveActiveTaskWaiter w d s) \<and> waitersCounted (resolveActiveTaskWaiter w d s)"
  using assms waitersCounted_resolve
  by (auto simp: resolveActiveTaskWaiter_def waitersLive_def pending_def)

lemma waiters_step:
  assumes ok: "jm_ok (lanes s)" and w: "waitersLive s" "waitersCounted s"
  shows "waitersLive (queueStep e s) \<and> waitersCounted (queueStep e s)"
proof -
  have grow: "activeGrows s t \<Longrightarrow> waitersLive t \<and> waitersCounted t" for t
    using w activeGrows_live activeGrows_counted by blast
  show ?thesis
    using assms
    by (cases e) (simp_all add: grow activeGrows_enqueue activeGrows_setConcurrency
        activeGrows_clear activeGrows_refl finish_waiters reset_waiters resetAll_waiters wait_waiters
        resolve_waiters)
qed

lemma reachable_waiters: "queueReachable s \<Longrightarrow> waitersLive s \<and> waitersCounted s"
proof (induction rule: queueReachable.induct)
  case start
  show ?case by (simp add: waitersLive_def waitersCounted_def initialQueueState_def)
next
  case (step s e)
  then show ?case using waiters_step laneInv_jm_ok [OF reachable_laneInv] by blast
qed

section \<open>Predicates on one lane\<close>

text \<open>
  A predicate on the state of the lane \<open>l\<close> that each primitive rewrite of a lane keeps is kept by
  every event; \<open>limitOk\<close> restricts the limits that are set on that lane.
\<close>

fun limitsOk :: "string \<Rightarrow> (js_number \<Rightarrow> bool) \<Rightarrow> queue_event \<Rightarrow> bool" where
  "limitsOk l limitOk (SetConcurrency now lane v) = (normalizeLane lane = l \<longrightarrow> limitOk v)"
| "limitsOk l limitOk _ = True"

locale lane_property =
  fixes Q :: "lane_state option \<Rightarrow> bool" and l :: string and limitOk :: "js_number \<Rightarrow> bool"
  assumes create: "Q None \<Longrightarrow> Q (Some (newLane l))"
    and mark: "Q (Some st) \<Longrightarrow> Q (Some (st\<lparr>draining := True\<rparr>))"
    and start: "Q (Some st) \<Longrightarrow>
      pumpLoop (maxConcurrent st) (queue st) (activeTaskIds st) n = (q, active, m, started) \<Longrightarrow>
      Q (Some (st\<lparr>queue := q, activeTaskIds := active, draining := False\<rparr>))"
    and insert_entry: "Q (Some st) \<Longrightarrow> Q (Some (enqueueLaneEntry st e))"
    and complete: "Q (Some st) \<Longrightarrow> Q (Some (st\<lparr>activeTaskIds := removeAll i (activeTaskIds st)\<rparr>))"
    and empty: "Q (Some st) \<Longrightarrow> Q (Some (st\<lparr>queue := []\<rparr>))"
    and idle: "Q (Some st) \<Longrightarrow> Q (Some (idleLane st))"
    and limit: "Q (Some st) \<Longrightarrow> limitOk v \<Longrightarrow>
      Q (Some (st\<lparr>maxConcurrent := js_max (if isQuietProbeLane l then 1 else 0) (js_floor v)\<rparr>))"
begin

lemma kept_pump: "Q (laneAt s l) \<Longrightarrow> Q (laneAt (pump now k s) l)"
proof (cases "laneAt s k")
  case None
  then show "Q (laneAt s l) \<Longrightarrow> ?thesis" by (simp add: pump_def)
next
  case (Some st)
  obtain q active "next" started where
    loop: "pumpLoop (maxConcurrent st) (queue st) (activeTaskIds st) (nextTaskId s) =
      (q, active, next, started)"
    by (metis prod_cases4)
  show "Q (laneAt s l) \<Longrightarrow> ?thesis"
    using start [OF _ loop] Some by (auto simp: pump_eq [OF Some loop])
qed

lemma kept_getLaneState:
  "getLaneState k s = (st, t) \<Longrightarrow> Q (laneAt s l) \<Longrightarrow> Q (laneAt t l)"
  using create by (auto simp: getLaneState_def split: option.splits)

lemma kept_putLane:
  "Q (laneAt s l) \<Longrightarrow> (k = l \<Longrightarrow> Q (Some st)) \<Longrightarrow> Q (laneAt (putLane k st s) l)"
  by simp

lemma kept_drainLane: "Q (laneAt s l) \<Longrightarrow> Q (laneAt (drainLane now k s) l)"
proof -
  assume q: "Q (laneAt s l)"
  obtain st t where get: "getLaneState k s = (st, t)" by force
  have t: "Q (laneAt t l)" by (rule kept_getLaneState [OF get q])
  then have "Q (laneAt (putLane k (st\<lparr>draining := True\<rparr>) t) l)"
    by (rule kept_putLane) (use t mark getLaneState_laneAt [OF get] in auto)
  then show ?thesis using t by (simp add: drainLane_def get kept_pump)
qed

lemma kept_fold_drainLane: "Q (laneAt s l) \<Longrightarrow> Q (laneAt (fold (drainLane now) ls s) l)"
  by (induction ls arbitrary: s) (simp_all add: kept_drainLane)

lemma laneAt_notify [simp]: "laneAt (notifyActiveTaskWaiters s) = laneAt s"
  by (rule laneAt_cong) simp

lemma kept_enqueue: "Q (laneAt s l) \<Longrightarrow> Q (laneAt (enqueueCommandInLane c now lane opts s) l)"
proof -
  assume q: "Q (laneAt s l)"
  let ?l = "normalizeLane lane" and ?s0 = "s\<lparr>nextEntry := Suc (nextEntry s)\<rparr>"
  obtain st s1 where get: "getLaneState ?l ?s0 = (st, s1)" by force
  have s1: "Q (laneAt s1 l)" by (rule kept_getLaneState [OF get]) (use q in simp)
  let ?s2 = "s1\<lparr>nextQueueSequence := Suc (nextQueueSequence s1)\<rparr>"
  have "Q (laneAt (putLane ?l (enqueueLaneEntry st e) ?s2) l)" for e
    by (rule kept_putLane) (use s1 insert_entry getLaneState_laneAt [OF get] in auto)
  then show ?thesis
    using q get kept_drainLane by (simp add: enqueueCommandInLane_def Let_def)
qed

lemma kept_finish: "Q (laneAt s l) \<Longrightarrow> Q (laneAt (finishTask now i r s) l)"
proof -
  assume q: "Q (laneAt s l)"
  have "Q (laneAt (fst (completeTask k i g t)) l)" if "Q (laneAt t l)" for k g t
    using that complete by (auto simp: completeTask_def split: option.splits)
  then have "Q (laneAt u l)" if "completeTask k i g (s\<lparr>running := x\<rparr>) = (u, b)" for u b k g x
    using q that by (metis fst_conv laneAt_fields(4))
  then show ?thesis
    using q by (auto simp: finishTask_def Let_def kept_pump split: option.splits prod.splits)
qed

lemma kept_setConcurrency:
  assumes "Q (laneAt s l)" and "normalizeLane lane = l \<Longrightarrow> limitOk v"
  shows "Q (laneAt (setCommandLaneConcurrency now lane v s) l)"
proof -
  let ?l = "normalizeLane lane"
  obtain st s1 where get: "getLaneState ?l s = (st, s1)" by force
  have s1: "Q (laneAt s1 l)" by (rule kept_getLaneState [OF get assms(1)])
  have "Q (laneAt (putLane ?l (st\<lparr>maxConcurrent :=
      js_max (if isQuietProbeLane ?l then 1 else 0) (js_floor v)\<rparr>) s1) l)"
  proof (rule kept_putLane [OF s1])
    assume l: "?l = l"
    then have "Q (Some st)" using s1 getLaneState_laneAt [OF get] by simp
    from limit [OF this assms(2) [OF l]] l
    show "Q (Some (st\<lparr>maxConcurrent := js_max (if isQuietProbeLane ?l then 1 else 0) (js_floor v)\<rparr>))"
      by simp
  qed
  then show ?thesis
    using get kept_drainLane by (simp add: setCommandLaneConcurrency_def Let_def)
qed

lemma kept_clear: "Q (laneAt s l) \<Longrightarrow> Q (laneAt (snd (clearCommandLane lane s)) l)"
  using empty by (auto simp: clearCommandLane_def Let_def split: option.splits)

lemma kept_reset: "Q (laneAt s l) \<Longrightarrow> Q (laneAt (snd (resetCommandLane now lane s)) l)"
  using idle kept_drainLane
  by (auto simp: resetCommandLane_def Let_def split: option.splits)

lemma kept_resetAll: "Q (laneAt s l) \<Longrightarrow> Q (laneAt (resetAllLanes now s) l)"
  using idle by (cases "laneAt s l") (simp_all add: resetAllLanes_eq kept_fold_drainLane)

lemma kept_step: "limitsOk l limitOk e \<Longrightarrow> Q (laneAt s l) \<Longrightarrow> Q (laneAt (queueStep e s) l)"
proof -
  have "Q (laneAt s l) \<Longrightarrow> Q (laneAt (waitForActiveTasks t s) l)" for t
    by (simp add: waitForActiveTasks_def Let_def)
  moreover have "Q (laneAt s l) \<Longrightarrow> Q (laneAt (resolveActiveTaskWaiter w d s) l)" for w d
    by (simp add: resolveActiveTaskWaiter_def)
  ultimately show "limitsOk l limitOk e \<Longrightarrow> Q (laneAt s l) \<Longrightarrow> ?thesis"
    by (cases e) (simp_all add: kept_enqueue kept_finish kept_setConcurrency kept_clear kept_reset
        kept_resetAll)
qed

lemma kept_run:
  "list_all (limitsOk l limitOk) es \<Longrightarrow> Q (laneAt s l) \<Longrightarrow> Q (laneAt (queueRun es s) l)"
  by (induction es arbitrary: s) (simp_all add: kept_step)

end

text \<open>The number of active tasks stays within a limit of at least one.\<close>

fun limitAtMost :: "nat \<Rightarrow> js_number \<Rightarrow> bool" where
  "limitAtMost k (Finite q) = (q \<le> of_nat k)"
| "limitAtMost k PosInfinity = False"
| "limitAtMost k _ = True"

lemma limitAtMost_less: "limitAtMost k v \<Longrightarrow> js_count_less n v \<Longrightarrow> n < k"
proof (cases v)
  case (Finite q)
  assume "limitAtMost k v" "js_count_less n v"
  with Finite have "q \<le> of_nat k" "of_nat n < q" by simp_all
  then have "(of_nat n :: rat) < of_nat k" by simp
  then show ?thesis by simp
qed simp_all

lemma limitAtMost_js_max:
  assumes "limitAtMost (Suc k) v"
  shows "limitAtMost (Suc k) (js_max (if b then 1 else 0) (js_floor v))"
proof (cases v)
  case (Finite q)
  have "of_int \<lfloor>q\<rfloor> \<le> q" by simp
  moreover have "q \<le> of_nat (Suc k)" using assms Finite by simp
  ultimately have "of_int \<lfloor>q\<rfloor> \<le> (of_nat (Suc k) :: rat)" by (rule order_trans)
  with Finite show ?thesis by simp
qed (use assms in simp_all)

lemma pumpLoop_limit:
  "pumpLoop limit q active next = (q1, active1, next1, started) \<Longrightarrow>
   limitAtMost k limit \<Longrightarrow> length active \<le> k \<Longrightarrow> length active1 \<le> k"
proof (induction limit q active "next" arbitrary: q1 active1 next1 started rule: pumpLoop.induct)
  case (1 limit active "next")
  then show ?case by simp
next
  case (2 limit e q active "next")
  show ?case
  proof (cases "js_count_less (length active) limit")
    case False
    with 2 show ?thesis by simp
  next
    case True
    then have "length active < k" using limitAtMost_less 2(3) by blast
    then have "length (set_add next active) \<le> k" by (simp add: set_add_def)
    then show ?thesis using 2 True by (auto split: prod.splits)
  qed
qed

interpretation limited: lane_property
    "\<lambda>x. case x of None \<Rightarrow> True
      | Some st \<Rightarrow> limitAtMost (Suc k) (maxConcurrent st) \<and> length (activeTaskIds st) \<le> Suc k"
    l "limitAtMost (Suc k)" for k l
proof unfold_locales
  fix st n q active m started
  assume "case Some st of None \<Rightarrow> True
      | Some st \<Rightarrow> limitAtMost (Suc k) (maxConcurrent st) \<and> length (activeTaskIds st) \<le> Suc k"
    and loop: "pumpLoop (maxConcurrent st) (queue st) (activeTaskIds st) n = (q, active, m, started)"
  then show "case Some (st\<lparr>queue := q, activeTaskIds := active, draining := False\<rparr>) of None \<Rightarrow> True
      | Some st \<Rightarrow> limitAtMost (Suc k) (maxConcurrent st) \<and> length (activeTaskIds st) \<le> Suc k"
    using pumpLoop_limit [OF loop] by simp
next
  fix st v
  assume "case Some st of None \<Rightarrow> True
      | Some st \<Rightarrow> limitAtMost (Suc k) (maxConcurrent st) \<and> length (activeTaskIds st) \<le> Suc k"
    and "limitAtMost (Suc k) v"
  then show "case Some (st\<lparr>maxConcurrent :=
        js_max (if isQuietProbeLane l then 1 else 0) (js_floor v)\<rparr>) of None \<Rightarrow> True
      | Some st \<Rightarrow> limitAtMost (Suc k) (maxConcurrent st) \<and> length (activeTaskIds st) \<le> Suc k"
    using limitAtMost_js_max by simp
qed (auto simp: newLane_def intro: order_trans [OF length_removeAll_less_eq])

text \<open>The generation of a lane never decreases.\<close>

definition laneGeneration :: "string \<Rightarrow> queue_state \<Rightarrow> nat" where
  "laneGeneration l s = (case laneAt s l of None \<Rightarrow> 0 | Some st \<Rightarrow> generation st)"

interpretation generations: lane_property
    "\<lambda>x. g \<le> (case x of None \<Rightarrow> 0 | Some st \<Rightarrow> generation st)" l "\<lambda>_. True" for g l
  by unfold_locales auto

lemma limitsOk_True [simp]: "limitsOk l (\<lambda>_. True) e"
  by (cases e) simp_all

text \<open>A started task's completion is guarded by the generation it captured.\<close>

interpretation stale_task: generation_guard "laneGeneration l" queueStep "completeTask l i" for l i
proof unfold_locales
  show "laneGeneration l s \<le> laneGeneration l (queueStep e s)" for e s
    using generations.kept_step [of l e "laneGeneration l s" s] by (simp add: laneGeneration_def)
  show "g \<noteq> laneGeneration l s \<Longrightarrow> completeTask l i g s = (s, False)" for g s
    by (auto simp: laneGeneration_def completeTask_def split: option.splits)
qed

section \<open>Restart drain seen from the queue\<close>

definition reopens :: "queue_event \<Rightarrow> bool" where
  "reopens e \<longleftrightarrow> e = AdmissionEvent ResetAdmission \<or>
     (case e of ResetAllLanes _ \<Rightarrow> True | _ \<Rightarrow> False)"

lemma admission_pump [simp]: "admission (pump now l s) = admission s"
  by (simp add: pump_def split: option.splits prod.splits)

lemma admission_drainLane [simp]: "admission (drainLane now l s) = admission s"
  by (auto simp: drainLane_def getLaneState_def split: option.splits)

lemma admission_step:
  "\<not> reopens e \<Longrightarrow> restartDraining (admission s) \<Longrightarrow> restartDraining (admission (queueStep e s))"
  by (cases e) (auto simp: reopens_def enqueueCommandInLane_def getLaneState_def finishTask_def
      completeTask_def setCommandLaneConcurrency_def clearCommandLane_def resetCommandLane_def
      waitForActiveTasks_def resolveActiveTaskWaiter_def Let_def restartDraining_step
      split: option.splits prod.splits)

lemma admission_run:
  "list_all (\<lambda>e. \<not> reopens e) es \<Longrightarrow> restartDraining (admission s) \<Longrightarrow>
   restartDraining (admission (queueRun es s))"
  by (induction es arbitrary: s) (simp_all add: admission_step)

lemma markGatewayDraining_drains: "restartDraining (admission (markGatewayDraining s))"
  by (auto simp: markGatewayDraining_def gate_op_defs Let_def split: option.splits)

section \<open>Priority order of what an event starts\<close>

definition startedBefore :: "running_task set \<Rightarrow> queue_state \<Rightarrow> bool" where
  "startedBefore B s \<longleftrightarrow>
     (\<forall>u st b. u \<in> set (running s) - B \<longrightarrow> laneAt s (taskLane u) = Some st \<longrightarrow>
        b \<in> set (queue st) \<longrightarrow> entryBefore (taskEntry u) b)"

lemma startedBefore_old: "set (running s) \<subseteq> B \<Longrightarrow> startedBefore B s"
  by (auto simp: startedBefore_def)

lemma startedBefore_fields [simp]:
  "startedBefore B (s\<lparr>settled := x\<rparr>) \<longleftrightarrow> startedBefore B s"
  "startedBefore B (notifyActiveTaskWaiters s) \<longleftrightarrow> startedBefore B s"
  by (simp_all add: startedBefore_def laneAt_def)

lemma startedBefore_pump:
  assumes before: "startedBefore B s" and inv: "laneInv L s"
  shows "startedBefore B (pump now l s)"
proof (cases "laneAt s l")
  case None
  then show ?thesis using before by (simp add: pump_def)
next
  case (Some st)
  obtain q active "next" started where
    loop: "pumpLoop (maxConcurrent st) (queue st) (activeTaskIds st) (nextTaskId s) =
      (q, active, next, started)"
    by (metis prod_cases4)
  have q: "queue st = map snd started @ q" using pumpLoop_split [OF loop] by simp
  define new where "new = map (startTask l (generation st)) started"
  have new_before: "\<forall>u \<in> set new. taskLane u = l \<and> (\<forall>b \<in> set q. entryBefore (taskEntry u) b)"
    using q laneInv_D(3) [OF inv Some] by (auto simp: new_def orderedQueue_def sorted_wrt_append)
  have old: "entryBefore (taskEntry u) b"
    if "u \<in> set (running s) - B" "laneAt s (taskLane u) = Some x" "b \<in> set (queue x)" for u x b
    using before that unfolding startedBefore_def by blast
  show ?thesis
    unfolding startedBefore_def pump_eq [OF Some loop] new_def [symmetric]
    using new_before old Some q by (auto split: if_splits)
qed

lemma startedBefore_drainLane:
  assumes "startedBefore B s" and inv: "laneInv L s" and "laneAt s l \<noteq> None"
  shows "startedBefore B (drainLane now l s)"
  using assms laneInv_D(2) [OF inv] startedBefore_pump [OF assms(1) inv]
  by (auto simp: drainLane_pump)

lemma startedBefore_fold_drainLane:
  "startedBefore B s \<Longrightarrow> laneInv (set ls) s \<Longrightarrow> \<forall>l \<in> set ls. laneAt s l \<noteq> None \<Longrightarrow>
   startedBefore B (fold (drainLane now) ls s)"
proof (induction ls arbitrary: s)
  case Nil
  then show ?case by simp
next
  case (Cons l ls)
  have "laneInv (set ls) (drainLane now l s)"
    by (rule laneInv_drainLane) (use Cons.prems in auto)
  moreover have "\<forall>k \<in> set ls. laneAt (drainLane now l s) k \<noteq> None"
    using Cons.prems(3) laneAt_drainLane_None by simp
  moreover have "startedBefore B (drainLane now l s)"
    by (rule startedBefore_drainLane [OF Cons.prems(1,2)]) (use Cons.prems(3) in simp)
  ultimately show ?case using Cons.IH by simp
qed

text \<open>The states in which the operations call \<open>drainLane\<close> or \<open>pump\<close> have started nothing yet.\<close>

lemma started_enqueue:
  assumes inv: "laneInv {} s"
  shows "startedBefore (set (running s)) (enqueueCommandInLane c now lane opts s)"
proof (cases "isGatewaySubordinateWorkAdmissionClosed c (admission s)")
  case True
  then show ?thesis by (simp add: enqueueCommandInLane_def Let_def startedBefore_old)
next
  case False
  let ?l = "normalizeLane lane" and ?s0 = "s\<lparr>nextEntry := Suc (nextEntry s)\<rparr>"
  obtain st s1 where get: "getLaneState ?l ?s0 = (st, s1)" by force
  let ?e = "newEntry now (nextEntry s) (nextQueueSequence s1) opts"
  let ?s3 = "putLane ?l (enqueueLaneEntry st ?e)
     (s1\<lparr>nextQueueSequence := Suc (nextQueueSequence s1)\<rparr>)"
  have s1: "laneInv {} s1" by (rule laneInv_getLaneState [OF _ get]) (use inv in simp)
  note D = laneInv_D [OF s1 getLaneState_laneAt [OF get]]
  have "laneInv {?l} ?s3"
    by (rule laneInv_putLane)
      (use laneInv_mono [OF laneInv_next_sequence [OF s1]] D orderedQueue_enqueue in auto)
  then have "startedBefore (set (running s)) (drainLane now ?l ?s3)"
    by (intro startedBefore_drainLane startedBefore_old)
      (use getLaneState_fields(3) [OF get] in auto)
  then show ?thesis using False get by (simp add: enqueueCommandInLane_def Let_def)
qed

lemma started_finish:
  assumes inv: "laneInv {} s"
  shows "startedBefore (set (running s)) (finishTask now i r s)"
proof (cases "find (\<lambda>t. taskId t = i) (running s)")
  case None
  then show ?thesis by (simp add: finishTask_def startedBefore_old)
next
  case (Some t)
  let ?s = "s\<lparr>running := filter (\<lambda>u. taskId u \<noteq> i) (running s)\<rparr>"
  obtain s1 b where c: "completeTask (taskLane t) i (taskGeneration t) ?s = (s1, b)" by force
  have s1: "laneInv (if b then {taskLane t} else {}) s1"
    using laneInv_completeTask [of ?s "taskLane t" i "taskGeneration t"] inv c by simp
  have "running s1 = filter (\<lambda>u. taskId u \<noteq> i) (running s)"
    using c by (auto simp: completeTask_def split: option.splits if_splits)
  then have "startedBefore (set (running s)) s1" by (intro startedBefore_old) auto
  then have "startedBefore (set (running s)) (pump now l (notifyActiveTaskWaiters s1))"
    "startedBefore (set (running s)) s1" for l
    using startedBefore_pump [of _ "notifyActiveTaskWaiters s1"] s1 by simp_all
  then show ?thesis using Some c by (simp add: finishTask_def Let_def)
qed

lemma started_setConcurrency:
  assumes inv: "laneInv {} s"
  shows "startedBefore (set (running s)) (setCommandLaneConcurrency now lane limit s)"
proof -
  let ?l = "normalizeLane lane"
  obtain st s1 where get: "getLaneState ?l s = (st, s1)" by force
  define m where "m = js_max (if isQuietProbeLane ?l then 1 else 0) (js_floor limit)"
  let ?s2 = "putLane ?l (st\<lparr>maxConcurrent := m\<rparr>) s1"
  have s1: "laneInv {} s1" using laneInv_getLaneState [OF inv get] .
  note D = laneInv_D [OF s1 getLaneState_laneAt [OF get]]
  have "laneInv {?l} ?s2"
    by (rule laneInv_putLane) (use laneInv_mono [OF s1] D in auto)
  moreover have old: "startedBefore (set (running s)) ?s2"
    by (rule startedBefore_old) (use getLaneState_fields(3) [OF get] in simp)
  ultimately have "startedBefore (set (running s)) (drainLane now ?l ?s2)"
    by (intro startedBefore_drainLane) auto
  with old show ?thesis
    by (simp add: setCommandLaneConcurrency_def Let_def get flip: m_def)
qed

lemma started_reset:
  assumes inv: "laneInv {} s"
  shows "startedBefore (set (running s)) (snd (resetCommandLane now lane s))"
proof (cases "laneAt s (normalizeLane lane)")
  case None
  then show ?thesis by (simp add: resetCommandLane_def Let_def startedBefore_old)
next
  case (Some st)
  let ?l = "normalizeLane lane" and ?t = "putLane (normalizeLane lane) (idleLane st) s"
  have "laneInv {?l} ?t"
    by (rule laneInv_putLane) (use laneInv_mono [OF inv] laneInv_D [OF inv Some] in auto)
  moreover have old: "startedBefore (set (running s)) ?t" by (rule startedBefore_old) simp
  ultimately have "startedBefore (set (running s)) (drainLane now ?l ?t)"
    by (intro startedBefore_drainLane) auto
  with old Some show ?thesis by (simp add: resetCommandLane_def Let_def)
qed

lemma started_resetAll:
  assumes inv: "laneInv {} s"
  shows "startedBefore (set (running s)) (resetAllLanes now s)"
  unfolding resetAllLanes_eq startedBefore_fields
proof (rule startedBefore_fold_drainLane)
  let ?t = "s\<lparr>admission := resetGatewayWorkAdmission (admission s)\<rparr>"
  have same: "queuedLanes ?t = queuedLanes s" by (simp add: queuedLanes_def)
  show "laneInv (set (queuedLanes s)) (idleAll ?t)"
    using laneInv_idleAll [of ?t] inv same by simp
  show "\<forall>l \<in> set (queuedLanes s). laneAt (idleAll ?t) l \<noteq> None"
    by (auto simp: set_queuedLanes [OF inv])
  show "startedBefore (set (running s)) (idleAll ?t)" by (rule startedBefore_old) simp
qed

lemma started_step:
  assumes "laneInv {} s"
  shows "startedBefore (set (running s)) (queueStep e s)"
proof -
  have "running (waitForActiveTasks t s) = running s" for t
    by (simp add: waitForActiveTasks_def Let_def)
  then show ?thesis
    using assms by (cases e) (auto simp: started_enqueue started_finish started_setConcurrency
        started_reset started_resetAll clearCommandLane_def resolveActiveTaskWaiter_def Let_def
        startedBefore_old split: option.splits)
qed

section \<open>What a pass over the waiters answers\<close>

lemma pending_Nil [simp]: "\<not> pending s []"
  by (simp add: pending_def)

lemma fold_notifyWaiter_exact:
  assumes "jm_ok (lanes s)" and "distinct (map waiterId xs)"
    and "waiterId ` set xs \<subseteq> waiterId ` set (activeTaskWaiters s)"
  shows "activeTaskWaiters (fold notifyWaiter xs s) =
      filter (\<lambda>x. waiterId x \<notin> waiterId ` {y \<in> set xs. \<not> pending s (waiterTaskIds y)})
        (activeTaskWaiters s) \<and>
    drainedWaiters (fold notifyWaiter xs s) = drainedWaiters s @
      map (\<lambda>x. (waiterId x, True)) (filter (\<lambda>x. \<not> pending s (waiterTaskIds x)) xs)"
  using assms
proof (induction xs arbitrary: s)
  case Nil
  show ?case by simp
next
  case (Cons y ys)
  let ?t = "notifyWaiter y s"
  have same: "pending ?t = pending s" by (simp add: fun_eq_iff pending_cong [of ?t s])
  have act: "activeTaskWaiters ?t = filter (\<lambda>x. pending s (waiterTaskIds y) \<or> waiterId x \<noteq> waiterId y)
      (activeTaskWaiters s)"
    and dr: "drainedWaiters ?t = drainedWaiters s @
      (if pending s (waiterTaskIds y) then [] else [(waiterId y, True)])"
    using Cons.prems hasPendingActiveTasks_iff [of s "waiterTaskIds y"]
    by (auto simp: notifyWaiter_def resolveActiveTaskWaiter_def list_ex_iff)
  have "waiterId ` set ys \<subseteq> waiterId ` set (activeTaskWaiters ?t)"
  proof
    fix i assume i: "i \<in> waiterId ` set ys"
    then have "i \<in> waiterId ` set (activeTaskWaiters s)" using Cons.prems(3) by auto
    moreover have "i \<noteq> waiterId y" using i Cons.prems(2) by (metis distinct.simps(2) list.set_map list.simps(9))
    ultimately show "i \<in> waiterId ` set (activeTaskWaiters ?t)" by (auto simp: act)
  qed
  then have IH: "activeTaskWaiters (fold notifyWaiter ys ?t) =
      filter (\<lambda>x. waiterId x \<notin> waiterId ` {z \<in> set ys. \<not> pending s (waiterTaskIds z)})
        (activeTaskWaiters ?t)"
    "drainedWaiters (fold notifyWaiter ys ?t) = drainedWaiters ?t @
      map (\<lambda>x. (waiterId x, True)) (filter (\<lambda>x. \<not> pending s (waiterTaskIds x)) ys)"
    using Cons.IH [of ?t] Cons.prems by (simp_all add: same)
  have "waiterId x \<notin> waiterId ` {z \<in> set (y # ys). \<not> pending s (waiterTaskIds z)} \<longleftrightarrow>
      (pending s (waiterTaskIds y) \<or> waiterId x \<noteq> waiterId y) \<and>
      waiterId x \<notin> waiterId ` {z \<in> set ys. \<not> pending s (waiterTaskIds z)}" for x :: active_task_waiter
    by auto
  then show ?case
    by (simp add: IH act dr conj_commute)
qed

section \<open>Properties\<close>

text \<open>
  C6. Every command's promise is in exactly one place: the promises handed out so far are, with
  multiplicity, those of the queued entries, of the started tasks and of the settled ones.  No
  command is lost, started twice or settled twice, through priorities, timeouts, cleared lanes,
  recoveries and in-process restarts.
\<close>

theorem commands_conserved:
  assumes "queueReachable s"
  shows "laneIds (lanes s) + mset (map (\<lambda>t. entryId (taskEntry t)) (running s)) +
    mset (map fst (settled s)) = mset [0..<nextEntry s]"
  using reachable_promiseInv [OF assms] by (simp only: promiseInv_def promiseIds_def)

definition plainOptions :: "queue_priority option \<Rightarrow> enqueue_options" where
  "plainOptions p = \<lparr>optWarnAfterMs = None, optOnWait = False, optTaskTimeoutMs = None,
     optTaskTimeoutAbortGraceMs = None, optProgress = False, optAbortSignal = None,
     optReleaseSignal = None, optPriority = p\<rparr>"

lemma commands_conserved_witness:
  "let s = queueRun [Enqueue None 5 ''main'' (plainOptions None), Enqueue None 6 '' '' (plainOptions None),
             FinishTask 7 1 (Fulfilled 0), ClearLane ''main''] initialQueueState
   in laneIds (lanes s) + mset (map (\<lambda>t. entryId (taskEntry t)) (running s)) +
      mset (map fst (settled s)) = mset [0..<nextEntry s]"
  unfolding Let_def by (rule commands_conserved [OF queueReachable_run [OF queueReachable.start]])

text \<open>
  C7. Work conservation: between events a lane is never left marked as draining, and it holds
  entries back only while its active tasks reach its limit.  In particular the work a restart or
  a recovery preserves is pumped without waiting for a further command.
\<close>

theorem lanes_never_idle_with_work:
  assumes "queueReachable s" and "laneAt s l = Some st"
  shows "\<not> draining st \<and>
    (queue st = [] \<or> \<not> js_count_less (length (activeTaskIds st)) (maxConcurrent st))"
  using laneInv_D(2,4) [OF reachable_laneInv [OF assms(1)] assms(2)] by (simp add: saturated_def)

lemma lanes_never_idle_with_work_witness:
  "let s = queueRun [SetConcurrency 0 ''cron'' (Finite 0), Enqueue None 5 ''cron'' (plainOptions None),
             ResetAllLanes 6] initialQueueState
   in \<exists>st. laneAt s ''cron'' = Some st \<and> \<not> draining st \<and>
      (queue st = [] \<or> \<not> js_count_less (length (activeTaskIds st)) (maxConcurrent st))"
proof -
  let ?s = "queueRun [SetConcurrency 0 ''cron'' (Finite 0),
      Enqueue None 5 ''cron'' (plainOptions None), ResetAllLanes 6] initialQueueState"
  have "laneAt ?s ''cron'' \<noteq> None" by code_simp
  then obtain st where "laneAt ?s ''cron'' = Some st" by blast
  with lanes_never_idle_with_work [OF queueReachable_run [OF queueReachable.start] this]
  show ?thesis unfolding Let_def by blast
qed

text \<open>
  The concurrency limit holds: if every limit set on a lane is at most \<open>k + 1\<close> (a lane starts
  with limit 1), then in every run the lane has at most \<open>k + 1\<close> active tasks.  With \<open>k = 0\<close> the
  commands of a lane exclude each other.
\<close>

theorem lane_concurrency_bounded:
  assumes "list_all (limitsOk l (limitAtMost (Suc k))) es"
    and "laneAt (queueRun es initialQueueState) l = Some st"
  shows "length (activeTaskIds st) \<le> Suc k"
  using limited.kept_run [OF assms(1), of initialQueueState] assms(2)
  by (simp add: initialQueueState_def laneAt_def split: option.splits)

lemma lane_concurrency_bounded_witness:
  "let s = queueRun [SetConcurrency 0 ''main'' (Finite (3 / 2)), SetConcurrency 0 ''cron'' PosInfinity,
             Enqueue None 5 ''main'' (plainOptions None),
             Enqueue None 6 ''main'' (plainOptions None)] initialQueueState
   in \<exists>st. laneAt s ''main'' = Some st \<and> length (activeTaskIds st) \<le> 2"
proof -
  let ?es = "[SetConcurrency 0 ''main'' (Finite (3 / 2)), SetConcurrency 0 ''cron'' PosInfinity,
             Enqueue None 5 ''main'' (plainOptions None),
             Enqueue None 6 ''main'' (plainOptions None)]"
  have "laneAt (queueRun ?es initialQueueState) ''main'' \<noteq> None" by code_simp
  then obtain st where st: "laneAt (queueRun ?es initialQueueState) ''main'' = Some st" by blast
  have "list_all (limitsOk ''main'' (limitAtMost (Suc 1))) ?es" by code_simp
  from lane_concurrency_bounded [OF this st] st show ?thesis
    unfolding Let_def by (intro exI [of _ st]) simp
qed

text \<open>
  C24. Priority order: whatever an event starts in a lane (an enqueue, a completion, a new limit,
  a recovery, a restart that pumps several lanes) comes before every command the event leaves
  queued in that lane: it has a higher priority, or the same priority and was enqueued earlier.
\<close>

theorem started_in_priority_order:
  assumes "queueReachable s" and "u \<in> set (running (queueStep e s))" "u \<notin> set (running s)"
    and "laneAt (queueStep e s) (taskLane u) = Some st" and "b \<in> set (queue st)"
  shows "priority (taskEntry u) > priority b \<or>
    (priority (taskEntry u) = priority b \<and> sequence (taskEntry u) < sequence b)"
  using started_step [OF reachable_laneInv [OF assms(1)], of e] assms(2-)
  unfolding startedBefore_def entryBefore_def by blast

lemma started_in_priority_order_witness:
  "let s = queueRun [Enqueue None 1 ''main'' (plainOptions None),
             Enqueue None 2 ''main'' (plainOptions (Some Background)),
             Enqueue None 3 ''main'' (plainOptions (Some Foreground))] initialQueueState
   in \<exists>u st b. u \<in> set (running (queueStep (FinishTask 4 1 (Fulfilled 0)) s)) \<and>
      laneAt (queueStep (FinishTask 4 1 (Fulfilled 0)) s) (taskLane u) = Some st \<and>
      b \<in> set (queue st) \<and> entryId (taskEntry u) = 2 \<and> entryId b = 1 \<and>
      (priority (taskEntry u) > priority b \<or>
       (priority (taskEntry u) = priority b \<and> sequence (taskEntry u) < sequence b))"
proof -
  define s where "s = queueRun [Enqueue None 1 ''main'' (plainOptions None),
             Enqueue None 2 ''main'' (plainOptions (Some Background)),
             Enqueue None 3 ''main'' (plainOptions (Some Foreground))] initialQueueState"
  define t where "t = queueStep (FinishTask 4 1 (Fulfilled 0)) s"
  have reach: "queueReachable s"
    unfolding s_def by (rule queueReachable_run [OF queueReachable.start])
  have runs: "map (\<lambda>u. (taskId u, entryId (taskEntry u), taskLane u)) (running t) = [(2, 2, ''main'')]"
    unfolding t_def s_def by code_simp
  have old: "map taskId (running s) = [1]"
    unfolding s_def by code_simp
  have queued: "map_option (\<lambda>st. map entryId (queue st)) (laneAt t ''main'') = Some [1]"
    unfolding t_def s_def by code_simp
  obtain u where u: "running t = [u]" "taskId u = 2" "entryId (taskEntry u) = 2" "taskLane u = ''main''"
    using runs by (auto simp: map_eq_Cons_conv)
  obtain st b where st: "laneAt t ''main'' = Some st" "queue st = [b]" "entryId b = 1"
    using queued by (auto simp: map_eq_Cons_conv)
  have fresh: "u \<notin> set (running s)"
    using old u(2) by (auto simp: map_eq_Cons_conv)
  have "u \<in> set (running t)" "laneAt t (taskLane u) = Some st" "b \<in> set (queue st)"
    using u st by simp_all
  with started_in_priority_order [OF reach, of u "FinishTask 4 1 (Fulfilled 0)" st b] fresh u(3) st(3)
  have "\<exists>u st b. u \<in> set (running t) \<and> laneAt t (taskLane u) = Some st \<and>
      b \<in> set (queue st) \<and> entryId (taskEntry u) = 2 \<and> entryId b = 1 \<and>
      (priority (taskEntry u) > priority b \<or>
       (priority (taskEntry u) = priority b \<and> sequence (taskEntry u) < sequence b))"
    unfolding t_def by blast
  then show ?thesis unfolding t_def s_def Let_def .
qed

text \<open>
  A pass over the \<open>waitForActiveTasks\<close> promises answers exactly the waiters none of whose
  captured tasks is still active, with \<open>drained: true\<close> and in the order they were added, and
  leaves every other waiter waiting.
\<close>

theorem notify_answers_exactly_the_drained:
  assumes "jm_ok (lanes s)" and "distinct (map waiterId (activeTaskWaiters s))"
  shows "activeTaskWaiters (notifyActiveTaskWaiters s) =
      filter (\<lambda>x. pending s (waiterTaskIds x)) (activeTaskWaiters s) \<and>
    drainedWaiters (notifyActiveTaskWaiters s) = drainedWaiters s @
      map (\<lambda>x. (waiterId x, True)) (filter (\<lambda>x. \<not> pending s (waiterTaskIds x)) (activeTaskWaiters s))"
proof -
  have "waiterId x \<notin> waiterId ` {y \<in> set (activeTaskWaiters s). \<not> pending s (waiterTaskIds y)} \<longleftrightarrow>
      pending s (waiterTaskIds x)" if "x \<in> set (activeTaskWaiters s)" for x
    using that assms(2) by (auto simp: distinct_map inj_on_def)
  then show ?thesis
    using fold_notifyWaiter_exact [OF assms order_refl]
    by (auto simp: notifyActiveTaskWaiters_def intro: filter_cong)
qed

lemma notify_answers_exactly_the_drained_witness:
  "let s = (queueRun [Enqueue None 1 ''main'' (plainOptions None), WaitForTasks None] initialQueueState)
             \<lparr>lanes := []\<rparr>
   in drainedWaiters (notifyActiveTaskWaiters s) = [(0, True)]"
proof -
  define s where "s = (queueRun [Enqueue None 1 ''main'' (plainOptions None), WaitForTasks None]
      initialQueueState)\<lparr>lanes := []\<rparr>"
  have s: "jm_ok (lanes s)" "map waiterId (activeTaskWaiters s) = [0]" "drainedWaiters s = []"
    unfolding s_def by code_simp+
  have "pending s ids = False" for ids by (simp add: s_def pending_def laneAt_def)
  then show ?thesis
    using notify_answers_exactly_the_drained [of s] s
    unfolding s_def Let_def by (simp add: comp_def split: list.splits) (auto simp: map_eq_Cons_conv)
qed

text \<open>
  No waiter is forgotten: in a reachable state every \<open>waitForActiveTasks\<close> promise that is still
  unanswered waits for a task that is still active, and the promises handed out are, with
  multiplicity, the waiting and the answered ones, so none is answered twice.
\<close>

theorem waiters_wait_for_active_tasks:
  assumes "queueReachable s"
  shows "list_all (\<lambda>x. \<exists>l st. laneAt s l = Some st \<and>
      set (activeTaskIds st) \<inter> set (waiterTaskIds x) \<noteq> {}) (activeTaskWaiters s) \<and>
    mset (map waiterId (activeTaskWaiters s)) + mset (map fst (drainedWaiters s)) =
      mset [0..<nextWaiter s]"
  using reachable_waiters [OF assms]
  unfolding waitersLive_def waitersCounted_def pending_def list_all_iff by blast

lemma waiters_wait_for_active_tasks_witness:
  "let s = queueRun [Enqueue None 1 ''main'' (plainOptions None), WaitForTasks None,
             WaitForTasks (Some (Finite 0)), ResetLane 4 ''main''] initialQueueState
   in mset (map waiterId (activeTaskWaiters s)) + mset (map fst (drainedWaiters s)) =
      mset [0..<nextWaiter s]"
  unfolding Let_def
  using waiters_wait_for_active_tasks [OF queueReachable_run [OF queueReachable.start]] by blast

text \<open>
  A lane that was recovered ignores what it had started before: whenever, after any further
  events, such a task settles, only its own promise is settled; no active number is freed, no
  waiter is answered and nothing is started on its account.
\<close>

theorem recovered_lane_ignores_old_tasks:
  fixes s :: queue_state
  assumes "laneAt s (normalizeLane lane) = Some st"
    and "find (\<lambda>u. taskId u = i) (running (queueRun es (snd (resetCommandLane now lane s)))) = Some u"
    and "taskLane u = normalizeLane lane" and "taskGeneration u \<le> generation st"
  defines "t \<equiv> queueRun es (snd (resetCommandLane now lane s))"
  shows "finishTask now' i r t =
    t\<lparr>running := filter (\<lambda>v. taskId v \<noteq> i) (running t),
      settled := settled t @ [(entryId (taskEntry u), r)]\<rparr>"
proof -
  let ?l = "normalizeLane lane"
  let ?s1 = "snd (resetCommandLane now lane s)"
  have "Suc (generation st) \<le> laneGeneration ?l ?s1"
    using generations.kept_putLane [of "Suc (generation st)" s ?l ?l "idleLane st"]
      generations.kept_drainLane [of "Suc (generation st)" "putLane ?l (idleLane st) s" ?l now ?l]
      assms(1)
    by (auto simp: resetCommandLane_def Let_def laneGeneration_def)
  also have "\<dots> \<le> laneGeneration ?l t"
    unfolding t_def queueRun_def by (rule stale_task.generation_mono_run)
  finally have "taskGeneration u \<noteq> laneGeneration ?l (t\<lparr>running := x\<rparr>)" for x
    using assms(4) by (simp add: laneGeneration_def)
  then have "completeTask ?l i (taskGeneration u) (t\<lparr>running := x\<rparr>) = (t\<lparr>running := x\<rparr>, False)" for x
    by (rule stale_task.stale_noop)
  then show ?thesis
    using assms(2,3) by (simp add: finishTask_def Let_def flip: t_def)
qed

lemma recovered_lane_ignores_old_tasks_witness:
  "let s = queueRun [Enqueue None 1 ''main'' (plainOptions None),
             Enqueue None 2 ''main'' (plainOptions None)] initialQueueState;
       t = queueRun [] (snd (resetCommandLane 3 ''main'' s))
   in map taskId (running t) = [1, 2] \<and> lanes (finishTask 4 1 (Fulfilled 9) t) = lanes t"
proof -
  define s where "s = queueRun [Enqueue None 1 ''main'' (plainOptions None),
             Enqueue None 2 ''main'' (plainOptions None)] initialQueueState"
  define t where "t = queueRun [] (snd (resetCommandLane 3 ''main'' s))"
  have st: "map_option generation (laneAt s (normalizeLane ''main'')) = Some 0"
    unfolding s_def by code_simp
  have t: "map taskId (running t) = [1, 2]"
    unfolding t_def s_def by code_simp
  have u: "map_option (\<lambda>u. (taskLane u, taskGeneration u)) (find (\<lambda>u. taskId u = 1) (running t)) =
      Some (normalizeLane ''main'', 0)"
    unfolding t_def s_def by code_simp
  obtain x where x: "laneAt s (normalizeLane ''main'') = Some x" "generation x = 0"
    using st by auto
  obtain v where v: "find (\<lambda>u. taskId u = 1) (running t) = Some v"
      "taskLane v = normalizeLane ''main''" "taskGeneration v \<le> generation x"
    using u x(2) by auto
  from recovered_lane_ignores_old_tasks [OF x(1) v(1) [unfolded t_def] v(2,3), of 4 "Fulfilled 9"] t
  show ?thesis by (simp add: t_def s_def Let_def)
qed

text \<open>
  After \<open>markGatewayDraining\<close>, and until the gateway's admission is reset, every enqueue is
  refused: its promise is rejected with the draining error and no lane, running task or sequence
  number changes, whatever happened in between and whichever root the caller belongs to.
\<close>

theorem draining_gateway_refuses_commands:
  fixes s :: queue_state
  assumes "list_all (\<lambda>e. \<not> reopens e) es"
  defines "t \<equiv> queueRun es (markGatewayDraining s)"
  shows "enqueueCommandInLane current now lane opts t =
    t\<lparr>nextEntry := Suc (nextEntry t), settled := settled t @ [(nextEntry t, GatewayDraining)]\<rparr>"
proof -
  have "restartDraining (admission t)"
    unfolding t_def by (rule admission_run [OF assms(1) markGatewayDraining_drains])
  then show ?thesis
    by (simp add: enqueueCommandInLane_def Let_def isGatewaySubordinateWorkAdmissionClosed_def)
qed

lemma draining_gateway_refuses_commands_witness:
  "let t = queueRun [SetConcurrency 1 ''main'' (Finite 4),
             AdmissionEvent RollbackRestartSignalFence] (markGatewayDraining initialQueueState)
   in settled (enqueueCommandInLane None 2 ''main'' (plainOptions None) t) = [(0, GatewayDraining)]"
proof -
  let ?t = "queueRun [SetConcurrency 1 ''main'' (Finite 4),
             AdmissionEvent RollbackRestartSignalFence] (markGatewayDraining initialQueueState)"
  have "settled ?t = []" "nextEntry ?t = 0" by code_simp+
  then show ?thesis
    using draining_gateway_refuses_commands [of "[SetConcurrency 1 ''main'' (Finite 4),
        AdmissionEvent RollbackRestartSignalFence]" None 2 "''main''" "plainOptions None" initialQueueState]
    by (simp add: reopens_def Let_def)
qed

end
