(* ===== verification/CommandTimeout.thy ===== *)
theory CommandTimeout
  imports CommandQueue
begin

text \<open>
  The caller-owned timeout of a started command: \<open>runQueueEntryTask\<close> of
  \<open>src/process/command-queue.ts\<close>, and \<open>CommandLaneTaskTimeoutError\<close> with its recognizer.

  \<open>task_timer\<close> is the closure state of the timeout promise: the armed \<open>setTimeout\<close> (with the time
  it is due), the listeners on the two signals, and the rejection, if any.  The \<open>finally\<close> block
  that clears the timer and the listeners is part of the rejection.  A callback result is an
  argument of the event that calls it; a callback that throws answers \<open>None\<close>.
\<close>

section \<open>The timeout error\<close>

datatype timeout_cause = TaskBudget | ProgressIdle int | AbortGrace int | ReleaseSignal

definition timeoutDetails :: "timeout_cause \<Rightarrow> int \<Rightarrow> int \<Rightarrow> string" where
  "timeoutDetails cause elapsedMs taskBudgetMs =
     (case cause of
        TaskBudget \<Rightarrow> ''elapsed '' @ js_String (JsInt elapsedMs) @ ''ms reached task budget '' @
          js_String (JsInt taskBudgetMs) @ ''ms''
      | ProgressIdle idleMs \<Rightarrow> ''no progress for '' @ js_String (JsInt idleMs) @ ''ms (task budget '' @
          js_String (JsInt taskBudgetMs) @ ''ms, elapsed '' @ js_String (JsInt elapsedMs) @ ''ms)''
      | AbortGrace graceMs \<Rightarrow> ''abort grace '' @ js_String (JsInt graceMs) @ ''ms elapsed (task budget '' @
          js_String (JsInt taskBudgetMs) @ ''ms, elapsed '' @ js_String (JsInt elapsedMs) @ ''ms)''
      | ReleaseSignal \<Rightarrow> ''lane release requested after '' @ js_String (JsInt elapsedMs) @
          ''ms (task budget '' @ js_String (JsInt taskBudgetMs) @ ''ms)'')"

definition quotedLane :: "string \<Rightarrow> string" where
  "quotedLane lane = ''Command lane '' @ CHR 0x22 # lane @ CHR 0x22 # '' task timed out''"

text \<open>An error object: its class, name and message.\<close>

datatype error_class = CommandLaneTaskTimeout | OtherError

record js_error =
  errorClass :: error_class
  errorName :: string
  errorMessage :: string

definition CommandLaneTaskTimeoutError :: "string \<Rightarrow> timeout_cause \<Rightarrow> int \<Rightarrow> int \<Rightarrow> js_error" where
  "CommandLaneTaskTimeoutError lane cause elapsedMs taskBudgetMs =
     \<lparr>errorClass = CommandLaneTaskTimeout, errorName = ''CommandLaneTaskTimeoutError'',
      errorMessage = quotedLane lane @ '': '' @ timeoutDetails cause elapsedMs taskBudgetMs\<rparr>"

text \<open>The argument is \<open>None\<close> when the rejection is not an \<open>Error\<close>.\<close>

definition isCommandLaneTaskTimeoutError :: "js_error option \<Rightarrow> string option \<Rightarrow> bool" where
  "isCommandLaneTaskTimeoutError err lane =
     (case err of
        None \<Rightarrow> False
      | Some e \<Rightarrow>
          if \<not> (errorClass e = CommandLaneTaskTimeout \<or>
                errorName e = ''CommandLaneTaskTimeoutError'') then False
          else (case lane of None \<Rightarrow> True | Some l \<Rightarrow> sublist (quotedLane l) (errorMessage e)))"

section \<open>Timers\<close>

record timer_config =
  timeoutMs :: int
  abortGraceMs :: int
  progressCallback :: bool
  abortSignal :: bool
  releaseSignal :: bool

datatype armed_timer = ProgressTimer ms | AbortTimer ms ms

record task_timer =
  startedAtMs :: ms
  timeoutHandle :: "armed_timer option"
  abortListener :: bool
  releaseListener :: bool
  timedOut :: "(timeout_cause \<times> int) option"

text \<open>
  The configuration of an entry; \<open>None\<close> when it has no timeout and the task alone decides.
\<close>

definition timerConfig :: "queue_entry \<Rightarrow> timer_config option" where
  "timerConfig entry =
     (let normalize = (\<lambda>v. normalizeTaskTimeoutMs (map_option (\<lambda>i. Finite (of_int i)) v))
      in case normalize (taskTimeoutMs entry) of
           None \<Rightarrow> None
         | Some t \<Rightarrow> Some
             \<lparr>timeoutMs = t, abortGraceMs = nullish (normalize (taskTimeoutAbortGraceMs entry)) t,
              progressCallback = hasProgressCallback entry,
              abortSignal = (taskTimeoutAbortSignal entry \<noteq> None),
              releaseSignal = (taskTimeoutReleaseSignal entry \<noteq> None)\<rparr>)"

definition readLastProgressAtMs :: "js_number option \<Rightarrow> timer_config \<Rightarrow> task_timer \<Rightarrow> ms" where
  "readLastProgressAtMs reported cfg st =
     (case (if progressCallback cfg then reported else None) of
        Some (Finite q) \<Rightarrow> if q > 0 then max (startedAtMs st) \<lfloor>q\<rfloor> else startedAtMs st
      | _ \<Rightarrow> startedAtMs st)"

definition rejectForTimeout :: "ms \<Rightarrow> timeout_cause \<Rightarrow> task_timer \<Rightarrow> task_timer" where
  "rejectForTimeout now cause st =
     st\<lparr>timedOut := Some (cause, max 0 (now - startedAtMs st)),
        timeoutHandle := None, abortListener := False, releaseListener := False\<rparr>"

definition armProgressTimeout ::
    "ms \<Rightarrow> js_number option \<Rightarrow> timer_config \<Rightarrow> task_timer \<Rightarrow> task_timer" where
  "armProgressTimeout now reported cfg st =
     (let elapsedMs = max 0 (now - readLastProgressAtMs reported cfg st);
          remainingMs = timeoutMs cfg - elapsedMs
      in if remainingMs \<le> 0
         then rejectForTimeout now
                (if progressCallback cfg then ProgressIdle elapsedMs else TaskBudget) st
         else st\<lparr>timeoutHandle := Some (ProgressTimer (now + remainingMs))\<rparr>)"

definition armAbortTimeout :: "ms \<Rightarrow> timer_config \<Rightarrow> task_timer \<Rightarrow> task_timer" where
  "armAbortTimeout now cfg st =
     (if abortGraceMs cfg \<le> 0 then rejectForTimeout now (AbortGrace 0) st
      else st\<lparr>timeoutHandle := Some (AbortTimer (now + abortGraceMs cfg) now)\<rparr>)"

text \<open>
  The executor of the timeout promise: \<open>releaseAborted\<close> and \<open>abortAborted\<close> are the signals' states when the
  task starts.  An already aborted signal returns before either listener is added.
\<close>

definition startTimer ::
    "ms \<Rightarrow> bool \<Rightarrow> bool \<Rightarrow> js_number option \<Rightarrow> timer_config \<Rightarrow> task_timer" where
  "startTimer now releaseAborted abortAborted reported cfg =
     (let st = \<lparr>startedAtMs = now, timeoutHandle = None, abortListener = False,
                releaseListener = False, timedOut = None\<rparr>
      in if releaseSignal cfg \<and> releaseAborted then rejectForTimeout now ReleaseSignal st
         else if abortSignal cfg \<and> abortAborted then armAbortTimeout now cfg st
         else
           let st1 = armProgressTimeout now reported cfg st
           in if timedOut st1 \<noteq> None then st1
              else st1\<lparr>abortListener := abortSignal cfg, releaseListener := releaseSignal cfg\<rparr>)"

datatype timer_event =
    TimerFires ms "js_number option"
  | AbortSignalled ms
  | ReleaseSignalled ms

text \<open>\<open>setTimeout\<close> calls back no earlier than the time due; an earlier instant is a stutter.\<close>

fun timerStep :: "timer_config \<Rightarrow> timer_event \<Rightarrow> task_timer \<Rightarrow> task_timer" where
  "timerStep cfg (TimerFires now reported) st =
     (case timeoutHandle st of
        None \<Rightarrow> st
      | Some (ProgressTimer due) \<Rightarrow>
          if now < due then st
          else armProgressTimeout now reported cfg (st\<lparr>timeoutHandle := None\<rparr>)
      | Some (AbortTimer due abortStartedAtMs) \<Rightarrow>
          if now < due then st
          else rejectForTimeout now (AbortGrace (max 0 (now - abortStartedAtMs))) st)"
| "timerStep cfg (AbortSignalled now) st =
     (if abortListener st then armAbortTimeout now cfg (st\<lparr>abortListener := False\<rparr>) else st)"
| "timerStep cfg (ReleaseSignalled now) st =
     (if releaseListener st then rejectForTimeout now ReleaseSignal st else st)"

definition timerRun :: "timer_config \<Rightarrow> timer_event list \<Rightarrow> task_timer \<Rightarrow> task_timer" where
  "timerRun cfg es st = fold (timerStep cfg) es st"

lemma timerRun_simps [simp]:
  "timerRun cfg [] st = st"
  "timerRun cfg (e # es) st = timerRun cfg es (timerStep cfg e st)"
  by (simp_all add: timerRun_def)

section \<open>Invariants\<close>

lemmas timer_defs =
  rejectForTimeout_def armProgressTimeout_def armAbortTimeout_def

lemma timerConfig_positive:
  "timerConfig entry = Some cfg \<Longrightarrow> 0 < timeoutMs cfg \<and> 0 < abortGraceMs cfg"
proof -
  have pos: "normalizeTaskTimeoutMs v = Some t \<Longrightarrow> 0 < t" for v t
    using clampPositiveTimerTimeoutMs_range
    by (fastforce simp: normalizeTaskTimeoutMs_def split: option.splits js_number.splits if_splits)
  assume "timerConfig entry = Some cfg"
  then show ?thesis
    by (auto simp: timerConfig_def Let_def nullish_def split: option.splits dest: pos)
qed

text \<open>
  Until the task is timed out a timer is armed, afterwards nothing is left of the timeout; an
  abort timer is due a whole grace period after the abort; and a rejection for lack of time tells
  a time that really was spent.
\<close>

definition timerInv :: "timer_config \<Rightarrow> task_timer \<Rightarrow> bool" where
  "timerInv cfg st \<longleftrightarrow>
     (timedOut st = None \<longleftrightarrow> timeoutHandle st \<noteq> None) \<and>
     (case timeoutHandle st of
        Some (AbortTimer due abortedAt) \<Rightarrow> due = abortedAt + abortGraceMs cfg
      | Some (ProgressTimer due) \<Rightarrow> True
      | None \<Rightarrow> \<not> abortListener st \<and> \<not> releaseListener st) \<and>
     (case timedOut st of
        Some (TaskBudget, elapsed) \<Rightarrow> timeoutMs cfg \<le> elapsed
      | Some (ProgressIdle idle, elapsed) \<Rightarrow> timeoutMs cfg \<le> idle \<and> idle \<le> elapsed
      | Some (AbortGrace g, elapsed) \<Rightarrow> abortGraceMs cfg \<le> g
      | _ \<Rightarrow> True)"

lemma readLastProgressAtMs_ge: "startedAtMs st \<le> readLastProgressAtMs reported cfg st"
  by (auto simp: readLastProgressAtMs_def split: option.splits js_number.splits)

lemma readLastProgressAtMs_none:
  "\<not> progressCallback cfg \<Longrightarrow> readLastProgressAtMs reported cfg st = startedAtMs st"
  by (simp add: readLastProgressAtMs_def)

lemma timerInv_arm_progress:
  assumes "timedOut st = None" and "0 < timeoutMs cfg"
  shows "timerInv cfg (armProgressTimeout now reported cfg st)"
  using assms readLastProgressAtMs_ge [of st reported cfg]
    readLastProgressAtMs_none [of cfg reported st]
  by (auto simp: timerInv_def timer_defs Let_def)

lemma timerInv_arm_abort:
  "timedOut st = None \<Longrightarrow> 0 < abortGraceMs cfg \<Longrightarrow> timerInv cfg (armAbortTimeout now cfg st)"
  by (simp add: timerInv_def timer_defs)

lemma timerInv_release: "timerInv cfg (rejectForTimeout now ReleaseSignal st)"
  by (simp add: timerInv_def timer_defs)

lemma timerInv_start:
  assumes "0 < timeoutMs cfg" "0 < abortGraceMs cfg"
  shows "timerInv cfg (startTimer now r a reported cfg)"
proof -
  have "timerInv cfg st \<Longrightarrow> timedOut st = None \<Longrightarrow>
      timerInv cfg (st\<lparr>abortListener := x, releaseListener := y\<rparr>)" for st x y
    by (auto simp: timerInv_def split: option.splits)
  then show ?thesis
    using assms timerInv_arm_progress timerInv_arm_abort timerInv_release
    by (cases "timedOut (armProgressTimeout now reported cfg \<lparr>startedAtMs = now,
          timeoutHandle = None, abortListener = False, releaseListener = False, timedOut = None\<rparr>)")
      (simp_all add: startTimer_def Let_def)
qed

lemma timerInv_step:
  assumes inv: "timerInv cfg st" and "0 < timeoutMs cfg" "0 < abortGraceMs cfg"
  shows "timerInv cfg (timerStep cfg e st)"
proof (cases e)
  case (TimerFires now reported)
  show ?thesis
  proof (cases "timeoutHandle st")
    case None
    with inv TimerFires show ?thesis by simp
  next
    case (Some h)
    then have live: "timedOut st = None" using inv by (simp add: timerInv_def)
    show ?thesis
    proof (cases h)
      case (ProgressTimer due)
      then show ?thesis
        using TimerFires Some inv live assms(2) timerInv_arm_progress by simp
    next
      case (AbortTimer due a)
      have "due = a + abortGraceMs cfg"
        using inv by (simp add: timerInv_def Some AbortTimer)
      then have "timerInv cfg (rejectForTimeout now (AbortGrace (max 0 (now - a))) st)" if "due \<le> now"
        using that by (simp add: timerInv_def rejectForTimeout_def)
      then show ?thesis using TimerFires Some AbortTimer inv by simp
    qed
  qed
next
  case (AbortSignalled now)
  have "timedOut st = None" if "abortListener st"
    using inv that by (auto simp: timerInv_def split: option.splits)
  then show ?thesis
    using AbortSignalled inv assms(3) timerInv_arm_abort by simp
next
  case (ReleaseSignalled now)
  then show ?thesis using inv timerInv_release by simp
qed

lemma timerInv_run:
  "timerInv cfg st \<Longrightarrow> 0 < timeoutMs cfg \<Longrightarrow> 0 < abortGraceMs cfg \<Longrightarrow>
   timerInv cfg (timerRun cfg es st)"
  by (induction es arbitrary: st) (simp_all add: timerInv_step)

lemma timerInv_entry:
  "timerConfig entry = Some cfg \<Longrightarrow> timerInv cfg (timerRun cfg es (startTimer now r a reported cfg))"
  using timerConfig_positive timerInv_run timerInv_start by blast

section \<open>Properties\<close>

text \<open>
  C39. A command with a timeout is never timed out early, and cannot hold its lane for ever.  In
  every run of its timer, as long as it is not timed out a timer is armed; a rejection for the
  task budget, for idleness or for the abort grace reports a time of at least that budget, idle
  budget or grace.
\<close>

theorem timeout_neither_early_nor_lost:
  assumes "timerConfig entry = Some cfg"
  shows "let st = timerRun cfg es (startTimer now r a reported cfg) in (timedOut st = None \<longleftrightarrow> timeoutHandle st \<noteq> None) \<and>
    (case timedOut st of
       Some (TaskBudget, elapsed) \<Rightarrow> timeoutMs cfg \<le> elapsed
     | Some (ProgressIdle idle, elapsed) \<Rightarrow> timeoutMs cfg \<le> idle \<and> idle \<le> elapsed
     | Some (AbortGrace g, elapsed) \<Rightarrow> abortGraceMs cfg \<le> g
     | _ \<Rightarrow> True)"
  using timerInv_entry [OF assms(1), of es now r a reported] unfolding Let_def timerInv_def by blast

definition timedEntry :: queue_entry where
  "timedEntry = \<lparr>entryId = 0, enqueuedAt = 0, sequence = 1, priority = 0, warnAfterMs = 2000,
     queuedAheadAtEnqueue = 0, activeAheadAtEnqueue = 0, taskTimeoutMs = Some 100,
     hasProgressCallback = True, taskTimeoutAbortSignal = Some 0, taskTimeoutAbortGraceMs = Some 30,
     taskTimeoutReleaseSignal = Some 1, onWait = False\<rparr>"

definition timedConfig :: timer_config where
  "timedConfig = \<lparr>timeoutMs = 100, abortGraceMs = 30, progressCallback = True, abortSignal = True,
     releaseSignal = True\<rparr>"

lemma timerConfig_timedEntry: "timerConfig timedEntry = Some timedConfig"
  by (simp add: timerConfig_def timedEntry_def timedConfig_def normalizeTaskTimeoutMs_def
      clampPositiveTimerTimeoutMs_def clampTimerTimeoutMs_def asFiniteNumber_def Let_def
      MAX_TIMER_TIMEOUT_MS_def)

lemma timeout_neither_early_nor_lost_witness:
  "let st = timerRun timedConfig [TimerFires 1100 (Some (Finite 1050)), TimerFires 1200 None]
             (startTimer 1000 False False None timedConfig)
   in timedOut st = Some (ProgressIdle 200, 200) \<and> (timedOut st = None \<longleftrightarrow> timeoutHandle st \<noteq> None)"
proof -
  have "timedOut (timerRun timedConfig [TimerFires 1100 (Some (Finite 1050)), TimerFires 1200 None]
             (startTimer 1000 False False None timedConfig)) = Some (ProgressIdle 200, 200)"
    by code_simp
  with timeout_neither_early_nor_lost [OF timerConfig_timedEntry,
      of "[TimerFires 1100 (Some (Finite 1050)), TimerFires 1200 None]" 1000 False False None]
  show ?thesis by (simp only: Let_def simp_thms)
qed

text \<open>
  When the armed timer of a command fires at or after the time it is due, the command is
  timed out unless the progress it reported is more recent than its budget; then the timer is
  armed again for the rest of the budget, counted from that progress.
\<close>

theorem due_timer_times_out_idle_command:
  assumes "timeoutHandle st = Some (ProgressTimer due)" and "due \<le> now"
  shows "if now - readLastProgressAtMs reported cfg st < timeoutMs cfg \<and> 0 < timeoutMs cfg
    then timerStep cfg (TimerFires now reported) st =
      st\<lparr>timeoutHandle := Some (ProgressTimer
           (min now (readLastProgressAtMs reported cfg st) + timeoutMs cfg))\<rparr>
    else timedOut (timerStep cfg (TimerFires now reported) st) \<noteq> None"
proof -
  have "readLastProgressAtMs reported cfg (st\<lparr>timeoutHandle := None\<rparr>) =
      readLastProgressAtMs reported cfg st"
    by (auto simp: readLastProgressAtMs_def split: option.splits js_number.splits)
  then show ?thesis
    using assms by (auto simp: armProgressTimeout_def rejectForTimeout_def Let_def min_def max_def)
qed

lemma due_timer_times_out_idle_command_witness:
  "timedOut (timerStep timedConfig (TimerFires 1100 None)
     (startTimer 1000 False False None timedConfig)) \<noteq> None"
proof -
  have "timeoutHandle (startTimer 1000 False False None timedConfig) = Some (ProgressTimer 1100)"
    "\<not> 1100 - readLastProgressAtMs None timedConfig (startTimer 1000 False False None timedConfig) <
       timeoutMs timedConfig"
    by code_simp+
  with due_timer_times_out_idle_command [OF this(1), of 1100 None timedConfig] show ?thesis by simp
qed

text \<open>
  The release signal ends a running command at once, unless the command was started with its
  abort signal already aborted: then the executor returns before it listens to the release signal,
  and the signal has no effect; only the grace timer is left.
\<close>

theorem release_signal_after_early_abort_is_lost:
  assumes "abortSignal cfg" and "0 < abortGraceMs cfg"
  shows "timerRun cfg (map ReleaseSignalled ts) (startTimer now False True reported cfg) =
    startTimer now False True reported cfg \<and>
    timeoutHandle (startTimer now False True reported cfg) =
      Some (AbortTimer (now + abortGraceMs cfg) now)"
proof -
  have "releaseListener (startTimer now False True reported cfg) = False"
    using assms by (simp add: startTimer_def armAbortTimeout_def Let_def)
  then have "timerRun cfg (map ReleaseSignalled ts) (startTimer now False True reported cfg) =
      startTimer now False True reported cfg"
    by (induction ts) simp_all
  then show ?thesis
    using assms by (simp add: startTimer_def armAbortTimeout_def Let_def)
qed

lemma release_signal_after_early_abort_is_lost_witness:
  "timerRun timedConfig [ReleaseSignalled 1001] (startTimer 1000 False True None timedConfig) =
     startTimer 1000 False True None timedConfig \<and>
   timedOut (timerRun timedConfig [ReleaseSignalled 1001]
     (startTimer 1000 False False None timedConfig)) = Some (ReleaseSignal, 1)"
proof -
  have "abortSignal timedConfig" "0 < abortGraceMs timedConfig" by (simp_all add: timedConfig_def)
  from release_signal_after_early_abort_is_lost [OF this, of "[1001]" 1000 None]
  have "timerRun timedConfig [ReleaseSignalled 1001] (startTimer 1000 False True None timedConfig) =
     startTimer 1000 False True None timedConfig" by simp
  moreover have "timedOut (timerRun timedConfig [ReleaseSignalled 1001]
     (startTimer 1000 False False None timedConfig)) = Some (ReleaseSignal, 1)"
    by code_simp
  ultimately show ?thesis by blast
qed

text \<open>
  A timeout error is recognized, with or without its lane, whatever the cause.
\<close>

lemma timeout_error_recognized:
  "isCommandLaneTaskTimeoutError (Some (CommandLaneTaskTimeoutError lane cause e b)) (Some lane)"
  "isCommandLaneTaskTimeoutError (Some (CommandLaneTaskTimeoutError lane cause e b)) None"
  by (auto simp: isCommandLaneTaskTimeoutError_def CommandLaneTaskTimeoutError_def sublist_def)

end
