(* ===== verification/QueueMigration.thy ===== *)
theory QueueMigration
  imports CommandQueueProofs
begin

text \<open>
  The schema migration every access to the queue runs: \<open>getQueueState\<close> of
  \<open>src/process/command-queue.ts\<close>.  An in-process restart can hand the module a singleton whose
  entries lack the fields later versions added; here those fields are options.  The last lemma
  shows that on the states of \<open>CommandQueue\<close> the migration does nothing, which is why that
  theory omits it.
\<close>

record stale_entry =
  staleId :: nat
  stalePriority :: "int option"
  staleSequence :: "nat option"
  staleQueuedAhead :: "nat option"
  staleActiveAhead :: "nat option"

record stale_lane =
  staleQueue :: "stale_entry list"
  staleActive :: nat

record stale_state =
  staleLanes :: "stale_lane list"
  staleNextSequence :: "nat option"

text \<open>One entry; the pair is \<open>nextQueueSequence\<close> and \<open>maxQueueSequence\<close>.\<close>

definition migrateEntry ::
    "nat \<Rightarrow> nat \<Rightarrow> stale_entry \<Rightarrow> nat \<times> nat \<Rightarrow> stale_entry \<times> nat \<times> nat" where
  "migrateEntry activeSize index entry counters =
     (let (next, maxSeq) = counters;
          e1 = entry\<lparr>stalePriority := Some (nullish (stalePriority entry) 0)\<rparr>;
          (e2, next1, max1) =
            (case staleSequence e1 of
               None \<Rightarrow> (e1\<lparr>staleSequence := Some next\<rparr>, Suc next, maxSeq)
             | Some q \<Rightarrow> (e1, next, max maxSeq q));
          e3 = e2\<lparr>staleQueuedAhead := Some (nullish (staleQueuedAhead e2) index)\<rparr>;
          e4 = e3\<lparr>staleActiveAhead := Some (nullish (staleActiveAhead e3) activeSize)\<rparr>
      in (e4, next1, max1))"

fun migrateEntries ::
    "nat \<Rightarrow> nat \<Rightarrow> stale_entry list \<Rightarrow> nat \<times> nat \<Rightarrow> stale_entry list \<times> nat \<times> nat" where
  "migrateEntries activeSize index [] counters = ([], counters)"
| "migrateEntries activeSize index (e # es) counters =
     (let (e1, c1) = migrateEntry activeSize index e counters;
          (es1, c2) = migrateEntries activeSize (Suc index) es c1
      in (e1 # es1, c2))"

fun migrateLanes :: "stale_lane list \<Rightarrow> nat \<times> nat \<Rightarrow> stale_lane list \<times> nat \<times> nat" where
  "migrateLanes [] counters = ([], counters)"
| "migrateLanes (l # ls) counters =
     (let (q, c1) = migrateEntries (staleActive l) 0 (staleQueue l) counters;
          (ls1, c2) = migrateLanes ls c1
      in (l\<lparr>staleQueue := q\<rparr> # ls1, c2))"

text \<open>A missing or zero counter starts at 1.\<close>

definition getQueueState :: "stale_state \<Rightarrow> stale_state" where
  "getQueueState s =
     (let next = (case staleNextSequence s of None \<Rightarrow> 1 | Some n \<Rightarrow> if n = 0 then 1 else n);
          (ls, next1, maxSeq) = migrateLanes (staleLanes s) (next, next - 1);
          next2 = (if next1 \<le> maxSeq then maxSeq + 1 else next1)
      in s\<lparr>staleLanes := ls, staleNextSequence := Some next2\<rparr>)"

section \<open>Lemmas\<close>

definition migrated :: "stale_entry \<Rightarrow> bool" where
  "migrated e \<longleftrightarrow> stalePriority e \<noteq> None \<and> staleSequence e \<noteq> None \<and>
     staleQueuedAhead e \<noteq> None \<and> staleActiveAhead e \<noteq> None"

definition sequenceBelow :: "nat \<Rightarrow> stale_entry \<Rightarrow> bool" where
  "sequenceBelow n e \<longleftrightarrow> (\<exists>q. staleSequence e = Some q \<and> q < n)"

lemma sequenceBelow_mono: "sequenceBelow m e \<Longrightarrow> m \<le> n \<Longrightarrow> sequenceBelow n e"
  by (auto simp: sequenceBelow_def)

text \<open>
  Counters only grow, and every migrated entry is numbered below the larger of the next sequence
  and one more than the maximum.
\<close>

lemma migrateEntry_bounds:
  assumes "migrateEntry a i e (n, m) = (e', n', m')"
  shows "n \<le> n' \<and> m \<le> m' \<and> migrated e' \<and> sequenceBelow (max n' (Suc m')) e' \<and>
    staleId e' = staleId e"
  using assms
  by (auto simp: migrateEntry_def Let_def migrated_def sequenceBelow_def split: option.splits)

lemma migrateEntries_bounds:
  "migrateEntries a i es (n, m) = (es', n', m') \<Longrightarrow>
   n \<le> n' \<and> m \<le> m' \<and> (\<forall>e \<in> set es'. migrated e \<and> sequenceBelow (max n' (Suc m')) e) \<and>
   map staleId es' = map staleId es"
proof (induction es arbitrary: i n m es' n' m')
  case Nil
  then show ?case by simp
next
  case (Cons e es)
  obtain e1 n1 m1 where one: "migrateEntry a i e (n, m) = (e1, n1, m1)" by (metis prod_cases3)
  obtain es1 n2 m2 where rest: "migrateEntries a (Suc i) es (n1, m1) = (es1, n2, m2)"
    by (metis prod_cases3)
  have res: "es' = e1 # es1" "n' = n2" "m' = m2" using Cons.prems one rest by simp_all
  note B = migrateEntry_bounds [OF one] and R = Cons.IH [OF rest]
  have "sequenceBelow (max n2 (Suc m2)) e1"
    by (rule sequenceBelow_mono [of "max n1 (Suc m1)"]) (use B R in auto)
  then show ?case using B R res by auto
qed

lemma migrateLanes_bounds:
  "migrateLanes ls (n, m) = (ls', n', m') \<Longrightarrow>
   n \<le> n' \<and> m \<le> m' \<and>
   (\<forall>l \<in> set ls'. \<forall>e \<in> set (staleQueue l). migrated e \<and> sequenceBelow (max n' (Suc m')) e) \<and>
   map (\<lambda>l. map staleId (staleQueue l)) ls' = map (\<lambda>l. map staleId (staleQueue l)) ls"
proof (induction ls arbitrary: n m ls' n' m')
  case Nil
  then show ?case by simp
next
  case (Cons l ls)
  obtain q n1 m1 where one: "migrateEntries (staleActive l) 0 (staleQueue l) (n, m) = (q, n1, m1)"
    by (metis prod_cases3)
  obtain ls1 n2 m2 where rest: "migrateLanes ls (n1, m1) = (ls1, n2, m2)" by (metis prod_cases3)
  have res: "ls' = l\<lparr>staleQueue := q\<rparr> # ls1" "n' = n2" "m' = m2"
    using Cons.prems one rest by simp_all
  note B = migrateEntries_bounds [OF one] and R = Cons.IH [OF rest]
  have "max n1 (Suc m1) \<le> max n2 (Suc m2)" using R by auto
  then have "\<forall>e \<in> set q. migrated e \<and> sequenceBelow (max n2 (Suc m2)) e"
    using B sequenceBelow_mono by blast
  then show ?case using B R res by auto
qed

text \<open>On entries that have every field, and sequences below the counter, nothing changes.\<close>

definition currentLane :: "nat \<Rightarrow> stale_lane \<Rightarrow> bool" where
  "currentLane n l \<longleftrightarrow> (\<forall>e \<in> set (staleQueue l). migrated e \<and> sequenceBelow n e)"

lemma migrateEntry_current:
  "migrated e \<Longrightarrow> sequenceBelow n e \<Longrightarrow> migrateEntry a i e (n, n - 1) = (e, n, n - 1)"
  by (cases e) (auto simp: migrateEntry_def Let_def migrated_def sequenceBelow_def max_def)

lemma migrateEntries_current:
  "\<forall>e \<in> set es. migrated e \<and> sequenceBelow n e \<Longrightarrow>
   migrateEntries a i es (n, n - 1) = (es, n, n - 1)"
proof (induction es arbitrary: i)
  case (Cons e es)
  have "migrateEntry a i e (n, n - 1) = (e, n, n - 1)"
    using Cons.prems by (intro migrateEntry_current) simp_all
  with Cons show ?case by simp
qed simp

lemma migrateLanes_current:
  "\<forall>l \<in> set ls. currentLane n l \<Longrightarrow> migrateLanes ls (n, n - 1) = (ls, n, n - 1)"
proof (induction ls)
  case (Cons l ls)
  have "migrateEntries (staleActive l) 0 (staleQueue l) (n, n - 1) = (staleQueue l, n, n - 1)"
    using Cons.prems by (intro migrateEntries_current) (simp add: currentLane_def)
  with Cons show ?case by simp
qed simp

text \<open>A state of \<open>CommandQueue\<close> read as a singleton.\<close>

definition toStaleEntry :: "queue_entry \<Rightarrow> stale_entry" where
  "toStaleEntry e = \<lparr>staleId = entryId e, stalePriority = Some (priority e),
     staleSequence = Some (sequence e), staleQueuedAhead = Some (queuedAheadAtEnqueue e),
     staleActiveAhead = Some (activeAheadAtEnqueue e)\<rparr>"

definition toStaleState :: "queue_state \<Rightarrow> stale_state" where
  "toStaleState s = \<lparr>staleLanes =
       map (\<lambda>(_, st). \<lparr>staleQueue = map toStaleEntry (queue st),
                       staleActive = length (activeTaskIds st)\<rparr>) (lanes s),
     staleNextSequence = Some (nextQueueSequence s)\<rparr>"

lemma nextQueueSequence_fields [simp]:
  "nextQueueSequence (pump now l s) = nextQueueSequence s"
  "nextQueueSequence (drainLane now l s) = nextQueueSequence s"
proof -
  show pump: "nextQueueSequence (pump now l s) = nextQueueSequence s" for l s
    by (simp add: pump_def split: option.splits prod.splits)
  show "nextQueueSequence (drainLane now l s) = nextQueueSequence s"
    by (auto simp: drainLane_def getLaneState_def pump split: option.splits)
qed

lemma nextQueueSequence_mono: "nextQueueSequence s \<le> nextQueueSequence (queueStep e s)"
proof -
  have "nextQueueSequence (fold (drainLane now) ls t) = nextQueueSequence t" for now ls t
    by (induction ls arbitrary: t) simp_all
  then show ?thesis
    by (cases e) (auto simp: enqueueCommandInLane_def getLaneState_def finishTask_def
        completeTask_def setCommandLaneConcurrency_def clearCommandLane_def resetCommandLane_def
        resetAllLanes_eq waitForActiveTasks_def resolveActiveTaskWaiter_def Let_def
        split: option.splits prod.splits)
qed

lemma reachable_sequence_positive: "queueReachable s \<Longrightarrow> 0 < nextQueueSequence s"
proof (induction rule: queueReachable.induct)
  case start
  show ?case by (simp add: initialQueueState_def)
next
  case (step s e)
  then show ?case using nextQueueSequence_mono order.strict_trans2 by blast
qed

section \<open>Properties\<close>

text \<open>
  C40. After the migration every queued entry has a priority, a sequence and its two counts, and
  its sequence is below the next one handed out, so a later command of the same priority queues
  behind it; no entry is dropped, duplicated or moved between lanes.
\<close>

theorem migration_completes_entries:
  "staleNextSequence (getQueueState s) \<noteq> None \<and>
   list_all (\<lambda>l. list_all (\<lambda>e. migrated e \<and>
       sequenceBelow (the (staleNextSequence (getQueueState s))) e) (staleQueue l))
     (staleLanes (getQueueState s)) \<and>
   map (\<lambda>l. map staleId (staleQueue l)) (staleLanes (getQueueState s)) =
     map (\<lambda>l. map staleId (staleQueue l)) (staleLanes s)"
proof -
  define n where "n = (case staleNextSequence s of None \<Rightarrow> 1 | Some n \<Rightarrow> if n = 0 then 1 else n)"
  obtain ls n1 m1 where run: "migrateLanes (staleLanes s) (n, n - 1) = (ls, n1, m1)"
    by (metis prod_cases3)
  have "max n1 (Suc m1) = (if n1 \<le> m1 then m1 + 1 else n1)" by auto
  with migrateLanes_bounds [OF run] run show ?thesis
    by (simp add: getQueueState_def n_def [symmetric] Let_def list_all_iff)
qed

text \<open>
  On the state of a reachable queue the migration is the identity.
\<close>

theorem migration_of_current_state:
  assumes "queueReachable s"
  shows "getQueueState (toStaleState s) = toStaleState s"
proof -
  let ?n = "nextQueueSequence s"
  have inv: "laneInv {} s" by (rule reachable_laneInv [OF assms])
  have "sequence e < ?n" if "(l, st) \<in> set (lanes s)" "e \<in> set (queue st)" for l st e
  proof -
    have "laneAt s l = Some st"
      using that(1) jm_get_in_set [OF laneInv_jm_ok [OF inv]] by (simp add: laneAt_def)
    then show ?thesis using laneInv_D(3) [OF inv] that(2) by (auto simp: orderedQueue_def)
  qed
  then have "\<forall>l \<in> set (staleLanes (toStaleState s)). currentLane ?n l"
    by (fastforce simp: toStaleState_def currentLane_def toStaleEntry_def migrated_def sequenceBelow_def)
  then have "migrateLanes (staleLanes (toStaleState s)) (?n, ?n - 1) =
      (staleLanes (toStaleState s), ?n, ?n - 1)"
    by (rule migrateLanes_current)
  moreover have "0 < ?n" by (rule reachable_sequence_positive [OF assms])
  ultimately show ?thesis
    by (simp add: getQueueState_def Let_def) (simp add: toStaleState_def, linarith)
qed

lemma migration_of_current_state_witness:
  "let s = toStaleState (queueRun [Enqueue None 1 ''main'' (plainOptions None),
             Enqueue None 2 ''main'' (plainOptions None)] initialQueueState)
   in getQueueState s = s"
  unfolding Let_def
  by (rule migration_of_current_state [OF queueReachable_run [OF queueReachable.start]])

end
