(* ===== verification/MentionGating.thy ===== *)
theory MentionGating
  imports Prelude
begin

text \<open>
  \<open>src/channels/mention-gating.ts\<close>: whether a group message that was not addressed to the bot is
  skipped; and \<open>src/channels/command-gating.ts\<close>: whether a text control command is authorized.
\<close>

section \<open>Mention gating\<close>

datatype implicit_mention_kind = ReplyToBot | QuotedBot | BotThreadParticipant | NativeMention

record implicit_mentions_config =
  replyToBot :: "bool option"
  quotedBot :: "bool option"
  threadParticipation :: "bool option"

record mention_facts =
  canDetectMention :: bool
  wasMentioned :: bool
  hasAnyMention :: "bool option"
  implicitMentionKinds :: "implicit_mention_kind list option"

record mention_policy =
  isGroup :: bool
  requireMention :: bool
  implicitMentions :: "implicit_mentions_config option"
  allowedImplicitMentionKinds :: "implicit_mention_kind list option"
  allowTextCommands :: bool
  hasControlCommand :: bool
  commandAuthorized :: bool

record mention_decision =
  implicitMention :: bool
  matchedImplicitMentionKinds :: "implicit_mention_kind list"
  effectiveWasMentioned :: bool
  shouldBypassMention :: bool
  shouldSkip :: bool

definition implicitMentionKindWhen :: "implicit_mention_kind \<Rightarrow> bool \<Rightarrow> implicit_mention_kind list" where
  "implicitMentionKindWhen kind enabled = (if enabled then [kind] else [])"

definition allowedImplicitMentionKindsFromConfig ::
    "implicit_mentions_config \<Rightarrow> implicit_mention_kind list" where
  "allowedImplicitMentionKindsFromConfig config =
     implicitMentionKindWhen ReplyToBot (replyToBot config \<noteq> Some False) @
     implicitMentionKindWhen QuotedBot (quotedBot config \<noteq> Some False) @
     implicitMentionKindWhen BotThreadParticipant (threadParticipation config \<noteq> Some False) @
     [NativeMention]"

fun matchKinds :: "implicit_mention_kind list option \<Rightarrow> implicit_mention_kind list \<Rightarrow>
    implicit_mention_kind list \<Rightarrow> implicit_mention_kind list" where
  "matchKinds allowed [] matched = matched"
| "matchKinds allowed (kind # kinds) matched =
     (if (\<exists>a \<in> set_option allowed. kind \<notin> set a) then matchKinds allowed kinds matched
      else if kind \<in> set matched then matchKinds allowed kinds matched
      else matchKinds allowed kinds (matched @ [kind]))"

definition resolveMatchedImplicitMentionKinds ::
    "implicit_mention_kind list option \<Rightarrow> implicit_mention_kind list option \<Rightarrow>
     implicit_mention_kind list" where
  "resolveMatchedImplicitMentionKinds kinds allowed =
     (let inputKinds = nullish kinds []
      in if inputKinds = [] then [] else matchKinds allowed inputKinds [])"

definition resolveMentionDecisionCore ::
    "bool \<Rightarrow> bool \<Rightarrow> bool \<Rightarrow> implicit_mention_kind list option \<Rightarrow>
     implicit_mention_kind list option \<Rightarrow> bool \<Rightarrow> mention_decision" where
  "resolveMentionDecisionCore require canDetect mentioned kinds allowed bypass =
     (let matched = resolveMatchedImplicitMentionKinds kinds allowed;
          implicit = (length matched > 0);
          effective = (mentioned \<or> implicit \<or> bypass)
      in \<lparr>implicitMention = implicit, matchedImplicitMentionKinds = matched,
          effectiveWasMentioned = effective, shouldBypassMention = bypass,
          shouldSkip = (require \<and> canDetect \<and> \<not> effective)\<rparr>)"

text \<open>The nested and the deprecated flat call shape.\<close>

datatype mention_decision_params =
    NestedParams mention_facts mention_policy
  | FlatParams bool bool "bool option" "implicit_mention_kind list option" bool bool
      "implicit_mentions_config option" "implicit_mention_kind list option" bool bool bool

fun normalizeMentionDecisionParams :: "mention_decision_params \<Rightarrow> mention_facts \<times> mention_policy" where
  "normalizeMentionDecisionParams (NestedParams facts policy) = (facts, policy)"
| "normalizeMentionDecisionParams
     (FlatParams detect mentioned anyMention kinds inGroup require implicit allowed text control auth) =
     (\<lparr>canDetectMention = detect, wasMentioned = mentioned, hasAnyMention = anyMention,
       implicitMentionKinds = kinds\<rparr>,
      \<lparr>isGroup = inGroup, requireMention = require, implicitMentions = implicit,
       allowedImplicitMentionKinds = allowed, allowTextCommands = text,
       hasControlCommand = control, commandAuthorized = auth\<rparr>)"

definition resolveInboundMentionDecision :: "mention_decision_params \<Rightarrow> mention_decision" where
  "resolveInboundMentionDecision params =
     (let (facts, policy) = normalizeMentionDecisionParams params;
          allowed = orElse (allowedImplicitMentionKinds policy)
                      (map_option allowedImplicitMentionKindsFromConfig (implicitMentions policy));
          bypass = (isGroup policy \<and> requireMention policy \<and> \<not> wasMentioned facts \<and>
                    \<not> nullish (hasAnyMention facts) False \<and> allowTextCommands policy \<and>
                    commandAuthorized policy \<and> hasControlCommand policy)
      in resolveMentionDecisionCore (requireMention policy) (canDetectMention facts)
           (wasMentioned facts) (implicitMentionKinds facts) allowed bypass)"

text \<open>The deprecated entry points.\<close>

definition resolveMentionGating ::
    "bool \<Rightarrow> bool \<Rightarrow> bool \<Rightarrow> bool option \<Rightarrow> bool option \<Rightarrow> bool \<times> bool" where
  "resolveMentionGating require canDetect mentioned implicit bypass =
     (let result = resolveMentionDecisionCore require canDetect mentioned
                     (Some (implicitMentionKindWhen NativeMention (implicit = Some True))) None
                     (bypass = Some True)
      in (effectiveWasMentioned result, shouldSkip result))"

definition resolveMentionGatingWithBypass ::
    "bool \<Rightarrow> bool \<Rightarrow> bool \<Rightarrow> bool \<Rightarrow> bool option \<Rightarrow> bool option \<Rightarrow> bool \<Rightarrow> bool \<Rightarrow> bool \<Rightarrow>
     bool \<times> bool \<times> bool" where
  "resolveMentionGatingWithBypass inGroup require canDetect mentioned implicit anyMention text control auth =
     (let result = resolveInboundMentionDecision (NestedParams
            \<lparr>canDetectMention = canDetect, wasMentioned = mentioned, hasAnyMention = anyMention,
             implicitMentionKinds =
               Some (implicitMentionKindWhen NativeMention (implicit = Some True))\<rparr>
            \<lparr>isGroup = inGroup, requireMention = require, implicitMentions = None,
             allowedImplicitMentionKinds = None, allowTextCommands = text,
             hasControlCommand = control, commandAuthorized = auth\<rparr>)
      in (effectiveWasMentioned result, shouldSkip result, shouldBypassMention result))"

section \<open>Command gating\<close>

record command_authorizer =
  configured :: bool
  allowed :: bool

datatype access_groups_off_mode = ModeAllow | ModeDeny | ModeConfigured

definition resolveCommandAuthorizedFromAuthorizers ::
    "bool \<Rightarrow> command_authorizer list \<Rightarrow> access_groups_off_mode option \<Rightarrow> bool" where
  "resolveCommandAuthorizedFromAuthorizers useAccessGroups authorizers modeWhenOff =
     (if \<not> useAccessGroups then
        (case nullish modeWhenOff ModeAllow of
           ModeAllow \<Rightarrow> True
         | ModeDeny \<Rightarrow> False
         | ModeConfigured \<Rightarrow>
             let anyConfigured = list_ex configured authorizers
             in if \<not> anyConfigured then True
                else list_ex (\<lambda>a. configured a \<and> allowed a) authorizers)
      else list_ex (\<lambda>a. configured a \<and> allowed a) authorizers)"

definition resolveControlCommandGate ::
    "bool \<Rightarrow> command_authorizer list \<Rightarrow> bool \<Rightarrow> bool \<Rightarrow> access_groups_off_mode option \<Rightarrow>
     bool \<times> bool" where
  "resolveControlCommandGate useAccessGroups authorizers textCommands controlCommand modeWhenOff =
     (let authorized = resolveCommandAuthorizedFromAuthorizers useAccessGroups authorizers modeWhenOff
      in (authorized, textCommands \<and> controlCommand \<and> \<not> authorized))"

definition resolveDualTextControlCommandGate ::
    "bool \<Rightarrow> bool \<Rightarrow> bool \<Rightarrow> bool \<Rightarrow> bool \<Rightarrow> bool \<Rightarrow> access_groups_off_mode option \<Rightarrow> bool \<times> bool" where
  "resolveDualTextControlCommandGate useAccessGroups pc pa sc sa controlCommand modeWhenOff =
     resolveControlCommandGate useAccessGroups
       [\<lparr>configured = pc, allowed = pa\<rparr>, \<lparr>configured = sc, allowed = sa\<rparr>]
       True controlCommand modeWhenOff"

section \<open>Lemmas\<close>

lemma set_matchKinds:
  "set (matchKinds a kinds matched) =
   set matched \<union> {k \<in> set kinds. \<forall>ks \<in> set_option a. k \<in> set ks}"
  by (induction a kinds matched rule: matchKinds.induct) auto

lemma distinct_matchKinds: "distinct matched \<Longrightarrow> distinct (matchKinds a kinds matched)"
  by (induction a kinds matched rule: matchKinds.induct) auto

lemma set_resolveMatchedImplicitMentionKinds [set_simps]:
  "set (resolveMatchedImplicitMentionKinds kinds a) =
   {k \<in> set (nullish kinds []). \<forall>ks \<in> set_option a. k \<in> set ks}"
  by (simp add: resolveMatchedImplicitMentionKinds_def set_matchKinds Let_def)

lemma distinct_resolveMatchedImplicitMentionKinds:
  "distinct (resolveMatchedImplicitMentionKinds kinds a)"
  by (simp add: resolveMatchedImplicitMentionKinds_def distinct_matchKinds Let_def)

text \<open>
  A message is skipped for lack of a mention exactly if a mention is required and can be
  detected, the bot was not mentioned, no implicit mention of an allowed kind holds, and the
  message is not an authorized text control command in a group that mentions nobody.
\<close>

theorem mention_skip_exactly_when:
  fixes facts :: mention_facts and policy :: mention_policy
  defines "kinds \<equiv> orElse (allowedImplicitMentionKinds policy)
    (map_option allowedImplicitMentionKindsFromConfig (implicitMentions policy))"
  shows "shouldSkip (resolveInboundMentionDecision (NestedParams facts policy)) =
    (requireMention policy \<and> canDetectMention facts \<and> \<not> wasMentioned facts \<and>
     {k \<in> set (nullish (implicitMentionKinds facts) []). \<forall>ks. kinds = Some ks \<longrightarrow> k \<in> set ks} = {} \<and>
     \<not> (isGroup policy \<and> hasAnyMention facts \<noteq> Some True \<and> allowTextCommands policy \<and>
        commandAuthorized policy \<and> hasControlCommand policy))"
proof -
  have "(\<forall>ks. kinds = Some ks \<longrightarrow> k \<in> set ks) \<longleftrightarrow> (\<forall>ks \<in> set_option kinds. k \<in> set ks)" for k
    by auto
  then have ids: "resolveMatchedImplicitMentionKinds (implicitMentionKinds facts) kinds = [] \<longleftrightarrow>
      {k \<in> set (nullish (implicitMentionKinds facts) []). \<forall>ks. kinds = Some ks \<longrightarrow> k \<in> set ks} = {}"
    by (simp only: set_resolveMatchedImplicitMentionKinds flip: set_empty)
  have "nullish (hasAnyMention facts) False \<longleftrightarrow> hasAnyMention facts = Some True"
    by (cases "hasAnyMention facts") auto
  then show ?thesis
    using ids
    by (auto simp: resolveInboundMentionDecision_def resolveMentionDecisionCore_def Let_def kinds_def)
qed

definition groupPolicyExample :: mention_policy where
  "groupPolicyExample = \<lparr>isGroup = True, requireMention = True,
     implicitMentions = Some \<lparr>replyToBot = Some False, quotedBot = None, threadParticipation = None\<rparr>,
     allowedImplicitMentionKinds = None, allowTextCommands = True, hasControlCommand = False,
     commandAuthorized = True\<rparr>"

lemma mention_skip_exactly_when_witness:
  "shouldSkip (resolveInboundMentionDecision (NestedParams
     \<lparr>canDetectMention = True, wasMentioned = False, hasAnyMention = None,
      implicitMentionKinds = Some [ReplyToBot]\<rparr> groupPolicyExample))"
  by (simp add: mention_skip_exactly_when groupPolicyExample_def
      allowedImplicitMentionKindsFromConfig_def implicitMentionKindWhen_def)

text \<open>
  Control commands fail closed: with access groups in force, or in the configured mode once an
  authorizer is configured, a command is authorized only by a configured authorizer that allows it.
\<close>

lemma command_needs_configured_authorizer:
  assumes "useAccessGroups \<or> modeWhenOff = Some ModeDeny \<or>
    (modeWhenOff = Some ModeConfigured \<and> list_ex configured authorizers)"
    and "resolveCommandAuthorizedFromAuthorizers useAccessGroups authorizers modeWhenOff"
  shows "\<exists>a \<in> set authorizers. configured a \<and> allowed a"
  using assms
  by (auto simp: resolveCommandAuthorizedFromAuthorizers_def Let_def list_ex_iff nullish_def
      split: if_splits)

lemma resolveCommandAuthorized_two:
  "resolveCommandAuthorizedFromAuthorizers u [a, b] m =
   (if \<not> u \<and> nullish m ModeAllow = ModeAllow then True
    else if \<not> u \<and> m = Some ModeDeny then False
    else if \<not> u \<and> \<not> configured a \<and> \<not> configured b then True
    else (configured a \<and> allowed a) \<or> (configured b \<and> allowed b))"
  by (cases m) (auto simp: resolveCommandAuthorizedFromAuthorizers_def Let_def
      split: access_groups_off_mode.splits)

end
