(* ===== verification/AllowFrom.thy ===== *)
theory AllowFrom
  imports Prelude
begin

text \<open>
  \<open>src/channels/allow-from.ts\<close>, \<open>src/channels/message-access/effective-allow-from.ts\<close> and
  \<open>store-allow-from.ts\<close>: how configured and paired senders are merged into the effective
  allowlists of direct and group conversations.
\<close>

definition ACCESS_GROUP_ALLOW_FROM_PREFIX :: string where
  "ACCESS_GROUP_ALLOW_FROM_PREFIX = ''accessGroup:''"

definition parseAccessGroupAllowFromEntry :: "string \<Rightarrow> string option" where
  "parseAccessGroupAllowFromEntry entry =
     (let trimmed = js_trim entry
      in if \<not> js_starts_with trimmed ACCESS_GROUP_ALLOW_FROM_PREFIX then None
         else let name = js_trim (drop (length ACCESS_GROUP_ALLOW_FROM_PREFIX) trimmed)
              in if length name > 0 then Some name else None)"

text \<open>The policies the merge looks at; any other configured string behaves like \<open>DmPairing\<close>.\<close>

datatype dm_policy = DmPairing | DmAllowlist | DmOpen | DmDisabled

definition mergeDmAllowFromSources ::
    "js_entry list option \<Rightarrow> js_entry list option \<Rightarrow> dm_policy option \<Rightarrow> string list" where
  "mergeDmAllowFromSources allowFrom storeAllowFrom dmPolicy =
     (let storeEntries = (if dmPolicy = Some DmAllowlist \<or> dmPolicy = Some DmOpen then []
                          else nullish storeAllowFrom [])
      in normalizeStringEntries (nullish allowFrom [] @ storeEntries))"

definition resolveGroupAllowFromSources ::
    "js_entry list option \<Rightarrow> js_entry list option \<Rightarrow> bool option \<Rightarrow> string list" where
  "resolveGroupAllowFromSources allowFrom groupAllowFrom fallbackToAllowFrom =
     (let explicitGroupAllowFrom =
            (case groupAllowFrom of Some g \<Rightarrow> if length g > 0 then Some g else None | None \<Rightarrow> None);
          scoped = (case explicitGroupAllowFrom of
                      Some g \<Rightarrow> g
                    | None \<Rightarrow> if fallbackToAllowFrom = Some False then []
                              else nullish allowFrom [])
      in normalizeStringEntries scoped)"

fun firstDefined :: "'a option list \<Rightarrow> 'a option" where
  "firstDefined [] = None"
| "firstDefined (v # vs) = (case v of Some x \<Rightarrow> Some x | None \<Rightarrow> firstDefined vs)"

record sender_allow =
  allowEntries :: "string list"
  allowHasWildcard :: bool
  allowHasEntries :: bool

definition isSenderIdAllowed :: "sender_allow \<Rightarrow> string option \<Rightarrow> bool \<Rightarrow> bool" where
  "isSenderIdAllowed allow senderId allowWhenEmpty =
     (if \<not> allowHasEntries allow then allowWhenEmpty
      else if allowHasWildcard allow then True
      else case senderId of
             None \<Rightarrow> False
           | Some s \<Rightarrow> if s = [] then False else s \<in> set (allowEntries allow))"

definition resolveChannelIngressEffectiveAllowFromLists ::
    "js_entry list option \<Rightarrow> js_entry list option \<Rightarrow> js_entry list option \<Rightarrow> dm_policy option \<Rightarrow>
     bool option \<Rightarrow> string list \<times> string list" where
  "resolveChannelIngressEffectiveAllowFromLists allowFrom groupAllowFrom storeAllowFrom dmPolicy fallback =
     (let effectiveAllowFrom = normalizeStringEntries
            (map JsString (mergeDmAllowFromSources allowFrom storeAllowFrom dmPolicy));
          effectiveGroupAllowFrom = normalizeStringEntries
            (map JsString (resolveGroupAllowFromSources allowFrom groupAllowFrom fallback))
      in (effectiveAllowFrom, effectiveGroupAllowFrom))"

text \<open>
  Reading the pairing store; \<open>readStore\<close> is what the store answers, \<open>None\<close> when the read fails.
\<close>

definition readChannelIngressStoreAllowFromForDmPolicy ::
    "dm_policy option \<Rightarrow> bool option \<Rightarrow> string list option \<Rightarrow> string list" where
  "readChannelIngressStoreAllowFromForDmPolicy dmPolicy shouldRead readStore =
     (if shouldRead = Some False \<or> dmPolicy = Some DmAllowlist \<or> dmPolicy = Some DmOpen then []
      else nullish readStore [])"

section \<open>Lemmas\<close>

lemma parse_not_group_empty: "parseAccessGroupAllowFromEntry e = Some n \<Longrightarrow> n \<noteq> [] \<and> js_trim n = n"
  by (auto simp: parseAccessGroupAllowFromEntry_def Let_def split: if_splits)

lemma parse_wildcard [simp]: "parseAccessGroupAllowFromEntry ''*'' = None"
  by code_simp

lemma effective_allow_from_once:
  "fst (resolveChannelIngressEffectiveAllowFromLists a g st p f) = mergeDmAllowFromSources a st p"
  "snd (resolveChannelIngressEffectiveAllowFromLists a g st p f) = resolveGroupAllowFromSources a g f"
  by (simp_all add: resolveChannelIngressEffectiveAllowFromLists_def mergeDmAllowFromSources_def
      resolveGroupAllowFromSources_def Let_def normalizeStringEntries_idem
      flip: normalizeStringEntries_simps(2))

text \<open>
  Paired senders never widen an explicit allowlist or an open policy: with either policy the
  effective direct list is what was configured, whatever the store holds, and the effective group
  list never contains a sender only the pairing store knows.
\<close>

theorem pairing_store_never_widens_explicit_policy:
  assumes "dmPolicy = Some DmAllowlist \<or> dmPolicy = Some DmOpen"
  shows "resolveChannelIngressEffectiveAllowFromLists allowFrom groupAllowFrom storeAllowFrom dmPolicy f =
    (normalizeStringEntries (nullish allowFrom []),
     resolveGroupAllowFromSources allowFrom groupAllowFrom f)"
proof -
  have "fst (resolveChannelIngressEffectiveAllowFromLists allowFrom groupAllowFrom storeAllowFrom
      dmPolicy f) = normalizeStringEntries (nullish allowFrom [])"
    using assms by (auto simp: effective_allow_from_once mergeDmAllowFromSources_def)
  then show ?thesis
    using effective_allow_from_once(2) by (metis prod.collapse)
qed

lemma pairing_store_never_widens_explicit_policy_witness:
  "fst (resolveChannelIngressEffectiveAllowFromLists (Some [JsString '' 42 '', JsInt 7]) None
     (Some [JsString ''99'']) (Some DmAllowlist) None) = [''42'', ''7'']"
proof -
  have "normalizeStringEntries [JsString '' 42 '', JsInt 7] = [''42'', ''7'']" by code_simp
  then show ?thesis by (simp add: pairing_store_never_widens_explicit_policy)
qed

end
