(* ===== verification/IngressTypes.thy ===== *)
theory IngressTypes
  imports MentionGating AllowFrom
begin

text \<open>
  The data of the channel ingress access graph: \<open>src/channels/message-access/types.ts\<close>, the
  identity descriptors of \<open>runtime-types.ts\<close> and the access groups of
  \<open>src/config/types.access-groups.ts\<close>.  \<open>T | undefined\<close> is \<open>T option\<close>; an optional flag the code
  only tests for truth keeps its option.
\<close>

section \<open>Identifiers, entries and matches\<close>

datatype identifier_kind = StableId | Username | Email | Phone | Role | PluginKind string

datatype sensitivity = NormalSensitivity | Pii

record match_material =
  materialId :: string
  materialKind :: identifier_kind
  materialValue :: string
  materialDangerous :: "bool option"
  materialSensitivity :: "sensitivity option"

type_synonym ingress_subject = "match_material list"

record normalized_entry =
  entryOpaqueId :: string
  entryKind :: identifier_kind
  entryValue :: string
  entryDangerous :: "bool option"
  entrySensitivity :: "sensitivity option"

record redacted_entry =
  opaqueEntryId :: string
  redactedKind :: identifier_kind
  dangerous :: "bool option"
  redactedSensitivity :: "sensitivity option"

datatype reason_code =
    Allowed | RouteBlocked | RouteSenderEmpty
  | DmPolicyDisabled | DmPolicyOpen | DmPolicyAllowlisted | DmPolicyPairingRequired
  | DmPolicyNotAllowlisted
  | GroupPolicyDisabled | GroupPolicyOpen | GroupPolicyAllowed | GroupPolicyEmptyAllowlist
  | GroupPolicyNotAllowlisted
  | CommandAuthorized | ControlCommandUnauthorized
  | EventAuthorized | EventUnauthorized | EventPairingNotAllowed | SenderNotRequired
  | OriginSubjectMissing | OriginSubjectNotMatched
  | ActivationAllowed | ActivationSkipped
  | AccessGroupMissing | AccessGroupUnsupported | AccessGroupFailed
  | MutableIdentifierDisabled | NoPolicyMatch

record entry_diagnostic =
  diagnosticEntryId :: "string option"
  diagnosticReason :: reason_code

record ingress_match =
  matched :: bool
  matchIds :: "string list"

record normalize_result =
  matchable :: "normalized_entry list"
  invalid :: "entry_diagnostic list"
  disabled :: "entry_diagnostic list"

datatype match_context = ContextDm | ContextGroup | ContextRoute | ContextCommand

text \<open>The channel's adapter: its two operations.\<close>

record ingress_adapter =
  normalizeEntries :: "string list \<Rightarrow> match_context \<Rightarrow> string \<Rightarrow> normalize_result"
  matchSubject :: "ingress_subject \<Rightarrow> normalized_entry list \<Rightarrow> match_context \<Rightarrow> ingress_match"

section \<open>Access groups and allowlists\<close>

datatype access_group = DiscordAudience | MessageSenders "string \<Rightarrow> string list option"

datatype membership_fact =
    FactMatched string "string list"
  | FactNotMatched string
  | FactMissing string
  | FactUnsupported string
  | FactFailed string

fun factGroupName :: "membership_fact \<Rightarrow> string" where
  "factGroupName (FactMatched n ids) = n"
| "factGroupName (FactNotMatched n) = n"
| "factGroupName (FactMissing n) = n"
| "factGroupName (FactUnsupported n) = n"
| "factGroupName (FactFailed n) = n"

record access_group_facts =
  agReferenced :: "string list"
  agMatched :: "string list"
  agMissing :: "string list"
  agUnsupported :: "string list"
  agFailed :: "string list"

record resolved_allowlist =
  rawEntryCount :: nat
  normalizedEntries :: "redacted_entry list"
  invalidEntries :: "entry_diagnostic list"
  disabledEntries :: "entry_diagnostic list"
  matchedEntryIds :: "string list"
  hasConfiguredEntries :: bool
  hasMatchableEntries :: bool
  hasWildcard :: bool
  accessGroups :: access_group_facts
  allowMatch :: ingress_match

record allowlist_facts =
  factConfigured :: bool
  factMatched :: bool
  factReason :: reason_code
  factMatchedIds :: "string list"
  factInvalidCount :: nat
  factDisabledCount :: nat
  factAccessGroups :: access_group_facts

section \<open>Routes, events and policies\<close>

datatype gate_kind =
    GateRoute | GateRouteSender | GateDmSender | GateGroupSender | GateMembership
  | GateOwnerAllowlist | GateNestedAllowlist | GateCommand | GateEvent | GateMention

datatype gate_effect =
  EffectAllow | EffectBlockDispatch | EffectBlockCommand | EffectSkip | EffectObserve | EffectIgnore

datatype gate_phase = PhaseRoute | PhaseSender | PhaseCommand | PhaseEvent | PhaseActivation

datatype route_gate_state =
  RouteNotConfigured | RouteMatched | RouteNotMatched | RouteDisabled | RouteLookupFailed

datatype route_sender_policy = SenderInherit | SenderReplace | SenderDenyWhenEmpty

datatype route_sender_source = EffectiveDm | EffectiveGroup

datatype route_kind =
  KindRoute | KindRouteSender | KindMembership | KindOwnerAllowlist | KindNestedAllowlist

datatype route_effect = RouteAllow | RouteBlockDispatch | RouteIgnore

text \<open>The kinds and effects of routes are among those of gates.\<close>

fun gateKindOfRoute :: "route_kind \<Rightarrow> gate_kind" where
  "gateKindOfRoute KindRoute = GateRoute"
| "gateKindOfRoute KindRouteSender = GateRouteSender"
| "gateKindOfRoute KindMembership = GateMembership"
| "gateKindOfRoute KindOwnerAllowlist = GateOwnerAllowlist"
| "gateKindOfRoute KindNestedAllowlist = GateNestedAllowlist"

fun gateEffectOfRoute :: "route_effect \<Rightarrow> gate_effect" where
  "gateEffectOfRoute RouteAllow = EffectAllow"
| "gateEffectOfRoute RouteBlockDispatch = EffectBlockDispatch"
| "gateEffectOfRoute RouteIgnore = EffectIgnore"

record route_facts =
  routeId :: string
  routeKind :: route_kind
  routeGate :: route_gate_state
  routeEffect :: route_effect
  routePrecedence :: int
  routeSenderPolicy :: route_sender_policy
  routeSenderAllowFrom :: "js_entry list option"
  routeSenderSource :: "route_sender_source option"
  routeMatch :: "ingress_match option"

record resolved_route =
  resolvedId :: string
  resolvedKind :: route_kind
  resolvedGate :: route_gate_state
  resolvedEffect :: route_effect
  resolvedPrecedence :: int
  resolvedSenderPolicy :: route_sender_policy
  resolvedMatch :: "ingress_match option"
  senderAllowlist :: "resolved_allowlist option"

datatype event_kind =
  EventMessage | EventReaction | EventButton | EventPostback | EventNativeCommand
  | EventSlashCommand | EventSystem

datatype auth_mode = AuthInbound | AuthCommand | AuthOriginSubject | AuthRouteOnly | AuthNone

record event_input =
  inputKind :: event_kind
  inputAuthMode :: auth_mode
  inputMayPair :: bool
  originSubject :: "ingress_subject option"

record redacted_event =
  eventKind :: event_kind
  authMode :: auth_mode
  mayPair :: bool
  hasOriginSubject :: bool
  originSubjectMatched :: bool

datatype conversation_kind = Direct | Group | Channel

record allowlist_input =
  inputDm :: "js_entry list option"
  inputGroup :: "js_entry list option"
  inputCommandOwner :: "js_entry list option"
  inputCommandGroup :: "js_entry list option"
  inputPairingStore :: "js_entry list option"

record state_input =
  channelId :: string
  accountId :: string
  subject :: ingress_subject
  inputConversation :: conversation_kind
  adapter :: ingress_adapter
  accessGroupConfigs :: "string \<Rightarrow> access_group option"
  accessGroupMembership :: "membership_fact list option"
  inputRouteFacts :: "route_facts list option"
  inputMentionFacts :: "mention_facts option"
  eventInput :: event_input
  allowlistInput :: allowlist_input

record state_allowlists =
  listDm :: resolved_allowlist
  listPairingStore :: resolved_allowlist
  listGroup :: resolved_allowlist
  listCommandOwner :: resolved_allowlist
  listCommandGroup :: resolved_allowlist

record ingress_state =
  stateChannelId :: string
  stateAccountId :: string
  conversationKind :: conversation_kind
  event :: redacted_event
  mentionFacts :: "mention_facts option"
  routeFacts :: "resolved_route list"
  allowlists :: state_allowlists

datatype group_policy = GroupAllowlist | GroupOpen | GroupDisabled

datatype mutable_matching = MutableDisabled | MutableEnabled

datatype activation_order = BeforeSender | AfterCommand

record activation_policy =
  actRequireMention :: bool
  actAllowTextCommands :: bool
  actImplicitMentions :: "implicit_mentions_config option"
  actAllowedKinds :: "implicit_mention_kind list option"
  actOrder :: "activation_order option"

record command_policy =
  cmdUseAccessGroups :: "bool option"
  cmdAllowTextCommands :: bool
  cmdHasControlCommand :: bool
  cmdModeWhenOff :: "access_groups_off_mode option"

record ingress_policy =
  dmPolicy :: dm_policy
  groupPolicy :: group_policy
  groupAllowFromFallbackToAllowFrom :: "bool option"
  mutableIdentifierMatching :: "mutable_matching option"
  activation :: "activation_policy option"
  commandPolicy :: "command_policy option"

section \<open>Gates and decisions\<close>

datatype sender_policy = DmSenderPolicy dm_policy | GroupSenderPolicy group_policy

record command_facts =
  factUseAccessGroups :: bool
  factAllowTextCommands :: bool
  factModeWhenOff :: "access_groups_off_mode option"
  shouldBlockControlCommand :: bool

record activation_facts =
  afHasMentionFacts :: bool
  afRequireMention :: bool
  afAllowTextCommands :: bool
  afAllowedKinds :: "implicit_mention_kind list option"
  afOrder :: "activation_order option"
  afShouldSkip :: bool
  afCanDetectMention :: "bool option"
  afWasMentioned :: "bool option"
  afHasAnyMention :: "bool option"
  afImplicitKinds :: "implicit_mention_kind list option"
  afEffectiveWasMentioned :: "bool option"
  afShouldBypassMention :: "bool option"

record access_gate =
  gateId :: string
  gatePhase :: gate_phase
  gateKind :: gate_kind
  gateEffect :: gate_effect
  gateAllowed :: bool
  gateReason :: reason_code
  gateMatch :: "ingress_match option"
  gateAllowlist :: "allowlist_facts option"
  gateSender :: "sender_policy option"
  gateCommand :: "command_facts option"
  gateEvent :: "redacted_event option"
  gateActivation :: "activation_facts option"

text \<open>A gate with none of its optional facts.\<close>

definition bareGate ::
    "string \<Rightarrow> gate_phase \<Rightarrow> gate_kind \<Rightarrow> gate_effect \<Rightarrow> bool \<Rightarrow> reason_code \<Rightarrow> access_gate" where
  "bareGate i phase kind effect allow reason =
     \<lparr>gateId = i, gatePhase = phase, gateKind = kind, gateEffect = effect, gateAllowed = allow,
      gateReason = reason, gateMatch = None, gateAllowlist = None, gateSender = None,
      gateCommand = None, gateEvent = None, gateActivation = None\<rparr>"

lemma bareGate_fields [simp]:
  "gateId (bareGate i p k e a r) = i" "gatePhase (bareGate i p k e a r) = p"
  "gateKind (bareGate i p k e a r) = k" "gateEffect (bareGate i p k e a r) = e"
  "gateAllowed (bareGate i p k e a r) = a" "gateReason (bareGate i p k e a r) = r"
  by (simp_all add: bareGate_def)

datatype admission_action = Dispatch | Observe | Skip | Drop | PairingRequired

datatype decision_kind = DecisionAllow | DecisionBlock | DecisionPairing

record ingress_decision =
  admission :: admission_action
  decision :: decision_kind
  decisiveGateId :: string
  reasonCode :: reason_code
  graph :: "access_gate list"

end
