(* ===== verification/IngressIdentity.thy ===== *)
theory IngressIdentity
  imports IngressTypes
begin

text \<open>
  \<open>src/channels/message-access/runtime-identity.ts\<close>: the identity adapter, by which a channel's
  descriptor (its identity fields and normalizers) turns allowlist entries into matchable ones and
  matches a sender against them.  The descriptor's functions come from the channel and are part
  of the record.  The locale \<open>ingress_matcher\<close> is what the rest of the ingress relies on.
\<close>

section \<open>The descriptor\<close>

datatype dangerous_flag = DangerousConst "bool option" | DangerousFn "string \<Rightarrow> bool option"

record identity_field =
  fieldKey :: "string option"
  fieldKind :: "identifier_kind option"
  fieldNormalize :: "(string \<Rightarrow> string option) option"
  fieldNormalizeEntry :: "(string \<Rightarrow> string option) option"
  fieldNormalizeSubject :: "(string \<Rightarrow> string option) option"
  fieldDangerousFlag :: dangerous_flag
  fieldSensitivity :: "sensitivity option"

type_synonym entry_id_resolver = "string \<Rightarrow> nat \<Rightarrow> string \<Rightarrow> nat \<Rightarrow> string"

record identity_descriptor =
  primaryField :: identity_field
  aliasFields :: "identity_field list"
  isWildcardEntry :: "(string \<Rightarrow> bool) option"
  matchEntry :: "(ingress_subject \<Rightarrow> normalized_entry \<Rightarrow> match_context \<Rightarrow> bool option) option"
  resolveEntryId :: "entry_id_resolver option"

text \<open>A field with its key and kind resolved.\<close>

record resolved_field =
  key :: string
  kind :: identifier_kind
  normalize :: "(string \<Rightarrow> string option) option"
  normalizeEntryFn :: "(string \<Rightarrow> string option) option"
  normalizeSubjectFn :: "(string \<Rightarrow> string option) option"
  dangerousFlag :: dangerous_flag
  fieldSens :: "sensitivity option"

definition defineStableChannelIngressIdentity ::
    "identity_field \<Rightarrow> identity_field list \<Rightarrow> (string \<Rightarrow> bool) option \<Rightarrow>
     (ingress_subject \<Rightarrow> normalized_entry \<Rightarrow> match_context \<Rightarrow> bool option) option \<Rightarrow>
     string option \<Rightarrow> entry_id_resolver option \<Rightarrow> identity_descriptor" where
  "defineStableChannelIngressIdentity primary aliases wildcard matchFn entryIdPrefix resolveId =
     \<lparr>primaryField = primary, aliasFields = aliases, isWildcardEntry = wildcard,
      matchEntry = matchFn,
      resolveEntryId = orElse resolveId
        (case entryIdPrefix of
           None \<Rightarrow> None
         | Some p \<Rightarrow> if p = [] then None
                     else Some (\<lambda>entry entryIndex k i. p @ ''-'' @ nat_digits (entryIndex + 1)))\<rparr>"

section \<open>The adapter\<close>

definition normalizeFieldValue :: "resolved_field \<Rightarrow> string \<Rightarrow> bool \<Rightarrow> string option" where
  "normalizeFieldValue field v entryMode =
     (let f = nullish (if entryMode then orElse (normalizeEntryFn field) (normalize field)
                       else orElse (normalizeSubjectFn field) (normalize field)) Some
      in case f v of
           None \<Rightarrow> None
         | Some s \<Rightarrow> let t = js_trim s in if t = [] then None else Some t)"

definition fieldDangerous :: "resolved_field \<Rightarrow> string \<Rightarrow> bool option" where
  "fieldDangerous field v =
     (case dangerousFlag field of DangerousFn f \<Rightarrow> f v | DangerousConst b \<Rightarrow> b)"

definition resolveField :: "string \<Rightarrow> identifier_kind \<Rightarrow> identity_field \<Rightarrow> resolved_field" where
  "resolveField defaultKey defaultKind f =
     \<lparr>key = nullish (fieldKey f) defaultKey, kind = nullish (fieldKind f) defaultKind,
      normalize = fieldNormalize f, normalizeEntryFn = fieldNormalizeEntry f,
      normalizeSubjectFn = fieldNormalizeSubject f, dangerousFlag = fieldDangerousFlag f,
      fieldSens = fieldSensitivity f\<rparr>"

text \<open>The key of an alias is mandatory.\<close>

definition identityFields :: "identity_descriptor \<Rightarrow> resolved_field list" where
  "identityFields identity =
     resolveField ''stableId'' StableId (primaryField identity) #
     map (\<lambda>f. let k = nullish (fieldKey f) '''' in resolveField k (PluginKind k) f)
       (aliasFields identity)"

definition kindString :: "identifier_kind \<Rightarrow> string" where
  "kindString k = (case k of StableId \<Rightarrow> ''stable-id'' | Username \<Rightarrow> ''username'' | Email \<Rightarrow> ''email''
     | Phone \<Rightarrow> ''phone'' | Role \<Rightarrow> ''role'' | PluginKind p \<Rightarrow> ''plugin:'' @ p)"

definition identityMatchKey :: "identifier_kind \<Rightarrow> string \<Rightarrow> string" where
  "identityMatchKey k v = kindString k @ '':'' @ v"

definition adapterEntry ::
    "identity_descriptor \<Rightarrow> resolved_field \<Rightarrow> nat \<Rightarrow> string \<Rightarrow> nat \<Rightarrow> string \<Rightarrow> string option \<Rightarrow>
     normalized_entry" where
  "adapterEntry identity field fieldIndex entry entryIndex v fallbackSuffix =
     \<lparr>entryOpaqueId =
        (case resolveEntryId identity of
           Some f \<Rightarrow> f entry entryIndex (key field) fieldIndex
         | None \<Rightarrow> ''entry-'' @ nat_digits (entryIndex + 1) @ '':'' @
                   nullish fallbackSuffix (key field)),
      entryKind = kind field, entryValue = v, entryDangerous = fieldDangerous field entry,
      entrySensitivity = fieldSens field\<rparr>"

text \<open>\<open>array.flatMap((value, index) => ...)\<close>.\<close>

definition flat_map_index :: "('a \<Rightarrow> nat \<Rightarrow> 'b list) \<Rightarrow> 'a list \<Rightarrow> 'b list" where
  "flat_map_index f xs = concat (map (\<lambda>(x, i). f x i) (zip xs [0..<length xs]))"

definition wildcardTest :: "identity_descriptor \<Rightarrow> string \<Rightarrow> bool" where
  "wildcardTest identity = nullish (isWildcardEntry identity) (\<lambda>v. v = ''*'')"

definition identityNormalizeEntries :: "identity_descriptor \<Rightarrow> string list \<Rightarrow> normalize_result" where
  "identityNormalizeEntries identity entries =
     (let fields = identityFields identity
      in \<lparr>matchable = flat_map_index (\<lambda>entry entryIndex.
             if wildcardTest identity entry
             then [adapterEntry identity (hd fields) 0 entry entryIndex ''*'' (Some ''wildcard'')]
             else flat_map_index (\<lambda>field fieldIndex.
                    case normalizeFieldValue field entry True of
                      None \<Rightarrow> []
                    | Some v \<Rightarrow> [adapterEntry identity field fieldIndex entry entryIndex v None])
                  fields) entries,
          invalid = [], disabled = []\<rparr>)"

definition subjectKeys :: "identity_descriptor \<Rightarrow> ingress_subject \<Rightarrow> string list" where
  "subjectKeys identity subj =
     concat (map (\<lambda>identifier.
       case find (\<lambda>f. kind f = materialKind identifier) (identityFields identity) of
         None \<Rightarrow> []
       | Some field \<Rightarrow>
           (case normalizeFieldValue field (materialValue identifier) False of
              None \<Rightarrow> []
            | Some v \<Rightarrow> [identityMatchKey (materialKind identifier) v])) subj)"

definition identityEntryMatches ::
    "identity_descriptor \<Rightarrow> ingress_subject \<Rightarrow> match_context \<Rightarrow> normalized_entry \<Rightarrow> bool" where
  "identityEntryMatches identity subj context entry =
     (let fallback = (entryValue entry = ''*'' \<or>
            identityMatchKey (entryKind entry) (entryValue entry) \<in> set (subjectKeys identity subj))
      in nullish (case matchEntry identity of None \<Rightarrow> None | Some f \<Rightarrow> f subj entry context) fallback)"

definition identityMatchSubject ::
    "identity_descriptor \<Rightarrow> ingress_subject \<Rightarrow> normalized_entry list \<Rightarrow> match_context \<Rightarrow>
     ingress_match" where
  "identityMatchSubject identity subj entries context =
     (let ids = map entryOpaqueId (filter (identityEntryMatches identity subj context) entries)
      in \<lparr>matched = length ids > 0, matchIds = ids\<rparr>)"

definition createIdentityAdapter :: "identity_descriptor \<Rightarrow> ingress_adapter" where
  "createIdentityAdapter identity =
     \<lparr>normalizeEntries = (\<lambda>entries context account. identityNormalizeEntries identity entries),
      matchSubject = (\<lambda>subj entries context. identityMatchSubject identity subj entries context)\<rparr>"

text \<open>
  The sender's identity for one event: the stable id and the aliases by field key.
\<close>

definition createIdentitySubject ::
    "identity_descriptor \<Rightarrow> js_entry option \<Rightarrow> (string \<Rightarrow> js_entry option) \<Rightarrow> ingress_subject" where
  "createIdentitySubject identity stableId aliasValues =
     flat_map_index (\<lambda>field i.
       case (if i = 0 then stableId else aliasValues (key field)) of
         None \<Rightarrow> []
       | Some raw \<Rightarrow>
           [\<lparr>materialId = key field, materialKind = kind field, materialValue = js_String raw,
             materialDangerous = fieldDangerous field (js_String raw),
             materialSensitivity = fieldSens field\<rparr>]) (identityFields identity)"

section \<open>The contract of an adapter\<close>

text \<open>
  A match names the entries it rests on: it holds iff it names one, and it names only entries it
  was given.
\<close>

locale ingress_matcher =
  fixes normalizeFn :: "string list \<Rightarrow> match_context \<Rightarrow> string \<Rightarrow> normalize_result"
    and matchFn :: "ingress_subject \<Rightarrow> normalized_entry list \<Rightarrow> match_context \<Rightarrow> ingress_match"
  assumes match_named: "matched (matchFn subj es c) \<longleftrightarrow> matchIds (matchFn subj es c) \<noteq> []"
    and match_given: "set (matchIds (matchFn subj es c)) \<subseteq> entryOpaqueId ` set es"
begin

lemma match_nothing: "\<not> matched (matchFn subj [] c)"
proof -
  have "set (matchIds (matchFn subj [] c)) = {}" using match_given [of subj "[]" c] by simp
  then have "matchIds (matchFn subj [] c) = []" by simp
  with match_named [of subj "[]" c] show ?thesis by simp
qed

lemma match_witness:
  assumes "matched (matchFn subj es c)"
  obtains e where "e \<in> set es" and "entryOpaqueId e \<in> set (matchIds (matchFn subj es c))"
proof -
  have "matchIds (matchFn subj es c) \<noteq> []" using assms match_named by blast
  then obtain i where "i \<in> set (matchIds (matchFn subj es c))" by (meson list.set_sel(1))
  then show thesis using match_given [of subj es c] that by blast
qed

end

interpretation identity: ingress_matcher
    "normalizeEntries (createIdentityAdapter d)" "matchSubject (createIdentityAdapter d)" for d
  by unfold_locales (auto simp: createIdentityAdapter_def identityMatchSubject_def Let_def)

section \<open>Lemmas\<close>

lemma set_flat_map_index:
  "x \<in> set (flat_map_index f xs) \<longleftrightarrow> (\<exists>i < length xs. x \<in> set (f (xs ! i) i))"
  by (force simp: flat_map_index_def set_zip)

lemma set_case_singleton:
  "x \<in> set (case y of None \<Rightarrow> [] | Some v \<Rightarrow> [f v]) \<longleftrightarrow> (\<exists>v. y = Some v \<and> x = f v)"
  by (cases y) auto

lemma matchable_entry:
  "e \<in> set (matchable (identityNormalizeEntries d entries)) \<longleftrightarrow>
   (\<exists>i < length entries.
      (wildcardTest d (entries ! i) \<and>
         e = adapterEntry d (hd (identityFields d)) 0 (entries ! i) i ''*'' (Some ''wildcard'')) \<or>
      (\<not> wildcardTest d (entries ! i) \<and>
         (\<exists>j < length (identityFields d). \<exists>v.
            normalizeFieldValue (identityFields d ! j) (entries ! i) True = Some v \<and>
            e = adapterEntry d (identityFields d ! j) j (entries ! i) i v None)))"
proof -
  have one: "e \<in> set (if wildcardTest d entry
        then [adapterEntry d (hd (identityFields d)) 0 entry i ''*'' (Some ''wildcard'')]
        else flat_map_index (\<lambda>field j. case normalizeFieldValue field entry True of
                 None \<Rightarrow> [] | Some v \<Rightarrow> [adapterEntry d field j entry i v None]) (identityFields d)) \<longleftrightarrow>
      (wildcardTest d entry \<and>
         e = adapterEntry d (hd (identityFields d)) 0 entry i ''*'' (Some ''wildcard'')) \<or>
      (\<not> wildcardTest d entry \<and>
         (\<exists>j < length (identityFields d). \<exists>v.
            normalizeFieldValue (identityFields d ! j) entry True = Some v \<and>
            e = adapterEntry d (identityFields d ! j) j entry i v None))" for entry i
    by (cases "wildcardTest d entry") (simp_all only: if_True if_False set_flat_map_index
        set_case_singleton list.set simp_thms empty_iff insert_iff)
  show ?thesis
    unfolding identityNormalizeEntries_def Let_def
    by (simp only: normalize_result.select_convs set_flat_map_index one)
qed

lemma adapterEntry_fields [simp]:
  "entryKind (adapterEntry d f j e i v s) = kind f" "entryValue (adapterEntry d f j e i v s) = v"
  "entryDangerous (adapterEntry d f j e i v s) = fieldDangerous f e"
  by (simp_all add: adapterEntry_def)

text \<open>
  With the default matching rule an identity adapter matches a sender against an allowlist
  exactly if the list has a wildcard entry, or an entry that one of the identity fields normalizes
  to \<open>*\<close> or to a value under the match key one of the sender's identifiers normalizes to.
\<close>

theorem identity_match_exactly:
  assumes "matchEntry d = None"
  shows "matched (matchSubject (createIdentityAdapter d) subj
      (matchable (normalizeEntries (createIdentityAdapter d) entries context account)) context) =
    (list_ex (wildcardTest d) entries \<or>
     list_ex (\<lambda>entry. \<not> wildcardTest d entry \<and> list_ex (\<lambda>f.
        case normalizeFieldValue f entry True of
          None \<Rightarrow> False
        | Some v \<Rightarrow> v = ''*'' \<or> identityMatchKey (kind f) v \<in> set (subjectKeys d subj))
          (identityFields d)) entries)"
proof -
  let ?es = "matchable (identityNormalizeEntries d entries)"
  let ?hit = "\<lambda>e. entryValue e = ''*'' \<or>
      identityMatchKey (entryKind e) (entryValue e) \<in> set (subjectKeys d subj)"
  have "matched (identityMatchSubject d subj ?es context) \<longleftrightarrow> (\<exists>e \<in> set ?es. ?hit e)"
    using assms
    by (auto simp: identityMatchSubject_def identityEntryMatches_def Let_def filter_empty_conv)
  also have "\<dots> \<longleftrightarrow> (\<exists>i < length entries. wildcardTest d (entries ! i)) \<or>
      (\<exists>i < length entries. \<not> wildcardTest d (entries ! i) \<and>
        (\<exists>j < length (identityFields d). \<exists>v.
           normalizeFieldValue (identityFields d ! j) (entries ! i) True = Some v \<and>
           (v = ''*'' \<or> identityMatchKey (kind (identityFields d ! j)) v \<in> set (subjectKeys d subj))))"
    unfolding matchable_entry Bex_def by fastforce
  also have "\<dots> \<longleftrightarrow> list_ex (wildcardTest d) entries \<or>
     list_ex (\<lambda>entry. \<not> wildcardTest d entry \<and> list_ex (\<lambda>f.
        case normalizeFieldValue f entry True of
          None \<Rightarrow> False
        | Some v \<Rightarrow> v = ''*'' \<or> identityMatchKey (kind f) v \<in> set (subjectKeys d subj))
          (identityFields d)) entries"
    by (auto simp: list_ex_length split: option.splits) (force split: option.splits)+
  finally show ?thesis by (simp add: createIdentityAdapter_def)
qed

definition plainField :: identity_field where
  "plainField = \<lparr>fieldKey = None, fieldKind = None, fieldNormalize = Some (\<lambda>s. Some (js_lower s)),
     fieldNormalizeEntry = None, fieldNormalizeSubject = None,
     fieldDangerousFlag = DangerousConst None, fieldSensitivity = None\<rparr>"

definition plainIdentity :: identity_descriptor where
  "plainIdentity = defineStableChannelIngressIdentity plainField [] None None None None"

lemma identity_match_exactly_witness:
  "matched (matchSubject (createIdentityAdapter plainIdentity)
      (createIdentitySubject plainIdentity (Some (JsString ''U1'')) (\<lambda>_. None))
      (matchable (normalizeEntries (createIdentityAdapter plainIdentity) [''u0'', ''u1''] ContextDm ''a''))
      ContextDm)"
proof -
  have "matchEntry plainIdentity = None"
    by (simp add: plainIdentity_def defineStableChannelIngressIdentity_def)
  moreover have "list_ex (\<lambda>entry. \<not> wildcardTest plainIdentity entry \<and> list_ex (\<lambda>f.
        case normalizeFieldValue f entry True of
          None \<Rightarrow> False
        | Some v \<Rightarrow> v = ''*'' \<or> identityMatchKey (kind f) v \<in> set (subjectKeys plainIdentity
            (createIdentitySubject plainIdentity (Some (JsString ''U1'')) (\<lambda>_. None))))
          (identityFields plainIdentity)) [''u0'', ''u1'']"
    by code_simp
  ultimately show ?thesis by (simp only: identity_match_exactly simp_thms)
qed

end
