(* ===== verification/IngressState.thy ===== *)
theory IngressState
  imports IngressIdentity
begin

text \<open>
  \<open>src/channels/message-access/state.ts\<close>: every allowlist of an inbound event is normalized and
  matched against the sender, access groups included, before any policy is applied.

  The asynchronous calls (\<open>Promise.all\<close>) only read, so they are plain calls here.  Access groups
  are looked up by their own names.  \<open>localeCompare\<close>, which orders routes of equal precedence, is
  the argument \<open>cmp\<close>.
\<close>

definition redactEntry :: "normalized_entry \<Rightarrow> redacted_entry" where
  "redactEntry e = \<lparr>opaqueEntryId = entryOpaqueId e, redactedKind = entryKind e,
     dangerous = entryDangerous e, redactedSensitivity = entrySensitivity e\<rparr>"

definition redactedEntries :: "normalized_entry list \<Rightarrow> redacted_entry list" where
  "redactedEntries es = map redactEntry es"

definition emptyMatch :: ingress_match where
  "emptyMatch = \<lparr>matched = False, matchIds = []\<rparr>"

definition mergeMatches :: "ingress_match list \<Rightarrow> ingress_match" where
  "mergeMatches matches =
     (let ids = uniqueValues (concat (map matchIds matches))
      in \<lparr>matched = (list_ex matched matches \<or> length ids > 0), matchIds = ids\<rparr>)"

text \<open>A later fact for the same group replaces an earlier one.\<close>

definition accessGroupFactByName :: "membership_fact list option \<Rightarrow> string \<Rightarrow> membership_fact option" where
  "accessGroupFactByName facts name =
     find (\<lambda>f. factGroupName f = name) (rev (nullish facts []))"

record match_result =
  mrNormalized :: "redacted_entry list"
  mrInvalid :: "entry_diagnostic list"
  mrDisabled :: "entry_diagnostic list"
  mrMatch :: ingress_match

definition normalizeAndMatch ::
    "ingress_adapter \<Rightarrow> ingress_subject \<Rightarrow> string \<Rightarrow> string list \<Rightarrow> match_context \<Rightarrow> match_result" where
  "normalizeAndMatch ad subj account entries context =
     (if length entries = 0
      then \<lparr>mrNormalized = [], mrInvalid = [], mrDisabled = [], mrMatch = emptyMatch\<rparr>
      else
        let normalized = normalizeEntries ad entries context account;
            m = (if length (matchable normalized) > 0
                 then matchSubject ad subj (matchable normalized) context else emptyMatch)
        in \<lparr>mrNormalized = redactedEntries (matchable normalized), mrInvalid = invalid normalized,
            mrDisabled = disabled normalized, mrMatch = m\<rparr>)"

definition referencedAccessGroups :: "string list \<Rightarrow> string list" where
  "referencedAccessGroups entries =
     uniqueValues (concat (map (\<lambda>e. case parseAccessGroupAllowFromEntry e of
        None \<Rightarrow> [] | Some n \<Rightarrow> [n]) entries))"

definition directAllowlistEntries :: "string list \<Rightarrow> string list" where
  "directAllowlistEntries entries = filter (\<lambda>e. parseAccessGroupAllowFromEntry e = None) entries"

definition groupSenderEntries :: "string \<Rightarrow> state_input \<Rightarrow> string list" where
  "groupSenderEntries groupName input =
     (case accessGroupConfigs input groupName of
        Some (MessageSenders members) \<Rightarrow>
          normalizeStringEntries (map JsString
            (nullish (members ''*'') [] @ nullish (members (channelId input)) []))
      | _ \<Rightarrow> [])"

section \<open>The origin subject of an event\<close>

definition eventSubjectMatchContext :: "state_input \<Rightarrow> match_context" where
  "eventSubjectMatchContext input =
     (if inputConversation input = Direct then ContextDm else ContextGroup)"

definition normalizeSubjectIdentifiersForMatch ::
    "state_input \<Rightarrow> ingress_subject \<Rightarrow> match_context \<Rightarrow> string \<Rightarrow> normalized_entry list" where
  "normalizeSubjectIdentifiersForMatch input subj context opaquePrefix =
     flat_map_index (\<lambda>identifier identifierIndex.
       let entries = normalizeEntries (adapter input) [materialValue identifier] context (accountId input);
           kept = filter (\<lambda>e. entryKind e = materialKind identifier \<and> entryValue e \<noteq> ''*'')
                    (matchable entries)
       in map (\<lambda>(e, entryIndex).
            \<lparr>entryOpaqueId = opaquePrefix @ ''-'' @ nat_digits (identifierIndex + 1) @ '':'' @
               nat_digits (entryIndex + 1),
             entryKind = entryKind e, entryValue = entryValue e,
             entryDangerous = entryDangerous e, entrySensitivity = entrySensitivity e\<rparr>)
          (zip kept [0..<length kept])) subj"

definition originSubjectMatches :: "state_input \<Rightarrow> bool" where
  "originSubjectMatches input =
     (case originSubject (eventInput input) of
        None \<Rightarrow> False
      | Some origin \<Rightarrow>
          if list_ex (\<lambda>identifier. list_ex (\<lambda>current.
               materialKind current = materialKind identifier \<and>
               materialValue current = materialValue identifier) (subject input)) origin
          then True
          else
            let context = eventSubjectMatchContext input;
                originEntries = normalizeSubjectIdentifiersForMatch input origin context ''origin''
            in if length originEntries > 0 \<and>
                  matched (matchSubject (adapter input) (subject input) originEntries context)
               then True
               else
                 let currentEntries =
                       normalizeSubjectIdentifiersForMatch input (subject input) context ''current''
                 in if length currentEntries = 0 then False
                    else matched (matchSubject (adapter input) origin currentEntries context))"

section \<open>Access groups\<close>

record group_resolution =
  grNormalized :: "redacted_entry list"
  grInvalid :: "entry_diagnostic list"
  grDisabled :: "entry_diagnostic list"
  grMatches :: "ingress_match list"
  grAccessGroups :: access_group_facts

text \<open>One round of the loop over the referenced groups.\<close>

definition resolveAccessGroup ::
    "state_input \<Rightarrow> match_context \<Rightarrow> string \<Rightarrow> group_resolution \<Rightarrow> group_resolution" where
  "resolveAccessGroup input context groupName r =
     (case accessGroupFactByName (accessGroupMembership input) groupName of
        Some (FactMatched n ids) \<Rightarrow>
          r\<lparr>grAccessGroups := (grAccessGroups r)\<lparr>agMatched := agMatched (grAccessGroups r) @ [groupName]\<rparr>,
            grMatches := grMatches r @ [\<lparr>matched = True, matchIds = ids\<rparr>]\<rparr>
      | Some (FactMissing n) \<Rightarrow>
          r\<lparr>grAccessGroups := (grAccessGroups r)\<lparr>agMissing := agMissing (grAccessGroups r) @ [groupName]\<rparr>\<rparr>
      | Some (FactUnsupported n) \<Rightarrow>
          r\<lparr>grAccessGroups := (grAccessGroups r)\<lparr>agUnsupported := agUnsupported (grAccessGroups r) @ [groupName]\<rparr>\<rparr>
      | Some (FactFailed n) \<Rightarrow>
          r\<lparr>grAccessGroups := (grAccessGroups r)\<lparr>agFailed := agFailed (grAccessGroups r) @ [groupName]\<rparr>\<rparr>
      | Some (FactNotMatched n) \<Rightarrow> r
      | None \<Rightarrow>
          (case accessGroupConfigs input groupName of
             None \<Rightarrow>
               r\<lparr>grAccessGroups := (grAccessGroups r)\<lparr>agMissing := agMissing (grAccessGroups r) @ [groupName]\<rparr>\<rparr>
           | Some DiscordAudience \<Rightarrow>
               r\<lparr>grAccessGroups := (grAccessGroups r)\<lparr>agUnsupported := agUnsupported (grAccessGroups r) @ [groupName]\<rparr>\<rparr>
           | Some (MessageSenders members) \<Rightarrow>
               let resolved = normalizeAndMatch (adapter input) (subject input) (accountId input)
                                (groupSenderEntries groupName input) context;
                   r1 = r\<lparr>grNormalized := grNormalized r @ mrNormalized resolved,
                          grInvalid := grInvalid r @ mrInvalid resolved,
                          grDisabled := grDisabled r @ mrDisabled resolved\<rparr>
               in if matched (mrMatch resolved)
                  then r1\<lparr>grAccessGroups := (grAccessGroups r1)\<lparr>agMatched := agMatched (grAccessGroups r1) @ [groupName]\<rparr>,
                          grMatches := grMatches r1 @ [mrMatch resolved]\<rparr>
                  else r1))"

definition resolveAccessGroupEntries ::
    "state_input \<Rightarrow> match_context \<Rightarrow> string list \<Rightarrow> group_resolution" where
  "resolveAccessGroupEntries input context referenced =
     fold (resolveAccessGroup input context) referenced
       \<lparr>grNormalized = [], grInvalid = [], grDisabled = [], grMatches = [],
        grAccessGroups = \<lparr>agReferenced = referenced, agMatched = [], agMissing = [],
          agUnsupported = [], agFailed = []\<rparr>\<rparr>"

section \<open>Allowlists, routes and the state\<close>

definition resolveIngressAllowlist ::
    "state_input \<Rightarrow> js_entry list option \<Rightarrow> match_context \<Rightarrow> resolved_allowlist" where
  "resolveIngressAllowlist input rawEntries context =
     (let entries = normalizeStringEntries (nullish rawEntries []);
          referenced = referencedAccessGroups entries;
          directEntries = directAllowlistEntries entries;
          direct = normalizeAndMatch (adapter input) (subject input) (accountId input)
                     directEntries context;
          groups = resolveAccessGroupEntries input context referenced;
          m = mergeMatches (mrMatch direct # grMatches groups)
      in \<lparr>rawEntryCount = length entries,
          normalizedEntries = mrNormalized direct @ grNormalized groups,
          invalidEntries = mrInvalid direct @ grInvalid groups,
          disabledEntries = mrDisabled direct @ grDisabled groups,
          matchedEntryIds = matchIds m,
          hasConfiguredEntries = (length entries > 0),
          hasMatchableEntries = (length (mrNormalized direct) > 0 \<or> length (grNormalized groups) > 0),
          hasWildcard = (''*'' \<in> set directEntries),
          accessGroups = grAccessGroups groups,
          allowMatch = m\<rparr>)"

text \<open>\<open>toSorted\<close> with a comparator: a stable insertion sort.\<close>

fun insert_by :: "('a \<Rightarrow> 'a \<Rightarrow> int) \<Rightarrow> 'a \<Rightarrow> 'a list \<Rightarrow> 'a list" where
  "insert_by cmp x [] = [x]"
| "insert_by cmp x (y # ys) = (if cmp x y \<le> 0 then x # y # ys else y # insert_by cmp x ys)"

definition to_sorted :: "('a \<Rightarrow> 'a \<Rightarrow> int) \<Rightarrow> 'a list \<Rightarrow> 'a list" where
  "to_sorted cmp xs = foldr (insert_by cmp) xs []"

definition compareRoutes :: "(string \<Rightarrow> string \<Rightarrow> int) \<Rightarrow> route_facts \<Rightarrow> route_facts \<Rightarrow> int" where
  "compareRoutes cmp left right =
     (let d = routePrecedence left - routePrecedence right
      in if d \<noteq> 0 then d else cmp (routeId left) (routeId right))"

definition resolveRouteFact :: "state_input \<Rightarrow> route_facts \<Rightarrow> resolved_route" where
  "resolveRouteFact input route =
     (let senderAllowFrom = orElse (routeSenderAllowFrom route)
            (case routeSenderSource route of
               Some EffectiveDm \<Rightarrow> inputDm (allowlistInput input)
             | Some EffectiveGroup \<Rightarrow> inputGroup (allowlistInput input)
             | None \<Rightarrow> None)
      in \<lparr>resolvedId = routeId route, resolvedKind = routeKind route, resolvedGate = routeGate route,
          resolvedEffect = routeEffect route, resolvedPrecedence = routePrecedence route,
          resolvedSenderPolicy = routeSenderPolicy route, resolvedMatch = routeMatch route,
          senderAllowlist = map_option (\<lambda>raw. resolveIngressAllowlist input (Some raw) ContextRoute)
            senderAllowFrom\<rparr>)"

definition resolveRouteFacts :: "(string \<Rightarrow> string \<Rightarrow> int) \<Rightarrow> state_input \<Rightarrow> resolved_route list" where
  "resolveRouteFacts cmp input =
     map (resolveRouteFact input)
       (to_sorted (compareRoutes cmp) (nullish (inputRouteFacts input) []))"

definition resolveChannelIngressState ::
    "(string \<Rightarrow> string \<Rightarrow> int) \<Rightarrow> state_input \<Rightarrow> ingress_state" where
  "resolveChannelIngressState cmp input =
     \<lparr>stateChannelId = channelId input, stateAccountId = accountId input,
      conversationKind = inputConversation input,
      event = \<lparr>eventKind = inputKind (eventInput input), authMode = inputAuthMode (eventInput input),
        mayPair = inputMayPair (eventInput input),
        hasOriginSubject = (originSubject (eventInput input) \<noteq> None),
        originSubjectMatched = originSubjectMatches input\<rparr>,
      mentionFacts = inputMentionFacts input,
      routeFacts = resolveRouteFacts cmp input,
      allowlists =
        \<lparr>listDm = resolveIngressAllowlist input (inputDm (allowlistInput input)) ContextDm,
         listPairingStore =
           resolveIngressAllowlist input (inputPairingStore (allowlistInput input)) ContextDm,
         listGroup = resolveIngressAllowlist input (inputGroup (allowlistInput input)) ContextGroup,
         listCommandOwner =
           resolveIngressAllowlist input (inputCommandOwner (allowlistInput input)) ContextCommand,
         listCommandGroup =
           resolveIngressAllowlist input (inputCommandGroup (allowlistInput input)) ContextCommand\<rparr>\<rparr>"

section \<open>Lemmas\<close>

lemma mergeMatches_matched:
  "matched (mergeMatches ms) \<longleftrightarrow> (\<exists>m \<in> set ms. matched m \<or> matchIds m \<noteq> [])"
  by (auto simp: mergeMatches_def Let_def list_ex_iff)

lemma mergeMatches_ids: "set (matchIds (mergeMatches ms)) = (\<Union>m \<in> set ms. set (matchIds m))"
  by (simp add: mergeMatches_def Let_def)

text \<open>What a fold over the groups collects, group by group.\<close>

definition groupGrants :: "state_input \<Rightarrow> match_context \<Rightarrow> string \<Rightarrow> bool" where
  "groupGrants input context g \<longleftrightarrow>
     (case accessGroupFactByName (accessGroupMembership input) g of
        Some (FactMatched n ids) \<Rightarrow> True
      | Some _ \<Rightarrow> False
      | None \<Rightarrow>
          (case accessGroupConfigs input g of
             Some (MessageSenders members) \<Rightarrow>
               matched (mrMatch (normalizeAndMatch (adapter input) (subject input)
                 (accountId input) (groupSenderEntries g input) context))
           | _ \<Rightarrow> False))"

lemma grMatches_grants:
  "list_all matched (grMatches r) \<Longrightarrow>
   list_all matched (grMatches (resolveAccessGroup input context g r)) \<and>
   (grMatches (resolveAccessGroup input context g r) \<noteq> [] \<longleftrightarrow>
      grMatches r \<noteq> [] \<or> groupGrants input context g)"
  by (auto simp: resolveAccessGroup_def groupGrants_def Let_def split: option.splits
      membership_fact.splits access_group.splits)

lemma fold_grMatches:
  "list_all matched (grMatches r) \<Longrightarrow>
   list_all matched (grMatches (fold (resolveAccessGroup input ctx) gs r)) \<and>
   (grMatches (fold (resolveAccessGroup input ctx) gs r) \<noteq> [] \<longleftrightarrow>
      grMatches r \<noteq> [] \<or> list_ex (groupGrants input ctx) gs)"
proof (induction gs arbitrary: r)
  case Nil
  then show ?case by simp
next
  case (Cons g gs)
  show ?case
    using grMatches_grants [OF Cons.prems, of input ctx g]
      Cons.IH [of "resolveAccessGroup input ctx g r"] by auto
qed

lemma set_referencedAccessGroups:
  "set (referencedAccessGroups es) = {n. \<exists>e \<in> set es. parseAccessGroupAllowFromEntry e = Some n}"
  by (auto simp: referencedAccessGroups_def split: option.splits)

text \<open>
  An allowlist resolves to a match exactly when a direct entry matches or one of the access groups
  it names grants access: a membership fact says so, or (without a fact) one of the group's sender
  entries for this channel matches.  A missing, unsupported or failed group grants nothing.
\<close>

lemma normalizeAndMatch_empty_ids:
  assumes "\<And>es. matched (matchSubject ad subj es context) \<longleftrightarrow> matchIds (matchSubject ad subj es context) \<noteq> []"
  shows "matchIds (mrMatch (normalizeAndMatch ad subj account entries context)) \<noteq> [] \<longleftrightarrow>
    matched (mrMatch (normalizeAndMatch ad subj account entries context))"
  using assms by (simp add: normalizeAndMatch_def Let_def emptyMatch_def)

lemma allowlist_match_iff:
  assumes named: "\<And>es. matched (matchSubject (adapter input) (subject input) es context) \<longleftrightarrow>
    matchIds (matchSubject (adapter input) (subject input) es context) \<noteq> []"
  shows "matched (allowMatch (resolveIngressAllowlist input raw context)) \<longleftrightarrow>
    matched (mrMatch (normalizeAndMatch (adapter input) (subject input) (accountId input)
      (directAllowlistEntries (normalizeStringEntries (nullish raw []))) context)) \<or>
    (\<exists>e \<in> set (normalizeStringEntries (nullish raw [])). \<exists>g.
       parseAccessGroupAllowFromEntry e = Some g \<and> groupGrants input context g)"
proof -
  let ?entries = "normalizeStringEntries (nullish raw [])"
  let ?direct = "mrMatch (normalizeAndMatch (adapter input) (subject input) (accountId input)
      (directAllowlistEntries ?entries) context)"
  let ?groups = "grMatches (resolveAccessGroupEntries input context (referencedAccessGroups ?entries))"
  have groups: "list_all matched ?groups"
    "?groups \<noteq> [] \<longleftrightarrow> list_ex (groupGrants input context) (referencedAccessGroups ?entries)"
    unfolding resolveAccessGroupEntries_def
    using fold_grMatches [where gs = "referencedAccessGroups ?entries" and input = input and
        ctx = "context" and r = "\<lparr>grNormalized = [], grInvalid = [], grDisabled = [],
          grMatches = [], grAccessGroups = \<lparr>agReferenced = referencedAccessGroups ?entries,
          agMatched = [], agMissing = [], agUnsupported = [], agFailed = []\<rparr>\<rparr>"]
    by simp_all
  have "matched (allowMatch (resolveIngressAllowlist input raw context)) \<longleftrightarrow>
      matched ?direct \<or> matchIds ?direct \<noteq> [] \<or> (\<exists>m \<in> set ?groups. matched m \<or> matchIds m \<noteq> [])"
    by (simp add: resolveIngressAllowlist_def Let_def mergeMatches_matched)
  also have "\<dots> \<longleftrightarrow> matched ?direct \<or> ?groups \<noteq> []"
  proof -
    have "(\<exists>m \<in> set ?groups. matched m \<or> matchIds m \<noteq> []) \<longleftrightarrow> ?groups \<noteq> []"
      using groups(1) by (cases ?groups) auto
    then show ?thesis using normalizeAndMatch_empty_ids [OF named] by blast
  qed
  finally show ?thesis
    unfolding groups(2) by (auto simp: list_ex_iff set_referencedAccessGroups)
qed

end
