(* ===== verification/IngressDecision.thy ===== *)
theory IngressDecision
  imports IngressState
begin

text \<open>
  \<open>src/channels/message-access/allowlist.ts\<close>, \<open>sender-gates.ts\<close> and \<open>decision.ts\<close>: the policy is
  applied to the resolved allowlists, and route, sender, command, event and activation gates are
  reduced, in order, to one admission with the gate that decided it.
\<close>

section \<open>Allowlists under a policy\<close>

definition allowlistFailureReason :: "resolved_allowlist \<Rightarrow> reason_code option" where
  "allowlistFailureReason a =
     (if length (agFailed (accessGroups a)) > 0 then Some AccessGroupFailed
      else if length (agUnsupported (accessGroups a)) > 0 then Some AccessGroupUnsupported
      else if length (agMissing (accessGroups a)) > 0 then Some AccessGroupMissing
      else None)"

definition redactedAllowlistDiagnostics :: "resolved_allowlist \<Rightarrow> reason_code \<Rightarrow> allowlist_facts" where
  "redactedAllowlistDiagnostics a reason =
     \<lparr>factConfigured = hasConfiguredEntries a, factMatched = matched (allowMatch a),
      factReason = reason, factMatchedIds = matchedEntryIds a,
      factInvalidCount = length (invalidEntries a), factDisabledCount = length (disabledEntries a),
      factAccessGroups = accessGroups a\<rparr>"

definition mergeResolvedAllowlists :: "resolved_allowlist list \<Rightarrow> resolved_allowlist" where
  "mergeResolvedAllowlists ls =
     (let ids = uniqueValues (concat (map matchedEntryIds ls));
          gather = (\<lambda>f. uniqueValues (concat (map (\<lambda>a. f (accessGroups a)) ls)))
      in \<lparr>rawEntryCount = sum_list (map rawEntryCount ls),
          normalizedEntries = concat (map normalizedEntries ls),
          invalidEntries = concat (map invalidEntries ls),
          disabledEntries = concat (map disabledEntries ls),
          matchedEntryIds = ids,
          hasConfiguredEntries = list_ex hasConfiguredEntries ls,
          hasMatchableEntries = list_ex hasMatchableEntries ls,
          hasWildcard = list_ex hasWildcard ls,
          accessGroups = \<lparr>agReferenced = gather agReferenced, agMatched = gather agMatched,
            agMissing = gather agMissing, agUnsupported = gather agUnsupported,
            agFailed = gather agFailed\<rparr>,
          allowMatch = \<lparr>matched = (list_ex (\<lambda>a. matched (allowMatch a)) ls \<or> length ids > 0),
            matchIds = ids\<rparr>\<rparr>)"

definition isDangerous :: "redacted_entry \<Rightarrow> bool" where
  "isDangerous e \<longleftrightarrow> dangerous e = Some True"

definition applyMutableIdentifierPolicy :: "resolved_allowlist \<Rightarrow> ingress_policy \<Rightarrow> resolved_allowlist" where
  "applyMutableIdentifierPolicy a policy =
     (if mutableIdentifierMatching policy = Some MutableEnabled then a
      else
        let dangerousIds = uniqueValues (map opaqueEntryId (filter isDangerous (normalizedEntries a)))
        in if length dangerousIds = 0 then a
           else
             let ids = filter (\<lambda>i. i \<notin> set dangerousIds) (matchedEntryIds a);
                 dis = disabledEntries a @
                   map (\<lambda>e. \<lparr>diagnosticEntryId = Some (opaqueEntryId e),
                             diagnosticReason = MutableIdentifierDisabled\<rparr>)
                     (filter isDangerous (normalizedEntries a))
             in a\<lparr>disabledEntries := dis, matchedEntryIds := ids,
                  hasMatchableEntries := list_ex (\<lambda>e. \<not> isDangerous e) (normalizedEntries a),
                  allowMatch := \<lparr>matched = length ids > 0, matchIds = ids\<rparr>\<rparr>)"

text \<open>The loop over the routes of \<open>effectiveGroupSenderAllowlist\<close>.\<close>

fun overrideByRoutes :: "resolved_route list \<Rightarrow> resolved_allowlist \<Rightarrow> resolved_allowlist" where
  "overrideByRoutes [] effective = effective"
| "overrideByRoutes (route # routes) effective =
     (case senderAllowlist route of
        None \<Rightarrow> overrideByRoutes routes effective
      | Some a \<Rightarrow>
          if resolvedGate route \<noteq> RouteMatched then overrideByRoutes routes effective
          else if resolvedSenderPolicy route = SenderInherit
          then overrideByRoutes routes (mergeResolvedAllowlists [effective, a])
          else overrideByRoutes routes a)"

definition effectiveGroupSenderAllowlist :: "ingress_state \<Rightarrow> ingress_policy \<Rightarrow> resolved_allowlist" where
  "effectiveGroupSenderAllowlist s policy =
     (let effective =
            (if groupAllowFromFallbackToAllowFrom policy = Some True \<and>
                \<not> hasConfiguredEntries (listGroup (allowlists s))
             then listDm (allowlists s) else listGroup (allowlists s))
      in applyMutableIdentifierPolicy (overrideByRoutes (routeFacts s) effective) policy)"

section \<open>Sender gates\<close>

definition makeSenderGate ::
    "string \<Rightarrow> gate_kind \<Rightarrow> gate_effect \<Rightarrow> bool \<Rightarrow> reason_code \<Rightarrow> ingress_match \<Rightarrow> sender_policy \<Rightarrow>
     resolved_allowlist \<Rightarrow> access_gate" where
  "makeSenderGate i gk effect allow reason m policy source =
     (bareGate i PhaseSender gk effect allow reason)
       \<lparr>gateMatch := Some m, gateSender := Some policy,
        gateAllowlist := Some (redactedAllowlistDiagnostics source reason)\<rparr>"

definition senderGateForDirect :: "ingress_state \<Rightarrow> ingress_policy \<Rightarrow> access_gate" where
  "senderGateForDirect s policy =
     (let dm = applyMutableIdentifierPolicy (listDm (allowlists s)) policy;
          store = applyMutableIdentifierPolicy (listPairingStore (allowlists s)) policy;
          gate = (\<lambda>effect allow reason source. makeSenderGate ''sender:dm'' GateDmSender effect allow
                    reason (allowMatch source) (DmSenderPolicy (dmPolicy policy)) source);
          allow = (\<lambda>reason. gate EffectAllow True reason dm);
          block = (\<lambda>reason. gate EffectBlockDispatch False reason dm)
      in if dmPolicy policy = DmDisabled then block DmPolicyDisabled
         else if dmPolicy policy = DmOpen then
           (if hasWildcard dm then allow DmPolicyOpen
            else if matched (allowMatch dm) then allow DmPolicyAllowlisted
            else block DmPolicyNotAllowlisted)
         else if matched (allowMatch dm) then allow DmPolicyAllowlisted
         else if dmPolicy policy = DmPairing \<and> matched (allowMatch store)
         then gate EffectAllow True DmPolicyAllowlisted store
         else if dmPolicy policy = DmPairing \<and> mayPair (event s)
         then block DmPolicyPairingRequired
         else block (if dmPolicy policy = DmPairing then EventPairingNotAllowed
                     else nullish (allowlistFailureReason dm) DmPolicyNotAllowlisted))"

definition senderGateForGroup :: "ingress_state \<Rightarrow> ingress_policy \<Rightarrow> access_gate" where
  "senderGateForGroup s policy =
     (let grp = effectiveGroupSenderAllowlist s policy;
          gate = (\<lambda>effect allow reason. makeSenderGate ''sender:group'' GateGroupSender effect allow
                    reason (allowMatch grp) (GroupSenderPolicy (groupPolicy policy)) grp);
          allow = (\<lambda>reason. gate EffectAllow True reason);
          block = (\<lambda>reason. gate EffectBlockDispatch False reason)
      in if groupPolicy policy = GroupDisabled then block GroupPolicyDisabled
         else if groupPolicy policy = GroupOpen then allow GroupPolicyOpen
         else if \<not> hasConfiguredEntries grp then block GroupPolicyEmptyAllowlist
         else if matched (allowMatch grp) then allow GroupPolicyAllowed
         else block (nullish (allowlistFailureReason grp) GroupPolicyNotAllowlisted))"

definition applyEventAuthModeToSenderGate :: "ingress_state \<Rightarrow> access_gate \<Rightarrow> access_gate" where
  "applyEventAuthModeToSenderGate s gate =
     (if authMode (event s) = AuthInbound \<or> gateAllowed gate then gate
      else gate\<lparr>gateEffect := EffectIgnore, gateAllowed := True, gateReason := SenderNotRequired,
             gateAllowlist := map_option (\<lambda>a. a\<lparr>factReason := SenderNotRequired\<rparr>) (gateAllowlist gate)\<rparr>)"

section \<open>Route, command, event and activation gates\<close>

definition routeGateOf :: "resolved_route \<Rightarrow> access_gate" where
  "routeGateOf route =
     (bareGate (resolvedId route) PhaseRoute (gateKindOfRoute (resolvedKind route))
        (gateEffectOfRoute (resolvedEffect route))
        (resolvedEffect route \<noteq> RouteBlockDispatch)
        (if resolvedEffect route = RouteBlockDispatch then RouteBlocked else Allowed))
       \<lparr>gateMatch := resolvedMatch route\<rparr>"

definition routeGates :: "ingress_state \<Rightarrow> access_gate list" where
  "routeGates s = map routeGateOf (routeFacts s)"

definition routeSenderIsEmpty :: "resolved_route \<Rightarrow> bool" where
  "routeSenderIsEmpty r \<longleftrightarrow>
     resolvedSenderPolicy r = SenderDenyWhenEmpty \<and> resolvedGate r = RouteMatched \<and>
     map_option hasConfiguredEntries (senderAllowlist r) \<noteq> Some True"

definition routeSenderEmptyGate :: "ingress_state \<Rightarrow> access_gate option" where
  "routeSenderEmptyGate s =
     (case find routeSenderIsEmpty (routeFacts s) of
        None \<Rightarrow> None
      | Some route \<Rightarrow> Some
          ((bareGate (resolvedId route @ '':sender'') PhaseRoute GateRouteSender EffectBlockDispatch
              False RouteSenderEmpty)
            \<lparr>gateMatch := resolvedMatch route,
             gateAllowlist := map_option (\<lambda>a. redactedAllowlistDiagnostics a RouteSenderEmpty)
               (senderAllowlist route)\<rparr>))"

definition mergeCommandMatch :: "ingress_match \<Rightarrow> ingress_match \<Rightarrow> ingress_match" where
  "mergeCommandMatch owner grp =
     (let ids = uniqueValues (matchIds owner @ matchIds grp)
      in \<lparr>matched = (matched owner \<or> matched grp \<or> length ids > 0), matchIds = ids\<rparr>)"

definition commandGate :: "ingress_state \<Rightarrow> ingress_policy \<Rightarrow> access_gate" where
  "commandGate s policy =
     (case commandPolicy policy of
        None \<Rightarrow> bareGate ''command'' PhaseCommand GateCommand EffectAllow True CommandAuthorized
      | Some command \<Rightarrow>
          let useAccessGroups = nullish (cmdUseAccessGroups command) True;
              owner = applyMutableIdentifierPolicy (listCommandOwner (allowlists s)) policy;
              grp = applyMutableIdentifierPolicy (listCommandGroup (allowlists s)) policy;
              authorized = resolveCommandAuthorizedFromAuthorizers useAccessGroups
                [\<lparr>configured = hasConfiguredEntries owner, allowed = matched (allowMatch owner)\<rparr>,
                 \<lparr>configured = hasConfiguredEntries grp, allowed = matched (allowMatch grp)\<rparr>]
                (cmdModeWhenOff command);
              shouldBlock = (cmdAllowTextCommands command \<and> cmdHasControlCommand command \<and> \<not> authorized)
          in (bareGate ''command'' PhaseCommand GateCommand
                (if shouldBlock then EffectBlockCommand else EffectAllow) authorized
                (if shouldBlock then ControlCommandUnauthorized else CommandAuthorized))
               \<lparr>gateMatch := Some (mergeCommandMatch (allowMatch owner) (allowMatch grp)),
                gateCommand := Some \<lparr>factUseAccessGroups = useAccessGroups,
                  factAllowTextCommands = cmdAllowTextCommands command,
                  factModeWhenOff = cmdModeWhenOff command,
                  shouldBlockControlCommand = shouldBlock\<rparr>\<rparr>)"

definition eventGate :: "ingress_state \<Rightarrow> access_gate \<Rightarrow> access_gate \<Rightarrow> access_gate" where
  "eventGate s sender command =
     (let eventResult = (\<lambda>allow reason. (bareGate ''event'' PhaseEvent GateEvent
            (if allow then EffectAllow else EffectBlockDispatch) allow reason)
            \<lparr>gateEvent := Some (event s)\<rparr>)
      in case authMode (event s) of
           AuthNone \<Rightarrow> eventResult True EventAuthorized
         | AuthRouteOnly \<Rightarrow> eventResult True EventAuthorized
         | AuthCommand \<Rightarrow> eventResult (gateAllowed command)
             (if gateAllowed command then EventAuthorized else EventUnauthorized)
         | AuthOriginSubject \<Rightarrow>
             if \<not> hasOriginSubject (event s) then eventResult False OriginSubjectMissing
             else eventResult (originSubjectMatched (event s))
               (if originSubjectMatched (event s) then EventAuthorized else OriginSubjectNotMatched)
         | AuthInbound \<Rightarrow> eventResult (gateAllowed sender)
             (if gateAllowed sender then EventAuthorized else EventUnauthorized))"

definition resolveAllowedImplicitMentionKinds ::
    "activation_policy option \<Rightarrow> implicit_mention_kind list option" where
  "resolveAllowedImplicitMentionKinds act =
     (case act of
        None \<Rightarrow> None
      | Some p \<Rightarrow> orElse (actAllowedKinds p)
          (map_option allowedImplicitMentionKindsFromConfig (actImplicitMentions p)))"

definition activationMetadata ::
    "activation_policy option \<Rightarrow> mention_facts option \<Rightarrow> bool \<Rightarrow> bool option \<Rightarrow> bool option \<Rightarrow>
     activation_facts" where
  "activationMetadata act facts skip effectiveMentioned bypass =
     \<lparr>afHasMentionFacts = (facts \<noteq> None),
      afRequireMention = nullish (map_option actRequireMention act) False,
      afAllowTextCommands = nullish (map_option actAllowTextCommands act) False,
      afAllowedKinds = resolveAllowedImplicitMentionKinds act,
      afOrder = (case act of None \<Rightarrow> None | Some p \<Rightarrow> actOrder p),
      afShouldSkip = skip,
      afCanDetectMention = map_option canDetectMention facts,
      afWasMentioned = map_option wasMentioned facts,
      afHasAnyMention = (case facts of None \<Rightarrow> None | Some f \<Rightarrow> hasAnyMention f),
      afImplicitKinds = (case facts of None \<Rightarrow> None | Some f \<Rightarrow> implicitMentionKinds f),
      afEffectiveWasMentioned = effectiveMentioned, afShouldBypassMention = bypass\<rparr>"

definition activationGate :: "ingress_state \<Rightarrow> ingress_policy \<Rightarrow> access_gate \<Rightarrow> access_gate" where
  "activationGate s policy command =
     (let activationResult = (\<lambda>skip effectiveMentioned bypass.
            (bareGate ''activation'' PhaseActivation GateMention
               (if skip then EffectSkip else EffectAllow) (\<not> skip)
               (if skip then ActivationSkipped else ActivationAllowed))
              \<lparr>gateActivation := Some (activationMetadata (activation policy) (mentionFacts s) skip
                 effectiveMentioned bypass)\<rparr>)
      in case (activation policy, mentionFacts s) of
           (Some act, Some facts) \<Rightarrow>
             let result = resolveInboundMentionDecision (NestedParams facts
                   \<lparr>isGroup = (conversationKind s \<noteq> Direct),
                    requireMention = actRequireMention act, implicitMentions = None,
                    allowedImplicitMentionKinds = resolveAllowedImplicitMentionKinds (Some act),
                    allowTextCommands = actAllowTextCommands act,
                    hasControlCommand = nullish (map_option cmdHasControlCommand (commandPolicy policy)) False,
                    commandAuthorized = gateAllowed command\<rparr>)
             in activationResult (shouldSkip result) (Some (effectiveWasMentioned result))
                  (Some (shouldBypassMention result))
         | (_, facts) \<Rightarrow>
             activationResult False
               (map_option (\<lambda>f. wasMentioned f \<or> length (nullish (implicitMentionKinds f) []) > 0) facts)
               None)"

section \<open>The decision\<close>

definition decisiveDecision ::
    "admission_action \<Rightarrow> decision_kind \<Rightarrow> access_gate \<Rightarrow> access_gate list \<Rightarrow> ingress_decision" where
  "decisiveDecision action d gate gates =
     \<lparr>admission = action, decision = d, decisiveGateId = gateId gate, reasonCode = gateReason gate,
      graph = gates\<rparr>"

definition activationFirst :: "ingress_state \<Rightarrow> ingress_policy \<Rightarrow> access_gate option" where
  "activationFirst s policy =
     (case activation policy of
        Some act \<Rightarrow>
          if actOrder act = Some BeforeSender \<and> \<not> actAllowTextCommands act
          then Some (activationGate s policy (commandGate s (policy\<lparr>commandPolicy := None\<rparr>)))
          else None
      | None \<Rightarrow> None)"

definition senderGateFor :: "ingress_state \<Rightarrow> ingress_policy \<Rightarrow> access_gate" where
  "senderGateFor s policy = applyEventAuthModeToSenderGate s
     (if conversationKind s = Direct then senderGateForDirect s policy else senderGateForGroup s policy)"

text \<open>The part of \<open>decideChannelIngress\<close> after the sender gate, whose gates are \<open>gates\<close> so far.\<close>

definition decideAfterSender ::
    "ingress_state \<Rightarrow> ingress_policy \<Rightarrow> access_gate option \<Rightarrow> access_gate \<Rightarrow> access_gate list \<Rightarrow>
     ingress_decision" where
  "decideAfterSender s policy activationBefore sender gates =
     (let command = commandGate s policy;
          gates1 = gates @ [command]
      in if gateEffect command = EffectBlockCommand
         then decisiveDecision Drop DecisionBlock command gates1
         else
           let ev = eventGate s sender command;
               gates2 = gates1 @ [ev]
           in if \<not> gateAllowed ev then decisiveDecision Drop DecisionBlock ev gates2
              else
                let act = nullish activationBefore (activationGate s policy command);
                    gates3 = (if activationBefore = None then gates2 @ [act] else gates2)
                in if gateEffect act = EffectSkip then decisiveDecision Skip DecisionAllow act gates3
                   else if gateEffect act = EffectObserve
                   then decisiveDecision Observe DecisionAllow act gates3
                   else decisiveDecision Dispatch DecisionAllow act gates3)"

definition decideChannelIngress :: "ingress_state \<Rightarrow> ingress_policy \<Rightarrow> ingress_decision" where
  "decideChannelIngress s policy =
     (let gates0 = routeGates s @ (case routeSenderEmptyGate s of None \<Rightarrow> [] | Some g \<Rightarrow> [g])
      in case find (\<lambda>g. gateEffect g = EffectBlockDispatch) gates0 of
           Some routeBlock \<Rightarrow> decisiveDecision Drop DecisionBlock routeBlock gates0
         | None \<Rightarrow>
             let activationBefore = activationFirst s policy;
                 gates1 = gates0 @ (case activationBefore of None \<Rightarrow> [] | Some g \<Rightarrow> [g])
             in if (\<exists>g \<in> set_option activationBefore. gateEffect g = EffectSkip)
                then decisiveDecision Skip DecisionAllow (the activationBefore) gates1
                else
                  let sender = senderGateFor s policy;
                      gates2 = gates1 @ [sender]
                  in if \<not> gateAllowed sender
                     then (if gateReason sender = DmPolicyPairingRequired
                           then decisiveDecision PairingRequired DecisionPairing sender gates2
                           else decisiveDecision Drop DecisionBlock sender gates2)
                     else decideAfterSender s policy activationBefore sender gates2)"

end
