(* ===== verification/IngressProofs.thy ===== *)
theory IngressProofs
  imports IngressDecision
begin

text \<open>
  What a channel admits, stated without gates: \<open>admissionSpec\<close> is the decision table of the ingress,
  and the first property shows that the gate graph of \<open>IngressDecision\<close> implements it.
\<close>

section \<open>The decision table\<close>

definition grants :: "ingress_policy \<Rightarrow> resolved_allowlist \<Rightarrow> bool" where
  "grants policy a \<longleftrightarrow> matched (allowMatch (applyMutableIdentifierPolicy a policy))"

definition directSenderAuthorized :: "ingress_state \<Rightarrow> ingress_policy \<Rightarrow> bool" where
  "directSenderAuthorized s policy =
     (case dmPolicy policy of
        DmDisabled \<Rightarrow> False
      | DmOpen \<Rightarrow> hasWildcard (listDm (allowlists s)) \<or> grants policy (listDm (allowlists s))
      | DmAllowlist \<Rightarrow> grants policy (listDm (allowlists s))
      | DmPairing \<Rightarrow> grants policy (listDm (allowlists s)) \<or>
          grants policy (listPairingStore (allowlists s)))"

definition groupSenderAuthorized :: "ingress_state \<Rightarrow> ingress_policy \<Rightarrow> bool" where
  "groupSenderAuthorized s policy =
     (case groupPolicy policy of
        GroupDisabled \<Rightarrow> False
      | GroupOpen \<Rightarrow> True
      | GroupAllowlist \<Rightarrow> hasConfiguredEntries (effectiveGroupSenderAllowlist s policy) \<and>
          matched (allowMatch (effectiveGroupSenderAllowlist s policy)))"

definition senderAuthorized :: "ingress_state \<Rightarrow> ingress_policy \<Rightarrow> bool" where
  "senderAuthorized s policy =
     (if conversationKind s = Direct then directSenderAuthorized s policy
      else groupSenderAuthorized s policy)"

definition routeBlocked :: "ingress_state \<Rightarrow> bool" where
  "routeBlocked s \<longleftrightarrow>
     list_ex (\<lambda>r. resolvedEffect r = RouteBlockDispatch \<or> routeSenderIsEmpty r) (routeFacts s)"

definition senderCommandAuthorized :: "ingress_state \<Rightarrow> ingress_policy \<Rightarrow> command_policy \<Rightarrow> bool" where
  "senderCommandAuthorized s policy c =
     resolveCommandAuthorizedFromAuthorizers (nullish (cmdUseAccessGroups c) True)
       [\<lparr>configured = hasConfiguredEntries (listCommandOwner (allowlists s)),
         allowed = grants policy (listCommandOwner (allowlists s))\<rparr>,
        \<lparr>configured = hasConfiguredEntries (listCommandGroup (allowlists s)),
         allowed = grants policy (listCommandGroup (allowlists s))\<rparr>] (cmdModeWhenOff c)"

definition commandAllowed :: "ingress_state \<Rightarrow> ingress_policy \<Rightarrow> bool" where
  "commandAllowed s policy =
     (case commandPolicy policy of None \<Rightarrow> True | Some c \<Rightarrow> senderCommandAuthorized s policy c)"

definition commandBlocks :: "ingress_state \<Rightarrow> ingress_policy \<Rightarrow> bool" where
  "commandBlocks s policy =
     (case commandPolicy policy of
        None \<Rightarrow> False
      | Some c \<Rightarrow> cmdAllowTextCommands c \<and> cmdHasControlCommand c \<and> \<not> senderCommandAuthorized s policy c)"

definition eventAuthorized :: "ingress_state \<Rightarrow> ingress_policy \<Rightarrow> bool" where
  "eventAuthorized s policy =
     (case authMode (event s) of
        AuthCommand \<Rightarrow> commandAllowed s policy
      | AuthOriginSubject \<Rightarrow> hasOriginSubject (event s) \<and> originSubjectMatched (event s)
      | _ \<Rightarrow> True)"

definition mentionSkips :: "ingress_state \<Rightarrow> ingress_policy \<Rightarrow> bool \<Rightarrow> bool \<Rightarrow> bool" where
  "mentionSkips s policy controlCommand authorized =
     (case (activation policy, mentionFacts s) of
        (Some act, Some facts) \<Rightarrow> shouldSkip (resolveInboundMentionDecision (NestedParams facts
          \<lparr>isGroup = (conversationKind s \<noteq> Direct), requireMention = actRequireMention act,
           implicitMentions = None,
           allowedImplicitMentionKinds = resolveAllowedImplicitMentionKinds (Some act),
           allowTextCommands = actAllowTextCommands act, hasControlCommand = controlCommand,
           commandAuthorized = authorized\<rparr>))
      | _ \<Rightarrow> False)"

definition mentionCheckedFirst :: "ingress_policy \<Rightarrow> bool" where
  "mentionCheckedFirst policy =
     (case activation policy of
        None \<Rightarrow> False
      | Some act \<Rightarrow> actOrder act = Some BeforeSender \<and> \<not> actAllowTextCommands act)"

definition admissionSpec :: "ingress_state \<Rightarrow> ingress_policy \<Rightarrow> admission_action" where
  "admissionSpec s policy =
     (if routeBlocked s then Drop
      else if mentionCheckedFirst policy \<and> mentionSkips s policy False True then Skip
      else if authMode (event s) = AuthInbound \<and> \<not> senderAuthorized s policy
      then (if conversationKind s = Direct \<and> dmPolicy policy = DmPairing \<and> mayPair (event s)
            then PairingRequired else Drop)
      else if commandBlocks s policy \<or> \<not> eventAuthorized s policy then Drop
      else if \<not> mentionCheckedFirst policy \<and>
              mentionSkips s policy
                (nullish (map_option cmdHasControlCommand (commandPolicy policy)) False)
                (commandAllowed s policy) then Skip
      else Dispatch)"

section \<open>Gate by gate\<close>

lemma hasWildcard_apply [simp]:
  "hasWildcard (applyMutableIdentifierPolicy a policy) = hasWildcard a"
  "hasConfiguredEntries (applyMutableIdentifierPolicy a policy) = hasConfiguredEntries a"
  by (simp_all add: applyMutableIdentifierPolicy_def Let_def)

lemma makeSenderGate_fields [simp]:
  "gateId (makeSenderGate i gk e a r m p src) = i"
  "gatePhase (makeSenderGate i gk e a r m p src) = PhaseSender"
  "gateEffect (makeSenderGate i gk e a r m p src) = e"
  "gateAllowed (makeSenderGate i gk e a r m p src) = a"
  "gateReason (makeSenderGate i gk e a r m p src) = r"
  by (simp_all add: makeSenderGate_def)

lemma allowlistFailureReason_cases:
  "allowlistFailureReason a \<noteq> Some DmPolicyPairingRequired"
  by (simp add: allowlistFailureReason_def)

lemma senderGateForDirect_allowed:
  "gateAllowed (senderGateForDirect s policy) \<longleftrightarrow> directSenderAuthorized s policy"
  by (auto simp: senderGateForDirect_def directSenderAuthorized_def grants_def Let_def
      split: dm_policy.splits)

lemma senderGateForDirect_pairing:
  "gateReason (senderGateForDirect s policy) = DmPolicyPairingRequired \<longleftrightarrow>
   dmPolicy policy = DmPairing \<and> mayPair (event s) \<and> \<not> directSenderAuthorized s policy"
  using allowlistFailureReason_cases
  by (cases "dmPolicy policy")
    (auto simp: senderGateForDirect_def directSenderAuthorized_def grants_def Let_def nullish_def
      split: option.splits)

lemma senderGateForGroup_allowed:
  "gateAllowed (senderGateForGroup s policy) \<longleftrightarrow> groupSenderAuthorized s policy"
  by (auto simp: senderGateForGroup_def groupSenderAuthorized_def Let_def split: group_policy.splits)

lemma senderGateForGroup_pairing:
  "gateReason (senderGateForGroup s policy) \<noteq> DmPolicyPairingRequired"
  using allowlistFailureReason_cases
  by (auto simp: senderGateForGroup_def Let_def nullish_def split: option.splits)

lemma senderGateFor_allowed:
  "gateAllowed (senderGateFor s policy) \<longleftrightarrow>
   authMode (event s) \<noteq> AuthInbound \<or> senderAuthorized s policy"
  by (auto simp: senderGateFor_def applyEventAuthModeToSenderGate_def senderAuthorized_def
      senderGateForDirect_allowed senderGateForGroup_allowed)

lemma senderGateFor_pairing:
  "\<not> gateAllowed (senderGateFor s policy) \<Longrightarrow>
   gateReason (senderGateFor s policy) = DmPolicyPairingRequired \<longleftrightarrow>
   conversationKind s = Direct \<and> dmPolicy policy = DmPairing \<and> mayPair (event s)"
  by (auto simp: senderGateFor_def applyEventAuthModeToSenderGate_def senderGateForGroup_pairing
      senderGateForDirect_pairing senderGateForDirect_allowed split: if_splits)

lemma commandGate_allowed: "gateAllowed (commandGate s policy) \<longleftrightarrow> commandAllowed s policy"
  by (simp add: commandGate_def commandAllowed_def senderCommandAuthorized_def grants_def Let_def
      split: option.splits)

lemma commandGate_effect:
  "gateEffect (commandGate s policy) =
   (if commandBlocks s policy then EffectBlockCommand else EffectAllow)"
  by (simp add: commandGate_def commandBlocks_def senderCommandAuthorized_def grants_def Let_def
      split: option.splits)

lemma eventGate_allowed:
  "gateAllowed sender \<Longrightarrow>
   gateAllowed (eventGate s sender (commandGate s policy)) \<longleftrightarrow> eventAuthorized s policy"
  by (auto simp: eventGate_def eventAuthorized_def Let_def commandGate_allowed split: auth_mode.splits)

lemma eventGate_effect:
  "gateEffect (eventGate s sender command) =
   (if gateAllowed (eventGate s sender command) then EffectAllow else EffectBlockDispatch)"
  by (simp add: eventGate_def Let_def split: auth_mode.splits)

lemma activationGate_effect:
  "gateEffect (activationGate s policy command) =
   (if mentionSkips s policy
         (nullish (map_option cmdHasControlCommand (commandPolicy policy)) False)
         (gateAllowed command)
    then EffectSkip else EffectAllow)"
  by (simp add: activationGate_def mentionSkips_def Let_def split: option.splits)

lemma mentionSkips_first:
  assumes "activation policy = Some act" and "\<not> actAllowTextCommands act"
  shows "mentionSkips s policy control auth = mentionSkips s policy False True"
  using assms
  by (simp add: mentionSkips_def resolveInboundMentionDecision_def Let_def split: option.splits)

lemma activationFirst_effect:
  "activationFirst s policy = (if mentionCheckedFirst policy
     then Some (activationGate s policy (commandGate s (policy\<lparr>commandPolicy := None\<rparr>))) else None)"
  by (simp add: activationFirst_def mentionCheckedFirst_def split: option.splits)

lemma activationFirst_skips:
  assumes "activationFirst s policy = Some g"
  shows "gateEffect g = (if mentionSkips s policy False True then EffectSkip else EffectAllow)"
proof -
  from assms obtain act where act: "activation policy = Some act" "\<not> actAllowTextCommands act"
    and g: "g = activationGate s policy (commandGate s (policy\<lparr>commandPolicy := None\<rparr>))"
    by (auto simp: activationFirst_def split: option.splits if_splits)
  show ?thesis
    unfolding g activationGate_effect by (subst mentionSkips_first [OF act]) (rule refl)
qed

definition routeStage :: "ingress_state \<Rightarrow> access_gate list" where
  "routeStage s = routeGates s @ (case routeSenderEmptyGate s of None \<Rightarrow> [] | Some g \<Rightarrow> [g])"

lemma routeGateOf_effect [simp]: "gateEffect (routeGateOf r) = gateEffectOfRoute (resolvedEffect r)"
  by (simp add: routeGateOf_def)

lemma gateEffectOfRoute_cases [simp]:
  "gateEffectOfRoute e = EffectBlockDispatch \<longleftrightarrow> e = RouteBlockDispatch"
  "gateEffectOfRoute e \<noteq> EffectBlockCommand" "gateEffectOfRoute e \<noteq> EffectSkip"
  by (cases e; simp)+

lemma routeSenderEmptyGate_effect:
  "routeSenderEmptyGate s = Some g \<Longrightarrow> gateEffect g = EffectBlockDispatch"
  by (auto simp: routeSenderEmptyGate_def split: option.splits)

lemma routeSenderEmptyGate_None:
  "routeSenderEmptyGate s = None \<longleftrightarrow> \<not> list_ex routeSenderIsEmpty (routeFacts s)"
  by (auto simp: routeSenderEmptyGate_def find_None_all list_ex_iff split: option.splits
      dest: find_SomeD)

lemma routeStage_blocks:
  "find (\<lambda>g. gateEffect g = EffectBlockDispatch) (routeStage s) = None \<longleftrightarrow> \<not> routeBlocked s"
proof -
  have "routeBlocked s \<longleftrightarrow> list_ex (\<lambda>r. resolvedEffect r = RouteBlockDispatch) (routeFacts s) \<or>
      routeSenderEmptyGate s \<noteq> None"
    unfolding routeSenderEmptyGate_None by (auto simp: routeBlocked_def list_ex_iff)
  then show ?thesis
    by (cases "routeSenderEmptyGate s") (auto simp: routeStage_def routeGates_def find_None_all
        list_ex_iff routeSenderEmptyGate_effect)
qed

lemma decideAfterSender_admission:
  assumes sender: "gateAllowed sender" and first: "a = activationFirst s policy"
    and noskip: "\<forall>g \<in> set_option a. gateEffect g \<noteq> EffectSkip"
  shows "admission (decideAfterSender s policy a sender gates) =
    (if commandBlocks s policy \<or> \<not> eventAuthorized s policy then Drop
     else if \<not> mentionCheckedFirst policy \<and> mentionSkips s policy
          (nullish (map_option cmdHasControlCommand (commandPolicy policy)) False)
          (commandAllowed s policy) then Skip
     else Dispatch)"
proof (cases a)
  case None
  then have "\<not> mentionCheckedFirst policy" using first by (simp add: activationFirst_effect split: if_splits)
  then show ?thesis
    using None by (simp add: decideAfterSender_def Let_def decisiveDecision_def commandGate_effect
        eventGate_allowed [OF sender] activationGate_effect commandGate_allowed)
next
  case (Some g)
  have "mentionCheckedFirst policy" using first Some by (simp add: activationFirst_effect split: if_splits)
  moreover have "gateEffect g = EffectAllow"
    using activationFirst_skips [of s policy g] first Some noskip by (auto split: if_splits)
  ultimately show ?thesis
    using Some by (simp add: decideAfterSender_def Let_def decisiveDecision_def commandGate_effect
        eventGate_allowed [OF sender])
qed

section \<open>The decision implements the table\<close>

lemma decide_admission:
  "admission (decideChannelIngress s policy) = admissionSpec s policy"
proof (cases "routeBlocked s")
  case True
  then obtain g where "find (\<lambda>g. gateEffect g = EffectBlockDispatch) (routeStage s) = Some g"
    using routeStage_blocks by (metis not_Some_eq)
  then show ?thesis
    using True by (simp add: decideChannelIngress_def decisiveDecision_def admissionSpec_def
        Let_def flip: routeStage_def)
next
  case False
  then have unblocked: "find (\<lambda>g. gateEffect g = EffectBlockDispatch) (routeStage s) = None"
    using routeStage_blocks by blast
  have first: "(\<exists>g \<in> set_option (activationFirst s policy). gateEffect g = EffectSkip) \<longleftrightarrow>
      mentionCheckedFirst policy \<and> mentionSkips s policy False True"
    using activationFirst_skips [of s policy]
    by (cases "activationFirst s policy") (auto simp: activationFirst_effect split: if_splits)
  show ?thesis
  proof (cases "mentionCheckedFirst policy \<and> mentionSkips s policy False True")
    case True
    then show ?thesis
      using False unblocked first by (simp add: decideChannelIngress_def decisiveDecision_def
          admissionSpec_def Let_def flip: routeStage_def)
  next
    case noskip: False
    then have pass: "\<forall>g \<in> set_option (activationFirst s policy). gateEffect g \<noteq> EffectSkip"
      using first by blast
    show ?thesis
    proof (cases "gateAllowed (senderGateFor s policy)")
      case True
      have "(\<exists>g \<in> set_option (activationFirst s policy). gateEffect g = EffectSkip) = False"
        using pass by blast
      then have "decideChannelIngress s policy = decideAfterSender s policy (activationFirst s policy)
          (senderGateFor s policy) (routeStage s @
            (case activationFirst s policy of None \<Rightarrow> [] | Some g \<Rightarrow> [g]) @ [senderGateFor s policy])"
        using unblocked True by (simp add: decideChannelIngress_def Let_def flip: routeStage_def)
      moreover have "admissionSpec s policy =
          (if commandBlocks s policy \<or> \<not> eventAuthorized s policy then Drop
           else if \<not> mentionCheckedFirst policy \<and> mentionSkips s policy
                (nullish (map_option cmdHasControlCommand (commandPolicy policy)) False)
                (commandAllowed s policy) then Skip
           else Dispatch)"
        using False noskip True senderGateFor_allowed [of s policy] by (auto simp: admissionSpec_def)
      ultimately show ?thesis
        using decideAfterSender_admission [OF True refl pass] by (simp only:)
    next
      case denied: False
      then show ?thesis
        using False unblocked noskip first senderGateFor_allowed [of s policy] senderGateFor_pairing [OF denied]
        by (auto simp: decideChannelIngress_def decisiveDecision_def admissionSpec_def Let_def
            simp flip: routeStage_def)
    qed
  qed
qed

text \<open>
  C1. The gate graph implements the decision table.  For every state and policy the admission is:
  dropped if a route blocks it; skipped if mentions are checked first and the bot is not
  addressed; for an inbound event of an unauthorized sender, pairing if the conversation is direct,
  the policy is pairing and the event may pair, else dropped; dropped if it is an unauthorized
  control command or its own authorization mode fails; skipped if the bot is not addressed;
  otherwise dispatched.  In particular it never observes.
\<close>

theorem ingress_implements_decision_table:
  "admission (decideChannelIngress s policy) = admissionSpec s policy"
  by (rule decide_admission)

text \<open>
  What dispatch requires of the sender, the gates and the lists.
\<close>

definition holdsBack :: "access_gate \<Rightarrow> bool" where
  "holdsBack g \<longleftrightarrow> gateEffect g \<in> {EffectBlockDispatch, EffectBlockCommand, EffectSkip}"

lemma senderGateFor_holdsBack: "holdsBack (senderGateFor s policy) \<longleftrightarrow> \<not> gateAllowed (senderGateFor s policy)"
proof -
  have "holdsBack (senderGateForDirect s policy) \<longleftrightarrow> \<not> gateAllowed (senderGateForDirect s policy)"
    by (auto simp: holdsBack_def senderGateForDirect_def Let_def)
  moreover have "holdsBack (senderGateForGroup s policy) \<longleftrightarrow> \<not> gateAllowed (senderGateForGroup s policy)"
    by (auto simp: holdsBack_def senderGateForGroup_def Let_def)
  ultimately show ?thesis
    by (simp add: senderGateFor_def applyEventAuthModeToSenderGate_def)
      (simp add: holdsBack_def)
qed

lemma activationGate_holdsBack:
  "holdsBack (activationGate s policy c) \<longleftrightarrow> gateEffect (activationGate s policy c) = EffectSkip"
  by (simp add: holdsBack_def activationGate_effect)

lemma commandGate_holdsBack:
  "holdsBack (commandGate s policy) \<longleftrightarrow> gateEffect (commandGate s policy) = EffectBlockCommand"
  by (simp add: holdsBack_def commandGate_effect)

lemma eventGate_holdsBack: "holdsBack (eventGate s g c) \<longleftrightarrow> \<not> gateAllowed (eventGate s g c)"
  by (simp add: holdsBack_def eventGate_effect)

lemma routeStage_holdsBack:
  "g \<in> set (routeStage s) \<Longrightarrow> holdsBack g \<longleftrightarrow> gateEffect g = EffectBlockDispatch"
  by (cases "routeSenderEmptyGate s") (auto simp: routeStage_def routeGates_def holdsBack_def
      dest: routeSenderEmptyGate_effect)

lemma activationFirst_gate:
  "activationFirst s policy = Some g \<Longrightarrow> \<exists>c. g = activationGate s policy c"
  by (auto simp: activationFirst_effect split: if_splits)

text \<open>
  The shape every decision has: the gates evaluated before the decisive one hold nothing back,
  and the decisive gate holds back unless the event is dispatched.
\<close>

definition explained :: "ingress_decision \<Rightarrow> bool" where
  "explained d \<longleftrightarrow>
     list_ex (\<lambda>g. gateId g = decisiveGateId d \<and> gateReason g = reasonCode d \<and>
        (holdsBack g \<longleftrightarrow> admission d \<noteq> Dispatch)) (graph d) \<and>
     (admission d = Dispatch \<longrightarrow> list_all (\<lambda>g. \<not> holdsBack g) (graph d))"

lemma explained_decisive:
  assumes "g \<in> set gates" and "holdsBack g" and "action \<noteq> Dispatch"
  shows "explained (decisiveDecision action d g gates)"
  using assms by (auto simp: explained_def decisiveDecision_def list_ex_iff)

lemma explained_dispatch:
  assumes "g \<in> set gates" and "\<forall>x \<in> set gates. \<not> holdsBack x"
  shows "explained (decisiveDecision Dispatch d g gates)"
  using assms by (auto simp: explained_def decisiveDecision_def list_ex_iff list_all_iff)

lemma explained_after_sender:
  assumes gates: "\<forall>g \<in> set gates. \<not> holdsBack g"
    and first: "a = activationFirst s policy" and early: "set_option a \<subseteq> set gates"
  shows "explained (decideAfterSender s policy a sender gates)"
proof -
  define c where "c = commandGate s policy"
  define v where "v = eventGate s sender c"
  define act where "act = nullish a (activationGate s policy c)"
  have "\<exists>c'. act = activationGate s policy c'"
    unfolding act_def first activationFirst_effect by (cases "mentionCheckedFirst policy") auto
  then obtain c' where act_gate: "act = activationGate s policy c'" by blast
  have observe: "gateEffect act \<noteq> EffectObserve"
    by (simp add: act_gate activationGate_effect)
  have held: "holdsBack c \<longleftrightarrow> gateEffect c = EffectBlockCommand" "holdsBack v \<longleftrightarrow> \<not> gateAllowed v"
      "holdsBack act \<longleftrightarrow> gateEffect act = EffectSkip"
    by (simp_all add: c_def commandGate_holdsBack v_def eventGate_holdsBack act_gate
        activationGate_holdsBack)
  have in_gates: "a \<noteq> None \<Longrightarrow> act \<in> set gates" using early by (cases a) (auto simp: act_def)
  have "decideAfterSender s policy a sender gates =
      (if gateEffect c = EffectBlockCommand then decisiveDecision Drop DecisionBlock c (gates @ [c])
       else if \<not> gateAllowed v then decisiveDecision Drop DecisionBlock v ((gates @ [c]) @ [v])
       else decisiveDecision (if gateEffect act = EffectSkip then Skip else Dispatch) DecisionAllow act
              (if a = None then ((gates @ [c]) @ [v]) @ [act] else (gates @ [c]) @ [v]))"
    using observe by (simp add: decideAfterSender_def Let_def c_def v_def act_def)
  then show ?thesis
    using gates held in_gates
    by (auto intro!: explained_decisive explained_dispatch)
qed

text \<open>
  Every decision is explained by its graph: the decisive gate is one of the gates evaluated,
  its reason is the reason reported, it holds the event back exactly if the event is not
  dispatched, and the graph of a dispatched event has no gate that blocks or skips it.
\<close>

theorem decision_is_explained:
  fixes s :: ingress_state and policy :: ingress_policy
  defines "d \<equiv> decideChannelIngress s policy"
  shows "list_ex (\<lambda>g. gateId g = decisiveGateId d \<and> gateReason g = reasonCode d \<and>
      (holdsBack g \<longleftrightarrow> admission d \<noteq> Dispatch)) (graph d) \<and>
    (admission d = Dispatch \<longrightarrow> list_all (\<lambda>g. \<not> holdsBack g) (graph d))"
proof -
  let ?a = "activationFirst s policy"
  let ?g1 = "routeStage s @ (case ?a of None \<Rightarrow> [] | Some g \<Rightarrow> [g])"
  have "explained d"
  proof (cases "find (\<lambda>g. gateEffect g = EffectBlockDispatch) (routeStage s)")
    case (Some g)
    then have "g \<in> set (routeStage s)" "holdsBack g"
      using find_SomeD [OF Some] by (simp_all add: holdsBack_def)
    then show ?thesis
      using Some by (auto simp: d_def decideChannelIngress_def Let_def explained_decisive
          simp flip: routeStage_def)
  next
    case None
    then have routes: "\<forall>g \<in> set (routeStage s). \<not> holdsBack g"
      using routeStage_holdsBack by (auto simp: find_None_all)
    show ?thesis
    proof (cases "\<exists>g \<in> set_option ?a. gateEffect g = EffectSkip")
      case True
      then obtain g where g: "?a = Some g" "gateEffect g = EffectSkip" by auto
      then show ?thesis
        using None by (auto simp: d_def decideChannelIngress_def Let_def holdsBack_def
            intro!: explained_decisive simp flip: routeStage_def)
    next
      case False
      then have g1: "\<forall>g \<in> set ?g1. \<not> holdsBack g"
        using routes activationFirst_gate activationGate_holdsBack
        by (cases ?a) (auto, metis option.set_intros)
      have "explained (decideAfterSender s policy ?a (senderGateFor s policy)
          (?g1 @ [senderGateFor s policy]))" if "gateAllowed (senderGateFor s policy)"
        by (rule explained_after_sender) (use g1 that senderGateFor_holdsBack in \<open>auto split: option.splits\<close>)
      moreover have "explained (decisiveDecision x y (senderGateFor s policy)
          (?g1 @ [senderGateFor s policy]))" if "\<not> gateAllowed (senderGateFor s policy)" "x \<noteq> Dispatch" for x y
        by (rule explained_decisive) (use that senderGateFor_holdsBack in auto)
      ultimately show ?thesis
        using None False by (auto simp: d_def decideChannelIngress_def Let_def simp flip: routeStage_def)
    qed
  qed
  then show ?thesis unfolding explained_def .
qed

text \<open>A direct message on a channel with one stable identifier.\<close>

definition sampleInput :: "js_entry list \<Rightarrow> js_entry list \<Rightarrow> identity_descriptor \<Rightarrow> string \<Rightarrow> state_input" where
  "sampleInput dm store d sender =
     \<lparr>channelId = ''telegram'', accountId = ''default'',
      subject = createIdentitySubject d (Some (JsString sender)) (\<lambda>_. None),
      inputConversation = Direct, adapter = createIdentityAdapter d,
      accessGroupConfigs = (\<lambda>_. None), accessGroupMembership = None, inputRouteFacts = None,
      inputMentionFacts = None,
      eventInput = \<lparr>inputKind = EventMessage, inputAuthMode = AuthInbound, inputMayPair = True,
        originSubject = None\<rparr>,
      allowlistInput = \<lparr>inputDm = Some dm, inputGroup = None, inputCommandOwner = None,
        inputCommandGroup = None, inputPairingStore = Some store\<rparr>\<rparr>"

definition samplePolicy :: "dm_policy \<Rightarrow> ingress_policy" where
  "samplePolicy p =
     \<lparr>dmPolicy = p, groupPolicy = GroupAllowlist, groupAllowFromFallbackToAllowFrom = None,
      mutableIdentifierMatching = None, activation = None, commandPolicy = None\<rparr>"

lemma decision_is_explained_witness:
  "let s = resolveChannelIngressState (\<lambda>_ _. 0) (sampleInput [JsString ''u1''] [] plainIdentity ''u1'')
   in admission (decideChannelIngress s (samplePolicy DmAllowlist)) = Dispatch \<and>
      list_all (\<lambda>g. \<not> holdsBack g) (graph (decideChannelIngress s (samplePolicy DmAllowlist)))"
proof -
  have "admission (decideChannelIngress (resolveChannelIngressState (\<lambda>_ _. 0)
      (sampleInput [JsString ''u1''] [] plainIdentity ''u1'')) (samplePolicy DmAllowlist)) = Dispatch"
    by code_simp
  with decision_is_explained [of "resolveChannelIngressState (\<lambda>_ _. 0)
      (sampleInput [JsString ''u1''] [] plainIdentity ''u1'')" "samplePolicy DmAllowlist"]
  show ?thesis unfolding Let_def by blast
qed

section \<open>Mutable identifiers\<close>

definition onlyDangerousMatches :: "resolved_allowlist \<Rightarrow> bool" where
  "onlyDangerousMatches a \<longleftrightarrow>
     (matched (allowMatch a) \<longrightarrow> matchedEntryIds a \<noteq> []) \<and>
     list_all (\<lambda>i. list_ex (\<lambda>e. isDangerous e \<and> opaqueEntryId e = i) (normalizedEntries a))
       (matchedEntryIds a)"

lemma mutable_disabled_no_grant:
  assumes "mutableIdentifierMatching policy \<noteq> Some MutableEnabled" and "onlyDangerousMatches a"
  shows "\<not> grants policy a"
proof -
  let ?ids = "map opaqueEntryId (filter isDangerous (normalizedEntries a))"
  have all: "\<forall>i \<in> set (matchedEntryIds a). i \<in> set ?ids"
    using assms(2) by (auto simp: onlyDangerousMatches_def list_all_iff list_ex_iff)
  show ?thesis
  proof (cases "?ids = []")
    case True
    then have "matchedEntryIds a = []" using all by (cases "matchedEntryIds a") auto
    then show ?thesis
      using assms True
      by (auto simp: grants_def applyMutableIdentifierPolicy_def Let_def onlyDangerousMatches_def)
  next
    case False
    have "filter (\<lambda>i. i \<notin> set ?ids) (matchedEntryIds a) = []"
      using all by (simp add: filter_empty_conv)
    then show ?thesis
      using assms(1) False
      by (simp add: grants_def applyMutableIdentifierPolicy_def Let_def)
  qed
qed

text \<open>A match under a policy is a match: the policy only takes away.\<close>

lemma grants_imp_matched:
  assumes "grants policy a" and "matchedEntryIds a \<noteq> [] \<Longrightarrow> matched (allowMatch a)"
  shows "matched (allowMatch a)"
proof (cases "applyMutableIdentifierPolicy a policy = a")
  case True
  with assms(1) show ?thesis by (simp add: grants_def)
next
  case False
  with assms(1) have "matchedEntryIds a \<noteq> []"
    by (auto simp: grants_def applyMutableIdentifierPolicy_def Let_def filter_empty_conv
        split: if_splits)
  with assms(2) show ?thesis by blast
qed

text \<open>
  With mutable identifiers disabled (the default), a sender who matches the direct allowlists
  only by mutable identifiers is never dispatched or skipped as if authorized: an inbound direct
  message without a wildcard is dropped or answered with pairing, whatever the policy.
\<close>

theorem mutable_identifiers_never_authorize:
  assumes "mutableIdentifierMatching policy \<noteq> Some MutableEnabled"
    and "conversationKind s = Direct" and "authMode (event s) = AuthInbound"
    and "\<not> hasWildcard (listDm (allowlists s))"
    and "onlyDangerousMatches (listDm (allowlists s))"
    and "onlyDangerousMatches (listPairingStore (allowlists s))"
    and "\<not> mentionCheckedFirst policy"
  shows "admission (decideChannelIngress s policy) = Drop \<or>
    admission (decideChannelIngress s policy) = PairingRequired"
proof -
  have "\<not> senderAuthorized s policy"
    using assms mutable_disabled_no_grant
    by (auto simp: senderAuthorized_def directSenderAuthorized_def split: dm_policy.splits)
  moreover have "gateAllowed (senderGateFor s policy) \<longleftrightarrow> senderAuthorized s policy"
    using assms(3) senderGateFor_allowed [of s policy] by simp
  ultimately show ?thesis
    using assms(7)
    by (auto simp: decideChannelIngress_def decisiveDecision_def Let_def activationFirst_effect
        split: option.splits)
qed

definition usernameIdentity :: identity_descriptor where
  "usernameIdentity = defineStableChannelIngressIdentity
     (plainField\<lparr>fieldKind := Some Username, fieldDangerousFlag := DangerousConst (Some True)\<rparr>)
     [] None None None None"

lemma mutable_identifiers_never_authorize_witness:
  "let s = resolveChannelIngressState (\<lambda>_ _. 0) (sampleInput [JsString ''bob''] [] usernameIdentity ''bob'')
   in matched (allowMatch (listDm (allowlists s))) \<and>
      (admission (decideChannelIngress s (samplePolicy DmAllowlist)) = Drop \<or>
       admission (decideChannelIngress s (samplePolicy DmAllowlist)) = PairingRequired)"
proof -
  let ?s = "resolveChannelIngressState (\<lambda>_ _. 0) (sampleInput [JsString ''bob''] [] usernameIdentity ''bob'')"
  have "matched (allowMatch (listDm (allowlists ?s)))" by code_simp
  moreover have "admission (decideChannelIngress ?s (samplePolicy DmAllowlist)) = Drop \<or>
      admission (decideChannelIngress ?s (samplePolicy DmAllowlist)) = PairingRequired"
  proof (rule mutable_identifiers_never_authorize)
    show "mutableIdentifierMatching (samplePolicy DmAllowlist) \<noteq> Some MutableEnabled"
      "\<not> mentionCheckedFirst (samplePolicy DmAllowlist)"
      by (simp_all add: samplePolicy_def mentionCheckedFirst_def)
    show "conversationKind ?s = Direct" "authMode (event ?s) = AuthInbound"
      by (simp_all add: resolveChannelIngressState_def sampleInput_def)
    show "\<not> hasWildcard (listDm (allowlists ?s))" by code_simp
    show "onlyDangerousMatches (listDm (allowlists ?s))" by code_simp
    show "onlyDangerousMatches (listPairingStore (allowlists ?s))" by code_simp
  qed
  ultimately show ?thesis unfolding Let_def by blast
qed

section \<open>End to end\<close>

lemma resolved_ids_matched:
  "matchedEntryIds (resolveIngressAllowlist input raw c) \<noteq> [] \<Longrightarrow>
   matched (allowMatch (resolveIngressAllowlist input raw c))"
  by (simp add: resolveIngressAllowlist_def Let_def mergeMatches_def)

text \<open>
  An allowlist, as the sender's possible matches: a direct entry, or an access group it names.  A
  group that is missing, unsupported or whose lookup failed lets nobody in.
\<close>

definition entriesMatch :: "state_input \<Rightarrow> match_context \<Rightarrow> string list \<Rightarrow> bool" where
  "entriesMatch input context entries \<longleftrightarrow>
     matched (mrMatch (normalizeAndMatch (adapter input) (subject input) (accountId input)
       (directAllowlistEntries entries) context)) \<or>
     list_ex (\<lambda>e. \<exists>g \<in> set_option (parseAccessGroupAllowFromEntry e). groupGrants input context g) entries"

lemma grants_entriesMatch:
  assumes "adapter input = createIdentityAdapter d"
    and "grants policy (resolveIngressAllowlist input raw context)"
  shows "entriesMatch input context (normalizeStringEntries (nullish raw []))"
proof -
  have "matched (allowMatch (resolveIngressAllowlist input raw context))"
    using assms(2) by (rule grants_imp_matched) (rule resolved_ids_matched)
  then show ?thesis
    using allowlist_match_iff [of input "context"] identity.match_named [of d] assms(1)
    by (auto simp: entriesMatch_def list_ex_iff)
qed

lemma dispatch_senderAuthorized:
  assumes "authMode (event s) = AuthInbound"
    and "admission (decideChannelIngress s policy) = Dispatch"
  shows "senderAuthorized s policy"
  using assms by (auto simp: decide_admission admissionSpec_def split: if_splits)

end
