(* ===== verification/IngressRuntime.thy ===== *)
theory IngressRuntime
  imports IngressProofs
begin

text \<open>
  \<open>src/channels/message-access/runtime.ts\<close> and \<open>runtime-access-groups.ts\<close>: one inbound event from
  the channel's configuration to the decision and its projections.

  The readers the caller passes are values of the record \<open>ingress_params\<close>: \<open>paramReadStore\<close> is what
  the caller's pairing-store reader answers (\<open>Some None\<close> when it answers nothing or rejects),
  \<open>paramDefaultStore\<close> what the default pairing store answers (\<open>None\<close> when the read fails), and
  \<open>paramResolveMembership\<close> the dynamic access-group lookup, \<open>None\<close> when it throws.  Absent and
  \<open>undefined\<close> properties are both \<open>None\<close>.
\<close>

section \<open>Inputs\<close>

record command_input =
  ciPolicy :: command_policy
  ciOwnerAllowFrom :: "js_entry list option"
  ciGroupOwnerNone :: bool
  ciDirectGroupEffective :: bool
  ciGroupFallback :: "bool option"

record route_descriptor =
  rdId :: string
  rdKind :: "route_kind option"
  rdConfigured :: "bool option"
  rdMatched :: "bool option"
  rdAllowed :: "bool option"
  rdEnabled :: "bool option"
  rdPrecedence :: "int option"
  rdSenderPolicy :: "route_sender_policy option"
  rdSenderAllowFrom :: "js_entry list option"
  rdSenderSource :: "route_sender_source option"
  rdMatchId :: "string option"
  rdBlockReason :: "string option"

text \<open>One descriptor or an array of them.\<close>

datatype route_input = NoRoute | OneRoute route_descriptor | ManyRoutes "route_descriptor list"

record ingress_params =
  paramChannelId :: string
  paramAccountId :: string
  paramIdentity :: identity_descriptor
  paramStableId :: "js_entry option"
  paramAliases :: "string \<Rightarrow> js_entry option"
  paramConversation :: conversation_kind
  paramEvent :: event_input
  paramPolicy :: ingress_policy
  paramAllowFrom :: "js_entry list option"
  paramGroupAllowFrom :: "js_entry list option"
  paramRoute :: route_input
  paramRouteFacts :: "route_facts list option"
  paramAccessGroups :: "string \<Rightarrow> access_group option"
  paramMembership :: "membership_fact list option"
  paramResolveMembership :: "(string \<Rightarrow> access_group \<Rightarrow> bool option) option"
  paramMatchedEntry :: "js_entry option"
  paramProviderMissing :: "bool option"
  paramMentionFacts :: "mention_facts option"
  paramReadStore :: "js_entry list option option"
  paramUseDefaultStore :: "bool option"
  paramDefaultStore :: "string list option"
  paramCommand :: "command_input option"

section \<open>The pairing store\<close>

definition shouldReadStore :: "conversation_kind \<Rightarrow> dm_policy \<Rightarrow> bool" where
  "shouldReadStore conversation policy \<longleftrightarrow>
     conversation = Direct \<and> policy \<noteq> DmAllowlist \<and> policy \<noteq> DmOpen"

definition readStoreAllowFrom :: "ingress_params \<Rightarrow> js_entry list" where
  "readStoreAllowFrom p =
     (if \<not> shouldReadStore (paramConversation p) (dmPolicy (paramPolicy p)) then []
      else case paramReadStore p of
             Some answer \<Rightarrow> nullish answer []
           | None \<Rightarrow>
               if paramUseDefaultStore p = Some True
               then map JsString (readChannelIngressStoreAllowFromForDmPolicy
                      (Some (dmPolicy (paramPolicy p))) None (paramDefaultStore p))
               else [])"

text \<open>A blank channel id is an error (\<open>None\<close>).\<close>

definition normalizeChannelId :: "string \<Rightarrow> string option" where
  "normalizeChannelId i = (let trimmed = js_trim i in if trimmed = [] then None else Some trimmed)"

section \<open>Routes\<close>

definition routeDescriptors :: "route_input \<Rightarrow> route_descriptor list" where
  "routeDescriptors r = (case r of NoRoute \<Rightarrow> [] | OneRoute d \<Rightarrow> [d] | ManyRoutes ds \<Rightarrow> ds)"

definition routeDescriptorMatch :: "route_descriptor \<Rightarrow> ingress_match" where
  "routeDescriptorMatch d =
     (let isMatched = nullish (orElse (rdMatched d) (rdAllowed d)) (rdEnabled d \<noteq> Some False)
      in \<lparr>matched = isMatched,
          matchIds = (case rdMatchId d of
                        None \<Rightarrow> []
                      | Some i \<Rightarrow> if isMatched \<and> i \<noteq> [] then [i] else [])\<rparr>)"

definition routeFact ::
    "route_descriptor \<Rightarrow> route_kind option \<Rightarrow> route_sender_policy option \<Rightarrow> route_gate_state \<Rightarrow>
     route_effect \<Rightarrow> route_facts" where
  "routeFact d kindOpt policy gate effect =
     \<lparr>routeId = rdId d, routeKind = nullish kindOpt KindRoute, routeGate = gate, routeEffect = effect,
      routePrecedence = nullish (rdPrecedence d) 0,
      routeSenderPolicy = nullish policy SenderInherit,
      routeSenderAllowFrom = rdSenderAllowFrom d, routeSenderSource = rdSenderSource d,
      routeMatch = Some (routeDescriptorMatch d)\<rparr>"

definition routeFactsFromDescriptor :: "route_descriptor \<Rightarrow> route_facts list" where
  "routeFactsFromDescriptor d =
     (if rdConfigured d = Some False then []
      else if rdEnabled d = Some False
      then [routeFact d (rdKind d) (rdSenderPolicy d) RouteDisabled RouteBlockDispatch]
      else case rdAllowed d of
             Some allow \<Rightarrow>
               [routeFact d (rdKind d) (rdSenderPolicy d)
                  (if allow then RouteMatched else RouteNotMatched)
                  (if allow then RouteAllow else RouteBlockDispatch)]
           | None \<Rightarrow>
               if rdSenderPolicy d \<noteq> Some SenderDenyWhenEmpty \<and> rdSenderAllowFrom d = None \<and>
                  rdSenderSource d = None then []
               else
                 [routeFact d
                    (if rdSenderPolicy d = Some SenderDenyWhenEmpty then rdKind d else Some KindRouteSender)
                    (rdSenderPolicy d) RouteMatched RouteAllow])"

definition routeFactsFromDescriptors :: "route_input \<Rightarrow> route_facts list" where
  "routeFactsFromDescriptors r = concat (map routeFactsFromDescriptor (routeDescriptors r))"

section \<open>Access groups\<close>

definition accessGroupNames :: "js_entry list \<Rightarrow> string list" where
  "accessGroupNames entries =
     uniqueValues (List.map_filter (\<lambda>e. parseAccessGroupAllowFromEntry (js_String e)) entries)"

definition allReferencedAccessGroupNames :: "js_entry list list \<Rightarrow> string list" where
  "allReferencedAccessGroupNames entries = uniqueValues (concat (map accessGroupNames entries))"

definition normalizeEffectiveEntries ::
    "ingress_adapter \<Rightarrow> string \<Rightarrow> js_entry list \<Rightarrow> match_context \<Rightarrow> string list" where
  "normalizeEffectiveEntries ad account entries context =
     (let rawEntries = normalizeStringEntries entries;
          accessGroupEntries = filter (\<lambda>e. parseAccessGroupAllowFromEntry e \<noteq> None) rawEntries;
          directEntries = filter (\<lambda>e. parseAccessGroupAllowFromEntry e = None) rawEntries
      in if length directEntries = 0 then accessGroupEntries
         else uniqueValues (accessGroupEntries @
                map entryValue (matchable (normalizeEntries ad directEntries context account))))"

definition membershipFactFor ::
    "(string \<Rightarrow> access_group \<Rightarrow> bool option) \<Rightarrow> (string \<Rightarrow> access_group option) \<Rightarrow> string \<Rightarrow>
     membership_fact option" where
  "membershipFactFor resolve groups name =
     (case groups name of
        None \<Rightarrow> None
      | Some (MessageSenders members) \<Rightarrow> None
      | Some g \<Rightarrow>
          Some (case resolve name g of
                  None \<Rightarrow> FactFailed name
                | Some True \<Rightarrow> FactMatched name [''access-group:'' @ name]
                | Some False \<Rightarrow> FactNotMatched name))"

definition resolveRuntimeAccessGroupMembershipFacts ::
    "ingress_params \<Rightarrow> string list \<Rightarrow> membership_fact list" where
  "resolveRuntimeAccessGroupMembershipFacts p names =
     (case paramResolveMembership p of
        None \<Rightarrow> []
      | Some resolve \<Rightarrow> List.map_filter (membershipFactFor resolve (paramAccessGroups p)) names)"

section \<open>Command allowlists\<close>

definition commandOwnerAllowFrom ::
    "command_input option \<Rightarrow> bool \<Rightarrow> js_entry list \<Rightarrow> js_entry list \<Rightarrow> js_entry list" where
  "commandOwnerAllowFrom command grp configuredAllowFrom effectiveAllowFrom =
     (case (case command of None \<Rightarrow> None | Some c \<Rightarrow> ciOwnerAllowFrom c) of
        Some owners \<Rightarrow> owners
      | None \<Rightarrow>
          if \<not> grp then effectiveAllowFrom
          else if (\<exists>c \<in> set_option command. ciGroupOwnerNone c) then [] else configuredAllowFrom)"

definition commandGroupAllowFrom ::
    "command_input option \<Rightarrow> bool \<Rightarrow> js_entry list \<Rightarrow> js_entry list" where
  "commandGroupAllowFrom command grp effectiveCommandGroupAllowFrom =
     (if grp then effectiveCommandGroupAllowFrom
      else if (\<exists>c \<in> set_option command. ciDirectGroupEffective c)
      then effectiveCommandGroupAllowFrom else [])"

definition appendAccessGroupMatchedEntry ::
    "string list \<Rightarrow> resolved_allowlist \<Rightarrow> string option \<Rightarrow> string list" where
  "appendAccessGroupMatchedEntry entries allowlist matchedEntry =
     (case matchedEntry of
        None \<Rightarrow> entries
      | Some e \<Rightarrow>
          if e \<noteq> [] \<and> length (agMatched (accessGroups allowlist)) > 0
          then uniqueValues (entries @ [e]) else entries)"

section \<open>Projections\<close>

record sender_access =
  saAllowed :: bool
  saDecision :: decision_kind
  saReasonCode :: reason_code
  saGate :: "access_gate option"
  saEffectiveAllowFrom :: "string list"
  saEffectiveGroupAllowFrom :: "string list"
  saProviderMissing :: bool

record command_access =
  caRequested :: bool
  caAuthorized :: bool
  caShouldBlock :: bool
  caReasonCode :: reason_code
  caGate :: "access_gate option"

record route_access =
  raAllowed :: bool
  raReasonCode :: "reason_code option"
  raReason :: "string option"
  raGate :: "access_gate option"

record activation_access =
  aaRan :: bool
  aaAllowed :: bool
  aaShouldSkip :: bool
  aaReasonCode :: reason_code
  aaEffectiveWasMentioned :: "bool option"
  aaShouldBypassMention :: "bool option"
  aaGate :: "access_gate option"

record resolved_ingress =
  riState :: ingress_state
  riIngress :: ingress_decision
  riSender :: sender_access
  riRoute :: route_access
  riCommand :: command_access
  riActivation :: activation_access

definition findIngressGate :: "ingress_decision \<Rightarrow> gate_phase \<Rightarrow> gate_kind \<Rightarrow> access_gate option" where
  "findIngressGate ingress p k = find (\<lambda>g. gatePhase g = p \<and> gateKind g = k) (graph ingress)"

definition findSenderGate :: "ingress_decision \<Rightarrow> bool \<Rightarrow> access_gate option" where
  "findSenderGate ingress grp =
     findIngressGate ingress PhaseSender (if grp then GateGroupSender else GateDmSender)"

definition projectSenderAccess ::
    "ingress_decision \<Rightarrow> bool \<Rightarrow> string list \<Rightarrow> string list \<Rightarrow> bool option \<Rightarrow> sender_access" where
  "projectSenderAccess ingress grp effectiveAllowFrom effectiveGroupAllowFrom providerMissing =
     (let gate = findSenderGate ingress grp;
          reason = (if gate = None \<and> grp \<and> reasonCode ingress = RouteSenderEmpty \<and>
                       length effectiveGroupAllowFrom = 0
                    then GroupPolicyEmptyAllowlist
                    else nullish (map_option gateReason gate) (reasonCode ingress));
          d = (if reason = DmPolicyPairingRequired then DecisionPairing
               else if map_option gateAllowed gate = Some True then DecisionAllow else DecisionBlock)
      in \<lparr>saAllowed = (d = DecisionAllow), saDecision = d, saReasonCode = reason, saGate = gate,
          saEffectiveAllowFrom = effectiveAllowFrom,
          saEffectiveGroupAllowFrom = effectiveGroupAllowFrom,
          saProviderMissing = nullish providerMissing False\<rparr>)"

definition projectCommandAccess :: "ingress_decision \<Rightarrow> ingress_policy \<Rightarrow> command_access" where
  "projectCommandAccess ingress policy =
     (let gate = findIngressGate ingress PhaseCommand GateCommand;
          requested = (commandPolicy policy \<noteq> None)
      in \<lparr>caRequested = requested,
          caAuthorized = (if requested then map_option gateAllowed gate = Some True else False),
          caShouldBlock = (case gate of None \<Rightarrow> False
             | Some g \<Rightarrow> map_option shouldBlockControlCommand (gateCommand g) = Some True),
          caReasonCode = nullish (map_option gateReason gate) (reasonCode ingress),
          caGate = gate\<rparr>)"

definition routeDescriptorForGate :: "route_descriptor list \<Rightarrow> access_gate \<Rightarrow> route_descriptor option" where
  "routeDescriptorForGate descriptors gate =
     (let senderSuffix = '':sender'';
          baseGateId = (if suffix senderSuffix (gateId gate)
                        then take (length (gateId gate) - length senderSuffix) (gateId gate)
                        else gateId gate)
      in find (\<lambda>d. rdId d = gateId gate \<or> rdId d = baseGateId) descriptors)"

text \<open>A block reason counts only when it is not empty.\<close>

definition blockReasonOf :: "route_descriptor \<Rightarrow> string option" where
  "blockReasonOf d = (case rdBlockReason d of None \<Rightarrow> None | Some r \<Rightarrow> if r = [] then None else Some r)"

definition projectRouteAccess :: "ingress_decision \<Rightarrow> route_input \<Rightarrow> route_access" where
  "projectRouteAccess ingress route =
     (let descriptors = routeDescriptors route
      in case find (\<lambda>g. gatePhase g = PhaseRoute \<and> gateEffect g = EffectBlockDispatch) (graph ingress) of
           Some routeBlock \<Rightarrow>
             \<lparr>raAllowed = gateAllowed routeBlock, raReasonCode = Some (gateReason routeBlock),
              raReason = (case routeDescriptorForGate descriptors routeBlock of
                            None \<Rightarrow> None | Some d \<Rightarrow> blockReasonOf d),
              raGate = Some routeBlock\<rparr>
         | None \<Rightarrow>
             (case (find (\<lambda>d. rdSenderPolicy d = Some SenderReplace \<and> blockReasonOf d \<noteq> None) descriptors,
                    find (\<lambda>g. gatePhase g = PhaseSender \<and> gateEffect g = EffectBlockDispatch) (graph ingress)) of
                (Some replacement, Some senderBlock) \<Rightarrow>
                  \<lparr>raAllowed = False, raReasonCode = Some (gateReason senderBlock),
                   raReason = blockReasonOf replacement, raGate = Some senderBlock\<rparr>
              | _ \<Rightarrow>
                  (case find (\<lambda>g. gatePhase g = PhaseRoute) (graph ingress) of
                     Some gate \<Rightarrow> \<lparr>raAllowed = gateAllowed gate, raReasonCode = Some (gateReason gate),
                                   raReason = None, raGate = Some gate\<rparr>
                   | None \<Rightarrow> \<lparr>raAllowed = True, raReasonCode = None, raReason = None, raGate = None\<rparr>)))"

definition projectActivationAccess :: "ingress_decision \<Rightarrow> activation_access" where
  "projectActivationAccess ingress =
     (let gate = findIngressGate ingress PhaseActivation GateMention;
          facts = (case gate of None \<Rightarrow> None | Some g \<Rightarrow> gateActivation g)
      in \<lparr>aaRan = (gate \<noteq> None), aaAllowed = (map_option gateAllowed gate = Some True),
          aaShouldSkip = (map_option afShouldSkip facts = Some True),
          aaReasonCode = nullish (map_option gateReason gate) (reasonCode ingress),
          aaEffectiveWasMentioned = (case facts of None \<Rightarrow> None | Some f \<Rightarrow> afEffectiveWasMentioned f),
          aaShouldBypassMention = (case facts of None \<Rightarrow> None | Some f \<Rightarrow> afShouldBypassMention f),
          aaGate = gate\<rparr>)"

section \<open>One inbound event\<close>

definition rawAllow :: "ingress_params \<Rightarrow> string list" where
  "rawAllow p = normalizeStringEntries (nullish (paramAllowFrom p) [])"

definition rawGroupAllow :: "ingress_params \<Rightarrow> string list" where
  "rawGroupAllow p = normalizeStringEntries (nullish (paramGroupAllowFrom p) [])"

definition rawStoreAllow :: "ingress_params \<Rightarrow> string list" where
  "rawStoreAllow p = normalizeStringEntries (readStoreAllowFrom p)"

definition allRouteFacts :: "ingress_params \<Rightarrow> route_facts list" where
  "allRouteFacts p = routeFactsFromDescriptors (paramRoute p) @ nullish (paramRouteFacts p) []"

definition allMembershipFacts :: "ingress_params \<Rightarrow> membership_fact list" where
  "allMembershipFacts p =
     resolveRuntimeAccessGroupMembershipFacts p
       (allReferencedAccessGroupNames
          ([map JsString (rawAllow p), map JsString (rawGroupAllow p), map JsString (rawStoreAllow p),
            nullish (case paramCommand p of None \<Rightarrow> None | Some c \<Rightarrow> ciOwnerAllowFrom c) []] @
           map (\<lambda>r. nullish (routeSenderAllowFrom r) []) (allRouteFacts p))) @
     nullish (paramMembership p) []"

definition effectivePolicy :: "ingress_params \<Rightarrow> ingress_policy" where
  "effectivePolicy p =
     (case paramCommand p of
        None \<Rightarrow> paramPolicy p
      | Some c \<Rightarrow> (paramPolicy p)\<lparr>commandPolicy := Some (ciPolicy c)\<rparr>)"

definition ingressStateInput :: "ingress_params \<Rightarrow> string \<Rightarrow> state_input" where
  "ingressStateInput p channel =
     (let grp = (paramConversation p \<noteq> Direct);
          strings = (\<lambda>ss. Some (map JsString ss));
          dm = Some (dmPolicy (paramPolicy p));
          fallback = groupAllowFromFallbackToAllowFrom (paramPolicy p);
          rawEffective = resolveChannelIngressEffectiveAllowFromLists (strings (rawAllow p))
            (strings (rawGroupAllow p)) (strings (rawStoreAllow p)) dm fallback;
          rawCommandGroup = resolveChannelIngressEffectiveAllowFromLists (strings (rawAllow p))
            (strings (rawGroupAllow p)) None dm
            (orElse (case paramCommand p of None \<Rightarrow> None | Some c \<Rightarrow> ciGroupFallback c) fallback)
      in \<lparr>channelId = channel, accountId = paramAccountId p,
          subject = createIdentitySubject (paramIdentity p) (paramStableId p) (paramAliases p),
          inputConversation = paramConversation p, adapter = createIdentityAdapter (paramIdentity p),
          accessGroupConfigs = paramAccessGroups p,
          accessGroupMembership = Some (allMembershipFacts p),
          inputRouteFacts = Some (allRouteFacts p), inputMentionFacts = paramMentionFacts p,
          eventInput = paramEvent p,
          allowlistInput =
            \<lparr>inputDm = strings (rawAllow p), inputGroup = strings (snd rawEffective),
             inputCommandOwner = Some (commandOwnerAllowFrom (paramCommand p) grp
               (map JsString (rawAllow p)) (map JsString (fst rawEffective))),
             inputCommandGroup = Some (commandGroupAllowFrom (paramCommand p) grp
               (map JsString (snd rawCommandGroup))),
             inputPairingStore = strings (rawStoreAllow p)\<rparr>\<rparr>)"

definition accessGroupMatchedEntry :: "ingress_params \<Rightarrow> string option" where
  "accessGroupMatchedEntry p = map_option js_String (orElse (paramMatchedEntry p) (paramStableId p))"

definition baseEffectiveLists :: "ingress_params \<Rightarrow> string list \<times> string list" where
  "baseEffectiveLists p =
     (let ad = createIdentityAdapter (paramIdentity p);
          norm = (\<lambda>ss context. Some (map JsString
            (normalizeEffectiveEntries ad (paramAccountId p) (map JsString ss) context)))
      in resolveChannelIngressEffectiveAllowFromLists (norm (rawAllow p) ContextDm)
           (norm (rawGroupAllow p) ContextGroup) (norm (rawStoreAllow p) ContextDm)
           (Some (dmPolicy (paramPolicy p))) (groupAllowFromFallbackToAllowFrom (paramPolicy p)))"

definition resolveChannelMessageIngress ::
    "(string \<Rightarrow> string \<Rightarrow> int) \<Rightarrow> ingress_params \<Rightarrow> resolved_ingress option" where
  "resolveChannelMessageIngress cmp p =
     (case normalizeChannelId (paramChannelId p) of
        None \<Rightarrow> None
      | Some channel \<Rightarrow>
          let s = resolveChannelIngressState cmp (ingressStateInput p channel);
              policy = effectivePolicy p;
              ingress = decideChannelIngress s policy;
              entry = accessGroupMatchedEntry p;
              effectiveAllowFrom = appendAccessGroupMatchedEntry (fst (baseEffectiveLists p))
                (listDm (allowlists s)) entry;
              effectiveGroupAllowFrom = appendAccessGroupMatchedEntry (snd (baseEffectiveLists p))
                (listGroup (allowlists s)) entry
          in Some \<lparr>riState = s, riIngress = ingress,
                   riSender = projectSenderAccess ingress (paramConversation p \<noteq> Direct)
                     effectiveAllowFrom effectiveGroupAllowFrom (paramProviderMissing p),
                   riRoute = projectRouteAccess ingress (paramRoute p),
                   riCommand = projectCommandAccess ingress policy,
                   riActivation = projectActivationAccess ingress\<rparr>)"

section \<open>The reusable resolver\<close>

text \<open>The presets of \<open>createChannelIngressResolver\<close>; absent properties are \<open>None\<close>.\<close>

record event_preset =
  epIsGroup :: "bool option"
  epKind :: "event_kind option"
  epAuthMode :: "auth_mode option"
  epMayPair :: "bool option"
  epOriginSubject :: "ingress_subject option"

record command_preset =
  cpRequested :: "bool option"
  cpUseAccessGroups :: "bool option"
  cpCfgUseAccessGroups :: "bool option"
  cpAllowTextCommands :: "bool option"
  cpHasControlCommand :: "bool option"
  cpModeWhenOff :: "access_groups_off_mode option"
  cpOwnerAllowFrom :: "js_entry list option"
  cpGroupOwnerNone :: bool
  cpDirectGroupEffective :: bool
  cpGroupFallback :: "bool option"

record resolver_base =
  rbChannelId :: string
  rbAccountId :: string
  rbIdentity :: identity_descriptor
  rbAccessGroups :: "(string \<Rightarrow> access_group option) option"
  rbCfgAccessGroups :: "(string \<Rightarrow> access_group option) option"
  rbCfgUseAccessGroups :: "bool option"
  rbUseAccessGroups :: "bool option"
  rbMembership :: "membership_fact list option"
  rbResolveMembership :: "(string \<Rightarrow> access_group \<Rightarrow> bool option) option"
  rbMatchedEntry :: "js_entry option"
  rbReadStore :: "js_entry list option option"
  rbUseDefaultStore :: "bool option"
  rbDefaultStore :: "string list option"
  rbDefaultDmPolicy :: "dm_policy option"
  rbDefaultGroupPolicy :: "group_policy option"
  rbGroupFallback :: "bool option"
  rbMutableMatching :: "mutable_matching option"

record resolver_message =
  rmStableId :: "js_entry option"
  rmAliases :: "string \<Rightarrow> js_entry option"
  rmConversation :: conversation_kind
  rmEvent :: "event_preset option"
  rmDmPolicy :: "dm_policy option"
  rmGroupPolicy :: "group_policy option"
  rmGroupFallback :: "bool option"
  rmMutableMatching :: "mutable_matching option"
  rmActivation :: "activation_policy option"
  rmAllowFrom :: "js_entry list option"
  rmGroupAllowFrom :: "js_entry list option"
  rmRoute :: route_input
  rmRouteFacts :: "route_facts list option"
  rmMembership :: "membership_fact list option"
  rmProviderMissing :: "bool option"
  rmMentionFacts :: "mention_facts option"
  rmCommand :: "command_preset option"

definition useAccessGroupsFromConfig :: "bool option \<Rightarrow> bool option \<Rightarrow> bool" where
  "useAccessGroupsFromConfig useAccessGroups cfg = nullish useAccessGroups (cfg \<noteq> Some False)"

definition channelIngressCommand :: "command_preset \<Rightarrow> command_input option" where
  "channelIngressCommand c =
     (if cpRequested c = Some False then None
      else Some \<lparr>ciPolicy = \<lparr>cmdUseAccessGroups =
               Some (useAccessGroupsFromConfig (cpUseAccessGroups c) (cpCfgUseAccessGroups c)),
             cmdAllowTextCommands = nullish (cpAllowTextCommands c) False,
             cmdHasControlCommand = nullish (cpHasControlCommand c) True,
             cmdModeWhenOff = cpModeWhenOff c\<rparr>,
           ciOwnerAllowFrom = cpOwnerAllowFrom c, ciGroupOwnerNone = cpGroupOwnerNone c,
           ciDirectGroupEffective = cpDirectGroupEffective c, ciGroupFallback = cpGroupFallback c\<rparr>)"

definition channelIngressEvent :: "event_preset \<Rightarrow> event_input" where
  "channelIngressEvent e =
     (let grp = nullish (epIsGroup e) False
      in \<lparr>inputKind = nullish (epKind e) EventMessage,
          inputAuthMode = nullish (epAuthMode e) AuthInbound,
          inputMayPair = nullish (epMayPair e) (\<not> grp),
          originSubject = epOriginSubject e\<rparr>)"

definition resolveCommandInput :: "command_preset option \<Rightarrow> bool \<Rightarrow> command_input option" where
  "resolveCommandInput command useAccessGroups =
     (case command of
        None \<Rightarrow> None
      | Some c \<Rightarrow> channelIngressCommand
          (c\<lparr>cpUseAccessGroups := orElse (cpUseAccessGroups c) (Some useAccessGroups)\<rparr>))"

definition resolveResolverPolicy :: "resolver_base \<Rightarrow> resolver_message \<Rightarrow> ingress_policy" where
  "resolveResolverPolicy b i =
     \<lparr>dmPolicy = nullish (orElse (rmDmPolicy i) (rbDefaultDmPolicy b)) DmPairing,
      groupPolicy = nullish (orElse (rmGroupPolicy i) (rbDefaultGroupPolicy b)) GroupDisabled,
      groupAllowFromFallbackToAllowFrom = orElse (rmGroupFallback i) (rbGroupFallback b),
      mutableIdentifierMatching = orElse (rmMutableMatching i) (rbMutableMatching b),
      activation = rmActivation i, commandPolicy = None\<rparr>"

text \<open>
  \<open>{...first, ...second}\<close>: a property the second has wins.  A preset that sets a property to
  \<open>undefined\<close> explicitly, which JavaScript would let win too, is not represented.
\<close>

definition spreadEvents :: "event_preset \<Rightarrow> event_preset \<Rightarrow> event_preset" where
  "spreadEvents x y =
     \<lparr>epIsGroup = orElse (epIsGroup y) (epIsGroup x), epKind = orElse (epKind y) (epKind x),
      epAuthMode = orElse (epAuthMode y) (epAuthMode x),
      epMayPair = orElse (epMayPair y) (epMayPair x),
      epOriginSubject = orElse (epOriginSubject y) (epOriginSubject x)\<rparr>"

definition noEvent :: event_preset where
  "noEvent = \<lparr>epIsGroup = None, epKind = None, epAuthMode = None, epMayPair = None,
     epOriginSubject = None\<rparr>"

definition resolverParams :: "resolver_base \<Rightarrow> resolver_message \<Rightarrow> event_preset \<Rightarrow> ingress_params" where
  "resolverParams b i eventDefaults =
     (let grp = (rmConversation i \<noteq> Direct);
          useAccessGroups = useAccessGroupsFromConfig (rbUseAccessGroups b) (rbCfgUseAccessGroups b)
      in \<lparr>paramChannelId = rbChannelId b, paramAccountId = rbAccountId b,
          paramIdentity = rbIdentity b, paramStableId = rmStableId i, paramAliases = rmAliases i,
          paramConversation = rmConversation i,
          paramEvent = channelIngressEvent (spreadEvents (noEvent\<lparr>epIsGroup := Some grp\<rparr>)
            (spreadEvents eventDefaults (nullish (rmEvent i) noEvent))),
          paramPolicy = resolveResolverPolicy b i,
          paramAllowFrom = rmAllowFrom i, paramGroupAllowFrom = rmGroupAllowFrom i,
          paramRoute = rmRoute i, paramRouteFacts = rmRouteFacts i,
          paramAccessGroups = nullish (orElse (rbAccessGroups b) (rbCfgAccessGroups b)) (\<lambda>_. None),
          paramMembership = Some (nullish (rbMembership b) [] @ nullish (rmMembership i) []),
          paramResolveMembership = rbResolveMembership b, paramMatchedEntry = rbMatchedEntry b,
          paramProviderMissing = rmProviderMissing i, paramMentionFacts = rmMentionFacts i,
          paramReadStore = rbReadStore b, paramUseDefaultStore = rbUseDefaultStore b,
          paramDefaultStore = rbDefaultStore b,
          paramCommand = resolveCommandInput (rmCommand i) useAccessGroups\<rparr>)"

definition resolveMessage ::
    "(string \<Rightarrow> string \<Rightarrow> int) \<Rightarrow> resolver_base \<Rightarrow> resolver_message \<Rightarrow> resolved_ingress option" where
  "resolveMessage cmp b i = resolveChannelMessageIngress cmp (resolverParams b i noEvent)"

definition resolveCommand ::
    "(string \<Rightarrow> string \<Rightarrow> int) \<Rightarrow> resolver_base \<Rightarrow> resolver_message \<Rightarrow> resolved_ingress option" where
  "resolveCommand cmp b i = resolveChannelMessageIngress cmp
     (resolverParams b i (noEvent\<lparr>epAuthMode := Some AuthCommand, epMayPair := Some False\<rparr>))"

definition resolveEvent ::
    "(string \<Rightarrow> string \<Rightarrow> int) \<Rightarrow> resolver_base \<Rightarrow> resolver_message \<Rightarrow> resolved_ingress option" where
  "resolveEvent cmp b i = resolveChannelMessageIngress cmp
     (resolverParams b i (noEvent\<lparr>epMayPair := Some False\<rparr>))"

end
