(* ===== verification/IngressRuntimeProofs.thy ===== *)
theory IngressRuntimeProofs
  imports IngressRuntime
begin

text \<open>
  The ingress end to end: the projections agree with the decision, a dispatched sender is one the
  configuration (or, under the pairing policy, the pairing store) knows, and the pairing store is
  only ever consulted for direct messages.
\<close>

section \<open>The phases of the gates\<close>

lemma routeStage_phase: "g \<in> set (routeStage s) \<Longrightarrow> gatePhase g = PhaseRoute"
  by (auto simp: routeStage_def routeGates_def routeGateOf_def routeSenderEmptyGate_def
      split: option.splits)

lemma routeStage_reason:
  "g \<in> set (routeStage s) \<Longrightarrow> gateReason g \<in> {RouteBlocked, Allowed, RouteSenderEmpty}"
  by (auto simp: routeStage_def routeGates_def routeGateOf_def routeSenderEmptyGate_def
      split: option.splits)

lemma routeStage_allowed:
  "g \<in> set (routeStage s) \<Longrightarrow> gateAllowed g \<longleftrightarrow> gateEffect g \<noteq> EffectBlockDispatch"
  by (auto simp: routeStage_def routeGates_def routeGateOf_def routeSenderEmptyGate_def
      split: option.splits)

lemma activationGate_fields:
  "gatePhase (activationGate s policy c) = PhaseActivation"
  "gateReason (activationGate s policy c) \<in> {ActivationSkipped, ActivationAllowed}"
  "\<exists>f. gateActivation (activationGate s policy c) = Some f \<and>
     (afShouldSkip f \<longleftrightarrow> gateEffect (activationGate s policy c) = EffectSkip)"
  by (auto simp: activationGate_def Let_def activationMetadata_def split: option.splits)

lemma activationFirst_is_activationGate:
  "activationFirst s policy = Some g \<Longrightarrow> \<exists>c. g = activationGate s policy c"
  by (auto simp: activationFirst_def split: option.splits if_splits)

lemma senderGateFor_fields:
  "gatePhase (senderGateFor s policy) = PhaseSender"
  "gateKind (senderGateFor s policy) =
     (if conversationKind s = Direct then GateDmSender else GateGroupSender)"
  by (auto simp: senderGateFor_def applyEventAuthModeToSenderGate_def senderGateForDirect_def
      senderGateForGroup_def makeSenderGate_def Let_def)

lemma senderGateFor_allowed_reason:
  "gateAllowed (senderGateFor s policy) \<Longrightarrow> gateReason (senderGateFor s policy) \<noteq> DmPolicyPairingRequired"
  by (auto simp: senderGateFor_def applyEventAuthModeToSenderGate_def senderGateForDirect_def
      senderGateForGroup_def Let_def split: if_splits)

lemma commandGate_phase: "gatePhase (commandGate s policy) = PhaseCommand"
  by (auto simp: commandGate_def Let_def split: option.splits)

lemma commandGate_shouldBlock:
  "map_option shouldBlockControlCommand (gateCommand (commandGate s policy)) = Some True \<Longrightarrow>
   gateEffect (commandGate s policy) = EffectBlockCommand"
  by (auto simp: commandGate_def bareGate_def Let_def split: option.splits)

lemma eventGate_phase: "gatePhase (eventGate s a b) = PhaseEvent"
  by (auto simp: eventGate_def Let_def split: auth_mode.splits)

section \<open>The shape of the graph\<close>

text \<open>The gates in front of the sender gate: the routes, and an activation checked first.\<close>

definition gatesBeforeSender :: "ingress_state \<Rightarrow> ingress_policy \<Rightarrow> access_gate list" where
  "gatesBeforeSender s policy =
     routeStage s @ (case activationFirst s policy of None \<Rightarrow> [] | Some g \<Rightarrow> [g])"

lemma before_sender_phase:
  "g \<in> set (gatesBeforeSender s policy) \<Longrightarrow> gatePhase g \<in> {PhaseRoute, PhaseActivation} \<and>
   gateReason g \<noteq> DmPolicyPairingRequired"
proof -
  assume "g \<in> set (gatesBeforeSender s policy)"
  then consider "g \<in> set (routeStage s)" | "activationFirst s policy = Some g"
    by (auto simp: gatesBeforeSender_def split: option.splits)
  then show ?thesis
  proof cases
    case 1
    then show ?thesis using routeStage_phase [OF 1] routeStage_reason [OF 1] by auto
  next
    case 2
    then obtain c where "g = activationGate s policy c"
      using activationFirst_is_activationGate by blast
    then show ?thesis using activationGate_fields(1,2) [of s policy c] by auto
  qed
qed

lemma find_skip: "\<forall>x \<in> set xs. \<not> P x \<Longrightarrow> find P (xs @ ys) = find P ys"
  by (induction xs) auto

lemma decide_stages:
  fixes s :: ingress_state and policy :: ingress_policy
  defines "d \<equiv> decideChannelIngress s policy" and "sender \<equiv> senderGateFor s policy"
    and "before \<equiv> gatesBeforeSender s policy"
  obtains (early) g where "g \<in> set before" "reasonCode d = gateReason g" "set (graph d) \<subseteq> set before"
      "admission d = Drop \<or> admission d = Skip"
  | (denied) "\<not> gateAllowed sender" "graph d = before @ [sender]" "reasonCode d = gateReason sender"
      "admission d = (if gateReason sender = DmPolicyPairingRequired then PairingRequired else Drop)"
  | (passed) "gateAllowed sender" "d = decideAfterSender s policy (activationFirst s policy) sender
      (before @ [sender])" "\<forall>g \<in> set_option (activationFirst s policy). gateEffect g \<noteq> EffectSkip"
      "\<forall>g \<in> set (routeStage s). gateEffect g \<noteq> EffectBlockDispatch"
proof (cases "find (\<lambda>g. gateEffect g = EffectBlockDispatch) (routeStage s)")
  case (Some g)
  then have "g \<in> set (routeStage s)" by (auto dest: find_SomeD)
  moreover have "graph d = routeStage s" "reasonCode d = gateReason g" "admission d = Drop"
    using Some by (simp_all add: d_def decideChannelIngress_def decisiveDecision_def Let_def
        flip: routeStage_def)
  ultimately show ?thesis by (intro early [of g]) (auto simp: before_def gatesBeforeSender_def)
next
  case None
  show ?thesis
  proof (cases "\<exists>g \<in> set_option (activationFirst s policy). gateEffect g = EffectSkip")
    case True
    then obtain g where g: "activationFirst s policy = Some g" "gateEffect g = EffectSkip" by auto
    then have "graph d = before" "reasonCode d = gateReason g" "admission d = Skip"
      using None by (simp_all add: d_def decideChannelIngress_def decisiveDecision_def Let_def
          before_def gatesBeforeSender_def flip: routeStage_def)
    then show ?thesis using g by (intro early [of g]) (auto simp: before_def gatesBeforeSender_def)
  next
    case noskip: False
    show ?thesis
    proof (cases "gateAllowed sender")
      case True
      have "d = decideAfterSender s policy (activationFirst s policy) sender (before @ [sender])"
        using None noskip True by (simp add: d_def sender_def before_def decideChannelIngress_def
            Let_def gatesBeforeSender_def flip: routeStage_def)
      then show ?thesis using passed True noskip None by (simp add: find_None_all)
    next
      case False
      then have "graph d = before @ [sender]" "reasonCode d = gateReason sender"
        "admission d = (if gateReason sender = DmPolicyPairingRequired then PairingRequired else Drop)"
        using None noskip by (simp_all add: d_def sender_def before_def decideChannelIngress_def
            decisiveDecision_def Let_def gatesBeforeSender_def flip: routeStage_def)
      then show ?thesis using denied False by blast
    qed
  qed
qed

lemma graph_after_sender:
  "\<exists>rest. graph (decideAfterSender s policy a sender gates) = gates @ commandGate s policy # rest \<and>
     (\<forall>g \<in> set rest. gatePhase g \<in> {PhaseEvent, PhaseActivation})"
proof -
  have "gatePhase (nullish a (activationGate s policy c)) = PhaseActivation"
    if "a = None" for c using that activationGate_fields by simp
  then show ?thesis
    by (cases a) (auto simp: decideAfterSender_def decisiveDecision_def Let_def eventGate_phase
        activationGate_fields)
qed

text \<open>A dispatched event passed every gate.\<close>

lemma dispatch_passes:
  assumes "gateAllowed sender" and "admission (decideAfterSender s policy a sender gates) = Dispatch"
    and first: "a = activationFirst s policy"
  shows "gateEffect (commandGate s policy) \<noteq> EffectBlockCommand \<and>
    (\<exists>act. graph (decideAfterSender s policy a sender gates) =
       gates @ [commandGate s policy, eventGate s sender (commandGate s policy)] @ act \<and>
       (\<forall>g \<in> set act. (\<exists>c. g = activationGate s policy c) \<and> gateEffect g \<noteq> EffectSkip))"
  using assms(2)
  by (cases a) (auto simp: decideAfterSender_def decisiveDecision_def Let_def split: if_splits)

text \<open>The first gate of a phase before which only other phases come.\<close>

lemma senderGate_found:
  assumes "graph d = gatesBeforeSender s policy @ senderGateFor s policy # rest"
  shows "findSenderGate d (conversationKind s \<noteq> Direct) = Some (senderGateFor s policy)"
proof -
  have "\<forall>g \<in> set (gatesBeforeSender s policy). gatePhase g \<noteq> PhaseSender"
    using before_sender_phase by fastforce
  then show ?thesis
    using assms senderGateFor_fields [of s policy]
    by (auto simp: findSenderGate_def findIngressGate_def find_skip)
qed

lemma senderGate_missing:
  assumes "set (graph d) \<subseteq> set (gatesBeforeSender s policy)"
  shows "findSenderGate d grp = None"
proof -
  have "\<forall>g \<in> set (graph d). gatePhase g \<noteq> PhaseSender"
    using before_sender_phase assms by fastforce
  then show ?thesis by (auto simp: findSenderGate_def findIngressGate_def find_None_all)
qed

lemma sender_access_pairing:
  fixes s :: ingress_state and policy :: ingress_policy
  defines "d \<equiv> decideChannelIngress s policy"
  shows "saDecision (projectSenderAccess d (conversationKind s \<noteq> Direct) e g m) = DecisionPairing \<longleftrightarrow>
    admission d = PairingRequired"
proof (cases rule: decide_stages [of s policy])
  case (early h)
  then show ?thesis
    using senderGate_missing [of d s policy] before_sender_phase [of h s policy]
    by (auto simp: d_def projectSenderAccess_def Let_def)
next
  case denied
  then have "findSenderGate d (conversationKind s \<noteq> Direct) = Some (senderGateFor s policy)"
    using senderGate_found [of d s policy "[]"] by (simp add: d_def)
  then show ?thesis using denied by (simp add: d_def projectSenderAccess_def Let_def)
next
  case passed
  obtain rest where "graph d = gatesBeforeSender s policy @ senderGateFor s policy # rest"
    using passed graph_after_sender [of s policy "activationFirst s policy" "senderGateFor s policy"
        "gatesBeforeSender s policy @ [senderGateFor s policy]"] by (auto simp: d_def)
  then have "findSenderGate d (conversationKind s \<noteq> Direct) = Some (senderGateFor s policy)"
    by (rule senderGate_found)
  moreover have "admission d \<noteq> PairingRequired"
    using passed by (auto simp: d_def decideAfterSender_def decisiveDecision_def Let_def)
  ultimately show ?thesis
    using passed(1) senderGateFor_allowed_reason [of s policy]
    by (simp add: d_def projectSenderAccess_def Let_def)
qed

lemma find_head: "find P (xs @ y # ys) = Some y" if "\<forall>x \<in> set xs. \<not> P x" "P y"
  using that by (simp add: find_skip)

lemma route_access_allowed:
  assumes "find (\<lambda>x. gatePhase x = PhaseRoute \<and> gateEffect x = EffectBlockDispatch) (graph d) = None"
    and "find (\<lambda>x. gatePhase x = PhaseSender \<and> gateEffect x = EffectBlockDispatch) (graph d) = None"
    and "\<And>x. find (\<lambda>x. gatePhase x = PhaseRoute) (graph d) = Some x \<Longrightarrow> gateAllowed x"
  shows "raAllowed (projectRouteAccess d route)"
proof -
  have "raAllowed (case find (\<lambda>x. gatePhase x = PhaseRoute) (graph d) of
      Some gate \<Rightarrow> \<lparr>raAllowed = gateAllowed gate, raReasonCode = Some (gateReason gate),
                     raReason = None, raGate = Some gate\<rparr>
    | None \<Rightarrow> \<lparr>raAllowed = True, raReasonCode = None, raReason = None, raGate = None\<rparr>)"
    using assms(3) by (cases "find (\<lambda>x. gatePhase x = PhaseRoute) (graph d)") simp_all
  then show ?thesis
    using assms(1,2) by (simp add: projectRouteAccess_def Let_def split: option.split)
qed

lemma activation_access_skip:
  assumes "\<And>x. x \<in> set (graph d) \<Longrightarrow> gatePhase x = PhaseActivation \<Longrightarrow>
    \<exists>c. x = activationGate s policy c \<and> gateEffect x \<noteq> EffectSkip"
  shows "\<not> aaShouldSkip (projectActivationAccess d)"
proof (cases "findIngressGate d PhaseActivation GateMention")
  case None
  then show ?thesis by (simp add: projectActivationAccess_def Let_def)
next
  case (Some x)
  then have "x \<in> set (graph d)" "gatePhase x = PhaseActivation"
    unfolding findIngressGate_def using find_SomeD by fast+
  then obtain c where c: "x = activationGate s policy c" "gateEffect x \<noteq> EffectSkip"
    using assms by blast
  obtain f where "gateActivation x = Some f" "\<not> afShouldSkip f"
    using activationGate_fields(3) [of s policy c] c by auto
  then show ?thesis using Some by (simp add: projectActivationAccess_def Let_def)
qed

lemma dispatch_projections:
  fixes s :: ingress_state and policy :: ingress_policy
  defines "d \<equiv> decideChannelIngress s policy"
  assumes "admission d = Dispatch"
  shows "saAllowed (projectSenderAccess d (conversationKind s \<noteq> Direct) e g m) \<and>
    raAllowed (projectRouteAccess d route) \<and> \<not> caShouldBlock (projectCommandAccess d policy') \<and>
    \<not> aaShouldSkip (projectActivationAccess d)"
proof (cases rule: decide_stages [of s policy])
  case (early h)
  then show ?thesis using assms by (auto simp: d_def)
next
  case denied
  then show ?thesis using assms by (auto simp: d_def split: if_splits)
next
  case passed
  let ?sender = "senderGateFor s policy" and ?before = "gatesBeforeSender s policy"
  obtain act where effect: "gateEffect (commandGate s policy) \<noteq> EffectBlockCommand"
    and graph: "graph d = ?before @ [?sender, commandGate s policy,
      eventGate s ?sender (commandGate s policy)] @ act"
    and act: "\<And>x. x \<in> set act \<Longrightarrow> (\<exists>c. x = activationGate s policy c) \<and> gateEffect x \<noteq> EffectSkip"
    using dispatch_passes [OF passed(1) _ refl, of s policy "?before @ [?sender]"] passed(2) assms
    by (auto simp: d_def)
  have "find (\<lambda>x. gatePhase x = PhaseCommand \<and> gateKind x = GateCommand) (graph d) \<in>
      {None, Some (commandGate s policy)}"
  proof -
    have "x = commandGate s policy" if "x \<in> set (graph d)" "gatePhase x = PhaseCommand" for x
      using that before_sender_phase [of x s policy] act [of x] activationGate_fields(1)
      by (auto simp: graph senderGateFor_fields eventGate_phase)
    then show ?thesis using find_SomeD by fastforce
  qed
  then have command: "\<not> caShouldBlock (projectCommandAccess d policy')"
    using effect commandGate_shouldBlock [of s policy]
    by (auto simp: projectCommandAccess_def findIngressGate_def Let_def)
  have activation: "\<not> aaShouldSkip (projectActivationAccess d)"
  proof -
    have "\<exists>c. x = activationGate s policy c \<and> gateEffect x \<noteq> EffectSkip"
      if "x \<in> set (graph d)" "gatePhase x = PhaseActivation" for x
    proof (cases "x \<in> set ?before")
      case True
      then have "activationFirst s policy = Some x"
        using that(2) routeStage_phase [of x s]
        by (auto simp: gatesBeforeSender_def split: option.splits)
      then show ?thesis using passed(3) activationFirst_is_activationGate [of s policy x] by auto
    next
      case False
      then show ?thesis using that act [of x] commandGate_phase [of s policy]
        by (auto simp: graph senderGateFor_fields eventGate_phase)
    qed
    then show ?thesis by (rule activation_access_skip)
  qed
  have "findSenderGate d (conversationKind s \<noteq> Direct) = Some ?sender"
    using senderGate_found graph by simp
  then have sender: "saAllowed (projectSenderAccess d (conversationKind s \<noteq> Direct) e g m)"
    using passed(1) senderGateFor_allowed_reason [of s policy]
    by (simp add: projectSenderAccess_def Let_def)
  have route_gate: "x \<in> set (routeStage s)" if "x \<in> set (graph d)" "gatePhase x = PhaseRoute" for x
    using that act [of x] activationGate_fields(1) commandGate_phase [of s policy]
      activationFirst_is_activationGate [of s policy x]
    by (auto simp: graph gatesBeforeSender_def senderGateFor_fields eventGate_phase split: option.splits)
  then have "find (\<lambda>x. gatePhase x = PhaseRoute \<and> gateEffect x = EffectBlockDispatch) (graph d) = None"
    using passed(4) by (auto simp: find_None_all)
  moreover have "find (\<lambda>x. gatePhase x = PhaseSender \<and> gateEffect x = EffectBlockDispatch) (graph d) = None"
  proof -
    have "gateEffect ?sender \<noteq> EffectBlockDispatch"
      using passed(1) senderGateFor_holdsBack [of s policy] by (auto simp: holdsBack_def)
    moreover have "x = ?sender" if "x \<in> set (graph d)" "gatePhase x = PhaseSender" for x
      using that before_sender_phase [of x s policy] act [of x] activationGate_fields(1)
        commandGate_phase [of s policy] by (auto simp: graph eventGate_phase)
    ultimately show ?thesis by (auto simp: find_None_all)
  qed
  moreover have "gateAllowed x" if "find (\<lambda>x. gatePhase x = PhaseRoute) (graph d) = Some x" for x
    using find_SomeD [OF that] route_gate routeStage_allowed passed(4) by blast
  ultimately have "raAllowed (projectRouteAccess d route)" by (rule route_access_allowed)
  with sender command activation show ?thesis by blast
qed

section \<open>One resolved event\<close>

lemma resolved_fields:
  assumes "resolveChannelMessageIngress cmp p = Some r"
  obtains channel e g where "normalizeChannelId (paramChannelId p) = Some channel"
    "riState r = resolveChannelIngressState cmp (ingressStateInput p channel)"
    "riIngress r = decideChannelIngress (riState r) (effectivePolicy p)"
    "riSender r = projectSenderAccess (riIngress r) (paramConversation p \<noteq> Direct) e g
       (paramProviderMissing p)"
    "riRoute r = projectRouteAccess (riIngress r) (paramRoute p)"
    "riCommand r = projectCommandAccess (riIngress r) (effectivePolicy p)"
    "riActivation r = projectActivationAccess (riIngress r)"
  using assms that by (auto simp: resolveChannelMessageIngress_def Let_def split: option.splits)

lemma state_of_input:
  fixes cmp :: "string \<Rightarrow> string \<Rightarrow> int" and p :: ingress_params and channel :: string
  defines "s \<equiv> resolveChannelIngressState cmp (ingressStateInput p channel)"
  shows "conversationKind s = paramConversation p" "authMode (event s) = inputAuthMode (paramEvent p)"
    "mayPair (event s) = inputMayPair (paramEvent p)"
  by (simp_all add: s_def resolveChannelIngressState_def ingressStateInput_def Let_def)

lemma lists_of_input:
  fixes cmp :: "string \<Rightarrow> string \<Rightarrow> int" and p :: ingress_params and channel :: string
  defines "i \<equiv> ingressStateInput p channel"
  defines "s \<equiv> resolveChannelIngressState cmp i"
  shows "listDm (allowlists s) = resolveIngressAllowlist i (Some (map JsString (rawAllow p))) ContextDm"
    "listPairingStore (allowlists s) =
       resolveIngressAllowlist i (Some (map JsString (rawStoreAllow p))) ContextDm"
    "listGroup (allowlists s) = resolveIngressAllowlist i (inputGroup (allowlistInput i)) ContextGroup"
    "adapter i = createIdentityAdapter (paramIdentity p)"
  by (simp_all add: s_def i_def resolveChannelIngressState_def ingressStateInput_def Let_def)

lemma effectivePolicy_fields [simp]:
  "dmPolicy (effectivePolicy p) = dmPolicy (paramPolicy p)"
  "groupPolicy (effectivePolicy p) = groupPolicy (paramPolicy p)"
  "activation (effectivePolicy p) = activation (paramPolicy p)"
  "mutableIdentifierMatching (effectivePolicy p) = mutableIdentifierMatching (paramPolicy p)"
  by (simp_all add: effectivePolicy_def split: option.splits)

text \<open>
  What a channel reads off a resolved event agrees with the decision.  The sender projection
  asks for pairing exactly when the admission is a pairing request, and a dispatched event has an
  allowed sender, an allowed route, no blocked command and no skipped activation.
\<close>

theorem projections_agree_with_decision:
  assumes "resolveChannelMessageIngress cmp p = Some r"
  shows "(saDecision (riSender r) = DecisionPairing \<longleftrightarrow> admission (riIngress r) = PairingRequired) \<and>
    (admission (riIngress r) = Dispatch \<longrightarrow>
       saAllowed (riSender r) \<and> raAllowed (riRoute r) \<and> \<not> caShouldBlock (riCommand r) \<and>
       \<not> aaShouldSkip (riActivation r))"
proof -
  obtain channel e g where r: "riState r = resolveChannelIngressState cmp (ingressStateInput p channel)"
    "riIngress r = decideChannelIngress (riState r) (effectivePolicy p)"
    "riSender r = projectSenderAccess (riIngress r) (paramConversation p \<noteq> Direct) e g
       (paramProviderMissing p)"
    "riRoute r = projectRouteAccess (riIngress r) (paramRoute p)"
    "riCommand r = projectCommandAccess (riIngress r) (effectivePolicy p)"
    "riActivation r = projectActivationAccess (riIngress r)"
    by (rule resolved_fields [OF assms])
  have conv: "conversationKind (riState r) = paramConversation p"
    unfolding r(1) by (rule state_of_input)
  show ?thesis
    using r(2-6) sender_access_pairing [where s = "riState r" and policy = "effectivePolicy p"]
      dispatch_projections [where s = "riState r" and policy = "effectivePolicy p"]
    unfolding conv by metis
qed

section \<open>Sample events\<close>

definition sampleParams :: "dm_policy \<Rightarrow> js_entry list \<Rightarrow> js_entry list \<Rightarrow> string \<Rightarrow> ingress_params" where
  "sampleParams policy allow store sender =
     \<lparr>paramChannelId = '' telegram'', paramAccountId = ''default'', paramIdentity = plainIdentity,
      paramStableId = Some (JsString sender), paramAliases = (\<lambda>_. None), paramConversation = Direct,
      paramEvent = \<lparr>inputKind = EventMessage, inputAuthMode = AuthInbound, inputMayPair = True,
        originSubject = None\<rparr>,
      paramPolicy = samplePolicy policy, paramAllowFrom = Some allow, paramGroupAllowFrom = None,
      paramRoute = NoRoute, paramRouteFacts = None, paramAccessGroups = (\<lambda>_. None),
      paramMembership = None, paramResolveMembership = None, paramMatchedEntry = None,
      paramProviderMissing = None, paramMentionFacts = None, paramReadStore = Some (Some store),
      paramUseDefaultStore = None, paramDefaultStore = None, paramCommand = None\<rparr>"

abbreviation sampleDispatch :: ingress_params where
  "sampleDispatch \<equiv> sampleParams DmPairing [JsString ''u1''] [JsString ''u2''] ''u2''"

lemma sampleDispatch_dispatches:
  "map_option (admission \<circ> riIngress) (resolveChannelMessageIngress (\<lambda>_ _. 0) sampleDispatch) =
   Some Dispatch"
  by code_simp

lemma projections_agree_with_decision_witness:
  "\<exists>r. resolveChannelMessageIngress (\<lambda>_ _. 0) sampleDispatch = Some r \<and>
     admission (riIngress r) = Dispatch \<and> saAllowed (riSender r)"
proof -
  obtain r where "resolveChannelMessageIngress (\<lambda>_ _. 0) sampleDispatch = Some r"
    "admission (riIngress r) = Dispatch"
    using sampleDispatch_dispatches by auto
  then show ?thesis using projections_agree_with_decision by blast
qed

section \<open>Who gets in\<close>

lemma raw_lists_normal:
  "normalizeStringEntries (map JsString (rawAllow p)) = rawAllow p"
  "normalizeStringEntries (map JsString (rawGroupAllow p)) = rawGroupAllow p"
  "normalizeStringEntries (map JsString (rawStoreAllow p)) = rawStoreAllow p"
  by (simp_all add: rawAllow_def rawGroupAllow_def rawStoreAllow_def normalizeStringEntries_idem)

text \<open>
  C2. Nobody unknown gets through.  A dispatched inbound direct message was sent while direct
  messages are enabled, by a sender whom an entry of the configured allowlist (or an access group it
  names) matches, or under the pairing policy an entry of the pairing store, or under the open policy
  anyone if the configured allowlist has the wildcard.
\<close>

theorem dispatched_direct_sender_is_known:
  assumes "resolveChannelMessageIngress cmp p = Some r" and "admission (riIngress r) = Dispatch"
    and "paramConversation p = Direct" and "inputAuthMode (paramEvent p) = AuthInbound"
  shows "\<exists>channel. normalizeChannelId (paramChannelId p) = Some channel \<and>
    (let known = entriesMatch (ingressStateInput p channel) ContextDm
     in case dmPolicy (paramPolicy p) of
          DmDisabled \<Rightarrow> False
        | DmOpen \<Rightarrow> ''*'' \<in> set (rawAllow p) \<or> known (rawAllow p)
        | DmAllowlist \<Rightarrow> known (rawAllow p)
        | DmPairing \<Rightarrow> known (rawAllow p) \<or> known (rawStoreAllow p))"
proof -
  obtain channel where r: "normalizeChannelId (paramChannelId p) = Some channel"
    "riState r = resolveChannelIngressState cmp (ingressStateInput p channel)"
    "riIngress r = decideChannelIngress (riState r) (effectivePolicy p)"
    by (rule resolved_fields [OF assms(1)])
  let ?i = "ingressStateInput p channel"
  let ?s = "resolveChannelIngressState cmp ?i" and ?policy = "effectivePolicy p"
  have "senderAuthorized ?s ?policy"
    using dispatch_senderAuthorized [of ?s ?policy] assms(2,4) r(2,3) by (simp add: state_of_input)
  then have auth: "directSenderAuthorized ?s ?policy"
    using assms(3) by (simp add: senderAuthorized_def state_of_input)
  note lists = lists_of_input(1,2) [of cmp p channel] and adapter = lists_of_input(4) [of p channel]
  have dm: "grants ?policy (listDm (allowlists ?s)) \<Longrightarrow> entriesMatch ?i ContextDm (rawAllow p)"
    unfolding lists by (drule grants_entriesMatch [OF adapter]) (simp add: raw_lists_normal)
  have store: "grants ?policy (listPairingStore (allowlists ?s)) \<Longrightarrow>
      entriesMatch ?i ContextDm (rawStoreAllow p)"
    unfolding lists by (drule grants_entriesMatch [OF adapter]) (simp add: raw_lists_normal)
  have wild: "hasWildcard (listDm (allowlists ?s)) \<Longrightarrow> ''*'' \<in> set (rawAllow p)"
    unfolding lists
    by (simp add: resolveIngressAllowlist_def directAllowlistEntries_def Let_def raw_lists_normal)
  show ?thesis
    using auth dm store wild r(1)
    by (auto simp: directSenderAuthorized_def Let_def split: dm_policy.splits)
qed

lemma dispatched_direct_sender_is_known_witness:
  "entriesMatch (ingressStateInput sampleDispatch ''telegram'') ContextDm [''u1''] \<or>
   entriesMatch (ingressStateInput sampleDispatch ''telegram'') ContextDm [''u2'']"
proof -
  obtain r where r: "resolveChannelMessageIngress (\<lambda>_ _. 0) sampleDispatch = Some r"
    "admission (riIngress r) = Dispatch"
    using sampleDispatch_dispatches by auto
  have sample: "paramConversation sampleDispatch = Direct"
    "inputAuthMode (paramEvent sampleDispatch) = AuthInbound"
    "dmPolicy (paramPolicy sampleDispatch) = DmPairing"
    by (simp_all add: sampleParams_def samplePolicy_def)
  have lists: "normalizeChannelId (paramChannelId sampleDispatch) = Some ''telegram''"
    "rawAllow sampleDispatch = [''u1'']" "rawStoreAllow sampleDispatch = [''u2'']"
    by code_simp+
  show ?thesis
    using dispatched_direct_sender_is_known [OF r sample(1,2)] by (simp add: lists sample(3) Let_def)
qed

text \<open>The group entries that apply: the group's own, or (unless disabled) the direct ones.\<close>

definition groupEntriesOf :: "ingress_params \<Rightarrow> string list" where
  "groupEntriesOf p =
     (if rawGroupAllow p \<noteq> [] then rawGroupAllow p
      else if groupAllowFromFallbackToAllowFrom (paramPolicy p) = Some False then []
      else rawAllow p)"

lemma inputGroup_entries:
  "inputGroup (allowlistInput (ingressStateInput p channel)) = Some (map JsString (groupEntriesOf p))"
  by (simp add: ingressStateInput_def Let_def effective_allow_from_once resolveGroupAllowFromSources_def
      groupEntriesOf_def raw_lists_normal)

lemma groupEntriesOf_normal:
  "normalizeStringEntries (map JsString (groupEntriesOf p)) = groupEntriesOf p"
  by (simp add: groupEntriesOf_def raw_lists_normal)

lemma configured_iff: "hasConfiguredEntries (resolveIngressAllowlist i raw c) \<longleftrightarrow>
    normalizeStringEntries (nullish raw []) \<noteq> []"
  by (simp add: resolveIngressAllowlist_def Let_def)

text \<open>
  Groups do not learn from the pairing store.  Where no route applies, a dispatched inbound
  group message came from a group whose policy is open, or from a sender an entry of the group's
  allowlist matches, which falls back to the direct allowlist as configured and never to the
  pairing store.
\<close>

theorem dispatched_group_sender_is_known:
  assumes "resolveChannelMessageIngress cmp p = Some r" and "admission (riIngress r) = Dispatch"
    and "paramConversation p \<noteq> Direct" and "inputAuthMode (paramEvent p) = AuthInbound"
    and "allRouteFacts p = []"
  shows "\<exists>channel. normalizeChannelId (paramChannelId p) = Some channel \<and>
    (case groupPolicy (paramPolicy p) of
       GroupDisabled \<Rightarrow> False
     | GroupOpen \<Rightarrow> True
     | GroupAllowlist \<Rightarrow>
         entriesMatch (ingressStateInput p channel) ContextGroup
           (if rawGroupAllow p \<noteq> [] then rawGroupAllow p
            else if groupAllowFromFallbackToAllowFrom (paramPolicy p) = Some False then []
            else rawAllow p))"
proof -
  obtain channel where r: "normalizeChannelId (paramChannelId p) = Some channel"
    "riState r = resolveChannelIngressState cmp (ingressStateInput p channel)"
    "riIngress r = decideChannelIngress (riState r) (effectivePolicy p)"
    by (rule resolved_fields [OF assms(1)])
  let ?i = "ingressStateInput p channel"
  let ?s = "resolveChannelIngressState cmp ?i" and ?policy = "effectivePolicy p"
  have "senderAuthorized ?s ?policy"
    using dispatch_senderAuthorized [of ?s ?policy] assms(2,4) r(2,3) by (simp add: state_of_input)
  then have auth: "groupSenderAuthorized ?s ?policy"
    using assms(3) by (simp add: senderAuthorized_def state_of_input)
  have "routeFacts ?s = []"
    using assms(5) by (simp add: resolveChannelIngressState_def resolveRouteFacts_def to_sorted_def
        ingressStateInput_def Let_def)
  then have effective: "effectiveGroupSenderAllowlist ?s ?policy = applyMutableIdentifierPolicy
      (if groupAllowFromFallbackToAllowFrom ?policy = Some True \<and>
          \<not> hasConfiguredEntries (listGroup (allowlists ?s))
       then listDm (allowlists ?s) else listGroup (allowlists ?s)) ?policy"
    by (simp add: effectiveGroupSenderAllowlist_def Let_def)
  note lists = lists_of_input(1,3) [of cmp p channel] and adapter = lists_of_input(4) [of p channel]
  have "entriesMatch ?i ContextGroup (groupEntriesOf p)" if "groupPolicy (paramPolicy p) = GroupAllowlist"
  proof (cases "hasConfiguredEntries (listGroup (allowlists ?s))")
    case True
    then have "grants ?policy (listGroup (allowlists ?s))"
      using auth that by (simp add: groupSenderAuthorized_def effective grants_def)
    then show ?thesis
      using grants_entriesMatch [OF adapter] unfolding lists
      by (fastforce simp: inputGroup_entries groupEntriesOf_normal)
  next
    case False
    then have none: "groupEntriesOf p = []"
      by (simp add: lists configured_iff inputGroup_entries groupEntriesOf_normal)
    have fallback: "groupAllowFromFallbackToAllowFrom ?policy = Some True"
      "hasConfiguredEntries (listDm (allowlists ?s))"
      using auth that False by (auto simp: groupSenderAuthorized_def effective split: if_splits)
    have "groupAllowFromFallbackToAllowFrom (paramPolicy p) = Some True"
      using fallback(1) by (simp add: effectivePolicy_def split: option.splits)
    then show ?thesis
      using none fallback(2)
      by (simp add: lists configured_iff groupEntriesOf_def raw_lists_normal split: if_splits)
  qed
  then show ?thesis
    using auth r(1) by (auto simp: groupSenderAuthorized_def groupEntriesOf_def split: group_policy.splits)
qed

abbreviation sampleGroup :: ingress_params where
  "sampleGroup \<equiv> (sampleParams DmPairing [JsString ''u1''] [JsString ''u2''] ''u1'')
     \<lparr>paramConversation := Group\<rparr>"

lemma dispatched_group_sender_is_known_witness:
  "entriesMatch (ingressStateInput sampleGroup ''telegram'') ContextGroup [''u1'']"
proof -
  have "map_option (admission \<circ> riIngress) (resolveChannelMessageIngress (\<lambda>_ _. 0) sampleGroup) =
      Some Dispatch"
    by code_simp
  then obtain r where r: "resolveChannelMessageIngress (\<lambda>_ _. 0) sampleGroup = Some r"
    "admission (riIngress r) = Dispatch"
    by auto
  have sample: "paramConversation sampleGroup \<noteq> Direct"
    "inputAuthMode (paramEvent sampleGroup) = AuthInbound" "allRouteFacts sampleGroup = []"
    "groupPolicy (paramPolicy sampleGroup) = GroupAllowlist"
    "groupAllowFromFallbackToAllowFrom (paramPolicy sampleGroup) = None"
    by (simp_all add: sampleParams_def samplePolicy_def allRouteFacts_def
        routeFactsFromDescriptors_def routeDescriptors_def)
  have lists: "normalizeChannelId (paramChannelId sampleGroup) = Some ''telegram''"
    "rawAllow sampleGroup = [''u1'']" "rawGroupAllow sampleGroup = []"
    by code_simp+
  show ?thesis
    using dispatched_group_sender_is_known [OF r sample(1,2,3)]
    by (simp only: lists sample(4,5)) simp
qed

lemma readStoreAllowFrom_unused:
  "\<not> shouldReadStore (paramConversation p) (dmPolicy (paramPolicy p)) \<Longrightarrow> readStoreAllowFrom p = []"
  by (simp add: readStoreAllowFrom_def)

text \<open>
  The pairing store matters only for direct messages under the pairing policy (or disabled
  ones): for a group, and for a direct message under an explicit allowlist or the open policy,
  whatever the store answers, or if reading it fails, the whole result is the same.
\<close>

theorem pairing_store_is_inert_elsewhere:
  assumes "paramConversation p \<noteq> Direct \<or> dmPolicy (paramPolicy p) = DmAllowlist \<or>
    dmPolicy (paramPolicy p) = DmOpen"
  shows "resolveChannelMessageIngress cmp
      (p\<lparr>paramReadStore := a, paramUseDefaultStore := b, paramDefaultStore := c\<rparr>) =
    resolveChannelMessageIngress cmp p"
proof -
  let ?q = "p\<lparr>paramReadStore := a, paramUseDefaultStore := b, paramDefaultStore := c\<rparr>"
  have "readStoreAllowFrom ?q = []" "readStoreAllowFrom p = []"
    using assms by (auto simp: readStoreAllowFrom_def shouldReadStore_def)
  then have raw: "rawAllow ?q = rawAllow p" "rawGroupAllow ?q = rawGroupAllow p"
    "rawStoreAllow ?q = rawStoreAllow p" "allRouteFacts ?q = allRouteFacts p"
    by (simp_all add: rawAllow_def rawGroupAllow_def rawStoreAllow_def allRouteFacts_def)
  moreover have "allMembershipFacts ?q = allMembershipFacts p"
    by (simp add: allMembershipFacts_def raw resolveRuntimeAccessGroupMembershipFacts_def
        cong: option.case_cong)
  ultimately have "ingressStateInput ?q channel = ingressStateInput p channel" for channel
    by (simp add: ingressStateInput_def)
  moreover have "baseEffectiveLists ?q = baseEffectiveLists p"
    by (simp add: baseEffectiveLists_def raw)
  ultimately show ?thesis
    by (simp add: resolveChannelMessageIngress_def effectivePolicy_def accessGroupMatchedEntry_def
        cong: option.case_cong)
qed

lemma pairing_store_is_inert_elsewhere_witness:
  "resolveChannelMessageIngress (\<lambda>_ _. 0)
     ((sampleParams DmAllowlist [] [] ''u2'')\<lparr>paramReadStore := Some (Some [JsString ''u2'']),
        paramUseDefaultStore := None, paramDefaultStore := None\<rparr>) =
   resolveChannelMessageIngress (\<lambda>_ _. 0) (sampleParams DmAllowlist [] [] ''u2'')"
  by (rule pairing_store_is_inert_elsewhere) (simp add: sampleParams_def samplePolicy_def)

section \<open>The resolver's surfaces\<close>

lemma pairing_needs_mayPair:
  assumes "resolveChannelMessageIngress cmp p = Some r" and "admission (riIngress r) = PairingRequired"
  shows "inputMayPair (paramEvent p) \<and> inputAuthMode (paramEvent p) = AuthInbound \<and>
    paramConversation p = Direct \<and> dmPolicy (paramPolicy p) = DmPairing"
proof -
  obtain channel where r: "riState r = resolveChannelIngressState cmp (ingressStateInput p channel)"
    "riIngress r = decideChannelIngress (riState r) (effectivePolicy p)"
    by (rule resolved_fields [OF assms(1)])
  then have "admissionSpec (resolveChannelIngressState cmp (ingressStateInput p channel))
      (effectivePolicy p) = PairingRequired"
    using assms(2) by (simp add: decide_admission)
  then show ?thesis by (auto simp: admissionSpec_def state_of_input split: if_splits)
qed

text \<open>
  Only a direct message can start a pairing: the resolver's command and event surfaces never
  ask for pairing unless the caller's own event preset says it may, and its message surface asks for
  it only for an inbound direct message under the pairing policy.
\<close>

theorem only_direct_messages_start_pairing:
  assumes "resolveMessage cmp b i = Some r \<or>
      (resolveCommand cmp b i = Some r \<or> resolveEvent cmp b i = Some r) \<and>
      (\<forall>e \<in> set_option (rmEvent i). epMayPair e = None)"
    and "admission (riIngress r) = PairingRequired"
  shows "resolveMessage cmp b i = Some r \<and> rmConversation i = Direct \<and>
    dmPolicy (resolveResolverPolicy b i) = DmPairing"
proof -
  have may: "inputMayPair (channelIngressEvent (spreadEvents x (spreadEvents
      (y\<lparr>epMayPair := Some False\<rparr>) (nullish (rmEvent i) noEvent)))) = False"
    if "\<forall>e \<in> set_option (rmEvent i). epMayPair e = None" for x y
    using that by (cases "rmEvent i")
      (simp_all add: channelIngressEvent_def spreadEvents_def noEvent_def Let_def orElse_def)
  have "\<not> (resolveCommand cmp b i = Some r \<or> resolveEvent cmp b i = Some r)"
    if "\<forall>e \<in> set_option (rmEvent i). epMayPair e = None"
  proof -
    have "inputMayPair (paramEvent (resolverParams b i (y\<lparr>epMayPair := Some False\<rparr>))) = False" for y
      using may [OF that] by (simp add: resolverParams_def Let_def)
    then show ?thesis
      using pairing_needs_mayPair [OF _ assms(2)] unfolding resolveCommand_def resolveEvent_def
      by metis
  qed
  then have m: "resolveMessage cmp b i = Some r" using assms(1) by blast
  then have "paramConversation (resolverParams b i noEvent) = Direct \<and>
      dmPolicy (paramPolicy (resolverParams b i noEvent)) = DmPairing"
    using pairing_needs_mayPair [OF _ assms(2)] by (simp add: resolveMessage_def)
  then show ?thesis using m by (simp add: resolverParams_def Let_def)
qed

definition sampleBase :: resolver_base where
  "sampleBase =
     \<lparr>rbChannelId = ''telegram'', rbAccountId = ''default'', rbIdentity = plainIdentity,
      rbAccessGroups = None, rbCfgAccessGroups = None, rbCfgUseAccessGroups = None,
      rbUseAccessGroups = None, rbMembership = None, rbResolveMembership = None,
      rbMatchedEntry = None, rbReadStore = Some None, rbUseDefaultStore = None,
      rbDefaultStore = None, rbDefaultDmPolicy = None, rbDefaultGroupPolicy = None,
      rbGroupFallback = None, rbMutableMatching = None\<rparr>"

definition sampleMessage :: resolver_message where
  "sampleMessage =
     \<lparr>rmStableId = Some (JsString ''u3''), rmAliases = (\<lambda>_. None), rmConversation = Direct,
      rmEvent = None, rmDmPolicy = None, rmGroupPolicy = None, rmGroupFallback = None,
      rmMutableMatching = None, rmActivation = None, rmAllowFrom = None, rmGroupAllowFrom = None,
      rmRoute = NoRoute, rmRouteFacts = None, rmMembership = None, rmProviderMissing = None,
      rmMentionFacts = None, rmCommand = None\<rparr>"

lemma only_direct_messages_start_pairing_witness:
  "rmConversation sampleMessage = Direct \<and>
   dmPolicy (resolveResolverPolicy sampleBase sampleMessage) = DmPairing"
proof -
  have "map_option (admission \<circ> riIngress) (resolveMessage (\<lambda>_ _. 0) sampleBase sampleMessage) =
      Some PairingRequired"
    by code_simp
  then obtain r where "resolveMessage (\<lambda>_ _. 0) sampleBase sampleMessage = Some r"
    "admission (riIngress r) = PairingRequired"
    by auto
  then show ?thesis using only_direct_messages_start_pairing by blast
qed

end
