(* ===== verification/FixedWindow.thy ===== *)
theory FixedWindow
  imports JsNumber
begin

text \<open>
  \<open>src/infra/fixed-window-rate-limit.ts\<close>: the fixed-window limiter of the gateway, ACP and webhook
  ingress.  The two variables the closures share are the record \<open>fixed_window\<close>, the constants of
  the factory the record \<open>window_config\<close>; the clock value a call reads is its argument.
\<close>

record window_config =
  maxRequests :: int
  windowMs :: int

record fixed_window =
  windowCount :: int
  windowStartMs :: ms

record consume_result =
  allowed :: bool
  retryAfterMs :: int
  remaining :: int

definition resolveFixedWindowRateLimitInteger :: "js_number option \<Rightarrow> int \<Rightarrow> int \<Rightarrow> int" where
  "resolveFixedWindowRateLimitInteger v fallback lo =
     max lo (case asFiniteNumber v of Some q \<Rightarrow> \<lfloor>q\<rfloor> | None \<Rightarrow> fallback)"

definition createFixedWindowRateLimiter ::
    "js_number \<Rightarrow> js_number \<Rightarrow> window_config \<times> fixed_window" where
  "createFixedWindowRateLimiter requests window =
     (\<lparr>maxRequests = resolveFixedWindowRateLimitInteger (Some requests) 1 1,
       windowMs = resolveFixedWindowRateLimitInteger (Some window) 1 1\<rparr>,
      \<lparr>windowCount = 0, windowStartMs = 0\<rparr>)"

definition consume :: "window_config \<Rightarrow> ms \<Rightarrow> fixed_window \<Rightarrow> consume_result \<times> fixed_window" where
  "consume c nowMs s =
     (let s1 = (if nowMs - windowStartMs s \<ge> windowMs c
                then s\<lparr>windowStartMs := nowMs, windowCount := 0\<rparr> else s)
      in if windowCount s1 \<ge> maxRequests c
         then (\<lparr>allowed = False, retryAfterMs = max 0 (windowStartMs s1 + windowMs c - nowMs),
                remaining = 0\<rparr>, s1)
         else let s2 = s1\<lparr>windowCount := windowCount s1 + 1\<rparr>
              in (\<lparr>allowed = True, retryAfterMs = 0,
                   remaining = max 0 (maxRequests c - windowCount s2)\<rparr>, s2))"

definition resetWindow :: "fixed_window \<Rightarrow> fixed_window" where
  "resetWindow s = s\<lparr>windowCount := 0, windowStartMs := 0\<rparr>"

section \<open>Runs\<close>

datatype window_event = Consume ms | ResetWindow

fun windowStep :: "window_config \<Rightarrow> window_event \<Rightarrow> fixed_window \<Rightarrow> fixed_window" where
  "windowStep c (Consume t) s = snd (consume c t s)"
| "windowStep c ResetWindow s = resetWindow s"

definition windowRun :: "window_config \<Rightarrow> window_event list \<Rightarrow> fixed_window \<Rightarrow> fixed_window" where
  "windowRun c es s = fold (windowStep c) es s"

text \<open>The number of calls at the given instants that are allowed.\<close>

fun allowedCalls :: "window_config \<Rightarrow> ms list \<Rightarrow> fixed_window \<Rightarrow> int" where
  "allowedCalls c [] s = 0"
| "allowedCalls c (t # ts) s =
     (let (r, s1) = consume c t s in (if allowed r then 1 else 0) + allowedCalls c ts s1)"

definition windowInv :: "window_config \<Rightarrow> fixed_window \<Rightarrow> bool" where
  "windowInv c s \<longleftrightarrow> 0 \<le> windowCount s \<and> windowCount s \<le> maxRequests c"

lemma config_bounds:
  "fst (createFixedWindowRateLimiter q w) = c \<Longrightarrow> 1 \<le> maxRequests c \<and> 1 \<le> windowMs c"
  by (auto simp: createFixedWindowRateLimiter_def resolveFixedWindowRateLimitInteger_def)

lemma windowInv_consume:
  "1 \<le> maxRequests c \<Longrightarrow> windowInv c s \<Longrightarrow> windowInv c (snd (consume c t s))"
  by (auto simp: consume_def windowInv_def Let_def)

lemma windowInv_step:
  "1 \<le> maxRequests c \<Longrightarrow> windowInv c s \<Longrightarrow> windowInv c (windowStep c e s)"
  by (cases e) (auto simp: windowInv_consume, simp add: windowInv_def resetWindow_def)

lemma windowInv_run:
  "1 \<le> maxRequests c \<Longrightarrow> windowInv c s \<Longrightarrow> windowInv c (windowRun c es s)"
  unfolding windowRun_def by (induction es arbitrary: s) (auto simp: windowInv_step)

lemma windowInv_init: "windowInv c (snd (createFixedWindowRateLimiter q w))"
  if "1 \<le> maxRequests c"
  using that by (simp add: createFixedWindowRateLimiter_def windowInv_def)

text \<open>Inside one window the quota that is left is not exceeded.\<close>

lemma allowed_in_one_window:
  assumes "windowInv c s" "\<forall>t \<in> set ts. t - windowStartMs s < windowMs c"
  shows "allowedCalls c ts s \<le> maxRequests c - windowCount s"
  using assms
proof (induction ts arbitrary: s)
  case Nil
  then show ?case by (simp add: windowInv_def)
next
  case (Cons t ts)
  have same: "\<not> t - windowStartMs s \<ge> windowMs c" using Cons.prems by simp
  show ?case
  proof (cases "windowCount s \<ge> maxRequests c")
    case True
    then have "snd (consume c t s) = s" and "\<not> allowed (fst (consume c t s))"
      using same by (simp_all add: consume_def Let_def)
    then show ?thesis using Cons.IH [of s] Cons.prems by (simp add: split_def)
  next
    case False
    let ?s = "s\<lparr>windowCount := windowCount s + 1\<rparr>"
    have "snd (consume c t s) = ?s" "allowed (fst (consume c t s))"
      using same False by (simp_all add: consume_def Let_def)
    moreover have "windowInv c ?s" using Cons.prems False by (simp add: windowInv_def)
    ultimately show ?thesis
      using Cons.IH [of ?s] Cons.prems by (simp add: split_def)
  qed
qed

text \<open>An interval no longer than the window meets at most two windows.\<close>

lemma allowed_in_interval:
  assumes "1 \<le> maxRequests c" "windowInv c s" "sorted ts" "\<forall>t \<in> set ts. a \<le> t \<and> t < a + windowMs c"
  shows "allowedCalls c ts s \<le> (maxRequests c - windowCount s) + maxRequests c"
  using assms
proof (induction ts arbitrary: s)
  case Nil
  then show ?case by (simp add: windowInv_def)
next
  case (Cons t ts)
  show ?case
  proof (cases "t - windowStartMs s \<ge> windowMs c")
    case True
    let ?s = "\<lparr>windowCount = 1, windowStartMs = t\<rparr>"
    have st: "snd (consume c t s) = ?s" "allowed (fst (consume c t s))"
      using True Cons.prems(1) by (simp_all add: consume_def Let_def)
    have "u - t < windowMs c" if "u \<in> set ts" for u
      using Cons.prems(4) that by fastforce
    then have "allowedCalls c ts ?s \<le> maxRequests c - 1"
      using allowed_in_one_window [of c ?s ts] Cons.prems by (simp add: windowInv_def)
    with st Cons.prems show ?thesis by (simp add: split_def windowInv_def)
  next
    case same: False
    show ?thesis
    proof (cases "windowCount s \<ge> maxRequests c")
      case True
      then have "snd (consume c t s) = s" "\<not> allowed (fst (consume c t s))"
        using same by (simp_all add: consume_def Let_def)
      then show ?thesis using Cons.IH [of s] Cons.prems by (simp add: split_def)
    next
      case False
      let ?s = "s\<lparr>windowCount := windowCount s + 1\<rparr>"
      have "snd (consume c t s) = ?s" "allowed (fst (consume c t s))"
        using same False by (simp_all add: consume_def Let_def)
      moreover have "windowInv c ?s" using Cons.prems False by (simp add: windowInv_def)
      ultimately show ?thesis
        using Cons.IH [of ?s] Cons.prems by (simp add: split_def)
    qed
  qed
qed

text \<open>
  Whatever calls and resets came before, an interval as long as the window admits at most
  twice the configured number of requests (the fixed windows meet at most once in it), and a
  refused caller that waits for the reported delay, with no call in between, is admitted.
\<close>

theorem fixed_window_quota:
  assumes "createFixedWindowRateLimiter requests window = (c, s0)"
    and "s = windowRun c es s0"
    and "sorted ts" "\<forall>t \<in> set ts. a \<le> t \<and> t < a + windowMs c"
    and "consume c now s = (r, s1)"
  shows "allowedCalls c ts s \<le> 2 * maxRequests c \<and>
    (\<not> allowed r \<longrightarrow> allowed (fst (consume c (now + retryAfterMs r) s1)))"
proof
  have c: "1 \<le> maxRequests c" using config_bounds [of requests window c] assms(1) by simp
  have "windowInv c s0" using windowInv_init [OF c, of requests window] assms(1) by simp
  then have inv: "windowInv c s" using windowInv_run [OF c] assms(2) by simp
  then show "allowedCalls c ts s \<le> 2 * maxRequests c"
    using allowed_in_interval [OF c inv assms(3,4)] by (simp add: windowInv_def)
  show "\<not> allowed r \<longrightarrow> allowed (fst (consume c (now + retryAfterMs r) s1))"
    using c assms(5) by (auto simp: consume_def Let_def split: if_splits)
qed

theorem fixed_window_quota_witness:
  "allowedCalls \<lparr>maxRequests = 2, windowMs = 10\<rparr> [15, 16, 18, 20, 22, 24]
      \<lparr>windowCount = 0, windowStartMs = 10\<rparr> = 4 \<and>
   allowed (fst (consume \<lparr>maxRequests = 2, windowMs = 10\<rparr> (14 + 6)
      \<lparr>windowCount = 2, windowStartMs = 10\<rparr>))"
proof -
  have init: "createFixedWindowRateLimiter (Finite 2) (Finite 10) =
      (\<lparr>maxRequests = 2, windowMs = 10\<rparr>, \<lparr>windowCount = 0, windowStartMs = 0\<rparr>)"
    by (simp add: createFixedWindowRateLimiter_def resolveFixedWindowRateLimitInteger_def
        asFiniteNumber_def)
  have "allowed (fst (consume \<lparr>maxRequests = 2, windowMs = 10\<rparr> (14 + 6)
      \<lparr>windowCount = 2, windowStartMs = 10\<rparr>))"
    using fixed_window_quota [OF init, of "\<lparr>windowCount = 2, windowStartMs = 10\<rparr>"
        "[Consume 10, Consume 12]" "[15, 16, 18, 20, 22, 24]" 15 14
        "\<lparr>allowed = False, retryAfterMs = 6, remaining = 0\<rparr>" "\<lparr>windowCount = 2, windowStartMs = 10\<rparr>"]
    by (simp add: windowRun_def consume_def Let_def)
  then show ?thesis by (simp add: consume_def Let_def)
qed

end
