(* ===== verification/DedupeCache.thy ===== *)
theory DedupeCache
  imports JsNumber JsMap
begin

text \<open>
  \<open>src/infra/dedupe.ts\<close>: the in-memory duplicate suppression of the inbound and replay paths.
  The \<open>Map\<close> of the closures is the insertion-ordered \<open>jsmap\<close> from keys to the time of their last
  sighting; the last entry is the most recent one.  The process-global wrapper
  \<open>resolveGlobalDedupeCache\<close> only looks the same object up.
\<close>

record dedupe_options =
  ttlMs :: int
  maxSize :: int

type_synonym dedupe_cache = "(string, ms) jsmap"

definition createDedupeCache :: "js_number \<Rightarrow> js_number \<Rightarrow> dedupe_options \<times> dedupe_cache" where
  "createDedupeCache ttl cap =
     (\<lparr>ttlMs = resolveNonNegativeIntegerOption (Some ttl) 0,
       maxSize = resolveNonNegativeIntegerOption (Some cap) 0\<rparr>, [])"

definition touchKey :: "string \<Rightarrow> ms \<Rightarrow> dedupe_cache \<Rightarrow> dedupe_cache" where
  "touchKey key now m = jm_set key now (jm_delete key m)"

text \<open>The loop deletes the expired entries; the entries that stay keep their order.\<close>

definition pruneCache :: "dedupe_options \<Rightarrow> ms \<Rightarrow> dedupe_cache \<Rightarrow> dedupe_cache" where
  "pruneCache opts now m =
     (let cutoff = (if ttlMs opts > 0 then Some (now - ttlMs opts) else None);
          m1 = (case cutoff of
                  None \<Rightarrow> m
                | Some c \<Rightarrow> filter (\<lambda>(entryKey, entryTs). \<not> entryTs < c) m)
      in if maxSize opts \<le> 0 then [] else pruneMapToMaxSize (Some (maxSize opts)) m1)"

definition hasUnexpired ::
    "dedupe_options \<Rightarrow> string \<Rightarrow> ms \<Rightarrow> bool \<Rightarrow> dedupe_cache \<Rightarrow> bool \<times> dedupe_cache" where
  "hasUnexpired opts key now touchOnRead m =
     (case jm_get m key of
        None \<Rightarrow> (False, m)
      | Some existing \<Rightarrow>
          if ttlMs opts > 0 \<and> now - existing \<ge> ttlMs opts then (False, jm_delete key m)
          else (True, if touchOnRead then touchKey key now m else m))"

definition checkKey ::
    "dedupe_options \<Rightarrow> string option \<Rightarrow> ms \<Rightarrow> dedupe_cache \<Rightarrow> bool \<times> dedupe_cache" where
  "checkKey opts key now m =
     (case key of
        None \<Rightarrow> (False, m)
      | Some k \<Rightarrow>
          if k = [] then (False, m)
          else
            let (hit, m1) = hasUnexpired opts k now True m
            in if hit then (True, m1) else (False, pruneCache opts now (touchKey k now m1)))"

definition peekKey ::
    "dedupe_options \<Rightarrow> string option \<Rightarrow> ms \<Rightarrow> dedupe_cache \<Rightarrow> bool \<times> dedupe_cache" where
  "peekKey opts key now m =
     (case key of
        None \<Rightarrow> (False, m)
      | Some k \<Rightarrow> if k = [] then (False, m) else hasUnexpired opts k now False m)"

definition deleteKey :: "string option \<Rightarrow> dedupe_cache \<Rightarrow> dedupe_cache" where
  "deleteKey key m = (case key of None \<Rightarrow> m | Some k \<Rightarrow> if k = [] then m else jm_delete k m)"

section \<open>Runs\<close>

datatype dedupe_event =
    Check "string option" ms
  | Peek "string option" ms
  | DeleteKey "string option"
  | ClearCache

fun dedupeStep :: "dedupe_options \<Rightarrow> dedupe_event \<Rightarrow> dedupe_cache \<Rightarrow> dedupe_cache" where
  "dedupeStep opts (Check k t) m = snd (checkKey opts k t m)"
| "dedupeStep opts (Peek k t) m = snd (peekKey opts k t m)"
| "dedupeStep opts (DeleteKey k) m = deleteKey k m"
| "dedupeStep opts ClearCache m = []"

definition dedupeRun :: "dedupe_options \<Rightarrow> dedupe_event list \<Rightarrow> dedupe_cache \<Rightarrow> dedupe_cache" where
  "dedupeRun opts es m = fold (dedupeStep opts) es m"

section \<open>What a step does to an entry\<close>

lemma checkKey_simps [simp]:
  "checkKey opts None t m = (False, m)"
  "checkKey opts (Some []) t m = (False, m)"
  "k \<noteq> [] \<Longrightarrow> fst (checkKey opts (Some k) t m) = fst (hasUnexpired opts k t True m)"
  "k \<noteq> [] \<Longrightarrow> snd (checkKey opts (Some k) t m) =
     (let h = hasUnexpired opts k t True m
      in if fst h then snd h else pruneCache opts t (touchKey k t (snd h)))"
  by (simp_all add: checkKey_def split_def Let_def)

lemma get_touchKey: "jm_get (touchKey k t m) k' = (if k' = k then Some t else jm_get m k')"
  by (simp add: touchKey_def jm.store_simps)

lemma jm_ok_touchKey: "jm_ok m \<Longrightarrow> jm_ok (touchKey k t m)"
  by (simp add: touchKey_def jm.ok_touch)

lemma jm_get_drop: "jm_ok m \<Longrightarrow> jm_get (drop n m) k = Some v \<Longrightarrow> jm_get m k = Some v"
  by (metis jm_get_in_set jm_ok_drop in_set_dropD)

lemma pruneCache_ok: "jm_ok m \<Longrightarrow> jm_ok (pruneCache opts t m)"
  by (auto simp: pruneCache_def Let_def jm_ok_pruneMapToMaxSize jm_ok_filter split: option.splits)

lemma pruneCache_length: "length (pruneCache opts t m) \<le> nat (maxSize opts)"
  by (auto simp: pruneCache_def Let_def pruneMapToMaxSize_length split: option.splits)

lemma pruneCache_get:
  "jm_ok m \<Longrightarrow> jm_get (pruneCache opts t m) k = Some v \<Longrightarrow> jm_get m k = Some v"
  by (auto simp: pruneCache_def Let_def pruneMapToMaxSize_drop jm_get_filter
      dest!: jm_get_drop [rotated] intro!: jm_ok_filter split: option.splits if_splits)

definition cacheInv :: "dedupe_options \<Rightarrow> dedupe_cache \<Rightarrow> bool" where
  "cacheInv opts m \<longleftrightarrow> jm_ok m \<and> length m \<le> nat (maxSize opts)"

lemma hasUnexpired_inv:
  "cacheInv opts m \<Longrightarrow> cacheInv opts (snd (hasUnexpired opts k t r m))"
proof -
  assume inv: "cacheInv opts m"
  have "cacheInv opts (jm_delete k m)"
    using inv jm.count_del_le [of m k] by (auto simp: cacheInv_def jm.ok_del)
  moreover have "cacheInv opts (touchKey k t m)" if "jm_get m k = Some v" for v
  proof -
    have "length m \<noteq> 0" using that by (cases m) auto
    with that inv show ?thesis
      by (auto simp: cacheInv_def touchKey_def jm.ok_touch jm.count_put jm.ok_del jm.count_del
          jm.get_del)
  qed
  ultimately show ?thesis using inv by (auto simp: hasUnexpired_def split: option.splits)
qed

lemma dedupeStep_inv: "cacheInv opts m \<Longrightarrow> cacheInv opts (dedupeStep opts e m)"
proof (cases e)
  case (Check k t)
  assume inv: "cacheInv opts m"
  have "cacheInv opts (pruneCache opts t (touchKey k' t (snd (hasUnexpired opts k' t True m))))" for k'
    using hasUnexpired_inv [OF inv, of k' t True]
    by (simp add: cacheInv_def pruneCache_length pruneCache_ok jm_ok_touchKey)
  then show ?thesis using Check inv hasUnexpired_inv [OF inv]
    by (cases k; cases "k = Some []") (auto simp: Let_def)
next
  case (DeleteKey k)
  assume inv: "cacheInv opts m"
  then have "cacheInv opts (jm_delete k' m)" for k'
    using jm.count_del_le [of m k'] by (auto simp: cacheInv_def jm.ok_del)
  then show ?thesis using DeleteKey inv by (auto simp: deleteKey_def split: option.splits)
qed (auto simp: peekKey_def hasUnexpired_inv split: option.splits, simp add: cacheInv_def)

lemma dedupeRun_inv: "cacheInv opts m \<Longrightarrow> cacheInv opts (dedupeRun opts es m)"
  unfolding dedupeRun_def by (induction es arbitrary: m) (auto simp: dedupeStep_inv)

text \<open>An entry is there because of a check of its key, and survives no clear or delete.\<close>

lemma hasUnexpired_get:
  "jm_get (snd (hasUnexpired opts k t r m)) k' = Some v \<Longrightarrow>
   (r \<and> k' = k \<and> v = t) \<or> jm_get m k' = Some v"
  by (auto simp: hasUnexpired_def get_touchKey jm.store_simps split: option.splits if_splits)

lemma dedupeStep_origin:
  assumes "cacheInv opts m" "jm_get (dedupeStep opts e m) k = Some v" "k \<noteq> []"
  shows "e = Check (Some k) v \<or>
    (jm_get m k = Some v \<and> e \<noteq> ClearCache \<and> e \<noteq> DeleteKey (Some k))"
proof (cases e)
  case (Check k' t)
  have "jm_get (touchKey x t (snd (hasUnexpired opts x t True m))) k = Some v"
    if "jm_get (pruneCache opts t (touchKey x t (snd (hasUnexpired opts x t True m)))) k = Some v" for x
    using pruneCache_get [OF _ that] hasUnexpired_inv [OF assms(1), of x t True]
    by (simp add: cacheInv_def jm_ok_touchKey)
  note pruned = this
  show ?thesis
  proof (cases "k' = None \<or> k' = Some []")
    case True
    then show ?thesis using Check assms(2) by auto
  next
    case False
    then obtain x where x: "k' = Some x" "x \<noteq> []" by auto
    then have "jm_get (touchKey x t (snd (hasUnexpired opts x t True m))) k = Some v \<or>
        jm_get (snd (hasUnexpired opts x t True m)) k = Some v"
      using assms(2) Check pruned [of x] by (auto simp: Let_def split: if_splits)
    then have "(k = x \<and> v = t) \<or> jm_get (snd (hasUnexpired opts x t True m)) k = Some v"
      by (auto simp: get_touchKey split: if_splits)
    then have "(k = x \<and> v = t) \<or> jm_get m k = Some v"
      using hasUnexpired_get by fastforce
    then show ?thesis using Check x by auto
  qed
next
  case (DeleteKey k')
  then show ?thesis using assms(2,3)
    by (auto simp: deleteKey_def jm.store_simps dest: jm_get_Some_in_set split: option.splits if_splits)
qed (use assms(2) in \<open>auto simp: peekKey_def dest: hasUnexpired_get split: option.splits if_splits\<close>)

lemma dedupeRun_origin:
  assumes "cacheInv opts m" "jm_get (dedupeRun opts es m) k = Some v" "jm_get m k = None" "k \<noteq> []"
  shows "\<exists>pre suf. es = pre @ Check (Some k) v # suf \<and>
    ClearCache \<notin> set suf \<and> DeleteKey (Some k) \<notin> set suf"
  using assms(2)
proof (induction es rule: rev_induct)
  case Nil
  then show ?case using assms(3) by (simp add: dedupeRun_def)
next
  case (snoc e es)
  have "jm_get (dedupeStep opts e (dedupeRun opts es m)) k = Some v"
    using snoc.prems by (simp add: dedupeRun_def)
  from dedupeStep_origin [OF dedupeRun_inv [OF assms(1)] this assms(4)] show ?case
  proof
    assume "e = Check (Some k) v"
    then show ?thesis by (intro exI [of _ es] exI [of _ "[]"]) simp
  next
    assume *: "jm_get (dedupeRun opts es m) k = Some v \<and> e \<noteq> ClearCache \<and> e \<noteq> DeleteKey (Some k)"
    then obtain pre suf where "es = pre @ Check (Some k) v # suf"
      "ClearCache \<notin> set suf" "DeleteKey (Some k) \<notin> set suf"
      using snoc.IH by blast
    then show ?thesis using * by (intro exI [of _ pre] exI [of _ "suf @ [e]"]) auto
  qed
qed

section \<open>Recency\<close>

text \<open>
  \<open>recentFrom k t K m\<close>: the key \<open>k\<close> is recorded at \<open>t\<close> or later, and every key recorded more
  recently is one of \<open>K\<close>.
\<close>

definition recentFrom :: "string \<Rightarrow> ms \<Rightarrow> string set \<Rightarrow> dedupe_cache \<Rightarrow> bool" where
  "recentFrom k t K m \<longleftrightarrow>
     jm_ok m \<and> (\<exists>pre ts suf. m = pre @ (k, ts) # suf \<and> t \<le> ts \<and> fst ` set suf \<subseteq> K)"

lemma recentFrom_get: "recentFrom k t K m \<Longrightarrow> \<exists>ts. jm_get m k = Some ts \<and> t \<le> ts"
  by (auto simp: recentFrom_def jm_get_in_set)

lemma delete_append: "AList.delete k (xs @ ys) = AList.delete k xs @ AList.delete k ys"
  by (simp add: AList.delete_eq)

lemma update_new: "k \<notin> fst ` set m \<Longrightarrow> AList.update k v m = m @ [(k, v)]"
  by (induction m) auto

lemma touchKey_snoc: "touchKey k t m = jm_delete k m @ [(k, t)]"
proof -
  have "k \<notin> fst ` set (AList.delete k m)" by (auto simp: AList.delete_eq)
  then show ?thesis by (simp add: touchKey_def jm_set_def jm_delete_def update_new)
qed

lemma recentFrom_delete:
  assumes "recentFrom k t K m" "k' \<noteq> k"
  shows "recentFrom k t K (jm_delete k' m)"
proof -
  obtain pre ts suf where m: "m = pre @ (k, ts) # suf" "t \<le> ts" "fst ` set suf \<subseteq> K"
    using assms(1) by (auto simp: recentFrom_def)
  have "jm_delete k' m = jm_delete k' pre @ (k, ts) # jm_delete k' suf"
    using m(1) assms(2) by (simp add: jm_delete_def delete_append)
  moreover have "fst ` set (jm_delete k' suf) \<subseteq> K"
    using m(3) by (auto simp: jm_delete_def AList.delete_eq)
  moreover have "jm_ok (jm_delete k' m)"
    using assms(1) by (simp add: recentFrom_def jm.ok_del)
  ultimately show ?thesis using m(2) unfolding recentFrom_def by blast
qed

lemma recentFrom_touch:
  assumes "recentFrom k t K m" "k' \<noteq> k" "k' \<in> K"
  shows "recentFrom k t K (touchKey k' t' m)"
proof -
  have ok: "jm_ok (touchKey k' t' m)" using assms(1) by (simp add: recentFrom_def jm_ok_touchKey)
  obtain pre ts suf where m: "jm_delete k' m = pre @ (k, ts) # suf" "t \<le> ts" "fst ` set suf \<subseteq> K"
    using recentFrom_delete [OF assms(1,2)] by (auto simp: recentFrom_def)
  then have "touchKey k' t' m = pre @ (k, ts) # (suf @ [(k', t')])" by (simp add: touchKey_snoc)
  moreover have "fst ` set (suf @ [(k', t')]) \<subseteq> K" using m(3) assms(3) by auto
  ultimately show ?thesis using ok m(2) unfolding recentFrom_def by blast
qed

lemma recentFrom_touch_same:
  "jm_ok m \<Longrightarrow> t \<le> t' \<Longrightarrow> recentFrom k t K (touchKey k t' m)"
  unfolding recentFrom_def using jm_ok_touchKey
  by (force simp: touchKey_snoc)

lemma recentFrom_prune:
  assumes rec: "recentFrom k t K m" and K: "finite K" "int (card K) < maxSize opts"
    and fresh: "ttlMs opts > 0 \<Longrightarrow> t' - t \<le> ttlMs opts"
  shows "recentFrom k t K (pruneCache opts t' m)"
proof -
  define P where "P = (\<lambda>p :: string \<times> ms. ttlMs opts > 0 \<longrightarrow> \<not> snd p < t' - ttlMs opts)"
  have prune: "pruneCache opts t' m = drop (length (filter P m) - nat (maxSize opts)) (filter P m)"
    using K by (auto simp: pruneCache_def Let_def P_def pruneMapToMaxSize_drop split_def)
  obtain pre ts suf where m: "m = pre @ (k, ts) # suf" "t \<le> ts" "fst ` set suf \<subseteq> K"
    using rec by (auto simp: recentFrom_def)
  have "P (k, ts)" using fresh m(2) by (auto simp: P_def)
  then have f: "filter P m = filter P pre @ (k, ts) # filter P suf" using m(1) by simp
  have "distinct (map fst suf)" using rec m(1) by (simp add: recentFrom_def jm_ok_def jm_keys_def)
  then have "length suf = card (fst ` set suf)" by (metis distinct_card length_map set_map)
  also have "\<dots> \<le> card K" using m(3) K(1) by (rule card_mono [rotated])
  finally have "length (filter P suf) < nat (maxSize opts)"
    using K(2) length_filter_le [of P suf] by linarith
  then have "length (filter P m) - nat (maxSize opts) \<le> length (filter P pre)" using f by simp
  then have "drop (length (filter P m) - nat (maxSize opts)) (filter P m) =
      drop (length (filter P m) - nat (maxSize opts)) (filter P pre) @ (k, ts) # filter P suf"
    using f by simp
  moreover have "jm_ok (drop (length (filter P m) - nat (maxSize opts)) (filter P m))"
    using rec by (simp add: recentFrom_def jm_ok_drop jm_ok_filter)
  moreover have "fst ` set (filter P suf) \<subseteq> K" using m(3) by auto
  ultimately show ?thesis using prune m(2) unfolding recentFrom_def by metis
qed

text \<open>The events between two sightings of a key that must not make the cache forget it.\<close>

fun keeps :: "string \<Rightarrow> ms \<Rightarrow> ms \<Rightarrow> string set \<Rightarrow> dedupe_event \<Rightarrow> bool" where
  "keeps k t now K (Check k' t') =
     (t \<le> t' \<and> t' \<le> now \<and> (case k' of None \<Rightarrow> True | Some x \<Rightarrow> x = [] \<or> x = k \<or> x \<in> K))"
| "keeps k t now K (Peek k' t') = (t \<le> t' \<and> t' \<le> now)"
| "keeps k t now K (DeleteKey k') = (k' \<noteq> Some k)"
| "keeps k t now K ClearCache = False"

lemma recentFrom_hasUnexpired_same:
  assumes "recentFrom k t K m" "ttlMs opts > 0 \<Longrightarrow> t' - t < ttlMs opts"
  shows "fst (hasUnexpired opts k t' r m)"
  using recentFrom_get [OF assms(1)] assms(2) by (force simp: hasUnexpired_def)

lemma recentFrom_hasUnexpired:
  assumes "recentFrom k t K m" "ttlMs opts > 0 \<Longrightarrow> t' - t < ttlMs opts" "x = k \<or> \<not> r \<or> x \<in> K"
    "t \<le> t'"
  shows "recentFrom k t K (snd (hasUnexpired opts x t' r m))"
proof (cases "x = k")
  case True
  have "jm_ok m" using assms(1) by (simp add: recentFrom_def)
  then show ?thesis
    using True assms recentFrom_get [OF assms(1)] recentFrom_touch_same
    by (force simp: hasUnexpired_def split: option.splits)
next
  case False
  then show ?thesis
    using assms recentFrom_delete recentFrom_touch
    by (auto simp: hasUnexpired_def split: option.splits)
qed

lemma recentFrom_step:
  assumes rec: "recentFrom k t K m" and K: "finite K" "int (card K) < maxSize opts"
    and fresh: "ttlMs opts > 0 \<Longrightarrow> now - t < ttlMs opts" and e: "keeps k t now K e"
  shows "recentFrom k t K (dedupeStep opts e m)"
proof (cases e)
  case (Check k' t')
  show ?thesis
  proof (cases "k' = None \<or> k' = Some []")
    case True
    then show ?thesis using Check rec by auto
  next
    case False
    then obtain x where x: "k' = Some x" "x \<noteq> []" by auto
    then have t: "t \<le> t'" "t' \<le> now" "x = k \<or> x \<in> K" using Check e by auto
    have lt: "ttlMs opts > 0 \<Longrightarrow> t' - t < ttlMs opts" using fresh t(2) by fastforce
    let ?h = "hasUnexpired opts x t' True m"
    have rec1: "recentFrom k t K (snd ?h)"
      using recentFrom_hasUnexpired [OF rec lt] t by blast
    show ?thesis
    proof (cases "fst ?h")
      case True
      then show ?thesis using Check x rec1 by (simp add: Let_def)
    next
      case False
      then have "x \<noteq> k" using recentFrom_hasUnexpired_same [OF rec lt] by auto
      then have "recentFrom k t K (touchKey x t' (snd ?h))" using recentFrom_touch [OF rec1] t(3) by blast
      then have "recentFrom k t K (pruneCache opts t' (touchKey x t' (snd ?h)))"
        using recentFrom_prune [OF _ K] lt by fastforce
      then show ?thesis using Check x False by (simp add: Let_def)
    qed
  qed
next
  case (Peek k' t')
  then have "ttlMs opts > 0 \<Longrightarrow> t' - t < ttlMs opts" "t \<le> t'" using fresh e by fastforce+
  then show ?thesis using Peek rec recentFrom_hasUnexpired [OF rec]
    by (auto simp: peekKey_def split: option.splits)
next
  case (DeleteKey k')
  then show ?thesis using e rec recentFrom_delete [OF rec]
    by (auto simp: deleteKey_def split: option.splits)
next
  case ClearCache
  then show ?thesis using e by simp
qed

lemma recentFrom_run:
  assumes "recentFrom k t K m" "finite K" "int (card K) < maxSize opts"
    "ttlMs opts > 0 \<Longrightarrow> now - t < ttlMs opts" "\<forall>e \<in> set es. keeps k t now K e"
  shows "recentFrom k t K (dedupeRun opts es m)"
  using assms(1,5)
proof (induction es arbitrary: m)
  case Nil
  then show ?case by (simp add: dedupeRun_def)
next
  case (Cons e es)
  have "recentFrom k t K (dedupeStep opts e m)"
    using recentFrom_step [OF Cons.prems(1) assms(2,3,4)] Cons.prems(2) by simp
  then show ?case using Cons.IH Cons.prems(2) by (simp add: dedupeRun_def)
qed

lemma recentFrom_check:
  assumes inv: "cacheInv opts m" and "k \<noteq> []" "0 < maxSize opts"
  shows "recentFrom k t {} (snd (checkKey opts (Some k) t m))"
proof -
  let ?h = "hasUnexpired opts k t True m"
  have ok: "jm_ok m" "jm_ok (snd ?h)"
    using inv hasUnexpired_inv [OF inv, of k t True] by (auto simp: cacheInv_def)
  show ?thesis
  proof (cases "fst ?h")
    case True
    then have "snd ?h = touchKey k t m" by (auto simp: hasUnexpired_def split: option.splits if_splits)
    then show ?thesis using True assms(2) recentFrom_touch_same [OF ok(1)]
      by (simp add: Let_def)
  next
    case False
    have "recentFrom k t {} (pruneCache opts t (touchKey k t (snd ?h)))"
      using recentFrom_prune [OF recentFrom_touch_same [OF ok(2)]] assms(3) by simp
    then show ?thesis using False assms(2) by (simp add: Let_def)
  qed
qed

section \<open>Properties\<close>

lemma created: "createDedupeCache ttl cap = (opts, m) \<Longrightarrow> m = [] \<and> cacheInv opts m"
  by (auto simp: createDedupeCache_def cacheInv_def)

text \<open>
  The cache never holds more than its configured number of keys, and it calls a key a
  duplicate only when that very key was checked before, less than the time to live ago, with no
  clear and no delete of the key since: a message that was never seen is never suppressed.
\<close>

theorem dedupe_reports_only_recent_duplicates:
  assumes "createDedupeCache ttl cap = (opts, m0)" and "m = dedupeRun opts es m0" and "k \<noteq> []"
  shows "length m \<le> nat (maxSize opts) \<and>
    (fst (checkKey opts (Some k) now m) \<longrightarrow>
      (\<exists>pre t suf. es = pre @ Check (Some k) t # suf \<and>
         ClearCache \<notin> set suf \<and> DeleteKey (Some k) \<notin> set suf \<and>
         (0 < ttlMs opts \<longrightarrow> now - t < ttlMs opts)))"
proof
  have m0: "m0 = []" "cacheInv opts m0" using created [OF assms(1)] by blast+
  then show "length m \<le> nat (maxSize opts)"
    using dedupeRun_inv [OF m0(2), of es] assms(2) by (simp add: cacheInv_def)
  show "fst (checkKey opts (Some k) now m) \<longrightarrow> (\<exists>pre t suf. es = pre @ Check (Some k) t # suf \<and>
         ClearCache \<notin> set suf \<and> DeleteKey (Some k) \<notin> set suf \<and>
         (0 < ttlMs opts \<longrightarrow> now - t < ttlMs opts))"
  proof
    assume "fst (checkKey opts (Some k) now m)"
    then obtain t where t: "jm_get m k = Some t" "0 < ttlMs opts \<longrightarrow> now - t < ttlMs opts"
      using assms(3) by (auto simp: hasUnexpired_def split: option.splits if_splits)
    then show "\<exists>pre t suf. es = pre @ Check (Some k) t # suf \<and>
         ClearCache \<notin> set suf \<and> DeleteKey (Some k) \<notin> set suf \<and>
         (0 < ttlMs opts \<longrightarrow> now - t < ttlMs opts)"
      using dedupeRun_origin [OF m0(2), of es k t] assms(2,3) m0(1) by auto
  qed
qed

text \<open>
  No duplicate is missed inside the window: once a key has been checked, checking it again
  before the time to live has passed reports a duplicate, whatever happened in between, as long as
  fewer other keys than the capacity were checked meanwhile and nobody cleared the cache or deleted
  the key.
\<close>

theorem dedupe_detects_recent_duplicate:
  assumes "createDedupeCache ttl cap = (opts, m0)" and "k \<noteq> []" "0 < maxSize opts"
    and "m = snd (checkKey opts (Some k) t (dedupeRun opts before m0))"
    and "finite others" "int (card others) < maxSize opts"
    and "\<forall>e \<in> set between. keeps k t now others e"
    and "0 < ttlMs opts \<longrightarrow> now - t < ttlMs opts"
  shows "fst (checkKey opts (Some k) now (dedupeRun opts between m))"
proof -
  have "cacheInv opts (dedupeRun opts before m0)"
    using created [OF assms(1)] dedupeRun_inv by blast
  then have "recentFrom k t {} m" using recentFrom_check assms(2,3,4) by simp
  then have "recentFrom k t others m" unfolding recentFrom_def by blast
  then have "recentFrom k t others (dedupeRun opts between m)"
    using recentFrom_run assms(5,6,7,8) by blast
  then show ?thesis using recentFrom_hasUnexpired_same assms(2,8) by simp
qed

lemma smallCache:
  "createDedupeCache (Finite 10) (Finite 2) = (\<lparr>ttlMs = 10, maxSize = 2\<rparr>, [])"
  by (simp add: createDedupeCache_def resolveNonNegativeIntegerOption_def resolveIntegerOption_def
      asFiniteNumber_def Let_def)

theorem dedupe_reports_only_recent_duplicates_witness:
  "\<not> fst (checkKey \<lparr>ttlMs = 10, maxSize = 2\<rparr> (Some ''b'') 3
      (dedupeRun \<lparr>ttlMs = 10, maxSize = 2\<rparr> [Check (Some ''a'') 1] []))"
proof -
  have "Check (Some ''b'') t \<notin> set [Check (Some ''a'') 1]" for t by simp
  then show ?thesis
    using dedupe_reports_only_recent_duplicates [OF smallCache refl, of "''b''"
        "[Check (Some ''a'') 1]" 3]
    by (metis in_set_conv_decomp list.discI)
qed

theorem dedupe_detects_recent_duplicate_witness:
  "fst (checkKey \<lparr>ttlMs = 10, maxSize = 2\<rparr> (Some ''a'') 9
      (dedupeRun \<lparr>ttlMs = 10, maxSize = 2\<rparr> [Check (Some ''b'') 2, Check (Some ''b'') 5]
        (snd (checkKey \<lparr>ttlMs = 10, maxSize = 2\<rparr> (Some ''a'') 1 []))))"
  by (rule dedupe_detects_recent_duplicate [OF smallCache, where before = "[]" and
        others = "{''b''}" and t = 1]) (simp_all add: dedupeRun_def)

end
