(* ===== verification/ClientAddress.thy ===== *)
theory ClientAddress
  imports Prelude
begin

text \<open>
  Client addresses: the canonical parsing, loopback and CIDR tests of
  \<open>packages/net-policy/src/ip.ts\<close> and the client-IP resolution behind trusted proxies of
  \<open>src/gateway/net.ts\<close>.

  The parser and the range tables are those of the package \<open>ipaddr.js\<close>, and \<open>isIP\<close> is Node's
  \<open>node:net\<close>; neither is part of this repository.  They are the fields of the record
  \<open>ip_library\<close>, an argument of the definitions; \<open>parseCIDR\<close> and \<open>match\<close> throw, so they return
  an option.
\<close>

section \<open>The address library\<close>

record 'a ip_library =
  isValidFourPartDecimal :: "string \<Rightarrow> bool"
  isValidIpv6 :: "string \<Rightarrow> bool"
  parseIp :: "string \<Rightarrow> 'a"
  parseCIDR :: "string \<Rightarrow> ('a \<times> int) option"
  isKindIpv6 :: "'a \<Rightarrow> bool"
  isIPv4MappedAddress :: "'a \<Rightarrow> bool"
  toIPv4Address :: "'a \<Rightarrow> 'a"
  addressToString :: "'a \<Rightarrow> string"
  addressRange :: "'a \<Rightarrow> string"
  addressMatch :: "'a \<Rightarrow> 'a \<times> int \<Rightarrow> bool option"
  nodeIsIP :: "string \<Rightarrow> nat"

section \<open>Parsing\<close>

definition stripIpv6Brackets :: "string \<Rightarrow> string" where
  "stripIpv6Brackets v =
     (if v \<noteq> [] \<and> hd v = CHR ''['' \<and> last v = CHR '']'' then butlast (tl v) else v)"

definition normalizeIpParseInput :: "string option \<Rightarrow> string option" where
  "normalizeIpParseInput raw = map_option stripIpv6Brackets (normalizeOptionalString raw)"

definition parseCanonicalIpAddress :: "'a ip_library \<Rightarrow> string option \<Rightarrow> 'a option" where
  "parseCanonicalIpAddress lib raw =
     (case normalizeIpParseInput raw of
        None \<Rightarrow> None
      | Some normalized \<Rightarrow>
          if normalized = [] then None
          else if isValidFourPartDecimal lib normalized \<or> isValidIpv6 lib normalized
          then Some (parseIp lib normalized) else None)"

definition normalizeIpv4MappedAddress :: "'a ip_library \<Rightarrow> 'a \<Rightarrow> 'a" where
  "normalizeIpv4MappedAddress lib address =
     (if \<not> isKindIpv6 lib address then address
      else if \<not> isIPv4MappedAddress lib address then address
      else toIPv4Address lib address)"

definition normalizeIpAddress :: "'a ip_library \<Rightarrow> string option \<Rightarrow> string option" where
  "normalizeIpAddress lib raw =
     map_option (\<lambda>parsed. js_lower (js_trim (addressToString lib (normalizeIpv4MappedAddress lib parsed))))
       (parseCanonicalIpAddress lib raw)"

definition isLoopbackIpAddress :: "'a ip_library \<Rightarrow> string option \<Rightarrow> bool" where
  "isLoopbackIpAddress lib raw =
     (case parseCanonicalIpAddress lib raw of
        None \<Rightarrow> False
      | Some parsed \<Rightarrow> addressRange lib (normalizeIpv4MappedAddress lib parsed) = ''loopback'')"

definition isIpInCidr :: "'a ip_library \<Rightarrow> string \<Rightarrow> string \<Rightarrow> bool" where
  "isIpInCidr lib ip cidr =
     (case parseCanonicalIpAddress lib (Some ip) of
        None \<Rightarrow> False
      | Some normalizedIp \<Rightarrow>
          let candidate = js_trim cidr;
              comparableIp = normalizeIpv4MappedAddress lib normalizedIp
          in if candidate = [] then False
             else if CHR ''/'' \<notin> set candidate then
               (case parseCanonicalIpAddress lib (Some candidate) of
                  None \<Rightarrow> False
                | Some exact \<Rightarrow>
                    let comparableExact = normalizeIpv4MappedAddress lib exact
                    in isKindIpv6 lib comparableIp = isKindIpv6 lib comparableExact \<and>
                       addressToString lib comparableIp = addressToString lib comparableExact)
             else
               (case parseCIDR lib candidate of
                  None \<Rightarrow> False
                | Some (baseAddress, prefixLength) \<Rightarrow>
                    let comparableBase = normalizeIpv4MappedAddress lib baseAddress
                    in isKindIpv6 lib comparableIp = isKindIpv6 lib comparableBase \<and>
                       addressMatch lib comparableIp (comparableBase, prefixLength) = Some True))"

definition isLoopbackAddress :: "'a ip_library \<Rightarrow> string option \<Rightarrow> bool" where
  "isLoopbackAddress lib ip = isLoopbackIpAddress lib ip"

section \<open>Header values\<close>

definition stripLastPort :: "'a ip_library \<Rightarrow> string \<Rightarrow> string" where
  "stripLastPort lib ip =
     (case js_lastIndexOf (CHR '':'') ip of
        None \<Rightarrow> ip
      | Some lastColon \<Rightarrow>
          if CHR ''.'' \<in> set ip \<and> js_indexOf (CHR '':'') ip = Some lastColon
          then let candidate = take lastColon ip
               in if nodeIsIP lib candidate = 4 then candidate else ip
          else ip)"

definition stripOptionalPort :: "'a ip_library \<Rightarrow> string \<Rightarrow> string" where
  "stripOptionalPort lib ip =
     (case (if js_starts_with ip ''['' then js_indexOf (CHR '']'') ip else None) of
        Some close \<Rightarrow> drop 1 (take close ip)
      | None \<Rightarrow> if nodeIsIP lib ip \<noteq> 0 then ip else stripLastPort lib ip)"

definition parseIpLiteral :: "'a ip_library \<Rightarrow> string option \<Rightarrow> string option" where
  "parseIpLiteral lib raw =
     (case map_option js_trim raw of
        None \<Rightarrow> None
      | Some trimmed \<Rightarrow>
          if trimmed = [] then None
          else (case normalizeIpAddress lib (Some (stripOptionalPort lib trimmed)) of
                  None \<Rightarrow> None
                | Some normalized \<Rightarrow>
                    if normalized = [] \<or> nodeIsIP lib normalized = 0 then None else Some normalized))"

section \<open>Trusted proxies\<close>

definition isTrustedProxyAddress :: "'a ip_library \<Rightarrow> string option \<Rightarrow> string list option \<Rightarrow> bool" where
  "isTrustedProxyAddress lib ip trustedProxies =
     (case normalizeIpAddress lib ip of
        None \<Rightarrow> False
      | Some normalized \<Rightarrow>
          if normalized = [] then False
          else (case trustedProxies of
                  None \<Rightarrow> False
                | Some proxies \<Rightarrow>
                    (\<exists>proxy \<in> set proxies.
                       js_trim proxy \<noteq> [] \<and> isIpInCidr lib normalized (js_trim proxy))))"

text \<open>The hops named by the header, in order; entries that are no IP literal are skipped.\<close>

definition forwardedHops :: "'a ip_library \<Rightarrow> string option \<Rightarrow> string list" where
  "forwardedHops lib forwardedFor =
     (case forwardedFor of
        None \<Rightarrow> []
      | Some h \<Rightarrow> List.map_filter (\<lambda>entry. parseIpLiteral lib (Some entry)) (js_split (CHR '','') h))"

definition untrustedHop :: "'a ip_library \<Rightarrow> string list option \<Rightarrow> string \<Rightarrow> bool" where
  "untrustedHop lib trustedProxies hop \<longleftrightarrow>
     \<not> isLoopbackAddress lib (Some hop) \<and> \<not> isTrustedProxyAddress lib (Some hop) trustedProxies"

definition resolveForwardedClientIp ::
    "'a ip_library \<Rightarrow> string option \<Rightarrow> string list option \<Rightarrow> string option" where
  "resolveForwardedClientIp lib forwardedFor trustedProxies =
     (if trustedProxies = None \<or> trustedProxies = Some [] then None
      else find (untrustedHop lib trustedProxies) (rev (forwardedHops lib forwardedFor)))"

record client_ip_request =
  remoteAddr :: "string option"
  forwardedForHeader :: "string option"
  realIpHeader :: "string option"
  proxyList :: "string list option"
  allowRealIpFallback :: bool

definition resolveClientIp :: "'a ip_library \<Rightarrow> client_ip_request \<Rightarrow> string option" where
  "resolveClientIp lib r =
     (case normalizeIpAddress lib (remoteAddr r) of
        None \<Rightarrow> None
      | Some remote \<Rightarrow>
          if remote = [] then None
          else if \<not> isTrustedProxyAddress lib (Some remote) (proxyList r) then Some remote
          else (case resolveForwardedClientIp lib (forwardedForHeader r) (proxyList r) of
                  Some forwardedIp \<Rightarrow> Some forwardedIp
                | None \<Rightarrow>
                    if allowRealIpFallback r then parseIpLiteral lib (realIpHeader r) else None))"

section \<open>Lemmas\<close>

lemma forwardedHops_append:
  "forwardedHops lib (Some (s @ CHR '','' # t)) =
   forwardedHops lib (Some s) @ forwardedHops lib (Some t)"
  by (simp add: forwardedHops_def js_split_concat List.map_filter_def)

lemma find_append: "find P (xs @ ys) = (case find P xs of None \<Rightarrow> find P ys | Some x \<Rightarrow> Some x)"
  by (induction xs) auto

lemma forwarded_hop_facts:
  "resolveForwardedClientIp lib h proxies = Some ip \<Longrightarrow>
   ip \<in> set (forwardedHops lib h) \<and> untrustedHop lib proxies ip"
  by (auto simp: resolveForwardedClientIp_def dest: find_SomeD split: if_splits)

lemma forwarded_prefix_ignored:
  assumes "resolveForwardedClientIp lib (Some honest) proxies = Some ip"
  shows "resolveForwardedClientIp lib (Some (forged @ CHR '','' # honest)) proxies = Some ip"
  using assms by (auto simp: resolveForwardedClientIp_def forwardedHops_append find_append
      split: if_splits)

text \<open>
  Forwarding headers cannot forge the client address.  A peer that is no trusted proxy is
  always identified by its own address, whatever headers it sends.  Behind a trusted proxy, once
  the part of \<open>X-Forwarded-For\<close> appended by the proxies names an untrusted hop, entries a client
  put in front of it change nothing; and the address found is a hop that is neither a loopback nor
  a trusted proxy address.
\<close>

theorem forwarding_headers_cannot_forge:
  assumes "normalizeIpAddress lib (remoteAddr r) = Some remote" and "remote \<noteq> []"
    and "forwardedForHeader r = Some honest"
    and "resolveForwardedClientIp lib (Some honest) (proxyList r) = Some ip"
  shows
    "(\<not> isTrustedProxyAddress lib (Some remote) (proxyList r) \<longrightarrow>
        resolveClientIp lib r = Some remote) \<and>
     (isTrustedProxyAddress lib (Some remote) (proxyList r) \<longrightarrow>
        resolveClientIp lib r = Some ip \<and>
        resolveClientIp lib (r\<lparr>forwardedForHeader := Some (forged @ CHR '','' # honest)\<rparr>) = Some ip \<and>
        ip \<in> set (forwardedHops lib (Some honest)) \<and>
        \<not> isLoopbackAddress lib (Some ip) \<and> \<not> isTrustedProxyAddress lib (Some ip) (proxyList r))"
proof (intro conjI impI)
  assume "\<not> isTrustedProxyAddress lib (Some remote) (proxyList r)"
  then show "resolveClientIp lib r = Some remote" using assms(1,2) by (simp add: resolveClientIp_def)
next
  assume trusted: "isTrustedProxyAddress lib (Some remote) (proxyList r)"
  then show "resolveClientIp lib r = Some ip" using assms by (simp add: resolveClientIp_def)
  show "resolveClientIp lib (r\<lparr>forwardedForHeader := Some (forged @ CHR '','' # honest)\<rparr>) = Some ip"
    using trusted assms(1,2) forwarded_prefix_ignored [OF assms(4), of forged]
    by (simp add: resolveClientIp_def)
qed (use forwarded_hop_facts [OF assms(4)] in \<open>simp_all add: untrustedHop_def\<close>)

text \<open>A library that knows the addresses of the form \<open>a.b.c.d\<close> written in the witness.\<close>

definition sampleLibrary :: "string ip_library" where
  "sampleLibrary =
     \<lparr>isValidFourPartDecimal = (\<lambda>s. s \<in> {''10.0.0.1'', ''8.8.8.8'', ''1.2.3.4'', ''127.0.0.1''}),
      isValidIpv6 = (\<lambda>_. False), parseIp = (\<lambda>s. s), parseCIDR = (\<lambda>_. None),
      isKindIpv6 = (\<lambda>_. False), isIPv4MappedAddress = (\<lambda>_. False), toIPv4Address = (\<lambda>s. s),
      addressToString = (\<lambda>s. s),
      addressRange = (\<lambda>s. if s = ''127.0.0.1'' then ''loopback'' else ''unicast''),
      addressMatch = (\<lambda>a b. None),
      nodeIsIP = (\<lambda>s. if s \<in> {''10.0.0.1'', ''8.8.8.8'', ''1.2.3.4'', ''127.0.0.1''} then 4 else 0)\<rparr>"

theorem forwarding_headers_cannot_forge_witness:
  "resolveClientIp sampleLibrary
     \<lparr>remoteAddr = Some ''10.0.0.1'', forwardedForHeader = Some ''1.2.3.4,8.8.8.8'',
      realIpHeader = None, proxyList = Some [''10.0.0.1''], allowRealIpFallback = False\<rparr>
   = Some ''8.8.8.8''"
proof -
  let ?r = "\<lparr>remoteAddr = Some ''10.0.0.1'', forwardedForHeader = Some ''8.8.8.8'',
      realIpHeader = None, proxyList = Some [''10.0.0.1''], allowRealIpFallback = False\<rparr>"
  have trim: "js_trim ''10.0.0.1'' = ''10.0.0.1''" "js_trim ''8.8.8.8'' = ''8.8.8.8''"
    by (rule js_trim_id, simp add: js_space_def)+
  have lower: "js_lower ''10.0.0.1'' = ''10.0.0.1''" "js_lower ''8.8.8.8'' = ''8.8.8.8''"
    by (simp_all add: js_lower_def js_lower_char_def capitalCode_def Let_def)
  note eval = trim lower sampleLibrary_def normalizeIpAddress_def parseCanonicalIpAddress_def
    normalizeIpParseInput_def normalizeOptionalString_def stripIpv6Brackets_def
    normalizeIpv4MappedAddress_def isTrustedProxyAddress_def isIpInCidr_def Let_def
  have remote: "normalizeIpAddress sampleLibrary (Some ''10.0.0.1'') = Some ''10.0.0.1''"
    and hop: "normalizeIpAddress sampleLibrary (Some ''8.8.8.8'') = Some ''8.8.8.8''"
    by (simp_all add: eval)
  have trusted: "isTrustedProxyAddress sampleLibrary (Some ''10.0.0.1'') (Some [''10.0.0.1''])"
    and untrusted: "\<not> isTrustedProxyAddress sampleLibrary (Some ''8.8.8.8'') (Some [''10.0.0.1''])"
    by (simp_all add: eval)
  have "normalizeIpAddress sampleLibrary (remoteAddr ?r) = Some ''10.0.0.1''" using remote by simp
  moreover have "stripOptionalPort sampleLibrary ''8.8.8.8'' = ''8.8.8.8''"
    by (simp add: stripOptionalPort_def js_starts_with_def sampleLibrary_def)
  then have "forwardedHops sampleLibrary (Some ''8.8.8.8'') = [''8.8.8.8'']"
    using hop by (simp add: forwardedHops_def parseIpLiteral_def trim List.map_filter_def)
       (simp add: sampleLibrary_def)
  then have "resolveForwardedClientIp sampleLibrary (Some ''8.8.8.8'') (proxyList ?r) =
      Some ''8.8.8.8''"
    using untrusted by (simp add: resolveForwardedClientIp_def untrustedHop_def)
      (simp add: eval isLoopbackAddress_def isLoopbackIpAddress_def)
  ultimately show ?thesis
    using trusted forwarding_headers_cannot_forge
      [of sampleLibrary ?r "''10.0.0.1''" "''8.8.8.8''" "''8.8.8.8''" "''1.2.3.4''"] by simp
qed

end
