(* ===== verification/AuthRateLimit.thy ===== *)
theory AuthRateLimit
  imports JsNumber JsMap ClientAddress
begin

text \<open>
  \<open>src/gateway/auth-rate-limit.ts\<close>: the sliding-window limiter of failed gateway authentication
  attempts.  The constants the factory computes are the record \<open>limiter_config\<close>; the map and the
  overflow lock its closures share are the record \<open>limiter\<close>.  \<open>Date.now()\<close> is the argument
  \<open>now\<close> of the operations, the interval timer is the event \<open>PruneTick\<close>.  The configured number
  of attempts is not normalised by the code, so it stays a \<open>js_number\<close>.
\<close>

section \<open>Configuration\<close>

record rate_limit_options =
  optMaxAttempts :: "js_number option"
  optWindowMs :: "js_number option"
  optLockoutMs :: "js_number option"
  optExemptLoopback :: "bool option"
  optPruneIntervalMs :: "js_number option"
  optMaxEntries :: "js_number option"

record limiter_config =
  maxAttempts :: js_number
  windowMs :: int
  lockoutMs :: int
  exemptLoopback :: bool
  pruneIntervalMs :: int
  maxEntries :: int

record rate_limit_entry =
  attempts :: "ms list"
  lockedUntil :: "ms option"

record rate_limit_result =
  allowed :: bool
  remaining :: js_number
  retryAfterMs :: int

record limiter =
  rateEntries :: "(string, rate_limit_entry) jsmap"
  overflowLockedUntil :: "ms option"

definition AUTH_RATE_LIMIT_SCOPE_DEFAULT :: string where
  "AUTH_RATE_LIMIT_SCOPE_DEFAULT = ''default''"

definition BROWSER_ORIGIN_RATE_LIMIT_KEY_PREFIX :: string where
  "BROWSER_ORIGIN_RATE_LIMIT_KEY_PREFIX = ''browser-origin:''"

definition IDENTITY_RATE_LIMIT_KEY_PREFIX :: string where
  "IDENTITY_RATE_LIMIT_KEY_PREFIX = ''identity:''"

definition normalizeRateLimitClientIp :: "'a ip_library \<Rightarrow> string option \<Rightarrow> string" where
  "normalizeRateLimitClientIp lib ip =
     (if (\<exists>s \<in> set_option ip. js_starts_with s BROWSER_ORIGIN_RATE_LIMIT_KEY_PREFIX \<or>
                             js_starts_with s IDENTITY_RATE_LIMIT_KEY_PREFIX)
      then the ip
      else nullish (resolveClientIp lib
             \<lparr>remoteAddr = ip, forwardedForHeader = None, realIpHeader = None, proxyList = None,
              allowRealIpFallback = False\<rparr>) ''unknown'')"

definition buildRateLimitIdentityKey :: "string \<Rightarrow> string \<Rightarrow> string" where
  "buildRateLimitIdentityKey ns identity =
     IDENTITY_RATE_LIMIT_KEY_PREFIX @ ns @ '':'' @ identity"

definition resolvePruneIntervalMs :: "js_number option \<Rightarrow> int" where
  "resolvePruneIntervalMs v =
     (case v of
        None \<Rightarrow> 60000
      | Some n \<Rightarrow>
          (case asFiniteNumber v of
             Some q \<Rightarrow> if q \<le> 0 then 0 else resolveTimerTimeoutMs v (Finite 60000) 1
           | None \<Rightarrow> resolveTimerTimeoutMs v (Finite 60000) 1))"

definition createAuthRateLimiter :: "rate_limit_options \<Rightarrow> limiter_config \<times> limiter" where
  "createAuthRateLimiter config =
     (\<lparr>maxAttempts = nullish (optMaxAttempts config) (Finite 10),
       windowMs = resolveTimerTimeoutMs (optWindowMs config) (Finite 60000) 0,
       lockoutMs = resolveTimerTimeoutMs (optLockoutMs config) (Finite 300000) 0,
       exemptLoopback = nullish (optExemptLoopback config) True,
       pruneIntervalMs = resolvePruneIntervalMs (optPruneIntervalMs config),
       maxEntries = resolveIntegerOption (optMaxEntries config) 10000 (Some 1) None\<rparr>,
      \<lparr>rateEntries = [], overflowLockedUntil = None\<rparr>)"

section \<open>Keys\<close>

definition normalizeScope :: "string option \<Rightarrow> string" where
  "normalizeScope scope =
     (let trimmed = js_trim (nullish scope AUTH_RATE_LIMIT_SCOPE_DEFAULT)
      in if trimmed = [] then AUTH_RATE_LIMIT_SCOPE_DEFAULT else trimmed)"

text \<open>A client is its raw address and scope; \<open>resolveKey\<close> gives its key and its address.\<close>

type_synonym client = "string option \<times> string option"

definition resolveKey :: "'a ip_library \<Rightarrow> client \<Rightarrow> string \<times> string" where
  "resolveKey lib c =
     (let ip = normalizeRateLimitClientIp lib (fst c)
      in (normalizeScope (snd c) @ '':'' @ ip, ip))"

definition isExempt :: "'a ip_library \<Rightarrow> limiter_config \<Rightarrow> string \<Rightarrow> bool" where
  "isExempt lib c ip \<longleftrightarrow> exemptLoopback c \<and> isLoopbackAddress lib (Some ip)"

section \<open>Entries\<close>

definition slideWindow :: "limiter_config \<Rightarrow> ms \<Rightarrow> rate_limit_entry \<Rightarrow> rate_limit_entry" where
  "slideWindow c now e = e\<lparr>attempts := filter (\<lambda>ts. ts > now - windowMs c) (attempts e)\<rparr>"

text \<open>\<open>entry.lockedUntil && now < entry.lockedUntil\<close>; the number 0 counts as unset.\<close>

definition lockedNow :: "ms \<Rightarrow> rate_limit_entry \<Rightarrow> bool" where
  "lockedNow now e \<longleftrightarrow> (\<exists>u \<in> set_option (lockedUntil e). u \<noteq> 0 \<and> now < u)"

definition lockExpired :: "ms \<Rightarrow> rate_limit_entry \<Rightarrow> bool" where
  "lockExpired now e \<longleftrightarrow> (\<exists>u \<in> set_option (lockedUntil e). u \<noteq> 0 \<and> now \<ge> u)"

definition pruneEntry :: "limiter_config \<Rightarrow> ms \<Rightarrow> string \<times> rate_limit_entry \<Rightarrow>
    (string \<times> rate_limit_entry) option" where
  "pruneEntry c now p =
     (case p of (key, entry) \<Rightarrow>
        if lockedNow now entry then Some (key, entry)
        else let slid = slideWindow c now entry
             in if attempts slid = [] then None else Some (key, slid))"

definition pruneExpiredEntries :: "limiter_config \<Rightarrow> ms \<Rightarrow> limiter \<Rightarrow> limiter" where
  "pruneExpiredEntries c now s = s\<lparr>rateEntries := List.map_filter (pruneEntry c now) (rateEntries s)\<rparr>"

definition checkOverflowLock ::
    "limiter_config \<Rightarrow> ms \<Rightarrow> limiter \<Rightarrow> rate_limit_result option \<times> limiter" where
  "checkOverflowLock c now s =
     (case overflowLockedUntil s of
        None \<Rightarrow> (None, s)
      | Some u \<Rightarrow>
          if u = 0 then (None, s)
          else if now \<ge> u then (None, s\<lparr>overflowLockedUntil := None\<rparr>)
          else
            let s1 = (if int (length (rateEntries s)) \<ge> maxEntries c
                      then pruneExpiredEntries c now s else s)
            in if int (length (rateEntries s1)) < maxEntries c
               then (None, s1\<lparr>overflowLockedUntil := None\<rparr>)
               else (Some \<lparr>allowed = False, remaining = Finite 0, retryAfterMs = u - now\<rparr>, s1))"

text \<open>The eviction loop deletes the first entry that is not locked.\<close>

fun evictUnlocked :: "ms \<Rightarrow> (string, rate_limit_entry) jsmap \<Rightarrow>
    bool \<times> (string, rate_limit_entry) jsmap" where
  "evictUnlocked now [] = (False, [])"
| "evictUnlocked now ((key, entry) # m) =
     (if \<not> lockedNow now entry then (True, m)
      else let (ok, m1) = evictUnlocked now m in (ok, (key, entry) # m1))"

definition enforceMaxEntries :: "limiter_config \<Rightarrow> ms \<Rightarrow> limiter \<Rightarrow> bool \<times> limiter" where
  "enforceMaxEntries c now s =
     (if int (length (rateEntries s)) < maxEntries c then (True, s)
      else
        let s1 = pruneExpiredEntries c now s
        in if int (length (rateEntries s1)) < maxEntries c then (True, s1)
           else let (ok, m) = evictUnlocked now (rateEntries s1)
                in (ok, s1\<lparr>rateEntries := m\<rparr>))"

section \<open>The limiter\<close>

text \<open>\<open>Math.max(0, maxAttempts - n)\<close> and \<open>n >= maxAttempts\<close>.\<close>

definition attemptsLeft :: "js_number \<Rightarrow> nat \<Rightarrow> js_number" where
  "attemptsLeft v n = js_max 0 (case v of Finite q \<Rightarrow> Finite (q - of_nat n) | w \<Rightarrow> w)"

fun reachedAttempts :: "nat \<Rightarrow> js_number \<Rightarrow> bool" where
  "reachedAttempts n NotANumber = False"
| "reachedAttempts n PosInfinity = False"
| "reachedAttempts n NegInfinity = True"
| "reachedAttempts n (Finite q) = (q \<le> of_nat n)"

definition checkEntry ::
    "limiter_config \<Rightarrow> ms \<Rightarrow> rate_limit_entry \<Rightarrow> rate_limit_result \<times> rate_limit_entry" where
  "checkEntry c now e =
     (if lockedNow now e
      then (\<lparr>allowed = False, remaining = Finite 0, retryAfterMs = the (lockedUntil e) - now\<rparr>, e)
      else
        let e1 = (if lockExpired now e then e\<lparr>lockedUntil := None, attempts := []\<rparr> else e);
            e2 = slideWindow c now e1;
            left = attemptsLeft (maxAttempts c) (length (attempts e2))
        in (\<lparr>allowed = js_positive left, remaining = left, retryAfterMs = 0\<rparr>, e2))"

definition checkClient ::
    "'a ip_library \<Rightarrow> limiter_config \<Rightarrow> client \<Rightarrow> ms \<Rightarrow> limiter \<Rightarrow> rate_limit_result \<times> limiter" where
  "checkClient lib c cl now s =
     (let (key, ip) = resolveKey lib cl;
          free = \<lparr>allowed = True, remaining = maxAttempts c, retryAfterMs = 0\<rparr>
      in if isExempt lib c ip then (free, s)
         else case jm_get (rateEntries s) key of
                None \<Rightarrow>
                  (case checkOverflowLock c now s of
                     (Some r, s1) \<Rightarrow> (r, s1)
                   | (None, s1) \<Rightarrow> (free, s1))
              | Some e \<Rightarrow>
                  let (r, e1) = checkEntry c now e
                  in (r, s\<lparr>rateEntries := jm_set key e1 (rateEntries s)\<rparr>))"

definition failEntry :: "limiter_config \<Rightarrow> ms \<Rightarrow> rate_limit_entry \<Rightarrow> rate_limit_entry" where
  "failEntry c now e =
     (if lockedNow now e then e
      else
        let e1 = slideWindow c now e;
            e2 = e1\<lparr>attempts := attempts e1 @ [now]\<rparr>
        in if reachedAttempts (length (attempts e2)) (maxAttempts c)
           then e2\<lparr>lockedUntil := Some (now + lockoutMs c)\<rparr> else e2)"

definition recordFailure ::
    "'a ip_library \<Rightarrow> limiter_config \<Rightarrow> client \<Rightarrow> ms \<Rightarrow> limiter \<Rightarrow> limiter" where
  "recordFailure lib c cl now s =
     (let (key, ip) = resolveKey lib cl
      in if isExempt lib c ip then s
         else case jm_get (rateEntries s) key of
                Some e \<Rightarrow> s\<lparr>rateEntries := jm_set key (failEntry c now e) (rateEntries s)\<rparr>
              | None \<Rightarrow>
                  (case enforceMaxEntries c now s of
                     (False, s1) \<Rightarrow>
                       s1\<lparr>overflowLockedUntil :=
                            Some (max (nullish (overflowLockedUntil s1) 0) (now + lockoutMs c))\<rparr>
                   | (True, s1) \<Rightarrow>
                       s1\<lparr>rateEntries := jm_set key
                            (failEntry c now \<lparr>attempts = [], lockedUntil = None\<rparr>)
                            (rateEntries s1)\<rparr>))"

definition resetClient :: "'a ip_library \<Rightarrow> client \<Rightarrow> limiter \<Rightarrow> limiter" where
  "resetClient lib cl s = s\<lparr>rateEntries := jm_delete (fst (resolveKey lib cl)) (rateEntries s)\<rparr>"

definition disposeLimiter :: "limiter \<Rightarrow> limiter" where
  "disposeLimiter s = s\<lparr>rateEntries := [], overflowLockedUntil := None\<rparr>"

definition limiterSize :: "limiter \<Rightarrow> nat" where
  "limiterSize s = length (rateEntries s)"

section \<open>Runs\<close>

datatype limiter_event =
    CheckClient client ms
  | RecordFailure client ms
  | ResetClient client
  | PruneTick ms
  | Dispose

fun limiterStep :: "'a ip_library \<Rightarrow> limiter_config \<Rightarrow> limiter_event \<Rightarrow> limiter \<Rightarrow> limiter" where
  "limiterStep lib c (CheckClient cl t) s = snd (checkClient lib c cl t s)"
| "limiterStep lib c (RecordFailure cl t) s = recordFailure lib c cl t s"
| "limiterStep lib c (ResetClient cl) s = resetClient lib cl s"
| "limiterStep lib c (PruneTick t) s = pruneExpiredEntries c t s"
| "limiterStep lib c Dispose s = disposeLimiter s"

definition limiterRun ::
    "'a ip_library \<Rightarrow> limiter_config \<Rightarrow> limiter_event list \<Rightarrow> limiter \<Rightarrow> limiter" where
  "limiterRun lib c es s = fold (limiterStep lib c) es s"

lemma limiterRun_simps [simp]:
  "limiterRun lib c [] s = s"
  "limiterRun lib c (e # es) s = limiterRun lib c es (limiterStep lib c e s)"
  "limiterRun lib c (es @ es') s = limiterRun lib c es' (limiterRun lib c es s)"
  by (simp_all add: limiterRun_def)

section \<open>The size bound\<close>

definition limiterInv :: "limiter_config \<Rightarrow> limiter \<Rightarrow> bool" where
  "limiterInv c s \<longleftrightarrow>
     jm_ok (rateEntries s) \<and> int (length (rateEntries s)) \<le> maxEntries c"

lemma pruneEntry_fst: "pruneEntry c now p = Some q \<Longrightarrow> fst q = fst p"
  by (auto simp: pruneEntry_def Let_def split: prod.splits if_splits)

lemma map_filter_prune_keys:
  "fst ` set (List.map_filter (pruneEntry c now) m) \<subseteq> fst ` set m"
  by (induction m) (auto dest: pruneEntry_fst split: option.splits)

lemma jm_ok_prune: "jm_ok m \<Longrightarrow> jm_ok (List.map_filter (pruneEntry c now) m)"
proof (induction m)
  case Nil
  then show ?case by (simp)
next
  case (Cons p m)
  obtain k e where p: "p = (k, e)" by (cases p)
  have "jm_get (List.map_filter (pruneEntry c now) m) k = None"
    using Cons.prems map_filter_prune_keys [of c now m] p
    by (auto simp: jm_get_def map_of_eq_None_iff)
  then show ?case using Cons p
    by (auto dest: pruneEntry_fst split: option.splits)
qed

lemma length_prune: "length (List.map_filter (pruneEntry c now) m) \<le> length m"
  by (simp add: List.map_filter_def)

lemma get_prune:
  "jm_ok m \<Longrightarrow> jm_get (List.map_filter (pruneEntry c now) m) k =
     (case jm_get m k of None \<Rightarrow> None
      | Some e \<Rightarrow> map_option snd (pruneEntry c now (k, e)))"
proof (induction m)
  case Nil
  then show ?case by (simp)
next
  case (Cons p m)
  obtain a e where p: "p = (a, e)" by (cases p)
  show ?case using Cons p
    by (cases "pruneEntry c now (a, e)")
      (auto dest: pruneEntry_fst split: option.splits)
qed

lemma pruneExpiredEntries_inv: "limiterInv c s \<Longrightarrow> limiterInv c (pruneExpiredEntries c now s)"
  using length_prune [of c now "rateEntries s"]
  by (simp add: limiterInv_def pruneExpiredEntries_def jm_ok_prune)

lemma evictUnlocked_form:
  "evictUnlocked now m = (ok, m') \<Longrightarrow>
   (if ok then \<exists>pre p suf. m = pre @ p # suf \<and> m' = pre @ suf \<and> \<not> lockedNow now (snd p)
    else m' = m)"
proof (induction m arbitrary: m')
  case Nil
  then show ?case by simp
next
  case (Cons p m)
  obtain k e where p: "p = (k, e)" by (cases p)
  obtain ok1 m1 where m1: "evictUnlocked now m = (ok1, m1)" by fastforce
  show ?case
  proof (cases "lockedNow now e")
    case True
    then have eq: "ok1 = ok" "m' = p # m1" using Cons.prems p m1 by simp_all
    show ?thesis
    proof (cases ok)
      case True
      then obtain pre q suf where "m = pre @ q # suf" "m1 = pre @ suf" "\<not> lockedNow now (snd q)"
        using Cons.IH m1 eq by auto
      then have "p # m = (p # pre) @ q # suf" "m' = (p # pre) @ suf" using eq by simp_all
      then show ?thesis using \<open>\<not> lockedNow now (snd q)\<close> True by metis
    next
      case False
      then show ?thesis using Cons.IH m1 eq by simp
    qed
  next
    case False
    then have "ok" "m' = m" using Cons.prems p by simp_all
    moreover have "p # m = [] @ p # m" "m = [] @ m" "\<not> lockedNow now (snd p)"
      using False p by simp_all
    ultimately show ?thesis by metis
  qed
qed

lemma evictUnlocked_ok:
  assumes "evictUnlocked now m = (ok, m')" "jm_ok m"
  shows "jm_ok m' \<and> (if ok then Suc (length m') = length m else m' = m)"
  using evictUnlocked_form [OF assms(1)] assms(2)
  by (auto simp: jm_ok_def jm_keys_def split: if_splits)

lemma evictUnlocked_keeps:
  assumes "evictUnlocked now m = (ok, m')" "jm_ok m" "jm_get m k = Some e" "lockedNow now e"
  shows "jm_get m' k = Some e"
proof -
  have "(k, e) \<in> set m" using assms(2,3) jm_get_in_set by metis
  then have "(k, e) \<in> set m'"
    using evictUnlocked_form [OF assms(1)] assms(4) by (auto split: if_splits)
  moreover have "jm_ok m'" using evictUnlocked_ok [OF assms(1,2)] by simp
  ultimately show ?thesis using jm_get_in_set by metis
qed

lemma enforceMaxEntries_inv:
  assumes "enforceMaxEntries c now s = (ok, s')" "limiterInv c s"
  shows "limiterInv c s' \<and> (ok \<longrightarrow> int (length (rateEntries s')) < maxEntries c)"
proof (cases "int (length (rateEntries s)) < maxEntries c \<or>
    int (length (rateEntries (pruneExpiredEntries c now s))) < maxEntries c")
  case True
  then show ?thesis using assms pruneExpiredEntries_inv [OF assms(2)]
    by (auto simp: enforceMaxEntries_def Let_def split: if_splits)
next
  case False
  let ?s = "pruneExpiredEntries c now s"
  obtain m where m: "evictUnlocked now (rateEntries ?s) = (ok, m)" "s' = ?s\<lparr>rateEntries := m\<rparr>"
    using assms(1) False by (auto simp: enforceMaxEntries_def Let_def split: prod.splits)
  have inv: "limiterInv c ?s" using pruneExpiredEntries_inv [OF assms(2)] .
  then show ?thesis using m evictUnlocked_ok [OF m(1)]
    by (auto simp: limiterInv_def split: if_splits)
qed

lemma checkOverflowLock_inv:
  "limiterInv c s \<Longrightarrow> limiterInv c (snd (checkOverflowLock c now s))"
  using pruneExpiredEntries_inv [of c s now]
  by (auto simp: checkOverflowLock_def limiterInv_def Let_def split: option.splits)

lemma limiterInv_set:
  "limiterInv c s \<Longrightarrow> jm_get (rateEntries s) k \<noteq> None \<Longrightarrow>
   limiterInv c (s\<lparr>rateEntries := jm_set k e (rateEntries s)\<rparr>)"
  by (auto simp: limiterInv_def jm.ok_put jm.count_put)

lemma limiterInv_step:
  assumes inv: "limiterInv c s" and one: "1 \<le> maxEntries c"
  shows "limiterInv c (limiterStep lib c e s)"
proof (cases e)
  case (CheckClient cl t)
  then show ?thesis using inv limiterInv_set [OF inv] checkOverflowLock_inv [OF inv, of t]
    by (auto simp: checkClient_def Let_def split: option.splits prod.splits)
next
  case (RecordFailure cl t)
  obtain ok s1 where s1: "enforceMaxEntries c t s = (ok, s1)" by fastforce
  have "limiterInv c (s1\<lparr>rateEntries := jm_set k e (rateEntries s1)\<rparr>)" if ok for k e
    using enforceMaxEntries_inv [OF s1 inv] that jm.count_put_le [of "rateEntries s1" k e]
    by (auto simp: limiterInv_def jm.ok_put)
  moreover have "limiterInv c (s1\<lparr>overflowLockedUntil := x\<rparr>)" for x
    using enforceMaxEntries_inv [OF s1 inv] by (simp add: limiterInv_def)
  ultimately show ?thesis using RecordFailure inv s1 limiterInv_set [OF inv]
    by (auto simp: recordFailure_def split: option.splits prod.splits bool.splits)
next
  case (ResetClient cl)
  then show ?thesis using inv jm.count_del_le [of "rateEntries s" "fst (resolveKey lib cl)"]
    by (auto simp: resetClient_def limiterInv_def jm.ok_del)
next
  case (PruneTick t)
  then show ?thesis using pruneExpiredEntries_inv [OF inv] by simp
next
  case Dispose
  then show ?thesis using one by (simp add: disposeLimiter_def limiterInv_def)
qed

lemma limiterInv_run:
  "limiterInv c s \<Longrightarrow> 1 \<le> maxEntries c \<Longrightarrow> limiterInv c (limiterRun lib c es s)"
  by (induction es arbitrary: s) (auto simp: limiterInv_step)

lemma limiter_created:
  "createAuthRateLimiter config = (c, s) \<Longrightarrow>
   1 \<le> maxEntries c \<and> 0 \<le> windowMs c \<and> 0 \<le> lockoutMs c \<and> limiterInv c s \<and>
   rateEntries s = [] \<and> overflowLockedUntil s = None"
  using resolveIntegerOption_min [of 1 "optMaxEntries config" 10000]
  by (auto simp: createAuthRateLimiter_def limiterInv_def resolveTimerTimeoutMs_nonneg)

section \<open>A lockout cannot be evicted\<close>

text \<open>\<open>lockedAs k e s\<close>: the key has this entry.\<close>

definition lockedAs :: "string \<Rightarrow> rate_limit_entry \<Rightarrow> limiter \<Rightarrow> bool" where
  "lockedAs k e s \<longleftrightarrow> jm_get (rateEntries s) k = Some e"

lemma lockedAs_prune:
  "limiterInv c s \<Longrightarrow> lockedAs k e s \<Longrightarrow> lockedNow now e \<Longrightarrow>
   lockedAs k e (pruneExpiredEntries c now s)"
  by (simp add: lockedAs_def limiterInv_def pruneExpiredEntries_def get_prune pruneEntry_def)

lemma lockedAs_enforce:
  assumes "enforceMaxEntries c now s = (ok, s')" "limiterInv c s" "lockedAs k e s" "lockedNow now e"
  shows "lockedAs k e s'"
proof -
  have "lockedAs k e (pruneExpiredEntries c now s)" using lockedAs_prune assms(2-4) .
  moreover have "jm_ok (rateEntries (pruneExpiredEntries c now s))"
    using pruneExpiredEntries_inv [OF assms(2)] by (simp add: limiterInv_def)
  ultimately show ?thesis
    using assms evictUnlocked_keeps [of now]
    by (fastforce simp: enforceMaxEntries_def lockedAs_def Let_def split: if_splits prod.splits)
qed

lemma lockedAs_overflow:
  "limiterInv c s \<Longrightarrow> lockedAs k e s \<Longrightarrow> lockedNow now e \<Longrightarrow>
   lockedAs k e (snd (checkOverflowLock c now s))"
  using lockedAs_prune [of c s k e now]
  by (auto simp: checkOverflowLock_def lockedAs_def Let_def split: option.splits)

text \<open>Events while a lock that ends at \<open>u\<close> is active: none resets the key or disposes.\<close>

fun duringLock :: "'a ip_library \<Rightarrow> string \<Rightarrow> ms \<Rightarrow> limiter_event \<Rightarrow> bool" where
  "duringLock lib k u (CheckClient cl t) = (t < u)"
| "duringLock lib k u (RecordFailure cl t) = (t < u)"
| "duringLock lib k u (ResetClient cl) = (fst (resolveKey lib cl) \<noteq> k)"
| "duringLock lib k u (PruneTick t) = (t < u)"
| "duringLock lib k u Dispose = False"

lemma lockedAs_step:
  assumes inv: "limiterInv c s" and held: "lockedAs k e s"
    and u: "lockedUntil e = Some u" "u \<noteq> 0" and ev: "duringLock lib k u ev"
  shows "lockedAs k e (limiterStep lib c ev s)"
proof (cases ev)
  case (CheckClient cl t)
  then have locked: "lockedNow t e" using u ev by (simp add: lockedNow_def)
  then have "fst (checkEntry c t e) = \<lparr>allowed = False, remaining = Finite 0, retryAfterMs = u - t\<rparr>"
    and same: "snd (checkEntry c t e) = e" using u by (simp_all add: checkEntry_def)
  then show ?thesis using CheckClient held lockedAs_overflow [OF inv held locked]
    by (auto simp: checkClient_def lockedAs_def split_def Let_def jm.get_put split: option.splits)
next
  case (RecordFailure cl t)
  then have locked: "lockedNow t e" using u ev by (simp add: lockedNow_def)
  then have same: "failEntry c t e = e" by (simp add: failEntry_def)
  obtain ok s1 where s1: "enforceMaxEntries c t s = (ok, s1)" by fastforce
  have "lockedAs k e s1" using lockedAs_enforce [OF s1 inv held locked] .
  then show ?thesis using RecordFailure held same s1
    by (auto simp: recordFailure_def lockedAs_def jm.get_put split: option.splits prod.splits bool.splits)
next
  case (ResetClient cl)
  then show ?thesis using ev held by (auto simp: resetClient_def lockedAs_def jm.get_del)
next
  case (PruneTick t)
  then have "lockedNow t e" using u ev by (simp add: lockedNow_def)
  then show ?thesis using PruneTick lockedAs_prune [OF inv held] by simp
next
  case Dispose
  then show ?thesis using ev by simp
qed

lemma lockedAs_run:
  assumes "limiterInv c s" "1 \<le> maxEntries c" "lockedAs k e s"
    "lockedUntil e = Some u" "u \<noteq> 0" "\<forall>ev \<in> set es. duringLock lib k u ev"
  shows "lockedAs k e (limiterRun lib c es s)"
  using assms by (induction es arbitrary: s) (auto simp: limiterInv_step lockedAs_step)

section \<open>Identities do not interfere below the capacity\<close>

fun eventClient :: "limiter_event \<Rightarrow> client option" where
  "eventClient (CheckClient cl t) = Some cl"
| "eventClient (RecordFailure cl t) = Some cl"
| "eventClient (ResetClient cl) = Some cl"
| "eventClient (PruneTick t) = None"
| "eventClient Dispose = None"

text \<open>The events that concern a key: its own, and those about the whole table.\<close>

definition concerns :: "'a ip_library \<Rightarrow> string \<Rightarrow> limiter_event \<Rightarrow> bool" where
  "concerns lib k ev \<longleftrightarrow> (\<forall>cl \<in> set_option (eventClient ev). fst (resolveKey lib cl) = k)"

definition eventKey :: "'a ip_library \<Rightarrow> limiter_event \<Rightarrow> string option" where
  "eventKey lib ev = map_option (\<lambda>cl. fst (resolveKey lib cl)) (eventClient ev)"

definition eventKeys :: "'a ip_library \<Rightarrow> limiter_event list \<Rightarrow> string set" where
  "eventKeys lib es = set (List.map_filter (eventKey lib) es)"

lemma eventKeys_simps [simp]:
  "eventKeys lib [] = {}"
  "eventKeys lib (ev # es) = set_option (eventKey lib ev) \<union> eventKeys lib es"
  by (auto simp: eventKeys_def split: option.splits)

lemma finite_eventKeys [simp]: "finite (eventKeys lib es)"
  by (simp add: eventKeys_def)

definition roomy :: "limiter_config \<Rightarrow> string set \<Rightarrow> limiter \<Rightarrow> bool" where
  "roomy c K s \<longleftrightarrow> jm_ok (rateEntries s) \<and> fst ` set (rateEntries s) \<subseteq> K \<and>
     overflowLockedUntil s = None"

lemma roomy_enforce:
  assumes "roomy c K s" "finite K" "int (card K) \<le> maxEntries c" "k \<in> K"
    "jm_get (rateEntries s) k = None"
  shows "enforceMaxEntries c now s = (True, s)"
proof -
  have "k \<notin> fst ` set (rateEntries s)" using assms(5) by (simp add: jm_get_def map_of_eq_None_iff)
  then have "card (fst ` set (rateEntries s)) < card K"
    using assms(1,2,4) by (intro psubset_card_mono) (auto simp: roomy_def)
  moreover have "length (rateEntries s) = card (fst ` set (rateEntries s))"
    using assms(1) by (metis distinct_card jm_keys_def jm_ok_def length_map roomy_def set_map)
  ultimately show ?thesis using assms(3) by (simp add: enforceMaxEntries_def)
qed

lemma roomy_overflow: "roomy c K s \<Longrightarrow> checkOverflowLock c now s = (None, s)"
  by (simp add: roomy_def checkOverflowLock_def)

lemma set_jm_set: "fst ` set (jm_set k v m) = insert k (fst ` set m)"
  by (simp add: jm_set_def dom_update)

lemma roomy_set: "roomy c K s \<Longrightarrow> k \<in> K \<Longrightarrow> roomy c K (s\<lparr>rateEntries := jm_set k e (rateEntries s)\<rparr>)"
  by (simp add: roomy_def jm.ok_put set_jm_set)

text \<open>What an event does to the entry of its key.\<close>

fun entryStep :: "'a ip_library \<Rightarrow> limiter_config \<Rightarrow> limiter_event \<Rightarrow> rate_limit_entry option \<Rightarrow>
    rate_limit_entry option" where
  "entryStep lib c (CheckClient cl t) e =
     (if isExempt lib c (snd (resolveKey lib cl)) then e
      else map_option (\<lambda>x. snd (checkEntry c t x)) e)"
| "entryStep lib c (RecordFailure cl t) e =
     (if isExempt lib c (snd (resolveKey lib cl)) then e
      else Some (failEntry c t (nullish e \<lparr>attempts = [], lockedUntil = None\<rparr>)))"
| "entryStep lib c (ResetClient cl) e = None"
| "entryStep lib c (PruneTick t) e =
     (case e of None \<Rightarrow> None | Some x \<Rightarrow> map_option snd (pruneEntry c t ([], x)))"
| "entryStep lib c Dispose e = None"

lemma pruneEntry_snd: "map_option snd (pruneEntry c t (k, x)) = map_option snd (pruneEntry c t ([], x))"
  by (simp add: pruneEntry_def Let_def)

lemma roomy_step:
  assumes room: "roomy c K s" and K: "finite K" "int (card K) \<le> maxEntries c"
    and ev: "set_option (eventKey lib ev) \<subseteq> K"
  shows "roomy c K (limiterStep lib c ev s) \<and>
    jm_get (rateEntries (limiterStep lib c ev s)) k =
      (if concerns lib k ev then entryStep lib c ev (jm_get (rateEntries s) k)
       else jm_get (rateEntries s) k)"
proof (cases ev)
  case (CheckClient cl t)
  then have "fst (resolveKey lib cl) \<in> K" using ev by (simp add: eventKey_def)
  then show ?thesis using CheckClient room roomy_overflow [OF room, of t] roomy_set [OF room]
    by (auto simp: checkClient_def concerns_def split_def Let_def jm.get_put split: option.splits)
next
  case (RecordFailure cl t)
  then have key: "fst (resolveKey lib cl) \<in> K" using ev by (simp add: eventKey_def)
  show ?thesis
  proof (cases "jm_get (rateEntries s) (fst (resolveKey lib cl))")
    case None
    then have "enforceMaxEntries c t s = (True, s)" using roomy_enforce [OF room K key] by simp
    then show ?thesis using RecordFailure room roomy_set [OF room key] None
      by (auto simp: recordFailure_def concerns_def split_def jm.get_put)
  next
    case (Some e)
    then show ?thesis using RecordFailure room roomy_set [OF room key]
      by (auto simp: recordFailure_def concerns_def split_def jm.get_put)
  qed
next
  case (ResetClient cl)
  have "fst ` set (jm_delete x (rateEntries s)) \<subseteq> fst ` set (rateEntries s)" for x
    by (auto simp: jm_delete_def AList.delete_eq)
  then show ?thesis using ResetClient room
    by (auto simp: resetClient_def concerns_def roomy_def jm.ok_del jm.get_del)
next
  case (PruneTick t)
  then show ?thesis using room map_filter_prune_keys [of c t "rateEntries s"]
    by (auto simp: pruneExpiredEntries_def concerns_def roomy_def jm_ok_prune get_prune
        pruneEntry_snd [of c t k] split: option.splits)
next
  case Dispose
  then show ?thesis by (simp add: disposeLimiter_def concerns_def roomy_def)
qed

lemma roomy_run:
  assumes "finite K" "int (card K) \<le> maxEntries c"
  shows "roomy c K s \<Longrightarrow> eventKeys lib es \<subseteq> K \<Longrightarrow>
    roomy c K (limiterRun lib c es s) \<and>
    jm_get (rateEntries (limiterRun lib c es s)) k =
      fold (entryStep lib c) (filter (concerns lib k) es) (jm_get (rateEntries s) k)"
proof (induction es arbitrary: s)
  case Nil
  then show ?case by simp
next
  case (Cons ev es)
  then show ?case using roomy_step [OF Cons.prems(1) assms, of lib ev k]
    by simp
qed

lemma roomy_check:
  assumes "roomy c K s" "resolveKey lib cl = (key, ip)"
  shows "fst (checkClient lib c cl now s) =
    (if isExempt lib c ip then \<lparr>allowed = True, remaining = maxAttempts c, retryAfterMs = 0\<rparr>
     else case jm_get (rateEntries s) key of
       None \<Rightarrow> \<lparr>allowed = True, remaining = maxAttempts c, retryAfterMs = 0\<rparr>
     | Some e \<Rightarrow> fst (checkEntry c now e))"
  using assms roomy_overflow [OF assms(1), of now]
  by (auto simp: checkClient_def split_def Let_def split: option.splits)

lemma roomy_created: "createAuthRateLimiter config = (c, s) \<Longrightarrow> roomy c K s"
  using limiter_created [of config c s] by (simp add: roomy_def limiterInv_def)

section \<open>Counting failures\<close>

definition failuresInWindow :: "limiter_config \<Rightarrow> ms \<Rightarrow> ms list \<Rightarrow> nat" where
  "failuresInWindow c now ts = length (filter (\<lambda>t. now - windowMs c < t) ts)"

text \<open>No failure of the list reaches the limit, each counted with those in the window before it.\<close>

definition belowLimit :: "limiter_config \<Rightarrow> ms list \<Rightarrow> bool" where
  "belowLimit c ts \<longleftrightarrow>
     (\<forall>i < length ts. \<not> reachedAttempts (Suc (failuresInWindow c (ts ! i) (take i ts))) (maxAttempts c))"

lemma belowLimit_snoc:
  "belowLimit c (ts @ [t]) \<longleftrightarrow>
   belowLimit c ts \<and> \<not> reachedAttempts (Suc (failuresInWindow c t ts)) (maxAttempts c)"
  by (auto simp: belowLimit_def nth_append less_Suc_eq)

lemma failEntry_none_locked:
  "lockedUntil e = None \<Longrightarrow> failEntry c t e =
     (let as = filter (\<lambda>ts. t - windowMs c < ts) (attempts e) @ [t]
      in \<lparr>attempts = as, lockedUntil =
           (if reachedAttempts (length as) (maxAttempts c) then Some (t + lockoutMs c) else None)\<rparr>)"
  if "e = \<lparr>attempts = attempts e, lockedUntil = lockedUntil e\<rparr>"
  by (subst (1) that) (simp add: failEntry_def lockedNow_def slideWindow_def Let_def)

lemma entry_cases: "(e :: rate_limit_entry) = \<lparr>attempts = attempts e, lockedUntil = lockedUntil e\<rparr>"
  by simp

lemma failures_counted:
  assumes "\<not> isExempt lib c (snd (resolveKey lib cl))"
  shows "sorted ts \<Longrightarrow> belowLimit c ts \<Longrightarrow> ts \<noteq> [] \<Longrightarrow>
    \<exists>as. fold (entryStep lib c) (map (RecordFailure cl) ts) None =
      Some \<lparr>attempts = as, lockedUntil = None\<rparr> \<and>
      (\<forall>now. last ts \<le> now \<longrightarrow> filter (\<lambda>t. now - windowMs c < t) as =
         filter (\<lambda>t. now - windowMs c < t) ts)"
proof (induction ts rule: rev_induct)
  case Nil
  then show ?case by simp
next
  case (snoc t ts)
  have below: "belowLimit c ts" "\<not> reachedAttempts (Suc (failuresInWindow c t ts)) (maxAttempts c)"
    using snoc.prems(2) by (simp_all add: belowLimit_snoc)
  show ?case
  proof (cases "ts = []")
    case True
    then show ?thesis using assms below(2)
      by (simp add: failEntry_none_locked [OF entry_cases] failuresInWindow_def Let_def)
  next
    case False
    then obtain as where as: "fold (entryStep lib c) (map (RecordFailure cl) ts) None =
        Some \<lparr>attempts = as, lockedUntil = None\<rparr>"
      "\<And>now. last ts \<le> now \<Longrightarrow> filter (\<lambda>t. now - windowMs c < t) as =
         filter (\<lambda>t. now - windowMs c < t) ts"
      using snoc.IH below(1) snoc.prems(1) by (auto simp: sorted_append)
    have le: "last ts \<le> t" using snoc.prems(1) False by (auto simp: sorted_append)
    let ?as = "filter (\<lambda>ts. t - windowMs c < ts) as @ [t]"
    have len: "length ?as = Suc (failuresInWindow c t ts)"
      using as(2) [OF le] by (simp add: failuresInWindow_def)
    have "fold (entryStep lib c) (map (RecordFailure cl) (ts @ [t])) None =
        Some \<lparr>attempts = ?as, lockedUntil = None\<rparr>"
      using as(1) assms below(2) len
      by (simp add: failEntry_none_locked [OF entry_cases] Let_def)
    moreover have "filter (\<lambda>u. now - windowMs c < u) ?as = filter (\<lambda>u. now - windowMs c < u) (ts @ [t])"
      if "t \<le> now" for now
    proof -
      have "filter (\<lambda>u. now - windowMs c < u) (filter (\<lambda>u. t - windowMs c < u) xs) =
          filter (\<lambda>u. now - windowMs c < u) xs" for xs
        using that by (auto intro: filter_cong)
      then show ?thesis using as(2) [of now] le that by simp
    qed
    ultimately show ?thesis by auto
  qed
qed

section \<open>Properties\<close>

lemma refused_tracked:
  assumes "checkClient lib c cl t s = (r, s')" "resolveKey lib cl = (key, ip)"
    "jm_get (rateEntries s) key = Some e" "0 < retryAfterMs r"
  shows "\<not> isExempt lib c ip \<and> lockedUntil e = Some (t + retryAfterMs r) \<and> t + retryAfterMs r \<noteq> 0 \<and>
    lockedNow t e \<and> s' = s\<lparr>rateEntries := jm_set key e (rateEntries s)\<rparr>"
proof -
  have "\<not> isExempt lib c ip" using assms by (auto simp: checkClient_def)
  moreover have "r = fst (checkEntry c t e)"
    "s' = s\<lparr>rateEntries := jm_set key (snd (checkEntry c t e)) (rateEntries s)\<rparr>"
    using assms calculation by (auto simp: checkClient_def split_def Let_def)
  moreover have "lockedNow t e"
    using assms(4) calculation(2) by (auto simp: checkEntry_def Let_def split: if_splits)
  ultimately show ?thesis by (auto simp: checkEntry_def lockedNow_def)
qed

text \<open>
  C18. A lockout holds until it ends.  Once a tracked client is told to retry after some delay, it
  is refused at every later instant before that delay has passed, with exactly the time left,
  whatever failures, checks and prunes of this and of any number of other clients happen in
  between (only a reset of this client or a disposal can end it); and the table never exceeds its
  capacity, so a flood of other identities neither evicts a lockout nor grows the memory.
\<close>

theorem lockout_survives_any_flood:
  assumes "createAuthRateLimiter config = (c, s0)" and "s = limiterRun lib c before s0"
    and "resolveKey lib cl = (key, ip)" and "jm_get (rateEntries s) key \<noteq> None"
    and "checkClient lib c cl t s = (r, s')" and "0 < retryAfterMs r"
    and "\<forall>ev \<in> set es. duringLock lib key (t + retryAfterMs r) ev"
    and "now < t + retryAfterMs r"
  shows "fst (checkClient lib c cl now (limiterRun lib c es s')) =
      \<lparr>allowed = False, remaining = Finite 0, retryAfterMs = t + retryAfterMs r - now\<rparr> \<and>
    int (limiterSize (limiterRun lib c es s')) \<le> maxEntries c"
proof -
  obtain e where e: "jm_get (rateEntries s) key = Some e" using assms(4) by auto
  note held = refused_tracked [OF assms(5,3) e assms(6)]
  have c: "1 \<le> maxEntries c" "limiterInv c s0" using limiter_created [OF assms(1)] by simp_all
  then have "limiterInv c s" using limiterInv_run assms(2) by blast
  then have inv: "limiterInv c s'" using held limiterInv_set assms(4) by blast
  have "lockedAs key e s'" using held by (simp add: lockedAs_def jm.get_put)
  then have "lockedAs key e (limiterRun lib c es s')"
    using lockedAs_run [OF inv c(1)] held assms(7) by blast
  moreover have "lockedNow now e" using held assms(8) by (auto simp: lockedNow_def)
  moreover have "limiterInv c (limiterRun lib c es s')" using limiterInv_run [OF inv c(1)] .
  ultimately show ?thesis using held assms(3)
    by (auto simp: checkClient_def lockedAs_def checkEntry_def limiterInv_def limiterSize_def)
qed

text \<open>
  While there are no more identities than the table may hold, identities are independent: the
  answer a client gets depends only on its own checks, failures and resets (and on the prunes and
  disposals of the whole limiter), not on what any other client did.
\<close>

theorem identities_are_independent:
  assumes "createAuthRateLimiter config = (c, s0)" and "resolveKey lib cl = (key, ip)"
    and "int (card (eventKeys lib es)) \<le> maxEntries c"
  shows "fst (checkClient lib c cl now (limiterRun lib c es s0)) =
    fst (checkClient lib c cl now (limiterRun lib c (filter (concerns lib key) es) s0))"
proof -
  let ?K = "eventKeys lib es" and ?own = "filter (concerns lib key) es"
  have own: "eventKeys lib ?own \<subseteq> ?K" by (induction es) auto
  note run = roomy_run [OF finite_eventKeys assms(3) roomy_created [OF assms(1)]]
  have "roomy c ?K (limiterRun lib c es s0)" "roomy c ?K (limiterRun lib c ?own s0)"
    "jm_get (rateEntries (limiterRun lib c es s0)) key =
     jm_get (rateEntries (limiterRun lib c ?own s0)) key"
    using run [of lib es] run [of lib ?own] own by simp_all
  then show ?thesis using roomy_check [OF _ assms(2)] by simp
qed

text \<open>
  The window counts exactly the recent failures.  Take a client whose own events so far are
  failures none of which reached the limit, among any events of no more other clients than the
  table holds.  A check then reports the configured attempts less the failures inside the window;
  and if the next failure brings the number of failures inside the window to the limit, the client
  is refused from then on until the lockout time has passed, with the time left.
\<close>

theorem sliding_window_counts_failures:
  assumes "createAuthRateLimiter config = (c, s0)"
    and "resolveKey lib cl = (key, ip)" "\<not> isExempt lib c ip"
    and "int (card (eventKeys lib (RecordFailure cl now # es))) \<le> maxEntries c"
    and "filter (concerns lib key) es = map (RecordFailure cl) ts"
    and "ts \<noteq> []" "sorted ts" "last ts \<le> now" "0 < now" and "belowLimit c ts"
  shows "remaining (fst (checkClient lib c cl now (limiterRun lib c es s0))) =
      attemptsLeft (maxAttempts c) (failuresInWindow c now ts) \<and>
    (reachedAttempts (Suc (failuresInWindow c now ts)) (maxAttempts c) \<longrightarrow>
      now' < now + lockoutMs c \<longrightarrow>
      fst (checkClient lib c cl now' (recordFailure lib c cl now (limiterRun lib c es s0))) =
        \<lparr>allowed = False, remaining = Finite 0, retryAfterMs = now + lockoutMs c - now'\<rparr>)"
proof -
  let ?K = "eventKeys lib (RecordFailure cl now # es)"
  let ?s = "limiterRun lib c es s0" and ?t = "limiterRun lib c (es @ [RecordFailure cl now]) s0"
  have snd: "\<not> isExempt lib c (snd (resolveKey lib cl))" using assms(2,3) by simp
  have empty: "jm_get (rateEntries s0) key = None" using limiter_created [OF assms(1)] by simp
  obtain as where as: "fold (entryStep lib c) (map (RecordFailure cl) ts) None =
        Some \<lparr>attempts = as, lockedUntil = None\<rparr>"
    "filter (\<lambda>t. now - windowMs c < t) as = filter (\<lambda>t. now - windowMs c < t) ts"
    using failures_counted [OF snd assms(7,10,6)] assms(8) by blast
  note run = roomy_run [OF finite_eventKeys assms(4) roomy_created [OF assms(1)], where k = key]
  have s: "roomy c ?K ?s" "jm_get (rateEntries ?s) key = Some \<lparr>attempts = as, lockedUntil = None\<rparr>"
    using run [of lib es] assms(5) as(1) empty by auto
  have "fst (checkClient lib c cl now ?s) = fst (checkEntry c now \<lparr>attempts = as, lockedUntil = None\<rparr>)"
    using roomy_check [OF s(1) assms(2), of now] s(2) assms(3) by simp
  then have first: "remaining (fst (checkClient lib c cl now ?s)) =
      attemptsLeft (maxAttempts c) (failuresInWindow c now ts)"
    using as(2) by (simp add: checkEntry_def lockedNow_def lockExpired_def slideWindow_def Let_def
        failuresInWindow_def)
  define e where "e = failEntry c now \<lparr>attempts = as, lockedUntil = None\<rparr>"
  have step: "roomy c ?K (recordFailure lib c cl now ?s) \<and>
      jm_get (rateEntries (recordFailure lib c cl now ?s)) key = Some e"
    using roomy_step [OF s(1) finite_eventKeys assms(4), of lib "RecordFailure cl now" key] s(2) snd
      assms(2) by (simp add: e_def concerns_def eventKey_def)
  have "fst (checkClient lib c cl now' (recordFailure lib c cl now ?s)) =
      \<lparr>allowed = False, remaining = Finite 0, retryAfterMs = now + lockoutMs c - now'\<rparr>"
    if "reachedAttempts (Suc (failuresInWindow c now ts)) (maxAttempts c)" "now' < now + lockoutMs c"
  proof -
    have "lockedUntil e = Some (now + lockoutMs c)"
      using that(1) as(2)
      by (simp add: e_def failEntry_none_locked [OF entry_cases] failuresInWindow_def Let_def)
    moreover have "now + lockoutMs c \<noteq> 0" using assms(9) limiter_created [OF assms(1)] by auto
    ultimately have "fst (checkEntry c now' e) =
        \<lparr>allowed = False, remaining = Finite 0, retryAfterMs = now + lockoutMs c - now'\<rparr>"
      using that(2) by (simp add: checkEntry_def lockedNow_def)
    then show ?thesis using roomy_check [OF _ assms(2)] step assms(3) by fastforce
  qed
  with first show ?thesis by blast
qed

section \<open>Witnesses\<close>

text \<open>A limiter of two attempts in 10 ms, locked for 100 ms, and two clients of it.\<close>

definition sampleOptions :: rate_limit_options where
  "sampleOptions =
     \<lparr>optMaxAttempts = Some (Finite 2), optWindowMs = Some (Finite 10),
      optLockoutMs = Some (Finite 100), optExemptLoopback = None, optPruneIntervalMs = None,
      optMaxEntries = Some (Finite 5)\<rparr>"

definition clientA :: client where
  "clientA = (Some (buildRateLimitIdentityKey ''n'' ''a''), None)"

definition clientB :: client where
  "clientB = (Some (buildRateLimitIdentityKey ''n'' ''b''), None)"

definition sampleConfig :: limiter_config where
  "sampleConfig = \<lparr>maxAttempts = Finite 2, windowMs = 10, lockoutMs = 100, exemptLoopback = True,
     pruneIntervalMs = 60000, maxEntries = 5\<rparr>"

lemma sample_created:
  "createAuthRateLimiter sampleOptions =
     (sampleConfig, \<lparr>rateEntries = [], overflowLockedUntil = None\<rparr>)"
  by (simp add: createAuthRateLimiter_def sampleOptions_def sampleConfig_def resolveTimerTimeoutMs_def
      resolveIntegerOption_def resolvePruneIntervalMs_def asFiniteNumber_def MAX_TIMER_TIMEOUT_MS_def
      Let_def)

lemma sample_keys [simp]:
  "resolveKey sampleLibrary clientA = (''default:identity:n:a'', ''identity:n:a'')"
  "resolveKey sampleLibrary clientB = (''default:identity:n:b'', ''identity:n:b'')"
proof -
  have "js_trim ''default'' = ''default''" by (rule js_trim_id) (simp add: js_space_def)
  then show "resolveKey sampleLibrary clientA = (''default:identity:n:a'', ''identity:n:a'')"
    "resolveKey sampleLibrary clientB = (''default:identity:n:b'', ''identity:n:b'')"
    by (simp_all add: resolveKey_def clientA_def clientB_def buildRateLimitIdentityKey_def
        IDENTITY_RATE_LIMIT_KEY_PREFIX_def BROWSER_ORIGIN_RATE_LIMIT_KEY_PREFIX_def
        normalizeRateLimitClientIp_def js_starts_with_def normalizeScope_def
        AUTH_RATE_LIMIT_SCOPE_DEFAULT_def Let_def)
qed

lemma sample_not_exempt [simp]:
  "\<not> isExempt sampleLibrary c ''identity:n:a''" "\<not> isExempt sampleLibrary c ''identity:n:b''"
proof -
  have "js_trim ''identity:n:a'' = ''identity:n:a''" "js_trim ''identity:n:b'' = ''identity:n:b''"
    by (rule js_trim_id, simp add: js_space_def)+
  then show "\<not> isExempt sampleLibrary c ''identity:n:a''" "\<not> isExempt sampleLibrary c ''identity:n:b''"
    by (simp_all add: isExempt_def isLoopbackAddress_def isLoopbackIpAddress_def
        parseCanonicalIpAddress_def normalizeIpParseInput_def normalizeOptionalString_def
        stripIpv6Brackets_def sampleLibrary_def)
qed

lemmas limiter_eval = checkClient_def recordFailure_def enforceMaxEntries_def failEntry_def
  checkEntry_def slideWindow_def lockedNow_def lockExpired_def sampleConfig_def jm_set_def
  checkOverflowLock_def attemptsLeft_def Let_def

theorem lockout_survives_any_flood_witness:
  "fst (checkClient sampleLibrary sampleConfig clientA 60
      (limiterRun sampleLibrary sampleConfig [RecordFailure clientB 40, PruneTick 50]
        (snd (checkClient sampleLibrary sampleConfig clientA 7
          (limiterRun sampleLibrary sampleConfig [RecordFailure clientA 4, RecordFailure clientA 6]
            \<lparr>rateEntries = [], overflowLockedUntil = None\<rparr>))))) =
   \<lparr>allowed = False, remaining = Finite 0, retryAfterMs = 46\<rparr>"
proof -
  let ?s = "limiterRun sampleLibrary sampleConfig [RecordFailure clientA 4, RecordFailure clientA 6]
            \<lparr>rateEntries = [], overflowLockedUntil = None\<rparr>"
  have s: "?s = \<lparr>rateEntries = [(''default:identity:n:a'',
      \<lparr>attempts = [4, 6], lockedUntil = Some 106\<rparr>)], overflowLockedUntil = None\<rparr>"
    by (simp add: limiter_eval)
  have r: "fst (checkClient sampleLibrary sampleConfig clientA 7 ?s) =
      \<lparr>allowed = False, remaining = Finite 0, retryAfterMs = 99\<rparr>"
    unfolding s by (simp add: limiter_eval)
  have "resolveKey sampleLibrary clientA = (''default:identity:n:a'', ''identity:n:a'')" by simp
  note use = lockout_survives_any_flood [OF sample_created refl this _ surjective_pairing, of
      "[RecordFailure clientA 4, RecordFailure clientA 6]" 7
      "[RecordFailure clientB 40, PruneTick 50]" 60]
  show ?thesis using use unfolding r unfolding s by simp
qed

theorem identities_are_independent_witness:
  "fst (checkClient sampleLibrary sampleConfig clientA 9
      (limiterRun sampleLibrary sampleConfig
        [RecordFailure clientB 4, RecordFailure clientA 5, RecordFailure clientB 6]
        \<lparr>rateEntries = [], overflowLockedUntil = None\<rparr>)) =
   fst (checkClient sampleLibrary sampleConfig clientA 9
      (limiterRun sampleLibrary sampleConfig [RecordFailure clientA 5]
        \<lparr>rateEntries = [], overflowLockedUntil = None\<rparr>))"
proof -
  let ?es = "[RecordFailure clientB 4, RecordFailure clientA 5, RecordFailure clientB 6]"
  have "eventKeys sampleLibrary ?es = {''default:identity:n:a'', ''default:identity:n:b''}"
    by (auto simp: eventKey_def)
  then have "int (card (eventKeys sampleLibrary ?es)) \<le> maxEntries sampleConfig"
    by (simp add: sampleConfig_def)
  moreover have "resolveKey sampleLibrary clientA = (''default:identity:n:a'', ''identity:n:a'')" by simp
  moreover have "filter (concerns sampleLibrary ''default:identity:n:a'') ?es = [RecordFailure clientA 5]"
    by (simp add: concerns_def)
  ultimately show ?thesis
    using identities_are_independent [OF sample_created, of sampleLibrary clientA _ _ ?es 9] by metis
qed

theorem sliding_window_counts_failures_witness:
  "fst (checkClient sampleLibrary sampleConfig clientA 50
      (recordFailure sampleLibrary sampleConfig clientA 9
        (limiterRun sampleLibrary sampleConfig [RecordFailure clientB 4, RecordFailure clientA 5]
          \<lparr>rateEntries = [], overflowLockedUntil = None\<rparr>))) =
   \<lparr>allowed = False, remaining = Finite 0, retryAfterMs = 59\<rparr>"
proof -
  have keys: "eventKeys sampleLibrary (RecordFailure clientA 9 # [RecordFailure clientB 4, RecordFailure clientA 5])
      = {''default:identity:n:a'', ''default:identity:n:b''}"
    by (auto simp: eventKey_def)
  have key: "resolveKey sampleLibrary clientA = (''default:identity:n:a'', ''identity:n:a'')" by simp
  have own: "filter (concerns sampleLibrary ''default:identity:n:a'')
      [RecordFailure clientB 4, RecordFailure clientA 5] = map (RecordFailure clientA) [5]"
    by (simp add: concerns_def)
  have "belowLimit sampleConfig [5]" "failuresInWindow sampleConfig 9 [5] = 1"
    by (simp_all add: belowLimit_def failuresInWindow_def sampleConfig_def)
  then show ?thesis
    using sliding_window_counts_failures [OF sample_created key sample_not_exempt(1) _ own, of 9 50]
    unfolding keys by (simp add: sampleConfig_def)
qed

end
