(* ===== verification/OperatorScopes.thy ===== *)
theory OperatorScopes
  imports Prelude
begin

text \<open>
  Operator scopes of gateway clients: \<open>src/shared/operator-scope-compat.ts\<close> (which scopes a role
  grant satisfies) and \<open>src/gateway/operator-scopes.ts\<close> (the closed set of operator scopes).
\<close>

definition OPERATOR_ROLE :: string where "OPERATOR_ROLE = ''operator''"
definition OPERATOR_ADMIN_SCOPE :: string where "OPERATOR_ADMIN_SCOPE = ''operator.admin''"
definition OPERATOR_READ_SCOPE :: string where "OPERATOR_READ_SCOPE = ''operator.read''"
definition OPERATOR_WRITE_SCOPE :: string where "OPERATOR_WRITE_SCOPE = ''operator.write''"
definition OPERATOR_SCOPE_PREFIX :: string where "OPERATOR_SCOPE_PREFIX = ''operator.''"

definition normalizeScopeList :: "string list \<Rightarrow> string list" where
  "normalizeScopeList scopes = uniqueValues (filter (\<lambda>s. s \<noteq> []) (map js_trim scopes))"

definition operatorScopeSatisfied :: "string \<Rightarrow> string list \<Rightarrow> bool" where
  "operatorScopeSatisfied requestedScope granted =
     (if \<not> js_starts_with requestedScope OPERATOR_SCOPE_PREFIX then False
      else if OPERATOR_ADMIN_SCOPE \<in> set granted then True
      else if requestedScope = OPERATOR_READ_SCOPE
      then OPERATOR_READ_SCOPE \<in> set granted \<or> OPERATOR_WRITE_SCOPE \<in> set granted
      else if requestedScope = OPERATOR_WRITE_SCOPE then OPERATOR_WRITE_SCOPE \<in> set granted
      else requestedScope \<in> set granted)"

definition roleScopesAllow :: "string \<Rightarrow> string list \<Rightarrow> string list \<Rightarrow> bool" where
  "roleScopesAllow role requestedScopes allowedScopes =
     (let requested = normalizeScopeList requestedScopes;
          allowed = normalizeScopeList allowedScopes
      in if requested = [] then True
         else if allowed = [] then False
         else if js_trim role \<noteq> OPERATOR_ROLE
         then list_all (\<lambda>scope. js_starts_with scope (js_trim role @ ''.'') \<and> scope \<in> set allowed)
                requested
         else list_all (\<lambda>scope. operatorScopeSatisfied scope allowed) requested)"

definition resolveMissingRequestedScope :: "string \<Rightarrow> string list \<Rightarrow> string list \<Rightarrow> string option" where
  "resolveMissingRequestedScope role requestedScopes allowedScopes =
     find (\<lambda>scope. \<not> roleScopesAllow role [scope] allowedScopes) requestedScopes"

definition resolveScopeOutsideRequestedRoles :: "string list \<Rightarrow> string list \<Rightarrow> string option" where
  "resolveScopeOutsideRequestedRoles requestedRoles requestedScopes =
     find (\<lambda>scope. \<not> list_ex (\<lambda>role. roleScopesAllow role [scope] [scope]) requestedRoles)
       requestedScopes"

definition KNOWN_OPERATOR_SCOPE_VALUES :: "string list" where
  "KNOWN_OPERATOR_SCOPE_VALUES =
     [''operator.admin'', ''operator.read'', ''operator.write'', ''operator.approvals'',
      ''operator.pairing'', ''operator.talk.secrets'']"

definition isOperatorScope :: "string \<Rightarrow> bool" where
  "isOperatorScope v \<longleftrightarrow> v \<in> set KNOWN_OPERATOR_SCOPE_VALUES"

definition normalizeOperatorScopeList :: "string list option \<Rightarrow> string list option" where
  "normalizeOperatorScopeList scopes =
     map_option (foldl (\<lambda>normalized scope.
         if isOperatorScope scope \<and> scope \<notin> set normalized then normalized @ [scope] else normalized) [])
       scopes"

section \<open>Lemmas\<close>

text \<open>A single normalised scope is satisfied by the granted ones.\<close>

definition scopeCovered :: "string \<Rightarrow> string set \<Rightarrow> string \<Rightarrow> bool" where
  "scopeCovered role granted scope \<longleftrightarrow>
     js_starts_with scope (js_trim role @ ''.'') \<and>
     (scope \<in> granted \<or>
      js_trim role = OPERATOR_ROLE \<and>
        (OPERATOR_ADMIN_SCOPE \<in> granted \<or> scope = OPERATOR_READ_SCOPE \<and> OPERATOR_WRITE_SCOPE \<in> granted))"

lemma set_normalizeScopeList [simp]: "set (normalizeScopeList ss) = js_trim ` set ss - {[]}"
  by (auto simp: normalizeScopeList_def)

lemma normalizeScopeList_Nil: "normalizeScopeList ss = [] \<longleftrightarrow> js_trim ` set ss \<subseteq> {[]}"
  by (simp add: normalizeScopeList_def filter_empty_conv image_subset_iff)

lemma operatorScopeSatisfied_covered:
  "js_trim role = OPERATOR_ROLE \<Longrightarrow>
   operatorScopeSatisfied scope granted \<longleftrightarrow> scopeCovered role (set granted) scope"
  by (auto simp: operatorScopeSatisfied_def scopeCovered_def OPERATOR_ROLE_def OPERATOR_SCOPE_PREFIX_def)

lemma roleScopesAllow_iff:
  "roleScopesAllow role requested allowed \<longleftrightarrow>
   (\<forall>scope \<in> js_trim ` set requested - {[]}.
      scopeCovered role (js_trim ` set allowed - {[]}) scope)"
proof (cases "normalizeScopeList requested = []")
  case True
  then show ?thesis using normalizeScopeList_Nil [of requested]
    by (auto simp: roleScopesAllow_def Let_def)
next
  case req: False
  show ?thesis
  proof (cases "normalizeScopeList allowed = []")
    case True
    then have "js_trim ` set allowed - {[]} = {}" using normalizeScopeList_Nil [of allowed] by auto
    moreover obtain s where "s \<in> js_trim ` set requested - {[]}"
      using req normalizeScopeList_Nil [of requested] by auto
    ultimately show ?thesis using True req by (auto simp: roleScopesAllow_def scopeCovered_def)
  next
    case False
    show ?thesis
    proof (cases "js_trim role = OPERATOR_ROLE")
      case True
      then show ?thesis using req False
        by (simp add: roleScopesAllow_def Let_def list_all_iff operatorScopeSatisfied_covered)
    next
      case other: False
      then show ?thesis using req False
        by (simp add: roleScopesAllow_def Let_def list_all_iff scopeCovered_def)
    qed
  qed
qed

lemma scopeCovered_trans:
  assumes "\<forall>s \<in> B. scopeCovered role A s" "scopeCovered role B s"
  shows "scopeCovered role A s"
  using assms by (auto simp: scopeCovered_def OPERATOR_READ_SCOPE_def OPERATOR_WRITE_SCOPE_def
      OPERATOR_ADMIN_SCOPE_def)

lemma scopesCovered_trans:
  "\<forall>s \<in> B. scopeCovered role A s \<Longrightarrow> \<forall>s \<in> C. scopeCovered role B s \<Longrightarrow>
   \<forall>s \<in> C. scopeCovered role A s"
  by (meson scopeCovered_trans)

lemma scopeCovered_mono: "A \<subseteq> B \<Longrightarrow> scopeCovered role A s \<Longrightarrow> scopeCovered role B s"
  by (auto simp: scopeCovered_def)

lemma roleScopesAllow_each:
  "roleScopesAllow role c a \<longleftrightarrow> (\<forall>s \<in> set c. roleScopesAllow role [s] a)"
proof -
  define A where "A = js_trim ` set a - {[]}"
  have "roleScopesAllow role [s] a \<longleftrightarrow> (js_trim s \<noteq> [] \<longrightarrow> scopeCovered role A (js_trim s))" for s
    by (auto simp: roleScopesAllow_iff A_def [symmetric])
  moreover have "roleScopesAllow role c a \<longleftrightarrow>
      (\<forall>s \<in> set c. js_trim s \<noteq> [] \<longrightarrow> scopeCovered role A (js_trim s))"
    by (auto simp: roleScopesAllow_iff A_def [symmetric])
  ultimately show ?thesis by simp
qed

text \<open>
  Delegation of scopes cannot escalate.  Whatever a role may do with the scopes \<open>b\<close>, it may
  do with any scopes \<open>a\<close> that allow \<open>b\<close>: granting to others only what one is allowed never adds a
  scope.  In particular more granted scopes allow no less, and a request is allowed exactly when
  each of its scopes is, so the missing-scope report is empty exactly for the allowed requests and
  names a requested scope that is refused otherwise.
\<close>

theorem scope_delegation_cannot_escalate:
  shows "(roleScopesAllow role b a \<longrightarrow> roleScopesAllow role c b \<longrightarrow> roleScopesAllow role c a) \<and>
    (set a \<subseteq> set a' \<longrightarrow> roleScopesAllow role c a \<longrightarrow> roleScopesAllow role c a') \<and>
    (case resolveMissingRequestedScope role c a of
       None \<Rightarrow> roleScopesAllow role c a
     | Some s \<Rightarrow> s \<in> set c \<and> \<not> roleScopesAllow role [s] a \<and> \<not> roleScopesAllow role c a)"
proof (intro conjI impI)
  assume "roleScopesAllow role b a" "roleScopesAllow role c b"
  then show "roleScopesAllow role c a"
    unfolding roleScopesAllow_iff by (rule scopesCovered_trans)
next
  assume "set a \<subseteq> set a'" "roleScopesAllow role c a"
  then have "js_trim ` set a - {[]} \<subseteq> js_trim ` set a' - {[]}" by blast
  then show "roleScopesAllow role c a'" using \<open>roleScopesAllow role c a\<close> scopeCovered_mono
    unfolding roleScopesAllow_iff by meson
next
  note each = roleScopesAllow_each [of role c a]
  show "case resolveMissingRequestedScope role c a of
       None \<Rightarrow> roleScopesAllow role c a
     | Some s \<Rightarrow> s \<in> set c \<and> \<not> roleScopesAllow role [s] a \<and> \<not> roleScopesAllow role c a"
  proof (cases "resolveMissingRequestedScope role c a")
    case None
    then have "\<forall>s \<in> set c. roleScopesAllow role [s] a"
      by (simp add: resolveMissingRequestedScope_def find_None_all)
    then show ?thesis using None each by simp
  next
    case (Some s)
    then have "s \<in> set c \<and> \<not> roleScopesAllow role [s] a"
      unfolding resolveMissingRequestedScope_def by (rule find_SomeD)
    moreover from this have "\<not> roleScopesAllow role c a" unfolding each by blast
    ultimately show ?thesis using Some by simp
  qed
qed

lemma trim_scope [simp]:
  "js_trim ''operator'' = ''operator''" "js_trim ''operator.write'' = ''operator.write''"
  "js_trim ''operator.read'' = ''operator.read''" "js_trim ''operator.admin'' = ''operator.admin''"
  by (rule js_trim_id, simp add: js_space_def)+

theorem scope_delegation_cannot_escalate_witness:
  "roleScopesAllow ''operator'' [''operator.read''] [''operator.admin'']"
proof -
  have "roleScopesAllow ''operator'' [''operator.write''] [''operator.admin'']"
    "roleScopesAllow ''operator'' [''operator.read''] [''operator.write'']"
    by (simp_all add: roleScopesAllow_iff scopeCovered_def OPERATOR_ROLE_def OPERATOR_ADMIN_SCOPE_def
        OPERATOR_READ_SCOPE_def OPERATOR_WRITE_SCOPE_def js_starts_with_def)
  then show ?thesis using scope_delegation_cannot_escalate by blast
qed

text \<open>The closed scope list: known, distinct, and normalising again changes nothing.\<close>

lemma foldl_scopes:
  "foldl (\<lambda>n s. if isOperatorScope s \<and> s \<notin> set n then n @ [s] else n) acc ss =
   foldl (\<lambda>n s. set_add s n) acc (filter isOperatorScope ss)"
  by (induction ss arbitrary: acc) (auto simp: set_add_def)

lemma normalizeOperatorScopeList_unique:
  "normalizeOperatorScopeList (Some ss) = Some (uniqueValues (filter isOperatorScope ss))"
  by (simp add: normalizeOperatorScopeList_def foldl_scopes uniqueValues_def)

lemma normalizeOperatorScopeList_idem:
  "normalizeOperatorScopeList (normalizeOperatorScopeList ss) = normalizeOperatorScopeList ss"
proof (cases ss)
  case (Some xs)
  have "filter isOperatorScope (uniqueValues (filter isOperatorScope xs)) =
      uniqueValues (filter isOperatorScope xs)"
    by (rule filter_True) simp
  then show ?thesis using Some by (simp add: normalizeOperatorScopeList_unique)
qed (simp add: normalizeOperatorScopeList_def)

end
