(* ===== verification/HeartbeatCooldown.thy ===== *)
theory HeartbeatCooldown
  imports Prelude
begin

text \<open>
  \<open>src/infra/heartbeat-cooldown.ts\<close>: whether a heartbeat wake runs now or is deferred, and the
  bookkeeping \<open>src/infra/heartbeat-runner.ts\<close> does around it.  An agent is its due time, the start
  of its last run and the buffer of recent starts; when the next run is due is chosen by the
  runner's phase computation and is an arbitrary field of the wake.
\<close>

datatype wake_intent = Scheduled | EventWake | Immediate | Manual

datatype defer_reason = NotDue | MinSpacing | Flood

datatype defer_decision = RunNow | Defer defer_reason

record should_defer_input =
  wakeIntent :: wake_intent
  wakeNow :: ms
  nextDueMs :: ms
  lastRunStartedAtMs :: "ms option"
  recentRunStarts :: "ms list option"
  minSpacingMs :: "int option"
  floodWindowMs :: "int option"
  floodThreshold :: "int option"

definition DEFAULT_MIN_WAKE_SPACING_MS :: int where "DEFAULT_MIN_WAKE_SPACING_MS = 30000"
definition DEFAULT_FLOOD_WINDOW_MS :: int where "DEFAULT_FLOOD_WINDOW_MS = 60000"
definition DEFAULT_FLOOD_THRESHOLD :: int where "DEFAULT_FLOOD_THRESHOLD = 5"

text \<open>The loop counts from the newest start down to the first one before the window.\<close>

definition startsInWindow :: "ms \<Rightarrow> ms list \<Rightarrow> nat" where
  "startsInWindow windowStart starts = length (takeWhile (\<lambda>ts. \<not> ts < windowStart) (rev starts))"

definition checkFloodGuard :: "should_defer_input \<Rightarrow> defer_decision option" where
  "checkFloodGuard i =
     (let floodWindow = nullish (floodWindowMs i) DEFAULT_FLOOD_WINDOW_MS;
          threshold = nullish (floodThreshold i) DEFAULT_FLOOD_THRESHOLD
      in case recentRunStarts i of
           None \<Rightarrow> None
         | Some starts \<Rightarrow>
             if int (length starts) < threshold \<or> floodWindow \<le> 0 then None
             else if int (startsInWindow (wakeNow i - floodWindow) starts) \<ge> threshold
             then Some (Defer Flood) else None)"

definition shouldDeferWake :: "should_defer_input \<Rightarrow> defer_decision" where
  "shouldDeferWake i =
     (if wakeIntent i = Manual then RunNow
      else if wakeIntent i = Immediate then nullish (checkFloodGuard i) RunNow
      else case checkFloodGuard i of
        Some d \<Rightarrow> d
      | None \<Rightarrow>
          if wakeIntent i = Scheduled
          then (if wakeNow i < nextDueMs i then Defer NotDue else RunNow)
          else (case lastRunStartedAtMs i of
                  None \<Rightarrow> RunNow
                | Some lastStart \<Rightarrow>
                    if wakeNow i < nextDueMs i then Defer NotDue
                    else let minSpacing = nullish (minSpacingMs i) DEFAULT_MIN_WAKE_SPACING_MS
                         in if minSpacing > 0 \<and> wakeNow i - lastStart < minSpacing
                            then Defer MinSpacing else RunNow))"

text \<open>\<open>shift\<close> drops the oldest entries until \<open>floodThreshold + 1\<close> are left.\<close>

definition recordRunStart :: "ms list \<Rightarrow> ms \<Rightarrow> nat \<Rightarrow> ms list" where
  "recordRunStart buffer ts threshold =
     (let b = buffer @ [ts] in drop (length b - (threshold + 1)) b)"

section \<open>The runner's bookkeeping\<close>

record heartbeat_agent =
  agentNextDueMs :: ms
  agentLastRunStartedAtMs :: "ms option"
  agentRecentRunStarts :: "ms list"

definition evaluateWakeDeferral :: "heartbeat_agent \<Rightarrow> ms \<Rightarrow> wake_intent \<Rightarrow> defer_decision" where
  "evaluateWakeDeferral a now intent =
     shouldDeferWake \<lparr>wakeIntent = intent, wakeNow = now, nextDueMs = agentNextDueMs a,
       lastRunStartedAtMs = agentLastRunStartedAtMs a,
       recentRunStarts = Some (agentRecentRunStarts a), minSpacingMs = None, floodWindowMs = None,
       floodThreshold = None\<rparr>"

definition recordRunBookkeeping :: "ms \<Rightarrow> heartbeat_agent \<Rightarrow> heartbeat_agent" where
  "recordRunBookkeeping now a =
     a\<lparr>agentLastRunStartedAtMs := Some now,
       agentRecentRunStarts := recordRunStart (agentRecentRunStarts a) now 5\<rparr>"

text \<open>
  A wake of one agent: its intent and time, whether the run was turned down as busy (then nothing
  is recorded), and the due time the runner computes after a run or a deferral.
\<close>

record agent_wake =
  intentOf :: wake_intent
  timeOf :: ms
  busySkip :: bool
  dueAfter :: ms

definition wakeAgent ::
    "agent_wake \<Rightarrow> heartbeat_agent \<Rightarrow> (ms \<times> wake_intent) list \<times> heartbeat_agent" where
  "wakeAgent w a =
     (case evaluateWakeDeferral a (timeOf w) (intentOf w) of
        Defer reason \<Rightarrow>
          ([], if reason = NotDue \<or> agentNextDueMs a > timeOf w then a
               else a\<lparr>agentNextDueMs := dueAfter w\<rparr>)
      | RunNow \<Rightarrow>
          if busySkip w then ([], a)
          else ([(timeOf w, intentOf w)],
                (recordRunBookkeeping (timeOf w) a)\<lparr>agentNextDueMs := dueAfter w\<rparr>))"

text \<open>The runs a sequence of wakes starts, in order.\<close>

fun wakeRun :: "agent_wake list \<Rightarrow> heartbeat_agent \<Rightarrow> (ms \<times> wake_intent) list" where
  "wakeRun [] a = []"
| "wakeRun (w # ws) a = (let (starts, a1) = wakeAgent w a in starts @ wakeRun ws a1)"

section \<open>The buffer holds the latest starts\<close>

definition latestStarts :: "ms list \<Rightarrow> ms list" where
  "latestStarts ts = drop (length ts - 6) ts"

lemma recordRunStart_latest: "recordRunStart (latestStarts ts) t 5 = latestStarts (ts @ [t])"
proof -
  have "length ts - (length ts - 6 + 5) + (length ts - 6) = length ts - 5" by simp
  then show ?thesis by (auto simp: recordRunStart_def latestStarts_def Let_def)
qed

text \<open>An agent after it started the runs \<open>ts\<close>.\<close>

definition agentAfter :: "ms list \<Rightarrow> heartbeat_agent \<Rightarrow> bool" where
  "agentAfter ts a \<longleftrightarrow> agentRecentRunStarts a = latestStarts ts \<and>
     agentLastRunStartedAtMs a = (if ts = [] then None else Some (last ts))"

lemma agentAfter_record:
  "agentAfter ts a \<Longrightarrow> agentAfter (ts @ [t]) ((recordRunBookkeeping t a)\<lparr>agentNextDueMs := d\<rparr>)"
  by (simp add: agentAfter_def recordRunBookkeeping_def recordRunStart_latest)

text \<open>In a sorted list the entries inside a window are its last ones.\<close>

lemma takeWhile_rev_sorted:
  "sorted ts \<Longrightarrow> takeWhile (\<lambda>t. \<not> t < w) (rev ts) = rev (filter (\<lambda>t. w \<le> t) ts)"
proof (induction ts rule: rev_induct)
  case Nil
  then show ?case by simp
next
  case (snoc t ts)
  show ?case
  proof (cases "t < w")
    case True
    then have "filter (\<lambda>u. w \<le> u) ts = []"
      using snoc.prems by (auto simp: sorted_append filter_empty_conv)
    then show ?thesis using True by simp
  next
    case False
    then show ?thesis using snoc by (simp add: sorted_append)
  qed
qed

lemma takeWhile_take: "takeWhile P (take n xs) = take n (takeWhile P xs)"
  by (induction xs arbitrary: n) (auto simp: take_Cons split: nat.splits)

lemma startsInWindow_latest:
  assumes "sorted ts"
  shows "startsInWindow w (latestStarts ts) = min 6 (length (filter (\<lambda>t. w \<le> t) ts))"
proof -
  have "rev (latestStarts ts) = take 6 (rev ts)" by (simp add: latestStarts_def take_rev)
  then have "startsInWindow w (latestStarts ts) = length (take 6 (takeWhile (\<lambda>t. \<not> t < w) (rev ts)))"
    by (simp add: startsInWindow_def takeWhile_take)
  then show ?thesis using takeWhile_rev_sorted [OF assms] by simp
qed

section \<open>When a run starts\<close>

lemma flood_iff:
  assumes "agentAfter ts a" "sorted ts" "checkFloodGuard \<lparr>wakeIntent = i, wakeNow = now,
      nextDueMs = d, lastRunStartedAtMs = l, recentRunStarts = Some (agentRecentRunStarts a),
      minSpacingMs = None, floodWindowMs = None, floodThreshold = None\<rparr> = None"
  shows "length (filter (\<lambda>t. now - 60000 \<le> t) ts) < 5"
proof -
  let ?n = "length (filter (\<lambda>t. now - 60000 \<le> t) ts)"
  have "length (latestStarts ts) < 5 \<or> min 6 ?n < 5"
    using assms startsInWindow_latest [OF assms(2), of "now - 60000"]
    by (auto simp: agentAfter_def checkFloodGuard_def Let_def DEFAULT_FLOOD_WINDOW_MS_def
        DEFAULT_FLOOD_THRESHOLD_def split: if_splits)
  moreover have "?n \<le> length ts" by (rule length_filter_le)
  moreover have "length ts < 5" if "length (latestStarts ts) < 5"
    using that by (simp add: latestStarts_def)
  ultimately show ?thesis by linarith
qed

lemma checkFloodGuard_cases: "checkFloodGuard i \<noteq> Some RunNow" "checkFloodGuard i \<noteq> Some (Defer NotDue)"
  "checkFloodGuard i \<noteq> Some (Defer MinSpacing)"
  by (auto simp: checkFloodGuard_def Let_def split: option.splits)

text \<open>What holds of a run that starts after the runs \<open>ts\<close>.\<close>

definition spacedRun :: "ms list \<Rightarrow> ms \<times> wake_intent \<Rightarrow> bool" where
  "spacedRun ts run \<longleftrightarrow> (case run of (t, i) \<Rightarrow>
     (i \<noteq> Manual \<longrightarrow> length (filter (\<lambda>u. t - 60000 \<le> u) ts) < 5) \<and>
     (i = EventWake \<longrightarrow> ts \<noteq> [] \<longrightarrow> 30000 \<le> t - last ts))"

lemma wakeAgent_run:
  assumes "agentAfter ts a" "sorted ts" "wakeAgent w a = (starts, a1)"
  shows "(starts = [] \<and> agentAfter ts a1) \<or>
    (starts = [(timeOf w, intentOf w)] \<and> agentAfter (ts @ [timeOf w]) a1 \<and>
     spacedRun ts (timeOf w, intentOf w))"
proof (cases "evaluateWakeDeferral a (timeOf w) (intentOf w)")
  case (Defer r)
  then show ?thesis using assms by (auto simp: wakeAgent_def agentAfter_def)
next
  case RunNow
  show ?thesis
  proof (cases "busySkip w")
    case True
    then show ?thesis using assms RunNow by (simp add: wakeAgent_def)
  next
    case False
    have "spacedRun ts (timeOf w, intentOf w)"
      using RunNow flood_iff [OF assms(1,2)] assms(1)
      by (auto simp: spacedRun_def checkFloodGuard_cases evaluateWakeDeferral_def shouldDeferWake_def agentAfter_def
          nullish_def Let_def DEFAULT_MIN_WAKE_SPACING_MS_def split: if_splits option.splits)
    then show ?thesis using assms RunNow False agentAfter_record [OF assms(1)]
      by (auto simp: wakeAgent_def)
  qed
qed

lemma wakeRun_spaced:
  assumes "agentAfter ts a" "sorted (ts @ map timeOf ws)" "wakeRun ws a = pre @ run # post"
  shows "spacedRun (ts @ map fst pre) run"
  using assms
proof (induction ws arbitrary: ts a pre)
  case Nil
  then show ?case by simp
next
  case (Cons w ws)
  obtain starts a1 where w: "wakeAgent w a = (starts, a1)" by fastforce
  have sorted: "sorted ts" "sorted ((ts @ [timeOf w]) @ map timeOf ws)" "sorted (ts @ map timeOf ws)"
    using Cons.prems(2) by (auto simp: sorted_append)
  from wakeAgent_run [OF Cons.prems(1) sorted(1) w] show ?case
  proof
    assume "starts = [] \<and> agentAfter ts a1"
    then show ?thesis using Cons.IH [of ts a1 pre] sorted(3) Cons.prems(3) w by simp
  next
    assume ran: "starts = [(timeOf w, intentOf w)] \<and> agentAfter (ts @ [timeOf w]) a1 \<and>
     spacedRun ts (timeOf w, intentOf w)"
    then have list: "pre @ run # post = (timeOf w, intentOf w) # wakeRun ws a1"
      using Cons.prems(3) w by simp
    show ?thesis
    proof (cases pre)
      case Nil
      then show ?thesis using list ran by simp
    next
      case (Cons p pre')
      then show ?thesis using list ran Cons.IH [of "ts @ [timeOf w]" a1 pre'] sorted(2) by auto
    qed
  qed
qed

text \<open>
  A feedback loop of wakes cannot run an agent in a tight loop.  For every sequence of wakes in
  time order, from an agent with no runs yet, a run that was not asked for manually starts only if
  fewer than five runs started in the minute before it, and a run for an external event starts at
  least thirty seconds after the run before it, whatever due times the schedule computes and
  whichever attempts were turned down as busy.
\<close>

theorem heartbeat_runs_are_spaced:
  assumes "agentRecentRunStarts a = []" and "agentLastRunStartedAtMs a = None"
    and "sorted (map timeOf ws)" and "wakeRun ws a = pre @ (t, i) # post"
  shows "(i \<noteq> Manual \<longrightarrow> length (filter (\<lambda>u. t - 60000 \<le> u) (map fst pre)) < 5) \<and>
    (i = EventWake \<longrightarrow> pre \<noteq> [] \<longrightarrow> 30000 \<le> t - fst (last pre))"
proof -
  have "agentAfter [] a" using assms(1,2) by (simp add: agentAfter_def latestStarts_def)
  from wakeRun_spaced [OF this _ assms(4)] assms(3) show ?thesis
    by (simp add: spacedRun_def last_map)
qed

text \<open>
  Deferral never starves an agent.  A wake with no flood in its window runs when it is asked
  for manually or immediately, and otherwise as soon as the run is due and, for external events,
  the spacing to the last run has passed; in particular an immediate wake is not held back by the
  due time, nor a scheduled one by the spacing.
\<close>

theorem due_wake_runs:
  assumes "sorted (agentRecentRunStarts a)"
    and "length (filter (\<lambda>u. now - 60000 \<le> u) (agentRecentRunStarts a)) < 5"
    and "case intent of
           Manual \<Rightarrow> True
         | Immediate \<Rightarrow> True
         | Scheduled \<Rightarrow> agentNextDueMs a \<le> now
         | EventWake \<Rightarrow> agentLastRunStartedAtMs a = None \<or>
             agentNextDueMs a \<le> now \<and> the (agentLastRunStartedAtMs a) + 30000 \<le> now"
  shows "evaluateWakeDeferral a now intent = RunNow"
proof -
  have "startsInWindow (now - 60000) (agentRecentRunStarts a) < 5"
    using assms(1,2) by (simp add: startsInWindow_def takeWhile_rev_sorted)
  then show ?thesis using assms(3)
    by (cases intent) (auto simp: evaluateWakeDeferral_def shouldDeferWake_def checkFloodGuard_def
        nullish_def Let_def DEFAULT_MIN_WAKE_SPACING_MS_def DEFAULT_FLOOD_WINDOW_MS_def
        DEFAULT_FLOOD_THRESHOLD_def split: option.splits)
qed

definition idleAgent :: heartbeat_agent where
  "idleAgent = \<lparr>agentNextDueMs = 100, agentLastRunStartedAtMs = None, agentRecentRunStarts = []\<rparr>"

definition wakeAt :: "wake_intent \<Rightarrow> ms \<Rightarrow> agent_wake" where
  "wakeAt i t = \<lparr>intentOf = i, timeOf = t, busySkip = False, dueAfter = t\<rparr>"

lemmas wake_eval = wakeAgent_def evaluateWakeDeferral_def shouldDeferWake_def checkFloodGuard_def
  recordRunBookkeeping_def recordRunStart_def startsInWindow_def DEFAULT_MIN_WAKE_SPACING_MS_def
  DEFAULT_FLOOD_WINDOW_MS_def DEFAULT_FLOOD_THRESHOLD_def idleAgent_def wakeAt_def

lemma two_event_wakes:
  "wakeRun [wakeAt EventWake 1, wakeAt EventWake 2, wakeAt EventWake 40000] idleAgent =
     [(1, EventWake)] @ (40000, EventWake) # []"
  by (simp add: wake_eval)

theorem heartbeat_runs_are_spaced_witness:
  "30000 \<le> (40000 :: ms) - fst (last [(1 :: ms, EventWake)]) \<and>
   wakeRun [wakeAt EventWake 1, wakeAt EventWake 2, wakeAt EventWake 40000] idleAgent =
     [(1, EventWake)] @ (40000, EventWake) # []"
  using heartbeat_runs_are_spaced [OF _ _ _ two_event_wakes] two_event_wakes
  by (simp add: idleAgent_def wakeAt_def)

theorem due_wake_runs_witness:
  "evaluateWakeDeferral (idleAgent\<lparr>agentLastRunStartedAtMs := Some 50, agentRecentRunStarts := [50]\<rparr>)
     60 Immediate = RunNow"
  by (rule due_wake_runs) (simp_all add: idleAgent_def)

end
