(* ===== verification/HeartbeatWake.thy ===== *)
theory HeartbeatWake
  imports HeartbeatCooldown JsMap JsNumber
begin

text \<open>
  \<open>src/infra/heartbeat-wake.ts\<close>: wake requests are coalesced per target, a timer hands the pending
  ones to the registered handler, and busy or failed wakes are retried.

  The module's variables are the fields of \<open>wake_state\<close>; \<open>timer\<close>, \<open>timerDueAt\<close> and \<open>timerKind\<close>, which
  are set and cleared together, are one optional record with the delay the timer's closure holds.
  The callback of a timer is cut at its \<open>await\<close>: what is left of it is an element of \<open>wakeBatches\<close>,
  which the event \<open>WakeResult\<close> continues when the handler of its first wake has answered.  A batch
  whose handler never answers simply has no such event.  Handlers are numbers, compared as the code
  compares the functions.
\<close>

section \<open>Requests\<close>

datatype wake_source = SourceInterval | SourceManual | SourceExecEvent | SourceNotificationsEvent
  | SourceCron | SourceHook | SourceBackgroundTask | SourceBackgroundTaskBlocked | SourceAcpSpawn
  | SourceSessionState | SourceCliWatchdog | SourceRestartSentinel | SourceRetry | SourceOther

record wake_override =
  overrideTarget :: "string option"
  overrideTo :: "string option"
  overrideAccountId :: "string option"

record wake_request =
  wakeSource :: wake_source
  requestIntent :: wake_intent
  wakeReason :: "string option"
  wakeAgentId :: "string option"
  wakeSessionKey :: "string option"
  wakeHeartbeat :: "wake_override option"

record pending_wake =
  pendingSource :: wake_source
  pendingIntent :: wake_intent
  pendingReason :: string
  pendingPriority :: nat
  pendingRequestedAt :: ms
  pendingAgentId :: "string option"
  pendingSessionKey :: "string option"
  pendingHeartbeat :: "wake_override option"

datatype heartbeat_run_result = HeartbeatRan | HeartbeatSkipped string | HeartbeatFailed string

definition isRetryableHeartbeatBusySkipReason :: "string \<Rightarrow> bool" where
  "isRetryableHeartbeatBusySkipReason reason \<longleftrightarrow>
     reason \<in> {''requests-in-flight'', ''cron-in-progress'', ''lanes-busy''}"

definition normalizeHeartbeatWakeReason :: "string option \<Rightarrow> string" where
  "normalizeHeartbeatWakeReason reason = nullish (normalizeOptionalString reason) ''requested''"

text \<open>The values of \<open>REASON_PRIORITY\<close>.\<close>

definition resolveWakePriority :: "wake_source \<Rightarrow> wake_intent \<Rightarrow> string \<Rightarrow> nat" where
  "resolveWakePriority src intent reason =
     (if intent = Manual \<or> intent = Immediate then 3
      else if src = SourceRetry \<or> reason = ''retry'' then 0
      else if intent = Scheduled \<or> src = SourceInterval \<or> reason = ''interval'' then 1
      else 2)"

definition normalizeWakeTarget :: "string option \<Rightarrow> string option" where
  "normalizeWakeTarget v =
     (let trimmed = nullish (normalizeOptionalString v) []
      in if trimmed = [] then None else Some trimmed)"

definition getWakeTargetKey :: "string option \<Rightarrow> string option \<Rightarrow> string" where
  "getWakeTargetKey agentId sessionKey =
     nullish (normalizeWakeTarget agentId) [] @ ''::'' @ nullish (normalizeWakeTarget sessionKey) []"

definition pendingOf :: "wake_request \<Rightarrow> ms \<Rightarrow> pending_wake" where
  "pendingOf r requestedAt =
     (let reason = normalizeHeartbeatWakeReason (wakeReason r)
      in \<lparr>pendingSource = wakeSource r, pendingIntent = requestIntent r, pendingReason = reason,
          pendingPriority = resolveWakePriority (wakeSource r) (requestIntent r) reason,
          pendingRequestedAt = requestedAt,
          pendingAgentId = normalizeWakeTarget (wakeAgentId r),
          pendingSessionKey = normalizeWakeTarget (wakeSessionKey r),
          pendingHeartbeat = wakeHeartbeat r\<rparr>)"

definition wakeKey :: "pending_wake \<Rightarrow> string" where
  "wakeKey w = getWakeTargetKey (pendingAgentId w) (pendingSessionKey w)"

definition queuePendingWakeReason ::
    "wake_request \<Rightarrow> ms \<Rightarrow> (string, pending_wake) jsmap \<Rightarrow> (string, pending_wake) jsmap" where
  "queuePendingWakeReason r requestedAt m =
     (let nxt = pendingOf r requestedAt;
          k = wakeKey nxt
      in case jm_get m k of
           None \<Rightarrow> jm_set k nxt m
         | Some previous \<Rightarrow>
             let merged = nxt\<lparr>pendingHeartbeat :=
                            orElse (pendingHeartbeat nxt) (pendingHeartbeat previous)\<rparr>
             in if pendingPriority nxt > pendingPriority previous then jm_set k merged m
                else if pendingPriority nxt = pendingPriority previous \<and>
                        pendingRequestedAt nxt \<ge> pendingRequestedAt previous
                then jm_set k merged m
                else m)"

text \<open>The request a busy or failed wake is queued again with; its reason is never absent.\<close>

definition retryRequest :: "pending_wake \<Rightarrow> wake_request" where
  "retryRequest w =
     \<lparr>wakeSource = pendingSource w, requestIntent = pendingIntent w,
      wakeReason = Some (pendingReason w), wakeAgentId = pendingAgentId w,
      wakeSessionKey = pendingSessionKey w, wakeHeartbeat = pendingHeartbeat w\<rparr>"

section \<open>The state and the timer\<close>

datatype wake_timer_kind = NormalTimer | RetryTimer

record wake_timer =
  timerDueAt :: ms
  timerKind :: wake_timer_kind
  timerDelay :: int

record wake_batch =
  batchId :: nat
  batchHandler :: nat
  batchAll :: "pending_wake list"
  batchLeft :: "pending_wake list"
  batchDelay :: int

record wake_state =
  heartbeatsEnabled :: bool
  wakeHandler :: "nat option"
  handlerGeneration :: nat
  pendingWakes :: "(string, pending_wake) jsmap"
  wakeScheduled :: bool
  wakeRunning :: bool
  wakeTimer :: "wake_timer option"
  wakeBatches :: "wake_batch list"
  nextBatch :: nat

definition initialWakeState :: wake_state where
  "initialWakeState =
     \<lparr>heartbeatsEnabled = True, wakeHandler = None, handlerGeneration = 0, pendingWakes = [],
      wakeScheduled = False, wakeRunning = False, wakeTimer = None, wakeBatches = [], nextBatch = 0\<rparr>"

definition DEFAULT_COALESCE_MS :: int where "DEFAULT_COALESCE_MS = 250"
definition DEFAULT_RETRY_MS :: int where "DEFAULT_RETRY_MS = 1000"

definition coalesceDelay :: "js_number \<Rightarrow> int" where
  "coalesceDelay coalesceMs =
     resolveTimerTimeoutMs (Some coalesceMs) (Finite (of_int DEFAULT_COALESCE_MS)) 0"

definition wholeMs :: "int \<Rightarrow> js_number" where
  "wholeMs i = Finite (of_int i)"

definition schedule :: "ms \<Rightarrow> js_number \<Rightarrow> wake_timer_kind \<Rightarrow> wake_state \<Rightarrow> wake_state" where
  "schedule now coalesceMs k s =
     (let delay = coalesceDelay coalesceMs;
          dueAt = now + delay;
          armed = s\<lparr>wakeTimer := Some \<lparr>timerDueAt = dueAt, timerKind = k, timerDelay = delay\<rparr>\<rparr>
      in case wakeTimer s of
           None \<Rightarrow> armed
         | Some t \<Rightarrow>
             if timerKind t = RetryTimer then s
             else if timerDueAt t \<le> dueAt then s
             else armed)"

section \<open>Operations\<close>

definition setHeartbeatsEnabled :: "bool \<Rightarrow> wake_state \<Rightarrow> wake_state" where
  "setHeartbeatsEnabled b s = s\<lparr>heartbeatsEnabled := b\<rparr>"

definition requestHeartbeat ::
    "wake_request \<Rightarrow> js_number option \<Rightarrow> ms \<Rightarrow> wake_state \<Rightarrow> wake_state" where
  "requestHeartbeat r coalesceMs now s =
     schedule now (nullish coalesceMs (wholeMs DEFAULT_COALESCE_MS)) NormalTimer
       (s\<lparr>pendingWakes := queuePendingWakeReason r now (pendingWakes s)\<rparr>)"

text \<open>The \<open>finally\<close> block of a batch.\<close>

definition finishBatch :: "ms \<Rightarrow> int \<Rightarrow> wake_state \<Rightarrow> wake_state" where
  "finishBatch now delay s =
     (let s1 = s\<lparr>wakeRunning := False\<rparr>
      in if length (pendingWakes s1) > 0 \<or> wakeScheduled s1
         then schedule now (wholeMs delay) NormalTimer s1 else s1)"

definition wakeTimerFires :: "ms \<Rightarrow> wake_state \<Rightarrow> wake_state" where
  "wakeTimerFires now s =
     (case wakeTimer s of
        None \<Rightarrow> s
      | Some t \<Rightarrow>
          let s1 = s\<lparr>wakeTimer := None, wakeScheduled := False\<rparr>
          in case wakeHandler s1 of
               None \<Rightarrow> s1
             | Some active \<Rightarrow>
                 if wakeRunning s1
                 then schedule now (wholeMs (timerDelay t)) (timerKind t) (s1\<lparr>wakeScheduled := True\<rparr>)
                 else
                   let pendingBatch = map snd (pendingWakes s1);
                       s2 = s1\<lparr>pendingWakes := [], wakeRunning := True\<rparr>
                   in if pendingBatch = [] then finishBatch now (timerDelay t) s2
                      else s2\<lparr>wakeBatches := wakeBatches s2 @
                               [\<lparr>batchId = nextBatch s2, batchHandler = active,
                                 batchAll = pendingBatch, batchLeft = pendingBatch,
                                 batchDelay = timerDelay t\<rparr>],
                             nextBatch := Suc (nextBatch s2)\<rparr>)"

definition requeueWake :: "ms \<Rightarrow> pending_wake \<Rightarrow> wake_state \<Rightarrow> wake_state" where
  "requeueWake now w s =
     s\<lparr>pendingWakes := queuePendingWakeReason (retryRequest w) now (pendingWakes s)\<rparr>"

definition dropBatch :: "nat \<Rightarrow> wake_state \<Rightarrow> wake_state" where
  "dropBatch b s = s\<lparr>wakeBatches := filter (\<lambda>x. batchId x \<noteq> b) (wakeBatches s)\<rparr>"

definition advanceBatch :: "nat \<Rightarrow> wake_state \<Rightarrow> wake_state" where
  "advanceBatch b s = s\<lparr>wakeBatches := map (\<lambda>x. if batchId x = b
     then x\<lparr>batchLeft := tl (batchLeft x)\<rparr> else x) (wakeBatches s)\<rparr>"

definition isBusySkip :: "heartbeat_run_result \<Rightarrow> bool" where
  "isBusySkip res = (case res of HeartbeatSkipped reason \<Rightarrow> isRetryableHeartbeatBusySkipReason reason
     | _ \<Rightarrow> False)"

text \<open>
  The handler of the first wake left in a batch answers, or (\<open>None\<close>) it or its admission throws.
\<close>

definition wakeResult :: "nat \<Rightarrow> heartbeat_run_result option \<Rightarrow> ms \<Rightarrow> wake_state \<Rightarrow> wake_state" where
  "wakeResult b result now s =
     (case find (\<lambda>x. batchId x = b) (wakeBatches s) of
        None \<Rightarrow> s
      | Some x \<Rightarrow>
          (case (result, batchLeft x) of
             (_, []) \<Rightarrow> s
           | (None, w # rest) \<Rightarrow>
               finishBatch now (batchDelay x)
                 (schedule now (wholeMs DEFAULT_RETRY_MS) RetryTimer
                   (fold (requeueWake now) (batchAll x) (dropBatch b s)))
           | (Some res, w # rest) \<Rightarrow>
               let s1 = (if isBusySkip res
                         then schedule now (wholeMs DEFAULT_RETRY_MS) RetryTimer (requeueWake now w s)
                         else s)
               in if rest = [] then finishBatch now (batchDelay x) (dropBatch b s1)
                  else advanceBatch b s1))"

definition setHeartbeatWakeHandler :: "nat option \<Rightarrow> ms \<Rightarrow> wake_state \<Rightarrow> nat \<times> wake_state" where
  "setHeartbeatWakeHandler nxt now s =
     (let generation = Suc (handlerGeneration s);
          s1 = s\<lparr>handlerGeneration := generation, wakeHandler := nxt\<rparr>;
          s2 = (if nxt \<noteq> None
                then s1\<lparr>wakeTimer := None, wakeRunning := False, wakeScheduled := False\<rparr> else s1);
          s3 = (if nxt \<noteq> None \<and> length (pendingWakes s2) > 0
                then schedule now (wholeMs DEFAULT_COALESCE_MS) NormalTimer s2 else s2)
      in (generation, s3))"

text \<open>The disposer a registration returns.\<close>

definition disposeWakeHandler :: "nat \<Rightarrow> nat option \<Rightarrow> wake_state \<Rightarrow> wake_state" where
  "disposeWakeHandler generation nxt s =
     (if handlerGeneration s \<noteq> generation then s
      else if wakeHandler s \<noteq> nxt then s
      else s\<lparr>handlerGeneration := Suc (handlerGeneration s), wakeHandler := None\<rparr>)"

section \<open>Runs\<close>

datatype wake_event =
    RequestHeartbeat wake_request "js_number option" ms
  | WakeTimerFires ms
  | WakeResult nat "heartbeat_run_result option" ms
  | SetWakeHandler "nat option" ms
  | DisposeWakeHandler nat "nat option"
  | SetHeartbeatsEnabled bool

fun wakeStep :: "wake_event \<Rightarrow> wake_state \<Rightarrow> wake_state" where
  "wakeStep (RequestHeartbeat r c now) s = requestHeartbeat r c now s"
| "wakeStep (WakeTimerFires now) s = wakeTimerFires now s"
| "wakeStep (WakeResult b res now) s = wakeResult b res now s"
| "wakeStep (SetWakeHandler h now) s = snd (setHeartbeatWakeHandler h now s)"
| "wakeStep (DisposeWakeHandler g h) s = disposeWakeHandler g h s"
| "wakeStep (SetHeartbeatsEnabled b) s = setHeartbeatsEnabled b s"

definition wakesRun :: "wake_event list \<Rightarrow> wake_state \<Rightarrow> wake_state" where
  "wakesRun es s = fold wakeStep es s"

inductive wakeReachable :: "wake_state \<Rightarrow> bool" where
  initial: "wakeReachable initialWakeState"
| step: "wakeReachable s \<Longrightarrow> wakeReachable (wakeStep e s)"

end
