(* ===== verification/HeartbeatWakeProofs.thy ===== *)
theory HeartbeatWakeProofs
  imports HeartbeatWake "HOL-Library.Sublist"
begin

text \<open>
  The wake queue of \<open>HeartbeatWake\<close>: no wake is lost, the most urgent request of a target wins,
  batches exclude each other unless a handler is replaced under a running one, and what a retry does
  to the requests around it.
\<close>

section \<open>Targets\<close>

lemma normalizeOptionalString_idem:
  "normalizeOptionalString (normalizeOptionalString v) = normalizeOptionalString v"
  using normalizeOptionalString_Some [of v]
  by (cases "normalizeOptionalString v") (auto simp: normalizeOptionalString_def Let_def)

lemma normalizeWakeTarget_eq [simp]: "normalizeWakeTarget v = normalizeOptionalString v"
  using normalizeOptionalString_Some [of v]
  by (cases "normalizeOptionalString v") (auto simp: normalizeWakeTarget_def Let_def)

lemma wakeKey_pendingOf:
  "wakeKey (pendingOf r t) = getWakeTargetKey (wakeAgentId r) (wakeSessionKey r)"
  by (simp add: wakeKey_def pendingOf_def getWakeTargetKey_def Let_def normalizeOptionalString_idem)

lemma wakeKey_heartbeat [simp]: "wakeKey (w\<lparr>pendingHeartbeat := h\<rparr>) = wakeKey w"
  by (simp add: wakeKey_def)

text \<open>What is pending or being delivered is normalized already.\<close>

definition normalWake :: "pending_wake \<Rightarrow> bool" where
  "normalWake w \<longleftrightarrow> (\<exists>r t h. w = (pendingOf r t)\<lparr>pendingHeartbeat := h\<rparr>)"

lemma normalWake_pendingOf [simp]:
  "normalWake (pendingOf r t)" "normalWake ((pendingOf r t)\<lparr>pendingHeartbeat := h\<rparr>)"
proof -
  have "pendingOf r t = (pendingOf r t)\<lparr>pendingHeartbeat := pendingHeartbeat (pendingOf r t)\<rparr>" by simp
  then show "normalWake (pendingOf r t)" unfolding normalWake_def by blast
  show "normalWake ((pendingOf r t)\<lparr>pendingHeartbeat := h\<rparr>)" unfolding normalWake_def by blast
qed

lemma reason_idem:
  "normalizeHeartbeatWakeReason (Some (normalizeHeartbeatWakeReason v)) = normalizeHeartbeatWakeReason v"
proof (cases "normalizeOptionalString v")
  case None
  have "js_trim ''requested'' = ''requested''" by (rule js_trim_id) (simp add: js_space_def)
  then show ?thesis
    using None by (simp add: normalizeHeartbeatWakeReason_def normalizeOptionalString_def Let_def)
next
  case (Some t)
  then have "normalizeOptionalString (Some t) = Some t"
    using normalizeOptionalString_Some [OF Some] by (simp add: normalizeOptionalString_def Let_def)
  with Some show ?thesis by (simp add: normalizeHeartbeatWakeReason_def)
qed

text \<open>A retried wake is the wake it was, with the time of the retry.\<close>

lemma retry_same:
  assumes "normalWake w"
  shows "pendingOf (retryRequest w) now = w\<lparr>pendingRequestedAt := now\<rparr>"
proof -
  obtain r t h where w: "w = (pendingOf r t)\<lparr>pendingHeartbeat := h\<rparr>"
    using assms by (auto simp: normalWake_def)
  show ?thesis
    by (simp add: w pendingOf_def retryRequest_def Let_def reason_idem normalizeOptionalString_idem)
qed

lemma retry_key: "wakeKey (pendingOf (retryRequest w) now) = wakeKey w"
  by (simp add: wakeKey_pendingOf retryRequest_def) (simp add: wakeKey_def)

section \<open>Queueing\<close>

lemma queue_get_other:
  "k \<noteq> wakeKey (pendingOf r t) \<Longrightarrow> jm_get (queuePendingWakeReason r t m) k = jm_get m k"
  by (auto simp: queuePendingWakeReason_def Let_def jm.get_put split: option.splits)

lemma queue_get_same:
  "jm_get (queuePendingWakeReason r t m) (wakeKey (pendingOf r t)) =
     (case jm_get m (wakeKey (pendingOf r t)) of
        None \<Rightarrow> Some (pendingOf r t)
      | Some p \<Rightarrow>
          if pendingPriority p < pendingPriority (pendingOf r t) \<or>
             (pendingPriority (pendingOf r t) = pendingPriority p \<and> pendingRequestedAt p \<le> t)
          then Some ((pendingOf r t)\<lparr>pendingHeartbeat :=
                 orElse (pendingHeartbeat (pendingOf r t)) (pendingHeartbeat p)\<rparr>)
          else Some p)"
  by (auto simp: queuePendingWakeReason_def Let_def jm.get_put pendingOf_def split: option.splits)

lemma queue_keeps: "jm_get m k \<noteq> None \<Longrightarrow> jm_get (queuePendingWakeReason r t m) k \<noteq> None"
  by (cases "k = wakeKey (pendingOf r t)")
    (auto simp: queue_get_same queue_get_other split: option.splits)

lemma queue_adds: "jm_get (queuePendingWakeReason r t m) (wakeKey (pendingOf r t)) \<noteq> None"
  by (auto simp: queue_get_same split: option.splits)

text \<open>Every pending wake is normalized and stands under the key of its target.\<close>

definition pendingOk :: "(string, pending_wake) jsmap \<Rightarrow> bool" where
  "pendingOk m \<longleftrightarrow> jm_ok m \<and> (\<forall>k w. jm_get m k = Some w \<longrightarrow> wakeKey w = k \<and> normalWake w)"

lemma queue_pendingOk: "pendingOk m \<Longrightarrow> pendingOk (queuePendingWakeReason r t m)"
proof -
  assume ok: "pendingOk m"
  have "wakeKey w = k \<and> normalWake w"
    if "jm_get (queuePendingWakeReason r t m) k = Some w" for k w
  proof (cases "k = wakeKey (pendingOf r t)")
    case True
    then show ?thesis
      using that ok unfolding True queue_get_same pendingOk_def
      by (auto split: option.splits if_splits)
  next
    case False
    then show ?thesis using that ok by (simp add: queue_get_other pendingOk_def)
  qed
  moreover have "jm_ok (queuePendingWakeReason r t m)"
    using ok by (auto simp: queuePendingWakeReason_def Let_def pendingOk_def jm.ok_put split: option.splits)
  ultimately show ?thesis by (simp add: pendingOk_def)
qed

lemma pendingOk_Nil [simp]: "pendingOk []"
  by (simp add: pendingOk_def)

section \<open>The timer\<close>

lemma schedule_fields [simp]:
  "heartbeatsEnabled (schedule now c k s) = heartbeatsEnabled s"
  "wakeHandler (schedule now c k s) = wakeHandler s"
  "handlerGeneration (schedule now c k s) = handlerGeneration s"
  "pendingWakes (schedule now c k s) = pendingWakes s"
  "wakeScheduled (schedule now c k s) = wakeScheduled s"
  "wakeRunning (schedule now c k s) = wakeRunning s"
  "wakeBatches (schedule now c k s) = wakeBatches s"
  "nextBatch (schedule now c k s) = nextBatch s"
  by (auto simp: schedule_def Let_def split: option.splits)

lemma schedule_armed [simp]:
  "wakeTimer (schedule now c k s) \<noteq> None" "\<exists>t. wakeTimer (schedule now c k s) = Some t"
  by (auto simp: schedule_def Let_def split: option.splits)

text \<open>
  A timer that waits out a retry is never preempted, and any other timer only by an earlier one.
\<close>

lemma schedule_timer:
  "wakeTimer (schedule now c k s) = Some t \<Longrightarrow>
   (case wakeTimer s of
      None \<Rightarrow> timerDueAt t = now + coalesceDelay c
    | Some u \<Rightarrow> if timerKind u = RetryTimer then t = u
        else timerDueAt t = min (timerDueAt u) (now + coalesceDelay c))"
  by (auto simp: schedule_def Let_def min_def split: option.splits if_splits)

lemma finishBatch_fields [simp]:
  "heartbeatsEnabled (finishBatch now d s) = heartbeatsEnabled s"
  "wakeHandler (finishBatch now d s) = wakeHandler s"
  "pendingWakes (finishBatch now d s) = pendingWakes s"
  "wakeBatches (finishBatch now d s) = wakeBatches s"
  "wakeRunning (finishBatch now d s) = False"
  "nextBatch (finishBatch now d s) = nextBatch s"
  by (simp_all add: finishBatch_def Let_def)

lemma finishBatch_armed:
  "pendingWakes s \<noteq> [] \<Longrightarrow> wakeTimer (finishBatch now d s) \<noteq> None"
  by (simp add: finishBatch_def Let_def)

section \<open>Requeueing\<close>

lemma requeue_fields [simp]:
  "heartbeatsEnabled (requeueWake now w s) = heartbeatsEnabled s"
  "wakeHandler (requeueWake now w s) = wakeHandler s"
  "wakeScheduled (requeueWake now w s) = wakeScheduled s"
  "wakeRunning (requeueWake now w s) = wakeRunning s"
  "wakeBatches (requeueWake now w s) = wakeBatches s"
  "nextBatch (requeueWake now w s) = nextBatch s"
  "wakeTimer (requeueWake now w s) = wakeTimer s"
  by (simp_all add: requeueWake_def)

lemma requeue_pendingOk: "pendingOk (pendingWakes s) \<Longrightarrow> pendingOk (pendingWakes (requeueWake now w s))"
  by (simp add: requeueWake_def queue_pendingOk)

lemma requeue_keeps:
  "jm_get (pendingWakes s) k \<noteq> None \<Longrightarrow> jm_get (pendingWakes (requeueWake now w s)) k \<noteq> None"
  by (simp add: requeueWake_def queue_keeps)

lemma requeue_adds: "jm_get (pendingWakes (requeueWake now w s)) (wakeKey w) \<noteq> None"
  using queue_adds [of "retryRequest w" now "pendingWakes s"]
  by (simp add: requeueWake_def retry_key)

lemma fold_requeue_fields [simp]:
  "wakeHandler (fold (requeueWake now) ws s) = wakeHandler s"
  "wakeScheduled (fold (requeueWake now) ws s) = wakeScheduled s"
  "wakeRunning (fold (requeueWake now) ws s) = wakeRunning s"
  "wakeBatches (fold (requeueWake now) ws s) = wakeBatches s"
  "nextBatch (fold (requeueWake now) ws s) = nextBatch s"
  "wakeTimer (fold (requeueWake now) ws s) = wakeTimer s"
  by (induction ws arbitrary: s) simp_all

lemma fold_requeue_pendingOk:
  "pendingOk (pendingWakes s) \<Longrightarrow> pendingOk (pendingWakes (fold (requeueWake now) ws s))"
  by (induction ws arbitrary: s) (simp_all add: requeue_pendingOk)

lemma fold_requeue_keeps:
  "jm_get (pendingWakes s) k \<noteq> None \<Longrightarrow>
   jm_get (pendingWakes (fold (requeueWake now) ws s)) k \<noteq> None"
proof (induction ws arbitrary: s)
  case (Cons w ws)
  then show ?case using Cons.IH [OF requeue_keeps [OF Cons.prems]] by simp
qed simp

lemma fold_requeue_adds:
  "w \<in> set ws \<Longrightarrow> jm_get (pendingWakes (fold (requeueWake now) ws s)) (wakeKey w) \<noteq> None"
proof (induction ws arbitrary: s)
  case (Cons v ws)
  show ?case
  proof (cases "w = v")
    case True
    then show ?thesis using fold_requeue_keeps [OF requeue_adds] by simp
  next
    case False
    then show ?thesis using Cons by simp
  qed
qed simp

section \<open>The invariant\<close>

definition batchOk :: "wake_state \<Rightarrow> wake_batch \<Rightarrow> bool" where
  "batchOk s x \<longleftrightarrow> batchId x < nextBatch s \<and> batchLeft x \<noteq> [] \<and>
     suffix (batchLeft x) (batchAll x) \<and> (\<forall>w \<in> set (batchAll x). normalWake w)"

definition wakeInv :: "wake_state \<Rightarrow> bool" where
  "wakeInv s \<longleftrightarrow> pendingOk (pendingWakes s) \<and>
     (pendingWakes s \<noteq> [] \<longrightarrow> wakeTimer s \<noteq> None \<or> wakeHandler s = None) \<and>
     distinct (map batchId (wakeBatches s)) \<and> (\<forall>x \<in> set (wakeBatches s). batchOk s x)"

lemma pendingOk_values:
  "pendingOk m \<Longrightarrow> w \<in> set (map snd m) \<Longrightarrow> normalWake w \<and> jm_get m (wakeKey w) = Some w"
proof -
  assume ok: "pendingOk m" and "w \<in> set (map snd m)"
  then obtain k where "(k, w) \<in> set m" by auto
  then have "jm_get m k = Some w"
    using ok by (simp add: pendingOk_def jm_ok_def jm_keys_def jm_get_def)
  then show ?thesis using ok unfolding pendingOk_def by metis
qed

lemma pendingOk_key_in_values:
  "pendingOk m \<Longrightarrow> jm_get m k = Some w \<Longrightarrow> w \<in> set (map snd m) \<and> wakeKey w = k"
  by (auto simp: pendingOk_def jm_get_def image_iff dest: map_of_SomeD intro!: bexI [of _ "(k, w)"])

lemma wakeInv_schedule:
  "wakeInv (s\<lparr>wakeTimer := None, wakeHandler := None\<rparr>) \<Longrightarrow> wakeInv (schedule now c k s)"
  by (simp add: wakeInv_def batchOk_def)

lemma inv_forget_timer: "wakeInv s \<Longrightarrow> wakeInv (s\<lparr>wakeTimer := None, wakeHandler := None\<rparr>)"
  by (simp add: wakeInv_def batchOk_def)

lemma wakeInv_finishBatch:
  assumes "wakeInv (s\<lparr>wakeTimer := None, wakeHandler := None\<rparr>)"
  shows "wakeInv (finishBatch now d s)"
  using assms finishBatch_armed [of s now d] by (simp add: wakeInv_def batchOk_def)

lemma wakeInv_dropBatch: "wakeInv s \<Longrightarrow> wakeInv (dropBatch b s)"
  by (auto simp: wakeInv_def batchOk_def dropBatch_def distinct_map inj_on_def)

lemma wakeInv_advanceBatch:
  assumes inv: "wakeInv s" and more: "\<And>x. x \<in> set (wakeBatches s) \<Longrightarrow> batchId x = b \<Longrightarrow> tl (batchLeft x) \<noteq> []"
  shows "wakeInv (advanceBatch b s)"
proof -
  have "map batchId (wakeBatches (advanceBatch b s)) = map batchId (wakeBatches s)"
    by (simp add: advanceBatch_def)
  moreover have "batchOk (advanceBatch b s) y" if y: "y \<in> set (wakeBatches (advanceBatch b s))" for y
  proof -
    obtain x where x: "x \<in> set (wakeBatches s)"
      "y = (if batchId x = b then x\<lparr>batchLeft := tl (batchLeft x)\<rparr> else x)"
      using y by (auto simp: advanceBatch_def)
    moreover have "batchOk s x" using inv x(1) by (simp add: wakeInv_def)
    moreover have "suffix (tl (batchLeft x)) (batchAll x)"
      using \<open>batchOk s x\<close> by (metis batchOk_def suffix_order.trans suffix_tl)
    ultimately show ?thesis using more [OF x(1)] by (auto simp: batchOk_def advanceBatch_def)
  qed
  ultimately show ?thesis using inv by (simp add: wakeInv_def) (simp add: advanceBatch_def)
qed

lemma wakeInv_requeue: "wakeInv (s\<lparr>wakeTimer := None, wakeHandler := None\<rparr>) \<Longrightarrow>
   wakeInv ((requeueWake now w s)\<lparr>wakeTimer := None, wakeHandler := None\<rparr>)"
  by (simp add: wakeInv_def batchOk_def requeue_pendingOk)

lemma wakeInv_fold_requeue: "wakeInv (s\<lparr>wakeTimer := None, wakeHandler := None\<rparr>) \<Longrightarrow>
   wakeInv ((fold (requeueWake now) ws s)\<lparr>wakeTimer := None, wakeHandler := None\<rparr>)"
  by (simp add: wakeInv_def batchOk_def fold_requeue_pendingOk)

lemma find_batch:
  assumes "wakeInv s" and "find (\<lambda>x. batchId x = b) (wakeBatches s) = Some x"
  shows "x \<in> set (wakeBatches s)" "batchId x = b" "batchOk s x"
    "\<And>y. y \<in> set (wakeBatches s) \<Longrightarrow> batchId y = b \<Longrightarrow> y = x"
proof -
  show x: "x \<in> set (wakeBatches s)" "batchId x = b" using find_SomeD [OF assms(2)] by simp_all
  show "batchOk s x" using x assms(1) by (simp add: wakeInv_def)
  show "\<And>y. y \<in> set (wakeBatches s) \<Longrightarrow> batchId y = b \<Longrightarrow> y = x"
    using x assms(1) by (auto simp: wakeInv_def distinct_map inj_on_def)
qed

lemma wakeInv_result:
  assumes inv: "wakeInv s"
  shows "wakeInv (wakeResult b res now s)"
proof (cases "find (\<lambda>x. batchId x = b) (wakeBatches s)")
  case None
  then show ?thesis using inv by (simp add: wakeResult_def)
next
  case (Some x)
  note x = find_batch [OF inv Some]
  have "batchLeft x \<noteq> []" using x(3) by (simp add: batchOk_def)
  then obtain w rest where left: "batchLeft x = w # rest" by (cases "batchLeft x") simp_all
  show ?thesis
  proof (cases res)
    case None
    have "wakeInv (schedule now c k (fold (requeueWake now) (batchAll x) (dropBatch b s)))" for c k
      by (intro wakeInv_schedule wakeInv_fold_requeue inv_forget_timer wakeInv_dropBatch inv)
    then have "wakeInv (finishBatch now (batchDelay x) (schedule now (wholeMs DEFAULT_RETRY_MS) RetryTimer
        (fold (requeueWake now) (batchAll x) (dropBatch b s))))"
      by (intro wakeInv_finishBatch inv_forget_timer)
    then show ?thesis using None Some left by (simp add: wakeResult_def)
  next
    case (Some r)
    define s1 where "s1 = (if isBusySkip r
      then schedule now (wholeMs DEFAULT_RETRY_MS) RetryTimer (requeueWake now w s) else s)"
    have "wakeInv (schedule now (wholeMs DEFAULT_RETRY_MS) RetryTimer (requeueWake now w s))"
      by (intro wakeInv_schedule wakeInv_requeue inv_forget_timer inv)
    then have s1: "wakeInv s1" "wakeBatches s1 = wakeBatches s"
      using inv by (simp_all add: s1_def)
    have "wakeResult b res now s =
        (if rest = [] then finishBatch now (batchDelay x) (dropBatch b s1) else advanceBatch b s1)"
      using Some \<open>find _ _ = Some x\<close> left by (simp add: wakeResult_def s1_def Let_def)
    moreover have "wakeInv (advanceBatch b s1)" if "rest \<noteq> []"
      using that x(4) left by (intro wakeInv_advanceBatch s1(1)) (auto simp: s1(2))
    moreover have "wakeInv (finishBatch now (batchDelay x) (dropBatch b s1))"
      by (intro wakeInv_finishBatch inv_forget_timer wakeInv_dropBatch s1(1))
    ultimately show ?thesis by simp
  qed
qed

lemma wakeInv_fires:
  assumes inv: "wakeInv s"
  shows "wakeInv (wakeTimerFires now s)"
proof (cases "wakeTimer s")
  case None
  then show ?thesis using inv by (simp add: wakeTimerFires_def)
next
  case (Some t)
  let ?s1 = "s\<lparr>wakeTimer := None, wakeScheduled := False\<rparr>"
  show ?thesis
  proof (cases "wakeHandler s")
    case None
    then show ?thesis using inv Some by (simp add: wakeTimerFires_def wakeInv_def batchOk_def)
  next
    case (Some active)
    let ?batch = "map snd (pendingWakes s)"
    let ?s2 = "?s1\<lparr>pendingWakes := [], wakeRunning := True\<rparr>"
    consider (running) "wakeRunning s" | (empty) "\<not> wakeRunning s" "?batch = []"
      | (batch) "\<not> wakeRunning s" "?batch \<noteq> []" by blast
    then show ?thesis
    proof cases
      case running
      then show ?thesis
        using Some \<open>wakeTimer s = Some t\<close> inv
        by (simp add: wakeTimerFires_def wakeInv_schedule wakeInv_def batchOk_def)
    next
      case empty
      then have "wakeTimerFires now s = finishBatch now (timerDelay t) ?s2"
        using Some \<open>wakeTimer s = Some t\<close> by (simp add: wakeTimerFires_def)
      moreover have "wakeInv (?s2\<lparr>wakeTimer := None, wakeHandler := None\<rparr>)"
        using inv by (simp add: wakeInv_def batchOk_def)
      ultimately show ?thesis by (simp only: wakeInv_finishBatch)
    next
      case batch
      have "\<forall>w \<in> set ?batch. normalWake w"
        using inv pendingOk_values [of "pendingWakes s"] by (auto simp: wakeInv_def)
      then show ?thesis
        using Some \<open>wakeTimer s = Some t\<close> inv batch
        by (auto simp: wakeTimerFires_def wakeInv_def batchOk_def less_SucI Let_def)
    qed
  qed
qed

lemma wakeInv_step:
  assumes "wakeInv s"
  shows "wakeInv (wakeStep e s)"
proof (cases e)
  case (RequestHeartbeat r c now)
  have "wakeInv ((s\<lparr>pendingWakes := queuePendingWakeReason r now (pendingWakes s)\<rparr>)
      \<lparr>wakeTimer := None, wakeHandler := None\<rparr>)"
    using assms by (simp add: wakeInv_def batchOk_def queue_pendingOk)
  then show ?thesis using RequestHeartbeat by (simp add: requestHeartbeat_def wakeInv_schedule)
next
  case (SetWakeHandler h now)
  have "wakeInv ((s\<lparr>handlerGeneration := g, wakeHandler := h, wakeTimer := None, wakeRunning := False,
      wakeScheduled := False\<rparr>)\<lparr>wakeTimer := None, wakeHandler := None\<rparr>)" for g
    using assms by (simp add: wakeInv_def batchOk_def)
  then have "wakeInv (schedule now c k (s\<lparr>handlerGeneration := g, wakeHandler := h, wakeTimer := None,
      wakeRunning := False, wakeScheduled := False\<rparr>))" for c k g
    by (rule wakeInv_schedule)
  then show ?thesis
    using SetWakeHandler assms
    by (auto simp: setHeartbeatWakeHandler_def Let_def wakeInv_def batchOk_def)
next
  case (DisposeWakeHandler g h)
  then show ?thesis using assms by (simp add: disposeWakeHandler_def wakeInv_def batchOk_def)
next
  case (SetHeartbeatsEnabled b)
  then show ?thesis using assms by (simp add: setHeartbeatsEnabled_def wakeInv_def batchOk_def)
qed (use assms wakeInv_fires wakeInv_result in auto)

lemma reachable_wakeInv: "wakeReachable s \<Longrightarrow> wakeInv s"
proof (induction rule: wakeReachable.induct)
  case initial
  show ?case by (simp add: initialWakeState_def wakeInv_def)
qed (rule wakeInv_step)

section \<open>No wake is lost\<close>

text \<open>
  A request for target \<open>k\<close> of priority \<open>p\<close>, made when the next batch had number \<open>n\<close>, is owed while a
  wake of at least its priority is pending for the target, or is left in a batch begun after it.
\<close>

definition pendingAt :: "nat \<Rightarrow> string \<Rightarrow> (string, pending_wake) jsmap \<Rightarrow> bool" where
  "pendingAt p k m \<longleftrightarrow> (\<exists>w. jm_get m k = Some w \<and> p \<le> pendingPriority w)"

definition owesWake :: "nat \<Rightarrow> nat \<Rightarrow> string \<Rightarrow> wake_state \<Rightarrow> bool" where
  "owesWake n p k s \<longleftrightarrow> pendingAt p k (pendingWakes s) \<or>
     (\<exists>x \<in> set (wakeBatches s). n \<le> batchId x \<and>
        (\<exists>w \<in> set (batchLeft x). wakeKey w = k \<and> p \<le> pendingPriority w))"

text \<open>
  The batch and the wake an event settles: its handler answered, and not that it was busy.
\<close>

definition wakeHandled :: "wake_state \<Rightarrow> wake_event \<Rightarrow> (wake_batch \<times> pending_wake) option" where
  "wakeHandled s e =
     (case e of
        WakeResult b (Some res) now \<Rightarrow>
          (case find (\<lambda>x. batchId x = b) (wakeBatches s) of
             Some x \<Rightarrow> (case batchLeft x of
                 w # rest \<Rightarrow> if isBusySkip res then None else Some (x, w) | [] \<Rightarrow> None)
           | None \<Rightarrow> None)
      | _ \<Rightarrow> None)"

text \<open>An event settles such a request if it settles a wake of that kind in a batch begun after it.\<close>

definition settlesRequest :: "nat \<Rightarrow> nat \<Rightarrow> string \<Rightarrow> wake_state \<Rightarrow> wake_event \<Rightarrow> bool" where
  "settlesRequest n p k s e =
     (case wakeHandled s e of
        Some (x, w) \<Rightarrow> n \<le> batchId x \<and> wakeKey w = k \<and> p \<le> pendingPriority w
      | None \<Rightarrow> False)"

lemma queue_keeps_urgent:
  "pendingAt p k m \<Longrightarrow> pendingAt p k (queuePendingWakeReason r t m)"
  by (cases "k = wakeKey (pendingOf r t)")
    (auto simp: pendingAt_def queue_get_same queue_get_other split: option.splits)

lemma queue_adds_urgent:
  "pendingAt (pendingPriority (pendingOf r t)) (wakeKey (pendingOf r t)) (queuePendingWakeReason r t m)"
  by (auto simp: pendingAt_def queue_get_same split: option.splits)

lemma requeue_keeps_urgent:
  "pendingAt p k (pendingWakes s) \<Longrightarrow> pendingAt p k (pendingWakes (requeueWake now w s))"
  by (simp add: requeueWake_def queue_keeps_urgent)

lemma requeue_adds_urgent:
  assumes "normalWake w" and "p \<le> pendingPriority w"
  shows "pendingAt p (wakeKey w) (pendingWakes (requeueWake now w s))"
proof -
  have "pendingAt (pendingPriority w) (wakeKey w) (queuePendingWakeReason (retryRequest w) now (pendingWakes s))"
    using queue_adds_urgent [of "retryRequest w" now "pendingWakes s"]
    by (simp add: retry_key) (simp add: retry_same [OF assms(1)])
  then show ?thesis using assms(2) by (auto simp: requeueWake_def pendingAt_def)
qed

lemma fold_requeue_keeps_urgent:
  "pendingAt p k (pendingWakes s) \<Longrightarrow> pendingAt p k (pendingWakes (fold (requeueWake now) ws s))"
  by (induction ws arbitrary: s) (simp_all add: requeue_keeps_urgent)

lemma fold_requeue_adds_urgent:
  "w \<in> set ws \<Longrightarrow> normalWake w \<Longrightarrow> p \<le> pendingPriority w \<Longrightarrow>
   pendingAt p (wakeKey w) (pendingWakes (fold (requeueWake now) ws s))"
  by (induction ws arbitrary: s) (auto simp: requeue_adds_urgent fold_requeue_keeps_urgent)

lemma owesWakeE:
  assumes "owesWake n p k s"
  obtains (pending) "pendingAt p k (pendingWakes s)"
    | (batch) x w where "x \<in> set (wakeBatches s)" "n \<le> batchId x" "w \<in> set (batchLeft x)"
        "wakeKey w = k" "p \<le> pendingPriority w"
  using assms by (auto simp: owesWake_def)

lemma owes_pending: "pendingAt p k (pendingWakes s) \<Longrightarrow> owesWake n p k s"
  by (simp add: owesWake_def)

lemma owes_batch:
  "x \<in> set (wakeBatches s) \<Longrightarrow> n \<le> batchId x \<Longrightarrow> w \<in> set (batchLeft x) \<Longrightarrow> wakeKey w = k \<Longrightarrow>
   p \<le> pendingPriority w \<Longrightarrow> owesWake n p k s"
  by (auto simp: owesWake_def)

lemma owes_schedule [simp]: "owesWake n p k (schedule now c kd s) = owesWake n p k s"
  by (simp add: owesWake_def)

lemma owes_finishBatch [simp]: "owesWake n p k (finishBatch now d s) = owesWake n p k s"
  by (simp add: owesWake_def)

lemma owes_fires:
  assumes inv: "wakeInv s" and owed: "owesWake n p k s" and later: "n \<le> nextBatch s"
  shows "owesWake n p k (wakeTimerFires now s)"
proof (cases "wakeTimer s = None \<or> wakeHandler s = None \<or> wakeRunning s")
  case True
  then show ?thesis
    using owed by (auto simp: wakeTimerFires_def Let_def owesWake_def split: option.splits)
next
  case False
  then obtain t active where t: "wakeTimer s = Some t" "wakeHandler s = Some active" "\<not> wakeRunning s"
    by auto
  show ?thesis
    using owed
  proof (cases rule: owesWakeE)
    case pending
    then obtain w where got: "jm_get (pendingWakes s) k = Some w" "p \<le> pendingPriority w"
      by (auto simp: pendingAt_def)
    then have w: "w \<in> set (map snd (pendingWakes s))" "wakeKey w = k"
      using inv pendingOk_key_in_values [of "pendingWakes s" k w] unfolding wakeInv_def by blast+
    then have some: "map snd (pendingWakes s) \<noteq> []" by auto
    let ?x = "\<lparr>batchId = nextBatch s, batchHandler = active, batchAll = map snd (pendingWakes s),
      batchLeft = map snd (pendingWakes s), batchDelay = timerDelay t\<rparr>"
    have "?x \<in> set (wakeBatches (wakeTimerFires now s))"
      using t some by (simp add: wakeTimerFires_def Let_def)
    then show ?thesis by (rule owes_batch) (use w got(2) later in simp_all)
  next
    case (batch x w)
    have "x \<in> set (wakeBatches (wakeTimerFires now s))"
      using t batch(1) by (simp add: wakeTimerFires_def Let_def)
    then show ?thesis using batch(2-) by (rule owes_batch)
  qed
qed

lemma owes_threw:
  assumes inv: "wakeInv s" and owed: "owesWake n p k s"
    and x: "find (\<lambda>x. batchId x = b) (wakeBatches s) = Some x"
  shows "owesWake n p k (fold (requeueWake now) (batchAll x) (dropBatch b s))"
  using owed
proof (cases rule: owesWakeE)
  case pending
  then have "pendingAt p k (pendingWakes (dropBatch b s))" by (simp add: dropBatch_def)
  then show ?thesis by (intro owes_pending fold_requeue_keeps_urgent)
next
  case (batch y w)
  show ?thesis
  proof (cases "batchId y = b")
    case True
    then have "y = x" using find_batch(4) [OF inv x] batch(1) by simp
    then have "w \<in> set (batchAll x)" "normalWake w"
      using batch(3) find_batch(3) [OF inv x] set_mono_suffix by (auto simp: batchOk_def)
    then show ?thesis using fold_requeue_adds_urgent batch(4,5) by (intro owes_pending) blast
  next
    case False
    then have "y \<in> set (wakeBatches (fold (requeueWake now) (batchAll x) (dropBatch b s)))"
      using batch(1) by (simp add: dropBatch_def)
    then show ?thesis using batch(2-) by (rule owes_batch)
  qed
qed

lemma owes_next:
  assumes inv: "wakeInv s" and owed: "owesWake n p k s"
    and x: "find (\<lambda>x. batchId x = b) (wakeBatches s) = Some x" and left: "batchLeft x = w # rest"
    and t: "wakeBatches t = wakeBatches s"
      "pendingAt p k (pendingWakes s) \<Longrightarrow> pendingAt p k (pendingWakes t)"
    and head: "n \<le> batchId x \<Longrightarrow> wakeKey w = k \<Longrightarrow> p \<le> pendingPriority w \<Longrightarrow>
      pendingAt p k (pendingWakes t)"
  shows "owesWake n p k (if rest = [] then dropBatch b t else advanceBatch b t)"
proof -
  let ?t = "if rest = [] then dropBatch b t else advanceBatch b t"
  have pend: "pendingWakes ?t = pendingWakes t" by (simp add: dropBatch_def advanceBatch_def)
  show ?thesis
    using owed
  proof (cases rule: owesWakeE)
    case pending
    then show ?thesis using t(2) pend by (intro owes_pending) simp
  next
    case (batch y v)
    show ?thesis
    proof (cases "batchId y = b")
      case True
      then have y: "y = x" using find_batch(4) [OF inv x] batch(1) by simp
      show ?thesis
      proof (cases "v \<in> set rest")
        case True
        then have "rest \<noteq> []" by auto
        have "x \<in> set (wakeBatches t)" "batchId x = b" using find_batch(1,2) [OF inv x] t(1) by simp_all
        then have "x\<lparr>batchLeft := tl (batchLeft x)\<rparr> \<in> set (wakeBatches (advanceBatch b t))"
          by (force simp: advanceBatch_def)
        then have "owesWake n p k (advanceBatch b t)"
          by (rule owes_batch) (use batch(2-) y True left in simp_all)
        then show ?thesis using \<open>rest \<noteq> []\<close> by simp
      next
        case False
        then have "v = w" using batch(3) y left by simp
        then show ?thesis using head batch(2-) y pend by (intro owes_pending) simp
      qed
    next
      case False
      then have "y \<in> set (wakeBatches ?t)"
        using batch(1) t(1) by (force simp: dropBatch_def advanceBatch_def)
      then show ?thesis using batch(2-) by (rule owes_batch)
    qed
  qed
qed

lemma owes_result:
  assumes inv: "wakeInv s" and owed: "owesWake n p k s"
    and open_wake: "\<not> settlesRequest n p k s (WakeResult b res now)"
  shows "owesWake n p k (wakeResult b res now s)"
proof (cases "find (\<lambda>x. batchId x = b) (wakeBatches s)")
  case None
  then show ?thesis using owed by (simp add: wakeResult_def)
next
  case (Some x)
  note ok = find_batch(3) [OF inv Some]
  then have "batchLeft x \<noteq> []" by (simp add: batchOk_def)
  then obtain w rest where left: "batchLeft x = w # rest" by (cases "batchLeft x") simp_all
  have "w \<in> set (batchAll x)" using ok left set_mono_suffix by (force simp: batchOk_def)
  then have normal: "normalWake w" using ok by (simp add: batchOk_def)
  show ?thesis
  proof (cases res)
    case None
    then show ?thesis using owes_threw [OF inv owed Some] Some left by (simp add: wakeResult_def)
  next
    case (Some r)
    define s1 where "s1 = (if isBusySkip r
      then schedule now (wholeMs DEFAULT_RETRY_MS) RetryTimer (requeueWake now w s) else s)"
    have "wakeResult b res now s =
        (if rest = [] then finishBatch now (batchDelay x) (dropBatch b s1) else advanceBatch b s1)"
      using Some \<open>find _ _ = Some x\<close> left by (simp add: wakeResult_def s1_def Let_def)
    moreover have "owesWake n p k (if rest = [] then dropBatch b s1 else advanceBatch b s1)"
    proof (rule owes_next [OF inv owed \<open>find _ _ = Some x\<close> left])
      show "wakeBatches s1 = wakeBatches s" by (simp add: s1_def)
      show "pendingAt p k (pendingWakes s) \<Longrightarrow> pendingAt p k (pendingWakes s1)"
        unfolding s1_def using requeue_keeps_urgent by simp
      assume *: "n \<le> batchId x" "wakeKey w = k" "p \<le> pendingPriority w"
      have "isBusySkip r" using open_wake * Some \<open>find _ _ = Some x\<close> left
        by (auto simp: settlesRequest_def wakeHandled_def split: if_splits)
      then show "pendingAt p k (pendingWakes s1)"
        using requeue_adds_urgent [OF normal *(3)] *(2) by (simp add: s1_def)
    qed
    ultimately show ?thesis by (simp split: if_splits)
  qed
qed

lemma nextBatch_step: "nextBatch s \<le> nextBatch (wakeStep e s)"
proof (cases e)
  case (WakeTimerFires now)
  then show ?thesis by (auto simp: wakeTimerFires_def Let_def split: option.splits)
next
  case (WakeResult b res now)
  have "nextBatch (dropBatch b t) = nextBatch t" "nextBatch (advanceBatch b t) = nextBatch t" for t
    by (simp_all add: dropBatch_def advanceBatch_def)
  then show ?thesis using WakeResult
    by (auto simp: wakeResult_def Let_def split: option.splits list.splits)
qed (auto simp: requestHeartbeat_def setHeartbeatWakeHandler_def disposeWakeHandler_def
    setHeartbeatsEnabled_def Let_def)

lemma owes_step:
  assumes "wakeInv s" and "owesWake n p k s" and "n \<le> nextBatch s" and "\<not> settlesRequest n p k s e"
  shows "owesWake n p k (wakeStep e s)"
proof (cases e)
  case (RequestHeartbeat r c now)
  then show ?thesis
    using assms(2) queue_keeps_urgent [of p k "pendingWakes s" r now]
    by (auto simp: requestHeartbeat_def owesWake_def)
next
  case (SetWakeHandler h now)
  then show ?thesis
    using assms(2) by (auto simp: setHeartbeatWakeHandler_def Let_def owesWake_def)
next
  case (DisposeWakeHandler g h)
  then show ?thesis using assms(2) by (simp add: disposeWakeHandler_def owesWake_def)
next
  case (SetHeartbeatsEnabled b)
  then show ?thesis using assms(2) by (simp add: setHeartbeatsEnabled_def owesWake_def)
qed (use assms owes_fires owes_result in auto)

lemma owes_run:
  assumes "wakeInv s" and "owesWake n p k s" and "n \<le> nextBatch s"
    and "\<And>i. i < length es \<Longrightarrow> \<not> settlesRequest n p k (wakesRun (take i es) s) (es ! i)"
  shows "owesWake n p k (wakesRun es s) \<and> wakeInv (wakesRun es s)"
  using assms
proof (induction es arbitrary: s)
  case Nil
  then show ?case by (simp add: wakesRun_def)
next
  case (Cons e es)
  have "\<not> settlesRequest n p k (wakesRun (take i es) (wakeStep e s)) (es ! i)" if "i < length es" for i
    using Cons.prems(4) [of "Suc i"] that by (simp add: wakesRun_def)
  moreover have "\<not> settlesRequest n p k s e" using Cons.prems(4) [of 0] by (simp add: wakesRun_def)
  ultimately show ?case
    using Cons.IH [of "wakeStep e s"] owes_step wakeInv_step Cons.prems(1-3)
      order_trans [OF Cons.prems(3) nextBatch_step [of s e]] by (simp add: wakesRun_def)
qed

lemma running_run:
  "(wakeRunning s \<longrightarrow> wakeBatches s \<noteq> []) \<Longrightarrow>
   wakeRunning (wakeStep e s) \<longrightarrow> wakeBatches (wakeStep e s) \<noteq> []"
proof (cases e)
  case (WakeTimerFires now)
  assume "wakeRunning s \<longrightarrow> wakeBatches s \<noteq> []"
  then show ?thesis using WakeTimerFires
    by (auto simp: wakeTimerFires_def Let_def split: option.splits)
next
  case (WakeResult b res now)
  assume running: "wakeRunning s \<longrightarrow> wakeBatches s \<noteq> []"
  have "wakeBatches (advanceBatch b t) \<noteq> [] \<longleftrightarrow> wakeBatches t \<noteq> []"
    "wakeRunning (advanceBatch b t) = wakeRunning t" for t
    by (simp_all add: advanceBatch_def)
  then show ?thesis using WakeResult running
    by (auto simp: wakeResult_def Let_def split: option.splits list.splits)
qed (auto simp: requestHeartbeat_def setHeartbeatWakeHandler_def disposeWakeHandler_def
    setHeartbeatsEnabled_def Let_def)

lemma reachable_running: "wakeReachable s \<Longrightarrow> wakeRunning s \<longrightarrow> wakeBatches s \<noteq> []"
proof (induction rule: wakeReachable.induct)
  case initial
  show ?case by (simp add: initialWakeState_def)
qed (rule running_run)

lemma reachable_wakesRun: "wakeReachable s \<Longrightarrow> wakeReachable (wakesRun es s)"
  by (induction es arbitrary: s) (auto simp: wakesRun_def intro: wakeReachable.step)

subsection \<open>When the timer is due\<close>

text \<open>The time of an event is at most \<open>T\<close> and the coalescing delay it asks for at most \<open>D\<close>.\<close>

definition occursBy :: "ms \<Rightarrow> int \<Rightarrow> wake_event \<Rightarrow> bool" where
  "occursBy T D e =
     (case e of
        RequestHeartbeat r c now \<Rightarrow>
          now \<le> T \<and> coalesceDelay (nullish c (wholeMs DEFAULT_COALESCE_MS)) \<le> D
      | WakeTimerFires now \<Rightarrow> now \<le> T
      | WakeResult b res now \<Rightarrow> now \<le> T
      | SetWakeHandler h now \<Rightarrow> now \<le> T
      | _ \<Rightarrow> True)"

definition delayWithin :: "int \<Rightarrow> int \<Rightarrow> bool" where
  "delayWithin D d \<longleftrightarrow> 0 \<le> d \<and> d \<le> MAX_TIMER_TIMEOUT_MS \<and> d \<le> D"

definition timerWithin :: "ms \<Rightarrow> int \<Rightarrow> wake_timer \<Rightarrow> bool" where
  "timerWithin T D t \<longleftrightarrow> timerDueAt t \<le> T + timerDelay t \<and> delayWithin D (timerDelay t) \<and>
     (timerKind t = RetryTimer \<longrightarrow> timerDelay t = DEFAULT_RETRY_MS)"

definition timersWithin :: "ms \<Rightarrow> int \<Rightarrow> wake_state \<Rightarrow> bool" where
  "timersWithin T D s \<longleftrightarrow> (\<forall>t. wakeTimer s = Some t \<longrightarrow> timerWithin T D t) \<and>
     (\<forall>x \<in> set (wakeBatches s). delayWithin D (batchDelay x))"

lemma coalesceDelay_whole: "0 \<le> d \<Longrightarrow> d \<le> MAX_TIMER_TIMEOUT_MS \<Longrightarrow> coalesceDelay (wholeMs d) = d"
  by (simp add: coalesceDelay_def wholeMs_def resolveTimerTimeoutMs_def asFiniteNumber_def)

lemma coalesceDelay_range: "0 \<le> coalesceDelay c" "coalesceDelay c \<le> MAX_TIMER_TIMEOUT_MS"
  by (auto simp: coalesceDelay_def resolveTimerTimeoutMs_def MAX_TIMER_TIMEOUT_MS_def Let_def
      split: option.splits)

lemma coalesceDelay_constants [simp]:
  "coalesceDelay (wholeMs DEFAULT_RETRY_MS) = DEFAULT_RETRY_MS"
  "coalesceDelay (wholeMs DEFAULT_COALESCE_MS) = DEFAULT_COALESCE_MS"
  by (simp_all add: coalesceDelay_whole DEFAULT_RETRY_MS_def DEFAULT_COALESCE_MS_def
      MAX_TIMER_TIMEOUT_MS_def)

lemma coalesceDelay_within: "delayWithin D d \<Longrightarrow> coalesceDelay (wholeMs d) = d"
  by (simp add: delayWithin_def coalesceDelay_whole)

lemma within_schedule:
  assumes "timersWithin T D s" and "now \<le> T" and "coalesceDelay c \<le> D"
    and "kd = RetryTimer \<Longrightarrow> coalesceDelay c = DEFAULT_RETRY_MS"
  shows "timersWithin T D (schedule now c kd s)"
proof -
  have armed: "timerWithin T D
      \<lparr>timerDueAt = now + coalesceDelay c, timerKind = kd, timerDelay = coalesceDelay c\<rparr>"
    using assms(2-4) coalesceDelay_range [of c] by (simp add: timerWithin_def delayWithin_def)
  have "timerWithin T D t" if "wakeTimer (schedule now c kd s) = Some t" for t
    using that assms(1) armed
    by (auto simp: schedule_def Let_def timersWithin_def split: option.splits if_splits)
  then show ?thesis using assms(1) by (simp add: timersWithin_def)
qed

lemma within_pending [simp]:
  "timersWithin T D (s\<lparr>pendingWakes := m\<rparr>) = timersWithin T D s"
  "timersWithin T D (s\<lparr>wakeRunning := b\<rparr>) = timersWithin T D s"
  "timersWithin T D (s\<lparr>wakeScheduled := b\<rparr>) = timersWithin T D s"
  "timersWithin T D (s\<lparr>wakeHandler := h\<rparr>) = timersWithin T D s"
  "timersWithin T D (s\<lparr>handlerGeneration := g\<rparr>) = timersWithin T D s"
  "timersWithin T D (s\<lparr>heartbeatsEnabled := b\<rparr>) = timersWithin T D s"
  "timersWithin T D (requeueWake now w s) = timersWithin T D s"
  "timersWithin T D (fold (requeueWake now) ws s) = timersWithin T D s"
  by (simp_all add: timersWithin_def)

lemma within_no_timer: "timersWithin T D s \<Longrightarrow> timersWithin T D (s\<lparr>wakeTimer := None\<rparr>)"
  by (simp add: timersWithin_def)

lemma within_batches:
  "timersWithin T D s \<Longrightarrow> timersWithin T D (dropBatch b s)"
  "timersWithin T D s \<Longrightarrow> timersWithin T D (advanceBatch b s)"
  by (auto simp: timersWithin_def dropBatch_def advanceBatch_def)

lemma within_finishBatch:
  "timersWithin T D s \<Longrightarrow> now \<le> T \<Longrightarrow> delayWithin D d \<Longrightarrow> timersWithin T D (finishBatch now d s)"
  by (auto simp: finishBatch_def Let_def coalesceDelay_within delayWithin_def intro!: within_schedule)

lemma within_fires:
  assumes ok: "timersWithin T D s" and now: "now \<le> T"
  shows "timersWithin T D (wakeTimerFires now s)"
proof (cases "wakeTimer s")
  case (Some t)
  let ?s1 = "s\<lparr>wakeTimer := None, wakeScheduled := False\<rparr>"
  have t: "delayWithin D (timerDelay t)" "timerKind t = RetryTimer \<Longrightarrow> timerDelay t = DEFAULT_RETRY_MS"
    using ok Some by (simp_all add: timersWithin_def timerWithin_def)
  have s1: "timersWithin T D ?s1" using within_no_timer [OF ok] by simp
  have again: "timersWithin T D (schedule now (wholeMs (timerDelay t)) (timerKind t)
      (?s1\<lparr>wakeScheduled := True\<rparr>))"
  proof (rule within_schedule [OF _ now])
    show "timersWithin T D (?s1\<lparr>wakeScheduled := True\<rparr>)" using s1 by (simp only: within_pending)
  qed (use t in \<open>simp_all add: coalesceDelay_within [OF t(1)] delayWithin_def\<close>)
  have finished: "timersWithin T D (finishBatch now (timerDelay t)
      (?s1\<lparr>pendingWakes := [], wakeRunning := True\<rparr>))"
    by (rule within_finishBatch [OF _ now t(1)]) (use s1 in \<open>simp only: within_pending\<close>)
  show ?thesis
    using Some s1 again finished t(1)
    by (auto simp: wakeTimerFires_def Let_def timersWithin_def split: option.splits)
qed (use ok in \<open>simp add: wakeTimerFires_def\<close>)

lemma within_result:
  assumes ok: "timersWithin T D s" and now: "now \<le> T" and D: "DEFAULT_RETRY_MS \<le> D"
  shows "timersWithin T D (wakeResult b res now s)"
proof (cases "find (\<lambda>x. batchId x = b) (wakeBatches s)")
  case (Some x)
  then have x: "delayWithin D (batchDelay x)"
    using ok find_SomeD [OF Some] by (simp add: timersWithin_def)
  note rules = within_finishBatch [OF _ now x] within_schedule [OF _ now] within_batches
  show ?thesis
    using Some ok D
    by (auto simp: wakeResult_def Let_def intro!: rules split: option.splits list.splits)
qed (use ok in \<open>simp add: wakeResult_def\<close>)

lemma within_step:
  assumes ok: "timersWithin T D s" and e: "occursBy T D e" and D: "DEFAULT_RETRY_MS \<le> D"
  shows "timersWithin T D (wakeStep e s)"
proof (cases e)
  case (RequestHeartbeat r c now)
  then show ?thesis using ok e
    by (auto simp: requestHeartbeat_def occursBy_def intro!: within_schedule)
next
  case (SetWakeHandler h now)
  have "DEFAULT_COALESCE_MS \<le> D" using D by (simp add: DEFAULT_COALESCE_MS_def DEFAULT_RETRY_MS_def)
  then show ?thesis using SetWakeHandler ok e
    by (auto simp: setHeartbeatWakeHandler_def Let_def occursBy_def
        intro!: within_schedule within_no_timer)
next
  case (DisposeWakeHandler g h)
  then show ?thesis using ok by (simp add: disposeWakeHandler_def)
next
  case (SetHeartbeatsEnabled b)
  then show ?thesis using ok by (simp add: setHeartbeatsEnabled_def)
qed (use assms within_fires within_result in \<open>auto simp: occursBy_def\<close>)

lemma within_run:
  "timersWithin T D s \<Longrightarrow> \<forall>e \<in> set es. occursBy T D e \<Longrightarrow> DEFAULT_RETRY_MS \<le> D \<Longrightarrow>
   timersWithin T D (wakesRun es s)"
  by (induction es arbitrary: s) (simp_all add: wakesRun_def within_step)

text \<open>Until a timer fires or a handler is registered, a timer is only ever brought forward.\<close>

definition keepsTimer :: "wake_event \<Rightarrow> bool" where
  "keepsTimer e = (case e of WakeTimerFires now \<Rightarrow> False | SetWakeHandler h now \<Rightarrow> h = None | _ \<Rightarrow> True)"

definition dueBy :: "ms \<Rightarrow> wake_state \<Rightarrow> bool" where
  "dueBy d s = (case wakeTimer s of None \<Rightarrow> False | Some t \<Rightarrow> timerKind t = RetryTimer \<or> timerDueAt t \<le> d)"

lemma dueBy_timer: "wakeTimer t = wakeTimer s \<Longrightarrow> dueBy d t = dueBy d s"
  by (simp add: dueBy_def)

lemma dueBy_schedule: "dueBy d s \<Longrightarrow> dueBy d (schedule now c kd s)"
  by (auto simp: dueBy_def schedule_def Let_def split: option.splits)

lemma dueBy_other [simp]:
  "dueBy d (s\<lparr>pendingWakes := m\<rparr>) = dueBy d s"
  "dueBy d (s\<lparr>wakeRunning := b\<rparr>) = dueBy d s"
  "dueBy d (s\<lparr>wakeHandler := h\<rparr>) = dueBy d s"
  "dueBy d (s\<lparr>handlerGeneration := g\<rparr>) = dueBy d s"
  "dueBy d (s\<lparr>heartbeatsEnabled := b\<rparr>) = dueBy d s"
  "dueBy d (requeueWake now w s) = dueBy d s"
  "dueBy d (fold (requeueWake now) ws s) = dueBy d s"
  "dueBy d (dropBatch n s) = dueBy d s"
  "dueBy d (advanceBatch n s) = dueBy d s"
  by (simp_all add: dueBy_def dropBatch_def advanceBatch_def)

lemma dueBy_finishBatch: "dueBy d s \<Longrightarrow> dueBy d (finishBatch now n s)"
  by (simp add: finishBatch_def Let_def dueBy_schedule)

lemma dueBy_step: "dueBy d s \<Longrightarrow> keepsTimer e \<Longrightarrow> dueBy d (wakeStep e s)"
  by (cases e) (auto simp: keepsTimer_def requestHeartbeat_def wakeResult_def setHeartbeatWakeHandler_def
      disposeWakeHandler_def setHeartbeatsEnabled_def Let_def dueBy_schedule dueBy_finishBatch
      split: option.splits list.splits)

lemma dueBy_run: "dueBy d s \<Longrightarrow> \<forall>e \<in> set es. keepsTimer e \<Longrightarrow> dueBy d (wakesRun es s)"
  by (induction es arbitrary: s) (simp_all add: wakesRun_def dueBy_step)

lemma dueBy_request: "dueBy (now + coalesceDelay c) (requestHeartbeat r (Some c) now s)"
  by (auto simp: requestHeartbeat_def dueBy_def schedule_def Let_def split: option.splits)

text \<open>
  C11. No wake is lost.  Once a target's wake has been requested, then until its handler has
  answered, with anything but a busy skip, a wake of the target that is at least as urgent and was
  handed out in a batch begun after the request, such a wake is pending or among what such a batch
  still has to deliver, through coalescing, answers of older batches, busy skips, failed batches and
  replaced handlers.  As long as anything is pending and a handler is registered a timer is armed.
  Whatever timer is armed is due, in any run whose events are all at times up to \<open>T\<close> and ask for
  coalescing delays up to \<open>D\<close>, where \<open>D\<close> is at least the retry delay of one second, by \<open>T + D\<close>, and
  one second after \<open>T\<close> if it waits out a retry; and until a timer fires or a handler is registered a
  timer stays armed that waits out a retry or is due by the time of the request plus its delay.
  The flag that turns timers away is set only while a batch is being delivered.
\<close>

theorem no_wake_is_lost:
  fixes es0 :: "wake_event list" and r :: wake_request and c :: js_number and now :: ms
  defines "k \<equiv> getWakeTargetKey (wakeAgentId r) (wakeSessionKey r)"
    and "p \<equiv> resolveWakePriority (wakeSource r) (requestIntent r) (normalizeHeartbeatWakeReason (wakeReason r))"
    and "s \<equiv> wakesRun es0 initialWakeState"
    and "s1 \<equiv> requestHeartbeat r (Some c) now (wakesRun es0 initialWakeState)"
  assumes "\<And>i. i < length es \<Longrightarrow>
      \<not> settlesRequest (nextBatch s) p k (wakesRun (take i es) s1) (es ! i)"
  assumes "DEFAULT_RETRY_MS \<le> D"
    and "\<And>e. e \<in> set (es0 @ RequestHeartbeat r (Some c) now # es) \<Longrightarrow> occursBy T D e"
  shows "owesWake (nextBatch s) p k (wakesRun es s1) \<and>
    (pendingWakes (wakesRun es s1) \<noteq> [] \<longrightarrow>
       wakeTimer (wakesRun es s1) \<noteq> None \<or> wakeHandler (wakesRun es s1) = None) \<and>
    (\<forall>t. wakeTimer (wakesRun es s1) = Some t \<longrightarrow>
       timerDueAt t \<le> T + (if timerKind t = RetryTimer then DEFAULT_RETRY_MS else D)) \<and>
    ((\<forall>e \<in> set es. keepsTimer e) \<longrightarrow> dueBy (now + coalesceDelay c) (wakesRun es s1)) \<and>
    (wakeRunning (wakesRun es s1) \<longrightarrow> wakeBatches (wakesRun es s1) \<noteq> [])"
proof -
  have s: "wakeReachable s" unfolding s_def by (rule reachable_wakesRun [OF wakeReachable.initial])
  have s1: "wakeReachable s1"
    using wakeReachable.step [OF s, of "RequestHeartbeat r (Some c) now"] by (simp add: s1_def s_def)
  have prio: "pendingPriority (pendingOf r now) = p" by (simp add: pendingOf_def p_def Let_def)
  have "pendingAt p k (pendingWakes s1)"
    using queue_adds_urgent [of r now "pendingWakes s"] prio
    by (simp add: s1_def s_def k_def requestHeartbeat_def wakeKey_pendingOf)
  moreover have "nextBatch s1 = nextBatch s" by (simp add: s1_def s_def requestHeartbeat_def)
  ultimately have run: "owesWake (nextBatch s) p k (wakesRun es s1)" "wakeInv (wakesRun es s1)"
    using owes_run [OF reachable_wakeInv [OF s1] owes_pending _ assms(5)] by simp_all
  have "timersWithin T D (wakesRun (es0 @ RequestHeartbeat r (Some c) now # es) initialWakeState)"
    using assms(6,7) by (intro within_run) (auto simp: timersWithin_def initialWakeState_def)
  then have "timersWithin T D (wakesRun es s1)" by (simp add: wakesRun_def s1_def)
  then have "timerDueAt t \<le> T + (if timerKind t = RetryTimer then DEFAULT_RETRY_MS else D)"
    if "wakeTimer (wakesRun es s1) = Some t" for t
    using that by (auto simp: timersWithin_def timerWithin_def delayWithin_def)
  then show ?thesis
    using run reachable_running [OF reachable_wakesRun [OF s1]] dueBy_run [OF dueBy_request]
    by (simp add: wakeInv_def s1_def)
qed

section \<open>Sample wakes\<close>

definition sampleWake :: "wake_source \<Rightarrow> wake_intent \<Rightarrow> string \<Rightarrow> string \<Rightarrow> wake_request" where
  "sampleWake src intent reason agent =
     \<lparr>wakeSource = src, requestIntent = intent, wakeReason = Some reason,
      wakeAgentId = Some agent, wakeSessionKey = None, wakeHeartbeat = None\<rparr>"

abbreviation wakeA :: wake_request where
  "wakeA \<equiv> sampleWake SourceHook EventWake ''a'' ''x''"

definition handlerSet :: wake_state where
  "handlerSet = wakeStep (SetWakeHandler (Some 1) 0) initialWakeState"

lemma handlerSet_reachable: "wakeReachable handlerSet"
  unfolding handlerSet_def by (rule wakeReachable.step [OF wakeReachable.initial])

text \<open>
  A wake of the first target is handed out; while its handler works the target is asked for again,
  the old wake is answered, and the new one is skipped as busy.
\<close>

definition olderBatchRun :: "wake_event list" where
  "olderBatchRun =
     [SetWakeHandler (Some 1) 0, RequestHeartbeat wakeA (Some (Finite 250)) 0, WakeTimerFires 250]"

definition newerRequestRun :: "wake_event list" where
  "newerRequestRun =
     [WakeResult 0 (Some HeartbeatRan) 400, WakeTimerFires 550,
      WakeResult 1 (Some (HeartbeatSkipped ''lanes-busy'')) 600]"

abbreviation newerRequestState :: wake_state where
  "newerRequestState \<equiv>
     requestHeartbeat wakeA (Some (Finite 250)) 300 (wakesRun olderBatchRun initialWakeState)"

lemma newer_request_facts:
  "nextBatch (wakesRun olderBatchRun initialWakeState) = 1"
  "getWakeTargetKey (wakeAgentId wakeA) (wakeSessionKey wakeA) = ''x::''"
  "resolveWakePriority (wakeSource wakeA) (requestIntent wakeA)
     (normalizeHeartbeatWakeReason (wakeReason wakeA)) = 2"
  "list_all (\<lambda>i. \<not> settlesRequest 1 2 ''x::'' (wakesRun (take i newerRequestRun) newerRequestState)
     (newerRequestRun ! i)) [0, 1, 2]"
  "list_all (occursBy 600 1000)
     (olderBatchRun @ RequestHeartbeat wakeA (Some (Finite 250)) 300 # newerRequestRun)"
  "map_option pendingReason
     (map_option snd (wakeHandled newerRequestState (newerRequestRun ! 0))) = Some ''a''"
  by code_simp+

lemma no_wake_is_lost_witness:
  "owesWake 1 2 ''x::'' (wakesRun newerRequestRun newerRequestState) \<and>
   map_option timerDueAt (wakeTimer (wakesRun newerRequestRun newerRequestState)) = Some 1600"
proof
  have kept: "\<not> settlesRequest 1 2 ''x::'' (wakesRun (take i newerRequestRun) newerRequestState)
      (newerRequestRun ! i)" if "i < length newerRequestRun" for i
  proof -
    have "i \<in> set [0, 1, 2]" using that by (auto simp: newerRequestRun_def)
    then show ?thesis using newer_request_facts(4) unfolding list_all_iff by blast
  qed
  have times: "occursBy 600 1000 e"
    if "e \<in> set (olderBatchRun @ RequestHeartbeat wakeA (Some (Finite 250)) 300 # newerRequestRun)" for e
    using newer_request_facts(5) that unfolding list_all_iff by blast
  show "owesWake 1 2 ''x::'' (wakesRun newerRequestRun newerRequestState)"
    using no_wake_is_lost [of newerRequestRun olderBatchRun wakeA "Finite 250" 300 1000 600]
      kept times newer_request_facts(1-3) by (simp add: DEFAULT_RETRY_MS_def)
  show "map_option timerDueAt (wakeTimer (wakesRun newerRequestRun newerRequestState)) = Some 1600"
    by code_simp
qed

section \<open>The most urgent request wins\<close>

type_synonym timed_request = "wake_request \<times> js_number \<times> ms"

definition requestEvent :: "timed_request \<Rightarrow> wake_event" where
  "requestEvent q = (case q of (r, c, t) \<Rightarrow> RequestHeartbeat r (Some c) t)"

definition targetOf :: "timed_request \<Rightarrow> string" where
  "targetOf q = (case q of (r, c, t) \<Rightarrow> getWakeTargetKey (wakeAgentId r) (wakeSessionKey r))"

definition priorityOf :: "timed_request \<Rightarrow> nat" where
  "priorityOf q = (case q of (r, c, t) \<Rightarrow> pendingPriority (pendingOf r t))"

definition requestTime :: "timed_request \<Rightarrow> ms" where
  "requestTime q = (case q of (r, c, t) \<Rightarrow> t)"

text \<open>What is pending for a target is the latest of its most urgent requests.\<close>

definition latestMostUrgent :: "timed_request list \<Rightarrow> pending_wake \<Rightarrow> bool" where
  "latestMostUrgent qs w \<longleftrightarrow>
     (\<exists>pre r c t post. qs = pre @ (r, c, t) # post \<and>
        w = (pendingOf r t)\<lparr>pendingHeartbeat := pendingHeartbeat w\<rparr> \<and>
        (\<forall>q \<in> set pre. priorityOf q \<le> priorityOf (r, c, t)) \<and>
        (\<forall>q \<in> set post. priorityOf q < priorityOf (r, c, t)))"

lemma latest_single: "latestMostUrgent [(r, c, t)] (pendingOf r t)"
  unfolding latestMostUrgent_def by (intro exI [of _ "[]"]) auto

lemma latestE:
  assumes "latestMostUrgent qs w"
  obtains pre r c t post where "qs = pre @ (r, c, t) # post"
    "w = (pendingOf r t)\<lparr>pendingHeartbeat := pendingHeartbeat w\<rparr>"
    "pendingPriority w = priorityOf (r, c, t)" "pendingRequestedAt w = t"
    "\<forall>q \<in> set pre. priorityOf q \<le> priorityOf (r, c, t)"
    "\<forall>q \<in> set post. priorityOf q < priorityOf (r, c, t)"
proof -
  obtain pre r c t post where q: "qs = pre @ (r, c, t) # post"
    "w = (pendingOf r t)\<lparr>pendingHeartbeat := pendingHeartbeat w\<rparr>"
    "\<forall>q \<in> set pre. priorityOf q \<le> priorityOf (r, c, t)"
    "\<forall>q \<in> set post. priorityOf q < priorityOf (r, c, t)"
    using assms unfolding latestMostUrgent_def by blast
  have "pendingPriority w = priorityOf (r, c, t)" "pendingRequestedAt w = t"
    using arg_cong [OF q(2), of pendingPriority] arg_cong [OF q(2), of pendingRequestedAt]
    by (simp_all add: priorityOf_def) (simp add: pendingOf_def Let_def)
  with q show ?thesis using that by blast
qed

lemma latest_time: "latestMostUrgent qs w \<Longrightarrow> \<exists>q \<in> set qs. requestTime q = pendingRequestedAt w"
  by (erule latestE) (auto simp: requestTime_def)

lemma latest_max: "latestMostUrgent qs w \<Longrightarrow> q \<in> set qs \<Longrightarrow> priorityOf q \<le> pendingPriority w"
  by (erule latestE) (auto simp: less_imp_le)

lemma latest_replaced:
  assumes "latestMostUrgent qs w" and "pendingPriority w \<le> pendingPriority (pendingOf r t)"
  shows "latestMostUrgent (qs @ [(r, c, t)]) ((pendingOf r t)\<lparr>pendingHeartbeat := h\<rparr>)"
  unfolding latestMostUrgent_def
  using latest_max [OF assms(1)] assms(2)
  by (intro exI [of _ qs]) (auto simp: priorityOf_def intro: order_trans)

lemma latest_kept:
  assumes "latestMostUrgent qs w" and "pendingPriority (pendingOf r t) < pendingPriority w"
  shows "latestMostUrgent (qs @ [(r, c, t)]) w"
  using assms(1)
proof (rule latestE)
  fix pre r' c' t' post
  assume q: "qs = pre @ (r', c', t') # post"
    "w = (pendingOf r' t')\<lparr>pendingHeartbeat := pendingHeartbeat w\<rparr>"
    "pendingPriority w = priorityOf (r', c', t')"
    "\<forall>q \<in> set pre. priorityOf q \<le> priorityOf (r', c', t')"
    "\<forall>q \<in> set post. priorityOf q < priorityOf (r', c', t')"
  then have "qs @ [(r, c, t)] = pre @ (r', c', t') # (post @ [(r, c, t)]) \<and>
      (\<forall>q \<in> set (post @ [(r, c, t)]). priorityOf q < priorityOf (r', c', t'))"
    using assms(2) by (auto simp: priorityOf_def)
  then show ?thesis unfolding latestMostUrgent_def using q(2,4) by blast
qed

lemma wakesRun_snoc: "wakesRun (es @ [e]) s = wakeStep e (wakesRun es s)"
  by (simp add: wakesRun_def)

lemma request_pending: "pendingWakes (wakeStep (RequestHeartbeat r c t) s) =
   queuePendingWakeReason r t (pendingWakes s)"
  by (simp add: requestHeartbeat_def)

lemma coalesced:
  assumes "jm_get (pendingWakes s) k = None" and "sorted (map requestTime qs)"
  shows "if filter (\<lambda>q. targetOf q = k) qs = []
    then jm_get (pendingWakes (wakesRun (map requestEvent qs) s)) k = None
    else \<exists>w. jm_get (pendingWakes (wakesRun (map requestEvent qs) s)) k = Some w \<and>
        latestMostUrgent (filter (\<lambda>q. targetOf q = k) qs) w"
  using assms(2)
proof (induction qs rule: rev_induct)
  case Nil
  then show ?case using assms(1) by (simp add: wakesRun_def)
next
  case (snoc q qs)
  obtain r c t where q: "q = (r, c, t)" by (cases q)
  let ?own = "filter (\<lambda>q. targetOf q = k) qs"
  let ?m = "pendingWakes (wakesRun (map requestEvent qs) s)"
  have m: "pendingWakes (wakesRun (map requestEvent (qs @ [q])) s) = queuePendingWakeReason r t ?m"
    by (simp add: q requestEvent_def wakesRun_snoc request_pending del: wakeStep.simps)
  have rt: "requestTime q = t" by (simp add: q requestTime_def)
  have sorted: "sorted (map requestTime qs)" "\<forall>x \<in> set qs. requestTime x \<le> t"
    using snoc.prems rt by (auto simp: sorted_append)
  show ?case
  proof (cases "targetOf q = k")
    case False
    then have "jm_get (queuePendingWakeReason r t ?m) k = jm_get ?m k"
      by (intro queue_get_other) (simp add: q targetOf_def wakeKey_pendingOf)
    then show ?thesis using snoc.IH sorted(1) False unfolding m by simp
  next
    case True
    then have key: "k = wakeKey (pendingOf r t)" by (simp add: q targetOf_def wakeKey_pendingOf)
    have "\<exists>w. jm_get (queuePendingWakeReason r t ?m) k = Some w \<and> latestMostUrgent (?own @ [q]) w"
    proof (cases ?own)
      case Nil
      then have "jm_get ?m k = None" using snoc.IH sorted(1) by simp
      then show ?thesis using Nil latest_single unfolding key queue_get_same q by simp
    next
      case (Cons x xs)
      then obtain p where p: "jm_get ?m k = Some p" "latestMostUrgent ?own p"
        using snoc.IH sorted(1) by auto
      have "pendingRequestedAt p \<le> t"
        using latest_time [OF p(2)] sorted(2) by auto
      then show ?thesis
        using p(1) latest_replaced [OF p(2), of r t c] latest_kept [OF p(2), of r t c]
        unfolding key queue_get_same q by (auto simp: not_le)
    qed
    then show ?thesis using True unfolding m by simp
  qed
qed

text \<open>
  Coalescing keeps the most urgent request.  Among any requests made one after the other while
  nothing was pending for a target, what is pending for it afterwards is the request of the highest
  priority and, of several, the latest; requests for other targets do not matter.
\<close>

theorem coalescing_keeps_most_urgent:
  assumes "jm_get (pendingWakes s) k = None" and "sorted (map requestTime qs)"
    and "filter (\<lambda>q. targetOf q = k) qs \<noteq> []"
  shows "\<exists>w pre r c t post. jm_get (pendingWakes (wakesRun (map requestEvent qs) s)) k = Some w \<and>
    filter (\<lambda>q. targetOf q = k) qs = pre @ (r, c, t) # post \<and>
    w = (pendingOf r t)\<lparr>pendingHeartbeat := pendingHeartbeat w\<rparr> \<and>
    (\<forall>q \<in> set pre. priorityOf q \<le> priorityOf (r, c, t)) \<and>
    (\<forall>q \<in> set post. priorityOf q < priorityOf (r, c, t))"
  using coalesced [OF assms(1,2)] assms(3)
  by (simp add: latestMostUrgent_def)

lemma two_split: "[a, b] = pre @ x # post \<Longrightarrow> x = a \<or> pre = [a] \<and> x = b"
  by (auto simp: Cons_eq_append_conv)

lemma coalescing_keeps_most_urgent_witness:
  "\<exists>w. jm_get (pendingWakes (wakesRun (map requestEvent
      [(sampleWake SourceManual Manual ''m'' ''x'', Finite 1, 1), (wakeA, Finite 1, 2)]) handlerSet)) ''x::'' = Some w \<and>
     pendingReason w = ''m''"
proof -
  let ?qs = "[(sampleWake SourceManual Manual ''m'' ''x'', Finite 1, 1), (wakeA, Finite 1, 2)]"
  have targets: "targetOf (?qs ! 0) = ''x::''" "targetOf (?qs ! 1) = ''x::''" by code_simp+
  have prio: "priorityOf (?qs ! 0) = 3" "priorityOf (?qs ! 1) = 2" by code_simp+
  have reasons: "pendingReason (pendingOf (sampleWake SourceManual Manual ''m'' ''x'') 1) = ''m''"
    by code_simp
  have own: "filter (\<lambda>q. targetOf q = ''x::'') ?qs = ?qs" using targets by simp
  have none: "jm_get (pendingWakes handlerSet) ''x::'' = None" by code_simp
  have sorted: "sorted (map requestTime ?qs)" by (simp add: requestTime_def)
  have some: "filter (\<lambda>q. targetOf q = ''x::'') ?qs \<noteq> []" unfolding own by simp
  obtain w pre r c t post where w:
    "jm_get (pendingWakes (wakesRun (map requestEvent ?qs) handlerSet)) ''x::'' = Some w"
    "?qs = pre @ (r, c, t) # post" "w = (pendingOf r t)\<lparr>pendingHeartbeat := pendingHeartbeat w\<rparr>"
    "\<forall>q \<in> set pre. priorityOf q \<le> priorityOf (r, c, t)"
    using coalescing_keeps_most_urgent [OF none sorted some] unfolding own by blast
  have "(r, c, t) = ?qs ! 0 \<or> pre = [?qs ! 0] \<and> (r, c, t) = ?qs ! 1"
    using two_split [OF w(2)] by simp
  moreover have "\<not> (pre = [?qs ! 0] \<and> (r, c, t) = ?qs ! 1)"
  proof
    assume "pre = [?qs ! 0] \<and> (r, c, t) = ?qs ! 1"
    then have "priorityOf (?qs ! 0) \<le> priorityOf (?qs ! 1)" using w(4) by (simp only: list.set) blast
    then show False using prio by linarith
  qed
  ultimately have "(r, c, t) = ?qs ! 0" by blast
  then have "w = (pendingOf (sampleWake SourceManual Manual ''m'' ''x'') 1)
      \<lparr>pendingHeartbeat := pendingHeartbeat w\<rparr>" using w(3) by simp
  then have "pendingReason w = pendingReason (pendingOf (sampleWake SourceManual Manual ''m'' ''x'') 1)"
    by (metis (no_types) pending_wake.select_convs(3) pending_wake.surjective pending_wake.update_convs(8))
  then show ?thesis using w(1) reasons by simp
qed

section \<open>One batch at a time\<close>

definition oneBatch :: "wake_state \<Rightarrow> bool" where
  "oneBatch s \<longleftrightarrow> (wakeRunning s \<and> length (wakeBatches s) = 1 \<or> \<not> wakeRunning s \<and> wakeBatches s = [])"

text \<open>No handler is registered while a batch is being delivered.\<close>

fun calmRegistrations :: "wake_event list \<Rightarrow> wake_state \<Rightarrow> bool" where
  "calmRegistrations [] s = True"
| "calmRegistrations (e # es) s =
     ((case e of SetWakeHandler (Some h) now \<Rightarrow> wakeBatches s = [] | _ \<Rightarrow> True) \<and>
      calmRegistrations es (wakeStep e s))"

lemma oneBatch_fires: "oneBatch s \<Longrightarrow> oneBatch (wakeTimerFires now s)"
  by (auto simp: oneBatch_def wakeTimerFires_def Let_def split: option.splits)

lemma oneBatch_result:
  assumes "oneBatch s"
  shows "oneBatch (wakeResult b res now s)"
proof (cases "find (\<lambda>x. batchId x = b) (wakeBatches s)")
  case None
  then show ?thesis using assms by (simp add: wakeResult_def)
next
  case (Some x)
  then have x: "wakeBatches s = [x]" "batchId x = b" "wakeRunning s"
    using assms find_SomeD [OF Some] by (auto simp: oneBatch_def length_Suc_conv)
  have drop: "wakeBatches t = [x] \<Longrightarrow> wakeBatches (dropBatch b t) = []" for t
    using x(2) by (simp add: dropBatch_def)
  have advance: "length (wakeBatches (advanceBatch b t)) = length (wakeBatches t)"
    "wakeRunning (advanceBatch b t) = wakeRunning t" for t
    by (simp_all add: advanceBatch_def)
  show ?thesis
    using Some x(1,3) assms
    by (auto simp: wakeResult_def Let_def oneBatch_def drop advance split: option.splits list.splits)
qed

lemma oneBatch_step:
  assumes "oneBatch s" and "case e of SetWakeHandler (Some h) now \<Rightarrow> wakeBatches s = [] | _ \<Rightarrow> True"
  shows "oneBatch (wakeStep e s)"
proof (cases e)
  case (RequestHeartbeat r c now)
  then show ?thesis using assms(1) by (simp add: requestHeartbeat_def oneBatch_def)
next
  case (SetWakeHandler h now)
  then show ?thesis using assms
    by (cases h) (auto simp: setHeartbeatWakeHandler_def Let_def oneBatch_def)
next
  case (DisposeWakeHandler g h)
  then show ?thesis using assms(1) by (simp add: disposeWakeHandler_def oneBatch_def)
next
  case (SetHeartbeatsEnabled b)
  then show ?thesis using assms(1) by (simp add: setHeartbeatsEnabled_def oneBatch_def)
qed (use assms oneBatch_fires oneBatch_result in auto)

lemma oneBatch_run: "oneBatch s \<Longrightarrow> calmRegistrations es s \<Longrightarrow> oneBatch (wakesRun es s)"
proof (induction es arbitrary: s)
  case (Cons e es)
  then show ?case using oneBatch_step [of s e] by (simp add: wakesRun_def)
qed (simp add: wakesRun_def)

text \<open>
  A handler replaced while its batch is being delivered: the old batch ends during the new
  handler's first one.
\<close>

definition replacedHandlerRun :: "wake_event list" where
  "replacedHandlerRun =
     [SetWakeHandler (Some 1) 0, RequestHeartbeat (sampleWake SourceHook EventWake ''a'' ''x'') None 0,
      WakeTimerFires 250, SetWakeHandler (Some 2) 300,
      RequestHeartbeat (sampleWake SourceHook EventWake ''b'' ''y'') None 300, WakeTimerFires 550,
      WakeResult 0 (Some HeartbeatRan) 600,
      RequestHeartbeat (sampleWake SourceHook EventWake ''c'' ''z'') None 600, WakeTimerFires 850]"

text \<open>
  Batches exclude each other as long as no handler is registered while one is being delivered.
  If one is, they need not: when the old handler's batch ends it clears the flag of the new handler's
  batch, and the new handler is handed a second batch while it works on its first.
\<close>

theorem batches_exclude_each_other:
  "(calmRegistrations es initialWakeState \<longrightarrow>
      length (wakeBatches (wakesRun es initialWakeState)) \<le> 1) \<and>
   map batchHandler (wakeBatches (wakesRun replacedHandlerRun initialWakeState)) = [2, 2]"
proof
  have "oneBatch initialWakeState" by (simp add: oneBatch_def initialWakeState_def)
  then show "calmRegistrations es initialWakeState \<longrightarrow>
      length (wakeBatches (wakesRun es initialWakeState)) \<le> 1"
    using oneBatch_run [of initialWakeState es] by (auto simp: oneBatch_def)
  show "map batchHandler (wakeBatches (wakesRun replacedHandlerRun initialWakeState)) = [2, 2]"
    by code_simp
qed

lemma batches_exclude_each_other_witness:
  "length (wakeBatches (wakesRun (take 3 replacedHandlerRun) initialWakeState)) \<le> 1"
proof -
  have "calmRegistrations (take 3 replacedHandlerRun) initialWakeState" by code_simp
  then show ?thesis using batches_exclude_each_other by blast
qed

section \<open>Retries\<close>

lemma retry_displaces:
  assumes "normalWake w" and "jm_get m (wakeKey w) = Some p"
    and "pendingPriority p = pendingPriority w" and "pendingRequestedAt p \<le> now"
  shows "jm_get (queuePendingWakeReason (retryRequest w) now m) (wakeKey w) =
    Some (w\<lparr>pendingRequestedAt := now, pendingHeartbeat := orElse (pendingHeartbeat w) (pendingHeartbeat p)\<rparr>)"
proof -
  have "wakeKey (w\<lparr>pendingRequestedAt := now\<rparr>) = wakeKey w" by (simp add: wakeKey_def)
  then show ?thesis
    using queue_get_same [of "retryRequest w" now m] assms(2-) by (simp add: retry_same [OF assms(1)])
qed

text \<open>
  A retry repeats and displaces.  When delivering a batch throws, every wake of the batch is
  pending again, those its handler had already answered included; and a wake that is skipped as busy
  replaces a request of the same priority made for its target in the meantime: only the heartbeat
  override of the newer request survives, and only if the retried wake has none.
\<close>

theorem retries_repeat_and_displace:
  assumes "wakeReachable s" and "x \<in> set (wakeBatches s)"
  shows "(\<forall>v \<in> set (batchAll x).
       jm_get (pendingWakes (wakeResult (batchId x) None now s)) (wakeKey v) \<noteq> None) \<and>
    (isBusySkip res \<and> jm_get (pendingWakes s) (wakeKey (hd (batchLeft x))) = Some p \<and>
     pendingPriority p = pendingPriority (hd (batchLeft x)) \<and> pendingRequestedAt p \<le> now \<longrightarrow>
       jm_get (pendingWakes (wakeResult (batchId x) (Some res) now s)) (wakeKey (hd (batchLeft x))) =
         Some ((hd (batchLeft x))\<lparr>pendingRequestedAt := now,
           pendingHeartbeat := orElse (pendingHeartbeat (hd (batchLeft x))) (pendingHeartbeat p)\<rparr>))"
proof -
  have inv: "wakeInv s" by (rule reachable_wakeInv [OF assms(1)])
  have "find (\<lambda>y. batchId y = batchId x) (wakeBatches s) \<noteq> None"
    using assms(2) by (auto simp: find_None_iff)
  then obtain y where "find (\<lambda>y. batchId y = batchId x) (wakeBatches s) = Some y" by blast
  then have find: "find (\<lambda>y. batchId y = batchId x) (wakeBatches s) = Some x"
    using find_batch(4) [OF inv _ assms(2) refl] by simp
  note x = find_batch(3) [OF inv find]
  then have "batchLeft x \<noteq> []" by (simp add: batchOk_def)
  then obtain w rest where left: "batchLeft x = w # rest" by (cases "batchLeft x") simp_all
  have pend: "pendingWakes (dropBatch b t) = pendingWakes t" "pendingWakes (advanceBatch b t) = pendingWakes t"
    for b t by (simp_all add: dropBatch_def advanceBatch_def)
  have "w \<in> set (batchAll x)" using x left set_mono_suffix by (force simp: batchOk_def)
  then have normal: "normalWake w" using x by (simp add: batchOk_def)
  have "jm_get (pendingWakes (wakeResult (batchId x) None now s)) (wakeKey v) \<noteq> None"
    if "v \<in> set (batchAll x)" for v
    using fold_requeue_adds [OF that] find left by (simp add: wakeResult_def)
  moreover have "pendingWakes (wakeResult (batchId x) (Some res) now s) =
      queuePendingWakeReason (retryRequest w) now (pendingWakes s)" if "isBusySkip res"
    using that find left by (simp add: wakeResult_def Let_def pend requeueWake_def)
  ultimately show ?thesis using retry_displaces [OF normal] left by auto
qed

text \<open>Two wakes for one target: the second, newer one gives way to the retry of the first.\<close>

definition busyState :: wake_state where
  "busyState = wakesRun [RequestHeartbeat wakeA None 5, WakeTimerFires 255,
     RequestHeartbeat (sampleWake SourceHook EventWake ''newer'' ''x'') None 260] handlerSet"

lemma retries_repeat_and_displace_witness:
  "map_option pendingReason (jm_get (pendingWakes
     (wakeResult 0 (Some (HeartbeatSkipped ''lanes-busy'')) 300 busyState)) ''x::'') = Some ''a''"
proof -
  let ?w = "(pendingOf wakeA 5)"
  let ?x = "\<lparr>batchId = 0, batchHandler = 1, batchAll = [?w], batchLeft = [?w], batchDelay = 250\<rparr>"
  let ?p = "pendingOf (sampleWake SourceHook EventWake ''newer'' ''x'') 260"
  have eval: "wakeBatches busyState = [?x]" "wakeKey ?w = ''x::''"
    "jm_get (pendingWakes busyState) ''x::'' = Some ?p" "pendingPriority ?p = pendingPriority ?w"
    "pendingRequestedAt ?p \<le> 300" "isBusySkip (HeartbeatSkipped ''lanes-busy'')" "pendingReason ?w = ''a''"
    by code_simp+
  have "wakeReachable busyState"
    unfolding busyState_def by (rule reachable_wakesRun [OF handlerSet_reachable])
  then show ?thesis
    using retries_repeat_and_displace [of busyState ?x 300 "HeartbeatSkipped ''lanes-busy''" ?p] eval by simp
qed

end
