(* ===== verification/SessionKeys.thy ===== *)
theory SessionKeys
  imports Prelude
begin

text \<open>
  Identifiers and session keys: \<open>packages/normalization-core/src/agent-id.ts\<close>,
  \<open>src/routing/account-id.ts\<close>, the key builders of \<open>src/routing/session-key.ts\<close> and the peer-id rule
  of \<open>src/sessions/session-key-utils.ts\<close>.

  The regular expressions are read off as functions on characters.  The memo tables of
  \<open>account-id.ts\<close> only repeat what the functions compute and are left out.
\<close>

section \<open>Agent and account ids\<close>

definition alnumChar :: "char \<Rightarrow> bool" where
  "alnumChar c \<longleftrightarrow> (let n = of_char c :: nat in (48 \<le> n \<and> n \<le> 57) \<or> (97 \<le> n \<and> n \<le> 122))"

text \<open>\<open>[a-z0-9_-]\<close>\<close>

definition idChar :: "char \<Rightarrow> bool" where
  "idChar c \<longleftrightarrow> alnumChar c \<or> c = CHR ''_'' \<or> c = CHR ''-''"

text \<open>\<open>VALID_ID_RE\<close>, which ignores case.\<close>

definition validId :: "string \<Rightarrow> bool" where
  "validId s \<longleftrightarrow>
     (case js_lower s of
        [] \<Rightarrow> False
      | c # cs \<Rightarrow> alnumChar c \<and> list_all idChar cs \<and> length cs \<le> 63)"

text \<open>\<open>replace(INVALID_CHARS_RE, "-")\<close>: every maximal run of invalid characters becomes one dash.\<close>

fun collapseInvalid :: "string \<Rightarrow> bool \<Rightarrow> string" where
  "collapseInvalid [] inRun = []"
| "collapseInvalid (c # cs) inRun =
     (if idChar c then c # collapseInvalid cs False
      else if inRun then collapseInvalid cs True
      else CHR ''-'' # collapseInvalid cs True)"

definition stripDashes :: "string \<Rightarrow> string" where
  "stripDashes s = rev (dropWhile (\<lambda>c. c = CHR ''-'') (rev (dropWhile (\<lambda>c. c = CHR ''-'') s)))"

definition DEFAULT_AGENT_ID :: string where "DEFAULT_AGENT_ID = ''main''"
definition DEFAULT_MAIN_KEY :: string where "DEFAULT_MAIN_KEY = ''main''"
definition DEFAULT_ACCOUNT_ID :: string where "DEFAULT_ACCOUNT_ID = ''default''"

definition orDefault :: "string \<Rightarrow> string \<Rightarrow> string" where
  "orDefault s d = (if s = [] then d else s)"

definition normalizeAgentId :: "string option \<Rightarrow> string" where
  "normalizeAgentId v =
     (let trimmed = js_trim (nullish v [])
      in if trimmed = [] then DEFAULT_AGENT_ID
         else
           let normalized = normalizeLowercaseStringOrEmpty (Some trimmed)
           in if validId trimmed then normalized
              else orDefault (take 64 (stripDashes (collapseInvalid normalized False))) DEFAULT_AGENT_ID)"

definition isValidAgentId :: "string option \<Rightarrow> bool" where
  "isValidAgentId v = (let trimmed = js_trim (nullish v []) in trimmed \<noteq> [] \<and> validId trimmed)"

definition isBlockedObjectKey :: "string \<Rightarrow> bool" where
  "isBlockedObjectKey k \<longleftrightarrow> k \<in> {''__proto__'', ''prototype'', ''constructor''}"

definition canonicalizeAccountId :: "string \<Rightarrow> string" where
  "canonicalizeAccountId v =
     (let normalized = normalizeLowercaseStringOrEmpty (Some v)
      in if validId v then normalized
         else take 64 (stripDashes (collapseInvalid normalized False)))"

definition normalizeCanonicalAccountId :: "string \<Rightarrow> string option" where
  "normalizeCanonicalAccountId v =
     (let canonical = canonicalizeAccountId v
      in if canonical = [] \<or> isBlockedObjectKey canonical then None else Some canonical)"

definition normalizeAccountId :: "string option \<Rightarrow> string" where
  "normalizeAccountId v =
     (let trimmed = js_trim (nullish v [])
      in if trimmed = [] then DEFAULT_ACCOUNT_ID
         else nullish (normalizeCanonicalAccountId trimmed) DEFAULT_ACCOUNT_ID)"

definition normalizeOptionalAccountId :: "string option \<Rightarrow> string option" where
  "normalizeOptionalAccountId v =
     (let trimmed = js_trim (nullish v [])
      in if trimmed = [] then None else normalizeCanonicalAccountId trimmed)"

section \<open>Peers\<close>

datatype chat_type = ChatDirect | ChatGroup | ChatChannel

fun chatTypeName :: "chat_type \<Rightarrow> string" where
  "chatTypeName ChatDirect = ''direct''"
| "chatTypeName ChatGroup = ''group''"
| "chatTypeName ChatChannel = ''channel''"

definition normalizeChatType :: "string option \<Rightarrow> chat_type option" where
  "normalizeChatType raw =
     (let v = normalizeLowercaseStringOrEmpty raw
      in if v = [] then None
         else if v = ''direct'' \<or> v = ''dm'' then Some ChatDirect
         else if v = ''group'' then Some ChatGroup
         else if v = ''channel'' then Some ChatChannel
         else None)"

text \<open>
  Signal groups and Matrix rooms have identifiers whose case matters.  Of a Signal group only the
  segment is kept, of a Matrix room the whole tail.
\<close>

datatype span_kind = SegmentSpan | TailSpan

record case_preserving_peer =
  descChannel :: string
  descPeerKinds :: "string list"
  descSpan :: span_kind
  descUnscoped :: bool

definition CASE_PRESERVING_PEERS :: "case_preserving_peer list" where
  "CASE_PRESERVING_PEERS =
     [\<lparr>descChannel = ''signal'', descPeerKinds = [''group''], descSpan = SegmentSpan, descUnscoped = True\<rparr>,
      \<lparr>descChannel = ''matrix'', descPeerKinds = [''channel'', ''group''], descSpan = TailSpan, descUnscoped = True\<rparr>]"

definition findCasePreservingPeerDescriptor ::
    "string option \<Rightarrow> string option \<Rightarrow> case_preserving_peer option" where
  "findCasePreservingPeerDescriptor channel peerKind =
     (let c = normalizeLowercaseStringOrEmpty channel; k = normalizeLowercaseStringOrEmpty peerKind
      in find (\<lambda>d. descChannel d = c \<and> k \<in> set (descPeerKinds d)) CASE_PRESERVING_PEERS)"

definition isCasePreservingPeer :: "string \<Rightarrow> chat_type \<Rightarrow> bool" where
  "isCasePreservingPeer channel k =
     (let c = normalizeLowercaseStringOrEmpty (Some channel);
          kd = normalizeLowercaseStringOrEmpty (Some (chatTypeName k))
      in findCasePreservingPeerDescriptor (Some c) (Some kd) \<noteq> None)"

definition normalizeSessionPeerId :: "string \<Rightarrow> chat_type \<Rightarrow> string option \<Rightarrow> string" where
  "normalizeSessionPeerId channel k peer =
     (let peerId = js_trim (nullish peer [])
      in if peerId = [] then []
         else if isCasePreservingPeer channel k then peerId
         else normalizeLowercaseStringOrEmpty (Some peerId))"

section \<open>Session keys\<close>

datatype dm_scope = ScopeMain | PerPeer | PerChannelPeer | PerAccountChannelPeer

definition colon :: "string list \<Rightarrow> string" where
  "colon parts = js_join '':'' parts"

definition normalizeMainKey :: "string option \<Rightarrow> string" where
  "normalizeMainKey v = orDefault (normalizeLowercaseStringOrEmpty v) DEFAULT_MAIN_KEY"

definition buildAgentMainSessionKey :: "string \<Rightarrow> string option \<Rightarrow> string" where
  "buildAgentMainSessionKey agentId mainKey =
     colon [''agent'', normalizeAgentId (Some agentId), normalizeMainKey mainKey]"

text \<open>The identity links are the entries of the configured object, in order.\<close>

type_synonym identity_links = "(string \<times> string list) list"

definition resolveLinkedPeerId :: "identity_links option \<Rightarrow> string \<Rightarrow> string \<Rightarrow> string option" where
  "resolveLinkedPeerId links channelName peer =
     (case links of
        None \<Rightarrow> None
      | Some ls \<Rightarrow>
          let peerId = js_trim peer
          in if peerId = [] then None
             else
               let raw = normalizeLowercaseStringOrEmpty (Some peerId);
                   channel = normalizeLowercaseStringOrEmpty (Some channelName);
                   scoped = (if channel = [] then []
                             else normalizeLowercaseStringOrEmpty (Some (channel @ '':'' @ peerId)));
                   candidates = filter (\<lambda>c. c \<noteq> []) [raw, scoped]
               in map_option (\<lambda>l. js_trim (fst l))
                    (find (\<lambda>(canonical, ids). js_trim canonical \<noteq> [] \<and>
                       list_ex (\<lambda>i. let n = normalizeLowercaseStringOrEmpty (Some i)
                                    in n \<noteq> [] \<and> n \<in> set candidates) ids) ls))"

record peer_key_params =
  keyAgentId :: string
  keyMainKey :: "string option"
  keyChannel :: string
  keyAccountId :: "string option"
  keyPeerKind :: "chat_type option"
  keyPeerId :: "string option"
  keyIdentityLinks :: "identity_links option"
  keyDmScope :: "dm_scope option"

definition directPeerId :: "peer_key_params \<Rightarrow> dm_scope \<Rightarrow> string" where
  "directPeerId p scope =
     (let peerId = js_trim (nullish (keyPeerId p) []);
          linked = (if scope = ScopeMain then None
                    else resolveLinkedPeerId (keyIdentityLinks p) (keyChannel p) peerId);
          chosen = (case linked of Some l \<Rightarrow> (if l = [] then peerId else l) | None \<Rightarrow> peerId)
      in normalizeLowercaseStringOrEmpty (Some chosen))"

definition buildAgentPeerSessionKey :: "peer_key_params \<Rightarrow> string" where
  "buildAgentPeerSessionKey p =
     (let agent = normalizeAgentId (Some (keyAgentId p));
          channel = orDefault (normalizeLowercaseStringOrEmpty (Some (keyChannel p))) ''unknown'';
          k = nullish (keyPeerKind p) ChatDirect
      in if k = ChatDirect then
           let scope = nullish (keyDmScope p) ScopeMain;
               peerId = directPeerId p scope
           in if scope = PerAccountChannelPeer \<and> peerId \<noteq> []
              then colon [''agent'', agent, channel, normalizeAccountId (keyAccountId p), ''direct'', peerId]
              else if scope = PerChannelPeer \<and> peerId \<noteq> []
              then colon [''agent'', agent, channel, ''direct'', peerId]
              else if scope = PerPeer \<and> peerId \<noteq> []
              then colon [''agent'', agent, ''direct'', peerId]
              else buildAgentMainSessionKey (keyAgentId p) (keyMainKey p)
         else
           let peerId = orDefault (normalizeSessionPeerId (keyChannel p) k (keyPeerId p)) ''unknown''
           in colon [''agent'', agent, channel, chatTypeName k, peerId])"

definition buildGroupHistoryKey :: "string \<Rightarrow> string option \<Rightarrow> chat_type \<Rightarrow> string \<Rightarrow> string" where
  "buildGroupHistoryKey channelName account k peer =
     (let channel = orDefault (normalizeLowercaseStringOrEmpty (Some channelName)) ''unknown'';
          peerId = orDefault (normalizeSessionPeerId channel k (Some peer)) ''unknown''
      in colon [channel, normalizeAccountId account, chatTypeName k, peerId])"

text \<open>A caller's own thread normalizer is the argument \<open>normalizeThread\<close>.\<close>

definition resolveThreadSessionKeys ::
    "string \<Rightarrow> string option \<Rightarrow> string option \<Rightarrow> bool option \<Rightarrow> (string \<Rightarrow> string) option \<Rightarrow>
     string \<times> string option" where
  "resolveThreadSessionKeys base thread parent useSuffix normalizeThread =
     (let threadId = js_trim (nullish thread [])
      in if threadId = [] then (base, None)
         else
           let normalizedThread = (case normalizeThread of
                 Some f \<Rightarrow> f threadId | None \<Rightarrow> normalizeLowercaseStringOrEmpty (Some threadId))
           in (if nullish useSuffix True then base @ '':thread:'' @ normalizedThread else base, parent))"

section \<open>Lemmas on identifiers\<close>

lemma idChar_dash [simp]: "idChar (CHR ''-'')"
  by (simp add: idChar_def)

lemma idChar_lower: "alnumChar c \<Longrightarrow> idChar c"
  by (simp add: idChar_def)

lemma collapse_idChars: "list_all idChar (collapseInvalid s b)"
  by (induction s b rule: collapseInvalid.induct) auto

lemma list_all_take: "list_all P s \<Longrightarrow> list_all P (take n s)"
  by (meson in_set_takeD list_all_iff)

lemma list_all_dropWhile: "list_all P s \<Longrightarrow> list_all P (dropWhile Q s)"
  by (meson list_all_iff set_dropWhileD)

lemma stripDashes_idChars: "list_all idChar s \<Longrightarrow> list_all idChar (stripDashes s)"
  by (simp add: stripDashes_def list_all_dropWhile)

lemma validId_idChars:
  assumes "validId s"
  shows "list_all idChar (js_lower s) \<and> js_lower s \<noteq> []"
  using assms by (auto simp: validId_def idChar_lower split: list.splits)

lemma lower_trimmed:
  assumes "js_trim s = s" and "s \<noteq> []"
  shows "normalizeLowercaseStringOrEmpty (Some s) = js_lower s"
  using assms by (simp add: normalizeLowercaseStringOrEmpty_def normalizeOptionalString_def Let_def)

lemma js_lower_char_cases:
  "js_lower_char c = c \<and> \<not> capitalCode (of_char c) \<or>
   capitalCode (of_char c) \<and> of_char (js_lower_char c) = (of_char c + 32 :: nat)"
  using of_char_js_lower [of c] js_lower_char_id [of c] by auto

lemma js_lower_char_idem: "js_lower_char (js_lower_char c) = js_lower_char c"
  by (rule js_lower_char_id) (auto simp: of_char_js_lower capitalCode_def)

lemma js_space_lower: "js_space (js_lower_char c) = js_space c"
  by (auto simp: js_space_def of_char_js_lower capitalCode_def Let_def)

lemma js_lower_idem: "js_lower (js_lower s) = js_lower s"
  by (simp add: js_lower_def js_lower_char_idem)

lemma js_trim_lower: "js_trim s = s \<Longrightarrow> js_trim (js_lower s) = js_lower s"
  using js_trim_hd [of s] js_trim_last [of s]
  by (cases "s = []") (auto simp: js_lower_def hd_map last_map js_space_lower intro!: js_trim_id)

lemma normalizeLowercase_trim: "normalizeLowercaseStringOrEmpty (Some s) = js_lower (js_trim s)"
  by (simp add: normalizeLowercaseStringOrEmpty_def normalizeOptionalString_def nullish_def js_lower_def Let_def)

lemma normalizeLowercase_idem:
  "normalizeLowercaseStringOrEmpty (Some (normalizeLowercaseStringOrEmpty v)) = normalizeLowercaseStringOrEmpty v"
proof (cases v)
  case (Some s)
  then show ?thesis by (simp add: normalizeLowercase_trim js_trim_lower js_lower_idem)
qed (simp add: normalizeLowercaseStringOrEmpty_def normalizeOptionalString_def nullish_def)

lemma normalizeLowercase_empty: "normalizeLowercaseStringOrEmpty (Some s) = [] \<longleftrightarrow> js_trim s = []"
  by (simp add: normalizeLowercase_trim js_lower_def)

lemma main_trim: "js_trim ''main'' = ''main''" "js_lower ''main'' = ''main''"
  by code_simp+

lemma unknown_trim: "js_trim ''unknown'' = ''unknown''"
  by code_simp

lemma unknown_lower: "normalizeLowercaseStringOrEmpty (Some ''unknown'') = ''unknown''"
  by code_simp

text \<open>Agent and account ids are never empty and only hold \<open>[a-z0-9_-]\<close>.\<close>

lemma normalizeAgentId_chars: "list_all idChar (normalizeAgentId v) \<and> normalizeAgentId v \<noteq> []"
proof -
  have "list_all idChar ''main''" by code_simp
  then show ?thesis
    using validId_idChars [of "js_trim (nullish v [])"]
    by (auto simp: normalizeAgentId_def Let_def DEFAULT_AGENT_ID_def orDefault_def lower_trimmed
        intro!: list_all_take stripDashes_idChars collapse_idChars)
qed

lemma normalizeAccountId_chars:
  "list_all idChar (normalizeAccountId v) \<and> normalizeAccountId v \<noteq> []"
proof -
  have "list_all idChar ''default''" by code_simp
  then show ?thesis
    using validId_idChars [of "js_trim (nullish v [])"]
    by (auto simp: normalizeAccountId_def Let_def DEFAULT_ACCOUNT_ID_def nullish_def
        normalizeCanonicalAccountId_def canonicalizeAccountId_def lower_trimmed
        intro!: list_all_take stripDashes_idChars collapse_idChars split: option.splits if_splits)
qed

end
