(* ===== verification/RouteBindings.thy ===== *)
theory RouteBindings
  imports SessionKeys JsMap
begin

text \<open>
  The bindings of \<open>src/routing/resolve-route.ts\<close>, with \<open>binding-scope.ts\<close>, \<open>peer-kind-match.ts\<close> and the
  agent lookup of \<open>src/agents/agent-scope-config.ts\<close>: what of the configuration decides which agent an
  inbound message belongs to, and the index the resolution looks it up in.
\<close>

section \<open>Configuration and input\<close>

record binding_match =
  matchChannel :: "string option"
  matchAccountId :: "string option"
  matchPeer :: "(string option \<times> js_entry option) option"
  matchGuildId :: "js_entry option"
  matchTeamId :: "js_entry option"
  matchRoles :: "string list option"

record route_binding =
  bindingIsAcp :: bool
  bindingAgentId :: string
  bindingMatch :: binding_match
  bindingDmScope :: "dm_scope option"

record agent_entry =
  entryId :: "string option"
  entryDefault :: bool

record route_config =
  bindingsRef :: nat
  agentsRef :: nat
  sessionRef :: nat
  cfgBindings :: "route_binding list"
  cfgAgents :: "agent_entry list"
  cfgDmScope :: "dm_scope option"
  cfgMainKey :: "string option"
  cfgIdentityLinks :: "identity_links option"

record route_peer =
  peerKind :: chat_type
  peerId :: string

record agent_route_input =
  inputChannel :: string
  inputAccountId :: "string option"
  inputPeer :: "(chat_type \<times> js_entry option) option"
  inputParentPeer :: "(chat_type \<times> js_entry option) option"
  inputGuildId :: "js_entry option"
  inputTeamId :: "js_entry option"
  inputRoleIds :: "string list option"

section \<open>Binding scopes\<close>

definition normalizeRouteBindingId :: "js_entry option \<Rightarrow> string" where
  "normalizeRouteBindingId v = (case v of None \<Rightarrow> [] | Some e \<Rightarrow> js_trim (js_String e))"

definition normalizeRouteBindingRoles :: "string list option \<Rightarrow> string list option" where
  "normalizeRouteBindingRoles v = (case v of None \<Rightarrow> None | Some rs \<Rightarrow> if length rs > 0 then Some rs else None)"

definition scopeIdMatches :: "string option \<Rightarrow> string \<Rightarrow> string \<Rightarrow> bool" where
  "scopeIdMatches constraint exact groupSpace =
     (case constraint of
        None \<Rightarrow> True
      | Some c \<Rightarrow> c = [] \<or> c = exact \<or> c = groupSpace)"

definition hasAnyRouteBindingRole :: "string list \<Rightarrow> string list \<Rightarrow> bool" where
  "hasAnyRouteBindingRole roles memberRoleIds = list_ex (\<lambda>role. role \<in> set memberRoleIds) roles"

definition routeBindingScopeMatches ::
    "string option \<Rightarrow> string option \<Rightarrow> string list option \<Rightarrow> string \<Rightarrow> string \<Rightarrow> string list \<Rightarrow> bool" where
  "routeBindingScopeMatches guild team roles scopeGuild scopeTeam memberRoleIds =
     (let guildId = js_trim scopeGuild; teamId = js_trim scopeTeam; groupSpace = []
      in if \<not> scopeIdMatches guild guildId groupSpace then False
         else if \<not> scopeIdMatches team teamId groupSpace then False
         else case normalizeRouteBindingRoles roles of
                None \<Rightarrow> True
              | Some rs \<Rightarrow> hasAnyRouteBindingRole rs memberRoleIds)"

definition peerKindMatches :: "chat_type \<Rightarrow> chat_type \<Rightarrow> bool" where
  "peerKindMatches bindingKind scopeKind \<longleftrightarrow>
     bindingKind = scopeKind \<or> (bindingKind = ChatGroup \<and> scopeKind = ChatChannel) \<or>
     (bindingKind = ChatChannel \<and> scopeKind = ChatGroup)"

section \<open>Agents\<close>

definition resolveDefaultAgentId :: "route_config \<Rightarrow> string" where
  "resolveDefaultAgentId cfg =
     (case cfgAgents cfg of
        [] \<Rightarrow> DEFAULT_AGENT_ID
      | first # others \<Rightarrow>
          let chosen = nullish (find entryDefault (first # others)) first
          in normalizeAgentId (Some (orDefault (js_trim (nullish (entryId chosen) [])) DEFAULT_AGENT_ID)))"

record agent_lookup =
  byNormalizedId :: "(string, string) jsmap"
  fallbackDefaultAgentId :: string

definition buildAgentLookup :: "route_config \<Rightarrow> agent_lookup" where
  "buildAgentLookup cfg =
     \<lparr>byNormalizedId = fold (\<lambda>agent m.
        let rawId = js_trim (nullish (entryId agent) [])
        in if rawId = [] then m
           else jm_set (normalizeAgentId (Some rawId)) (normalizeAgentId (Some rawId)) m) (cfgAgents cfg) [],
      fallbackDefaultAgentId = normalizeAgentId (Some (resolveDefaultAgentId cfg))\<rparr>"

definition pickFrom :: "agent_lookup \<Rightarrow> string \<Rightarrow> string" where
  "pickFrom lookup agentId =
     (let trimmed = js_trim agentId
      in if trimmed = [] then fallbackDefaultAgentId lookup
         else
           let normalized = normalizeAgentId (Some trimmed)
           in if length (byNormalizedId lookup) = 0 then normalizeAgentId (Some trimmed)
              else case jm_get (byNormalizedId lookup) normalized of
                     Some resolved \<Rightarrow> if resolved = [] then fallbackDefaultAgentId lookup else resolved
                   | None \<Rightarrow> fallbackDefaultAgentId lookup)"

section \<open>Evaluated bindings\<close>

datatype peer_constraint = NoPeer | InvalidPeer | WildcardPeer chat_type | ValidPeer chat_type string

record normalized_match =
  accountPattern :: string
  peerConstraint :: peer_constraint
  guildConstraint :: "string option"
  teamConstraint :: "string option"
  rolesConstraint :: "string list option"

record evaluated_binding =
  evalBinding :: route_binding
  evalMatch :: normalized_match
  evalOrder :: nat

definition normalizePeerConstraint :: "(string option \<times> js_entry option) option \<Rightarrow> peer_constraint" where
  "normalizePeerConstraint peer =
     (case peer of
        None \<Rightarrow> NoPeer
      | Some (k, i) \<Rightarrow>
          let peerIdent = normalizeRouteBindingId i
          in case normalizeChatType k of
               None \<Rightarrow> InvalidPeer
             | Some ct \<Rightarrow>
                 if peerIdent = [] then InvalidPeer
                 else if peerIdent = ''*'' then WildcardPeer ct
                 else ValidPeer ct peerIdent)"

definition orNull :: "string \<Rightarrow> string option" where
  "orNull s = (if s = [] then None else Some s)"

definition normalizeBindingMatch :: "binding_match \<Rightarrow> normalized_match" where
  "normalizeBindingMatch m =
     \<lparr>accountPattern = js_trim (nullish (matchAccountId m) []),
      peerConstraint = normalizePeerConstraint (matchPeer m),
      guildConstraint = orNull (normalizeRouteBindingId (matchGuildId m)),
      teamConstraint = orNull (normalizeRouteBindingId (matchTeamId m)),
      rolesConstraint = normalizeRouteBindingRoles (matchRoles m)\<rparr>"

definition resolveAccountPatternKey :: "string \<Rightarrow> string" where
  "resolveAccountPatternKey pattern =
     (if js_trim pattern = [] then DEFAULT_ACCOUNT_ID else normalizeAccountId (Some pattern))"

text \<open>The bindings of one channel: those of one account each, and those of any account.\<close>

record channel_bindings =
  bucketByAccount :: "(string, evaluated_binding list) jsmap"
  bucketAnyAccount :: "evaluated_binding list"

definition emptyBucket :: channel_bindings where
  "emptyBucket = \<lparr>bucketByAccount = [], bucketAnyAccount = []\<rparr>"

text \<open>Pushing to the list under a key.\<close>

definition pushTo :: "'k \<Rightarrow> 'v \<Rightarrow> ('k, 'v list) jsmap \<Rightarrow> ('k, 'v list) jsmap" where
  "pushTo k v m = jm_set k (nullish (jm_get m k) [] @ [v]) m"

definition listBindings :: "route_config \<Rightarrow> route_binding list" where
  "listBindings cfg = filter (\<lambda>b. \<not> bindingIsAcp b) (cfgBindings cfg)"

definition addBinding ::
    "route_binding \<Rightarrow> nat \<times> (string, channel_bindings) jsmap \<Rightarrow> nat \<times> (string, channel_bindings) jsmap" where
  "addBinding b acc =
     (case acc of (order, byChannel) \<Rightarrow>
        let channel = normalizeLowercaseStringOrEmpty (matchChannel (bindingMatch b))
        in if channel = [] then (order, byChannel)
           else
             let m = normalizeBindingMatch (bindingMatch b);
                 evaluated = \<lparr>evalBinding = b, evalMatch = m, evalOrder = order\<rparr>;
                 bucket = nullish (jm_get byChannel channel) emptyBucket;
                 bucket1 = (if accountPattern m = ''*''
                   then bucket\<lparr>bucketAnyAccount := bucketAnyAccount bucket @ [evaluated]\<rparr>
                   else bucket\<lparr>bucketByAccount :=
                          pushTo (resolveAccountPatternKey (accountPattern m)) evaluated
                            (bucketByAccount bucket)\<rparr>)
             in (Suc order, jm_set channel bucket1 byChannel))"

definition buildEvaluatedBindingsByChannel :: "route_config \<Rightarrow> (string, channel_bindings) jsmap" where
  "buildEvaluatedBindingsByChannel cfg = snd (fold addBinding (listBindings cfg) (0, []))"

fun mergeEvaluatedBindingsInSourceOrder ::
    "evaluated_binding list \<Rightarrow> evaluated_binding list \<Rightarrow> evaluated_binding list" where
  "mergeEvaluatedBindingsInSourceOrder [] anyAccount = anyAccount"
| "mergeEvaluatedBindingsInSourceOrder (a # as) [] = a # as"
| "mergeEvaluatedBindingsInSourceOrder (a # as) (b # bs) =
     (if evalOrder a \<le> evalOrder b then a # mergeEvaluatedBindingsInSourceOrder as (b # bs)
      else b # mergeEvaluatedBindingsInSourceOrder (a # as) bs)"

definition bindingsFrom ::
    "(string, channel_bindings) jsmap \<Rightarrow> string \<Rightarrow> string \<Rightarrow> evaluated_binding list" where
  "bindingsFrom byChannel channel account =
     (case jm_get byChannel channel of
        None \<Rightarrow> mergeEvaluatedBindingsInSourceOrder [] []
      | Some bucket \<Rightarrow> mergeEvaluatedBindingsInSourceOrder
          (nullish (jm_get (bucketByAccount bucket) account) []) (bucketAnyAccount bucket))"

section \<open>The index\<close>

record bindings_index =
  indexPeer :: "(string, evaluated_binding list) jsmap"
  indexPeerWildcard :: "evaluated_binding list"
  indexGuildWithRoles :: "(string, evaluated_binding list) jsmap"
  indexGuild :: "(string, evaluated_binding list) jsmap"
  indexTeam :: "(string, evaluated_binding list) jsmap"
  indexAccount :: "evaluated_binding list"
  indexChannel :: "evaluated_binding list"

definition emptyIndex :: bindings_index where
  "emptyIndex = \<lparr>indexPeer = [], indexPeerWildcard = [], indexGuildWithRoles = [], indexGuild = [],
     indexTeam = [], indexAccount = [], indexChannel = []\<rparr>"

definition peerLookupKeys :: "chat_type \<Rightarrow> string \<Rightarrow> string list" where
  "peerLookupKeys k i =
     (if k = ChatGroup then [''group:'' @ i, ''channel:'' @ i]
      else if k = ChatChannel then [''channel:'' @ i, ''group:'' @ i]
      else [chatTypeName k @ '':'' @ i])"

definition indexBinding :: "evaluated_binding \<Rightarrow> bindings_index \<Rightarrow> bindings_index" where
  "indexBinding b x =
     (case (peerConstraint (evalMatch b), guildConstraint (evalMatch b), teamConstraint (evalMatch b)) of
        (ValidPeer k i, _, _) \<Rightarrow>
          x\<lparr>indexPeer := fold (\<lambda>key m. pushTo key b m) (peerLookupKeys k i) (indexPeer x)\<rparr>
      | (WildcardPeer k, _, _) \<Rightarrow> x\<lparr>indexPeerWildcard := indexPeerWildcard x @ [b]\<rparr>
      | (_, Some guild, _) \<Rightarrow>
          if rolesConstraint (evalMatch b) \<noteq> None
          then x\<lparr>indexGuildWithRoles := pushTo guild b (indexGuildWithRoles x)\<rparr>
          else x\<lparr>indexGuild := pushTo guild b (indexGuild x)\<rparr>
      | (_, None, Some team) \<Rightarrow> x\<lparr>indexTeam := pushTo team b (indexTeam x)\<rparr>
      | (_, None, None) \<Rightarrow>
          if accountPattern (evalMatch b) \<noteq> ''*'' then x\<lparr>indexAccount := indexAccount x @ [b]\<rparr>
          else x\<lparr>indexChannel := indexChannel x @ [b]\<rparr>)"

definition buildEvaluatedBindingsIndex :: "evaluated_binding list \<Rightarrow> bindings_index" where
  "buildEvaluatedBindingsIndex bs = fold indexBinding bs emptyIndex"

text \<open>
  Bindings are distinct objects and told apart by their order.
\<close>

definition collectPeerIndexedBindings ::
    "bindings_index \<Rightarrow> route_peer option \<Rightarrow> evaluated_binding list" where
  "collectPeerIndexedBindings index peer =
     (case peer of
        None \<Rightarrow> []
      | Some p \<Rightarrow>
          fold (\<lambda>key out. fold (\<lambda>b out. if evalOrder b \<in> set (map evalOrder out) then out else out @ [b])
              (nullish (jm_get (indexPeer index) key) []) out)
            (peerLookupKeys (peerKind p) (peerId p)) [])"

end
