(* ===== verification/RouteResolution.thy ===== *)
theory RouteResolution
  imports RouteBindings "HOL-Library.Char_ord" "HOL-Library.List_Lexorder"
begin

text \<open>
  The resolution of \<open>src/routing/resolve-route.ts\<close>: which agent and which session an inbound message
  belongs to.

  One configuration object has three memo tables, kept here in a \<open>route_caches\<close>.  The code tells
  stale tables by the identity of the configuration's sections; a section's identity is a number of
  \<open>route_config\<close>.  Log lines are left out, and with them the mode that turns the route table off.
\<close>

section \<open>Matching\<close>

record binding_scope =
  scopePeer :: "route_peer option"
  scopeGuildId :: string
  scopeTeamId :: string
  scopeRoleIds :: "string list"

definition matchesBindingScope :: "normalized_match \<Rightarrow> binding_scope \<Rightarrow> bool" where
  "matchesBindingScope m s =
     (case peerConstraint m of
        InvalidPeer \<Rightarrow> False
      | ValidPeer k i \<Rightarrow>
          (case scopePeer s of
             None \<Rightarrow> False
           | Some p \<Rightarrow> peerKindMatches k (peerKind p) \<and> peerId p = i \<and>
               routeBindingScopeMatches (guildConstraint m) (teamConstraint m) (rolesConstraint m)
                 (scopeGuildId s) (scopeTeamId s) (scopeRoleIds s))
      | WildcardPeer k \<Rightarrow>
          (case scopePeer s of
             None \<Rightarrow> False
           | Some p \<Rightarrow> peerKindMatches k (peerKind p) \<and>
               routeBindingScopeMatches (guildConstraint m) (teamConstraint m) (rolesConstraint m)
                 (scopeGuildId s) (scopeTeamId s) (scopeRoleIds s))
      | NoPeer \<Rightarrow>
          routeBindingScopeMatches (guildConstraint m) (teamConstraint m) (rolesConstraint m)
            (scopeGuildId s) (scopeTeamId s) (scopeRoleIds s))"

datatype matched_by = ByPeer | ByParentPeer | ByPeerWildcard | ByGuildRoles | ByGuild | ByTeam
  | ByAccount | ByChannel | ByDefault

record route_tier =
  tierName :: matched_by
  tierEnabled :: bool
  tierPeer :: "route_peer option"
  tierCandidates :: "evaluated_binding list"
  tierPredicate :: "evaluated_binding \<Rightarrow> bool"

text \<open>The normalized input.\<close>

record normalized_input =
  niChannel :: string
  niAccountId :: string
  niPeer :: "route_peer option"
  niParentPeer :: "route_peer option"
  niGuildId :: string
  niTeamId :: string
  niRoleIds :: "string list"

definition normalizeInputPeer :: "(chat_type \<times> js_entry option) option \<Rightarrow> route_peer option" where
  "normalizeInputPeer = map_option (\<lambda>(k, i). \<lparr>peerKind = k, peerId = normalizeRouteBindingId i\<rparr>)"

definition normalizeInput :: "agent_route_input \<Rightarrow> normalized_input" where
  "normalizeInput i =
     \<lparr>niChannel = normalizeLowercaseStringOrEmpty (Some (inputChannel i)),
      niAccountId = normalizeAccountId (inputAccountId i),
      niPeer = normalizeInputPeer (inputPeer i), niParentPeer = normalizeInputPeer (inputParentPeer i),
      niGuildId = normalizeRouteBindingId (inputGuildId i),
      niTeamId = normalizeRouteBindingId (inputTeamId i), niRoleIds = nullish (inputRoleIds i) []\<rparr>"

definition usableParent :: "normalized_input \<Rightarrow> route_peer option" where
  "usableParent n = (case niParentPeer n of
     None \<Rightarrow> None | Some p \<Rightarrow> if peerId p = [] then None else Some p)"

definition routeTiers :: "normalized_input \<Rightarrow> bindings_index \<Rightarrow> route_tier list" where
  "routeTiers n index =
     [\<lparr>tierName = ByPeer, tierEnabled = (niPeer n \<noteq> None), tierPeer = niPeer n,
       tierCandidates = collectPeerIndexedBindings index (niPeer n),
       tierPredicate = (\<lambda>c. case peerConstraint (evalMatch c) of ValidPeer k i \<Rightarrow> True | _ \<Rightarrow> False)\<rparr>,
      \<lparr>tierName = ByParentPeer, tierEnabled = (usableParent n \<noteq> None), tierPeer = usableParent n,
       tierCandidates = collectPeerIndexedBindings index (niParentPeer n),
       tierPredicate = (\<lambda>c. case peerConstraint (evalMatch c) of ValidPeer k i \<Rightarrow> True | _ \<Rightarrow> False)\<rparr>,
      \<lparr>tierName = ByPeerWildcard, tierEnabled = (niPeer n \<noteq> None), tierPeer = niPeer n,
       tierCandidates = indexPeerWildcard index,
       tierPredicate = (\<lambda>c. case peerConstraint (evalMatch c) of WildcardPeer k \<Rightarrow> True | _ \<Rightarrow> False)\<rparr>,
      \<lparr>tierName = ByGuildRoles, tierEnabled = (niGuildId n \<noteq> [] \<and> length (niRoleIds n) > 0),
       tierPeer = niPeer n,
       tierCandidates = (if niGuildId n \<noteq> []
         then nullish (jm_get (indexGuildWithRoles index) (niGuildId n)) [] else []),
       tierPredicate = (\<lambda>c. guildConstraint (evalMatch c) \<noteq> None \<and> rolesConstraint (evalMatch c) \<noteq> None)\<rparr>,
      \<lparr>tierName = ByGuild, tierEnabled = (niGuildId n \<noteq> []), tierPeer = niPeer n,
       tierCandidates = (if niGuildId n \<noteq> []
         then nullish (jm_get (indexGuild index) (niGuildId n)) [] else []),
       tierPredicate = (\<lambda>c. guildConstraint (evalMatch c) \<noteq> None \<and> rolesConstraint (evalMatch c) = None)\<rparr>,
      \<lparr>tierName = ByTeam, tierEnabled = (niTeamId n \<noteq> []), tierPeer = niPeer n,
       tierCandidates = (if niTeamId n \<noteq> []
         then nullish (jm_get (indexTeam index) (niTeamId n)) [] else []),
       tierPredicate = (\<lambda>c. teamConstraint (evalMatch c) \<noteq> None)\<rparr>,
      \<lparr>tierName = ByAccount, tierEnabled = True, tierPeer = niPeer n,
       tierCandidates = indexAccount index,
       tierPredicate = (\<lambda>c. accountPattern (evalMatch c) \<noteq> ''*'')\<rparr>,
      \<lparr>tierName = ByChannel, tierEnabled = True, tierPeer = niPeer n,
       tierCandidates = indexChannel index,
       tierPredicate = (\<lambda>c. accountPattern (evalMatch c) = ''*'')\<rparr>]"

definition tierScope :: "normalized_input \<Rightarrow> route_peer option \<Rightarrow> binding_scope" where
  "tierScope n peer = \<lparr>scopePeer = peer, scopeGuildId = niGuildId n, scopeTeamId = niTeamId n,
     scopeRoleIds = niRoleIds n\<rparr>"

definition tierMatch :: "normalized_input \<Rightarrow> route_tier \<Rightarrow> evaluated_binding option" where
  "tierMatch n t =
     (if \<not> tierEnabled t then None
      else find (\<lambda>c. tierPredicate t c \<and> matchesBindingScope (evalMatch c) (tierScope n (tierPeer t)))
             (tierCandidates t))"

fun firstTierMatch :: "normalized_input \<Rightarrow> route_tier list \<Rightarrow> (matched_by \<times> evaluated_binding) option" where
  "firstTierMatch n [] = None"
| "firstTierMatch n (t # ts) =
     (case tierMatch n t of Some c \<Rightarrow> Some (tierName t, c) | None \<Rightarrow> firstTierMatch n ts)"

section \<open>The route\<close>

datatype last_route_policy = LastMain | LastSession

record agent_route =
  routeAgentId :: string
  routeChannel :: string
  routeAccountId :: string
  routeDmScope :: dm_scope
  routeSessionKey :: string
  routeMainSessionKey :: string
  routeLastPolicy :: last_route_policy
  routeMatchedBy :: matched_by

definition deriveLastRoutePolicy :: "string \<Rightarrow> string \<Rightarrow> last_route_policy" where
  "deriveLastRoutePolicy sessionKey mainSessionKey =
     (if sessionKey = mainSessionKey then LastMain else LastSession)"

definition resolveInboundLastRouteSessionKey :: "agent_route \<Rightarrow> string \<Rightarrow> string" where
  "resolveInboundLastRouteSessionKey route sessionKey =
     (if routeLastPolicy route = LastMain then routeMainSessionKey route else sessionKey)"

definition buildAgentSessionKey ::
    "string \<Rightarrow> string option \<Rightarrow> string \<Rightarrow> string option \<Rightarrow> route_peer option \<Rightarrow> dm_scope option \<Rightarrow>
     identity_links option \<Rightarrow> string" where
  "buildAgentSessionKey agentId mainKey channelName account peer scope links =
     (let channel = orDefault (normalizeLowercaseStringOrEmpty (Some channelName)) ''unknown''
      in buildAgentPeerSessionKey
           \<lparr>keyAgentId = agentId, keyMainKey = Some (nullish mainKey DEFAULT_MAIN_KEY),
            keyChannel = channel, keyAccountId = account,
            keyPeerKind = Some (case peer of None \<Rightarrow> ChatDirect | Some p \<Rightarrow> peerKind p),
            keyPeerId = (case peer of None \<Rightarrow> None
              | Some p \<Rightarrow> Some (orDefault (js_trim (peerId p)) ''unknown'')),
            keyIdentityLinks = links, keyDmScope = scope\<rparr>)"

definition chooseRoute ::
    "route_config \<Rightarrow> agent_lookup \<Rightarrow> normalized_input \<Rightarrow> string \<Rightarrow> matched_by \<Rightarrow> dm_scope option \<Rightarrow>
     agent_route" where
  "chooseRoute cfg lookup n agentId by override =
     (let resolvedAgentId = pickFrom lookup agentId;
          scope = nullish override (nullish (cfgDmScope cfg) ScopeMain);
          sessionKey = buildAgentSessionKey resolvedAgentId (cfgMainKey cfg) (niChannel n)
            (Some (niAccountId n)) (niPeer n) (Some scope) (cfgIdentityLinks cfg);
          mainSessionKey = normalizeLowercaseStringOrEmpty
            (Some (buildAgentMainSessionKey resolvedAgentId (cfgMainKey cfg)))
      in \<lparr>routeAgentId = resolvedAgentId, routeChannel = niChannel n, routeAccountId = niAccountId n,
          routeDmScope = scope, routeSessionKey = sessionKey, routeMainSessionKey = mainSessionKey,
          routeLastPolicy = deriveLastRoutePolicy sessionKey mainSessionKey, routeMatchedBy = by\<rparr>)"

definition routeWith ::
    "route_config \<Rightarrow> agent_lookup \<Rightarrow> bindings_index \<Rightarrow> normalized_input \<Rightarrow> agent_route" where
  "routeWith cfg lookup index n =
     (case firstTierMatch n (routeTiers n index) of
        Some (by, c) \<Rightarrow> chooseRoute cfg lookup n (bindingAgentId (evalBinding c)) by
                          (bindingDmScope (evalBinding c))
      | None \<Rightarrow> chooseRoute cfg lookup n (resolveDefaultAgentId cfg) ByDefault None)"

section \<open>The memo tables\<close>

record bindings_cache =
  bcRef :: nat
  bcByChannel :: "(string, channel_bindings) jsmap"
  bcByChannelAccount :: "(string, evaluated_binding list) jsmap"
  bcIndex :: "(string, bindings_index) jsmap"

record route_cache =
  rcBindingsRef :: nat
  rcAgentsRef :: nat
  rcSessionRef :: nat
  rcByKey :: "(string, agent_route) jsmap"

record route_caches =
  agentCache :: "(nat \<times> agent_lookup) option"
  bindingsCache :: "bindings_cache option"
  routeCache :: "route_cache option"

definition noCaches :: route_caches where
  "noCaches = \<lparr>agentCache = None, bindingsCache = None, routeCache = None\<rparr>"

definition MAX_EVALUATED_BINDINGS_CACHE_KEYS :: nat where "MAX_EVALUATED_BINDINGS_CACHE_KEYS = 2000"
definition MAX_RESOLVED_ROUTE_CACHE_KEYS :: nat where "MAX_RESOLVED_ROUTE_CACHE_KEYS = 4000"

definition resolveAgentLookupCache :: "route_config \<Rightarrow> route_caches \<Rightarrow> agent_lookup \<times> route_caches" where
  "resolveAgentLookupCache cfg s =
     (case agentCache s of
        Some (r, lookup) \<Rightarrow>
          if r = agentsRef cfg then (lookup, s)
          else (buildAgentLookup cfg, s\<lparr>agentCache := Some (agentsRef cfg, buildAgentLookup cfg)\<rparr>)
      | None \<Rightarrow> (buildAgentLookup cfg, s\<lparr>agentCache := Some (agentsRef cfg, buildAgentLookup cfg)\<rparr>))"

definition tab :: string where "tab = [CHR 0x09]"

definition bindingsCacheFor :: "route_config \<Rightarrow> route_caches \<Rightarrow> bindings_cache" where
  "bindingsCacheFor cfg s =
     (let fresh = \<lparr>bcRef = bindingsRef cfg, bcByChannel = buildEvaluatedBindingsByChannel cfg,
            bcByChannelAccount = [], bcIndex = []\<rparr>
      in case bindingsCache s of
           Some c \<Rightarrow> if bcRef c = bindingsRef cfg then c else fresh
         | None \<Rightarrow> fresh)"

definition getEvaluatedBindingsForChannelAccount ::
    "route_config \<Rightarrow> string \<Rightarrow> string \<Rightarrow> route_caches \<Rightarrow> evaluated_binding list \<times> route_caches" where
  "getEvaluatedBindingsForChannelAccount cfg channel account s =
     (let c = bindingsCacheFor cfg s;
          cacheKey = channel @ tab @ account
      in case jm_get (bcByChannelAccount c) cacheKey of
           Some hit \<Rightarrow> (hit, s\<lparr>bindingsCache := Some c\<rparr>)
         | None \<Rightarrow>
             let evaluated = bindingsFrom (bcByChannel c) channel account;
                 index = buildEvaluatedBindingsIndex evaluated;
                 c1 = c\<lparr>bcByChannelAccount := jm_set cacheKey evaluated (bcByChannelAccount c),
                        bcIndex := jm_set cacheKey index (bcIndex c)\<rparr>;
                 c2 = (if length (bcByChannelAccount c1) > MAX_EVALUATED_BINDINGS_CACHE_KEYS
                       then c1\<lparr>bcByChannelAccount := jm_set cacheKey evaluated [],
                               bcIndex := jm_set cacheKey index []\<rparr>
                       else c1)
             in (evaluated, s\<lparr>bindingsCache := Some c2\<rparr>))"

definition getEvaluatedBindingIndexForChannelAccount ::
    "route_config \<Rightarrow> string \<Rightarrow> string \<Rightarrow> route_caches \<Rightarrow> bindings_index \<times> route_caches" where
  "getEvaluatedBindingIndexForChannelAccount cfg channel account s =
     (let (bindings, s1) = getEvaluatedBindingsForChannelAccount cfg channel account s;
          cacheKey = channel @ tab @ account
      in case bindingsCache s1 of
           None \<Rightarrow> (buildEvaluatedBindingsIndex bindings, s1)
         | Some c \<Rightarrow>
             (case jm_get (bcIndex c) cacheKey of
                Some indexed \<Rightarrow> (indexed, s1)
              | None \<Rightarrow> (buildEvaluatedBindingsIndex bindings,
                  s1\<lparr>bindingsCache := Some (c\<lparr>bcIndex :=
                    jm_set cacheKey (buildEvaluatedBindingsIndex bindings) (bcIndex c)\<rparr>)\<rparr>)))"

definition resolveRouteCacheForConfig :: "route_config \<Rightarrow> route_caches \<Rightarrow> route_cache" where
  "resolveRouteCacheForConfig cfg s =
     (let fresh = \<lparr>rcBindingsRef = bindingsRef cfg, rcAgentsRef = agentsRef cfg,
            rcSessionRef = sessionRef cfg, rcByKey = []\<rparr>
      in case routeCache s of
           Some c \<Rightarrow> if rcBindingsRef c = bindingsRef cfg \<and> rcAgentsRef c = agentsRef cfg \<and>
                        rcSessionRef c = sessionRef cfg then c else fresh
         | None \<Rightarrow> fresh)"

definition formatRouteCachePeer :: "route_peer option \<Rightarrow> string" where
  "formatRouteCachePeer peer =
     (case peer of
        None \<Rightarrow> ''-''
      | Some p \<Rightarrow> if peerId p = [] then ''-'' else chatTypeName (peerKind p) @ '':'' @ peerId p)"

text \<open>\<open>toSorted\<close> without a comparator sorts by code units; one and two roles are special cases of it.\<close>

definition formatRoleIdsCacheKey :: "string list \<Rightarrow> string" where
  "formatRoleIdsCacheKey roleIds =
     (case roleIds of
        [] \<Rightarrow> ''-''
      | [r] \<Rightarrow> r
      | [a, b] \<Rightarrow> if a \<le> b then a @ '','' @ b else b @ '','' @ a
      | _ \<Rightarrow> (case sort roleIds of [] \<Rightarrow> [] | r # rs \<Rightarrow> r @ concat (map (\<lambda>q. '','' @ q) rs)))"

fun dmScopeName :: "dm_scope \<Rightarrow> string" where
  "dmScopeName ScopeMain = ''main''"
| "dmScopeName PerPeer = ''per-peer''"
| "dmScopeName PerChannelPeer = ''per-channel-peer''"
| "dmScopeName PerAccountChannelPeer = ''per-account-channel-peer''"

definition tabbed :: "string list \<Rightarrow> string" where
  "tabbed parts = (case parts of [] \<Rightarrow> [] | p # ps \<Rightarrow> p @ concat (map (\<lambda>q. tab @ q) ps))"

definition buildResolvedRouteCacheKey :: "normalized_input \<Rightarrow> dm_scope \<Rightarrow> string" where
  "buildResolvedRouteCacheKey n scope =
     tabbed [niChannel n, niAccountId n, formatRouteCachePeer (niPeer n),
       formatRouteCachePeer (niParentPeer n), orDefault (niGuildId n) ''-'',
       orDefault (niTeamId n) ''-'', formatRoleIdsCacheKey (niRoleIds n), dmScopeName scope]"

text \<open>Identity links turn the route table off; a key is never empty.\<close>

definition resolveAgentRoute ::
    "route_config \<Rightarrow> agent_route_input \<Rightarrow> route_caches \<Rightarrow> agent_route \<times> route_caches" where
  "resolveAgentRoute cfg i s =
     (let n = normalizeInput i;
          key = buildResolvedRouteCacheKey n (nullish (cfgDmScope cfg) ScopeMain);
          cached = (cfgIdentityLinks cfg = None);
          table = resolveRouteCacheForConfig cfg s;
          s1 = (if cached then s\<lparr>routeCache := Some table\<rparr> else s)
      in case (if cached then jm_get (rcByKey table) key else None) of
           Some route \<Rightarrow> (route, s1)
         | None \<Rightarrow>
             let (bindings, s2) = getEvaluatedBindingsForChannelAccount cfg (niChannel n) (niAccountId n) s1;
                 (index, s3) = getEvaluatedBindingIndexForChannelAccount cfg (niChannel n) (niAccountId n) s2;
                 (lookup, s4) = resolveAgentLookupCache cfg s3;
                 route = routeWith cfg lookup index n
             in if \<not> cached then (route, s4)
                else
                  let m = jm_set key route (rcByKey table);
                      m1 = (if length m > MAX_RESOLVED_ROUTE_CACHE_KEYS then jm_set key route [] else m)
                  in (route, s4\<lparr>routeCache := Some (table\<lparr>rcByKey := m1\<rparr>)\<rparr>))"

end
