(* ===== verification/RouteProofs.thy ===== *)
theory RouteProofs
  imports RouteResolution
begin

text \<open>
  Routing: the index and the memo tables of \<open>RouteResolution\<close> implement a plain rule, the first
  binding in configuration order of the most specific kind that matches; where the table's keys run
  together they do not; and session keys keep direct peers apart.
\<close>

section \<open>The rule\<close>

definition normalMatch :: "route_binding \<Rightarrow> normalized_match" where
  "normalMatch b = normalizeBindingMatch (bindingMatch b)"

definition bindingChannel :: "route_binding \<Rightarrow> string" where
  "bindingChannel b = normalizeLowercaseStringOrEmpty (matchChannel (bindingMatch b))"

definition coversAccount :: "route_binding \<Rightarrow> string \<Rightarrow> bool" where
  "coversAccount b account \<longleftrightarrow> accountPattern (normalMatch b) = ''*'' \<or>
     resolveAccountPatternKey (accountPattern (normalMatch b)) = account"

text \<open>The bindings of a channel and an account, in configuration order.\<close>

definition specBindings :: "route_config \<Rightarrow> normalized_input \<Rightarrow> route_binding list" where
  "specBindings cfg n = filter (\<lambda>b. bindingChannel b \<noteq> [] \<and> bindingChannel b = niChannel n \<and>
     coversAccount b (niAccountId n)) (listBindings cfg)"

text \<open>What a binding is about.\<close>

definition bindingClass :: "normalized_match \<Rightarrow> matched_by" where
  "bindingClass m =
     (case (peerConstraint m, guildConstraint m, teamConstraint m) of
        (ValidPeer k i, _, _) \<Rightarrow> ByPeer
      | (WildcardPeer k, _, _) \<Rightarrow> ByPeerWildcard
      | (_, Some guild, _) \<Rightarrow> if rolesConstraint m \<noteq> None then ByGuildRoles else ByGuild
      | (_, None, Some team) \<Rightarrow> ByTeam
      | (_, None, None) \<Rightarrow> if accountPattern m \<noteq> ''*'' then ByAccount else ByChannel)"

definition matchOfClass ::
    "route_config \<Rightarrow> normalized_input \<Rightarrow> matched_by \<Rightarrow> route_peer option \<Rightarrow> route_binding option" where
  "matchOfClass cfg n c peer =
     find (\<lambda>b. bindingClass (normalMatch b) = c \<and> matchesBindingScope (normalMatch b) (tierScope n peer))
       (specBindings cfg n)"

fun firstMatch :: "(matched_by \<times> route_binding option) list \<Rightarrow> (matched_by \<times> route_binding) option" where
  "firstMatch [] = None"
| "firstMatch ((by, m) # ms) = (case m of Some b \<Rightarrow> Some (by, b) | None \<Rightarrow> firstMatch ms)"

text \<open>From the most to the least specific; a thread inherits the binding of its parent's peer.\<close>

definition specMatch :: "route_config \<Rightarrow> normalized_input \<Rightarrow> (matched_by \<times> route_binding) option" where
  "specMatch cfg n = firstMatch
     [(ByPeer, matchOfClass cfg n ByPeer (niPeer n)),
      (ByParentPeer, matchOfClass cfg n ByPeer (usableParent n)),
      (ByPeerWildcard, matchOfClass cfg n ByPeerWildcard (niPeer n)),
      (ByGuildRoles, matchOfClass cfg n ByGuildRoles (niPeer n)),
      (ByGuild, matchOfClass cfg n ByGuild (niPeer n)),
      (ByTeam, matchOfClass cfg n ByTeam (niPeer n)),
      (ByAccount, matchOfClass cfg n ByAccount (niPeer n)),
      (ByChannel, matchOfClass cfg n ByChannel (niPeer n))]"

definition specRoute :: "route_config \<Rightarrow> normalized_input \<Rightarrow> agent_route" where
  "specRoute cfg n =
     (case specMatch cfg n of
        Some (by, b) \<Rightarrow> chooseRoute cfg (buildAgentLookup cfg) n (bindingAgentId b) by (bindingDmScope b)
      | None \<Rightarrow> chooseRoute cfg (buildAgentLookup cfg) n (resolveDefaultAgentId cfg) ByDefault None)"

section \<open>Lists\<close>

lemma find_filter: "find P (filter Q xs) = find (\<lambda>x. Q x \<and> P x) xs"
  by (induction xs) auto

lemma find_map_option: "map_option f (find (\<lambda>x. P (f x)) xs) = find P (map f xs)"
  by (induction xs) auto

lemma pushTo_get: "nullish (jm_get (pushTo k v m) k') [] =
    nullish (jm_get m k') [] @ (if k' = k then [v] else [])"
  by (simp add: pushTo_def jm.get_put)

section \<open>Evaluated bindings\<close>

fun evaluateFrom :: "nat \<Rightarrow> route_binding list \<Rightarrow> evaluated_binding list" where
  "evaluateFrom n [] = []"
| "evaluateFrom n (b # bs) =
     (if bindingChannel b = [] then evaluateFrom n bs
      else \<lparr>evalBinding = b, evalMatch = normalMatch b, evalOrder = n\<rparr> # evaluateFrom (Suc n) bs)"

definition evaluatedOf :: "route_config \<Rightarrow> evaluated_binding list" where
  "evaluatedOf cfg = evaluateFrom 0 (listBindings cfg)"

lemma evaluateFrom_orders: "map evalOrder (evaluateFrom n bs) = [n..<n + length (evaluateFrom n bs)]"
  by (induction n bs rule: evaluateFrom.induct) (simp_all add: upt_rec)

lemma evaluateFrom_match: "e \<in> set (evaluateFrom n bs) \<Longrightarrow> evalMatch e = normalMatch (evalBinding e)"
  by (induction n bs rule: evaluateFrom.induct) (auto split: if_splits)

lemma evaluateFrom_bindings:
  "map evalBinding (evaluateFrom n bs) = filter (\<lambda>b. bindingChannel b \<noteq> []) bs"
  by (induction n bs rule: evaluateFrom.induct) simp_all

text \<open>The two buckets of a channel.\<close>

definition anyBucket :: "(string, channel_bindings) jsmap \<Rightarrow> string \<Rightarrow> evaluated_binding list" where
  "anyBucket m c = (case jm_get m c of None \<Rightarrow> [] | Some b \<Rightarrow> bucketAnyAccount b)"

definition accountBucket :: "(string, channel_bindings) jsmap \<Rightarrow> string \<Rightarrow> string \<Rightarrow> evaluated_binding list" where
  "accountBucket m c k =
     (case jm_get m c of None \<Rightarrow> [] | Some b \<Rightarrow> nullish (jm_get (bucketByAccount b) k) [])"

definition isAny :: "evaluated_binding \<Rightarrow> bool" where
  "isAny e \<longleftrightarrow> accountPattern (evalMatch e) = ''*''"

definition inChannel :: "string \<Rightarrow> evaluated_binding \<Rightarrow> bool" where
  "inChannel c e \<longleftrightarrow> bindingChannel (evalBinding e) = c"

definition ofAccount :: "string \<Rightarrow> evaluated_binding \<Rightarrow> bool" where
  "ofAccount k e \<longleftrightarrow> \<not> isAny e \<and> resolveAccountPatternKey (accountPattern (evalMatch e)) = k"

lemma addBinding_buckets:
  assumes "bindingChannel b \<noteq> []" and "e = \<lparr>evalBinding = b, evalMatch = normalMatch b, evalOrder = n\<rparr>"
  shows "fst (addBinding b (n, m)) = Suc n"
    "anyBucket (snd (addBinding b (n, m))) c = anyBucket m c @ (if inChannel c e \<and> isAny e then [e] else [])"
    "accountBucket (snd (addBinding b (n, m))) c k =
       accountBucket m c k @ (if inChannel c e \<and> ofAccount k e then [e] else [])"
  using assms
  by (auto simp: addBinding_def Let_def anyBucket_def accountBucket_def inChannel_def isAny_def
      ofAccount_def bindingChannel_def normalMatch_def jm.get_put emptyBucket_def nullish_def pushTo_def
      split: option.splits)

lemma addBinding_skip: "bindingChannel b = [] \<Longrightarrow> addBinding b acc = acc"
  by (cases acc) (simp add: addBinding_def Let_def bindingChannel_def)

lemma fold_addBinding:
  "anyBucket (snd (fold addBinding bs (n, m))) c =
     anyBucket m c @ filter (\<lambda>e. inChannel c e \<and> isAny e) (evaluateFrom n bs) \<and>
   accountBucket (snd (fold addBinding bs (n, m))) c k =
     accountBucket m c k @ filter (\<lambda>e. inChannel c e \<and> ofAccount k e) (evaluateFrom n bs)"
proof (induction bs arbitrary: n m)
  case (Cons b bs)
  show ?case
  proof (cases "bindingChannel b = []")
    case True
    then show ?thesis using Cons.IH [of n m] by (simp add: addBinding_skip)
  next
    case False
    obtain m' where m': "addBinding b (n, m) = (Suc n, m')"
      using addBinding_buckets(1) [OF False refl, of n m] by (metis prod.collapse)
    show ?thesis
      using Cons.IH [of "Suc n" m'] False
        addBinding_buckets(2,3) [OF False refl, of n m] unfolding m' by (simp add: m')
  qed
qed simp

lemma buckets_of:
  "anyBucket (buildEvaluatedBindingsByChannel cfg) c = filter (\<lambda>e. inChannel c e \<and> isAny e) (evaluatedOf cfg)"
  "accountBucket (buildEvaluatedBindingsByChannel cfg) c k =
     filter (\<lambda>e. inChannel c e \<and> ofAccount k e) (evaluatedOf cfg)"
  using fold_addBinding [of "listBindings cfg" 0 "[]" c k]
  by (simp_all add: buildEvaluatedBindingsByChannel_def evaluatedOf_def anyBucket_def accountBucket_def)

lemma merge_Nil2 [simp]: "mergeEvaluatedBindingsInSourceOrder as [] = as"
  by (cases as) simp_all

lemma merge_filters:
  assumes "sorted_wrt (<) (map evalOrder xs)" and "\<And>x. x \<in> set xs \<Longrightarrow> \<not> (P x \<and> Q x)"
  shows "mergeEvaluatedBindingsInSourceOrder (filter P xs) (filter Q xs) = filter (\<lambda>x. P x \<or> Q x) xs"
  using assms
proof (induction xs)
  case (Cons x xs)
  have later: "y \<in> set xs \<Longrightarrow> evalOrder x < evalOrder y" for y using Cons.prems(1) by simp
  have IH: "mergeEvaluatedBindingsInSourceOrder (filter P xs) (filter Q xs) = filter (\<lambda>x. P x \<or> Q x) xs"
    using Cons by simp
  consider (p) "P x" "\<not> Q x" | (q) "Q x" "\<not> P x" | (none) "\<not> P x" "\<not> Q x"
    using Cons.prems(2) [of x] by auto
  then show ?case
  proof cases
    case p
    then show ?thesis
    proof (cases "filter Q xs")
      case (Cons y ys)
      then have "y \<in> set (filter Q xs)" by simp
      then have "y \<in> set xs" by simp
      then have "evalOrder x \<le> evalOrder y" using later by (simp add: less_imp_le)
      then show ?thesis using p IH Cons by simp
    qed (use p IH in simp)
  next
    case q
    then show ?thesis
    proof (cases "filter P xs")
      case (Cons y ys)
      then have "y \<in> set (filter P xs)" by simp
      then have "y \<in> set xs" by simp
      then have "\<not> evalOrder y \<le> evalOrder x" using later by (simp add: not_le)
      then show ?thesis using q IH Cons by simp
    qed (use q IH in simp)
  next
    case none
    then show ?thesis using IH by simp
  qed
qed simp

definition applies :: "normalized_input \<Rightarrow> evaluated_binding \<Rightarrow> bool" where
  "applies n e \<longleftrightarrow> inChannel (niChannel n) e \<and> (isAny e \<or> ofAccount (niAccountId n) e)"

lemma bindingsFrom_filter:
  "bindingsFrom (buildEvaluatedBindingsByChannel cfg) (niChannel n) (niAccountId n) =
   filter (applies n) (evaluatedOf cfg)"
proof -
  let ?m = "buildEvaluatedBindingsByChannel cfg" and ?c = "niChannel n" and ?k = "niAccountId n"
  have "bindingsFrom ?m ?c ?k = mergeEvaluatedBindingsInSourceOrder (accountBucket ?m ?c ?k) (anyBucket ?m ?c)"
    by (simp add: bindingsFrom_def accountBucket_def anyBucket_def split: option.splits)
  also have "\<dots> = filter (\<lambda>e. inChannel ?c e \<and> ofAccount ?k e \<or> inChannel ?c e \<and> isAny e) (evaluatedOf cfg)"
    unfolding buckets_of
  proof (rule merge_filters)
    show "sorted_wrt (<) (map evalOrder (evaluatedOf cfg))"
      by (simp add: evaluatedOf_def evaluateFrom_orders)
  qed (simp add: ofAccount_def)
  also have "\<dots> = filter (applies n) (evaluatedOf cfg)"
    by (rule filter_cong) (auto simp: applies_def)
  finally show ?thesis .
qed

lemma applicable_bindings:
  "map evalBinding (filter (applies n) (evaluatedOf cfg)) = specBindings cfg n"
proof -
  have "applies n e \<longleftrightarrow> bindingChannel (evalBinding e) = niChannel n \<and> coversAccount (evalBinding e) (niAccountId n)"
    if "e \<in> set (evaluatedOf cfg)" for e
    using evaluateFrom_match [of e 0 "listBindings cfg"] that
    by (auto simp: evaluatedOf_def applies_def inChannel_def isAny_def ofAccount_def coversAccount_def)
  then have "filter (applies n) (evaluatedOf cfg) =
      filter ((\<lambda>b. bindingChannel b = niChannel n \<and> coversAccount b (niAccountId n)) \<circ> evalBinding) (evaluatedOf cfg)"
    by (intro filter_cong) auto
  then have "map evalBinding (filter (applies n) (evaluatedOf cfg)) =
      filter (\<lambda>b. bindingChannel b = niChannel n \<and> coversAccount b (niAccountId n))
        (map evalBinding (evaluatedOf cfg))"
    by (simp add: filter_map)
  then show ?thesis
    unfolding evaluatedOf_def evaluateFrom_bindings specBindings_def by (simp add: conj_commute)
qed

section \<open>The index\<close>

definition classOf :: "evaluated_binding \<Rightarrow> matched_by" where
  "classOf e = bindingClass (evalMatch e)"

definition peerKeys :: "evaluated_binding \<Rightarrow> string list" where
  "peerKeys e = (case peerConstraint (evalMatch e) of ValidPeer k i \<Rightarrow> peerLookupKeys k i | _ \<Rightarrow> [])"

lemma peerLookupKeys_distinct: "distinct (peerLookupKeys k i)"
  by (auto simp: peerLookupKeys_def)

lemma fold_pushTo:
  "distinct keys \<Longrightarrow> nullish (jm_get (fold (\<lambda>key m. pushTo key b m) keys m) k) [] =
     nullish (jm_get m k) [] @ (if k \<in> set keys then [b] else [])"
  by (induction keys arbitrary: m) (auto simp: pushTo_get)

lemma indexBinding_fields:
  "nullish (jm_get (indexPeer (indexBinding b x)) key) [] =
     nullish (jm_get (indexPeer x) key) [] @ (if key \<in> set (peerKeys b) then [b] else [])"
  "indexPeerWildcard (indexBinding b x) = indexPeerWildcard x @ (if classOf b = ByPeerWildcard then [b] else [])"
  "nullish (jm_get (indexGuildWithRoles (indexBinding b x)) g) [] = nullish (jm_get (indexGuildWithRoles x) g) [] @
     (if classOf b = ByGuildRoles \<and> guildConstraint (evalMatch b) = Some g then [b] else [])"
  "nullish (jm_get (indexGuild (indexBinding b x)) g) [] = nullish (jm_get (indexGuild x) g) [] @
     (if classOf b = ByGuild \<and> guildConstraint (evalMatch b) = Some g then [b] else [])"
  "nullish (jm_get (indexTeam (indexBinding b x)) g) [] = nullish (jm_get (indexTeam x) g) [] @
     (if classOf b = ByTeam \<and> teamConstraint (evalMatch b) = Some g then [b] else [])"
  "indexAccount (indexBinding b x) = indexAccount x @ (if classOf b = ByAccount then [b] else [])"
  "indexChannel (indexBinding b x) = indexChannel x @ (if classOf b = ByChannel then [b] else [])"
  by (auto simp: indexBinding_def peerKeys_def classOf_def bindingClass_def pushTo_get
      fold_pushTo peerLookupKeys_distinct split: peer_constraint.splits option.splits)

lemma fold_index:
  "nullish (jm_get (indexPeer (fold indexBinding bs x)) key) [] =
     nullish (jm_get (indexPeer x) key) [] @ filter (\<lambda>b. key \<in> set (peerKeys b)) bs"
  "indexPeerWildcard (fold indexBinding bs x) =
     indexPeerWildcard x @ filter (\<lambda>b. classOf b = ByPeerWildcard) bs"
  "nullish (jm_get (indexGuildWithRoles (fold indexBinding bs x)) g) [] =
     nullish (jm_get (indexGuildWithRoles x) g) [] @
     filter (\<lambda>b. classOf b = ByGuildRoles \<and> guildConstraint (evalMatch b) = Some g) bs"
  "nullish (jm_get (indexGuild (fold indexBinding bs x)) g) [] =
     nullish (jm_get (indexGuild x) g) [] @
     filter (\<lambda>b. classOf b = ByGuild \<and> guildConstraint (evalMatch b) = Some g) bs"
  "nullish (jm_get (indexTeam (fold indexBinding bs x)) g) [] =
     nullish (jm_get (indexTeam x) g) [] @
     filter (\<lambda>b. classOf b = ByTeam \<and> teamConstraint (evalMatch b) = Some g) bs"
  "indexAccount (fold indexBinding bs x) = indexAccount x @ filter (\<lambda>b. classOf b = ByAccount) bs"
  "indexChannel (fold indexBinding bs x) = indexChannel x @ filter (\<lambda>b. classOf b = ByChannel) bs"
  by (induction bs arbitrary: x) (simp_all add: indexBinding_fields)

lemmas index_of = fold_index [of _ emptyIndex, folded buildEvaluatedBindingsIndex_def]

lemma emptyIndex_fields [simp]:
  "indexPeer emptyIndex = []" "indexPeerWildcard emptyIndex = []" "indexGuildWithRoles emptyIndex = []"
  "indexGuild emptyIndex = []" "indexTeam emptyIndex = []" "indexAccount emptyIndex = []"
  "indexChannel emptyIndex = []"
  by (simp_all add: emptyIndex_def)

subsection \<open>Collecting the bindings of a peer\<close>

lemma collect_dedupe:
  assumes "distinct (map evalOrder (out @ bs))"
  shows "fold (\<lambda>b out. if evalOrder b \<in> set (map evalOrder out) then out else out @ [b]) bs out = out @ bs"
  using assms by (induction bs arbitrary: out) auto

lemma collect_again:
  assumes "set bs \<subseteq> set out"
  shows "fold (\<lambda>b out. if evalOrder b \<in> set (map evalOrder out) then out else out @ [b]) bs out = out"
  using assms by (induction bs) auto

definition forPeer :: "route_peer \<Rightarrow> evaluated_binding \<Rightarrow> bool" where
  "forPeer p e \<longleftrightarrow> (case peerConstraint (evalMatch e) of
     ValidPeer k i \<Rightarrow> peerKindMatches k (peerKind p) \<and> peerId p = i | _ \<Rightarrow> False)"

lemma peer_keys_match:
  "key \<in> set (peerLookupKeys k i) \<Longrightarrow> key \<in> set (peerLookupKeys k' i') \<longleftrightarrow> peerKindMatches k' k \<and> i = i'"
  by (cases k; cases k') (auto simp: peerLookupKeys_def peerKindMatches_def)

lemma lookup_keys_match:
  "key \<in> set (peerLookupKeys (peerKind p) (peerId p)) \<Longrightarrow> key \<in> set (peerKeys e) \<longleftrightarrow> forPeer p e"
  by (cases "peerConstraint (evalMatch e)") (simp_all add: peerKeys_def forPeer_def peer_keys_match)

lemma collect_filter:
  assumes "distinct (map evalOrder bs)"
  shows "collectPeerIndexedBindings (buildEvaluatedBindingsIndex bs) (Some p) = filter (forPeer p) bs"
proof -
  let ?add = "\<lambda>b out. if evalOrder b \<in> set (map evalOrder out) then out else out @ [b]"
  let ?own = "filter (forPeer p) bs"
  have own: "nullish (jm_get (indexPeer (buildEvaluatedBindingsIndex bs)) key) [] = ?own"
    if "key \<in> set (peerLookupKeys (peerKind p) (peerId p))" for key
    using that by (simp add: index_of lookup_keys_match)
  have once: "fold ?add ?own [] = ?own"
    using collect_dedupe [of "[]" ?own] assms by (simp add: distinct_map_filter)
  have again: "fold ?add ?own ?own = ?own" by (rule collect_again) simp
  have rest: "fold (\<lambda>key out. fold ?add ?own out) keys ?own = ?own" for keys :: "string list"
    using again by (induction keys) simp_all
  have same: "fold (\<lambda>key out. fold ?add (nullish (jm_get (indexPeer (buildEvaluatedBindingsIndex bs)) key) []) out)
      keys out = fold (\<lambda>key out. fold ?add ?own out) keys out"
    if "set keys \<subseteq> set (peerLookupKeys (peerKind p) (peerId p))" for keys out
    using that by (induction keys arbitrary: out) (simp_all add: own)
  obtain key keys where keys: "peerLookupKeys (peerKind p) (peerId p) = key # keys"
    by (cases "peerKind p") (simp_all add: peerLookupKeys_def)
  have "collectPeerIndexedBindings (buildEvaluatedBindingsIndex bs) (Some p) =
      fold (\<lambda>key out. fold ?add ?own out) (peerLookupKeys (peerKind p) (peerId p)) []"
    unfolding collectPeerIndexedBindings_def option.case by (rule same) simp
  also have "\<dots> = fold (\<lambda>key out. fold ?add ?own out) keys (fold ?add ?own [])"
    unfolding keys by (simp only: fold_simps)
  also have "\<dots> = ?own" unfolding once by (rule rest)
  finally show ?thesis .
qed

section \<open>The tiers\<close>

definition evaluatedMatch ::
    "evaluated_binding list \<Rightarrow> normalized_input \<Rightarrow> matched_by \<Rightarrow> route_peer option \<Rightarrow> evaluated_binding option" where
  "evaluatedMatch bs n c peer =
     find (\<lambda>e. classOf e = c \<and> matchesBindingScope (evalMatch e) (tierScope n peer)) bs"

lemma matchOfClass_evaluated:
  "map_option evalBinding (evaluatedMatch (filter (applies n) (evaluatedOf cfg)) n c peer) =
   matchOfClass cfg n c peer"
proof -
  let ?P = "\<lambda>b. bindingClass (normalMatch b) = c \<and> matchesBindingScope (normalMatch b) (tierScope n peer)"
  have "evaluatedMatch (filter (applies n) (evaluatedOf cfg)) n c peer =
      find (\<lambda>e. ?P (evalBinding e)) (filter (applies n) (evaluatedOf cfg))"
    unfolding evaluatedMatch_def
    by (rule find_cong) (auto simp: classOf_def evaluatedOf_def dest: evaluateFrom_match)
  then show ?thesis
    unfolding matchOfClass_def applicable_bindings [symmetric] using find_map_option by simp
qed

lemma find_imp: "(\<And>x. x \<in> set xs \<Longrightarrow> P x \<longleftrightarrow> Q x) \<Longrightarrow> find P xs = find Q xs"
  by (induction xs) auto

lemma scope_matches_constraints:
  assumes "matchesBindingScope m (tierScope n peer)"
  shows "guildConstraint m = Some g \<Longrightarrow> g = [] \<or> g = js_trim (niGuildId n)"
    "teamConstraint m = Some t \<Longrightarrow> t = [] \<or> t = js_trim (niTeamId n)"
    "rolesConstraint m = Some (r # rs) \<Longrightarrow> niRoleIds n \<noteq> []"
  using assms
  by (auto simp: matchesBindingScope_def tierScope_def routeBindingScopeMatches_def Let_def
      scopeIdMatches_def normalizeRouteBindingRoles_def hasAnyRouteBindingRole_def list_ex_iff
      split: peer_constraint.splits option.splits if_splits)


definition wellEvaluated :: "evaluated_binding list \<Rightarrow> bool" where
  "wellEvaluated bs \<longleftrightarrow> distinct (map evalOrder bs) \<and>
     (\<forall>e\<in>set bs. guildConstraint (evalMatch e) \<noteq> Some [] \<and> teamConstraint (evalMatch e) \<noteq> Some [] \<and>
        rolesConstraint (evalMatch e) \<noteq> Some [])"

lemma normalMatch_well:
  "guildConstraint (normalMatch b) \<noteq> Some [] \<and> teamConstraint (normalMatch b) \<noteq> Some [] \<and>
   rolesConstraint (normalMatch b) \<noteq> Some []"
  by (simp add: normalMatch_def normalizeBindingMatch_def orNull_def normalizeRouteBindingRoles_def
      split: option.splits)

lemma evaluated_well: "wellEvaluated (filter P (evaluatedOf cfg))"
  unfolding wellEvaluated_def
proof
  have "distinct (map evalOrder (evaluatedOf cfg))"
    by (simp add: evaluatedOf_def evaluateFrom_orders)
  then show "distinct (map evalOrder (filter P (evaluatedOf cfg)))" by (simp add: distinct_map_filter)
  show "\<forall>e\<in>set (filter P (evaluatedOf cfg)). guildConstraint (evalMatch e) \<noteq> Some [] \<and>
      teamConstraint (evalMatch e) \<noteq> Some [] \<and> rolesConstraint (evalMatch e) \<noteq> Some []"
  proof
    fix e assume "e \<in> set (filter P (evaluatedOf cfg))"
    then have "evalMatch e = normalMatch (evalBinding e)"
      using evaluateFrom_match [of e 0 "listBindings cfg"] by (simp add: evaluatedOf_def)
    then show "guildConstraint (evalMatch e) \<noteq> Some [] \<and> teamConstraint (evalMatch e) \<noteq> Some [] \<and>
        rolesConstraint (evalMatch e) \<noteq> Some []"
      using normalMatch_well [of "evalBinding e"] by simp
  qed
qed

lemma tier_find:
  assumes "\<And>e. e \<in> set bs \<Longrightarrow> matchesBindingScope (evalMatch e) (tierScope n peer) \<Longrightarrow>
      classOf e = c \<longleftrightarrow> Q e \<and> pred e"
  shows "find (\<lambda>e. pred e \<and> matchesBindingScope (evalMatch e) (tierScope n peer)) (filter Q bs) =
    evaluatedMatch bs n c peer"
  unfolding find_filter evaluatedMatch_def using assms by (intro find_imp) blast

lemma class_peer: "classOf e = ByPeer \<longleftrightarrow>
    (case peerConstraint (evalMatch e) of ValidPeer k i \<Rightarrow> True | _ \<Rightarrow> False)"
  by (simp add: classOf_def bindingClass_def split: peer_constraint.splits option.splits)

lemma class_wildcard: "classOf e = ByPeerWildcard \<longleftrightarrow>
    (case peerConstraint (evalMatch e) of WildcardPeer k \<Rightarrow> True | _ \<Rightarrow> False)"
  by (simp add: classOf_def bindingClass_def split: peer_constraint.splits option.splits)

lemma class_other:
  "classOf e = ByGuildRoles \<Longrightarrow> guildConstraint (evalMatch e) \<noteq> None \<and> rolesConstraint (evalMatch e) \<noteq> None"
  "classOf e = ByGuild \<Longrightarrow> guildConstraint (evalMatch e) \<noteq> None \<and> rolesConstraint (evalMatch e) = None"
  "classOf e = ByTeam \<Longrightarrow> teamConstraint (evalMatch e) \<noteq> None"
  "classOf e = ByAccount \<Longrightarrow> accountPattern (evalMatch e) \<noteq> ''*''"
  "classOf e = ByChannel \<Longrightarrow> accountPattern (evalMatch e) = ''*''"
  by (auto simp: classOf_def bindingClass_def split: peer_constraint.splits option.splits if_splits)

lemma no_scope_peer:
  assumes "matchesBindingScope (evalMatch e) (tierScope n None)"
  shows "classOf e \<noteq> ByPeer" "classOf e \<noteq> ByPeerWildcard"
  using assms by (simp_all add: class_peer class_wildcard matchesBindingScope_def tierScope_def
      split: peer_constraint.splits)

lemma evaluatedMatch_none:
  assumes "\<And>e. e \<in> set bs \<Longrightarrow> matchesBindingScope (evalMatch e) (tierScope n peer) \<Longrightarrow> classOf e \<noteq> c"
  shows "evaluatedMatch bs n c peer = None"
  using assms unfolding evaluatedMatch_def find_None_iff by blast

lemma peer_tier:
  assumes "wellEvaluated bs"
  shows "tierMatch n \<lparr>tierName = by, tierEnabled = (peer \<noteq> None), tierPeer = peer,
      tierCandidates = collectPeerIndexedBindings (buildEvaluatedBindingsIndex bs) peer,
      tierPredicate = (\<lambda>c. case peerConstraint (evalMatch c) of ValidPeer k i \<Rightarrow> True | _ \<Rightarrow> False)\<rparr> =
    evaluatedMatch bs n ByPeer peer"
proof (cases peer)
  case None
  then show ?thesis using evaluatedMatch_none [of bs n None ByPeer] no_scope_peer(1)
    by (simp add: tierMatch_def)
next
  case (Some p)
  have "distinct (map evalOrder bs)" using assms by (simp add: wellEvaluated_def)
  moreover have "find (\<lambda>e. (case peerConstraint (evalMatch e) of ValidPeer k i \<Rightarrow> True | _ \<Rightarrow> False) \<and>
      matchesBindingScope (evalMatch e) (tierScope n (Some p))) (filter (forPeer p) bs) =
      evaluatedMatch bs n ByPeer (Some p)"
    by (rule tier_find) (auto simp: class_peer forPeer_def matchesBindingScope_def tierScope_def
        split: peer_constraint.splits)
  ultimately show ?thesis using Some by (simp add: tierMatch_def collect_filter)
qed

lemma wildcard_tier:
  "tierMatch n \<lparr>tierName = by, tierEnabled = (peer \<noteq> None), tierPeer = peer,
      tierCandidates = indexPeerWildcard (buildEvaluatedBindingsIndex bs),
      tierPredicate = (\<lambda>c. case peerConstraint (evalMatch c) of WildcardPeer k \<Rightarrow> True | _ \<Rightarrow> False)\<rparr> =
    evaluatedMatch bs n ByPeerWildcard peer"
proof (cases peer)
  case None
  then show ?thesis using evaluatedMatch_none [of bs n None ByPeerWildcard] no_scope_peer(2)
    by (simp add: tierMatch_def)
next
  case (Some p)
  have "find (\<lambda>e. (case peerConstraint (evalMatch e) of WildcardPeer k \<Rightarrow> True | _ \<Rightarrow> False) \<and>
      matchesBindingScope (evalMatch e) (tierScope n (Some p))) (filter (\<lambda>b. classOf b = ByPeerWildcard) bs) =
      evaluatedMatch bs n ByPeerWildcard (Some p)"
    by (rule tier_find) (simp add: class_wildcard)
  then show ?thesis using Some by (simp add: tierMatch_def index_of)
qed


lemma guild_roles_tier:
  assumes "wellEvaluated bs" and "js_trim (niGuildId n) = niGuildId n"
  shows "tierMatch n \<lparr>tierName = by, tierEnabled = (niGuildId n \<noteq> [] \<and> length (niRoleIds n) > 0),
      tierPeer = peer,
      tierCandidates = (if niGuildId n \<noteq> []
        then nullish (jm_get (indexGuildWithRoles (buildEvaluatedBindingsIndex bs)) (niGuildId n)) [] else []),
      tierPredicate = (\<lambda>c. guildConstraint (evalMatch c) \<noteq> None \<and> rolesConstraint (evalMatch c) \<noteq> None)\<rparr> =
    evaluatedMatch bs n ByGuildRoles peer"
proof -
  have needs: "guildConstraint (evalMatch e) = Some (niGuildId n) \<and> niGuildId n \<noteq> [] \<and> niRoleIds n \<noteq> []"
    if e: "e \<in> set bs" "matchesBindingScope (evalMatch e) (tierScope n peer)" "classOf e = ByGuildRoles" for e
  proof -
    obtain g rs where g: "guildConstraint (evalMatch e) = Some g" and rs: "rolesConstraint (evalMatch e) = Some rs"
      using class_other(1) [OF e(3)] by blast
    have "g \<noteq> []" "rs \<noteq> []" using assms(1) e(1) g rs by (auto simp: wellEvaluated_def)
    then show ?thesis
      using scope_matches_constraints(1) [OF e(2) g] scope_matches_constraints(3) [OF e(2), of "hd rs" "tl rs"]
        g rs assms(2) by simp
  qed
  show ?thesis
  proof (cases "niGuildId n \<noteq> [] \<and> niRoleIds n \<noteq> []")
    case False
    then have "evaluatedMatch bs n ByGuildRoles peer = None"
      by (intro evaluatedMatch_none) (use needs in blast)
    then show ?thesis using False by (auto simp: tierMatch_def)
  next
    case True
    have "find (\<lambda>e. (guildConstraint (evalMatch e) \<noteq> None \<and> rolesConstraint (evalMatch e) \<noteq> None) \<and>
        matchesBindingScope (evalMatch e) (tierScope n peer))
        (filter (\<lambda>e. classOf e = ByGuildRoles \<and> guildConstraint (evalMatch e) = Some (niGuildId n)) bs) =
        evaluatedMatch bs n ByGuildRoles peer"
      by (rule tier_find) (use needs class_other(1) in blast)
    then show ?thesis using True by (simp add: tierMatch_def index_of)
  qed
qed

lemma guild_tier:
  assumes "wellEvaluated bs" and "js_trim (niGuildId n) = niGuildId n"
  shows "tierMatch n \<lparr>tierName = by, tierEnabled = (niGuildId n \<noteq> []), tierPeer = peer,
      tierCandidates = (if niGuildId n \<noteq> []
        then nullish (jm_get (indexGuild (buildEvaluatedBindingsIndex bs)) (niGuildId n)) [] else []),
      tierPredicate = (\<lambda>c. guildConstraint (evalMatch c) \<noteq> None \<and> rolesConstraint (evalMatch c) = None)\<rparr> =
    evaluatedMatch bs n ByGuild peer"
proof -
  have needs: "guildConstraint (evalMatch e) = Some (niGuildId n) \<and> niGuildId n \<noteq> []"
    if e: "e \<in> set bs" "matchesBindingScope (evalMatch e) (tierScope n peer)" "classOf e = ByGuild" for e
  proof -
    obtain g where g: "guildConstraint (evalMatch e) = Some g" using class_other(2) [OF e(3)] by blast
    have "g \<noteq> []" using assms(1) e(1) g by (auto simp: wellEvaluated_def)
    then show ?thesis using scope_matches_constraints(1) [OF e(2) g] g assms(2) by simp
  qed
  show ?thesis
  proof (cases "niGuildId n = []")
    case True
    then have "evaluatedMatch bs n ByGuild peer = None"
      by (intro evaluatedMatch_none) (use needs in blast)
    then show ?thesis using True by (simp add: tierMatch_def)
  next
    case False
    have "find (\<lambda>e. (guildConstraint (evalMatch e) \<noteq> None \<and> rolesConstraint (evalMatch e) = None) \<and>
        matchesBindingScope (evalMatch e) (tierScope n peer))
        (filter (\<lambda>e. classOf e = ByGuild \<and> guildConstraint (evalMatch e) = Some (niGuildId n)) bs) =
        evaluatedMatch bs n ByGuild peer"
      by (rule tier_find) (use needs class_other(2) in blast)
    then show ?thesis using False by (simp add: tierMatch_def index_of)
  qed
qed

lemma team_tier:
  assumes "wellEvaluated bs" and "js_trim (niTeamId n) = niTeamId n"
  shows "tierMatch n \<lparr>tierName = by, tierEnabled = (niTeamId n \<noteq> []), tierPeer = peer,
      tierCandidates = (if niTeamId n \<noteq> []
        then nullish (jm_get (indexTeam (buildEvaluatedBindingsIndex bs)) (niTeamId n)) [] else []),
      tierPredicate = (\<lambda>c. teamConstraint (evalMatch c) \<noteq> None)\<rparr> =
    evaluatedMatch bs n ByTeam peer"
proof -
  have needs: "teamConstraint (evalMatch e) = Some (niTeamId n) \<and> niTeamId n \<noteq> []"
    if e: "e \<in> set bs" "matchesBindingScope (evalMatch e) (tierScope n peer)" "classOf e = ByTeam" for e
  proof -
    obtain g where g: "teamConstraint (evalMatch e) = Some g" using class_other(3) [OF e(3)] by blast
    have "g \<noteq> []" using assms(1) e(1) g by (auto simp: wellEvaluated_def)
    then show ?thesis using scope_matches_constraints(2) [OF e(2) g] g assms(2) by simp
  qed
  show ?thesis
  proof (cases "niTeamId n = []")
    case True
    then have "evaluatedMatch bs n ByTeam peer = None"
      by (intro evaluatedMatch_none) (use needs in blast)
    then show ?thesis using True by (simp add: tierMatch_def)
  next
    case False
    have "find (\<lambda>e. teamConstraint (evalMatch e) \<noteq> None \<and>
        matchesBindingScope (evalMatch e) (tierScope n peer))
        (filter (\<lambda>e. classOf e = ByTeam \<and> teamConstraint (evalMatch e) = Some (niTeamId n)) bs) =
        evaluatedMatch bs n ByTeam peer"
      by (rule tier_find) (use needs class_other(3) in blast)
    then show ?thesis using False by (simp add: tierMatch_def index_of)
  qed
qed

lemma account_tier:
  "tierMatch n \<lparr>tierName = by, tierEnabled = True, tierPeer = peer,
      tierCandidates = indexAccount (buildEvaluatedBindingsIndex bs),
      tierPredicate = (\<lambda>c. accountPattern (evalMatch c) \<noteq> ''*'')\<rparr> = evaluatedMatch bs n ByAccount peer"
proof -
  have "find (\<lambda>e. accountPattern (evalMatch e) \<noteq> ''*'' \<and>
      matchesBindingScope (evalMatch e) (tierScope n peer)) (filter (\<lambda>e. classOf e = ByAccount) bs) =
      evaluatedMatch bs n ByAccount peer"
    by (rule tier_find) (use class_other(4) in blast)
  then show ?thesis by (simp add: tierMatch_def index_of)
qed

lemma channel_tier:
  "tierMatch n \<lparr>tierName = by, tierEnabled = True, tierPeer = peer,
      tierCandidates = indexChannel (buildEvaluatedBindingsIndex bs),
      tierPredicate = (\<lambda>c. accountPattern (evalMatch c) = ''*'')\<rparr> = evaluatedMatch bs n ByChannel peer"
proof -
  have "find (\<lambda>e. accountPattern (evalMatch e) = ''*'' \<and>
      matchesBindingScope (evalMatch e) (tierScope n peer)) (filter (\<lambda>e. classOf e = ByChannel) bs) =
      evaluatedMatch bs n ByChannel peer"
    by (rule tier_find) (use class_other(5) in blast)
  then show ?thesis by (simp add: tierMatch_def index_of)
qed


lemma firstTierMatch_spec:
  "map_option (map_prod id evalBinding) (firstTierMatch n ts) =
   firstMatch (map (\<lambda>t. (tierName t, map_option evalBinding (tierMatch n t))) ts)"
  by (induction ts) (auto split: option.splits)

text \<open>An input as the code normalizes it.\<close>

definition normalInput :: "normalized_input \<Rightarrow> bool" where
  "normalInput n \<longleftrightarrow> js_trim (niGuildId n) = niGuildId n \<and> js_trim (niTeamId n) = niTeamId n \<and>
     (\<exists>a. niAccountId n = normalizeAccountId a)"

lemma normalizeInput_normal: "normalInput (normalizeInput i)"
  by (auto simp: normalInput_def normalizeInput_def normalizeRouteBindingId_def split: option.splits)

lemma tiers_implement_spec:
  assumes "normalInput n"
  shows "map_option (map_prod id evalBinding)
      (firstTierMatch n (routeTiers n (buildEvaluatedBindingsIndex
        (bindingsFrom (buildEvaluatedBindingsByChannel cfg) (niChannel n) (niAccountId n))))) = specMatch cfg n"
proof -
  let ?S = "filter (applies n) (evaluatedOf cfg)"
  let ?I = "buildEvaluatedBindingsIndex ?S"
  have S: "wellEvaluated ?S" by (rule evaluated_well)
  have trims: "js_trim (niGuildId n) = niGuildId n" "js_trim (niTeamId n) = niTeamId n"
    using assms by (simp_all add: normalInput_def)
  have parent: "collectPeerIndexedBindings ?I (niParentPeer n) = collectPeerIndexedBindings ?I (usableParent n)"
    if "usableParent n \<noteq> None"
    using that by (simp add: usableParent_def split: option.splits if_splits)
  have parentTier: "tierMatch n \<lparr>tierName = nm, tierEnabled = (usableParent n \<noteq> None),
      tierPeer = usableParent n, tierCandidates = collectPeerIndexedBindings ?I (niParentPeer n),
      tierPredicate = (\<lambda>c. case peerConstraint (evalMatch c) of ValidPeer k i \<Rightarrow> True | _ \<Rightarrow> False)\<rparr> =
      evaluatedMatch ?S n ByPeer (usableParent n)" for nm
    unfolding peer_tier [OF S, of n nm "usableParent n", symmetric]
    using parent by (simp add: tierMatch_def)
  have "map (\<lambda>t. (tierName t, map_option evalBinding (tierMatch n t))) (routeTiers n ?I) =
     [(ByPeer, matchOfClass cfg n ByPeer (niPeer n)),
      (ByParentPeer, matchOfClass cfg n ByPeer (usableParent n)),
      (ByPeerWildcard, matchOfClass cfg n ByPeerWildcard (niPeer n)),
      (ByGuildRoles, matchOfClass cfg n ByGuildRoles (niPeer n)),
      (ByGuild, matchOfClass cfg n ByGuild (niPeer n)),
      (ByTeam, matchOfClass cfg n ByTeam (niPeer n)),
      (ByAccount, matchOfClass cfg n ByAccount (niPeer n)),
      (ByChannel, matchOfClass cfg n ByChannel (niPeer n))]"
    unfolding routeTiers_def list.map peer_tier [OF S] wildcard_tier guild_roles_tier [OF S trims(1)]
      guild_tier [OF S trims(1)] team_tier [OF S trims(2)] account_tier channel_tier parentTier
      matchOfClass_evaluated by simp
  then show ?thesis unfolding firstTierMatch_spec bindingsFrom_filter specMatch_def by (simp only:)
qed

lemma routeWith_spec:
  assumes "normalInput n"
  shows "routeWith cfg (buildAgentLookup cfg) (buildEvaluatedBindingsIndex
      (bindingsFrom (buildEvaluatedBindingsByChannel cfg) (niChannel n) (niAccountId n))) n = specRoute cfg n"
  unfolding routeWith_def specRoute_def tiers_implement_spec [OF assms, symmetric]
  by (simp split: option.splits)


section \<open>Configurations and their sections\<close>

definition consistentConfigs :: "route_config list \<Rightarrow> bool" where
  "consistentConfigs cs = list_all (\<lambda>a. list_all (\<lambda>b.
     (bindingsRef a = bindingsRef b \<longrightarrow> cfgBindings a = cfgBindings b) \<and>
     (agentsRef a = agentsRef b \<longrightarrow> cfgAgents a = cfgAgents b) \<and>
     (sessionRef a = sessionRef b \<longrightarrow> cfgDmScope a = cfgDmScope b \<and> cfgMainKey a = cfgMainKey b \<and>
        cfgIdentityLinks a = cfgIdentityLinks b)) cs) cs"

lemma consistent_sections:
  assumes "consistentConfigs cs" and "a \<in> set cs" and "b \<in> set cs"
  shows "bindingsRef a = bindingsRef b \<Longrightarrow> cfgBindings a = cfgBindings b"
    "agentsRef a = agentsRef b \<Longrightarrow> cfgAgents a = cfgAgents b"
    "sessionRef a = sessionRef b \<Longrightarrow> cfgDmScope a = cfgDmScope b"
    "sessionRef a = sessionRef b \<Longrightarrow> cfgMainKey a = cfgMainKey b"
    "sessionRef a = sessionRef b \<Longrightarrow> cfgIdentityLinks a = cfgIdentityLinks b"
  using assms unfolding consistentConfigs_def list_all_iff by blast+

lemma buildAgentLookup_cong: "cfgAgents a = cfgAgents b \<Longrightarrow> buildAgentLookup a = buildAgentLookup b"
  by (simp add: buildAgentLookup_def resolveDefaultAgentId_def)

lemma buildEvaluated_cong:
  "cfgBindings a = cfgBindings b \<Longrightarrow> buildEvaluatedBindingsByChannel a = buildEvaluatedBindingsByChannel b"
  by (simp add: buildEvaluatedBindingsByChannel_def listBindings_def)

lemma scopes_same_roles:
  assumes "niGuildId n = niGuildId n'" "niTeamId n = niTeamId n'" "set (niRoleIds n) = set (niRoleIds n')"
  shows "matchesBindingScope m (tierScope n peer) = matchesBindingScope m (tierScope n' peer)"
  using assms by (simp add: matchesBindingScope_def tierScope_def routeBindingScopeMatches_def Let_def
      hasAnyRouteBindingRole_def list_ex_iff split: peer_constraint.splits option.splits)

text \<open>What a route depends on.\<close>

definition sameRouting :: "normalized_input \<Rightarrow> normalized_input \<Rightarrow> bool" where
  "sameRouting n n' \<longleftrightarrow> niChannel n = niChannel n' \<and> niAccountId n = niAccountId n' \<and> niPeer n = niPeer n' \<and>
     usableParent n = usableParent n' \<and> niGuildId n = niGuildId n' \<and> niTeamId n = niTeamId n' \<and>
     set (niRoleIds n) = set (niRoleIds n')"

lemma specRoute_cong:
  assumes "cfgBindings a = cfgBindings b" "cfgAgents a = cfgAgents b" "cfgDmScope a = cfgDmScope b"
    "cfgMainKey a = cfgMainKey b" "cfgIdentityLinks a = cfgIdentityLinks b"
  shows "specRoute a n = specRoute b n"
proof -
  have choose: "chooseRoute a = chooseRoute b" using assms by (simp add: chooseRoute_def fun_eq_iff Let_def)
  have match: "specMatch a n = specMatch b n"
    using assms by (simp add: specMatch_def matchOfClass_def specBindings_def listBindings_def)
  have default: "resolveDefaultAgentId a = resolveDefaultAgentId b"
    using assms by (simp add: resolveDefaultAgentId_def)
  show ?thesis unfolding specRoute_def choose match default buildAgentLookup_cong [OF assms(2)] by (rule refl)
qed

lemma specRoute_same:
  assumes "sameRouting n n'"
  shows "specRoute cfg n = specRoute cfg n'"
proof -
  have eqs: "niChannel n = niChannel n'" "niAccountId n = niAccountId n'" "niPeer n = niPeer n'"
    "usableParent n = usableParent n'" "niGuildId n = niGuildId n'" "niTeamId n = niTeamId n'"
    "set (niRoleIds n) = set (niRoleIds n')"
    using assms by (simp_all add: sameRouting_def)
  have choose: "chooseRoute cfg lookup n = chooseRoute cfg lookup n'" for lookup
    using eqs by (simp add: chooseRoute_def fun_eq_iff Let_def)
  have match: "specMatch cfg n = specMatch cfg n'"
    unfolding specMatch_def matchOfClass_def specBindings_def eqs(1-4)
      scopes_same_roles [OF eqs(5-7)] by (rule refl)
  show ?thesis unfolding specRoute_def choose match by (rule refl)
qed

section \<open>Keys\<close>

lemma takeWhile_separator: "c \<notin> set p \<Longrightarrow> takeWhile (\<lambda>d. d \<noteq> c) (p @ c # r) = p"
  by (induction p) auto

lemma joined_inj:
  assumes "c \<notin> set p" "c \<notin> set q" "\<forall>x\<in>set ps. c \<notin> set x" "\<forall>x\<in>set qs. c \<notin> set x"
    and "p @ concat (map (\<lambda>x. [c] @ x) ps) = q @ concat (map (\<lambda>x. [c] @ x) qs)"
  shows "p = q \<and> ps = qs"
  using assms
proof (induction ps arbitrary: p q qs)
  case Nil
  then show ?case by (cases qs) auto
next
  case (Cons x ps)
  show ?case
  proof (cases qs)
    case Nil
    then show ?thesis using Cons.prems by auto
  next
    case (Cons y ys)
    have eq: "p @ c # (x @ concat (map (\<lambda>x. [c] @ x) ps)) = q @ c # (y @ concat (map (\<lambda>x. [c] @ x) ys))"
      using Cons.prems(5) Cons by simp
    have "p = q"
      using arg_cong [OF eq, of "takeWhile (\<lambda>d. d \<noteq> c)"] Cons.prems(1,2)
      by (simp add: takeWhile_separator)
    then show ?thesis using eq Cons.IH [of x y ys] Cons.prems Cons by simp
  qed
qed


definition noTab :: "string \<Rightarrow> bool" where
  "noTab s \<longleftrightarrow> CHR 0x09 \<notin> set s"

text \<open>
  Inputs for which the table's key says what it should: no part holds the separator, a peer has an
  identifier, and nothing looks like the dash that stands for an absent part.
\<close>

definition plainInput :: "normalized_input \<Rightarrow> bool" where
  "plainInput n \<longleftrightarrow> noTab (niChannel n) \<and>
     (case niPeer n of None \<Rightarrow> True | Some p \<Rightarrow> peerId p \<noteq> [] \<and> noTab (peerId p)) \<and>
     (case niParentPeer n of None \<Rightarrow> True | Some p \<Rightarrow> noTab (peerId p)) \<and>
     noTab (niGuildId n) \<and> niGuildId n \<noteq> ''-'' \<and> noTab (niTeamId n) \<and> niTeamId n \<noteq> ''-'' \<and>
     list_all (\<lambda>r. noTab r \<and> r \<noteq> ''-'' \<and> CHR '','' \<notin> set r) (niRoleIds n)"

lemma noTab_Nil [simp]: "noTab []"
  by (simp add: noTab_def)

lemma noTab_Cons [simp]: "noTab (c # s) \<longleftrightarrow> c \<noteq> CHR 0x09 \<and> noTab s"
  by (auto simp: noTab_def)

lemma noTab_names [simp]: "noTab (chatTypeName k)" "noTab (dmScopeName scope)"
proof -
  show "noTab (chatTypeName k)" by (cases k) simp_all
  show "noTab (dmScopeName scope)" by (cases scope) simp_all
qed

lemma noTab_append [simp]: "noTab (a @ b) \<longleftrightarrow> noTab a \<and> noTab b"
  by (simp add: noTab_def)

lemma noTab_account: "normalInput n \<Longrightarrow> noTab (niAccountId n)"
proof -
  assume "normalInput n"
  then obtain a where a: "niAccountId n = normalizeAccountId a" by (auto simp: normalInput_def)
  have "\<not> idChar (CHR 0x09)" by code_simp
  then show ?thesis using normalizeAccountId_chars [of a] by (auto simp: a noTab_def list_all_iff)
qed

definition usablePeer :: "route_peer option \<Rightarrow> route_peer option" where
  "usablePeer peer = (case peer of None \<Rightarrow> None | Some p \<Rightarrow> if peerId p = [] then None else Some p)"

lemma chatTypeName_inj: "chatTypeName k @ '':'' @ i = chatTypeName k' @ '':'' @ i' \<Longrightarrow> k = k' \<and> i = i'"
  by (cases k; cases k') simp_all

lemma chatTypeName_dash: "chatTypeName k @ '':'' @ i \<noteq> ''-''"
  by (cases k) simp_all

lemma formatPeer_usable:
  "formatRouteCachePeer peer = (case usablePeer peer of
     None \<Rightarrow> ''-'' | Some p \<Rightarrow> chatTypeName (peerKind p) @ '':'' @ peerId p)"
  by (simp add: formatRouteCachePeer_def usablePeer_def split: option.split)

lemma formatPeer_inj:
  assumes "formatRouteCachePeer x = formatRouteCachePeer y"
  shows "usablePeer x = usablePeer y"
proof (cases "usablePeer x"; cases "usablePeer y")
  fix p q assume "usablePeer x = Some p" "usablePeer y = Some q"
  then show ?thesis
    using assms chatTypeName_inj [of "peerKind p" "peerId p" "peerKind q" "peerId q"]
    unfolding formatPeer_usable by simp
next
  fix p assume "usablePeer x = Some p" "usablePeer y = None"
  then show ?thesis using assms chatTypeName_dash [of "peerKind p" "peerId p"]
    unfolding formatPeer_usable by (simp only: option.case)
next
  fix q assume "usablePeer x = None" "usablePeer y = Some q"
  then show ?thesis using assms chatTypeName_dash [of "peerKind q" "peerId q", symmetric]
    unfolding formatPeer_usable by (simp only: option.case)
qed simp

lemma noTab_formatPeer:
  "(case peer of None \<Rightarrow> True | Some p \<Rightarrow> noTab (peerId p)) \<Longrightarrow> noTab (formatRouteCachePeer peer)"
  by (cases peer) (simp_all add: formatRouteCachePeer_def)

lemma formatRoles_joined:
  assumes "rs \<noteq> []"
  obtains q qs where "formatRoleIdsCacheKey rs = q @ concat (map (\<lambda>x. [CHR '',''] @ x) qs)"
    "set (q # qs) = set rs"
proof -
  consider (one) r where "rs = [r]" | (two) a b where "rs = [a, b]"
    | (more) a b c ds where "rs = a # b # c # ds"
    using assms by (metis list.exhaust)
  then show ?thesis
  proof cases
    case one
    then show ?thesis using that [of r "[]"] by (simp add: formatRoleIdsCacheKey_def)
  next
    case two
    then show ?thesis
      using that [of a "[b]"] that [of b "[a]"] by (cases "a \<le> b") (auto simp: formatRoleIdsCacheKey_def)
  next
    case more
    then have key: "formatRoleIdsCacheKey rs =
        (case sort rs of [] \<Rightarrow> [] | r # rs \<Rightarrow> r @ concat (map (\<lambda>q. '','' @ q) rs))"
      by (simp only: formatRoleIdsCacheKey_def list.case)
    have "sort rs \<noteq> []" using assms by (metis set_empty2 set_sort)
    then obtain s ss where s: "sort rs = s # ss" by (cases "sort rs") simp_all
    then have "set (s # ss) = set rs" by (metis set_sort)
    then show ?thesis using that [of s ss] unfolding key s by (simp only: list.case)
  qed
qed

lemma formatRoles_same:
  assumes "formatRoleIdsCacheKey rs = formatRoleIdsCacheKey rs'"
    and "list_all (\<lambda>r. noTab r \<and> r \<noteq> ''-'' \<and> CHR '','' \<notin> set r) rs"
    and "list_all (\<lambda>r. noTab r \<and> r \<noteq> ''-'' \<and> CHR '','' \<notin> set r) rs'"
  shows "set rs = set rs'"
proof -
  have dash: "us = []" if us: "formatRoleIdsCacheKey us = ''-''"
    "list_all (\<lambda>r. noTab r \<and> r \<noteq> ''-'' \<and> CHR '','' \<notin> set r) us" for us
  proof (rule ccontr)
    assume "us \<noteq> []"
    then obtain q qs where q: "formatRoleIdsCacheKey us = q @ concat (map (\<lambda>x. [CHR '',''] @ x) qs)"
      "set (q # qs) = set us" by (rule formatRoles_joined)
    have "q = ''-''"
      using joined_inj [of "CHR '',''" q "''-''" qs "[]"] q us by (auto simp: list_all_iff)
    then show False using us(2) q(2) by (auto simp: list_all_iff)
  qed
  have empty: "formatRoleIdsCacheKey [] = ''-''" by (simp add: formatRoleIdsCacheKey_def)
  show ?thesis
  proof (cases "rs = [] \<or> rs' = []")
    case True
    then show ?thesis using dash assms empty by metis
  next
    case False
    obtain q qs where q: "formatRoleIdsCacheKey rs = q @ concat (map (\<lambda>x. [CHR '',''] @ x) qs)"
      "set (q # qs) = set rs" using formatRoles_joined False by blast
    obtain p ps where p: "formatRoleIdsCacheKey rs' = p @ concat (map (\<lambda>x. [CHR '',''] @ x) ps)"
      "set (p # ps) = set rs'" using formatRoles_joined False by blast
    have commas: "\<forall>x\<in>set (q # qs). CHR '','' \<notin> set x" "\<forall>x\<in>set (p # ps). CHR '','' \<notin> set x"
      unfolding q(2) p(2) using assms(2,3) by (auto simp: list_all_iff)
    have "q = p \<and> qs = ps"
      using joined_inj [of "CHR '',''" q p qs ps] commas q(1) p(1) assms(1) by simp
    then show ?thesis using q(2) p(2) by simp
  qed
qed

lemma noTab_formatRoles:
  assumes "list_all (\<lambda>r. noTab r \<and> r \<noteq> ''-'' \<and> CHR '','' \<notin> set r) rs"
  shows "noTab (formatRoleIdsCacheKey rs)"
proof (cases "rs = []")
  case False
  then obtain q qs where q: "formatRoleIdsCacheKey rs = q @ concat (map (\<lambda>x. [CHR '',''] @ x) qs)"
    "set (q # qs) = set rs" by (rule formatRoles_joined)
  have tabs: "\<forall>x\<in>set (q # qs). noTab x" unfolding q(2) using assms by (simp add: list_all_iff)
  then have "noTab (concat (map (\<lambda>x. [CHR '',''] @ x) qs))" by (induction qs) simp_all
  then show ?thesis using q(1) tabs by simp
qed (simp add: formatRoleIdsCacheKey_def)

lemma route_key_same:
  assumes key: "buildResolvedRouteCacheKey n scope = buildResolvedRouteCacheKey n' scope'"
    and normal: "normalInput n" "normalInput n'" and plain: "plainInput n" "plainInput n'"
  shows "sameRouting n n'"
proof -
  let ?parts = "\<lambda>n scope. [niAccountId n, formatRouteCachePeer (niPeer n),
       formatRouteCachePeer (niParentPeer n), orDefault (niGuildId n) ''-'',
       orDefault (niTeamId n) ''-'', formatRoleIdsCacheKey (niRoleIds n), dmScopeName scope]"
  have parts: "\<forall>x\<in>set (niChannel n # ?parts n scope). CHR 0x09 \<notin> set x"
    if "normalInput n" "plainInput n" for n scope
  proof -
    have "list_all noTab (niChannel n # ?parts n scope)"
      using that noTab_account [OF that(1)]
      by (auto simp: plainInput_def orDefault_def intro!: noTab_formatPeer noTab_formatRoles split: option.splits)
    then show ?thesis by (simp add: list_all_iff noTab_def)
  qed
  have "niChannel n = niChannel n' \<and> ?parts n scope = ?parts n' scope'"
    using parts [OF normal(1) plain(1), of scope] parts [OF normal(2) plain(2), of scope'] key
    unfolding buildResolvedRouteCacheKey_def tabbed_def tab_def list.case
    by (intro joined_inj) simp_all
  then have eqs: "niChannel n = niChannel n'" "niAccountId n = niAccountId n'"
    "formatRouteCachePeer (niPeer n) = formatRouteCachePeer (niPeer n')"
    "formatRouteCachePeer (niParentPeer n) = formatRouteCachePeer (niParentPeer n')"
    "orDefault (niGuildId n) ''-'' = orDefault (niGuildId n') ''-''"
    "orDefault (niTeamId n) ''-'' = orDefault (niTeamId n') ''-''"
    "formatRoleIdsCacheKey (niRoleIds n) = formatRoleIdsCacheKey (niRoleIds n')"
    by simp_all
  have "niPeer n = niPeer n'"
    using formatPeer_inj [OF eqs(3)] plain by (simp add: plainInput_def usablePeer_def split: option.splits)
  moreover have "usableParent n = usableParent n'"
    using formatPeer_inj [OF eqs(4)] by (simp add: usableParent_def usablePeer_def)
  moreover have "niGuildId n = niGuildId n'" "niTeamId n = niTeamId n'"
    using eqs(5,6) plain by (simp_all add: plainInput_def orDefault_def split: if_splits)
  moreover have "set (niRoleIds n) = set (niRoleIds n')"
    using formatRoles_same [OF eqs(7)] plain by (simp add: plainInput_def)
  ultimately show ?thesis using eqs(1,2) by (simp add: sameRouting_def)
qed


section \<open>The memo tables\<close>

lemma account_key_inj:
  assumes "noTab a" "noTab a'" "c @ tab @ a = c' @ tab @ a'"
  shows "c = c' \<and> a = a'"
proof -
  have "rev a @ CHR 0x09 # rev c = rev a' @ CHR 0x09 # rev c'"
    using arg_cong [OF assms(3), of rev] by (simp add: tab_def)
  moreover have "rev a = rev a'"
    using arg_cong [OF calculation, of "takeWhile (\<lambda>d. d \<noteq> CHR 0x09)"] assms(1,2)
    by (simp add: takeWhile_separator noTab_def)
  ultimately show ?thesis by simp
qed

definition bindingsOf :: "route_config \<Rightarrow> string \<Rightarrow> string \<Rightarrow> evaluated_binding list" where
  "bindingsOf cfg = bindingsFrom (buildEvaluatedBindingsByChannel cfg)"

definition bindingsOk :: "route_config \<Rightarrow> bindings_cache \<Rightarrow> bool" where
  "bindingsOk cfg c \<longleftrightarrow> bcRef c = bindingsRef cfg \<and> bcByChannel c = buildEvaluatedBindingsByChannel cfg \<and>
     (\<forall>k e. jm_get (bcByChannelAccount c) k = Some e \<longrightarrow>
        (\<exists>ch a. k = ch @ tab @ a \<and> noTab a \<and> e = bindingsOf cfg ch a)) \<and>
     (\<forall>k x. jm_get (bcIndex c) k = Some x \<longrightarrow>
        (\<exists>ch a. k = ch @ tab @ a \<and> noTab a \<and> x = buildEvaluatedBindingsIndex (bindingsOf cfg ch a)))"

lemma bindingsOk_hits:
  assumes "bindingsOk cfg c" and "noTab a"
  shows "jm_get (bcByChannelAccount c) (ch @ tab @ a) = Some e \<Longrightarrow> e = bindingsOf cfg ch a"
    "jm_get (bcIndex c) (ch @ tab @ a) = Some x \<Longrightarrow> x = buildEvaluatedBindingsIndex (bindingsOf cfg ch a)"
  using assms account_key_inj [OF assms(2)] unfolding bindingsOk_def by (metis, metis)

definition routesOk :: "route_config \<Rightarrow> route_cache \<Rightarrow> bool" where
  "routesOk cfg c \<longleftrightarrow> rcBindingsRef c = bindingsRef cfg \<and> rcAgentsRef c = agentsRef cfg \<and>
     rcSessionRef c = sessionRef cfg \<and>
     (\<forall>k r. jm_get (rcByKey c) k = Some r \<longrightarrow>
        (\<exists>n scope. normalInput n \<and> plainInput n \<and> k = buildResolvedRouteCacheKey n scope \<and> r = specRoute cfg n))"

definition cachesOk :: "route_config list \<Rightarrow> route_caches \<Rightarrow> bool" where
  "cachesOk cs s \<longleftrightarrow>
     (\<forall>r l. agentCache s = Some (r, l) \<longrightarrow> (\<exists>cfg\<in>set cs. agentsRef cfg = r \<and> l = buildAgentLookup cfg)) \<and>
     (\<forall>c. bindingsCache s = Some c \<longrightarrow> (\<exists>cfg\<in>set cs. bindingsOk cfg c)) \<and>
     (\<forall>c. routeCache s = Some c \<longrightarrow> (\<exists>cfg\<in>set cs. routesOk cfg c))"

lemma bindingsOk_fresh:
  "bindingsOk cfg \<lparr>bcRef = bindingsRef cfg, bcByChannel = buildEvaluatedBindingsByChannel cfg,
     bcByChannelAccount = [], bcIndex = []\<rparr>"
  by (simp add: bindingsOk_def)

lemma bindingsOk_cong:
  "bindingsOk cfg c \<Longrightarrow> bcRef c = bindingsRef cfg' \<Longrightarrow> cfgBindings cfg = cfgBindings cfg' \<Longrightarrow> bindingsOk cfg' c"
  using buildEvaluated_cong [of cfg cfg'] by (simp add: bindingsOk_def bindingsOf_def)

lemma bindingsOk_put:
  assumes "bindingsOk cfg c" and "noTab a"
  shows "bindingsOk cfg (c\<lparr>bcByChannelAccount := jm_set (ch @ tab @ a) (bindingsOf cfg ch a) (bcByChannelAccount c),
      bcIndex := jm_set (ch @ tab @ a) (buildEvaluatedBindingsIndex (bindingsOf cfg ch a)) (bcIndex c)\<rparr>)"
    "bindingsOk cfg (c\<lparr>bcByChannelAccount := jm_set (ch @ tab @ a) (bindingsOf cfg ch a) [],
      bcIndex := jm_set (ch @ tab @ a) (buildEvaluatedBindingsIndex (bindingsOf cfg ch a)) []\<rparr>)"
    "bindingsOk cfg (c\<lparr>bcIndex := jm_set (ch @ tab @ a) (buildEvaluatedBindingsIndex (bindingsOf cfg ch a)) (bcIndex c)\<rparr>)"
  using assms by (auto simp: bindingsOk_def jm.get_put)

lemma bindingsCacheFor_ok:
  assumes "consistentConfigs cs" "cfg \<in> set cs" "cachesOk cs s"
  shows "bindingsOk cfg (bindingsCacheFor cfg s)"
proof (cases "bindingsCache s")
  case None
  then show ?thesis by (simp add: bindingsCacheFor_def bindingsOk_fresh)
next
  case (Some c)
  obtain cfg' where cfg': "cfg' \<in> set cs" "bindingsOk cfg' c" using assms(3) Some by (auto simp: cachesOk_def)
  show ?thesis
  proof (cases "bcRef c = bindingsRef cfg")
    case True
    then have "cfgBindings cfg' = cfgBindings cfg"
      using consistent_sections(1) [OF assms(1) cfg'(1) assms(2)] cfg'(2) by (simp add: bindingsOk_def)
    then show ?thesis using bindingsOk_cong [OF cfg'(2) True] Some True by (simp add: bindingsCacheFor_def)
  qed (use Some in \<open>simp add: bindingsCacheFor_def bindingsOk_fresh\<close>)
qed

text \<open>Looking up the bindings of a channel and an account.\<close>

lemma bindings_lookup:
  assumes "consistentConfigs cs" "cfg \<in> set cs" "cachesOk cs s" "noTab a"
  obtains c where "getEvaluatedBindingsForChannelAccount cfg ch a s = (bindingsOf cfg ch a, s\<lparr>bindingsCache := Some c\<rparr>)"
    "bindingsOk cfg c"
proof -
  let ?c = "bindingsCacheFor cfg s"
  have ok: "bindingsOk cfg ?c" by (rule bindingsCacheFor_ok [OF assms(1-3)])
  show ?thesis
  proof (cases "jm_get (bcByChannelAccount ?c) (ch @ tab @ a)")
    case (Some e)
    then show ?thesis
      using that [OF _ ok] bindingsOk_hits(1) [OF ok assms(4) Some]
      by (simp add: getEvaluatedBindingsForChannelAccount_def Let_def)
  next
    case None
    have from': "bindingsFrom (bcByChannel ?c) ch a = bindingsOf cfg ch a"
      using ok by (simp add: bindingsOk_def bindingsOf_def)
    let ?c1 = "?c\<lparr>bcByChannelAccount := jm_set (ch @ tab @ a) (bindingsOf cfg ch a) (bcByChannelAccount ?c),
      bcIndex := jm_set (ch @ tab @ a) (buildEvaluatedBindingsIndex (bindingsOf cfg ch a)) (bcIndex ?c)\<rparr>"
    let ?c2 = "if length (bcByChannelAccount ?c1) > MAX_EVALUATED_BINDINGS_CACHE_KEYS
       then ?c1\<lparr>bcByChannelAccount := jm_set (ch @ tab @ a) (bindingsOf cfg ch a) [],
         bcIndex := jm_set (ch @ tab @ a) (buildEvaluatedBindingsIndex (bindingsOf cfg ch a)) []\<rparr> else ?c1"
    have c1: "bindingsOk cfg ?c1" by (rule bindingsOk_put(1) [OF ok assms(4)])
    have "bindingsOk cfg ?c2" using c1 bindingsOk_put(2) [OF c1 assms(4), of ch] by (simp split: if_split)
    moreover have "getEvaluatedBindingsForChannelAccount cfg ch a s = (bindingsOf cfg ch a, s\<lparr>bindingsCache := Some ?c2\<rparr>)"
      using None by (simp only: getEvaluatedBindingsForChannelAccount_def Let_def option.case from')
    ultimately show ?thesis using that by blast
  qed
qed

lemma cachesOk_bindings:
  "cachesOk cs s \<Longrightarrow> cfg \<in> set cs \<Longrightarrow> bindingsOk cfg c \<Longrightarrow> cachesOk cs (s\<lparr>bindingsCache := Some c\<rparr>)"
  by (auto simp: cachesOk_def)

lemma index_lookup:
  assumes "consistentConfigs cs" "cfg \<in> set cs" "cachesOk cs s" "noTab a"
  obtains c where "getEvaluatedBindingIndexForChannelAccount cfg ch a s =
      (buildEvaluatedBindingsIndex (bindingsOf cfg ch a), s\<lparr>bindingsCache := Some c\<rparr>)"
    "bindingsOk cfg c"
proof -
  obtain c where c: "getEvaluatedBindingsForChannelAccount cfg ch a s = (bindingsOf cfg ch a, s\<lparr>bindingsCache := Some c\<rparr>)"
    "bindingsOk cfg c" by (rule bindings_lookup [OF assms])
  show ?thesis
  proof (cases "jm_get (bcIndex c) (ch @ tab @ a)")
    case (Some x)
    then show ?thesis using that [OF _ c(2)] bindingsOk_hits(2) [OF c(2) assms(4) Some]
      by (simp add: getEvaluatedBindingIndexForChannelAccount_def c(1) Let_def)
  next
    case None
    then show ?thesis using that [OF _ bindingsOk_put(3) [OF c(2) assms(4)]]
      by (simp add: getEvaluatedBindingIndexForChannelAccount_def c(1) Let_def)
  qed
qed

lemma lookup_of_agents:
  assumes "consistentConfigs cs" "cfg \<in> set cs" "cachesOk cs s"
  obtains t where "resolveAgentLookupCache cfg s = (buildAgentLookup cfg, s\<lparr>agentCache := t\<rparr>)"
    "cachesOk cs (s\<lparr>agentCache := t\<rparr>)"
proof (cases "\<exists>l. agentCache s = Some (agentsRef cfg, l)")
  case True
  then obtain l where l: "agentCache s = Some (agentsRef cfg, l)" by blast
  then obtain cfg' where cfg': "cfg' \<in> set cs" "agentsRef cfg' = agentsRef cfg" "l = buildAgentLookup cfg'"
    using assms(3) by (auto simp: cachesOk_def)
  have l': "l = buildAgentLookup cfg"
    using consistent_sections(2) [OF assms(1) cfg'(1) assms(2)] cfg'(2,3) buildAgentLookup_cong by metis
  have same: "s\<lparr>agentCache := Some (agentsRef cfg, buildAgentLookup cfg)\<rparr> = s" using l l' by (cases s) simp
  have "resolveAgentLookupCache cfg s = (buildAgentLookup cfg, s)"
    using l l' by (simp add: resolveAgentLookupCache_def)
  then show ?thesis
    by (intro that [of "Some (agentsRef cfg, buildAgentLookup cfg)"]) (simp_all only: same assms(3))
next
  case False
  then have "resolveAgentLookupCache cfg s =
      (buildAgentLookup cfg, s\<lparr>agentCache := Some (agentsRef cfg, buildAgentLookup cfg)\<rparr>)"
    by (auto simp: resolveAgentLookupCache_def split: option.splits)
  moreover have "cachesOk cs (s\<lparr>agentCache := Some (agentsRef cfg, buildAgentLookup cfg)\<rparr>)"
    using assms(2,3) by (auto simp: cachesOk_def)
  ultimately show ?thesis by (rule that)
qed


lemma routeCacheFor_ok:
  assumes "consistentConfigs cs" "cfg \<in> set cs" "cachesOk cs s"
  shows "routesOk cfg (resolveRouteCacheForConfig cfg s)"
proof (cases "routeCache s")
  case None
  then show ?thesis by (simp add: resolveRouteCacheForConfig_def routesOk_def)
next
  case (Some c)
  obtain cfg' where cfg': "cfg' \<in> set cs" "routesOk cfg' c" using assms(3) Some by (auto simp: cachesOk_def)
  show ?thesis
  proof (cases "rcBindingsRef c = bindingsRef cfg \<and> rcAgentsRef c = agentsRef cfg \<and> rcSessionRef c = sessionRef cfg")
    case True
    have refs: "rcBindingsRef c = bindingsRef cfg'" "rcAgentsRef c = agentsRef cfg'" "rcSessionRef c = sessionRef cfg'"
      using cfg'(2) by (simp_all add: routesOk_def)
    have "specRoute cfg' n = specRoute cfg n" for n
      using consistent_sections [OF assms(1) cfg'(1) assms(2)] True refs by (intro specRoute_cong) simp_all
    then have "routesOk cfg c" using cfg'(2) True by (simp add: routesOk_def)
    then show ?thesis using Some True by (simp add: resolveRouteCacheForConfig_def)
  next
    case False
    then show ?thesis using Some by (auto simp: resolveRouteCacheForConfig_def routesOk_def)
  qed
qed

lemma routesOk_put:
  assumes "routesOk cfg c" "normalInput n" "plainInput n"
  shows "routesOk cfg (c\<lparr>rcByKey := jm_set (buildResolvedRouteCacheKey n scope) (specRoute cfg n) (rcByKey c)\<rparr>)"
    "routesOk cfg (c\<lparr>rcByKey := jm_set (buildResolvedRouteCacheKey n scope) (specRoute cfg n) []\<rparr>)"
  using assms by (auto simp: routesOk_def jm.get_put)

lemma resolve_step:
  assumes cs: "consistentConfigs cs" "cfg \<in> set cs" "cachesOk cs s" and plain: "plainInput (normalizeInput i)"
  shows "fst (resolveAgentRoute cfg i s) = specRoute cfg (normalizeInput i) \<and>
    cachesOk cs (snd (resolveAgentRoute cfg i s))"
proof -
  let ?n = "normalizeInput i"
  let ?key = "buildResolvedRouteCacheKey ?n (nullish (cfgDmScope cfg) ScopeMain)"
  let ?table = "resolveRouteCacheForConfig cfg s"
  let ?s1 = "if cfgIdentityLinks cfg = None then s\<lparr>routeCache := Some ?table\<rparr> else s"
  have normal: "normalInput ?n" by (rule normalizeInput_normal)
  have table: "routesOk cfg ?table" by (rule routeCacheFor_ok [OF cs])
  have s1: "cachesOk cs ?s1" using cs(2,3) table by (auto simp: cachesOk_def)
  show ?thesis
  proof (cases "if cfgIdentityLinks cfg = None then jm_get (rcByKey ?table) ?key else None")
    case (Some r)
    then have hit: "cfgIdentityLinks cfg = None" "jm_get (rcByKey ?table) ?key = Some r" by (simp_all split: if_splits)
    obtain n' scope where n': "normalInput n'" "plainInput n'" "?key = buildResolvedRouteCacheKey n' scope"
      "r = specRoute cfg n'" using table hit(2) unfolding routesOk_def by blast
    have "r = specRoute cfg ?n"
      using specRoute_same [OF route_key_same [OF n'(3) normal n'(1) plain n'(2)]] n'(4) by simp
    then show ?thesis using Some hit s1 by (simp add: resolveAgentRoute_def Let_def)
  next
    case None
    obtain c2 where c2: "getEvaluatedBindingsForChannelAccount cfg (niChannel ?n) (niAccountId ?n) ?s1 =
        (bindingsOf cfg (niChannel ?n) (niAccountId ?n), ?s1\<lparr>bindingsCache := Some c2\<rparr>)" "bindingsOk cfg c2"
      by (rule bindings_lookup [OF cs(1,2) s1 noTab_account [OF normal]])
    let ?s2 = "?s1\<lparr>bindingsCache := Some c2\<rparr>"
    have s2: "cachesOk cs ?s2" by (rule cachesOk_bindings [OF s1 cs(2) c2(2)])
    obtain c3 where c3: "getEvaluatedBindingIndexForChannelAccount cfg (niChannel ?n) (niAccountId ?n) ?s2 =
        (buildEvaluatedBindingsIndex (bindingsOf cfg (niChannel ?n) (niAccountId ?n)), ?s2\<lparr>bindingsCache := Some c3\<rparr>)"
      "bindingsOk cfg c3"
      by (rule index_lookup [OF cs(1,2) s2 noTab_account [OF normal]])
    let ?s3 = "?s2\<lparr>bindingsCache := Some c3\<rparr>"
    have s3: "cachesOk cs ?s3" by (rule cachesOk_bindings [OF s2 cs(2) c3(2)])
    obtain t where t: "resolveAgentLookupCache cfg ?s3 = (buildAgentLookup cfg, ?s3\<lparr>agentCache := t\<rparr>)"
      "cachesOk cs (?s3\<lparr>agentCache := t\<rparr>)" by (rule lookup_of_agents [OF cs(1,2) s3])
    let ?s4 = "?s3\<lparr>agentCache := t\<rparr>"
    have route: "routeWith cfg (buildAgentLookup cfg)
        (buildEvaluatedBindingsIndex (bindingsOf cfg (niChannel ?n) (niAccountId ?n))) ?n = specRoute cfg ?n"
      unfolding bindingsOf_def by (rule routeWith_spec [OF normal])
    let ?m = "jm_set ?key (specRoute cfg ?n) (rcByKey ?table)"
    let ?m1 = "if length ?m > MAX_RESOLVED_ROUTE_CACHE_KEYS then jm_set ?key (specRoute cfg ?n) [] else ?m"
    have result: "resolveAgentRoute cfg i s = (specRoute cfg ?n,
        if cfgIdentityLinks cfg \<noteq> None then ?s4 else ?s4\<lparr>routeCache := Some (?table\<lparr>rcByKey := ?m1\<rparr>)\<rparr>)"
      unfolding resolveAgentRoute_def Let_def None option.case c2(1) c3(1) t(1) prod.case route by simp
    have "routesOk cfg (?table\<lparr>rcByKey := ?m1\<rparr>)"
      using routesOk_put [OF table normal plain] by (simp split: if_split)
    then have "cachesOk cs (?s4\<lparr>routeCache := Some (?table\<lparr>rcByKey := ?m1\<rparr>)\<rparr>)"
      using t(2) cs(2) by (auto simp: cachesOk_def)
    then show ?thesis unfolding result using t(2) by (simp only: fst_conv snd_conv split: if_split) simp
  qed
qed

text \<open>The tables after a sequence of resolutions, between which the sections may be replaced.\<close>

fun routeRun :: "route_caches \<Rightarrow> (route_config \<times> agent_route_input) list \<Rightarrow> route_caches" where
  "routeRun s [] = s"
| "routeRun s ((cfg, i) # calls) = routeRun (snd (resolveAgentRoute cfg i s)) calls"

lemma noCaches_ok: "cachesOk cs noCaches"
  by (simp add: cachesOk_def noCaches_def)

lemma routeRun_ok:
  assumes "consistentConfigs cs" "cachesOk cs s"
    and "list_all (\<lambda>(cfg, i). cfg \<in> set cs \<and> plainInput (normalizeInput i)) calls"
  shows "cachesOk cs (routeRun s calls)"
  using assms(2,3)
proof (induction s calls rule: routeRun.induct)
  case (2 s cfg i calls)
  then show ?case using resolve_step [OF assms(1), of cfg s i] by simp
qed simp


text \<open>
  C3. The route: the memoized and indexed resolution gives what reading the bindings in configuration
  order gives, the first binding of the most specific kind that matches.  It does so after any number
  of earlier resolutions, provided that configurations which share a section by reference agree on
  its contents, and that this input and all the earlier ones are inputs which the key of the route
  table tells apart: no tab in the channel, the peers, the guild, the team or a role; a peer, where
  there is one, whose identifier is not blank; no guild, team or role named by a single hyphen; and
  no comma in a role.
\<close>

theorem route_is_most_specific_binding:
  assumes "consistentConfigs (cfg # map fst calls)"
    and "list_all (\<lambda>(c, input). plainInput (normalizeInput input)) calls"
    and "plainInput (normalizeInput i)"
  shows "fst (resolveAgentRoute cfg i (routeRun noCaches calls)) = specRoute cfg (normalizeInput i)"
proof -
  have "list_all (\<lambda>(c, input). c \<in> set (cfg # map fst calls) \<and> plainInput (normalizeInput input)) calls"
    using assms(2) by (force simp: list_all_iff)
  then have "cachesOk (cfg # map fst calls) (routeRun noCaches calls)"
    by (rule routeRun_ok [OF assms(1) noCaches_ok])
  then show ?thesis using resolve_step [OF assms(1) _ _ assms(3)] by simp
qed

definition exampleBindings :: route_config where
  "exampleBindings = \<lparr>bindingsRef = 1, agentsRef = 2, sessionRef = 3,
     cfgBindings = [
       \<lparr>bindingIsAcp = False, bindingAgentId = ''w'', bindingMatch = \<lparr>matchChannel = Some ''X'',
          matchAccountId = Some ''*'', matchPeer = None, matchGuildId = None, matchTeamId = Some (JsInt 1),
          matchRoles = None\<rparr>, bindingDmScope = None\<rparr>,
       \<lparr>bindingIsAcp = False, bindingAgentId = ''f'', bindingMatch = \<lparr>matchChannel = Some ''x'',
          matchAccountId = Some ''a'', matchPeer = Some (Some ''group'', Some (JsInt 7)), matchGuildId = None,
          matchTeamId = None, matchRoles = None\<rparr>, bindingDmScope = None\<rparr>],
     cfgAgents = [], cfgDmScope = None, cfgMainKey = None, cfgIdentityLinks = None\<rparr>"

definition exampleInput :: agent_route_input where
  "exampleInput = \<lparr>inputChannel = ''x'', inputAccountId = Some ''a'',
     inputPeer = Some (ChatChannel, Some (JsInt 7)), inputParentPeer = None, inputGuildId = None,
     inputTeamId = Some (JsInt 1), inputRoleIds = None\<rparr>"

lemma example_normalized:
  "normalizeInput exampleInput = \<lparr>niChannel = ''x'', niAccountId = ''a'',
     niPeer = Some \<lparr>peerKind = ChatChannel, peerId = ''7''\<rparr>, niParentPeer = None, niGuildId = [],
     niTeamId = ''1'', niRoleIds = []\<rparr>"
  by code_simp

lemma specRoute_matchedBy:
  "routeMatchedBy (specRoute cfg n) = nullish (map_option fst (specMatch cfg n)) ByDefault"
  by (simp add: specRoute_def chooseRoute_def Let_def nullish_def split: option.splits prod.splits)

lemma route_is_most_specific_binding_witness:
  "routeMatchedBy (fst (resolveAgentRoute exampleBindings exampleInput
     (routeRun noCaches [(exampleBindings, exampleInput)]))) = ByPeer"
proof -
  have configs: "consistentConfigs [exampleBindings, exampleBindings]" by (simp add: consistentConfigs_def)
  have plain: "plainInput (normalizeInput exampleInput)" unfolding example_normalized by code_simp
  have "matchOfClass exampleBindings (normalizeInput exampleInput) ByPeer (niPeer (normalizeInput exampleInput)) =
      Some (cfgBindings exampleBindings ! 1)"
    unfolding example_normalized by code_simp
  then have matched: "map_option fst (specMatch exampleBindings (normalizeInput exampleInput)) = Some ByPeer"
    by (simp add: specMatch_def)
  have "fst (resolveAgentRoute exampleBindings exampleInput (routeRun noCaches [(exampleBindings, exampleInput)])) =
      specRoute exampleBindings (normalizeInput exampleInput)"
    by (rule route_is_most_specific_binding) (simp_all add: configs plain)
  then show ?thesis using matched
    by (simp only: specRoute_matchedBy nullish_def option.case)
qed

section \<open>Where the key runs together\<close>

lemma resolve_remembers:
  assumes "cfgIdentityLinks cfg = None"
  obtains c where "routeCache (snd (resolveAgentRoute cfg i s)) = Some c"
    "rcBindingsRef c = bindingsRef cfg" "rcAgentsRef c = agentsRef cfg" "rcSessionRef c = sessionRef cfg"
    "jm_get (rcByKey c) (buildResolvedRouteCacheKey (normalizeInput i) (nullish (cfgDmScope cfg) ScopeMain)) =
       Some (fst (resolveAgentRoute cfg i s))"
proof -
  let ?n = "normalizeInput i"
  let ?key = "buildResolvedRouteCacheKey ?n (nullish (cfgDmScope cfg) ScopeMain)"
  let ?table = "resolveRouteCacheForConfig cfg s"
  have refs: "rcBindingsRef ?table = bindingsRef cfg" "rcAgentsRef ?table = agentsRef cfg"
    "rcSessionRef ?table = sessionRef cfg"
    by (simp_all add: resolveRouteCacheForConfig_def Let_def split: option.split)
  show ?thesis
  proof (cases "jm_get (rcByKey ?table) ?key")
    case (Some r)
    then have "resolveAgentRoute cfg i s = (r, s\<lparr>routeCache := Some ?table\<rparr>)"
      using assms by (simp add: resolveAgentRoute_def Let_def)
    then show ?thesis using that [of ?table] Some refs by simp
  next
    case None
    let ?s1 = "s\<lparr>routeCache := Some ?table\<rparr>"
    obtain bs s2 where s2: "getEvaluatedBindingsForChannelAccount cfg (niChannel ?n) (niAccountId ?n) ?s1 = (bs, s2)"
      by (cases "getEvaluatedBindingsForChannelAccount cfg (niChannel ?n) (niAccountId ?n) ?s1")
    obtain x s3 where s3: "getEvaluatedBindingIndexForChannelAccount cfg (niChannel ?n) (niAccountId ?n) s2 = (x, s3)"
      by (cases "getEvaluatedBindingIndexForChannelAccount cfg (niChannel ?n) (niAccountId ?n) s2")
    obtain lookup s4 where s4: "resolveAgentLookupCache cfg s3 = (lookup, s4)"
      by (cases "resolveAgentLookupCache cfg s3")
    have "resolveAgentRoute cfg i s = (routeWith cfg lookup x ?n, s4\<lparr>routeCache := Some (?table\<lparr>rcByKey :=
        (if length (jm_set ?key (routeWith cfg lookup x ?n) (rcByKey ?table)) > MAX_RESOLVED_ROUTE_CACHE_KEYS
         then jm_set ?key (routeWith cfg lookup x ?n) []
         else jm_set ?key (routeWith cfg lookup x ?n) (rcByKey ?table))\<rparr>)\<rparr>)"
      using assms None s2 s3 s4 by (simp add: resolveAgentRoute_def Let_def)
    then show ?thesis using that refs by (simp add: jm.get_put)
  qed
qed

lemma resolve_hit:
  assumes "cfgIdentityLinks cfg = None" "routeCache s = Some c"
    "rcBindingsRef c = bindingsRef cfg" "rcAgentsRef c = agentsRef cfg" "rcSessionRef c = sessionRef cfg"
    "jm_get (rcByKey c) (buildResolvedRouteCacheKey (normalizeInput i) (nullish (cfgDmScope cfg) ScopeMain)) = Some r"
  shows "fst (resolveAgentRoute cfg i s) = r"
  using assms by (simp add: resolveAgentRoute_def resolveRouteCacheForConfig_def Let_def)

lemma no_peer_session:
  "niPeer n = None \<Longrightarrow> routeSessionKey (chooseRoute cfg lookup n agent nm override) =
     buildAgentMainSessionKey (routeAgentId (chooseRoute cfg lookup n agent nm override)) (cfgMainKey cfg)"
  by (simp add: chooseRoute_def Let_def buildAgentSessionKey_def buildAgentPeerSessionKey_def nullish_def
      directPeerId_def resolveLinkedPeerId_def normalizeLowercaseStringOrEmpty_def normalizeOptionalString_def
      buildAgentMainSessionKey_def normalizeMainKey_def orDefault_def DEFAULT_MAIN_KEY_def main_trim split: option.splits)

lemma blank_group_session:
  assumes "niPeer n = Some p" "peerKind p = ChatGroup" "peerId p = []"
    and "niChannel n = normalizeLowercaseStringOrEmpty (Some channel)" "js_trim channel \<noteq> []"
  shows "routeSessionKey (chooseRoute cfg lookup n agent nm override) =
     colon [''agent'', normalizeAgentId (Some (routeAgentId (chooseRoute cfg lookup n agent nm override))),
       normalizeLowercaseStringOrEmpty (Some channel), ''group'', ''unknown'']"
proof -
  have channel: "normalizeLowercaseStringOrEmpty (Some (niChannel n)) = niChannel n" "niChannel n \<noteq> []"
    using assms(4,5) by (simp_all add: normalizeLowercase_idem normalizeLowercase_empty)
  have unknown: "normalizeSessionPeerId c ChatGroup (Some ''unknown'') = ''unknown''" for c
    by (cases "isCasePreservingPeer c ChatGroup") (simp_all add: normalizeSessionPeerId_def unknown_trim unknown_lower)
  show ?thesis
    using assms channel
    by (simp add: chooseRoute_def Let_def buildAgentSessionKey_def buildAgentPeerSessionKey_def nullish_def
        orDefault_def unknown)
qed

text \<open>
  C38. A peer whose identifier is blank and no peer at all have the same key but not the same
  session: a direct input without a peer goes to the main session, yet after a group input with a
  blank identifier it is answered with the group's route, whatever the tables held before.
\<close>

theorem empty_peer_id_poisons_route_cache:
  assumes "cfgIdentityLinks cfg = None" and "inputPeer i = Some (ChatGroup, ident)"
    and "normalizeRouteBindingId ident = []" and "js_trim (inputChannel i) \<noteq> []"
  shows "fst (resolveAgentRoute cfg (i\<lparr>inputPeer := None\<rparr>) (snd (resolveAgentRoute cfg i s))) =
      fst (resolveAgentRoute cfg i s) \<and>
    routeSessionKey (specRoute cfg (normalizeInput (i\<lparr>inputPeer := None\<rparr>))) =
      buildAgentMainSessionKey (routeAgentId (specRoute cfg (normalizeInput (i\<lparr>inputPeer := None\<rparr>)))) (cfgMainKey cfg) \<and>
    routeSessionKey (specRoute cfg (normalizeInput i)) =
      colon [''agent'', normalizeAgentId (Some (routeAgentId (specRoute cfg (normalizeInput i)))),
        normalizeLowercaseStringOrEmpty (Some (inputChannel i)), ''group'', ''unknown'']"
proof (intro conjI)
  let ?scope = "nullish (cfgDmScope cfg) ScopeMain"
  have key: "buildResolvedRouteCacheKey (normalizeInput (i\<lparr>inputPeer := None\<rparr>)) ?scope =
      buildResolvedRouteCacheKey (normalizeInput i) ?scope"
    using assms(2,3) by (simp add: buildResolvedRouteCacheKey_def normalizeInput_def normalizeInputPeer_def
        formatRouteCachePeer_def)
  obtain c where c: "routeCache (snd (resolveAgentRoute cfg i s)) = Some c"
    "rcBindingsRef c = bindingsRef cfg" "rcAgentsRef c = agentsRef cfg" "rcSessionRef c = sessionRef cfg"
    "jm_get (rcByKey c) (buildResolvedRouteCacheKey (normalizeInput i) ?scope) = Some (fst (resolveAgentRoute cfg i s))"
    by (rule resolve_remembers [OF assms(1)])
  show "fst (resolveAgentRoute cfg (i\<lparr>inputPeer := None\<rparr>) (snd (resolveAgentRoute cfg i s))) =
      fst (resolveAgentRoute cfg i s)"
    by (rule resolve_hit [OF assms(1) c(1-4)]) (simp only: key c(5))
  have none: "niPeer (normalizeInput (i\<lparr>inputPeer := None\<rparr>)) = None"
    by (simp add: normalizeInput_def normalizeInputPeer_def)
  show "routeSessionKey (specRoute cfg (normalizeInput (i\<lparr>inputPeer := None\<rparr>))) =
      buildAgentMainSessionKey (routeAgentId (specRoute cfg (normalizeInput (i\<lparr>inputPeer := None\<rparr>)))) (cfgMainKey cfg)"
    unfolding specRoute_def by (simp add: no_peer_session [OF none] split: option.split)
  have some: "niPeer (normalizeInput i) = Some \<lparr>peerKind = ChatGroup, peerId = []\<rparr>"
    "niChannel (normalizeInput i) = normalizeLowercaseStringOrEmpty (Some (inputChannel i))"
    using assms(2,3) by (simp_all add: normalizeInput_def normalizeInputPeer_def)
  show "routeSessionKey (specRoute cfg (normalizeInput i)) =
      colon [''agent'', normalizeAgentId (Some (routeAgentId (specRoute cfg (normalizeInput i)))),
        normalizeLowercaseStringOrEmpty (Some (inputChannel i)), ''group'', ''unknown'']"
    unfolding specRoute_def
    by (simp add: blank_group_session [OF some(1) _ _ some(2) assms(4)] split: option.split)
qed


definition blankPeerInput :: agent_route_input where
  "blankPeerInput = exampleInput\<lparr>inputPeer := Some (ChatGroup, Some (JsString '' ''))\<rparr>"

lemma empty_peer_id_poisons_route_cache_witness:
  "fst (resolveAgentRoute exampleBindings (blankPeerInput\<lparr>inputPeer := None\<rparr>)
     (snd (resolveAgentRoute exampleBindings blankPeerInput noCaches))) =
   fst (resolveAgentRoute exampleBindings blankPeerInput noCaches)"
proof -
  have "cfgIdentityLinks exampleBindings = None" by (simp add: exampleBindings_def)
  moreover have "inputPeer blankPeerInput = Some (ChatGroup, Some (JsString '' ''))"
    by (simp add: blankPeerInput_def)
  moreover have "normalizeRouteBindingId (Some (JsString '' '')) = []" by code_simp
  moreover have "js_trim (inputChannel blankPeerInput) \<noteq> []" by code_simp
  ultimately show ?thesis
    by (rule empty_peer_id_poisons_route_cache [THEN conjunct1])
qed

section \<open>Session keys keep peers apart\<close>

text \<open>
  Parameters whose key names their peer: the widest scope, no identity links, a peer, a channel
  without the separator, and an account that is not called like a kind of chat.
\<close>

definition isolating :: "peer_key_params \<Rightarrow> bool" where
  "isolating p \<longleftrightarrow> keyDmScope p = Some PerAccountChannelPeer \<and> keyIdentityLinks p = None \<and>
     CHR '':'' \<notin> set (keyChannel p) \<and> js_trim (nullish (keyPeerId p) []) \<noteq> [] \<and>
     normalizeAccountId (keyAccountId p) \<noteq> ''group'' \<and> normalizeAccountId (keyAccountId p) \<noteq> ''channel''"

definition keyedChannel :: "peer_key_params \<Rightarrow> string" where
  "keyedChannel p = orDefault (normalizeLowercaseStringOrEmpty (Some (keyChannel p))) ''unknown''"

definition keyedKind :: "peer_key_params \<Rightarrow> chat_type" where
  "keyedKind p = nullish (keyPeerKind p) ChatDirect"

definition keyedPeer :: "peer_key_params \<Rightarrow> string" where
  "keyedPeer p = (if keyedKind p = ChatDirect
     then normalizeLowercaseStringOrEmpty (Some (nullish (keyPeerId p) []))
     else normalizeSessionPeerId (keyChannel p) (keyedKind p) (keyPeerId p))"

lemma colon_prefix_inj:
  assumes "CHR '':'' \<notin> set a" "CHR '':'' \<notin> set b"
    and "a @ CHR '':'' # x = b @ CHR '':'' # y"
  shows "a = b \<and> x = y"
proof -
  have "a = b"
    using arg_cong [OF assms(3), of "takeWhile (\<lambda>d. d \<noteq> CHR '':'')"] assms(1,2)
    by (simp add: takeWhile_separator)
  then show ?thesis using assms(3) by simp
qed

lemma idChars_no_colon: "list_all idChar s \<Longrightarrow> CHR '':'' \<notin> set s"
proof -
  have "\<not> idChar (CHR '':'')" by code_simp
  then show "list_all idChar s \<Longrightarrow> CHR '':'' \<notin> set s" by (auto simp: list_all_iff)
qed

lemma keyedChannel_no_colon:
  assumes "CHR '':'' \<notin> set (keyChannel p)"
  shows "CHR '':'' \<notin> set (keyedChannel p)"
proof -
  have lower: "js_lower_char c = CHR '':'' \<Longrightarrow> c = CHR '':''" for c
    using js_lower_char_cases [of c] by (auto simp: capitalCode_def)
  have trimmed: "set (js_trim s) \<subseteq> set s" for s
    using set_dropWhileD [of _ js_space "rev (dropWhile js_space s)"] set_dropWhileD [of _ js_space s]
    by (auto simp: js_trim_def)
  have "CHR '':'' \<notin> set (js_lower (js_trim (keyChannel p)))"
  proof
    assume "CHR '':'' \<in> set (js_lower (js_trim (keyChannel p)))"
    then obtain c where c: "c \<in> set (js_trim (keyChannel p))" "CHR '':'' = js_lower_char c"
      unfolding js_lower_def set_map by blast
    then show False using lower [OF c(2) [symmetric]] trimmed assms by blast
  qed
  then show ?thesis by (simp add: keyedChannel_def normalizeLowercase_trim orDefault_def)
qed

lemma isolating_key:
  assumes "isolating p"
  shows "buildAgentPeerSessionKey p = ''agent:'' @ normalizeAgentId (Some (keyAgentId p)) @ CHR '':'' #
    (keyedChannel p @ CHR '':'' #
      ((if keyedKind p = ChatDirect then normalizeAccountId (keyAccountId p) else chatTypeName (keyedKind p)) @
       CHR '':'' # ((if keyedKind p = ChatDirect then ''direct:'' else []) @ keyedPeer p)))"
    and "keyedPeer p \<noteq> []"
proof -
  have trim: "js_trim (nullish (keyPeerId p) []) \<noteq> []" using assms by (simp add: isolating_def)
  have direct: "directPeerId p PerAccountChannelPeer = normalizeLowercaseStringOrEmpty (Some (nullish (keyPeerId p) []))"
    using assms by (simp add: directPeerId_def Let_def isolating_def resolveLinkedPeerId_def normalizeLowercase_trim)
  have lower: "normalizeLowercaseStringOrEmpty (Some (js_trim s)) = normalizeLowercaseStringOrEmpty (Some s)" for s
    by (simp add: normalizeLowercase_trim)
  have some: "normalizeSessionPeerId c k (keyPeerId p) \<noteq> []" for c k
    using trim by (simp add: normalizeSessionPeerId_def Let_def lower normalizeLowercase_empty)
  have kept: "s \<noteq> [] \<Longrightarrow> orDefault s d = s" for s d by (simp add: orDefault_def)
  show "keyedPeer p \<noteq> []"
    using trim some by (simp add: keyedPeer_def normalizeLowercase_empty)
  show "buildAgentPeerSessionKey p = ''agent:'' @ normalizeAgentId (Some (keyAgentId p)) @ CHR '':'' #
    (keyedChannel p @ CHR '':'' #
      ((if keyedKind p = ChatDirect then normalizeAccountId (keyAccountId p) else chatTypeName (keyedKind p)) @
       CHR '':'' # ((if keyedKind p = ChatDirect then ''direct:'' else []) @ keyedPeer p)))"
    using assms trim some direct
    by (simp add: isolating_def buildAgentPeerSessionKey_def Let_def keyedKind_def [symmetric]
        keyedChannel_def [symmetric] keyedPeer_def colon_def js_join_def kept normalizeLowercase_empty)
qed

text \<open>
  C37. Session keys keep peers apart: two messages share a session only if they agree on the agent,
  the channel, the kind of chat, the peer and, for direct messages, the account.  Both messages have
  the widest scope (per account, channel and peer) and no identity links, a channel name without a
  colon, a peer identifier that is not blank, and an account that is not named \<open>group\<close> or \<open>channel\<close>.
\<close>

theorem session_keys_isolate_peers:
  assumes "isolating p" and "isolating q" and "buildAgentPeerSessionKey p = buildAgentPeerSessionKey q"
  shows "normalizeAgentId (Some (keyAgentId p)) = normalizeAgentId (Some (keyAgentId q)) \<and>
    keyedChannel p = keyedChannel q \<and> keyedKind p = keyedKind q \<and> keyedPeer p = keyedPeer q \<and>
    (if keyedKind p = ChatDirect then normalizeAccountId (keyAccountId p) = normalizeAccountId (keyAccountId q)
     else True)"
proof -
  define third where "third = (\<lambda>p. if keyedKind p = ChatDirect then normalizeAccountId (keyAccountId p)
    else chatTypeName (keyedKind p))"
  define rest where "rest = (\<lambda>p. (if keyedKind p = ChatDirect then ''direct:'' else []) @ keyedPeer p)"
  have key: "normalizeAgentId (Some (keyAgentId p)) @ CHR '':'' # (keyedChannel p @ CHR '':'' #
      (third p @ CHR '':'' # rest p)) = normalizeAgentId (Some (keyAgentId q)) @ CHR '':'' #
      (keyedChannel q @ CHR '':'' # (third q @ CHR '':'' # rest q))"
    using assms(3) unfolding isolating_key(1) [OF assms(1)] isolating_key(1) [OF assms(2)] third_def rest_def
    by simp
  have channel: "CHR '':'' \<notin> set (keyedChannel r)" if "isolating r" for r
    using that by (intro keyedChannel_no_colon) (simp add: isolating_def)
  have kind: "CHR '':'' \<notin> set (chatTypeName k)" for k by (cases k) simp_all
  have thirds: "CHR '':'' \<notin> set (third r)" for r
    using idChars_no_colon normalizeAccountId_chars [of "keyAccountId r"] kind by (simp add: third_def)
  have agents: "normalizeAgentId (Some (keyAgentId p)) = normalizeAgentId (Some (keyAgentId q))"
    and eq: "keyedChannel p @ CHR '':'' # (third p @ CHR '':'' # rest p) =
      keyedChannel q @ CHR '':'' # (third q @ CHR '':'' # rest q)"
    using colon_prefix_inj [OF _ _ key] idChars_no_colon normalizeAgentId_chars by blast+
  have channels: "keyedChannel p = keyedChannel q" and eq': "third p @ CHR '':'' # rest p = third q @ CHR '':'' # rest q"
    using colon_prefix_inj [OF channel [OF assms(1)] channel [OF assms(2)] eq] by simp_all
  have third': "third p = third q" and rest': "rest p = rest q"
    using colon_prefix_inj [OF thirds thirds eq'] by simp_all
  have named: "normalizeAccountId (keyAccountId r) \<noteq> chatTypeName k" if "isolating r" "k \<noteq> ChatDirect" for r k
    using that by (cases k) (simp_all add: isolating_def)
  have names: "chatTypeName k = chatTypeName k' \<Longrightarrow> k = k'" for k k' by (cases k; cases k') simp_all
  have kinds: "keyedKind p = keyedKind q"
    using third' named [OF assms(1), of "keyedKind q"] named [OF assms(2), of "keyedKind p"] names
    by (simp add: third_def split: if_splits)
  then have "keyedPeer p = keyedPeer q" using rest' by (simp add: rest_def split: if_splits)
  then show ?thesis using agents channels kinds third' by (simp add: third_def split: if_splits)
qed

definition aliceParams :: "string \<Rightarrow> peer_key_params" where
  "aliceParams name = \<lparr>keyAgentId = ''a'', keyMainKey = None, keyChannel = ''x'', keyAccountId = None,
     keyPeerKind = None, keyPeerId = Some name, keyIdentityLinks = None,
     keyDmScope = Some PerAccountChannelPeer\<rparr>"

lemma session_keys_isolate_peers_witness:
  "keyedPeer (aliceParams ''Al'') = keyedPeer (aliceParams '' al'')"
proof -
  have "isolating (aliceParams ''Al'')" "isolating (aliceParams '' al'')"
    "buildAgentPeerSessionKey (aliceParams ''Al'') = buildAgentPeerSessionKey (aliceParams '' al'')"
    by code_simp+
  then show ?thesis using session_keys_isolate_peers by blast
qed

end
