(* ===== verification/SessionKeyParse.thy ===== *)
theory SessionKeyParse
  imports SessionKeys
begin

text \<open>
  Reading session keys: \<open>src/sessions/session-key-utils.ts\<close> and the functions of
  \<open>src/routing/session-key.ts\<close> that rest on it.

  The regular expressions are read off as functions on the characters; all of them are
  deterministic.  The table of normalized keys only repeats what the function computes and is left
  out.
\<close>

section \<open>Normalization that keeps opaque identifiers\<close>

text \<open>A literal matched with the flag that ignores case.\<close>

definition lowerPrefix :: "string \<Rightarrow> string \<Rightarrow> bool" where
  "lowerPrefix h s \<longleftrightarrow> prefix h (js_lower (take (length h) s))"

definition mayContainCasePreservingPeer :: "string \<Rightarrow> bool" where
  "mayContainCasePreservingPeer raw =
     (let folded = js_lower raw
      in list_ex (\<lambda>d. js_includes folded (descChannel d @ '':'')) CASE_PRESERVING_PEERS)"

record preserved_span =
  spanStart :: nat
  spanEnd :: nat
  spanTrim :: bool

text \<open>
  \<open>(^|:)channel:kind:([^:]+)\<close> at one position: how far the segment is and how long.
\<close>

definition segmentAt :: "string \<Rightarrow> bool \<Rightarrow> string \<Rightarrow> (nat \<times> nat) option" where
  "segmentAt hdr atStart s =
     (let h = (if atStart \<and> lowerPrefix hdr s then Some (length hdr)
               else if s \<noteq> [] \<and> hd s = CHR '':'' \<and> lowerPrefix hdr (tl s) then Some (Suc (length hdr))
               else None)
      in case h of
           None \<Rightarrow> None
         | Some n \<Rightarrow>
             let segment = takeWhile (\<lambda>c. c \<noteq> CHR '':'') (drop n s)
             in if segment = [] then None else Some (n, length segment))"

lemma segmentAt_nonempty: "segmentAt hdr atStart s = Some (h, n) \<Longrightarrow> 0 < n"
  by (auto simp: segmentAt_def Let_def split: option.splits if_splits)

text \<open>\<open>matchAll\<close> goes on behind each match.\<close>

function segmentSpans :: "string \<Rightarrow> bool \<Rightarrow> nat \<Rightarrow> string \<Rightarrow> preserved_span list" where
  "segmentSpans hdr atStart pos s =
     (if s = [] then []
      else case segmentAt hdr atStart s of
             None \<Rightarrow> segmentSpans hdr False (Suc pos) (tl s)
           | Some (h, n) \<Rightarrow>
               \<lparr>spanStart = pos + h, spanEnd = pos + h + n, spanTrim = True\<rparr> #
               segmentSpans hdr False (pos + h + n) (drop (h + n) s))"
  by pat_completeness auto
termination
  by (relation "measure (\<lambda>(hdr, atStart, pos, s). length s)") (auto dest: segmentAt_nonempty)

declare segmentSpans.simps [simp del]

text \<open>\<open>^(?:agent:[^:]*:)+:*channel:kind:\<close>\<close>

function skipAgentWrappers :: "string \<Rightarrow> string" where
  "skipAgentWrappers s =
     (if lowerPrefix ''agent:'' s then
        (case dropWhile (\<lambda>c. c \<noteq> CHR '':'') (drop 6 s) of
           [] \<Rightarrow> s
         | c # rest \<Rightarrow> skipAgentWrappers rest)
      else s)"
  by pat_completeness auto
termination
proof (relation "measure length")
  fix s c and rest :: string
  assume "dropWhile (\<lambda>c. c \<noteq> CHR '':'') (drop 6 s) = c # rest"
  then have "Suc (length rest) \<le> length (drop 6 s)"
    using length_dropWhile_le [of "\<lambda>c. c \<noteq> CHR '':''" "drop 6 s"] by simp
  then show "(rest, s) \<in> measure length" by simp
qed simp

declare skipAgentWrappers.simps [simp del]

definition scopedTailStart :: "string \<Rightarrow> string \<Rightarrow> nat option" where
  "scopedTailStart hdr raw =
     (let rest = skipAgentWrappers raw;
          body = dropWhile (\<lambda>c. c = CHR '':'') rest
      in if length rest = length raw then None
         else if lowerPrefix hdr body then Some (length raw - length body + length hdr)
         else None)"

definition collectTailSpan :: "string \<Rightarrow> nat \<Rightarrow> preserved_span list" where
  "collectTailSpan raw tailStart =
     (if tailStart \<ge> length raw then []
      else
        let tail = drop tailStart raw
        in case js_lastIndexOfString '':thread:'' (normalizeLowercaseStringOrEmpty (Some tail)) of
             None \<Rightarrow> [\<lparr>spanStart = tailStart, spanEnd = length raw, spanTrim = False\<rparr>]
           | Some markerIndex \<Rightarrow>
               \<lparr>spanStart = tailStart, spanEnd = tailStart + markerIndex, spanTrim = False\<rparr> #
               (let threadIdStart = tailStart + markerIndex + length '':thread:''
                in if threadIdStart < length raw
                   then [\<lparr>spanStart = threadIdStart, spanEnd = length raw, spanTrim = False\<rparr>] else []))"

definition descriptorSpans :: "string \<Rightarrow> case_preserving_peer \<Rightarrow> string \<Rightarrow> preserved_span list" where
  "descriptorSpans raw d peerKind =
     (let hdr = descChannel d @ '':'' @ peerKind @ '':''
      in case descSpan d of
           SegmentSpan \<Rightarrow> segmentSpans hdr True 0 raw
         | TailSpan \<Rightarrow>
             (case scopedTailStart hdr raw of
                Some tailStart \<Rightarrow> collectTailSpan raw tailStart
              | None \<Rightarrow> if descUnscoped d \<and> lowerPrefix hdr raw then collectTailSpan raw (length hdr) else []))"

definition collectCasePreservedSpans :: "string \<Rightarrow> preserved_span list" where
  "collectCasePreservedSpans raw =
     concat (map (\<lambda>d. concat (map (descriptorSpans raw d) (descPeerKinds d))) CASE_PRESERVING_PEERS)"

definition js_slice :: "nat \<Rightarrow> nat \<Rightarrow> string \<Rightarrow> string" where
  "js_slice a b s = take (b - a) (drop a s)"

fun emitSpans :: "string \<Rightarrow> nat \<Rightarrow> preserved_span list \<Rightarrow> string" where
  "emitSpans raw cursor [] = normalizeLowercaseStringOrEmpty (Some (drop cursor raw))"
| "emitSpans raw cursor (sp # spans) =
     (if spanStart sp < cursor then emitSpans raw cursor spans
      else
        normalizeLowercaseStringOrEmpty (Some (js_slice cursor (spanStart sp) raw)) @
        (let preserved = js_slice (spanStart sp) (spanEnd sp) raw
         in if spanTrim sp then js_trim preserved else preserved) @
        emitSpans raw (spanEnd sp) spans)"

definition normalizeSessionKeyPreservingOpaquePeerIds :: "string option \<Rightarrow> string" where
  "normalizeSessionKeyPreservingOpaquePeerIds sessionKey =
     (case normalizeOptionalString sessionKey of
        None \<Rightarrow> []
      | Some raw \<Rightarrow>
          if \<not> mayContainCasePreservingPeer raw then js_lower raw
          else emitSpans raw 0 (sort_key spanStart
                 (filter (\<lambda>sp. spanEnd sp > spanStart sp) (collectCasePreservedSpans raw))))"

section \<open>Parsing\<close>

record parsed_agent_key =
  parsedAgentId :: string
  parsedRest :: string

definition parseAgentSessionKey :: "string option \<Rightarrow> parsed_agent_key option" where
  "parseAgentSessionKey sessionKey =
     (let raw = normalizeSessionKeyPreservingOpaquePeerIds sessionKey
      in if raw = [] then None
         else
           let parts = js_split (CHR '':'') raw
           in if length parts < 3 \<or> parts ! 1 = [] \<or> parts ! 2 = [] then None
              else if parts ! 0 \<noteq> ''agent'' then None
              else
                let agentId = normalizeOptionalString (Some (parts ! 1));
                    rest = js_join '':'' (drop 2 parts)
                in case agentId of
                     None \<Rightarrow> None
                   | Some a \<Rightarrow> if rest = [] then None
                                else Some \<lparr>parsedAgentId = a, parsedRest = rest\<rparr>)"

text \<open>\<open>^cron:[^:]+:run:[^:]+\<close>, followed by a colon or the end, or by the end only.\<close>

definition cronRunShape :: "string list \<Rightarrow> bool" where
  "cronRunShape parts \<longleftrightarrow> length parts \<ge> 4 \<and> parts ! 0 = ''cron'' \<and> parts ! 1 \<noteq> [] \<and>
     parts ! 2 = ''run'' \<and> parts ! 3 \<noteq> []"

definition isCronRunSessionKey :: "string option \<Rightarrow> bool" where
  "isCronRunSessionKey sessionKey =
     (case parseAgentSessionKey sessionKey of
        None \<Rightarrow> False
      | Some p \<Rightarrow> cronRunShape (js_split (CHR '':'') (parsedRest p)))"

definition parseCronRunScopeSuffix :: "string option \<Rightarrow> string option \<times> string option" where
  "parseCronRunScopeSuffix sessionKey =
     (case normalizeOptionalString sessionKey of
        None \<Rightarrow> (None, None)
      | Some raw \<Rightarrow>
          (case parseAgentSessionKey (Some raw) of
             None \<Rightarrow> (Some raw, None)
           | Some p \<Rightarrow>
               let parts = js_split (CHR '':'') (parsedRest p)
               in if \<not> (cronRunShape parts \<and> length parts = 4) then (Some raw, None)
                  else (case js_lastIndexOfString '':run:'' (js_lower raw) of
                          None \<Rightarrow> (Some (take (length raw - 1) raw), Some (drop 4 raw))
                        | Some markerIndex \<Rightarrow>
                            (Some (take markerIndex raw), Some (drop (markerIndex + length '':run:'') raw)))))"

definition lowerStartsWith :: "string option \<Rightarrow> string \<Rightarrow> bool" where
  "lowerStartsWith v p = js_starts_with (normalizeLowercaseStringOrEmpty v) p"

definition isCronSessionKey :: "string option \<Rightarrow> bool" where
  "isCronSessionKey sessionKey =
     (case parseAgentSessionKey sessionKey of
        None \<Rightarrow> False
      | Some p \<Rightarrow> lowerStartsWith (Some (parsedRest p)) ''cron:'')"

definition isSubagentSessionKey :: "string option \<Rightarrow> bool" where
  "isSubagentSessionKey sessionKey =
     (case normalizeOptionalString sessionKey of
        None \<Rightarrow> False
      | Some raw \<Rightarrow>
          if lowerStartsWith (Some raw) ''subagent:'' then True
          else lowerStartsWith (map_option parsedRest (parseAgentSessionKey (Some raw))) ''subagent:'')"

text \<open>The matches of \<open>(^|:)subagent:\<close>, which do not share a colon.\<close>

function subagentMatches :: "bool \<Rightarrow> string \<Rightarrow> nat" where
  "subagentMatches atStart s =
     (if s = [] then 0
      else if atStart \<and> prefix ''subagent:'' s then Suc (subagentMatches False (drop 9 s))
      else if prefix '':subagent:'' s then Suc (subagentMatches False (drop 10 s))
      else subagentMatches False (tl s))"
  by pat_completeness auto
termination
  by (relation "measure (\<lambda>(atStart, s). length s)") auto

declare subagentMatches.simps [simp del]

definition getSubagentDepth :: "string option \<Rightarrow> nat" where
  "getSubagentDepth sessionKey =
     (let raw = normalizeLowercaseStringOrEmpty sessionKey
      in if raw = [] then 0
         else
           let scoped = nullish (map_option parsedRest (parseAgentSessionKey (Some raw))) raw
           in subagentMatches True (js_lower scoped))"

definition isAcpSessionKey :: "string option \<Rightarrow> bool" where
  "isAcpSessionKey sessionKey =
     (case normalizeOptionalString sessionKey of
        None \<Rightarrow> False
      | Some raw \<Rightarrow>
          if lowerStartsWith (Some raw) ''acp:'' then True
          else lowerStartsWith (map_option parsedRest (parseAgentSessionKey (Some raw))) ''acp:'')"

text \<open>The base key and the thread.\<close>

definition parseThreadSessionSuffix :: "string option \<Rightarrow> string option \<times> string option" where
  "parseThreadSessionSuffix sessionKey =
     (case normalizeOptionalString sessionKey of
        None \<Rightarrow> (None, None)
      | Some raw \<Rightarrow>
          let lowerRaw = normalizeLowercaseStringOrEmpty (Some raw)
          in case js_lastIndexOfString '':thread:'' lowerRaw of
               None \<Rightarrow> (Some raw, None)
             | Some markerIndex \<Rightarrow>
                 (Some (take markerIndex raw),
                  normalizeOptionalString (Some (drop (markerIndex + length '':thread:'') raw))))"

record delivery_route =
  deliveryAccountId :: "string option"
  deliveryChannel :: string
  deliveryPeerId :: string
  deliveryPeerKind :: string
  deliveryThreadId :: "string option"

definition SESSION_DELIVERY_PEER_KINDS :: "string list" where
  "SESSION_DELIVERY_PEER_KINDS = [''channel'', ''direct'', ''dm'', ''group'']"

definition parseSessionDeliveryRoute :: "string option \<Rightarrow> delivery_route option" where
  "parseSessionDeliveryRoute sessionKey =
     (let (base, thread) = parseThreadSessionSuffix sessionKey
      in case parseAgentSessionKey (orElse base sessionKey) of
           None \<Rightarrow> None
         | Some parsed \<Rightarrow>
             let parts = js_split (CHR '':'') (parsedRest parsed)
             in if parts ! 0 = ''agent'' \<or> length parts < 3 then None
                else
                  let channel = normalizeLowercaseStringOrEmpty (Some (parts ! 0))
                  in if channel = [] then None
                     else if length parts \<ge> 4 \<and> (parts ! 2 = ''direct'' \<or> parts ! 2 = ''dm'') then
                       (case (normalizeOptionalString (Some (parts ! 1)), normalizeOptionalString (Some (parts ! 3)),
                              normalizeOptionalString (Some (js_join '':'' (drop 3 parts)))) of
                          (Some accountId, Some firstSegment, Some peerId) \<Rightarrow>
                            Some \<lparr>deliveryAccountId = Some accountId, deliveryChannel = channel,
                                  deliveryPeerId = peerId, deliveryPeerKind = parts ! 2,
                                  deliveryThreadId = thread\<rparr>
                        | _ \<Rightarrow> None)
                     else
                       let peerKind = parts ! 1
                       in if peerKind \<notin> set SESSION_DELIVERY_PEER_KINDS then None
                          else (case (normalizeOptionalString (Some (parts ! 2)),
                                      normalizeOptionalString (Some (js_join '':'' (drop 2 parts)))) of
                                  (Some firstSegment, Some peerId) \<Rightarrow>
                                    Some \<lparr>deliveryAccountId = None, deliveryChannel = channel,
                                          deliveryPeerId = peerId, deliveryPeerKind = peerKind,
                                          deliveryThreadId = thread\<rparr>
                                | _ \<Rightarrow> None))"

record conversation_ref =
  refChannel :: string
  refKind :: string
  refRawId :: string
  refPrefix :: string

definition parseRawSessionConversationRef :: "string option \<Rightarrow> conversation_ref option" where
  "parseRawSessionConversationRef sessionKey =
     (case normalizeOptionalString sessionKey of
        None \<Rightarrow> None
      | Some raw \<Rightarrow>
          let rawParts = js_split (CHR '':'') raw;
              hasAgentWrapper = (normalizeLowercaseStringOrEmpty (Some (rawParts ! 0)) = ''agent'')
          in if hasAgentWrapper \<and> (length rawParts < 3 \<or> normalizeOptionalString (Some (rawParts ! 1)) = None)
             then None
             else
               let bodyStartIndex = (if hasAgentWrapper then 2 else 0);
                   parts = drop bodyStartIndex rawParts
               in if normalizeLowercaseStringOrEmpty (Some (parts ! 0)) = ''agent'' then None
                  else if length parts < 3 \<or> normalizeOptionalString (Some (parts ! 2)) = None then None
                  else
                    let channel = normalizeLowercaseStringOrEmpty (Some (parts ! 0));
                        k = normalizeLowercaseStringOrEmpty (Some (parts ! 1))
                    in if channel = [] \<or> (k \<noteq> ''group'' \<and> k \<noteq> ''channel'') then None
                       else (case (normalizeOptionalString (Some (js_join '':'' (drop 2 parts))),
                                   normalizeOptionalString (Some (js_join '':'' (take (bodyStartIndex + 2) rawParts)))) of
                               (Some rawId, Some pre) \<Rightarrow>
                                 Some \<lparr>refChannel = channel, refKind = k, refRawId = rawId, refPrefix = pre\<rparr>
                             | _ \<Rightarrow> None))"

text \<open>Which keys need a proof before their lower-case alias is used.\<close>

function skipOwners :: "string list \<Rightarrow> bool \<Rightarrow> string list \<times> bool" where
  "skipOwners parts wrapped =
     (if length parts \<ge> 3 \<and> normalizeLowercaseStringOrEmpty (Some (hd parts)) = ''agent''
      then skipOwners (drop 2 parts) True else (parts, wrapped))"
  by pat_completeness auto
termination
  by (relation "measure (\<lambda>(parts, wrapped). length parts)") auto

declare skipOwners.simps [simp del]

definition requiresFoldedSessionKeyAliasProof :: "string option \<Rightarrow> bool" where
  "requiresFoldedSessionKeyAliasProof sessionKey =
     (case normalizeOptionalString sessionKey of
        None \<Rightarrow> False
      | Some raw \<Rightarrow>
          let (body, wrapped) = skipOwners (js_split (CHR '':'') raw) False;
              parts = (if wrapped then dropWhile (\<lambda>p. normalizeOptionalString (Some p) = None) body else body);
              at = (\<lambda>i. if i < length parts then Some (parts ! i) else None)
          in case findCasePreservingPeerDescriptor (at 0) (at 1) of
               None \<Rightarrow> False
             | Some d \<Rightarrow> descSpan d = TailSpan)"

section \<open>Request keys and store keys\<close>

datatype session_scope = PerSender | GlobalScope

text \<open>What \<open>scopedHeartbeatWakeOptions\<close> adds to the options.\<close>

datatype wake_addition = NoAddition | AddSessionKey string | AddAgentId string

definition scopedHeartbeatWakeOptions ::
    "string \<Rightarrow> string option \<Rightarrow> session_scope option \<Rightarrow> wake_addition" where
  "scopedHeartbeatWakeOptions sessionKey mainKey scope =
     (case parseAgentSessionKey (Some sessionKey) of
        None \<Rightarrow> NoAddition
      | Some parsed \<Rightarrow>
          if isCronRunSessionKey (Some sessionKey) then
            if scope = Some GlobalScope then AddAgentId (parsedAgentId parsed)
            else AddSessionKey (buildAgentMainSessionKey (parsedAgentId parsed) mainKey)
          else AddSessionKey sessionKey)"

definition resolveEventSessionKey :: "string \<Rightarrow> string option \<Rightarrow> session_scope option \<Rightarrow> string" where
  "resolveEventSessionKey sessionKey mainKey scope =
     (case parseAgentSessionKey (Some sessionKey) of
        None \<Rightarrow> sessionKey
      | Some parsed \<Rightarrow>
          if \<not> isCronRunSessionKey (Some sessionKey) then sessionKey
          else if scope = Some GlobalScope then ''global''
          else buildAgentMainSessionKey (parsedAgentId parsed) mainKey)"

definition toAgentRequestSessionKey :: "string option \<Rightarrow> string option" where
  "toAgentRequestSessionKey storeKey =
     (let raw = js_trim (nullish storeKey [])
      in if raw = [] then None
         else Some (nullish (map_option parsedRest (parseAgentSessionKey (Some raw))) raw))"

definition agentSessionKeysMatchByRequestKey :: "string option \<Rightarrow> string option \<Rightarrow> bool" where
  "agentSessionKeysMatchByRequestKey left right =
     (let leftRaw = js_trim (nullish left []); rightRaw = js_trim (nullish right [])
      in if leftRaw = [] \<or> rightRaw = [] then False
         else leftRaw = rightRaw \<or>
           toAgentRequestSessionKey (Some leftRaw) = toAgentRequestSessionKey (Some rightRaw))"

definition toAgentStoreSessionKey :: "string \<Rightarrow> string option \<Rightarrow> string option \<Rightarrow> string" where
  "toAgentStoreSessionKey agentId requestKey mainKey =
     (let raw = js_trim (nullish requestKey []);
          lowered = normalizeLowercaseStringOrEmpty (Some raw)
      in if raw = [] \<or> lowered = DEFAULT_MAIN_KEY then buildAgentMainSessionKey agentId mainKey
         else case parseAgentSessionKey (Some raw) of
                Some parsed \<Rightarrow> ''agent:'' @ parsedAgentId parsed @ '':'' @ parsedRest parsed
              | None \<Rightarrow>
                  let normalized = normalizeSessionKeyPreservingOpaquePeerIds (Some raw)
                  in if js_starts_with lowered ''agent:'' then normalized
                     else ''agent:'' @ normalizeAgentId (Some agentId) @ '':'' @ normalized)"

definition resolveAgentIdFromSessionKey :: "string option \<Rightarrow> string" where
  "resolveAgentIdFromSessionKey sessionKey =
     normalizeAgentId (Some (nullish (map_option parsedAgentId (parseAgentSessionKey sessionKey)) DEFAULT_AGENT_ID))"

datatype session_key_shape = ShapeMissing | ShapeAgent | ShapeLegacyOrAlias | ShapeMalformedAgent

definition classifySessionKeyShape :: "string option \<Rightarrow> session_key_shape" where
  "classifySessionKeyShape sessionKey =
     (let raw = js_trim (nullish sessionKey [])
      in if raw = [] then ShapeMissing
         else if parseAgentSessionKey (Some raw) \<noteq> None then ShapeAgent
         else if js_starts_with (normalizeLowercaseStringOrEmpty (Some raw)) ''agent:'' then ShapeMalformedAgent
         else ShapeLegacyOrAlias)"

definition isUnscopedSessionKeySentinel :: "string option \<Rightarrow> bool" where
  "isUnscopedSessionKeySentinel sessionKey =
     (let lowered = normalizeLowercaseStringOrEmpty sessionKey
      in lowered = ''global'' \<or> lowered = ''unknown'')"

definition scopeLegacySessionKeyToAgent ::
    "string option \<Rightarrow> string option \<Rightarrow> string option \<Rightarrow> string option" where
  "scopeLegacySessionKeyToAgent agentId sessionKey mainKey =
     (let raw = js_trim (nullish sessionKey [])
      in if raw = [] then None
         else
           let agent = js_trim (nullish agentId [])
           in if agent = [] \<or> classifySessionKeyShape (Some raw) \<noteq> ShapeLegacyOrAlias then Some raw
              else Some (toAgentStoreSessionKey agent (Some raw) mainKey))"

definition normalizeOptionalAgentId :: "string option \<Rightarrow> string option" where
  "normalizeOptionalAgentId v = map_option (\<lambda>t. normalizeAgentId (Some t)) (normalizeOptionalString v)"

definition sanitizeAgentId :: "string option \<Rightarrow> string" where
  "sanitizeAgentId v = normalizeAgentId v"

end
