(* ===== verification/SessionKeyProofs.thy ===== *)
theory SessionKeyProofs
  imports SessionKeyParse RouteProofs
begin

text \<open>
  Reading back what the key builders wrote: delivery routes, Matrix rooms and store keys survive the
  round trip, and where a name of the key looks like the marker of a thread they do not.
\<close>

section \<open>Clean strings\<close>

definition clean :: "string \<Rightarrow> bool" where
  "clean s \<longleftrightarrow> list_all (\<lambda>c. \<not> js_space c \<and> js_lower_char c = c) s"

lemma clean_append [simp]: "clean (a @ b) \<longleftrightarrow> clean a \<and> clean b"
  by (simp add: clean_def)

lemma clean_Cons [simp]: "clean (c # s) \<longleftrightarrow> \<not> js_space c \<and> js_lower_char c = c \<and> clean s"
  by (simp add: clean_def)

lemma clean_Nil [simp]: "clean []"
  by (simp add: clean_def)

lemma clean_take: "clean s \<Longrightarrow> clean (take n s)"
  unfolding clean_def by (rule list_all_take)

lemma clean_drop: "clean s \<Longrightarrow> clean (drop n s)"
  unfolding clean_def list_all_iff by (meson in_set_dropD)

lemma clean_trim: "list_all (\<lambda>c. \<not> js_space c) s \<Longrightarrow> js_trim s = s"
  by (rule js_trim_id) (auto simp: list_all_iff)

lemma clean_no_space: "clean s \<Longrightarrow> list_all (\<lambda>c. \<not> js_space c) s"
  by (simp add: clean_def list_all_iff)

lemma clean_lower: "clean s \<Longrightarrow> js_lower s = s"
  unfolding js_lower_def clean_def by (rule map_idI) (simp add: list_all_iff)

lemma clean_normal: "clean s \<Longrightarrow> normalizeLowercaseStringOrEmpty (Some s) = s"
  by (simp add: normalizeLowercase_trim clean_trim clean_no_space clean_lower)

lemma space_free_optional: "list_all (\<lambda>c. \<not> js_space c) s \<Longrightarrow> normalizeOptionalString (Some s) = orNull s"
  by (simp add: normalizeOptionalString_def clean_trim orNull_def Let_def)

lemma idChar_clean: "idChar c \<Longrightarrow> \<not> js_space c \<and> js_lower_char c = c"
  by (auto simp: idChar_def alnumChar_def js_space_def js_lower_char_def capitalCode_def Let_def)

lemma idChars_clean: "list_all idChar s \<Longrightarrow> clean s"
  unfolding clean_def list_all_iff using idChar_clean by blast

text \<open>A key without capitals and blanks is its own normal form.\<close>

lemma slice_append: "a \<le> b \<Longrightarrow> js_slice a b s @ drop b s = drop a s"
  by (metis append_take_drop_id drop_drop js_slice_def le_add_diff_inverse2)

lemma emit_clean:
  "clean raw \<Longrightarrow> \<forall>sp\<in>set spans. spanStart sp < spanEnd sp \<Longrightarrow> emitSpans raw cursor spans = drop cursor raw"
proof (induction raw cursor spans rule: emitSpans.induct)
  case (1 raw cursor)
  then show ?case by (simp add: clean_normal clean_drop)
next
  case (2 raw cursor sp spans)
  show ?case
  proof (cases "spanStart sp < cursor")
    case False
    have "clean (js_slice a b raw)" for a b
      unfolding js_slice_def by (intro clean_take clean_drop) (use 2 in simp)
    then have "emitSpans raw cursor (sp # spans) = js_slice cursor (spanStart sp) raw @
        (js_slice (spanStart sp) (spanEnd sp) raw @ drop (spanEnd sp) raw)"
      using False 2 by (simp add: clean_normal clean_trim clean_no_space Let_def)
    also have "\<dots> = drop cursor raw" using False 2 by (simp add: slice_append)
    finally show ?thesis .
  qed (use 2 in simp)
qed

lemma normal_clean: "clean raw \<Longrightarrow> normalizeSessionKeyPreservingOpaquePeerIds (Some raw) = raw"
  by (auto simp: normalizeSessionKeyPreservingOpaquePeerIds_def space_free_optional clean_no_space orNull_def
      clean_lower emit_clean)

section \<open>Parsing what was built\<close>

lemma first_segment: "js_split c s ! 0 = takeWhile (\<lambda>d. d \<noteq> c) s"
  by (induction s) (auto split: list.splits)

lemma parse_normal:
  assumes "normalizeSessionKeyPreservingOpaquePeerIds k = ''agent:'' @ a @ CHR '':'' # rest"
    and "list_all idChar a" "a \<noteq> []" "rest \<noteq> []" "hd rest \<noteq> CHR '':''"
  shows "parseAgentSessionKey k = Some \<lparr>parsedAgentId = a, parsedRest = rest\<rparr>"
proof -
  have "js_split (CHR '':'') (''agent'' @ CHR '':'' # (a @ CHR '':'' # rest)) =
      ''agent'' # a # js_split (CHR '':'') rest"
    using idChars_no_colon [OF assms(2)] by (simp add: js_split_append)
  then have split: "js_split (CHR '':'') (''agent:'' @ a @ CHR '':'' # rest) = ''agent'' # a # js_split (CHR '':'') rest"
    by simp
  have "js_split (CHR '':'') rest ! 0 \<noteq> []"
    unfolding first_segment using assms(4,5) by (cases rest) simp_all
  moreover have "normalizeOptionalString (Some a) = Some a"
    using assms(2,3) by (simp add: space_free_optional clean_no_space idChars_clean orNull_def)
  moreover have "js_split (CHR '':'') rest \<noteq> []" by simp
  ultimately show ?thesis
    unfolding parseAgentSessionKey_def assms(1) split Let_def
    using assms(3,4) js_join_split [of "CHR '':''" rest] by (simp add: Suc_le_eq numeral_3_eq_3)
qed

subsection \<open>The marker of a thread\<close>

lemma find_rev_upt:
  "i < k \<Longrightarrow> P i \<Longrightarrow> \<forall>j. i < j \<and> j < k \<longrightarrow> \<not> P j \<Longrightarrow> find P (rev [0..<k]) = Some i"
  by (induction k) (auto simp: less_Suc_eq)

lemma lastIndex_at:
  assumes "i \<le> length s" "prefix m (drop i s)" "\<And>j. i < j \<Longrightarrow> \<not> prefix m (drop j s)"
  shows "js_lastIndexOfString m s = Some i"
  unfolding js_lastIndexOfString_def using assms by (intro find_rev_upt) auto

lemma lastIndex_None:
  assumes "\<And>j. \<not> prefix m (drop j s)"
  shows "js_lastIndexOfString m s = None"
  unfolding js_lastIndexOfString_def find_None_iff using assms by blast

lemma not_includes:
  assumes "\<not> js_includes s m" "m \<noteq> []"
  shows "\<not> prefix m (drop j s)"
proof (cases "j \<le> length s")
  case True
  then show ?thesis using assms(1) by (auto simp: js_includes_def list_ex_iff)
qed (use assms(2) in simp)

lemma js_includesI: "s = a @ m @ b \<Longrightarrow> js_includes s m"
  unfolding js_includes_def list_ex_iff by (intro bexI [of _ "length a"]) auto

lemma filter_drop_length: "length (filter P (drop k s)) \<le> length (filter P s)"
  by (metis append_take_drop_id filter_append le_add2 length_append)

text \<open>A thread without a colon: no later place of the key reads as its marker.\<close>

lemma no_later_marker:
  assumes "CHR '':'' \<notin> set t" "0 < k"
  shows "\<not> prefix '':thread:'' (drop k ('':thread:'' @ t))"
proof
  assume "prefix '':thread:'' (drop k ('':thread:'' @ t))"
  then obtain r where r: "drop k ('':thread:'' @ t) = '':thread:'' @ r" by (auto simp: prefix_def)
  have "drop k ('':thread:'' @ t) = drop (k - 1) (''thread:'' @ t)" using assms(2) by (cases k) simp_all
  then have "2 \<le> length (filter (\<lambda>c. c = CHR '':'') (drop (k - 1) (''thread:'' @ t)))"
    unfolding r [symmetric] using r by simp
  moreover have "length (filter (\<lambda>c. c = CHR '':'') (''thread:'' @ t)) = 1"
    using assms(1) by (auto simp: filter_empty_conv)
  ultimately show False using filter_drop_length [of "\<lambda>c. c = CHR '':''" "k - 1" "''thread:'' @ t"] by linarith
qed

lemma last_marker:
  assumes "CHR '':'' \<notin> set t"
  shows "js_lastIndexOfString '':thread:'' (base @ '':thread:'' @ t) = Some (length base)"
proof (rule lastIndex_at)
  fix j assume "length base < j"
  then have "drop j (base @ '':thread:'' @ t) = drop (j - length base) ('':thread:'' @ t)" by simp
  then show "\<not> prefix '':thread:'' (drop j (base @ '':thread:'' @ t))"
    using no_later_marker [OF assms, of "j - length base"] \<open>length base < j\<close> by simp
qed simp_all

lemma lower_colon: "CHR '':'' \<in> set (js_lower s) \<longleftrightarrow> CHR '':'' \<in> set s"
proof
  assume "CHR '':'' \<in> set (js_lower s)"
  then obtain c where c: "c \<in> set s" "CHR '':'' = js_lower_char c" unfolding js_lower_def set_map by blast
  have "js_lower_char c = CHR '':'' \<Longrightarrow> c = CHR '':''"
    using js_lower_char_cases [of c] by (auto simp: capitalCode_def)
  then have "c = CHR '':''" using c(2) by simp
  then show "CHR '':'' \<in> set s" using c(1) by simp
next
  assume "CHR '':'' \<in> set s"
  then have "js_lower_char (CHR '':'') \<in> set (js_lower s)" unfolding js_lower_def by simp
  moreover have "js_lower_char (CHR '':'') = CHR '':''" by code_simp
  ultimately show "CHR '':'' \<in> set (js_lower s)" by simp
qed

definition withThread :: "string \<Rightarrow> string \<Rightarrow> string" where
  "withThread base t = (if t = [] then base else base @ '':thread:'' @ t)"

lemma parse_thread:
  assumes "list_all (\<lambda>c. \<not> js_space c) (withThread base t)" "CHR '':'' \<notin> set t" "base \<noteq> []"
    and "t = [] \<Longrightarrow> \<not> js_includes (js_lower base) '':thread:''"
  shows "parseThreadSessionSuffix (Some (withThread base t)) = (Some base, orNull t)"
proof (cases "t = []")
  case True
  then have "js_lastIndexOfString '':thread:'' (js_lower base) = None"
    using assms(4) by (intro lastIndex_None not_includes) simp_all
  then show ?thesis using True assms(1,3)
    by (simp add: parseThreadSessionSuffix_def withThread_def space_free_optional orNull_def Let_def
        normalizeLowercase_trim clean_trim)
next
  case False
  have marker: "js_lower '':thread:'' = '':thread:''" by code_simp
  have "js_lower (base @ '':thread:'' @ t) = js_lower base @ '':thread:'' @ js_lower t"
    unfolding js_lower_def map_append marker [unfolded js_lower_def] by (rule refl)
  then have last: "js_lastIndexOfString '':thread:'' (js_lower (base @ '':thread:'' @ t)) = Some (length base)"
    using last_marker [of "js_lower t" "js_lower base"] assms(2) lower_colon [of t] by (simp add: js_lower_def)
  have key: "withThread base t = base @ '':thread:'' @ t" using False by (simp add: withThread_def)
  have spaces: "list_all (\<lambda>c. \<not> js_space c) t" "list_all (\<lambda>c. \<not> js_space c) (base @ '':thread:'' @ t)"
    using assms(1) unfolding key by simp_all
  have lowered: "normalizeLowercaseStringOrEmpty (Some (base @ '':thread:'' @ t)) = js_lower (base @ '':thread:'' @ t)"
    unfolding normalizeLowercase_trim clean_trim [OF spaces(2)] by (rule refl)
  have opt: "normalizeOptionalString (Some (base @ '':thread:'' @ t)) = Some (base @ '':thread:'' @ t)"
    unfolding space_free_optional [OF spaces(2)] orNull_def by simp
  show ?thesis unfolding key parseThreadSessionSuffix_def opt option.case Let_def lowered last
    by (simp add: space_free_optional [OF spaces(1)])
qed


section \<open>Delivery routes\<close>

text \<open>
  Parameters whose key says where to deliver: its parts hold no capital and no blank, the channel is
  not called like the owner of a key, the peer has a first segment, and the first segment of a group
  does not read like the kind of a direct chat.
\<close>

definition deliverable :: "peer_key_params \<Rightarrow> bool" where
  "deliverable p \<longleftrightarrow> isolating p \<and> clean (keyedChannel p) \<and> clean (keyedPeer p) \<and>
     keyedChannel p \<noteq> ''agent'' \<and> hd (keyedPeer p) \<noteq> CHR '':'' \<and>
     (keyedKind p = ChatDirect \<or>
      takeWhile (\<lambda>c. c \<noteq> CHR '':'') (keyedPeer p) \<notin> {''direct'', ''dm''})"

definition keyedRest :: "peer_key_params \<Rightarrow> string" where
  "keyedRest p = keyedChannel p @ CHR '':'' #
      ((if keyedKind p = ChatDirect then normalizeAccountId (keyAccountId p) else chatTypeName (keyedKind p)) @
       CHR '':'' # ((if keyedKind p = ChatDirect then ''direct:'' else []) @ keyedPeer p))"

lemma keyedChannel_nonempty: "keyedChannel p \<noteq> []"
  by (simp add: keyedChannel_def orDefault_def)

lemma keyed_rest:
  assumes "isolating p"
  shows "buildAgentPeerSessionKey p = ''agent:'' @ normalizeAgentId (Some (keyAgentId p)) @ CHR '':'' # keyedRest p"
    "keyedRest p \<noteq> []" "hd (keyedRest p) \<noteq> CHR '':''"
proof -
  show "buildAgentPeerSessionKey p = ''agent:'' @ normalizeAgentId (Some (keyAgentId p)) @ CHR '':'' # keyedRest p"
    unfolding isolating_key(1) [OF assms] keyedRest_def by (rule refl)
  show "keyedRest p \<noteq> []" by (simp add: keyedRest_def)
  have "CHR '':'' \<notin> set (keyedChannel p)" using assms by (intro keyedChannel_no_colon) (simp add: isolating_def)
  then show "hd (keyedRest p) \<noteq> CHR '':''"
    using keyedChannel_nonempty [of p] by (cases "keyedChannel p") (auto simp: keyedRest_def)
qed

lemma clean_names: "clean (chatTypeName k)" "clean ''direct:''" "clean ''agent:''" "\<not> js_space (CHR '':'')"
  "js_lower_char (CHR '':'') = CHR '':''"
proof -
  have "clean ''direct''" "clean ''group''" "clean ''channel''" by code_simp+
  then show "clean (chatTypeName k)" by (cases k) (simp_all only: chatTypeName.simps)
  show "clean ''direct:''" "clean ''agent:''" "\<not> js_space (CHR '':'')" "js_lower_char (CHR '':'') = CHR '':''"
    by code_simp+
qed

lemma deliverable_clean:
  assumes "deliverable p"
  shows "clean (buildAgentPeerSessionKey p)"
  using assms clean_names idChars_clean normalizeAgentId_chars [of "Some (keyAgentId p)"]
    normalizeAccountId_chars [of "keyAccountId p"]
  unfolding keyed_rest(1) [OF conjunct1 [OF assms [unfolded deliverable_def]]] keyedRest_def deliverable_def
  by (simp only: clean_append clean_Cons split: if_split) simp

lemma rest_split:
  assumes "isolating p"
  shows "js_split (CHR '':'') (keyedRest p) =
    keyedChannel p # (if keyedKind p = ChatDirect then [normalizeAccountId (keyAccountId p), ''direct'']
                      else [chatTypeName (keyedKind p)]) @ js_split (CHR '':'') (keyedPeer p)"
proof -
  have channel: "CHR '':'' \<notin> set (keyedChannel p)"
    using assms by (intro keyedChannel_no_colon) (simp add: isolating_def)
  have account: "CHR '':'' \<notin> set (normalizeAccountId (keyAccountId p))"
    using idChars_no_colon normalizeAccountId_chars by blast
  have kind: "CHR '':'' \<notin> set (chatTypeName k)" for k by (cases k) simp_all
  have direct: "js_split (CHR '':'') (''direct:'' @ s) = ''direct'' # js_split (CHR '':'') s" for s
    using js_split_append [of "CHR '':''" "''direct''" s] by simp
  show ?thesis
    unfolding keyedRest_def
    by (simp add: js_split_append [OF channel] js_split_append [OF account] js_split_append [OF kind]
        direct [simplified])
qed


lemma thread_key:
  assumes "list_all (\<lambda>c. \<not> js_space c) t"
  shows "fst (resolveThreadSessionKeys base (Some t) parent None None) = withThread base (js_lower t)"
proof -
  have "js_trim t = t" using assms by (rule clean_trim)
  moreover have "js_lower t = [] \<longleftrightarrow> t = []" by (simp add: js_lower_def)
  ultimately show ?thesis
    by (simp add: resolveThreadSessionKeys_def withThread_def normalizeLowercase_trim nullish_def Let_def)
qed

lemma lower_spaces: "list_all (\<lambda>c. \<not> js_space c) s \<Longrightarrow> list_all (\<lambda>c. \<not> js_space c) (js_lower s)"
  by (simp add: list_all_iff js_lower_def js_space_lower)

lemma lower_clean: "list_all (\<lambda>c. \<not> js_space c) s \<Longrightarrow> clean (js_lower s)"
  by (simp add: clean_def list_all_iff js_lower_def js_space_lower js_lower_char_idem)

lemma parse_rest:
  assumes thread: "parseThreadSessionSuffix k = (Some base, th)"
    and parsed: "parseAgentSessionKey (Some base) = Some \<lparr>parsedAgentId = a, parsedRest = keyedRest p\<rparr>"
    and p: "isolating p" "clean (keyedChannel p)" "list_all (\<lambda>c. \<not> js_space c) (keyedPeer p)"
      "keyedChannel p \<noteq> ''agent''" "hd (keyedPeer p) \<noteq> CHR '':''"
      "keyedKind p = ChatDirect \<or> takeWhile (\<lambda>c. c \<noteq> CHR '':'') (keyedPeer p) \<notin> {''direct'', ''dm''}"
  shows "parseSessionDeliveryRoute k = Some \<lparr>deliveryAccountId =
      (if keyedKind p = ChatDirect then Some (normalizeAccountId (keyAccountId p)) else None),
    deliveryChannel = keyedChannel p, deliveryPeerId = keyedPeer p,
    deliveryPeerKind = chatTypeName (keyedKind p), deliveryThreadId = th\<rparr>"
proof -
  let ?ps = "js_split (CHR '':'') (keyedPeer p)"
  have peer: "keyedPeer p \<noteq> []" by (rule isolating_key(2) [OF p(1)])
  have first: "?ps ! 0 \<noteq> []" "normalizeOptionalString (Some (?ps ! 0)) = Some (?ps ! 0)"
  proof -
    show ne: "?ps ! 0 \<noteq> []" unfolding first_segment using peer p(5) by (cases "keyedPeer p") auto
    have "list_all (\<lambda>c. \<not> js_space c) (?ps ! 0)"
      unfolding first_segment using p(3) by (auto simp: list_all_iff dest: set_takeWhileD)
    then show "normalizeOptionalString (Some (?ps ! 0)) = Some (?ps ! 0)"
      using ne by (simp add: space_free_optional orNull_def)
  qed
  have join: "js_join '':'' ?ps = keyedPeer p" by (rule js_join_split)
  have opt: "normalizeOptionalString (Some (keyedPeer p)) = Some (keyedPeer p)"
    using p(3) peer by (simp add: space_free_optional orNull_def)
  have channel: "normalizeLowercaseStringOrEmpty (Some (keyedChannel p)) = keyedChannel p"
    using p(2) by (rule clean_normal)
  have ne: "keyedChannel p \<noteq> []" by (rule keyedChannel_nonempty)
  have len: "?ps \<noteq> []" by simp
  have account: "normalizeOptionalString (Some (normalizeAccountId (keyAccountId p))) = Some (normalizeAccountId (keyAccountId p))"
    using normalizeAccountId_chars [of "keyAccountId p"]
    by (simp add: space_free_optional clean_no_space idChars_clean orNull_def)
  show ?thesis
  proof (cases "keyedKind p = ChatDirect")
    case True
    then have split: "js_split (CHR '':'') (keyedRest p) =
        keyedChannel p # normalizeAccountId (keyAccountId p) # ''direct'' # ?ps"
      using rest_split [OF p(1)] by simp
    have "Suc 0 \<le> length ?ps" using len by (cases ?ps) simp_all
    then show ?thesis
      unfolding parseSessionDeliveryRoute_def thread prod.case orElse_simps parsed option.case
        parsed_agent_key.simps split Let_def
      using True p(4) ne channel account first join opt
      by (simp add: numeral_eq_Suc)
  next
    case False
    then have split: "js_split (CHR '':'') (keyedRest p) = keyedChannel p # chatTypeName (keyedKind p) # ?ps"
      using rest_split [OF p(1)] by simp
    have kind: "chatTypeName (keyedKind p) \<in> set SESSION_DELIVERY_PEER_KINDS"
      by (cases "keyedKind p") (simp_all add: SESSION_DELIVERY_PEER_KINDS_def)
    have dm: "?ps ! 0 \<noteq> ''direct''" "?ps ! 0 \<noteq> ''dm''" unfolding first_segment using p(6) False by auto
    have "Suc 0 \<le> length ?ps" using len by (cases ?ps) simp_all
    then show ?thesis
      unfolding parseSessionDeliveryRoute_def thread prod.case orElse_simps parsed option.case
        parsed_agent_key.simps split Let_def
      using False p(4) ne channel kind dm first join opt
      by (simp add: numeral_eq_Suc)
  qed
qed

text \<open>
  C14. Delivery routes round trip: from the session key built for a deliverable peer, with or without
  a thread, the parser reads back the agent, the channel, the account of a direct chat, the kind, the
  peer and the folded thread.  Deliverable means: the widest scope, no identity links and an account
  not named \<open>group\<close> or \<open>channel\<close> (\<open>isolating\<close>); channel and peer, as they stand in the key, without blanks
  and capitals (\<open>clean\<close>), the channel not \<open>agent\<close> and without a colon, the peer not beginning with a
  colon and, unless the chat is direct, its first segment not \<open>direct\<close> or \<open>dm\<close>.  The thread has no
  blank and no colon, and where there is none the key has no \<open>:thread:\<close> in it.
\<close>

theorem delivery_route_round_trip:
  assumes "deliverable p" and "list_all (\<lambda>c. \<not> js_space c) t" and "CHR '':'' \<notin> set t"
    and "t = [] \<Longrightarrow> \<not> js_includes (buildAgentPeerSessionKey p) '':thread:''"
  shows "parseSessionDeliveryRoute (Some (fst (resolveThreadSessionKeys (buildAgentPeerSessionKey p) (Some t) None None None))) =
    Some \<lparr>deliveryAccountId = (if keyedKind p = ChatDirect then Some (normalizeAccountId (keyAccountId p)) else None),
      deliveryChannel = keyedChannel p, deliveryPeerId = keyedPeer p,
      deliveryPeerKind = chatTypeName (keyedKind p), deliveryThreadId = orNull (js_lower t)\<rparr> \<and>
    map_option parsedAgentId (parseAgentSessionKey
      (Some (fst (resolveThreadSessionKeys (buildAgentPeerSessionKey p) (Some t) None None None)))) =
    Some (normalizeAgentId (Some (keyAgentId p)))"
proof -
  let ?base = "buildAgentPeerSessionKey p" and ?a = "normalizeAgentId (Some (keyAgentId p))"
  have p: "isolating p" "clean (keyedChannel p)" "clean (keyedPeer p)" "keyedChannel p \<noteq> ''agent''"
    "hd (keyedPeer p) \<noteq> CHR '':''"
    "keyedKind p = ChatDirect \<or> takeWhile (\<lambda>c. c \<noteq> CHR '':'') (keyedPeer p) \<notin> {''direct'', ''dm''}"
    using assms(1) by (simp_all add: deliverable_def)
  have base: "clean ?base" by (rule deliverable_clean [OF assms(1)])
  have form: "?base = ''agent:'' @ ?a @ CHR '':'' # keyedRest p" by (rule keyed_rest(1) [OF p(1)])
  have agent: "list_all idChar ?a" "?a \<noteq> []" using normalizeAgentId_chars by blast+
  have key: "fst (resolveThreadSessionKeys ?base (Some t) None None None) = withThread ?base (js_lower t)"
    by (rule thread_key [OF assms(2)])
  have lower: "js_lower t = [] \<longleftrightarrow> t = []" by (simp add: js_lower_def)
  have marker: "clean '':thread:''" by code_simp
  have clean': "clean (withThread ?base (js_lower t))"
    unfolding withThread_def using base lower_clean [OF assms(2)] marker by (simp only: clean_append split: if_split) simp
  have thread: "parseThreadSessionSuffix (Some (withThread ?base (js_lower t))) = (Some ?base, orNull (js_lower t))"
  proof (rule parse_thread [OF clean_no_space [OF clean']])
    show "CHR '':'' \<notin> set (js_lower t)" using assms(3) lower_colon [of t] by simp
    show "?base \<noteq> []" unfolding form by simp
    show "\<not> js_includes (js_lower ?base) '':thread:''" if "js_lower t = []"
      using assms(4) that lower clean_lower [OF base] by simp
  qed
  have "parseAgentSessionKey (Some ?base) = Some \<lparr>parsedAgentId = ?a, parsedRest = keyedRest p\<rparr>"
    using normal_clean [OF base] form
    by (intro parse_normal agent keyed_rest(2,3) [OF p(1)]) simp
  then have route: "parseSessionDeliveryRoute (Some (withThread ?base (js_lower t))) =
      Some \<lparr>deliveryAccountId = (if keyedKind p = ChatDirect then Some (normalizeAccountId (keyAccountId p)) else None),
        deliveryChannel = keyedChannel p, deliveryPeerId = keyedPeer p,
        deliveryPeerKind = chatTypeName (keyedKind p), deliveryThreadId = orNull (js_lower t)\<rparr>"
    by (rule parse_rest [OF thread _ p(1,2) clean_no_space [OF p(3)] p(4-6)])
  have whole: "withThread ?base (js_lower t) = ''agent:'' @ ?a @ CHR '':'' # withThread (keyedRest p) (js_lower t)"
    by (simp add: withThread_def form)
  have "parseAgentSessionKey (Some (withThread ?base (js_lower t))) =
      Some \<lparr>parsedAgentId = ?a, parsedRest = withThread (keyedRest p) (js_lower t)\<rparr>"
    by (rule parse_normal [OF trans [OF normal_clean [OF clean'] whole] agent])
      (use keyed_rest(2,3) [OF p(1)] in \<open>simp_all add: withThread_def\<close>)
  then show ?thesis unfolding key route by simp
qed


definition groupParams :: "string \<Rightarrow> string \<Rightarrow> peer_key_params" where
  "groupParams channel peer = \<lparr>keyAgentId = ''a'', keyMainKey = None, keyChannel = channel, keyAccountId = None,
     keyPeerKind = Some ChatGroup, keyPeerId = Some peer, keyIdentityLinks = None,
     keyDmScope = Some PerAccountChannelPeer\<rparr>"

lemma delivery_route_round_trip_witness:
  "map_option deliveryThreadId (parseSessionDeliveryRoute (Some (fst (resolveThreadSessionKeys
     (buildAgentPeerSessionKey (groupParams ''x'' ''g:1'')) (Some ''T'') None None None)))) = Some (Some ''t'')"
proof -
  have "deliverable (groupParams ''x'' ''g:1'')" by code_simp
  moreover have "list_all (\<lambda>c. \<not> js_space c) ''T''" by code_simp
  moreover have "orNull (js_lower ''T'') = Some ''t''" by code_simp
  ultimately show ?thesis
    using delivery_route_round_trip [of "groupParams ''x'' ''g:1''" "''T''"] by simp
qed

section \<open>Names that read like a marker\<close>

text \<open>
  An agent called like the marker of a thread cannot be delivered to: its keys without a thread
  are cut at its name, so no delivery route is read from any of them.
\<close>

theorem agent_named_thread_is_unreachable:
  assumes "isolating p" and "normalizeAgentId (Some (keyAgentId p)) = ''thread''"
    and "list_all (\<lambda>c. \<not> js_space c) (buildAgentPeerSessionKey p)"
    and "\<not> js_includes (js_lower ('':'' @ keyedRest p)) '':thread:''"
  shows "parseSessionDeliveryRoute (Some (buildAgentPeerSessionKey p)) = None"
proof -
  let ?key = "buildAgentPeerSessionKey p" and ?rest = "keyedRest p"
  have key: "?key = ''agent'' @ '':thread:'' @ ?rest"
    unfolding keyed_rest(1) [OF assms(1)] assms(2) by simp
  have lower: "js_lower ?key = ''agent'' @ '':thread:'' @ js_lower ?rest"
  proof -
    have "map js_lower_char ''agent:thread:'' = ''agent:thread:''" by code_simp
    then show ?thesis unfolding key js_lower_def by simp
  qed
  have later: "\<not> prefix '':thread:'' (drop j (js_lower ?key))" if "5 < j" for j
  proof -
    have rest: "js_lower ('':'' @ ?rest) = CHR '':'' # js_lower ?rest"
      using clean_names(5) by (simp add: js_lower_def)
    have none: "\<not> prefix '':thread:'' (drop i (CHR '':'' # js_lower ?rest))" for i
      using not_includes [OF assms(4)] unfolding rest by simp
    have "drop j (js_lower ?key) = drop (j - 5) ('':thread:'' @ js_lower ?rest)"
      unfolding lower drop_append [of j "''agent''"] using that by (simp add: numeral_eq_Suc)
    moreover have "j - 5 = 1 \<or> j - 5 = 2 \<or> j - 5 = 3 \<or> j - 5 = 4 \<or> j - 5 = 5 \<or> j - 5 = 6 \<or>
        (\<exists>i. j - 5 = 7 + i)"
      using that by presburger
    ultimately show ?thesis using none by (elim disjE exE) (simp_all add: numeral_eq_Suc)
  qed
  have last: "js_lastIndexOfString '':thread:'' (js_lower ?key) = Some 5"
    by (rule lastIndex_at) (use later in \<open>simp_all add: lower\<close>)
  have lowered: "normalizeLowercaseStringOrEmpty (Some ?key) = js_lower ?key"
    by (simp add: normalizeLowercase_trim clean_trim [OF assms(3)])
  have "?key \<noteq> []" unfolding key by simp
  then have opt: "normalizeOptionalString (Some ?key) = Some ?key"
    using space_free_optional [OF assms(3)] by (simp add: orNull_def)
  have "take 5 ?key = ''agent''" unfolding key by simp
  then obtain th where thread: "parseThreadSessionSuffix (Some ?key) = (Some ''agent'', th)"
    unfolding parseThreadSessionSuffix_def opt option.case Let_def lowered last by simp
  have none: "parseAgentSessionKey (Some ''agent'') = None" by code_simp
  show ?thesis
    unfolding parseSessionDeliveryRoute_def thread prod.case orElse_simps none option.case Let_def by (rule refl)
qed

lemma agent_named_thread_is_unreachable_witness:
  "parseSessionDeliveryRoute (Some (buildAgentPeerSessionKey ((groupParams ''x'' ''g'')\<lparr>keyAgentId := ''Thread''\<rparr>))) = None"
  by (rule agent_named_thread_is_unreachable) code_simp+


section \<open>Matrix rooms\<close>

text \<open>
  A room of Matrix: its identifier has capitals and colons but no blank, no part of its key reads like
  a Signal group, and nothing in it reads like the marker of a thread.
\<close>

definition roomParams :: "peer_key_params \<Rightarrow> string \<Rightarrow> bool" where
  "roomParams p room \<longleftrightarrow> isolating p \<and> keyChannel p = ''matrix'' \<and> keyedKind p \<noteq> ChatDirect \<and>
     keyPeerId p = Some room \<and> list_all (\<lambda>c. \<not> js_space c) room \<and> hd room \<noteq> CHR '':'' \<and>
     takeWhile (\<lambda>c. c \<noteq> CHR '':'') room \<notin> {''direct'', ''dm''} \<and>
     segmentSpans ''signal:group:'' True 0 (buildAgentPeerSessionKey p) = [] \<and>
     \<not> js_includes (js_lower (buildAgentPeerSessionKey p)) '':thread:''"

lemma skipAgentWrappers_one:
  assumes "CHR '':'' \<notin> set a" "\<not> lowerPrefix ''agent:'' rest"
  shows "skipAgentWrappers (''agent:'' @ a @ CHR '':'' # rest) = rest"
proof -
  have "js_lower ''agent:'' = ''agent:''" by code_simp
  then have "lowerPrefix ''agent:'' (''agent:'' @ a @ CHR '':'' # rest)"
    by (simp add: lowerPrefix_def numeral_eq_Suc)
  moreover have "dropWhile (\<lambda>c. c \<noteq> CHR '':'') (a @ CHR '':'' # rest) = CHR '':'' # rest"
    using assms(1) by (induction a) auto
  ultimately have "skipAgentWrappers (''agent:'' @ a @ CHR '':'' # rest) = skipAgentWrappers rest"
    by (subst skipAgentWrappers.simps) (simp add: numeral_eq_Suc)
  also have "\<dots> = rest" using assms(2) by (subst skipAgentWrappers.simps) simp
  finally show ?thesis .
qed

lemma matrix_spans:
  assumes "CHR '':'' \<notin> set a" "k = ''channel'' \<or> k = ''group''" "room \<noteq> []" "list_all (\<lambda>c. \<not> js_space c) room"
    and key: "key = ''agent:'' @ a @ CHR '':'' # (''matrix:'' @ k @ CHR '':'' # room)"
    and none: "segmentSpans ''signal:group:'' True 0 key = []" "\<not> js_includes (js_lower key) '':thread:''"
  shows "collectCasePreservedSpans key =
    [\<lparr>spanStart = length key - length room, spanEnd = length key, spanTrim = False\<rparr>]"
proof -
  let ?body = "''matrix:'' @ k @ CHR '':'' # room"
  have body: "\<not> lowerPrefix ''agent:'' ?body" by (simp add: lowerPrefix_def js_lower_def js_lower_char_def capitalCode_def)
  have skip: "skipAgentWrappers key = ?body" unfolding key by (rule skipAgentWrappers_one [OF assms(1) body])
  have colons: "dropWhile (\<lambda>c. c = CHR '':'') ?body = ?body" by simp
  have hdr: "lowerPrefix (''matrix:'' @ k' @ '':'') ?body \<longleftrightarrow> k' = k" if "k' = ''channel'' \<or> k' = ''group''" for k'
    using that assms(2) by (auto simp: lowerPrefix_def js_lower_def js_lower_char_def capitalCode_def)
  have unscoped: "\<not> lowerPrefix (''matrix:'' @ k' @ '':'') key" for k'
    unfolding key by (simp add: lowerPrefix_def js_lower_def js_lower_char_def capitalCode_def)
  have start: "length key - length ?body + length (''matrix:'' @ k @ '':'') = length key - length room"
    unfolding key by simp
  define pre where "pre = ''agent:'' @ a @ CHR '':'' # (''matrix:'' @ k @ '':'')"
  have "key = pre @ room" by (simp add: key pre_def)
  then have room: "drop (length key - length room) key = room" by simp
  have "\<not> prefix '':thread:'' (drop j (js_lower room))" for j
  proof -
    have "js_lower key = js_lower (take (length key - length room) key) @ js_lower room"
      by (metis append_take_drop_id js_lower_def map_append room)
    then have "drop j (js_lower room) = drop (length (js_lower (take (length key - length room) key)) + j) (js_lower key)"
      by simp
    then show ?thesis using not_includes [OF none(2)] by simp
  qed
  then have marker: "js_lastIndexOfString '':thread:'' (normalizeLowercaseStringOrEmpty (Some room)) = None"
    using assms(4) by (intro lastIndex_None) (simp add: normalizeLowercase_trim clean_trim)
  have tail: "collectTailSpan key (length key - length room) =
      [\<lparr>spanStart = length key - length room, spanEnd = length key, spanTrim = False\<rparr>]"
    unfolding collectTailSpan_def Let_def room marker using assms(3) by (simp add: key)
  have scoped: "scopedTailStart (''matrix:'' @ k' @ '':'') key = (if k' = k then Some (length key - length room) else None)"
    if "k' = ''channel'' \<or> k' = ''group''" for k'
    unfolding scopedTailStart_def Let_def skip colons hdr [OF that] using start by (auto simp: key)
  have signal: "descriptorSpans key \<lparr>descChannel = ''signal'', descPeerKinds = [''group''], descSpan = SegmentSpan,
      descUnscoped = True\<rparr> ''group'' = []"
    using none(1) by (simp add: descriptorSpans_def)
  have matrix: "descriptorSpans key \<lparr>descChannel = ''matrix'', descPeerKinds = [''channel'', ''group''], descSpan = TailSpan,
      descUnscoped = True\<rparr> k' = (if k' = k
        then [\<lparr>spanStart = length key - length room, spanEnd = length key, spanTrim = False\<rparr>] else [])"
    if "k' = ''channel'' \<or> k' = ''group''" for k'
  proof -
    have hdr: "(''matrix'' @ '':'' @ k' @ '':'') = ''matrix:'' @ k' @ '':''" by simp
    show ?thesis
      unfolding descriptorSpans_def Let_def case_preserving_peer.simps span_kind.case hdr scoped [OF that]
      by (simp only: unscoped split: if_split) (simp add: tail)
  qed
  show ?thesis
    using assms(2) by (auto simp: collectCasePreservedSpans_def CASE_PRESERVING_PEERS_def signal matrix)
qed


lemma room_fields:
  assumes "roomParams p room"
  shows "keyedChannel p = ''matrix''" "room \<noteq> []" "keyedPeer p = room"
    "keyedRest p = ''matrix:'' @ chatTypeName (keyedKind p) @ CHR '':'' # room"
proof -
  have r: "isolating p" "keyChannel p = ''matrix''" "keyedKind p \<noteq> ChatDirect" "keyPeerId p = Some room"
    "list_all (\<lambda>c. \<not> js_space c) room"
    using assms by (simp_all add: roomParams_def)
  have "normalizeLowercaseStringOrEmpty (Some ''matrix'') = ''matrix''" by code_simp
  then show channel: "keyedChannel p = ''matrix''" using r(2) by (simp add: keyedChannel_def orDefault_def)
  have "isCasePreservingPeer ''matrix'' ChatGroup" "isCasePreservingPeer ''matrix'' ChatChannel" by code_simp+
  then have preserving: "isCasePreservingPeer ''matrix'' (keyedKind p)"
    using r(3) by (cases "keyedKind p") simp_all
  show room: "room \<noteq> []" using isolating_key(2) [OF r(1)] r by (auto simp: isolating_def)
  show peer: "keyedPeer p = room"
    using r(2-5) room preserving by (simp add: keyedPeer_def normalizeSessionPeerId_def clean_trim Let_def)
  show "keyedRest p = ''matrix:'' @ chatTypeName (keyedKind p) @ CHR '':'' # room"
    using r(3) by (simp add: keyedRest_def channel peer)
qed

text \<open>The key of a room is its own normal form.\<close>

lemma room_normal:
  fixes p room
  defines "key \<equiv> buildAgentPeerSessionKey p"
  assumes "roomParams p room"
  shows "normalizeSessionKeyPreservingOpaquePeerIds (Some key) = key" "list_all (\<lambda>c. \<not> js_space c) key"
    "key = ''agent:'' @ normalizeAgentId (Some (keyAgentId p)) @ CHR '':'' # keyedRest p"
proof -
  let ?a = "normalizeAgentId (Some (keyAgentId p))" and ?k = "chatTypeName (keyedKind p)"
  have r: "isolating p" "keyedKind p \<noteq> ChatDirect" "list_all (\<lambda>c. \<not> js_space c) room"
    "segmentSpans ''signal:group:'' True 0 key = []" "\<not> js_includes (js_lower key) '':thread:''"
    using assms(2) by (simp_all add: roomParams_def key_def)
  have kind: "?k = ''channel'' \<or> ?k = ''group''" using r(2) by (cases "keyedKind p") simp_all
  have chars: "list_all idChar ?a" using normalizeAgentId_chars by blast
  show whole: "key = ''agent:'' @ ?a @ CHR '':'' # keyedRest p" unfolding key_def by (rule keyed_rest(1) [OF r(1)])
  have form: "key = ''agent:'' @ ?a @ CHR '':'' # (''matrix:'' @ ?k @ CHR '':'' # room)"
    unfolding whole room_fields(4) [OF assms(2)] by (rule refl)
  define pre where "pre = ''agent:'' @ ?a @ CHR '':'' # (''matrix:'' @ ?k @ '':'')"
  have "clean ''agent:''" "clean ''matrix:''" by code_simp+
  then have pre: "clean pre" unfolding pre_def using clean_names(1,4,5) idChars_clean [OF chars] by simp
  have base: "key = pre @ room" unfolding form pre_def by simp
  have spans: "collectCasePreservedSpans (pre @ room) =
      [\<lparr>spanStart = length pre, spanEnd = length pre + length room, spanTrim = False\<rparr>]"
    using matrix_spans [OF idChars_no_colon [OF chars] kind room_fields(2) [OF assms(2)] r(3) form r(4,5)]
    unfolding base by simp
  show spaces: "list_all (\<lambda>c. \<not> js_space c) key" unfolding base using clean_no_space [OF pre] r(3) by simp
  have "js_lower key = (''agent:'' @ ?a @ '':'') @ ''matrix:'' @ (?k @ '':'' @ js_lower room)"
    using clean_lower [OF pre] unfolding base by (simp add: js_lower_def) (simp add: pre_def)
  then have "js_includes (js_lower key) ''matrix:''" by (rule js_includesI)
  then have may: "mayContainCasePreservingPeer key"
    by (simp add: mayContainCasePreservingPeer_def CASE_PRESERVING_PEERS_def)
  show "normalizeSessionKeyPreservingOpaquePeerIds (Some key) = key"
    unfolding normalizeSessionKeyPreservingOpaquePeerIds_def space_free_optional [OF spaces]
    using may room_fields(2) [OF assms(2)] clean_normal [OF pre] spans
    by (simp add: orNull_def base js_slice_def clean_normal)
qed

text \<open>
  C29. Matrix rooms round trip: a room and a thread come back from their session key letter by letter,
  capitals included.  The key is built under the widest scope, without identity links and for an
  account not named \<open>group\<close> or \<open>channel\<close>, and the thread is kept as it is written (its normalizer is the
  identity).  The room has no blanks, does not begin with a colon, its first segment is not \<open>direct\<close> or
  \<open>dm\<close>, and the key has neither \<open>:thread:\<close> nor a Signal group span in it; the thread has no blank and no
  colon.
\<close>

theorem matrix_room_round_trip:
  assumes "roomParams p room" and "list_all (\<lambda>c. \<not> js_space c) t" and "CHR '':'' \<notin> set t"
  shows "parseSessionDeliveryRoute (Some (fst (resolveThreadSessionKeys (buildAgentPeerSessionKey p) (Some t) None None
      (Some (\<lambda>x. x))))) =
    Some \<lparr>deliveryAccountId = None, deliveryChannel = ''matrix'', deliveryPeerId = room,
      deliveryPeerKind = chatTypeName (keyedKind p), deliveryThreadId = orNull t\<rparr>"
proof -
  let ?base = "buildAgentPeerSessionKey p" and ?a = "normalizeAgentId (Some (keyAgentId p))"
  have r: "isolating p" "keyedKind p \<noteq> ChatDirect" "list_all (\<lambda>c. \<not> js_space c) room"
    "hd room \<noteq> CHR '':''" "takeWhile (\<lambda>c. c \<noteq> CHR '':'') room \<notin> {''direct'', ''dm''}"
    "\<not> js_includes (js_lower ?base) '':thread:''"
    using assms(1) by (simp_all add: roomParams_def)
  note fields = room_fields [OF assms(1)] and normal = room_normal [OF assms(1)]
  have agent: "list_all idChar ?a" "?a \<noteq> []" using normalizeAgentId_chars by blast+
  have parsed: "parseAgentSessionKey (Some ?base) = Some \<lparr>parsedAgentId = ?a, parsedRest = keyedRest p\<rparr>"
    by (rule parse_normal [OF trans [OF normal(1,3)] agent keyed_rest(2,3) [OF r(1)]])
  have key: "fst (resolveThreadSessionKeys ?base (Some t) None None (Some (\<lambda>x. x))) = withThread ?base t"
    using clean_trim [OF assms(2)] by (simp add: resolveThreadSessionKeys_def withThread_def nullish_def Let_def)
  have "list_all (\<lambda>c. \<not> js_space c) '':thread:''" by code_simp
  then have "list_all (\<lambda>c. \<not> js_space c) (withThread ?base t)"
    unfolding withThread_def using normal(2) assms(2) by (simp split: if_split)
  then have thread: "parseThreadSessionSuffix (Some (withThread ?base t)) = (Some ?base, orNull t)"
    by (rule parse_thread [OF _ assms(3)]) (use r(6) normal(3) in simp_all)
  have "clean ''matrix''" "keyedChannel p \<noteq> ''agent''" using fields(1) by (code_simp, simp)
  then show ?thesis
    unfolding key using parse_rest [OF thread parsed r(1)] r(2-5) by (simp add: fields(1,3))
qed

lemma matrix_room_round_trip_witness:
  "map_option deliveryPeerId (parseSessionDeliveryRoute (Some (fst (resolveThreadSessionKeys
     (buildAgentPeerSessionKey (groupParams ''matrix'' ''!Ab:Srv'')) (Some ''$E'') None None (Some (\<lambda>x. x))))))
     = Some ''!Ab:Srv''"
proof -
  have "roomParams (groupParams ''matrix'' ''!Ab:Srv'') ''!Ab:Srv''" by code_simp
  moreover have "list_all (\<lambda>c. \<not> js_space c) ''$E''" by code_simp
  ultimately show ?thesis
    using matrix_room_round_trip [of "groupParams ''matrix'' ''!Ab:Srv''" "''!Ab:Srv''" "''$E''"] by simp
qed

section \<open>Request keys and store keys\<close>

lemma clean_no_agent:
  assumes "clean key" "\<not> js_starts_with key ''agent:''"
  shows "parseAgentSessionKey (Some key) = None"
proof -
  have "length (js_split (CHR '':'') key) < 3 \<or> js_split (CHR '':'') key ! 0 \<noteq> ''agent''"
  proof (rule ccontr)
    assume *: "\<not> ?thesis"
    then obtain q qs where q: "js_split (CHR '':'') key = ''agent'' # q # qs"
      by (cases "js_split (CHR '':'') key"; cases "tl (js_split (CHR '':'') key)") auto
    have "key = ''agent:'' @ js_join '':'' (q # qs)"
      using js_join_split [of "CHR '':''" key] unfolding q by (simp add: js_join_Cons)
    then show False using assms(2) by (simp add: js_starts_with_iff)
  qed
  then show ?thesis
    unfolding parseAgentSessionKey_def normal_clean [OF assms(1)] Let_def by auto
qed

text \<open>
  Store keys keep their owner: a key of an agent's own gets the agent's name in front, the
  request key is read back from it, and handing the stored key to any agent, the same or another,
  leaves it as it is.
\<close>

theorem store_key_keeps_its_owner:
  assumes "clean key" and "key \<noteq> []" and "hd key \<noteq> CHR '':''" and "\<not> js_starts_with key ''agent:''"
    and "key \<noteq> ''main''"
  shows "toAgentStoreSessionKey agent (Some key) mainKey =
      ''agent:'' @ normalizeAgentId (Some agent) @ CHR '':'' # key \<and>
    toAgentRequestSessionKey (Some (toAgentStoreSessionKey agent (Some key) mainKey)) = Some key \<and>
    toAgentStoreSessionKey other (Some (toAgentStoreSessionKey agent (Some key) mainKey)) mainKey' =
      toAgentStoreSessionKey agent (Some key) mainKey"
proof -
  let ?a = "normalizeAgentId (Some agent)"
  let ?stored = "''agent:'' @ ?a @ CHR '':'' # key"
  have trim: "js_trim key = key" by (rule clean_trim [OF clean_no_space [OF assms(1)]])
  have agent: "list_all idChar ?a" "?a \<noteq> []" using normalizeAgentId_chars by blast+
  have stored: "toAgentStoreSessionKey agent (Some key) mainKey = ?stored"
    using assms trim clean_normal [OF assms(1)] clean_no_agent [OF assms(1,4)] normal_clean [OF assms(1)]
    by (simp add: toAgentStoreSessionKey_def nullish_def Let_def DEFAULT_MAIN_KEY_def)
  have clean': "clean ?stored"
    using idChars_clean [OF agent(1)] assms(1) clean_names(3-5) by (simp only: clean_append clean_Cons) simp
  have trim': "js_trim ?stored = ?stored" by (rule clean_trim [OF clean_no_space [OF clean']])
  have parsed: "parseAgentSessionKey (Some ?stored) = Some \<lparr>parsedAgentId = ?a, parsedRest = key\<rparr>"
    by (rule parse_normal [OF normal_clean [OF clean'] agent assms(2,3)])
  have request: "toAgentRequestSessionKey (Some ?stored) = Some key"
    unfolding toAgentRequestSessionKey_def nullish_def option.case Let_def trim' parsed by simp
  have "?stored \<noteq> DEFAULT_MAIN_KEY" by (simp add: DEFAULT_MAIN_KEY_def)
  then have again: "toAgentStoreSessionKey other (Some ?stored) mainKey' = ?stored"
    unfolding toAgentStoreSessionKey_def nullish_def option.case Let_def trim' clean_normal [OF clean'] parsed by simp
  show ?thesis unfolding stored request again by simp
qed

lemma store_key_keeps_its_owner_witness:
  "toAgentRequestSessionKey (Some (toAgentStoreSessionKey ''b'' (Some ''cron:1'') None)) = Some ''cron:1''"
  by (rule store_key_keeps_its_owner [THEN conjunct2, THEN conjunct1]) code_simp+


section \<open>Canonical agent ids\<close>

lemma stripDashes_hd: "stripDashes s \<noteq> [] \<Longrightarrow> hd (stripDashes s) \<noteq> CHR ''-''"
proof -
  let ?t = "dropWhile (\<lambda>c. c = CHR ''-'') s"
  assume ne: "stripDashes s \<noteq> []"
  have "stripDashes s = []" if "?t = []" unfolding stripDashes_def that by simp
  then have "?t \<noteq> []" using ne by argo
  then have hd: "hd ?t \<noteq> CHR ''-''" by (rule hd_dropWhile)
  have "?t = stripDashes s @ rev (takeWhile (\<lambda>c. c = CHR ''-'') (rev ?t))"
    unfolding stripDashes_def rev_append [symmetric] takeWhile_dropWhile_id by simp
  then obtain post where "?t = stripDashes s @ post" by blast
  with hd ne show ?thesis by (cases "stripDashes s") simp_all
qed

lemma normalizeAgentId_shape:
  "length (normalizeAgentId v) \<le> 64 \<and> hd (normalizeAgentId v) \<noteq> CHR ''-''"
proof -
  let ?s = "js_trim (nullish v [])"
  have lower: "normalizeLowercaseStringOrEmpty (Some ?s) = js_lower ?s" by (simp add: normalizeLowercase_trim)
  show ?thesis
  proof (cases "?s = [] \<or> validId ?s")
    case True
    have dash: "\<not> alnumChar (CHR ''-'')" by code_simp
    show ?thesis
    proof (cases "?s = []")
      case False
      then have valid: "validId ?s" using True by blast
      then obtain c cs where c: "js_lower ?s = c # cs" "alnumChar c" "length cs \<le> 63"
        by (auto simp: validId_def split: list.splits)
      have "normalizeAgentId v = js_lower ?s" using False valid by (simp add: normalizeAgentId_def lower Let_def)
      then show ?thesis using c dash by auto
    qed (simp add: normalizeAgentId_def Let_def DEFAULT_AGENT_ID_def)
  next
    case False
    let ?t = "take 64 (stripDashes (collapseInvalid (js_lower ?s) False))"
    have form: "normalizeAgentId v = orDefault ?t DEFAULT_AGENT_ID"
      using False by (simp add: normalizeAgentId_def lower Let_def)
    show ?thesis
    proof (cases "?t = []")
      case True
      then show ?thesis by (simp add: form orDefault_def DEFAULT_AGENT_ID_def)
    next
      case False
      then have "hd ?t \<noteq> CHR ''-''"
        using stripDashes_hd [of "collapseInvalid (js_lower ?s) False"] by (simp add: hd_take)
      then show ?thesis using False by (simp add: form orDefault_def)
    qed
  qed
qed

definition longAgentId :: string where
  "longAgentId = ''_'' @ replicate 62 (CHR ''a'') @ ''-b''"

text \<open>
  Agent ids are canonical: normalizing one twice is normalizing it once, unless it begins with an
  underscore; then cutting it to 64 characters can leave a dash at its end that only the second time
  removes, and the agent has two ids.
\<close>

theorem agent_ids_are_canonical:
  "(hd (normalizeAgentId v) = CHR ''_'' \<or>
    normalizeAgentId (Some (normalizeAgentId v)) = normalizeAgentId v) \<and>
   normalizeAgentId (Some (normalizeAgentId (Some longAgentId))) \<noteq> normalizeAgentId (Some longAgentId)"
proof
  let ?a = "normalizeAgentId v"
  have chars: "list_all idChar ?a" "?a \<noteq> []" using normalizeAgentId_chars by blast+
  have shape: "length ?a \<le> 64" "hd ?a \<noteq> CHR ''-''" using normalizeAgentId_shape by blast+
  have clean: "clean ?a" by (rule idChars_clean [OF chars(1)])
  show "hd ?a = CHR ''_'' \<or> normalizeAgentId (Some ?a) = ?a"
  proof (cases "hd ?a = CHR ''_''")
    case False
    obtain c cs where c: "?a = c # cs" using chars(2) by (cases ?a) auto
    then have "alnumChar c" using chars(1) shape(2) False by (simp add: idChar_def)
    then have "validId ?a"
      unfolding validId_def clean_lower [OF clean] using c chars(1) shape(1) by simp
    then have "normalizeAgentId (Some ?a) = ?a"
      unfolding normalizeAgentId_def [of "Some ?a"] nullish_def option.case
      using clean_trim [OF clean_no_space [OF clean]] clean_normal [OF clean] chars(2)
      by (simp add: Let_def)
    then show ?thesis ..
  qed simp
  show "normalizeAgentId (Some (normalizeAgentId (Some longAgentId))) \<noteq> normalizeAgentId (Some longAgentId)"
    by code_simp
qed

end
