(* ===== verification/Utf16Text.thy ===== *)
theory Utf16Text
  imports Prelude "HOL-Library.Word"
begin

text \<open>
  \<open>packages/normalization-core/src/utf16-slice.ts\<close> and the summary line of
  \<open>src/utils/queue-helpers.ts\<close>.  A text here is the list of its UTF-16 code units, 16-bit words,
  so that cutting a surrogate pair in half is visible.
\<close>

type_synonym utf16 = "16 word list"

text \<open>The code units of a literal.\<close>

definition u16 :: "string \<Rightarrow> utf16" where
  "u16 s = map (\<lambda>c. of_nat (of_char c)) s"

definition isHighSurrogate :: "16 word \<Rightarrow> bool" where
  "isHighSurrogate w \<longleftrightarrow> 0xd800 \<le> w \<and> w \<le> 0xdbff"

definition isLowSurrogate :: "16 word \<Rightarrow> bool" where
  "isLowSurrogate w \<longleftrightarrow> 0xdc00 \<le> w \<and> w \<le> 0xdfff"

text \<open>\<open>charCodeAt\<close>, whose \<open>NaN\<close> outside the string is \<open>None\<close>.\<close>

definition charCodeAt :: "utf16 \<Rightarrow> int \<Rightarrow> 16 word option" where
  "charCodeAt s i = (if 0 \<le> i \<and> i < int (length s) then Some (s ! nat i) else None)"

definition pairAt :: "utf16 \<Rightarrow> int \<Rightarrow> bool" where
  "pairAt s i \<longleftrightarrow>
     (case (charCodeAt s (i - 1), charCodeAt s i) of
        (Some h, Some l) \<Rightarrow> isHighSurrogate h \<and> isLowSurrogate l
      | _ \<Rightarrow> False)"

definition avoidTrailingHighSurrogateBreak :: "utf16 \<Rightarrow> int \<Rightarrow> int \<Rightarrow> int" where
  "avoidTrailingHighSurrogateBreak s start stop =
     (if stop \<le> start \<or> int (length s) \<le> stop \<or> \<not> pairAt s stop then stop
      else (let adjusted = stop - 1 in if start < adjusted then adjusted else stop + 1))"

definition sliceUtf16Safe :: "utf16 \<Rightarrow> int \<Rightarrow> int option \<Rightarrow> utf16" where
  "sliceUtf16Safe s start stop =
     (let len = int (length s);
          from0 = (if start < 0 then max (len + start) 0 else min start len);
          to0 = (case stop of
                   None \<Rightarrow> len
                 | Some e \<Rightarrow> if e < 0 then max (len + e) 0 else min e len)
      in if to0 \<le> from0 then []
         else
           let from1 = (if 0 < from0 \<and> from0 < len \<and> pairAt s from0 then from0 + 1 else from0);
               to1 = (if 0 < to0 \<and> to0 < len \<and> pairAt s to0 then to0 - 1 else to0)
           in drop (nat from1) (take (nat to1) s))"

definition truncateUtf16Safe :: "utf16 \<Rightarrow> int \<Rightarrow> utf16" where
  "truncateUtf16Safe s maxLen =
     (let limit = max 0 maxLen
      in if int (length s) \<le> limit then s else sliceUtf16Safe s 0 (Some limit))"

section \<open>White space\<close>

text \<open>The code units \<open>trim\<close> removes and \<open>\s\<close> matches.\<close>

definition u16_space :: "16 word \<Rightarrow> bool" where
  "u16_space w \<longleftrightarrow>
     (9 \<le> w \<and> w \<le> 13) \<or> w \<in> {0x20, 0xa0, 0x1680, 0x2028, 0x2029, 0x202f, 0x205f, 0x3000, 0xfeff}
     \<or> (0x2000 \<le> w \<and> w \<le> 0x200a)"

definition u16_trimEnd :: "utf16 \<Rightarrow> utf16" where
  "u16_trimEnd s = rev (dropWhile u16_space (rev s))"

definition u16_trim :: "utf16 \<Rightarrow> utf16" where
  "u16_trim s = u16_trimEnd (dropWhile u16_space s)"

declare length_dropWhile_le [termination_simp]

text \<open>\<open>replace(/\s+/g, " ")\<close>\<close>

fun collapseSpace :: "utf16 \<Rightarrow> utf16" where
  "collapseSpace [] = []"
| "collapseSpace (w # s) =
     (if u16_space w then 0x20 # collapseSpace (dropWhile u16_space s) else w # collapseSpace s)"

section \<open>Summary lines\<close>

definition elideQueueText :: "utf16 \<Rightarrow> int \<Rightarrow> utf16" where
  "elideQueueText s limit =
     (if int (length s) \<le> limit then s
      else u16_trimEnd (truncateUtf16Safe s (max 0 (limit - 1))) @ [0x2026])"

definition buildQueueSummaryLine :: "utf16 \<Rightarrow> int \<Rightarrow> utf16" where
  "buildQueueSummaryLine s limit = elideQueueText (u16_trim (collapseSpace s)) limit"

section \<open>Well-formed texts\<close>

fun utf16_ok :: "utf16 \<Rightarrow> bool" where
  "utf16_ok [] = True"
| "utf16_ok (w # s) =
     (if isHighSurrogate w
      then (case s of [] \<Rightarrow> False | v # t \<Rightarrow> isLowSurrogate v \<and> utf16_ok t)
      else \<not> isLowSurrogate w \<and> utf16_ok s)"

definition plain :: "16 word \<Rightarrow> bool" where
  "plain w \<longleftrightarrow> \<not> isHighSurrogate w \<and> \<not> isLowSurrogate w"

lemma high_not_low: "isHighSurrogate w \<Longrightarrow> \<not> isLowSurrogate w"
proof
  assume "isHighSurrogate w" and "isLowSurrogate w"
  then have "w \<le> 0xdbff" and "0xdc00 \<le> w" by (simp_all add: isHighSurrogate_def isLowSurrogate_def)
  then have "(0xdc00::16 word) \<le> 0xdbff" by (rule order_trans [rotated])
  then show False by (simp add: word_le_nat_alt)
qed

lemma space_plain: "u16_space w \<Longrightarrow> plain w"
  by (auto simp: u16_space_def plain_def isHighSurrogate_def isLowSurrogate_def word_le_nat_alt)

lemma utf16_ok_plain [simp]: "plain w \<Longrightarrow> utf16_ok (w # s) = utf16_ok s"
  by (simp add: plain_def)

lemma utf16_ok_append_plain:
  "list_all plain t \<Longrightarrow> utf16_ok (s @ t) = utf16_ok s"
proof (induction s rule: utf16_ok.induct)
  case 1
  then show ?case by (induction t) (auto simp: plain_def)
next
  case (2 w s)
  then show ?case
    by (cases s; cases t) (auto simp: plain_def split: list.splits)
qed

lemma pairAt_0 [simp]: "\<not> pairAt s 0"
  by (simp add: pairAt_def charCodeAt_def)

lemma pairAt_Suc [simp]:
  "pairAt s (int (Suc k)) \<longleftrightarrow>
     Suc k < length s \<and> isHighSurrogate (s ! k) \<and> isLowSurrogate (s ! Suc k)"
proof -
  have "nat (1 + int k) = Suc k" by simp
  then show ?thesis by (auto simp: pairAt_def charCodeAt_def)
qed

lemma utf16_ok_split:
  assumes "utf16_ok s" and "\<not> pairAt s (int n)"
  shows "utf16_ok (take n s) \<and> utf16_ok (drop n s)"
  using assms
proof (induction s arbitrary: n rule: utf16_ok.induct)
  case 1
  then show ?case by simp
next
  case (2 w s)
  show ?case
  proof (cases n)
    case 0
    then show ?thesis using 2 by simp
  next
    case (Suc m)
    show ?thesis
    proof (cases "isHighSurrogate w")
      case False
      have "\<not> pairAt s (int m)"
        using 2(4) unfolding Suc by (cases m) (simp_all del: of_nat_Suc)
      with 2 Suc False show ?thesis by auto
    next
      case True
      then obtain v t where s: "s = v # t" "isLowSurrogate v" "utf16_ok t"
        using 2(3) by (auto split: list.splits)
      show ?thesis
      proof (cases m)
        case 0
        have "pairAt (w # s) (int (Suc 0))" using True s by (simp del: of_nat_Suc)
        with 2(4) Suc 0 show ?thesis by blast
      next
        case (Suc k)
        have "\<not> pairAt t (int k)"
          using 2(4) unfolding \<open>n = Suc m\<close> Suc s(1) by (cases k) (simp_all del: of_nat_Suc)
        with 2(1) True s \<open>n = Suc m\<close> Suc show ?thesis by simp
      qed
    qed
  qed
qed


lemma pairAt_take: "pairAt (take n s) i \<Longrightarrow> pairAt s i"
  by (auto simp: pairAt_def charCodeAt_def split: if_splits)

lemma pairs_disjoint: "pairAt s (i + 1) \<Longrightarrow> \<not> pairAt s i"
  using high_not_low by (auto simp: pairAt_def charCodeAt_def split: option.splits if_splits)

lemma utf16_ok_cut:
  assumes "utf16_ok s" and "\<not> pairAt s (int a)" and "\<not> pairAt s (int b)"
  shows "utf16_ok (drop a (take b s))"
proof -
  have "utf16_ok (take b s)" using utf16_ok_split [OF assms(1,3)] by simp
  moreover have "\<not> pairAt (take b s) (int a)" using assms(2) pairAt_take by blast
  ultimately show ?thesis using utf16_ok_split by blast
qed

text \<open>A slice of a well-formed text is well formed, wherever it is cut.\<close>

lemma sliceUtf16Safe_ok:
  assumes ok: "utf16_ok s"
  shows "utf16_ok (sliceUtf16Safe s start stop)"
proof -
  define len where "len = int (length s)"
  define from0 where "from0 = (if start < 0 then max (len + start) 0 else min start len)"
  define to0 where "to0 = (case stop of None \<Rightarrow> len
                           | Some e \<Rightarrow> if e < 0 then max (len + e) 0 else min e len)"
  define from1 where "from1 = (if 0 < from0 \<and> from0 < len \<and> pairAt s from0 then from0 + 1 else from0)"
  define to1 where "to1 = (if 0 < to0 \<and> to0 < len \<and> pairAt s to0 then to0 - 1 else to0)"
  have range: "0 \<le> from0" "0 \<le> to0" by (auto simp: from0_def to0_def len_def split: option.splits)
  have inner: "pairAt s i \<Longrightarrow> 0 < i \<and> i < len" for i
    by (auto simp: pairAt_def charCodeAt_def len_def split: if_splits)
  have "\<not> pairAt s from1"
    using inner pairs_disjoint [of s from0] by (auto simp: from1_def)
  moreover have "\<not> pairAt s to1"
    using inner pairs_disjoint [of s "to0 - 1"] by (auto simp: to1_def)
  moreover have "0 \<le> from1" "0 \<le> to1" using range by (auto simp: from1_def to1_def)
  ultimately have "utf16_ok (drop (nat from1) (take (nat to1) s))"
    using utf16_ok_cut [OF ok, of "nat from1" "nat to1"] by simp
  moreover have "sliceUtf16Safe s start stop =
      (if to0 \<le> from0 then [] else drop (nat from1) (take (nat to1) s))"
    unfolding sliceUtf16Safe_def Let_def from1_def to1_def from0_def to0_def len_def by (rule refl)
  ultimately show ?thesis by simp
qed

lemma sliceUtf16Safe_0_length:
  "0 \<le> n \<Longrightarrow> int (length (sliceUtf16Safe s 0 (Some n))) \<le> n"
  by (auto simp: sliceUtf16Safe_def Let_def)

lemma truncateUtf16Safe_ok: "utf16_ok s \<Longrightarrow> utf16_ok (truncateUtf16Safe s n)"
  by (simp add: truncateUtf16Safe_def sliceUtf16Safe_ok Let_def)

lemma truncateUtf16Safe_length: "int (length (truncateUtf16Safe s n)) \<le> max 0 n"
  using sliceUtf16Safe_0_length [of "max 0 n" s] by (simp add: truncateUtf16Safe_def Let_def)

lemma set_sliceUtf16Safe: "set (sliceUtf16Safe s a b) \<subseteq> set s"
  unfolding sliceUtf16Safe_def Let_def
  by (auto dest!: in_set_dropD in_set_takeD)

lemma set_truncateUtf16Safe: "set (truncateUtf16Safe s n) \<subseteq> set s"
  using set_sliceUtf16Safe by (auto simp: truncateUtf16Safe_def Let_def)

section \<open>Summary lines stay on one line, short and well formed\<close>

lemma utf16_ok_dropWhile: "utf16_ok s \<Longrightarrow> utf16_ok (dropWhile u16_space s)"
  by (induction s) (auto simp del: utf16_ok.simps simp: space_plain)

lemma u16_trimEnd_split: "\<exists>t. s = u16_trimEnd s @ t \<and> list_all plain t"
proof (intro exI conjI)
  let ?t = "rev (takeWhile u16_space (rev s))"
  have "rev s = takeWhile u16_space (rev s) @ dropWhile u16_space (rev s)" by simp
  then show "s = u16_trimEnd s @ ?t"
    unfolding u16_trimEnd_def by (metis rev_append rev_rev_ident)
  show "list_all plain ?t"
    by (auto simp: list_all_iff intro: space_plain dest: set_takeWhileD)
qed

lemma utf16_ok_trimEnd: "utf16_ok (u16_trimEnd s) = utf16_ok s"
  by (metis u16_trimEnd_split utf16_ok_append_plain)

lemma utf16_ok_trim: "utf16_ok s \<Longrightarrow> utf16_ok (u16_trim s)"
  by (simp add: u16_trim_def utf16_ok_trimEnd utf16_ok_dropWhile)

lemma set_u16_trimEnd: "set (u16_trimEnd s) \<subseteq> set s"
  by (auto simp: u16_trimEnd_def dest: set_dropWhileD)

lemma set_u16_trim: "set (u16_trim s) \<subseteq> set s"
  using set_u16_trimEnd by (auto simp: u16_trim_def dest: set_dropWhileD)

lemma length_u16_trimEnd: "length (u16_trimEnd s) \<le> length s"
  using length_dropWhile_le [of u16_space "rev s"] by (simp add: u16_trimEnd_def)

lemma set_collapseSpace: "w \<in> set (collapseSpace s) \<Longrightarrow> u16_space w \<Longrightarrow> w = 0x20"
  by (induction s rule: collapseSpace.induct) (auto split: if_splits)

lemma plain_blank: "plain 0x20"
  by (rule space_plain) (simp add: u16_space_def)

lemma utf16_ok_collapseSpace: "utf16_ok s \<Longrightarrow> utf16_ok (collapseSpace s)"
proof (induction s rule: utf16_ok.induct)
  case (2 w s)
  show ?case
  proof (cases "u16_space w")
    case True
    note ws = this
    have "utf16_ok (collapseSpace (dropWhile u16_space s))"
    proof (cases "s = []")
      case False
      have pw: "plain w" using ws by (rule space_plain)
      have ok: "utf16_ok s" using 2(3) unfolding utf16_ok_plain [OF pw] .
      have IH: "utf16_ok (collapseSpace s)" using 2(2) ok pw by (simp add: plain_def)
      show ?thesis
      proof (cases s)
        case (Cons v t)
        with IH show ?thesis by (cases "u16_space v") (simp_all del: utf16_ok.simps add: plain_blank)
      qed simp
    qed simp
    with ws show ?thesis by (simp del: utf16_ok.simps add: plain_blank)
  next
    case False
    show ?thesis
    proof (cases "isHighSurrogate w")
      case True
      then obtain v t where s: "s = v # t" "isLowSurrogate v" "utf16_ok t"
        using 2(3) by (auto split: list.splits)
      moreover have "\<not> u16_space v" using s(2) space_plain plain_def by blast
      ultimately show ?thesis using 2(1) True False by simp
    next
      case no: False
      with 2 False show ?thesis by simp
    qed
  qed
qed simp

definition single_line :: "utf16 \<Rightarrow> bool" where
  "single_line s \<longleftrightarrow> list_all (\<lambda>w. u16_space w \<longrightarrow> w = 0x20) s"

lemma ellipsis_plain: "plain 0x2026" "\<not> u16_space 0x2026"
  by (simp_all add: plain_def isHighSurrogate_def isLowSurrogate_def u16_space_def word_le_nat_alt)

lemma summary_line_ok: "utf16_ok s \<Longrightarrow> utf16_ok (buildQueueSummaryLine s limit)"
proof -
  assume "utf16_ok s"
  then have "utf16_ok (u16_trim (collapseSpace s))"
    by (simp add: utf16_ok_trim utf16_ok_collapseSpace)
  then show ?thesis
    by (simp add: buildQueueSummaryLine_def elideQueueText_def utf16_ok_append_plain ellipsis_plain
        utf16_ok_trimEnd truncateUtf16Safe_ok)
qed

lemma summary_line_length:
  "1 \<le> limit \<Longrightarrow> int (length (buildQueueSummaryLine s limit)) \<le> limit"
  using truncateUtf16Safe_length [of "u16_trim (collapseSpace s)" "max 0 (limit - 1)"]
    length_u16_trimEnd [of "truncateUtf16Safe (u16_trim (collapseSpace s)) (max 0 (limit - 1))"]
  by (auto simp: buildQueueSummaryLine_def elideQueueText_def)

lemma summary_line_single: "single_line (buildQueueSummaryLine s limit)"
  using set_collapseSpace [of _ s] set_u16_trim [of "collapseSpace s"]
    set_u16_trimEnd [of "truncateUtf16Safe (u16_trim (collapseSpace s)) (max 0 (limit - 1))"]
    set_truncateUtf16Safe [of "u16_trim (collapseSpace s)" "max 0 (limit - 1)"] ellipsis_plain(2)
  by (auto simp: single_line_def list_all_iff buildQueueSummaryLine_def elideQueueText_def
      split: if_splits)

end
