(* ===== verification/QueueHelpers.thy ===== *)
theory QueueHelpers
  imports Utf16Text JsNumber JsMap
begin

text \<open>
  \<open>src/utils/queue-helpers.ts\<close>: overflow, collection and drain helpers of the capped queues.
  The helpers take any object with the fields they use; records that extend \<open>capped_queue\<close> are
  those objects.  An item is compared by reference in the source; here it is whatever the caller
  uses as the identity of its items.  An \<open>await\<close> splits a helper: the code before it and the code
  after it are two definitions, and other operations may run in between.
\<close>

datatype queue_drop_policy = Summarize | DropOld | DropNew

record queue_summary =
  dropPolicy :: queue_drop_policy
  droppedCount :: nat
  summaryLines :: "utf16 list"

record 'a capped_queue = queue_summary +
  items :: "'a list"
  cap :: js_number

section \<open>Runtime settings\<close>

record 'm queue_settings =
  set_mode :: 'm
  set_debounceMs :: "js_number option"
  set_cap :: "js_number option"
  set_dropPolicy :: "queue_drop_policy option"

definition settingDebounce :: "js_number option \<Rightarrow> js_number \<Rightarrow> js_number" where
  "settingDebounce v current = (case v of Some d \<Rightarrow> js_max 0 d | None \<Rightarrow> current)"

definition settingCap :: "js_number option \<Rightarrow> js_number \<Rightarrow> js_number" where
  "settingCap v current =
     (case v of Some c \<Rightarrow> if js_positive c then js_floor c else current | None \<Rightarrow> current)"

definition applyQueueRuntimeSettings ::
    "'m queue_settings \<Rightarrow> 'm \<times> js_number \<times> js_number \<times> queue_drop_policy \<Rightarrow>
     'm \<times> js_number \<times> js_number \<times> queue_drop_policy" where
  "applyQueueRuntimeSettings settings target =
     (case target of (mode, debounceMs, c, policy) \<Rightarrow>
        (set_mode settings, settingDebounce (set_debounceMs settings) debounceMs,
         settingCap (set_cap settings) c, nullish (set_dropPolicy settings) policy))"

section \<open>Duplicates and depth\<close>

definition shouldSkipQueueItem :: "'a \<Rightarrow> 'a list \<Rightarrow> ('a \<Rightarrow> 'a list \<Rightarrow> bool) option \<Rightarrow> bool" where
  "shouldSkipQueueItem item xs dedupe = (case dedupe of None \<Rightarrow> False | Some d \<Rightarrow> d item xs)"

definition countPendingQueueItems :: "'a list \<Rightarrow> 'a list option \<Rightarrow> nat" where
  "countPendingQueueItems xs inFlight =
     (case inFlight of
        None \<Rightarrow> length xs
      | Some fl \<Rightarrow>
          if fl = [] then length xs
          else foldl (\<lambda>count item. count + (if item \<in> set fl then 0 else 1)) 0 xs)"

section \<open>Overflow\<close>

text \<open>\<open>pendingCount - cap + 1\<close>\<close>

fun queueDropCount :: "nat \<Rightarrow> js_number \<Rightarrow> js_number" where
  "queueDropCount pending NotANumber = NotANumber"
| "queueDropCount pending PosInfinity = NegInfinity"
| "queueDropCount pending NegInfinity = PosInfinity"
| "queueDropCount pending (Finite q) = Finite (of_nat pending - q + 1)"

fun js_count_eq :: "nat \<Rightarrow> js_number \<Rightarrow> bool" where
  "js_count_eq n (Finite q) = (of_nat n = q)"
| "js_count_eq n v = False"

text \<open>The first loop: the indices of the victims, until there are enough.\<close>

fun collectVictims :: "('a \<Rightarrow> bool) \<Rightarrow> js_number \<Rightarrow> nat \<Rightarrow> nat list \<Rightarrow> 'a list \<Rightarrow> nat list" where
  "collectVictims skip dropCount index victims [] = victims"
| "collectVictims skip dropCount index victims (item # rest) =
     (if skip item then collectVictims skip dropCount (Suc index) victims rest
      else
        let victims' = victims @ [index]
        in if js_count_eq (length victims') dropCount then victims'
           else collectVictims skip dropCount (Suc index) victims' rest)"

fun js_count_greater :: "nat \<Rightarrow> js_number \<Rightarrow> bool" where
  "js_count_greater n NotANumber = False"
| "js_count_greater n PosInfinity = False"
| "js_count_greater n NegInfinity = True"
| "js_count_greater n (Finite q) = (q < of_nat n)"

text \<open>
  The second loop, over the victims from the last to the first: \<open>splice(i, 1)\<close> removes one item
  and \<open>unshift\<close> puts it in front of the dropped ones.
\<close>

fun spliceVictims :: "nat list \<Rightarrow> 'a list \<Rightarrow> 'a list \<Rightarrow> 'a list \<times> 'a list" where
  "spliceVictims [] xs dropped = (xs, dropped)"
| "spliceVictims (v # vs) xs dropped =
     spliceVictims vs (take v xs @ drop (Suc v) xs) (take 1 (drop v xs) @ dropped)"

text \<open>The summary lines of the dropped items, cut to the limit from the front.\<close>

fun dropLinesTo :: "js_number \<Rightarrow> 'l list \<Rightarrow> 'l list" where
  "dropLinesTo limit [] = []"
| "dropLinesTo limit (l # ls) =
     (if js_count_greater (length (l # ls)) limit then dropLinesTo limit ls else l # ls)"


definition pushSummaries ::
    "('a \<Rightarrow> utf16) \<Rightarrow> js_number option \<Rightarrow> 'a list \<Rightarrow> ('a, 'z) capped_queue_scheme \<Rightarrow>
     ('a, 'z) capped_queue_scheme" where
  "pushSummaries summarize summaryLimit dropped q =
     (let q1 = fold (\<lambda>item q. q\<lparr>droppedCount := droppedCount q + 1,
                summaryLines := summaryLines q @ [buildQueueSummaryLine (summarize item) 160]\<rparr>)
              dropped q
      in q1\<lparr>summaryLines := dropLinesTo (js_max 0 (nullish summaryLimit (cap q))) (summaryLines q1)\<rparr>)"

text \<open>
  \<open>onDrop\<close> acts on the queue and on the world \<open>'w\<close> around it, between the removal of the victims
  and the summary lines.
\<close>

definition applyQueueDropPolicy ::
    "('a \<Rightarrow> utf16) \<Rightarrow> js_number option \<Rightarrow>
     ('a list \<Rightarrow> ('a, 'z) capped_queue_scheme \<times> 'w \<Rightarrow> ('a, 'z) capped_queue_scheme \<times> 'w) \<Rightarrow>
     'a list option \<Rightarrow> ('a \<Rightarrow> bool) \<Rightarrow> ('a, 'z) capped_queue_scheme \<times> 'w \<Rightarrow>
     bool \<times> ('a, 'z) capped_queue_scheme \<times> 'w" where
  "applyQueueDropPolicy summarize summaryLimit onDrop inFlight isProtected qw =
     (let (q, w) = qw;
          pendingCount = countPendingQueueItems (items q) inFlight
      in if js_nonpositive (cap q) \<or> js_count_less pendingCount (cap q) then (True, q, w)
         else if dropPolicy q = DropNew then (False, q, w)
         else
           let dropCount = queueDropCount pendingCount (cap q);
               skip = (\<lambda>item. item \<in> set (nullish inFlight []) \<or> isProtected item);
               victims = collectVictims skip dropCount 0 [] (items q)
           in if js_count_less (length victims) dropCount then (False, q, w)
              else
                let (rest, dropped) = spliceVictims (rev victims) (items q) [];
                    (q1, w1) = onDrop dropped (q\<lparr>items := rest\<rparr>, w)
                in (True,
                    if dropPolicy q1 = Summarize then pushSummaries summarize summaryLimit dropped q1
                    else q1,
                    w1))"

section \<open>Debounce\<close>

text \<open>
  One \<open>check\<close> of \<open>waitForQueueDebounce\<close>: the wait is over, or a timer is set for the remaining
  time.  \<open>debounceStart\<close> is the part before the first check.
\<close>

datatype debounce_check = DebounceDone | DebounceTimer rat

definition debounceCheck :: "bool \<Rightarrow> rat \<Rightarrow> rat \<Rightarrow> rat \<Rightarrow> debounce_check" where
  "debounceCheck aborted now lastEnqueuedAt debounceMs =
     (if aborted then DebounceDone
      else
        let since = now - lastEnqueuedAt
        in if debounceMs \<le> since then DebounceDone else DebounceTimer (debounceMs - since))"

definition debounceStart :: "bool \<Rightarrow> bool \<Rightarrow> rat \<Rightarrow> rat \<Rightarrow> rat \<Rightarrow> debounce_check" where
  "debounceStart testFast aborted now lastEnqueuedAt rawDebounceMs =
     (let debounceMs = max 0 rawDebounceMs
      in if testFast \<or> debounceMs \<le> 0 \<or> aborted then DebounceDone
         else debounceCheck aborted now lastEnqueuedAt debounceMs)"

section \<open>Draining\<close>

text \<open>\<open>items.splice(items.indexOf(x), 1)\<close> for every processed item that is still there\<close>

definition removeQueuedItemsByRef :: "'a list \<Rightarrow> 'a list \<Rightarrow> 'a list" where
  "removeQueuedItemsByRef xs processed = foldl (\<lambda>xs item. remove1 item xs) xs processed"

definition drainNextBegin :: "'a list \<Rightarrow> 'a list option \<Rightarrow> ('a \<times> 'a list option) option" where
  "drainNextBegin xs inFlight =
     (case xs of
        [] \<Rightarrow> None
      | next # rest \<Rightarrow> Some (next, map_option (set_add next) inFlight))"

text \<open>
  After \<open>run(next)\<close>: it returned, or it threw.  \<open>restore\<close> is the answer of
  \<open>shouldRestoreOnError\<close>; the last component tells that \<open>onDiscard(next)\<close> is called.
\<close>

definition drainNextEnd ::
    "'a \<Rightarrow> bool \<Rightarrow> bool option \<Rightarrow> 'a list \<Rightarrow> 'a list option \<Rightarrow> 'a list \<times> 'a list option \<times> bool" where
  "drainNextEnd next threw restore xs inFlight =
     (let discard = threw \<and> \<not> nullish restore True;
          xs' = (if \<not> threw \<or> discard then removeQueuedItemsByRef xs [next] else xs)
      in (xs', map_option (removeAll next) inFlight, discard))"

text \<open>\<open>drainCollectItemIfNeeded\<close> up to its first await; \<open>None\<close> is \<open>"skipped"\<close>.\<close>

definition drainCollectBegin ::
    "bool \<Rightarrow> bool \<Rightarrow> 'a list \<Rightarrow> 'a list option \<Rightarrow> bool \<times> ('a \<times> 'a list option) option option" where
  "drainCollectBegin forceIndividualCollect isCrossChannel xs inFlight =
     (if \<not> forceIndividualCollect \<and> \<not> isCrossChannel then (forceIndividualCollect, None)
      else (forceIndividualCollect \<or> isCrossChannel, Some (drainNextBegin xs inFlight)))"

section \<open>Prompts\<close>

definition newline :: utf16 where
  "newline = [0x0a]"

definition u16_join :: "utf16 \<Rightarrow> utf16 list \<Rightarrow> utf16" where
  "u16_join sep parts = (case parts of [] \<Rightarrow> [] | p # ps \<Rightarrow> p @ concat (map (\<lambda>q. sep @ q) ps))"

definition buildQueueSummaryPrompt ::
    "'z queue_summary_scheme \<Rightarrow> utf16 \<Rightarrow> utf16 option \<Rightarrow> utf16 option" where
  "buildQueueSummaryPrompt s noun title =
     (if dropPolicy s \<noteq> Summarize \<or> droppedCount s = 0 then None
      else
        let header = nullish title
              (u16 ''[Queue overflow] Dropped '' @ u16 (nat_digits (droppedCount s)) @ u16 '' '' @ noun
               @ (if droppedCount s = 1 then [] else u16 ''s'') @ u16 '' due to cap.'')
        in Some (u16_join newline
             (header # (if summaryLines s = [] then []
                        else u16 ''Summary:'' # map (\<lambda>line. u16 ''- '' @ line) (summaryLines s)))))"

definition buildCollectPrompt ::
    "utf16 \<Rightarrow> 'a list \<Rightarrow> utf16 option \<Rightarrow> ('a \<Rightarrow> nat \<Rightarrow> utf16) \<Rightarrow> utf16" where
  "buildCollectPrompt title xs summary renderItem =
     u16_join (newline @ newline)
       ([title] @ (case summary of None \<Rightarrow> [] | Some s \<Rightarrow> if s = [] then [] else [s])
        @ map (\<lambda>(idx, item). renderItem item idx) (enumerate 0 xs))"

text \<open>The resolved key of an item: \<open>{key?, cross?}\<close>.\<close>

fun crossChannelScan ::
    "('a \<Rightarrow> string option \<times> bool) \<Rightarrow> string list \<Rightarrow> 'a list \<Rightarrow> bool" where
  "crossChannelScan resolveKey keys [] = (1 < length keys)"
| "crossChannelScan resolveKey keys (item # rest) =
     (case resolveKey item of
        (key, cross) \<Rightarrow>
          if cross then True
          else
            (case key of
               None \<Rightarrow> crossChannelScan resolveKey keys rest
             | Some k \<Rightarrow>
                 if k = [] then crossChannelScan resolveKey keys rest
                 else crossChannelScan resolveKey (set_add k keys) rest))"

definition hasCrossChannelItems :: "'a list \<Rightarrow> ('a \<Rightarrow> string option \<times> bool) \<Rightarrow> bool" where
  "hasCrossChannelItems xs resolveKey = crossChannelScan resolveKey [] xs"


section \<open>Counting\<close>

lemma countPending_filter:
  "countPendingQueueItems xs fl = length (filter (\<lambda>x. x \<notin> set (nullish fl [])) xs)"
proof -
  have "foldl (\<lambda>count item. count + (if item \<in> set l then 0 else 1)) n xs =
      n + length (filter (\<lambda>x. x \<notin> set l) xs)" for l n
    by (induction xs arbitrary: n) auto
  then show ?thesis by (auto simp: countPendingQueueItems_def split: option.splits)
qed

lemma countPending_append:
  "countPendingQueueItems (xs @ ys) fl = countPendingQueueItems xs fl + countPendingQueueItems ys fl"
  by (simp add: countPending_filter)

lemma js_count_eq_int [simp]: "js_count_eq k (Finite (of_int c)) \<longleftrightarrow> int k = c"
  by (metis js_count_eq.simps(1) of_int_eq_iff of_int_of_nat_eq)

lemma js_count_less_int [simp]: "js_count_less k (Finite (of_int c)) \<longleftrightarrow> int k < c"
  by (metis js_count_less.simps(4) of_int_less_iff of_int_of_nat_eq)

lemma js_count_greater_int [simp]: "js_count_greater k (Finite (of_int c)) \<longleftrightarrow> c < int k"
  by (metis js_count_greater.simps(4) of_int_less_iff of_int_of_nat_eq)

lemma queueDropCount_int [simp]:
  "queueDropCount n (Finite (of_int c)) = Finite (of_int (int n - c + 1))"
  by simp

section \<open>The reference definition of an eviction\<close>

text \<open>Go through the queue once and take out the first \<open>n\<close> items that may be dropped.\<close>

fun evictFirst :: "('a \<Rightarrow> bool) \<Rightarrow> nat \<Rightarrow> 'a list \<Rightarrow> 'a list \<times> 'a list" where
  "evictFirst skip 0 xs = (xs, [])"
| "evictFirst skip (Suc n) [] = ([], [])"
| "evictFirst skip (Suc n) (x # xs) =
     (if skip x then (x # fst (evictFirst skip (Suc n) xs), snd (evictFirst skip (Suc n) xs))
      else (fst (evictFirst skip n xs), x # snd (evictFirst skip n xs)))"

fun eligible :: "('a \<Rightarrow> bool) \<Rightarrow> 'a list \<Rightarrow> nat list" where
  "eligible skip [] = []"
| "eligible skip (x # xs) = (if skip x then [] else [0]) @ map Suc (eligible skip xs)"

lemma length_eligible [simp]: "length (eligible skip xs) = length (filter (\<lambda>x. \<not> skip x) xs)"
  by (induction xs) auto

lemma collectVictims_int:
  "int (length victims) < c \<Longrightarrow>
   collectVictims skip (Finite (of_int c)) i victims xs =
     victims @ map (\<lambda>j. i + j) (take (nat c - length victims) (eligible skip xs))"
proof (induction xs arbitrary: i victims)
  case Nil
  then show ?case by simp
next
  case (Cons x xs)
  show ?case
  proof (cases "skip x")
    case True
    with Cons show ?thesis by (simp add: take_map comp_def)
  next
    case False
    show ?thesis
    proof (cases "int (Suc (length victims)) = c")
      case True
      then have c: "nat c - length victims = Suc 0" by linarith
      from True have "js_count_eq (Suc (length victims)) (Finite (of_int c))" by simp
      with False c show ?thesis by (simp add: Let_def)
    next
      case more: False
      with Cons.prems have less: "int (length (victims @ [i])) < c" by simp
      have n: "nat c - length victims = Suc (nat c - Suc (length victims))"
        using Cons.prems by linarith
      have "\<not> js_count_eq (Suc (length victims)) (Finite (of_int c))" using more by simp
      with False Cons.IH [OF less] n show ?thesis
        by (simp add: Let_def take_map comp_def)
    qed
  qed
qed

lemma spliceVictims_append:
  "spliceVictims (vs @ ws) xs ds =
     (case spliceVictims vs xs ds of (ys, es) \<Rightarrow> spliceVictims ws ys es)"
  by (induction vs arbitrary: xs ds) simp_all

lemma spliceVictims_Suc:
  "spliceVictims (map Suc vs) (x # xs) ds =
     (x # fst (spliceVictims vs xs ds), snd (spliceVictims vs xs ds))"
  by (induction vs arbitrary: xs ds) simp_all

text \<open>The two index loops of \<open>applyQueueDropPolicy\<close> compute the reference eviction.\<close>

lemma spliceVictims_eligible:
  "spliceVictims (rev (take n (eligible skip xs))) xs ds =
     (fst (evictFirst skip n xs), snd (evictFirst skip n xs) @ ds)"
proof (induction skip n xs arbitrary: ds rule: evictFirst.induct)
  case (3 skip n x xs)
  show ?case
  proof (cases "skip x")
    case True
    with 3(1) [OF True, of ds] show ?thesis
      by (simp add: take_map rev_map spliceVictims_Suc)
  next
    case False
    with 3(3) [OF False, of ds] show ?thesis
      by (simp add: take_map rev_map spliceVictims_append spliceVictims_Suc)
  qed
qed simp_all

lemma evict_dropped: "snd (evictFirst skip n xs) = take n (filter (\<lambda>x. \<not> skip x) xs)"
  by (induction skip n xs rule: evictFirst.induct) simp_all

lemma evict_subseq: "subseq (fst (evictFirst skip n xs)) xs"
  by (induction skip n xs rule: evictFirst.induct) auto

lemma evict_keeps: "filter skip (fst (evictFirst skip n xs)) = filter skip xs"
  by (induction skip n xs rule: evictFirst.induct) simp_all

lemma evict_rest: "filter (\<lambda>x. \<not> skip x) (fst (evictFirst skip n xs)) =
    drop n (filter (\<lambda>x. \<not> skip x) xs)"
  by (induction skip n xs rule: evictFirst.induct) simp_all

lemma length_evict:
  "length (filter P (fst (evictFirst skip n xs))) + length (filter P (snd (evictFirst skip n xs))) =
     length (filter P xs)"
  by (induction skip n xs rule: evictFirst.induct) simp_all

lemma evict_set:
  "set (fst (evictFirst skip n xs)) \<union> set (snd (evictFirst skip n xs)) = set xs"
  by (induction skip n xs rule: evictFirst.induct) auto

lemma evict_distinct:
  "distinct xs \<Longrightarrow> distinct (fst (evictFirst skip n xs) @ snd (evictFirst skip n xs))"
proof (induction skip n xs rule: evictFirst.induct)
  case (3 skip n x xs)
  then show ?case
    using evict_set [of skip n xs] evict_set [of skip "Suc n" xs] by (cases "skip x") auto
qed simp_all

section \<open>What the drop policy does\<close>

lemma dropLinesTo_drop:
  "dropLinesTo (Finite (of_int c)) ls = drop (length ls - nat c) ls"
proof (induction ls)
  case (Cons l ls)
  then show ?case by (cases "int (length (l # ls)) \<le> c") (auto simp: Suc_diff_le)
qed simp

definition pushedLines :: "('a \<Rightarrow> utf16) \<Rightarrow> 'a list \<Rightarrow> utf16 list" where
  "pushedLines summarize dropped = map (\<lambda>item. buildQueueSummaryLine (summarize item) 160) dropped"

lemma pushSummaries_eq:
  "pushSummaries summarize limit dropped q =
     q\<lparr>droppedCount := droppedCount q + length dropped,
       summaryLines := dropLinesTo (js_max 0 (nullish limit (cap q)))
         (summaryLines q @ pushedLines summarize dropped)\<rparr>"
proof -
  have "fold (\<lambda>item q. q\<lparr>droppedCount := droppedCount q + 1,
            summaryLines := summaryLines q @ [buildQueueSummaryLine (summarize item) 160]\<rparr>) ds q =
        q\<lparr>droppedCount := droppedCount q + length ds,
          summaryLines := summaryLines q @ pushedLines summarize ds\<rparr>" for ds
    by (induction ds arbitrary: q) (simp_all add: pushedLines_def)
  then show ?thesis by (simp add: pushSummaries_def Let_def)
qed

lemmas queue_policy_simps = pushSummaries_eq dropLinesTo_drop pushedLines_def


definition mayNotDrop :: "'a list option \<Rightarrow> ('a \<Rightarrow> bool) \<Rightarrow> 'a \<Rightarrow> bool" where
  "mayNotDrop inFlight isProtected item \<longleftrightarrow> item \<in> set (nullish inFlight []) \<or> isProtected item"

lemma victims_eligible:
  assumes "c \<le> int p"
  shows "collectVictims skip (queueDropCount p (Finite (of_int c))) 0 [] xs =
           take (nat (int p - c + 1)) (eligible skip xs)"
  using assms collectVictims_int [of "[]" "int p - c + 1" skip 0 xs]
  by (simp only: queueDropCount_int) simp

lemma applyQueueDropPolicy_int:
  assumes "cap q = Finite (of_int c)"
  shows "applyQueueDropPolicy summarize limit onDrop inFlight isProtected (q, w) =
    (let p = countPendingQueueItems (items q) inFlight;
         skip = mayNotDrop inFlight isProtected;
         n = nat (int p - c + 1);
         (rest, dropped) = evictFirst skip n (items q);
         (q1, w1) = onDrop dropped (q\<lparr>items := rest\<rparr>, w)
     in if c \<le> 0 \<or> int p < c then (True, q, w)
        else if dropPolicy q = DropNew \<or> length (filter (\<lambda>x. \<not> skip x) (items q)) < n
        then (False, q, w)
        else (True, if dropPolicy q1 = Summarize then pushSummaries summarize limit dropped q1 else q1,
              w1))"
proof -
  define p where "p = countPendingQueueItems (items q) inFlight"
  define skip where "skip = mayNotDrop inFlight isProtected"
  have skip: "(\<lambda>item. item \<in> set (nullish inFlight []) \<or> isProtected item) = skip"
    by (simp add: skip_def mayNotDrop_def fun_eq_iff)
  show ?thesis
  proof (cases "c \<le> 0 \<or> int p < c")
    case True
    then show ?thesis using assms
      by (auto simp: applyQueueDropPolicy_def p_def split_def Let_def)
  next
    case False
    define n where "n = nat (int p - c + 1)"
    have v: "collectVictims skip (queueDropCount p (cap q)) 0 [] (items q) =
        take n (eligible skip (items q))"
      using False victims_eligible [of c p] unfolding assms n_def by simp
    have cnt: "js_count_less (length (take n (eligible skip (items q)))) (queueDropCount p (cap q)) \<longleftrightarrow>
        length (filter (\<lambda>x. \<not> skip x) (items q)) < n"
      unfolding assms queueDropCount_int js_count_less_int using False by (auto simp: n_def)
    have guard: "\<not> (js_nonpositive (cap q) \<or> js_count_less p (cap q))"
      using False unfolding assms js_count_less_int by simp
    show ?thesis
      unfolding applyQueueDropPolicy_def Let_def prod.case p_def [symmetric] skip v cnt
        skip_def [symmetric] n_def [symmetric] spliceVictims_eligible append_Nil2
      using guard False by (simp add: split_def)
  qed
qed

end
