(* ===== verification/JsonKey.thy ===== *)
theory JsonKey
  imports Prelude
begin

text \<open>
  \<open>JSON.stringify\<close> on nested arrays of strings and booleans, which is how the follow-up queue builds
  the keys it compares and stores: two keys are equal only when all their parts are.
\<close>

datatype json = JStr string | JBool bool | JArr "json list"

text \<open>The escapes of two characters, and the hexadecimal ones of the other control characters.\<close>

definition jsonShortEscapes :: "(char \<times> char) list" where
  "jsonShortEscapes =
     [(CHR 0x22, CHR 0x22), (CHR 0x5C, CHR 0x5C), (CHR 0x08, CHR ''b''), (CHR 0x09, CHR ''t''),
      (CHR 0x0A, CHR ''n''), (CHR 0x0C, CHR ''f''), (CHR 0x0D, CHR ''r'')]"

definition hexDigit :: "nat \<Rightarrow> char" where
  "hexDigit n = ''0123456789abcdef'' ! n"

definition jsonEscape :: "char \<Rightarrow> string" where
  "jsonEscape c =
     (case map_of jsonShortEscapes c of
        Some e \<Rightarrow> [CHR 0x5C, e]
      | None \<Rightarrow>
          let n = of_char c :: nat
          in if n < 32
             then [CHR 0x5C, CHR ''u'', CHR ''0'', CHR ''0'', hexDigit (n div 16), hexDigit (n mod 16)]
             else [c])"

fun jsonStringify :: "json \<Rightarrow> string" and jsonItems :: "json list \<Rightarrow> string" where
  "jsonStringify (JStr s) = CHR 0x22 # concat (map jsonEscape s) @ [CHR 0x22]"
| "jsonStringify (JBool b) = (if b then ''true'' else ''false'')"
| "jsonStringify (JArr xs) = CHR ''['' # jsonItems xs @ '']''"
| "jsonItems [] = []"
| "jsonItems (x # xs) = jsonStringify x @ (if xs = [] then [] else CHR '','' # jsonItems xs)"

section \<open>The encoding is injective\<close>

lemma hexDigit_inj: "m < 16 \<Longrightarrow> n < 16 \<Longrightarrow> hexDigit m = hexDigit n \<Longrightarrow> m = n"
  using nth_eq_iff_index_eq [of "''0123456789abcdef''" m n] by (simp add: hexDigit_def)

lemma of_char_eq_char: "(of_char c :: nat) = of_char d \<longleftrightarrow> c = d"
  by (metis char_of_char)

lemma control_inj:
  assumes "of_char c < (32::nat)" "of_char d < (32::nat)"
    and "hexDigit (of_char c div 16) = hexDigit (of_char d div 16)"
    and "hexDigit (of_char c mod 16) = hexDigit (of_char d mod 16)"
  shows "c = d"
proof -
  have "of_char c div 16 = (of_char d div 16 :: nat)"
    by (rule hexDigit_inj [OF _ _ assms(3)]) (use assms(1,2) in linarith)+
  moreover have "of_char c mod 16 = (of_char d mod 16 :: nat)"
    by (rule hexDigit_inj [OF _ _ assms(4)]) simp_all
  ultimately have "(of_char c :: nat) = of_char d" by (metis div_mult_mod_eq)
  then show ?thesis by (simp only: of_char_eq_char)
qed

lemma short_inj:
  "map_of jsonShortEscapes c = Some e \<Longrightarrow> map_of jsonShortEscapes d = Some e \<Longrightarrow> c = d"
  by (drule map_of_SomeD, drule map_of_SomeD) (auto simp: jsonShortEscapes_def)

lemma short_not_u: "map_of jsonShortEscapes c = Some e \<Longrightarrow> e \<noteq> CHR ''u''"
  by (drule map_of_SomeD) (auto simp: jsonShortEscapes_def)

lemma backslash_short: "map_of jsonShortEscapes (CHR 0x5C) \<noteq> None"
  and quote_short: "map_of jsonShortEscapes (CHR 0x22) \<noteq> None"
  by (simp_all add: jsonShortEscapes_def)

lemma jsonEscape_cases:
  obtains (short) e where "map_of jsonShortEscapes c = Some e" "jsonEscape c = [CHR 0x5C, e]"
  | (hex) "of_char c < (32::nat)" "jsonEscape c =
      [CHR 0x5C, CHR ''u'', CHR ''0'', CHR ''0'', hexDigit (of_char c div 16), hexDigit (of_char c mod 16)]"
  | (plain) "jsonEscape c = [c]" "c \<noteq> CHR 0x5C" "c \<noteq> CHR 0x22"
proof (cases "map_of jsonShortEscapes c")
  case None
  with backslash_short quote_short have "c \<noteq> CHR 0x5C" "c \<noteq> CHR 0x22" by auto
  with None that show thesis
    unfolding jsonEscape_def Let_def option.case by (cases "of_char c < (32::nat)") simp_all
next
  case (Some e)
  with that(1) show thesis by (simp add: jsonEscape_def)
qed

text \<open>No escape is a prefix of another, and none begins with the closing quote.\<close>

lemma jsonEscape_prefix_free:
  assumes eq: "jsonEscape c @ r = jsonEscape d @ t"
  shows "c = d \<and> r = t"
proof (cases c rule: jsonEscape_cases)
  case (short e)
  show ?thesis
  proof (cases d rule: jsonEscape_cases)
    case (short e')
    with \<open>jsonEscape c = _\<close> \<open>map_of jsonShortEscapes c = _\<close> eq short_inj show ?thesis by auto
  next
    case hex
    with \<open>jsonEscape c = _\<close> \<open>map_of jsonShortEscapes c = _\<close> eq short_not_u show ?thesis by auto
  next
    case plain
    with \<open>jsonEscape c = _\<close> eq show ?thesis by auto
  qed
next
  case hex
  show ?thesis
  proof (cases d rule: jsonEscape_cases)
    case (short e')
    with hex eq short_not_u show ?thesis by auto
  next
    case hex': hex
    with hex eq control_inj [of c d] show ?thesis by simp
  next
    case plain
    with hex eq show ?thesis by auto
  qed
next
  case plain
  show ?thesis
  proof (cases d rule: jsonEscape_cases)
    case plain': plain
    with plain eq show ?thesis by simp
  qed (use plain eq in auto)
qed

lemma jsonEscape_hd: "\<exists>h u. jsonEscape c = h # u \<and> h \<noteq> CHR 0x22"
  by (cases c rule: jsonEscape_cases) auto

lemma escaped_prefix_free:
  "concat (map jsonEscape s) @ CHR 0x22 # r = concat (map jsonEscape s') @ CHR 0x22 # r' \<Longrightarrow>
   s = s' \<and> r = r'"
proof (induction s arbitrary: s')
  case Nil
  then show ?case
  proof (cases s')
    case (Cons d u)
    with Nil jsonEscape_hd [of d] show ?thesis by auto
  qed simp
next
  case (Cons c s)
  show ?case
  proof (cases s')
    case Nil
    with Cons.prems jsonEscape_hd [of c] show ?thesis by auto
  next
    case (Cons d u)
    with Cons.prems jsonEscape_prefix_free [of c _ d] have "c = d"
      and "concat (map jsonEscape s) @ CHR 0x22 # r = concat (map jsonEscape u) @ CHR 0x22 # r'"
      by (auto dest: jsonEscape_prefix_free)
    with Cons.IH [of u] \<open>s' = d # u\<close> show ?thesis by simp
  qed
qed


lemma jsonStringify_hd:
  "\<exists>h u. jsonStringify k = h # u \<and> h \<noteq> CHR '']'' \<and> h \<noteq> CHR '',''"
  by (cases k) auto

text \<open>A key is read off unambiguously whatever follows it.\<close>

lemma jsonStringify_prefix_free:
  "jsonStringify k @ r = jsonStringify k' @ r' \<Longrightarrow> k = k' \<and> r = r'"
  and jsonItems_prefix_free:
  "jsonItems xs @ CHR '']'' # r = jsonItems ys @ CHR '']'' # r' \<Longrightarrow> xs = ys \<and> r = r'"
proof (induction k and xs arbitrary: k' r r' and ys r r' rule: jsonStringify_jsonItems.induct)
  case (1 s)
  then show ?case using escaped_prefix_free [of s r _ r'] by (cases k') (auto split: if_splits)
next
  case (2 b)
  then show ?case by (cases k') (auto split: if_splits)
next
  case (3 xs)
  show ?case
  proof (cases k')
    case (JArr ys)
    with 3(2) have "jsonItems xs @ CHR '']'' # r = jsonItems ys @ CHR '']'' # r'" by simp
    then show ?thesis using 3(1) JArr by blast
  qed (use 3(2) in \<open>simp_all split: if_splits\<close>)
next
  case 4
  show ?case
  proof (cases ys)
    case Nil
    with 4 show ?thesis by simp
  next
    case (Cons y zs)
    obtain h u where "jsonStringify y = h # u" "h \<noteq> CHR '']''"
      using jsonStringify_hd [of y] by blast
    with 4 Cons show ?thesis by simp
  qed
next
  case (5 x xs)
  show ?case
  proof (cases ys)
    case Nil
    obtain h u where "jsonStringify x = h # u" "h \<noteq> CHR '']''"
      using jsonStringify_hd [of x] by blast
    with 5(3) Nil show ?thesis by simp
  next
    case (Cons y zs)
    define tl where "tl us q = (if us = [] then [] else CHR '','' # jsonItems us) @ CHR '']'' # q"
      for us and q :: string
    have "jsonStringify x @ tl xs r = jsonStringify y @ tl zs r'"
      using 5(3) Cons by (simp add: tl_def)
    then have "x = y" and eq: "tl xs r = tl zs r'" using 5(1) by blast+
    then show ?thesis
    proof (cases "xs = []")
      case True
      with eq \<open>x = y\<close> Cons show ?thesis by (auto simp: tl_def split: if_splits)
    next
      case False
      with eq have "zs \<noteq> []" and "jsonItems xs @ CHR '']'' # r = jsonItems zs @ CHR '']'' # r'"
        by (auto simp: tl_def split: if_splits)
      with 5(2) [OF False] \<open>x = y\<close> Cons show ?thesis by blast
    qed
  qed
qed

theorem jsonStringify_inj: "jsonStringify k = jsonStringify k' \<longleftrightarrow> k = k'"
  using jsonStringify_prefix_free [of k "[]" k' "[]"] by auto

declare jsonStringify.simps [simp del]

end
