(* ===== verification/FollowupTypes.thy ===== *)
theory FollowupTypes
  imports QueueHelpers JsonKey SessionKeys DedupeCache "HOL-Library.Char_ord" "HOL-Library.List_Lexorder"
begin

text \<open>
  Follow-up replies: the data model (\<open>auto-reply/reply/queue/types.ts\<close>, the queue object of
  \<open>state.ts\<close>), the lifecycle operations of \<open>types.ts\<close> and the route and delivery keys of
  \<open>plugin-sdk/channel-route.ts\<close> and \<open>drain.ts\<close>.

  The objects the code shares by reference (queued runs, their \<open>run\<close> parts, lifecycles, queue
  objects) live in the heaps of \<open>followup_world\<close>; a reference is a number.  An abort signal is a
  number too, \<open>fwAborted\<close> holds the aborted ones.  A \<open>WeakSet\<close> is the set of its members.  The
  callbacks of a lifecycle are external: \<open>fwCompletions\<close> records the calls of \<open>onComplete\<close>,
  \<open>fwRetirements\<close> those of \<open>onCancellationRetired\<close>, \<open>fwStartedDrains\<close> the drains started, each with its
  key, queue object and callback.
\<close>

type_synonym ref = nat

datatype queue_mode = Steer | Followup | Collect | Interrupt

datatype queue_dedupe_mode = DedupeMessageId | DedupePrompt | DedupeNone

datatype insert_position = AtTail | AtFront

section \<open>Runs\<close>

record exec_overrides =
  eoHost :: "string option"
  eoSecurity :: "string option"
  eoAsk :: "string option"
  eoNode :: "string option"
  eoNodeCwd :: "string option"

record bash_elevated =
  beEnabled :: bool
  beAllowed :: bool
  beDefaultLevel :: string

record input_provenance =
  ipKind :: string
  ipOriginSessionId :: "string option"
  ipSourceSessionKey :: "string option"
  ipSourceChannel :: "string option"
  ipSourceTool :: "string option"

text \<open>The \<open>run\<close> part, with the fields the queue reads or rewrites.\<close>

record execution =
  exAgentId :: string
  exSessionId :: string
  exSessionKey :: "string option"
  exRuntimePolicySessionKey :: "string option"
  exMessageProvider :: "string option"
  exClientCaps :: "string list option"
  exChatType :: "string option"
  exAgentAccountId :: "string option"
  exGroupId :: "string option"
  exGroupChannel :: "string option"
  exGroupSpace :: "string option"
  exSpawnedBy :: "string option"
  exSenderId :: "string option"
  exChannelContext :: "string option"
  exSenderName :: "utf16 option"
  exSenderUsername :: "utf16 option"
  exSenderE164 :: "string option"
  exSenderIsOwner :: bool
  exTraceAuthorized :: bool
  exApprovalReviewerDeviceId :: "string option"
  exSessionFile :: string
  exProvider :: string
  exModel :: string
  exHasSessionModelOverride :: "bool option"
  exModelOverrideSource :: "string option"
  exHasAutoFallbackProvenance :: "bool option"
  exAuthProfileId :: "string option"
  exAuthProfileIdSource :: "string option"
  exThinkLevel :: "string option"
  exElevatedLevel :: "string option"
  exExecOverrides :: "exec_overrides option"
  exBashElevated :: "bash_elevated option"
  exBlockReplyBreak :: string
  exInputProvenance :: "input_provenance option"
  exExtraSystemPrompt :: "string option"
  exSourceReplyDeliveryMode :: "string option"
  exTaskSuggestionDeliveryMode :: "string option"
  exSilentReplyPromptMode :: "string option"
  exExtraSystemPromptStatic :: "string option"
  exEnforceFinalTag :: bool
  exSkipProviderRuntimeHints :: bool
  exSilentExpected :: bool
  exAllowEmptyAssistantReplyAsSilent :: bool
  exSuppressNextUserMessagePersistence :: bool
  exSuppressTranscriptOnlyAssistantPersistence :: bool

record followup_run =
  frPrompt :: utf16
  frTranscriptPrompt :: "utf16 option"
  frCurrentInboundEventKind :: "string option"
  frCurrentInboundAudio :: bool
  frAbortSignal :: "ref option"
  frQueueAbortSignal :: "ref option"
  frQueuedLifecycle :: "ref option"
  frMessageId :: "string option"
  frSummaryLine :: "utf16 option"
  frDisableCollectBatching :: bool
  frProtectFromQueueOverflow :: bool
  frEnqueuedAt :: ms
  frOriginatingChannel :: "string option"
  frOriginatingTo :: "string option"
  frOriginatingChatId :: "string option"
  frOriginatingAccountId :: "string option"
  frOriginatingThreadId :: "js_entry option"
  frOriginatingReplyToId :: "string option"
  frOriginatingReplyToMode :: "string option"
  frOriginatingChatType :: "string option"
  frRun :: ref

record queued_lifecycle =
  qlOwnerKey :: "string option"
  qlOnAdmitted :: bool

section \<open>Queues\<close>

text \<open>
  One entry of \<open>summaryElisions\<close>.  \<open>elId\<close> is the identity of the object; the \<open>WeakMap\<close>
  \<open>sourceRefs\<close> leads from a source to the compact object that stands for it.
\<close>

record summary_elision =
  elId :: ref
  elContextKey :: string
  elCount :: nat
  elSources :: "ref list"
  elSourceRefs :: "(ref, ref) jsmap"

record followup_queue = "ref capped_queue" +
  fqAbortController :: ref
  fqDraining :: bool
  fqInFlight :: "ref list"
  fqLastEnqueuedAt :: ms
  fqMode :: queue_mode
  fqDebounceMs :: js_number
  fqSummarySources :: "ref list"
  fqActiveSummarySources :: "ref set"
  fqSummaryElisions :: "summary_elision list"
  fqEvictedSummaryCount :: nat
  fqLastRun :: "ref option"

record followup_world =
  fwRuns :: "ref \<Rightarrow> followup_run"
  fwExecutions :: "ref \<Rightarrow> execution"
  fwLifecycles :: "ref \<Rightarrow> queued_lifecycle"
  fwQueueObjects :: "ref \<Rightarrow> followup_queue"
  fwNext :: ref
  fwAborted :: "ref set"
  fwEnqueued :: "ref set"
  fwAdmitted :: "ref set"
  fwAdmitting :: "ref set"
  fwFinishAfterAdmission :: "ref set"
  fwRetired :: "ref set"
  fwCompleted :: "ref set"
  fwCompletedCallbacks :: "ref set"
  fwRetirements :: "ref list"
  fwCompletions :: "ref list"
  fwQueues :: "(string, ref) jsmap"
  fwDrainCallbacks :: "(string, ref) jsmap"
  fwStartedDrains :: "(string \<times> ref \<times> ref) list"
  fwRecentMessageIds :: dedupe_cache

text \<open>A fresh reference: an object no heap holds yet.\<close>

definition fwFresh :: "followup_world \<Rightarrow> ref \<times> followup_world" where
  "fwFresh w = (fwNext w, w\<lparr>fwNext := Suc (fwNext w)\<rparr>)"

definition setQueueObject ::
    "ref \<Rightarrow> (followup_queue \<Rightarrow> followup_queue) \<Rightarrow> followup_world \<Rightarrow> followup_world" where
  "setQueueObject q f w = w\<lparr>fwQueueObjects := (fwQueueObjects w)(q := f (fwQueueObjects w q))\<rparr>"

definition setRunObject ::
    "ref \<Rightarrow> (followup_run \<Rightarrow> followup_run) \<Rightarrow> followup_world \<Rightarrow> followup_world" where
  "setRunObject r f w = w\<lparr>fwRuns := (fwRuns w)(r := f (fwRuns w r))\<rparr>"

section \<open>Lifecycles\<close>

definition signalAborted :: "followup_world \<Rightarrow> ref option \<Rightarrow> bool" where
  "signalAborted w s = (case s of None \<Rightarrow> False | Some x \<Rightarrow> x \<in> fwAborted w)"

definition isFollowupRunAborted :: "followup_world \<Rightarrow> ref \<Rightarrow> bool" where
  "isFollowupRunAborted w r \<longleftrightarrow>
     signalAborted w (frAbortSignal (fwRuns w r)) \<or> signalAborted w (frQueueAbortSignal (fwRuns w r))"

text \<open>\<open>accepts\<close>: the answer of \<open>onEnqueued\<close> is not \<open>false\<close>.\<close>

definition markFollowupRunEnqueued ::
    "(ref \<Rightarrow> bool) \<Rightarrow> ref \<Rightarrow> followup_world \<Rightarrow> bool \<times> followup_world" where
  "markFollowupRunEnqueued accepts r w =
     (case frQueuedLifecycle (fwRuns w r) of
        None \<Rightarrow> (True, w)
      | Some lc \<Rightarrow>
          if lc \<in> fwEnqueued w then (True, w)
          else if \<not> accepts lc then (False, w)
          else (True, w\<lparr>fwEnqueued := insert lc (fwEnqueued w)\<rparr>))"

definition retireFollowupRunCancellation :: "ref \<Rightarrow> followup_world \<Rightarrow> followup_world" where
  "retireFollowupRunCancellation r w =
     (case frQueuedLifecycle (fwRuns w r) of
        None \<Rightarrow> w
      | Some lc \<Rightarrow>
          if lc \<in> fwRetired w then w
          else w\<lparr>fwRetired := insert lc (fwRetired w), fwRetirements := fwRetirements w @ [lc]\<rparr>)"

text \<open>\<open>finish\<close> of \<open>completeFollowupRunLifecycle\<close>\<close>

definition finishLifecycle :: "ref \<Rightarrow> followup_world \<Rightarrow> followup_world" where
  "finishLifecycle lc w =
     (if lc \<in> fwCompletedCallbacks w then w
      else w\<lparr>fwCompletedCallbacks := insert lc (fwCompletedCallbacks w),
             fwCompletions := fwCompletions w @ [lc]\<rparr>)"

definition completeLifecycle :: "ref \<Rightarrow> followup_world \<Rightarrow> followup_world" where
  "completeLifecycle lc w =
     (if lc \<in> fwCompleted w then w
      else
        let w1 = w\<lparr>fwCompleted := insert lc (fwCompleted w)\<rparr>
        in if lc \<in> fwAdmitting w
           then w1\<lparr>fwFinishAfterAdmission := insert lc (fwFinishAfterAdmission w1)\<rparr>
           else finishLifecycle lc w1)"

definition completeFollowupRunLifecycle :: "ref \<Rightarrow> followup_world \<Rightarrow> followup_world" where
  "completeFollowupRunLifecycle r w =
     (case frQueuedLifecycle (fwRuns w r) of None \<Rightarrow> w | Some lc \<Rightarrow> completeLifecycle lc w)"

text \<open>
  \<open>admitFollowupRunLifecycle\<close> up to its await, and the settling of the admission it started:
  \<open>onAdmitted\<close> returned (\<open>ok\<close>) or threw.
\<close>

datatype admission_start = AdmissionSkipped | AdmissionJoined | AdmissionRefused | AdmissionStarted

definition admitFollowupRunBegin :: "ref \<Rightarrow> followup_world \<Rightarrow> admission_start \<times> followup_world" where
  "admitFollowupRunBegin r w =
     (case frQueuedLifecycle (fwRuns w r) of
        None \<Rightarrow> (AdmissionSkipped, w)
      | Some lc \<Rightarrow>
          if lc \<in> fwAdmitted w then (AdmissionSkipped, w)
          else if lc \<in> fwAdmitting w then (AdmissionJoined, w)
          else if lc \<in> fwCompleted w then (AdmissionRefused, w)
          else (AdmissionStarted, w\<lparr>fwAdmitting := insert lc (fwAdmitting w)\<rparr>))"

definition admitFollowupRunEnd :: "ref \<Rightarrow> bool \<Rightarrow> followup_world \<Rightarrow> followup_world" where
  "admitFollowupRunEnd lc ok w =
     (if lc \<notin> fwAdmitting w then w
      else
        let w1 = w\<lparr>fwAdmitted := (if ok then insert lc (fwAdmitted w) else fwAdmitted w),
                   fwAdmitting := fwAdmitting w - {lc}\<rparr>
        in if lc \<in> fwFinishAfterAdmission w1
           then finishLifecycle lc
                  (w1\<lparr>fwFinishAfterAdmission := fwFinishAfterAdmission w1 - {lc}\<rparr>)
           else w1)"

section \<open>Routes\<close>

definition normalizeOptionalThreadValue :: "js_entry option \<Rightarrow> js_entry option" where
  "normalizeOptionalThreadValue v =
     (case v of
        None \<Rightarrow> None
      | Some (JsInt i) \<Rightarrow> Some (JsInt i)
      | Some (JsString s) \<Rightarrow> map_option JsString (normalizeOptionalString (Some s)))"

definition stringifyRouteThreadId :: "js_entry option \<Rightarrow> string option" where
  "stringifyRouteThreadId v = map_option js_String (normalizeOptionalThreadValue v)"

record channel_route_ref =
  crChannel :: "string option"
  crAccountId :: "string option"
  crTarget :: "string option"
  crThread :: "js_entry option"

definition normalizeChannelRouteRef ::
    "string option \<Rightarrow> string option \<Rightarrow> string option \<Rightarrow> js_entry option \<Rightarrow>
     channel_route_ref option" where
  "normalizeChannelRouteRef rawChannel rawTo rawAccountId rawThreadId =
     (let channel = normalizeLowercaseStringOrEmpty rawChannel;
          accountId = (case rawAccountId of None \<Rightarrow> None | Some a \<Rightarrow> normalizeOptionalAccountId (Some a));
          dest = normalizeOptionalString rawTo;
          threadId = normalizeOptionalThreadValue rawThreadId
      in if channel = [] \<and> dest = None \<and> accountId = None \<and> threadId = None then None
         else Some \<lparr>crChannel = (if channel = [] then None else Some channel),
                    crAccountId = accountId, crTarget = dest, crThread = threadId\<rparr>)"

definition channelRouteDedupeKey :: "channel_route_ref option \<Rightarrow> string" where
  "channelRouteDedupeKey route =
     jsonStringify (JArr (map JStr
       [nullish (Option.bind route crChannel) [],
        nullish (Option.bind route crTarget) [],
        nullish (Option.bind route crAccountId) [],
        nullish (stringifyRouteThreadId (Option.bind route crThread)) []]))"

definition channelRouteCompactKey :: "channel_route_ref option \<Rightarrow> string option" where
  "channelRouteCompactKey route =
     (case (Option.bind route crChannel, Option.bind route crTarget) of
        (Some channel, Some dest) \<Rightarrow>
          Some (js_join ''|''
            [channel, dest, nullish (Option.bind route crAccountId) [],
             nullish (stringifyRouteThreadId (Option.bind route crThread)) []])
      | _ \<Rightarrow> None)"

definition originRoute :: "followup_run \<Rightarrow> channel_route_ref option" where
  "originRoute r = normalizeChannelRouteRef (frOriginatingChannel r) (frOriginatingTo r)
     (frOriginatingAccountId r) (frOriginatingThreadId r)"

section \<open>Delivery keys\<close>

text \<open>
  The number in an \<open>"admission:" + n\<close> key is given to a lifecycle object on first use and never again
  to another; the object's own reference plays that part here.  \<open>slack\<close> tells that \<open>normalizeMessageChannel\<close>, which consults the loaded channel plugins, maps
  the channel to \<open>"slack"\<close>.
\<close>

definition resolveFollowupReplyAnchor :: "(string option \<Rightarrow> bool) \<Rightarrow> followup_run \<Rightarrow> string option" where
  "resolveFollowupReplyAnchor slack r =
     (if frOriginatingReplyToMode r = Some ''off'' then None
      else
        let replyToId = normalizeOptionalString (frOriginatingReplyToId r)
        in if replyToId \<noteq> None \<or> \<not> slack (frOriginatingChannel r) then replyToId
           else
             let hasRoutedThread =
                   (case frOriginatingThreadId r of
                      Some (JsInt i) \<Rightarrow> True
                    | Some (JsString s) \<Rightarrow> normalizeOptionalString (Some s) \<noteq> None
                    | None \<Rightarrow> False)
             in if hasRoutedThread then None else normalizeOptionalString (frMessageId r))"

definition kopt :: "string option \<Rightarrow> json" where
  "kopt v = JStr (nullish v [])"

definition resolveFollowupAuthorizationKey :: "execution \<Rightarrow> string" where
  "resolveFollowupAuthorizationKey e =
     jsonStringify (JArr [kopt (exSenderId e),
       JStr (nullish (exChannelContext e) ''null''),
       kopt (exSenderE164 e), JBool (exSenderIsOwner e),
       kopt (Option.bind (exExecOverrides e) eoHost),
       kopt (Option.bind (exExecOverrides e) eoSecurity),
       kopt (Option.bind (exExecOverrides e) eoAsk),
       kopt (Option.bind (exExecOverrides e) eoNode),
       kopt (Option.bind (exExecOverrides e) eoNodeCwd),
       JBool (case exBashElevated e of None \<Rightarrow> False | Some b \<Rightarrow> beEnabled b),
       JBool (case exBashElevated e of None \<Rightarrow> False | Some b \<Rightarrow> beAllowed b),
       kopt (map_option beDefaultLevel (exBashElevated e)),
       kopt (exApprovalReviewerDeviceId e)])"

definition resolveQueuedLifecycleDeliveryKey :: "followup_world \<Rightarrow> ref option \<Rightarrow> string" where
  "resolveQueuedLifecycleDeliveryKey w lifecycle =
     (case lifecycle of
        None \<Rightarrow> []
      | Some lc \<Rightarrow>
          let explicitOwnerKey = nullish (qlOwnerKey (fwLifecycles w lc)) []
          in if \<not> qlOnAdmitted (fwLifecycles w lc) then explicitOwnerKey
             else jsonStringify
                    (JArr [JStr explicitOwnerKey, JStr (''admission:'' @ nat_digits lc)]))"

definition kchat :: "string option \<Rightarrow> json" where
  "kchat v = kopt (map_option chatTypeName (normalizeChatType v))"

definition resolveFollowupDeliveryContextKey ::
    "(string option \<Rightarrow> bool) \<Rightarrow> followup_world \<Rightarrow> ref \<Rightarrow> string" where
  "resolveFollowupDeliveryContextKey slack w ref =
     (let r = fwRuns w ref; e = fwExecutions w (frRun r); p = exInputProvenance e
      in jsonStringify (JArr [JStr (channelRouteDedupeKey (originRoute r)),
        kopt (frOriginatingChatId r),
        kopt (resolveFollowupReplyAnchor slack r),
        kopt (frOriginatingReplyToMode r),
        kchat (frOriginatingChatType r),
        JStr (resolveFollowupAuthorizationKey e),
        kopt (Option.bind (frQueuedLifecycle r) (\<lambda>lc. qlOwnerKey (fwLifecycles w lc))),
        kopt (normalizeOptionalString (orElse (exRuntimePolicySessionKey e) (exSessionKey e))),
        kopt (exMessageProvider e),
        JStr (jsonStringify (JArr (map JStr (sort (uniqueValues (nullish (exClientCaps e) [])))))),
        kopt (exChatType e), kopt (exAgentAccountId e),
        kopt (exGroupId e), kopt (exGroupChannel e), kopt (exGroupSpace e), kopt (exSpawnedBy e),
        JBool (exTraceAuthorized e), kopt (exElevatedLevel e),
        kopt (map_option ipKind p), kopt (Option.bind p ipOriginSessionId),
        kopt (Option.bind p ipSourceSessionKey), kopt (Option.bind p ipSourceChannel),
        kopt (Option.bind p ipSourceTool),
        kopt (exExtraSystemPrompt e), kopt (exExtraSystemPromptStatic e),
        kopt (exSourceReplyDeliveryMode e), kopt (exTaskSuggestionDeliveryMode e),
        kopt (exSilentReplyPromptMode e),
        JBool (exEnforceFinalTag e), JBool (exSkipProviderRuntimeHints e),
        JBool (exSilentExpected e), JBool (exAllowEmptyAssistantReplyAsSilent e),
        JBool (exSuppressNextUserMessagePersistence e),
        JBool (exSuppressTranscriptOnlyAssistantPersistence e),
        JStr (exBlockReplyBreak e),
        JStr (resolveQueuedLifecycleDeliveryKey w (frQueuedLifecycle r))]))"

end
