(* ===== verification/FollowupQueue.thy ===== *)
theory FollowupQueue
  imports FollowupTypes CommandQueue
begin

text \<open>
  The follow-up queues: \<open>state.ts\<close>, \<open>enqueue.ts\<close> and \<open>cleanup.ts\<close> of \<open>auto-reply/reply/queue\<close>,
  and the part of \<open>drain.ts\<close> that starts a drain.

  The callbacks of a lifecycle are assumed not to call back into the queue.  A drain runs on its
  own chain; starting one records it in \<open>fwStartedDrains\<close>.
\<close>

section \<open>Drain start\<close>

definition rememberFollowupDrainCallback :: "string \<Rightarrow> ref \<Rightarrow> followup_world \<Rightarrow> followup_world" where
  "rememberFollowupDrainCallback key cb w =
     w\<lparr>fwDrainCallbacks := jm_set key cb (fwDrainCallbacks w)\<rparr>"

definition clearFollowupDrainCallback :: "string \<Rightarrow> followup_world \<Rightarrow> followup_world" where
  "clearFollowupDrainCallback key w =
     w\<lparr>fwDrainCallbacks := jm_delete key (fwDrainCallbacks w)\<rparr>"

definition beginQueueDrain :: "string \<Rightarrow> followup_world \<Rightarrow> ref option \<times> followup_world" where
  "beginQueueDrain key w =
     (case jm_get (fwQueues w) key of
        None \<Rightarrow> (None, w)
      | Some q \<Rightarrow>
          if fqDraining (fwQueueObjects w q) then (None, w)
          else (Some q, setQueueObject q (\<lambda>Q. Q\<lparr>fqDraining := True\<rparr>) w))"

definition scheduleFollowupDrain :: "string \<Rightarrow> ref \<Rightarrow> followup_world \<Rightarrow> followup_world" where
  "scheduleFollowupDrain key runFollowup w =
     (case jm_get (fwQueues w) key of
        None \<Rightarrow> w
      | Some q \<Rightarrow>
          if fqDraining (fwQueueObjects w q) then rememberFollowupDrainCallback key runFollowup w
          else
            let (started, w1) = beginQueueDrain key w;
                cb = nullish (jm_get (fwDrainCallbacks w1) key) runFollowup
            in case started of
                 None \<Rightarrow> w1
               | Some q' \<Rightarrow>
                   let w2 = rememberFollowupDrainCallback key cb w1
                   in w2\<lparr>fwStartedDrains := fwStartedDrains w2 @ [(key, q', cb)]\<rparr>)"

definition kickFollowupDrainIfIdle :: "string \<Rightarrow> followup_world \<Rightarrow> followup_world" where
  "kickFollowupDrainIfIdle key w =
     (case jm_get (fwDrainCallbacks w) key of
        None \<Rightarrow> w
      | Some cb \<Rightarrow> scheduleFollowupDrain key cb w)"

section \<open>Elided summaries\<close>

text \<open>
  A compact copy of a run, allocated as a new object: it shares the \<open>run\<close> part, the lifecycle and
  the signals, and drops what only a delivery of the run itself would need.
\<close>

definition compactSource :: "followup_run \<Rightarrow> followup_run" where
  "compactSource r = r\<lparr>
     frCurrentInboundEventKind :=
       (if frCurrentInboundEventKind r = Some ''room_event'' then Some ''room_event'' else None),
     frCurrentInboundAudio := False,
     frDisableCollectBatching := False,
     frProtectFromQueueOverflow := False\<rparr>"

definition createOverflowSummaryRetrySource :: "ref \<Rightarrow> followup_world \<Rightarrow> ref \<times> followup_world" where
  "createOverflowSummaryRetrySource source w =
     (let (c, w1) = fwFresh w
      in (c, w1\<lparr>fwRuns := (fwRuns w1)(c := compactSource (fwRuns w1 source))\<rparr>))"

definition idleSources :: "followup_queue \<Rightarrow> nat" where
  "idleSources Q = foldl (\<lambda>count entry. count +
      length (filter (\<lambda>s. s \<notin> fqActiveSummarySources Q) (elSources entry))) 0 (fqSummaryElisions Q)"

text \<open>The inner loop: the first entry with a source that is not in use loses that source.\<close>

fun evictOneElision ::
    "ref set \<Rightarrow> summary_elision list \<Rightarrow> (ref \<times> summary_elision list) option" where
  "evictOneElision active [] = None"
| "evictOneElision active (entry # entries) =
     (case find_index (\<lambda>s. s \<notin> active) (elSources entry) of
        None \<Rightarrow> map_option (\<lambda>(s, es). (s, entry # es)) (evictOneElision active entries)
      | Some i \<Rightarrow>
          let sources = take i (elSources entry) @ drop (Suc i) (elSources entry)
          in Some (elSources entry ! i,
                   if sources = [] then entries
                   else entry\<lparr>elSources := sources, elCount := length sources\<rparr> # entries))"

partial_function (option) trimLoop ::
    "nat \<Rightarrow> ref \<Rightarrow> followup_world \<Rightarrow> followup_world option" where
  "trimLoop sourceCount q w =
     (if js_count_greater sourceCount (cap (fwQueueObjects w q))
      then (case evictOneElision (fqActiveSummarySources (fwQueueObjects w q))
                   (fqSummaryElisions (fwQueueObjects w q)) of
              None \<Rightarrow> Some w
            | Some (source, entries) \<Rightarrow>
                trimLoop (sourceCount - 1) q
                  (completeFollowupRunLifecycle source
                    (setQueueObject q
                      (\<lambda>Q. Q\<lparr>fqSummaryElisions := entries,
                             fqEvictedSummaryCount := fqEvictedSummaryCount Q + 1\<rparr>) w)))
      else Some w)"

definition trimSummaryElisionsToCap :: "ref \<Rightarrow> followup_world \<Rightarrow> followup_world" where
  "trimSummaryElisionsToCap q w = the (trimLoop (idleSources (fwQueueObjects w q)) q w)"

section \<open>Queue objects\<close>

definition DEFAULT_QUEUE_DEBOUNCE_MS :: js_number where
  "DEFAULT_QUEUE_DEBOUNCE_MS = Finite 500"

definition DEFAULT_QUEUE_CAP :: js_number where
  "DEFAULT_QUEUE_CAP = Finite 20"

definition DEFAULT_QUEUE_DROP :: queue_drop_policy where
  "DEFAULT_QUEUE_DROP = Summarize"

definition getExistingFollowupQueue :: "string \<Rightarrow> followup_world \<Rightarrow> ref option" where
  "getExistingFollowupQueue key w =
     (let cleaned = js_trim key in if cleaned = [] then None else jm_get (fwQueues w) cleaned)"

definition applySettings :: "queue_mode queue_settings \<Rightarrow> followup_queue \<Rightarrow> followup_queue" where
  "applySettings settings Q =
     (case applyQueueRuntimeSettings settings (fqMode Q, fqDebounceMs Q, cap Q, dropPolicy Q) of
        (mode, debounceMs, c, policy) \<Rightarrow>
          Q\<lparr>dropPolicy := policy, cap := c, fqMode := mode, fqDebounceMs := debounceMs\<rparr>)"

definition newFollowupQueue :: "ref \<Rightarrow> queue_mode queue_settings \<Rightarrow> followup_queue" where
  "newFollowupQueue controller settings = \<lparr>
     dropPolicy = nullish (set_dropPolicy settings) DEFAULT_QUEUE_DROP,
     droppedCount = 0, summaryLines = [], items = [],
     cap = settingCap (set_cap settings) DEFAULT_QUEUE_CAP,
     fqAbortController = controller, fqDraining = False, fqInFlight = [], fqLastEnqueuedAt = 0,
     fqMode = set_mode settings,
     fqDebounceMs = settingDebounce (set_debounceMs settings) DEFAULT_QUEUE_DEBOUNCE_MS,
     fqSummarySources = [], fqActiveSummarySources = {}, fqSummaryElisions = [],
     fqEvictedSummaryCount = 0, fqLastRun = None\<rparr>"

definition getFollowupQueue ::
    "string \<Rightarrow> queue_mode queue_settings \<Rightarrow> followup_world \<Rightarrow> ref \<times> followup_world" where
  "getFollowupQueue key settings w =
     (case jm_get (fwQueues w) key of
        Some q \<Rightarrow> (q, trimSummaryElisionsToCap q (setQueueObject q (applySettings settings) w))
      | None \<Rightarrow>
          let (controller, w1) = fwFresh w;
              (q, w2) = fwFresh w1
          in (q, w2\<lparr>fwQueueObjects := (fwQueueObjects w2)
                       (q := applySettings settings (newFollowupQueue controller settings)),
                    fwQueues := jm_set key q (fwQueues w2)\<rparr>))"

definition emptiedQueue :: "followup_queue \<Rightarrow> followup_queue" where
  "emptiedQueue Q = Q\<lparr>items := [], fqInFlight := [], droppedCount := 0, summaryLines := [],
     fqSummarySources := [], fqSummaryElisions := [], fqEvictedSummaryCount := 0,
     fqLastRun := None, fqLastEnqueuedAt := 0\<rparr>"

definition queueSources :: "followup_queue \<Rightarrow> ref list" where
  "queueSources Q = items Q @ fqSummarySources Q @ concat (map elSources (fqSummaryElisions Q))"

definition clearFollowupQueue :: "string \<Rightarrow> followup_world \<Rightarrow> nat \<times> followup_world" where
  "clearFollowupQueue key w =
     (let cleaned = js_trim key
      in case getExistingFollowupQueue cleaned w of
           None \<Rightarrow> (0, w)
         | Some q \<Rightarrow>
             let Q = fwQueueObjects w q;
                 w1 = w\<lparr>fwAborted := insert (fqAbortController Q) (fwAborted w)\<rparr>;
                 w2 = fold completeFollowupRunLifecycle (queueSources Q) w1;
                 w3 = setQueueObject q emptiedQueue w2
             in (length (items Q) + droppedCount Q,
                 w3\<lparr>fwQueues := jm_delete cleaned (fwQueues w3)\<rparr>))"


section \<open>Session changes\<close>

text \<open>
  The arguments of \<open>refreshQueuedFollowupSession\<close>.  For the fields the code tests with
  \<open>Object.hasOwn\<close> the outer option says whether the field is there.  \<open>rsThinking\<close> is the level
  \<open>nextThinking\<close> resolves to for a provider and a model; the tables of thinking levels are data of
  the model plugins.
\<close>

record refresh_params =
  rsKey :: string
  rsPreviousSessionId :: "string option"
  rsNextSessionId :: "string option"
  rsNextSessionFile :: "string option"
  rsNextProvider :: "string option"
  rsNextModel :: "string option"
  rsNextModelOverrideSource :: "string option option"
  rsNextAuthProfileId :: "string option option"
  rsNextAuthProfileIdSource :: "string option option"
  rsThinking :: "(string \<Rightarrow> string \<Rightarrow> string option) option"

definition truthyString :: "string option \<Rightarrow> bool" where
  "truthyString v \<longleftrightarrow> v \<noteq> None \<and> v \<noteq> Some []"

definition rewritesSession :: "refresh_params \<Rightarrow> bool" where
  "rewritesSession p \<longleftrightarrow> truthyString (rsPreviousSessionId p) \<and> truthyString (rsNextSessionId p)
     \<and> rsPreviousSessionId p \<noteq> rsNextSessionId p"

definition rewritesModelSelection :: "refresh_params \<Rightarrow> bool" where
  "rewritesModelSelection p \<longleftrightarrow>
     rsNextProvider p \<noteq> None \<or> rsNextModel p \<noteq> None \<or> rsNextModelOverrideSource p \<noteq> None"

definition rewritesSelection :: "refresh_params \<Rightarrow> bool" where
  "rewritesSelection p \<longleftrightarrow> rewritesModelSelection p \<or> rsNextAuthProfileId p \<noteq> None
     \<or> rsNextAuthProfileIdSource p \<noteq> None \<or> rsThinking p \<noteq> None"

definition rewriteSession :: "refresh_params \<Rightarrow> execution \<Rightarrow> execution" where
  "rewriteSession p e =
     (if rewritesSession p \<and> Some (exSessionId e) = rsPreviousSessionId p
      then
        let e1 = e\<lparr>exSessionId := nullish (rsNextSessionId p) []\<rparr>
        in case normalizeOptionalString (rsNextSessionFile p) of
             None \<Rightarrow> e1
           | Some f \<Rightarrow> e1\<lparr>exSessionFile := f\<rparr>
      else e)"

definition rewriteSelection :: "refresh_params \<Rightarrow> execution \<Rightarrow> execution" where
  "rewriteSelection p e =
     (if \<not> rewritesSelection p then e
      else
        let e1 = e\<lparr>exProvider := nullish (rsNextProvider p) (exProvider e),
                  exModel := nullish (rsNextModel p) (exModel e)\<rparr>;
            e2 = (if rewritesModelSelection p then e1\<lparr>exHasAutoFallbackProvenance := None\<rparr> else e1);
            e3 = (case rsNextModelOverrideSource p of
                    None \<Rightarrow> e2
                  | Some src \<Rightarrow> e2\<lparr>exHasSessionModelOverride :=
                                    Some (exProvider e2 \<noteq> [] \<or> exModel e2 \<noteq> []),
                                  exModelOverrideSource := src\<rparr>);
            e4 = (case rsNextAuthProfileId p of
                    None \<Rightarrow> e3
                  | Some a \<Rightarrow> e3\<lparr>exAuthProfileId := normalizeOptionalString a\<rparr>);
            e5 = (case rsNextAuthProfileIdSource p of
                    None \<Rightarrow> e4
                  | Some src \<Rightarrow> e4\<lparr>exAuthProfileIdSource :=
                                  (if truthyString (exAuthProfileId e4) then src else None)\<rparr>)
        in case rsThinking p of
             None \<Rightarrow> e5
           | Some level \<Rightarrow> e5\<lparr>exThinkLevel := level (exProvider e5) (exModel e5)\<rparr>)"

definition rewriteRun :: "refresh_params \<Rightarrow> ref \<Rightarrow> followup_world \<Rightarrow> followup_world" where
  "rewriteRun p r w =
     w\<lparr>fwExecutions := (fwExecutions w)
         (r := rewriteSelection p (rewriteSession p (fwExecutions w r)))\<rparr>"

definition refreshQueuedFollowupSession :: "refresh_params \<Rightarrow> followup_world \<Rightarrow> followup_world" where
  "refreshQueuedFollowupSession p w =
     (let cleaned = js_trim (rsKey p)
      in if cleaned = [] then w
         else
           (case getExistingFollowupQueue cleaned w of
              None \<Rightarrow> w
            | Some q \<Rightarrow>
                if \<not> rewritesSession p \<and> \<not> rewritesSelection p then w
                else
                  let Q = fwQueueObjects w q;
                      w1 = (case fqLastRun Q of None \<Rightarrow> w | Some r \<Rightarrow> rewriteRun p r w)
                  in fold (\<lambda>s w. rewriteRun p (frRun (fwRuns w s)) w) (queueSources Q) w1))"

section \<open>Enqueueing\<close>

definition RECENT_QUEUE_OPTIONS :: dedupe_options where
  "RECENT_QUEUE_OPTIONS = \<lparr>ttlMs = 5 * 60 * 1000, maxSize = 10000\<rparr>"

definition followupRouteIdentityKey :: "(string option \<Rightarrow> bool) \<Rightarrow> followup_run \<Rightarrow> string" where
  "followupRouteIdentityKey slack r =
     jsonStringify (JArr [JStr (channelRouteDedupeKey (originRoute r)),
       kopt (resolveFollowupReplyAnchor slack r), kopt (frOriginatingReplyToMode r),
       kchat (frOriginatingChatType r)])"

definition followupMessageRouteIdentityKey :: "followup_run \<Rightarrow> string" where
  "followupMessageRouteIdentityKey r =
     jsonStringify (JArr [JStr (channelRouteDedupeKey (originRoute r)), kchat (frOriginatingChatType r)])"

definition buildRecentMessageIdKey :: "followup_run \<Rightarrow> string \<Rightarrow> string option" where
  "buildRecentMessageIdKey r queueKey =
     map_option (\<lambda>messageId.
         jsonStringify (JArr [JStr ''queue'', JStr queueKey, JStr (followupMessageRouteIdentityKey r),
           JStr messageId]))
       (normalizeOptionalString (frMessageId r))"

definition isRunAlreadyQueued ::
    "(string option \<Rightarrow> bool) \<Rightarrow> (ref \<Rightarrow> followup_run) \<Rightarrow> bool \<Rightarrow> ref \<Rightarrow> ref list \<Rightarrow> bool" where
  "isRunAlreadyQueued slack runs allowPromptFallback run xs =
     (let r = runs run
      in case normalizeOptionalString (frMessageId r) of
           Some messageId \<Rightarrow>
             list_ex (\<lambda>i. normalizeOptionalString (frMessageId (runs i)) = Some messageId
               \<and> followupMessageRouteIdentityKey (runs i) = followupMessageRouteIdentityKey r) xs
         | None \<Rightarrow>
             allowPromptFallback \<and>
             list_ex (\<lambda>i. frPrompt (runs i) = frPrompt r
               \<and> followupRouteIdentityKey slack (runs i) = followupRouteIdentityKey slack r) xs)"

text \<open>\<open>normalizeOptionalString(item.summaryLine) || item.prompt.trim()\<close>\<close>

definition summarizeRun :: "(ref \<Rightarrow> followup_run) \<Rightarrow> ref \<Rightarrow> utf16" where
  "summarizeRun runs i =
     (let line = u16_trim (nullish (frSummaryLine (runs i)) [])
      in if line = [] then u16_trim (frPrompt (runs i)) else line)"

text \<open>\<open>onDrop\<close>, and the move of the oldest summary sources beyond the lines into the elisions.\<close>

definition onDropRuns :: "ref list \<Rightarrow> followup_queue \<times> followup_world \<Rightarrow> followup_queue \<times> followup_world" where
  "onDropRuns dropped qw =
     (case qw of (Q, w) \<Rightarrow>
        if dropPolicy Q = Summarize
        then (Q\<lparr>fqSummarySources := fqSummarySources Q @ dropped\<rparr>, w)
        else (Q, fold completeFollowupRunLifecycle dropped w))"

definition elideEntry :: "ref \<Rightarrow> string \<Rightarrow> ref \<Rightarrow> ref \<Rightarrow> followup_queue \<Rightarrow> followup_queue" where
  "elideEntry newId contextKey item twin Q =
     (let active = (if item \<in> fqActiveSummarySources Q
                    then insert twin (fqActiveSummarySources Q) else fqActiveSummarySources Q);
          entries = fqSummaryElisions Q
      in Q\<lparr>fqActiveSummarySources := active,
           fqSummaryElisions :=
             (if entries \<noteq> [] \<and> elContextKey (last entries) = contextKey
              then butlast entries @
                [(last entries)\<lparr>elCount := elCount (last entries) + 1,
                   elSources := elSources (last entries) @ [twin],
                   elSourceRefs := jm_set item twin (elSourceRefs (last entries))\<rparr>]
              else entries @
                [\<lparr>elId = newId, elContextKey = contextKey, elCount = 1, elSources = [twin],
                  elSourceRefs = [(item, twin)]\<rparr>])\<rparr>)"

definition elideSource ::
    "(string option \<Rightarrow> bool) \<Rightarrow> ref \<Rightarrow> ref \<Rightarrow> followup_world \<Rightarrow> followup_world" where
  "elideSource slack q item w =
     (let contextKey = resolveFollowupDeliveryContextKey slack w item;
          (twin, w1) = createOverflowSummaryRetrySource item w;
          (newId, w2) = fwFresh w1
      in trimSummaryElisionsToCap q (setQueueObject q (elideEntry newId contextKey item twin) w2))"

definition elideOverflow :: "(string option \<Rightarrow> bool) \<Rightarrow> ref \<Rightarrow> followup_world \<Rightarrow> followup_world" where
  "elideOverflow slack q w =
     (let Q = fwQueueObjects w q;
          overflow = length (fqSummarySources Q) - length (summaryLines Q);
          removed = take overflow (fqSummarySources Q)
      in fold (elideSource slack q) removed
           (setQueueObject q (\<lambda>Q. Q\<lparr>fqSummarySources := drop overflow (fqSummarySources Q)\<rparr>) w))"

definition applyFollowupDropPolicy :: "ref \<Rightarrow> followup_world \<Rightarrow> bool \<times> followup_world" where
  "applyFollowupDropPolicy q w =
     (let Q = fwQueueObjects w q;
          (ok, Q1, w1) = applyQueueDropPolicy (summarizeRun (fwRuns w)) None onDropRuns
            (Some (fqInFlight Q)) (\<lambda>i. frProtectFromQueueOverflow (fwRuns w i)) (Q, w)
      in (ok, setQueueObject q (\<lambda>_. Q1) w1))"

text \<open>The admitted run joins the queue.\<close>

definition admitToQueue :: "ms \<Rightarrow> insert_position \<Rightarrow> ref \<Rightarrow> ref \<Rightarrow> followup_world \<Rightarrow> followup_world" where
  "admitToQueue now position run q w =
     (let w1 = setRunObject run
            (\<lambda>r. r\<lparr>frQueueAbortSignal := Some (fqAbortController (fwQueueObjects w q))\<rparr>) w
      in setQueueObject q (\<lambda>Q. Q\<lparr>fqLastEnqueuedAt := now, fqLastRun := Some (frRun (fwRuns w run)),
            items := (if position = AtFront then run # items Q else items Q @ [run])\<rparr>) w1)"

text \<open>From the admission to the end of \<open>enqueueFollowupRun\<close>.\<close>

definition finishEnqueue ::
    "ms \<Rightarrow> string \<Rightarrow> ref \<Rightarrow> ref option \<Rightarrow> bool \<Rightarrow> insert_position \<Rightarrow> string option \<Rightarrow> ref \<Rightarrow>
     followup_world \<Rightarrow> followup_world" where
  "finishEnqueue now key run runFollowup restartIfIdle position recentKey q w =
     (let w7 = admitToQueue now position run q w;
          w8 = (case recentKey of
                  None \<Rightarrow> w7
                | Some k \<Rightarrow> w7\<lparr>fwRecentMessageIds :=
                    snd (checkKey RECENT_QUEUE_OPTIONS (Some k) now (fwRecentMessageIds w7))\<rparr>);
          w9 = (case runFollowup of None \<Rightarrow> w8 | Some cb \<Rightarrow> rememberFollowupDrainCallback key cb w8)
      in if restartIfIdle \<and> \<not> fqDraining (fwQueueObjects w9 q)
         then kickFollowupDrainIfIdle key w9 else w9)"

definition enqueueFollowupRun ::
    "(string option \<Rightarrow> bool) \<Rightarrow> (ref \<Rightarrow> bool) \<Rightarrow> ms \<Rightarrow> string \<Rightarrow> ref \<Rightarrow> queue_mode queue_settings \<Rightarrow>
     queue_dedupe_mode \<Rightarrow> ref option \<Rightarrow> bool \<Rightarrow> insert_position \<Rightarrow> followup_world \<Rightarrow>
     bool \<times> followup_world" where
  "enqueueFollowupRun slack accepts now key run settings dedupeMode runFollowup restartIfIdle position w =
     (if isFollowupRunAborted w run then (False, w)
      else
        let w1 = (if position = AtFront
                  then setRunObject run (\<lambda>r. r\<lparr>frProtectFromQueueOverflow := True\<rparr>) w else w);
            (q, w2) = getFollowupQueue key settings w1;
            recentKey = (if dedupeMode = DedupeNone then None
                         else buildRecentMessageIdKey (fwRuns w2 run) key);
            (recent, cache) = (case recentKey of
               None \<Rightarrow> (False, fwRecentMessageIds w2)
             | Some k \<Rightarrow> peekKey RECENT_QUEUE_OPTIONS (Some k) now (fwRecentMessageIds w2));
            w3 = w2\<lparr>fwRecentMessageIds := cache\<rparr>;
            Q = fwQueueObjects w3 q
        in if recent then (False, w3)
           else if shouldSkipQueueItem run (items Q)
                     (if dedupeMode = DedupeNone then None
                      else Some (isRunAlreadyQueued slack (fwRuns w3) (dedupeMode = DedupePrompt)))
           then (False, w3)
           else if dropPolicy Q = DropNew \<and> js_positive (cap Q) \<and>
                   \<not> js_count_less (countPendingQueueItems (items Q) (Some (fqInFlight Q))) (cap Q)
           then (False, completeFollowupRunLifecycle run w3)
           else
             (case markFollowupRunEnqueued accepts run w3 of
                (False, w4) \<Rightarrow> (False, w4)
              | (True, w4) \<Rightarrow>
                  let (shouldEnqueue, w5) = applyFollowupDropPolicy q w4;
                      w6 = (if dropPolicy (fwQueueObjects w5 q) = Summarize
                            then elideOverflow slack q w5 else w5)
                  in if \<not> shouldEnqueue then (False, completeFollowupRunLifecycle run w6)
                     else (True, finishEnqueue now key run runFollowup restartIfIdle position recentKey q w6)))"

definition getFollowupQueueDepth :: "string \<Rightarrow> followup_world \<Rightarrow> nat" where
  "getFollowupQueueDepth key w =
     (case getExistingFollowupQueue key w of
        None \<Rightarrow> 0
      | Some q \<Rightarrow> countPendingQueueItems (items (fwQueueObjects w q))
                   (Some (fqInFlight (fwQueueObjects w q))))"

section \<open>Clearing a session\<close>

text \<open>\<open>resolveSessionLane\<close> of \<open>agents/embedded-agent-runner/lanes.ts\<close>\<close>

definition resolveSessionLane :: "string \<Rightarrow> string" where
  "resolveSessionLane key =
     (let trimmed = js_trim key;
          cleaned = (if trimmed = [] then CommandLane_Main else trimmed)
      in if js_starts_with cleaned ''session:'' then cleaned else ''session:'' @ cleaned)"

record clear_session_result =
  followupCleared :: nat
  laneCleared :: nat
  clearedKeys :: "string list"

fun clearSessionLoop ::
    "string option list \<Rightarrow> string list \<Rightarrow> clear_session_result \<Rightarrow> followup_world \<times> queue_state \<Rightarrow>
     clear_session_result \<times> followup_world \<times> queue_state" where
  "clearSessionLoop [] seen res wl = (res, wl)"
| "clearSessionLoop (key # keys) seen res wl =
     (case normalizeOptionalString key of
        None \<Rightarrow> clearSessionLoop keys seen res wl
      | Some cleaned \<Rightarrow>
          if cleaned \<in> set seen then clearSessionLoop keys seen res wl
          else
            (let (w, lanes) = wl;
                 (followups, w1) = clearFollowupQueue cleaned w;
                 w2 = clearFollowupDrainCallback cleaned w1;
                 (removed, lanes1) = clearCommandLane (resolveSessionLane cleaned) lanes
             in clearSessionLoop keys (set_add cleaned seen)
                  \<lparr>followupCleared = followupCleared res + followups,
                   laneCleared = laneCleared res + removed,
                   clearedKeys = clearedKeys res @ [cleaned]\<rparr> (w2, lanes1)))"

definition clearSessionQueues ::
    "string option list \<Rightarrow> followup_world \<times> queue_state \<Rightarrow>
     clear_session_result \<times> followup_world \<times> queue_state" where
  "clearSessionQueues keys wl =
     clearSessionLoop keys [] \<lparr>followupCleared = 0, laneCleared = 0, clearedKeys = []\<rparr> wl"

end
