(* ===== verification/FollowupDrain.thy ===== *)
theory FollowupDrain
  imports FollowupQueue
begin

text \<open>
  The drain of a follow-up queue, \<open>auto-reply/reply/queue/drain.ts\<close>.  A drain awaits the delivery
  of every run, and enqueueing, clearing and session changes may happen meanwhile; so each function
  is cut at its awaits, and a definition below is the code between two of them.  What the drain
  remembers across an await is an argument.
\<close>

section \<open>Aborted runs\<close>

text \<open>
  \<open>dropAbortedFollowups\<close>: the loop goes down from \<open>index\<close> to the next aborted run, whose
  \<open>runFollowup\<close> is awaited; \<open>expectDefined\<close> throws when the queue has become shorter.
\<close>

datatype aborted_scan = ScanDone | ScanThrow | ScanRun nat ref

fun dropAbortedScan :: "followup_world \<Rightarrow> ref list \<Rightarrow> nat \<Rightarrow> aborted_scan" where
  "dropAbortedScan w xs 0 = ScanDone"
| "dropAbortedScan w xs (Suc index) =
     (if length xs \<le> index then ScanThrow
      else if isFollowupRunAborted w (xs ! index) then ScanRun index (xs ! index)
      else dropAbortedScan w xs index)"

definition dropAbortedBegin :: "ref \<Rightarrow> followup_world \<Rightarrow> aborted_scan" where
  "dropAbortedBegin q w =
     dropAbortedScan w (items (fwQueueObjects w q)) (length (items (fwQueueObjects w q)))"

definition dropAbortedAfterRun ::
    "ref \<Rightarrow> nat \<Rightarrow> ref \<Rightarrow> followup_world \<Rightarrow> followup_world \<times> aborted_scan" where
  "dropAbortedAfterRun q index item w =
     (let w1 = completeFollowupRunLifecycle item w;
          w2 = setQueueObject q
                 (\<lambda>Q. Q\<lparr>items := take index (items Q) @ drop (Suc index) (items Q)\<rparr>) w1
      in (w2, dropAbortedScan w2 (items (fwQueueObjects w2 q)) index))"

section \<open>Priority runs and single runs\<close>

definition priorityRun :: "ref \<Rightarrow> followup_world \<Rightarrow> ref option" where
  "priorityRun q w =
     find (\<lambda>i. frProtectFromQueueOverflow (fwRuns w i)) (items (fwQueueObjects w q))"

definition priorityAfterRun :: "ref \<Rightarrow> ref \<Rightarrow> followup_world \<Rightarrow> followup_world" where
  "priorityAfterRun q prio w =
     setQueueObject q (\<lambda>Q. Q\<lparr>items := removeQueuedItemsByRef (items Q) [prio]\<rparr>) w"

text \<open>\<open>FOLLOWUP_QUEUES.get(key) === queue && !queue.abortController.signal.aborted\<close>\<close>

definition queueStillCurrent :: "string \<Rightarrow> ref \<Rightarrow> followup_world \<Rightarrow> bool" where
  "queueStillCurrent key q w \<longleftrightarrow>
     jm_get (fwQueues w) key = Some q \<and> fqAbortController (fwQueueObjects w q) \<notin> fwAborted w"

definition nextRunBegin :: "ref \<Rightarrow> followup_world \<Rightarrow> (ref \<times> followup_world) option" where
  "nextRunBegin q w =
     (case drainNextBegin (items (fwQueueObjects w q)) (Some (fqInFlight (fwQueueObjects w q))) of
        None \<Rightarrow> None
      | Some (next, inFlight) \<Rightarrow>
          Some (next, setQueueObject q (\<lambda>Q. Q\<lparr>fqInFlight := nullish inFlight []\<rparr>) w))"

definition nextRunEnd :: "string \<Rightarrow> ref \<Rightarrow> ref \<Rightarrow> bool \<Rightarrow> followup_world \<Rightarrow> followup_world" where
  "nextRunEnd key q next threw w =
     (let Q = fwQueueObjects w q;
          (xs, inFlight, discard) = drainNextEnd next threw (Some (queueStillCurrent key q w))
            (items Q) (Some (fqInFlight Q));
          w1 = setQueueObject q (\<lambda>Q. Q\<lparr>items := xs, fqInFlight := nullish inFlight []\<rparr>) w
      in if discard then completeFollowupRunLifecycle next w1 else w1)"

section \<open>Summary deliveries\<close>

text \<open>The first summary sources with one delivery key.\<close>

definition resolveOverflowSummarySourceGroup ::
    "(string option \<Rightarrow> bool) \<Rightarrow> followup_world \<Rightarrow> ref list \<Rightarrow> ref list" where
  "resolveOverflowSummarySourceGroup slack w sources =
     (case sources of
        [] \<Rightarrow> []
      | source # _ \<Rightarrow>
          takeWhile (\<lambda>c. resolveFollowupDeliveryContextKey slack w c =
                         resolveFollowupDeliveryContextKey slack w source) sources)"

record summary_delivery =
  sdPrompt :: utf16
  sdDroppedCount :: nat
  sdSources :: "ref list"

definition createQueueSummaryDelivery ::
    "followup_queue \<Rightarrow> ref list option \<Rightarrow> summary_delivery option" where
  "createQueueSummaryDelivery Q given =
     (let sources = nullish given (fqSummarySources Q);
          stale = (case given of None \<Rightarrow> False | Some ss \<Rightarrow> \<not> prefix ss (fqSummarySources Q));
          count = (case given of None \<Rightarrow> droppedCount Q | Some ss \<Rightarrow> length ss);
          previewLines = (case given of None \<Rightarrow> summaryLines Q | Some ss \<Rightarrow> take (length ss) (summaryLines Q))
      in if stale then None
         else map_option (\<lambda>prompt. \<lparr>sdPrompt = prompt, sdDroppedCount = count, sdSources = sources\<rparr>)
                (buildQueueSummaryPrompt
                  \<lparr>dropPolicy = dropPolicy Q, droppedCount = count, summaryLines = previewLines\<rparr>
                  (u16 ''message'') None))"

text \<open>
  \<open>splice(index, 1)\<close> for an index found by \<open>indexOf\<close>: when it found nothing the index is \<open>-1\<close> and the
  last element goes.
\<close>

definition spliceAt :: "nat option \<Rightarrow> 'x list \<Rightarrow> 'x list" where
  "spliceAt index xs = (case index of None \<Rightarrow> butlast xs | Some i \<Rightarrow> take i xs @ drop (Suc i) xs)"

definition updateElision ::
    "nat \<Rightarrow> ref list \<Rightarrow> summary_elision list \<Rightarrow> summary_elision list" where
  "updateElision index sources entries =
     (if sources = [] then take index entries @ drop (Suc index) entries
      else entries[index := (entries ! index)\<lparr>elSources := sources, elCount := length sources\<rparr>])"

text \<open>One source of the delivery: how much it counts, and the queue without it.\<close>

definition consumeSource :: "ref \<Rightarrow> followup_queue \<Rightarrow> nat \<times> followup_queue" where
  "consumeSource source Q =
     (case find_index (\<lambda>s. s = source) (fqSummarySources Q) of
        Some i \<Rightarrow>
          (1, Q\<lparr>fqSummarySources := spliceAt (Some i) (fqSummarySources Q),
                summaryLines := spliceAt (Some i) (summaryLines Q)\<rparr>)
      | None \<Rightarrow>
          (case find_index (\<lambda>e. source \<in> set (elSources e) \<or> jm_get (elSourceRefs e) source \<noteq> None)
                  (fqSummaryElisions Q) of
             None \<Rightarrow> (0, Q)
           | Some j \<Rightarrow>
               let entry = fqSummaryElisions Q ! j;
                   target = nullish (jm_get (elSourceRefs entry) source) source;
                   sources = spliceAt (find_index (\<lambda>s. s = target) (elSources entry)) (elSources entry)
               in (1, Q\<lparr>fqSummaryElisions := updateElision j sources (fqSummaryElisions Q)\<rparr>)))"

fun consumeSources ::
    "ref \<Rightarrow> bool \<Rightarrow> ref list \<Rightarrow> nat \<times> followup_world \<Rightarrow> nat \<times> followup_world" where
  "consumeSources q completing [] cw = cw"
| "consumeSources q completing (source # sources) cw =
     (let (count, w) = cw;
          (n, Q) = consumeSource source (fwQueueObjects w q);
          w1 = setQueueObject q (\<lambda>_. Q) w;
          w2 = (if completing then completeFollowupRunLifecycle source w1 else w1)
      in consumeSources q completing sources (count + n, w2))"

definition consumeQueueSummaryDelivery ::
    "ref \<Rightarrow> summary_delivery \<Rightarrow> bool \<Rightarrow> followup_world \<Rightarrow> followup_world" where
  "consumeQueueSummaryDelivery q delivery completing w =
     (let initial = (if sdSources delivery = [] then sdDroppedCount delivery else 0);
          (count, w1) = consumeSources q completing (sdSources delivery) (initial, w)
      in setQueueObject q (\<lambda>Q. Q\<lparr>droppedCount := droppedCount Q - count\<rparr>) w1)"

text \<open>\<open>releaseQueueSummaryDeliveryForRetry\<close>: a source still in the queue is replaced by a compact one.\<close>

definition releaseSource :: "ref \<Rightarrow> ref \<Rightarrow> followup_world \<Rightarrow> followup_world" where
  "releaseSource q source w =
     (let w1 = (case find_index (\<lambda>s. s = source) (fqSummarySources (fwQueueObjects w q)) of
                  None \<Rightarrow> w
                | Some i \<Rightarrow>
                    let (twin, w1) = createOverflowSummaryRetrySource source w
                    in setQueueObject q
                         (\<lambda>Q. Q\<lparr>fqSummarySources := (fqSummarySources Q)[i := twin]\<rparr>) w1)
      in if frQueuedLifecycle (fwRuns w1 source) = None
         then completeFollowupRunLifecycle source w1 else w1)"

definition releaseQueueSummaryDeliveryForRetry ::
    "ref \<Rightarrow> summary_delivery \<Rightarrow> followup_world \<Rightarrow> followup_world" where
  "releaseQueueSummaryDeliveryForRetry q delivery w = fold (releaseSource q) (sdSources delivery) w"

text \<open>\<open>dropAbortedQueueSummarySources\<close>, from the last source to the first.\<close>

fun dropAbortedSources :: "ref \<Rightarrow> nat \<Rightarrow> nat \<times> followup_world \<Rightarrow> nat \<times> followup_world" where
  "dropAbortedSources q 0 nw = nw"
| "dropAbortedSources q (Suc index) nw =
     (let (n, w) = nw; source = fqSummarySources (fwQueueObjects w q) ! index
      in if \<not> isFollowupRunAborted w source then dropAbortedSources q index nw
         else
           dropAbortedSources q index
             (Suc n, completeFollowupRunLifecycle source
               (setQueueObject q (\<lambda>Q. Q\<lparr>
                  fqSummarySources := spliceAt (Some index) (fqSummarySources Q),
                  summaryLines := spliceAt (Some index) (summaryLines Q),
                  droppedCount := droppedCount Q - 1\<rparr>) w)))"

definition dropAbortedQueueSummarySources :: "ref \<Rightarrow> followup_world \<Rightarrow> nat \<times> followup_world" where
  "dropAbortedQueueSummarySources q w =
     dropAbortedSources q (length (fqSummarySources (fwQueueObjects w q))) (0, w)"

section \<open>Running a summary\<close>

text \<open>The latest source with an abort signal owns the cancellation of the aggregate.\<close>

definition resolveAggregateOwner :: "followup_world \<Rightarrow> ref list \<Rightarrow> ref option" where
  "resolveAggregateOwner w xs =
     orElse (find (\<lambda>i. frAbortSignal (fwRuns w i) \<noteq> None) (rev xs))
       (orElse (find (\<lambda>i. frQueuedLifecycle (fwRuns w i) \<noteq> None) (rev xs))
         (case rev xs of [] \<Rightarrow> None | x # _ \<Rightarrow> Some x))"

definition admissionOwners :: "followup_world \<Rightarrow> ref list \<Rightarrow> ref list" where
  "admissionOwners w xs =
     uniqueValues (filter (\<lambda>lc. qlOnAdmitted (fwLifecycles w lc))
       (concat (map (\<lambda>i. case frQueuedLifecycle (fwRuns w i) of None \<Rightarrow> [] | Some lc \<Rightarrow> [lc]) xs)))"

text \<open>\<open>assertSingleAdmissionOwner\<close> throws when this is false.\<close>

definition singleAdmissionOwner :: "followup_world \<Rightarrow> ref list \<Rightarrow> bool" where
  "singleAdmissionOwner w xs \<longleftrightarrow> length (admissionOwners w xs) \<le> 1"

definition needsAdmission :: "followup_world \<Rightarrow> ref list \<Rightarrow> bool" where
  "needsAdmission w xs \<longleftrightarrow> 1 < length xs \<or>
     list_ex (\<lambda>i. case frQueuedLifecycle (fwRuns w i) of
                    None \<Rightarrow> False | Some lc \<Rightarrow> qlOnAdmitted (fwLifecycles w lc)) xs"

text \<open>
  \<open>runQueueSummaryDelivery\<close> up to its await: the sources become active.  The first component are the
  sources that already were.
\<close>

definition summaryRunBegin :: "ref \<Rightarrow> ref list \<Rightarrow> followup_world \<Rightarrow> ref list \<times> followup_world" where
  "summaryRunBegin q protected w =
     (filter (\<lambda>s. s \<in> fqActiveSummarySources (fwQueueObjects w q)) protected,
      setQueueObject q
        (\<lambda>Q. Q\<lparr>fqActiveSummarySources := fqActiveSummarySources Q \<union> set protected\<rparr>) w)"

text \<open>\<open>onAdmitted\<close> after the admissions of all sources: the aggregate is taken out of the queue.\<close>

definition summaryRunAdmitted :: "ref \<Rightarrow> summary_delivery \<Rightarrow> ref list \<Rightarrow> followup_world \<Rightarrow> followup_world" where
  "summaryRunAdmitted q delivery protected w =
     (let w1 = consumeQueueSummaryDelivery q (delivery\<lparr>sdSources := protected\<rparr>) False w;
          owner = resolveAggregateOwner w1 protected
      in fold retireFollowupRunCancellation (filter (\<lambda>s. Some s \<noteq> owner) protected) w1)"

datatype run_outcome = RunOk | RunDeferred | RunFailed

text \<open>The \<open>finally\<close> of \<open>runQueueSummaryDelivery\<close>.\<close>

definition summaryRunFinally ::
    "ref \<Rightarrow> bool \<Rightarrow> ref list \<Rightarrow> ref list \<Rightarrow> followup_world \<Rightarrow> followup_world" where
  "summaryRunFinally q deferredBeforeAdmission inherited protected w =
     (let carryover = (if deferredBeforeAdmission \<and> inherited = [] then protected else inherited);
          released = filter (\<lambda>s. \<not> (deferredBeforeAdmission \<and> s \<in> set carryover)) protected;
          twins = (\<lambda>Q. concat (map (\<lambda>s. concat (map (\<lambda>e.
                     case jm_get (elSourceRefs e) s of None \<Rightarrow> [] | Some c \<Rightarrow> [c])
                       (fqSummaryElisions Q))) released))
      in trimSummaryElisionsToCap q
           (setQueueObject q (\<lambda>Q. Q\<lparr>fqActiveSummarySources :=
              fqActiveSummarySources Q - set released - set (twins Q)\<rparr>) w))"

text \<open>After \<open>run\<close>: whether \<open>runQueueSummaryDelivery\<close> returns true, false or throws, and the world.\<close>

definition summaryRunEnd ::
    "ref \<Rightarrow> summary_delivery \<Rightarrow> ref list \<Rightarrow> ref list \<Rightarrow> bool \<Rightarrow> run_outcome \<Rightarrow> followup_world \<Rightarrow>
     bool option \<times> followup_world" where
  "summaryRunEnd q delivery inherited protected admitted outcome w =
     (let finally = (\<lambda>deferred w. summaryRunFinally q deferred inherited protected w)
      in if outcome \<noteq> RunOk
         then
           if admitted
           then (None, finally False (fold completeFollowupRunLifecycle protected w))
           else if outcome = RunDeferred then (None, finally True w)
           else (None, finally False (releaseQueueSummaryDeliveryForRetry q delivery w))
         else if admitted then (Some True, finally False w)
         else
           let canceled = filter (isFollowupRunAborted w) protected
           in if canceled \<noteq> []
              then (Some False,
                    finally False (consumeQueueSummaryDelivery q (delivery\<lparr>sdSources := canceled\<rparr>) True w))
              else (Some True, finally False (consumeQueueSummaryDelivery q delivery True w)))"


section \<open>Elided summaries\<close>

text \<open>
  \<open>drainElidedOverflowSummary\<close> up to the delivery: the aborted sources of the first entry leave;
  then the entry is empty and removed, or it is delivered with the sources that share its key.
\<close>

definition dropAbortedElided :: "ref \<Rightarrow> followup_world \<Rightarrow> followup_world" where
  "dropAbortedElided q w =
     (case fqSummaryElisions (fwQueueObjects w q) of
        [] \<Rightarrow> w
      | entry # entries \<Rightarrow>
          let gone = filter (isFollowupRunAborted w) (elSources entry);
              left = filter (\<lambda>s. \<not> isFollowupRunAborted w s) (elSources entry)
          in setQueueObject q (\<lambda>Q. Q\<lparr>
               fqSummaryElisions :=
                 (if left = [] then entries
                  else entry\<lparr>elSources := left, elCount := elCount entry - length gone\<rparr> # entries),
               droppedCount := droppedCount Q - length gone\<rparr>)
             (fold completeFollowupRunLifecycle (rev gone) w))"

record elided_run =
  erEntryId :: ref
  erElidedSources :: "ref list"
  erDelivery :: summary_delivery
  erSource :: ref

datatype elided_begin = ElidedSkip | ElidedDone | ElidedRun elided_run

definition drainElidedBegin ::
    "(string option \<Rightarrow> bool) \<Rightarrow> ref \<Rightarrow> followup_world \<Rightarrow> elided_begin \<times> followup_world" where
  "drainElidedBegin slack q w =
     (let Q = fwQueueObjects w q
      in case fqSummaryElisions Q of
           [] \<Rightarrow> (ElidedSkip, w)
         | entry # entries \<Rightarrow>
             let retained = (if entries = []
                   then filter (\<lambda>s. resolveFollowupDeliveryContextKey slack w s = elContextKey entry)
                          (resolveOverflowSummarySourceGroup slack w (fqSummarySources Q))
                   else []);
                 w1 = dropAbortedElided q w;
                 elided = filter (\<lambda>s. \<not> isFollowupRunAborted w s) (elSources entry);
                 Q1 = fwQueueObjects w1 q
             in if elided = [] then (ElidedDone, w1)
                else
                  (case buildQueueSummaryPrompt
                          \<lparr>dropPolicy = dropPolicy Q1, droppedCount = length elided + length retained,
                            summaryLines = take (length retained) (summaryLines Q1)\<rparr>
                          (u16 ''message'') None of
                     None \<Rightarrow> (ElidedSkip, w1)
                   | Some prompt \<Rightarrow>
                       (ElidedRun \<lparr>erEntryId = elId entry, erElidedSources = elided,
                          erDelivery = \<lparr>sdPrompt = prompt, sdDroppedCount = length retained,
                            sdSources = retained\<rparr>,
                          erSource = (if retained = [] then last elided else last retained)\<rparr>, w1)))"

text \<open>The sources the delivery protects.\<close>

definition erProtected :: "elided_run \<Rightarrow> ref list" where
  "erProtected run = erElidedSources run @ sdSources (erDelivery run)"

text \<open>After a delivery that returned true: the delivered sources leave the entry, if it is still there.\<close>

definition drainElidedEnd :: "ref \<Rightarrow> elided_run \<Rightarrow> followup_world \<Rightarrow> followup_world" where
  "drainElidedEnd q run w =
     (case find_index (\<lambda>e. elId e = erEntryId run) (fqSummaryElisions (fwQueueObjects w q)) of
        None \<Rightarrow> w
      | Some j \<Rightarrow>
          let entry = fqSummaryElisions (fwQueueObjects w q) ! j;
              n = min (length (erElidedSources run)) (length (elSources entry));
              consumed = take n (elSources entry)
          in setQueueObject q (\<lambda>Q. Q\<lparr>
               fqSummaryElisions := updateElision j (drop n (elSources entry)) (fqSummaryElisions Q),
               droppedCount := droppedCount Q - n\<rparr>)
             (fold completeFollowupRunLifecycle consumed w))"

section \<open>One summary step\<close>

datatype summary_begin =
    SummaryNone
  | SummaryProgress
  | SummaryElided elided_run
  | SummaryGroup summary_delivery

text \<open>\<open>drainOverflowSummaryGroup\<close> up to the delivery it awaits, if it comes to one.\<close>

definition summaryStepBegin ::
    "(string option \<Rightarrow> bool) \<Rightarrow> ref \<Rightarrow> followup_world \<Rightarrow> summary_begin \<times> followup_world" where
  "summaryStepBegin slack q w =
     (let (dropped, w1) = dropAbortedQueueSummarySources q w;
          Q1 = fwQueueObjects w1 q
      in if 0 < dropped \<and> droppedCount Q1 = 0 then (SummaryProgress, w1)
         else if 0 < fqEvictedSummaryCount Q1
         then (SummaryProgress, setQueueObject q (\<lambda>Q. Q\<lparr>fqEvictedSummaryCount := 0,
                 droppedCount := droppedCount Q - fqEvictedSummaryCount Q\<rparr>) w1)
         else
           (case drainElidedBegin slack q w1 of
              (ElidedRun run, w2) \<Rightarrow> (SummaryElided run, w2)
            | (ElidedDone, w2) \<Rightarrow> (SummaryProgress, w2)
            | (ElidedSkip, w2) \<Rightarrow>
                let Q2 = fwQueueObjects w2 q;
                    sources = resolveOverflowSummarySourceGroup slack w2 (fqSummarySources Q2)
                in if sources = [] then (SummaryNone, w2)
                   else
                     (case createQueueSummaryDelivery Q2 (Some sources) of
                        None \<Rightarrow> (SummaryNone, w2)
                      | Some delivery \<Rightarrow> (SummaryGroup delivery, w2))))"

section \<open>Collecting\<close>

fun splitLoop ::
    "('a \<Rightarrow> 'k) \<Rightarrow> 'a list list \<Rightarrow> 'a list \<Rightarrow> 'k option \<Rightarrow> 'a list \<Rightarrow> 'a list list" where
  "splitLoop keyOf groups currentGroup currentKey [] =
     (if currentGroup = [] then groups else groups @ [currentGroup])"
| "splitLoop keyOf groups currentGroup currentKey (item # rest) =
     (let itemKey = keyOf item
      in if currentGroup = [] \<or> Some itemKey = currentKey
         then splitLoop keyOf groups (currentGroup @ [item]) (Some itemKey) rest
         else splitLoop keyOf (groups @ [currentGroup]) [item] (Some itemKey) rest)"

definition splitCollectItems :: "('a \<Rightarrow> 'k) \<Rightarrow> 'a list \<Rightarrow> 'a list list" where
  "splitCollectItems keyOf xs =
     (if length xs \<le> 1 then (if xs = [] then [] else [xs]) else splitLoop keyOf [] [] None xs)"

definition splitCollectItemsByDeliveryContext ::
    "(string option \<Rightarrow> bool) \<Rightarrow> followup_world \<Rightarrow> ref list \<Rightarrow> ref list list" where
  "splitCollectItemsByDeliveryContext slack w xs =
     splitCollectItems (resolveFollowupDeliveryContextKey slack w) xs"

definition requiresIndividualCollectDrain :: "followup_run \<Rightarrow> bool" where
  "requiresIndividualCollectDrain r \<longleftrightarrow> frDisableCollectBatching r
     \<or> frCurrentInboundEventKind r = Some ''room_event'' \<or> frCurrentInboundAudio r"

text \<open>
  \<open>routable\<close>: \<open>isRoutableChannel\<close>, which asks the channel registry.  The result is the key and
  whether the item alone makes the batch cross-channel.
\<close>

definition resolveCrossChannelKey ::
    "(string option \<Rightarrow> bool) \<Rightarrow> (string option \<Rightarrow> bool) \<Rightarrow> followup_run \<Rightarrow> string option \<times> bool" where
  "resolveCrossChannelKey slack routable r =
     (let threadId = frOriginatingThreadId r;
          anchor = resolveFollowupReplyAnchor slack r;
          chatType = map_option chatTypeName (normalizeChatType (frOriginatingChatType r));
          threadText = nullish (map_option js_String threadId) []
      in if \<not> truthyString (frOriginatingChannel r) \<and> \<not> truthyString (frOriginatingTo r)
            \<and> \<not> truthyString (frOriginatingAccountId r)
            \<and> (threadId = None \<or> threadId = Some (JsString []))
            \<and> \<not> truthyString (frOriginatingChatId r) \<and> \<not> truthyString anchor
         then (case chatType of
                 None \<Rightarrow> (None, False)
               | Some t \<Rightarrow> (Some (jsonStringify (JArr [JStr ''unresolved'', JStr t])), False))
         else if \<not> routable (frOriginatingChannel r) \<or> \<not> truthyString (frOriginatingTo r)
         then (Some (jsonStringify (JArr [JStr ''local'', kopt (frOriginatingChannel r),
                 kopt (frOriginatingTo r), kopt (frOriginatingAccountId r), JStr threadText,
                 kopt (frOriginatingChatId r), kopt anchor, kopt (frOriginatingReplyToMode r),
                 kopt chatType])), False)
         else (case channelRouteCompactKey (originRoute r) of
                 None \<Rightarrow> (None, True)
               | Some key \<Rightarrow>
                   (Some (jsonStringify (JArr [JStr key, kopt anchor,
                      kopt (frOriginatingReplyToMode r), kopt chatType])), False)))"

definition collectIsCrossChannel ::
    "(string option \<Rightarrow> bool) \<Rightarrow> (string option \<Rightarrow> bool) \<Rightarrow> followup_world \<Rightarrow> ref list \<Rightarrow> bool" where
  "collectIsCrossChannel slack routable w xs \<longleftrightarrow>
     hasCrossChannelItems xs (\<lambda>i. resolveCrossChannelKey slack routable (fwRuns w i))
     \<or> list_ex (\<lambda>i. requiresIndividualCollectDrain (fwRuns w i)) xs"

text \<open>The individual mode of a drain ends when a batch of one channel is waiting again.\<close>

definition collectStepForce :: "bool \<Rightarrow> bool \<Rightarrow> ref list \<Rightarrow> bool" where
  "collectStepForce force crossChannel xs \<longleftrightarrow> force \<and> (crossChannel \<or> length xs \<le> 1)"

text \<open>
  One group of a collect step up to its await: the members that are still queued and not aborted
  are marked as in flight; the aborted ones leave.  \<open>None\<close>: there is nothing left to deliver.
\<close>

definition collectGroupBegin ::
    "ref \<Rightarrow> ref list \<Rightarrow> followup_world \<Rightarrow> ref list option \<times> followup_world" where
  "collectGroupBegin q grp w =
     (let xs = items (fwQueueObjects w q);
          current = filter (\<lambda>i. i \<in> set xs) grp;
          aborted = filter (isFollowupRunAborted w) current;
          active = filter (\<lambda>i. \<not> isFollowupRunAborted w i) current;
          w1 = fold completeFollowupRunLifecycle aborted
                 (setQueueObject q (\<lambda>Q. Q\<lparr>items := removeQueuedItemsByRef (items Q) aborted\<rparr>) w)
      in if active = [] then (None, w1)
         else (Some active, setQueueObject q
                (\<lambda>Q. Q\<lparr>fqInFlight := foldl (\<lambda>s i. set_add i s) (fqInFlight Q) active\<rparr>) w1))"

definition consumeAdmittedGroup :: "ref \<Rightarrow> ref list \<Rightarrow> followup_world \<Rightarrow> followup_world" where
  "consumeAdmittedGroup q active w =
     fold retireFollowupRunCancellation
       (filter (\<lambda>i. Some i \<noteq> resolveAggregateOwner w active) active)
       (setQueueObject q (\<lambda>Q. Q\<lparr>items := removeQueuedItemsByRef (items Q) active\<rparr>) w)"

definition completeGroup :: "ref \<Rightarrow> ref list \<Rightarrow> followup_world \<Rightarrow> followup_world" where
  "completeGroup q active w =
     fold completeFollowupRunLifecycle active
       (setQueueObject q (\<lambda>Q. Q\<lparr>items := removeQueuedItemsByRef (items Q) active\<rparr>) w)"

definition restoreGroupItems :: "ref \<Rightarrow> ref list \<Rightarrow> followup_world \<Rightarrow> followup_world" where
  "restoreGroupItems q grp w =
     setQueueObject q (\<lambda>Q. Q\<lparr>items := filter (\<lambda>i. i \<notin> set (items Q)) grp @ items Q\<rparr>) w"

text \<open>After \<open>drainGroup\<close>: the whole drain fails, goes on to the next group, or ends the step.\<close>

datatype group_end = GroupThrow | GroupNext | GroupBreak

definition collectGroupEnd ::
    "string \<Rightarrow> ref \<Rightarrow> ref list \<Rightarrow> bool \<Rightarrow> bool \<Rightarrow> followup_world \<Rightarrow> group_end \<times> followup_world" where
  "collectGroupEnd key q active admitted threw w =
     (let release = setQueueObject q
            (\<lambda>Q. Q\<lparr>fqInFlight := filter (\<lambda>i. i \<notin> set active) (fqInFlight Q)\<rparr>);
          current = queueStillCurrent key q w
      in if threw
         then (GroupThrow,
               release (if admitted then completeGroup q active w
                        else if current then restoreGroupItems q active w
                        else fold completeFollowupRunLifecycle active w))
         else
           let w1 = release w;
               canceled = filter (isFollowupRunAborted w1) active;
               survivors = filter (\<lambda>i. i \<notin> set canceled) active
           in if \<not> admitted \<and> canceled \<noteq> []
              then
                let w2 = fold completeFollowupRunLifecycle canceled
                      (setQueueObject q (\<lambda>Q. Q\<lparr>items := removeQueuedItemsByRef (items Q) canceled\<rparr>) w1)
                in if queueStillCurrent key q w2
                   then (if survivors \<noteq> [] then GroupBreak else GroupNext, restoreGroupItems q survivors w2)
                   else (GroupNext, fold completeFollowupRunLifecycle survivors w2)
              else (GroupNext, completeGroup q active w1))"

section \<open>The loop\<close>

text \<open>What an iteration does after the aborted runs are gone and the queue has been quiet.\<close>

datatype drain_action = RunPriority ref | RunSummary | RunCollect | RunNext | StopDrain

definition drainAction :: "ref \<Rightarrow> followup_world \<Rightarrow> drain_action" where
  "drainAction q w =
     (let Q = fwQueueObjects w q
      in if items Q = [] \<and> droppedCount Q = 0 then StopDrain
         else
           (case priorityRun q w of
              Some r \<Rightarrow> RunPriority r
            | None \<Rightarrow>
                if 0 < droppedCount Q then RunSummary
                else if fqMode Q = Collect then RunCollect else RunNext))"

text \<open>When \<open>drainOverflowSummaryGroup\<close> returned false, the iteration goes on with the queue.\<close>

definition drainActionAfterSummary :: "ref \<Rightarrow> followup_world \<Rightarrow> drain_action" where
  "drainActionAfterSummary q w =
     (let Q = fwQueueObjects w q
      in if fqMode Q = Collect
         then (if items Q = [] then StopDrain else RunCollect)
         else (case nextRunBegin q w of None \<Rightarrow> StopDrain | Some _ \<Rightarrow> RunNext))"

text \<open>The \<open>catch\<close> and \<open>finally\<close> of the drain; \<open>failed\<close> when an error left the loop.\<close>

definition drainFinish :: "ms \<Rightarrow> string \<Rightarrow> ref \<Rightarrow> ref \<Rightarrow> bool \<Rightarrow> followup_world \<Rightarrow> followup_world" where
  "drainFinish now key q cb failed w =
     (let w1 = (if failed then setQueueObject q (\<lambda>Q. Q\<lparr>fqLastEnqueuedAt := now\<rparr>) w else w);
          w2 = setQueueObject q (\<lambda>Q. Q\<lparr>fqDraining := False\<rparr>) w1;
          Q = fwQueueObjects w2 q
      in if items Q \<noteq> [] \<or> 0 < droppedCount Q then scheduleFollowupDrain key cb w2
         else if jm_get (fwQueues w2) key = Some q
         then clearFollowupDrainCallback key (w2\<lparr>fwQueues := jm_delete key (fwQueues w2)\<rparr>)
         else w2)"

end
