(* ===== verification/FollowupProofs.thy ===== *)
theory FollowupProofs
  imports FollowupQueue
begin

text \<open>
  The follow-up queue: what trimming, enqueueing and clearing do to the queue, to the summaries
  and to the lifecycles of the queued runs.
\<close>

named_theorems fw_frame \<open>what an operation leaves alone\<close>

section \<open>Lifecycles do not touch the queues\<close>

lemma setQueueObject_sel [simp, fw_frame]:
  "fwRuns (setQueueObject q f w) = fwRuns w"
  "fwExecutions (setQueueObject q f w) = fwExecutions w"
  "fwLifecycles (setQueueObject q f w) = fwLifecycles w"
  "fwQueues (setQueueObject q f w) = fwQueues w"
  "fwNext (setQueueObject q f w) = fwNext w"
  "fwAborted (setQueueObject q f w) = fwAborted w"
  "fwEnqueued (setQueueObject q f w) = fwEnqueued w"
  "fwAdmitting (setQueueObject q f w) = fwAdmitting w"
  "fwCompleted (setQueueObject q f w) = fwCompleted w"
  "fwCompletions (setQueueObject q f w) = fwCompletions w"
  "fwCompletedCallbacks (setQueueObject q f w) = fwCompletedCallbacks w"
  "fwFinishAfterAdmission (setQueueObject q f w) = fwFinishAfterAdmission w"
  "fwRecentMessageIds (setQueueObject q f w) = fwRecentMessageIds w"
  "fwQueueObjects (setQueueObject q f w) = (fwQueueObjects w)(q := f (fwQueueObjects w q))"
  by (simp_all add: setQueueObject_def)

lemma finishLifecycle_sel [simp, fw_frame]:
  "fwRuns (finishLifecycle lc w) = fwRuns w"
  "fwExecutions (finishLifecycle lc w) = fwExecutions w"
  "fwLifecycles (finishLifecycle lc w) = fwLifecycles w"
  "fwQueues (finishLifecycle lc w) = fwQueues w"
  "fwNext (finishLifecycle lc w) = fwNext w"
  "fwAborted (finishLifecycle lc w) = fwAborted w"
  "fwEnqueued (finishLifecycle lc w) = fwEnqueued w"
  "fwAdmitting (finishLifecycle lc w) = fwAdmitting w"
  "fwCompleted (finishLifecycle lc w) = fwCompleted w"
  "fwQueueObjects (finishLifecycle lc w) = fwQueueObjects w"
  "fwRecentMessageIds (finishLifecycle lc w) = fwRecentMessageIds w"
  by (simp_all add: finishLifecycle_def)

lemma complete_sel [simp, fw_frame]:
  "fwRuns (completeFollowupRunLifecycle r w) = fwRuns w"
  "fwExecutions (completeFollowupRunLifecycle r w) = fwExecutions w"
  "fwLifecycles (completeFollowupRunLifecycle r w) = fwLifecycles w"
  "fwQueues (completeFollowupRunLifecycle r w) = fwQueues w"
  "fwNext (completeFollowupRunLifecycle r w) = fwNext w"
  "fwAborted (completeFollowupRunLifecycle r w) = fwAborted w"
  "fwEnqueued (completeFollowupRunLifecycle r w) = fwEnqueued w"
  "fwAdmitting (completeFollowupRunLifecycle r w) = fwAdmitting w"
  "fwQueueObjects (completeFollowupRunLifecycle r w) = fwQueueObjects w"
  "fwRecentMessageIds (completeFollowupRunLifecycle r w) = fwRecentMessageIds w"
  by (simp_all add: completeFollowupRunLifecycle_def completeLifecycle_def Let_def split: option.split)

lemma complete_completed [simp]:
  "fwCompleted (completeFollowupRunLifecycle r w) =
     set_option (frQueuedLifecycle (fwRuns w r)) \<union> fwCompleted w"
  by (auto simp: completeFollowupRunLifecycle_def completeLifecycle_def Let_def split: option.split)

lemma complete_all_sel [simp, fw_frame]:
  "fwRuns (fold completeFollowupRunLifecycle rs w) = fwRuns w"
  "fwExecutions (fold completeFollowupRunLifecycle rs w) = fwExecutions w"
  "fwLifecycles (fold completeFollowupRunLifecycle rs w) = fwLifecycles w"
  "fwQueues (fold completeFollowupRunLifecycle rs w) = fwQueues w"
  "fwNext (fold completeFollowupRunLifecycle rs w) = fwNext w"
  "fwAborted (fold completeFollowupRunLifecycle rs w) = fwAborted w"
  "fwEnqueued (fold completeFollowupRunLifecycle rs w) = fwEnqueued w"
  "fwAdmitting (fold completeFollowupRunLifecycle rs w) = fwAdmitting w"
  "fwQueueObjects (fold completeFollowupRunLifecycle rs w) = fwQueueObjects w"
  "fwRecentMessageIds (fold completeFollowupRunLifecycle rs w) = fwRecentMessageIds w"
  by (induction rs arbitrary: w) simp_all

definition lifecyclesOf :: "followup_world \<Rightarrow> ref list \<Rightarrow> ref set" where
  "lifecyclesOf w rs = (\<Union>r\<in>set rs. set_option (frQueuedLifecycle (fwRuns w r)))"

lemma lifecyclesOf_simps [simp]:
  "lifecyclesOf w [] = {}"
  "lifecyclesOf w (r # rs) = set_option (frQueuedLifecycle (fwRuns w r)) \<union> lifecyclesOf w rs"
  "lifecyclesOf w (rs @ ss) = lifecyclesOf w rs \<union> lifecyclesOf w ss"
  by (auto simp: lifecyclesOf_def)

lemma complete_all_completed [simp]:
  "fwCompleted (fold completeFollowupRunLifecycle rs w) = lifecyclesOf w rs \<union> fwCompleted w"
  by (induction rs arbitrary: w) (auto simp: lifecyclesOf_def)

lemma complete_setQueueObject:
  "completeFollowupRunLifecycle r (setQueueObject q f w) =
     setQueueObject q f (completeFollowupRunLifecycle r w)"
  by (simp add: completeFollowupRunLifecycle_def completeLifecycle_def finishLifecycle_def
      setQueueObject_def Let_def split: option.split)

lemma complete_all_setQueueObject:
  "fold completeFollowupRunLifecycle rs (setQueueObject q f w) =
     setQueueObject q f (fold completeFollowupRunLifecycle rs w)"
  by (induction rs arbitrary: w) (simp_all add: complete_setQueueObject)

lemma setQueueObject_twice:
  "setQueueObject q g (setQueueObject q f w) = setQueueObject q (\<lambda>Q. g (f Q)) w"
  by (simp add: setQueueObject_def)

section \<open>Evicting elided summaries\<close>

definition elidedSources :: "summary_elision list \<Rightarrow> ref list" where
  "elidedSources es = concat (map elSources es)"

lemma elidedSources_simps [simp]:
  "elidedSources [] = []"
  "elidedSources (e # es) = elSources e @ elidedSources es"
  "elidedSources (es @ fs) = elidedSources es @ elidedSources fs"
  by (simp_all add: elidedSources_def)

definition elisionsOk :: "summary_elision list \<Rightarrow> bool" where
  "elisionsOk es \<longleftrightarrow> list_all (\<lambda>e. elCount e = length (elSources e) \<and> elSources e \<noteq> []) es"

definition idleOf :: "ref set \<Rightarrow> summary_elision list \<Rightarrow> ref list" where
  "idleOf active es = filter (\<lambda>s. s \<notin> active) (elidedSources es)"

lemma idleSources_length:
  "idleSources Q = length (idleOf (fqActiveSummarySources Q) (fqSummaryElisions Q))"
proof -
  have "foldl (\<lambda>count entry. count + length (filter (\<lambda>s. s \<notin> A) (elSources entry))) n es =
      n + length (idleOf A es)" for A n es
    by (induction es arbitrary: n) (simp_all add: idleOf_def)
  then show ?thesis by (simp add: idleSources_def)
qed

lemma find_index_split:
  "find_index P xs = Some i \<Longrightarrow>
   filter P xs = xs ! i # filter P (take i xs @ drop (Suc i) xs) \<and>
   filter (\<lambda>x. \<not> P x) (take i xs @ drop (Suc i) xs) = filter (\<lambda>x. \<not> P x) xs \<and>
   Suc (length (take i xs @ drop (Suc i) xs)) = length xs"
  by (induction xs arbitrary: i) (auto split: if_splits)

lemma evictOne_None: "evictOneElision active es = None \<longleftrightarrow> idleOf active es = []"
  by (induction active es rule: evictOneElision.induct)
    (auto simp: idleOf_def filter_empty_conv find_index_None Let_def split: option.splits
      dest!: find_index_Some)

lemma evictOne_idle:
  "evictOneElision active es = Some (s, es') \<Longrightarrow> idleOf active es = s # idleOf active es'"
proof (induction active es arbitrary: s es' rule: evictOneElision.induct)
  case (2 active e es)
  show ?case
  proof (cases "find_index (\<lambda>s. s \<notin> active) (elSources e)")
    case None
    then have "filter (\<lambda>s. s \<notin> active) (elSources e) = []"
      by (simp add: find_index_None filter_empty_conv)
    with 2 None show ?thesis by (auto simp: idleOf_def)
  next
    case (Some i)
    with 2 find_index_split [OF Some] show ?thesis
      by (auto simp: idleOf_def Let_def split: if_splits)
  qed
qed simp

lemma evictOne_active:
  "evictOneElision active es = Some (s, es') \<Longrightarrow>
   filter (\<lambda>s. s \<in> active) (elidedSources es') = filter (\<lambda>s. s \<in> active) (elidedSources es)"
proof (induction active es arbitrary: s es' rule: evictOneElision.induct)
  case (2 active e es)
  show ?case
  proof (cases "find_index (\<lambda>s. s \<notin> active) (elSources e)")
    case None
    with 2 show ?thesis by auto
  next
    case (Some i)
    with 2 find_index_split [OF Some] show ?thesis by (auto simp: Let_def split: if_splits)
  qed
qed simp

lemma evictOne_ok:
  "evictOneElision active es = Some (s, es') \<Longrightarrow> elisionsOk es \<Longrightarrow> elisionsOk es'"
proof (induction active es arbitrary: s es' rule: evictOneElision.induct)
  case (2 active e es)
  show ?case
  proof (cases "find_index (\<lambda>s. s \<notin> active) (elSources e)")
    case None
    with 2 show ?thesis by (auto simp: elisionsOk_def)
  next
    case (Some i)
    with 2(2,3) show ?thesis by (auto simp: elisionsOk_def Let_def split: if_splits)
  qed
qed simp

lemma elided_length:
  "length (elidedSources es) =
     length (idleOf active es) + length (filter (\<lambda>s. s \<in> active) (elidedSources es))"
  using sum_length_filter_compl [of "\<lambda>s. s \<in> active" "elidedSources es"] by (simp add: idleOf_def)

text \<open>Evict \<open>k\<close> times.\<close>

fun evictMany :: "nat \<Rightarrow> ref set \<Rightarrow> summary_elision list \<Rightarrow> summary_elision list" where
  "evictMany 0 active es = es"
| "evictMany (Suc k) active es =
     (case evictOneElision active es of None \<Rightarrow> es | Some (s, es') \<Rightarrow> evictMany k active es')"

lemma evictMany_idle: "idleOf active (evictMany k active es) = drop k (idleOf active es)"
  by (induction k active es rule: evictMany.induct)
    (auto split: option.splits simp: evictOne_None dest: evictOne_idle)

lemma evictMany_active:
  "filter (\<lambda>s. s \<in> active) (elidedSources (evictMany k active es)) =
   filter (\<lambda>s. s \<in> active) (elidedSources es)"
  by (induction k active es rule: evictMany.induct) (auto split: option.splits dest: evictOne_active)

lemma evictMany_ok: "elisionsOk es \<Longrightarrow> elisionsOk (evictMany k active es)"
proof (induction k arbitrary: es)
  case (Suc k)
  then show ?case using evictOne_ok [of active es] by (auto split: option.splits)
qed simp

lemma evictMany_length:
  "length (elidedSources (evictMany k active es)) + min k (length (idleOf active es)) =
     length (elidedSources es)"
  using elided_length [of es active] elided_length [of "evictMany k active es" active]
  by (simp add: evictMany_idle evictMany_active)

section \<open>The trim loop\<close>

text \<open>The caps a queue can have: whole and not negative, or infinite.\<close>

definition capOk :: "js_number \<Rightarrow> bool" where
  "capOk c \<longleftrightarrow> c = PosInfinity \<or> (\<exists>n::nat. c = Finite (of_nat n))"

definition overCap :: "nat \<Rightarrow> js_number \<Rightarrow> nat" where
  "overCap n c = (case c of Finite q \<Rightarrow> n - nat \<lfloor>q\<rfloor> | _ \<Rightarrow> 0)"

lemma overCap_simps [simp]:
  "overCap n PosInfinity = 0"
  "overCap n (Finite (of_nat c)) = n - c"
  "overCap n (Finite (numeral k)) = n - numeral k"
  by (simp_all add: overCap_def)

lemma capOk_greater: "capOk c \<Longrightarrow> js_count_greater n c \<longleftrightarrow> 0 < overCap n c"
  by (auto simp: capOk_def)

definition trimQueue :: "followup_queue \<Rightarrow> followup_queue" where
  "trimQueue Q =
     (let active = fqActiveSummarySources Q;
          k = overCap (idleSources Q) (cap Q)
      in Q\<lparr>fqSummaryElisions := evictMany k active (fqSummaryElisions Q),
           fqEvictedSummaryCount := fqEvictedSummaryCount Q + k\<rparr>)"

definition trimmedRuns :: "followup_queue \<Rightarrow> ref list" where
  "trimmedRuns Q = take (overCap (idleSources Q) (cap Q))
     (idleOf (fqActiveSummarySources Q) (fqSummaryElisions Q))"

lemma setQueueObject_cong:
  "f (fwQueueObjects w q) = g (fwQueueObjects w q) \<Longrightarrow> setQueueObject q f w = setQueueObject q g w"
  by (simp add: setQueueObject_def)

lemma setQueueObject_id: "f (fwQueueObjects w q) = fwQueueObjects w q \<Longrightarrow> setQueueObject q f w = w"
  by (simp add: setQueueObject_def)

text \<open>One iteration, on the queue object.\<close>

lemma trimQueue_step:
  assumes ev: "evictOneElision (fqActiveSummarySources Q) (fqSummaryElisions Q) = Some (s, es)"
    and ok: "capOk (cap Q)" and over: "0 < overCap (idleSources Q) (cap Q)"
  defines "Q1 \<equiv> Q\<lparr>fqSummaryElisions := es, fqEvictedSummaryCount := fqEvictedSummaryCount Q + 1\<rparr>"
  shows "trimQueue Q1 = trimQueue Q" and "trimmedRuns Q = s # trimmedRuns Q1"
    and "idleSources Q = Suc (idleSources Q1)"
proof -
  have idle: "idleOf (fqActiveSummarySources Q) (fqSummaryElisions Q) =
      s # idleOf (fqActiveSummarySources Q) es"
    using ev by (rule evictOne_idle)
  then show n: "idleSources Q = Suc (idleSources Q1)" by (simp add: idleSources_length Q1_def)
  with ok over have k: "overCap (idleSources Q) (cap Q) = Suc (overCap (idleSources Q1) (cap Q))"
    by (auto simp: capOk_def)
  show "trimmedRuns Q = s # trimmedRuns Q1"
    unfolding trimmedRuns_def k idle by (simp add: Q1_def)
  show "trimQueue Q1 = trimQueue Q"
    unfolding trimQueue_def Let_def k using ev by (simp add: Q1_def)
qed

lemma trimLoop_returns:
  assumes "capOk (cap (fwQueueObjects w q))"
  shows "trimLoop (idleSources (fwQueueObjects w q)) q w =
    Some (setQueueObject q trimQueue
      (fold completeFollowupRunLifecycle (trimmedRuns (fwQueueObjects w q)) w))"
  using assms
proof (induction "idleSources (fwQueueObjects w q)" arbitrary: w rule: less_induct)
  case less
  define Q where "Q = fwQueueObjects w q"
  note ok = less.prems [folded Q_def]
  show ?case
  proof (cases "overCap (idleSources Q) (cap Q)")
    case 0
    then have "trimQueue Q = Q" and "trimmedRuns Q = []"
      by (simp_all add: trimQueue_def trimmedRuns_def)
    moreover have "\<not> js_count_greater (idleSources Q) (cap Q)"
      using 0 capOk_greater [OF ok] by simp
    ultimately show ?thesis
      unfolding Q_def by (subst trimLoop.simps) (simp add: setQueueObject_id)
  next
    case (Suc k)
    then have greater: "js_count_greater (idleSources Q) (cap Q)"
      using capOk_greater [OF ok] by simp
    have "idleSources Q \<noteq> 0" using Suc by (cases "idleSources Q") (auto simp: overCap_def split: js_number.splits)
    then obtain s es where
      ev: "evictOneElision (fqActiveSummarySources Q) (fqSummaryElisions Q) = Some (s, es)"
      using evictOne_None [of "fqActiveSummarySources Q" "fqSummaryElisions Q"]
      by (cases "evictOneElision (fqActiveSummarySources Q) (fqSummaryElisions Q)")
        (auto simp: idleSources_length)
    define f where "f Q = Q\<lparr>fqSummaryElisions := es, fqEvictedSummaryCount := fqEvictedSummaryCount Q + 1\<rparr>"
      for Q :: followup_queue
    define w1 where "w1 = completeFollowupRunLifecycle s (setQueueObject q f w)"
    have Q1: "fwQueueObjects w1 q = f Q" by (simp add: w1_def Q_def)
    note step = trimQueue_step [OF ev ok, folded f_def]
    have over: "0 < overCap (idleSources Q) (cap Q)" using Suc by simp
    have "trimLoop (idleSources Q) q w = trimLoop (idleSources Q - 1) q w1"
      using greater ev unfolding Q_def
      by (subst trimLoop.simps) (simp add: w1_def f_def [abs_def])
    also have "\<dots> = trimLoop (idleSources (fwQueueObjects w1 q)) q w1"
      using step(3) [OF over] by (simp add: Q1)
    also have "\<dots> = Some (setQueueObject q trimQueue
        (fold completeFollowupRunLifecycle (trimmedRuns (f Q)) w1))"
      using less.hyps [of w1] step(3) [OF over] ok
      by (simp add: Q1 Q_def [symmetric] f_def)
    also have "fold completeFollowupRunLifecycle (trimmedRuns (f Q)) w1 =
        setQueueObject q f (fold completeFollowupRunLifecycle (trimmedRuns Q) w)"
      unfolding w1_def step(2) [OF over] by (simp add: complete_setQueueObject complete_all_setQueueObject)
    finally show ?thesis
      unfolding Q_def [symmetric] setQueueObject_twice
      using step(1) [OF over]
      by (simp add: Q_def setQueueObject_cong [of "\<lambda>Q. trimQueue (f Q)" _ q trimQueue])
  qed
qed

lemma trimSummaryElisionsToCap_eq:
  "capOk (cap (fwQueueObjects w q)) \<Longrightarrow>
   trimSummaryElisionsToCap q w = setQueueObject q trimQueue
     (fold completeFollowupRunLifecycle (trimmedRuns (fwQueueObjects w q)) w)"
  by (simp add: trimSummaryElisionsToCap_def trimLoop_returns)


section \<open>The drop policy on a follow-up queue\<close>

text \<open>How many runs must go before one more is admitted.\<close>

definition dropNeeded :: "followup_queue \<Rightarrow> nat" where
  "dropNeeded Q =
     (case cap Q of
        Finite q \<Rightarrow>
          if q \<le> 0 then 0
          else Suc (countPendingQueueItems (items Q) (Some (fqInFlight Q))) - nat \<lfloor>q\<rfloor>
      | _ \<Rightarrow> 0)"

definition undroppable :: "followup_world \<Rightarrow> followup_queue \<Rightarrow> ref \<Rightarrow> bool" where
  "undroppable w Q i \<longleftrightarrow> i \<in> set (fqInFlight Q) \<or> frProtectFromQueueOverflow (fwRuns w i)"

definition evictedQueue :: "(ref \<Rightarrow> followup_run) \<Rightarrow> ref list \<Rightarrow> ref list \<Rightarrow> followup_queue \<Rightarrow> followup_queue" where
  "evictedQueue runs rest dropped Q =
     (if dropPolicy Q = Summarize
      then Q\<lparr>items := rest, fqSummarySources := fqSummarySources Q @ dropped,
             droppedCount := droppedCount Q + length dropped,
             summaryLines := dropLinesTo (js_max 0 (cap Q))
               (summaryLines Q @ pushedLines (summarizeRun runs) dropped)\<rparr>
      else Q\<lparr>items := rest\<rparr>)"

lemma mayNotDrop_undroppable:
  "mayNotDrop (Some (fqInFlight Q)) (\<lambda>i. frProtectFromQueueOverflow (fwRuns w i)) = undroppable w Q"
  by (simp add: mayNotDrop_def undroppable_def fun_eq_iff)

lemma applyQueueDropPolicy_free:
  "js_nonpositive (cap Q) \<or> js_count_less (countPendingQueueItems (items Q) fl) (cap Q) \<Longrightarrow>
   applyQueueDropPolicy s l d fl prot (Q, w) = (True, Q, w)"
  by (simp add: applyQueueDropPolicy_def Let_def)

lemma applyFollowupDropPolicy_eq:
  assumes ok: "capOk (cap (fwQueueObjects w q))"
  defines "Q \<equiv> fwQueueObjects w q"
  defines "skip \<equiv> undroppable w Q"
  shows "applyFollowupDropPolicy q w =
    (if dropNeeded Q = 0 then (True, w)
     else if dropPolicy Q = DropNew \<or> length (filter (\<lambda>x. \<not> skip x) (items Q)) < dropNeeded Q
     then (False, w)
     else
       case evictFirst skip (dropNeeded Q) (items Q) of (rest, dropped) \<Rightarrow>
         (True, setQueueObject q (evictedQueue (fwRuns w) rest dropped)
            (if dropPolicy Q = Summarize then w else fold completeFollowupRunLifecycle dropped w)))"
proof -
  define p where "p = countPendingQueueItems (items Q) (Some (fqInFlight Q))"
  from ok consider (inf) "cap Q = PosInfinity" | (fin) c where "cap Q = Finite (of_int (int c))"
    by (auto simp: capOk_def Q_def)
  then show ?thesis
  proof cases
    case inf
    then have "dropNeeded Q = 0" by (simp add: dropNeeded_def)
    then show ?thesis
      using inf by (simp add: applyFollowupDropPolicy_def applyQueueDropPolicy_free Q_def [symmetric]
          setQueueObject_id)
  next
    case (fin c)
    have need: "dropNeeded Q = (if int c \<le> 0 \<or> int p < int c then 0 else nat (int p - int c + 1))"
      using fin by (auto simp: dropNeeded_def p_def)
    show ?thesis
    proof (cases "int c \<le> 0 \<or> int p < int c")
      case True
      have "js_nonpositive (cap Q) \<or> js_count_less p (cap Q)"
        using True unfolding fin js_count_less_int by auto
      then show ?thesis
        using need True by (simp add: applyFollowupDropPolicy_def applyQueueDropPolicy_free p_def
            Q_def [symmetric] setQueueObject_id)
    next
      case False
      define n where "n = dropNeeded Q"
      have n: "nat (int p - int c + 1) = n" "n \<noteq> 0" using need False by (auto simp: n_def)
      obtain rest dropped where ev: "evictFirst skip n (items Q) = (rest, dropped)" by fastforce
      note eq = applyQueueDropPolicy_int [OF fin, of "summarizeRun (fwRuns w)" None onDropRuns
          "Some (fqInFlight Q)" "\<lambda>i. frProtectFromQueueOverflow (fwRuns w i)" w,
          unfolded mayNotDrop_undroppable [of Q w] Let_def p_def [symmetric] n skip_def [symmetric] ev]
      show ?thesis
        unfolding applyFollowupDropPolicy_def Let_def Q_def [symmetric] eq n_def [symmetric] ev
        using False n(2)
        by (auto simp: onDropRuns_def evictedQueue_def pushSummaries_eq setQueueObject_id Q_def
            complete_all_setQueueObject intro!: setQueueObject_cong)
    qed
  qed
qed


section \<open>The summary accounts\<close>

text \<open>
  Every run dropped into a summary is either still a source with its line, or elided, or evicted
  from the elisions; \<open>droppedCount\<close> counts them all.
\<close>

definition accounted :: "followup_queue \<Rightarrow> bool" where
  "accounted Q \<longleftrightarrow> capOk (cap Q) \<and> elisionsOk (fqSummaryElisions Q) \<and>
     droppedCount Q = length (fqSummarySources Q) + length (elidedSources (fqSummaryElisions Q))
       + fqEvictedSummaryCount Q"

definition queueInv :: "followup_queue \<Rightarrow> bool" where
  "queueInv Q \<longleftrightarrow> accounted Q \<and> length (summaryLines Q) = length (fqSummarySources Q)"

lemma capOk_settingCap: "capOk c \<Longrightarrow> capOk (settingCap v c)"
proof -
  assume c: "capOk c"
  have "capOk (Finite (of_int \<lfloor>q\<rfloor>))" if "0 < q" for q :: rat
  proof -
    have "0 \<le> \<lfloor>q\<rfloor>" using that by simp
    then have "of_int \<lfloor>q\<rfloor> = (of_nat (nat \<lfloor>q\<rfloor>) :: rat)" by (metis nat_0_le of_int_of_nat_eq)
    then show ?thesis unfolding capOk_def by metis
  qed
  with c show ?thesis
    by (auto simp: settingCap_def capOk_def split: option.splits js_number.splits elim!: js_positive.elims)
qed

lemma capOk_default: "capOk DEFAULT_QUEUE_CAP"
  unfolding DEFAULT_QUEUE_CAP_def capOk_def by (metis of_nat_numeral)

lemma queueInv_new: "queueInv (applySettings settings (newFollowupQueue c settings))"
  by (simp add: applySettings_def applyQueueRuntimeSettings_def newFollowupQueue_def queueInv_def
      accounted_def elisionsOk_def capOk_settingCap capOk_default)

lemma accounted_trim: "accounted Q \<Longrightarrow> accounted (trimQueue Q)"
proof -
  assume a: "accounted Q"
  define active where "active = fqActiveSummarySources Q"
  define k where "k = overCap (idleSources Q) (cap Q)"
  have "k \<le> length (idleOf active (fqSummaryElisions Q))"
    by (auto simp: k_def overCap_def active_def idleSources_length split: js_number.splits)
  with evictMany_length [of k active "fqSummaryElisions Q"] a evictMany_ok [of "fqSummaryElisions Q"]
  show ?thesis
    by (simp add: trimQueue_def Let_def accounted_def k_def [symmetric] active_def [symmetric])
qed

lemma trimQueue_sel [simp]:
  "items (trimQueue Q) = items Q" "cap (trimQueue Q) = cap Q" "dropPolicy (trimQueue Q) = dropPolicy Q"
  "summaryLines (trimQueue Q) = summaryLines Q" "droppedCount (trimQueue Q) = droppedCount Q"
  "fqSummarySources (trimQueue Q) = fqSummarySources Q" "fqInFlight (trimQueue Q) = fqInFlight Q"
  "fqActiveSummarySources (trimQueue Q) = fqActiveSummarySources Q"
  "fqDraining (trimQueue Q) = fqDraining Q" "fqAbortController (trimQueue Q) = fqAbortController Q"
  by (simp_all add: trimQueue_def Let_def)

lemma queueInv_trim: "queueInv Q \<Longrightarrow> queueInv (trimQueue Q)"
  by (simp add: queueInv_def accounted_trim)

lemma queueInv_applySettings: "queueInv Q \<Longrightarrow> queueInv (applySettings settings Q)"
  by (simp add: applySettings_def applyQueueRuntimeSettings_def queueInv_def accounted_def
      capOk_settingCap)

lemma queueInv_emptied: "queueInv Q \<Longrightarrow> queueInv (emptiedQueue Q)"
  by (simp add: emptiedQueue_def queueInv_def accounted_def elisionsOk_def)

lemma accounted_cap: "accounted Q \<Longrightarrow> capOk (cap Q)" and queueInv_cap: "queueInv Q \<Longrightarrow> capOk (cap Q)"
  by (simp_all add: queueInv_def accounted_def)

text \<open>A trimmed queue holds at most \<open>cap\<close> elided sources that no delivery is using.\<close>

lemma idle_after_trim:
  "cap Q = Finite (of_nat c) \<Longrightarrow> idleSources (trimQueue Q) \<le> c"
  by (simp add: idleSources_length trimQueue_def Let_def evictMany_idle)

section \<open>Eliding\<close>

lemma elideEntry_sel [simp]:
  "items (elideEntry i k x c Q) = items Q" "cap (elideEntry i k x c Q) = cap Q"
  "dropPolicy (elideEntry i k x c Q) = dropPolicy Q"
  "summaryLines (elideEntry i k x c Q) = summaryLines Q"
  "droppedCount (elideEntry i k x c Q) = droppedCount Q"
  "fqSummarySources (elideEntry i k x c Q) = fqSummarySources Q"
  "fqInFlight (elideEntry i k x c Q) = fqInFlight Q"
  "fqEvictedSummaryCount (elideEntry i k x c Q) = fqEvictedSummaryCount Q"
  "fqDraining (elideEntry i k x c Q) = fqDraining Q"
  "fqAbortController (elideEntry i k x c Q) = fqAbortController Q"
  by (simp_all add: elideEntry_def Let_def)

lemma elideEntry_elided:
  "elidedSources (fqSummaryElisions (elideEntry i k x c Q)) = elidedSources (fqSummaryElisions Q) @ [c]"
proof (cases "fqSummaryElisions Q" rule: rev_cases)
  case (snoc es e)
  then show ?thesis by (simp add: elideEntry_def Let_def)
qed (simp add: elideEntry_def Let_def)

lemma elideEntry_ok:
  "elisionsOk (fqSummaryElisions Q) \<Longrightarrow> elisionsOk (fqSummaryElisions (elideEntry i k x c Q))"
proof (cases "fqSummaryElisions Q" rule: rev_cases)
  case (snoc es e)
  assume "elisionsOk (fqSummaryElisions Q)"
  with snoc show ?thesis by (simp add: elideEntry_def Let_def elisionsOk_def)
qed (simp add: elideEntry_def Let_def elisionsOk_def)

text \<open>The account with \<open>n\<close> sources taken out of \<open>summarySources\<close> and not yet elided.\<close>

definition accountedBut :: "nat \<Rightarrow> followup_queue \<Rightarrow> bool" where
  "accountedBut n Q \<longleftrightarrow> accounted (Q\<lparr>droppedCount := droppedCount Q - n\<rparr>) \<and> n \<le> droppedCount Q"

lemma accountedBut_elide:
  "accountedBut (Suc n) Q \<Longrightarrow> accountedBut n (elideEntry i k x c Q)"
  by (auto simp: accountedBut_def accounted_def elideEntry_elided elideEntry_ok)

lemma accountedBut_trim:
  assumes "accountedBut n Q"
  shows "accountedBut n (trimQueue Q)"
proof -
  have "(trimQueue Q)\<lparr>droppedCount := droppedCount Q - n\<rparr> = trimQueue (Q\<lparr>droppedCount := droppedCount Q - n\<rparr>)"
    by (simp add: trimQueue_def Let_def idleSources_length)
  with assms show ?thesis by (simp add: accountedBut_def accounted_trim)
qed

lemma createSource_sel [simp]:
  "fst (createOverflowSummaryRetrySource s w) = fwNext w"
  "fwQueueObjects (snd (createOverflowSummaryRetrySource s w)) = fwQueueObjects w"
  "fwQueues (snd (createOverflowSummaryRetrySource s w)) = fwQueues w"
  "fwCompleted (snd (createOverflowSummaryRetrySource s w)) = fwCompleted w"
  "fwEnqueued (snd (createOverflowSummaryRetrySource s w)) = fwEnqueued w"
  "fwNext (snd (createOverflowSummaryRetrySource s w)) = Suc (fwNext w)"
  "fwRuns (snd (createOverflowSummaryRetrySource s w)) =
     (fwRuns w)(fwNext w := compactSource (fwRuns w s))"
  by (simp_all add: createOverflowSummaryRetrySource_def fwFresh_def)

lemma elideSource_eq:
  fixes item :: ref and slack :: "string option \<Rightarrow> bool"
  assumes "capOk (cap (fwQueueObjects w q))"
  defines "w2 \<equiv> snd (fwFresh (snd (createOverflowSummaryRetrySource item w)))"
  defines "f \<equiv> elideEntry (Suc (fwNext w)) (resolveFollowupDeliveryContextKey slack w item) item (fwNext w)"
  shows "elideSource slack q item w =
    setQueueObject q (\<lambda>Q. trimQueue (f Q))
      (fold completeFollowupRunLifecycle (trimmedRuns (f (fwQueueObjects w q))) w2)"
proof -
  have "elideSource slack q item w = trimSummaryElisionsToCap q (setQueueObject q f w2)"
    by (simp add: elideSource_def Let_def split_def w2_def f_def fwFresh_def)
  also have "\<dots> = setQueueObject q trimQueue (fold completeFollowupRunLifecycle
      (trimmedRuns (f (fwQueueObjects w q))) (setQueueObject q f w2))"
    using assms(1) by (subst trimSummaryElisionsToCap_eq) (simp_all add: w2_def f_def fwFresh_def)
  finally show ?thesis by (simp add: complete_all_setQueueObject setQueueObject_twice)
qed

lemma elideSource_queue:
  assumes "capOk (cap (fwQueueObjects w q))"
  shows "\<exists>i k c. fwQueueObjects (elideSource slack q item w) =
    (fwQueueObjects w)(q := trimQueue (elideEntry i k item c (fwQueueObjects w q)))"
  unfolding elideSource_eq [OF assms] by (auto simp: fwFresh_def)

lemma elideSources_account:
  "accountedBut (length rs) (fwQueueObjects w q) \<Longrightarrow>
   accounted (fwQueueObjects (fold (elideSource slack q) rs w) q)"
proof (induction rs arbitrary: w)
  case Nil
  then show ?case by (simp add: accountedBut_def)
next
  case (Cons r rs)
  from Cons.prems have ok: "capOk (cap (fwQueueObjects w q))" by (simp add: accountedBut_def accounted_def)
  obtain i k c where Q: "fwQueueObjects (elideSource slack q r w) =
      (fwQueueObjects w)(q := trimQueue (elideEntry i k r c (fwQueueObjects w q)))"
    using elideSource_queue [OF ok] by blast
  have "accountedBut (length rs) (fwQueueObjects (elideSource slack q r w) q)"
    unfolding Q using Cons.prems by (simp add: accountedBut_trim accountedBut_elide)
  with Cons.IH show ?case by simp
qed


text \<open>What eliding leaves alone.\<close>

definition sameQueueCore :: "followup_queue \<Rightarrow> followup_queue \<Rightarrow> bool" where
  "sameQueueCore Q R \<longleftrightarrow> items R = items Q \<and> cap R = cap Q \<and> dropPolicy R = dropPolicy Q \<and>
     fqInFlight R = fqInFlight Q \<and> fqDraining R = fqDraining Q \<and> droppedCount R = droppedCount Q \<and>
     fqAbortController R = fqAbortController Q"

lemma sameQueueCore_refl [simp]: "sameQueueCore Q Q"
  by (simp add: sameQueueCore_def)

lemma elideSources_frame:
  assumes "capOk (cap (fwQueueObjects w q))"
  shows "let w' = fold (elideSource slack q) rs w; Q = fwQueueObjects w q; Q' = fwQueueObjects w' q
    in sameQueueCore Q Q' \<and> summaryLines Q' = summaryLines Q \<and>
       fqSummarySources Q' = fqSummarySources Q \<and> fwQueues w' = fwQueues w \<and>
       (\<forall>p. p \<noteq> q \<longrightarrow> fwQueueObjects w' p = fwQueueObjects w p) \<and>
       (\<forall>r < fwNext w. fwRuns w' r = fwRuns w r) \<and> fwNext w \<le> fwNext w' \<and>
       fwEnqueued w' = fwEnqueued w"
  using assms
proof (induction rs arbitrary: w)
  case Nil
  then show ?case by simp
next
  case (Cons r rs)
  obtain i k c where Q: "fwQueueObjects (elideSource slack q r w) =
      (fwQueueObjects w)(q := trimQueue (elideEntry i k r c (fwQueueObjects w q)))"
    using elideSource_queue [OF Cons.prems] by blast
  have w1: "fwQueues (elideSource slack q r w) = fwQueues w"
    "fwRuns (elideSource slack q r w) = (fwRuns w)(fwNext w := compactSource (fwRuns w r))"
    "fwNext (elideSource slack q r w) = Suc (Suc (fwNext w))"
    "fwEnqueued (elideSource slack q r w) = fwEnqueued w"
    unfolding elideSource_eq [OF Cons.prems] by (simp_all add: fwFresh_def)
  show ?case
    using Cons.IH [of "elideSource slack q r w"] Cons.prems
    by (simp add: Q w1 Let_def sameQueueCore_def)
qed

lemmas elideSources_frame' = elideSources_frame [unfolded Let_def]

lemma elideOverflow_frame:
  assumes "capOk (cap (fwQueueObjects w q))"
  shows "sameQueueCore (fwQueueObjects w q) (fwQueueObjects (elideOverflow slack q w) q)"
    and "fwQueues (elideOverflow slack q w) = fwQueues w"
    and "p \<noteq> q \<Longrightarrow> fwQueueObjects (elideOverflow slack q w) p = fwQueueObjects w p"
    and "r < fwNext w \<Longrightarrow> fwRuns (elideOverflow slack q w) r = fwRuns w r"
    and "fwNext w \<le> fwNext (elideOverflow slack q w)"
    and "fwEnqueued (elideOverflow slack q w) = fwEnqueued w"
proof -
  define n where "n = length (fqSummarySources (fwQueueObjects w q)) - length (summaryLines (fwQueueObjects w q))"
  define w0 where "w0 = setQueueObject q (\<lambda>Q. Q\<lparr>fqSummarySources := drop n (fqSummarySources Q)\<rparr>) w"
  have ok: "capOk (cap (fwQueueObjects w0 q))" using assms by (simp add: w0_def)
  have eq: "elideOverflow slack q w = fold (elideSource slack q)
      (take n (fqSummarySources (fwQueueObjects w q))) w0"
    by (simp add: elideOverflow_def Let_def w0_def n_def)
  note fr = elideSources_frame' [OF ok, of slack "take n (fqSummarySources (fwQueueObjects w q))"]
  show "sameQueueCore (fwQueueObjects w q) (fwQueueObjects (elideOverflow slack q w) q)"
    "fwQueues (elideOverflow slack q w) = fwQueues w"
    "p \<noteq> q \<Longrightarrow> fwQueueObjects (elideOverflow slack q w) p = fwQueueObjects w p"
    "r < fwNext w \<Longrightarrow> fwRuns (elideOverflow slack q w) r = fwRuns w r"
    "fwNext w \<le> fwNext (elideOverflow slack q w)"
    "fwEnqueued (elideOverflow slack q w) = fwEnqueued w"
    using fr unfolding eq by (simp_all add: w0_def sameQueueCore_def)
qed

lemma elideOverflow_inv:
  assumes acc: "accounted (fwQueueObjects w q)"
    and lines: "length (summaryLines (fwQueueObjects w q)) \<le> length (fqSummarySources (fwQueueObjects w q))"
  shows "queueInv (fwQueueObjects (elideOverflow slack q w) q)"
proof -
  define Q where "Q = fwQueueObjects w q"
  define n where "n = length (fqSummarySources Q) - length (summaryLines Q)"
  define w0 where "w0 = setQueueObject q (\<lambda>Q. Q\<lparr>fqSummarySources := drop n (fqSummarySources Q)\<rparr>) w"
  define rs where "rs = take n (fqSummarySources Q)"
  have eq: "elideOverflow slack q w = fold (elideSource slack q) rs w0"
    by (simp add: elideOverflow_def Let_def w0_def n_def rs_def Q_def)
  have Q0: "fwQueueObjects w0 q = Q\<lparr>fqSummarySources := drop n (fqSummarySources Q)\<rparr>"
    by (simp add: w0_def Q_def)
  have n: "n \<le> length (fqSummarySources Q)" by (simp add: n_def)
  have "accountedBut (length rs) (fwQueueObjects w0 q)"
    using acc [folded Q_def] n by (auto simp: Q0 accountedBut_def accounted_def rs_def)
  then have "accounted (fwQueueObjects (elideOverflow slack q w) q)"
    unfolding eq by (rule elideSources_account)
  moreover have "capOk (cap (fwQueueObjects w0 q))"
    using acc by (simp add: Q0 accounted_def Q_def)
  ultimately show ?thesis
    using elideSources_frame' [of w0 q slack rs] lines
    by (simp add: queueInv_def eq Q0 n_def Q_def)
qed

lemma evictedQueue_accounted:
  assumes "queueInv Q"
  shows "accounted (evictedQueue runs rest dropped Q)"
    and "length (summaryLines (evictedQueue runs rest dropped Q)) \<le>
         length (fqSummarySources (evictedQueue runs rest dropped Q))"
    and "dropPolicy Q \<noteq> Summarize \<Longrightarrow> queueInv (evictedQueue runs rest dropped Q)"
proof -
  have "length (dropLinesTo l xs) \<le> length xs" for l and xs :: "utf16 list"
    by (induction l xs rule: dropLinesTo.induct) auto
  then have le: "length (dropLinesTo l (summaryLines Q @ pushedLines (summarizeRun runs) dropped)) \<le>
      length (summaryLines Q) + length dropped" for l
    by (metis length_append length_map pushedLines_def)
  show "accounted (evictedQueue runs rest dropped Q)"
    "length (summaryLines (evictedQueue runs rest dropped Q)) \<le>
         length (fqSummarySources (evictedQueue runs rest dropped Q))"
    "dropPolicy Q \<noteq> Summarize \<Longrightarrow> queueInv (evictedQueue runs rest dropped Q)"
    using assms le [of "js_max 0 (cap Q)"]
    by (auto simp: evictedQueue_def queueInv_def accounted_def)
qed


section \<open>Getting the queue of a key\<close>

text \<open>The queues of a world: each with its accounts in order, and made of allocated objects.\<close>

definition worldInv :: "followup_world \<Rightarrow> bool" where
  "worldInv w \<longleftrightarrow>
     (\<forall>key q. jm_get (fwQueues w) key = Some q \<longrightarrow>
        q < fwNext w \<and> queueInv (fwQueueObjects w q))"

lemma getQueue_sel:
  "fwRuns (snd (getFollowupQueue key settings w)) = fwRuns w"
  "fwNext w \<le> fwNext (snd (getFollowupQueue key settings w))"
  "fwEnqueued (snd (getFollowupQueue key settings w)) = fwEnqueued w"
  if "worldInv w"
proof -
  have ok: "capOk (cap (applySettings settings (fwQueueObjects w q)))"
    if "jm_get (fwQueues w) key = Some q" for q
    using that \<open>worldInv w\<close> queueInv_applySettings queueInv_cap by (auto simp: worldInv_def)
  show "fwRuns (snd (getFollowupQueue key settings w)) = fwRuns w"
    "fwNext w \<le> fwNext (snd (getFollowupQueue key settings w))"
    "fwEnqueued (snd (getFollowupQueue key settings w)) = fwEnqueued w"
    using ok by (auto simp: getFollowupQueue_def trimSummaryElisionsToCap_eq fwFresh_def Let_def
        split: option.split)
qed

text \<open>The queue object of a key before the operation; a key without one gets an empty queue.\<close>

definition queueAt ::
    "followup_world \<Rightarrow> string \<Rightarrow> queue_mode queue_settings \<Rightarrow> followup_queue" where
  "queueAt w key settings =
     (case jm_get (fwQueues w) key of
        Some q \<Rightarrow> trimQueue (applySettings settings (fwQueueObjects w q))
      | None \<Rightarrow> applySettings settings (newFollowupQueue (fwNext w) settings))"

lemma getQueue_eq:
  assumes "worldInv w"
  shows "\<exists>q. fst (getFollowupQueue key settings w) = q \<and>
    fwQueueObjects (snd (getFollowupQueue key settings w)) = (fwQueueObjects w)(q := queueAt w key settings) \<and>
    jm_get (fwQueues (snd (getFollowupQueue key settings w))) = (jm_get (fwQueues w))(key := Some q) \<and>
    q < fwNext (snd (getFollowupQueue key settings w)) \<and> queueInv (queueAt w key settings) \<and>
    (jm_get (fwQueues w) key = None \<longrightarrow> q = Suc (fwNext w)) \<and>
    (\<forall>p. jm_get (fwQueues w) key = Some p \<longrightarrow> q = p)"
proof (cases "jm_get (fwQueues w) key")
  case None
  then show ?thesis
    by (simp add: getFollowupQueue_def fwFresh_def Let_def queueAt_def queueInv_new jm.get_put)
next
  case (Some q)
  with assms have "q < fwNext w" "queueInv (applySettings settings (fwQueueObjects w q))"
    by (auto simp: worldInv_def queueInv_applySettings)
  moreover have "jm_get (fwQueues w) = (jm_get (fwQueues w))(key := Some q)" using Some by auto
  ultimately show ?thesis
    using Some by (simp add: getFollowupQueue_def queueAt_def trimSummaryElisionsToCap_eq
        queueInv_cap queueInv_trim)
qed

lemma applySettings_sel [simp]:
  "items (applySettings s Q) = items Q" "fqInFlight (applySettings s Q) = fqInFlight Q"
  "fqSummarySources (applySettings s Q) = fqSummarySources Q"
  "fqSummaryElisions (applySettings s Q) = fqSummaryElisions Q"
  "fqActiveSummarySources (applySettings s Q) = fqActiveSummarySources Q"
  "fqEvictedSummaryCount (applySettings s Q) = fqEvictedSummaryCount Q"
  "droppedCount (applySettings s Q) = droppedCount Q"
  "summaryLines (applySettings s Q) = summaryLines Q"
  "cap (applySettings s Q) = settingCap (set_cap s) (cap Q)"
  "dropPolicy (applySettings s Q) = nullish (set_dropPolicy s) (dropPolicy Q)"
  by (simp_all add: applySettings_def applyQueueRuntimeSettings_def)

section \<open>Enqueueing\<close>

lemma schedule_sel [simp, fw_frame]:
  "fwRuns (scheduleFollowupDrain key cb w) = fwRuns w"
  "fwQueues (scheduleFollowupDrain key cb w) = fwQueues w"
  "fwNext (scheduleFollowupDrain key cb w) = fwNext w"
  "fwCompleted (scheduleFollowupDrain key cb w) = fwCompleted w"
  "fwEnqueued (scheduleFollowupDrain key cb w) = fwEnqueued w"
  "fwAdmitting (scheduleFollowupDrain key cb w) = fwAdmitting w"
  "fwExecutions (scheduleFollowupDrain key cb w) = fwExecutions w"
  by (simp_all add: scheduleFollowupDrain_def beginQueueDrain_def rememberFollowupDrainCallback_def
      Let_def split: option.split)

lemma schedule_queue:
  "fwQueueObjects (scheduleFollowupDrain key cb w) q = fwQueueObjects w q \<or>
   fwQueueObjects (scheduleFollowupDrain key cb w) q = (fwQueueObjects w q)\<lparr>fqDraining := True\<rparr>"
  by (auto simp: scheduleFollowupDrain_def beginQueueDrain_def rememberFollowupDrainCallback_def
      Let_def split: option.split)

text \<open>The queue object up to the drain mark.\<close>

definition undrained :: "followup_queue \<Rightarrow> followup_queue" where
  "undrained Q = Q\<lparr>fqDraining := False\<rparr>"

lemma schedule_undrained [simp]:
  "undrained (fwQueueObjects (scheduleFollowupDrain key cb w) q) = undrained (fwQueueObjects w q)"
  using schedule_queue [of key cb w q] by (auto simp: undrained_def)

lemma kick_sel [simp, fw_frame]:
  "fwRuns (kickFollowupDrainIfIdle key w) = fwRuns w"
  "fwQueues (kickFollowupDrainIfIdle key w) = fwQueues w"
  "fwNext (kickFollowupDrainIfIdle key w) = fwNext w"
  "fwCompleted (kickFollowupDrainIfIdle key w) = fwCompleted w"
  "fwEnqueued (kickFollowupDrainIfIdle key w) = fwEnqueued w"
  "undrained (fwQueueObjects (kickFollowupDrainIfIdle key w) q) = undrained (fwQueueObjects w q)"
  by (simp_all add: kickFollowupDrainIfIdle_def split: option.split)

text \<open>The queue with the admitted run.\<close>

definition withRun :: "insert_position \<Rightarrow> ref \<Rightarrow> ref list \<Rightarrow> ref list" where
  "withRun position run xs = (if position = AtFront then run # xs else xs @ [run])"

lemma finishEnqueue_sel:
  "undrained (fwQueueObjects (finishEnqueue now key run cb restart position rk q w) q) =
     undrained ((fwQueueObjects w q)\<lparr>fqLastEnqueuedAt := now, fqLastRun := Some (frRun (fwRuns w run)),
       items := withRun position run (items (fwQueueObjects w q))\<rparr>)"
  "p \<noteq> q \<Longrightarrow> undrained (fwQueueObjects (finishEnqueue now key run cb restart position rk q w) p) =
     undrained (fwQueueObjects w p)"
  "fwQueues (finishEnqueue now key run cb restart position rk q w) = fwQueues w"
  "fwNext (finishEnqueue now key run cb restart position rk q w) = fwNext w"
  "fwCompleted (finishEnqueue now key run cb restart position rk q w) = fwCompleted w"
  "fwEnqueued (finishEnqueue now key run cb restart position rk q w) = fwEnqueued w"
  "frQueuedLifecycle (fwRuns (finishEnqueue now key run cb restart position rk q w) r) =
     frQueuedLifecycle (fwRuns w r)"
  by (auto simp: finishEnqueue_def Let_def admitToQueue_def setRunObject_def withRun_def
      rememberFollowupDrainCallback_def split: option.split)


lemma mark_sel [simp]:
  "fwQueueObjects (snd (markFollowupRunEnqueued accepts r w)) = fwQueueObjects w"
  "fwRuns (snd (markFollowupRunEnqueued accepts r w)) = fwRuns w"
  "fwQueues (snd (markFollowupRunEnqueued accepts r w)) = fwQueues w"
  "fwNext (snd (markFollowupRunEnqueued accepts r w)) = fwNext w"
  "fwCompleted (snd (markFollowupRunEnqueued accepts r w)) = fwCompleted w"
  "fwRecentMessageIds (snd (markFollowupRunEnqueued accepts r w)) = fwRecentMessageIds w"
  by (auto simp: markFollowupRunEnqueued_def split: option.split)

text \<open>The run as the queue sees it: a run put in front is protected.\<close>

definition protectedRun :: "insert_position \<Rightarrow> ref \<Rightarrow> followup_world \<Rightarrow> followup_world" where
  "protectedRun position run w =
     (if position = AtFront then setRunObject run (\<lambda>r. r\<lparr>frProtectFromQueueOverflow := True\<rparr>) w else w)"

lemma protectedRun_sel [simp]:
  "fwQueueObjects (protectedRun p run w) = fwQueueObjects w"
  "fwQueues (protectedRun p run w) = fwQueues w"
  "fwNext (protectedRun p run w) = fwNext w"
  "fwCompleted (protectedRun p run w) = fwCompleted w"
  "fwEnqueued (protectedRun p run w) = fwEnqueued w"
  "frQueuedLifecycle (fwRuns (protectedRun p run w) r) = frQueuedLifecycle (fwRuns w r)"
  "worldInv (protectedRun p run w) = worldInv w"
  "queueAt (protectedRun p run w) key settings = queueAt w key settings"
  by (simp_all add: protectedRun_def setRunObject_def worldInv_def queueAt_def split: option.split)

definition settleOverflow :: "(string option \<Rightarrow> bool) \<Rightarrow> ref \<Rightarrow> followup_world \<Rightarrow> followup_world" where
  "settleOverflow slack q w =
     (if dropPolicy (fwQueueObjects w q) = Summarize then elideOverflow slack q w else w)"

lemma enqueue_accepted:
  assumes "enqueueFollowupRun slack accepts now key run settings dm cb restart position w = (True, w')"
  defines "q \<equiv> fst (getFollowupQueue key settings (protectedRun position run w))"
    and "w2 \<equiv> snd (getFollowupQueue key settings (protectedRun position run w))"
  obtains w4 rk where
    "fwQueueObjects w4 = fwQueueObjects w2" "fwRuns w4 = fwRuns w2" "fwQueues w4 = fwQueues w2"
    "fwNext w4 = fwNext w2" "fst (applyFollowupDropPolicy q w4)"
    "w' = finishEnqueue now key run cb restart position rk q
            (settleOverflow slack q (snd (applyFollowupDropPolicy q w4)))"
    "fwCompleted w4 = fwCompleted w2" "\<not> isFollowupRunAborted w run"
    "dm \<noteq> DedupeNone \<Longrightarrow>
       \<not> isRunAlreadyQueued slack (fwRuns w2) (dm = DedupePrompt) run (items (fwQueueObjects w2 q))"
    "rk = (if dm = DedupeNone then None else buildRecentMessageIdKey (fwRuns w2 run) key)"
    "fwRecentMessageIds w4 = (case rk of None \<Rightarrow> fwRecentMessageIds w2
       | Some k \<Rightarrow> snd (peekKey RECENT_QUEUE_OPTIONS (Some k) now (fwRecentMessageIds w2)))"
proof -
  define rk where "rk = (if dm = DedupeNone then None else buildRecentMessageIdKey (fwRuns w2 run) key)"
  define rc where "rc = (case rk of None \<Rightarrow> (False, fwRecentMessageIds w2)
       | Some k \<Rightarrow> peekKey RECENT_QUEUE_OPTIONS (Some k) now (fwRecentMessageIds w2))"
  define w3 where "w3 = w2\<lparr>fwRecentMessageIds := snd rc\<rparr>"
  define w4 where "w4 = snd (markFollowupRunEnqueued accepts run w3)"
  note shape = assms(1) [unfolded enqueueFollowupRun_def, folded protectedRun_def, unfolded Let_def
      split_def, folded q_def w2_def, folded rk_def, folded rc_def, folded w3_def, folded settleOverflow_def]
  have "\<not> isFollowupRunAborted w run" using shape by (auto split: if_splits)
  moreover have "\<not> shouldSkipQueueItem run (items (fwQueueObjects w3 q))
      (if dm = DedupeNone then None else Some (isRunAlreadyQueued slack (fwRuns w3) (dm = DedupePrompt)))"
    using shape by (auto split: if_splits)
  moreover have "fst (applyFollowupDropPolicy q w4) \<and>
      w' = finishEnqueue now key run cb restart position rk q
            (settleOverflow slack q (snd (applyFollowupDropPolicy q w4)))"
    using shape unfolding w4_def by (auto split: if_splits bool.splits prod.splits)
  ultimately show thesis
    by (intro that [of w4 rk])
      (auto simp: w4_def w3_def rk_def rc_def shouldSkipQueueItem_def split: option.split)
qed


lemma undrained_sel:
  assumes "undrained Q = undrained R"
  shows "items Q = items R" "fqInFlight Q = fqInFlight R" "cap Q = cap R" "dropPolicy Q = dropPolicy R"
    and "queueInv Q = queueInv R" "fqSummarySources Q = fqSummarySources R"
    and "fqSummaryElisions Q = fqSummaryElisions R" "droppedCount Q = droppedCount R"
    and "queueSources Q = queueSources R" "fqAbortController Q = fqAbortController R"
proof -
  have "Q = R\<lparr>fqDraining := fqDraining Q\<rparr>"
    using assms by (simp add: undrained_def) (metis followup_queue.surjective followup_queue.update_convs(2))
  then obtain b where "Q = R\<lparr>fqDraining := b\<rparr>" by blast
  then show "items Q = items R" "fqInFlight Q = fqInFlight R" "cap Q = cap R" "dropPolicy Q = dropPolicy R"
    "queueInv Q = queueInv R" "fqSummarySources Q = fqSummarySources R"
    "fqSummaryElisions Q = fqSummaryElisions R" "droppedCount Q = droppedCount R"
    "queueSources Q = queueSources R" "fqAbortController Q = fqAbortController R"
    by (simp_all add: queueInv_def accounted_def queueSources_def)
qed

lemma evictedQueue_sel [simp]:
  "items (evictedQueue runs rest dropped Q) = rest"
  "fqInFlight (evictedQueue runs rest dropped Q) = fqInFlight Q"
  "cap (evictedQueue runs rest dropped Q) = cap Q"
  "dropPolicy (evictedQueue runs rest dropped Q) = dropPolicy Q"
  "fqAbortController (evictedQueue runs rest dropped Q) = fqAbortController Q"
  "fqSummaryElisions (evictedQueue runs rest dropped Q) = fqSummaryElisions Q"
  by (simp_all add: evictedQueue_def)

lemma settleOverflow_inv:
  assumes "accounted (fwQueueObjects w q)"
    and "length (summaryLines (fwQueueObjects w q)) \<le> length (fqSummarySources (fwQueueObjects w q))"
    and "dropPolicy (fwQueueObjects w q) \<noteq> Summarize \<Longrightarrow> queueInv (fwQueueObjects w q)"
  shows "queueInv (fwQueueObjects (settleOverflow slack q w) q)"
    and "sameQueueCore (fwQueueObjects w q) (fwQueueObjects (settleOverflow slack q w) q)"
    and "fwQueues (settleOverflow slack q w) = fwQueues w"
    and "p \<noteq> q \<Longrightarrow> fwQueueObjects (settleOverflow slack q w) p = fwQueueObjects w p"
    and "fwNext w \<le> fwNext (settleOverflow slack q w)"
  using assms elideOverflow_inv [OF assms(1,2)] elideOverflow_frame [OF accounted_cap [OF assms(1)]]
  by (auto simp: settleOverflow_def)

text \<open>What the drop policy and the settling leave, when the policy lets the run in.\<close>

lemma drop_and_settle:
  fixes slack :: "string option \<Rightarrow> bool"
  assumes inv: "queueInv (fwQueueObjects w q)" and ok: "fst (applyFollowupDropPolicy q w)"
  defines "Q \<equiv> fwQueueObjects w q"
  defines "u \<equiv> settleOverflow slack q (snd (applyFollowupDropPolicy q w))"
  shows "items (fwQueueObjects u q) = fst (evictFirst (undroppable w Q) (dropNeeded Q) (items Q))"
    and "queueInv (fwQueueObjects u q)"
    and "fqInFlight (fwQueueObjects u q) = fqInFlight Q" "cap (fwQueueObjects u q) = cap Q"
    and "fwQueues u = fwQueues w" "fwNext w \<le> fwNext u"
    and "p \<noteq> q \<Longrightarrow> fwQueueObjects u p = fwQueueObjects w p"
    and "dropNeeded Q \<le> length (filter (\<lambda>x. \<not> undroppable w Q x) (items Q))"
    and "dropNeeded Q \<noteq> 0 \<Longrightarrow> dropPolicy Q \<noteq> DropNew"
    and "r < fwNext w \<Longrightarrow> fwRuns u r = fwRuns w r"
proof -
  obtain rest dropped where ev: "evictFirst (undroppable w Q) (dropNeeded Q) (items Q) = (rest, dropped)"
    by fastforce
  note eq = applyFollowupDropPolicy_eq [OF queueInv_cap [OF inv], folded Q_def, unfolded ev]
  define v where "v = snd (applyFollowupDropPolicy q w)"
  define R where "R = fwQueueObjects v q"
  have v: "R = Q \<and> dropNeeded Q = 0 \<or> R = evictedQueue (fwRuns w) rest dropped Q \<and> dropNeeded Q \<noteq> 0"
    "fwQueues v = fwQueues w" "fwNext v = fwNext w" "p \<noteq> q \<Longrightarrow> fwQueueObjects v p = fwQueueObjects w p" for p
    using ok by (auto simp: eq v_def R_def Q_def split: if_splits)
  have "accounted R" "length (summaryLines R) \<le> length (fqSummarySources R)"
    "dropPolicy R \<noteq> Summarize \<Longrightarrow> queueInv R"
    using v(1) inv [folded Q_def] evictedQueue_accounted [OF inv [folded Q_def]]
    by (auto simp: queueInv_def)
  note settle = settleOverflow_inv [OF this [unfolded R_def], folded v_def u_def]
  have core: "sameQueueCore R (fwQueueObjects u q)" "u = settleOverflow slack q v"
    using settle(2) by (simp_all add: R_def u_def v_def)
  have rest: "dropNeeded Q = 0 \<Longrightarrow> rest = items Q" using ev by (cases "dropNeeded Q") auto
  show "items (fwQueueObjects u q) = fst (evictFirst (undroppable w Q) (dropNeeded Q) (items Q))"
    "fqInFlight (fwQueueObjects u q) = fqInFlight Q" "cap (fwQueueObjects u q) = cap Q"
    using v(1) core(1) rest by (auto simp: ev sameQueueCore_def)
  show "queueInv (fwQueueObjects u q)" "fwQueues u = fwQueues w" "fwNext w \<le> fwNext u"
    "p \<noteq> q \<Longrightarrow> fwQueueObjects u p = fwQueueObjects w p"
    using settle v core(2) by auto
  show "dropNeeded Q \<le> length (filter (\<lambda>x. \<not> undroppable w Q x) (items Q))"
    "dropNeeded Q \<noteq> 0 \<Longrightarrow> dropPolicy Q \<noteq> DropNew"
    using ok by (auto simp: eq split: if_splits)
  have "fwRuns v = fwRuns w" by (auto simp: v_def eq)
  moreover have "capOk (cap (fwQueueObjects v q))" using \<open>accounted R\<close> by (simp add: R_def accounted_def)
  ultimately show "r < fwNext w \<Longrightarrow> fwRuns u r = fwRuns w r"
    using elideOverflow_frame(4) [of v q r slack] v(3) by (simp add: core(2) settleOverflow_def)
qed

lemma enqueue_accepted_queue:
  assumes w: "worldInv w"
    and acc: "enqueueFollowupRun slack accepts now key run settings dm cb restart position w = (True, w')"
  defines "Q \<equiv> queueAt w key settings"
  defines "skip \<equiv> undroppable (protectedRun position run w) Q"
  shows "\<exists>q. jm_get (fwQueues w') = (jm_get (fwQueues w))(key := Some q) \<and> q < fwNext w' \<and>
    items (fwQueueObjects w' q) = withRun position run (fst (evictFirst skip (dropNeeded Q) (items Q))) \<and>
    fqInFlight (fwQueueObjects w' q) = fqInFlight Q \<and> cap (fwQueueObjects w' q) = cap Q \<and>
    queueInv (fwQueueObjects w' q) \<and> fwNext w \<le> fwNext w' \<and>
    (\<forall>p. p \<noteq> q \<longrightarrow> undrained (fwQueueObjects w' p) = undrained (fwQueueObjects w p)) \<and>
    dropNeeded Q \<le> length (filter (\<lambda>x. \<not> skip x) (items Q)) \<and>
    (dropNeeded Q \<noteq> 0 \<longrightarrow> dropPolicy Q \<noteq> DropNew) \<and>
    (\<forall>p. jm_get (fwQueues w) key = Some p \<longrightarrow> q = p) \<and>
    (jm_get (fwQueues w) key = None \<longrightarrow> q = Suc (fwNext w))"
proof -
  define w1 where "w1 = protectedRun position run w"
  define q where "q = fst (getFollowupQueue key settings w1)"
  define w2 where "w2 = snd (getFollowupQueue key settings w1)"
  have w1: "worldInv w1" using w by (simp add: w1_def)
  have runs2: "fwRuns w2 = fwRuns w1" "fwNext w1 \<le> fwNext w2"
    using getQueue_sel [OF w1] by (simp_all add: w2_def)
  obtain queues2: "fwQueueObjects w2 = (fwQueueObjects w1)(q := Q)"
    "jm_get (fwQueues w2) = (jm_get (fwQueues w1))(key := Some q)" "q < fwNext w2" "queueInv Q"
    "\<forall>p. jm_get (fwQueues w1) key = Some p \<longrightarrow> q = p"
    "jm_get (fwQueues w1) key = None \<longrightarrow> q = Suc (fwNext w1)"
    using getQueue_eq [OF w1, of key settings] by (auto simp: q_def w2_def Q_def w1_def)
  obtain w4 rk where w4: "fwQueueObjects w4 = fwQueueObjects w2" "fwRuns w4 = fwRuns w2"
      "fwQueues w4 = fwQueues w2" "fwNext w4 = fwNext w2" "fst (applyFollowupDropPolicy q w4)"
    and w': "w' = finishEnqueue now key run cb restart position rk q
      (settleOverflow slack q (snd (applyFollowupDropPolicy q w4)))"
    using enqueue_accepted [OF acc] by (metis q_def w2_def w1_def)
  have Q4: "fwQueueObjects w4 q = Q" using w4(1) queues2(1) by simp
  have skip: "undroppable w4 Q = skip"
    using w4(2) runs2(1) by (simp add: undroppable_def fun_eq_iff skip_def w1_def)
  have inv4: "queueInv (fwQueueObjects w4 q)" using Q4 queues2(4) by simp
  define u where "u = settleOverflow slack q (snd (applyFollowupDropPolicy q w4))"
  note u = drop_and_settle(1-7) [OF inv4 w4(5), where slack = slack, folded u_def, unfolded Q4 skip]
    drop_and_settle(8,9) [OF inv4 w4(5), unfolded Q4 skip]
  have fin: "undrained (fwQueueObjects w' q) = undrained ((fwQueueObjects u q)\<lparr>fqLastEnqueuedAt := now,
      fqLastRun := Some (frRun (fwRuns u run)), items := withRun position run (items (fwQueueObjects u q))\<rparr>)"
    "\<And>p. p \<noteq> q \<Longrightarrow> undrained (fwQueueObjects w' p) = undrained (fwQueueObjects u p)"
    "fwQueues w' = fwQueues u" "fwNext w' = fwNext u"
    unfolding w' u_def [symmetric] by (rule finishEnqueue_sel, assumption?)+
  note fin' = undrained_sel [OF fin(1)]
  have "queueInv (fwQueueObjects w' q)"
    using u(2) unfolding fin'(5) by (simp add: queueInv_def accounted_def)
  moreover have "undrained (fwQueueObjects w' p) = undrained (fwQueueObjects w p)" if "p \<noteq> q" for p
    using that fin(2) u(7) w4(1) queues2(1) by (simp add: w1_def)
  ultimately show ?thesis
    using u fin(3,4) fin' w4 queues2 runs2(2) by (intro exI [of _ q]) (simp add: w1_def)
qed

end
