(* ===== verification/FollowupSamples.thy ===== *)
theory FollowupSamples
  imports FollowupProofs
begin

text \<open>
  When a run is admitted, and small worlds on which the properties of the follow-up queue are evaluated: the queue of the key
  \<open>k\<close> is the object 90, the lifecycle of a run has the run's number, and no run has a route.
\<close>

section \<open>Admission\<close>

lemma getQueue_recent:
  "worldInv w \<Longrightarrow> fwRecentMessageIds (snd (getFollowupQueue key settings w)) = fwRecentMessageIds w"
  using queueInv_cap capOk_settingCap
  by (force simp: getFollowupQueue_def trimSummaryElisionsToCap_eq fwFresh_def Let_def worldInv_def
      split: option.split)

text \<open>The room an admission needs: nothing to drop, or enough runs the policy may drop.\<close>

definition hasRoom :: "insert_position \<Rightarrow> ref \<Rightarrow> followup_world \<Rightarrow> followup_queue \<Rightarrow> bool" where
  "hasRoom position run w Q \<longleftrightarrow> dropNeeded Q = 0 \<or> (dropPolicy Q \<noteq> DropNew \<and>
     dropNeeded Q \<le> length (filter (\<lambda>x. \<not> undroppable (protectedRun position run w) Q x) (items Q)))"

definition seenRecently :: "queue_dedupe_mode \<Rightarrow> ms \<Rightarrow> string \<Rightarrow> ref \<Rightarrow> followup_world \<Rightarrow> bool" where
  "seenRecently dm now key run w \<longleftrightarrow> dm \<noteq> DedupeNone \<and>
     (case buildRecentMessageIdKey (fwRuns w run) key of
        None \<Rightarrow> False
      | Some k \<Rightarrow> fst (peekKey RECENT_QUEUE_OPTIONS (Some k) now (fwRecentMessageIds w)))"

definition acceptsRun :: "(ref \<Rightarrow> bool) \<Rightarrow> ref \<Rightarrow> followup_world \<Rightarrow> bool" where
  "acceptsRun accepts run w \<longleftrightarrow>
     (case frQueuedLifecycle (fwRuns w run) of None \<Rightarrow> True | Some lc \<Rightarrow> lc \<in> fwEnqueued w \<or> accepts lc)"

lemma dropNew_full:
  assumes "capOk (cap Q)"
  shows "js_positive (cap Q) \<and>
      \<not> js_count_less (countPendingQueueItems (items Q) (Some (fqInFlight Q))) (cap Q) \<longleftrightarrow> dropNeeded Q \<noteq> 0"
proof -
  from assms consider (inf) "cap Q = PosInfinity" | (fin) c where "cap Q = Finite (of_int (int c))"
    by (auto simp: capOk_def)
  then show ?thesis
  proof cases
    case fin
    then show ?thesis unfolding dropNeeded_def fin js_count_less_int by (simp add: not_less less_Suc_eq_le)
  qed (simp add: dropNeeded_def)
qed

lemma protected_key [simp]:
  "buildRecentMessageIdKey (fwRuns (protectedRun position run w) r) key =
   buildRecentMessageIdKey (fwRuns w r) key"
  by (simp add: protectedRun_def setRunObject_def buildRecentMessageIdKey_def
      followupMessageRouteIdentityKey_def originRoute_def)

lemma protected_recent [simp]: "fwRecentMessageIds (protectedRun position run w) = fwRecentMessageIds w"
  by (simp add: protectedRun_def setRunObject_def)

text \<open>When exactly a run is admitted.\<close>

lemma enqueue_admits_iff:
  fixes key :: string and settings :: "queue_mode queue_settings" and position :: insert_position and run :: ref
  assumes w: "worldInv w"
  defines "Q \<equiv> queueAt w key settings" and "w1 \<equiv> protectedRun position run w"
  shows "fst (enqueueFollowupRun slack accepts now key run settings dm cb restart position w) \<longleftrightarrow>
    \<not> isFollowupRunAborted w run \<and> \<not> seenRecently dm now key run w \<and>
    \<not> (dm \<noteq> DedupeNone \<and> isRunAlreadyQueued slack (fwRuns w1) (dm = DedupePrompt) run (items Q)) \<and>
    acceptsRun accepts run w \<and> hasRoom position run w Q"
proof -
  define q where "q = fst (getFollowupQueue key settings w1)"
  define w2 where "w2 = snd (getFollowupQueue key settings w1)"
  define rk where "rk = (if dm = DedupeNone then None else buildRecentMessageIdKey (fwRuns w2 run) key)"
  define rc where "rc = (case rk of None \<Rightarrow> (False, fwRecentMessageIds w2)
       | Some k \<Rightarrow> peekKey RECENT_QUEUE_OPTIONS (Some k) now (fwRecentMessageIds w2))"
  define w3 where "w3 = w2\<lparr>fwRecentMessageIds := snd rc\<rparr>"
  define w4 where "w4 = snd (markFollowupRunEnqueued accepts run w3)"
  have w1: "worldInv w1" using w by (simp add: w1_def)
  have Q: "fwQueueObjects w2 q = Q" "queueInv Q"
    using getQueue_eq [OF w1, of key settings] by (auto simp: q_def w2_def Q_def w1_def)
  have runs: "fwRuns w2 = fwRuns w1" "fwEnqueued w2 = fwEnqueued w" "fwRecentMessageIds w2 = fwRecentMessageIds w"
    using getQueue_sel(1,3) [OF w1] getQueue_recent [OF w1] by (simp_all add: w2_def) (simp_all add: w1_def)
  have seen: "fst rc = seenRecently dm now key run w"
    by (simp add: rc_def rk_def seenRecently_def runs w1_def split: option.split)
  have mark: "fst (markFollowupRunEnqueued accepts run w3) = acceptsRun accepts run w"
    by (simp add: markFollowupRunEnqueued_def acceptsRun_def w3_def runs w1_def split: option.split)
  have skip: "undroppable w4 Q = undroppable w1 Q"
    by (simp add: undroppable_def fun_eq_iff w4_def w3_def runs)
  have "fwQueueObjects w4 q = Q" by (simp add: w4_def w3_def Q)
  then have pol: "fst (applyFollowupDropPolicy q w4) = hasRoom position run w Q"
    using applyFollowupDropPolicy_eq [of w4 q] queueInv_cap [OF Q(2)]
    by (auto simp: hasRoom_def skip w1_def split: prod.split)
  have full: "dropPolicy Q = DropNew \<and> js_positive (cap Q) \<and>
      \<not> js_count_less (countPendingQueueItems (items Q) (Some (fqInFlight Q))) (cap Q) \<Longrightarrow>
      \<not> hasRoom position run w Q"
    using dropNew_full [OF queueInv_cap [OF Q(2)]] by (auto simp: hasRoom_def)
  have mw: "markFollowupRunEnqueued accepts run w3 = (acceptsRun accepts run w, w4)"
    by (simp add: w4_def mark [symmetric])
  have dedupe: "shouldSkipQueueItem run (items (fwQueueObjects w3 q))
      (if dm = DedupeNone then None else Some (isRunAlreadyQueued slack (fwRuns w3) (dm = DedupePrompt))) \<longleftrightarrow>
      dm \<noteq> DedupeNone \<and> isRunAlreadyQueued slack (fwRuns w1) (dm = DedupePrompt) run (items Q)"
    by (simp add: shouldSkipQueueItem_def w3_def Q(1) runs)
  show ?thesis
    unfolding enqueueFollowupRun_def protectedRun_def [symmetric] w1_def [symmetric] Let_def split_def
      q_def [symmetric] w2_def [symmetric] rk_def [symmetric] rc_def [symmetric] w3_def [symmetric] dedupe mw
    using seen pol full by (auto simp: Q(1) w3_def split: bool.split)
qed

section \<open>Worlds\<close>

definition sampleExecution :: execution where
  "sampleExecution = \<lparr>exAgentId = [], exSessionId = [], exSessionKey = None,
     exRuntimePolicySessionKey = None, exMessageProvider = None, exClientCaps = None,
     exChatType = None, exAgentAccountId = None, exGroupId = None, exGroupChannel = None,
     exGroupSpace = None, exSpawnedBy = None, exSenderId = None, exChannelContext = None,
     exSenderName = None, exSenderUsername = None, exSenderE164 = None, exSenderIsOwner = False,
     exTraceAuthorized = False, exApprovalReviewerDeviceId = None, exSessionFile = [],
     exProvider = [], exModel = [], exHasSessionModelOverride = None, exModelOverrideSource = None,
     exHasAutoFallbackProvenance = None, exAuthProfileId = None, exAuthProfileIdSource = None,
     exThinkLevel = None, exElevatedLevel = None, exExecOverrides = None, exBashElevated = None,
     exBlockReplyBreak = [], exInputProvenance = None, exExtraSystemPrompt = None,
     exSourceReplyDeliveryMode = None, exTaskSuggestionDeliveryMode = None,
     exSilentReplyPromptMode = None, exExtraSystemPromptStatic = None, exEnforceFinalTag = False,
     exSkipProviderRuntimeHints = False, exSilentExpected = False,
     exAllowEmptyAssistantReplyAsSilent = False, exSuppressNextUserMessagePersistence = False,
     exSuppressTranscriptOnlyAssistantPersistence = False\<rparr>"

definition sampleRun :: "ref \<Rightarrow> followup_run" where
  "sampleRun r = \<lparr>frPrompt = [], frTranscriptPrompt = None, frCurrentInboundEventKind = None,
     frCurrentInboundAudio = False, frAbortSignal = None, frQueueAbortSignal = None,
     frQueuedLifecycle = Some r, frMessageId = Some ''m'', frSummaryLine = None,
     frDisableCollectBatching = False, frProtectFromQueueOverflow = False, frEnqueuedAt = 0,
     frOriginatingChannel = None, frOriginatingTo = None, frOriginatingChatId = None,
     frOriginatingAccountId = None, frOriginatingThreadId = None, frOriginatingReplyToId = None,
     frOriginatingReplyToMode = None, frOriginatingChatType = None, frRun = r\<rparr>"

definition sampleSettings :: "queue_drop_policy \<Rightarrow> queue_mode queue_settings" where
  "sampleSettings policy = \<lparr>set_mode = Collect, set_debounceMs = None, set_cap = Some (Finite 3),
     set_dropPolicy = Some policy\<rparr>"

definition sampleQueue :: "queue_drop_policy \<Rightarrow> ref list \<Rightarrow> followup_queue" where
  "sampleQueue policy rs = (newFollowupQueue 91 (sampleSettings policy))\<lparr>items := rs\<rparr>"

definition sampleWorld :: "followup_queue \<Rightarrow> followup_world" where
  "sampleWorld Q = \<lparr>fwRuns = sampleRun, fwExecutions = (\<lambda>_. sampleExecution),
     fwLifecycles = (\<lambda>_. \<lparr>qlOwnerKey = None, qlOnAdmitted = False\<rparr>), fwQueueObjects = (\<lambda>_. Q),
     fwNext = 100, fwAborted = {}, fwEnqueued = {}, fwAdmitted = {}, fwAdmitting = {},
     fwFinishAfterAdmission = {}, fwRetired = {}, fwCompleted = {}, fwCompletedCallbacks = {},
     fwRetirements = [], fwCompletions = [], fwQueues = [(''k'', 90)], fwDrainCallbacks = [],
     fwStartedDrains = [], fwRecentMessageIds = []\<rparr>"

lemmas sample_defs = sampleRun_def sampleSettings_def sampleQueue_def sampleWorld_def
  newFollowupQueue_def

lemma sampleQueue_ok: "queueInv (sampleQueue policy rs)"
  by (simp add: sample_defs queueInv_def accounted_def elisionsOk_def capOk_settingCap capOk_default)

lemma sampleWorld_ok: "queueInv Q \<Longrightarrow> worldInv (sampleWorld Q)"
  by (simp add: worldInv_def sampleWorld_def jm_get_def)

lemmas sample_ok = sampleWorld_ok [OF sampleQueue_ok]

lemma sample_cap [simp]: "cap (sampleQueue policy rs) = Finite 3"
  by (simp add: sample_defs settingCap_def)

lemma sample_items [simp]: "items (sampleQueue policy rs) = rs"
  by (simp add: sampleQueue_def)

lemma sample_trim:
  assumes "fqSummaryElisions Q = []"
  shows "trimQueue Q = Q"
proof -
  have "overCap 0 c = 0" for c by (simp add: overCap_def split: js_number.split)
  then show ?thesis using assms by (simp add: trimQueue_def Let_def idleSources_length idleOf_def)
qed

text \<open>The queue is registered under its key and has the settings.\<close>

lemma sample_queueAt [simp]:
  "queueAt (sampleWorld (sampleQueue policy rs)) ''k'' (sampleSettings policy) = sampleQueue policy rs"
proof -
  have "applySettings (sampleSettings policy) (sampleQueue policy rs) = sampleQueue policy rs"
    by (simp add: sample_defs applySettings_def applyQueueRuntimeSettings_def settingCap_def settingDebounce_def)
  moreover have "trimQueue (sampleQueue policy rs) = sampleQueue policy rs"
    by (rule sample_trim) (simp add: sample_defs)
  ultimately show ?thesis by (simp add: queueAt_def sampleWorld_def jm_get_def)
qed

lemma sample_enqueue:
  fixes slack :: "string option \<Rightarrow> bool"
  assumes "hasRoom position run (sampleWorld (sampleQueue policy rs)) (sampleQueue policy rs)"
    and "dm = DedupeNone \<or> dm = DedupeMessageId \<and> rs = []" and "\<forall>r. accepts r"
  shows "fst (enqueueFollowupRun slack accepts now ''k'' run (sampleSettings policy) dm cb restart position
    (sampleWorld (sampleQueue policy rs)))"
proof -
  define w where "w = sampleWorld (sampleQueue policy rs)"
  have "\<not> isFollowupRunAborted w run" "acceptsRun accepts run w"
    using assms(3) by (simp_all add: w_def isFollowupRunAborted_def signalAborted_def acceptsRun_def
        sampleWorld_def sampleRun_def)
  moreover have "\<not> seenRecently dm now ''k'' run w"
    by (simp add: w_def seenRecently_def sampleWorld_def peekKey_def hasUnexpired_def jm_get_def
        split: option.split)
  moreover have "\<not> isRunAlreadyQueued slack runs b run []" for runs b
    by (simp add: isRunAlreadyQueued_def Let_def split: option.split)
  ultimately show ?thesis
    using assms enqueue_admits_iff [OF sample_ok, where key = "''k''" and settings = "sampleSettings policy"]
    unfolding w_def by auto
qed

text \<open>The run 4 joins the runs 1, 2 and 3; the oldest one makes room.\<close>

abbreviation sampleOverflow :: "queue_drop_policy \<Rightarrow> bool \<times> followup_world" where
  "sampleOverflow policy \<equiv>
     enqueueFollowupRun (\<lambda>_. False) (\<lambda>_. True) 5 ''k'' 4 (sampleSettings policy) DedupeNone None False AtTail
       (sampleWorld (sampleQueue policy [1, 2, 3]))"

lemma sample_room:
  assumes "policy \<noteq> DropNew"
  shows "hasRoom AtTail 4 (sampleWorld (sampleQueue policy [1, 2, 3])) (sampleQueue policy [1, 2, 3])"
    and "dropNeeded (sampleQueue policy [1, 2, 3]) = 1"
  using assms by (simp_all add: hasRoom_def dropNeeded_def undroppable_def protectedRun_def sample_defs
      countPendingQueueItems_def settingCap_def)

lemma sample_overflow:
  "policy \<noteq> DropNew \<Longrightarrow> sampleOverflow policy = (True, snd (sampleOverflow policy))"
  using sample_enqueue [where dm = DedupeNone and rs = "[1, 2, 3]" and run = 4] sample_room
  by (simp add: prod_eq_iff)

end
