(* ===== verification/FollowupSummaries.thy ===== *)
theory FollowupSummaries
  imports FollowupDrain FollowupSamples
begin

text \<open>
  Summaries of dropped runs on their way out: the accounts of the queue under every step of a
  delivery, and what becomes of a source that is elided while a delivery of its entry is awaited.
\<close>

section \<open>Consuming a delivery\<close>

lemma retire_sel [simp]:
  "fwRuns (retireFollowupRunCancellation r w) = fwRuns w"
  "fwQueueObjects (retireFollowupRunCancellation r w) = fwQueueObjects w"
  "fwCompleted (retireFollowupRunCancellation r w) = fwCompleted w"
  "fwQueues (retireFollowupRunCancellation r w) = fwQueues w"
  "fwNext (retireFollowupRunCancellation r w) = fwNext w"
  by (simp_all add: retireFollowupRunCancellation_def split: option.split)

lemma retire_all_sel [simp]:
  "fwRuns (fold retireFollowupRunCancellation rs w) = fwRuns w"
  "fwQueueObjects (fold retireFollowupRunCancellation rs w) = fwQueueObjects w"
  "fwCompleted (fold retireFollowupRunCancellation rs w) = fwCompleted w"
  "fwQueues (fold retireFollowupRunCancellation rs w) = fwQueues w"
  "fwNext (fold retireFollowupRunCancellation rs w) = fwNext w"
  by (induction rs arbitrary: w) simp_all

lemma find_index_first: "P x \<Longrightarrow> find_index P (x # xs) = Some 0"
  by simp

lemma find_index_absent: "x \<notin> set xs \<Longrightarrow> find_index (\<lambda>s. s = x) xs = None"
  by (auto simp: find_index_None)

text \<open>The elided sources of the only entry are consumed one by one.\<close>

definition entryLeft :: "summary_elision \<Rightarrow> ref list \<Rightarrow> followup_queue \<Rightarrow> followup_queue" where
  "entryLeft entry late Q =
     Q\<lparr>fqSummaryElisions := [entry\<lparr>elSources := late, elCount := length late\<rparr>]\<rparr>"

lemma consumeSources_entry:
  assumes "fqSummaryElisions (fwQueueObjects w q) = [entry\<lparr>elSources := E @ late, elCount := length (E @ late)\<rparr>]"
    and "late \<noteq> []" "\<forall>s \<in> set E. jm_get (elSourceRefs entry) s = None"
    and "set E \<inter> set (fqSummarySources (fwQueueObjects w q)) = {}"
  shows "consumeSources q False E (n, w) = (n + length E, setQueueObject q (entryLeft entry late) w)"
  using assms
proof (induction E arbitrary: n w)
  case Nil
  then show ?case by (simp add: setQueueObject_id entryLeft_def)
next
  case (Cons s E)
  define Q where "Q = fwQueueObjects w q"
  let ?entry = "entry\<lparr>elSources := E @ late, elCount := length (E @ late)\<rparr>"
  have "find_index (\<lambda>x. x = s) (fqSummarySources Q) = None"
    using Cons.prems(4) by (intro find_index_absent) (simp add: Q_def)
  moreover have "fqSummaryElisions Q = [entry\<lparr>elSources := (s # E) @ late, elCount := length ((s # E) @ late)\<rparr>]"
    using Cons.prems(1) by (simp add: Q_def)
  ultimately have one: "consumeSource s Q = (1, Q\<lparr>fqSummaryElisions := [?entry]\<rparr>)"
    using Cons.prems(2,3)
    by (simp add: consumeSource_def find_index_first spliceAt_def updateElision_def Let_def)
  define w1 where "w1 = setQueueObject q (\<lambda>_. Q\<lparr>fqSummaryElisions := [?entry]\<rparr>) w"
  have "consumeSources q False E (n + 1, w1) =
      (n + 1 + length E, setQueueObject q (entryLeft entry late) w1)"
    by (rule Cons.IH) (use Cons.prems in \<open>simp_all add: w1_def Q_def\<close>)
  moreover have "setQueueObject q (entryLeft entry late) w1 = setQueueObject q (entryLeft entry late) w"
    by (simp add: w1_def setQueueObject_def entryLeft_def Q_def)
  ultimately show ?case
    using one by (simp add: Q_def [symmetric] w1_def)
qed

lemma trim_nothing:
  assumes "overCap (idleSources (fwQueueObjects w q)) (cap (fwQueueObjects w q)) = 0"
    and "capOk (cap (fwQueueObjects w q))"
  shows "trimSummaryElisionsToCap q w = w"
  using assms by (simp add: trimSummaryElisionsToCap_eq trimmedRuns_def trimQueue_def setQueueObject_id)

lemma overCap_mono: "m \<le> n \<Longrightarrow> overCap n c = 0 \<Longrightarrow> overCap m c = 0"
  by (auto simp: overCap_def split: js_number.splits)

lemma summaryRunFinally_idle:
  assumes "overCap (length (elidedSources (fqSummaryElisions (fwQueueObjects w q)))) (cap (fwQueueObjects w q)) = 0"
    and "capOk (cap (fwQueueObjects w q))"
  shows "\<exists>B. summaryRunFinally q deferred inherited protected w =
    setQueueObject q (\<lambda>Q. Q\<lparr>fqActiveSummarySources := B\<rparr>) w"
proof -
  define v where "v B = setQueueObject q (\<lambda>Q. Q\<lparr>fqActiveSummarySources := B Q\<rparr>) w"
    for B :: "followup_queue \<Rightarrow> ref set"
  have idle: "idleSources (fwQueueObjects (v B) q) \<le> length (elidedSources (fqSummaryElisions (fwQueueObjects w q)))"
    for B
    by (simp add: v_def idleSources_length idleOf_def)
  have "trimSummaryElisionsToCap q (v B) = v B" for B
    by (rule trim_nothing, rule overCap_mono [OF idle]) (use assms in \<open>simp_all add: v_def\<close>)
  then show ?thesis
    by (auto simp: summaryRunFinally_def Let_def v_def intro: setQueueObject_cong)
qed

lemma admitted_entry:
  fixes delivery :: summary_delivery
  assumes "fqSummaryElisions (fwQueueObjects w q) = [entry]" "elSources entry = E @ late"
    "elCount entry = length (elSources entry)" "\<forall>s \<in> set E. jm_get (elSourceRefs entry) s = None"
    and "late \<noteq> []" "E \<noteq> []" "set E \<inter> set (fqSummarySources (fwQueueObjects w q)) = {}"
  defines "w1 \<equiv> summaryRunAdmitted q delivery E w"
  shows "fwQueueObjects w1 q = (entryLeft entry late (fwQueueObjects w q))
      \<lparr>droppedCount := droppedCount (fwQueueObjects w q) - length E\<rparr>"
    and "fwRuns w1 = fwRuns w" "fwCompleted w1 = fwCompleted w"
proof -
  have "entry = entry\<lparr>elSources := E @ late, elCount := length (E @ late)\<rparr>"
    using assms(2,3) by simp
  then have "consumeSources q False E (0, w) = (length E, setQueueObject q (entryLeft entry late) w)"
    using consumeSources_entry [where w = w and q = q and entry = entry and E = E and late = late and n = 0]
      assms(1,4,5,7) by simp
  then show "fwQueueObjects w1 q = (entryLeft entry late (fwQueueObjects w q))
      \<lparr>droppedCount := droppedCount (fwQueueObjects w q) - length E\<rparr>"
    "fwRuns w1 = fwRuns w" "fwCompleted w1 = fwCompleted w"
    using assms(6) by (simp_all add: w1_def summaryRunAdmitted_def Let_def
        consumeQueueSummaryDelivery_def entryLeft_def)
qed

text \<open>
  C34. While a summary of elided runs waits for its admission, further runs are elided into the same
  entry (\<open>late\<close>).  The admission takes the delivered runs out of the entry, and the end of the
  delivery takes out as many again: late runs that were in no summary leave the queue, completed.
\<close>

theorem late_elided_summary_is_lost:
  fixes w :: followup_world and run :: elided_run and inherited :: "ref list"
  assumes entry: "fqSummaryElisions (fwQueueObjects w q) = [entry]" "elId entry = erEntryId run"
      "elSources entry = erElidedSources run @ late" "elCount entry = length (elSources entry)"
      "distinct (elSources entry)" "\<forall>s \<in> set (erElidedSources run). jm_get (elSourceRefs entry) s = None"
    and late: "late \<noteq> []" "overCap (length late) (cap (fwQueueObjects w q)) = 0"
      "capOk (cap (fwQueueObjects w q))"
    and run: "erElidedSources run \<noteq> []" "sdSources (erDelivery run) = []"
      "set (erElidedSources run) \<inter> set (fqSummarySources (fwQueueObjects w q)) = {}"
  defines "w1 \<equiv> summaryRunAdmitted q (erDelivery run) (erProtected run) w"
  defines "w2 \<equiv> snd (summaryRunEnd q (erDelivery run) inherited (erProtected run) True RunOk w1)"
  defines "w3 \<equiv> drainElidedEnd q run w2"
    and "n \<equiv> min (length (erElidedSources run)) (length late)"
  shows "fst (summaryRunEnd q (erDelivery run) inherited (erProtected run) True RunOk w1) = Some True \<and>
    0 < n \<and> set (take n late) \<inter> set (erProtected run) = {} \<and>
    elidedSources (fqSummaryElisions (fwQueueObjects w3 q)) = drop n late \<and>
    fqSummarySources (fwQueueObjects w3 q) = fqSummarySources (fwQueueObjects w q) \<and>
    lifecyclesOf w (take n late) \<subseteq> fwCompleted w3 \<and>
    droppedCount (fwQueueObjects w3 q) =
      droppedCount (fwQueueObjects w q) - length (erElidedSources run) - n"
proof -
  define Q where "Q = fwQueueObjects w q"
  define E where "E = erElidedSources run"
  have prot: "erProtected run = E" using run(2) by (simp add: erProtected_def E_def)
  note w1 = admitted_entry [OF entry(1,3,4,6) late(1) run(1,3), folded E_def, where delivery = "erDelivery run",
      folded prot, folded w1_def, folded Q_def, unfolded prot]
  have end_w: "summaryRunEnd q (erDelivery run) inherited E True RunOk w1 =
      (Some True, summaryRunFinally q False inherited E w1)"
    by (simp add: summaryRunEnd_def Let_def)
  obtain B where "summaryRunFinally q False inherited E w1 =
      setQueueObject q (\<lambda>Q. Q\<lparr>fqActiveSummarySources := B\<rparr>) w1"
    using summaryRunFinally_idle [of w1 q False inherited E] late(2,3) w1(1)
    by (auto simp: entryLeft_def Q_def)
  then have w2: "w2 = setQueueObject q (\<lambda>Q. Q\<lparr>fqActiveSummarySources := B\<rparr>) w1"
    by (simp add: w2_def prot end_w)
  have n: "min (length E) (length late) = n" by (simp add: n_def E_def)
  have w3: "w3 = setQueueObject q (\<lambda>Q. Q\<lparr>
      fqSummaryElisions := updateElision 0 (drop n late) (fqSummaryElisions Q),
      droppedCount := droppedCount Q - n\<rparr>) (fold completeFollowupRunLifecycle (take n late) w2)"
    using entry(2) by (simp add: w3_def drainElidedEnd_def w2 w1 entryLeft_def Let_def n E_def [symmetric])
  have "set (take n late) \<inter> set E = {}"
    using entry(3,5) set_take_subset [of n late] by (auto simp: E_def)
  moreover have "0 < n" using run(1) late(1) by (simp add: n_def)
  moreover have "lifecyclesOf w (take n late) \<subseteq> fwCompleted w3"
    by (auto simp: w3 lifecyclesOf_def w2 w1)
  ultimately show ?thesis
    by (simp add: end_w prot w3 w2 w1 entryLeft_def updateElision_def Q_def [symmetric] E_def [symmetric])
qed


text \<open>The runs 1 and 2 are being delivered when 3 and 4 join their entry: both are lost.\<close>

theorem late_elided_summary_is_lost_witness:
  "let delivery = \<lparr>sdPrompt = [], sdDroppedCount = 0, sdSources = []\<rparr>;
       run = \<lparr>erEntryId = 9, erElidedSources = [1, 2], erDelivery = delivery, erSource = 2\<rparr>;
       w = sampleWorld ((sampleQueue Summarize [])\<lparr>droppedCount := 4, fqSummaryElisions :=
         [\<lparr>elId = 9, elContextKey = [], elCount = 4, elSources = [1, 2, 3, 4], elSourceRefs = []\<rparr>]\<rparr>);
       w1 = summaryRunAdmitted 90 delivery [1, 2] w;
       w2 = snd (summaryRunEnd 90 delivery [] [1, 2] True RunOk w1);
       w3 = drainElidedEnd 90 run w2
   in elidedSources (fqSummaryElisions (fwQueueObjects w3 90)) = [] \<and> {3, 4} \<subseteq> fwCompleted w3 \<and>
      droppedCount (fwQueueObjects w3 90) = 0"
proof -
  let ?run = "\<lparr>erEntryId = 9, erElidedSources = [1, 2],
    erDelivery = \<lparr>sdPrompt = [], sdDroppedCount = 0, sdSources = []\<rparr>, erSource = 2\<rparr> :: elided_run"
  define entry where "entry = \<lparr>elId = 9, elContextKey = [], elCount = 4, elSources = [1, 2, 3, 4], elSourceRefs = []\<rparr>"
  define w where "w = sampleWorld ((sampleQueue Summarize [])\<lparr>droppedCount := 4, fqSummaryElisions := [entry]\<rparr>)"
  have "fqSummaryElisions (fwQueueObjects w 90) = [entry]" "cap (fwQueueObjects w 90) = Finite (of_nat 3)"
    "fqSummarySources (fwQueueObjects w 90) = []" "droppedCount (fwQueueObjects w 90) = 4"
    by (simp_all add: w_def sampleWorld_def sampleQueue_def newFollowupQueue_def settingCap_def sampleSettings_def)
  moreover have "lifecyclesOf w [3, 4] = {3, 4}" by (auto simp: lifecyclesOf_def w_def sample_defs)
  moreover have "capOk (Finite (of_nat 3))" unfolding capOk_def by blast
  ultimately show ?thesis
    using late_elided_summary_is_lost [of w 90 entry ?run "[3, 4]"]
    unfolding Let_def entry_def [symmetric] w_def [symmetric]
    by (simp add: erProtected_def entry_def jm_get_def overCap_def)
qed


section \<open>The accounts under every step of a delivery\<close>

definition queueInvBut :: "nat \<Rightarrow> followup_queue \<Rightarrow> bool" where
  "queueInvBut n Q \<longleftrightarrow> queueInv (Q\<lparr>droppedCount := droppedCount Q - n\<rparr>) \<and> n \<le> droppedCount Q"

lemma queueInvBut_iff:
  "queueInvBut n Q \<longleftrightarrow> capOk (cap Q) \<and> elisionsOk (fqSummaryElisions Q) \<and>
     droppedCount Q = n + length (fqSummarySources Q) + length (elidedSources (fqSummaryElisions Q))
       + fqEvictedSummaryCount Q \<and> length (summaryLines Q) = length (fqSummarySources Q)"
  by (auto simp: queueInvBut_def queueInv_def accounted_def)

lemma queueInvBut_0: "queueInvBut 0 Q = queueInv Q"
  by (simp add: queueInvBut_def)

lemma queueInvBut_pay: "queueInvBut n Q \<Longrightarrow> queueInv (Q\<lparr>droppedCount := droppedCount Q - n\<rparr>)"
  by (simp add: queueInvBut_def)

lemma elided_at:
  "j < length es \<Longrightarrow> elidedSources es =
     elidedSources (take j es) @ elSources (es ! j) @ elidedSources (drop (Suc j) es)"
  by (metis elidedSources_simps(2,3) id_take_nth_drop)

lemma updateElision_account:
  assumes "j < length es" "elisionsOk es"
  shows "length (elidedSources (updateElision j ss es)) + length (elSources (es ! j)) =
      length (elidedSources es) + length ss"
    and "elisionsOk (updateElision j ss es)"
proof -
  have "elidedSources (updateElision j ss es) =
      elidedSources (take j es) @ ss @ elidedSources (drop (Suc j) es)"
    using assms(1) by (simp add: updateElision_def upd_conv_take_nth_drop)
  then show "length (elidedSources (updateElision j ss es)) + length (elSources (es ! j)) =
      length (elidedSources es) + length ss"
    using elided_at [OF assms(1)] by simp
  show "elisionsOk (updateElision j ss es)"
    using assms by (auto simp: elisionsOk_def list_all_iff updateElision_def upd_conv_take_nth_drop
        dest: in_set_takeD in_set_dropD)
qed

lemma elisionsOk_nth: "elisionsOk es \<Longrightarrow> j < length es \<Longrightarrow> elSources (es ! j) \<noteq> []"
  by (simp add: elisionsOk_def list_all_length)

lemma length_spliceAt:
  "xs \<noteq> [] \<Longrightarrow> (\<And>i. k = Some i \<Longrightarrow> i < length xs) \<Longrightarrow> Suc (length (spliceAt k xs)) = length xs"
  by (cases k) (auto simp: spliceAt_def)

lemma consumeSource_account:
  assumes inv: "queueInvBut n Q" and step: "consumeSource s Q = (k, Q')"
  shows "queueInvBut (n + k) Q'"
proof (cases "find_index (\<lambda>x. x = s) (fqSummarySources Q)")
  case (Some i)
  then have "i < length (fqSummarySources Q)" using find_index_Some by blast
  moreover from this have "i < length (summaryLines Q)" using inv by (simp add: queueInvBut_iff)
  ultimately have "Suc (length (spliceAt (Some i) (fqSummarySources Q))) = length (fqSummarySources Q)"
    "Suc (length (spliceAt (Some i) (summaryLines Q))) = length (summaryLines Q)"
    by (auto simp: spliceAt_def)
  with Some inv step show ?thesis by (auto simp: consumeSource_def queueInvBut_iff)
next
  case None
  show ?thesis
  proof (cases "find_index (\<lambda>e. s \<in> set (elSources e) \<or> jm_get (elSourceRefs e) s \<noteq> None) (fqSummaryElisions Q)")
    case None2: None
    with None inv step show ?thesis by (simp add: consumeSource_def)
  next
    case (Some j)
    then have j: "j < length (fqSummaryElisions Q)" using find_index_Some by blast
    define e where "e = fqSummaryElisions Q ! j"
    define ss where "ss = spliceAt (find_index (\<lambda>x. x = nullish (jm_get (elSourceRefs e) s) s) (elSources e)) (elSources e)"
    have ok: "elisionsOk (fqSummaryElisions Q)" using inv by (simp add: queueInvBut_iff)
    have "elSources e \<noteq> []" unfolding e_def using elisionsOk_nth [OF ok j] .
    then have "Suc (length ss) = length (elSources e)"
      unfolding ss_def by (rule length_spliceAt) (use find_index_Some in blast)
    moreover have "(k, Q') = (1, Q\<lparr>fqSummaryElisions := updateElision j ss (fqSummaryElisions Q)\<rparr>)"
      using None Some step by (simp add: consumeSource_def Let_def ss_def e_def)
    ultimately show ?thesis
      using inv updateElision_account [OF j ok, of ss] by (auto simp: queueInvBut_iff e_def)
  qed
qed

text \<open>The other queue objects and the table of queues keep still.\<close>

definition onlyQueue :: "ref \<Rightarrow> followup_world \<Rightarrow> followup_world \<Rightarrow> bool" where
  "onlyQueue q w w' \<longleftrightarrow> (\<forall>p. p \<noteq> q \<longrightarrow> fwQueueObjects w' p = fwQueueObjects w p) \<and>
     fwQueues w' = fwQueues w \<and> fwNext w \<le> fwNext w'"

lemma onlyQueue_trans: "onlyQueue q u v \<Longrightarrow> onlyQueue q v w \<Longrightarrow> onlyQueue q u w"
  by (simp add: onlyQueue_def)

lemma consumeSources_account:
  assumes "queueInvBut n (fwQueueObjects w q)" "consumeSources q c ss (n, w) = (m, w')"
  shows "queueInvBut m (fwQueueObjects w' q) \<and> onlyQueue q w w'"
  using assms
proof (induction ss arbitrary: n w)
  case (Cons s ss)
  obtain k Q where one: "consumeSource s (fwQueueObjects w q) = (k, Q)" by fastforce
  define w1 where "w1 = (if c then completeFollowupRunLifecycle s (setQueueObject q (\<lambda>_. Q) w)
      else setQueueObject q (\<lambda>_. Q) w)"
  have "consumeSources q c ss (n + k, w1) = (m, w')" using Cons.prems(2) one by (cases c) (simp_all add: w1_def Let_def)
  moreover have "queueInvBut (n + k) (fwQueueObjects w1 q)"
    using consumeSource_account [OF Cons.prems(1) one] by (simp add: w1_def)
  moreover have "onlyQueue q w w1" by (simp add: onlyQueue_def w1_def)
  ultimately show ?case using Cons.IH [of "n + k" w1] onlyQueue_trans by blast
qed (simp add: onlyQueue_def)

lemma consumeDelivery_account:
  fixes c :: bool
  assumes "queueInv (fwQueueObjects w q)" "sdSources d = [] \<Longrightarrow> sdDroppedCount d = 0"
  defines "w' \<equiv> consumeQueueSummaryDelivery q d c w"
  shows "queueInv (fwQueueObjects w' q) \<and> onlyQueue q w w'"
proof -
  obtain m w1 where run: "consumeSources q c (sdSources d) (0, w) = (m, w1)" by fastforce
  have initial: "(if sdSources d = [] then sdDroppedCount d else 0) = 0" using assms(2) by simp
  have "w' = setQueueObject q (\<lambda>Q. Q\<lparr>droppedCount := droppedCount Q - m\<rparr>) w1"
    unfolding w'_def consumeQueueSummaryDelivery_def Let_def initial run prod.case by (rule refl)
  moreover have "queueInvBut m (fwQueueObjects w1 q)" "onlyQueue q w w1"
    using consumeSources_account [OF _ run] assms(1) by (simp_all add: queueInvBut_0)
  ultimately show ?thesis by (simp add: queueInvBut_pay onlyQueue_def)
qed

lemma releaseSource_account:
  "queueInv (fwQueueObjects w q) \<Longrightarrow>
   queueInv (fwQueueObjects (releaseSource q s w) q) \<and> onlyQueue q w (releaseSource q s w)"
  by (auto simp: releaseSource_def Let_def split_def queueInv_def accounted_def onlyQueue_def
      split: option.split)

lemma release_account:
  "queueInv (fwQueueObjects w q) \<Longrightarrow>
   queueInv (fwQueueObjects (releaseQueueSummaryDeliveryForRetry q d w) q) \<and>
   onlyQueue q w (releaseQueueSummaryDeliveryForRetry q d w)"
proof -
  have "queueInv (fwQueueObjects w q) \<Longrightarrow>
      queueInv (fwQueueObjects (fold (releaseSource q) ss w) q) \<and> onlyQueue q w (fold (releaseSource q) ss w)" for ss
  proof (induction ss arbitrary: w)
    case (Cons s ss)
    from releaseSource_account [OF Cons.prems, of s] Cons.IH [of "releaseSource q s w"]
    show ?case using onlyQueue_trans by (auto simp: onlyQueue_def)
  qed (simp add: onlyQueue_def)
  then show "queueInv (fwQueueObjects w q) \<Longrightarrow>
     queueInv (fwQueueObjects (releaseQueueSummaryDeliveryForRetry q d w) q) \<and>
     onlyQueue q w (releaseQueueSummaryDeliveryForRetry q d w)"
    by (simp add: releaseQueueSummaryDeliveryForRetry_def)
qed

lemma dropAbortedSources_account:
  assumes "queueInv (fwQueueObjects w q)" "i \<le> length (fqSummarySources (fwQueueObjects w q))"
  shows "queueInv (fwQueueObjects (snd (dropAbortedSources q i (n, w))) q) \<and>
    onlyQueue q w (snd (dropAbortedSources q i (n, w)))"
  using assms
proof (induction i arbitrary: n w)
  case (Suc i)
  define Q where "Q = fwQueueObjects w q"
  show ?case
  proof (cases "isFollowupRunAborted w (fqSummarySources Q ! i)")
    case False
    with Suc show ?thesis by (simp add: Q_def)
  next
    case True
    define w1 where "w1 = completeFollowupRunLifecycle (fqSummarySources Q ! i)
        (setQueueObject q (\<lambda>Q. Q\<lparr>fqSummarySources := spliceAt (Some i) (fqSummarySources Q),
           summaryLines := spliceAt (Some i) (summaryLines Q), droppedCount := droppedCount Q - 1\<rparr>) w)"
    have "i < length (fqSummarySources Q)" "i < length (summaryLines Q)"
      using Suc.prems by (simp_all add: queueInv_def Q_def)
    then have lens: "Suc (length (spliceAt (Some i) (fqSummarySources Q))) = length (fqSummarySources Q)"
      "Suc (length (spliceAt (Some i) (summaryLines Q))) = length (summaryLines Q)"
      by (auto simp: spliceAt_def)
    have "queueInv (fwQueueObjects w1 q)" "i \<le> length (fqSummarySources (fwQueueObjects w1 q))"
      using Suc.prems lens by (auto simp: w1_def queueInv_def accounted_def Q_def)
    moreover have "onlyQueue q w w1" by (simp add: w1_def onlyQueue_def)
    moreover have "dropAbortedSources q (Suc i) (n, w) = dropAbortedSources q i (Suc n, w1)"
      using True by (simp add: w1_def Q_def)
    ultimately show ?thesis using Suc.IH [of w1 "Suc n"] onlyQueue_trans by metis
  qed
qed (simp add: onlyQueue_def)


lemma dropAbortedElided_account:
  assumes inv: "queueInv (fwQueueObjects w q)"
  shows "queueInv (fwQueueObjects (dropAbortedElided q w) q) \<and> onlyQueue q w (dropAbortedElided q w)"
proof (cases "fqSummaryElisions (fwQueueObjects w q)")
  case Nil
  then show ?thesis using inv by (simp add: dropAbortedElided_def onlyQueue_def)
next
  case (Cons e es)
  have "length (elSources e) = length (filter (isFollowupRunAborted w) (elSources e)) +
      length (filter (\<lambda>s. \<not> isFollowupRunAborted w s) (elSources e))"
    using sum_length_filter_compl [of "isFollowupRunAborted w" "elSources e"] by simp
  with inv Cons show ?thesis
    by (auto simp: dropAbortedElided_def Let_def queueInv_def accounted_def elisionsOk_def onlyQueue_def)
qed

lemma drainElidedEnd_account:
  assumes inv: "queueInv (fwQueueObjects w q)"
  shows "queueInv (fwQueueObjects (drainElidedEnd q run w) q) \<and> onlyQueue q w (drainElidedEnd q run w)"
proof (cases "find_index (\<lambda>e. elId e = erEntryId run) (fqSummaryElisions (fwQueueObjects w q))")
  case None
  then show ?thesis using inv by (simp add: drainElidedEnd_def onlyQueue_def)
next
  case (Some j)
  define Q where "Q = fwQueueObjects w q"
  define n where "n = min (length (erElidedSources run)) (length (elSources (fqSummaryElisions Q ! j)))"
  have j: "j < length (fqSummaryElisions Q)" using find_index_Some [OF Some] by (simp add: Q_def)
  have Q': "fwQueueObjects (drainElidedEnd q run w) q = Q\<lparr>
      fqSummaryElisions := updateElision j (drop n (elSources (fqSummaryElisions Q ! j))) (fqSummaryElisions Q),
      droppedCount := droppedCount Q - n\<rparr>"
    using Some by (simp add: drainElidedEnd_def Let_def Q_def n_def)
  have "queueInv (fwQueueObjects (drainElidedEnd q run w) q)"
    using inv [folded Q_def] updateElision_account [OF j, of "drop n (elSources (fqSummaryElisions Q ! j))"]
    unfolding Q' by (auto simp: queueInv_def accounted_def n_def)
  moreover have "onlyQueue q w (drainElidedEnd q run w)"
    using Some by (simp add: drainElidedEnd_def Let_def onlyQueue_def)
  ultimately show ?thesis by simp
qed

lemma summaryRunFinally_account:
  "queueInv (fwQueueObjects w q) \<Longrightarrow>
   queueInv (fwQueueObjects (summaryRunFinally q d i p w) q) \<and> onlyQueue q w (summaryRunFinally q d i p w)"
proof -
  assume inv: "queueInv (fwQueueObjects w q)"
  define v where "v B = setQueueObject q (\<lambda>Q. Q\<lparr>fqActiveSummarySources := B Q\<rparr>) w"
    for B :: "followup_queue \<Rightarrow> ref set"
  have v: "queueInv (fwQueueObjects (v B) q)" for B
    using inv by (simp add: v_def queueInv_def accounted_def)
  have "queueInv (fwQueueObjects (trimSummaryElisionsToCap q (v B)) q) \<and>
      onlyQueue q w (trimSummaryElisionsToCap q (v B))" for B
    using queueInv_trim [OF v [of B]] queueInv_cap [OF v [of B]]
    by (simp add: trimSummaryElisionsToCap_eq onlyQueue_def) (simp add: v_def)
  then show ?thesis by (simp add: summaryRunFinally_def Let_def v_def)
qed

lemma summaryRunEnd_account:
  assumes "queueInv (fwQueueObjects w q)" "sdSources d = [] \<Longrightarrow> sdDroppedCount d = 0"
  shows "queueInv (fwQueueObjects (snd (summaryRunEnd q d i p admitted outcome w)) q) \<and>
    onlyQueue q w (snd (summaryRunEnd q d i p admitted outcome w))"
proof -
  define final where "final x v = summaryRunFinally q x i p v" for x v
  have fin: "queueInv (fwQueueObjects (final x v) q) \<and> onlyQueue q w (final x v)"
    if "queueInv (fwQueueObjects v q)" "onlyQueue q w v" for x v
    using summaryRunFinally_account [OF that(1)] that(2) onlyQueue_trans unfolding final_def by blast
  have base: "onlyQueue q w (fold completeFollowupRunLifecycle p w)" "onlyQueue q w w"
    by (simp_all add: onlyQueue_def)
  have "\<exists>x v. snd (summaryRunEnd q d i p admitted outcome w) = final x v \<and>
      queueInv (fwQueueObjects v q) \<and> onlyQueue q w v"
    unfolding summaryRunEnd_def Let_def final_def [symmetric]
    using assms base release_account [OF assms(1)] consumeDelivery_account [OF assms]
      consumeDelivery_account [of w q "d\<lparr>sdSources := filter (isFollowupRunAborted w) p\<rparr>" True]
    by (auto intro!: exI simp: onlyQueue_def)
  then show ?thesis using fin by metis
qed

lemma summaryRunAdmitted_account:
  assumes "queueInv (fwQueueObjects w q)" "p = [] \<Longrightarrow> sdDroppedCount d = 0"
  shows "queueInv (fwQueueObjects (summaryRunAdmitted q d p w) q) \<and> onlyQueue q w (summaryRunAdmitted q d p w)"
  using consumeDelivery_account [of w q "d\<lparr>sdSources := p\<rparr>" False] assms
  by (simp add: summaryRunAdmitted_def Let_def onlyQueue_def)

lemma drainElidedBegin_account:
  assumes "queueInv (fwQueueObjects w q)"
  shows "queueInv (fwQueueObjects (snd (drainElidedBegin slack q w)) q) \<and>
    onlyQueue q w (snd (drainElidedBegin slack q w))"
proof -
  have "snd (drainElidedBegin slack q w) = w \<or> snd (drainElidedBegin slack q w) = dropAbortedElided q w"
    by (auto simp: drainElidedBegin_def Let_def split: list.split option.split)
  then show ?thesis using dropAbortedElided_account [OF assms] assms by (auto simp: onlyQueue_def)
qed

lemma summaryStepBegin_account:
  assumes "queueInv (fwQueueObjects w q)"
  shows "queueInv (fwQueueObjects (snd (summaryStepBegin slack q w)) q) \<and>
    onlyQueue q w (snd (summaryStepBegin slack q w))"
proof -
  define w1 where "w1 = snd (dropAbortedQueueSummarySources q w)"
  have w1: "queueInv (fwQueueObjects w1 q)" "onlyQueue q w w1"
    using dropAbortedSources_account [OF assms order_refl] by (simp_all add: w1_def dropAbortedQueueSummarySources_def)
  define w2 where "w2 = setQueueObject q (\<lambda>Q. Q\<lparr>fqEvictedSummaryCount := 0,
      droppedCount := droppedCount Q - fqEvictedSummaryCount Q\<rparr>) w1"
  have w2: "queueInv (fwQueueObjects w2 q)" "onlyQueue q w w2"
    using w1 by (simp_all add: w2_def queueInv_def accounted_def onlyQueue_def)
  have w3: "queueInv (fwQueueObjects (snd (drainElidedBegin slack q w1)) q)"
    "onlyQueue q w (snd (drainElidedBegin slack q w1))"
    using drainElidedBegin_account [OF w1(1)] onlyQueue_trans [OF w1(2)] by blast+
  have "snd (summaryStepBegin slack q w) \<in> {w1, w2, snd (drainElidedBegin slack q w1)}"
    by (auto simp: summaryStepBegin_def Let_def split_def w1_def w2_def
        split: elided_begin.splits option.splits prod.splits)
  then show ?thesis using w1 w2 w3 by auto
qed

end
