(* ===== verification/FollowupClaims.thy ===== *)
theory FollowupClaims
  imports FollowupSamples
begin

text \<open>
  Properties of enqueueing follow-up replies, of the trimming of the elided summaries, of the
  duplicate keys and of clearing a session.
\<close>

section \<open>Enqueueing\<close>

lemma dropNeeded_cap:
  "cap Q = Finite (of_nat c) \<Longrightarrow> 0 < c \<Longrightarrow>
   dropNeeded Q = Suc (countPendingQueueItems (items Q) (Some (fqInFlight Q))) - c"
  by (simp add: dropNeeded_def)

lemma undroppable_inFlight: "i \<in> set (fqInFlight Q) \<Longrightarrow> undroppable w Q i"
  by (simp add: undroppable_def)

lemma evicted_pending:
  assumes "n \<le> length (filter (\<lambda>x. \<not> undroppable w Q x) (items Q))"
  shows "countPendingQueueItems (fst (evictFirst (undroppable w Q) n (items Q))) (Some (fqInFlight Q)) =
    countPendingQueueItems (items Q) (Some (fqInFlight Q)) - n"
proof -
  define P where "P = (\<lambda>x. x \<notin> set (fqInFlight Q))"
  have dropped: "snd (evictFirst (undroppable w Q) n (items Q)) =
      take n (filter (\<lambda>x. \<not> undroppable w Q x) (items Q))" by (rule evict_dropped)
  then have "filter P (snd (evictFirst (undroppable w Q) n (items Q))) =
      snd (evictFirst (undroppable w Q) n (items Q))"
    using undroppable_inFlight by (auto simp: P_def filter_id_conv dest!: in_set_takeD)
  moreover have "length (snd (evictFirst (undroppable w Q) n (items Q))) = n"
    using assms dropped by simp
  ultimately show ?thesis
    using length_evict [of P "undroppable w Q" n "items Q"] by (simp add: countPending_filter P_def)
qed

lemma countPending_withRun:
  "countPendingQueueItems (withRun position run xs) fl \<le> Suc (countPendingQueueItems xs fl)"
  by (simp add: withRun_def countPending_filter)

text \<open>
  When a run is admitted, no more than \<open>cap
\<close> runs wait in its queue.\<close>

theorem followup_depth_within_cap:
  assumes "worldInv w" and "js_trim key = key" "key \<noteq> []"
    and "enqueueFollowupRun slack accepts now key run settings dm cb restart position w = (True, w')"
    and "cap (queueAt w key settings) = Finite (of_nat c)" "0 < c"
  shows "getFollowupQueueDepth key w' \<le> c"
proof -
  define Q where "Q = queueAt w key settings"
  define n where "n = dropNeeded Q"
  obtain q where q: "jm_get (fwQueues w') key = Some q"
    and xs: "items (fwQueueObjects w' q) =
      withRun position run (fst (evictFirst (undroppable (protectedRun position run w) Q) n (items Q)))"
      "fqInFlight (fwQueueObjects w' q) = fqInFlight Q"
    and n: "n \<le> length (filter (\<lambda>x. \<not> undroppable (protectedRun position run w) Q x) (items Q))"
    using enqueue_accepted_queue [OF assms(1,4), folded Q_def n_def] by auto
  have "getFollowupQueueDepth key w' \<le> Suc (countPendingQueueItems (items Q) (Some (fqInFlight Q)) - n)"
    using countPending_withRun evicted_pending [OF n] assms(2,3) q xs
    by (simp add: getFollowupQueueDepth_def getExistingFollowupQueue_def) (metis)
  moreover have "n = Suc (countPendingQueueItems (items Q) (Some (fqInFlight Q))) - c"
    using dropNeeded_cap [of Q c] assms(5,6) by (simp add: n_def Q_def)
  ultimately show ?thesis using assms(6) by arith
qed

theorem followup_depth_within_cap_witness:
  "getFollowupQueueDepth ''k'' (snd (sampleOverflow Summarize)) \<le> 3"
  by (rule followup_depth_within_cap [OF sample_ok _ _ sample_overflow])
    (simp_all add: js_trim_def js_space_def)

text \<open>
  C15. Admitting a run drops, in the order they came, the oldest runs that are neither being
  delivered nor protected, as many as the cap asks for; all others keep their places, and the new
  run is at the end or, with priority, at the front.
\<close>

theorem followup_overflow_drops_oldest:
  assumes "worldInv w"
    and "enqueueFollowupRun slack accepts now key run settings dm cb restart position w = (True, w')"
  defines "Q \<equiv> queueAt w key settings"
  defines "skip \<equiv> undroppable (protectedRun position run w) Q"
  shows "\<exists>q kept. jm_get (fwQueues w') key = Some q \<and>
    items (fwQueueObjects w' q) = (if position = AtFront then run # kept else kept @ [run]) \<and>
    subseq kept (items Q) \<and> filter skip kept = filter skip (items Q) \<and>
    filter (\<lambda>x. \<not> skip x) kept = drop (dropNeeded Q) (filter (\<lambda>x. \<not> skip x) (items Q))"
proof -
  obtain q where "jm_get (fwQueues w') key = Some q" "items (fwQueueObjects w' q) =
      withRun position run (fst (evictFirst skip (dropNeeded Q) (items Q)))"
    using enqueue_accepted_queue [OF assms(1,2), folded Q_def, folded skip_def] by auto
  then show ?thesis
    using evict_subseq evict_keeps evict_rest unfolding withRun_def by blast
qed

theorem followup_overflow_drops_oldest_witness:
  "\<exists>q. jm_get (fwQueues (snd (sampleOverflow Summarize))) ''k'' = Some q \<and>
     items (fwQueueObjects (snd (sampleOverflow Summarize)) q) = [2, 3, 4]"
proof -
  let ?Q = "sampleQueue Summarize [1, 2, 3]"
  have "undroppable (protectedRun AtTail 4 (sampleWorld ?Q)) ?Q = (\<lambda>_. False)"
    by (simp add: fun_eq_iff undroppable_def protectedRun_def sample_defs)
  then show ?thesis
    using followup_overflow_drops_oldest [OF sample_ok sample_overflow, of Summarize] sample_room(2)
    by fastforce
qed

lemma settle_noop: "queueInv (fwQueueObjects w q) \<Longrightarrow> settleOverflow slack q w = w"
  by (simp add: settleOverflow_def elideOverflow_def queueInv_def setQueueObject_id Let_def)

lemma policy_refused:
  assumes "capOk (cap (fwQueueObjects w q))" "\<not> fst (applyFollowupDropPolicy q w)"
  shows "snd (applyFollowupDropPolicy q w) = w"
  using assms by (auto simp: applyFollowupDropPolicy_eq split_def split: if_splits)

lemma enqueue_rejected:
  assumes w: "worldInv w"
    and rej: "enqueueFollowupRun slack accepts now key run settings dm cb restart position w = (False, w')"
  shows "w' = w \<or> (fwQueueObjects w' = fwQueueObjects (snd (getFollowupQueue key settings (protectedRun position run w)))
    \<and> fwQueues w' = fwQueues (snd (getFollowupQueue key settings (protectedRun position run w)))
    \<and> fwNext w' = fwNext (snd (getFollowupQueue key settings (protectedRun position run w))))"
proof -
  define q where "q = fst (getFollowupQueue key settings (protectedRun position run w))"
  define w2 where "w2 = snd (getFollowupQueue key settings (protectedRun position run w))"
  define rk where "rk = (if dm = DedupeNone then None else buildRecentMessageIdKey (fwRuns w2 run) key)"
  define rc where "rc = (case rk of None \<Rightarrow> (False, fwRecentMessageIds w2)
       | Some k \<Rightarrow> peekKey RECENT_QUEUE_OPTIONS (Some k) now (fwRecentMessageIds w2))"
  define w3 where "w3 = w2\<lparr>fwRecentMessageIds := snd rc\<rparr>"
  define w4 where "w4 = snd (markFollowupRunEnqueued accepts run w3)"
  note shape = rej [unfolded enqueueFollowupRun_def, folded protectedRun_def, unfolded Let_def
      split_def, folded q_def w2_def, folded rk_def, folded rc_def, folded w3_def, folded settleOverflow_def]
  have inv2: "queueInv (fwQueueObjects w2 q)"
    using getQueue_eq [of "protectedRun position run w" key settings] w by (auto simp: q_def w2_def)
  have inv4: "queueInv (fwQueueObjects w4 q)" using inv2 by (simp add: w4_def w3_def)
  have pol: "settleOverflow slack q (snd (applyFollowupDropPolicy q w4)) = w4"
    if "\<not> fst (applyFollowupDropPolicy q w4)"
    using policy_refused [OF queueInv_cap [OF inv4] that] settle_noop [OF inv4] by simp
  have "w' = w \<or> w' = w3 \<or> w' = completeFollowupRunLifecycle run w3 \<or> w' = w4 \<or>
      w' = completeFollowupRunLifecycle run w4"
    using shape pol unfolding w4_def by (auto split: if_splits bool.splits prod.splits)
  then show ?thesis
    unfolding w2_def [symmetric] by (auto simp: w4_def w3_def)
qed

definition queuedRuns :: "followup_world \<Rightarrow> string \<Rightarrow> ref list" where
  "queuedRuns w key =
     (case jm_get (fwQueues w) key of None \<Rightarrow> [] | Some q \<Rightarrow> items (fwQueueObjects w q))"

text \<open>No queue object is registered under two keys.\<close>

definition separateQueues :: "followup_world \<Rightarrow> bool" where
  "separateQueues w \<longleftrightarrow>
     (\<forall>k k' q. jm_get (fwQueues w) k = Some q \<and> jm_get (fwQueues w) k' = Some q \<longrightarrow> k = k')"

text \<open>
  A run that is refused leaves every queue as it was.
\<close>

theorem followup_refusal_leaves_queues:
  assumes "worldInv w"
    and "separateQueues w"
    and "enqueueFollowupRun slack accepts now key run settings dm cb restart position w = (False, w')"
  shows "queuedRuns w' k = queuedRuns w k"
proof -
  define w1 where "w1 = protectedRun position run w"
  obtain q where q: "fwQueueObjects (snd (getFollowupQueue key settings w1)) =
        (fwQueueObjects w1)(q := queueAt w key settings)"
      "jm_get (fwQueues (snd (getFollowupQueue key settings w1))) = (jm_get (fwQueues w1))(key := Some q)"
    and new: "jm_get (fwQueues w) key = None \<longrightarrow> q = Suc (fwNext w)"
    and old: "\<forall>p. jm_get (fwQueues w) key = Some p \<longrightarrow> p = q"
    using getQueue_eq [of w1 key settings] assms(1)
    by (auto simp: w1_def getFollowupQueue_def)
  have "items (queueAt w key settings) = queuedRuns w key"
    by (auto simp: queueAt_def queuedRuns_def newFollowupQueue_def split: option.split)
  moreover have other: "p \<noteq> q" if "jm_get (fwQueues w) k = Some p" "k \<noteq> key" for p
  proof (cases "jm_get (fwQueues w) key")
    case None
    with new that(1) assms(1) show ?thesis by (force simp: worldInv_def)
  next
    case (Some p')
    with old assms(2) that show ?thesis by (auto simp: separateQueues_def)
  qed
  moreover note enqueue_rejected [OF assms(1,3), folded w1_def]
  ultimately show ?thesis
  proof (cases "k = key")
    case True
    with q \<open>items (queueAt w key settings) = queuedRuns w key\<close>
      enqueue_rejected [OF assms(1,3), folded w1_def]
    show ?thesis by (auto simp: queuedRuns_def)
  next
    case False
    then have "jm_get (fwQueues (snd (getFollowupQueue key settings w1))) k = jm_get (fwQueues w) k"
      using q(2) by (simp add: w1_def)
    with False q(1) other enqueue_rejected [OF assms(1,3), folded w1_def]
    show ?thesis by (auto simp: queuedRuns_def w1_def split: option.split)
  qed
qed

theorem followup_refusal_leaves_queues_witness:
  "queuedRuns (snd (sampleOverflow DropNew)) ''k'' = [1, 2, 3]"
proof -
  let ?w = "sampleWorld (sampleQueue DropNew [1, 2, 3])"
  have "\<not> hasRoom AtTail 4 ?w (sampleQueue DropNew [1, 2, 3])"
    by (simp add: hasRoom_def dropNeeded_def sample_defs countPendingQueueItems_def settingCap_def)
  then have "\<not> fst (sampleOverflow DropNew)" by (simp add: enqueue_admits_iff [OF sample_ok])
  then have "sampleOverflow DropNew = (False, snd (sampleOverflow DropNew))" by (simp add: prod_eq_iff)
  moreover have "separateQueues ?w" by (simp add: separateQueues_def sampleWorld_def jm_get_def)
  ultimately have "queuedRuns (snd (sampleOverflow DropNew)) ''k'' = queuedRuns ?w ''k''"
    by (intro followup_refusal_leaves_queues [OF sample_ok])
  then show ?thesis by (simp add: queuedRuns_def sampleWorld_def jm_get_def)
qed

section \<open>Trimming\<close>

text \<open>
  C21. The trim loop stops.  It takes out the oldest elided sources that no delivery is using, just
  as many as exceed the cap, counts them as evicted and completes them; the sources in use stay.
\<close>

theorem elision_trim_terminates:
  assumes "capOk (cap (fwQueueObjects w q))"
  defines "Q \<equiv> fwQueueObjects w q"
  defines "k \<equiv> overCap (idleSources Q) (cap Q)"
  defines "idle \<equiv> idleOf (fqActiveSummarySources Q) (fqSummaryElisions Q)"
  shows "\<exists>w'. trimLoop (idleSources Q) q w = Some w' \<and>
    idleOf (fqActiveSummarySources Q) (fqSummaryElisions (fwQueueObjects w' q)) = drop k idle \<and>
    filter (\<lambda>s. s \<in> fqActiveSummarySources Q) (elidedSources (fqSummaryElisions (fwQueueObjects w' q))) =
      filter (\<lambda>s. s \<in> fqActiveSummarySources Q) (elidedSources (fqSummaryElisions Q)) \<and>
    fqEvictedSummaryCount (fwQueueObjects w' q) = fqEvictedSummaryCount Q + k \<and>
    fwCompleted w' = lifecyclesOf w (take k idle) \<union> fwCompleted w \<and>
    \<not> js_count_greater (idleSources (fwQueueObjects w' q)) (cap Q)"
proof (intro exI conjI)
  let ?w = "setQueueObject q trimQueue (fold completeFollowupRunLifecycle (trimmedRuns Q) w)"
  have Q': "fwQueueObjects ?w q = trimQueue Q" by (simp add: Q_def)
  have k: "overCap (idleSources Q) (cap Q) = k" by (simp add: k_def)
  show "trimLoop (idleSources Q) q w = Some ?w"
    using trimLoop_returns [OF assms(1)] by (simp add: Q_def)
  show "idleOf (fqActiveSummarySources Q) (fqSummaryElisions (fwQueueObjects ?w q)) = drop k idle"
    unfolding Q' by (simp add: trimQueue_def Let_def k evictMany_idle idle_def)
  show "filter (\<lambda>s. s \<in> fqActiveSummarySources Q) (elidedSources (fqSummaryElisions (fwQueueObjects ?w q))) =
      filter (\<lambda>s. s \<in> fqActiveSummarySources Q) (elidedSources (fqSummaryElisions Q))"
    unfolding Q' by (simp add: trimQueue_def Let_def k evictMany_active)
  show "fqEvictedSummaryCount (fwQueueObjects ?w q) = fqEvictedSummaryCount Q + k"
    unfolding Q' by (simp add: trimQueue_def Let_def k)
  show "fwCompleted ?w = lifecyclesOf w (take k idle) \<union> fwCompleted w"
    by (simp add: trimmedRuns_def k idle_def)
  have "idleSources (trimQueue Q) = idleSources Q - k"
    by (simp add: idleSources_length trimQueue_def Let_def k_def evictMany_idle)
  then show "\<not> js_count_greater (idleSources (fwQueueObjects ?w q)) (cap Q)"
    unfolding Q' using capOk_greater [OF assms(1)] by (auto simp: Q_def k_def capOk_def overCap_def split: js_number.splits)
qed

theorem elision_trim_terminates_witness:
  "\<exists>w. trimLoop 4 90 (sampleWorld ((sampleQueue Summarize [])\<lparr>fqActiveSummarySources := {1},
       fqSummaryElisions := [\<lparr>elId = 9, elContextKey = [], elCount = 5, elSources = [1, 2, 3, 4, 5],
         elSourceRefs = []\<rparr>]\<rparr>)) = Some w \<and> fwCompleted w = {2}"
proof -
  define Q where "Q = (sampleQueue Summarize [])\<lparr>fqActiveSummarySources := {1}, fqSummaryElisions :=
    [\<lparr>elId = 9, elContextKey = [], elCount = 5, elSources = [1, 2, 3, 4, 5], elSourceRefs = []\<rparr>]\<rparr>"
  have Q: "fwQueueObjects (sampleWorld Q) 90 = Q" "cap Q = Finite (of_nat 3)" "idleSources Q = 4"
    "idleOf (fqActiveSummarySources Q) (fqSummaryElisions Q) = [2, 3, 4, 5]"
    by (simp_all add: sampleWorld_def Q_def idleSources_length idleOf_def)
  have "capOk (cap Q)" unfolding Q(2) capOk_def by blast
  moreover have "lifecyclesOf (sampleWorld Q) (take 1 [2, 3, 4, 5]) \<union> fwCompleted (sampleWorld Q) = {2}"
    by (simp add: lifecyclesOf_def sampleWorld_def sampleRun_def)
  ultimately show ?thesis
    using elision_trim_terminates [of "sampleWorld Q" 90] unfolding Q_def [symmetric] Q by fastforce
qed

section \<open>Duplicates\<close>

text \<open>What of a run decides which message it is.\<close>

definition messageIdentity ::
    "followup_run \<Rightarrow> string option \<times> string list \<times> string" where
  "messageIdentity r =
     (normalizeOptionalString (frMessageId r),
      [nullish (Option.bind (originRoute r) crChannel) [],
       nullish (Option.bind (originRoute r) crTarget) [],
       nullish (Option.bind (originRoute r) crAccountId) [],
       nullish (stringifyRouteThreadId (Option.bind (originRoute r) crThread)) []],
      nullish (map_option chatTypeName (normalizeChatType (frOriginatingChatType r))) [])"

lemma map_JStr_eq [simp]: "map JStr xs = map JStr ys \<longleftrightarrow> xs = ys"
  by (rule inj_map_eq_map) (simp add: inj_def)

lemma recentKey_eq:
  "buildRecentMessageIdKey r key = buildRecentMessageIdKey r' key' \<longleftrightarrow>
     (fst (messageIdentity r) = None \<and> fst (messageIdentity r') = None) \<or>
     (key = key' \<and> messageIdentity r = messageIdentity r')"
  by (cases "normalizeOptionalString (frMessageId r)"; cases "normalizeOptionalString (frMessageId r')")
    (auto simp: buildRecentMessageIdKey_def followupMessageRouteIdentityKey_def channelRouteDedupeKey_def
      kchat_def kopt_def messageIdentity_def jsonStringify_inj)

text \<open>
  Two enqueued messages share a duplicate key exactly when queue, message id, route and chat
  type are the same, whatever characters they contain.
\<close>

theorem duplicate_key_is_message_identity:
  "(\<exists>k. buildRecentMessageIdKey r key = Some k \<and> buildRecentMessageIdKey r' key' = Some k) \<longleftrightarrow>
     key = key' \<and> messageIdentity r = messageIdentity r' \<and> fst (messageIdentity r) \<noteq> None"
proof -
  have "buildRecentMessageIdKey r key = None \<longleftrightarrow> fst (messageIdentity r) = None" for r key
    by (simp add: buildRecentMessageIdKey_def messageIdentity_def)
  then show ?thesis using recentKey_eq [of r key r' key'] by (metis not_None_eq)
qed

section \<open>Redeliveries\<close>

lemma elideSources_recent:
  "capOk (cap (fwQueueObjects w q)) \<Longrightarrow>
   fwRecentMessageIds (fold (elideSource slack q) rs w) = fwRecentMessageIds w"
proof (induction rs arbitrary: w)
  case (Cons r rs)
  have "fwRecentMessageIds (elideSource slack q r w) = fwRecentMessageIds w"
    unfolding elideSource_eq [OF Cons.prems]
    by (simp add: fwFresh_def createOverflowSummaryRetrySource_def)
  moreover have "capOk (cap (fwQueueObjects (elideSource slack q r w) q))"
    using elideSource_queue [OF Cons.prems] Cons.prems by (metis elideEntry_sel(2) fun_upd_same trimQueue_sel(2))
  ultimately show ?case using Cons.IH by simp
qed simp

lemma drop_and_settle_recent:
  assumes "queueInv (fwQueueObjects w q)"
  shows "fwRecentMessageIds (settleOverflow slack q (snd (applyFollowupDropPolicy q w))) = fwRecentMessageIds w"
proof -
  define v where "v = snd (applyFollowupDropPolicy q w)"
  have cap: "capOk (cap (fwQueueObjects w q))" using assms by (rule queueInv_cap)
  have v: "fwRecentMessageIds v = fwRecentMessageIds w" "capOk (cap (fwQueueObjects v q))"
    using cap by (auto simp: v_def applyFollowupDropPolicy_eq [OF cap] split_def)
  have "fwRecentMessageIds (elideOverflow slack q v) = fwRecentMessageIds v"
    using v(2) by (simp add: elideOverflow_def Let_def elideSources_recent)
  then show ?thesis using v(1) by (simp add: settleOverflow_def v_def)
qed

lemma finishEnqueue_recent:
  "fwRecentMessageIds (finishEnqueue now key run cb restart position rk q w) =
     (case rk of None \<Rightarrow> fwRecentMessageIds w
      | Some k \<Rightarrow> snd (checkKey RECENT_QUEUE_OPTIONS (Some k) now (fwRecentMessageIds w)))"
proof -
  have "fwRecentMessageIds (scheduleFollowupDrain key cb w) = fwRecentMessageIds w" for key cb w
    by (simp add: scheduleFollowupDrain_def beginQueueDrain_def rememberFollowupDrainCallback_def
        Let_def split: option.split)
  then have "fwRecentMessageIds (kickFollowupDrainIfIdle key w) = fwRecentMessageIds w" for w
    by (simp add: kickFollowupDrainIfIdle_def split: option.split)
  then show ?thesis
    by (auto simp: finishEnqueue_def Let_def admitToQueue_def setRunObject_def
        rememberFollowupDrainCallback_def split: option.split)
qed

lemma recentKey_ne: "buildRecentMessageIdKey r key = Some k \<Longrightarrow> k \<noteq> []"
  by (auto simp: buildRecentMessageIdKey_def jsonStringify.simps)

lemma accepted_recent:
  assumes "worldInv w" "cacheInv RECENT_QUEUE_OPTIONS (fwRecentMessageIds w)"
    and acc: "enqueueFollowupRun slack accepts now key run settings dm cb restart position w = (True, w')"
    and k: "dm \<noteq> DedupeNone" "buildRecentMessageIdKey (fwRuns w run) key = Some k"
  shows "recentFrom k now {} (fwRecentMessageIds w')"
proof -
  define q where "q = fst (getFollowupQueue key settings (protectedRun position run w))"
  define w2 where "w2 = snd (getFollowupQueue key settings (protectedRun position run w))"
  have w2: "fwRuns w2 = fwRuns (protectedRun position run w)" "fwRecentMessageIds w2 = fwRecentMessageIds w"
    using getQueue_sel(1) getQueue_recent assms(1)
    by (auto simp: w2_def)
  obtain w4 rk where w4: "fwQueueObjects w4 = fwQueueObjects w2"
      "w' = finishEnqueue now key run cb restart position rk q
        (settleOverflow slack q (snd (applyFollowupDropPolicy q w4)))"
      "rk = (if dm = DedupeNone then None else buildRecentMessageIdKey (fwRuns w2 run) key)"
      "fwRecentMessageIds w4 = (case rk of None \<Rightarrow> fwRecentMessageIds w2
         | Some k \<Rightarrow> snd (peekKey RECENT_QUEUE_OPTIONS (Some k) now (fwRecentMessageIds w2)))"
    using enqueue_accepted [OF acc] by (metis q_def w2_def)
  have rk: "rk = Some k" using w4(3) k w2(1) by simp
  have "queueInv (fwQueueObjects w4 q)"
    using getQueue_eq [of "protectedRun position run w" key settings] assms(1) w4(1)
    by (auto simp: q_def w2_def)
  then have "fwRecentMessageIds w' =
      snd (checkKey RECENT_QUEUE_OPTIONS (Some k) now (fwRecentMessageIds w4))"
    unfolding w4(2) finishEnqueue_recent rk by (simp add: drop_and_settle_recent)
  moreover have "cacheInv RECENT_QUEUE_OPTIONS (fwRecentMessageIds w4)"
    using dedupeStep_inv [OF assms(2), of "Peek (Some k) now"] by (simp add: w4(4) rk w2(2))
  ultimately show ?thesis
    using recentFrom_check [OF _ recentKey_ne [OF k(2)]] by (simp add: RECENT_QUEUE_OPTIONS_def)
qed

text \<open>
  C31. A message that was queued is refused when it is delivered again to the same queue within five
  minutes, whatever happened to the queue meanwhile, as long as fewer than ten thousand other
  messages were seen in between.
\<close>

theorem redelivered_message_is_refused:
  assumes "worldInv w" "cacheInv RECENT_QUEUE_OPTIONS (fwRecentMessageIds w)"
    and "enqueueFollowupRun slack accepts now key run settings dm cb restart position w = (True, w')"
    and "dm \<noteq> DedupeNone" "buildRecentMessageIdKey (fwRuns w run) key = Some k"
    and "worldInv v" "fwRecentMessageIds v = dedupeRun RECENT_QUEUE_OPTIONS es (fwRecentMessageIds w')"
    and "\<forall>e \<in> set es. keeps k now later K e" "finite K" "card K < 10000"
    and "now \<le> later" "later < now + 5 * 60 * 1000"
    and "dm' \<noteq> DedupeNone" "buildRecentMessageIdKey (fwRuns v run') key = Some k"
  shows "fst (enqueueFollowupRun slack accepts' later key run' settings' dm' cb' restart' position' v) = False"
proof -
  define v2 where "v2 = snd (getFollowupQueue key settings' (protectedRun position' run' v))"
  have "recentFrom k now K (fwRecentMessageIds w')"
    using accepted_recent [OF assms(1-5)] unfolding recentFrom_def by (meson empty_subsetI subset_trans)
  then have "recentFrom k now K (fwRecentMessageIds v)"
    unfolding assms(7)
    by (rule recentFrom_run) (use assms(8-12) in \<open>auto simp: RECENT_QUEUE_OPTIONS_def\<close>)
  moreover have v2: "fwRuns v2 = fwRuns (protectedRun position' run' v)"
    "fwRecentMessageIds v2 = fwRecentMessageIds v"
    using getQueue_sel(1) getQueue_recent assms(6)
    by (auto simp: v2_def)
  ultimately have hit: "fst (peekKey RECENT_QUEUE_OPTIONS (Some k) later (fwRecentMessageIds v2))"
    using recentFrom_hasUnexpired_same assms(12) recentKey_ne [OF assms(5)]
    by (simp add: peekKey_def RECENT_QUEUE_OPTIONS_def)
  have key: "buildRecentMessageIdKey (fwRuns v2 run') key = Some k" using v2(1) assms(14) by simp
  show ?thesis
    unfolding enqueueFollowupRun_def protectedRun_def [symmetric] Let_def split_def v2_def [symmetric]
    using hit key assms(13) by simp
qed

theorem redelivered_message_is_refused_witness:
  "fst (enqueueFollowupRun (\<lambda>_. False) (\<lambda>_. True) 6 ''k'' 8 (sampleSettings DropOld) DedupeMessageId None
     False AtFront ((sampleWorld (sampleQueue DropOld []))\<lparr>fwRecentMessageIds :=
       fwRecentMessageIds (snd (enqueueFollowupRun (\<lambda>_. False) (\<lambda>_. True) 5 ''k'' 7 (sampleSettings DropOld)
         DedupeMessageId None False AtTail (sampleWorld (sampleQueue DropOld []))))\<rparr>)) = False"
proof -
  let ?w = "sampleWorld (sampleQueue DropOld [])"
  define w' where "w' = snd (enqueueFollowupRun (\<lambda>_. False) (\<lambda>_. True) 5 ''k'' 7 (sampleSettings DropOld)
         DedupeMessageId None False AtTail ?w)"
  have "hasRoom AtTail 7 ?w (sampleQueue DropOld [])"
    by (simp add: hasRoom_def dropNeeded_def countPendingQueueItems_def)
  then have acc: "enqueueFollowupRun (\<lambda>_. False) (\<lambda>_. True) 5 ''k'' 7 (sampleSettings DropOld)
         DedupeMessageId None False AtTail ?w = (True, w')"
    using sample_enqueue [of AtTail 7 DropOld "[]" DedupeMessageId] by (simp add: w'_def prod_eq_iff)
  obtain k where k: "buildRecentMessageIdKey (fwRuns ?w 7) ''k'' = Some k"
    "buildRecentMessageIdKey (fwRuns ?w 8) ''k'' = Some k"
    by (simp add: buildRecentMessageIdKey_def followupMessageRouteIdentityKey_def originRoute_def
        sample_defs normalizeOptionalString_def js_trim_def js_space_def)
  have "worldInv (?w\<lparr>fwRecentMessageIds := c\<rparr>)" for c
    using sample_ok by (simp add: worldInv_def)
  moreover have "cacheInv RECENT_QUEUE_OPTIONS (fwRecentMessageIds ?w)"
    by (simp add: sampleWorld_def cacheInv_def RECENT_QUEUE_OPTIONS_def jm_ok_def jm_keys_def)
  ultimately show ?thesis
    using redelivered_message_is_refused [OF sample_ok _ acc _ k(1), where es = "[]" and K = "{}" and later = 6
        and v = "?w\<lparr>fwRecentMessageIds := fwRecentMessageIds w'\<rparr>" and run' = 8 and dm' = DedupeMessageId] k(2)
    unfolding w'_def [symmetric] by (simp add: dedupeRun_def)
qed

end
