(* ===== verification/FollowupLifecycles.thy ===== *)
theory FollowupLifecycles
  imports FollowupSamples
begin

text \<open>
  The lifecycles of queued runs: \<open>onComplete\<close> is called once, never while an admission is under
  way, and no lifecycle a queue holds is forgotten by an overflow or by clearing the session.
\<close>

section \<open>What a queue holds\<close>

definition held :: "ref \<Rightarrow> followup_world \<Rightarrow> ref set" where
  "held q w = lifecyclesOf w (queueSources (fwQueueObjects w q)) \<union> fwCompleted w"

definition allocated :: "ref \<Rightarrow> followup_world \<Rightarrow> bool" where
  "allocated q w \<longleftrightarrow> (\<forall>r \<in> set (queueSources (fwQueueObjects w q)). r < fwNext w)"

lemma queueSources_elided:
  "queueSources Q = items Q @ fqSummarySources Q @ elidedSources (fqSummaryElisions Q)"
  by (simp add: queueSources_def elidedSources_def)

lemma lifecyclesOf_cong:
  "(\<And>r. r \<in> set rs \<Longrightarrow> frQueuedLifecycle (fwRuns w r) = frQueuedLifecycle (fwRuns v r)) \<Longrightarrow>
   lifecyclesOf w rs = lifecyclesOf v rs"
  by (simp add: lifecyclesOf_def)

lemma lifecyclesOf_mono: "set rs \<subseteq> set ss \<Longrightarrow> lifecyclesOf w rs \<subseteq> lifecyclesOf w ss"
  by (auto simp: lifecyclesOf_def)

lemma lifecyclesOf_cover:
  "set rs \<subseteq> set ss \<union> set ts \<Longrightarrow> lifecyclesOf w rs \<subseteq> lifecyclesOf w ss \<union> lifecyclesOf w ts"
  by (auto simp: lifecyclesOf_def)

lemma evictMany_split:
  "set (elidedSources es) \<subseteq>
     set (take k (idleOf active es)) \<union> set (elidedSources (evictMany k active es))"
proof
  fix x assume x: "x \<in> set (elidedSources es)"
  show "x \<in> set (take k (idleOf active es)) \<union> set (elidedSources (evictMany k active es))"
  proof (cases "x \<in> active")
    case True
    with x have "x \<in> set (filter (\<lambda>s. s \<in> active) (elidedSources (evictMany k active es)))"
      unfolding evictMany_active by simp
    then show ?thesis by simp
  next
    case False
    with x have "x \<in> set (take k (idleOf active es) @ drop k (idleOf active es))"
      by (simp add: idleOf_def)
    then have "x \<in> set (take k (idleOf active es)) \<or> x \<in> set (idleOf active (evictMany k active es))"
      unfolding evictMany_idle set_append by blast
    then show ?thesis unfolding idleOf_def by auto
  qed
qed

lemma evictMany_subset: "set (elidedSources (evictMany k active es)) \<subseteq> set (elidedSources es)"
proof
  fix x assume x: "x \<in> set (elidedSources (evictMany k active es))"
  then consider "x \<in> set (filter (\<lambda>s. s \<in> active) (elidedSources (evictMany k active es)))"
    | "x \<in> set (idleOf active (evictMany k active es))" by (auto simp: idleOf_def)
  then show "x \<in> set (elidedSources es)"
    unfolding evictMany_active evictMany_idle by cases (auto simp: idleOf_def dest: in_set_dropD)
qed

lemma trimQueue_sources:
  "set (queueSources Q) \<subseteq> set (trimmedRuns Q) \<union> set (queueSources (trimQueue Q))"
  "set (queueSources (trimQueue Q)) \<subseteq> set (queueSources Q)"
  using evictMany_split [of "fqSummaryElisions Q" "overCap (idleSources Q) (cap Q)" "fqActiveSummarySources Q"]
    evictMany_subset [of "overCap (idleSources Q) (cap Q)" "fqActiveSummarySources Q" "fqSummaryElisions Q"]
  by (auto simp: queueSources_elided trimmedRuns_def trimQueue_def Let_def)

text \<open>Trimming after a change of the queue object, with the evicted runs completed.\<close>

lemma held_trim:
  fixes f :: "followup_queue \<Rightarrow> followup_queue"
  defines "u \<equiv> \<lambda>w q. setQueueObject q (\<lambda>Q. trimQueue (f Q))
      (fold completeFollowupRunLifecycle (trimmedRuns (f (fwQueueObjects w q))) w)"
  shows "lifecyclesOf w (queueSources (f (fwQueueObjects w q))) \<union> fwCompleted w \<subseteq> held q (u w q)"
proof -
  have "lifecyclesOf w (queueSources (f (fwQueueObjects w q))) \<subseteq>
      lifecyclesOf w (trimmedRuns (f (fwQueueObjects w q))) \<union>
      lifecyclesOf w (queueSources (trimQueue (f (fwQueueObjects w q))))"
    using lifecyclesOf_mono [of _ "trimmedRuns (f (fwQueueObjects w q)) @
      queueSources (trimQueue (f (fwQueueObjects w q)))" w] trimQueue_sources(1) by simp
  then show ?thesis by (auto simp: held_def u_def lifecyclesOf_def)
qed

lemma elideEntry_sources:
  "set (queueSources (elideEntry i k x c Q)) = insert c (set (queueSources Q))"
  by (auto simp: queueSources_elided elideEntry_elided)

lemma elideSource_held:
  assumes cap: "capOk (cap (fwQueueObjects w q))" and al: "allocated q w" and item: "item < fwNext w"
  shows "held q w \<union> set_option (frQueuedLifecycle (fwRuns w item)) \<subseteq> held q (elideSource slack q item w)"
    and "allocated q (elideSource slack q item w)"
proof -
  define w2 where "w2 = snd (fwFresh (snd (createOverflowSummaryRetrySource item w)))"
  define f where "f = elideEntry (Suc (fwNext w)) (resolveFollowupDeliveryContextKey slack w item) item (fwNext w)"
  have w2: "fwQueueObjects w2 = fwQueueObjects w" "fwCompleted w2 = fwCompleted w"
    "fwRuns w2 = (fwRuns w)(fwNext w := compactSource (fwRuns w item))" "fwNext w2 = Suc (Suc (fwNext w))"
    by (simp_all add: w2_def fwFresh_def)
  have eq: "elideSource slack q item w = setQueueObject q (\<lambda>Q. trimQueue (f Q))
      (fold completeFollowupRunLifecycle (trimmedRuns (f (fwQueueObjects w2 q))) w2)"
    unfolding w2(1) unfolding f_def w2_def by (rule elideSource_eq [OF cap])
  have "lifecyclesOf w (queueSources (fwQueueObjects w q)) = lifecyclesOf w2 (queueSources (fwQueueObjects w q))"
    using al by (intro lifecyclesOf_cong) (auto simp: w2(3) allocated_def)
  moreover have "frQueuedLifecycle (fwRuns w2 (fwNext w)) = frQueuedLifecycle (fwRuns w item)"
    by (simp add: w2(3) compactSource_def)
  moreover have "set (queueSources (f (fwQueueObjects w2 q))) =
      insert (fwNext w) (set (queueSources (fwQueueObjects w q)))"
    unfolding f_def w2(1) by (rule elideEntry_sources)
  ultimately have "lifecyclesOf w2 (queueSources (f (fwQueueObjects w2 q))) =
      lifecyclesOf w (queueSources (fwQueueObjects w q)) \<union> set_option (frQueuedLifecycle (fwRuns w item))"
    by (auto simp: lifecyclesOf_def)
  then show "held q w \<union> set_option (frQueuedLifecycle (fwRuns w item)) \<subseteq> held q (elideSource slack q item w)"
    using held_trim [of w2 f q] w2(2) unfolding eq held_def [of q w] by auto
  have "set (queueSources (trimQueue (f (fwQueueObjects w q)))) \<subseteq>
      insert (fwNext w) (set (queueSources (fwQueueObjects w q)))"
    using trimQueue_sources(2) elideEntry_sources unfolding f_def by blast
  then have "\<forall>r \<in> set (queueSources (trimQueue (f (fwQueueObjects w q)))). r \<le> fwNext w"
    using al [unfolded allocated_def] by fastforce
  then have "\<forall>r \<in> set (queueSources (trimQueue (f (fwQueueObjects w q)))). r < Suc (Suc (fwNext w))"
    by (simp add: less_Suc_eq_le le_SucI)
  then show "allocated q (elideSource slack q item w)"
    unfolding eq allocated_def by (simp add: w2)
qed

lemma elideSources_held:
  assumes "capOk (cap (fwQueueObjects w q))" "allocated q w" "\<forall>r \<in> set rs. r < fwNext w"
  shows "held q w \<union> lifecyclesOf w rs \<subseteq> held q (fold (elideSource slack q) rs w)"
  using assms
proof (induction rs arbitrary: w)
  case (Cons r rs)
  let ?w = "elideSource slack q r w"
  have r: "r < fwNext w" using Cons.prems(3) by simp
  note one = elideSource_held [OF Cons.prems(1,2) r, of slack]
  have next_w: "fwNext ?w = Suc (Suc (fwNext w))"
    "fwRuns ?w = (fwRuns w)(fwNext w := compactSource (fwRuns w r))"
    unfolding elideSource_eq [OF Cons.prems(1)] by (simp_all add: fwFresh_def)
  have "lifecyclesOf w rs = lifecyclesOf ?w rs"
    using Cons.prems(3) by (intro lifecyclesOf_cong) (auto simp: next_w)
  moreover have "capOk (cap (fwQueueObjects ?w q))"
    using elideSource_queue [OF Cons.prems(1)] Cons.prems(1)
    by (metis elideEntry_sel(2) fun_upd_same trimQueue_sel(2))
  moreover have "\<forall>s \<in> set rs. s < fwNext ?w" using Cons.prems(3) next_w(1) by auto
  ultimately show ?case using Cons.IH [of ?w] one by auto
qed simp

lemma elideOverflow_held:
  assumes "capOk (cap (fwQueueObjects w q))" "allocated q w"
  shows "held q w \<subseteq> held q (elideOverflow slack q w)"
proof -
  define n where "n = length (fqSummarySources (fwQueueObjects w q)) - length (summaryLines (fwQueueObjects w q))"
  define rs where "rs = take n (fqSummarySources (fwQueueObjects w q))"
  define w0 where "w0 = setQueueObject q (\<lambda>Q. Q\<lparr>fqSummarySources := drop n (fqSummarySources Q)\<rparr>) w"
  have eq: "elideOverflow slack q w = fold (elideSource slack q) rs w0"
    by (simp add: elideOverflow_def Let_def w0_def n_def rs_def)
  have parts: "set (fqSummarySources (fwQueueObjects w q)) =
      set rs \<union> set (drop n (fqSummarySources (fwQueueObjects w q)))"
    unfolding rs_def by (metis append_take_drop_id set_append)
  have "held q w = held q w0 \<union> lifecyclesOf w0 rs"
    using parts by (auto simp: held_def lifecyclesOf_def queueSources_elided w0_def)
  moreover have "capOk (cap (fwQueueObjects w0 q))" using assms(1) by (simp add: w0_def)
  moreover have "allocated q w0" "\<forall>r \<in> set rs. r < fwNext w0"
    using assms(2) parts by (auto simp: allocated_def queueSources_elided w0_def dest: in_set_dropD)
  ultimately show ?thesis using elideSources_held [of w0 q rs slack] unfolding eq by simp
qed

lemma evictedQueue_sources:
  assumes "evictFirst skip n (items Q) = (rest, dropped)"
  shows "set (queueSources Q) \<subseteq> set (queueSources (evictedQueue runs rest dropped Q)) \<union>
      (if dropPolicy Q = Summarize then {} else set dropped)"
    and "set (queueSources (evictedQueue runs rest dropped Q)) \<subseteq> set (queueSources Q)"
  using evict_set [of skip n "items Q"] assms
  by (auto simp: queueSources_elided evictedQueue_def)

lemma drop_and_settle_held:
  assumes inv: "queueInv (fwQueueObjects w q)" and al: "allocated q w"
  shows "held q w \<subseteq> held q (settleOverflow slack q (snd (applyFollowupDropPolicy q w)))"
proof -
  define Q where "Q = fwQueueObjects w q"
  obtain rest dropped where ev: "evictFirst (undroppable w Q) (dropNeeded Q) (items Q) = (rest, dropped)"
    by fastforce
  define v where "v = snd (applyFollowupDropPolicy q w)"
  note eq = applyFollowupDropPolicy_eq [OF queueInv_cap [OF inv], folded Q_def, unfolded ev]
  have "held q w \<subseteq> held q v \<and> allocated q v \<and> capOk (cap (fwQueueObjects v q))"
  proof (cases "v = w")
    case True
    then show ?thesis using al inv queueInv_cap by simp
  next
    case False
    then have v: "v = setQueueObject q (evictedQueue (fwRuns w) rest dropped)
        (if dropPolicy Q = Summarize then w else fold completeFollowupRunLifecycle dropped w)"
      by (auto simp: v_def eq split: if_splits)
    note src = evictedQueue_sources [OF ev, of "fwRuns w"]
    have runs: "fwRuns v = fwRuns w" and "fwQueueObjects v q = evictedQueue (fwRuns w) rest dropped Q"
      "fwCompleted v = (if dropPolicy Q = Summarize then {} else lifecyclesOf w dropped) \<union> fwCompleted w"
      by (simp_all add: v Q_def)
    moreover have "lifecyclesOf w (queueSources Q) \<subseteq>
        lifecyclesOf w (queueSources (evictedQueue (fwRuns w) rest dropped Q)) \<union>
        (if dropPolicy Q = Summarize then {} else lifecyclesOf w dropped)"
      using lifecyclesOf_cover [of "queueSources Q" _ "if dropPolicy Q = Summarize then [] else dropped" w]
        src(1) by (cases "dropPolicy Q = Summarize") auto
    moreover have "lifecyclesOf v rs = lifecyclesOf w rs" for rs
      by (rule lifecyclesOf_cong) (simp add: runs)
    ultimately have "held q w \<subseteq> held q v" unfolding held_def by (auto simp: Q_def)
    moreover have "allocated q v" using src(2) al unfolding v by (auto simp: allocated_def Q_def)
    moreover have "capOk (cap (fwQueueObjects v q))"
      using inv queueInv_cap unfolding v by (auto simp: Q_def)
    ultimately show ?thesis by simp
  qed
  then show ?thesis
    using elideOverflow_held [of v q slack] by (auto simp: settleOverflow_def v_def)
qed

section \<open>No lifecycle is forgotten\<close>

definition heldRuns :: "followup_world \<Rightarrow> string \<Rightarrow> ref list" where
  "heldRuns w key =
     (case jm_get (fwQueues w) key of None \<Rightarrow> [] | Some q \<Rightarrow> queueSources (fwQueueObjects w q))"

lemma getQueue_held:
  fixes settings :: "queue_mode queue_settings"
  assumes w: "worldInv w" and al: "\<forall>r \<in> set (heldRuns w key). r < fwNext w"
  defines "q \<equiv> fst (getFollowupQueue key settings w)" and "w2 \<equiv> snd (getFollowupQueue key settings w)"
  shows "lifecyclesOf w (heldRuns w key) \<subseteq> held q w2" and "allocated q w2"
proof -
  show "lifecyclesOf w (heldRuns w key) \<subseteq> held q w2"
  proof (cases "jm_get (fwQueues w) key")
    case None
    then show ?thesis by (simp add: heldRuns_def)
  next
    case (Some p)
    then have cap: "capOk (settingCap (set_cap settings) (cap (fwQueueObjects w p)))"
      using w queueInv_cap capOk_settingCap by (auto simp: worldInv_def)
    have q: "q = p" using Some by (simp add: q_def getFollowupQueue_def)
    have "w2 = setQueueObject p (\<lambda>Q. trimQueue (applySettings settings Q))
        (fold completeFollowupRunLifecycle (trimmedRuns (applySettings settings (fwQueueObjects w p))) w)"
      using Some cap by (simp add: w2_def getFollowupQueue_def trimSummaryElisionsToCap_eq
          complete_all_setQueueObject setQueueObject_twice)
    moreover have "queueSources (applySettings settings Q) = queueSources Q" for Q
      by (simp add: queueSources_elided)
    ultimately show ?thesis
      using held_trim [of w "applySettings settings" p] Some by (auto simp: q heldRuns_def)
  qed
  have "fwNext w \<le> fwNext w2" and "fwQueueObjects w2 q = queueAt w key settings"
    using getQueue_sel(2) [OF w] getQueue_eq [OF w, of key settings] by (auto simp: q_def w2_def)
  moreover have "set (queueSources (queueAt w key settings)) \<subseteq> set (heldRuns w key)"
  proof (cases "jm_get (fwQueues w) key")
    case None
    then show ?thesis by (simp add: queueAt_def queueSources_elided newFollowupQueue_def)
  next
    case (Some p)
    have "queueSources (applySettings settings (fwQueueObjects w p)) = queueSources (fwQueueObjects w p)"
      by (simp add: queueSources_elided)
    with Some trimQueue_sources(2) [of "applySettings settings (fwQueueObjects w p)"] show ?thesis
      by (simp add: queueAt_def heldRuns_def)
  qed
  ultimately show "allocated q w2" using al by (fastforce simp: allocated_def)
qed

text \<open>
  C9. An admitted run and every run its queue held, waiting or summarized, keep their lifecycle:
  a run of the queue still carries it, or it is completed.
\<close>

theorem overflow_forgets_no_lifecycle:
  assumes w: "worldInv w" and al: "\<forall>r \<in> set (heldRuns w key). r < fwNext w" and "run < fwNext w"
    and acc: "enqueueFollowupRun slack accepts now key run settings dm cb restart position w = (True, w')"
  shows "lifecyclesOf w (run # heldRuns w key) \<subseteq> lifecyclesOf w' (heldRuns w' key) \<union> fwCompleted w'"
proof -
  define w1 where "w1 = protectedRun position run w"
  define q where "q = fst (getFollowupQueue key settings w1)"
  define w2 where "w2 = snd (getFollowupQueue key settings w1)"
  have w1: "worldInv w1" "heldRuns w1 key = heldRuns w key" "fwNext w1 = fwNext w"
    using w by (simp_all add: w1_def heldRuns_def split: option.split)
  have lc1: "lifecyclesOf w1 rs = lifecyclesOf w rs" for rs
    by (rule lifecyclesOf_cong) (simp add: w1_def)
  note get = getQueue_held [OF w1(1), of key settings, folded q_def w2_def, unfolded w1(2,3), OF al]
  obtain w4 rk where w4: "fwQueueObjects w4 = fwQueueObjects w2" "fwRuns w4 = fwRuns w2"
      "fwQueues w4 = fwQueues w2" "fwNext w4 = fwNext w2" "fwCompleted w4 = fwCompleted w2"
    and ok: "fst (applyFollowupDropPolicy q w4)"
    and w': "w' = finishEnqueue now key run cb restart position rk q
      (settleOverflow slack q (snd (applyFollowupDropPolicy q w4)))"
    using enqueue_accepted [OF acc] by (metis q_def w2_def w1_def)
  have inv4: "queueInv (fwQueueObjects w4 q)" and reg: "jm_get (fwQueues w4) key = Some q"
    using getQueue_eq [OF w1(1), of key settings] w4(1,3) by (auto simp: q_def w2_def)
  define u where "u = settleOverflow slack q (snd (applyFollowupDropPolicy q w4))"
  note settled = drop_and_settle(5,10) [OF inv4 ok, where slack = slack, folded u_def]
  note fin = finishEnqueue_sel [where now = now and key = key and run = run and cb = cb and
      restart = restart and position = position and rk = rk and q = q and w = u,
      folded w' [folded u_def]]
  have al4: "allocated q w4" and held4: "held q w4 = held q w2"
    using get(2) w4 by (simp_all add: allocated_def held_def lifecyclesOf_def)
  have lcw': "lifecyclesOf w' rs = lifecyclesOf u rs" for rs
    by (rule lifecyclesOf_cong) (rule fin(7))
  have "queueSources (fwQueueObjects w' q) = withRun position run (items (fwQueueObjects u q)) @
      fqSummarySources (fwQueueObjects u q) @ elidedSources (fqSummaryElisions (fwQueueObjects u q))"
    using undrained_sel(9) [OF fin(1)] by (simp add: queueSources_elided)
  then have "lifecyclesOf w' (queueSources (fwQueueObjects w' q)) \<union> fwCompleted w' =
      set_option (frQueuedLifecycle (fwRuns u run)) \<union> held q u"
    by (auto simp: lcw' withRun_def queueSources_elided held_def fin(5))
  moreover have "jm_get (fwQueues w') key = Some q" using fin(3) settled(1) reg by simp
  moreover have "lifecyclesOf w (heldRuns w key) \<subseteq> held q u"
    using get(1) lc1 held4 drop_and_settle_held [OF inv4 al4, of slack] by (auto simp: u_def w1(2))
  moreover have "frQueuedLifecycle (fwRuns u run) = frQueuedLifecycle (fwRuns w run)"
    using settled(2) [of run] \<open>run < fwNext w\<close> w4(2,4) getQueue_sel(1,2) [OF w1(1), of key settings]
    by (simp add: w2_def w1(3)) (simp add: w1_def)
  ultimately show ?thesis by (auto simp: heldRuns_def [of w'])
qed

theorem overflow_forgets_no_lifecycle_witness:
  "{1, 2, 3, 4} \<subseteq> lifecyclesOf (snd (sampleOverflow Summarize)) (heldRuns (snd (sampleOverflow Summarize)) ''k'')
     \<union> fwCompleted (snd (sampleOverflow Summarize))"
proof -
  let ?w = "sampleWorld (sampleQueue Summarize [1, 2, 3])"
  have held: "heldRuns ?w ''k'' = [1, 2, 3]"
    by (simp add: heldRuns_def sample_defs jm_get_def queueSources_def)
  have "lifecyclesOf ?w (4 # heldRuns ?w ''k'') = {1, 2, 3, 4}"
    unfolding held by (auto simp: lifecyclesOf_def sample_defs)
  moreover have "\<forall>r \<in> set (heldRuns ?w ''k''). r < fwNext ?w" "4 < fwNext ?w"
    unfolding held by (simp_all add: sampleWorld_def)
  moreover have "Summarize \<noteq> DropNew" by simp
  ultimately show ?thesis
    using overflow_forgets_no_lifecycle [OF sample_ok _ _ sample_overflow] by metis
qed

section \<open>The completion callback\<close>

datatype lifecycle_event = CompleteRun ref | AdmitBegin ref | AdmitEnd ref bool

fun lifecycleStep :: "lifecycle_event \<Rightarrow> followup_world \<Rightarrow> followup_world" where
  "lifecycleStep (CompleteRun r) w = completeFollowupRunLifecycle r w"
| "lifecycleStep (AdmitBegin r) w = snd (admitFollowupRunBegin r w)"
| "lifecycleStep (AdmitEnd lc ok) w = admitFollowupRunEnd lc ok w"

definition lifecycleInv :: "followup_world \<Rightarrow> bool" where
  "lifecycleInv w \<longleftrightarrow>
     distinct (fwCompletions w) \<and> set (fwCompletions w) = fwCompletedCallbacks w \<and>
     fwCompletedCallbacks w \<union> fwFinishAfterAdmission w = fwCompleted w \<and>
     fwFinishAfterAdmission w \<subseteq> fwAdmitting w \<and> fwCompletedCallbacks w \<inter> fwAdmitting w = {}"

lemma lifecycleInv_step: "lifecycleInv w \<Longrightarrow> lifecycleInv (lifecycleStep e w)"
  by (cases e)
    (auto simp: lifecycleInv_def completeFollowupRunLifecycle_def completeLifecycle_def Let_def
      finishLifecycle_def admitFollowupRunBegin_def admitFollowupRunEnd_def split: option.split)

text \<open>
  C25. However completions and admissions interleave, \<open>onComplete\<close> of a lifecycle is called at most
  once, only after it was completed and never while its admission is under way; and a completed
  lifecycle whose admission is over has been told.
\<close>

theorem completion_is_told_once:
  fixes es :: "lifecycle_event list"
  assumes "fwCompletions w = []" "fwCompletedCallbacks w = {}" "fwCompleted w = {}"
    "fwFinishAfterAdmission w = {}"
  defines "v \<equiv> fold lifecycleStep es w"
  shows "distinct (fwCompletions v) \<and>
    set (fwCompletions v) = {lc \<in> fwCompleted v. lc \<notin> fwAdmitting v}"
proof -
  have "lifecycleInv w" using assms(1-4) by (simp add: lifecycleInv_def)
  then have "lifecycleInv v"
    unfolding v_def by (induction es arbitrary: w) (simp_all add: lifecycleInv_step)
  then show ?thesis by (auto simp: lifecycleInv_def)
qed

theorem completion_is_told_once_witness:
  "distinct (fwCompletions (fold lifecycleStep
       [AdmitBegin 4, CompleteRun 4, CompleteRun 5, AdmitEnd 4 True, AdmitBegin 6, CompleteRun 4]
       (sampleWorld (sampleQueue DropOld [])))) \<and>
   set (fwCompletions (fold lifecycleStep
       [AdmitBegin 4, CompleteRun 4, CompleteRun 5, AdmitEnd 4 True, AdmitBegin 6, CompleteRun 4]
       (sampleWorld (sampleQueue DropOld [])))) = {4, 5}"
proof -
  let ?w = "sampleWorld (sampleQueue DropOld [])"
  let ?es = "[AdmitBegin 4, CompleteRun 4, CompleteRun 5, AdmitEnd 4 True, AdmitBegin 6, CompleteRun 4]"
  have start: "fwCompletions ?w = []" "fwCompletedCallbacks ?w = {}" "fwCompleted ?w = {}"
    "fwFinishAfterAdmission ?w = {}" by (simp_all add: sampleWorld_def)
  have "fwCompleted (fold lifecycleStep ?es ?w) = {5, 4}" "fwAdmitting (fold lifecycleStep ?es ?w) = {6}"
    by (simp_all add: sampleWorld_def sampleRun_def admitFollowupRunBegin_def completeFollowupRunLifecycle_def
        completeLifecycle_def finishLifecycle_def admitFollowupRunEnd_def)
  then show ?thesis using completion_is_told_once [OF start, of ?es] by auto
qed

end
