(* ===== verification/FollowupDrainProofs.thy ===== *)
theory FollowupDrainProofs
  imports FollowupDrain FollowupClaims FollowupLifecycles
begin

text \<open>
  The drain of the follow-up queue: how collected runs are grouped, what the by-reference removals
  keep, and what happens to a queue that changes while a delivery is awaited.
\<close>

section \<open>Groups of a collect step\<close>

fun adjacentDiffer :: "('a \<Rightarrow> 'k) \<Rightarrow> 'a list list \<Rightarrow> bool" where
  "adjacentDiffer keyOf (g # h # gs) = (keyOf (last g) \<noteq> keyOf (hd h) \<and> adjacentDiffer keyOf (h # gs))"
| "adjacentDiffer keyOf gs = True"

definition uniformGroups :: "('a \<Rightarrow> 'k) \<Rightarrow> 'a list list \<Rightarrow> bool" where
  "uniformGroups keyOf gs \<longleftrightarrow>
     (\<forall>g \<in> set gs. g \<noteq> [] \<and> (\<forall>x \<in> set g. \<forall>y \<in> set g. keyOf x = keyOf y))"

lemma adjacentDiffer_snoc:
  "adjacentDiffer keyOf (gs @ [g, h]) \<longleftrightarrow> adjacentDiffer keyOf (gs @ [g]) \<and> keyOf (last g) \<noteq> keyOf (hd h)"
  by (induction keyOf gs rule: adjacentDiffer.induct) auto

lemma adjacentDiffer_grow:
  "g \<noteq> [] \<Longrightarrow> adjacentDiffer keyOf (gs @ [g @ [x]]) = adjacentDiffer keyOf (gs @ [g])"
  by (induction keyOf gs rule: adjacentDiffer.induct) auto

lemma uniform_snoc:
  assumes "uniformGroups keyOf groups" "cur \<noteq> []" "\<forall>x \<in> set cur. Some (keyOf x) = key"
  shows "uniformGroups keyOf (groups @ [cur])"
proof -
  have same: "\<forall>x \<in> set cur. \<forall>y \<in> set cur. keyOf x = keyOf y"
    using assms(3) by (metis option.inject)
  show ?thesis
    unfolding uniformGroups_def
  proof
    fix g assume "g \<in> set (groups @ [cur])"
    then have "g \<in> set groups \<or> g = cur" by auto
    then show "g \<noteq> [] \<and> (\<forall>x \<in> set g. \<forall>y \<in> set g. keyOf x = keyOf y)"
      using assms(1,2) same unfolding uniformGroups_def by blast
  qed
qed

lemma splitLoop_groups:
  assumes "uniformGroups keyOf groups" "cur \<noteq> []" "\<forall>x \<in> set cur. Some (keyOf x) = key"
    and "adjacentDiffer keyOf (groups @ [cur])"
  shows "concat (splitLoop keyOf groups cur key xs) = concat groups @ cur @ xs"
    and "uniformGroups keyOf (splitLoop keyOf groups cur key xs)"
    and "adjacentDiffer keyOf (splitLoop keyOf groups cur key xs)"
proof -
  have "concat (splitLoop keyOf groups cur key xs) = concat groups @ cur @ xs \<and>
    uniformGroups keyOf (splitLoop keyOf groups cur key xs) \<and>
    adjacentDiffer keyOf (splitLoop keyOf groups cur key xs)"
    using assms
  proof (induction keyOf groups cur key xs rule: splitLoop.induct)
    case (1 keyOf groups cur key)
    then show ?case using uniform_snoc [of keyOf groups cur key] by simp
  next
    case (2 keyOf groups cur key item rest)
    show ?case
    proof (cases "Some (keyOf item) = key")
      case True
      have ad: "adjacentDiffer keyOf (groups @ [cur @ [item]])"
        using 2(4,6) by (simp add: adjacentDiffer_grow)
      have all: "\<forall>x \<in> set (cur @ [item]). Some (keyOf x) = Some (keyOf item)"
        using 2(5) True by (metis Un_iff empty_iff empty_set insert_iff list.simps(15) set_append)
      have c: "cur = [] \<or> Some (keyOf item) = key" using True by simp
      have step: "splitLoop keyOf groups cur key (item # rest) =
          splitLoop keyOf groups (cur @ [item]) (Some (keyOf item)) rest" using c by simp
      have ne: "cur @ [item] \<noteq> []" by simp
      from 2(1) [OF refl c 2(3) ne all ad] show ?thesis unfolding step by simp
    next
      case False
      have "last cur \<in> set cur" using 2(4) by simp
      then have "keyOf (last cur) \<noteq> keyOf item" using 2(5) False by metis
      with 2(6) have ad: "adjacentDiffer keyOf ((groups @ [cur]) @ [[item]])"
        by (simp add: adjacentDiffer_snoc)
      have un: "uniformGroups keyOf (groups @ [cur])" using 2(3-5) by (rule uniform_snoc)
      have c: "\<not> (cur = [] \<or> Some (keyOf item) = key)" using 2(4) False by simp
      have step: "splitLoop keyOf groups cur key (item # rest) =
          splitLoop keyOf (groups @ [cur]) [item] (Some (keyOf item)) rest" using c by simp
      have ne: "[item] \<noteq> []" and all: "\<forall>x \<in> set [item]. Some (keyOf x) = Some (keyOf item)"
        by simp_all
      from 2(2) [OF refl c un ne all ad] show ?thesis unfolding step by simp
    qed
  qed
  then show "concat (splitLoop keyOf groups cur key xs) = concat groups @ cur @ xs"
    "uniformGroups keyOf (splitLoop keyOf groups cur key xs)"
    "adjacentDiffer keyOf (splitLoop keyOf groups cur key xs)" by simp_all
qed

lemma splitCollectItems_groups:
  "concat (splitCollectItems keyOf xs) = xs"
  "uniformGroups keyOf (splitCollectItems keyOf xs)"
  "adjacentDiffer keyOf (splitCollectItems keyOf xs)"
proof -
  have "concat (splitCollectItems keyOf xs) = xs \<and> uniformGroups keyOf (splitCollectItems keyOf xs) \<and>
      adjacentDiffer keyOf (splitCollectItems keyOf xs)"
  proof (cases xs)
    case (Cons x ys)
    have "uniformGroups keyOf []" by (simp add: uniformGroups_def)
    note loop = splitLoop_groups [OF this, of "[x]" "Some (keyOf x)" ys]
    show ?thesis
    proof (cases "ys = []")
      case True
      with Cons show ?thesis by (simp add: splitCollectItems_def uniformGroups_def)
    next
      case False
      then have "splitCollectItems keyOf xs = splitLoop keyOf [] [x] (Some (keyOf x)) ys"
        using Cons by (simp add: splitCollectItems_def)
      with loop Cons show ?thesis by simp
    qed
  qed (simp add: splitCollectItems_def uniformGroups_def)
  then show "concat (splitCollectItems keyOf xs) = xs" "uniformGroups keyOf (splitCollectItems keyOf xs)"
    "adjacentDiffer keyOf (splitCollectItems keyOf xs)" by simp_all
qed

text \<open>What equal delivery keys say of two runs.\<close>

lemma deliveryKey_eq:
  assumes "resolveFollowupDeliveryContextKey slack w i = resolveFollowupDeliveryContextKey slack w j"
  shows "resolveFollowupAuthorizationKey (fwExecutions w (frRun (fwRuns w i))) =
      resolveFollowupAuthorizationKey (fwExecutions w (frRun (fwRuns w j)))"
    and "resolveQueuedLifecycleDeliveryKey w (frQueuedLifecycle (fwRuns w i)) =
      resolveQueuedLifecycleDeliveryKey w (frQueuedLifecycle (fwRuns w j))"
    and "channelRouteDedupeKey (originRoute (fwRuns w i)) = channelRouteDedupeKey (originRoute (fwRuns w j))"
    and "kopt (Option.bind (frQueuedLifecycle (fwRuns w i)) (\<lambda>lc. qlOwnerKey (fwLifecycles w lc))) =
      kopt (Option.bind (frQueuedLifecycle (fwRuns w j)) (\<lambda>lc. qlOwnerKey (fwLifecycles w lc)))"
  using assms by (simp_all add: resolveFollowupDeliveryContextKey_def Let_def jsonStringify_inj)

lemma authorizationKey_eq:
  assumes "resolveFollowupAuthorizationKey d = resolveFollowupAuthorizationKey e"
  shows "nullish (exSenderId d) [] = nullish (exSenderId e) []" "exSenderIsOwner d = exSenderIsOwner e"
    and "nullish (exSenderE164 d) [] = nullish (exSenderE164 e) []"
  using assms by (simp_all add: resolveFollowupAuthorizationKey_def jsonStringify_inj kopt_def)


lemma single_owner:
  assumes "\<forall>i \<in> set xs. \<forall>j \<in> set xs.
    resolveFollowupDeliveryContextKey slack w i = resolveFollowupDeliveryContextKey slack w j"
  shows "singleAdmissionOwner w xs"
proof -
  have same: "lc = lc'" if own: "lc \<in> set (admissionOwners w xs)" "lc' \<in> set (admissionOwners w xs)" for lc lc'
  proof -
    obtain i where i: "i \<in> set xs" "frQueuedLifecycle (fwRuns w i) = Some lc" "qlOnAdmitted (fwLifecycles w lc)"
      using own(1) by (auto simp: admissionOwners_def split: option.splits)
    obtain j where j: "j \<in> set xs" "frQueuedLifecycle (fwRuns w j) = Some lc'" "qlOnAdmitted (fwLifecycles w lc')"
      using own(2) by (auto simp: admissionOwners_def split: option.splits)
    have "resolveFollowupDeliveryContextKey slack w i = resolveFollowupDeliveryContextKey slack w j"
      using assms i(1) j(1) by blast
    from deliveryKey_eq(2) [OF this] i(2) j(2)
    have "resolveQueuedLifecycleDeliveryKey w (Some lc) = resolveQueuedLifecycleDeliveryKey w (Some lc')"
      by simp
    then show ?thesis using i(3) j(3)
      by (simp add: resolveQueuedLifecycleDeliveryKey_def Let_def jsonStringify_inj nat_digits_inj)
  qed
  have "distinct (admissionOwners w xs)" by (simp add: admissionOwners_def)
  then have "length (admissionOwners w xs) = card (set (admissionOwners w xs))"
    by (simp only: distinct_card)
  also have "\<dots> \<le> Suc 0"
    using same by (subst card_le_Suc0_iff_eq) (rule finite_set, blast)
  finally show ?thesis by (simp add: singleAdmissionOwner_def)
qed

text \<open>
  C16. A collect step cuts the queue, in order and without loss, into groups that have one route, one
  authorization context and at most one admission owner, and cuts only where they change.
\<close>

theorem collect_groups_share_authorization:
  fixes w :: followup_world and xs :: "ref list" and slack :: "string option \<Rightarrow> bool"
  defines "groups \<equiv> splitCollectItemsByDeliveryContext slack w xs"
  shows "concat groups = xs \<and>
    adjacentDiffer (resolveFollowupDeliveryContextKey slack w) groups \<and>
    (\<forall>g \<in> set groups. g \<noteq> [] \<and> singleAdmissionOwner w g \<and>
      (\<forall>i \<in> set g. \<forall>j \<in> set g.
        resolveFollowupAuthorizationKey (fwExecutions w (frRun (fwRuns w i))) =
          resolveFollowupAuthorizationKey (fwExecutions w (frRun (fwRuns w j))) \<and>
        exSenderIsOwner (fwExecutions w (frRun (fwRuns w i))) =
          exSenderIsOwner (fwExecutions w (frRun (fwRuns w j))) \<and>
        channelRouteDedupeKey (originRoute (fwRuns w i)) =
          channelRouteDedupeKey (originRoute (fwRuns w j))))"
proof -
  let ?key = "resolveFollowupDeliveryContextKey slack w"
  have eq: "groups = splitCollectItems ?key xs" by (simp add: groups_def splitCollectItemsByDeliveryContext_def)
  have uni: "g \<noteq> []" "\<forall>i \<in> set g. \<forall>j \<in> set g. ?key i = ?key j" if "g \<in> set groups" for g
    using splitCollectItems_groups(2) [of ?key xs] that unfolding uniformGroups_def eq by blast+
  have auth: "resolveFollowupAuthorizationKey (fwExecutions w (frRun (fwRuns w i))) =
      resolveFollowupAuthorizationKey (fwExecutions w (frRun (fwRuns w j)))"
    if "g \<in> set groups" "i \<in> set g" "j \<in> set g" for g i j
    by (rule deliveryKey_eq(1) [of slack]) (use uni(2) [OF that(1)] that(2,3) in blast)
  have route: "channelRouteDedupeKey (originRoute (fwRuns w i)) = channelRouteDedupeKey (originRoute (fwRuns w j))"
    if "g \<in> set groups" "i \<in> set g" "j \<in> set g" for g i j
    by (rule deliveryKey_eq(3) [of slack]) (use uni(2) [OF that(1)] that(2,3) in blast)
  show ?thesis
  proof (intro conjI ballI)
    show "concat groups = xs" "adjacentDiffer ?key groups"
      unfolding eq by (rule splitCollectItems_groups)+
    fix g assume g: "g \<in> set groups"
    show "g \<noteq> []" using uni(1) [OF g] .
    show "singleAdmissionOwner w g" using single_owner uni(2) [OF g] by blast
    fix i j assume ij: "i \<in> set g" "j \<in> set g"
    show "resolveFollowupAuthorizationKey (fwExecutions w (frRun (fwRuns w i))) =
        resolveFollowupAuthorizationKey (fwExecutions w (frRun (fwRuns w j)))" by (rule auth [OF g ij])
    then show "exSenderIsOwner (fwExecutions w (frRun (fwRuns w i))) =
        exSenderIsOwner (fwExecutions w (frRun (fwRuns w j)))" by (rule authorizationKey_eq(2))
    show "channelRouteDedupeKey (originRoute (fwRuns w i)) =
        channelRouteDedupeKey (originRoute (fwRuns w j))" by (rule route [OF g ij])
  qed
qed

theorem collect_groups_share_authorization_witness:
  "let w = sampleWorld (sampleQueue Summarize [1, 2]);
       groups = splitCollectItemsByDeliveryContext (\<lambda>_. False) w [1, 2]
   in concat groups = [1, 2] \<and> list_all (singleAdmissionOwner w) groups"
  using collect_groups_share_authorization [of "\<lambda>_. False" "sampleWorld (sampleQueue Summarize [1, 2])" "[1, 2]"]
  by (simp add: list_all_iff Let_def)

section \<open>Aborted runs are removed by position\<close>

text \<open>
  C36. While the notice for an aborted run is awaited, a run is put in front of the queue.  The
  aborted run stays, and the run before it leaves the queue: it is not delivered, and nothing
  completes its lifecycle.
\<close>

theorem aborted_scan_removes_the_wrong_run:
  assumes w: "worldInv w" and q: "jm_get (fwQueues w) key = Some q"
    and scan: "dropAbortedBegin q w = ScanRun index item" and index: "0 < index"
    and distinct: "distinct (items (fwQueueObjects w q))" "run \<notin> set (items (fwQueueObjects w q))"
    and acc: "enqueueFollowupRun slack accepts now key run settings dm cb restart AtFront w = (True, w1)"
    and room: "dropNeeded (queueAt w key settings) = 0"
  defines "victim \<equiv> items (fwQueueObjects w q) ! (index - 1)"
    and "w2 \<equiv> fst (dropAbortedAfterRun q index item w1)"
  shows "victim \<noteq> item \<and> victim \<in> set (items (fwQueueObjects w1 q)) \<and>
    victim \<notin> set (items (fwQueueObjects w2 q)) \<and> item \<in> set (items (fwQueueObjects w2 q)) \<and>
    fwCompleted w2 = set_option (frQueuedLifecycle (fwRuns w1 item)) \<union> fwCompleted w1"
proof -
  define xs where "xs = items (fwQueueObjects w q)"
  have "dropAbortedScan w xs n = ScanRun index item \<Longrightarrow> n \<le> length xs \<Longrightarrow> index < n \<and> item = xs ! index" for n
    by (induction w xs n rule: dropAbortedScan.induct) (auto split: if_splits)
  from this [of "length xs"] scan have item: "index < length xs" "item = xs ! index"
    by (simp_all add: dropAbortedBegin_def xs_def)
  obtain k where k: "index = Suc k" using index by (cases index) auto
  have "queuedRuns w key = xs" using q by (simp add: queuedRuns_def xs_def)
  moreover have "items (queueAt w key settings) = queuedRuns w key"
    using q by (simp add: queueAt_def queuedRuns_def)
  moreover have "items (fwQueueObjects w1 q) = run # items (queueAt w key settings)"
    using enqueue_accepted_queue [OF w acc] room q by (auto simp: withRun_def)
  ultimately have w1: "items (fwQueueObjects w1 q) = run # xs" by simp
  have w2: "items (fwQueueObjects w2 q) = run # take k xs @ drop (Suc k) xs"
    "fwCompleted w2 = set_option (frQueuedLifecycle (fwRuns w1 item)) \<union> fwCompleted w1"
    using w1 k by (simp_all add: w2_def dropAbortedAfterRun_def Let_def)
  have ks: "k < length xs" "xs ! k = victim" using item k by (simp_all add: victim_def xs_def)
  then have split: "xs = take k xs @ victim # drop (Suc k) xs" by (metis id_take_nth_drop)
  then have "victim \<notin> set (take k xs @ drop (Suc k) xs)" using distinct(1) by (metis xs_def
      distinct.simps(2) distinct_append not_distinct_conv_prefix set_append Un_iff)
  moreover have "item \<in> set (drop (Suc k) xs)"
    using item k by (metis Cons_nth_drop_Suc list.set_intros(1))
  moreover have "victim \<in> set xs" using ks by (metis nth_mem)
  moreover have "victim \<noteq> run" using calculation(3) distinct(2) by (auto simp: xs_def)
  ultimately show ?thesis using w1 w2 by auto
qed


text \<open>Run 2 is aborted, run 3 comes with priority: run 1 is gone, and run 2 is still there.\<close>

theorem aborted_scan_removes_the_wrong_run_witness:
  "let w = (sampleWorld (sampleQueue Summarize [1, 2]))\<lparr>fwAborted := {2},
         fwRuns := (\<lambda>r. (sampleRun r)\<lparr>frAbortSignal := Some r\<rparr>)\<rparr>;
       w1 = snd (enqueueFollowupRun (\<lambda>_. False) (\<lambda>_. True) 5 ''k'' 3 (sampleSettings Summarize) DedupeNone
              None False AtFront w);
       w2 = fst (dropAbortedAfterRun 90 1 2 w1)
   in 1 \<notin> set (items (fwQueueObjects w2 90)) \<and> 2 \<in> set (items (fwQueueObjects w2 90))"
proof -
  define w where "w = (sampleWorld (sampleQueue Summarize [1, 2]))\<lparr>fwAborted := {2},
         fwRuns := (\<lambda>r. (sampleRun r)\<lparr>frAbortSignal := Some r\<rparr>)\<rparr>"
  let ?enq = "enqueueFollowupRun (\<lambda>_. False) (\<lambda>_. True) 5 ''k'' 3 (sampleSettings Summarize) DedupeNone None False
    AtFront w"
  have w: "worldInv w" "jm_get (fwQueues w) ''k'' = Some 90" "fwQueueObjects w 90 = sampleQueue Summarize [1, 2]"
    "\<And>r. isFollowupRunAborted w r \<longleftrightarrow> r = 2"
    using sample_ok by (simp_all add: w_def worldInv_def sampleWorld_def jm_get_def isFollowupRunAborted_def
        signalAborted_def sampleRun_def)
  have at: "queueAt w ''k'' (sampleSettings Summarize) = sampleQueue Summarize [1, 2]"
    using sample_queueAt [of Summarize "[1, 2]"] by (simp add: queueAt_def w_def sampleWorld_def)
  have room: "dropNeeded (sampleQueue Summarize [1, 2]) = 0"
    by (simp add: dropNeeded_def countPendingQueueItems_def sample_defs settingCap_def)
  have scan: "dropAbortedBegin 90 w = ScanRun 1 2"
    using dropAbortedScan.simps(2) [of w "[1, 2]" 1] by (simp add: dropAbortedBegin_def w numeral_2_eq_2)
  have "acceptsRun (\<lambda>_. True) 3 w" by (simp add: acceptsRun_def split: option.split)
  moreover have "hasRoom AtFront 3 w (sampleQueue Summarize [1, 2])" unfolding hasRoom_def room by simp
  ultimately have "fst ?enq"
    unfolding enqueue_admits_iff [OF w(1)] at by (simp add: w(4) seenRecently_def)
  then have acc: "?enq = (True, snd ?enq)" by (simp add: prod_eq_iff)
  show ?thesis
    using aborted_scan_removes_the_wrong_run [OF w(1,2) scan _ _ _ acc] w(3)
    unfolding Let_def w_def [symmetric] at room by simp
qed

section \<open>A summary nobody may deliver\<close>

lemma dropAbortedSources_none:
  "\<forall>s \<in> set (take n (fqSummarySources (fwQueueObjects w q))). \<not> isFollowupRunAborted w s \<Longrightarrow>
   n \<le> length (fqSummarySources (fwQueueObjects w q)) \<Longrightarrow> dropAbortedSources q n (k, w) = (k, w)"
proof (induction n)
  case (Suc n)
  then have "fqSummarySources (fwQueueObjects w q) ! n \<in> set (take (Suc n) (fqSummarySources (fwQueueObjects w q)))"
    by (simp add: take_Suc_conv_app_nth)
  moreover have "set (take n (fqSummarySources (fwQueueObjects w q))) \<subseteq>
      set (take (Suc n) (fqSummarySources (fwQueueObjects w q)))"
    by (rule set_take_subset_set_take) simp
  ultimately show ?case using Suc by auto
qed simp

lemma buildQueueSummaryPrompt_policy:
  "dropPolicy s \<noteq> Summarize \<Longrightarrow> buildQueueSummaryPrompt s noun title = None"
  by (simp add: buildQueueSummaryPrompt_def)

lemma resolveGroup_prefix: "prefix (resolveOverflowSummarySourceGroup slack w sources) sources"
  by (auto simp: resolveOverflowSummarySourceGroup_def takeWhile_is_prefix split: list.split)

text \<open>A queue with undelivered summaries and another drop policy.\<close>

definition stuckSummary :: "followup_world \<Rightarrow> string \<Rightarrow> ref \<Rightarrow> bool" where
  "stuckSummary w key q \<longleftrightarrow>
     (let Q = fwQueueObjects w q
      in jm_get (fwQueues w) key = Some q \<and> fqDraining Q \<and> items Q = [] \<and> 0 < droppedCount Q \<and>
         dropPolicy Q \<noteq> Summarize \<and> fqEvictedSummaryCount Q = 0 \<and> elisionsOk (fqSummaryElisions Q) \<and>
         (\<forall>s \<in> set (queueSources Q). \<not> isFollowupRunAborted w s))"

lemma stuck_elided:
  assumes "stuckSummary w key q"
  shows "drainElidedBegin slack q w = (ElidedSkip, w)"
proof (cases "fqSummaryElisions (fwQueueObjects w q)")
  case Nil
  then show ?thesis by (simp add: drainElidedBegin_def)
next
  case (Cons e es)
  have "\<forall>s \<in> set (elSources e). \<not> isFollowupRunAborted w s"
    using assms Cons by (auto simp: stuckSummary_def Let_def queueSources_elided)
  then have sources: "filter (\<lambda>s. \<not> isFollowupRunAborted w s) (elSources e) = elSources e"
    "filter (isFollowupRunAborted w) (elSources e) = []"
    by (simp_all add: filter_id_conv filter_empty_conv)
  have "elSources e \<noteq> []" using assms Cons by (auto simp: stuckSummary_def Let_def elisionsOk_def)
  moreover have "dropAbortedElided q w = w"
    unfolding dropAbortedElided_def Let_def Cons list.case sources
    using \<open>elSources e \<noteq> []\<close> Cons by (simp add: setQueueObject_id)
  moreover have "dropPolicy (fwQueueObjects w q) \<noteq> Summarize"
    using assms by (simp add: stuckSummary_def Let_def)
  ultimately show ?thesis
    unfolding drainElidedBegin_def Let_def Cons list.case sources
    by (simp add: buildQueueSummaryPrompt_policy)
qed

lemma stuck_pass:
  assumes "stuckSummary w key q"
  shows "drainAction q w = RunSummary" "summaryStepBegin slack q w = (SummaryNone, w)"
    "drainActionAfterSummary q w = StopDrain"
proof -
  define Q where "Q = fwQueueObjects w q"
  have Q: "items Q = []" "0 < droppedCount Q" "dropPolicy Q \<noteq> Summarize" "fqEvictedSummaryCount Q = 0"
    "\<forall>s \<in> set (fqSummarySources Q). \<not> isFollowupRunAborted w s"
    using assms by (auto simp: stuckSummary_def Let_def Q_def queueSources_elided)
  show "drainAction q w = RunSummary" "drainActionAfterSummary q w = StopDrain"
    using Q(1,2) by (simp_all add: drainAction_def drainActionAfterSummary_def Let_def Q_def
        priorityRun_def nextRunBegin_def drainNextBegin_def)
  have "dropAbortedQueueSummarySources q w = (0, w)"
    using Q(5) dropAbortedSources_none by (simp add: dropAbortedQueueSummarySources_def Q_def)
  moreover have "createQueueSummaryDelivery Q (Some ss) = None" for ss
    using Q(3) by (simp add: createQueueSummaryDelivery_def buildQueueSummaryPrompt_policy Let_def)
  ultimately show "summaryStepBegin slack q w = (SummaryNone, w)"
    using Q(4) stuck_elided [OF assms]
    by (simp add: summaryStepBegin_def Q_def split_def Let_def)
qed

lemma stuck_finish:
  fixes now :: ms and cb :: ref
  assumes "stuckSummary w key q"
  defines "w' \<equiv> drainFinish now key q cb False w"
  shows "stuckSummary w' key q" "fwQueueObjects w' q = fwQueueObjects w q"
    "length (fwStartedDrains w') = Suc (length (fwStartedDrains w))"
proof -
  define Q where "Q = fwQueueObjects w q"
  have Q: "jm_get (fwQueues w) key = Some q" "fqDraining Q" "0 < droppedCount Q"
    using assms(1) by (simp_all add: stuckSummary_def Let_def Q_def)
  have same: "Q\<lparr>fqDraining := True\<rparr> = Q" using Q(2) by simp
  have shape: "fwQueues w' = fwQueues w" "fwQueueObjects w' q = Q" "fwRuns w' = fwRuns w"
    "fwAborted w' = fwAborted w" "length (fwStartedDrains w') = Suc (length (fwStartedDrains w))"
    using Q same by (simp_all add: w'_def drainFinish_def Let_def Q_def scheduleFollowupDrain_def
        beginQueueDrain_def rememberFollowupDrainCallback_def setQueueObject_def)
  then show "fwQueueObjects w' q = fwQueueObjects w q"
    "length (fwStartedDrains w') = Suc (length (fwStartedDrains w))" by (simp_all add: Q_def)
  have "isFollowupRunAborted w' s = isFollowupRunAborted w s" for s
    using shape by (simp add: isFollowupRunAborted_def signalAborted_def split: option.split)
  with assms(1) shape show "stuckSummary w' key q" by (simp add: stuckSummary_def Let_def Q_def)
qed

text \<open>
  C35. When the drop policy stops being \<open>summarize\<close> while dropped runs still wait for their summary,
  the drain of the emptied queue ends and starts itself again without end: no pass delivers or
  forgets anything.
\<close>

theorem stuck_summary_drains_forever:
  fixes now :: ms and cb :: ref
  assumes "stuckSummary w key q"
  defines "v \<equiv> \<lambda>n. ((drainFinish now key q cb False) ^^ n) w"
  shows "fwQueueObjects (v n) q = fwQueueObjects w q \<and>
    length (fwStartedDrains (v n)) = length (fwStartedDrains w) + n \<and>
    drainAction q (v n) = RunSummary \<and> summaryStepBegin slack q (v n) = (SummaryNone, v n) \<and>
    drainActionAfterSummary q (v n) = StopDrain"
proof -
  have "stuckSummary (v n) key q \<and> fwQueueObjects (v n) q = fwQueueObjects w q \<and>
      length (fwStartedDrains (v n)) = length (fwStartedDrains w) + n"
    unfolding v_def by (induction n) (simp_all add: assms(1) stuck_finish)
  then show ?thesis using stuck_pass by blast
qed

theorem stuck_summary_drains_forever_witness:
  "length (fwStartedDrains (((drainFinish 7 ''k'' 90 0 False) ^^ 1000)
     (sampleWorld ((sampleQueue DropOld [])\<lparr>fqDraining := True, droppedCount := 1, summaryLines := [[]],
        fqSummarySources := [1]\<rparr>)))) = 1000"
proof -
  let ?w = "sampleWorld ((sampleQueue DropOld [])\<lparr>fqDraining := True, droppedCount := 1, summaryLines := [[]],
        fqSummarySources := [1]\<rparr>)"
  have "stuckSummary ?w ''k'' 90"
    by (simp add: stuckSummary_def sample_defs jm_get_def elisionsOk_def queueSources_def
        isFollowupRunAborted_def signalAborted_def)
  from stuck_summary_drains_forever [OF this, where now = 7 and cb = 0 and n = 1000] show ?thesis by (simp add: sampleWorld_def)
qed

end
