(* ===== verification/FollowupReach.thy ===== *)
theory FollowupReach
  imports FollowupSummaries FollowupClaims FollowupLifecycles FollowupDrainProofs
begin

text \<open>
  Follow-up queues as a state machine: what enqueues, clears, session changes, cancellations and
  drains can make of the queues in any order, when the steps of a drain are cut at its awaits.
\<close>

section \<open>The steps\<close>

text \<open>A summary delivery that is being awaited.\<close>

record awaited_summary =
  awQueue :: ref
  awDelivery :: summary_delivery
  awProtected :: "ref list"
  awInherited :: "ref list"
  awElided :: "elided_run option"
  awAdmitted :: bool

record followup_system =
  fsWorld :: followup_world
  fsAwaited :: "awaited_summary list"

fun awaitedDelivery ::
    "summary_begin \<Rightarrow> (summary_delivery \<times> ref list \<times> elided_run option) option" where
  "awaitedDelivery (SummaryElided run) = Some (erDelivery run, erProtected run, Some run)"
| "awaitedDelivery (SummaryGroup d) = Some (d, sdSources d, None)"
| "awaitedDelivery _ = None"

text \<open>
  The steps that need no memory of a summary: the operations of other modules, and the segments of
  a drain on the queue object \<open>q\<close>.
\<close>

inductive world_step :: "(string option \<Rightarrow> bool) \<Rightarrow> followup_world \<Rightarrow> followup_world \<Rightarrow> bool"
  for slack where
  new_run: "world_step slack w (w\<lparr>fwRuns := (fwRuns w)(fwNext w := r), fwNext := Suc (fwNext w)\<rparr>)"
| enqueue: "world_step slack w
    (snd (enqueueFollowupRun slack accepts now key run settings dm cb restart position w))"
| clear: "world_step slack w (snd (clearFollowupQueue key w))"
| refresh: "world_step slack w (refreshQueuedFollowupSession p w)"
| abort: "world_step slack w (w\<lparr>fwAborted := insert sig (fwAborted w)\<rparr>)"
| lifecycle: "world_step slack w (lifecycleStep e w)"
| schedule: "world_step slack w (scheduleFollowupDrain key callback w)"
| aborted_run: "world_step slack w (fst (dropAbortedAfterRun q index item w))"
| priority_run: "world_step slack w (priorityAfterRun q prio w)"
| next_begin: "nextRunBegin q w = Some (r, w') \<Longrightarrow> world_step slack w w'"
| next_end: "world_step slack w (nextRunEnd key q r threw w)"
| group_begin: "world_step slack w (snd (collectGroupBegin q grp w))"
| group_admitted: "world_step slack w (consumeAdmittedGroup q active w)"
| group_end: "world_step slack w (snd (collectGroupEnd key q active admitted threw w))"
| finish: "world_step slack w (drainFinish now key q callback failed w)"

inductive followup_step :: "(string option \<Rightarrow> bool) \<Rightarrow> followup_system \<Rightarrow> followup_system \<Rightarrow> bool"
  for slack where
  world: "world_step slack (fsWorld s) w \<Longrightarrow> followup_step slack s (s\<lparr>fsWorld := w\<rparr>)"
| summary_quick: "summaryStepBegin slack q (fsWorld s) = (b, w) \<Longrightarrow> awaitedDelivery b = None \<Longrightarrow>
    followup_step slack s (s\<lparr>fsWorld := w\<rparr>)"
| summary_start: "summaryStepBegin slack q (fsWorld s) = (b, w) \<Longrightarrow>
    awaitedDelivery b = Some (d, sources, run) \<Longrightarrow> singleAdmissionOwner w sources \<Longrightarrow>
    summaryRunBegin q sources w = (inherited, w') \<Longrightarrow>
    followup_step slack s \<lparr>fsWorld = w', fsAwaited = \<lparr>awQueue = q, awDelivery = d,
      awProtected = sources, awInherited = inherited, awElided = run, awAdmitted = False\<rparr> # fsAwaited s\<rparr>"
| summary_admitted: "a \<in> set (fsAwaited s) \<Longrightarrow> \<not> awAdmitted a \<Longrightarrow>
    needsAdmission (fsWorld s) (awProtected a) \<Longrightarrow>
    followup_step slack s \<lparr>fsWorld = summaryRunAdmitted (awQueue a) (awDelivery a) (awProtected a) (fsWorld s),
      fsAwaited = a\<lparr>awAdmitted := True\<rparr> # remove1 a (fsAwaited s)\<rparr>"
| summary_end: "a \<in> set (fsAwaited s) \<Longrightarrow>
    summaryRunEnd (awQueue a) (awDelivery a) (awInherited a) (awProtected a) (awAdmitted a) outcome
      (fsWorld s) = (delivered, w) \<Longrightarrow>
    w' = (case awElided a of
            Some run \<Rightarrow> if delivered = Some True then drainElidedEnd (awQueue a) run w else w
          | None \<Rightarrow> w) \<Longrightarrow>
    followup_step slack s \<lparr>fsWorld = w', fsAwaited = remove1 a (fsAwaited s)\<rparr>"

section \<open>The invariant\<close>

definition worldOk :: "followup_world \<Rightarrow> bool" where
  "worldOk w \<longleftrightarrow> (\<forall>q. queueInv (fwQueueObjects w q)) \<and>
     (\<forall>key q. jm_get (fwQueues w) key = Some q \<longrightarrow> q < fwNext w) \<and> separateQueues w"

definition awaitedOk :: "awaited_summary \<Rightarrow> bool" where
  "awaitedOk a \<longleftrightarrow>
     (sdSources (awDelivery a) = [] \<or> awProtected a = [] \<longrightarrow> sdDroppedCount (awDelivery a) = 0)"

definition systemOk :: "followup_system \<Rightarrow> bool" where
  "systemOk s \<longleftrightarrow> worldOk (fsWorld s) \<and> (\<forall>a \<in> set (fsAwaited s). awaitedOk a)"

lemma worldOk_worldInv: "worldOk w \<Longrightarrow> worldInv w"
  by (auto simp: worldOk_def worldInv_def)

lemma worldOk_only:
  assumes "worldOk w" "queueInv (fwQueueObjects w' q) \<and> onlyQueue q w w'"
  shows "worldOk w'"
  using assms unfolding worldOk_def onlyQueue_def separateQueues_def by (metis less_le_trans)

lemma worldOk_same:
  assumes "worldOk w" "fwQueueObjects w' = fwQueueObjects w" "fwQueues w' = fwQueues w" "fwNext w \<le> fwNext w'"
  shows "worldOk w'"
  by (rule worldOk_only [OF assms(1), of _ 0]) (use assms in \<open>simp add: onlyQueue_def worldOk_def\<close>)

lemma queueInv_undrained: "undrained Q = undrained R \<Longrightarrow> queueInv Q = queueInv R"
  by (rule undrained_sel)

lemma worldOk_enqueue:
  assumes ok: "worldOk w"
  shows "worldOk (snd (enqueueFollowupRun slack accepts now key run settings dm cb restart position w))"
    (is "worldOk (snd ?e)")
proof -
  have one: "worldOk w'" if q: "jm_get (fwQueues w') = (jm_get (fwQueues w))(key := Some q)" "q < fwNext w'"
      "queueInv (fwQueueObjects w' q)" "fwNext w \<le> fwNext w'"
      "\<And>p. p \<noteq> q \<Longrightarrow> undrained (fwQueueObjects w' p) = undrained (fwQueueObjects w p)"
      "\<And>p. jm_get (fwQueues w) key = Some p \<Longrightarrow> q = p"
      "jm_get (fwQueues w) key = None \<Longrightarrow> q = Suc (fwNext w)" for q w'
  proof -
    have "k = key" if "jm_get (fwQueues w) k = Some q" for k
    proof (cases "jm_get (fwQueues w) key")
      case None
      with q(7) that ok show ?thesis by (fastforce simp: worldOk_def)
    next
      case (Some p)
      with q(6) that ok show ?thesis by (auto simp: worldOk_def separateQueues_def)
    qed
    then have "separateQueues w'"
      using ok by (auto simp: worldOk_def separateQueues_def q(1))
    moreover have "queueInv (fwQueueObjects w' p)" for p
      using ok q(3) queueInv_undrained [OF q(5), of p] by (cases "p = q") (simp_all add: worldOk_def)
    moreover have "p < fwNext w'" if "jm_get (fwQueues w') k = Some p" for k p
    proof (cases "k = key")
      case False
      then have "p < fwNext w" using that ok q(1) by (simp add: worldOk_def)
      then show ?thesis using q(4) by simp
    qed (use that q(1,2) in simp)
    ultimately show ?thesis by (simp add: worldOk_def)
  qed
  have inv: "worldInv w" using ok by (rule worldOk_worldInv)
  show ?thesis
  proof (cases "fst ?e")
    case True
    then have "?e = (True, snd ?e)" by (simp add: prod_eq_iff)
    from enqueue_accepted_queue [OF inv this] show ?thesis
      by (elim exE conjE) (rule one, (assumption | blast)+)
  next
    case False
    then have "?e = (False, snd ?e)" by (simp add: prod_eq_iff)
    from enqueue_rejected [OF inv this] show ?thesis
    proof
      define w1 where "w1 = protectedRun position run w"
      define g where "g = getFollowupQueue key settings w1"
      assume e: "fwQueueObjects (snd ?e) = fwQueueObjects (snd (getFollowupQueue key settings (protectedRun position run w)))
        \<and> fwQueues (snd ?e) = fwQueues (snd (getFollowupQueue key settings (protectedRun position run w)))
        \<and> fwNext (snd ?e) = fwNext (snd (getFollowupQueue key settings (protectedRun position run w)))"
      have w1: "worldInv w1" using inv by (simp add: w1_def)
      obtain q where q: "fwQueueObjects (snd g) = (fwQueueObjects w)(q := queueAt w1 key settings)"
        "jm_get (fwQueues (snd g)) = (jm_get (fwQueues w))(key := Some q)" "q < fwNext (snd g)"
        "queueInv (queueAt w1 key settings)" "jm_get (fwQueues w) key = None \<longrightarrow> q = Suc (fwNext w)"
        "\<forall>p. jm_get (fwQueues w) key = Some p \<longrightarrow> q = p"
        using getQueue_eq [OF w1, of key settings] by (auto simp: g_def w1_def)
      have "fwNext w \<le> fwNext (snd g)"
        using getQueue_sel(2) [OF w1, of key settings] by (simp add: g_def w1_def)
      moreover have "queueInv (fwQueueObjects (snd g) q)" using q(1,4) by simp
      moreover have "undrained (fwQueueObjects (snd g) p) = undrained (fwQueueObjects w p)" if "p \<noteq> q" for p
        using that q(1) by simp
      moreover note q(5,6)
      ultimately have "worldOk (snd g)" by (intro one [OF q(2,3)]) blast+
      then show ?thesis
        by (rule worldOk_same) (use e [folded w1_def, folded g_def] in simp_all)
    qed (use ok in simp)
  qed
qed

lemma worldOk_clear: "worldOk w \<Longrightarrow> worldOk (snd (clearFollowupQueue key w))"
proof -
  assume ok: "worldOk w"
  show ?thesis
  proof (cases "getExistingFollowupQueue (js_trim key) w")
    case (Some q)
    define Q where "Q = fwQueueObjects w q"
    define w' where "w' = setQueueObject q emptiedQueue (fold completeFollowupRunLifecycle (queueSources Q)
      (w\<lparr>fwAborted := insert (fqAbortController Q) (fwAborted w)\<rparr>))"
    have "queueInv Q" using ok by (simp add: worldOk_def Q_def)
    then have "worldOk w'"
      by (intro worldOk_only [OF ok, of _ q]) (simp add: w'_def onlyQueue_def Q_def queueInv_emptied)
    moreover have "snd (clearFollowupQueue key w) = w'\<lparr>fwQueues := jm_delete (js_trim key) (fwQueues w')\<rparr>"
      using Some by (simp add: clearFollowupQueue_def w'_def Q_def Let_def)
    ultimately show ?thesis
      by (auto simp: worldOk_def separateQueues_def jm.get_del split: if_splits)
  next
    case None
    then show ?thesis using ok by (simp add: clearFollowupQueue_def)
  qed
qed

lemma refresh_sel [simp]:
  "fwQueueObjects (refreshQueuedFollowupSession p w) = fwQueueObjects w"
  "fwQueues (refreshQueuedFollowupSession p w) = fwQueues w"
  "fwNext (refreshQueuedFollowupSession p w) = fwNext w"
proof -
  define f where "f = (\<lambda>s w. rewriteRun p (frRun (fwRuns w s)) w)"
  have "fwQueueObjects (fold f rs w) = fwQueueObjects w \<and> fwQueues (fold f rs w) = fwQueues w \<and>
      fwNext (fold f rs w) = fwNext w" for rs w
    by (induction rs arbitrary: w) (simp_all add: f_def rewriteRun_def)
  then show "fwQueueObjects (refreshQueuedFollowupSession p w) = fwQueueObjects w"
    "fwQueues (refreshQueuedFollowupSession p w) = fwQueues w"
    "fwNext (refreshQueuedFollowupSession p w) = fwNext w"
    unfolding refreshQueuedFollowupSession_def Let_def f_def [symmetric]
    by (simp_all add: rewriteRun_def split: option.split)
qed

lemma lifecycleStep_sel [simp]:
  "fwQueueObjects (lifecycleStep e w) = fwQueueObjects w" "fwQueues (lifecycleStep e w) = fwQueues w"
  "fwNext (lifecycleStep e w) = fwNext w"
  by (cases e; simp add: admitFollowupRunBegin_def admitFollowupRunEnd_def Let_def split: option.split)+

lemma queueInv_items [simp]:
  "queueInv (Q\<lparr>items := xs\<rparr>) = queueInv Q" "queueInv (Q\<lparr>fqInFlight := fl\<rparr>) = queueInv Q"
  "queueInv (Q\<lparr>fqDraining := b\<rparr>) = queueInv Q" "queueInv (Q\<lparr>fqLastEnqueuedAt := now\<rparr>) = queueInv Q"
  "queueInv (Q\<lparr>items := xs, fqInFlight := fl\<rparr>) = queueInv Q"
  "queueInv (Q\<lparr>fqActiveSummarySources := B\<rparr>) = queueInv Q"
  by (simp_all add: queueInv_def accounted_def)

lemma worldOk_set:
  "worldOk w \<Longrightarrow> (\<And>Q. queueInv Q \<Longrightarrow> queueInv (f Q)) \<Longrightarrow> worldOk (setQueueObject q f w)"
  by (rule worldOk_only [of w _ q]) (simp_all add: onlyQueue_def worldOk_def)

lemma worldOk_complete [simp]: "worldOk (completeFollowupRunLifecycle r w) = worldOk w"
  "worldOk (fold completeFollowupRunLifecycle rs w) = worldOk w"
  by (simp_all add: worldOk_def separateQueues_def)

lemma worldOk_schedule: "worldOk w \<Longrightarrow> worldOk (scheduleFollowupDrain key callback w)"
  using queueInv_undrained [OF schedule_undrained [of key callback w]]
  by (simp add: worldOk_def separateQueues_def)

lemma worldOk_unregister:
  "worldOk w \<Longrightarrow> qs = fwQueues w \<Longrightarrow>
   worldOk (clearFollowupDrainCallback key (w\<lparr>fwQueues := jm_delete key' qs\<rparr>))"
  by (auto simp: worldOk_def separateQueues_def clearFollowupDrainCallback_def jm.get_del split: if_splits)

lemma worldOk_finish: "worldOk w \<Longrightarrow> worldOk (drainFinish now key q callback failed w)"
  unfolding drainFinish_def Let_def
  by (simp add: worldOk_set worldOk_schedule worldOk_unregister)

lemma worldOk_nextEnd: "worldOk w \<Longrightarrow> worldOk (nextRunEnd key q r threw w)"
  by (simp add: nextRunEnd_def Let_def split_def worldOk_set)

lemma worldOk_groupEnd: "worldOk w \<Longrightarrow> worldOk (snd (collectGroupEnd key q active admitted threw w))"
  by (simp add: collectGroupEnd_def Let_def completeGroup_def restoreGroupItems_def worldOk_set)

lemma worldOk_retire [simp]: "worldOk (fold retireFollowupRunCancellation rs w) = worldOk w"
  by (simp add: worldOk_def separateQueues_def)

lemma worldOk_step: "world_step slack w w' \<Longrightarrow> worldOk w \<Longrightarrow> worldOk w'"
proof (induction rule: world_step.induct)
  case (next_begin q w r w')
  then show ?case by (auto simp: nextRunBegin_def worldOk_set split: option.splits)
next
  case (new_run w r)
  then show ?case by (auto intro: worldOk_same)
next
  case (abort w sig)
  then show ?case by (auto intro: worldOk_same)
next
  case (refresh w p)
  then show ?case by (auto intro: worldOk_same)
next
  case (lifecycle w e)
  then show ?case by (auto intro: worldOk_same)
qed (simp_all add: worldOk_enqueue worldOk_clear worldOk_schedule worldOk_finish worldOk_nextEnd worldOk_groupEnd
    worldOk_set dropAbortedAfterRun_def priorityAfterRun_def collectGroupBegin_def consumeAdmittedGroup_def Let_def)

text \<open>The deliveries a summary step starts.\<close>

lemma createDelivery_sources:
  "createQueueSummaryDelivery Q (Some ss) = Some d \<Longrightarrow> sdSources d = ss"
  by (auto simp: createQueueSummaryDelivery_def Let_def split: if_splits)

lemma drainElidedBegin_run:
  "drainElidedBegin slack q w = (ElidedRun run, w') \<Longrightarrow>
   sdDroppedCount (erDelivery run) = length (sdSources (erDelivery run))"
  by (auto simp: drainElidedBegin_def Let_def split: list.splits option.splits if_splits)

lemma awaited_ok:
  assumes "summaryStepBegin slack q w = (b, w')" "awaitedDelivery b = Some (d, sources, run)"
  shows "sdSources d = [] \<or> sources = [] \<longrightarrow> sdDroppedCount d = 0"
proof (cases b)
  case (SummaryElided r)
  then obtain w1 w2 where "drainElidedBegin slack q w1 = (ElidedRun r, w2)"
    using assms(1) by (auto simp: summaryStepBegin_def Let_def split: prod.splits if_splits
        elided_begin.splits option.splits)
  from drainElidedBegin_run [OF this] SummaryElided assms(2) show ?thesis
    by (auto simp: erProtected_def)
next
  case (SummaryGroup g)
  then have "sdSources g \<noteq> []"
    using assms(1) createDelivery_sources by (auto simp: summaryStepBegin_def Let_def
        split: prod.splits if_splits elided_begin.splits option.splits)
  with SummaryGroup assms(2) show ?thesis by auto
qed (use assms(2) in simp_all)

lemma worldOk_summaryStep:
  assumes "summaryStepBegin slack q w = (b, w')" "worldOk w"
  shows "worldOk w'"
proof -
  have "queueInv (fwQueueObjects w q)" using assms(2) by (simp add: worldOk_def)
  from summaryStepBegin_account [OF this, of slack] show ?thesis
    unfolding assms(1) snd_conv by (rule worldOk_only [OF assms(2)])
qed

lemma systemOk_step: "followup_step slack s s' \<Longrightarrow> systemOk s \<Longrightarrow> systemOk s'"
proof (induction rule: followup_step.induct)
  case (world s w)
  then show ?case by (simp add: systemOk_def worldOk_step)
next
  case (summary_quick q s b w)
  then show ?case by (simp add: systemOk_def worldOk_summaryStep)
next
  case (summary_start q s b w d sources run inherited w')
  have "worldOk w" using worldOk_summaryStep [OF summary_start(1)] summary_start(5) by (simp add: systemOk_def)
  moreover have "w' = setQueueObject q (\<lambda>Q. Q\<lparr>fqActiveSummarySources := fqActiveSummarySources Q \<union> set sources\<rparr>) w"
    using summary_start(4) by (simp add: summaryRunBegin_def)
  ultimately have "worldOk w'" by (simp add: worldOk_set)
  then show ?case
    using summary_start(5) awaited_ok [OF summary_start(1,2)] by (simp add: systemOk_def awaitedOk_def)
next
  case (summary_admitted a s)
  then have a: "awaitedOk a" and ok: "worldOk (fsWorld s)" by (simp_all add: systemOk_def)
  have "worldOk (summaryRunAdmitted (awQueue a) (awDelivery a) (awProtected a) (fsWorld s))"
    by (rule worldOk_only [OF ok], rule summaryRunAdmitted_account)
      (use a ok in \<open>simp_all add: awaitedOk_def worldOk_def\<close>)
  with summary_admitted a show ?case
    by (auto simp: systemOk_def awaitedOk_def dest: notin_set_remove1)
next
  case (summary_end a s outcome delivered w w')
  then have a: "awaitedOk a" and ok: "worldOk (fsWorld s)" by (simp_all add: systemOk_def)
  have end_w: "w = snd (summaryRunEnd (awQueue a) (awDelivery a) (awInherited a) (awProtected a) (awAdmitted a)
      outcome (fsWorld s))" by (simp add: summary_end(2))
  have w: "worldOk w"
    unfolding end_w by (rule worldOk_only [OF ok], rule summaryRunEnd_account)
      (use a ok in \<open>simp_all add: awaitedOk_def worldOk_def\<close>)
  have "worldOk (drainElidedEnd (awQueue a) run w)" for run
    by (rule worldOk_only [OF w], rule drainElidedEnd_account) (use w in \<open>simp add: worldOk_def\<close>)
  with w summary_end(3) have "worldOk w'" by (simp split: option.split)
  with summary_end(4) show ?case by (auto simp: systemOk_def dest: notin_set_remove1)
qed

text \<open>A program that has queued nothing yet; no object is a queue but as \<open>getFollowupQueue\<close> makes it.\<close>

definition initialSystem :: "followup_system \<Rightarrow> bool" where
  "initialSystem s \<longleftrightarrow> fsAwaited s = [] \<and> fwQueues (fsWorld s) = [] \<and>
     (\<forall>q. \<exists>c settings. fwQueueObjects (fsWorld s) q = applySettings settings (newFollowupQueue c settings))"

lemma systemOk_initial: "initialSystem s \<Longrightarrow> systemOk s"
  unfolding initialSystem_def systemOk_def worldOk_def separateQueues_def
  using queueInv_new by (metis empty_iff jm_get_Nil list.set(1) option.distinct(1))

lemma systemOk_reachable: "(followup_step slack)\<^sup>*\<^sup>* s t \<Longrightarrow> initialSystem s \<Longrightarrow> systemOk t"
  by (induction rule: rtranclp_induct) (simp_all add: systemOk_initial systemOk_step)

section \<open>A summary step gets on\<close>

lemma dropAbortedSources_count:
  assumes "queueInv (fwQueueObjects w q)" "i \<le> length (fqSummarySources (fwQueueObjects w q))"
    "dropAbortedSources q i (n, w) = (m, w')"
  shows "m + droppedCount (fwQueueObjects w' q) = n + droppedCount (fwQueueObjects w q) \<and>
    dropPolicy (fwQueueObjects w' q) = dropPolicy (fwQueueObjects w q)"
  using assms
proof (induction i arbitrary: n w)
  case (Suc i)
  define Q where "Q = fwQueueObjects w q"
  show ?case
  proof (cases "isFollowupRunAborted w (fqSummarySources Q ! i)")
    case False
    with Suc show ?thesis by (simp add: Q_def)
  next
    case True
    define w1 where "w1 = completeFollowupRunLifecycle (fqSummarySources Q ! i)
        (setQueueObject q (\<lambda>Q. Q\<lparr>fqSummarySources := spliceAt (Some i) (fqSummarySources Q),
           summaryLines := spliceAt (Some i) (summaryLines Q), droppedCount := droppedCount Q - 1\<rparr>) w)"
    have i: "i < length (fqSummarySources Q)" "i < length (summaryLines Q)"
      using Suc.prems by (simp_all add: queueInv_def Q_def)
    then have lens: "Suc (length (spliceAt (Some i) (fqSummarySources Q))) = length (fqSummarySources Q)"
      "Suc (length (spliceAt (Some i) (summaryLines Q))) = length (summaryLines Q)"
      by (auto simp: spliceAt_def)
    have "queueInv (fwQueueObjects w1 q)" "i \<le> length (fqSummarySources (fwQueueObjects w1 q))"
      using Suc.prems lens by (auto simp: w1_def queueInv_def accounted_def Q_def)
    moreover have "dropAbortedSources q i (Suc n, w1) = (m, w')"
      using True Suc.prems(3) by (simp add: w1_def Q_def)
    ultimately have "m + droppedCount (fwQueueObjects w' q) = Suc n + droppedCount (fwQueueObjects w1 q) \<and>
        dropPolicy (fwQueueObjects w' q) = dropPolicy (fwQueueObjects w1 q)"
      by (rule Suc.IH)
    moreover have "Suc (droppedCount (fwQueueObjects w1 q)) = droppedCount Q"
      "dropPolicy (fwQueueObjects w1 q) = dropPolicy Q"
      using Suc.prems(1) i(1) by (auto simp: w1_def queueInv_def accounted_def Q_def)
    ultimately show ?thesis by (simp add: Q_def)
  qed
qed simp

lemma buildQueueSummaryPrompt_some:
  "dropPolicy s = Summarize \<Longrightarrow> 0 < droppedCount s \<Longrightarrow> \<exists>p. buildQueueSummaryPrompt s noun title = Some p"
  by (simp add: buildQueueSummaryPrompt_def Let_def)

lemma drainElided_gets_on:
  assumes inv: "queueInv (fwQueueObjects w q)" and policy: "dropPolicy (fwQueueObjects w q) = Summarize"
    and b: "drainElidedBegin slack q w = (b, w')"
  shows "case b of
      ElidedSkip \<Rightarrow> fqSummaryElisions (fwQueueObjects w q) = [] \<and> w' = w
    | ElidedDone \<Rightarrow> droppedCount (fwQueueObjects w' q) < droppedCount (fwQueueObjects w q)
    | ElidedRun run \<Rightarrow> erElidedSources run \<noteq> []"
proof (cases "fqSummaryElisions (fwQueueObjects w q)")
  case Nil
  then show ?thesis using b by (auto simp: drainElidedBegin_def)
next
  case (Cons e es)
  define left where "left = filter (\<lambda>s. \<not> isFollowupRunAborted w s) (elSources e)"
  have drop: "dropPolicy (fwQueueObjects (dropAbortedElided q w) q) = Summarize"
    using policy Cons by (simp add: dropAbortedElided_def Let_def)
  show ?thesis
  proof (cases "left = []")
    case True
    then have "filter (isFollowupRunAborted w) (elSources e) = elSources e"
      by (auto simp: left_def filter_empty_conv filter_id_conv)
    moreover have "0 < length (elSources e)" "length (elSources e) \<le> droppedCount (fwQueueObjects w q)"
      using inv Cons by (auto simp: queueInv_def accounted_def elisionsOk_def)
    moreover have "droppedCount (fwQueueObjects (dropAbortedElided q w) q) =
        droppedCount (fwQueueObjects w q) - length (filter (isFollowupRunAborted w) (elSources e))"
      using Cons by (simp add: dropAbortedElided_def Let_def)
    ultimately have "droppedCount (fwQueueObjects (dropAbortedElided q w) q) < droppedCount (fwQueueObjects w q)"
      by (metis diff_less less_le_trans)
    moreover have "b = ElidedDone" "w' = dropAbortedElided q w"
      using b True Cons by (simp_all add: drainElidedBegin_def Let_def left_def)
    ultimately show ?thesis by simp
  next
    case False
    define Q1 where "Q1 = fwQueueObjects (dropAbortedElided q w) q"
    define retained where "retained = (if es = []
        then filter (\<lambda>s. resolveFollowupDeliveryContextKey slack w s = elContextKey e)
               (resolveOverflowSummarySourceGroup slack w (fqSummarySources (fwQueueObjects w q)))
        else [])"
    obtain p where "buildQueueSummaryPrompt \<lparr>dropPolicy = dropPolicy Q1, droppedCount = length left + length retained,
        summaryLines = take (length retained) (summaryLines Q1)\<rparr> (u16 ''message'') None = Some p"
      using buildQueueSummaryPrompt_some [of "\<lparr>dropPolicy = dropPolicy Q1, droppedCount = length left + length retained,
        summaryLines = take (length retained) (summaryLines Q1)\<rparr>"] drop False by (auto simp: Q1_def)
    then have "\<exists>run. b = ElidedRun run \<and> erElidedSources run = left"
      using b False unfolding drainElidedBegin_def Let_def Cons list.case retained_def [symmetric]
        left_def [symmetric] Q1_def [symmetric] by auto
    with False show ?thesis by auto
  qed
qed

lemma summary_gets_on:
  assumes inv: "queueInv (fwQueueObjects w q)" and policy: "dropPolicy (fwQueueObjects w q) = Summarize"
    and due: "0 < droppedCount (fwQueueObjects w q)" and b: "summaryStepBegin slack q w = (b, w')"
  shows "case b of
      SummaryNone \<Rightarrow> False
    | SummaryProgress \<Rightarrow> droppedCount (fwQueueObjects w' q) < droppedCount (fwQueueObjects w q)
    | SummaryElided run \<Rightarrow> erElidedSources run \<noteq> []
    | SummaryGroup d \<Rightarrow> sdSources d \<noteq> []"
proof -
  obtain n w1 where d: "dropAbortedQueueSummarySources q w = (n, w1)" by fastforce
  note sources = d [unfolded dropAbortedQueueSummarySources_def]
  have n: "n + droppedCount (fwQueueObjects w1 q) = droppedCount (fwQueueObjects w q)"
    "dropPolicy (fwQueueObjects w1 q) = Summarize"
    using dropAbortedSources_count [OF inv order_refl sources] policy by simp_all
  have inv1: "queueInv (fwQueueObjects w1 q)"
    using dropAbortedSources_account [OF inv order_refl, of 0] sources by simp
  define Q1 where "Q1 = fwQueueObjects w1 q"
  consider (gone) "0 < n" "droppedCount Q1 = 0" | (evicted) "\<not> (0 < n \<and> droppedCount Q1 = 0)" "0 < fqEvictedSummaryCount Q1"
    | (step) "\<not> (0 < n \<and> droppedCount Q1 = 0)" "fqEvictedSummaryCount Q1 = 0" by auto
  then show ?thesis
  proof cases
    case gone
    then have "b = SummaryProgress" "w' = w1" using b d by (simp_all add: summaryStepBegin_def Q1_def)
    then show ?thesis using gone due by (simp add: Q1_def)
  next
    case evicted
    then have "b = SummaryProgress" "droppedCount (fwQueueObjects w' q) = droppedCount Q1 - fqEvictedSummaryCount Q1"
      using b d by (auto simp: summaryStepBegin_def Q1_def)
    moreover have "fqEvictedSummaryCount Q1 \<le> droppedCount Q1"
      using inv1 by (simp add: Q1_def queueInv_def accounted_def)
    ultimately show ?thesis using evicted(2) n(1) by (simp add: Q1_def)
  next
    case step
    obtain e w2 where e: "drainElidedBegin slack q w1 = (e, w2)" by fastforce
    note on = drainElided_gets_on [OF inv1 n(2) e]
    have left: "0 < droppedCount Q1" using step(1) n(1) due by (auto simp: Q1_def)
    have b': "(b, w') = (case (e, w2) of
        (ElidedRun run, w2) \<Rightarrow> (SummaryElided run, w2)
      | (ElidedDone, w2) \<Rightarrow> (SummaryProgress, w2)
      | (ElidedSkip, w2) \<Rightarrow>
          let Q2 = fwQueueObjects w2 q; sources = resolveOverflowSummarySourceGroup slack w2 (fqSummarySources Q2)
          in if sources = [] then (SummaryNone, w2)
             else (case createQueueSummaryDelivery Q2 (Some sources) of
                     None \<Rightarrow> (SummaryNone, w2) | Some delivery \<Rightarrow> (SummaryGroup delivery, w2)))"
      unfolding b [symmetric] summaryStepBegin_def d Let_def prod.case Q1_def [symmetric] if_not_P [OF step(1)]
      using step(2) e by simp
    show ?thesis
    proof (cases e)
      case ElidedSkip
      define sources where "sources = resolveOverflowSummarySourceGroup slack w1 (fqSummarySources Q1)"
      have skip: "fqSummaryElisions Q1 = []" "w2 = w1" using on ElidedSkip by (simp_all add: Q1_def)
      then have "fqSummarySources Q1 \<noteq> []"
        using inv1 left step(2) by (auto simp: Q1_def queueInv_def accounted_def)
      then have ne: "sources \<noteq> []" by (auto simp: sources_def resolveOverflowSummarySourceGroup_def split: list.split)
      have "prefix sources (fqSummarySources Q1)" by (simp add: sources_def resolveGroup_prefix)
      moreover obtain p where "buildQueueSummaryPrompt \<lparr>dropPolicy = dropPolicy Q1, droppedCount = length sources,
          summaryLines = take (length sources) (summaryLines Q1)\<rparr> (u16 ''message'') None = Some p"
        using buildQueueSummaryPrompt_some [of "\<lparr>dropPolicy = dropPolicy Q1, droppedCount = length sources,
          summaryLines = take (length sources) (summaryLines Q1)\<rparr>"] n(2) ne by (auto simp: Q1_def)
      ultimately obtain dl where "createQueueSummaryDelivery Q1 (Some sources) = Some dl" "sdSources dl = sources"
        by (simp add: createQueueSummaryDelivery_def)
      then show ?thesis using b' ElidedSkip skip ne by (simp add: sources_def Q1_def Let_def)
    next
      case ElidedDone
      then show ?thesis using b' on n(1) by simp
    next
      case (ElidedRun run)
      then show ?thesis using b' on by simp
    qed
  qed
qed

section \<open>Every order of events\<close>

lemmas trimLoop_code [code] = trimLoop.simps

text \<open>A world before anything is queued, and the one in which a run with the settings of the sample came.\<close>

definition emptySystem :: followup_system where
  "emptySystem = \<lparr>fsWorld = (sampleWorld (sampleQueue Summarize []))\<lparr>fwQueues := []\<rparr>, fsAwaited = []\<rparr>"

lemma emptySystem_initial: "initialSystem emptySystem"
proof -
  have "sampleQueue Summarize [] = applySettings (sampleSettings Summarize) (newFollowupQueue 91 (sampleSettings Summarize))"
    by (simp add: sample_defs applySettings_def applyQueueRuntimeSettings_def settingCap_def settingDebounce_def)
  then show ?thesis unfolding initialSystem_def emptySystem_def by (auto simp: sampleWorld_def)
qed

text \<open>
  C10. Whatever order enqueues, clears, session changes, cancellations and the segments of drains
  come in, every queue accounts for every run it dropped: the dropped count is the number of
  summaries kept, elided and evicted, every kept summary has its line, no elided entry is empty,
  and no two keys share a queue.
\<close>

theorem dropped_runs_stay_accounted:
  assumes "(followup_step slack)\<^sup>*\<^sup>* s t" "initialSystem s"
  defines "Q \<equiv> fwQueueObjects (fsWorld t)"
  shows "droppedCount (Q q) = length (fqSummarySources (Q q)) + length (elidedSources (fqSummaryElisions (Q q)))
      + fqEvictedSummaryCount (Q q) \<and>
    length (summaryLines (Q q)) = length (fqSummarySources (Q q)) \<and>
    list_all (\<lambda>e. elSources e \<noteq> []) (fqSummaryElisions (Q q)) \<and>
    (key \<noteq> key' \<and> jm_get (fwQueues (fsWorld t)) key = Some q \<longrightarrow> jm_get (fwQueues (fsWorld t)) key' \<noteq> Some q)"
  using systemOk_reachable [OF assms(1,2)]
  by (auto simp: Q_def systemOk_def worldOk_def queueInv_def accounted_def elisionsOk_def separateQueues_def list_all_iff)

theorem dropped_runs_stay_accounted_witness:
  "let w = snd (enqueueFollowupRun (\<lambda>_. False) (\<lambda>_. True) 5 ''k'' 4 (sampleSettings Summarize) DedupeNone None
      False AtTail (fsWorld emptySystem)); Q = fwQueueObjects w 101
   in length (summaryLines Q) = length (fqSummarySources Q)"
proof -
  have "followup_step (\<lambda>_. False) emptySystem (emptySystem\<lparr>fsWorld := snd (enqueueFollowupRun (\<lambda>_. False) (\<lambda>_. True) 5
      ''k'' 4 (sampleSettings Summarize) DedupeNone None False AtTail (fsWorld emptySystem))\<rparr>)"
    by (intro followup_step.world world_step.enqueue)
  then have "(followup_step (\<lambda>_. False))\<^sup>*\<^sup>* emptySystem (emptySystem\<lparr>fsWorld := snd (enqueueFollowupRun
      (\<lambda>_. False) (\<lambda>_. True) 5 ''k'' 4 (sampleSettings Summarize) DedupeNone None False AtTail
      (fsWorld emptySystem))\<rparr>)"
    by (rule r_into_rtranclp)
  from dropped_runs_stay_accounted [OF this emptySystem_initial, of 101] show ?thesis
    by (simp add: Let_def)
qed

text \<open>
  C23. In every reachable state, while a queue with the policy \<open>summarize\<close> has dropped runs left, a
  summary step of its drain delivers runs or makes their number smaller; it never ends empty-handed.
\<close>

theorem summary_step_gets_on:
  assumes "(followup_step slack)\<^sup>*\<^sup>* s t" "initialSystem s"
    and "dropPolicy (fwQueueObjects (fsWorld t) q) = Summarize" "0 < droppedCount (fwQueueObjects (fsWorld t) q)"
  shows "case summaryStepBegin slack q (fsWorld t) of
      (SummaryNone, _) \<Rightarrow> False
    | (SummaryProgress, w) \<Rightarrow> droppedCount (fwQueueObjects w q) < droppedCount (fwQueueObjects (fsWorld t) q)
    | (SummaryElided run, _) \<Rightarrow> erElidedSources run \<noteq> []
    | (SummaryGroup d, _) \<Rightarrow> sdSources d \<noteq> []"
proof -
  have "queueInv (fwQueueObjects (fsWorld t) q)"
    using systemOk_reachable [OF assms(1,2)] by (simp add: systemOk_def worldOk_def)
  from summary_gets_on [OF this assms(3,4)] show ?thesis
    by (cases "summaryStepBegin slack q (fsWorld t)") (auto split: summary_begin.split)
qed


text \<open>Two runs come to a queue with room for one; the first is dropped.\<close>

definition sampleArrivals :: "ref list \<Rightarrow> followup_world \<Rightarrow> followup_world" where
  "sampleArrivals runs w = fold (\<lambda>r w. snd (enqueueFollowupRun (\<lambda>_. False) (\<lambda>_. True) 5 ''k'' r
     ((sampleSettings Summarize)\<lparr>set_cap := Some (Finite 1)\<rparr>) DedupeNone None False AtTail w)) runs w"

lemma sampleArrivals_reachable:
  "(followup_step (\<lambda>_. False))\<^sup>*\<^sup>* s (s\<lparr>fsWorld := sampleArrivals runs (fsWorld s)\<rparr>)"
proof (induction runs arbitrary: s)
  case (Cons r runs)
  let ?w = "sampleArrivals [r] (fsWorld s)"
  have "followup_step (\<lambda>_. False) s (s\<lparr>fsWorld := ?w\<rparr>)"
    by (rule followup_step.world) (simp add: sampleArrivals_def world_step.enqueue)
  then show ?case using Cons.IH [of "s\<lparr>fsWorld := ?w\<rparr>"]
    by (simp add: sampleArrivals_def converse_rtranclp_into_rtranclp)
qed (simp add: sampleArrivals_def)

theorem summary_step_gets_on_witness:
  "fst (summaryStepBegin (\<lambda>_. False) 101 (sampleArrivals [1, 2] (fsWorld emptySystem))) \<noteq> SummaryNone"
proof -
  let ?s = "emptySystem\<lparr>fsWorld := sampleArrivals [1, 2] (fsWorld emptySystem)\<rparr>"
  have "(\<lambda>Q. (droppedCount Q, dropPolicy Q)) (fwQueueObjects (fsWorld ?s) 101) = (1, Summarize)" by code_simp
  with summary_step_gets_on [OF sampleArrivals_reachable [of emptySystem "[1, 2]"] emptySystem_initial, of 101]
  show ?thesis by (auto split: prod.splits)
qed

end
