(* ===== verification/WriterQueue.thy ===== *)
theory WriterQueue
  imports JsMap
begin

text \<open>
  The queues that serialize the writers of one path, \<open>shared/store-writer-queue.ts\<close>.  Session locks
  and session stores are such queues.  Queue maps, queue objects, writers, drains and tasks are
  identified by numbers; a drain is the loop of one call of \<open>drainStoreWriterQueue\<close>.

  A drain runs synchronously up to its first \<open>await\<close>, and with it the first part of its first task;
  only then does \<open>queue.drainPromise\<close> get its value.  The drains in that phase are \<open>wwStarting\<close>, the
  innermost first, and while there is one nothing but the code of its task runs.
\<close>

section \<open>State\<close>

record store_writer_queue =
  wqRunning :: bool
  wqPending :: "nat list"
  wqDrainPromise :: "nat option"

text \<open>
  \<open>ActiveStoreWriter\<close>.  The chain of the \<open>parent\<close>s never changes: the value of the async context is
  the list of the writers on it, the innermost first.
\<close>

record active_store_writer =
  swActive :: bool
  swQueues :: nat
  swStorePath :: string

type_synonym writer_context = "nat list"

record writer_drain =
  wdQueues :: nat
  wdStorePath :: string
  wdQueue :: nat
  wdContext :: writer_context
  wdCurrent :: "(nat \<times> nat) option"

text \<open>\<open>wdCurrent\<close>: the task that is awaited, and its writer.\<close>

record writer_world =
  wwMaps :: "nat \<Rightarrow> (string, nat) jsmap"
  wwQueues :: "nat \<Rightarrow> store_writer_queue"
  wwWriters :: "nat \<Rightarrow> active_store_writer"
  wwDrains :: "nat \<Rightarrow> writer_drain option"
  wwStarting :: "(nat \<times> nat) list"
  wwMicrotasks :: "(nat \<times> string \<times> writer_context) list"
  wwSettled :: "nat list"
  wwNext :: nat

definition setWriterQueue ::
    "nat \<Rightarrow> (store_writer_queue \<Rightarrow> store_writer_queue) \<Rightarrow> writer_world \<Rightarrow> writer_world" where
  "setWriterQueue q f w = w\<lparr>wwQueues := (wwQueues w)(q := f (wwQueues w q))\<rparr>"

definition getWriterQueue :: "nat \<Rightarrow> string \<Rightarrow> writer_world \<Rightarrow> nat option" where
  "getWriterQueue queues storePath w = jm_get (wwMaps w queues) storePath"

section \<open>Operations\<close>

definition isActiveStoreWriter :: "nat \<Rightarrow> string \<Rightarrow> writer_context \<Rightarrow> writer_world \<Rightarrow> bool" where
  "isActiveStoreWriter queues storePath ctx w \<longleftrightarrow>
     list_ex (\<lambda>n. swActive (wwWriters w n) \<and> swQueues (wwWriters w n) = queues
                  \<and> swStorePath (wwWriters w n) = storePath) ctx"

definition getOrCreateStoreWriterQueue :: "nat \<Rightarrow> string \<Rightarrow> writer_world \<Rightarrow> nat \<times> writer_world" where
  "getOrCreateStoreWriterQueue queues storePath w =
     (case getWriterQueue queues storePath w of
        Some q \<Rightarrow> (q, w)
      | None \<Rightarrow>
          let q = wwNext w
          in (q, w\<lparr>wwQueues := (wwQueues w)(q := \<lparr>wqRunning = False, wqPending = [], wqDrainPromise = None\<rparr>),
                   wwMaps := (wwMaps w)(queues := jm_set storePath q (wwMaps w queues)),
                   wwNext := Suc q\<rparr>))"

text \<open>The \<open>finally\<close> of a drain.\<close>

definition drainFinally :: "nat \<Rightarrow> writer_drain \<Rightarrow> writer_world \<Rightarrow> writer_world" where
  "drainFinally d dl w =
     (let w1 = setWriterQueue (wdQueue dl) (\<lambda>Q. Q\<lparr>wqRunning := False, wqDrainPromise := None\<rparr>) w;
          w2 = (if wqPending (wwQueues w1 (wdQueue dl)) = []
                then w1\<lparr>wwMaps := (wwMaps w1)(wdQueues dl := jm_delete (wdStorePath dl) (wwMaps w1 (wdQueues dl)))\<rparr>
                else w1\<lparr>wwMicrotasks := wwMicrotasks w1 @ [(wdQueues dl, wdStorePath dl, wdContext dl)]\<rparr>)
      in w2\<lparr>wwDrains := (wwDrains w2)(d := None)\<rparr>)"

text \<open>
  The loop of a drain from its head to the next await: the next task starts as a writer
  (\<open>runActiveStoreWriter\<close>), in the context of the drain.
\<close>

definition drainLoopHead :: "nat \<Rightarrow> writer_drain \<Rightarrow> writer_world \<Rightarrow> writer_world" where
  "drainLoopHead d dl w =
     (case wqPending (wwQueues w (wdQueue dl)) of
        [] \<Rightarrow> drainFinally d dl w
      | task # rest \<Rightarrow>
          let w1 = setWriterQueue (wdQueue dl) (\<lambda>Q. Q\<lparr>wqPending := rest\<rparr>) w; n = wwNext w1
          in w1\<lparr>wwWriters := (wwWriters w1)(n := \<lparr>swActive = True, swQueues = wdQueues dl,
                    swStorePath = wdStorePath dl\<rparr>),
                wwDrains := (wwDrains w1)(d := Some (dl\<lparr>wdCurrent := Some (task, n)\<rparr>)),
                wwNext := Suc n\<rparr>)"

definition drainStoreWriterQueue ::
    "nat \<Rightarrow> string \<Rightarrow> writer_context \<Rightarrow> writer_world \<Rightarrow> writer_world" where
  "drainStoreWriterQueue queues storePath ctx w =
     (case getWriterQueue queues storePath w of
        None \<Rightarrow> w
      | Some q \<Rightarrow>
          if wqDrainPromise (wwQueues w q) \<noteq> None then w
          else
            let d = wwNext w;
                dl = \<lparr>wdQueues = queues, wdStorePath = storePath, wdQueue = q, wdContext = ctx, wdCurrent = None\<rparr>;
                w1 = setWriterQueue q (\<lambda>Q. Q\<lparr>wqRunning := True\<rparr>) (w\<lparr>wwNext := Suc d\<rparr>);
                w2 = drainLoopHead d dl w1
            in w2\<lparr>wwStarting := (d, q) # wwStarting w2\<rparr>)"

text \<open>The first await of the innermost starting drain: \<open>queue.drainPromise\<close> is assigned.\<close>

definition drainStarted :: "writer_world \<Rightarrow> writer_world" where
  "drainStarted w =
     (case wwStarting w of
        [] \<Rightarrow> w
      | (d, q) # rest \<Rightarrow> setWriterQueue q (\<lambda>Q. Q\<lparr>wqDrainPromise := Some d\<rparr>) (w\<lparr>wwStarting := rest\<rparr>))"

text \<open>The \<open>finally\<close> of \<open>runActiveStoreWriter\<close>, and the drain after its task is settled.\<close>

definition writerFinally :: "nat \<Rightarrow> writer_world \<Rightarrow> writer_world" where
  "writerFinally n w = w\<lparr>wwWriters := (wwWriters w)(n := (wwWriters w n)\<lparr>swActive := False\<rparr>)\<rparr>"

definition drainAfterTask :: "nat \<Rightarrow> writer_drain \<Rightarrow> nat \<Rightarrow> writer_world \<Rightarrow> writer_world" where
  "drainAfterTask d dl task w =
     drainLoopHead d (dl\<lparr>wdCurrent := None\<rparr>) (w\<lparr>wwSettled := wwSettled w @ [task]\<rparr>)"

datatype write_call = WriteThrows | WriteReentrant | WriteQueued nat

definition runQueuedStoreWrite ::
    "nat \<Rightarrow> string \<Rightarrow> bool \<Rightarrow> writer_context \<Rightarrow> writer_world \<Rightarrow> write_call \<times> writer_world" where
  "runQueuedStoreWrite queues storePath reentrant ctx w =
     (if storePath = [] then (WriteThrows, w)
      else if reentrant \<and> isActiveStoreWriter queues storePath ctx w then (WriteReentrant, w)
      else
        let (q, w1) = getOrCreateStoreWriterQueue queues storePath w;
            task = wwNext w1;
            w2 = setWriterQueue q (\<lambda>Q. Q\<lparr>wqPending := wqPending Q @ [task]\<rparr>) (w1\<lparr>wwNext := Suc task\<rparr>)
        in (WriteQueued task, drainStoreWriterQueue queues storePath ctx w2))"

section \<open>Steps\<close>

text \<open>
  The steps of a process.  \<open>careful\<close>: no task calls for its own path in its first synchronous part,
  when the drain that started it is still starting.
\<close>

definition startingPath :: "nat \<Rightarrow> string \<Rightarrow> writer_world \<Rightarrow> bool" where
  "startingPath queues storePath w \<longleftrightarrow>
     list_ex (\<lambda>(d, q). getWriterQueue queues storePath w = Some q) (wwStarting w)"

inductive writer_step :: "bool \<Rightarrow> writer_world \<Rightarrow> writer_world \<Rightarrow> bool" for careful where
  call: "careful \<longrightarrow> \<not> startingPath queues storePath w \<Longrightarrow>
    writer_step careful w (snd (runQueuedStoreWrite queues storePath reentrant ctx w))"
| started: "wwStarting w \<noteq> [] \<Longrightarrow> writer_step careful w (drainStarted w)"
| task_ends: "wwStarting w = [] \<Longrightarrow> wwDrains w d = Some dl \<Longrightarrow> wdCurrent dl = Some (task, n) \<Longrightarrow>
    swActive (wwWriters w n) \<Longrightarrow> writer_step careful w (writerFinally n w)"
| continues: "wwStarting w = [] \<Longrightarrow> wwDrains w d = Some dl \<Longrightarrow> wdCurrent dl = Some (task, n) \<Longrightarrow>
    \<not> swActive (wwWriters w n) \<Longrightarrow> writer_step careful w (drainAfterTask d dl task w)"
| microtask: "wwStarting w = [] \<Longrightarrow> wwMicrotasks w = (queues, storePath, ctx) # rest \<Longrightarrow>
    writer_step careful w (drainStoreWriterQueue queues storePath ctx (w\<lparr>wwMicrotasks := rest\<rparr>))"

text \<open>The tasks of a path that run, in the order of their drains, and all its unsettled tasks.\<close>

definition runningOf :: "nat \<Rightarrow> string \<Rightarrow> writer_drain option \<Rightarrow> nat list" where
  "runningOf queues storePath dl =
     (case dl of
        None \<Rightarrow> []
      | Some dl \<Rightarrow> if wdQueues dl = queues \<and> wdStorePath dl = storePath
                   then (case wdCurrent dl of None \<Rightarrow> [] | Some (task, n) \<Rightarrow> [task]) else [])"

definition runningWrites :: "nat \<Rightarrow> string \<Rightarrow> writer_world \<Rightarrow> nat list" where
  "runningWrites queues storePath w =
     concat (map (\<lambda>d. runningOf queues storePath (wwDrains w d)) [0..<wwNext w])"

definition pendingWrites :: "nat \<Rightarrow> string \<Rightarrow> writer_world \<Rightarrow> nat list" where
  "pendingWrites queues storePath w =
     (case getWriterQueue queues storePath w of None \<Rightarrow> [] | Some q \<Rightarrow> wqPending (wwQueues w q))"

definition writerLane :: "nat \<Rightarrow> string \<Rightarrow> writer_world \<Rightarrow> nat list" where
  "writerLane queues storePath w = runningWrites queues storePath w @ pendingWrites queues storePath w"

definition emptyWriterWorld :: writer_world where
  "emptyWriterWorld = \<lparr>wwMaps = (\<lambda>_. []), wwQueues = (\<lambda>_. \<lparr>wqRunning = False, wqPending = [], wqDrainPromise = None\<rparr>),
     wwWriters = (\<lambda>_. \<lparr>swActive = False, swQueues = 0, swStorePath = []\<rparr>), wwDrains = (\<lambda>_. None), wwStarting = [],
     wwMicrotasks = [], wwSettled = [], wwNext = 0\<rparr>"

end
