(* ===== verification/FifoLanes.thy ===== *)
theory FifoLanes
  imports Prelude
begin

text \<open>
  The contract of lanes in which calls queue for a lock: a step of the program leaves a lane alone,
  lets one entry join at its end, or lets its first entry leave.  The queues of store writers and
  the locks of sessions are such lanes.
\<close>

definition lane_moves :: "'e list \<Rightarrow> 'e list \<Rightarrow> bool" where
  "lane_moves xs ys \<longleftrightarrow> ys = xs \<or> (\<exists>t. ys = xs @ [t]) \<or> (\<exists>t. xs = t # ys)"

lemma lane_movesI [intro]:
  "lane_moves xs xs" "lane_moves xs (xs @ [t])" "lane_moves (t # xs) xs"
  by (auto simp: lane_moves_def)

locale fifo_lanes =
  fixes ok :: "'w \<Rightarrow> bool"
    and step :: "'w \<Rightarrow> 'w \<Rightarrow> bool"
    and lane :: "'k \<Rightarrow> 'w \<Rightarrow> 'e list"
  assumes ok_step: "ok w \<Longrightarrow> step w w' \<Longrightarrow> ok w'"
    and moves: "ok w \<Longrightarrow> step w w' \<Longrightarrow> lane_moves (lane k w) (lane k w')"
begin

lemma ok_run: "step\<^sup>*\<^sup>* w w' \<Longrightarrow> ok w \<Longrightarrow> ok w'"
  by (induction rule: rtranclp_induct) (auto intro: ok_step)

text \<open>Over any run, entries leave at the front and join at the end: nobody overtakes.\<close>

lemma first_in_first_out:
  assumes "step\<^sup>*\<^sup>* w w'" "ok w"
  shows "\<exists>n new. lane k w' = drop n (lane k w) @ new"
  using assms(1)
proof (induction rule: rtranclp_induct)
  case base
  have "lane k w = drop 0 (lane k w) @ []" by simp
  then show ?case by blast
next
  case (step v v')
  then obtain n new where v: "lane k v = drop n (lane k w) @ new" by blast
  have "ok v" using ok_run [OF step(1)] assms(2) .
  from moves [OF this step(2), of k] consider "lane k v' = lane k v" | t where "lane k v' = lane k v @ [t]"
    | t where "lane k v = t # lane k v'" by (auto simp: lane_moves_def)
  then show ?case
  proof cases
    case 1
    then show ?thesis using v by auto
  next
    case 2
    then show ?thesis using v by auto
  next
    case 3
    show ?thesis
    proof (cases "drop n (lane k w)")
      case Nil
      then have "lane k v' = drop (length (lane k w)) (lane k w) @ tl new" using 3 v by (metis append_Nil drop_all order_refl list.sel(3))
      then show ?thesis by blast
    next
      case (Cons x xs)
      moreover from Cons have "drop (Suc n) (lane k w) = xs" by (metis drop_Suc list.sel(3) tl_drop)
      ultimately have "lane k v' = drop (Suc n) (lane k w) @ new" using 3 v by simp
      then show ?thesis by blast
    qed
  qed
qed

lemma holder_keeps:
  assumes "ok w" "step w w'" "lane k w = a # xs"
  shows "(\<exists>new. lane k w' = a # xs @ new) \<or> lane k w' = xs"
  using moves [OF assms(1,2), of k] assms(3) by (auto simp: lane_moves_def)

end

end
