(* ===== verification/WriterQueueProofs.thy ===== *)
theory WriterQueueProofs
  imports WriterQueue FifoLanes
begin

text \<open>
  While no task calls for its own path in its first synchronous part, the queue of a path is a lock
  with a first-in-first-out queue; two ways to break in when one does, or when a drain is inherited.
\<close>

section \<open>The invariant of careful runs\<close>

lemma setWriterQueue_sel [simp]:
  "wwMaps (setWriterQueue q f w) = wwMaps w" "wwQueues (setWriterQueue q f w) = (wwQueues w)(q := f (wwQueues w q))"
  "wwWriters (setWriterQueue q f w) = wwWriters w" "wwDrains (setWriterQueue q f w) = wwDrains w"
  "wwStarting (setWriterQueue q f w) = wwStarting w" "wwMicrotasks (setWriterQueue q f w) = wwMicrotasks w"
  "wwSettled (setWriterQueue q f w) = wwSettled w" "wwNext (setWriterQueue q f w) = wwNext w"
  by (simp_all add: setWriterQueue_def)

definition drainOf :: "nat \<Rightarrow> string \<Rightarrow> writer_world \<Rightarrow> nat \<Rightarrow> writer_drain \<Rightarrow> bool" where
  "drainOf m p w d dl \<longleftrightarrow> wwDrains w d = Some dl \<and> wdQueues dl = m \<and> wdStorePath dl = p"

definition writerInv :: "writer_world \<Rightarrow> bool" where
  "writerInv w \<longleftrightarrow>
     (\<forall>d dl. wwDrains w d = Some dl \<longrightarrow> d < wwNext w \<and> wdCurrent dl \<noteq> None \<and>
        getWriterQueue (wdQueues dl) (wdStorePath dl) w = Some (wdQueue dl)) \<and>
     (\<forall>m p d dl d' dl'. drainOf m p w d dl \<longrightarrow> drainOf m p w d' dl' \<longrightarrow> d = d') \<and>
     (\<forall>m p q. getWriterQueue m p w = Some q \<longrightarrow> q < wwNext w \<and> (\<exists>d dl. drainOf m p w d dl)) \<and>
     (\<forall>m p m' p' q. getWriterQueue m p w = Some q \<longrightarrow> getWriterQueue m' p' w = Some q \<longrightarrow> m = m' \<and> p = p') \<and>
     (\<forall>m p q. getWriterQueue m p w = Some q \<longrightarrow> wqDrainPromise (wwQueues w q) = None \<longrightarrow> q \<in> snd ` set (wwStarting w)) \<and>
     (\<forall>x \<in> set (wwStarting w). snd x < wwNext w) \<and> wwMicrotasks w = []"

lemma writerInvD:
  assumes "writerInv w"
  shows "wwDrains w d = Some dl \<Longrightarrow> d < wwNext w \<and> wdCurrent dl \<noteq> None \<and>
      getWriterQueue (wdQueues dl) (wdStorePath dl) w = Some (wdQueue dl)"
    and "drainOf m p w d dl \<Longrightarrow> drainOf m p w d' dl' \<Longrightarrow> d = d'"
    and "getWriterQueue m p w = Some q \<Longrightarrow> q < wwNext w \<and> (\<exists>d dl. drainOf m p w d dl)"
    and "getWriterQueue m p w = Some q \<Longrightarrow> getWriterQueue m' p' w = Some q \<Longrightarrow> m = m' \<and> p = p'"
    and "getWriterQueue m p w = Some q \<Longrightarrow> wqDrainPromise (wwQueues w q) = None \<Longrightarrow> q \<in> snd ` set (wwStarting w)"
    and "x \<in> set (wwStarting w) \<Longrightarrow> snd x < wwNext w" and "wwMicrotasks w = []"
proof -
  note a = assms [unfolded writerInv_def]
  show "wwDrains w d = Some dl \<Longrightarrow> d < wwNext w \<and> wdCurrent dl \<noteq> None \<and>
      getWriterQueue (wdQueues dl) (wdStorePath dl) w = Some (wdQueue dl)"
    using a [THEN conjunct1] by blast
  show "drainOf m p w d dl \<Longrightarrow> drainOf m p w d' dl' \<Longrightarrow> d = d'"
    using a [THEN conjunct2, THEN conjunct1] by blast
  show "getWriterQueue m p w = Some q \<Longrightarrow> q < wwNext w \<and> (\<exists>d dl. drainOf m p w d dl)"
    using a [THEN conjunct2, THEN conjunct2, THEN conjunct1] by blast
  show "getWriterQueue m p w = Some q \<Longrightarrow> getWriterQueue m' p' w = Some q \<Longrightarrow> m = m' \<and> p = p'"
    using a [THEN conjunct2, THEN conjunct2, THEN conjunct2, THEN conjunct1] by blast
  note b = a [THEN conjunct2, THEN conjunct2, THEN conjunct2, THEN conjunct2]
  show "getWriterQueue m p w = Some q \<Longrightarrow> wqDrainPromise (wwQueues w q) = None \<Longrightarrow> q \<in> snd ` set (wwStarting w)"
    using b [THEN conjunct1] by blast
  show "x \<in> set (wwStarting w) \<Longrightarrow> snd x < wwNext w" "wwMicrotasks w = []"
    using b [THEN conjunct2] by blast+
qed

lemma writerInvI:
  assumes "\<And>d dl. wwDrains w d = Some dl \<Longrightarrow> d < wwNext w"
    "\<And>d dl. wwDrains w d = Some dl \<Longrightarrow> wdCurrent dl \<noteq> None"
    "\<And>d dl. wwDrains w d = Some dl \<Longrightarrow> getWriterQueue (wdQueues dl) (wdStorePath dl) w = Some (wdQueue dl)"
    "\<And>m p d dl d' dl'. drainOf m p w d dl \<Longrightarrow> drainOf m p w d' dl' \<Longrightarrow> d = d'"
    "\<And>m p q. getWriterQueue m p w = Some q \<Longrightarrow> q < wwNext w"
    "\<And>m p q. getWriterQueue m p w = Some q \<Longrightarrow> \<exists>d dl. drainOf m p w d dl"
    "\<And>m p m' p' q. getWriterQueue m p w = Some q \<Longrightarrow> getWriterQueue m' p' w = Some q \<Longrightarrow> m = m' \<and> p = p'"
    "\<And>m p q. getWriterQueue m p w = Some q \<Longrightarrow> wqDrainPromise (wwQueues w q) = None \<Longrightarrow> q \<in> snd ` set (wwStarting w)"
    "\<And>x. x \<in> set (wwStarting w) \<Longrightarrow> snd x < wwNext w" "wwMicrotasks w = []"
  shows "writerInv w"
  unfolding writerInv_def
  by (intro conjI allI impI ballI) (rule assms; assumption | use assms(7) in blast)+

section \<open>Lanes\<close>

lemma concat_map_only:
  "distinct xs \<Longrightarrow> d \<in> set xs \<Longrightarrow> (\<And>x. x \<in> set xs \<Longrightarrow> x \<noteq> d \<Longrightarrow> f x = []) \<Longrightarrow> concat (map f xs) = f d"
proof (induction xs)
  case (Cons x xs)
  show ?case
  proof (cases "x = d")
    case True
    with Cons.prems have "concat (map f xs) = []" by auto
    with True show ?thesis by simp
  qed (use Cons in simp)
qed simp

lemma running_drain:
  assumes "writerInv w" "drainOf m p w d dl" "wdCurrent dl = Some (task, n)"
  shows "runningWrites m p w = [task]"
proof -
  have "runningOf m p (wwDrains w x) = []" if "x \<noteq> d" for x
    using that writerInvD(2) [OF assms(1,2), of x] by (auto simp: runningOf_def drainOf_def split: option.split)
  then have "runningWrites m p w = runningOf m p (wwDrains w d)"
    unfolding runningWrites_def
    using writerInvD(1) [OF assms(1)] assms(2) by (intro concat_map_only) (auto simp: drainOf_def)
  then show ?thesis using assms(2,3) by (simp add: runningOf_def drainOf_def)
qed

lemma running_none:
  assumes "writerInv w" "getWriterQueue m p w = None"
  shows "runningWrites m p w = []" "writerLane m p w = []"
proof -
  have "runningOf m p (wwDrains w d) = []" for d
    using writerInvD(1) [OF assms(1)] assms(2) by (auto simp: runningOf_def split: option.split)
  then show "runningWrites m p w = []" by (simp add: runningWrites_def)
  then show "writerLane m p w = []" using assms(2) by (simp add: writerLane_def pendingWrites_def)
qed

lemma lane_drain:
  assumes "writerInv w" "drainOf m p w d dl" "wdCurrent dl = Some (task, n)"
  shows "writerLane m p w = task # wqPending (wwQueues w (wdQueue dl))"
  using running_drain [OF assms] writerInvD(1) [OF assms(1), of d dl] assms(2)
  by (simp add: writerLane_def pendingWrites_def drainOf_def)

text \<open>One task runs whenever there is one, and it is the first.\<close>

lemma lane_running:
  assumes "writerInv w"
  shows "runningWrites m p w = take 1 (writerLane m p w)"
proof (cases "getWriterQueue m p w")
  case None
  then show ?thesis using running_none [OF assms] by simp
next
  case (Some q)
  then obtain d dl task n where "drainOf m p w d dl" "wdCurrent dl = Some (task, n)"
    using writerInvD(1,3) [OF assms] by (metis drainOf_def option.exhaust surj_pair)
  then show ?thesis using running_drain [OF assms] lane_drain [OF assms] by simp
qed

section \<open>The steps keep the invariant\<close>

lemma emptyWriter_inv: "writerInv emptyWriterWorld"
  by (simp add: writerInv_def emptyWriterWorld_def getWriterQueue_def drainOf_def)

text \<open>The world after the first call on a path.\<close>

definition newLane :: "nat \<Rightarrow> string \<Rightarrow> writer_context \<Rightarrow> writer_world \<Rightarrow> writer_world" where
  "newLane m p ctx w =
     (let q = wwNext w
      in w\<lparr>wwMaps := (wwMaps w)(m := jm_set p q (wwMaps w m)),
           wwQueues := (wwQueues w)(q := \<lparr>wqRunning = True, wqPending = [], wqDrainPromise = None\<rparr>),
           wwWriters := (wwWriters w)(q + 3 := \<lparr>swActive = True, swQueues = m, swStorePath = p\<rparr>),
           wwDrains := (wwDrains w)(q + 2 := Some \<lparr>wdQueues = m, wdStorePath = p, wdQueue = q, wdContext = ctx,
             wdCurrent = Some (Suc q, q + 3)\<rparr>),
           wwStarting := (q + 2, q) # wwStarting w, wwNext := q + 4\<rparr>)"

lemma call_new:
  assumes "getWriterQueue m p w = None" "p \<noteq> []" "\<not> (reentrant \<and> isActiveStoreWriter m p ctx w)"
  shows "runQueuedStoreWrite m p reentrant ctx w = (WriteQueued (Suc (wwNext w)), newLane m p ctx w)"
  using assms
  by (simp add: runQueuedStoreWrite_def getOrCreateStoreWriterQueue_def drainStoreWriterQueue_def drainLoopHead_def
      getWriterQueue_def jm.get_put newLane_def Let_def setWriterQueue_def numeral_eq_Suc)

lemma call_queued:
  assumes "getWriterQueue m p w = Some q" "wqDrainPromise (wwQueues w q) \<noteq> None" "p \<noteq> []"
    "\<not> (reentrant \<and> isActiveStoreWriter m p ctx w)"
  shows "runQueuedStoreWrite m p reentrant ctx w = (WriteQueued (wwNext w),
      setWriterQueue q (\<lambda>Q. Q\<lparr>wqPending := wqPending Q @ [wwNext w]\<rparr>) (w\<lparr>wwNext := Suc (wwNext w)\<rparr>))"
  using assms
  by (simp add: runQueuedStoreWrite_def getOrCreateStoreWriterQueue_def drainStoreWriterQueue_def getWriterQueue_def Let_def)

lemma newLane_inv:
  assumes inv: "writerInv w" and new: "getWriterQueue m p w = None"
  fixes ctx :: writer_context
  defines "q \<equiv> wwNext w" and "w' \<equiv> newLane m p ctx w"
  shows "writerInv w'"
    "writerLane m' p' w' = (if m' = m \<and> p' = p then [Suc q] else writerLane m' p' w)"
proof -
  have get: "getWriterQueue m' p' w' = (if m' = m \<and> p' = p then Some q else getWriterQueue m' p' w)" for m' p'
    by (auto simp: w'_def newLane_def Let_def q_def getWriterQueue_def jm.get_put)
  have old: "wwDrains w (q + 2) = None" using writerInvD(1) [OF inv, of "q + 2"]
    by (cases "wwDrains w (q + 2)") (auto simp: q_def)
  have drain: "drainOf m' p' w' d dl \<longleftrightarrow> (if d = q + 2 then m' = m \<and> p' = p \<and>
      dl = \<lparr>wdQueues = m, wdStorePath = p, wdQueue = q, wdContext = ctx, wdCurrent = Some (Suc q, q + 3)\<rparr>
      else drainOf m' p' w d dl)" for m' p' d dl
    by (auto simp: drainOf_def w'_def newLane_def Let_def q_def)
  have none: "\<not> drainOf m p w d dl" for d dl
    using writerInvD(1) [OF inv, of d dl] new by (auto simp: drainOf_def)
  have shape: "wwNext w' = q + 4" "wwStarting w' = (q + 2, q) # wwStarting w" "wwMicrotasks w' = wwMicrotasks w"
    "wwQueues w' = (wwQueues w)(q := \<lparr>wqRunning = True, wqPending = [], wqDrainPromise = None\<rparr>)"
    by (simp_all add: w'_def newLane_def Let_def q_def)
  have fresh: "r < q" if "getWriterQueue m' p' w = Some r" for m' p' r
    using writerInvD(3) [OF inv that] by (simp add: q_def)
  show inv': "writerInv w'"
  proof (rule writerInvI)
    fix d dl assume "wwDrains w' d = Some dl"
    then have "drainOf (wdQueues dl) (wdStorePath dl) w' d dl" by (simp add: drainOf_def)
    then consider "d = q + 2" "dl = \<lparr>wdQueues = m, wdStorePath = p, wdQueue = q, wdContext = ctx, wdCurrent = Some (Suc q, q + 3)\<rparr>"
      | "wwDrains w d = Some dl" unfolding drain by (cases "d = q + 2") (simp_all add: drainOf_def)
    then have "d < wwNext w' \<and> wdCurrent dl \<noteq> None \<and> getWriterQueue (wdQueues dl) (wdStorePath dl) w' = Some (wdQueue dl)"
    proof cases
      case 1
      then show ?thesis by (simp add: get) (simp add: w'_def newLane_def Let_def q_def)
    next
      case 2
      note old = writerInvD(1) [OF inv 2]
      then have "\<not> (wdQueues dl = m \<and> wdStorePath dl = p)" using new by auto
      then have "getWriterQueue (wdQueues dl) (wdStorePath dl) w' = Some (wdQueue dl)" using old get by auto
      moreover have "wwNext w' = wwNext w + 4" by (simp add: w'_def newLane_def Let_def)
      ultimately show ?thesis using old by simp
    qed
    then show "d < wwNext w'" "wdCurrent dl \<noteq> None" "getWriterQueue (wdQueues dl) (wdStorePath dl) w' = Some (wdQueue dl)"
      by auto
  next
    fix m' p' d dl d' dl' assume "drainOf m' p' w' d dl" "drainOf m' p' w' d' dl'"
    then show "d = d'" using writerInvD(2) [OF inv, of m' p' d dl d' dl'] none by (auto simp: drain split: if_splits)
  next
    fix m' p' q' assume q': "getWriterQueue m' p' w' = Some q'"
    then show "q' < wwNext w'"
      using fresh [of m' p' q'] by (auto simp: get shape split: if_splits)
    show "\<exists>d dl. drainOf m' p' w' d dl"
    proof (cases "m' = m \<and> p' = p")
      case True
      then show ?thesis unfolding drain by (intro exI [of _ "q + 2"]) simp
    next
      case False
      with q' get have "getWriterQueue m' p' w = Some q'" by (auto split: if_splits)
      then obtain d dl where d: "drainOf m' p' w d dl" using writerInvD(3) [OF inv] by blast
      then have "d \<noteq> q + 2" using old by (auto simp: drainOf_def)
      with d show ?thesis unfolding drain by (metis)
    qed
    show "wqDrainPromise (wwQueues w' q') = None \<Longrightarrow> q' \<in> snd ` set (wwStarting w')"
      using q' fresh [of m' p' q'] writerInvD(5) [OF inv, of m' p' q'] by (auto simp: get shape split: if_splits)
  next
    fix m' p' m'' p'' q'
    assume "getWriterQueue m' p' w' = Some q'" "getWriterQueue m'' p'' w' = Some q'"
    then show "m' = m'' \<and> p' = p''"
      using fresh [of m' p' q'] fresh [of m'' p'' q'] writerInvD(4) [OF inv, of m' p' q' m'' p'']
      by (auto simp: get split: if_splits)
  next
    fix x assume "x \<in> set (wwStarting w')"
    then show "snd x < wwNext w'" using writerInvD(6) [OF inv, of x] by (auto simp: shape q_def)
  next
    show "wwMicrotasks w' = []" using writerInvD(7) [OF inv] by (simp add: shape)
  qed
  show "writerLane m' p' w' = (if m' = m \<and> p' = p then [Suc q] else writerLane m' p' w)"
  proof (cases "m' = m \<and> p' = p")
    case True
    have "drainOf m p w' (q + 2) \<lparr>wdQueues = m, wdStorePath = p, wdQueue = q, wdContext = ctx, wdCurrent = Some (Suc q, q + 3)\<rparr>"
      by (simp add: drain)
    from lane_drain [OF inv' this] True show ?thesis by (simp add: shape)
  next
    case False
    show ?thesis
    proof (cases "getWriterQueue m' p' w")
      case None
      then show ?thesis using False get [of m' p'] running_none(2) [OF inv] running_none(2) [OF inv'] by auto
    next
      case (Some q')
      then obtain d dl where d: "drainOf m' p' w d dl" using writerInvD(3) [OF inv] by blast
      then obtain t n where c: "wdCurrent dl = Some (t, n)" "wdQueue dl = q'"
        using writerInvD(1) [OF inv, of d dl] Some by (auto simp: drainOf_def)
      have "d \<noteq> q + 2" using d old by (auto simp: drainOf_def)
      with d have "drainOf m' p' w' d dl" by (simp add: drain)
      from lane_drain [OF inv' this c(1)] lane_drain [OF inv d c(1)] False c(2) fresh [OF Some]
      show ?thesis by (auto simp: shape)
    qed
  qed
qed

text \<open>A step that changes queues and writers only.\<close>

lemma writerInv_same:
  assumes "writerInv w" "wwMaps w' = wwMaps w" "wwDrains w' = wwDrains w" "wwMicrotasks w' = wwMicrotasks w"
    "wwNext w \<le> wwNext w'" "set (wwStarting w') \<subseteq> set (wwStarting w)"
    "\<And>m p q. getWriterQueue m p w = Some q \<Longrightarrow> wqDrainPromise (wwQueues w' q) = None \<Longrightarrow>
      q \<in> snd ` set (wwStarting w')"
  shows "writerInv w'"
proof -
  have get: "getWriterQueue m p w' = getWriterQueue m p w" for m p by (simp add: getWriterQueue_def assms(2))
  have drain: "drainOf m p w' d dl = drainOf m p w d dl" for m p d dl by (simp add: drainOf_def assms(3))
  note old = writerInvD [OF assms(1)]
  show ?thesis
  proof (rule writerInvI)
    fix d dl assume "wwDrains w' d = Some dl"
    then have "wwDrains w d = Some dl" by (simp add: assms(3))
    from old(1) [OF this] assms(5)
    show "d < wwNext w'" "wdCurrent dl \<noteq> None" "getWriterQueue (wdQueues dl) (wdStorePath dl) w' = Some (wdQueue dl)"
      by (simp_all add: get)
  next
    show "\<And>m p d dl d' dl'. drainOf m p w' d dl \<Longrightarrow> drainOf m p w' d' dl' \<Longrightarrow> d = d'"
      unfolding drain by (rule old(2))
    show "\<And>m p m' p' q. getWriterQueue m p w' = Some q \<Longrightarrow> getWriterQueue m' p' w' = Some q \<Longrightarrow> m = m' \<and> p = p'"
      unfolding get by (rule old(4))
    fix m p q assume "getWriterQueue m p w' = Some q"
    then have q: "getWriterQueue m p w = Some q" by (simp only: get)
    show "q < wwNext w'" "\<exists>d dl. drainOf m p w' d dl"
      using old(3) [OF q] assms(5) by (simp_all add: drain)
    show "wqDrainPromise (wwQueues w' q) = None \<Longrightarrow> q \<in> snd ` set (wwStarting w')" by (rule assms(7) [OF q])
  next
    fix x assume "x \<in> set (wwStarting w')"
    then have "x \<in> set (wwStarting w)" using assms(6) by blast
    from old(6) [OF this] assms(5) show "snd x < wwNext w'" by simp
  next
    show "wwMicrotasks w' = []" using old(7) by (simp add: assms(4))
  qed
qed

lemma drains_only:
  assumes "writerInv w" "getWriterQueue m p w = Some q"
  obtains d dl t n where "drainOf m p w d dl" "wdCurrent dl = Some (t, n)" "wdQueue dl = q"
proof -
  obtain d dl where d: "drainOf m p w d dl" using writerInvD(3) [OF assms] by blast
  then have "wdCurrent dl \<noteq> None" "wdQueue dl = q"
    using writerInvD(1) [OF assms(1), of d dl] assms(2) by (auto simp: drainOf_def)
  with d show thesis by (cases "wdCurrent dl") (auto intro: that)
qed

lemma lane_same:
  assumes "writerInv w" "writerInv w'" "wwMaps w' = wwMaps w" "wwDrains w' = wwDrains w"
    "\<And>q. getWriterQueue m p w = Some q \<Longrightarrow> wqPending (wwQueues w' q) = wqPending (wwQueues w q) @ ts"
    "getWriterQueue m p w = None \<Longrightarrow> ts = []"
  shows "writerLane m p w' = writerLane m p w @ ts"
proof (cases "getWriterQueue m p w")
  case None
  moreover from None have "getWriterQueue m p w' = None" by (simp add: getWriterQueue_def assms(3))
  ultimately show ?thesis using running_none(2) assms(1,2,6) by simp
next
  case (Some q)
  then obtain d dl t n where d: "drainOf m p w d dl" "wdCurrent dl = Some (t, n)" "wdQueue dl = q"
    by (rule drains_only [OF assms(1)])
  then have "drainOf m p w' d dl" by (simp add: drainOf_def assms(4))
  from lane_drain [OF assms(2) this d(2)] lane_drain [OF assms(1) d(1,2)] assms(5) [OF Some] d(3)
  show ?thesis by simp
qed

lemma queued_inv:
  assumes inv: "writerInv w" and q: "getWriterQueue m p w = Some q"
  defines "w' \<equiv> setWriterQueue q (\<lambda>Q. Q\<lparr>wqPending := wqPending Q @ [wwNext w]\<rparr>) (w\<lparr>wwNext := Suc (wwNext w)\<rparr>)"
  shows "writerInv w'"
    "writerLane m' p' w' = (if m' = m \<and> p' = p then writerLane m p w @ [wwNext w] else writerLane m' p' w)"
proof -
  show inv': "writerInv w'"
    by (rule writerInv_same [OF inv], use writerInvD(5) [OF inv] in \<open>simp_all add: w'_def split: if_splits\<close>)
  show "writerLane m' p' w' = (if m' = m \<and> p' = p then writerLane m p w @ [wwNext w] else writerLane m' p' w)"
  proof (cases "m' = m \<and> p' = p")
    case True
    have "writerLane m p w' = writerLane m p w @ [wwNext w]"
      by (rule lane_same [OF inv inv']) (use q in \<open>auto simp: w'_def\<close>)
    with True show ?thesis by simp
  next
    case False
    have "q' \<noteq> q" if "getWriterQueue m' p' w = Some q'" for q'
      using writerInvD(4) [OF inv q, of m' p'] that False by auto
    then have "writerLane m' p' w' = writerLane m' p' w @ []"
      by (intro lane_same [OF inv inv']) (simp_all add: w'_def)
    with False show ?thesis by simp
  qed
qed

lemma started_inv:
  assumes inv: "writerInv w"
  shows "writerInv (drainStarted w)" "writerLane m p (drainStarted w) = writerLane m p w"
proof -
  show inv': "writerInv (drainStarted w)"
  proof (rule writerInv_same [OF inv])
    fix m p q assume "getWriterQueue m p w = Some q" "wqDrainPromise (wwQueues (drainStarted w) q) = None"
    then show "q \<in> snd ` set (wwStarting (drainStarted w))"
      using writerInvD(5) [OF inv, of m p q] by (auto simp: drainStarted_def split: list.splits if_splits)
  qed (auto simp: drainStarted_def split: list.splits)
  show "writerLane m p (drainStarted w) = writerLane m p w"
    using lane_same [OF inv inv', of m p "[]"] by (auto simp: drainStarted_def split: list.splits)
qed

lemma task_ends_inv:
  assumes inv: "writerInv w"
  shows "writerInv (writerFinally n w)" "writerLane m p (writerFinally n w) = writerLane m p w"
proof -
  show inv': "writerInv (writerFinally n w)"
    by (rule writerInv_same [OF inv], use writerInvD(5) [OF inv] in \<open>simp_all add: writerFinally_def\<close>)
  show "writerLane m p (writerFinally n w) = writerLane m p w"
    using lane_same [OF inv inv', of m p "[]"] by (auto simp: writerFinally_def)
qed

text \<open>A drain goes on to its next task, or ends.\<close>

lemma continues_inv:
  assumes inv: "writerInv w" and d: "wwDrains w d = Some dl" "wdCurrent dl = Some (task, n)"
    and idle: "wwStarting w = []"
  defines "w' \<equiv> drainAfterTask d dl task w" and "m \<equiv> wdQueues dl" and "p \<equiv> wdStorePath dl"
  shows "writerInv w'"
    "writerLane m' p' w' = (if m' = m \<and> p' = p then tl (writerLane m p w) else writerLane m' p' w)"
    "wwSettled w' = wwSettled w @ [task]" "hd (writerLane m p w) = task"
proof -
  define q where "q = wdQueue dl"
  have q: "getWriterQueue m p w = Some q" using writerInvD(1) [OF inv d(1)] by (simp add: m_def p_def q_def)
  have dr: "drainOf m p w d dl" using d by (simp add: drainOf_def m_def p_def)
  have lane: "writerLane m p w = task # wqPending (wwQueues w q)" using lane_drain [OF inv dr d(2)] by (simp add: q_def)
  then show "hd (writerLane m p w) = task" by simp
  have other: "q' \<noteq> q" if "getWriterQueue m' p' w = Some q'" "\<not> (m' = m \<and> p' = p)" for m' p' q'
    using writerInvD(4) [OF inv q, of m' p'] that by auto
  have drains: "d' \<noteq> d" if "drainOf m' p' w d' dl'" "\<not> (m' = m \<and> p' = p)" for m' p' d' dl'
    using that d(1) by (auto simp: drainOf_def m_def p_def)
  note old = writerInvD [OF inv]
  note defs = w'_def drainAfterTask_def drainLoopHead_def Let_def
  show "wwSettled w' = wwSettled w @ [task]"
    by (simp add: defs drainFinally_def split: list.split)
  show "writerInv w'" and
    "writerLane m' p' w' = (if m' = m \<and> p' = p then tl (writerLane m p w) else writerLane m' p' w)"
  proof (atomize (full), cases "wqPending (wwQueues w q)")
    case (Cons t rest)
    define dl' where "dl' = dl\<lparr>wdCurrent := Some (t, wwNext w)\<rparr>"
    have shape: "wwMaps w' = wwMaps w" "wwDrains w' = (wwDrains w)(d := Some dl')" "wwNext w' = Suc (wwNext w)"
      "wwStarting w' = []" "wwMicrotasks w' = wwMicrotasks w"
      "wwQueues w' = (wwQueues w)(q := (wwQueues w q)\<lparr>wqPending := rest\<rparr>)"
      using Cons by (simp_all add: defs q_def idle dl'_def)
    have get: "getWriterQueue m p w' = getWriterQueue m p w" for m p by (simp add: getWriterQueue_def shape)
    have drain: "drainOf m p w' e f \<longleftrightarrow> (if e = d then f = dl' \<and> (\<exists>g. drainOf m p w e g) else drainOf m p w e f)"
      for m p e f using d(1) by (auto simp: drainOf_def shape dl'_def)
    have inv': "writerInv w'"
    proof (rule writerInvI)
      fix e f assume "wwDrains w' e = Some f"
      then have "if e = d then f = dl' else wwDrains w e = Some f" by (auto simp: shape split: if_splits)
      then show "e < wwNext w'" "wdCurrent f \<noteq> None" "getWriterQueue (wdQueues f) (wdStorePath f) w' = Some (wdQueue f)"
        unfolding get using old(1) [of e] d(1) by (auto simp: shape dl'_def split: if_splits)
    next
      fix m p e f e' f' assume "drainOf m p w' e f" "drainOf m p w' e' f'"
      then show "e = e'" unfolding drain using old(2) [of m p] by (metis)
    next
      fix m p q assume "getWriterQueue m p w' = Some q"
      then have q: "getWriterQueue m p w = Some q" by (simp only: get)
      show "q < wwNext w'" using old(3) [OF q] by (simp add: shape)
      show "\<exists>e f. drainOf m p w' e f" unfolding drain using old(3) [OF q] by metis
      show "wqDrainPromise (wwQueues w' q) = None \<Longrightarrow> q \<in> snd ` set (wwStarting w')"
        using old(5) [OF q] idle by (auto simp: shape split: if_splits)
    next
      show "\<And>m p m' p' q. getWriterQueue m p w' = Some q \<Longrightarrow> getWriterQueue m' p' w' = Some q \<Longrightarrow> m = m' \<and> p = p'"
        unfolding get by (rule old(4))
    qed (use old(7) in \<open>simp_all add: shape\<close>)
    have "writerLane m' p' w' = (if m' = m \<and> p' = p then tl (writerLane m p w) else writerLane m' p' w)"
    proof (cases "m' = m \<and> p' = p")
      case True
      have "drainOf m p w' d dl'" using dr by (auto simp: drain)
      then have "writerLane m p w' = t # rest" using lane_drain [OF inv', of m p d dl'] by (simp add: dl'_def shape q_def)
      with True lane Cons show ?thesis by simp
    next
      case False
      show ?thesis
      proof (cases "getWriterQueue m' p' w")
        case None
        then show ?thesis using False running_none(2) [OF inv] running_none(2) [OF inv'] get by auto
      next
        case (Some r)
        then obtain e f u k where e: "drainOf m' p' w e f" "wdCurrent f = Some (u, k)" "wdQueue f = r"
          by (rule drains_only [OF inv])
        then have "drainOf m' p' w' e f" using drains [OF e(1) False] by (simp add: drain)
        from lane_drain [OF inv' this e(2)] lane_drain [OF inv e(1,2)] other [OF Some False] e(3) False
        show ?thesis by (auto simp: shape)
      qed
    qed
    with inv' show "writerInv w' \<and> writerLane m' p' w' =
        (if m' = m \<and> p' = p then tl (writerLane m p w) else writerLane m' p' w)" ..
  next
    case Nil
    have shape: "wwMaps w' = (wwMaps w)(m := jm_delete p (wwMaps w m))" "wwDrains w' = (wwDrains w)(d := None)"
      "wwNext w' = wwNext w" "wwStarting w' = []" "wwMicrotasks w' = wwMicrotasks w"
      "wwQueues w' = (wwQueues w)(q := (wwQueues w q)\<lparr>wqRunning := False, wqDrainPromise := None\<rparr>)"
      using Nil by (simp_all add: defs drainFinally_def q_def m_def p_def idle)
    have get: "getWriterQueue m' p' w' = (if m' = m \<and> p' = p then None else getWriterQueue m' p' w)" for m' p'
      by (auto simp: getWriterQueue_def shape jm.get_del)
    have drain: "drainOf m' p' w' e f \<longleftrightarrow> drainOf m' p' w e f \<and> e \<noteq> d" for m' p' e f
      by (auto simp: drainOf_def shape)
    have gone: "\<not> drainOf m p w' e f" for e f using old(2) [OF dr, of e f] by (auto simp: drain)
    have inv': "writerInv w'"
    proof (rule writerInvI)
      fix e f assume "wwDrains w' e = Some f"
      then have "wwDrains w e = Some f" "e \<noteq> d" by (auto simp: shape split: if_splits)
      moreover from this have "\<not> (wdQueues f = m \<and> wdStorePath f = p)"
        using gone [of e f] unfolding drain by (auto simp: drainOf_def)
      ultimately show "e < wwNext w'" "wdCurrent f \<noteq> None" "getWriterQueue (wdQueues f) (wdStorePath f) w' = Some (wdQueue f)"
        using old(1) [of e f] by (auto simp: shape get)
    next
      fix m p e f e' f' assume "drainOf m p w' e f" "drainOf m p w' e' f'"
      then show "e = e'" unfolding drain using old(2) [of m p] by blast
    next
      fix m' p' r assume "getWriterQueue m' p' w' = Some r"
      then have r: "getWriterQueue m' p' w = Some r" "\<not> (m' = m \<and> p' = p)" by (auto simp: get split: if_splits)
      show "r < wwNext w'" using old(3) [OF r(1)] by (simp add: shape)
      show "\<exists>e f. drainOf m' p' w' e f" unfolding drain using old(3) [OF r(1)] drains [OF _ r(2)] by blast
      show "wqDrainPromise (wwQueues w' r) = None \<Longrightarrow> r \<in> snd ` set (wwStarting w')"
        using old(5) [OF r(1)] other [OF r] idle by (auto simp: shape)
    next
      fix m1 p1 m2 p2 r assume "getWriterQueue m1 p1 w' = Some r" "getWriterQueue m2 p2 w' = Some r"
      then have "getWriterQueue m1 p1 w = Some r" "getWriterQueue m2 p2 w = Some r" by (auto simp: get split: if_splits)
      then show "m1 = m2 \<and> p1 = p2" by (rule old(4))
    qed (use old(7) in \<open>simp_all add: shape\<close>)
    have "writerLane m' p' w' = (if m' = m \<and> p' = p then tl (writerLane m p w) else writerLane m' p' w)"
    proof (cases "m' = m \<and> p' = p")
      case True
      then show ?thesis using running_none(2) [OF inv'] get lane Nil by simp
    next
      case False
      show ?thesis
      proof (cases "getWriterQueue m' p' w")
        case None
        then show ?thesis using False running_none(2) [OF inv] running_none(2) [OF inv'] get by auto
      next
        case (Some r)
        then obtain e f u k where e: "drainOf m' p' w e f" "wdCurrent f = Some (u, k)" "wdQueue f = r"
          by (rule drains_only [OF inv])
        then have "drainOf m' p' w' e f" using drains [OF e(1) False] by (simp add: drain)
        from lane_drain [OF inv' this e(2)] lane_drain [OF inv e(1,2)] other [OF Some False] e(3) False
        show ?thesis by (auto simp: shape)
      qed
    qed
    with inv' show "writerInv w' \<and> writerLane m' p' w' =
        (if m' = m \<and> p' = p then tl (writerLane m p w) else writerLane m' p' w)" ..
  qed
qed

section \<open>Careful runs\<close>

lemma call_inv:
  fixes ctx :: writer_context and reentrant :: bool
  assumes inv: "writerInv w" and careful: "\<not> startingPath m p w"
  defines "c \<equiv> runQueuedStoreWrite m p reentrant ctx w"
  shows "writerInv (snd c)"
    "writerLane m' p' (snd c) = writerLane m' p' w @
       (case fst c of WriteQueued t \<Rightarrow> if m' = m \<and> p' = p then [t] else [] | _ \<Rightarrow> [])"
    "wwSettled (snd c) = wwSettled w"
proof (atomize (full), cases "p = [] \<or> reentrant \<and> isActiveStoreWriter m p ctx w")
  case True
  then have "c = (WriteThrows, w) \<or> c = (WriteReentrant, w)" by (auto simp: c_def runQueuedStoreWrite_def)
  then show "writerInv (snd c) \<and> writerLane m' p' (snd c) = writerLane m' p' w @
      (case fst c of WriteQueued t \<Rightarrow> if m' = m \<and> p' = p then [t] else [] | _ \<Rightarrow> []) \<and>
      wwSettled (snd c) = wwSettled w" using inv by auto
next
  case False
  then have ok: "p \<noteq> []" "\<not> (reentrant \<and> isActiveStoreWriter m p ctx w)" by simp_all
  show "writerInv (snd c) \<and> writerLane m' p' (snd c) = writerLane m' p' w @
      (case fst c of WriteQueued t \<Rightarrow> if m' = m \<and> p' = p then [t] else [] | _ \<Rightarrow> []) \<and>
      wwSettled (snd c) = wwSettled w"
  proof (cases "getWriterQueue m p w")
    case None
    note c = call_new [OF None ok, folded c_def]
    have "wwSettled (newLane m p ctx w) = wwSettled w" by (simp add: newLane_def Let_def)
    with newLane_inv(1) [OF inv None, where ctx = ctx]
      newLane_inv(2) [OF inv None, where ctx = ctx and m' = m' and p' = p'] running_none(2) [OF inv None] c show ?thesis by auto
  next
    case (Some q)
    then have "q \<notin> snd ` set (wwStarting w)"
      using careful by (auto simp: startingPath_def list_ex_iff split_def)
    with writerInvD(5) [OF inv Some] have "wqDrainPromise (wwQueues w q) \<noteq> None" by blast
    note c = call_queued [OF Some this ok, folded c_def]
    from queued_inv(1) [OF inv Some] queued_inv(2) [OF inv Some, of m' p'] c show ?thesis by auto
  qed
qed

lemma writer_step_inv: "writer_step True w w' \<Longrightarrow> writerInv w \<Longrightarrow> writerInv w'"
proof (induction rule: writer_step.induct)
  case (microtask w queues storePath ctx rest)
  then show ?case using writerInvD(7) by fastforce
qed (simp_all add: call_inv started_inv task_ends_inv continues_inv)

lemma writerInv_reachable: "(writer_step True)\<^sup>*\<^sup>* emptyWriterWorld w \<Longrightarrow> writerInv w"
  by (induction rule: rtranclp_induct) (simp_all add: emptyWriter_inv writer_step_inv)

text \<open>The queue of a path keeps the contract of lanes.\<close>

lemma writer_moves:
  assumes inv: "writerInv w" and step: "writer_step True w w'"
  shows "lane_moves (writerLane m p w) (writerLane m p w') \<and>
    (writerLane m p w = t # writerLane m p w' \<longrightarrow> t \<in> set (wwSettled w'))"
  using step
proof cases
  case (call queues storePath reentrant ctx)
  then show ?thesis
    using call_inv(2) [OF inv, where m = queues and p = storePath and reentrant = reentrant and ctx = ctx and m' = m and p' = p]
    by (auto simp: split: write_call.split)
next
  case (continues d dl task n)
  note c = continues_inv(2-4) [OF inv continues(3,4,2)]
  have "writerLane (wdQueues dl) (wdStorePath dl) w \<noteq> []"
    using lane_drain [OF inv, of _ _ d dl] continues(3,4) by (simp add: drainOf_def)
  then have lane: "writerLane (wdQueues dl) (wdStorePath dl) w = task # tl (writerLane (wdQueues dl) (wdStorePath dl) w)"
    using c(3) by (metis list.collapse)
  show ?thesis
  proof (cases "m = wdQueues dl \<and> p = wdStorePath dl")
    case True
    then have "writerLane m p w = task # writerLane m p w'" using lane c(1) [of m p] continues(1) by simp
    then show ?thesis using c(2) continues(1) by auto
  next
    case False
    then have "writerLane m p w' = writerLane m p w" using c(1) [of m p] continues(1) by auto
    then show ?thesis by auto
  qed
next
  case (microtask queues storePath ctx rest)
  then show ?thesis using writerInvD(7) [OF inv] by simp
qed (auto simp: started_inv [OF inv] task_ends_inv [OF inv])

interpretation writer_lanes: fifo_lanes writerInv "writer_step True" "\<lambda>(m, p). writerLane m p"
proof unfold_locales
  show "writerInv w \<Longrightarrow> writer_step True w w' \<Longrightarrow> writerInv w'" for w w' by (rule writer_step_inv)
  show "writerInv w \<Longrightarrow> writer_step True w w' \<Longrightarrow>
      lane_moves ((case k of (m, p) \<Rightarrow> writerLane m p) w) ((case k of (m, p) \<Rightarrow> writerLane m p) w')" for w w' k
    by (cases k) (auto simp: writer_moves)
qed

text \<open>
  C12. As long as no task calls for its own path in its first synchronous part, the queue of a path
  is a first-in-first-out lock: over any run its tasks leave at the front and join at the end,
  whenever there are tasks exactly the first one runs, and a task leaves only when it is settled.
\<close>

theorem writer_queue_is_fifo_lock:
  assumes "(writer_step True)\<^sup>*\<^sup>* emptyWriterWorld w" "(writer_step True)\<^sup>*\<^sup>* w v" "writer_step True v v'"
  shows "(\<exists>n new. writerLane m p v = drop n (writerLane m p w) @ new) \<and>
    runningWrites m p v = take 1 (writerLane m p v) \<and>
    (writerLane m p v = t # writerLane m p v' \<longrightarrow> t \<in> set (wwSettled v'))"
proof -
  have inv: "writerInv w" "writerInv v" using assms(1,2) by (auto intro: writerInv_reachable)
  show ?thesis
    using writer_lanes.first_in_first_out [OF assms(2) inv(1), of "(m, p)"] lane_running [OF inv(2)]
      writer_moves [OF inv(2) assms(3)] by simp
qed

theorem writer_queue_is_fifo_lock_witness:
  "let w = drainStarted (snd (runQueuedStoreWrite 0 ''s'' False [] emptyWriterWorld))
   in writerLane 0 ''s'' w = [1] \<and> runningWrites 0 ''s'' w = take 1 (writerLane 0 ''s'' w)"
proof -
  let ?c = "snd (runQueuedStoreWrite 0 ''s'' False [] emptyWriterWorld)"
  have "writer_step True emptyWriterWorld ?c"
    by (rule writer_step.call) (simp add: startingPath_def emptyWriterWorld_def)
  moreover have "getWriterQueue 0 ''s'' emptyWriterWorld = None"
    by (simp add: emptyWriterWorld_def getWriterQueue_def)
  note c = call_new [OF this, of False "[]"]
  have "writer_step True ?c (drainStarted ?c)"
    by (rule writer_step.started) (simp add: c newLane_def Let_def)
  ultimately have reach: "(writer_step True)\<^sup>*\<^sup>* emptyWriterWorld (drainStarted ?c)" by simp
  have "wwStarting (drainStarted ?c) = []"
    by (simp add: c newLane_def Let_def drainStarted_def) (simp add: emptyWriterWorld_def)
  then have "writer_step True (drainStarted ?c) (snd (runQueuedStoreWrite 0 ''s'' False [] (drainStarted ?c)))"
    by (intro writer_step.call) (simp add: startingPath_def)
  from writer_queue_is_fifo_lock [OF rtranclp.rtrancl_refl reach this, of 0 "''s''"]
  have "runningWrites 0 ''s'' (drainStarted ?c) = take 1 (writerLane 0 ''s'' (drainStarted ?c))" by blast
  moreover have "writerLane 0 ''s'' (drainStarted ?c) = [1]" by code_simp
  ultimately show ?thesis unfolding Let_def by blast
qed

end
