(* ===== verification/WriterQueueGaps.thy ===== *)
theory WriterQueueGaps
  imports WriterQueueProofs
begin

text \<open>Two ways in which a second task enters a path whose task still runs.\<close>

section \<open>A call in the first part of a task\<close>

lemma no_drain_running:
  assumes "writerInv w" "getWriterQueue m p w = None"
  shows "concat (map (\<lambda>d. runningOf m p (wwDrains w d)) [0..<n]) = []"
  using writerInvD(1) [OF assms(1)] assms(2) by (auto simp: runningOf_def split: option.split)

lemma no_drain_above: "writerInv w \<Longrightarrow> wwNext w \<le> d \<Longrightarrow> wwDrains w d = None"
  using writerInvD(1) [of w d] by (cases "wwDrains w d") fastforce+

lemma running_above:
  assumes "writerInv w" "getWriterQueue m p w = None" "\<And>d. d < wwNext w \<Longrightarrow> wwDrains w' d = wwDrains w d"
    "wwNext w' = wwNext w + k"
  shows "runningWrites m p w' = concat (map (\<lambda>d. runningOf m p (wwDrains w' d)) [wwNext w..<wwNext w + k])"
proof -
  have "[0..<wwNext w'] = [0..<wwNext w] @ [wwNext w..<wwNext w + k]"
    unfolding assms(4) by (rule upt_add_eq_append) simp
  moreover have "map (\<lambda>d. runningOf m p (wwDrains w' d)) [0..<wwNext w] = map (\<lambda>d. runningOf m p (wwDrains w d)) [0..<wwNext w]"
    by (rule map_cong) (simp_all add: assms(3))
  ultimately show ?thesis using no_drain_running [OF assms(1,2)] by (simp add: runningWrites_def)
qed

text \<open>The world after a task of a path called for the path again in its first part.\<close>

definition childLane :: "nat \<Rightarrow> string \<Rightarrow> writer_context \<Rightarrow> writer_context \<Rightarrow> writer_world \<Rightarrow> writer_world" where
  "childLane m p ctx ctx' w =
     (let q = wwNext w; v = newLane m p ctx w
      in v\<lparr>wwWriters := (wwWriters v)(q + 6 := \<lparr>swActive = True, swQueues = m, swStorePath = p\<rparr>),
           wwDrains := (wwDrains v)(q + 5 := Some \<lparr>wdQueues = m, wdStorePath = p, wdQueue = q, wdContext = ctx',
             wdCurrent = Some (q + 4, q + 6)\<rparr>),
           wwStarting := (q + 5, q) # wwStarting v, wwNext := q + 7\<rparr>)"

lemma call_child:
  assumes "p \<noteq> []"
  shows "runQueuedStoreWrite m p False ctx' (newLane m p ctx w) = (WriteQueued (wwNext w + 4), childLane m p ctx ctx' w)"
  using assms
  by (simp add: runQueuedStoreWrite_def getOrCreateStoreWriterQueue_def drainStoreWriterQueue_def drainLoopHead_def
      getWriterQueue_def jm.get_put newLane_def childLane_def Let_def setWriterQueue_def numeral_eq_Suc)

lemma childLane_running:
  assumes "writerInv w" "getWriterQueue m p w = None"
  shows "runningWrites m p (childLane m p ctx ctx' w) = [Suc (wwNext w), wwNext w + 4]"
proof -
  note [simp] = no_drain_above [OF assms(1)]
  have "[wwNext w..<wwNext w + 7] = map (\<lambda>i. wwNext w + i) [0, 1, 2, 3, 4, 5, 6]"
    by (simp add: upt_rec)
  then show ?thesis
    by (subst running_above [OF assms, of _ 7])
      (simp_all add: childLane_def newLane_def Let_def runningOf_def)
qed

text \<open>
  C30. A task that calls for its own path in its first synchronous part does not make the new task
  wait: the drain guard \<open>queue.drainPromise\<close> is still empty, a second drain starts and the new task runs
  beside it.  When the second drain ends first the queue is deleted while the first task still runs,
  so that the next call finds no queue and starts at once.
\<close>

theorem child_write_breaks_in:
  fixes ctx ctx' :: writer_context
  assumes "(writer_step True)\<^sup>*\<^sup>* emptyWriterWorld w" "getWriterQueue m p w = None" "p \<noteq> []"
  defines "first \<equiv> runQueuedStoreWrite m p False ctx w"
  defines "child \<equiv> runQueuedStoreWrite m p False ctx' (snd first)"
  defines "later \<equiv> \<lambda>d dl t n. drainAfterTask d dl t (writerFinally n (drainStarted (drainStarted (snd child))))"
  shows "\<exists>a b. fst first = WriteQueued a \<and> fst child = WriteQueued b \<and> runningWrites m p (snd child) = [a, b] \<and>
    (\<exists>d dl n. wwDrains (snd child) d = Some dl \<and> wdCurrent dl = Some (b, n) \<and>
       getWriterQueue m p (later d dl b n) = None \<and> runningWrites m p (later d dl b n) = [a])"
proof -
  have inv: "writerInv w" using assms(1) by (rule writerInv_reachable)
  let ?dl = "\<lparr>wdQueues = m, wdStorePath = p, wdQueue = wwNext w, wdContext = ctx', wdCurrent = Some (wwNext w + 4, wwNext w + 6)\<rparr>"
  have first: "first = (WriteQueued (Suc (wwNext w)), newLane m p ctx w)"
    unfolding first_def by (rule call_new [OF assms(2,3)]) simp
  have child: "child = (WriteQueued (wwNext w + 4), childLane m p ctx ctx' w)"
    unfolding child_def first snd_conv by (rule call_child [OF assms(3)])
  have drain: "wwDrains (snd child) (wwNext w + 5) = Some ?dl"
    by (simp add: child childLane_def Let_def)
  define v where "v = later (wwNext w + 5) ?dl (wwNext w + 4) (wwNext w + 6)"
  have get: "getWriterQueue m p v = None"
    by (simp add: v_def later_def child childLane_def newLane_def Let_def drainAfterTask_def drainLoopHead_def
        drainFinally_def drainStarted_def writerFinally_def getWriterQueue_def jm.get_del)
  have shape: "wwDrains v = (wwDrains (childLane m p ctx ctx' w))(wwNext w + 5 := None)" "wwNext v = wwNext w + 7"
    by (simp_all add: v_def later_def child childLane_def newLane_def Let_def drainAfterTask_def drainLoopHead_def
        drainFinally_def drainStarted_def writerFinally_def)
  note [simp] = no_drain_above [OF inv]
  have "[wwNext w..<wwNext w + 7] = map (\<lambda>i. wwNext w + i) [0, 1, 2, 3, 4, 5, 6]" by (simp add: upt_rec)
  then have "runningWrites m p v = [Suc (wwNext w)]"
    by (subst running_above [OF inv assms(2), of _ 7])
      (simp_all add: shape childLane_def newLane_def Let_def runningOf_def)
  with get drain childLane_running [OF inv assms(2)] show ?thesis
    unfolding v_def by (auto simp: first child intro!: exI [of _ "wwNext w + 5"])
qed

theorem child_write_breaks_in_witness:
  "runningWrites 0 ''s'' (snd (runQueuedStoreWrite 0 ''s'' False [3] (snd (runQueuedStoreWrite 0 ''s'' False []
     emptyWriterWorld)))) = [1, 4]"
proof -
  have "getWriterQueue 0 ''s'' emptyWriterWorld = None" "''s'' \<noteq> []"
    by (simp_all add: emptyWriterWorld_def getWriterQueue_def)
  from child_write_breaks_in [OF rtranclp.rtrancl_refl this, where ctx = "[]" and ctx' = "[3]"]
    call_new [OF this, of False "[]"] call_child [OF this(2), of 0 "[3]" "[]" emptyWriterWorld]
  show ?thesis by (auto simp: emptyWriterWorld_def)
qed

section \<open>An inherited context\<close>

definition contextOf :: "nat \<Rightarrow> string \<Rightarrow> writer_drain option \<Rightarrow> writer_context list" where
  "contextOf queues storePath dl =
     (case dl of
        None \<Rightarrow> []
      | Some dl \<Rightarrow> if wdQueues dl = queues \<and> wdStorePath dl = storePath
                   then (case wdCurrent dl of None \<Rightarrow> [] | Some (task, n) \<Rightarrow> [n # wdContext dl]) else [])"

text \<open>The contexts in which the running tasks of a path run, and the end of its running task.\<close>

definition runningContexts :: "nat \<Rightarrow> string \<Rightarrow> writer_world \<Rightarrow> writer_context list" where
  "runningContexts queues storePath w =
     concat (map (\<lambda>d. contextOf queues storePath (wwDrains w d)) [0..<wwNext w])"

definition endRunning :: "nat \<Rightarrow> string \<Rightarrow> writer_world \<Rightarrow> writer_world" where
  "endRunning queues storePath w =
     (case filter (\<lambda>d. runningOf queues storePath (wwDrains w d) \<noteq> []) [0..<wwNext w] of
        [] \<Rightarrow> w
      | d # _ \<Rightarrow>
          (case wwDrains w d of
             None \<Rightarrow> w
           | Some dl \<Rightarrow> (case wdCurrent dl of
                None \<Rightarrow> w | Some (task, n) \<Rightarrow> drainAfterTask d dl task (writerFinally n w))))"

lemma filter_upt_only: "d < n \<Longrightarrow> filter (\<lambda>x. x = d) [0..<n] = [d]"
  by (induction n) (auto simp: less_Suc_eq filter_empty_conv)

lemma only_drain:
  assumes "writerInv w" "drainOf m p w d dl" "wdCurrent dl = Some (task, n)"
  shows "runningContexts m p w = [n # wdContext dl]"
    and "endRunning m p w = drainAfterTask d dl task (writerFinally n w)"
proof -
  have d: "d < wwNext w" using writerInvD(1) [OF assms(1)] assms(2) by (auto simp: drainOf_def)
  have here: "runningOf m p (wwDrains w d) = [task]" "contextOf m p (wwDrains w d) = [n # wdContext dl]"
    using assms(2,3) by (simp_all add: runningOf_def contextOf_def drainOf_def)
  have other: "runningOf m p (wwDrains w x) = []" "contextOf m p (wwDrains w x) = []" if "x \<noteq> d" for x
    using that writerInvD(2) [OF assms(1,2), of x]
    by (auto simp: runningOf_def contextOf_def drainOf_def split: option.split)
  have "runningContexts m p w = contextOf m p (wwDrains w d)"
    unfolding runningContexts_def using d other(2) by (intro concat_map_only) auto
  then show "runningContexts m p w = [n # wdContext dl]" using here by simp
  have "filter (\<lambda>x. runningOf m p (wwDrains w x) \<noteq> []) [0..<wwNext w] = filter (\<lambda>x. x = d) [0..<wwNext w]"
    by (rule filter_cong [OF refl]) (use here other in auto)
  also have "\<dots> = [d]" using d by (rule filter_upt_only)
  finally show "endRunning m p w = drainAfterTask d dl task (writerFinally n w)"
    using assms(2,3) by (simp add: endRunning_def drainOf_def)
qed

text \<open>
  C32. A task runs in the async context of the call that started the drain, not of the call that
  enqueued it.  Let a task write path \<open>p1\<close> and, inside, path \<open>p2\<close>; a task that somebody else enqueued on
  \<open>p2\<close> meanwhile then runs as if inside \<open>p1\<close>: its reentrant call on \<open>p1\<close> runs at once, beside the
  task that still holds \<open>p1\<close>.
\<close>

theorem inherited_context_breaks_in:
  assumes "(writer_step True)\<^sup>*\<^sup>* emptyWriterWorld w" "wwStarting w = []"
    "getWriterQueue m p1 w = None" "getWriterQueue m p2 w = None" "p1 \<noteq> p2" "p1 \<noteq> []" "p2 \<noteq> []"
  defines "w1 \<equiv> drainStarted (snd (runQueuedStoreWrite m p1 False [] w))"
  defines "w2 \<equiv> drainStarted (snd (runQueuedStoreWrite m p2 False (hd (runningContexts m p1 w1)) w1))"
  defines "other \<equiv> runQueuedStoreWrite m p2 False [] w2"
  defines "w3 \<equiv> endRunning m p2 (snd other)"
  shows "\<exists>a b. runningWrites m p1 w1 = [a] \<and> fst other = WriteQueued b \<and>
    runningWrites m p1 w3 = [a] \<and> runningWrites m p2 w3 = [b] \<and>
    fst (runQueuedStoreWrite m p1 True (hd (runningContexts m p2 w3)) w3) = WriteReentrant"
proof -
  define q where "q = wwNext w"
  let ?d1 = "\<lparr>wdQueues = m, wdStorePath = p1, wdQueue = q, wdContext = [], wdCurrent = Some (Suc q, q + 3)\<rparr>"
  let ?d2 = "\<lparr>wdQueues = m, wdStorePath = p2, wdQueue = q + 4, wdContext = [q + 3], wdCurrent = Some (q + 5, q + 7)\<rparr>"
  have inv: "writerInv w" using assms(1) by (rule writerInv_reachable)
  have w1: "w1 = drainStarted (newLane m p1 [] w)" "fst (runQueuedStoreWrite m p1 False [] w) = WriteQueued (Suc q)"
    using call_new [OF assms(3,6), of False "[]"] by (simp_all add: w1_def q_def)
  have inv1: "writerInv w1"
    unfolding w1(1) by (rule started_inv(1) [OF newLane_inv(1) [OF inv assms(3)]])
  have s1: "wwMaps w1 = (wwMaps w)(m := jm_set p1 q (wwMaps w m))" "wwNext w1 = q + 4"
    "wwQueues w1 = (wwQueues w)(q := \<lparr>wqRunning = True, wqPending = [], wqDrainPromise = Some (q + 2)\<rparr>)"
    "wwDrains w1 = (wwDrains w)(q + 2 := Some ?d1)" "wwStarting w1 = []"
    "wwWriters w1 = (wwWriters w)(q + 3 := \<lparr>swActive = True, swQueues = m, swStorePath = p1\<rparr>)"
    using assms(2) by (simp_all add: w1 newLane_def Let_def q_def drainStarted_def)
  have "drainOf m p1 w1 (q + 2) ?d1" by (simp add: drainOf_def s1)
  note r1 = running_drain [OF inv1 this, of "Suc q" "q + 3"] only_drain(1) [OF inv1 this, of "Suc q" "q + 3"]
  have get1: "getWriterQueue m p2 w1 = None"
    using assms(4,5) by (simp add: getWriterQueue_def s1 jm.get_put)
  have w2: "w2 = drainStarted (newLane m p2 [q + 3] w1)"
    using call_new [OF get1 assms(7), of False "[q + 3]"] r1(2) by (simp add: w2_def)
  have inv2: "writerInv w2"
    unfolding w2 by (rule started_inv(1) [OF newLane_inv(1) [OF inv1 get1]])
  have s2: "wwNext w2 = q + 8" "wwMaps w2 m = jm_set p2 (q + 4) (wwMaps w1 m)"
    "wwQueues w2 = (wwQueues w1)(q + 4 := \<lparr>wqRunning = True, wqPending = [], wqDrainPromise = Some (q + 6)\<rparr>)"
    "wwDrains w2 = (wwDrains w1)(q + 6 := Some ?d2)" "wwStarting w2 = []"
    "wwWriters w2 = (wwWriters w1)(q + 7 := \<lparr>swActive = True, swQueues = m, swStorePath = p2\<rparr>)"
    by (simp_all add: w2 newLane_def Let_def drainStarted_def s1(2,5) add.commute [of _ q])
  have get2: "getWriterQueue m p2 w2 = Some (q + 4)" by (simp add: getWriterQueue_def s2 jm.get_put)
  define v where "v = setWriterQueue (q + 4) (\<lambda>Q. Q\<lparr>wqPending := wqPending Q @ [q + 8]\<rparr>) (w2\<lparr>wwNext := q + 9\<rparr>)"
  have other: "other = (WriteQueued (q + 8), v)"
    using call_queued [OF get2 _ assms(7), of False "[]"] s2(1,3) by (simp add: other_def v_def)
  have "Suc (q + 8) = q + 9" by simp
  then have invv: "writerInv v" using queued_inv(1) [OF inv2 get2] by (simp add: v_def s2(1) add.commute [of _ q])
  have dv: "wwDrains v (q + 6) = Some ?d2" "wwStarting v = []" by (simp_all add: v_def s2)
  then have "drainOf m p2 v (q + 6) ?d2" by (simp add: drainOf_def)
  then have w3: "w3 = drainAfterTask (q + 6) ?d2 (q + 5) (writerFinally (q + 7) v)"
    unfolding w3_def other snd_conv by (intro only_drain(2) [OF invv]) simp_all
  define d3 where "d3 = ?d2\<lparr>wdCurrent := Some (q + 8, q + 9)\<rparr>"
  have s3: "wwDrains w3 = (wwDrains v)(q + 6 := Some d3)"
    "wwWriters w3 = (wwWriters v)(q + 7 := (wwWriters v (q + 7))\<lparr>swActive := False\<rparr>,
       q + 9 := \<lparr>swActive = True, swQueues = m, swStorePath = p2\<rparr>)"
    by (simp_all add: w3 drainAfterTask_def drainLoopHead_def Let_def writerFinally_def v_def s2 d3_def)
  have "writerInv (writerFinally (q + 7) v)" by (rule task_ends_inv(1) [OF invv])
  then have inv3: "writerInv w3"
    unfolding w3 by (rule continues_inv(1) [of _ _ _ _ "q + 7"]) (simp_all add: writerFinally_def dv)
  have drains3: "drainOf m p1 w3 (q + 2) ?d1" "drainOf m p2 w3 (q + 6) d3"
    by (simp_all add: drainOf_def s3 v_def s2 s1 d3_def)
  have run3: "runningWrites m p1 w3 = [Suc q]" "runningWrites m p2 w3 = [q + 8]"
    "runningContexts m p2 w3 = [[q + 9, q + 3]]"
    using running_drain [OF inv3 drains3(1)] running_drain [OF inv3 drains3(2)] only_drain(1) [OF inv3 drains3(2)]
    by (simp_all add: d3_def)
  have "isActiveStoreWriter m p1 [q + 9, q + 3] w3"
    by (simp add: isActiveStoreWriter_def s3 v_def s2 s1)
  then have "fst (runQueuedStoreWrite m p1 True (hd (runningContexts m p2 w3)) w3) = WriteReentrant"
    using assms(6) by (simp add: run3 runQueuedStoreWrite_def)
  with r1(1) run3(1,2) show ?thesis by (simp add: other)
qed

theorem inherited_context_breaks_in_witness:
  "let w1 = drainStarted (snd (runQueuedStoreWrite 0 ''a'' False [] emptyWriterWorld));
       w2 = drainStarted (snd (runQueuedStoreWrite 0 ''b'' False (hd (runningContexts 0 ''a'' w1)) w1));
       w3 = endRunning 0 ''b'' (snd (runQueuedStoreWrite 0 ''b'' False [] w2))
   in fst (runQueuedStoreWrite 0 ''a'' True (hd (runningContexts 0 ''b'' w3)) w3) = WriteReentrant"
proof -
  have "wwStarting emptyWriterWorld = []" "getWriterQueue 0 ''a'' emptyWriterWorld = None"
    "getWriterQueue 0 ''b'' emptyWriterWorld = None" by (simp_all add: emptyWriterWorld_def getWriterQueue_def)
  from inherited_context_breaks_in [OF rtranclp.rtrancl_refl this] show ?thesis unfolding Let_def by auto
qed

end
