(* ===== verification/SessionAdmission.thy ===== *)
theory SessionAdmission
  imports JsMap JsonKey "HOL-Library.Char_ord" "HOL-Library.List_Lexorder"
begin

text \<open>
  The registry behind session lifecycle admission: \<open>sessions/session-lifecycle-identity.ts\<close>,
  \<open>sessions/session-work-admission-handoff.ts\<close> and the synchronous parts of
  \<open>sessions/session-lifecycle-admission.ts\<close>.  Admissions, mutation runs, waiters and callbacks are
  identified by numbers; a \<open>Set\<close> is the list of its elements in insertion order.
\<close>

section \<open>Identities\<close>

text \<open>\<open>normalizeSessionIdentities\<close>; it throws when the scope is blank.\<close>

definition normalizeSessionIdentities :: "string \<Rightarrow> string option list \<Rightarrow> string list option" where
  "normalizeSessionIdentities scope identities =
     (let normalizedScope = js_trim scope
      in if normalizedScope = [] then None
         else Some (sort (map (\<lambda>identity. jsonStringify (JArr [JStr normalizedScope, JStr identity]))
                (uniqueValues (filter (\<lambda>identity. identity \<noteq> [])
                   (map (\<lambda>identity. nullish (map_option js_trim identity) []) identities))))))"

section \<open>State\<close>

datatype session_mutation_kind = Compaction

text \<open>The promise \<open>released\<close> is resolved by the call that sets the flag of the lease's closure.\<close>

record session_work_admission =
  saHandoffIds :: "string list"
  saIdentities :: "string list"
  saInterrupt :: "nat option"
  saInterrupted :: bool
  saReleased :: bool

record session_registry =
  srActiveAdmissions :: "(string, nat list) jsmap"
  srActiveMutations :: "(string, nat) jsmap"
  srActiveMutationRuns :: "nat list"
  srActiveMutationKinds :: "(string, (session_mutation_kind, nat) jsmap) jsmap"
  srIdleWaiters :: "(string, nat list) jsmap"
  srAdmissions :: "nat \<Rightarrow> session_work_admission"
  srHandoffs :: "(string, nat) jsmap"
  srInterruptCalls :: "nat list"
  srNextAdmission :: nat

definition emptyRegistry :: session_registry where
  "emptyRegistry = \<lparr>srActiveAdmissions = [], srActiveMutations = [], srActiveMutationRuns = [],
     srActiveMutationKinds = [], srIdleWaiters = [],
     srAdmissions = (\<lambda>_. \<lparr>saHandoffIds = [], saIdentities = [], saInterrupt = None, saInterrupted = False,
       saReleased = False\<rparr>), srHandoffs = [], srInterruptCalls = [], srNextAdmission = 0\<rparr>"

definition setAdmission ::
    "nat \<Rightarrow> (session_work_admission \<Rightarrow> session_work_admission) \<Rightarrow> session_registry \<Rightarrow> session_registry" where
  "setAdmission a f s = s\<lparr>srAdmissions := (srAdmissions s)(a := f (srAdmissions s a))\<rparr>"

section \<open>Mutations\<close>

definition mutationCount :: "string \<Rightarrow> session_registry \<Rightarrow> nat" where
  "mutationCount identity s = nullish (jm_get (srActiveMutations s) identity) 0"

definition hasActiveSessionLifecycleMutation :: "string list \<Rightarrow> session_registry \<Rightarrow> bool" where
  "hasActiveSessionLifecycleMutation identities s \<longleftrightarrow> list_ex (\<lambda>i. 0 < mutationCount i s) identities"

definition kindCount :: "string \<Rightarrow> session_mutation_kind \<Rightarrow> session_registry \<Rightarrow> nat" where
  "kindCount identity kind s =
     (case jm_get (srActiveMutationKinds s) identity of
        None \<Rightarrow> 0 | Some kinds \<Rightarrow> nullish (jm_get kinds kind) 0)"

fun onlyKindLoop :: "bool \<Rightarrow> string list \<Rightarrow> session_mutation_kind \<Rightarrow> session_registry \<Rightarrow> bool" where
  "onlyKindLoop foundActiveMutation [] kind s = foundActiveMutation"
| "onlyKindLoop foundActiveMutation (identity # rest) kind s =
     (let activeCount = mutationCount identity s
      in if activeCount = 0 then onlyKindLoop foundActiveMutation rest kind s
         else if kindCount identity kind s \<noteq> activeCount then False
         else onlyKindLoop True rest kind s)"

definition hasOnlyActiveSessionLifecycleMutationKind ::
    "string list \<Rightarrow> session_mutation_kind \<Rightarrow> session_registry \<Rightarrow> bool" where
  "hasOnlyActiveSessionLifecycleMutationKind identities kind s = onlyKindLoop False identities kind s"

text \<open>
  \<open>waitForNormalizedSessionLifecycleMutationIdle\<close> up to its await: the waiter \<open>t\<close> registers at every
  identity that has an active mutation; with none it returns at once.
\<close>

definition activeIdentities :: "string list \<Rightarrow> session_registry \<Rightarrow> string list" where
  "activeIdentities identities s = filter (\<lambda>i. 0 < mutationCount i s) identities"

definition addIdleWaiter :: "nat \<Rightarrow> string \<Rightarrow> session_registry \<Rightarrow> session_registry" where
  "addIdleWaiter t identity s =
     s\<lparr>srIdleWaiters := jm_set identity
         (set_add t (nullish (jm_get (srIdleWaiters s) identity) [])) (srIdleWaiters s)\<rparr>"

definition waitIdleBegin :: "nat \<Rightarrow> string list \<Rightarrow> session_registry \<Rightarrow> session_registry" where
  "waitIdleBegin t identities s = fold (addIdleWaiter t) (activeIdentities identities s) s"

definition waitsIdle :: "nat \<Rightarrow> string list \<Rightarrow> session_registry \<Rightarrow> bool" where
  "waitsIdle t identities s \<longleftrightarrow> list_ex (\<lambda>i. t \<in> set (nullish (jm_get (srIdleWaiters s) i) [])) identities"

text \<open>The activation of a mutation run, and its end, each under the locks of all identities.\<close>

definition activateIdentity ::
    "session_mutation_kind option \<Rightarrow> string \<Rightarrow> session_registry \<Rightarrow> session_registry" where
  "activateIdentity kind identity s =
     (let s1 = s\<lparr>srActiveMutations := jm_set identity (mutationCount identity s + 1) (srActiveMutations s)\<rparr>
      in case kind of
           None \<Rightarrow> s1
         | Some k \<Rightarrow>
             let kinds = nullish (jm_get (srActiveMutationKinds s1) identity) []
             in s1\<lparr>srActiveMutationKinds := jm_set identity
                     (jm_set k (nullish (jm_get kinds k) 0 + 1) kinds) (srActiveMutationKinds s1)\<rparr>)"

definition activateMutation ::
    "nat \<Rightarrow> string list \<Rightarrow> session_mutation_kind option \<Rightarrow> session_registry \<Rightarrow> session_registry" where
  "activateMutation run identities kind s =
     fold (activateIdentity kind) identities
       (s\<lparr>srActiveMutationRuns := set_add run (srActiveMutationRuns s)\<rparr>)"

definition finishKind :: "session_mutation_kind \<Rightarrow> string \<Rightarrow> session_registry \<Rightarrow> session_registry" where
  "finishKind k identity s =
     (case jm_get (srActiveMutationKinds s) identity of
        None \<Rightarrow> s
      | Some kinds \<Rightarrow>
          let remaining = nullish (jm_get kinds k) 1 - 1
          in if 0 < remaining
             then s\<lparr>srActiveMutationKinds := jm_set identity (jm_set k remaining kinds) (srActiveMutationKinds s)\<rparr>
             else
               let kinds' = jm_delete k kinds
               in s\<lparr>srActiveMutationKinds :=
                      (if kinds' = [] then jm_delete identity (srActiveMutationKinds s)
                       else jm_set identity kinds' (srActiveMutationKinds s))\<rparr>)"

definition finishIdentity ::
    "session_mutation_kind option \<Rightarrow> string \<Rightarrow> session_registry \<Rightarrow> session_registry" where
  "finishIdentity kind identity s =
     (let s1 = (case kind of None \<Rightarrow> s | Some k \<Rightarrow> finishKind k identity s);
          remaining = nullish (jm_get (srActiveMutations s1) identity) 1 - 1
      in if 0 < remaining
         then s1\<lparr>srActiveMutations := jm_set identity remaining (srActiveMutations s1)\<rparr>
         else s1\<lparr>srActiveMutations := jm_delete identity (srActiveMutations s1),
                 srIdleWaiters := jm_delete identity (srIdleWaiters s1)\<rparr>)"

definition finishMutation ::
    "nat \<Rightarrow> string list \<Rightarrow> session_mutation_kind option \<Rightarrow> session_registry \<Rightarrow> session_registry" where
  "finishMutation run identities kind s =
     (let s1 = fold (finishIdentity kind) identities s
      in s1\<lparr>srActiveMutationRuns := removeAll run (srActiveMutationRuns s1)\<rparr>)"

text \<open>The queries take the scope and the identities as the caller has them; \<open>None\<close> is the thrown error.\<close>

definition isSessionLifecycleMutationActive :: "string \<Rightarrow> string option list \<Rightarrow> session_registry \<Rightarrow> bool option" where
  "isSessionLifecycleMutationActive scope identities s =
     map_option (\<lambda>ids. hasActiveSessionLifecycleMutation ids s) (normalizeSessionIdentities scope identities)"

definition hasOnlySessionLifecycleMutationKindActive ::
    "string \<Rightarrow> string option list \<Rightarrow> session_mutation_kind \<Rightarrow> session_registry \<Rightarrow> bool option" where
  "hasOnlySessionLifecycleMutationKindActive scope identities kind s =
     map_option (\<lambda>ids. hasOnlyActiveSessionLifecycleMutationKind ids kind s)
       (normalizeSessionIdentities scope identities)"

definition getActiveSessionLifecycleMutationCount :: "session_registry \<Rightarrow> nat" where
  "getActiveSessionLifecycleMutationCount s =
     (if srActiveMutationRuns s \<noteq> [] then length (srActiveMutationRuns s)
      else if srActiveMutations s \<noteq> [] then 1 else 0)"

section \<open>Admissions\<close>

text \<open>The registration in \<open>beginSessionWorkAdmission\<close>.\<close>

definition indexAdmission :: "nat \<Rightarrow> string \<Rightarrow> session_registry \<Rightarrow> session_registry" where
  "indexAdmission a identity s =
     s\<lparr>srActiveAdmissions := jm_set identity
         (set_add a (nullish (jm_get (srActiveAdmissions s) identity) [])) (srActiveAdmissions s)\<rparr>"

definition registerAdmission ::
    "string list \<Rightarrow> nat option \<Rightarrow> session_registry \<Rightarrow> nat \<times> session_registry" where
  "registerAdmission identities onInterrupt s =
     (let a = srNextAdmission s;
          s1 = s\<lparr>srAdmissions := (srAdmissions s)(a := \<lparr>saHandoffIds = [], saIdentities = identities,
                   saInterrupt = onInterrupt, saInterrupted = False, saReleased = False\<rparr>),
                 srNextAdmission := Suc a\<rparr>
      in (a, fold (indexAdmission a) identities s1))"

definition unindexAdmission :: "nat \<Rightarrow> string \<Rightarrow> session_registry \<Rightarrow> session_registry" where
  "unindexAdmission a identity s =
     (let active = removeAll a (nullish (jm_get (srActiveAdmissions s) identity) [])
      in s\<lparr>srActiveAdmissions :=
             (if active = [] then jm_delete identity (srActiveAdmissions s)
              else jm_set identity active (srActiveAdmissions s))\<rparr>)"

definition clearSessionWorkAdmissionHandoffs :: "nat \<Rightarrow> session_registry \<Rightarrow> session_registry" where
  "clearSessionWorkAdmissionHandoffs a s =
     setAdmission a (\<lambda>A. A\<lparr>saHandoffIds := []\<rparr>)
       (s\<lparr>srHandoffs := fold jm_delete (saHandoffIds (srAdmissions s a)) (srHandoffs s)\<rparr>)"

text \<open>The closure \<open>release\<close> of a lease.\<close>

definition releaseAdmission :: "nat \<Rightarrow> session_registry \<Rightarrow> session_registry" where
  "releaseAdmission a s =
     (if saReleased (srAdmissions s a) then s
      else clearSessionWorkAdmissionHandoffs a
             (fold (unindexAdmission a) (saIdentities (srAdmissions s a))
               (setAdmission a (\<lambda>A. A\<lparr>saReleased := True\<rparr>) s)))"

text \<open>\<open>createHandoff\<close> of a lease, with the id \<open>randomUUID\<close> returned; it throws on a released lease.\<close>

definition createHandoff :: "nat \<Rightarrow> string \<Rightarrow> session_registry \<Rightarrow> (string \<times> session_registry) option" where
  "createHandoff a handoffId s =
     (if saReleased (srAdmissions s a) then None
      else Some (handoffId, setAdmission a (\<lambda>A. A\<lparr>saHandoffIds := set_add handoffId (saHandoffIds A)\<rparr>)
             (s\<lparr>srHandoffs := jm_set handoffId a (srHandoffs s)\<rparr>)))"

definition dropHandoff :: "string \<Rightarrow> nat \<Rightarrow> session_registry \<Rightarrow> session_registry" where
  "dropHandoff handoffId a s =
     setAdmission a (\<lambda>A. A\<lparr>saHandoffIds := removeAll handoffId (saHandoffIds A)\<rparr>)
       (s\<lparr>srHandoffs := jm_delete handoffId (srHandoffs s)\<rparr>)"

datatype handoff_result = HandoffThrows | HandoffRefused | HandoffLease nat

definition consumeSessionWorkAdmissionHandoff ::
    "string \<Rightarrow> string \<Rightarrow> string option list \<Rightarrow> nat option \<Rightarrow> session_registry \<Rightarrow>
     handoff_result \<times> session_registry" where
  "consumeSessionWorkAdmissionHandoff handoffId scope identities onInterrupt s =
     (let handoffId = js_trim handoffId
      in if handoffId = [] then (HandoffRefused, s)
         else
           (case jm_get (srHandoffs s) handoffId of
              None \<Rightarrow> (HandoffRefused, s)
            | Some a \<Rightarrow>
                (case normalizeSessionIdentities scope identities of
                   None \<Rightarrow> (HandoffThrows, s)
                 | Some ids \<Rightarrow>
                     if ids = [] \<or> list_ex (\<lambda>i. i \<notin> set (saIdentities (srAdmissions s a))) ids
                     then (HandoffRefused, s)
                     else
                       let s1 = setAdmission a (\<lambda>A. A\<lparr>saInterrupt := onInterrupt\<rparr>) (dropHandoff handoffId a s)
                       in (HandoffLease a,
                           if saInterrupted (srAdmissions s1 a)
                           then (case onInterrupt of
                                   None \<Rightarrow> s1 | Some f \<Rightarrow> s1\<lparr>srInterruptCalls := srInterruptCalls s1 @ [f]\<rparr>)
                           else s1))))"

definition cancelSessionWorkAdmissionHandoff :: "string \<Rightarrow> session_registry \<Rightarrow> bool \<times> session_registry" where
  "cancelSessionWorkAdmissionHandoff handoffId s =
     (let handoffId = js_trim handoffId
      in case jm_get (srHandoffs s) handoffId of
           None \<Rightarrow> (False, s)
         | Some a \<Rightarrow> (True, releaseAdmission a (dropHandoff handoffId a s)))"

text \<open>
  \<open>interruptSessionWorkAdmissions\<close> up to its await: the admissions of the identities, the caller's own
  ones left out.  \<open>interruptDone\<close>: the promise \<open>released\<close>.
\<close>

definition interruptOne :: "nat \<Rightarrow> session_registry \<Rightarrow> session_registry" where
  "interruptOne a s =
     (let s1 = setAdmission a (\<lambda>A. A\<lparr>saInterrupted := True\<rparr>) s
      in case saInterrupt (srAdmissions s1 a) of
           None \<Rightarrow> s1 | Some f \<Rightarrow> s1\<lparr>srInterruptCalls := srInterruptCalls s1 @ [f]\<rparr>)"

definition interruptSessionWorkAdmissions ::
    "nat list \<Rightarrow> string \<Rightarrow> string option list \<Rightarrow> session_registry \<Rightarrow> (nat list \<times> session_registry) option" where
  "interruptSessionWorkAdmissions currentAdmissions scope identities s =
     (case normalizeSessionIdentities scope identities of
        None \<Rightarrow> None
      | Some ids \<Rightarrow>
          let admissions = uniqueValues (filter (\<lambda>a. a \<notin> set currentAdmissions)
                (concat (map (\<lambda>i. nullish (jm_get (srActiveAdmissions s) i) []) ids)))
          in Some (admissions, fold interruptOne admissions s))"

definition interruptDone :: "nat list \<Rightarrow> session_registry \<Rightarrow> bool" where
  "interruptDone admissions s = list_all (\<lambda>a. saReleased (srAdmissions s a)) admissions"

definition isSessionWorkAdmissionActive :: "string \<Rightarrow> string option list \<Rightarrow> session_registry \<Rightarrow> bool option" where
  "isSessionWorkAdmissionActive scope identities s =
     map_option (list_ex (\<lambda>i. 0 < length (nullish (jm_get (srActiveAdmissions s) i) [])))
       (normalizeSessionIdentities scope identities)"

definition getActiveSessionWorkAdmissionCount :: "session_registry \<Rightarrow> nat" where
  "getActiveSessionWorkAdmissionCount s = length (uniqueValues (concat (map snd (srActiveAdmissions s))))"

end
