(* ===== verification/SessionLifecycle.thy ===== *)
theory SessionLifecycle
  imports SessionAdmission GatewayAdmission
begin

text \<open>
  Admissions and mutations of session identities as concurrent actors,
  \<open>sessions/session-lifecycle-admission.ts\<close>: \<open>runExclusiveSessionLifecycleMutation\<close> and
  \<open>beginSessionWorkAdmission\<close> within \<open>runExclusiveSessionLifecycle\<close>, cut at their awaits.

  A lock is an identity in one of the two queue maps.  Its lane has the actor that holds it first and
  those that wait behind it, which is what \<open>runQueuedStoreWrite\<close> makes of a path
  (\<open>writer_queue_is_fifo_lock\<close>).  Every actor here starts outside of any other actor's section, so
  no call is reentrant.
\<close>

section \<open>Actors\<close>

datatype lane_family = MutationLane | LifecycleLane

datatype session_lock = SessionLock lane_family string

text \<open>The order in which one actor takes its locks.\<close>

instantiation session_lock :: linorder
begin

fun less_eq_session_lock :: "session_lock \<Rightarrow> session_lock \<Rightarrow> bool" where
  "SessionLock f i \<le> SessionLock g j \<longleftrightarrow> f = MutationLane \<and> g = LifecycleLane \<or> f = g \<and> i \<le> j"

definition less_session_lock :: "session_lock \<Rightarrow> session_lock \<Rightarrow> bool" where
  "less_session_lock l l' \<longleftrightarrow> l \<le> l' \<and> \<not> l' \<le> l"

instance
proof
  fix x y z :: session_lock
  show "x < y \<longleftrightarrow> x \<le> y \<and> \<not> y \<le> x" by (rule less_session_lock_def)
  show "x \<le> x" by (cases x) simp
  show "x \<le> y \<Longrightarrow> y \<le> z \<Longrightarrow> x \<le> z" by (cases x; cases y; cases z) auto
  show "x \<le> y \<Longrightarrow> y \<le> x \<Longrightarrow> x = y" by (cases x; cases y) auto
  obtain f i where x: "x = SessionLock f i" by (cases x)
  obtain h j where y: "y = SessionLock h j" by (cases y)
  show "x \<le> y \<or> y \<le> x" using linear [of i j] unfolding x y by (cases f; cases h) simp_all
qed

end

text \<open>
  The sections an actor runs under locks: \<open>JobMutate\<close> is the whole mutation under the mutation locks;
  inside it, under the lifecycle locks, come the activation, the run and the end.  \<open>JobAdmit\<close> is the
  section of an admission.
\<close>

datatype session_job = JobMutate | JobActivate | JobRun | JobFinish | JobAdmit

text \<open>How a section ended; \<open>acResult\<close> is how \<open>prepare\<close> or \<open>run\<close> of a mutation ended.\<close>

datatype job_result = ResultOk | ResultBlocked | ResultFailed

text \<open>
  \<open>Locking job k\<close>: the actor has the first \<open>k\<close> locks of the job and is in the lane of the next one;
  \<open>Inside\<close>: it has them all; \<open>Unlocking job r k\<close>: the section ended, \<open>k\<close> locks are still to be given
  back, the last one first.  The awaits inside an admission's section are \<open>Asserting\<close>
  (\<open>assertAllowed\<close>) and \<open>AtBarrier\<close> (the writer barrier with the registered admission);
  \<open>Preparing\<close> is the await of \<open>prepare\<close>, under the mutation locks only.
\<close>

datatype session_phase =
    Starting
  | IdleWait nat "string list"
  | Locking session_job nat
  | Inside session_job
  | Asserting
  | AtBarrier nat
  | Unlocking session_job job_result nat
  | Preparing
  | Finished job_result

record session_actor =
  acMutation :: bool
  acIdentities :: "string list"
  acKind :: "session_mutation_kind option"
  acSignal :: "nat option"
  acInterrupt :: "nat option"
  acRoot :: "nat option"
  acResult :: job_result
  acPhase :: session_phase

record session_world =
  swRegistry :: session_registry
  swLanes :: "session_lock \<Rightarrow> nat list"
  swActors :: "nat \<Rightarrow> session_actor"
  swCount :: nat
  swAborted :: "nat set"
  swGateway :: admission_state
  swNextWaiter :: nat

definition jobLocks :: "string list \<Rightarrow> session_job \<Rightarrow> session_lock list" where
  "jobLocks identities job =
     map (SessionLock (if job = JobMutate then MutationLane else LifecycleLane)) identities"

definition setPhase :: "nat \<Rightarrow> session_phase \<Rightarrow> session_world \<Rightarrow> session_world" where
  "setPhase a ph w = w\<lparr>swActors := (swActors w)(a := (swActors w a)\<lparr>acPhase := ph\<rparr>)\<rparr>"

definition setResult :: "nat \<Rightarrow> job_result \<Rightarrow> session_world \<Rightarrow> session_world" where
  "setResult a r w = w\<lparr>swActors := (swActors w)(a := (swActors w a)\<lparr>acResult := r\<rparr>)\<rparr>"

definition onRegistry :: "(session_registry \<Rightarrow> session_registry) \<Rightarrow> session_world \<Rightarrow> session_world" where
  "onRegistry f w = w\<lparr>swRegistry := f (swRegistry w)\<rparr>"

definition actorAborted :: "session_actor \<Rightarrow> session_world \<Rightarrow> bool" where
  "actorAborted A w \<longleftrightarrow> (case acSignal A of None \<Rightarrow> False | Some sig \<Rightarrow> sig \<in> swAborted w)"

section \<open>Locks\<close>

text \<open>
  \<open>runWithSessionIdentityLocks\<close> and \<open>runWithSessionMutationIdentityLocks\<close> from index \<open>k\<close>: no lock is
  left, or the actor joins the lane of the next one.
\<close>

definition joinLane :: "session_lock \<Rightarrow> nat \<Rightarrow> session_world \<Rightarrow> session_world" where
  "joinLane l a w = w\<lparr>swLanes := (swLanes w)(l := swLanes w l @ [a])\<rparr>"

definition leaveLane :: "session_lock \<Rightarrow> session_world \<Rightarrow> session_world" where
  "leaveLane l w = w\<lparr>swLanes := (swLanes w)(l := tl (swLanes w l))\<rparr>"

definition lockFrom :: "nat \<Rightarrow> session_job \<Rightarrow> nat \<Rightarrow> session_world \<Rightarrow> session_world" where
  "lockFrom a job k w =
     (let locks = jobLocks (acIdentities (swActors w a)) job
      in if k < length locks then setPhase a (Locking job k) (joinLane (locks ! k) a w)
         else setPhase a (Inside job) w)"

definition unlockJob :: "nat \<Rightarrow> session_job \<Rightarrow> job_result \<Rightarrow> session_world \<Rightarrow> session_world" where
  "unlockJob a job r w = setPhase a (Unlocking job r (length (acIdentities (swActors w a)))) w"

section \<open>Segments\<close>

text \<open>The head of the loop of \<open>runExclusiveSessionLifecycle\<close>, and the wait for idle identities.\<close>

definition waitForIdle :: "nat \<Rightarrow> session_world \<Rightarrow> session_world" where
  "waitForIdle a w =
     (let A = swActors w a; ids = activeIdentities (acIdentities A) (swRegistry w); t = swNextWaiter w
      in if ids = [] then setPhase a Starting w
         else if actorAborted A w then setPhase a (Finished ResultFailed) w
         else setPhase a (IdleWait t ids)
                (onRegistry (waitIdleBegin t (acIdentities A)) (w\<lparr>swNextWaiter := Suc t\<rparr>)))"

definition startActor :: "nat \<Rightarrow> session_world \<Rightarrow> session_world" where
  "startActor a w =
     (let A = swActors w a
      in if actorAborted A w then setPhase a (Finished ResultFailed) w
         else if acMutation A then lockFrom a JobMutate 0 w
         else if hasActiveSessionLifecycleMutation (acIdentities A) (swRegistry w) then waitForIdle a w
         else lockFrom a JobAdmit 0 w)"

text \<open>The first segment of a section once its locks are held.\<close>

definition enterJob :: "nat \<Rightarrow> session_job \<Rightarrow> session_world \<Rightarrow> session_world" where
  "enterJob a job w =
     (let A = swActors w a
      in case job of
           JobMutate \<Rightarrow> lockFrom a JobActivate 0 w
         | JobActivate \<Rightarrow>
             if actorAborted A w then unlockJob a JobActivate ResultFailed w
             else unlockJob a JobActivate ResultOk
                    (onRegistry (activateMutation a (acIdentities A) (acKind A)) w)
         | JobRun \<Rightarrow> w
         | JobFinish \<Rightarrow>
             unlockJob a JobFinish ResultOk
               (onRegistry (finishMutation a (acIdentities A) (acKind A)) w)
         | JobAdmit \<Rightarrow>
             if actorAborted A w then unlockJob a JobAdmit ResultFailed w
             else if hasActiveSessionLifecycleMutation (acIdentities A) (swRegistry w)
             then unlockJob a JobAdmit ResultBlocked w
             else setPhase a Asserting w)"

text \<open>What follows when the last lock of a section is given back.\<close>

definition afterJob :: "nat \<Rightarrow> session_job \<Rightarrow> job_result \<Rightarrow> session_world \<Rightarrow> session_world" where
  "afterJob a job r w =
     (case job of
        JobActivate \<Rightarrow>
          if r = ResultOk then setPhase a Preparing w else unlockJob a JobMutate r w
      | JobRun \<Rightarrow> lockFrom a JobFinish 0 w
      | JobFinish \<Rightarrow> unlockJob a JobMutate (acResult (swActors w a)) w
      | JobMutate \<Rightarrow> setPhase a (Finished r) w
      | JobAdmit \<Rightarrow> if r = ResultBlocked then waitForIdle a w else setPhase a (Finished r) w)"

text \<open>After \<open>assertAllowed\<close>: the gateway is asked again, then the admission is registered.\<close>

definition afterAssert :: "nat \<Rightarrow> bool \<Rightarrow> session_world \<Rightarrow> session_world" where
  "afterAssert a threw w =
     (let A = swActors w a
      in if threw \<or> isGatewaySubordinateWorkAdmissionClosed (acRoot A) (swGateway w)
         then unlockJob a JobAdmit ResultFailed w
         else
           let (adm, reg) = registerAdmission (acIdentities A) (acInterrupt A) (swRegistry w)
           in setPhase a (AtBarrier adm) (w\<lparr>swRegistry := reg\<rparr>))"

text \<open>The writer barrier is passed, or it failed or was aborted and the admission is released.\<close>

definition afterBarrier :: "nat \<Rightarrow> nat \<Rightarrow> bool \<Rightarrow> session_world \<Rightarrow> session_world" where
  "afterBarrier a adm threw w =
     (if threw then unlockJob a JobAdmit ResultFailed (onRegistry (releaseAdmission adm) w)
      else unlockJob a JobAdmit ResultOk w)"

section \<open>Steps\<close>

text \<open>The step of one actor.\<close>

inductive actor_step :: "nat \<Rightarrow> session_world \<Rightarrow> session_world \<Rightarrow> bool" where
  start: "acPhase (swActors w a) = Starting \<Longrightarrow> actor_step a w (startActor a w)"
| woken: "acPhase (swActors w a) = IdleWait t ids \<Longrightarrow> \<not> waitsIdle t ids (swRegistry w) \<Longrightarrow>
    actor_step a w (setPhase a Starting w)"
| wait_aborted: "acPhase (swActors w a) = IdleWait t ids \<Longrightarrow> actorAborted (swActors w a) w \<Longrightarrow>
    actor_step a w (setPhase a (Finished ResultFailed) w)"
| locked: "acPhase (swActors w a) = Locking job k \<Longrightarrow>
    swLanes w (jobLocks (acIdentities (swActors w a)) job ! k) = a # rest \<Longrightarrow>
    actor_step a w (lockFrom a job (Suc k) w)"
| enter: "acPhase (swActors w a) = Inside job \<Longrightarrow> job \<noteq> JobRun \<Longrightarrow> actor_step a w (enterJob a job w)"
| run_ends: "acPhase (swActors w a) = Inside JobRun \<Longrightarrow> actor_step a w (unlockJob a JobRun r (setResult a r w))"
| asserted: "acPhase (swActors w a) = Asserting \<Longrightarrow> actor_step a w (afterAssert a threw w)"
| barrier: "acPhase (swActors w a) = AtBarrier adm \<Longrightarrow> actor_step a w (afterBarrier a adm threw w)"
| prepared: "acPhase (swActors w a) = Preparing \<Longrightarrow>
    actor_step a w (if threw then lockFrom a JobFinish 0 (setResult a ResultFailed w) else lockFrom a JobRun 0 w)"
| unlocks: "acPhase (swActors w a) = Unlocking job r (Suc k) \<Longrightarrow>
    actor_step a w (setPhase a (Unlocking job r k)
      (leaveLane (jobLocks (acIdentities (swActors w a)) job ! k) w))"
| ended: "acPhase (swActors w a) = Unlocking job r 0 \<Longrightarrow> actor_step a w (afterJob a job r w)"

text \<open>
  All steps: those of the actors, a new call, and what other code does meanwhile: it aborts signals,
  moves the gateway, releases, hands over and interrupts admissions.
\<close>

inductive session_step :: "session_world \<Rightarrow> session_world \<Rightarrow> bool" where
  actor: "a < swCount w \<Longrightarrow> actor_step a w w' \<Longrightarrow> session_step w w'"
| call: "normalizeSessionIdentities scope identities = Some ids \<Longrightarrow>
    m \<or> \<not> isGatewaySubordinateWorkAdmissionClosed rootId (swGateway w) \<Longrightarrow>
    session_step w (w\<lparr>swActors := (swActors w)(swCount w := \<lparr>acMutation = m, acIdentities = ids, acKind = kind,
      acSignal = sig, acInterrupt = interrupt, acRoot = rootId, acResult = ResultOk, acPhase = Starting\<rparr>), swCount := Suc (swCount w)\<rparr>)"
| aborts: "session_step w (w\<lparr>swAborted := insert sig (swAborted w)\<rparr>)"
| gateway: "session_step w (w\<lparr>swGateway := g\<rparr>)"
| releases: "adm < srNextAdmission (swRegistry w) \<Longrightarrow> session_step w (onRegistry (releaseAdmission adm) w)"
| hands_off: "adm < srNextAdmission (swRegistry w) \<Longrightarrow> createHandoff adm handoffId (swRegistry w) = Some (h, reg) \<Longrightarrow> session_step w (w\<lparr>swRegistry := reg\<rparr>)"
| consumes: "session_step w (onRegistry (\<lambda>s. snd (consumeSessionWorkAdmissionHandoff h scope identities interrupt s)) w)"
| cancels: "session_step w (onRegistry (\<lambda>s. snd (cancelSessionWorkAdmissionHandoff h s)) w)"
| interrupts: "interruptSessionWorkAdmissions current scope identities (swRegistry w) = Some (adms, reg) \<Longrightarrow>
    session_step w (w\<lparr>swRegistry := reg\<rparr>)"

definition emptySessions :: "admission_state \<Rightarrow> session_world" where
  "emptySessions g = \<lparr>swRegistry = emptyRegistry, swLanes = (\<lambda>_. []),
     swActors = (\<lambda>_. \<lparr>acMutation = False, acIdentities = [], acKind = None, acSignal = None, acInterrupt = None,
       acRoot = None, acResult = ResultOk, acPhase = Finished ResultOk\<rparr>), swCount = 0, swAborted = {}, swGateway = g, swNextWaiter = 0\<rparr>"

end
