(* ===== verification/SessionLocks.thy ===== *)
theory SessionLocks
  imports SessionLifecycle FifoLanes
begin

text \<open>
  The locks of session lifecycle admission: every actor holds the locks its phase says and nobody
  else does, and no order of calls ends in a deadlock.
\<close>

section \<open>What an actor holds\<close>

definition outerLocks :: "string list \<Rightarrow> session_job \<Rightarrow> session_lock list" where
  "outerLocks ids job =
     (if job \<in> {JobActivate, JobRun, JobFinish} then jobLocks ids JobMutate else [])"

text \<open>The lanes an actor is in, and the locks it holds.\<close>

fun phaseLocks :: "string list \<Rightarrow> session_phase \<Rightarrow> session_lock list" where
  "phaseLocks ids (Locking job k) = outerLocks ids job @ take (Suc k) (jobLocks ids job)"
| "phaseLocks ids (Inside job) = outerLocks ids job @ jobLocks ids job"
| "phaseLocks ids Asserting = jobLocks ids JobAdmit"
| "phaseLocks ids (AtBarrier adm) = jobLocks ids JobAdmit"
| "phaseLocks ids (Unlocking job r k) = outerLocks ids job @ take k (jobLocks ids job)"
| "phaseLocks ids Preparing = jobLocks ids JobMutate"
| "phaseLocks ids _ = []"

fun phaseHeld :: "string list \<Rightarrow> session_phase \<Rightarrow> session_lock list" where
  "phaseHeld ids (Locking job k) = outerLocks ids job @ take k (jobLocks ids job)"
| "phaseHeld ids ph = phaseLocks ids ph"

definition actorLocks :: "session_actor \<Rightarrow> session_lock list" where
  "actorLocks A = phaseLocks (acIdentities A) (acPhase A)"

definition actorHeld :: "session_actor \<Rightarrow> session_lock list" where
  "actorHeld A = phaseHeld (acIdentities A) (acPhase A)"

lemma length_jobLocks [simp]: "length (jobLocks ids job) = length ids"
  by (simp add: jobLocks_def)

lemma distinct_jobLocks [simp]: "distinct (jobLocks ids job) = distinct ids"
  by (simp add: jobLocks_def distinct_map inj_on_def)

lemma outer_disjoint: "set (outerLocks ids job) \<inter> set (jobLocks ids job) = {}"
  by (auto simp: outerLocks_def jobLocks_def)

lemma in_take_Suc: "x \<in> set (take k xs) \<Longrightarrow> x \<in> set (take (Suc k) xs)"
  using set_take_subset_set_take [of k "Suc k" xs] by auto

lemma held_locks: "set (actorHeld A) \<subseteq> set (actorLocks A)"
  by (cases "acPhase A") (auto simp: actorHeld_def actorLocks_def in_take_Suc)

definition headOf :: "nat \<Rightarrow> nat list \<Rightarrow> bool" where
  "headOf a xs \<longleftrightarrow> (\<exists>rest. xs = a # rest)"

definition lockInv :: "session_world \<Rightarrow> bool" where
  "lockInv w \<longleftrightarrow>
     (\<forall>l. distinct (swLanes w l) \<and> (\<forall>a. a \<in> set (swLanes w l) \<longleftrightarrow> l \<in> set (actorLocks (swActors w a)))) \<and>
     (\<forall>a. \<forall>l \<in> set (actorHeld (swActors w a)). headOf a (swLanes w l)) \<and>
     (\<forall>a. distinct (acIdentities (swActors w a)))"

lemma lockInvD:
  assumes "lockInv w"
  shows "distinct (swLanes w l)" "a \<in> set (swLanes w l) \<longleftrightarrow> l \<in> set (actorLocks (swActors w a))"
    "l \<in> set (actorHeld (swActors w a)) \<Longrightarrow> headOf a (swLanes w l)" "distinct (acIdentities (swActors w a))"
  using assms unfolding lockInv_def by blast+

text \<open>No two actors hold a lock.\<close>

lemma held_once:
  "lockInv w \<Longrightarrow> l \<in> set (actorHeld (swActors w a)) \<Longrightarrow> l \<in> set (actorHeld (swActors w b)) \<Longrightarrow> a = b"
  using lockInvD(3) [of w l a] lockInvD(3) [of w l b] by (auto simp: headOf_def)

section \<open>Steps keep the locks\<close>

lemma lockInv_upd:
  assumes inv: "lockInv w" and actors: "swActors w' = (swActors w)(a := A)" and lanes: "swLanes w' = swLanes w"
    and ids: "acIdentities A = acIdentities (swActors w a)"
    and locks: "set (actorLocks A) = set (actorLocks (swActors w a))"
    and held: "\<And>l. l \<in> set (actorHeld A) \<Longrightarrow> headOf a (swLanes w l)"
  shows "lockInv w'"
  using inv locks held ids unfolding lockInv_def by (simp add: actors lanes)

lemma lockInv_join:
  assumes inv: "lockInv w" and actors: "swActors w' = (swActors w)(a := A)"
    and lanes: "swLanes w' = (swLanes w)(l := swLanes w l @ [a])"
    and ids: "acIdentities A = acIdentities (swActors w a)"
    and new: "l \<notin> set (actorLocks (swActors w a))"
    and locks: "set (actorLocks A) = insert l (set (actorLocks (swActors w a)))"
    and held: "\<And>l. l \<in> set (actorHeld A) \<Longrightarrow> headOf a (swLanes w l)"
  shows "lockInv w'"
  unfolding lockInv_def
proof (intro conjI allI ballI)
  fix l' b
  have "a \<notin> set (swLanes w l)" using lockInvD(2) [OF inv, of a l] new by simp
  then show "distinct (swLanes w' l')" using lockInvD(1) [OF inv] by (simp add: lanes)
  show "b \<in> set (swLanes w' l') \<longleftrightarrow> l' \<in> set (actorLocks (swActors w' b))"
    using lockInvD(2) [OF inv, of b l'] locks by (auto simp: lanes actors)
  show "distinct (acIdentities (swActors w' b))" using lockInvD(4) [OF inv, of b] lockInvD(4) [OF inv, of a] ids
    by (simp add: actors)
next
  fix b l' assume "l' \<in> set (actorHeld (swActors w' b))"
  then have "headOf b (swLanes w l')"
    using held lockInvD(3) [OF inv] by (auto simp: actors split: if_splits)
  then show "headOf b (swLanes w' l')" by (auto simp: lanes headOf_def)
qed

lemma lockInv_leave:
  assumes inv: "lockInv w" and actors: "swActors w' = (swActors w)(a := A)"
    and lanes: "swLanes w' = (swLanes w)(l := tl (swLanes w l))"
    and ids: "acIdentities A = acIdentities (swActors w a)"
    and mine: "l \<in> set (actorHeld (swActors w a))"
    and locks: "set (actorLocks A) = set (actorLocks (swActors w a)) - {l}"
    and held: "set (actorHeld A) \<subseteq> set (actorHeld (swActors w a)) - {l}"
  shows "lockInv w'"
  unfolding lockInv_def
proof (intro conjI allI ballI)
  fix l' b
  obtain rest where rest: "swLanes w l = a # rest" using lockInvD(3) [OF inv mine] by (auto simp: headOf_def)
  have fresh: "a \<notin> set rest" using lockInvD(1) [OF inv, of l] rest by simp
  have mine': "l \<in> set (actorLocks (swActors w a))" using mine held_locks by blast
  show "b \<in> set (swLanes w' l') \<longleftrightarrow> l' \<in> set (actorLocks (swActors w' b))"
  proof (cases "l' = l")
    case True
    have "b \<in> set (tl (swLanes w l)) \<longleftrightarrow> b \<noteq> a \<and> l \<in> set (actorLocks (swActors w b))"
      unfolding lockInvD(2) [OF inv, symmetric] using fresh by (auto simp: rest)
    then show ?thesis using True locks by (simp add: lanes actors)
  next
    case False
    then have "swLanes w' l' = swLanes w l'" by (simp add: lanes)
    then show ?thesis using False locks lockInvD(2) [OF inv, of b l'] by (simp add: actors)
  qed
  show "distinct (swLanes w' l')" using lockInvD(1) [OF inv] by (simp add: lanes distinct_tl)
  show "distinct (acIdentities (swActors w' b))" using lockInvD(4) [OF inv, of b] lockInvD(4) [OF inv, of a] ids
    by (simp add: actors)
next
  fix b l' assume h: "l' \<in> set (actorHeld (swActors w' b))"
  then have old: "l' \<in> set (actorHeld (swActors w b))" using held by (auto simp: actors split: if_splits)
  then have "headOf b (swLanes w l')" by (rule lockInvD(3) [OF inv])
  moreover have "l' \<noteq> l"
  proof
    assume "l' = l"
    then have "b = a" using held_once [OF inv old] mine by simp
    then show False using h held \<open>l' = l\<close> by (auto simp: actors)
  qed
  ultimately show "headOf b (swLanes w' l')" by (simp add: lanes)
qed

lemma nth_not_in_take: "distinct xs \<Longrightarrow> k < length xs \<Longrightarrow> xs ! k \<notin> set (take k xs)"
  by (auto simp: in_set_conv_nth nth_eq_iff_index_eq)

text \<open>An actor that holds the first locks of a job, and nothing else but the outer ones, goes on.\<close>

lemma lockFrom_inv:
  fixes a :: nat
  assumes inv: "lockInv w"
  defines "ids \<equiv> acIdentities (swActors w a)"
  assumes locks: "set (actorLocks (swActors w a)) = set (outerLocks ids job @ take k (jobLocks ids job))"
    and held: "\<And>l. l \<in> set (outerLocks ids job @ take k (jobLocks ids job)) \<Longrightarrow> headOf a (swLanes w l)"
  shows "lockInv (lockFrom a job k w)"
proof (cases "k < length ids")
  case True
  have "jobLocks ids job ! k \<in> set (jobLocks ids job)" using True by simp
  then have new: "jobLocks ids job ! k \<notin> set (outerLocks ids job @ take k (jobLocks ids job))"
    using outer_disjoint [of ids job] nth_not_in_take [of "jobLocks ids job" k] True lockInvD(4) [OF inv, of a]
    by (auto simp: ids_def)
  show ?thesis
    by (rule lockInv_join [OF inv, where l = "jobLocks ids job ! k" and a = a and
        A = "(swActors w a)\<lparr>acPhase := Locking job k\<rparr>"])
      (use True new locks held in \<open>auto simp: lockFrom_def Let_def setPhase_def joinLane_def ids_def [symmetric]
         actorLocks_def actorHeld_def take_Suc_conv_app_nth\<close>)
next
  case False
  show ?thesis
    by (rule lockInv_upd [OF inv, where a = a and A = "(swActors w a)\<lparr>acPhase := Inside job\<rparr>"])
      (use False locks held in \<open>auto simp: lockFrom_def Let_def setPhase_def ids_def [symmetric] actorLocks_def actorHeld_def\<close>)
qed

section \<open>Well-formed phases\<close>

fun phaseOk :: "bool \<Rightarrow> nat \<Rightarrow> session_phase \<Rightarrow> bool" where
  "phaseOk m n (Locking job k) \<longleftrightarrow> k < n \<and> (m \<longleftrightarrow> job \<noteq> JobAdmit)"
| "phaseOk m n (Inside job) \<longleftrightarrow> (m \<longleftrightarrow> job \<noteq> JobAdmit)"
| "phaseOk m n (Unlocking job r k) \<longleftrightarrow> k \<le> n \<and> (m \<longleftrightarrow> job \<noteq> JobAdmit)"
| "phaseOk m n Preparing \<longleftrightarrow> m"
| "phaseOk m n (IdleWait t ids) \<longleftrightarrow> \<not> m"
| "phaseOk m n Asserting \<longleftrightarrow> \<not> m"
| "phaseOk m n (AtBarrier adm) \<longleftrightarrow> \<not> m"
| "phaseOk m n _ \<longleftrightarrow> True"

definition actorOk :: "session_actor \<Rightarrow> bool" where
  "actorOk A \<longleftrightarrow> phaseOk (acMutation A) (length (acIdentities A)) (acPhase A)"

lemma setters_sel [simp]:
  "swActors (setPhase a ph w) = (swActors w)(a := (swActors w a)\<lparr>acPhase := ph\<rparr>)"
  "swActors (setResult a r w) = (swActors w)(a := (swActors w a)\<lparr>acResult := r\<rparr>)"
  "swActors (onRegistry f w) = swActors w" "swActors (joinLane l a w) = swActors w" "swActors (leaveLane l w) = swActors w"
  "swLanes (setPhase a ph w) = swLanes w" "swLanes (setResult a r w) = swLanes w" "swLanes (onRegistry f w) = swLanes w"
  "swLanes (joinLane l a w) = (swLanes w)(l := swLanes w l @ [a])" "swLanes (leaveLane l w) = (swLanes w)(l := tl (swLanes w l))"
  "swRegistry (setPhase a ph w) = swRegistry w" "swRegistry (setResult a r w) = swRegistry w"
  "swRegistry (onRegistry f w) = f (swRegistry w)" "swRegistry (joinLane l a w) = swRegistry w" "swRegistry (leaveLane l w) = swRegistry w"
  "swCount (setPhase a ph w) = swCount w" "swCount (setResult a r w) = swCount w" "swCount (onRegistry f w) = swCount w"
  "swCount (joinLane l a w) = swCount w" "swCount (leaveLane l w) = swCount w"
  "swAborted (setPhase a ph w) = swAborted w" "swAborted (setResult a r w) = swAborted w" "swAborted (onRegistry f w) = swAborted w"
  by (simp_all add: setPhase_def setResult_def onRegistry_def joinLane_def leaveLane_def)

lemma unlockJob_sel [simp]:
  "swActors (unlockJob a job r w) = (swActors w)(a := (swActors w a)\<lparr>acPhase := Unlocking job r (length (acIdentities (swActors w a)))\<rparr>)"
  "swLanes (unlockJob a job r w) = swLanes w" "swRegistry (unlockJob a job r w) = swRegistry w"
  "swCount (unlockJob a job r w) = swCount w"
  by (simp_all add: unlockJob_def)

lemma lockFrom_sel [simp]:
  "swRegistry (lockFrom a job k w) = swRegistry w" "swCount (lockFrom a job k w) = swCount w"
  "swActors (lockFrom a job k w) = (swActors w)(a := (swActors w a)\<lparr>acPhase :=
     (if k < length (acIdentities (swActors w a)) then Locking job k else Inside job)\<rparr>)"
  by (simp_all add: lockFrom_def Let_def)

text \<open>A segment changes the phase and the result of its own actor, and no other actor.\<close>

definition sameActor :: "session_actor \<Rightarrow> session_actor \<Rightarrow> bool" where
  "sameActor A B \<longleftrightarrow> acMutation A = acMutation B \<and> acIdentities A = acIdentities B \<and> acKind A = acKind B"

lemma actor_step_frame:
  assumes "actor_step a w w'" "actorOk (swActors w a)"
  shows "actorOk (swActors w' a) \<and> sameActor (swActors w a) (swActors w' a) \<and> swCount w' = swCount w \<and>
    (\<forall>b. b \<noteq> a \<longrightarrow> swActors w' b = swActors w b)"
  using assms
proof cases
  case enter
  then show ?thesis using assms(2)
    by (simp add: enterJob_def Let_def actorOk_def sameActor_def split: session_job.split)
next
  case (ended job r)
  then show ?thesis using assms(2)
    by (simp add: afterJob_def waitForIdle_def Let_def actorOk_def sameActor_def split: session_job.split)
qed (use assms(2) in \<open>simp_all add: startActor_def waitForIdle_def afterAssert_def afterBarrier_def Let_def split_def
    actorOk_def sameActor_def\<close>)

lemma lockInv_phase:
  assumes "lockInv w" "swLanes w' = swLanes w" "swActors w' = (swActors w)(a := A)"
    "acIdentities A = acIdentities (swActors w a)" "set (actorLocks A) = set (actorLocks (swActors w a))"
    "set (actorHeld A) \<subseteq> set (actorHeld (swActors w a))"
  shows "lockInv w'"
  by (rule lockInv_upd [OF assms(1,3,2,4,5)]) (use assms(6) lockInvD(3) [OF assms(1)] in blast)

lemma outerLocks_simps [simp]:
  "outerLocks ids JobMutate = []" "outerLocks ids JobAdmit = []" "outerLocks ids JobActivate = jobLocks ids JobMutate"
  "outerLocks ids JobRun = jobLocks ids JobMutate" "outerLocks ids JobFinish = jobLocks ids JobMutate"
  by (simp_all add: outerLocks_def)

lemmas lock_simps = actorLocks_def actorHeld_def

text \<open>Phases without locks.\<close>

lemma lockInv_free:
  assumes "lockInv w" "actorLocks (swActors w a) = []" "phaseLocks (acIdentities (swActors w a)) ph = []"
    "phaseHeld (acIdentities (swActors w a)) ph = []" "swLanes w' = swLanes w"
    "swActors w' = (swActors w)(a := (swActors w a)\<lparr>acPhase := ph\<rparr>)"
  shows "lockInv w'"
  by (rule lockInv_phase [OF assms(1,5,6)]) (use assms(2-4) in \<open>simp_all add: lock_simps\<close>)

lemma waitForIdle_lock:
  assumes "lockInv w" "actorLocks (swActors w a) = []"
  shows "lockInv (waitForIdle a w)"
  unfolding waitForIdle_def Let_def
  by (auto intro!: lockInv_free [OF assms(1), of a] simp: assms(2))

lemma lockFrom_first:
  assumes "lockInv w" "set (actorLocks (swActors w a)) = set (outerLocks (acIdentities (swActors w a)) job)"
    "set (actorHeld (swActors w a)) = set (outerLocks (acIdentities (swActors w a)) job)"
  shows "lockInv (lockFrom a job 0 w)"
  by (rule lockFrom_inv [OF assms(1)]) (use assms(2,3) lockInvD(3) [OF assms(1), of _ a] in simp_all)

lemma unlockJob_lock:
  assumes "lockInv w" "set (actorLocks (swActors w a)) =
      set (outerLocks (acIdentities (swActors w a)) job @ jobLocks (acIdentities (swActors w a)) job)"
    "set (actorHeld (swActors w a)) = set (actorLocks (swActors w a))"
    "swActors w' = (swActors w)(a := (swActors w a)\<lparr>acPhase := Unlocking job r (length (acIdentities (swActors w a)))\<rparr>)"
    "swLanes w' = swLanes w"
  shows "lockInv w'"
  by (rule lockInv_phase [OF assms(1,5,4)]) (use assms(2,3) in \<open>simp_all add: lock_simps\<close>)

lemma setPhase_reg_lock:
  assumes "lockInv w" "set (phaseLocks (acIdentities (swActors w a)) ph) = set (actorLocks (swActors w a))"
    "set (phaseHeld (acIdentities (swActors w a)) ph) \<subseteq> set (actorHeld (swActors w a))"
  shows "lockInv (setPhase a ph (w\<lparr>swRegistry := reg\<rparr>))"
  by (rule lockInv_phase [OF assms(1), where a = a and A = "(swActors w a)\<lparr>acPhase := ph\<rparr>"])
    (use assms(2,3) in \<open>simp_all add: lock_simps\<close>)

lemma setPhase_lock:
  assumes "lockInv w" "set (phaseLocks (acIdentities (swActors w a)) ph) = set (actorLocks (swActors w a))"
    "set (phaseHeld (acIdentities (swActors w a)) ph) \<subseteq> set (actorHeld (swActors w a))"
  shows "lockInv (setPhase a ph w)"
  using setPhase_reg_lock [OF assms, of "swRegistry w"] by simp

lemma setResult_lock: "lockInv w \<Longrightarrow> lockInv (setResult a r w)"
  by (rule lockInv_phase [of w _ a "(swActors w a)\<lparr>acResult := r\<rparr>"]) (simp_all add: lock_simps)

lemma actor_step_lock:
  assumes "actor_step a w w'" "actorOk (swActors w a)" "lockInv w"
  shows "lockInv w'"
  using assms(1)
proof cases
  case start
  then show ?thesis using assms(3)
    by (auto simp: startActor_def Let_def lock_simps intro!: waitForIdle_lock lockFrom_first lockInv_free [OF assms(3), of a])
next
  case (woken t ids)
  then show ?thesis by (auto simp: lock_simps intro!: lockInv_free [OF assms(3), of a])
next
  case (wait_aborted t ids)
  then show ?thesis by (auto simp: lock_simps intro!: lockInv_free [OF assms(3), of a])
next
  case (locked job k rest)
  define ids where "ids = acIdentities (swActors w a)"
  have k: "k < length ids" using locked(2) assms(2) by (simp add: actorOk_def ids_def)
  have "headOf a (swLanes w l)" if "l \<in> set (outerLocks ids job @ take (Suc k) (jobLocks ids job))" for l
  proof (cases "l = jobLocks ids job ! k")
    case True
    then show ?thesis using locked(3) by (simp add: headOf_def ids_def)
  next
    case False
    then have "l \<in> set (actorHeld (swActors w a))"
      using that locked(2) k by (auto simp: lock_simps ids_def take_Suc_conv_app_nth)
    then show ?thesis by (rule lockInvD(3) [OF assms(3)])
  qed
  then show ?thesis unfolding locked(1)
    by (intro lockFrom_inv [OF assms(3)]) (use locked(2) in \<open>simp_all add: lock_simps ids_def\<close>)
next
  case (enter job)
  then show ?thesis
    by (cases job) (auto simp: enterJob_def Let_def lock_simps intro!: setPhase_lock [OF assms(3)]
        lockFrom_first [OF assms(3)] unlockJob_lock [OF assms(3), of a])
next
  case (run_ends r)
  then show ?thesis
    by (auto simp: lock_simps intro!: unlockJob_lock [OF setResult_lock [OF assms(3), of a r], of a])
next
  case (asserted threw)
  then show ?thesis
    by (auto simp: afterAssert_def Let_def split_def lock_simps
        intro!: setPhase_reg_lock [OF assms(3)] unlockJob_lock [OF assms(3), of a])
next
  case (barrier adm threw)
  then show ?thesis
    by (auto simp: afterBarrier_def lock_simps intro!: unlockJob_lock [OF assms(3), of a])
next
  case (prepared threw)
  then show ?thesis
    by (auto simp: lock_simps intro!: lockFrom_first assms(3) setResult_lock)
next
  case (unlocks job r k)
  define ids where "ids = acIdentities (swActors w a)"
  have k: "k < length ids" using unlocks(2) assms(2) by (simp add: actorOk_def ids_def)
  have new: "jobLocks ids job ! k \<notin> set (outerLocks ids job)" "jobLocks ids job ! k \<notin> set (take k (jobLocks ids job))"
    using outer_disjoint [of ids job] nth_not_in_take [of "jobLocks ids job" k] k lockInvD(4) [OF assms(3), of a]
      nth_mem [of k "jobLocks ids job"] by (auto simp: ids_def)
  show ?thesis
    by (rule lockInv_leave [OF assms(3), where a = a and l = "jobLocks ids job ! k" and
        A = "(swActors w a)\<lparr>acPhase := Unlocking job r k\<rparr>"])
      (use unlocks new k in \<open>auto simp: lock_simps ids_def [symmetric] take_Suc_conv_app_nth\<close>)
next
  case (ended job r)
  then show ?thesis
    by (cases job) (auto simp: afterJob_def lock_simps intro!: waitForIdle_lock [OF assms(3)] lockFrom_first [OF assms(3)]
        setPhase_lock [OF assms(3)] unlockJob_lock [OF assms(3), of a])
qed

text \<open>A step moves lanes as the contract allows.\<close>

lemma lockFrom_moves: "lane_moves (swLanes w l) (swLanes (lockFrom a job k w) l)"
  by (auto simp: lockFrom_def Let_def)

lemma waitForIdle_lanes [simp]: "swLanes (waitForIdle a w) = swLanes w"
  by (simp add: waitForIdle_def Let_def)

lemma actor_step_moves:
  assumes "actor_step a w w'" "actorOk (swActors w a)" "lockInv w"
  shows "lane_moves (swLanes w l) (swLanes w' l)"
  using assms(1)
proof cases
  case start
  then show ?thesis using lockFrom_moves by (auto simp: startActor_def Let_def)
next
  case (enter job)
  then show ?thesis using lockFrom_moves by (cases job) (auto simp: enterJob_def Let_def)
next
  case (prepared threw)
  then show ?thesis using lockFrom_moves [where w = "setResult a ResultFailed w"] lockFrom_moves [where w = w]
    by (auto split: if_splits)
next
  case (unlocks job r k)
  define ids where "ids = acIdentities (swActors w a)"
  have "jobLocks ids job ! k \<in> set (actorHeld (swActors w a))"
    using unlocks(2) assms(2) by (simp add: lock_simps actorOk_def ids_def take_Suc_conv_app_nth)
  from lockInvD(3) [OF assms(3) this] obtain rest where "swLanes w (jobLocks ids job ! k) = a # rest"
    by (auto simp: headOf_def)
  then show ?thesis using unlocks(1) by (auto simp: ids_def)
next
  case (ended job r)
  then show ?thesis using lockFrom_moves by (cases job) (auto simp: afterJob_def)
qed (use lockFrom_moves in \<open>auto simp: afterAssert_def afterBarrier_def Let_def split_def\<close>)

end
