(* ===== verification/SessionExclusion.thy ===== *)
theory SessionExclusion
  imports SessionLocks
begin

text \<open>
  What the registry says about mutations is what the actors do: the counts, kinds and runs of the
  active mutations, the waiters for idle identities, and that admissions and mutations of an identity
  exclude each other.
\<close>

section \<open>The registry under activations and ends\<close>

lemma activateIdentity_sel [simp]:
  "jm_get (srActiveMutations (activateIdentity kind i s)) =
     (jm_get (srActiveMutations s))(i := Some (mutationCount i s + 1))"
  "jm_get (srActiveMutationKinds (activateIdentity kind i s)) = (case kind of None \<Rightarrow> jm_get (srActiveMutationKinds s)
     | Some k \<Rightarrow> (jm_get (srActiveMutationKinds s))(i := Some (jm_set k (kindCount i k s + 1)
         (nullish (jm_get (srActiveMutationKinds s) i) []))))"
  "srIdleWaiters (activateIdentity kind i s) = srIdleWaiters s"
  "srActiveMutationRuns (activateIdentity kind i s) = srActiveMutationRuns s"
  "srActiveAdmissions (activateIdentity kind i s) = srActiveAdmissions s"
  "srAdmissions (activateIdentity kind i s) = srAdmissions s" "srHandoffs (activateIdentity kind i s) = srHandoffs s"
  "srNextAdmission (activateIdentity kind i s) = srNextAdmission s"
  by (simp_all add: activateIdentity_def Let_def jm.get_put kindCount_def split: option.split)

lemma activate_fold:
  assumes "distinct ids"
  shows "jm_get (srActiveMutations (fold (activateIdentity kind) ids s)) j =
      (if j \<in> set ids then Some (mutationCount j s + 1) else jm_get (srActiveMutations s) j)"
    "jm_get (srActiveMutationKinds (fold (activateIdentity kind) ids s)) j =
      (case kind of None \<Rightarrow> jm_get (srActiveMutationKinds s) j
       | Some k \<Rightarrow> if j \<in> set ids then Some (jm_set k (kindCount j k s + 1) (nullish (jm_get (srActiveMutationKinds s) j) []))
                   else jm_get (srActiveMutationKinds s) j)"
    "srIdleWaiters (fold (activateIdentity kind) ids s) = srIdleWaiters s"
    "srActiveMutationRuns (fold (activateIdentity kind) ids s) = srActiveMutationRuns s"
    "srActiveAdmissions (fold (activateIdentity kind) ids s) = srActiveAdmissions s"
    "srAdmissions (fold (activateIdentity kind) ids s) = srAdmissions s"
    "srHandoffs (fold (activateIdentity kind) ids s) = srHandoffs s"
    "srNextAdmission (fold (activateIdentity kind) ids s) = srNextAdmission s"
  using assms
  by (induction ids arbitrary: s) (auto simp: mutationCount_def kindCount_def split: option.split)

definition finishedCount :: "nat option \<Rightarrow> nat option" where
  "finishedCount n = (if 0 < nullish n 1 - 1 then Some (nullish n 1 - 1) else None)"

definition finishedKinds ::
    "session_mutation_kind \<Rightarrow> (session_mutation_kind, nat) jsmap option \<Rightarrow> (session_mutation_kind, nat) jsmap option" where
  "finishedKinds k ks =
     (case ks of None \<Rightarrow> None
      | Some kinds \<Rightarrow> if 0 < nullish (jm_get kinds k) 1 - 1 then Some (jm_set k (nullish (jm_get kinds k) 1 - 1) kinds)
                      else if jm_delete k kinds = [] then None else Some (jm_delete k kinds))"

lemma finishKind_sel [simp]:
  "jm_get (srActiveMutationKinds (finishKind k i s)) =
     (jm_get (srActiveMutationKinds s))(i := finishedKinds k (jm_get (srActiveMutationKinds s) i))"
  "srActiveMutations (finishKind k i s) = srActiveMutations s" "srIdleWaiters (finishKind k i s) = srIdleWaiters s"
  "srActiveMutationRuns (finishKind k i s) = srActiveMutationRuns s"
  "srActiveAdmissions (finishKind k i s) = srActiveAdmissions s" "srAdmissions (finishKind k i s) = srAdmissions s"
  "srHandoffs (finishKind k i s) = srHandoffs s" "srNextAdmission (finishKind k i s) = srNextAdmission s"
  by (auto simp: finishKind_def finishedKinds_def Let_def jm.get_put jm.get_del fun_eq_iff split: option.split)

lemma finishIdentity_sel [simp]:
  "jm_get (srActiveMutations (finishIdentity kind i s)) =
     (jm_get (srActiveMutations s))(i := finishedCount (jm_get (srActiveMutations s) i))"
  "jm_get (srActiveMutationKinds (finishIdentity kind i s)) = (case kind of None \<Rightarrow> jm_get (srActiveMutationKinds s)
     | Some k \<Rightarrow> (jm_get (srActiveMutationKinds s))(i := finishedKinds k (jm_get (srActiveMutationKinds s) i)))"
  "jm_get (srIdleWaiters (finishIdentity kind i s)) = (if finishedCount (jm_get (srActiveMutations s) i) = None
     then (jm_get (srIdleWaiters s))(i := None) else jm_get (srIdleWaiters s))"
  "srActiveMutationRuns (finishIdentity kind i s) = srActiveMutationRuns s"
  "srActiveAdmissions (finishIdentity kind i s) = srActiveAdmissions s"
  "srAdmissions (finishIdentity kind i s) = srAdmissions s" "srHandoffs (finishIdentity kind i s) = srHandoffs s"
  "srNextAdmission (finishIdentity kind i s) = srNextAdmission s"
  by (auto simp: finishIdentity_def finishedCount_def Let_def jm.get_put jm.get_del fun_eq_iff split: option.split)

lemma finish_fold:
  assumes "distinct ids"
  shows "jm_get (srActiveMutations (fold (finishIdentity kind) ids s)) j =
      (if j \<in> set ids then finishedCount (jm_get (srActiveMutations s) j) else jm_get (srActiveMutations s) j)"
    "jm_get (srActiveMutationKinds (fold (finishIdentity kind) ids s)) j =
      (case kind of None \<Rightarrow> jm_get (srActiveMutationKinds s) j
       | Some k \<Rightarrow> if j \<in> set ids then finishedKinds k (jm_get (srActiveMutationKinds s) j)
                   else jm_get (srActiveMutationKinds s) j)"
    "jm_get (srIdleWaiters (fold (finishIdentity kind) ids s)) j =
      (if j \<in> set ids \<and> finishedCount (jm_get (srActiveMutations s) j) = None then None else jm_get (srIdleWaiters s) j)"
    "srActiveMutationRuns (fold (finishIdentity kind) ids s) = srActiveMutationRuns s"
    "srActiveAdmissions (fold (finishIdentity kind) ids s) = srActiveAdmissions s"
    "srAdmissions (fold (finishIdentity kind) ids s) = srAdmissions s"
    "srHandoffs (fold (finishIdentity kind) ids s) = srHandoffs s"
    "srNextAdmission (fold (finishIdentity kind) ids s) = srNextAdmission s"
  using assms by (induction ids arbitrary: s) (auto split: option.split)

text \<open>The other operations leave mutations and waiters alone.\<close>

definition sameMutations :: "session_registry \<Rightarrow> session_registry \<Rightarrow> bool" where
  "sameMutations s t \<longleftrightarrow> srActiveMutations t = srActiveMutations s \<and> srActiveMutationRuns t = srActiveMutationRuns s \<and>
     srActiveMutationKinds t = srActiveMutationKinds s \<and> srIdleWaiters t = srIdleWaiters s"

lemma sameMutations_refl [simp]: "sameMutations s s"
  by (simp add: sameMutations_def)

lemma sameMutations_trans: "sameMutations s t \<Longrightarrow> sameMutations t u \<Longrightarrow> sameMutations s u"
  by (simp add: sameMutations_def)

lemma sameMutations_fold: "(\<And>x s. sameMutations s (f x s)) \<Longrightarrow> sameMutations s (fold f xs s)"
  by (induction xs arbitrary: s) (auto intro: sameMutations_trans)

lemma setAdmission_sel [simp]:
  "sameMutations s (setAdmission a f s)" "srActiveAdmissions (setAdmission a f s) = srActiveAdmissions s"
  "srAdmissions (setAdmission a f s) = (srAdmissions s)(a := f (srAdmissions s a))"
  "srHandoffs (setAdmission a f s) = srHandoffs s" "srNextAdmission (setAdmission a f s) = srNextAdmission s"
  by (simp_all add: setAdmission_def sameMutations_def)

lemma sameMutations_setAdmission: "sameMutations s t \<Longrightarrow> sameMutations s (setAdmission a f t)"
  by (simp add: setAdmission_def sameMutations_def)

lemma registerAdmission_same: "sameMutations s (snd (registerAdmission ids f s))"
  unfolding registerAdmission_def Let_def snd_conv
  by (rule sameMutations_trans [OF _ sameMutations_fold]) (simp_all add: sameMutations_def indexAdmission_def)

lemma clearHandoffs_same: "sameMutations s t \<Longrightarrow> sameMutations s (clearSessionWorkAdmissionHandoffs a t)"
  unfolding clearSessionWorkAdmissionHandoffs_def
  by (rule sameMutations_setAdmission) (simp add: sameMutations_def)

lemma releaseAdmission_same: "sameMutations s (releaseAdmission a s)"
proof -
  have "sameMutations s (fold (unindexAdmission a) xs (setAdmission a f s))" for xs f
    by (rule sameMutations_trans [OF setAdmission_sel(1) sameMutations_fold])
      (simp add: sameMutations_def unindexAdmission_def Let_def)
  then show ?thesis by (simp add: releaseAdmission_def clearHandoffs_same)
qed

lemma dropHandoff_same: "sameMutations s (dropHandoff h a s)"
  unfolding dropHandoff_def by (rule sameMutations_setAdmission) (simp add: sameMutations_def)

lemma createHandoff_same: "createHandoff a h s = Some (h', t) \<Longrightarrow> sameMutations s t"
  by (auto simp: createHandoff_def sameMutations_def setAdmission_def split: if_splits)

lemma consumeHandoff_same: "sameMutations s (snd (consumeSessionWorkAdmissionHandoff h scope ids f s))"
  by (auto simp: consumeSessionWorkAdmissionHandoff_def Let_def sameMutations_def setAdmission_def dropHandoff_def
      split: option.split)

lemma cancelHandoff_same: "sameMutations s (snd (cancelSessionWorkAdmissionHandoff h s))"
  by (auto simp: cancelSessionWorkAdmissionHandoff_def Let_def split: option.split
      intro: sameMutations_trans [OF dropHandoff_same releaseAdmission_same])

lemma interrupt_same:
  "interruptSessionWorkAdmissions current scope ids s = Some (adms, t) \<Longrightarrow> sameMutations s t"
proof -
  have "sameMutations s (interruptOne a s)" for a s
    by (auto simp: interruptOne_def Let_def sameMutations_def setAdmission_def split: option.split)
  then have "sameMutations s (fold interruptOne xs s)" for xs by (rule sameMutations_fold)
  then show "interruptSessionWorkAdmissions current scope ids s = Some (adms, t) \<Longrightarrow> sameMutations s t"
    by (auto simp: interruptSessionWorkAdmissions_def Let_def split: option.splits)
qed

lemma addIdleWaiter_sel [simp]:
  "jm_get (srIdleWaiters (addIdleWaiter t i s)) =
     (jm_get (srIdleWaiters s))(i := Some (set_add t (nullish (jm_get (srIdleWaiters s) i) [])))"
  "srActiveMutations (addIdleWaiter t i s) = srActiveMutations s"
  "srActiveMutationRuns (addIdleWaiter t i s) = srActiveMutationRuns s"
  "srActiveMutationKinds (addIdleWaiter t i s) = srActiveMutationKinds s"
  by (simp_all add: addIdleWaiter_def jm.get_put)

lemma waitIdle_sel:
  "srActiveMutations (waitIdleBegin t ids s) = srActiveMutations s"
  "srActiveMutationRuns (waitIdleBegin t ids s) = srActiveMutationRuns s"
  "srActiveMutationKinds (waitIdleBegin t ids s) = srActiveMutationKinds s"
  "jm_get (srIdleWaiters (waitIdleBegin t ids s)) i \<noteq> None \<Longrightarrow>
     jm_get (srIdleWaiters s) i \<noteq> None \<or> jm_get (srActiveMutations s) i \<noteq> None"
proof -
  have "srActiveMutations (fold (addIdleWaiter t) xs s) = srActiveMutations s \<and>
      srActiveMutationRuns (fold (addIdleWaiter t) xs s) = srActiveMutationRuns s \<and>
      srActiveMutationKinds (fold (addIdleWaiter t) xs s) = srActiveMutationKinds s \<and>
      (jm_get (srIdleWaiters (fold (addIdleWaiter t) xs s)) i = None \<longleftrightarrow>
         jm_get (srIdleWaiters s) i = None \<and> i \<notin> set xs)" for xs
    by (induction xs arbitrary: s) (simp_all add: conj_commute)
  moreover have "i \<in> set (activeIdentities ids s) \<Longrightarrow> jm_get (srActiveMutations s) i \<noteq> None"
    by (cases "jm_get (srActiveMutations s) i") (auto simp: activeIdentities_def mutationCount_def)
  ultimately show "srActiveMutations (waitIdleBegin t ids s) = srActiveMutations s"
    "srActiveMutationRuns (waitIdleBegin t ids s) = srActiveMutationRuns s"
    "srActiveMutationKinds (waitIdleBegin t ids s) = srActiveMutationKinds s"
    "jm_get (srIdleWaiters (waitIdleBegin t ids s)) i \<noteq> None \<Longrightarrow>
       jm_get (srIdleWaiters s) i \<noteq> None \<or> jm_get (srActiveMutations s) i \<noteq> None"
    unfolding waitIdleBegin_def by metis+
qed

section \<open>The registry is what the actors do\<close>

text \<open>From its activation to its end a mutation is active.\<close>

fun activePhase :: "session_phase \<Rightarrow> bool" where
  "activePhase (Unlocking JobActivate r k) \<longleftrightarrow> r = ResultOk"
| "activePhase Preparing \<longleftrightarrow> True"
| "activePhase (Locking job k) \<longleftrightarrow> job = JobRun \<or> job = JobFinish"
| "activePhase (Inside job) \<longleftrightarrow> job = JobRun \<or> job = JobFinish"
| "activePhase (Unlocking JobRun r k) \<longleftrightarrow> True"
| "activePhase _ \<longleftrightarrow> False"

text \<open>An admission past its check holds its identities.\<close>

fun admittedPhase :: "session_phase \<Rightarrow> bool" where
  "admittedPhase Asserting \<longleftrightarrow> True"
| "admittedPhase (AtBarrier adm) \<longleftrightarrow> True"
| "admittedPhase _ \<longleftrightarrow> False"

definition activeOn :: "session_world \<Rightarrow> string \<Rightarrow> nat \<Rightarrow> bool" where
  "activeOn w i a \<longleftrightarrow> activePhase (acPhase (swActors w a)) \<and> i \<in> set (acIdentities (swActors w a))"

definition registryInv :: "session_world \<Rightarrow> bool" where
  "registryInv w \<longleftrightarrow>
     (\<forall>i. jm_get (srActiveMutations (swRegistry w)) i = (if \<exists>a. activeOn w i a then Some 1 else None)) \<and>
     (\<forall>i. jm_get (srActiveMutationKinds (swRegistry w)) i =
        (if \<exists>a. activeOn w i a \<and> acKind (swActors w a) = Some Compaction then Some [(Compaction, 1)] else None)) \<and>
     distinct (srActiveMutationRuns (swRegistry w)) \<and>
     set (srActiveMutationRuns (swRegistry w)) = {a. activePhase (acPhase (swActors w a))} \<and>
     (\<forall>i. jm_get (srIdleWaiters (swRegistry w)) i \<noteq> None \<longrightarrow> jm_get (srActiveMutations (swRegistry w)) i \<noteq> None) \<and>
     (\<forall>a. admittedPhase (acPhase (swActors w a)) \<longrightarrow>
        (\<forall>i \<in> set (acIdentities (swActors w a)). jm_get (srActiveMutations (swRegistry w)) i = None))"

lemma registryInvD:
  assumes "registryInv w"
  shows "jm_get (srActiveMutations (swRegistry w)) i = (if \<exists>a. activeOn w i a then Some 1 else None)"
    and "jm_get (srActiveMutationKinds (swRegistry w)) i =
        (if \<exists>a. activeOn w i a \<and> acKind (swActors w a) = Some Compaction then Some [(Compaction, 1)] else None)"
    and "distinct (srActiveMutationRuns (swRegistry w))"
    and "set (srActiveMutationRuns (swRegistry w)) = {a. activePhase (acPhase (swActors w a))}"
    and "jm_get (srIdleWaiters (swRegistry w)) i \<noteq> None \<Longrightarrow> jm_get (srActiveMutations (swRegistry w)) i \<noteq> None"
    and "admittedPhase (acPhase (swActors w a)) \<Longrightarrow> i \<in> set (acIdentities (swActors w a)) \<Longrightarrow>
        jm_get (srActiveMutations (swRegistry w)) i = None"
  using assms unfolding registryInv_def by (elim conjE, blast)+

lemma active_holds:
  "activePhase (acPhase A) \<Longrightarrow> i \<in> set (acIdentities A) \<Longrightarrow> SessionLock MutationLane i \<in> set (actorHeld A)"
  by (cases "acPhase A" rule: activePhase.cases) (auto simp: lock_simps jobLocks_def)

lemma admitted_holds:
  "admittedPhase (acPhase A) \<Longrightarrow> i \<in> set (acIdentities A) \<Longrightarrow> SessionLock LifecycleLane i \<in> set (actorHeld A)"
  by (cases "acPhase A" rule: admittedPhase.cases) (auto simp: lock_simps jobLocks_def)

lemma active_once: "lockInv w \<Longrightarrow> activeOn w i a \<Longrightarrow> activeOn w i b \<Longrightarrow> a = b"
  using held_once active_holds unfolding activeOn_def by blast

text \<open>A step that neither activates nor ends a mutation.\<close>

lemma registryInv_frame:
  assumes inv: "registryInv w"
    and same: "srActiveMutations (swRegistry w') = srActiveMutations (swRegistry w)"
      "srActiveMutationKinds (swRegistry w') = srActiveMutationKinds (swRegistry w)"
      "srActiveMutationRuns (swRegistry w') = srActiveMutationRuns (swRegistry w)"
    and waiters: "\<And>i. jm_get (srIdleWaiters (swRegistry w')) i \<noteq> None \<Longrightarrow>
      jm_get (srIdleWaiters (swRegistry w)) i \<noteq> None \<or> jm_get (srActiveMutations (swRegistry w)) i \<noteq> None"
    and actors: "\<And>a. activePhase (acPhase (swActors w' a)) \<or> admittedPhase (acPhase (swActors w' a)) \<Longrightarrow>
        sameActor (swActors w a) (swActors w' a)"
      "\<And>a. activePhase (acPhase (swActors w' a)) = activePhase (acPhase (swActors w a))"
      "\<And>a. admittedPhase (acPhase (swActors w' a)) \<Longrightarrow> admittedPhase (acPhase (swActors w a)) \<or>
        \<not> hasActiveSessionLifecycleMutation (acIdentities (swActors w a)) (swRegistry w)"
  shows "registryInv w'"
proof -
  have on: "activeOn w' i a \<and> P (acKind (swActors w' a)) \<longleftrightarrow> activeOn w i a \<and> P (acKind (swActors w a))" for i a P
    using actors(1,2) [of a] by (auto simp: activeOn_def sameActor_def)
  have on': "activeOn w' i a \<longleftrightarrow> activeOn w i a" for i a using on [of i a "\<lambda>_. True"] by simp
  have none: "jm_get (srActiveMutations (swRegistry w)) i = None"
    if "admittedPhase (acPhase (swActors w' a))" "i \<in> set (acIdentities (swActors w' a))" for a i
  proof -
    have i: "i \<in> set (acIdentities (swActors w a))"
      using actors(1) [of a] that by (simp add: sameActor_def)
    from actors(3) [OF that(1)] show ?thesis
    proof
      assume "admittedPhase (acPhase (swActors w a))"
      then show ?thesis using registryInvD(6) [OF inv] i by blast
    next
      assume "\<not> hasActiveSessionLifecycleMutation (acIdentities (swActors w a)) (swRegistry w)"
      then have "mutationCount i (swRegistry w) = 0"
        using i by (auto simp: hasActiveSessionLifecycleMutation_def list_ex_iff)
      moreover have "jm_get (srActiveMutations (swRegistry w)) i \<in> {None, Some 1}"
        by (simp add: registryInvD(1) [OF inv])
      ultimately show ?thesis by (auto simp: mutationCount_def)
    qed
  qed
  show ?thesis
    unfolding registryInv_def on [of _ _ "\<lambda>k. k = Some Compaction"] same actors(2)
  proof (intro conjI allI impI ballI)
    show "jm_get (srActiveMutations (swRegistry w)) i = (if \<exists>a. activeOn w' i a then Some 1 else None)" for i
      unfolding on' by (rule registryInvD(1) [OF inv])
    show "jm_get (srIdleWaiters (swRegistry w')) i \<noteq> None \<Longrightarrow> jm_get (srActiveMutations (swRegistry w)) i \<noteq> None" for i
      using waiters [of i] registryInvD(5) [OF inv, of i] by blast
  qed (use registryInvD(2-4) [OF inv] none in blast)+
qed

lemma others_frame:
  assumes "actor_step a w w'" "actorOk (swActors w a)"
  shows "sameActor (swActors w b) (swActors w' b)" "b \<noteq> a \<Longrightarrow> swActors w' b = swActors w b"
  using actor_step_frame [OF assms] by (cases "b = a"; simp add: sameActor_def)+

lemma frame_phases:
  assumes step: "actor_step a w w'" "actorOk (swActors w a)"
    and active: "activePhase (acPhase (swActors w' a)) = activePhase (acPhase (swActors w a))"
    and admitted: "admittedPhase (acPhase (swActors w' a)) \<Longrightarrow> admittedPhase (acPhase (swActors w a)) \<or>
        \<not> hasActiveSessionLifecycleMutation (acIdentities (swActors w a)) (swRegistry w)"
    and inv: "registryInv w"
    and same: "srActiveMutations (swRegistry w') = srActiveMutations (swRegistry w)"
      "srActiveMutationKinds (swRegistry w') = srActiveMutationKinds (swRegistry w)"
      "srActiveMutationRuns (swRegistry w') = srActiveMutationRuns (swRegistry w)"
      "\<And>i. jm_get (srIdleWaiters (swRegistry w')) i \<noteq> None \<Longrightarrow>
        jm_get (srIdleWaiters (swRegistry w)) i \<noteq> None \<or> jm_get (srActiveMutations (swRegistry w)) i \<noteq> None"
  shows "registryInv w'"
proof (rule registryInv_frame [OF inv same])
  fix b
  show "sameActor (swActors w b) (swActors w' b)" by (rule others_frame(1) [OF step])
  show "activePhase (acPhase (swActors w' b)) = activePhase (acPhase (swActors w b))"
    using active others_frame(2) [OF step, of b] by (cases "b = a") simp_all
  show "admittedPhase (acPhase (swActors w' b)) \<Longrightarrow> admittedPhase (acPhase (swActors w b)) \<or>
      \<not> hasActiveSessionLifecycleMutation (acIdentities (swActors w b)) (swRegistry w)"
    using admitted others_frame(2) [OF step, of b] by (cases "b = a") simp_all
qed

lemma frame_same:
  assumes step: "actor_step a w w'" "actorOk (swActors w a)"
    and active: "activePhase (acPhase (swActors w' a)) = activePhase (acPhase (swActors w a))"
    and admitted: "admittedPhase (acPhase (swActors w' a)) \<Longrightarrow> admittedPhase (acPhase (swActors w a)) \<or>
        \<not> hasActiveSessionLifecycleMutation (acIdentities (swActors w a)) (swRegistry w)"
    and inv: "registryInv w" and same: "sameMutations (swRegistry w) (swRegistry w')"
  shows "registryInv w'"
  by (rule frame_phases [OF step active admitted inv]) (use same in \<open>simp_all add: sameMutations_def\<close>)

lemma waitForIdle_registry:
  "srActiveMutations (swRegistry (waitForIdle a w)) = srActiveMutations (swRegistry w)"
  "srActiveMutationKinds (swRegistry (waitForIdle a w)) = srActiveMutationKinds (swRegistry w)"
  "srActiveMutationRuns (swRegistry (waitForIdle a w)) = srActiveMutationRuns (swRegistry w)"
  "jm_get (srIdleWaiters (swRegistry (waitForIdle a w))) i \<noteq> None \<Longrightarrow>
     jm_get (srIdleWaiters (swRegistry w)) i \<noteq> None \<or> jm_get (srActiveMutations (swRegistry w)) i \<noteq> None"
  "\<not> activePhase (acPhase (swActors (waitForIdle a w) a))" "\<not> admittedPhase (acPhase (swActors (waitForIdle a w) a))"
  using waitIdle_sel(4) [of "swNextWaiter w" "acIdentities (swActors w a)" "swRegistry w" i]
  by (auto simp: waitForIdle_def Let_def waitIdle_sel(1-3) split: if_splits)

lemma waitForIdle_waiters:
  "jm_get (srIdleWaiters (swRegistry (waitForIdle a w))) i = Some ts \<Longrightarrow> jm_get (srActiveMutations (swRegistry w)) i = None \<Longrightarrow>
     \<exists>us. jm_get (srIdleWaiters (swRegistry w)) i = Some us"
  using waitForIdle_registry(4) [of a w i] by auto

lemma activation_registry:
  assumes step: "actor_step a w w'" and ok: "actorOk (swActors w a)" and lock: "lockInv w" and inv: "registryInv w"
    and inside: "acPhase (swActors w a) = Inside JobActivate"
    and w': "w' = unlockJob a JobActivate ResultOk (onRegistry (activateMutation a (acIdentities (swActors w a)) (acKind (swActors w a))) w)"
  shows "registryInv w'"
proof -
  define ids where "ids = acIdentities (swActors w a)"
  have idle: "\<not> activePhase (acPhase (swActors w a))" using inside by simp
  have holds: "SessionLock f i \<in> set (actorHeld (swActors w a))" if "i \<in> set ids" for f i
    using that inside by (cases f) (auto simp: lock_simps jobLocks_def ids_def)
  have alone: "\<not> activeOn w i b" if "i \<in> set ids" for i b
  proof
    assume "activeOn w i b"
    then have "b = a" using held_once [OF lock] active_holds holds [OF that] unfolding activeOn_def by blast
    with \<open>activeOn w i b\<close> idle show False by (simp add: activeOn_def)
  qed
  have none: "jm_get (srActiveMutations (swRegistry w)) i = None" "jm_get (srActiveMutationKinds (swRegistry w)) i = None"
    if "i \<in> set ids" for i
    using registryInvD(1,2) [OF inv, of i] alone [OF that] by simp_all
  have ids': "acIdentities (swActors w' b) = acIdentities (swActors w b)" "acKind (swActors w' b) = acKind (swActors w b)" for b
    using others_frame(1) [OF step ok, of b] by (simp_all add: sameActor_def)
  have phase: "activePhase (acPhase (swActors w' b)) \<longleftrightarrow> b = a \<or> activePhase (acPhase (swActors w b))" for b
    by (simp add: w')
  have on: "activeOn w' i b \<longleftrightarrow> b = a \<and> i \<in> set ids \<or> activeOn w i b" for i b
    using phase [of b] ids' [of b] by (auto simp: activeOn_def ids_def)
  have fresh: "a \<notin> set (srActiveMutationRuns (swRegistry w))" using registryInvD(4) [OF inv] idle by simp
  note fold = activate_fold [OF lockInvD(4) [OF lock, of a], folded ids_def]
  have reg: "swRegistry w' = activateMutation a ids (acKind (swActors w a)) (swRegistry w)"
    by (simp add: w' ids_def)
  show ?thesis
    unfolding registryInv_def
  proof (intro conjI allI impI ballI)
    show "jm_get (srActiveMutations (swRegistry w')) i = (if \<exists>b. activeOn w' i b then Some 1 else None)" for i
      using registryInvD(1) [OF inv, of i] none [of i]
      by (auto simp: reg activateMutation_def fold on mutationCount_def)
    show "jm_get (srActiveMutationKinds (swRegistry w')) i =
        (if \<exists>b. activeOn w' i b \<and> acKind (swActors w' b) = Some Compaction then Some [(Compaction, 1)] else None)" for i
    proof (cases "i \<in> set ids")
      case True
      then have "(\<exists>b. activeOn w' i b \<and> acKind (swActors w' b) = Some Compaction) \<longleftrightarrow> acKind (swActors w a) = Some Compaction"
        using alone [OF True] by (auto simp: on ids')
      moreover have "k = Compaction" for k by (cases k)
      ultimately show ?thesis using True none [OF True]
        by (auto simp: reg activateMutation_def fold kindCount_def jm_set_def split: option.split)
    next
      case False
      then have "(\<exists>b. activeOn w' i b \<and> acKind (swActors w' b) = Some Compaction) \<longleftrightarrow>
          (\<exists>b. activeOn w i b \<and> acKind (swActors w b) = Some Compaction)" by (auto simp: on ids')
      with False show ?thesis using registryInvD(2) [OF inv, of i]
        by (auto simp: reg activateMutation_def fold split: option.split)
    qed
    show "distinct (srActiveMutationRuns (swRegistry w'))"
      using registryInvD(3) [OF inv] fresh by (simp add: reg activateMutation_def fold set_add_def)
    show "set (srActiveMutationRuns (swRegistry w')) = {b. activePhase (acPhase (swActors w' b))}"
      unfolding phase using registryInvD(4) [OF inv] fresh
      by (auto simp: reg activateMutation_def fold set_add_def)
    show "jm_get (srIdleWaiters (swRegistry w')) i \<noteq> None \<Longrightarrow> jm_get (srActiveMutations (swRegistry w')) i \<noteq> None" for i
      using registryInvD(5) [OF inv, of i] by (auto simp: reg activateMutation_def fold)
    fix b i assume b: "admittedPhase (acPhase (swActors w' b))" "i \<in> set (acIdentities (swActors w' b))"
    then have "b \<noteq> a" by (auto simp: w')
    then have b': "admittedPhase (acPhase (swActors w b))" "i \<in> set (acIdentities (swActors w b))"
      using b others_frame(2) [OF step ok, of b] by simp_all
    then have "i \<notin> set ids" using held_once [OF lock admitted_holds [OF b'] holds] \<open>b \<noteq> a\<close> by blast
    then show "jm_get (srActiveMutations (swRegistry w')) i = None"
      using registryInvD(6) [OF inv b'] by (simp add: reg activateMutation_def fold)
  qed
qed

lemma finish_registry:
  assumes step: "actor_step a w w'" and ok: "actorOk (swActors w a)" and lock: "lockInv w" and inv: "registryInv w"
    and inside: "acPhase (swActors w a) = Inside JobFinish"
    and w': "w' = unlockJob a JobFinish ResultOk (onRegistry (finishMutation a (acIdentities (swActors w a)) (acKind (swActors w a))) w)"
  shows "registryInv w'"
proof -
  define ids where "ids = acIdentities (swActors w a)"
  have mine: "activeOn w i b \<longleftrightarrow> b = a" if "i \<in> set ids" for i b
    using that inside active_once [OF lock, of i b a] by (auto simp: activeOn_def ids_def)
  have ids': "acIdentities (swActors w' b) = acIdentities (swActors w b)" "acKind (swActors w' b) = acKind (swActors w b)" for b
    using others_frame(1) [OF step ok, of b] by (simp_all add: sameActor_def)
  have phase: "activePhase (acPhase (swActors w' b)) \<longleftrightarrow> b \<noteq> a \<and> activePhase (acPhase (swActors w b))" for b
    by (simp add: w')
  have on: "activeOn w' i b \<longleftrightarrow> b \<noteq> a \<and> activeOn w i b" for i b
    using phase [of b] ids' [of b] by (auto simp: activeOn_def)
  have was: "activeOn w i a \<longleftrightarrow> i \<in> set ids" for i using inside by (auto simp: activeOn_def ids_def)
  have reg: "swRegistry w' = finishMutation a ids (acKind (swActors w a)) (swRegistry w)"
    by (simp add: w' ids_def)
  have "k = Compaction" for k by (cases k)
  then have kinds: "acKind (swActors w a) = None \<or> acKind (swActors w a) = Some Compaction"
    by (cases "acKind (swActors w a)") simp_all
  note fold = finish_fold [OF lockInvD(4) [OF lock, of a], folded ids_def]
  have others: "(\<exists>b. activeOn w' i b \<and> P b) \<longleftrightarrow> i \<notin> set ids \<and> (\<exists>b. activeOn w i b \<and> P b)" for i P
    using mine [of i] was [of i] by (auto simp: on)
  show ?thesis
    unfolding registryInv_def
  proof (intro conjI allI impI ballI)
    show "jm_get (srActiveMutations (swRegistry w')) i = (if \<exists>b. activeOn w' i b then Some 1 else None)" for i
      using registryInvD(1) [OF inv, of i] mine [of i] others [of i "\<lambda>_. True"]
      by (auto simp: reg finishMutation_def fold finishedCount_def)
    show "jm_get (srActiveMutationKinds (swRegistry w')) i =
        (if \<exists>b. activeOn w' i b \<and> acKind (swActors w' b) = Some Compaction then Some [(Compaction, 1)] else None)" for i
    proof (cases "i \<in> set ids")
      case True
      have "jm_get (srActiveMutationKinds (swRegistry w)) i =
          (if acKind (swActors w a) = Some Compaction then Some [(Compaction, 1)] else None)"
        using registryInvD(2) [OF inv, of i] by (auto simp: mine [OF True])
      then have "jm_get (srActiveMutationKinds (swRegistry w')) i = None"
        using True kinds by (auto simp: reg finishMutation_def fold finishedKinds_def jm_delete_def)
      then show ?thesis using True unfolding ids' others by simp
    next
      case False
      have "jm_get (srActiveMutationKinds (swRegistry w')) i = jm_get (srActiveMutationKinds (swRegistry w)) i"
        using False by (simp add: reg finishMutation_def fold split: option.split)
      then show ?thesis using False registryInvD(2) [OF inv, of i] unfolding ids' others by simp
    qed
    show "distinct (srActiveMutationRuns (swRegistry w'))"
      using registryInvD(3) [OF inv] by (simp add: reg finishMutation_def fold distinct_removeAll)
    show "set (srActiveMutationRuns (swRegistry w')) = {b. activePhase (acPhase (swActors w' b))}"
      unfolding phase using registryInvD(4) [OF inv] by (auto simp: reg finishMutation_def fold)
    show "jm_get (srIdleWaiters (swRegistry w')) i \<noteq> None \<Longrightarrow> jm_get (srActiveMutations (swRegistry w')) i \<noteq> None" for i
      using registryInvD(5) [OF inv, of i] registryInvD(1) [OF inv, of i] mine [of i]
      by (auto simp: reg finishMutation_def fold finishedCount_def split: if_splits)
    fix b i assume b: "admittedPhase (acPhase (swActors w' b))" "i \<in> set (acIdentities (swActors w' b))"
    then have "b \<noteq> a" by (auto simp: w')
    then have b': "admittedPhase (acPhase (swActors w b))" "i \<in> set (acIdentities (swActors w b))"
      using b others_frame(2) [OF step ok, of b] by simp_all
    from registryInvD(6) [OF inv b'] show "jm_get (srActiveMutations (swRegistry w')) i = None"
      by (simp add: reg finishMutation_def fold finishedCount_def)
  qed
qed

lemma actor_step_registry:
  assumes step: "actor_step a w w'" and ok: "actorOk (swActors w a)" and lock: "lockInv w" and inv: "registryInv w"
  shows "registryInv w'"
  using step
proof cases
  case start
  then show ?thesis
    by (intro frame_phases [OF step ok _ _ inv])
      (auto simp: startActor_def Let_def waitForIdle_registry(1-3,5,6) dest: waitForIdle_waiters split: if_splits)
next
  case (enter job)
  show ?thesis
  proof (cases job)
    case JobActivate
    show ?thesis
    proof (cases "actorAborted (swActors w a) w")
      case True
      with enter JobActivate show ?thesis
        by (intro frame_same [OF step ok _ _ inv]) (simp_all add: enterJob_def Let_def)
    next
      case False
      with enter JobActivate show ?thesis
        by (intro activation_registry [OF step ok lock inv]) (simp_all add: enterJob_def Let_def)
    qed
  next
    case JobFinish
    with enter show ?thesis
      by (intro finish_registry [OF step ok lock inv]) (simp_all add: enterJob_def Let_def)
  next
    case JobAdmit
    with enter show ?thesis
      by (intro frame_same [OF step ok _ _ inv]) (auto simp: enterJob_def Let_def split: if_splits)
  next
    case JobMutate
    with enter show ?thesis
      by (intro frame_same [OF step ok _ _ inv]) (auto simp: enterJob_def Let_def split: if_splits)
  qed (use enter in simp)
next
  case (asserted threw)
  then show ?thesis using registerAdmission_same
    by (intro frame_same [OF step ok _ _ inv]) (auto simp: afterAssert_def Let_def split_def)
next
  case (barrier adm threw)
  then show ?thesis using releaseAdmission_same
    by (intro frame_same [OF step ok _ _ inv]) (auto simp: afterBarrier_def)
next
  case (ended job r)
  show ?thesis
  proof (cases job)
    case JobAdmit
    with ended show ?thesis
      by (intro frame_phases [OF step ok _ _ inv])
        (auto simp: afterJob_def waitForIdle_registry(1-3,5,6) dest: waitForIdle_waiters split: if_splits)
  qed (use ended in \<open>(intro frame_same [OF step ok _ _ inv]; auto simp: afterJob_def split: if_splits)+\<close>)
next
  case (unlocks job r k)
  then show ?thesis
    by (intro frame_same [OF step ok _ _ inv]) (cases job; simp)+
qed (intro frame_same [OF step ok _ _ inv]; auto split: if_splits)+

end
