(* ===== verification/SessionSamples.thy ===== *)
theory SessionSamples
  imports SessionLifecycle
begin

text \<open>A compaction of the session \<open>x\<close> of the store \<open>s\<close>, from its call to its activation.\<close>

definition sampleKey :: string where
  "sampleKey = jsonStringify (JArr [JStr ''s'', JStr ''x''])"

lemma sampleKey: "normalizeSessionIdentities ''s'' [Some ''x''] = Some [sampleKey]"
proof -
  have "js_trim ''s'' = ''s''" "js_trim ''x'' = ''x''" by code_simp+
  then show ?thesis by (simp add: normalizeSessionIdentities_def sampleKey_def uniqueValues_def set_add_def)
qed

definition sampleActor :: "bool \<Rightarrow> session_actor" where
  "sampleActor m = \<lparr>acMutation = m, acIdentities = [sampleKey], acKind = Some Compaction, acSignal = None,
     acInterrupt = None, acRoot = None, acResult = ResultOk, acPhase = Starting\<rparr>"

definition sampleCalled :: session_world where
  "sampleCalled = (emptySessions initialAdmissionState)\<lparr>swActors := (swActors (emptySessions initialAdmissionState))(0 := sampleActor True),
     swCount := 1\<rparr>"

definition sampleActive :: session_world where
  "sampleActive = enterJob 0 JobActivate (lockFrom 0 JobActivate 1 (enterJob 0 JobMutate (lockFrom 0 JobMutate 1
     (startActor 0 sampleCalled))))"

lemma sampleActive_reachable: "session_step\<^sup>*\<^sup>* (emptySessions initialAdmissionState) sampleActive"
proof -
  define w1 where "w1 = startActor 0 sampleCalled"
  define w2 where "w2 = lockFrom 0 JobMutate 1 w1"
  define w3 where "w3 = enterJob 0 JobMutate w2"
  define w4 where "w4 = lockFrom 0 JobActivate 1 w3"
  note defs = sampleCalled_def sampleActor_def startActor_def lockFrom_def enterJob_def Let_def setPhase_def joinLane_def
    jobLocks_def actorAborted_def emptySessions_def
  have "session_step (emptySessions initialAdmissionState) sampleCalled"
    using session_step.call [OF sampleKey, of True None "emptySessions initialAdmissionState" "Some Compaction" None None]
    by (simp add: sampleCalled_def sampleActor_def emptySessions_def)
  moreover have "session_step sampleCalled w1"
    unfolding w1_def by (rule session_step.actor [of 0], simp add: defs) (rule actor_step.start, simp add: defs)
  moreover have "session_step w1 w2"
    unfolding w2_def using actor_step.locked [of w1 0 JobMutate 0 "[]"]
    by (intro session_step.actor [of 0]) (simp_all add: w1_def defs)
  moreover have "session_step w2 w3"
    unfolding w3_def using actor_step.enter [of w2 0 JobMutate]
    by (intro session_step.actor [of 0]) (simp_all add: w2_def w1_def defs)
  moreover have "session_step w3 w4"
    unfolding w4_def using actor_step.locked [of w3 0 JobActivate 0 "[]"]
    by (intro session_step.actor [of 0]) (simp_all add: w3_def w2_def w1_def defs)
  moreover have "session_step w4 sampleActive"
    unfolding sampleActive_def w1_def [symmetric] w2_def [symmetric] w3_def [symmetric] w4_def [symmetric]
    using actor_step.enter [of w4 0 JobActivate]
    by (intro session_step.actor [of 0]) (simp_all add: w4_def w3_def w2_def w1_def defs)
  ultimately show ?thesis by (meson converse_rtranclp_into_rtranclp rtranclp.rtrancl_refl)
qed

lemma sampleActive_actor:
  "swActors sampleActive 0 = (sampleActor True)\<lparr>acPhase := Unlocking JobActivate ResultOk 1\<rparr>"
  "swActors sampleActive 1 = swActors (emptySessions initialAdmissionState) 1"
  "swCount sampleActive = 1"
  by (simp_all add: sampleActive_def sampleCalled_def sampleActor_def startActor_def lockFrom_def enterJob_def Let_def
      setPhase_def joinLane_def jobLocks_def actorAborted_def unlockJob_def onRegistry_def emptySessions_def)

text \<open>Then an admission of the same session is called.\<close>

definition sampleBoth :: session_world where
  "sampleBoth = sampleActive\<lparr>swActors := (swActors sampleActive)(1 := (sampleActor False)), swCount := 2\<rparr>"

lemma sampleBoth_reachable: "session_step\<^sup>*\<^sup>* (emptySessions initialAdmissionState) sampleBoth"
proof -
  have "swGateway sampleActive = initialAdmissionState"
    by (simp add: sampleActive_def sampleCalled_def sampleActor_def startActor_def lockFrom_def enterJob_def Let_def
        setPhase_def joinLane_def jobLocks_def actorAborted_def unlockJob_def onRegistry_def emptySessions_def)
  then have "\<not> isGatewaySubordinateWorkAdmissionClosed None (swGateway sampleActive)"
    by (simp add: isGatewaySubordinateWorkAdmissionClosed_def initialAdmissionState_def)
  then have "session_step sampleActive sampleBoth"
    using session_step.call [OF sampleKey, of False None sampleActive "Some Compaction" None None]
    by (simp add: sampleBoth_def sampleActive_actor sampleActor_def numeral_2_eq_2)
  with sampleActive_reachable show ?thesis by simp
qed

text \<open>An admission of the session waits at the writer barrier and is handed over under the id \<open>h\<close>.\<close>

definition sampleAdmission :: session_world where
  "sampleAdmission = (emptySessions initialAdmissionState)\<lparr>
     swActors := (swActors (emptySessions initialAdmissionState))(0 := sampleActor False), swCount := 1\<rparr>"

definition sampleAdmitted :: session_world where
  "sampleAdmitted = afterAssert 0 False (enterJob 0 JobAdmit (lockFrom 0 JobAdmit 1 (startActor 0 sampleAdmission)))"

definition sampleHandedOff :: session_world where
  "sampleHandedOff = onRegistry (\<lambda>s. snd (the (createHandoff 0 ''h'' s))) sampleAdmitted"

lemmas sampleAdmitted_defs = sampleAdmission_def sampleActor_def startActor_def lockFrom_def enterJob_def Let_def
  setPhase_def joinLane_def jobLocks_def actorAborted_def emptySessions_def hasActiveSessionLifecycleMutation_def
  mutationCount_def emptyRegistry_def

lemma initial_open: "\<not> isGatewaySubordinateWorkAdmissionClosed None initialAdmissionState"
  by (simp add: isGatewaySubordinateWorkAdmissionClosed_def initialAdmissionState_def)

lemma sampleAdmitted_registry:
  "swRegistry sampleAdmitted = snd (registerAdmission [sampleKey] None emptyRegistry)"
  using initial_open by (simp add: sampleAdmitted_def afterAssert_def split_def sampleAdmitted_defs)

lemma sampleHandedOff_registry [simp]:
  "jm_get (srHandoffs (swRegistry sampleHandedOff)) ''h'' = Some 0"
  "saIdentities (srAdmissions (swRegistry sampleHandedOff) 0) = [sampleKey]"
  by (simp_all add: sampleHandedOff_def onRegistry_def sampleAdmitted_registry registerAdmission_def createHandoff_def
      indexAdmission_def setAdmission_def emptyRegistry_def Let_def jm.get_put)

lemma sampleHandedOff_reachable: "session_step\<^sup>*\<^sup>* (emptySessions initialAdmissionState) sampleHandedOff"
proof -
  define w1 where "w1 = startActor 0 sampleAdmission"
  define w2 where "w2 = lockFrom 0 JobAdmit 1 w1"
  define w3 where "w3 = enterJob 0 JobAdmit w2"
  have "session_step (emptySessions initialAdmissionState) sampleAdmission"
    using session_step.call [OF sampleKey, of False None "emptySessions initialAdmissionState" "Some Compaction" None None]
      initial_open by (simp add: sampleAdmission_def sampleActor_def emptySessions_def)
  moreover have "session_step sampleAdmission w1"
    unfolding w1_def by (rule session_step.actor [of 0], simp add: sampleAdmitted_defs)
      (rule actor_step.start, simp add: sampleAdmitted_defs)
  moreover have "session_step w1 w2"
    unfolding w2_def using actor_step.locked [of w1 0 JobAdmit 0 "[]"]
    by (intro session_step.actor [of 0]) (simp_all add: w1_def sampleAdmitted_defs)
  moreover have "session_step w2 w3"
    unfolding w3_def using actor_step.enter [of w2 0 JobAdmit]
    by (intro session_step.actor [of 0]) (simp_all add: w2_def w1_def sampleAdmitted_defs)
  moreover have "session_step w3 sampleAdmitted"
    unfolding sampleAdmitted_def w1_def [symmetric] w2_def [symmetric] w3_def [symmetric]
    using actor_step.asserted [of w3 0 False]
    by (intro session_step.actor [of 0]) (simp_all add: w3_def w2_def w1_def sampleAdmitted_defs)
  moreover have "session_step sampleAdmitted sampleHandedOff"
    unfolding sampleHandedOff_def onRegistry_def
    by (rule session_step.hands_off [of 0 _ "''h''" "''h''"])
      (simp_all add: sampleAdmitted_registry registerAdmission_def createHandoff_def indexAdmission_def setAdmission_def
        emptyRegistry_def Let_def)
  ultimately show ?thesis by (meson converse_rtranclp_into_rtranclp rtranclp.rtrancl_refl)
qed

end
