(* ===== verification/SessionProofs.thy ===== *)
theory SessionProofs
  imports SessionExclusion SessionSamples
begin

text \<open>
  The properties of session lifecycle admission in every reachable state: what excludes what, what
  the queries answer, that nothing deadlocks, and that admissions and handoffs are used once.
\<close>

section \<open>Reachable states\<close>

definition sessionInv :: "session_world \<Rightarrow> bool" where
  "sessionInv w \<longleftrightarrow> lockInv w \<and> registryInv w \<and>
     (\<forall>a. actorOk (swActors w a) \<and> sorted_wrt (<) (acIdentities (swActors w a))) \<and>
     (\<forall>a \<ge> swCount w. \<exists>r. acPhase (swActors w a) = Finished r)"

lemma sessionInvD:
  assumes "sessionInv w"
  shows "lockInv w" "registryInv w" "actorOk (swActors w a)" "sorted_wrt (<) (acIdentities (swActors w a))"
    "swCount w \<le> a \<Longrightarrow> \<exists>r. acPhase (swActors w a) = Finished r"
  using assms by (simp_all add: sessionInv_def)

lemma normalize_sorted:
  assumes "normalizeSessionIdentities scope identities = Some ids"
  shows "sorted_wrt (<) ids"
proof -
  have "inj (\<lambda>i. jsonStringify (JArr [JStr s, JStr i]))" for s
    by (rule injI) (simp add: jsonStringify_inj)
  then have "inj_on (\<lambda>i. jsonStringify (JArr [JStr s, JStr i])) A" for s A by (rule inj_on_subset) simp
  then show ?thesis
    using assms by (auto simp: normalizeSessionIdentities_def Let_def distinct_map strict_sorted_iff split: if_splits)
qed

lemma initial_inv: "sessionInv (emptySessions g)"
  by (simp add: sessionInv_def lockInv_def registryInv_def emptySessions_def emptyRegistry_def lock_simps actorOk_def
      activeOn_def)

lemma registry_only:
  assumes "sessionInv w" "sameMutations (swRegistry w) reg"
  shows "sessionInv (w\<lparr>swRegistry := reg\<rparr>)"
proof -
  have "registryInv (w\<lparr>swRegistry := reg\<rparr>)"
    by (rule registryInv_frame [OF sessionInvD(2) [OF assms(1)]])
      (use assms(2) in \<open>simp_all add: sameMutations_def sameActor_def\<close>)
  then show ?thesis using assms(1) by (simp add: sessionInv_def lockInv_def)
qed

lemma registry_only': "sessionInv w \<Longrightarrow> sameMutations (swRegistry w) (f (swRegistry w)) \<Longrightarrow> sessionInv (onRegistry f w)"
  using registry_only [of w "f (swRegistry w)"] by (simp add: onRegistry_def)

lemma call_actor_inv:
  assumes inv: "sessionInv w" and A: "acPhase A = Starting" "sorted_wrt (<) (acIdentities A)"
  shows "sessionInv (w\<lparr>swActors := (swActors w)(swCount w := A), swCount := Suc (swCount w)\<rparr>)"
    (is "sessionInv ?w")
proof -
  obtain r where r: "acPhase (swActors w (swCount w)) = Finished r" using inv by (auto simp: sessionInv_def)
  have "distinct (acIdentities A)" using A(2) by (simp add: strict_sorted_iff)
  then have "lockInv ?w"
    using sessionInvD(1) [OF inv] r A(1) unfolding lockInv_def by (auto simp: lock_simps)
  moreover have "registryInv ?w"
    by (rule registryInv_frame [OF sessionInvD(2) [OF inv]]) (use r A(1) in \<open>auto simp: sameActor_def split: if_splits\<close>)
  ultimately show ?thesis using sessionInvD(3-5) [OF inv] A by (auto simp: sessionInv_def actorOk_def)
qed

lemma sessionInv_cong:
  assumes "swActors w' = swActors w" "swLanes w' = swLanes w" "swRegistry w' = swRegistry w" "swCount w' = swCount w"
  shows "sessionInv w' \<longleftrightarrow> sessionInv w"
  unfolding sessionInv_def lockInv_def registryInv_def activeOn_def assms ..

lemma session_step_inv: "session_step w w' \<Longrightarrow> sessionInv w \<Longrightarrow> sessionInv w'"
proof (induction rule: session_step.induct)
  case (actor a w w')
  note inv = sessionInvD [OF actor(3)]
  have fr: "actorOk (swActors w' a)" "sameActor (swActors w a) (swActors w' a)" "swCount w' = swCount w"
    "\<And>b. b \<noteq> a \<Longrightarrow> swActors w' b = swActors w b"
    using actor_step_frame [OF actor(2) inv(3)] by blast+
  have "sorted_wrt (<) (acIdentities (swActors w' b))" "actorOk (swActors w' b)" for b
    using inv(3) [of b] inv(4) [of b] fr by (cases "b = a"; simp add: sameActor_def)+
  moreover have "\<exists>r. acPhase (swActors w' b) = Finished r" if "swCount w' \<le> b" for b
    using inv(5) [of b] actor(1) fr(3) fr(4) [of b] that by (cases "b = a") auto
  ultimately show ?case
    using actor_step_lock [OF actor(2) inv(3,1)] actor_step_registry [OF actor(2) inv(3,1,2)]
    unfolding sessionInv_def by blast
next
  case (call scope identities ids m rootId w kind sig interrupt)
  then show ?case by (intro call_actor_inv) (simp_all add: normalize_sorted)
next
  case (aborts w sig)
  then show ?case by (subst sessionInv_cong [of _ w]) simp_all
next
  case (gateway w g)
  then show ?case by (subst sessionInv_cong [of _ w]) simp_all
qed (simp_all add: registry_only registry_only' releaseAdmission_same createHandoff_same consumeHandoff_same
    cancelHandoff_same interrupt_same)

lemma sessionInv_reachable: "session_step\<^sup>*\<^sup>* (emptySessions g) w \<Longrightarrow> sessionInv w"
  by (induction rule: rtranclp_induct) (simp_all add: initial_inv session_step_inv)

text \<open>The locks of sessions keep the contract of lanes.\<close>

lemma session_moves:
  "session_step w w' \<Longrightarrow> sessionInv w \<Longrightarrow> lane_moves (swLanes w l) (swLanes w' l)"
proof (induction rule: session_step.induct)
  case (actor a w w')
  show ?case by (rule actor_step_moves [OF actor(2) sessionInvD(3,1) [OF actor(3)]])
qed auto

interpretation session_lanes: fifo_lanes sessionInv session_step "\<lambda>l w. swLanes w l"
  by unfold_locales (auto intro: session_step_inv session_moves)

section \<open>Exclusion\<close>

text \<open>
  C4. Whatever is called, aborted, released and interrupted in whatever order: two active mutations
  never share an identity, and while a mutation is active no admission that shares an identity with
  it is between its check and the end of its section; nor are two such admissions there together.
\<close>

theorem mutations_and_admissions_exclude:
  assumes "session_step\<^sup>*\<^sup>* (emptySessions g) w" "a \<noteq> b"
    "i \<in> set (acIdentities (swActors w a))" "i \<in> set (acIdentities (swActors w b))"
  shows "\<not> (activePhase (acPhase (swActors w a)) \<and> activePhase (acPhase (swActors w b))) \<and>
    \<not> (admittedPhase (acPhase (swActors w a)) \<and> activePhase (acPhase (swActors w b))) \<and>
    \<not> (admittedPhase (acPhase (swActors w a)) \<and> admittedPhase (acPhase (swActors w b)))"
proof -
  note inv = sessionInvD [OF sessionInv_reachable [OF assms(1)]]
  show ?thesis
    using active_once [OF inv(1), of i a b] held_once [OF inv(1), of "SessionLock LifecycleLane i" a b]
      admitted_holds [of _ i] registryInvD(1) [OF inv(2), of i] registryInvD(6) [OF inv(2), of a i] assms(2-4)
    unfolding activeOn_def by (metis option.distinct(1))
qed

theorem mutations_and_admissions_exclude_witness:
  "\<not> admittedPhase (acPhase (swActors sampleBoth 1)) \<and> activePhase (acPhase (swActors sampleBoth 0))"
proof -
  have "sampleKey \<in> set (acIdentities (swActors sampleBoth 1))" "sampleKey \<in> set (acIdentities (swActors sampleBoth 0))"
    "activePhase (acPhase (swActors sampleBoth 0))"
    by (simp_all add: sampleBoth_def sampleActive_actor sampleActor_def)
  with mutations_and_admissions_exclude [OF sampleBoth_reachable, of 1 0 sampleKey] show ?thesis by simp
qed

section \<open>Queries\<close>

lemma only_kind: "onlyKindLoop found ids k s \<longleftrightarrow>
    (found \<or> list_ex (\<lambda>i. 0 < mutationCount i s) ids) \<and>
    list_all (\<lambda>i. 0 < mutationCount i s \<longrightarrow> kindCount i k s = mutationCount i s) ids"
  by (induction ids arbitrary: found) (auto simp: Let_def)

lemma jm_get_all_None: "(\<And>i. jm_get m i = None) \<Longrightarrow> m = []"
  by (cases m) (auto split: if_splits, metis option.distinct(1))

text \<open>
  C27. The queries answer what the actors do: identities have an active mutation exactly when an
  active actor has one of them; only compactions are active exactly when all these actors are
  compactions, and there is one; and the count of active mutations is their number.
\<close>

theorem mutation_queries_are_exact:
  assumes "session_step\<^sup>*\<^sup>* (emptySessions g) w" "normalizeSessionIdentities scope identities = Some ids"
  shows "isSessionLifecycleMutationActive scope identities (swRegistry w) = Some (\<exists>i \<in> set ids. \<exists>a. activeOn w i a) \<and>
    hasOnlySessionLifecycleMutationKindActive scope identities Compaction (swRegistry w) =
      Some ((\<exists>i \<in> set ids. \<exists>a. activeOn w i a) \<and>
            (\<forall>i \<in> set ids. \<forall>a. activeOn w i a \<longrightarrow> acKind (swActors w a) = Some Compaction)) \<and>
    getActiveSessionLifecycleMutationCount (swRegistry w) = card {a. activePhase (acPhase (swActors w a))}"
proof -
  note inv = sessionInvD [OF sessionInv_reachable [OF assms(1)]]
  have count: "mutationCount i (swRegistry w) = (if \<exists>a. activeOn w i a then 1 else 0)" for i
    by (simp add: mutationCount_def registryInvD(1) [OF inv(2)])
  have kind: "kindCount i Compaction (swRegistry w) =
      (if \<exists>a. activeOn w i a \<and> acKind (swActors w a) = Some Compaction then 1 else 0)" for i
    by (simp add: kindCount_def registryInvD(2) [OF inv(2)])
  have all: "(\<exists>a. activeOn w i a \<and> acKind (swActors w a) = Some Compaction) \<longleftrightarrow>
      (\<forall>a. activeOn w i a \<longrightarrow> acKind (swActors w a) = Some Compaction)" if "activeOn w i a" for i a
    using that active_once [OF inv(1)] by blast
  have "isSessionLifecycleMutationActive scope identities (swRegistry w) = Some (\<exists>i \<in> set ids. \<exists>a. activeOn w i a)"
    by (auto simp: isSessionLifecycleMutationActive_def assms(2) hasActiveSessionLifecycleMutation_def count list_ex_iff)
  moreover have "hasOnlySessionLifecycleMutationKindActive scope identities Compaction (swRegistry w) =
      Some ((\<exists>i \<in> set ids. \<exists>a. activeOn w i a) \<and>
            (\<forall>i \<in> set ids. \<forall>a. activeOn w i a \<longrightarrow> acKind (swActors w a) = Some Compaction))"
    using all unfolding hasOnlySessionLifecycleMutationKindActive_def assms(2)
      hasOnlyActiveSessionLifecycleMutationKind_def only_kind count kind list_ex_iff list_all_iff
    by (simp split: if_splits) blast
  moreover have "getActiveSessionLifecycleMutationCount (swRegistry w) = card {a. activePhase (acPhase (swActors w a))}"
  proof (cases "srActiveMutationRuns (swRegistry w) = []")
    case True
    then have none: "{a. activePhase (acPhase (swActors w a))} = {}" using registryInvD(4) [OF inv(2)] by simp
    then have "jm_get (srActiveMutations (swRegistry w)) i = None" for i
      using registryInvD(1) [OF inv(2), of i] by (auto simp: activeOn_def)
    then have "srActiveMutations (swRegistry w) = []" by (rule jm_get_all_None)
    then show ?thesis using True none by (simp add: getActiveSessionLifecycleMutationCount_def)
  next
    case False
    then show ?thesis
      using registryInvD(3,4) [OF inv(2)] distinct_card by (fastforce simp: getActiveSessionLifecycleMutationCount_def)
  qed
  ultimately show ?thesis by blast
qed

theorem mutation_queries_are_exact_witness:
  "isSessionLifecycleMutationActive ''s'' [Some ''x''] (swRegistry sampleActive) = Some True"
proof -
  have "activeOn sampleActive sampleKey 0" by (simp add: activeOn_def sampleActive_actor sampleActor_def)
  with mutation_queries_are_exact [OF sampleActive_reachable sampleKey] show ?thesis by auto
qed

end
