(* ===== verification/SessionProgress.thy ===== *)
theory SessionProgress
  imports SessionProofs SessionSamples
begin

text \<open>No deadlock: whoever waits, for a lock or for an idle identity, waits for an actor that can go on.\<close>

text \<open>
  \<open>waitsFor w a b\<close>: \<open>a\<close> is in a lane that \<open>b\<close> heads, or it waits until an identity is idle on which
  \<open>b\<close> has an active mutation.
\<close>

definition waitsFor :: "session_world \<Rightarrow> nat \<Rightarrow> nat \<Rightarrow> bool" where
  "waitsFor w a b \<longleftrightarrow>
     (case acPhase (swActors w a) of
        Locking job k \<Rightarrow> b \<noteq> a \<and> headOf b (swLanes w (jobLocks (acIdentities (swActors w a)) job ! k))
      | IdleWait t ids \<Rightarrow>
          (\<exists>i \<in> set ids. t \<in> set (nullish (jm_get (srIdleWaiters (swRegistry w)) i) []) \<and> activeOn w i b)
      | _ \<Rightarrow> False)"

definition canStep :: "session_world \<Rightarrow> nat \<Rightarrow> bool" where
  "canStep w a \<longleftrightarrow> (\<exists>w'. actor_step a w w')"

definition waitedLock :: "session_world \<Rightarrow> nat \<Rightarrow> session_lock option" where
  "waitedLock w a =
     (case acPhase (swActors w a) of
        Locking job k \<Rightarrow> Some (jobLocks (acIdentities (swActors w a)) job ! k) | _ \<Rightarrow> None)"

lemma waitedLock_Some:
  "waitedLock w a = Some l \<longleftrightarrow> (\<exists>job k. acPhase (swActors w a) = Locking job k \<and>
     l = jobLocks (acIdentities (swActors w a)) job ! k)"
  by (auto simp: waitedLock_def split: session_phase.splits)

lemma locked_lane:
  assumes "sessionInv w" "acPhase (swActors w a) = Locking job k"
  shows "a \<in> set (swLanes w (jobLocks (acIdentities (swActors w a)) job ! k))"
proof -
  have "k < length (acIdentities (swActors w a))"
    using sessionInvD(3) [OF assms(1), of a] assms(2) by (simp add: actorOk_def)
  then have "jobLocks (acIdentities (swActors w a)) job ! k \<in> set (actorLocks (swActors w a))"
    using assms(2) by (simp add: lock_simps take_Suc_conv_app_nth)
  then show ?thesis using lockInvD(2) [OF sessionInvD(1) [OF assms(1)]] by simp
qed

text \<open>An actor that is not done goes on or waits for another one.\<close>

lemma step_or_wait:
  assumes inv: "sessionInv w" and busy: "\<And>r. acPhase (swActors w a) \<noteq> Finished r"
  shows "canStep w a \<or> (\<exists>b. waitsFor w a b)"
proof (cases "acPhase (swActors w a)")
  case (Locking job k)
  then obtain h rest where lane: "swLanes w (jobLocks (acIdentities (swActors w a)) job ! k) = h # rest"
    using locked_lane [OF inv Locking] by (cases "swLanes w (jobLocks (acIdentities (swActors w a)) job ! k)") auto
  show ?thesis
  proof (cases "h = a")
    case True
    then show ?thesis using actor_step.locked [OF Locking] lane by (auto simp: canStep_def)
  next
    case False
    then have "waitsFor w a h" using Locking lane by (simp add: waitsFor_def headOf_def)
    then show ?thesis by blast
  qed
next
  case (IdleWait t ids)
  show ?thesis
  proof (cases "waitsIdle t ids (swRegistry w)")
    case True
    then obtain i where i: "i \<in> set ids" "t \<in> set (nullish (jm_get (srIdleWaiters (swRegistry w)) i) [])"
      by (auto simp: waitsIdle_def list_ex_iff)
    then have "jm_get (srIdleWaiters (swRegistry w)) i \<noteq> None"
      by (cases "jm_get (srIdleWaiters (swRegistry w)) i") simp_all
    then obtain b where "activeOn w i b"
      using registryInvD(5,1) [OF sessionInvD(2) [OF inv], of i] by (auto split: if_splits)
    with i IdleWait show ?thesis by (auto simp: waitsFor_def)
  qed (use actor_step.woken [OF IdleWait] in \<open>auto simp: canStep_def\<close>)
next
  case (Inside job)
  then show ?thesis
    using actor_step.enter [OF Inside] actor_step.run_ends [of w a ResultOk] by (cases "job = JobRun") (auto simp: canStep_def)
next
  case (Unlocking job r k)
  then show ?thesis
    using actor_step.unlocks [of w a job r] actor_step.ended [of w a job r] by (cases k) (auto simp: canStep_def)
next
  case Preparing
  then show ?thesis using actor_step.prepared [OF Preparing, where threw = True] unfolding canStep_def by blast
qed (use busy actor_step.start actor_step.asserted [where threw = True] actor_step.barrier [where threw = True] in
    \<open>unfold canStep_def; blast\<close>)+

text \<open>The locks an actor holds come before the one it waits for.\<close>

lemma held_below:
  assumes "sorted_wrt (<) ids" "k < length ids" "l \<in> set (outerLocks ids job @ take k (jobLocks ids job))"
  shows "l < jobLocks ids job ! k"
proof -
  have k: "jobLocks ids job ! k = SessionLock (if job = JobMutate then MutationLane else LifecycleLane) (ids ! k)"
    using assms(2) by (simp add: jobLocks_def)
  from assms(3) consider "l \<in> set (outerLocks ids job)" | "l \<in> set (take k (jobLocks ids job))" by auto
  then show ?thesis
  proof cases
    case 1
    then have "job \<noteq> JobMutate" "\<exists>i. l = SessionLock MutationLane i"
      by (auto simp: outerLocks_def jobLocks_def split: if_splits)
    then show ?thesis by (auto simp: k less_session_lock_def)
  next
    case 2
    then obtain j where j: "j < k" "l = jobLocks ids job ! j" by (auto simp: in_set_conv_nth)
    then have "ids ! j < ids ! k" using assms(1,2) sorted_wrt_nth_less by blast
    then show ?thesis using j assms(2) by (simp add: k less_session_lock_def jobLocks_def less_le_not_le)
  qed
qed

text \<open>The head of a lane goes on, or waits for a lock that comes later.\<close>

lemma head_waits_later:
  assumes inv: "sessionInv w" and a: "waitedLock w a = Some l" "waitsFor w a h" and stuck: "\<not> canStep w h"
  shows "\<exists>l'. waitedLock w h = Some l' \<and> l < l'"
proof -
  have head: "headOf h (swLanes w l)" using a by (auto simp: waitedLock_Some waitsFor_def)
  then have "h \<in> set (swLanes w l)" by (auto simp: headOf_def)
  then have locks: "l \<in> set (actorLocks (swActors w h))" using lockInvD(2) [OF sessionInvD(1) [OF inv]] by simp
  then have busy: "acPhase (swActors w h) \<noteq> Finished r" for r by (auto simp: lock_simps)
  then obtain b where b: "waitsFor w h b" using step_or_wait [OF inv] stuck by blast
  show ?thesis
  proof (cases "acPhase (swActors w h)")
    case (Locking job k)
    define ids where "ids = acIdentities (swActors w h)"
    have k: "k < length ids" using sessionInvD(3) [OF inv, of h] Locking by (simp add: actorOk_def ids_def)
    have "l \<noteq> jobLocks ids job ! k"
      using head stuck actor_step.locked [OF Locking] by (auto simp: headOf_def canStep_def ids_def)
    then have "l \<in> set (outerLocks ids job @ take k (jobLocks ids job))"
      using locks Locking k by (auto simp: lock_simps ids_def take_Suc_conv_app_nth)
    from held_below [OF sessionInvD(4) [OF inv, of h, folded ids_def] k this] show ?thesis
      using Locking by (auto simp: waitedLock_Some ids_def)
  qed (use b locks in \<open>auto simp: waitsFor_def lock_simps\<close>)
qed

lemma lock_chain:
  assumes inv: "sessionInv w"
  shows "waitedLock w a = Some l \<Longrightarrow> \<exists>b. (waitsFor w)\<^sup>*\<^sup>* a b \<and> canStep w b"
proof -
  define W where "W = {l. \<exists>a < swCount w. waitedLock w a = Some l}"
  have fin: "finite W"
  proof (rule finite_subset)
    show "W \<subseteq> (\<lambda>a. the (waitedLock w a)) ` {..<swCount w}" by (force simp: W_def)
  qed simp
  show "waitedLock w a = Some l \<Longrightarrow> ?thesis"
  proof (induction "card {l' \<in> W. l < l'}" arbitrary: a l rule: less_induct)
    case less
    then have busy: "acPhase (swActors w a) \<noteq> Finished r" for r by (auto simp: waitedLock_Some)
    show ?case
    proof (cases "canStep w a")
      case False
      then obtain h where h: "waitsFor w a h" using step_or_wait [OF inv busy] by blast
      show ?thesis
      proof (cases "canStep w h")
        case False
        then obtain l' where l': "waitedLock w h = Some l'" "l < l'"
          using head_waits_later [OF inv less(2) h] by blast
        then have "\<exists>r. acPhase (swActors w h) = Finished r \<Longrightarrow> False" by (auto simp: waitedLock_Some)
        then have "l' \<in> W" using sessionInvD(5) [OF inv, of h] l'(1) by (fastforce simp: W_def not_le [symmetric])
        then have "{m \<in> W. l' < m} \<subset> {m \<in> W. l < m}" using l'(2) by (auto dest: less_trans)
        then have "card {m \<in> W. l' < m} < card {m \<in> W. l < m}" using fin by (intro psubset_card_mono) auto
        from less(1) [OF this l'(1)] h show ?thesis by (meson converse_rtranclp_into_rtranclp)
      qed (use h in blast)
    qed blast
  qed
qed

text \<open>
  C8. There is no deadlock among sessions: in every reachable state every call that is not done can
  go on or waits, perhaps through others, for one that can.
\<close>

theorem sessions_never_deadlock:
  assumes "session_step\<^sup>*\<^sup>* (emptySessions g) w" "\<And>r. acPhase (swActors w a) \<noteq> Finished r"
  shows "\<exists>b. (waitsFor w)\<^sup>*\<^sup>* a b \<and> canStep w b"
proof -
  have inv: "sessionInv w" using assms(1) by (rule sessionInv_reachable)
  show ?thesis
  proof (cases "canStep w a")
    case False
    then obtain b where b: "waitsFor w a b" using step_or_wait [OF inv assms(2)] by blast
    show ?thesis
    proof (cases "waitedLock w a")
      case None
      with b obtain i where "activeOn w i b"
        by (auto simp: waitsFor_def waitedLock_def split: session_phase.splits)
      then have act: "activePhase (acPhase (swActors w b))" by (simp add: activeOn_def)
      then have "acPhase (swActors w b) \<noteq> Finished r" for r by auto
      from step_or_wait [OF inv this] show ?thesis
      proof
        assume "\<exists>c. waitsFor w b c"
        then obtain l where "waitedLock w b = Some l"
          using act by (cases "acPhase (swActors w b)") (auto simp: waitsFor_def waitedLock_def)
        from lock_chain [OF inv this] b show ?thesis by (meson converse_rtranclp_into_rtranclp)
      qed (use b in blast)
    qed (rule lock_chain [OF inv])
  qed blast
qed

theorem sessions_never_deadlock_witness:
  "\<exists>b. (waitsFor sampleActive)\<^sup>*\<^sup>* 0 b \<and> canStep sampleActive b"
  by (rule sessions_never_deadlock [OF sampleActive_reachable]) (simp add: sampleActive_actor)

end
