(* ===== verification/SessionAdmissions.thy ===== *)
theory SessionAdmissions
  imports SessionProofs SessionSamples
begin

text \<open>
  The index of admissions holds just those that are not released, and a handoff leads to an
  unreleased admission, once.
\<close>

section \<open>The index\<close>

definition activeAt :: "string \<Rightarrow> session_registry \<Rightarrow> nat list" where
  "activeAt i s = nullish (jm_get (srActiveAdmissions s) i) []"

definition indexInv :: "session_registry \<Rightarrow> bool" where
  "indexInv s \<longleftrightarrow>
     (\<forall>i a. a \<in> set (activeAt i s) \<longleftrightarrow>
        a < srNextAdmission s \<and> \<not> saReleased (srAdmissions s a) \<and> i \<in> set (saIdentities (srAdmissions s a))) \<and>
     jm_ok (srActiveAdmissions s) \<and>
     (\<forall>h a. jm_get (srHandoffs s) h = Some a \<longrightarrow>
        a < srNextAdmission s \<and> \<not> saReleased (srAdmissions s a) \<and> h \<in> set (saHandoffIds (srAdmissions s a)))"

lemma indexInvD:
  assumes "indexInv s"
  shows "a \<in> set (activeAt i s) \<longleftrightarrow>
      a < srNextAdmission s \<and> \<not> saReleased (srAdmissions s a) \<and> i \<in> set (saIdentities (srAdmissions s a))"
    and "jm_ok (srActiveAdmissions s)"
    and "jm_get (srHandoffs s) h = Some a \<Longrightarrow>
      a < srNextAdmission s \<and> \<not> saReleased (srAdmissions s a) \<and> h \<in> set (saHandoffIds (srAdmissions s a))"
  using assms unfolding indexInv_def by blast+

text \<open>The handoff ids and interrupts of admissions may change, and handoffs may go.\<close>

lemma indexInv_frame:
  assumes "indexInv s" "srActiveAdmissions t = srActiveAdmissions s" "srNextAdmission t = srNextAdmission s"
    "\<And>a. saReleased (srAdmissions t a) = saReleased (srAdmissions s a) \<and> saIdentities (srAdmissions t a) = saIdentities (srAdmissions s a)"
    "\<And>h a. jm_get (srHandoffs t) h = Some a \<Longrightarrow> a < srNextAdmission s \<and> \<not> saReleased (srAdmissions s a) \<and>
      h \<in> set (saHandoffIds (srAdmissions t a))"
  shows "indexInv t"
  using indexInvD(1,2) [OF assms(1)] assms(2-5) by (simp add: indexInv_def activeAt_def)

lemma indexAdmission_fold:
  "activeAt j (fold (indexAdmission a) ids s) = (if j \<in> set ids then set_add a (activeAt j s) else activeAt j s)"
  "jm_ok (srActiveAdmissions (fold (indexAdmission a) ids s)) = jm_ok (srActiveAdmissions s)"
  "srAdmissions (fold (indexAdmission a) ids s) = srAdmissions s" "srHandoffs (fold (indexAdmission a) ids s) = srHandoffs s"
  "srNextAdmission (fold (indexAdmission a) ids s) = srNextAdmission s"
  if "jm_ok (srActiveAdmissions s)"
  using that
proof (induction ids arbitrary: s)
  case (Cons i ids)
  {
    case 1 then show ?case using Cons.IH(1) [of "indexAdmission a i s"]
      by (auto simp: indexAdmission_def activeAt_def jm.get_put jm.ok_put set_add_def)
  next
    case 2 then show ?case using Cons.IH(2) [of "indexAdmission a i s"] by (simp add: indexAdmission_def jm.ok_put)
  next
    case 3 then show ?case using Cons.IH(3) [of "indexAdmission a i s"] by (simp add: indexAdmission_def jm.ok_put)
  next
    case 4 then show ?case using Cons.IH(4) [of "indexAdmission a i s"] by (simp add: indexAdmission_def jm.ok_put)
  next
    case 5 then show ?case using Cons.IH(5) [of "indexAdmission a i s"] by (simp add: indexAdmission_def jm.ok_put)
  }
qed simp_all

lemma unindexAdmission_fold:
  "activeAt j (fold (unindexAdmission a) ids s) = (if j \<in> set ids then removeAll a (activeAt j s) else activeAt j s)"
  "jm_ok (srActiveAdmissions (fold (unindexAdmission a) ids s))"
  "srAdmissions (fold (unindexAdmission a) ids s) = srAdmissions s" "srHandoffs (fold (unindexAdmission a) ids s) = srHandoffs s"
  "srNextAdmission (fold (unindexAdmission a) ids s) = srNextAdmission s"
  if "jm_ok (srActiveAdmissions s)"
  using that
proof (induction ids arbitrary: s)
  case (Cons i ids)
  have ok: "jm_ok (srActiveAdmissions (unindexAdmission a i s))" if "jm_ok (srActiveAdmissions s)" for s
    using that by (simp add: unindexAdmission_def Let_def jm.ok_put jm.ok_del)
  {
    case 1 then show ?case using Cons.IH(1) [OF ok]
      by (auto simp: unindexAdmission_def activeAt_def jm.get_put jm.get_del Let_def)
  next
    case 2 then show ?case using Cons.IH(2) [OF ok] by simp
  next
    case 3 then show ?case using Cons.IH(3) [OF ok] by (simp add: unindexAdmission_def Let_def)
  next
    case 4 then show ?case using Cons.IH(4) [OF ok] by (simp add: unindexAdmission_def Let_def)
  next
    case 5 then show ?case using Cons.IH(5) [OF ok] by (simp add: unindexAdmission_def Let_def)
  }
qed simp_all

lemma register_index:
  assumes inv: "indexInv s"
  shows "indexInv (snd (registerAdmission ids f s))"
proof -
  define a where "a = srNextAdmission s"
  define s1 where "s1 = s\<lparr>srAdmissions := (srAdmissions s)(a := \<lparr>saHandoffIds = [], saIdentities = ids,
      saInterrupt = f, saInterrupted = False, saReleased = False\<rparr>), srNextAdmission := Suc a\<rparr>"
  have ok: "jm_ok (srActiveAdmissions s1)" using indexInvD(2) [OF inv] by (simp add: s1_def)
  have reg: "snd (registerAdmission ids f s) = fold (indexAdmission a) ids s1"
    by (simp add: registerAdmission_def Let_def a_def s1_def)
  have at: "activeAt j s1 = activeAt j s" for j by (simp add: activeAt_def s1_def)
  have hand: "jm_get (srHandoffs s) h = Some b \<Longrightarrow> b < a \<and> \<not> saReleased (srAdmissions s b) \<and> h \<in> set (saHandoffIds (srAdmissions s b))" for h b
    using indexInvD(3) [OF inv, of h b] by (simp add: a_def)
  show ?thesis
    unfolding reg indexInv_def
  proof (intro conjI allI impI)
    fix j b
    show "b \<in> set (activeAt j (fold (indexAdmission a) ids s1)) \<longleftrightarrow> b < srNextAdmission (fold (indexAdmission a) ids s1) \<and>
      \<not> saReleased (srAdmissions (fold (indexAdmission a) ids s1) b) \<and> j \<in> set (saIdentities (srAdmissions (fold (indexAdmission a) ids s1) b))"
      using indexInvD(1) [OF inv, of b j] indexInvD(1) [OF inv, of a j]
      by (auto simp: indexAdmission_fold [OF ok] at) (auto simp: s1_def a_def less_Suc_eq split: if_splits)
  next
    show "jm_ok (srActiveAdmissions (fold (indexAdmission a) ids s1))" using ok by (simp add: indexAdmission_fold)
  next
    fix h b assume "jm_get (srHandoffs (fold (indexAdmission a) ids s1)) h = Some b"
    then have "jm_get (srHandoffs s) h = Some b" unfolding indexAdmission_fold(4) [OF ok] by (simp add: s1_def)
    from hand [OF this] show "b < srNextAdmission (fold (indexAdmission a) ids s1)"
      "\<not> saReleased (srAdmissions (fold (indexAdmission a) ids s1) b)"
      "h \<in> set (saHandoffIds (srAdmissions (fold (indexAdmission a) ids s1) b))"
      unfolding indexAdmission_fold [OF ok] by (auto simp: s1_def)
  qed
qed

lemma fold_delete: "jm_get (fold jm_delete ks m) h = (if h \<in> set ks then None else jm_get m h)"
  by (induction ks arbitrary: m) (auto simp: jm.get_del)

lemma release_index:
  assumes inv: "indexInv s"
  shows "indexInv (releaseAdmission a s)"
proof (cases "saReleased (srAdmissions s a)")
  case False
  define s1 where "s1 = setAdmission a (\<lambda>A. A\<lparr>saReleased := True\<rparr>) s"
  define ids where "ids = saIdentities (srAdmissions s a)"
  define t where "t = fold (unindexAdmission a) ids s1"
  have ok: "jm_ok (srActiveAdmissions s1)" using indexInvD(2) [OF inv] by (simp add: s1_def)
  note un = unindexAdmission_fold [where a = a and ids = ids, OF ok, folded t_def]
  have rel: "releaseAdmission a s = clearSessionWorkAdmissionHandoffs a t"
    using False by (simp add: releaseAdmission_def t_def s1_def ids_def)
  have at: "activeAt j (releaseAdmission a s) = (if j \<in> set ids then removeAll a (activeAt j s) else activeAt j s)" for j
    using un(1) by (simp add: rel clearSessionWorkAdmissionHandoffs_def activeAt_def s1_def)
  have sel: "srActiveAdmissions (releaseAdmission a s) = srActiveAdmissions t"
    "srNextAdmission (releaseAdmission a s) = srNextAdmission s"
    "srAdmissions (releaseAdmission a s) = (srAdmissions s)(a := (srAdmissions s a)\<lparr>saReleased := True, saHandoffIds := []\<rparr>)"
    "srHandoffs (releaseAdmission a s) = fold jm_delete (saHandoffIds (srAdmissions s a)) (srHandoffs s)"
    using un(3-5) by (simp_all add: rel clearSessionWorkAdmissionHandoffs_def s1_def)
  show ?thesis
    unfolding indexInv_def
  proof (intro conjI allI impI)
    fix j b
    show "b \<in> set (activeAt j (releaseAdmission a s)) \<longleftrightarrow> b < srNextAdmission (releaseAdmission a s) \<and>
      \<not> saReleased (srAdmissions (releaseAdmission a s) b) \<and> j \<in> set (saIdentities (srAdmissions (releaseAdmission a s) b))"
      using indexInvD(1) [OF inv, of b j] by (auto simp: at sel ids_def)
  next
    show "jm_ok (srActiveAdmissions (releaseAdmission a s))" using un(2) by (simp add: sel)
  next
    fix h b assume "jm_get (srHandoffs (releaseAdmission a s)) h = Some b"
    then have "h \<notin> set (saHandoffIds (srAdmissions s a))" "jm_get (srHandoffs s) h = Some b"
      by (auto simp: sel fold_delete split: if_splits)
    with indexInvD(3) [OF inv this(2)] show "b < srNextAdmission (releaseAdmission a s)"
      "\<not> saReleased (srAdmissions (releaseAdmission a s) b)"
      "h \<in> set (saHandoffIds (srAdmissions (releaseAdmission a s) b))" by (auto simp: sel)
  qed
qed (use inv in \<open>simp add: releaseAdmission_def\<close>)

lemma dropHandoff_index: "indexInv s \<Longrightarrow> indexInv (dropHandoff h a s)"
  by (rule indexInv_frame [of s]) (auto simp: dropHandoff_def jm.get_del dest: indexInvD(3) split: if_splits)

lemma create_index:
  assumes "indexInv s" "a < srNextAdmission s" "createHandoff a h s = Some (h', t)"
  shows "indexInv t"
  using assms(2,3)
  by (intro indexInv_frame [OF assms(1)])
    (auto simp: createHandoff_def jm.get_put set_add_def dest: indexInvD(3) [OF assms(1)] split: if_splits)

lemma interruptOne_index: "indexInv s \<Longrightarrow> indexInv (interruptOne a s)"
  by (rule indexInv_frame [of s]) (auto simp: interruptOne_def Let_def dest: indexInvD(3) split: option.split)

lemma consume_index: "indexInv s \<Longrightarrow> indexInv (snd (consumeSessionWorkAdmissionHandoff h scope ids f s))"
proof -
  assume inv: "indexInv s"
  have set_f: "indexInv (setAdmission a (\<lambda>A. A\<lparr>saInterrupt := g\<rparr>) (dropHandoff h a s))" for h a g
    by (rule indexInv_frame [OF dropHandoff_index [OF inv, of h a]])
      (auto dest: indexInvD(3) [OF dropHandoff_index [OF inv]])
  have "indexInv (t\<lparr>srInterruptCalls := cs\<rparr>)" if "indexInv t" for t cs
    using that by (simp add: indexInv_def activeAt_def)
  with set_f inv show ?thesis
    by (simp add: consumeSessionWorkAdmissionHandoff_def Let_def split: option.split)
qed

lemma cancel_index: "indexInv s \<Longrightarrow> indexInv (snd (cancelSessionWorkAdmissionHandoff h s))"
  by (simp add: cancelSessionWorkAdmissionHandoff_def Let_def release_index dropHandoff_index split: option.split)

lemma interrupt_index:
  "indexInv s \<Longrightarrow> interruptSessionWorkAdmissions current scope ids s = Some (adms, t) \<Longrightarrow> indexInv t"
proof -
  have "indexInv s \<Longrightarrow> indexInv (fold interruptOne xs s)" for xs and s
    by (induction xs arbitrary: s) (simp_all add: interruptOne_index)
  then show "indexInv s \<Longrightarrow> interruptSessionWorkAdmissions current scope ids s = Some (adms, t) \<Longrightarrow> indexInv t"
    by (auto simp: interruptSessionWorkAdmissions_def Let_def split: option.splits)
qed

definition sameAdmissions :: "session_registry \<Rightarrow> session_registry \<Rightarrow> bool" where
  "sameAdmissions s t \<longleftrightarrow> srActiveAdmissions t = srActiveAdmissions s \<and> srAdmissions t = srAdmissions s \<and>
     srHandoffs t = srHandoffs s \<and> srNextAdmission t = srNextAdmission s"

lemma sameAdmissions_index: "sameAdmissions s t \<Longrightarrow> indexInv s \<Longrightarrow> indexInv t"
  by (simp add: sameAdmissions_def indexInv_def activeAt_def)

lemma waitIdle_admissions: "sameAdmissions s (waitIdleBegin t ids s)"
proof -
  have "sameAdmissions s (fold (addIdleWaiter t) xs s)" for xs
    by (induction xs arbitrary: s) (simp_all add: sameAdmissions_def addIdleWaiter_def)
  then show ?thesis by (simp add: waitIdleBegin_def)
qed

lemma activate_admissions: "distinct ids \<Longrightarrow> sameAdmissions s (activateMutation run ids kind s)"
  by (simp add: sameAdmissions_def activateMutation_def activate_fold)

lemma finish_admissions: "distinct ids \<Longrightarrow> sameAdmissions s (finishMutation run ids kind s)"
  by (simp add: sameAdmissions_def finishMutation_def finish_fold)

lemma waitForIdle_index: "indexInv (swRegistry w) \<Longrightarrow> indexInv (swRegistry (waitForIdle a w))"
  by (simp add: waitForIdle_def Let_def sameAdmissions_index [OF waitIdle_admissions])

lemma actor_step_index:
  assumes "actor_step a w w'" "lockInv w" "indexInv (swRegistry w)"
  shows "indexInv (swRegistry w')"
  using assms(1)
proof cases
  case start
  then show ?thesis using assms(3) by (simp add: startActor_def Let_def waitForIdle_index)
next
  case (enter job)
  then show ?thesis using assms(3) lockInvD(4) [OF assms(2), of a]
    by (cases job) (simp_all add: enterJob_def Let_def sameAdmissions_index [OF activate_admissions]
        sameAdmissions_index [OF finish_admissions])
next
  case (asserted threw)
  then show ?thesis using assms(3) by (simp add: afterAssert_def Let_def split_def register_index)
next
  case (barrier adm threw)
  then show ?thesis using assms(3) by (simp add: afterBarrier_def release_index)
next
  case (ended job r)
  then show ?thesis using assms(3) by (cases job) (simp_all add: afterJob_def waitForIdle_index)
qed (use assms(3) in simp_all)

lemma session_step_index: "session_step w w' \<Longrightarrow> sessionInv w \<Longrightarrow> indexInv (swRegistry w) \<Longrightarrow> indexInv (swRegistry w')"
proof (induction rule: session_step.induct)
  case (actor a w w')
  show ?case by (rule actor_step_index [OF actor(2) sessionInvD(1) [OF actor(3)] actor(4)])
next
  case (hands_off adm w handoffId h reg)
  then show ?case using create_index by simp
next
  case (interrupts current scope identities w adms reg)
  then show ?case using interrupt_index by simp
qed (simp_all add: release_index consume_index cancel_index)

lemma indexInv_reachable: "session_step\<^sup>*\<^sup>* (emptySessions g) w \<Longrightarrow> indexInv (swRegistry w)"
proof (induction rule: rtranclp_induct)
  case base
  show ?case by (simp add: emptySessions_def emptyRegistry_def indexInv_def activeAt_def)
next
  case (step v w)
  then show ?case using session_step_index sessionInv_reachable by blast
qed

section \<open>Admissions\<close>

text \<open>The admissions that are not released.\<close>

definition openAdmissions :: "session_registry \<Rightarrow> nat set" where
  "openAdmissions s = {a. a < srNextAdmission s \<and> \<not> saReleased (srAdmissions s a) \<and> saIdentities (srAdmissions s a) \<noteq> []}"

text \<open>
  C17. In every reachable state the admissions registered under an identity are those that have it
  and are not released, the count of admitted turns is the number of unreleased admissions, and an
  interruption marks just the unreleased admissions of its identities that are not the caller's own,
  and waits for them.
\<close>

theorem registered_admissions_are_the_unreleased:
  assumes "session_step\<^sup>*\<^sup>* (emptySessions g) w" "normalizeSessionIdentities scope identities = Some ids"
  defines "s \<equiv> swRegistry w"
  shows "isSessionWorkAdmissionActive scope identities s =
      Some (\<exists>a \<in> openAdmissions s. set ids \<inter> set (saIdentities (srAdmissions s a)) \<noteq> {}) \<and>
    getActiveSessionWorkAdmissionCount s = card (openAdmissions s) \<and>
    (\<exists>adms t. interruptSessionWorkAdmissions current scope identities s = Some (adms, t) \<and>
       set adms = {a \<in> openAdmissions s. a \<notin> set current \<and> set ids \<inter> set (saIdentities (srAdmissions s a)) \<noteq> {}} \<and>
       (\<forall>a. saInterrupted (srAdmissions t a) \<longleftrightarrow> a \<in> set adms \<or> saInterrupted (srAdmissions s a)))"
proof -
  have inv: "indexInv s" unfolding s_def by (rule indexInv_reachable [OF assms(1)])
  have at: "set (nullish (jm_get (srActiveAdmissions s) i) []) = {a \<in> openAdmissions s. i \<in> set (saIdentities (srAdmissions s a))}" for i
    using indexInvD(1) [OF inv] by (auto simp: activeAt_def openAdmissions_def)
  have ne: "nullish (jm_get (srActiveAdmissions s) i) [] \<noteq> [] \<longleftrightarrow>
      (\<exists>a \<in> openAdmissions s. i \<in> set (saIdentities (srAdmissions s a)))" for i
    by (subst set_empty [symmetric], subst at) blast
  have "(\<exists>i \<in> set ids. nullish (jm_get (srActiveAdmissions s) i) [] \<noteq> []) \<longleftrightarrow>
      (\<exists>a \<in> openAdmissions s. set ids \<inter> set (saIdentities (srAdmissions s a)) \<noteq> {})"
    unfolding ne by blast
  then have "isSessionWorkAdmissionActive scope identities s =
      Some (\<exists>a \<in> openAdmissions s. set ids \<inter> set (saIdentities (srAdmissions s a)) \<noteq> {})"
    by (simp add: isSessionWorkAdmissionActive_def assms(2) list_ex_iff)
  moreover have "set (concat (map snd (srActiveAdmissions s))) = openAdmissions s"
  proof -
    note get = jm_get_in_set [OF indexInvD(2) [OF inv], symmetric]
    show ?thesis
    proof (intro equalityI subsetI)
      fix a assume "a \<in> set (concat (map snd (srActiveAdmissions s)))"
      then obtain i as where "(i, as) \<in> set (srActiveAdmissions s)" "a \<in> set as" by auto
      then have "a \<in> set (nullish (jm_get (srActiveAdmissions s) i) [])" by (simp add: get)
      then show "a \<in> openAdmissions s" by (simp add: at)
    next
      fix a assume "a \<in> openAdmissions s"
      then obtain i where "a \<in> openAdmissions s" "i \<in> set (saIdentities (srAdmissions s a))"
        by (cases "saIdentities (srAdmissions s a)") (auto simp: openAdmissions_def)
      then have "a \<in> set (nullish (jm_get (srActiveAdmissions s) i) [])" by (simp add: at)
      then obtain as where "jm_get (srActiveAdmissions s) i = Some as" "a \<in> set as"
        by (cases "jm_get (srActiveAdmissions s) i") simp_all
      then have "(i, as) \<in> set (srActiveAdmissions s)" by (simp add: get)
      with \<open>a \<in> set as\<close> show "a \<in> set (concat (map snd (srActiveAdmissions s)))" by force
    qed
  qed
  then have "getActiveSessionWorkAdmissionCount s = card (openAdmissions s)"
    unfolding getActiveSessionWorkAdmissionCount_def
    by (metis distinct_card distinct_uniqueValues set_uniqueValues)
  moreover have "saInterrupted (srAdmissions (fold interruptOne adms s) a) \<longleftrightarrow> a \<in> set adms \<or> saInterrupted (srAdmissions s a)" for adms a
    by (induction adms arbitrary: s) (auto simp: interruptOne_def Let_def split: option.split)
  ultimately show ?thesis
    by (auto simp: interruptSessionWorkAdmissions_def assms(2) Let_def at)
qed

theorem registered_admissions_are_the_unreleased_witness:
  "getActiveSessionWorkAdmissionCount (swRegistry sampleActive) = card (openAdmissions (swRegistry sampleActive))"
  using registered_admissions_are_the_unreleased [OF sampleActive_reachable sampleKey] by blast

text \<open>
  C20. A handoff gives a lease only for identities the lease has, while its admission is not
  released, and only once: afterwards it is neither consumed nor cancelled, and the interruption of
  the admission reaches the adopter, at once if it came before.
\<close>

theorem handoff_adopts_once:
  assumes "session_step\<^sup>*\<^sup>* (emptySessions g) w"
    "consumeSessionWorkAdmissionHandoff h scope identities (Some f) (swRegistry w) = (HandoffLease a, t)"
  shows "\<not> saReleased (srAdmissions (swRegistry w) a) \<and>
    (\<exists>ids. normalizeSessionIdentities scope identities = Some ids \<and> ids \<noteq> [] \<and>
       set ids \<subseteq> set (saIdentities (srAdmissions (swRegistry w) a))) \<and>
    fst (consumeSessionWorkAdmissionHandoff h scope' identities' k t) = HandoffRefused \<and>
    \<not> fst (cancelSessionWorkAdmissionHandoff h t) \<and>
    srInterruptCalls (if saInterrupted (srAdmissions t a) then t else interruptOne a t) = srInterruptCalls (swRegistry w) @ [f]"
proof -
  let ?s = "swRegistry w"
  have inv: "indexInv ?s" by (rule indexInv_reachable [OF assms(1)])
  define t0 where "t0 = setAdmission a (\<lambda>A. A\<lparr>saInterrupt := Some f\<rparr>) (dropHandoff (js_trim h) a ?s)"
  obtain ids where c: "jm_get (srHandoffs ?s) (js_trim h) = Some a" "normalizeSessionIdentities scope identities = Some ids"
    "ids \<noteq> []" "list_all (\<lambda>i. i \<in> set (saIdentities (srAdmissions ?s a))) ids"
    "t = (if saInterrupted (srAdmissions t0 a) then t0\<lparr>srInterruptCalls := srInterruptCalls t0 @ [f]\<rparr> else t0)"
    using assms(2) unfolding t0_def consumeSessionWorkAdmissionHandoff_def Let_def
    by (auto split: if_splits option.splits simp: list_all_iff list_ex_iff)
  have gone: "jm_get (srHandoffs t) (js_trim h) = None" by (simp add: c(5) t0_def dropHandoff_def jm.get_del)
  then have "fst (consumeSessionWorkAdmissionHandoff h scope' identities' k t) = HandoffRefused"
    "\<not> fst (cancelSessionWorkAdmissionHandoff h t)"
    by (simp_all add: consumeSessionWorkAdmissionHandoff_def cancelSessionWorkAdmissionHandoff_def Let_def)
  moreover have "saInterrupt (srAdmissions t0 a) = Some f" "srInterruptCalls t0 = srInterruptCalls ?s"
    by (simp_all add: t0_def dropHandoff_def setAdmission_def)
  then have "srInterruptCalls (if saInterrupted (srAdmissions t a) then t else interruptOne a t) = srInterruptCalls ?s @ [f]"
    by (auto simp: c(5) interruptOne_def Let_def setAdmission_def)
  ultimately show ?thesis using indexInvD(3) [OF inv c(1)] c(2-4) by (auto simp: list_all_iff)
qed

theorem handoff_adopts_once_witness:
  "let c = consumeSessionWorkAdmissionHandoff ''h'' ''s'' [Some ''x''] (Some 7) (swRegistry sampleHandedOff)
   in fst c = HandoffLease 0 \<and>
      fst (consumeSessionWorkAdmissionHandoff ''h'' ''s'' [Some ''x''] None (snd c)) = HandoffRefused"
proof -
  let ?c = "consumeSessionWorkAdmissionHandoff ''h'' ''s'' [Some ''x''] (Some 7) (swRegistry sampleHandedOff)"
  have "js_trim ''h'' = ''h''" by code_simp
  then have lease: "fst ?c = HandoffLease 0"
    by (simp add: consumeSessionWorkAdmissionHandoff_def Let_def sampleKey sampleHandedOff_registry)
  then have c: "?c = (HandoffLease 0, snd ?c)" by (simp add: prod_eq_iff)
  have "fst (consumeSessionWorkAdmissionHandoff ''h'' ''s'' [Some ''x''] None (snd ?c)) = HandoffRefused"
    using handoff_adopts_once [OF sampleHandedOff_reachable c] by blast
  with lease show ?thesis unfolding Let_def by blast
qed

end
