(* ===== verification/ToolCatalog.thy ===== *)
theory ToolCatalog
  imports JsMap
begin

text \<open>
  The core tools, their profiles and their groups, \<open>agents/tool-catalog.ts\<close>.  Labels and
  descriptions are left out.
\<close>

datatype tool_profile = Minimal | Coding | Messaging | FullProfile

record core_tool =
  ctId :: string
  ctSectionId :: string
  ctProfiles :: "tool_profile list"
  ctInOpenClawGroup :: bool

definition coreTool :: "string \<Rightarrow> string \<Rightarrow> tool_profile list \<Rightarrow> bool \<Rightarrow> core_tool" where
  "coreTool i section profiles grouped =
     \<lparr>ctId = i, ctSectionId = section, ctProfiles = profiles, ctInOpenClawGroup = grouped\<rparr>"

definition CORE_TOOL_SECTION_ORDER :: "string list" where
  "CORE_TOOL_SECTION_ORDER = [''fs'', ''runtime'', ''web'', ''memory'', ''sessions'', ''ui'', ''messaging'', ''automation'', ''nodes'', ''agents'', ''media'']"

definition CORE_TOOL_DEFINITIONS :: "core_tool list" where
  "CORE_TOOL_DEFINITIONS = [
    coreTool ''read'' ''fs'' [Coding] False,
    coreTool ''write'' ''fs'' [Coding] False,
    coreTool ''edit'' ''fs'' [Coding] False,
    coreTool ''apply_patch'' ''fs'' [Coding] False,
    coreTool ''exec'' ''runtime'' [Coding] False,
    coreTool ''process'' ''runtime'' [Coding] False,
    coreTool ''code_execution'' ''runtime'' [Coding] True,
    coreTool ''web_search'' ''web'' [Coding] True,
    coreTool ''web_fetch'' ''web'' [Coding] True,
    coreTool ''x_search'' ''web'' [Coding] True,
    coreTool ''memory_search'' ''memory'' [Coding] True,
    coreTool ''memory_get'' ''memory'' [Coding] True,
    coreTool ''sessions'' ''sessions'' [Coding, Messaging] True,
    coreTool ''sessions_list'' ''sessions'' [Coding, Messaging] True,
    coreTool ''sessions_history'' ''sessions'' [Coding, Messaging] True,
    coreTool ''sessions_search'' ''sessions'' [Coding, Messaging] True,
    coreTool ''sessions_send'' ''sessions'' [Coding, Messaging] True,
    coreTool ''sessions_spawn'' ''sessions'' [Coding] True,
    coreTool ''sessions_yield'' ''sessions'' [Coding] True,
    coreTool ''subagents'' ''sessions'' [Coding] True,
    coreTool ''session_status'' ''sessions'' [Minimal, Coding, Messaging] True,
    coreTool ''spawn_task'' ''sessions'' [Coding] True,
    coreTool ''dismiss_task'' ''sessions'' [Coding] True,
    coreTool ''browser'' ''ui'' [] True,
    coreTool ''screen'' ''ui'' [Coding] True,
    coreTool ''terminal'' ''ui'' [Coding] True,
    coreTool ''canvas'' ''ui'' [] False,
    coreTool ''message'' ''messaging'' [Messaging] True,
    coreTool ''heartbeat_respond'' ''automation'' [] True,
    coreTool ''cron'' ''automation'' [Coding] True,
    coreTool ''gateway'' ''automation'' [] True,
    coreTool ''nodes'' ''nodes'' [] True,
    coreTool ''computer'' ''nodes'' [] True,
    coreTool ''agents_list'' ''agents'' [] True,
    coreTool ''get_goal'' ''agents'' [Coding] True,
    coreTool ''create_goal'' ''agents'' [Coding] True,
    coreTool ''update_goal'' ''agents'' [Coding] True,
    coreTool ''update_plan'' ''agents'' [Coding] True,
    coreTool ''skill_workshop'' ''agents'' [Coding] True,
    coreTool ''image'' ''media'' [Coding] True,
    coreTool ''image_generate'' ''media'' [Coding] True,
    coreTool ''music_generate'' ''media'' [Coding] True,
    coreTool ''video_generate'' ''media'' [Coding] True,
    coreTool ''tts'' ''media'' [] True]"

definition coreToolById :: "string \<Rightarrow> core_tool option" where
  "coreToolById toolId = find (\<lambda>tool. ctId tool = toolId) CORE_TOOL_DEFINITIONS"

definition listCoreToolIdsForProfile :: "tool_profile \<Rightarrow> string list" where
  "listCoreToolIdsForProfile profile =
     map ctId (filter (\<lambda>tool. profile \<in> set (ctProfiles tool)) CORE_TOOL_DEFINITIONS)"

text \<open>\<open>CORE_TOOL_PROFILES\<close>: the allowlists; no profile denies.\<close>

definition CORE_TOOL_PROFILES :: "(string \<times> string list) list" where
  "CORE_TOOL_PROFILES =
     [(''minimal'', listCoreToolIdsForProfile Minimal),
      (''coding'', listCoreToolIdsForProfile Coding @ [''bundle-mcp'']),
      (''messaging'', listCoreToolIdsForProfile Messaging @ [''bundle-mcp'']),
      (''full'', [''*''])]"

definition sectionToolMap :: "(string, string list) jsmap" where
  "sectionToolMap =
     fold (\<lambda>tool m. let groupId = ''group:'' @ ctSectionId tool
                    in jm_set groupId (nullish (jm_get m groupId) [] @ [ctId tool]) m)
       CORE_TOOL_DEFINITIONS []"

definition CORE_TOOL_GROUPS :: "(string, string list) jsmap" where
  "CORE_TOOL_GROUPS =
     fold (\<lambda>(k, v) m. jm_set k v m) sectionToolMap
       [(''group:openclaw'', map ctId (filter ctInOpenClawGroup CORE_TOOL_DEFINITIONS))]"

text \<open>A name that is no profile, inherited ones included, has no policy.\<close>

definition resolveCoreToolProfilePolicy :: "string option \<Rightarrow> string list option" where
  "resolveCoreToolProfilePolicy profile =
     (case profile of None \<Rightarrow> None
      | Some p \<Rightarrow> if p = [] then None else map_of CORE_TOOL_PROFILES p)"

definition listCoreToolSections :: "(string \<times> string list) list" where
  "listCoreToolSections =
     filter (\<lambda>(section, tools). tools \<noteq> [])
       (map (\<lambda>section. (section, map ctId (filter (\<lambda>tool. ctSectionId tool = section) CORE_TOOL_DEFINITIONS)))
         CORE_TOOL_SECTION_ORDER)"

definition resolveCoreToolProfiles :: "string \<Rightarrow> tool_profile list" where
  "resolveCoreToolProfiles toolId = (case coreToolById toolId of None \<Rightarrow> [] | Some tool \<Rightarrow> ctProfiles tool)"

definition isKnownCoreToolId :: "string \<Rightarrow> bool" where
  "isKnownCoreToolId toolId \<longleftrightarrow> coreToolById toolId \<noteq> None"

end
