(* ===== verification/McpNames.thy ===== *)
theory McpNames
  imports JsMap
begin

text \<open>
  The names of MCP servers and of their tools as a model sees them,
  \<open>agents/agent-bundle-mcp-names.ts\<close>: sanitized, bounded, and told apart by a counter.
\<close>

section \<open>Sanitizing\<close>

definition TOOL_NAME_SEPARATOR :: string where
  "TOOL_NAME_SEPARATOR = ''__''"

definition TOOL_NAME_MAX_PREFIX :: nat where
  "TOOL_NAME_MAX_PREFIX = 30"

definition TOOL_NAME_MAX_TOTAL :: nat where
  "TOOL_NAME_MAX_TOTAL = 64"

definition asciiLetter :: "char \<Rightarrow> bool" where
  "asciiLetter c \<longleftrightarrow> (let n = of_char c :: nat in 65 \<le> n \<and> n \<le> 90 \<or> 97 \<le> n \<and> n \<le> 122)"

text \<open>What \<open>TOOL_NAME_SAFE_RE\<close> keeps.\<close>

definition safeChar :: "char \<Rightarrow> bool" where
  "safeChar c \<longleftrightarrow> asciiLetter c \<or> (let n = of_char c :: nat in 48 \<le> n \<and> n \<le> 57) \<or> c = CHR ''_'' \<or> c = CHR ''-''"

definition sanitizeToolFragment :: "string \<Rightarrow> string \<Rightarrow> nat option \<Rightarrow> string" where
  "sanitizeToolFragment raw fallback maxChars =
     (let cleaned = map (\<lambda>c. if safeChar c then c else CHR ''-'') (js_trim raw);
          normalized = (if cleaned = [] then fallback else cleaned);
          providerSafe = (if normalized \<noteq> [] \<and> asciiLetter (hd normalized) then normalized
                          else fallback @ ''-'' @ normalized)
      in case maxChars of None \<Rightarrow> providerSafe
         | Some m \<Rightarrow> if m = 0 then providerSafe else take m providerSafe)"

section \<open>Counting until a name is free\<close>

text \<open>\<open>base\<close> cut so that the suffix \<open>-n\<close> fits into \<open>room\<close>, but not to nothing.\<close>

definition suffixed :: "nat \<Rightarrow> string \<Rightarrow> nat \<Rightarrow> string" where
  "suffixed room base n =
     (let suffix = CHR ''-'' # nat_digits n in take (max 1 (room - length suffix)) base @ suffix)"

definition nameTaken :: "string list \<Rightarrow> string \<Rightarrow> bool" where
  "nameTaken used candidate \<longleftrightarrow> normalizeLowercaseStringOrEmpty (Some candidate) \<in> set used"

partial_function (option) freeName ::
    "string list \<Rightarrow> (nat \<Rightarrow> string) \<Rightarrow> string \<Rightarrow> nat \<Rightarrow> string option" where
  "freeName used next candidate n =
     (if nameTaken used candidate then freeName used next (next n) (n + 1) else Some candidate)"

definition sanitizeServerName :: "string \<Rightarrow> string list \<Rightarrow> string \<times> string list" where
  "sanitizeServerName raw usedNames =
     (let base = sanitizeToolFragment raw ''mcp'' (Some TOOL_NAME_MAX_PREFIX);
          candidate = the (freeName usedNames (suffixed TOOL_NAME_MAX_PREFIX base) base 2)
      in (candidate, set_add (normalizeLowercaseStringOrEmpty (Some candidate)) usedNames))"

fun assignLoop :: "string list \<Rightarrow> string list \<Rightarrow> (string, string) jsmap \<Rightarrow> (string, string) jsmap" where
  "assignLoop [] usedNames assignments = assignments"
| "assignLoop (serverName # rest) usedNames assignments =
     (let (safe, used') = sanitizeServerName serverName usedNames
      in assignLoop rest used' (jm_set serverName safe assignments))"

definition assignSafeServerNames :: "string list \<Rightarrow> (string, string) jsmap" where
  "assignSafeServerNames serverNames = assignLoop serverNames [] []"

definition sanitizeToolName :: "string \<Rightarrow> string" where
  "sanitizeToolName raw = sanitizeToolFragment raw ''tool'' None"

definition normalizeReservedToolNames :: "string list option \<Rightarrow> string list" where
  "normalizeReservedToolNames names =
     uniqueValues (filter (\<lambda>s. s \<noteq> []) (map (\<lambda>n. normalizeLowercaseStringOrEmpty (Some n)) (nullish names [])))"

definition buildSafeToolName :: "string \<Rightarrow> string \<Rightarrow> string list \<Rightarrow> string" where
  "buildSafeToolName serverName toolName reservedNames =
     (let cleanedToolName = sanitizeToolName toolName;
          maxToolChars = max 1 (TOOL_NAME_MAX_TOTAL - length serverName - length TOOL_NAME_SEPARATOR);
          truncatedToolName = take maxToolChars cleanedToolName;
          stem = (if truncatedToolName = [] then ''tool'' else truncatedToolName)
      in the (freeName reservedNames
           (\<lambda>n. serverName @ TOOL_NAME_SEPARATOR @ suffixed maxToolChars stem n)
           (serverName @ TOOL_NAME_SEPARATOR @ stem) 2))"

section \<open>Some counter is free\<close>

abbreviation nameKey :: "string \<Rightarrow> string" where
  "nameKey s \<equiv> normalizeLowercaseStringOrEmpty (Some s)"

lemma nameKey_def: "nameKey s = js_lower (js_trim s)"
  by (simp add: normalizeLowercaseStringOrEmpty_def normalizeOptionalString_def Let_def js_lower_def)

lemma digit_plain: "c \<in> set (nat_digits n) \<Longrightarrow> \<not> js_space c \<and> c \<noteq> CHR ''-'' \<and> js_lower_char c = c \<and> safeChar c"
  using nat_digits_digit [of c n]
  by (auto simp: js_space_def js_lower_char_def capitalCode_def safeChar_def asciiLetter_def Let_def)

lemma key_of_suffixed:
  "nameKey (x @ CHR ''-'' # nat_digits n) = js_lower (dropWhile js_space x) @ CHR ''-'' # nat_digits n"
proof -
  have dash: "\<not> js_space CHR ''-''" "js_lower_char CHR ''-'' = CHR ''-''" by (simp_all add: js_space_def js_lower_char_def capitalCode_def)
  then have "dropWhile js_space (x @ CHR ''-'' # nat_digits n) = dropWhile js_space x @ CHR ''-'' # nat_digits n"
    by (induction x) auto
  moreover obtain d ds where "rev (nat_digits n) = d # ds" by (cases "rev (nat_digits n)") auto
  then have "dropWhile js_space (rev (nat_digits n) @ y) = rev (nat_digits n) @ y" for y
    using digit_plain [of d n] by (metis append_Cons dropWhile.simps(2) list.set_intros(1) set_rev)
  moreover have "map js_lower_char (nat_digits n) = nat_digits n"
    using digit_plain by (simp add: map_idI)
  ultimately show ?thesis using dash by (simp add: nameKey_def js_trim_def js_lower_def)
qed

lemma key_of_suffixed_inj:
  assumes "nameKey (x @ CHR ''-'' # nat_digits n) = nameKey (y @ CHR ''-'' # nat_digits m)"
  shows "n = m"
proof -
  have tail: "takeWhile (\<lambda>c. c \<noteq> CHR ''-'') (rev (z @ CHR ''-'' # nat_digits k)) = rev (nat_digits k)" for z k
    using digit_plain [of _ k] by (simp add: takeWhile_tail)
  have "rev (nat_digits n) = rev (nat_digits m)"
    using assms unfolding key_of_suffixed by (metis tail)
  then show ?thesis by (simp add: nat_digits_inj)
qed

text \<open>Counting finds a free name, at the latest after as many steps as there are names taken.\<close>

lemma freeName_counts:
  assumes "\<not> nameTaken used (f (n + k))" "\<And>j. j < k \<Longrightarrow> nameTaken used (f (n + j))"
  shows "freeName used f (f n) (n + 1) = Some (f (n + k))"
  using assms
proof (induction k arbitrary: n)
  case 0
  then show ?case by (simp add: freeName.simps)
next
  case (Suc k)
  have "freeName used f (f (Suc n)) (Suc n + 1) = Some (f (Suc n + k))"
    by (rule Suc.IH) (use Suc.prems Suc.prems(2) [of "Suc j" for j] in auto)
  then show ?case using Suc.prems(2) [of 0] by (simp add: freeName.simps [of used f "f n"])
qed

lemma freeName_free:
  assumes "inj (\<lambda>n. nameKey (f n))"
  obtains c where "freeName used f first 2 = Some c" "\<not> nameTaken used c"
    "c = first \<or> (\<exists>n \<le> length used + 2. c = f n)"
proof (cases "nameTaken used first")
  case False
  then show thesis by (intro that) (auto simp: freeName.simps)
next
  case True
  have "\<exists>k \<le> length used. \<not> nameTaken used (f (2 + k))"
  proof (rule ccontr)
    assume "\<not> ?thesis"
    then have "(\<lambda>n. nameKey (f n)) ` {2..length used + 2} \<subseteq> set used"
      by (force simp: nameTaken_def le_iff_add)
    then have "card {2..length used + 2} \<le> card (set used)"
      by (intro card_inj_on_le) (auto intro: inj_on_subset [OF assms])
    also have "\<dots> \<le> length used" by (rule card_length)
    finally show False by simp
  qed
  then obtain k where k: "k \<le> length used" "\<not> nameTaken used (f (2 + k))" "\<And>j. j < k \<Longrightarrow> nameTaken used (f (2 + j))"
    using exists_least_iff [of "\<lambda>k. k \<le> length used \<and> \<not> nameTaken used (f (2 + k))"] by (meson less_imp_le order.trans)
  from True have "freeName used f first 2 = freeName used f (f 2) (2 + 1)"
    by (subst freeName.simps) simp
  also have "\<dots> = Some (f (2 + k))" by (rule freeName_counts) (use k in auto)
  finally show thesis using k by (intro that) (auto intro!: exI [of _ "2 + k"])
qed

section \<open>The names\<close>

definition safeName :: "string \<Rightarrow> bool" where
  "safeName s \<longleftrightarrow> s \<noteq> [] \<and> asciiLetter (hd s) \<and> list_all safeChar s"

lemma safeName_take: "safeName s \<Longrightarrow> 0 < n \<Longrightarrow> safeName (take n s)"
  by (cases s; cases n) (auto simp: safeName_def list_all_iff dest: in_set_takeD)

lemma safeName_append: "safeName s \<Longrightarrow> list_all safeChar t \<Longrightarrow> safeName (s @ t)"
  by (simp add: safeName_def)

lemma safeChar_dash [simp]: "safeChar CHR ''-''"
  by (simp add: safeChar_def)

lemma sanitize_safe:
  assumes "safeName fallback"
  shows "safeName (sanitizeToolFragment raw fallback m)"
proof -
  have "list_all safeChar (map (\<lambda>c. if safeChar c then c else CHR ''-'') s)" for s
    by (auto simp: list_all_iff)
  with assms have safe: "safeName (let cleaned = map (\<lambda>c. if safeChar c then c else CHR ''-'') (js_trim raw);
      normalized = (if cleaned = [] then fallback else cleaned)
    in if normalized \<noteq> [] \<and> asciiLetter (hd normalized) then normalized else fallback @ ''-'' @ normalized)"
    by (auto simp: safeName_def Let_def)
  show ?thesis
    using safe safeName_take [OF safe] unfolding sanitizeToolFragment_def Let_def by (auto split: option.split)
qed

lemma sanitize_length: "0 < m \<Longrightarrow> length (sanitizeToolFragment raw fallback (Some m)) \<le> m"
  by (simp add: sanitizeToolFragment_def Let_def)

lemma suffixed_safe: "safeName base \<Longrightarrow> safeName (suffixed room base n)"
  using digit_plain by (auto simp: suffixed_def Let_def list_all_iff intro!: safeName_append safeName_take)

lemma nat_digits_length: "n < 10 ^ Suc k \<Longrightarrow> length (nat_digits n) \<le> Suc k"
proof (induction k arbitrary: n)
  case 0
  then show ?case by (subst nat_digits.simps) simp
next
  case (Suc k)
  then show ?case using Suc.IH [of "n div 10"] by (subst nat_digits.simps) (simp add: less_mult_imp_div_less)
qed

lemma suffixed_length:
  assumes "n < 10 ^ 10" "12 \<le> room"
  shows "length (suffixed room base n) \<le> room"
proof -
  have "length (nat_digits n) \<le> 10" using nat_digits_length [of n 9] assms(1) by simp
  with assms(2) show ?thesis by (auto simp: suffixed_def Let_def min_def)
qed

lemma server_suffix_inj: "inj (\<lambda>n. nameKey (suffixed room base n))"
  by (rule injI) (auto simp: suffixed_def Let_def dest: key_of_suffixed_inj)

lemma tool_suffix_inj: "inj (\<lambda>n. nameKey (pre @ suffixed room base n))"
  by (rule injI) (auto simp: suffixed_def Let_def dest: key_of_suffixed_inj simp flip: append_assoc)

lemma mcp_fallbacks: "safeName ''mcp''" "safeName ''tool''"
  by (simp_all add: safeName_def asciiLetter_def safeChar_def)

lemma server_name:
  assumes "sanitizeServerName raw used = (safe, used')" "length used < 10 ^ 9"
  shows "safeName safe" "length safe \<le> 30" "nameKey safe \<notin> set used" "used' = used @ [nameKey safe]"
proof -
  define base where "base = sanitizeToolFragment raw ''mcp'' (Some TOOL_NAME_MAX_PREFIX)"
  have base: "safeName base" "length base \<le> 30"
    using sanitize_safe [OF mcp_fallbacks(1)] sanitize_length [of TOOL_NAME_MAX_PREFIX]
    by (simp_all add: base_def TOOL_NAME_MAX_PREFIX_def)
  from freeName_free [where f = "suffixed TOOL_NAME_MAX_PREFIX base" and used = used and first = base, OF server_suffix_inj]
  obtain c where c: "freeName used (suffixed TOOL_NAME_MAX_PREFIX base) base 2 = Some c" "\<not> nameTaken used c"
    "c = base \<or> (\<exists>n \<le> length used + 2. c = suffixed TOOL_NAME_MAX_PREFIX base n)" .
  have "safe = c" "used' = set_add (nameKey c) used"
    using assms(1) c(1) by (auto simp: sanitizeServerName_def base_def Let_def)
  moreover have "safeName c" using c(3) base suffixed_safe by auto
  moreover have "length c \<le> 30"
    using c(3)
  proof (elim disjE exE conjE)
    fix n assume "n \<le> length used + 2" "c = suffixed TOOL_NAME_MAX_PREFIX base n"
    with assms(2) suffixed_length [of n 30 base] show ?thesis by (simp add: TOOL_NAME_MAX_PREFIX_def)
  qed (use base in simp)
  ultimately show "safeName safe" "length safe \<le> 30" "nameKey safe \<notin> set used" "used' = used @ [nameKey safe]"
    using c(2) by (simp_all add: nameTaken_def set_add_def)
qed

text \<open>The assignments so far: safe names, apart from each other, and all of them taken.\<close>

definition assigned :: "string list \<Rightarrow> (string, string) jsmap \<Rightarrow> bool" where
  "assigned used m \<longleftrightarrow>
     (\<forall>s a. jm_get m s = Some a \<longrightarrow> safeName a \<and> length a \<le> 30 \<and> nameKey a \<in> set used) \<and>
     (\<forall>s t a b. jm_get m s = Some a \<longrightarrow> jm_get m t = Some b \<longrightarrow> nameKey a = nameKey b \<longrightarrow> s = t)"

lemma assignLoop_assigned:
  "assigned used m \<Longrightarrow> length used + length names < 10 ^ 9 \<Longrightarrow>
   \<exists>used'. assigned used' (assignLoop names used m) \<and>
     dom (jm_get (assignLoop names used m)) = dom (jm_get m) \<union> set names"
proof (induction names used m rule: assignLoop.induct)
  case (2 name rest used m)
  obtain safe used1 where s: "sanitizeServerName name used = (safe, used1)" by fastforce
  have len: "length used < 10 ^ 9" using 2(3) by simp
  note sn = server_name [OF s this]
  have "assigned used1 (jm_set name safe m)"
    using 2(2) sn(1-3) unfolding assigned_def jm.get_put sn(4) by (clarsimp split: if_splits) metis
  moreover have "length used1 + length rest < 10 ^ 9" using 2(3) sn(4) by simp
  ultimately show ?case using 2(1) [OF s [symmetric] refl] s by (auto simp: jm.get_put)
qed auto

lemma safeName_key: "safeName a \<Longrightarrow> nameKey a = js_lower a"
proof -
  have space: "safeChar c \<Longrightarrow> \<not> js_space c" for c
    by (auto simp: safeChar_def asciiLetter_def js_space_def Let_def)
  assume "safeName a"
  with space have "js_trim a = a" by (intro js_trim_id) (auto simp: safeName_def list_all_iff)
  then show ?thesis by (simp add: nameKey_def)
qed

text \<open>
  C28. However servers and tools are called, the names a model sees consist of letters, digits,
  underscores and dashes and begin with a letter, a server's name has at most 30 characters, and two
  servers have names that differ not only in case.  A tool's name begins with its server's, has at
  most 64 characters, and is not among the reserved ones; the counters always come to an end.
\<close>

theorem mcp_names_are_safe:
  assumes "length names < 10 ^ 9" "length reserved < 10 ^ 9"
    and "jm_get (assignSafeServerNames names) server = Some safe"
  shows "safeName safe \<and> length safe \<le> 30 \<and>
    (jm_get (assignSafeServerNames names) server' = Some safe' \<and> js_lower safe' = js_lower safe \<longrightarrow> server' = server) \<and>
    (let tool = buildSafeToolName safe toolName reserved
     in safeName tool \<and> length tool \<le> 64 \<and> prefix (safe @ ''__'') tool \<and> nameKey tool \<notin> set reserved)"
proof -
  have "assigned [] []" by (simp add: assigned_def)
  from assignLoop_assigned [OF this, of names] assms(1)
  obtain used where used: "assigned used (assignSafeServerNames names)"
    by (auto simp: assignSafeServerNames_def)
  then have safe: "safeName safe" "length safe \<le> 30" using assms(3) by (auto simp: assigned_def)
  have apart: "server' = server" if "jm_get (assignSafeServerNames names) server' = Some safe'" "js_lower safe' = js_lower safe"
    using used assms(3) that safeName_key by (auto simp: assigned_def)
  define room where "room = max 1 (64 - length safe - 2)"
  then have room: "max (Suc 0) (62 - length safe) = room" by simp
  define stem where "stem = take room (sanitizeToolName toolName)"
  have stem: "safeName stem" "length stem \<le> room"
    using sanitize_safe [OF mcp_fallbacks(2)] by (auto simp: stem_def sanitizeToolName_def room_def intro: safeName_take)
  have stem_ne: "stem \<noteq> []" using stem(1) by (simp add: safeName_def)
  from freeName_free [where f = "\<lambda>n. (safe @ ''__'') @ suffixed room stem n" and used = reserved
      and first = "safe @ ''__'' @ stem", OF tool_suffix_inj]
  obtain tool where tool: "freeName reserved (\<lambda>n. (safe @ ''__'') @ suffixed room stem n) (safe @ ''__'' @ stem) 2 = Some tool"
    "\<not> nameTaken reserved tool"
    "tool = safe @ ''__'' @ stem \<or> (\<exists>n \<le> length reserved + 2. tool = (safe @ ''__'') @ suffixed room stem n)" .
  have build: "buildSafeToolName safe toolName reserved = tool"
    using tool(1) stem(1) unfolding buildSafeToolName_def
    by (simp add: Let_def TOOL_NAME_MAX_TOTAL_def TOOL_NAME_SEPARATOR_def room del: take_eq_Nil, simp add: stem_def [symmetric] stem_ne del: take_eq_Nil)
  obtain x where x: "tool = (safe @ ''__'') @ x" "safeName x" "length x \<le> room"
    using tool(3)
  proof (elim disjE exE conjE)
    fix n assume "n \<le> length reserved + 2" "tool = (safe @ ''__'') @ suffixed room stem n"
    moreover have "12 \<le> room" using safe(2) by (simp add: room_def)
    ultimately show ?thesis using assms(2) stem suffixed_length [of n room stem]
      by (intro that [of "suffixed room stem n"]) (auto intro: suffixed_safe)
  qed (use stem that [of stem] in auto)
  have "safeName tool" using safe x by (auto simp: safeName_def) (auto simp: safeChar_def)
  moreover have "length tool \<le> 64" using x safe(2) by (simp add: room_def)
  ultimately show ?thesis using safe apart tool(2) x(1) by (auto simp: Let_def build nameTaken_def)
qed

theorem mcp_names_are_safe_witness:
  "safeName ''my-server'' \<and> length (buildSafeToolName ''my-server'' ''get it'' [''my-server__get-it'']) \<le> 64"
proof -
  have s: "jm_get (assignSafeServerNames [''my server'']) ''my server'' = Some ''my-server''"
    by (simp add: assignSafeServerNames_def sanitizeServerName_def freeName.simps nameTaken_def) code_simp
  show ?thesis
    using mcp_names_are_safe [OF _ _ s, of "[''my-server__get-it'']" _ _ "''get it''"] by (simp add: Let_def)
qed

end
