(* ===== verification/ToolPolicy.thy ===== *)
theory ToolPolicy
  imports ToolCatalog McpNames
begin

text \<open>
  Which tools an agent may call: \<open>agents/tool-policy-shared.ts\<close>, \<open>agents/glob-pattern.ts\<close>,
  \<open>agents/tool-policy-match.ts\<close>, \<open>agents/tool-policy.ts\<close>, \<open>agents/sandbox-tool-policy.ts\<close> and
  \<open>agents/tool-policy-pipeline.ts\<close>.
\<close>

section \<open>Names\<close>

text \<open>
  The tables of aliases and groups are object literals, so that looking up a name that is no key of
  theirs still finds what every object inherits under that name.  \<open>Inherited\<close> is such a value where
  the code takes it for a tool name.
\<close>

datatype tool_name = Name string | Inherited string

datatype 'v property = Own 'v | FromPrototype string | Absent

definition OBJECT_PROTOTYPE_KEYS :: "string list" where
  "OBJECT_PROTOTYPE_KEYS =
     [''constructor'', ''__proto__'', ''__defineGetter__'', ''__defineSetter__'', ''__lookupGetter__'',
      ''__lookupSetter__'', ''hasOwnProperty'', ''isPrototypeOf'', ''propertyIsEnumerable'',
      ''toLocaleString'', ''toString'', ''valueOf'']"

definition objectGet :: "(string \<times> 'v) list \<Rightarrow> string \<Rightarrow> 'v property" where
  "objectGet table key =
     (case map_of table key of
        Some v \<Rightarrow> Own v
      | None \<Rightarrow> if key \<in> set OBJECT_PROTOTYPE_KEYS then FromPrototype key else Absent)"

text \<open>\<open>Boolean(name)\<close> and \<open>String(name)\<close>\<close>

fun nameTruthy :: "tool_name \<Rightarrow> bool" where
  "nameTruthy (Name s) \<longleftrightarrow> s \<noteq> []"
| "nameTruthy (Inherited k) \<longleftrightarrow> True"

fun nameText :: "tool_name \<Rightarrow> string" where
  "nameText (Name s) = s"
| "nameText (Inherited k) =
     (if k = ''__proto__'' then ''[object Object]''
      else ''function '' @ (if k = ''constructor'' then ''Object'' else k) @ ''() { [native code] }'')"

definition TOOL_NAME_ALIASES :: "(string \<times> string) list" where
  "TOOL_NAME_ALIASES = [(''bash'', ''exec''), (''apply-patch'', ''apply_patch'')]"

text \<open>\<open>normalizeLowercaseStringOrEmpty\<close> gives the empty string for what is no string.\<close>

fun foldedName :: "tool_name \<Rightarrow> string" where
  "foldedName (Name s) = normalizeLowercaseStringOrEmpty (Some s)"
| "foldedName (Inherited k) = []"

definition normalizeToolName :: "tool_name \<Rightarrow> tool_name" where
  "normalizeToolName name =
     (let normalized = foldedName name
      in case objectGet TOOL_NAME_ALIASES normalized of
           Own v \<Rightarrow> Name v | FromPrototype k \<Rightarrow> Inherited k | Absent \<Rightarrow> Name normalized)"

definition normalizeToolList :: "tool_name list option \<Rightarrow> tool_name list" where
  "normalizeToolList list = filter nameTruthy (map normalizeToolName (nullish list []))"

text \<open>
  \<open>TOOL_GROUPS[value]\<close>.  A normalized name is no key of the prototype, and the text of an inherited
  value is no key at all.
\<close>

definition toolGroup :: "tool_name \<Rightarrow> string list option" where
  "toolGroup value = (case objectGet CORE_TOOL_GROUPS (nameText value) of Own tools \<Rightarrow> Some tools | _ \<Rightarrow> None)"

definition expandToolGroups :: "tool_name list option \<Rightarrow> tool_name list" where
  "expandToolGroups list =
     uniqueValues (concat (map (\<lambda>value. case toolGroup value of Some tools \<Rightarrow> map Name tools | None \<Rightarrow> [value])
       (normalizeToolList list)))"

text \<open>
  \<open>couldNormalizeToolNamePrefixToAllowedTool\<close>.  An inherited value has no \<open>startsWith\<close>: \<open>None\<close> is the
  thrown \<open>TypeError\<close>.
\<close>

fun prefixLoop :: "string \<Rightarrow> tool_name list \<Rightarrow> tool_name list \<Rightarrow> (tool_name list + unit) option" where
  "prefixLoop pre [] allowed = Some (Inl allowed)"
| "prefixLoop pre (toolName # rest) allowed =
     (let normalizedToolName = normalizeToolName toolName; foldedToolName = foldedName toolName;
          allowed1 = (if nameTruthy normalizedToolName then set_add normalizedToolName allowed else allowed);
          allowed2 = (if foldedToolName \<noteq> [] then set_add (Name foldedToolName) allowed1 else allowed1)
      in case normalizedToolName of
           Inherited k \<Rightarrow> None
         | Name s \<Rightarrow> if js_starts_with s pre \<or> js_starts_with foldedToolName pre then Some (Inr ())
                     else prefixLoop pre rest allowed2)"

definition couldNormalizeToolNamePrefixToAllowedTool :: "string \<Rightarrow> tool_name list \<Rightarrow> bool option" where
  "couldNormalizeToolNamePrefixToAllowedTool pre allowedToolNames =
     (let normalizedPrefix = normalizeLowercaseStringOrEmpty (Some pre)
      in if normalizedPrefix = [] then Some False
         else case prefixLoop normalizedPrefix allowedToolNames [] of
                None \<Rightarrow> None
              | Some (Inr _) \<Rightarrow> Some True
              | Some (Inl allowed) \<Rightarrow>
                  let resolvedPrefix = normalizeToolName (Name normalizedPrefix)
                  in Some (resolvedPrefix \<noteq> Name normalizedPrefix \<and>
                             list_ex (\<lambda>toolName. js_starts_with (nameText toolName) (nameText resolvedPrefix)) allowed \<or>
                           list_ex (\<lambda>(alias, toolName). js_starts_with alias normalizedPrefix \<and> Name toolName \<in> set allowed)
                             TOOL_NAME_ALIASES))"

section \<open>Glob patterns\<close>

text \<open>\<open>GlobExact\<close> and \<open>GlobRegex\<close> carry the normalized pattern.\<close>

datatype glob_pattern = GlobAll | GlobExact string | GlobRegex string

text \<open>\<open>None\<close>: an inherited value has no \<open>includes\<close>.\<close>

definition compileGlobPattern :: "(tool_name \<Rightarrow> tool_name) \<Rightarrow> tool_name \<Rightarrow> glob_pattern option" where
  "compileGlobPattern toName raw =
     (case toName raw of
        Inherited k \<Rightarrow> None
      | Name normalized \<Rightarrow>
          Some (if normalized = [] then GlobExact []
                else if normalized = ''*'' then GlobAll
                else if CHR ''*'' \<notin> set normalized then GlobExact normalized
                else GlobRegex normalized))"

definition compileGlobPatterns ::
    "tool_name list option \<Rightarrow> (tool_name \<Rightarrow> tool_name) \<Rightarrow> glob_pattern list option" where
  "compileGlobPatterns raw toName =
     map_option (filter (\<lambda>pattern. pattern \<noteq> GlobExact [])) (those (map (compileGlobPattern toName) (nullish raw [])))"

text \<open>What \<open>.\<close> does not match.\<close>

definition lineTerminator :: "char \<Rightarrow> bool" where
  "lineTerminator c \<longleftrightarrow> of_char c \<in> {10, 13 :: nat}"

text \<open>The regular expression: every \<open>*\<close> of the pattern is \<open>.*\<close>, everything else is literal.\<close>

fun globTest :: "string \<Rightarrow> string \<Rightarrow> bool" where
  "globTest [] value \<longleftrightarrow> value = []"
| "globTest (c # p) [] \<longleftrightarrow> c = CHR ''*'' \<and> globTest p []"
| "globTest (c # p) (d # value) \<longleftrightarrow>
     (if c = CHR ''*'' then globTest p (d # value) \<or> \<not> lineTerminator d \<and> globTest (c # p) value
      else c = d \<and> globTest p value)"

fun matchesGlob :: "tool_name \<Rightarrow> glob_pattern \<Rightarrow> bool" where
  "matchesGlob value GlobAll \<longleftrightarrow> True"
| "matchesGlob value (GlobExact s) \<longleftrightarrow> value = Name s"
| "matchesGlob value (GlobRegex p) \<longleftrightarrow> globTest p (nameText value)"

definition matchesAnyGlobPattern :: "tool_name \<Rightarrow> glob_pattern list \<Rightarrow> bool" where
  "matchesAnyGlobPattern value patterns \<longleftrightarrow> list_ex (matchesGlob value) patterns"

section \<open>Policies\<close>

text \<open>\<open>tpImplicitAllowAll\<close>: the marker \<open>IMPLICIT_ALLOW_ALL_FROM_ALSO_ALLOW\<close>.\<close>

record tool_policy =
  tpAllow :: "tool_name list option"
  tpDeny :: "tool_name list option"
  tpImplicitAllowAll :: bool

definition makeToolPolicyMatcher :: "tool_policy \<Rightarrow> (tool_name \<Rightarrow> bool) option" where
  "makeToolPolicyMatcher policy =
     Option.bind (compileGlobPatterns (Some (expandToolGroups (Some (nullish (tpDeny policy) [])))) normalizeToolName) (\<lambda>deny.
     map_option (\<lambda>allow name.
       let normalized = normalizeToolName name
       in if matchesAnyGlobPattern normalized deny then False
          else if length allow = 0 then True
          else matchesAnyGlobPattern normalized allow
               \<or> normalized = Name ''apply_patch'' \<and> matchesAnyGlobPattern (Name ''write'') allow)
       (compileGlobPatterns (Some (expandToolGroups (Some (nullish (tpAllow policy) [])))) normalizeToolName))"

definition isToolAllowedByPolicyName :: "tool_name \<Rightarrow> tool_policy option \<Rightarrow> bool option" where
  "isToolAllowedByPolicyName name policy =
     (case policy of None \<Rightarrow> Some True
      | Some p \<Rightarrow> map_option (\<lambda>m. m name) (makeToolPolicyMatcher p))"

text \<open>\<open>every\<close> stops at the first policy that refuses.\<close>

fun isToolAllowedByPolicies :: "tool_name \<Rightarrow> tool_policy option list \<Rightarrow> bool option" where
  "isToolAllowedByPolicies name [] = Some True"
| "isToolAllowedByPolicies name (policy # rest) =
     Option.bind (isToolAllowedByPolicyName name policy)
       (\<lambda>ok. if ok then isToolAllowedByPolicies name rest else Some False)"

definition DEFAULT_PLUGIN_TOOLS_ALLOWLIST_ENTRY :: string where
  "DEFAULT_PLUGIN_TOOLS_ALLOWLIST_ENTRY = ''__openclaw_default_plugin_tools__''"

definition hasRestrictiveAllowPolicy :: "tool_policy option \<Rightarrow> bool" where
  "hasRestrictiveAllowPolicy policy \<longleftrightarrow>
     (case Option.bind policy tpAllow of None \<Rightarrow> False
      | Some allow \<Rightarrow> list_ex (\<lambda>entry. let normalized = normalizeToolName entry
          in nameTruthy normalized \<and> normalized \<noteq> Name ''*''
             \<and> normalized \<noteq> Name DEFAULT_PLUGIN_TOOLS_ALLOWLIST_ENTRY) allow)"

definition replaceWithEffectiveToolAllowlist :: "tool_name list \<Rightarrow> tool_name list" where
  "replaceWithEffectiveToolAllowlist tools = uniqueValues (filter nameTruthy (map normalizeToolName tools))"

text \<open>The explicit entries; what is no string is skipped.\<close>

fun trimmedEntries :: "bool \<Rightarrow> tool_name list \<Rightarrow> string list" where
  "trimmedEntries implicit [] = []"
| "trimmedEntries implicit (Inherited k # rest) = trimmedEntries implicit rest"
| "trimmedEntries implicit (Name s # rest) =
     (let trimmed = js_trim s
      in if trimmed = ''*'' \<and> implicit \<or> trimmed = [] then trimmedEntries implicit rest
         else trimmed # trimmedEntries implicit rest)"

definition collectExplicitAllowlist :: "tool_policy option list \<Rightarrow> string list" where
  "collectExplicitAllowlist policies =
     uniqueValues (concat (map (\<lambda>policy.
       case policy of None \<Rightarrow> []
       | Some p \<Rightarrow> (case tpAllow p of None \<Rightarrow> []
           | Some allow \<Rightarrow> trimmedEntries (tpImplicitAllowAll p) allow @
               (if tpImplicitAllowAll p then [DEFAULT_PLUGIN_TOOLS_ALLOWLIST_ENTRY] else []))) policies))"

definition collectExplicitDenylist :: "tool_policy option list \<Rightarrow> string list" where
  "collectExplicitDenylist policies =
     concat (map (\<lambda>policy. trimmedEntries False (nullish (Option.bind policy tpDeny) [])) policies)"

definition mergeAlsoAllowPolicy :: "tool_policy option \<Rightarrow> tool_name list option \<Rightarrow> tool_policy option" where
  "mergeAlsoAllowPolicy policy alsoAllow =
     (case (policy, alsoAllow) of
        (Some p, Some extra) \<Rightarrow>
          (case tpAllow p of
             None \<Rightarrow> policy
           | Some allow \<Rightarrow> if extra = [] then policy
                           else Some (p\<lparr>tpAllow := Some (uniqueValues (allow @ extra))\<rparr>))
      | _ \<Rightarrow> policy)"

section \<open>Policies from the configuration\<close>

record tool_policy_config =
  tcAllow :: "string list option"
  tcAlsoAllow :: "string list option"
  tcDeny :: "string list option"

definition unionAllow :: "string list option \<Rightarrow> string list option \<Rightarrow> string list option" where
  "unionAllow base extra =
     (case extra of
        None \<Rightarrow> base
      | Some xs \<Rightarrow>
          if xs = [] then base
          else (case base of
                  None \<Rightarrow> Some (uniqueValues (''*'' # xs))
                | Some bs \<Rightarrow> if bs = [] then Some (uniqueValues (''*'' # xs)) else Some (uniqueValues (bs @ xs))))"

definition hasExplicitAllowAll :: "string list option \<Rightarrow> bool" where
  "hasExplicitAllowAll list \<longleftrightarrow> list_ex (\<lambda>entry. js_trim entry = ''*'') (nullish list [])"

definition pickSandboxToolPolicy :: "tool_policy_config option \<Rightarrow> tool_policy option" where
  "pickSandboxToolPolicy config =
     (case config of
        None \<Rightarrow> None
      | Some c \<Rightarrow>
          let fromAlsoAllowOnly = (tcAllow c = None \<and> nullish (tcAlsoAllow c) [] \<noteq> []
                                   \<and> \<not> hasExplicitAllowAll (tcAlsoAllow c));
              allow = (case tcAllow c of
                         Some a \<Rightarrow> unionAllow (Some a) (tcAlsoAllow c)
                       | None \<Rightarrow> if nullish (tcAlsoAllow c) [] \<noteq> [] then unionAllow None (tcAlsoAllow c) else None)
          in if allow = None \<and> tcDeny c = None then None
             else Some \<lparr>tpAllow = map_option (map Name) allow, tpDeny = map_option (map Name) (tcDeny c),
                        tpImplicitAllowAll = fromAlsoAllowOnly\<rparr>)"

end
