(* ===== verification/ToolAudit.thy ===== *)
theory ToolAudit
  imports ToolPolicy JsonKey "HOL-Library.Char_ord" "HOL-Library.List_Lexorder"
begin

text \<open>
  The audit of what a policy takes away, \<open>agents/tool-policy-audit.ts\<close>: which tools were removed by
  which list, and the line and the fields that are logged.  Only the names of the tools are read.  An
  audit is the list of its records, or \<open>None\<close> where it throws: \<open>sanitizeAuditField\<close> calls \<open>trim\<close>, which
  an inherited value has not.  Whether the records go to \<open>info\<close> or \<open>debug\<close> is left out.
\<close>

definition MAX_AUDIT_TOOL_NAMES :: nat where "MAX_AUDIT_TOOL_NAMES = 50"
definition MAX_AUDIT_FIELD_LENGTH :: nat where "MAX_AUDIT_FIELD_LENGTH = 160"

datatype tool_rule_kind = RuleAllow | RuleDeny | RuleAllowDeny | RuleUnknown

section \<open>What was removed\<close>

definition toolPolicyRuleKind :: "tool_policy \<Rightarrow> tool_rule_kind" where
  "toolPolicyRuleKind policy =
     (let hasAllow = length (nullish (tpAllow policy) []) > 0; hasDeny = length (nullish (tpDeny policy) []) > 0
      in if hasAllow \<and> hasDeny then RuleAllowDeny
         else if hasDeny then RuleDeny else if hasAllow then RuleAllow else RuleUnknown)"

definition normalizedToolNames :: "string list \<Rightarrow> tool_name list" where
  "normalizedToolNames names = normalizeToolList (Some (map Name names))"

text \<open>A policy \<open>{ deny: entries }\<close>\<close>

definition denyOnly :: "tool_name list \<Rightarrow> tool_policy" where
  "denyOnly entries = \<lparr>tpAllow = None, tpDeny = Some entries, tpImplicitAllowAll = False\<rparr>"

definition removedToolRuleKind :: "tool_name \<Rightarrow> tool_policy \<Rightarrow> tool_rule_kind option" where
  "removedToolRuleKind toolName policy =
     (let deny = nullish (tpDeny policy) [];
          otherwise_kind = (if length (nullish (tpAllow policy) []) > 0 then RuleAllow else toolPolicyRuleKind policy)
      in if length deny > 0
         then map_option (\<lambda>ok. if ok then otherwise_kind else RuleDeny)
                (isToolAllowedByPolicyName toolName (Some (denyOnly deny)))
         else Some otherwise_kind)"

definition remainingToolCounts :: "tool_name list \<Rightarrow> (tool_name, nat) jsmap" where
  "remainingToolCounts names = fold (\<lambda>name m. jm_set name (nullish (jm_get m name) 0 + 1) m) names []"

fun removedLoop :: "tool_policy \<Rightarrow> tool_name list \<Rightarrow> (tool_name, nat) jsmap \<Rightarrow>
    (tool_rule_kind, tool_name list) jsmap \<Rightarrow> (tool_rule_kind, tool_name list) jsmap option" where
  "removedLoop policy [] counts removed = Some removed"
| "removedLoop policy (name # rest) counts removed =
     (let remaining = nullish (jm_get counts name) 0
      in if remaining > 0 then removedLoop policy rest (jm_set name (remaining - 1) counts) removed
         else Option.bind (removedToolRuleKind name policy) (\<lambda>ruleKind.
           removedLoop policy rest counts
             (jm_set ruleKind (set_add name (nullish (jm_get removed ruleKind) [])) removed)))"

text \<open>\<open>toSorted\<close> without a comparator compares the texts of the values.\<close>

definition removedToolNamesByRule ::
    "tool_policy \<Rightarrow> string list \<Rightarrow> string list \<Rightarrow> (tool_rule_kind, tool_name list) jsmap option" where
  "removedToolNamesByRule policy beforeNames afterNames =
     map_option (map (\<lambda>(ruleKind, names). (ruleKind, sort_key nameText names)))
       (removedLoop policy (normalizedToolNames beforeNames) (remainingToolCounts (normalizedToolNames afterNames)) [])"

section \<open>The rules that matched\<close>

fun findDenyingEntry :: "tool_name \<Rightarrow> tool_name list \<Rightarrow> tool_name option option" where
  "findDenyingEntry toolName [] = Some None"
| "findDenyingEntry toolName (entry # rest) =
     Option.bind (isToolAllowedByPolicyName toolName (Some (denyOnly [entry])))
       (\<lambda>ok. if ok then findDenyingEntry toolName rest else Some (Some entry))"

definition matchedPolicyRuleForTool ::
    "tool_name \<Rightarrow> tool_policy \<Rightarrow> tool_rule_kind \<Rightarrow> tool_name option option" where
  "matchedPolicyRuleForTool toolName policy ruleKind =
     (if ruleKind = RuleDeny
      then (case tpDeny policy of Some deny \<Rightarrow> findDenyingEntry toolName deny | None \<Rightarrow> Some None)
      else Some None)"

section \<open>The label\<close>

text \<open>\<open>replaceAll\<close>\<close>

fun replaceAllDotAllow :: "string \<Rightarrow> string" where
  "replaceAllDotAllow [] = []"
| "replaceAllDotAllow (c # s) =
     (if prefix ''.allow'' (c # s) then ''.deny'' @ replaceAllDotAllow (drop 5 s) else c # replaceAllDotAllow s)"

definition wordChar :: "char \<Rightarrow> bool" where
  "wordChar c \<longleftrightarrow> (let n = of_char c :: nat
     in 48 \<le> n \<and> n \<le> 57 \<or> 65 \<le> n \<and> n \<le> 90 \<or> 97 \<le> n \<and> n \<le> 122 \<or> c = CHR ''_'')"

text \<open>
  The first match of \<open>\ballow\b\<close> replaced, if there is one; \<open>afterWord\<close> tells whether the character
  before is one of a word.
\<close>

fun replaceAllowWord :: "bool \<Rightarrow> string \<Rightarrow> string option" where
  "replaceAllowWord afterWord [] = None"
| "replaceAllowWord afterWord (c # s) =
     (if \<not> afterWord \<and> prefix ''allow'' (c # s) \<and> (drop 4 s = [] \<or> \<not> wordChar (hd (drop 4 s)))
      then Some (''deny'' @ drop 4 s)
      else map_option ((#) c) (replaceAllowWord (wordChar c) s))"

definition labelForRuleKind :: "string \<Rightarrow> tool_rule_kind \<Rightarrow> string" where
  "labelForRuleKind stepLabel ruleKind =
     (if ruleKind \<noteq> RuleDeny then stepLabel
      else if js_includes stepLabel ''.allow'' then replaceAllDotAllow stepLabel
      else (case replaceAllowWord False stepLabel of Some label \<Rightarrow> label | None \<Rightarrow> stepLabel @ ''.deny''))"

section \<open>Fields\<close>

definition escapeControlChar :: "char \<Rightarrow> string" where
  "escapeControlChar c =
     (let codePoint = of_char c :: nat
      in if codePoint = 10 then [CHR 0x5C, CHR ''n'']
         else if codePoint = 13 then [CHR 0x5C, CHR ''r'']
         else if codePoint = 9 then [CHR 0x5C, CHR ''t'']
         else if codePoint < 32 \<or> codePoint = 127
         then [CHR 0x5C, CHR ''x'', hexDigit (codePoint div 16), hexDigit (codePoint mod 16)]
         else [c])"

definition escapeControlCharsVisible :: "string \<Rightarrow> string" where
  "escapeControlCharsVisible value = concat (map escapeControlChar value)"

text \<open>No character of the modelled range is a surrogate, so that the cut is a plain one.\<close>

definition sanitizeAuditField :: "tool_name \<Rightarrow> string option" where
  "sanitizeAuditField value =
     (case value of
        Inherited k \<Rightarrow> None
      | Name s \<Rightarrow>
          let sanitized = escapeControlCharsVisible (js_trim s)
          in Some (if sanitized = [] then ''(unknown)''
                   else if length sanitized \<le> MAX_AUDIT_FIELD_LENGTH then sanitized
                   else take MAX_AUDIT_FIELD_LENGTH sanitized @ ''...''))"

definition boundedToolNames :: "tool_name list \<Rightarrow> (string list \<times> bool) option" where
  "boundedToolNames names =
     map_option (\<lambda>sanitizedNames.
         if length names \<le> MAX_AUDIT_TOOL_NAMES then (sanitizedNames, False)
         else (take MAX_AUDIT_TOOL_NAMES sanitizedNames, True))
       (those (map sanitizeAuditField names))"

fun matchedRulesLoop :: "tool_policy \<Rightarrow> tool_rule_kind \<Rightarrow> tool_name list \<Rightarrow> string list \<Rightarrow> string list option" where
  "matchedRulesLoop policy ruleKind [] rules = Some rules"
| "matchedRulesLoop policy ruleKind (toolName # rest) rules =
     Option.bind (matchedPolicyRuleForTool toolName policy ruleKind) (\<lambda>found.
       case found of
         None \<Rightarrow> matchedRulesLoop policy ruleKind rest rules
       | Some rule \<Rightarrow>
           if nameTruthy rule
           then Option.bind (sanitizeAuditField rule)
                  (\<lambda>text. matchedRulesLoop policy ruleKind rest (set_add text rules))
           else matchedRulesLoop policy ruleKind rest rules)"

definition matchedPolicyRules :: "tool_policy \<Rightarrow> tool_rule_kind \<Rightarrow> tool_name list \<Rightarrow> string list option" where
  "matchedPolicyRules policy ruleKind tools = map_option sort (matchedRulesLoop policy ruleKind tools [])"

section \<open>Audits\<close>

record audit_record =
  auMessage :: string
  auRule :: string
  auRuleKind :: tool_rule_kind
  auMatchedRules :: "string list"
  auMatchedRulesTruncated :: bool
  auRemovedToolCount :: nat
  auRemovedTools :: "string list"
  auRemovedToolsTruncated :: bool

text \<open>One pass of the loop: no record where nothing was removed.\<close>

definition auditRemovedTools ::
    "string \<Rightarrow> tool_policy \<Rightarrow> tool_rule_kind \<times> tool_name list \<Rightarrow> audit_record list option" where
  "auditRemovedTools stepLabel policy entry =
     (case entry of (ruleKind, removed) \<Rightarrow>
        if length removed = 0 then Some []
        else
          Option.bind (sanitizeAuditField (Name (labelForRuleKind stepLabel ruleKind))) (\<lambda>rule.
          Option.bind (boundedToolNames removed) (\<lambda>(toolNames, truncated).
          map_option (\<lambda>matchedRules.
            let matchedRuleSuffix = (if length matchedRules > 0
                  then ''; matched '' @ js_join '', '' matchedRules else [])
            in [\<lparr>auMessage = ''tool policy removed '' @ nat_digits (length removed) @ '' tool(s) via '' @ rule
                   @ '': '' @ js_join '', '' toolNames @ matchedRuleSuffix,
                 auRule = rule, auRuleKind = ruleKind, auMatchedRules = matchedRules,
                 auMatchedRulesTruncated = (length matchedRules > 0 \<and> truncated),
                 auRemovedToolCount = length removed, auRemovedTools = toolNames,
                 auRemovedToolsTruncated = truncated\<rparr>])
            (matchedPolicyRules policy ruleKind (take MAX_AUDIT_TOOL_NAMES removed)))))"

definition auditToolPolicyFilter ::
    "string \<Rightarrow> tool_policy \<Rightarrow> string list \<Rightarrow> string list \<Rightarrow> audit_record list option" where
  "auditToolPolicyFilter stepLabel policy beforeNames afterNames =
     Option.bind (removedToolNamesByRule policy beforeNames afterNames)
       (\<lambda>removedByRule. map_option concat (those (map (auditRemovedTools stepLabel policy) removedByRule)))"

text \<open>\<open>auditSandboxToolPolicyBlock\<close>: the message; no record for an empty name.\<close>

definition auditSandboxToolPolicyBlock ::
    "tool_name \<Rightarrow> tool_rule_kind \<Rightarrow> string \<Rightarrow> tool_policy option \<Rightarrow> string list option" where
  "auditSandboxToolPolicyBlock name ruleType configKey policy =
     (let normalizedToolName = normalizeToolName name
      in if \<not> nameTruthy normalizedToolName then Some []
         else
           Option.bind (sanitizeAuditField normalizedToolName) (\<lambda>toolName.
           Option.bind (sanitizeAuditField (Name configKey)) (\<lambda>key.
           Option.bind (case policy of
               Some p \<Rightarrow> if ruleType = RuleDeny then matchedPolicyRuleForTool normalizedToolName p RuleDeny else Some None
             | None \<Rightarrow> Some None) (\<lambda>matchedRule.
           map_option (\<lambda>sanitizedMatchedRule.
               [''sandbox tool policy blocked '' @ toolName @ '' via '' @ key @
                (case sanitizedMatchedRule of
                   Some rule \<Rightarrow> if rule = [] then [] else ''; matched '' @ rule
                 | None \<Rightarrow> [])])
             (case matchedRule of
                Some rule \<Rightarrow> if nameTruthy rule then map_option Some (sanitizeAuditField rule) else Some None
              | None \<Rightarrow> Some None)))))"

end
