(* ===== verification/ToolPipeline.thy ===== *)
theory ToolPipeline
  imports ToolPolicy ToolAudit
begin

text \<open>
  Plugin tool groups and the layers of policies, \<open>agents/tool-policy.ts\<close> and
  \<open>agents/tool-policy-pipeline.ts\<close>.
\<close>

section \<open>Plugin groups\<close>

text \<open>A tool with the plugin its metadata (\<open>toolMeta\<close>) names, if it has metadata.\<close>

record agent_tool =
  atName :: string
  atPlugin :: "string option"

record plugin_tool_groups =
  pgAll :: "tool_name list"
  pgByPlugin :: "(string, tool_name list) jsmap"

definition addPluginTool :: "agent_tool \<Rightarrow> plugin_tool_groups \<Rightarrow> plugin_tool_groups" where
  "addPluginTool tool groups =
     (case atPlugin tool of
        None \<Rightarrow> groups
      | Some rawId \<Rightarrow>
          let name = normalizeToolName (Name (atName tool));
              groups1 = groups\<lparr>pgAll := pgAll groups @ [name]\<rparr>;
              pluginId = normalizeLowercaseStringOrEmpty (Some rawId)
          in if pluginId = [] then groups1
             else groups1\<lparr>pgByPlugin := jm_set pluginId (nullish (jm_get (pgByPlugin groups) pluginId) [] @ [name])
                           (pgByPlugin groups)\<rparr>)"

definition buildPluginToolGroups :: "agent_tool list \<Rightarrow> plugin_tool_groups" where
  "buildPluginToolGroups tools = fold addPluginTool tools \<lparr>pgAll = [], pgByPlugin = []\<rparr>"

definition pluginToolsOf :: "plugin_tool_groups \<Rightarrow> tool_name \<Rightarrow> tool_name list" where
  "pluginToolsOf groups name = (case name of Name s \<Rightarrow> nullish (jm_get (pgByPlugin groups) s) [] | Inherited k \<Rightarrow> [])"

definition expandPluginEntry :: "plugin_tool_groups \<Rightarrow> tool_name \<Rightarrow> tool_name list" where
  "expandPluginEntry groups entry =
     (let normalized = normalizeToolName entry
      in if normalized = Name ''group:plugins''
         then (if length (pgAll groups) > 0 then pgAll groups else [normalized])
         else (let tools = pluginToolsOf groups normalized
               in if length tools > 0 then tools else [normalized]))"

definition expandPluginGroups :: "tool_name list option \<Rightarrow> plugin_tool_groups \<Rightarrow> tool_name list option" where
  "expandPluginGroups list groups =
     (case list of None \<Rightarrow> None
      | Some entries \<Rightarrow>
          if length entries = 0 then Some entries
          else Some (uniqueValues (concat (map (expandPluginEntry groups) entries))))"

definition expandPolicyWithPluginGroups :: "tool_policy option \<Rightarrow> plugin_tool_groups \<Rightarrow> tool_policy option" where
  "expandPolicyWithPluginGroups policy groups =
     map_option (\<lambda>p. \<lparr>tpAllow = expandPluginGroups (tpAllow p) groups, tpDeny = expandPluginGroups (tpDeny p) groups,
       tpImplicitAllowAll = False\<rparr>) policy"

section \<open>Unknown entries\<close>

record declared_tools =
  dtPluginToolNames :: "string list"
  dtPluginIds :: "string list"
  dtMcpServerNames :: "string list"

fun mcpPrefixLoop :: "string list \<Rightarrow> string list \<Rightarrow> tool_name list \<Rightarrow> tool_name list" where
  "mcpPrefixLoop [] usedNames pres = pres"
| "mcpPrefixLoop (serverName # rest) usedNames pres =
     (let (safeName, used') = sanitizeServerName serverName usedNames;
          pre = normalizeToolName (Name (safeName @ TOOL_NAME_SEPARATOR))
      in mcpPrefixLoop rest used' (if nameTruthy pre then set_add pre pres else pres))"

definition buildDeclaredMcpToolPrefixes :: "string list \<Rightarrow> tool_name list" where
  "buildDeclaredMcpToolPrefixes serverNames = mcpPrefixLoop serverNames [] []"

definition normalizeDeclaredPluginIds :: "string list \<Rightarrow> string list" where
  "normalizeDeclaredPluginIds values =
     uniqueValues (filter (\<lambda>s. s \<noteq> []) (map (\<lambda>v. normalizeLowercaseStringOrEmpty (Some v)) values))"

definition normalizeDeclaredToolNames :: "string list \<Rightarrow> tool_name list" where
  "normalizeDeclaredToolNames values =
     uniqueValues (filter nameTruthy (map (\<lambda>v. normalizeToolName (Name v)) values))"

text \<open>An inherited value is never longer than a prefix, which ends in two underscores.\<close>

definition isDeclaredMcpAllowlistEntry :: "tool_name \<Rightarrow> tool_name list \<Rightarrow> bool" where
  "isDeclaredMcpAllowlistEntry entry pres \<longleftrightarrow>
     length pres \<noteq> 0 \<and>
     (entry = Name ''bundle-mcp'' \<or>
      list_ex (\<lambda>pre. case entry of
         Inherited k \<Rightarrow> False
       | Name e \<Rightarrow> length e > length (nameText pre) \<and> js_starts_with e (nameText pre)) pres)"

record allowlist_resolution =
  arPolicy :: "tool_policy option"
  arUnknownAllowlist :: "tool_name list"
  arPluginOnlyAllowlist :: bool

definition isPluginEntry :: "plugin_tool_groups \<Rightarrow> declared_tools \<Rightarrow> tool_name \<Rightarrow> bool" where
  "isPluginEntry groups declared entry \<longleftrightarrow>
     entry = Name ''group:plugins'' \<or>
     entry \<in> set (map Name (jm_keys (pgByPlugin groups) @ normalizeDeclaredPluginIds (dtPluginIds declared))) \<or>
     entry \<in> set (pgAll groups @ normalizeDeclaredToolNames (dtPluginToolNames declared)) \<or>
     isDeclaredMcpAllowlistEntry entry (buildDeclaredMcpToolPrefixes (dtMcpServerNames declared))"

definition analyzeAllowlistByToolType ::
    "tool_policy option \<Rightarrow> plugin_tool_groups \<Rightarrow> tool_name list \<Rightarrow> declared_tools \<Rightarrow> allowlist_resolution" where
  "analyzeAllowlistByToolType policy groups coreTools declared =
     (let nothing = \<lparr>arPolicy = policy, arUnknownAllowlist = [], arPluginOnlyAllowlist = False\<rparr>
      in case Option.bind policy tpAllow of
           None \<Rightarrow> nothing
         | Some allow \<Rightarrow>
             let normalized = normalizeToolList (Some allow)
             in if length allow = 0 \<or> length normalized = 0 then nothing
                else
                  \<lparr>arPolicy = policy,
                   arUnknownAllowlist = uniqueValues (filter (\<lambda>entry. entry \<noteq> Name ''*''
                     \<and> \<not> list_ex (\<lambda>tool. tool \<in> set coreTools) (expandToolGroups (Some [entry]))
                     \<and> \<not> isPluginEntry groups declared entry) normalized),
                   arPluginOnlyAllowlist = list_all (\<lambda>entry. entry \<noteq> Name ''*'' \<and> isPluginEntry groups declared entry)
                     normalized\<rparr>)"

section \<open>Warnings\<close>

definition MAX_TOOL_POLICY_WARNING_CACHE :: nat where
  "MAX_TOOL_POLICY_WARNING_CACHE = 256"

record warning_cache =
  wcSeen :: "string list"
  wcOrder :: "string list"

definition rememberToolPolicyWarning :: "string \<Rightarrow> warning_cache \<Rightarrow> bool \<times> warning_cache" where
  "rememberToolPolicyWarning warning c =
     (if warning \<in> set (wcSeen c) then (False, c)
      else
        let c1 = (if length (wcSeen c) \<ge> MAX_TOOL_POLICY_WARNING_CACHE
                  then (case wcOrder c of
                          [] \<Rightarrow> c
                        | oldest # rest \<Rightarrow>
                            \<lparr>wcSeen = (if oldest = [] then wcSeen c else removeAll oldest (wcSeen c)), wcOrder = rest\<rparr>)
                  else c)
        in (True, \<lparr>wcSeen = set_add warning (wcSeen c1), wcOrder = wcOrder c1 @ [warning]\<rparr>))"

definition describeUnknownAllowlistSuffix :: "bool \<Rightarrow> bool \<Rightarrow> bool \<Rightarrow> string option \<Rightarrow> string" where
  "describeUnknownAllowlistSuffix pluginOnlyAllowlist hasGatedCoreEntries hasOtherEntries unavailableCoreToolReason =
     (let preface = (if pluginOnlyAllowlist
                     then ''Allowlist contains only plugin entries; core tools will not be available.'' else []);
          reason = (case unavailableCoreToolReason of None \<Rightarrow> [] | Some r \<Rightarrow> js_trim r);
          unavailableCoreDetail = (if reason \<noteq> []
            then ''These entries are shipped core tools but unavailable here: '' @ reason @ ''.''
            else ''These entries are shipped core tools but unavailable in the current runtime/provider/model/config.'');
          mixedUnavailableCoreDetail = (if reason \<noteq> []
            then ''Some entries are shipped core tools but unavailable here: '' @ reason
                 @ ''; other entries won't match any tool unless the plugin is enabled.''
            else ''Some entries are shipped core tools but unavailable in the current runtime/provider/model/config; other entries won't match any tool unless the plugin is enabled.'');
          detail = (if hasGatedCoreEntries \<and> hasOtherEntries then mixedUnavailableCoreDetail
                    else if hasGatedCoreEntries then unavailableCoreDetail
                    else ''These entries won't match any tool unless the plugin is enabled.'')
      in if preface \<noteq> [] then preface @ '' '' @ detail else detail)"

section \<open>The pipeline\<close>

record pipeline_step =
  psPolicy :: "tool_policy option"
  psLabel :: string
  psStripPluginOnly :: bool
  psSuppressUnavailable :: bool
  psSuppressAllowlist :: "string list"
  psUnavailableReason :: "string option"

definition pipelineLayer ::
    "string option \<Rightarrow> tool_policy option \<Rightarrow> string \<Rightarrow> string list \<Rightarrow> pipeline_step" where
  "pipelineLayer reason policy label suppress =
     \<lparr>psPolicy = policy, psLabel = label, psStripPluginOnly = True, psSuppressUnavailable = False,
      psSuppressAllowlist = suppress, psUnavailableReason = reason\<rparr>"

record pipeline_policies =
  ppProfilePolicy :: "tool_policy option"
  ppProfile :: "string option"
  ppProfileWarningAllowlist :: "string list"
  ppProviderProfilePolicy :: "tool_policy option"
  ppProviderProfile :: "string option"
  ppProviderProfileWarningAllowlist :: "string list"
  ppGlobalPolicy :: "tool_policy option"
  ppGlobalProviderPolicy :: "tool_policy option"
  ppAgentPolicy :: "tool_policy option"
  ppAgentProviderPolicy :: "tool_policy option"
  ppGroupPolicy :: "tool_policy option"
  ppSenderPolicy :: "tool_policy option"
  ppAgentId :: "string option"
  ppUnavailableReason :: "string option"

definition buildDefaultToolPolicyPipelineSteps :: "pipeline_policies \<Rightarrow> pipeline_step list" where
  "buildDefaultToolPolicyPipelineSteps p =
     (let trimmed = (\<lambda>v. case v of None \<Rightarrow> [] | Some s \<Rightarrow> js_trim s);
          agentId = trimmed (ppAgentId p); profile = trimmed (ppProfile p);
          providerProfile = trimmed (ppProviderProfile p);
          layer = pipelineLayer (map_option js_trim (ppUnavailableReason p))
      in [layer (ppProfilePolicy p) (if profile \<noteq> [] then ''tools.profile ('' @ profile @ '')'' else ''tools.profile'')
            (ppProfileWarningAllowlist p),
          layer (ppProviderProfilePolicy p)
            (if providerProfile \<noteq> [] then ''tools.byProvider.profile ('' @ providerProfile @ '')'' else ''tools.byProvider.profile'')
            (ppProviderProfileWarningAllowlist p),
          layer (ppGlobalPolicy p) ''tools.allow'' [],
          layer (ppGlobalProviderPolicy p) ''tools.byProvider.allow'' [],
          layer (ppAgentPolicy p) (if agentId \<noteq> [] then ''agents.'' @ agentId @ ''.tools.allow'' else ''agent tools.allow'') [],
          layer (ppAgentProviderPolicy p)
            (if agentId \<noteq> [] then ''agents.'' @ agentId @ ''.tools.byProvider.allow'' else ''agent tools.byProvider.allow'') [],
          layer (ppGroupPolicy p) ''group tools.allow'' [],
          layer (ppSenderPolicy p) ''tools.toolsBySender'' []])"

text \<open>The warning of a layer, if there is one.\<close>

definition isKnownCoreEntry :: "tool_name \<Rightarrow> bool" where
  "isKnownCoreEntry entry \<longleftrightarrow> (case entry of Name s \<Rightarrow> isKnownCoreToolId s | Inherited k \<Rightarrow> False)"

definition unknownAllowlistWarning :: "pipeline_step \<Rightarrow> allowlist_resolution \<Rightarrow> string option" where
  "unknownAllowlistWarning step resolved =
     (let suppressed = map (\<lambda>entry. normalizeToolName (Name entry)) (psSuppressAllowlist step);
          gatedCoreEntries = filter isKnownCoreEntry (arUnknownAllowlist resolved);
          warnableGatedCoreEntries = (if psSuppressUnavailable step then []
            else filter (\<lambda>entry. entry \<notin> set suppressed) gatedCoreEntries);
          otherEntries = filter (\<lambda>entry. \<not> isKnownCoreEntry entry \<and> entry \<notin> set suppressed)
            (arUnknownAllowlist resolved);
          hasGated = length warnableGatedCoreEntries > 0; hasOther = length otherEntries > 0
      in if length (arUnknownAllowlist resolved) > 0 \<and> (hasGated \<or> hasOther)
         then Some (''tools: '' @ psLabel step @ '' allowlist contains unknown entries (''
                @ js_join '', '' (map nameText (warnableGatedCoreEntries @ otherEntries)) @ ''). ''
                @ describeUnknownAllowlistSuffix (arPluginOnlyAllowlist resolved) hasGated hasOther
                    (psUnavailableReason step))
         else None)"

definition filterToolsByPolicy :: "agent_tool list \<Rightarrow> tool_policy option \<Rightarrow> agent_tool list option" where
  "filterToolsByPolicy tools policy =
     (case policy of None \<Rightarrow> Some tools
      | Some p \<Rightarrow>
          map_option (map fst \<circ> filter snd)
            (those (map (\<lambda>tool. map_option (Pair tool) (isToolAllowedByPolicyName (Name (atName tool)) (Some p))) tools)))"

text \<open>
  The events \<open>onFilter\<close> gets: the label, the policy, the tools before and after; and the audit records.
\<close>

record pipeline_state =
  pcTools :: "agent_tool list"
  pcWarnings :: "string list"
  pcEvents :: "(string \<times> tool_policy \<times> agent_tool list \<times> agent_tool list) list"
  pcAudits :: "audit_record list"
  pcCache :: warning_cache

definition warnAbout :: "string option \<Rightarrow> pipeline_state \<Rightarrow> pipeline_state" where
  "warnAbout warning st =
     (case warning of None \<Rightarrow> st
      | Some w \<Rightarrow>
          let (new, cache) = rememberToolPolicyWarning w (pcCache st)
          in st\<lparr>pcCache := cache, pcWarnings := (if new then pcWarnings st @ [w] else pcWarnings st)\<rparr>)"

definition applyStep ::
    "plugin_tool_groups \<Rightarrow> tool_name list \<Rightarrow> declared_tools \<Rightarrow> pipeline_step \<Rightarrow> pipeline_state \<Rightarrow> pipeline_state option" where
  "applyStep groups coreToolNames declared step st =
     (if psPolicy step = None then Some st
      else
        let resolved = analyzeAllowlistByToolType (psPolicy step) groups coreToolNames declared;
            st1 = (if psStripPluginOnly step then warnAbout (unknownAllowlistWarning step resolved) st else st);
            policy = (if psStripPluginOnly step then arPolicy resolved else psPolicy step)
        in case expandPolicyWithPluginGroups policy groups of
             None \<Rightarrow> Some st1
           | Some expanded \<Rightarrow>
               Option.bind (filterToolsByPolicy (pcTools st1) (Some expanded)) (\<lambda>filtered.
                 map_option (\<lambda>audits. st1\<lparr>pcTools := filtered,
                     pcEvents := pcEvents st1 @ [(psLabel step, expanded, pcTools st1, filtered)],
                     pcAudits := pcAudits st1 @ audits\<rparr>)
                   (auditToolPolicyFilter (psLabel step) expanded (map atName (pcTools st1)) (map atName filtered))))"

fun applySteps ::
    "plugin_tool_groups \<Rightarrow> tool_name list \<Rightarrow> declared_tools \<Rightarrow> pipeline_step list \<Rightarrow> pipeline_state \<Rightarrow> pipeline_state option" where
  "applySteps groups coreToolNames declared [] st = Some st"
| "applySteps groups coreToolNames declared (step # steps) st =
     Option.bind (applyStep groups coreToolNames declared step st) (applySteps groups coreToolNames declared steps)"

definition applyToolPolicyPipeline ::
    "agent_tool list \<Rightarrow> pipeline_step list \<Rightarrow> declared_tools \<Rightarrow> warning_cache \<Rightarrow> pipeline_state option" where
  "applyToolPolicyPipeline tools steps declared cache =
     (let coreToolNames = uniqueValues (filter nameTruthy
            (map (\<lambda>tool. normalizeToolName (Name (atName tool))) (filter (\<lambda>tool. atPlugin tool = None) tools)))
      in applySteps (buildPluginToolGroups tools) coreToolNames declared steps
           \<lparr>pcTools = tools, pcWarnings = [], pcEvents = [], pcAudits = [], pcCache = cache\<rparr>)"

end
