(* ===== verification/ToolPolicyProofs.thy ===== *)
theory ToolPolicyProofs
  imports ToolPipeline
begin

text \<open>
  What the tool policies decide: patterns, the matcher as a rule over the entries, the layers as an
  intersection, and two ways in which an entry does not mean the tool it names.
\<close>

section \<open>Names\<close>

text \<open>A name that normalizing may give: folded, no alias, no key of the prototype.\<close>

definition canonicalName :: "string \<Rightarrow> bool" where
  "canonicalName s \<longleftrightarrow> normalizeToolName (Name s) = Name s"

lemma fold_idem: "foldedName (Name (foldedName n)) = foldedName n"
proof (cases n)
  case (Name s)
  have lc: "js_lower_char (js_lower_char c) = js_lower_char c" "js_space (js_lower_char c) = js_space c" for c
    by (auto simp: js_lower_char_def capitalCode_def js_space_def Let_def of_char_of)
  have "js_trim (js_lower (js_trim s)) = js_lower (js_trim s)"
  proof (rule js_trim_id, cases "js_trim s = []")
    case False
    then show "js_lower (js_trim s) = [] \<or> \<not> js_space (hd (js_lower (js_trim s))) \<and> \<not> js_space (last (js_lower (js_trim s)))"
      using js_trim_hd [OF False] js_trim_last [OF False] by (simp add: js_lower_def hd_map last_map lc)
  qed (simp add: js_lower_def)
  then show ?thesis using Name by (simp add: nameKey_def js_lower_def lc comp_def)
qed (simp add: normalizeLowercaseStringOrEmpty_def normalizeOptionalString_def)

lemma alias_targets: "map_of TOOL_NAME_ALIASES s = Some v \<Longrightarrow> v = ''exec'' \<or> v = ''apply_patch''"
  by (auto simp: TOOL_NAME_ALIASES_def split: if_splits)

lemma canonical_targets [simp]: "canonicalName ''exec''" "canonicalName ''apply_patch''" "canonicalName ''write''"
  "canonicalName []" "canonicalName ''*''" "canonicalName ''group:plugins''"
  unfolding canonicalName_def by code_simp+

lemma normalized_canonical: "normalizeToolName n = Name s \<Longrightarrow> canonicalName s"
proof -
  assume n: "normalizeToolName n = Name s"
  show ?thesis
  proof (cases "map_of TOOL_NAME_ALIASES (foldedName n)")
    case None
    with n have "s = foldedName n" "s \<notin> set OBJECT_PROTOTYPE_KEYS"
      by (auto simp: normalizeToolName_def objectGet_def Let_def split: if_splits)
    then show ?thesis
      using None fold_idem [of n] by (simp add: canonicalName_def normalizeToolName_def objectGet_def)
  next
    case (Some v)
    with n have "s = v" by (simp add: normalizeToolName_def objectGet_def)
    with alias_targets [OF Some] show ?thesis by auto
  qed
qed

lemma normalize_inherited [simp]: "normalizeToolName (Inherited k) = Name []"
  unfolding normalizeToolName_def by code_simp

lemma normalize_canonical: "canonicalName s \<Longrightarrow> normalizeToolName (Name s) = Name s"
  by (simp add: canonicalName_def)

text \<open>The members of the core groups are the tools of the catalog, whose ids are canonical.\<close>

definition plainId :: "string \<Rightarrow> bool" where
  "plainId s \<longleftrightarrow> s \<noteq> [] \<and> list_all (\<lambda>c. let n = of_char c :: nat in 97 \<le> n \<and> n \<le> 122 \<or> c = CHR ''_'') s
     \<and> s \<noteq> ''bash'' \<and> s \<notin> set OBJECT_PROTOTYPE_KEYS"

lemma catalog_ids_plain: "list_all (\<lambda>tool. plainId (ctId tool)) CORE_TOOL_DEFINITIONS"
  by (simp add: CORE_TOOL_DEFINITIONS_def coreTool_def plainId_def OBJECT_PROTOTYPE_KEYS_def)

lemma plainId_canonical:
  assumes "plainId s"
  shows "canonicalName s" "nameKey s = s"
proof -
  have c: "\<not> js_space c \<and> js_lower_char c = c" if "c \<in> set s" for c
    using assms that by (auto simp: plainId_def list_all_iff js_space_def js_lower_char_def capitalCode_def Let_def)
  then have "js_trim s = s" by (intro js_trim_id) auto
  moreover have "js_lower s = s" using c by (simp add: js_lower_def map_idI)
  moreover have "s \<noteq> ''apply-patch''" using assms by (auto simp: plainId_def Let_def)
  ultimately show "canonicalName s" "nameKey s = s"
    using assms by (simp_all add: canonicalName_def normalizeToolName_def nameKey_def objectGet_def TOOL_NAME_ALIASES_def plainId_def)
qed

definition toolsWithin :: "string set \<Rightarrow> (string, string list) jsmap \<Rightarrow> bool" where
  "toolsWithin S m \<longleftrightarrow> (\<forall>(k, g) \<in> set m. set g \<subseteq> S)"

lemma toolsWithin_get: "toolsWithin S m \<Longrightarrow> set (nullish (jm_get m k) []) \<subseteq> S"
  by (cases "jm_get m k") (auto simp: toolsWithin_def jm_get_def dest: map_of_SomeD)

lemma toolsWithin_set: "toolsWithin S m \<Longrightarrow> set g \<subseteq> S \<Longrightarrow> toolsWithin S (jm_set k g m)"
  unfolding jm_set_def toolsWithin_def by (induction m) (auto split: if_splits)

lemma sectionToolMap_within: "toolsWithin (ctId ` set CORE_TOOL_DEFINITIONS) sectionToolMap"
proof -
  have "toolsWithin S (fold (\<lambda>tool m. let groupId = ''group:'' @ ctSectionId tool
      in jm_set groupId (nullish (jm_get m groupId) [] @ [ctId tool]) m) tools m)"
    if "toolsWithin S m" "ctId ` set tools \<subseteq> S" for S tools m
    using that
    by (induction tools arbitrary: m) (simp_all add: Let_def toolsWithin_set toolsWithin_get)
  from this [of _ "[]" CORE_TOOL_DEFINITIONS] show ?thesis by (simp add: sectionToolMap_def toolsWithin_def)
qed

lemma core_groups_within: "toolsWithin (ctId ` set CORE_TOOL_DEFINITIONS) CORE_TOOL_GROUPS"
proof -
  have "toolsWithin S (fold (\<lambda>(k, v) m. jm_set k v m) pairs m)"
    if "toolsWithin S m" "toolsWithin S pairs" for S pairs and m :: "(string, string list) jsmap"
    using that
  proof (induction pairs arbitrary: m)
    case (Cons p pairs)
    then show ?case by (cases p) (simp add: toolsWithin_set toolsWithin_def [of _ "_ # _"] flip: toolsWithin_def)
  qed simp
  note steps = this [OF _ sectionToolMap_within]
  show ?thesis unfolding CORE_TOOL_GROUPS_def by (rule steps) (auto simp: toolsWithin_def)
qed

lemma core_group_canonical: "toolGroup v = Some g \<Longrightarrow> t \<in> set g \<Longrightarrow> canonicalName t \<and> t \<noteq> []"
proof -
  assume "toolGroup v = Some g" "t \<in> set g"
  then have "jm_get CORE_TOOL_GROUPS (nameText v) = Some g"
    by (auto simp: toolGroup_def objectGet_def jm_get_def split: option.splits if_splits)
  with toolsWithin_get [OF core_groups_within, of "nameText v"] \<open>t \<in> set g\<close>
  obtain tool where "tool \<in> set CORE_TOOL_DEFINITIONS" "t = ctId tool" by auto
  then have "plainId t" using catalog_ids_plain by (simp add: list_all_iff)
  then show ?thesis using plainId_canonical by (simp add: plainId_def)
qed

text \<open>After the groups are expanded every entry is canonical or inherited.\<close>

lemma expanded_entries:
  assumes "Name s \<in> set (expandToolGroups l)"
  shows "canonicalName s \<and> s \<noteq> []"
proof -
  from assms obtain v where v: "v \<in> set (normalizeToolList l)"
    "Name s \<in> set (case toolGroup v of Some tools \<Rightarrow> map Name tools | None \<Rightarrow> [v])"
    by (auto simp: expandToolGroups_def)
  show ?thesis
  proof (cases "toolGroup v")
    case None
    with v obtain n where "normalizeToolName n = Name s" "s \<noteq> []"
      by (auto simp: normalizeToolList_def) (metis nameTruthy.simps(1))
    with normalized_canonical show ?thesis by blast
  next
    case (Some g)
    with v(2) core_group_canonical [OF Some] show ?thesis by auto
  qed
qed

text \<open>Every group is named with a colon, so that neither a plain name nor an inherited value is one.\<close>

definition colonKeys :: "(string, string list) jsmap \<Rightarrow> bool" where
  "colonKeys m \<longleftrightarrow> (\<forall>(k, g) \<in> set m. CHR '':'' \<in> set k)"

lemma colonKeys_set: "colonKeys m \<Longrightarrow> CHR '':'' \<in> set k \<Longrightarrow> colonKeys (jm_set k g m)"
  unfolding jm_set_def colonKeys_def by (induction m) (auto split: if_splits)

lemma core_groups_colon: "colonKeys CORE_TOOL_GROUPS"
proof -
  have sections: "colonKeys (fold (\<lambda>tool m. let groupId = ''group:'' @ ctSectionId tool
      in jm_set groupId (nullish (jm_get m groupId) [] @ [ctId tool]) m) tools m)" if "colonKeys m" for tools m
    using that by (induction tools arbitrary: m) (simp_all add: Let_def colonKeys_set)
  have pairs: "colonKeys (fold (\<lambda>(k, v) m. jm_set k v m) ps m)" if "colonKeys m" "colonKeys ps" for ps m
    using that
  proof (induction ps arbitrary: m)
    case (Cons p ps)
    then show ?case by (cases p) (simp add: colonKeys_set colonKeys_def [of "_ # _"] flip: colonKeys_def)
  qed simp
  show ?thesis unfolding CORE_TOOL_GROUPS_def sectionToolMap_def
    by (intro pairs sections) (simp_all add: colonKeys_def)
qed

lemma group_colon: "toolGroup v = Some g \<Longrightarrow> CHR '':'' \<in> set (nameText v)"
  using core_groups_colon
  by (auto simp: toolGroup_def objectGet_def colonKeys_def split: option.splits if_splits dest: map_of_SomeD)

lemma plain_no_group: "plainId s \<Longrightarrow> toolGroup (Name s) = None"
  using group_colon [of "Name s"] by (cases "toolGroup (Name s)") (auto simp: plainId_def list_all_iff Let_def)

lemma inherited_no_group: "k \<in> set OBJECT_PROTOTYPE_KEYS \<Longrightarrow> toolGroup (Inherited k) = None"
  using group_colon [of "Inherited k"] by (cases "toolGroup (Inherited k)") (auto simp: OBJECT_PROTOTYPE_KEYS_def)

section \<open>Patterns\<close>

text \<open>The tests of a policy never throw, and inherited entries vanish.\<close>

definition patternOf :: "string \<Rightarrow> glob_pattern" where
  "patternOf s = (if s = ''*'' then GlobAll else if CHR ''*'' \<notin> set s then GlobExact s else GlobRegex s)"

fun plainNames :: "tool_name list \<Rightarrow> string list" where
  "plainNames [] = []"
| "plainNames (Name s # rest) = s # plainNames rest"
| "plainNames (Inherited k # rest) = plainNames rest"

lemma set_plainNames [simp]: "set (plainNames xs) = {s. Name s \<in> set xs}"
  by (induction xs rule: plainNames.induct) auto

lemma compile_expanded:
  assumes "\<And>s. Name s \<in> set xs \<Longrightarrow> canonicalName s \<and> s \<noteq> []"
  shows "compileGlobPatterns (Some xs) normalizeToolName = Some (map patternOf (plainNames xs))"
proof -
  have "those (map (compileGlobPattern normalizeToolName) xs)
      = Some (map (\<lambda>x. case x of Name s \<Rightarrow> patternOf s | Inherited k \<Rightarrow> GlobExact []) xs)"
    using assms
    by (induction xs) (auto simp: compileGlobPattern_def patternOf_def normalize_canonical split: tool_name.splits)
  moreover have "filter (\<lambda>p. p \<noteq> GlobExact []) (map (\<lambda>x. case x of Name s \<Rightarrow> patternOf s | Inherited k \<Rightarrow> GlobExact []) xs)
      = map patternOf (plainNames xs)"
    using assms by (induction xs rule: plainNames.induct) (auto simp: patternOf_def)
  ultimately show ?thesis by (simp add: compileGlobPatterns_def)
qed

section \<open>The matcher as a rule\<close>

text \<open>The patterns of a list: what is left of its entries after normalizing and expanding groups.\<close>

definition effectiveEntries :: "tool_name list option \<Rightarrow> string list" where
  "effectiveEntries l = plainNames (expandToolGroups (Some (nullish l [])))"

definition listHits :: "tool_name list option \<Rightarrow> tool_name \<Rightarrow> bool" where
  "listHits l name \<longleftrightarrow> list_ex (\<lambda>e. matchesGlob name (patternOf e)) (effectiveEntries l)"

definition policyAllows :: "tool_policy \<Rightarrow> tool_name \<Rightarrow> bool" where
  "policyAllows p name \<longleftrightarrow> \<not> listHits (tpDeny p) name \<and>
     (effectiveEntries (tpAllow p) = [] \<or> listHits (tpAllow p) name \<or>
      name = Name ''apply_patch'' \<and> listHits (tpAllow p) (Name ''write''))"

lemma matcher_rule:
  "isToolAllowedByPolicyName name (Some p) = Some (policyAllows p (normalizeToolName name))"
proof -
  have "compileGlobPatterns (Some (expandToolGroups (Some (nullish l [])))) normalizeToolName
      = Some (map patternOf (effectiveEntries l))" for l
    unfolding effectiveEntries_def by (rule compile_expanded) (rule expanded_entries)
  then show ?thesis
    by (simp add: isToolAllowedByPolicyName_def makeToolPolicyMatcher_def policyAllows_def listHits_def
        matchesAnyGlobPattern_def list_ex_iff Let_def)
qed

lemma filter_rule:
  "filterToolsByPolicy tools (Some p) = Some (filter (\<lambda>t. policyAllows p (normalizeToolName (Name (atName t)))) tools)"
proof -
  have "those (map (\<lambda>t. map_option (Pair t) (isToolAllowedByPolicyName (Name (atName t)) (Some p))) tools)
      = Some (map (\<lambda>t. (t, policyAllows p (normalizeToolName (Name (atName t))))) tools)"
    by (induction tools) (simp_all add: matcher_rule)
  moreover have "map fst (filter snd (map (\<lambda>t. (t, P t)) tools)) = filter P tools" for P
    by (induction tools) simp_all
  ultimately show ?thesis by (simp add: filterToolsByPolicy_def)
qed

section \<open>The audit\<close>

text \<open>
  The audit of a layer throws exactly when the layer removes a tool whose name is, normalized, an
  inherited value.
\<close>

lemma remaining_counts: "nullish (jm_get (remainingToolCounts names) n) 0 = count_list names n"
proof -
  have "nullish (jm_get (fold (\<lambda>name m. jm_set name (nullish (jm_get m name) 0 + 1) m) names m) n) 0
      = nullish (jm_get m n) 0 + count_list names n" for m
    by (induction names arbitrary: m) (simp_all add: jm.get_put)
  from this [of "[]"] show ?thesis by (simp add: remainingToolCounts_def)
qed

lemma rule_kind_total: "\<exists>kind. removedToolRuleKind name policy = Some kind"
  by (simp add: removedToolRuleKind_def matcher_rule Let_def)

definition removedNames :: "(tool_rule_kind, tool_name list) jsmap \<Rightarrow> tool_name set" where
  "removedNames removed = (\<Union>(kind, names) \<in> set removed. set names)"

lemma removedNames_add:
  "removedNames (jm_set kind (set_add name (nullish (jm_get removed kind) [])) removed)
     = insert name (removedNames removed)"
proof -
  have cons: "removedNames ((k, names) # m) = set names \<union> removedNames m" for k names m
    by (simp add: removedNames_def)
  show ?thesis
    unfolding jm_set_def jm_get_def
  proof (induction removed)
    case (Cons entry removed)
    then show ?case by (cases entry) (simp add: cons insert_commute Un_insert_right)
  qed (simp add: cons)
qed

text \<open>The names that are not among those left are removed: all the tools of a name fare alike.\<close>

lemma removedLoop_rule:
  assumes "\<And>n. nullish (jm_get counts n) 0 = (if P n then count_list names n else 0)"
  shows "\<exists>m. removedLoop policy names counts removed = Some m \<and>
    removedNames m = removedNames removed \<union> {n \<in> set names. \<not> P n}"
  using assms
proof (induction names arbitrary: counts removed)
  case (Cons name names)
  show ?case
  proof (cases "P name")
    case True
    have "nullish (jm_get (jm_set name (count_list names name) counts) n) 0
        = (if P n then count_list names n else 0)" for n
      using Cons.prems [of n] True by (simp add: jm.get_put)
    from Cons.IH [OF this] obtain m where "removedLoop policy names
        (jm_set name (count_list names name) counts) removed = Some m"
      "removedNames m = removedNames removed \<union> {n \<in> set names. \<not> P n}" by blast
    then show ?thesis using True Cons.prems [of name] by (intro exI [of _ m]) auto
  next
    case False
    obtain kind where kind: "removedToolRuleKind name policy = Some kind" using rule_kind_total by blast
    have "nullish (jm_get counts n) 0 = (if P n then count_list names n else 0)" for n
      using Cons.prems [of n] False by auto
    from Cons.IH [OF this, of "jm_set kind (set_add name (nullish (jm_get removed kind) [])) removed"]
    show ?thesis using False Cons.prems [of name] kind by (auto simp: removedNames_add)
  qed
qed simp

lemma removed_by_rule:
  assumes "normalizedToolNames afterNames = filter P (normalizedToolNames beforeNames)"
  shows "\<exists>m. removedToolNamesByRule policy beforeNames afterNames = Some m \<and>
    removedNames m = {n \<in> set (normalizedToolNames beforeNames). \<not> P n}"
proof -
  have "count_list (filter P names) n = (if P n then count_list names n else 0)" for names :: "tool_name list" and n
    by (induction names) auto
  then have "\<And>n. nullish (jm_get (remainingToolCounts (normalizedToolNames afterNames)) n) 0
      = (if P n then count_list (normalizedToolNames beforeNames) n else 0)"
    by (simp add: remaining_counts assms)
  from removedLoop_rule [OF this, of policy "[]"] obtain m where m:
    "removedLoop policy (normalizedToolNames beforeNames) (remainingToolCounts (normalizedToolNames afterNames)) [] = Some m"
    "removedNames m = {n \<in> set (normalizedToolNames beforeNames). \<not> P n}" by (auto simp: removedNames_def)
  have "removedNames (map (\<lambda>(kind, names). (kind, sort_key nameText names)) m) = removedNames m"
    by (force simp: removedNames_def)
  with m show ?thesis by (simp add: removedToolNamesByRule_def)
qed

lemma those_None: "those xs = None \<longleftrightarrow> None \<in> set xs"
  by (induction xs) (auto split: option.splits)

text \<open>An entry that was found is a name: an inherited one matches nothing.\<close>

lemma found_entry: "findDenyingEntry name entries = Some None \<or> (\<exists>s. findDenyingEntry name entries = Some (Some (Name s)))"
proof (induction entries)
  case (Cons entry entries)
  then show ?case
    by (cases entry) (auto simp: matcher_rule policyAllows_def listHits_def effectiveEntries_def
        denyOnly_def expandToolGroups_def normalizeToolList_def)
qed simp

lemma matched_rules_total: "\<exists>rules. matchedPolicyRules policy kind names = Some rules"
proof -
  have "\<exists>rules. matchedRulesLoop policy kind names rs = Some rules" for rs
  proof (induction names arbitrary: rs)
    case (Cons name names)
    have "matchedPolicyRuleForTool name policy kind = Some None \<or>
        (\<exists>s. matchedPolicyRuleForTool name policy kind = Some (Some (Name s)))"
      using found_entry by (auto simp: matchedPolicyRuleForTool_def split: option.splits)
    then show ?case using Cons.IH by (auto simp: sanitizeAuditField_def Let_def)
  qed simp
  then show ?thesis by (auto simp: matchedPolicyRules_def)
qed

lemma sanitize_None: "sanitizeAuditField n = None \<longleftrightarrow> (\<exists>k. n = Inherited k)"
  by (cases n) (simp_all add: sanitizeAuditField_def Let_def)

lemma audit_removed_None: "auditRemovedTools label policy (kind, names) = None \<longleftrightarrow> (\<exists>k. Inherited k \<in> set names)"
proof -
  have bounded: "boundedToolNames names = None \<longleftrightarrow> (\<exists>k. Inherited k \<in> set names)"
    by (force simp: boundedToolNames_def those_None image_iff sanitize_None
        dest: sym [of None] intro: sym [of _ None])
  obtain rule where rule: "sanitizeAuditField (Name (labelForRuleKind label kind)) = Some rule"
    by (simp add: sanitizeAuditField_def Let_def)
  obtain rules where "matchedPolicyRules policy kind (take MAX_AUDIT_TOOL_NAMES names) = Some rules"
    using matched_rules_total by blast
  with rule bounded show ?thesis
    by (cases "boundedToolNames names") (auto simp: auditRemovedTools_def)
qed

lemma audit_None:
  assumes "normalizedToolNames afterNames = filter P (normalizedToolNames beforeNames)"
  shows "auditToolPolicyFilter label policy beforeNames afterNames = None \<longleftrightarrow>
    (\<exists>k. Inherited k \<in> set (normalizedToolNames beforeNames) \<and> \<not> P (Inherited k))"
proof -
  obtain m where m: "removedToolNamesByRule policy beforeNames afterNames = Some m"
    "removedNames m = {n \<in> set (normalizedToolNames beforeNames). \<not> P n}"
    using removed_by_rule [OF assms] by blast
  have "None \<in> set (map (auditRemovedTools label policy) m) \<longleftrightarrow> (\<exists>k. Inherited k \<in> removedNames m)"
  proof -
    have "None \<in> set (map (auditRemovedTools label policy) m) \<longleftrightarrow>
        (\<exists>(kind, names) \<in> set m. auditRemovedTools label policy (kind, names) = None)"
      by (force simp: image_iff)
    then show ?thesis by (auto simp: audit_removed_None removedNames_def)
  qed
  with m show ?thesis by (simp add: auditToolPolicyFilter_def those_None)
qed

text \<open>Only two names are inherited: normalizing folds the case, and the other keys have capitals.\<close>

definition PROTOTYPE_TOOL_NAMES :: "string list" where
  "PROTOTYPE_TOOL_NAMES = [''constructor'', ''__proto__'']"

lemma inherited_names:
  "(\<exists>k. normalizeToolName (Name s) = Inherited k) \<longleftrightarrow> nameKey s \<in> set PROTOTYPE_TOOL_NAMES"
proof -
  have keys: "filter (\<lambda>k. nameKey k = k) OBJECT_PROTOTYPE_KEYS = PROTOTYPE_TOOL_NAMES" by code_simp
  have fixed: "nameKey (nameKey s) = nameKey s" using fold_idem [of "Name s"] by simp
  have "nameKey s \<in> set OBJECT_PROTOTYPE_KEYS \<longleftrightarrow> nameKey s \<in> set PROTOTYPE_TOOL_NAMES"
    using fixed unfolding keys [symmetric] by simp
  moreover have "map_of TOOL_NAME_ALIASES k = None" if "k \<in> set PROTOTYPE_TOOL_NAMES" for k
    using that by (auto simp: PROTOTYPE_TOOL_NAMES_def TOOL_NAME_ALIASES_def)
  ultimately show ?thesis
    by (auto simp: normalizeToolName_def objectGet_def Let_def split: option.splits)
qed

section \<open>The layers\<close>

definition layerAllows :: "plugin_tool_groups \<Rightarrow> pipeline_step \<Rightarrow> agent_tool \<Rightarrow> bool" where
  "layerAllows groups step tool \<longleftrightarrow>
     isToolAllowedByPolicyName (Name (atName tool)) (expandPolicyWithPluginGroups (psPolicy step) groups) = Some True"

text \<open>A tool whose name, folded, every object inherits.\<close>

definition prototypeTool :: "agent_tool \<Rightarrow> bool" where
  "prototypeTool tool \<longleftrightarrow> nameKey (atName tool) \<in> set PROTOTYPE_TOOL_NAMES"

lemma plain_not_prototype: "plainId (atName tool) \<Longrightarrow> \<not> prototypeTool tool"
  using plainId_canonical(2) [of "atName tool"]
  by (auto simp: prototypeTool_def plainId_def PROTOTYPE_TOOL_NAMES_def OBJECT_PROTOTYPE_KEYS_def)

lemma analyze_policy [simp]: "arPolicy (analyzeAllowlistByToolType policy groups core declared) = policy"
  by (simp add: analyzeAllowlistByToolType_def Let_def split: option.split)

lemma warnAbout_tools [simp]: "pcTools (warnAbout w st) = pcTools st"
  by (simp add: warnAbout_def split: option.split prod.split)

lemma filtered_names:
  "normalizedToolNames (map atName (filter (\<lambda>t. P (normalizeToolName (Name (atName t)))) tools))
     = filter P (normalizedToolNames (map atName tools))"
  by (induction tools) (simp_all add: normalizedToolNames_def normalizeToolList_def)

lemma applyStep_rule:
  "map_option pcTools (applyStep groups core declared step st) =
     (if list_ex (\<lambda>tool. prototypeTool tool \<and> \<not> layerAllows groups step tool) (pcTools st) then None
      else Some (filter (layerAllows groups step) (pcTools st)))"
proof (cases "psPolicy step")
  case None
  then show ?thesis
    by (simp add: applyStep_def layerAllows_def expandPolicyWithPluginGroups_def isToolAllowedByPolicyName_def
        list_ex_iff)
next
  case (Some p)
  define q where "q = \<lparr>tpAllow = expandPluginGroups (tpAllow p) groups, tpDeny = expandPluginGroups (tpDeny p) groups,
    tpImplicitAllowAll = False\<rparr>"
  have q: "expandPolicyWithPluginGroups (Some p) groups = Some q" by (simp add: expandPolicyWithPluginGroups_def q_def)
  then have allows: "layerAllows groups step = (\<lambda>t. policyAllows q (normalizeToolName (Name (atName t))))"
    using Some by (intro ext) (simp add: layerAllows_def matcher_rule)
  let ?audit = "auditToolPolicyFilter (psLabel step) q (map atName (pcTools st))
      (map atName (filter (layerAllows groups step) (pcTools st)))"
  have "?audit = None \<longleftrightarrow> (\<exists>k. Inherited k \<in> set (normalizedToolNames (map atName (pcTools st)))
      \<and> \<not> policyAllows q (Inherited k))"
    unfolding allows by (rule audit_None [OF filtered_names])
  also have "\<dots> \<longleftrightarrow> (\<exists>tool \<in> set (pcTools st). \<exists>k. normalizeToolName (Name (atName tool)) = Inherited k \<and>
      \<not> policyAllows q (normalizeToolName (Name (atName tool))))"
  proof -
    have "Inherited k \<in> set (normalizedToolNames (map atName tools)) \<longleftrightarrow>
        (\<exists>tool \<in> set tools. normalizeToolName (Name (atName tool)) = Inherited k)"
      for k and tools :: "agent_tool list"
      by (force simp: normalizedToolNames_def normalizeToolList_def image_iff intro: sym)
    then show ?thesis by (simp only:) auto
  qed
  also have "\<dots> \<longleftrightarrow> list_ex (\<lambda>tool. prototypeTool tool \<and> \<not> layerAllows groups step tool) (pcTools st)"
    by (auto simp: list_ex_iff allows prototypeTool_def simp flip: inherited_names)
  finally show ?thesis
    using Some q by (auto simp: applyStep_def filter_rule Let_def simp flip: allows)
qed

lemma pipeline_rule:
  "map_option pcTools (applyToolPolicyPipeline tools steps declared cache) =
     (let allowed = (\<lambda>tool. list_all (\<lambda>step. layerAllows (buildPluginToolGroups tools) step tool) steps)
      in if list_ex (\<lambda>tool. prototypeTool tool \<and> \<not> allowed tool) tools then None
         else Some (filter allowed tools))"
proof -
  have "map_option pcTools (applySteps groups core declared steps st) =
     (if list_ex (\<lambda>tool. prototypeTool tool \<and> \<not> list_all (\<lambda>step. layerAllows groups step tool) steps) (pcTools st)
      then None else Some (filter (\<lambda>tool. list_all (\<lambda>step. layerAllows groups step tool) steps) (pcTools st)))"
    for groups core st
  proof (induction steps arbitrary: st)
    case (Cons step steps)
    show ?case
    proof (cases "applyStep groups core declared step st")
      case None
      then have "list_ex (\<lambda>tool. prototypeTool tool \<and> \<not> layerAllows groups step tool) (pcTools st)"
        using applyStep_rule [of groups core declared step st] by (simp split: if_splits)
      then show ?thesis using None by (auto simp: list_ex_iff)
    next
      case (Some st1)
      then have st1: "pcTools st1 = filter (layerAllows groups step) (pcTools st)"
        and no: "\<not> list_ex (\<lambda>tool. prototypeTool tool \<and> \<not> layerAllows groups step tool) (pcTools st)"
        using applyStep_rule [of groups core declared step st] by (auto split: if_splits)
      show ?thesis
        using Cons.IH [of st1] Some no unfolding st1
        by (auto simp: list_ex_iff conj_commute)
    qed
  qed (simp add: list_ex_iff)
  from this [of _ _ "\<lparr>pcTools = tools, pcWarnings = [], pcEvents = [], pcAudits = [], pcCache = cache\<rparr>"]
  show ?thesis unfolding applyToolPolicyPipeline_def Let_def by simp
qed

lemma pipeline_returns:
  assumes "list_all (\<lambda>tool. \<not> prototypeTool tool) tools"
  shows "\<exists>st. applyToolPolicyPipeline tools steps declared cache = Some st \<and>
     pcTools st = filter (\<lambda>tool. list_all (\<lambda>step. layerAllows (buildPluginToolGroups tools) step tool) steps) tools"
proof -
  have "\<not> list_ex (\<lambda>tool. prototypeTool tool \<and> \<not> Q tool) tools" for Q
    using assms by (auto simp: list_ex_iff list_all_iff)
  then have "map_option pcTools (applyToolPolicyPipeline tools steps declared cache) =
      Some (filter (\<lambda>tool. list_all (\<lambda>step. layerAllows (buildPluginToolGroups tools) step tool) steps) tools)"
    by (simp add: pipeline_rule Let_def)
  then show ?thesis by auto
qed

lemma pipeline_result:
  "applyToolPolicyPipeline tools steps declared cache = Some st \<Longrightarrow>
   pcTools st = filter (\<lambda>tool. list_all (\<lambda>step. layerAllows (buildPluginToolGroups tools) step tool) steps) tools"
  using pipeline_rule [of tools steps declared cache] by (auto simp: Let_def split: if_splits)

text \<open>
  C13. Applying the layers leaves, in their order, those tools that every layer allows by itself, its
  plugin entries expanded: no layer gives back what another takes away, and neither the order of the
  layers nor their warnings and audits matter.  It throws, in the audit, exactly when some layer
  takes away a tool named \<open>constructor\<close> or \<open>__proto__\<close>, in any case and with any blanks around.
\<close>

theorem pipeline_is_an_intersection:
  "map_option pcTools (applyToolPolicyPipeline tools steps declared cache) =
     (let allowed = (\<lambda>tool. list_all (\<lambda>step. layerAllows (buildPluginToolGroups tools) step tool) steps)
      in if list_ex (\<lambda>tool. nameKey (atName tool) \<in> {''constructor'', ''__proto__''} \<and> \<not> allowed tool) tools
         then None else Some (filter allowed tools))"
  using pipeline_rule [of tools steps declared cache] by (simp add: prototypeTool_def PROTOTYPE_TOOL_NAMES_def)

text \<open>What an entry covers: the members of the group it names, or what its pattern matches.\<close>

definition entryCovers :: "string \<Rightarrow> tool_name \<Rightarrow> bool" where
  "entryCovers s name \<longleftrightarrow>
     (case toolGroup (Name s) of Some tools \<Rightarrow> name \<in> Name ` set tools | None \<Rightarrow> matchesGlob name (patternOf s))"

lemma globTest_star: "globTest p v \<Longrightarrow> globTest (CHR ''*'' # p) v"
  by (cases v) simp_all

lemma matches_itself: "matchesGlob (Name s) (patternOf s)"
proof -
  have "globTest s s" by (induction s) (auto simp: lineTerminator_def globTest_star)
  then show ?thesis by (simp add: patternOf_def)
qed

lemma covers_hits:
  assumes "Name s \<in> set l" "canonicalName s" "s \<noteq> []" "entryCovers s name"
  shows "listHits (Some l) name"
proof -
  have in_list: "Name s \<in> set (normalizeToolList (Some l))"
    using assms(1-3) by (force simp: normalizeToolList_def canonicalName_def)
  show ?thesis
  proof (cases "toolGroup (Name s)")
    case None
    with in_list have "s \<in> set (effectiveEntries (Some l))"
      by (auto simp: effectiveEntries_def expandToolGroups_def intro!: bexI [of _ "Name s"])
    with assms(4) None show ?thesis by (auto simp: listHits_def list_ex_iff entryCovers_def)
  next
    case (Some g)
    with assms(4) obtain m where m: "name = Name m" "m \<in> set g" by (auto simp: entryCovers_def)
    with in_list Some have "m \<in> set (effectiveEntries (Some l))"
      by (auto simp: effectiveEntries_def expandToolGroups_def intro!: bexI [of _ "Name s"])
    with m(1) matches_itself show ?thesis by (auto simp: listHits_def list_ex_iff)
  qed
qed

text \<open>
  C5. A tool that the deny list of any layer covers, by its name in any spelling, by an alias, by a
  pattern or by a core group, is not offered, whatever the other layers allow; unless the entry is
  also the id of a plugin.
\<close>

theorem denied_tools_are_not_offered:
  assumes "applyToolPolicyPipeline tools steps declared cache = Some st"
    and "step \<in> set steps" "psPolicy step = Some p" "tpDeny p = Some deny" "entry \<in> set deny"
    and "normalizeToolName entry = Name s" "s \<noteq> []" "s \<noteq> ''group:plugins''"
    and "jm_get (pgByPlugin (buildPluginToolGroups tools)) s = None"
    and "entryCovers s (normalizeToolName (Name (atName tool)))"
  shows "tool \<notin> set (pcTools st)"
proof -
  let ?groups = "buildPluginToolGroups tools"
  have "expandPluginEntry ?groups entry = [Name s]"
    using assms(6,8,9) by (simp add: expandPluginEntry_def pluginToolsOf_def)
  moreover define l where "l = uniqueValues (concat (map (expandPluginEntry ?groups) deny))"
  ultimately have l: "expandPluginGroups (Some deny) ?groups = Some l" "Name s \<in> set l"
    using assms(5) by (auto simp: expandPluginGroups_def intro!: bexI [of _ entry])
  have "listHits (Some l) (normalizeToolName (Name (atName tool)))"
    by (rule covers_hits [OF l(2) normalized_canonical [OF assms(6)] assms(7,10)])
  then have "\<not> layerAllows ?groups step tool"
    using assms(3,4) l(1) by (simp add: layerAllows_def expandPolicyWithPluginGroups_def matcher_rule policyAllows_def)
  with pipeline_result [OF assms(1)] assms(2) show ?thesis by (auto simp: list_all_iff)
qed

theorem denied_tools_are_not_offered_witness:
  "\<exists>st. applyToolPolicyPipeline [\<lparr>atName = ''exec'', atPlugin = None\<rparr>]
      [pipelineLayer None (Some \<lparr>tpAllow = None, tpDeny = Some [Name '' Bash''], tpImplicitAllowAll = False\<rparr>) ''x'' []]
      \<lparr>dtPluginToolNames = [], dtPluginIds = [], dtMcpServerNames = []\<rparr> \<lparr>wcSeen = [], wcOrder = []\<rparr> = Some st \<and>
    \<lparr>atName = ''exec'', atPlugin = None\<rparr> \<notin> set (pcTools st)"
proof -
  let ?tool = "\<lparr>atName = ''exec'', atPlugin = None\<rparr>"
  obtain st where st: "applyToolPolicyPipeline [?tool]
      [pipelineLayer None (Some \<lparr>tpAllow = None, tpDeny = Some [Name '' Bash''], tpImplicitAllowAll = False\<rparr>) ''x'' []]
      \<lparr>dtPluginToolNames = [], dtPluginIds = [], dtMcpServerNames = []\<rparr> \<lparr>wcSeen = [], wcOrder = []\<rparr> = Some st"
    using pipeline_returns [of "[?tool]"] plain_not_prototype [of ?tool]
    by (force simp: plainId_def OBJECT_PROTOTYPE_KEYS_def)
  have "normalizeToolName (Name '' Bash'') = Name ''exec''" unfolding normalizeToolName_def by code_simp
  moreover have "jm_get (pgByPlugin (buildPluginToolGroups [?tool])) ''exec'' = None"
    by (simp add: buildPluginToolGroups_def addPluginTool_def)
  moreover have "entryCovers ''exec'' (normalizeToolName (Name (atName ?tool)))"
    using plain_no_group [of "''exec''"] matches_itself [of "''exec''"]
    by (simp add: entryCovers_def normalize_canonical plainId_def OBJECT_PROTOTYPE_KEYS_def)
  moreover define step where "step = pipelineLayer None (Some \<lparr>tpAllow = None, tpDeny = Some [Name '' Bash''],
    tpImplicitAllowAll = False\<rparr>) ''x'' []"
  ultimately have "?tool \<notin> set (pcTools st)"
    by (intro denied_tools_are_not_offered [OF st [folded step_def], of step "the (psPolicy step)" "[Name '' Bash'']"
          "Name '' Bash''" "''exec''"]) (simp_all add: step_def pipelineLayer_def)
  with st show ?thesis by blast
qed

section \<open>Entries that do not mean what they name\<close>

text \<open>
  C22. The entries \<open>constructor\<close> and \<open>__proto__\<close> name no tool at all: the table of aliases answers
  with what every object inherits.  A policy that allows only such a tool allows every tool, and one
  that denies it denies none.
\<close>

theorem prototype_entries_open_policies:
  fixes name :: tool_name and declared :: declared_tools
  shows "isToolAllowedByPolicyName name (Some \<lparr>tpAllow = Some [Name ''constructor''],
      tpDeny = Some [Name ''__proto__''], tpImplicitAllowAll = False\<rparr>) = Some True \<and>
    isToolAllowedByPolicyName name (Some \<lparr>tpAllow = Some [Name ''__proto__''],
      tpDeny = Some [Name ''constructor''], tpImplicitAllowAll = False\<rparr>) = Some True"
proof -
  have "normalizeToolName (Name ''constructor'') = Inherited ''constructor''"
    "normalizeToolName (Name ''__proto__'') = Inherited ''__proto__''"
    unfolding normalizeToolName_def by code_simp+
  moreover have "toolGroup (Inherited ''constructor'') = None" "toolGroup (Inherited ''__proto__'') = None"
    by (rule inherited_no_group, simp add: OBJECT_PROTOTYPE_KEYS_def)+
  ultimately have "effectiveEntries (Some [Name ''constructor'']) = []" "effectiveEntries (Some [Name ''__proto__'']) = []"
    by (simp_all add: effectiveEntries_def expandToolGroups_def normalizeToolList_def)
  then show ?thesis by (simp add: matcher_rule policyAllows_def listHits_def)
qed

text \<open>
  C26. The id of a plugin that is also the name of a core tool takes an entry over: denying the name
  takes away the plugin's tools, and the core tool stays.
\<close>

theorem plugin_id_captures_deny:
  assumes "plainId c" "plainId d" "c \<noteq> d"
  shows "\<exists>st. applyToolPolicyPipeline [\<lparr>atName = c, atPlugin = None\<rparr>, \<lparr>atName = d, atPlugin = Some c\<rparr>]
      [pipelineLayer None (Some \<lparr>tpAllow = None, tpDeny = Some [Name c], tpImplicitAllowAll = False\<rparr>) label []]
      declared cache = Some st \<and> pcTools st = [\<lparr>atName = c, atPlugin = None\<rparr>]"
proof -
  let ?groups = "buildPluginToolGroups [\<lparr>atName = c, atPlugin = None\<rparr>, \<lparr>atName = d, atPlugin = Some c\<rparr>]"
  have n: "normalizeToolName (Name c) = Name c" "normalizeToolName (Name d) = Name d"
    using assms(1,2) by (simp_all add: normalize_canonical plainId_canonical)
  have "c \<noteq> ''group:plugins''" "c \<noteq> []" using assms(1) by (auto simp: plainId_def Let_def)
  moreover have "nameKey c = c" using assms(1) by (rule plainId_canonical)
  ultimately have "?groups = \<lparr>pgAll = [Name d], pgByPlugin = [(c, [Name d])]\<rparr>"
    by (simp add: buildPluginToolGroups_def addPluginTool_def n jm_set_def Let_def)
  then have expand: "expandPolicyWithPluginGroups (Some \<lparr>tpAllow = None, tpDeny = Some [Name c], tpImplicitAllowAll = False\<rparr>) ?groups
      = Some \<lparr>tpAllow = None, tpDeny = Some [Name d], tpImplicitAllowAll = False\<rparr>"
    using \<open>c \<noteq> ''group:plugins''\<close>
    by (simp add: expandPolicyWithPluginGroups_def expandPluginGroups_def expandPluginEntry_def pluginToolsOf_def n)
  have "effectiveEntries (Some [Name d]) = [d]"
    using plain_no_group [OF assms(2)] assms(2)
    by (simp add: effectiveEntries_def expandToolGroups_def normalizeToolList_def n plainId_def)
  moreover have "effectiveEntries None = []"
    by (simp add: effectiveEntries_def expandToolGroups_def normalizeToolList_def)
  moreover have "patternOf d = GlobExact d" using assms(2) by (auto simp: patternOf_def plainId_def list_all_iff Let_def)
  ultimately show ?thesis
    using pipeline_returns [of "[\<lparr>atName = c, atPlugin = None\<rparr>, \<lparr>atName = d, atPlugin = Some c\<rparr>]"
        "[pipelineLayer None (Some \<lparr>tpAllow = None, tpDeny = Some [Name c], tpImplicitAllowAll = False\<rparr>) label []]"] assms
    by (simp add: plain_not_prototype layerAllows_def pipelineLayer_def expand matcher_rule policyAllows_def listHits_def n)
qed

theorem plugin_id_captures_deny_witness:
  "\<exists>st. applyToolPolicyPipeline [\<lparr>atName = ''exec'', atPlugin = None\<rparr>, \<lparr>atName = ''shell'', atPlugin = Some ''exec''\<rparr>]
      [pipelineLayer None (Some \<lparr>tpAllow = None, tpDeny = Some [Name ''exec''], tpImplicitAllowAll = False\<rparr>) ''tools.deny'' []]
      \<lparr>dtPluginToolNames = [], dtPluginIds = [], dtMcpServerNames = []\<rparr> \<lparr>wcSeen = [], wcOrder = []\<rparr> = Some st \<and>
    pcTools st = [\<lparr>atName = ''exec'', atPlugin = None\<rparr>]"
  by (rule plugin_id_captures_deny) (simp_all add: plainId_def OBJECT_PROTOTYPE_KEYS_def)

end
