(* ===== verification/Spec2Isabelle.thy ===== *)
theory Spec2Isabelle
  imports CommandQueueProofs CommandTimeout QueueMigration IngressRuntimeProofs MentionGating
    FixedWindow DedupeCache ClientAddress AuthRateLimit OperatorScopes HeartbeatCooldown
    HeartbeatWakeProofs RouteProofs SessionKeyProofs FollowupReach WriterQueueGaps SessionProgress
    SessionAdmissions ToolPolicyProofs
begin

text \<open>
  A verification development of the gateway core of this repository: what the gateway admits,
  routes, queues, times out, rate-limits and lets through.  All paths are under \<open>src/\<close> of the repository
  unless a package is named.

  \<^bold>\<open>The program's parts and how they interact\<close>

  A message arrives on a channel.  The ingress (\<open>channels/message-access\<close>) decides from the channel's
  configuration whether its sender may talk to the agent, must pair first, or is ignored.  The routing
  (\<open>routing/resolve-route.ts\<close>) finds the agent and the session it belongs to.  What is dispatched becomes root work, for which the gateway's admission
  (\<open>process/gateway-work-admission.ts\<close>) must be open, and runs as a command in a lane of the
  in-process queue (\<open>process/command-queue.ts\<close>), with a timeout its caller chooses.  A restart or a
  suspension closes admission, waits for the roots and the commands to drain, and resumes.
  A message for a session that is busy waits in the session's queue of follow-up replies
  (\<open>auto-reply/reply/queue\<close>), which a drain empties when the session is free.
  Heartbeats wake agents from inside, through a queue that coalesces them (\<open>infra/heartbeat-wake.ts\<close>)
  and under a cooldown; clients of the gateway's socket are
  authenticated under a rate limiter keyed by their address and hold operator scopes.

  \<^bold>\<open>Theories\<close>

  \<^item> \<open>Prelude\<close>, \<open>JsNumber\<close>, \<open>JsMap\<close>: the JavaScript operations the code uses (strings, \<open>??\<close>, arrays,
    \<open>Set\<close> and \<open>Map\<close> in insertion order, numbers with \<open>NaN\<close> and infinities), with
    \<open>packages/normalization-core\<close> (\<open>string-coerce.ts\<close>, \<open>string-normalization.ts\<close>,
    \<open>number-coercion.ts\<close>) and \<open>infra/map-size.ts\<close>.  The locale \<open>keyed_store\<close> is the contract of a
    \<open>Map\<close>, interpreted as \<open>jm\<close>.
  \<^item> \<open>Interfaces\<close>: the contracts several components share, as locales.  \<open>generation_guard\<close> and
    \<open>generation_lease\<close>: what carries an old generation does nothing; \<open>work_gate\<close>: a closed gate
    refuses.  \<open>GatewayAdmission\<close> and \<open>CommandQueueProofs\<close> interpret them.
  \<^item> \<open>GatewayAdmission\<close>: \<open>process/gateway-work-admission.ts\<close>.  The record \<open>admission_state\<close> is the
    module's state, roots and leases live in explicit stores, and a parked promise is a token in a
    waiter list.  \<open>AsyncLocalStorage\<close> is the argument saying which root the calling chain carries.
  \<^item> \<open>CommandQueue\<close>, \<open>CommandQueueProofs\<close>: \<open>process/command-queue.ts\<close>.  \<open>queue_state\<close> is the module's
    state; started commands are \<open>running\<close>, and the settlement of a promise is an entry of \<open>settled\<close>.
    The pump is the loop of \<open>drainLane\<close>, which terminates because every round takes an entry out of
    the queue.  The admission gate of \<open>GatewayAdmission\<close> is one of its arguments.
  \<^item> \<open>CommandTimeout\<close>: \<open>runQueueEntryTask\<close> of the same file, as a timer state machine.
  \<^item> \<open>QueueMigration\<close>: \<open>getQueueState\<close> of the same file on a state left by older code.
  \<^item> \<open>AllowFrom\<close>: \<open>channels/allow-from.ts\<close> and the effective allowlists of the ingress.
  \<^item> \<open>MentionGating\<close>: \<open>channels/mention-gating.ts\<close>, \<open>channels/command-gating.ts\<close>.
  \<^item> \<open>IngressTypes\<close>, \<open>IngressIdentity\<close>, \<open>IngressState\<close>, \<open>IngressDecision\<close>, \<open>IngressRuntime\<close>:
    \<open>channels/message-access/types.ts\<close>, \<open>runtime-identity.ts\<close>, \<open>state.ts\<close>, \<open>allowlist.ts\<close> with
    \<open>sender-gates.ts\<close> and \<open>decision.ts\<close>, and \<open>runtime.ts\<close> with \<open>runtime-access-groups.ts\<close>, in the order in
    which an event passes them.  The locale \<open>ingress_matcher\<close> is what the state resolution needs of an
    identity, interpreted as \<open>identity\<close>.
  \<^item> \<open>IngressProofs\<close>, \<open>IngressRuntimeProofs\<close>: the decision table, what dispatch implies, and the
    projections the channels read.
  \<^item> \<open>AuthRateLimit\<close>, \<open>FixedWindow\<close>, \<open>DedupeCache\<close>: \<open>gateway/auth-rate-limit.ts\<close>,
    \<open>infra/fixed-window-rate-limit.ts\<close>, \<open>infra/dedupe.ts\<close>.
  \<^item> \<open>ClientAddress\<close>: the client address behind trusted proxies, of \<open>gateway/net.ts\<close> and
    \<open>packages/net-policy/src/ip.ts\<close>; the \<open>ipaddr.js\<close> package is the argument \<open>ip_library\<close>.
  \<^item> \<open>OperatorScopes\<close>: \<open>shared/operator-scope-compat.ts\<close>, \<open>gateway/operator-scopes.ts\<close>.
  \<^item> \<open>HeartbeatCooldown\<close>: \<open>infra/heartbeat-cooldown.ts\<close> and the deferral path of
    \<open>infra/heartbeat-runner.ts\<close>.
  \<^item> \<open>HeartbeatWake\<close>, \<open>HeartbeatWakeProofs\<close>: \<open>infra/heartbeat-wake.ts\<close>, \<open>infra/heartbeat-reason.ts\<close>.  The
    record \<open>wake_state\<close> is the module's state; the timer's callback is cut at its \<open>await\<close>, and what is
    left of it is a \<open>wake_batch\<close>.
  \<^item> \<open>SessionKeys\<close>, \<open>SessionKeyParse\<close>, \<open>SessionKeyProofs\<close>: agent, account and peer identifiers and
    session keys, how they are built and how they are read
    (\<open>packages/normalization-core/src/agent-id.ts\<close>, \<open>routing/account-id.ts\<close>, \<open>routing/session-key.ts\<close>,
    \<open>sessions/session-key-utils.ts\<close>).
  \<^item> \<open>RouteBindings\<close>, \<open>RouteResolution\<close>, \<open>RouteProofs\<close>: \<open>routing/resolve-route.ts\<close> with
    \<open>routing/binding-scope.ts\<close> and \<open>agents/agent-scope-config.ts\<close>.  The memo tables of a configuration
    are the record \<open>route_caches\<close>, and the identity of a configuration's sections is a number.
  \<^item> \<open>Utf16Text\<close>, \<open>QueueHelpers\<close>, \<open>JsonKey\<close>: \<open>utf16-slice.ts\<close> of \<open>packages/normalization-core\<close>,
    \<open>utils/queue-helpers.ts\<close>, and \<open>JSON.stringify\<close> of the arrays the queue keys are made of.
  \<^item> \<open>FollowupTypes\<close>, \<open>FollowupQueue\<close>, \<open>FollowupDrain\<close>: the queues of follow-up replies,
    \<open>auto-reply/reply/queue\<close> (\<open>types.ts\<close>, \<open>state.ts\<close>, \<open>enqueue.ts\<close>, \<open>cleanup.ts\<close>, \<open>drain.ts\<close>).  Runs,
    lifecycles and queue objects are shared by reference in the code; they live in the heaps of the
    record \<open>followup_world\<close>.
  \<^item> \<open>FollowupProofs\<close> has the lemmas on these operations, \<open>FollowupSamples\<close> the conditions of an
    admission and small worlds; \<open>FollowupClaims\<close>, \<open>FollowupLifecycles\<close>, \<open>FollowupSummaries\<close> and
    \<open>FollowupDrainProofs\<close> have the properties of enqueueing, of lifecycles, of summaries and of drains;
    \<open>FollowupReach\<close> lets the segments of all callers interleave and has what every reachable world keeps.
  \<^item> \<open>WriterQueue\<close>, \<open>WriterQueueProofs\<close>, \<open>WriterQueueGaps\<close>: \<open>shared/store-writer-queue.ts\<close>, the queues
    behind the locks of sessions and the writers of session stores.  A drain is cut at its awaits, and
    the async context of a writer is the list of the writers around it.
  \<^item> \<open>FifoLanes\<close>: the contract of a lane in which calls wait for a lock, the locale \<open>fifo_lanes\<close>,
    interpreted on the writer queues and on the locks of sessions.
  \<^item> \<open>SessionAdmission\<close>: \<open>sessions/session-lifecycle-identity.ts\<close>,
    \<open>sessions/session-work-admission-handoff.ts\<close> and the registry of
    \<open>sessions/session-lifecycle-admission.ts\<close>; \<open>SessionLifecycle\<close>: the mutations and admissions of the
    same file as actors whose phases are its awaits.
  \<^item> \<open>SessionLocks\<close>, \<open>SessionExclusion\<close>, \<open>SessionSamples\<close>, \<open>SessionProofs\<close>, \<open>SessionProgress\<close>,
    \<open>SessionAdmissions\<close>: who holds which lock, what the registry says of the actors, small worlds,
    exclusion, progress, and the admissions and their handoffs.
  \<^item> \<open>McpNames\<close>, \<open>ToolCatalog\<close>, \<open>ToolPolicy\<close>, \<open>ToolAudit\<close>, \<open>ToolPipeline\<close>, \<open>ToolPolicyProofs\<close>: which
    tools an agent may call, of \<open>agents/\<close>: \<open>agent-bundle-mcp-names.ts\<close>, \<open>tool-catalog.ts\<close>,
    \<open>tool-policy-shared.ts\<close>, \<open>glob-pattern.ts\<close>, \<open>tool-policy-match.ts\<close>, \<open>sandbox-tool-policy.ts\<close>,
    \<open>tool-policy.ts\<close>, \<open>tool-policy-audit.ts\<close> and \<open>tool-policy-pipeline.ts\<close>.  What a lookup in an object literal inherits from
    the prototype of objects is a value of its own.

  \<^bold>\<open>How code becomes definitions\<close>

  Each function is a definition of the same name; an object type is a record, a union a datatype, an
  exception or a rejected promise a value.  Stateful modules pass their state.  Asynchronous code is
  cut at its \<open>await\<close>s: what happens between two of them is one step, because JavaScript runs it
  without interleaving, and the step relations (\<open>admissionReachable\<close>, \<open>queueReachable\<close>,
  \<open>followup_step\<close>, \<open>writer_step\<close>, \<open>session_step\<close>, and the runs of events of the limiters, the cache
  and the timers) let the steps of different callers interleave freely.  Clocks and random values are arguments.  Numbers are integers where the code coerces them
  first and \<open>js_number\<close> where it does not.  No definition needs fuel: every loop is structural or has a
  measure, but for \<open>trimLoop\<close> and \<open>freeName\<close>, option-valued partial functions that are proved to return.

  \<^bold>\<open>What the lemmas show\<close>

  \<^item> Admission: reference counts equal live leases, a root is active while it has one unless a reset
    retired it, a closed gateway stays quiescent, parked promises
    have a waker, leases act once, superseded leases never.
  \<^item> Queue: commands are neither lost nor duplicated, order and concurrency limits hold, lanes are
    work-conserving, recoveries and restarts isolate what ran before, waiters are answered exactly
    when their tasks are done, timeouts are neither early nor lost.
  \<^item> Ingress: the gate graph implements a decision table; every decision is explained by its graph;
    only senders that the configuration or (for direct messages under pairing) the pairing store
    matches are dispatched; the projections agree with the decision.
  \<^item> Limiters and caches: quotas, lockouts that a flood cannot evict, exact counting in the window,
    duplicates exactly inside the window, addresses that headers cannot forge.
  \<^item> Scopes and heartbeats: delegation cannot escalate; runs are spaced and not starved; no wake is
    lost, whatever older deliveries answer, its timer is due in bounded time, coalescing keeps the most urgent, and where deliveries overlap or repeat.
  \<^item> Routing: the index and the memo tables implement a plain rule over the bindings, except where the
    table's key runs together; session keys keep peers apart, and what was built into them, opaque
    room identifiers included, is read back from them, except where a name reads like a marker.
  \<^item> Follow-up queues: the depth stays within the cap, an overflow drops the oldest runs that may go,
    a refusal changes nothing, redeliveries are refused, no lifecycle is forgotten and each is
    completed once, a collected batch has one authorization context, the counts of dropped runs stay
    right whatever interleaves; and three cases in which a drain loses runs or never ends.
  \<^item> Writer queues and sessions: a path's queue is a first-in-first-out lock, except in two cases of
    calls from inside a task; mutations and admissions of an identity exclude each other and never
    deadlock, the registry's queries are exact, a handoff adopts a lease once.
  \<^item> Tools: the names of MCP servers and tools are safe, bounded and apart; the layers of policies are
    an intersection, which throws exactly where its audit meets the name of a removed tool that is a
    key of the object prototype, and what a layer denies is not offered, except where a plugin's id or
    such a key stands for the entry.

  \<^bold>\<open>Not modelled\<close>

  Log lines other than those of the tool policies, diagnostics and metrics; the transport (sockets, HTTP, files, SQLite); the agent
  runtimes, model providers and tools; channel plugins, apps and user interfaces; configuration
  loading.  Of the modelled files: process-global singletons kept under a symbol are plain states,
  and heap identity of closures is an explicit identifier.  Of the drain of
  follow-up queues the rendering of prompts, images and transcript records and the combined abort
  signals are left out.  Of session lifecycle admission, what parses JSON (\<open>decodeSessionIdentity\<close>,
  \<open>collectActiveSessionWorkAdmissionIdentities\<close>), calls nested in the section of another call, and
  the early rejection that an aborted caller sees while its mutation is still queued.  The cron
  schedule rests on the \<open>croner\<close> package, and pairing, approvals and tasks on files and SQLite.
\<close>

end
